(* ===== verification/Go_Prelude.thy ===== *)
theory Go_Prelude
  imports Main "HOL-Library.Word" "HOL-Library.Char_ord" "HOL-Library.List_Lexorder"
    "HOL-Library.Product_Lexorder" "HOL-Library.Multiset"
begin

text \<open>
  What every component of the model shares: the Go \<open>error\<close> values of the modelled packages,
  results (an error or a value), Go maps as association lists, sorting with a comparison
  function, decimal printing, and the facts about them that the component proofs use.
\<close>

subsection \<open>Errors and results\<close>

text \<open>
  A Go \<open>error\<close> is an interface value: what a caller can observe is its dynamic type and, for the
  typed errors, the closed reason code. The diagnostic \<open>Detail\<close> strings never drive behaviour
  and are left out. \<open>PortError\<close> is the error of the ledger ports, \<open>ActivationError\<close> that of the release service, \<open>ContextError\<close> what \<open>ctx.Err()\<close> returns,
  \<open>PlainError\<close> an error made by \<open>fmt.Errorf\<close> or \<open>errors.New\<close>; \<open>Panicked\<close> stands for a \<open>panic\<close> the code itself raises.
\<close>

datatype go_error =
    CanonicalizationError string
  | SchemaError string
  | ValidationError string
  | ReplayError string
  | EvaluatorError string
  | PortError string
  | ActivationError string
  | OverflowError
  | ContextError
  | PlainError
  | Panicked

type_synonym 'a res = "go_error + 'a"
type_synonym int64 = "64 word"

text \<open>Sequencing of fallible steps: \<open>if err != nil { return err }\<close>.\<close>

definition and_then :: "'a res \<Rightarrow> ('a \<Rightarrow> 'b res) \<Rightarrow> 'b res" where
  "and_then r f = (case r of Inl e \<Rightarrow> Inl e | Inr a \<Rightarrow> f a)"

fun traverse :: "('a \<Rightarrow> 'b res) \<Rightarrow> 'a list \<Rightarrow> 'b list res" where
  "traverse f [] = Inr []"
| "traverse f (x # xs) =
     (case f x of Inl e \<Rightarrow> Inl e
      | Inr y \<Rightarrow> (case traverse f xs of Inl e \<Rightarrow> Inl e | Inr ys \<Rightarrow> Inr (y # ys)))"

text \<open>A loop whose body may return an error and otherwise has no result.\<close>

fun for_each :: "('a \<Rightarrow> unit res) \<Rightarrow> 'a list \<Rightarrow> unit res" where
  "for_each f [] = Inr ()"
| "for_each f (x # xs) = (case f x of Inl e \<Rightarrow> Inl e | Inr _ \<Rightarrow> for_each f xs)"

definition check :: "bool \<Rightarrow> go_error \<Rightarrow> unit res" where
  "check b e = (if b then Inr () else Inl e)"

subsection \<open>Go maps\<close>

text \<open>
  A Go map is an association list with pairwise distinct keys (\<open>gmap_ok\<close>); reading a missing key
  is explicit in \<open>map_of\<close>. \<open>gput\<close> is \<open>m[k] = v\<close>. Iteration follows the list; Go leaves the
  order open, so results that iterate are shown independent of it where they are.
\<close>

type_synonym 'v gmap = "(string \<times> 'v) list"

definition gmap_ok :: "('k \<times> 'v) list \<Rightarrow> bool" where
  "gmap_ok m = distinct (map fst m)"

fun gput :: "'k \<Rightarrow> 'v \<Rightarrow> ('k \<times> 'v) list \<Rightarrow> ('k \<times> 'v) list" where
  "gput k v [] = [(k, v)]"
| "gput k v ((k', v') # m) = (if k = k' then (k, v) # m else (k', v') # gput k v m)"

definition has_key :: "('k \<times> 'v) list \<Rightarrow> 'k \<Rightarrow> bool" where
  "has_key m k = (k \<in> set (map fst m))"

subsection \<open>Sorting with a comparison function\<close>

text \<open>
  \<open>sort.Slice\<close> and \<open>sort.SliceStable\<close> with a \<open>less\<close> closure, as a stable insertion sort.
\<close>

fun ins_by :: "('a \<Rightarrow> 'a \<Rightarrow> bool) \<Rightarrow> 'a \<Rightarrow> 'a list \<Rightarrow> 'a list" where
  "ins_by lt x [] = [x]"
| "ins_by lt x (y # ys) = (if lt y x then y # ins_by lt x ys else x # y # ys)"

fun sort_by :: "('a \<Rightarrow> 'a \<Rightarrow> bool) \<Rightarrow> 'a list \<Rightarrow> 'a list" where
  "sort_by lt [] = []"
| "sort_by lt (x # xs) = ins_by lt x (sort_by lt xs)"

subsection \<open>Decimal printing\<close>

fun nat_digits :: "nat \<Rightarrow> string" where
  "nat_digits n =
     (if n < 10 then [char_of (48 + n)]
      else nat_digits (n div 10) @ [char_of (48 + n mod 10)])"

declare nat_digits.simps [simp del]

text \<open>\<open>strconv.FormatInt(v, 10)\<close>.\<close>

definition format_int :: "int \<Rightarrow> string" where
  "format_int v = (if v < 0 then CHR ''-'' # nat_digits (nat (- v)) else nat_digits (nat v))"

subsection \<open>Shared facts\<close>

named_theorems res_simps \<open>rewriting of results\<close>

lemma and_then_simps [simp]:
  "and_then (Inl e) f = Inl e" "and_then (Inr a) f = f a"
  by (simp_all add: and_then_def)

lemma and_then_Inr [res_simps]: "and_then r f = Inr b \<longleftrightarrow> (\<exists>a. r = Inr a \<and> f a = Inr b)"
  by (cases r) auto

lemma check_Inr [res_simps]: "check b e = Inr u \<longleftrightarrow> b"
  by (simp add: check_def)

lemma check_simps [simp]: "check True e = Inr ()" "check False e = Inl e"
  by (simp_all add: check_def)

lemma check_Inl [res_simps]: "check b e = Inl e' \<longleftrightarrow> \<not> b \<and> e' = e"
  by (auto simp: check_def)

lemma for_each_Inr [res_simps]: "for_each f xs = Inr u \<longleftrightarrow> (\<forall>x \<in> set xs. f x = Inr ())"
  by (induction xs) (auto split: sum.splits)

lemma for_each_Inl: "for_each f xs = Inl e \<Longrightarrow> \<exists>x \<in> set xs. f x = Inl e"
  by (induction xs) (auto split: sum.splits)

lemma for_each_total: "for_each f xs = Inr () \<or> (\<exists>x \<in> set xs. \<exists>e. f x = Inl e \<and> for_each f xs = Inl e)"
  by (induction xs) (auto split: sum.splits)

lemma traverse_Inr [res_simps]:
  "traverse f xs = Inr ys \<longleftrightarrow> length ys = length xs \<and> (\<forall>i < length xs. f (xs ! i) = Inr (ys ! i))"
proof (induction xs arbitrary: ys)
  case Nil
  then show ?case by auto
next
  case (Cons x xs)
  show ?case
  proof (cases ys)
    case Nil
    then show ?thesis by (auto split: sum.splits)
  next
    case (Cons y zs)
    have "traverse f (x # xs) = Inr (y # zs) \<longleftrightarrow> f x = Inr y \<and> traverse f xs = Inr zs"
      by (auto split: sum.splits)
    with Cons.IH [of zs] Cons show ?thesis by (auto simp: All_less_Suc2)
  qed
qed

lemma traverse_map_Inr: "(\<And>x. x \<in> set xs \<Longrightarrow> f x = Inr (g x)) \<Longrightarrow> traverse f xs = Inr (map g xs)"
  by (induction xs) auto

text \<open>The length of a Go slice as an \<open>int\<close>.\<close>

lemma word_of_nat_length: "n < 2 ^ 63 \<Longrightarrow> sint (word_of_nat n :: int64) = int n"
  by (simp add: signed_of_nat signed_take_bit_int_eq_self_iff)

lemma map_of_gput [simp]: "map_of (gput k v m) = (map_of m)(k \<mapsto> v)"
  by (induction m) auto

lemma set_gput: "set (gput k v m) \<subseteq> insert (k, v) (set m)"
proof (induction m)
  case (Cons p m)
  then show ?case by (cases p) auto
qed simp

lemma gput_same: "map_of m k = Some v \<Longrightarrow> gput k v m = m"
  by (induction m) auto

lemma gput_gput: "gput k v (gput k w m) = gput k v m"
  by (induction m) auto

lemma keys_gput: "fst ` set (gput k v m) = insert k (fst ` set m)"
proof (induction m)
  case (Cons p m)
  then show ?case by (cases p) auto
qed simp

lemma gmap_ok_gput [simp]: "gmap_ok m \<Longrightarrow> gmap_ok (gput k v m)"
proof (induction m)
  case Nil
  then show ?case by (simp add: gmap_ok_def)
next
  case (Cons p m)
  obtain k' v' where p: "p = (k', v')" by (cases p)
  from Cons have IH: "gmap_ok (gput k v m)" and fresh: "k' \<notin> set (map fst m)"
    by (auto simp: gmap_ok_def p)
  show ?case
  proof (cases "k = k'")
    case True
    with Cons.prems show ?thesis by (simp add: gmap_ok_def p)
  next
    case False
    with fresh have "k' \<notin> fst ` set (gput k v m)"
      by (simp add: keys_gput)
    with IH False show ?thesis by (simp add: gmap_ok_def p)
  qed
qed

lemma gput_fresh: "k \<notin> set (map fst m) \<Longrightarrow> gput k v m = m @ [(k, v)]"
  by (induction m) auto

lemma gmap_ok_Nil [simp]: "gmap_ok []"
  by (simp add: gmap_ok_def)

lemma has_key_map_of: "has_key m k \<longleftrightarrow> map_of m k \<noteq> None"
  by (simp add: has_key_def map_of_eq_None_iff)

lemma mset_ins_by [simp]: "mset (ins_by lt x xs) = add_mset x (mset xs)"
  by (induction xs) auto

lemma mset_sort_by [simp]: "mset (sort_by lt xs) = mset xs"
  by (induction xs) auto

lemma set_sort_by [simp]: "set (sort_by lt xs) = set xs"
  by (metis mset_sort_by set_mset_mset)

lemma length_sort_by [simp]: "length (sort_by lt xs) = length xs"
  by (metis mset_sort_by size_mset)

text \<open>
  The interface a comparison closure has to offer to its sort: it orders by some key into a linear
  order. Under it the insertion sort is the library's \<open>sort_key\<close>, hence sorted, stable and, when
  the keys tell the elements apart, independent of the order of its input.
\<close>

locale keyed_less =
  fixes less :: "'a \<Rightarrow> 'a \<Rightarrow> bool"
    and key :: "'a \<Rightarrow> 'k::linorder"
  assumes less_key: "less a b \<longleftrightarrow> key a < key b"
begin

lemma ins_by_insort: "ins_by less x xs = insort_key key x xs"
  by (induction xs) (auto simp: less_key)

lemma sort_by_sort_key: "sort_by less xs = sort_key key xs"
  by (induction xs) (simp_all add: ins_by_insort)

lemma sorted_sort_by: "sorted (map key (sort_by less xs))"
  by (simp add: sort_by_sort_key)

lemma filter_key_inj:
  assumes "inj_on key (set zs)" and "k \<in> set zs"
  shows "filter (\<lambda>x. key k = key x) zs = replicate (count (mset zs) k) k"
proof -
  have "filter (\<lambda>x. key k = key x) zs = filter (\<lambda>x. k = x) zs"
    using assms by (intro filter_cong) (auto simp: inj_on_eq_iff)
  also have "\<dots> = replicate (count (mset zs) k) k"
    by (induction zs) auto
  finally show ?thesis .
qed

lemma sort_by_perm:
  assumes "mset xs = mset ys" and "inj_on key (set xs)"
  shows "sort_by less xs = sort_by less ys"
proof -
  have sets: "set ys = set xs"
    using assms(1) by (metis set_mset_mset)
  have "sort_key key ys = sort_key key xs"
  proof (rule properties_for_sort_key)
    fix k
    assume k: "k \<in> set (sort_key key xs)"
    have "filter (\<lambda>x. key k = key x) (sort_key key xs) = replicate (count (mset xs) k) k"
      using filter_key_inj [of "sort_key key xs" k] assms(2) k by simp
    moreover have "filter (\<lambda>x. key k = key x) ys = replicate (count (mset ys) k) k"
      using filter_key_inj [of ys k] assms(2) k sets by simp
    ultimately show "filter (\<lambda>x. key k = key x) (sort_key key xs) = filter (\<lambda>x. key k = key x) ys"
      using assms(1) by simp
  qed (use assms(1) in simp_all)
  then show ?thesis by (simp add: sort_by_sort_key)
qed

lemma sort_by_sorted: "sorted (map key xs) \<Longrightarrow> sort_by less xs = xs"
  by (simp add: sort_by_sort_key sort_key_id_if_sorted)

end

text \<open>Go's \<open><\<close> on strings compares bytes; \<open>sort.Strings\<close> sorts by it.\<close>

definition string_less :: "string \<Rightarrow> string \<Rightarrow> bool" where
  "string_less a b = (a < b)"

definition sort_strings :: "string list \<Rightarrow> string list" where
  "sort_strings = sort_by string_less"

interpretation str: keyed_less string_less "\<lambda>s. s"
  by unfold_locales (simp add: string_less_def)

lemma sort_strings_sort: "sort_strings xs = sort xs"
  by (simp add: sort_strings_def str.sort_by_sort_key)

end
