(* ===== verification/Go_Text.thy ===== *)
theory Go_Text
  imports Go_Prelude
begin

text \<open>
  The pieces of the Go language and standard library that the contract package uses on text: a Go
  string is a byte sequence (a HOL \<open>string\<close>, whose characters are bytes), \<open>range\<close> over a string
  decodes UTF-8 with U+FFFD for invalid bytes, \<open>utf8.Valid\<close>, \<open>WriteRune\<close>, \<open>utf16.Encode\<close>, and
  SHA-256 (\<open>crypto/sha256\<close>) with hexadecimal printing.
\<close>

subsection \<open>UTF-8 and UTF-16\<close>

type_synonym rune = nat

definition bytes_of :: "string \<Rightarrow> nat list" where
  "bytes_of s = map of_char s"

definition string_of :: "nat list \<Rightarrow> string" where
  "string_of bs = map char_of bs"

definition cont :: "nat \<Rightarrow> bool" where
  "cont b = (128 \<le> b \<and> b \<le> 191)"

text \<open>
  \<open>utf8.DecodeRune\<close>: the first rune and its width; an invalid sequence is U+FFFD of width 1.
\<close>

definition decode_rune :: "nat list \<Rightarrow> rune \<times> nat" where
  "decode_rune bs =
     (case bs of
        [] \<Rightarrow> (65533, 0)
      | b0 # r0 \<Rightarrow>
          if b0 < 128 then (b0, 1)
          else (case r0 of
              [] \<Rightarrow> (65533, 1)
            | b1 # r1 \<Rightarrow>
                if 194 \<le> b0 \<and> b0 \<le> 223 \<and> cont b1 then ((b0 - 192) * 64 + (b1 - 128), 2)
                else (case r1 of
                    [] \<Rightarrow> (65533, 1)
                  | b2 # r2 \<Rightarrow>
                      if 224 \<le> b0 \<and> b0 \<le> 239 \<and> cont b1 \<and> cont b2
                        \<and> (b0 = 224 \<longrightarrow> 160 \<le> b1) \<and> (b0 = 237 \<longrightarrow> b1 \<le> 159)
                      then ((b0 - 224) * 4096 + (b1 - 128) * 64 + (b2 - 128), 3)
                      else (case r2 of
                          [] \<Rightarrow> (65533, 1)
                        | b3 # r3 \<Rightarrow>
                            if 240 \<le> b0 \<and> b0 \<le> 244 \<and> cont b1 \<and> cont b2 \<and> cont b3
                              \<and> (b0 = 240 \<longrightarrow> 144 \<le> b1) \<and> (b0 = 244 \<longrightarrow> b1 \<le> 143)
                            then ((b0 - 240) * 262144 + (b1 - 128) * 4096 + (b2 - 128) * 64 + (b3 - 128), 4)
                            else (65533, 1)))))"

function decode_runes :: "nat list \<Rightarrow> rune list" where
  "decode_runes [] = []"
| "decode_runes (b # bs) =
     fst (decode_rune (b # bs)) # decode_runes (drop (snd (decode_rune (b # bs)) - 1) bs)"
  by pat_completeness auto
termination
  by (relation "measure length") auto

text \<open>\<open>utf8.Valid\<close>.\<close>

function utf8_valid :: "nat list \<Rightarrow> bool" where
  "utf8_valid [] = True"
| "utf8_valid (b # bs) =
     (decode_rune (b # bs) \<noteq> (65533, 1) \<and> utf8_valid (drop (snd (decode_rune (b # bs)) - 1) bs))"
  by pat_completeness auto
termination
  by (relation "measure length") auto

text \<open>\<open>utf8.EncodeRune\<close> (surrogates and runes above U+10FFFF are written as U+FFFD).\<close>

definition encode_rune :: "rune \<Rightarrow> nat list" where
  "encode_rune r =
     (if r < 128 then [r]
      else if r < 2048 then [192 + r div 64, 128 + r mod 64]
      else if (55296 \<le> r \<and> r \<le> 57343) \<or> 1114111 < r then [239, 191, 189]
      else if r < 65536 then [224 + r div 4096, 128 + r div 64 mod 64, 128 + r mod 64]
      else [240 + r div 262144, 128 + r div 4096 mod 64, 128 + r div 64 mod 64, 128 + r mod 64])"

text \<open>\<open>utf16.Encode\<close>: one unit for the basic plane, a surrogate pair above it.\<close>

definition utf16_units :: "rune \<Rightarrow> nat list" where
  "utf16_units r =
     (if r < 55296 \<or> (57344 \<le> r \<and> r < 65536) then [r]
      else if 65536 \<le> r \<and> r \<le> 1114111
        then [55296 + (r - 65536) div 1024, 56320 + (r - 65536) mod 1024]
      else [65533])"

definition utf16_encode :: "rune list \<Rightarrow> nat list" where
  "utf16_encode rs = concat (map utf16_units rs)"

definition runes :: "string \<Rightarrow> rune list" where
  "runes s = decode_runes (bytes_of s)"

definition valid_text :: "string \<Rightarrow> bool" where
  "valid_text s = utf8_valid (bytes_of s)"

subsection \<open>SHA-256\<close>

type_synonym u32 = "32 word"

definition sha_k :: "u32 list" where
  "sha_k =
    [1116352408, 1899447441, 3049323471, 3921009573, 961987163, 1508970993, 2453635748, 2870763221,
     3624381080, 310598401, 607225278, 1426881987, 1925078388, 2162078206, 2614888103, 3248222580,
     3835390401, 4022224774, 264347078, 604807628, 770255983, 1249150122, 1555081692, 1996064986,
     2554220882, 2821834349, 2952996808, 3210313671, 3336571891, 3584528711, 113926993, 338241895,
     666307205, 773529912, 1294757372, 1396182291, 1695183700, 1986661051, 2177026350, 2456956037,
     2730485921, 2820302411, 3259730800, 3345764771, 3516065817, 3600352804, 4094571909, 275423344,
     430227734, 506948616, 659060556, 883997877, 958139571, 1322822218, 1537002063, 1747873779,
     1955562222, 2024104815, 2227730452, 2361852424, 2428436474, 2756734187, 3204031479, 3329325298]"

type_synonym sha_state = "u32 \<times> u32 \<times> u32 \<times> u32 \<times> u32 \<times> u32 \<times> u32 \<times> u32"

definition sha_init :: sha_state where
  "sha_init = (1779033703, 3144134277, 1013904242, 2773480762, 1359893119, 2600822924, 528734635, 1541459225)"

definition sha_round :: "sha_state \<Rightarrow> u32 \<times> u32 \<Rightarrow> sha_state" where
  "sha_round st kw =
     (case st of (a, b, c, d, e, f, g, h) \<Rightarrow>
        let s1 = xor (word_rotr 6 e) (xor (word_rotr 11 e) (word_rotr 25 e));
            ch = xor (and e f) (and (not e) g);
            t1 = h + s1 + ch + fst kw + snd kw;
            s0 = xor (word_rotr 2 a) (xor (word_rotr 13 a) (word_rotr 22 a));
            maj = xor (and a b) (xor (and a c) (and b c));
            t2 = s0 + maj
        in (t1 + t2, a, b, c, d + t1, e, f, g))"

text \<open>The message schedule, newest word first.\<close>

fun sha_extend :: "nat \<Rightarrow> u32 list \<Rightarrow> u32 list" where
  "sha_extend 0 ws = ws"
| "sha_extend (Suc n) ws =
     (let w2 = ws ! 1; w15 = ws ! 14;
          s0 = xor (word_rotr 7 w15) (xor (word_rotr 18 w15) (drop_bit 3 w15));
          s1 = xor (word_rotr 17 w2) (xor (word_rotr 19 w2) (drop_bit 10 w2))
      in sha_extend n ((ws ! 15 + s0 + ws ! 6 + s1) # ws))"

fun be_words :: "nat list \<Rightarrow> u32 list" where
  "be_words (a # b # c # d # bs) =
     (push_bit 24 (of_nat a) + push_bit 16 (of_nat b) + push_bit 8 (of_nat c) + of_nat d) # be_words bs"
| "be_words _ = []"

definition sha_add :: "sha_state \<Rightarrow> sha_state \<Rightarrow> sha_state" where
  "sha_add x y =
     (case x of (a, b, c, d, e, f, g, h) \<Rightarrow> case y of (a', b', c', d', e', f', g', h') \<Rightarrow>
        (a + a', b + b', c + c', d + d', e + e', f + f', g + g', h + h'))"

definition sha_block :: "sha_state \<Rightarrow> nat list \<Rightarrow> sha_state" where
  "sha_block st blk =
     sha_add st (foldl sha_round st (zip sha_k (rev (sha_extend 48 (rev (be_words blk))))))"

function sha_blocks :: "sha_state \<Rightarrow> nat list \<Rightarrow> sha_state" where
  "sha_blocks st bs = (if length bs < 64 then st else sha_blocks (sha_block st (take 64 bs)) (drop 64 bs))"
  by pat_completeness auto
termination
  by (relation "measure (\<lambda>(st, bs). length bs)") auto

declare sha_blocks.simps [simp del]

definition sha_pad :: "nat list \<Rightarrow> nat list" where
  "sha_pad bs =
     (let n = length bs; bits = push_bit 3 (of_nat n :: 64 word)
      in bs @ 128 # replicate ((119 - n mod 64) mod 64) 0
           @ map (\<lambda>i. unat (take_bit 8 (drop_bit (8 * i) bits))) (rev [0..<8]))"

definition sha256_sum :: "string \<Rightarrow> sha_state" where
  "sha256_sum s = sha_blocks sha_init (sha_pad (bytes_of s))"

definition hex_digit :: "nat \<Rightarrow> char" where
  "hex_digit n = ''0123456789abcdef'' ! (n mod 16)"

definition hex_word :: "u32 \<Rightarrow> string" where
  "hex_word w = map (\<lambda>i. hex_digit (unat (take_bit 4 (drop_bit (4 * i) w)))) (rev [0..<8])"

definition hex_state :: "sha_state \<Rightarrow> string" where
  "hex_state st =
     (case st of (a, b, c, d, e, f, g, h) \<Rightarrow> concat (map hex_word [a, b, c, d, e, f, g, h]))"

subsection \<open>Facts about the encodings\<close>

definition scalar :: "rune \<Rightarrow> bool" where
  "scalar r = (r < 55296 \<or> (57344 \<le> r \<and> r \<le> 1114111))"

lemma base64_digit:
  "(z::nat) < 64 \<Longrightarrow> (a * 64 + z) div 64 = a" "(z::nat) < 64 \<Longrightarrow> (a * 64 + z) mod 64 = z"
  by simp_all

lemma encode_decode_2:
  assumes "194 \<le> b0" "b0 \<le> 223" "cont b1"
  shows "encode_rune ((b0 - 192) * 64 + (b1 - 128)) = [b0, b1]"
proof -
  obtain x y where "b0 = 192 + x" "b1 = 128 + y" "2 \<le> x" "x < 32" "y < 64"
    using assms that [of "b0 - 192" "b1 - 128"] by (auto simp: cont_def)
  then show ?thesis by (simp add: encode_rune_def)
qed

lemma encode_decode_3:
  assumes "224 \<le> b0" "b0 \<le> 239" "cont b1" "cont b2"
    "b0 = 224 \<longrightarrow> 160 \<le> b1" "b0 = 237 \<longrightarrow> b1 \<le> 159"
  defines "r \<equiv> (b0 - 224) * 4096 + (b1 - 128) * 64 + (b2 - 128)"
  shows "encode_rune r = [b0, b1, b2]" and "scalar r"
proof -
  obtain x y z where xyz: "b0 = 224 + x" "b1 = 128 + y" "b2 = 128 + z" "x < 16" "y < 64" "z < 64"
    using assms(1-4) that [of "b0 - 224" "b1 - 128" "b2 - 128"] by (auto simp: cont_def)
  with assms(5,6) have side: "x = 0 \<longrightarrow> 32 \<le> y" "x = 13 \<longrightarrow> y < 32" by auto
  have r: "r = x * 4096 + y * 64 + z" using xyz by (simp add: r_def)
  have "r = (x * 64 + y) * 64 + z" by (simp add: r)
  then have one: "r div 64 = x * 64 + y" "r mod 64 = z"
    using base64_digit xyz by presburger+
  have "r div 4096 = r div 64 div 64" by (simp add: div_mult2_eq)
  with one have div: "r div 4096 = x" "r div 64 mod 64 = y" "r mod 64 = z"
    using base64_digit xyz by presburger+
  have lo: "2048 \<le> r" using side xyz unfolding r by (cases "x = 0") auto
  have sur: "r < 55296 \<or> 57344 \<le> r"
    using side xyz unfolding r by (cases "x < 13"; cases "x = 13") auto
  have hi: "r < 65536" using xyz unfolding r by auto
  from lo sur hi div xyz show "encode_rune r = [b0, b1, b2]"
    by (auto simp: encode_rune_def)
  from sur hi show "scalar r" by (auto simp: scalar_def)
qed

lemma encode_decode_4:
  assumes "240 \<le> b0" "b0 \<le> 244" "cont b1" "cont b2" "cont b3"
    "b0 = 240 \<longrightarrow> 144 \<le> b1" "b0 = 244 \<longrightarrow> b1 \<le> 143"
  defines "r \<equiv> (b0 - 240) * 262144 + (b1 - 128) * 4096 + (b2 - 128) * 64 + (b3 - 128)"
  shows "encode_rune r = [b0, b1, b2, b3]" and "scalar r"
proof -
  obtain x y z w where xyz: "b0 = 240 + x" "b1 = 128 + y" "b2 = 128 + z" "b3 = 128 + w"
    "x < 5" "y < 64" "z < 64" "w < 64"
    using assms(1-5) that [of "b0 - 240" "b1 - 128" "b2 - 128" "b3 - 128"] by (auto simp: cont_def)
  with assms(6,7) have side: "x = 0 \<longrightarrow> 16 \<le> y" "x = 4 \<longrightarrow> y < 16" by auto
  have r: "r = x * 262144 + y * 4096 + z * 64 + w" using xyz by (simp add: r_def)
  have "r = ((x * 64 + y) * 64 + z) * 64 + w" by (simp add: r)
  then have one: "r div 64 = (x * 64 + y) * 64 + z" "r mod 64 = w"
    using base64_digit xyz by presburger+
  have two: "r div 4096 = r div 64 div 64" by (simp add: div_mult2_eq)
  have three: "r div 262144 = r div 64 div 64 div 64" by (simp add: div_mult2_eq)
  from one have "r div 64 div 64 = x * 64 + y" "r div 64 mod 64 = z"
    using base64_digit xyz by presburger+
  with one two three have div:
    "r div 262144 = x" "r div 4096 mod 64 = y" "r div 64 mod 64 = z" "r mod 64 = w"
    using base64_digit xyz by presburger+
  have lo: "65536 \<le> r" using side xyz unfolding r by (cases "x = 0") auto
  have hi: "r \<le> 1114111" using side xyz unfolding r by (cases "x = 4") auto
  from lo hi div xyz show "encode_rune r = [b0, b1, b2, b3]"
    by (auto simp: encode_rune_def)
  from lo hi show "scalar r" by (auto simp: scalar_def)
qed

lemma decode_rune_ok:
  assumes "decode_rune (b # bs) = (r, n)" and "(r, n) \<noteq> (65533, 1)"
  shows "encode_rune r = take n (b # bs) \<and> 1 \<le> n \<and> scalar r"
proof -
  have two: "scalar r" if "194 \<le> b" "b \<le> 223" "cont b1" "r = (b - 192) * 64 + (b1 - 128)" for b1
    using that by (auto simp: scalar_def cont_def)
  show ?thesis
    using assms
    by (auto simp: decode_rune_def encode_decode_2 encode_decode_3 encode_decode_4 two
        split: list.splits if_splits)
      (auto simp: encode_rune_def scalar_def two)
qed

lemma decode_runes_valid:
  "utf8_valid bs \<Longrightarrow> concat (map encode_rune (decode_runes bs)) = bs \<and> list_all scalar (decode_runes bs)"
proof (induction bs rule: utf8_valid.induct)
  case (2 b bs)
  obtain r n where rn: "decode_rune (b # bs) = (r, n)" by fastforce
  with "2.prems" have ok: "encode_rune r = take n (b # bs)" "1 \<le> n" "scalar r"
    using decode_rune_ok [OF rn] by auto
  from "2.prems" rn have "utf8_valid (drop (n - 1) bs)" by simp
  with "2.IH" rn have IH: "concat (map encode_rune (decode_runes (drop (n - 1) bs))) = drop (n - 1) bs"
    "list_all scalar (decode_runes (drop (n - 1) bs))" by auto
  have "take n (b # bs) @ drop (n - 1) bs = b # bs"
    using ok(2) by (cases n) auto
  with IH ok rn show ?case by simp
qed simp

lemma string_of_bytes_of [simp]: "string_of (bytes_of s) = s"
  by (induction s) (auto simp: string_of_def bytes_of_def)

lemma runes_inj:
  assumes "valid_text s" "valid_text t" "runes s = runes t"
  shows "s = t"
proof -
  have "bytes_of s = bytes_of t"
    using assms decode_runes_valid unfolding valid_text_def runes_def by metis
  then show ?thesis by (metis string_of_bytes_of)
qed

lemma utf16_encode_inj:
  "list_all scalar rs \<Longrightarrow> list_all scalar rs' \<Longrightarrow> utf16_encode rs = utf16_encode rs' \<Longrightarrow> rs = rs'"
proof (induction rs arbitrary: rs')
  case Nil
  then show ?case
    by (cases rs') (auto simp: utf16_encode_def utf16_units_def split: if_splits)
next
  case (Cons r rs)
  then obtain r' rs1 where rs': "rs' = r' # rs1"
    by (cases rs') (auto simp: utf16_encode_def utf16_units_def split: if_splits)
  have head: "r = r' \<and> utf16_encode rs = utf16_encode rs1"
  proof (cases "r < 65536 \<or> r' < 65536")
    case True
    with Cons.prems show ?thesis
      by (auto simp: rs' utf16_encode_def utf16_units_def scalar_def split: if_splits)
  next
    case False
    with Cons.prems have eqs: "(r - 65536) div 1024 = (r' - 65536) div 1024"
      "(r - 65536) mod 1024 = (r' - 65536) mod 1024" "utf16_encode rs = utf16_encode rs1"
      by (auto simp: rs' utf16_encode_def utf16_units_def scalar_def)
    from eqs(1,2) have "r - 65536 = r' - 65536" by (metis div_mult_mod_eq)
    with False eqs(3) show ?thesis by auto
  qed
  with Cons.prems Cons.IH [of rs1] show ?case by (simp add: rs')
qed

lemma utf16_text_inj:
  "valid_text s \<Longrightarrow> valid_text t \<Longrightarrow> utf16_encode (runes s) = utf16_encode (runes t) \<Longrightarrow> s = t"
  using utf16_encode_inj decode_runes_valid runes_inj unfolding valid_text_def runes_def by blast

lemma length_hex_state: "length (hex_state st) = 64"
  by (simp add: hex_state_def hex_word_def upt_rec split: prod.splits)

definition is_hex :: "char \<Rightarrow> bool" where
  "is_hex c = ((CHR ''0'' \<le> c \<and> c \<le> CHR ''9'') \<or> (CHR ''a'' \<le> c \<and> c \<le> CHR ''f''))"

lemma is_hex_hex_digit: "is_hex (hex_digit n)"
proof -
  have "\<forall>i < 16. is_hex (''0123456789abcdef'' ! i)"
    by (simp add: is_hex_def less_eq_char_def All_less_Suc numeral_eq_Suc)
  then show ?thesis by (simp add: hex_digit_def)
qed

lemma hex_state_is_hex: "list_all is_hex (hex_state st)"
  by (auto simp: hex_state_def hex_word_def list_all_iff is_hex_hex_digit split: prod.splits)

end
