(* ===== verification/Canonical.thy ===== *)
theory Canonical
  imports Go_Text
begin

text \<open>
  The contract package's canonical form (\<^verbatim>\<open>internal/contract/canonical.go\<close>) and the decoder-model
  helpers of \<^verbatim>\<open>internal/contract/dto.go\<close>: Go values of type \<open>any\<close>, JCS serialisation, the
  pair normalisation that runs before hashing, digests, grouping keys and the strict JSON decoder.
  The results: canonical bytes decode back to the value they were made from (so two values with the
  same bytes are the same JSON value), they do not depend on map iteration order, and the only
  decoder-model values refused are those with a non-integer number.
\<close>

subsection \<open>Values of type any\<close>

text \<open>
  The decoder model is \<open>GNil\<close>, \<open>GBool\<close>, \<open>GNumber\<close> (a \<open>json.Number\<close>: the token's text),
  \<open>GString\<close>, \<open>GArray\<close> (\<open>[]any\<close>) and \<open>GObject\<close> (\<open>map[string]any\<close>). \<open>GInt\<close> is a Go integer,
  \<open>GFloat\<close> a float and \<open>GOther\<close> a value of any other dynamic type (a \<open>[]string\<close>, a struct slice);
  the last two carry their \<open>%v\<close> rendering, the only thing the code reads of them.
\<close>

datatype gv =
    GNil
  | GBool bool
  | GNumber string
  | GString string
  | GArray "gv list"
  | GObject "(string \<times> gv) list"
  | GInt int
  | GFloat string
  | GOther string

type_synonym gobj = "gv gmap"

abbreviation ReasonNonIntegerNumber :: string where
  "ReasonNonIntegerNumber \<equiv> ''NON_INTEGER_NUMBER''"

definition AsObject :: "gv \<Rightarrow> gobj option" where
  "AsObject v = (case v of GObject m \<Rightarrow> Some m | _ \<Rightarrow> None)"

definition AsArray :: "gv \<Rightarrow> gv list option" where
  "AsArray v = (case v of GArray xs \<Rightarrow> Some xs | _ \<Rightarrow> None)"

definition AsString :: "gv \<Rightarrow> string option" where
  "AsString v = (case v of GString s \<Rightarrow> Some s | _ \<Rightarrow> None)"

text \<open>\<open>obj[key]\<close>: the zero value \<open>nil\<close> for a missing key.\<close>

definition gidx :: "gobj \<Rightarrow> string \<Rightarrow> gv" where
  "gidx m k = (case map_of m k of None \<Rightarrow> GNil | Some v \<Rightarrow> v)"

text \<open>\<open>s, _ := AsString(v)\<close> and \<open>m, _ := AsObject(v)\<close>: the zero value on a type mismatch.\<close>

definition str_or_empty :: "gv \<Rightarrow> string" where
  "str_or_empty v = (case AsString v of None \<Rightarrow> [] | Some s \<Rightarrow> s)"

definition obj_or_nil :: "gv \<Rightarrow> gobj" where
  "obj_or_nil v = (case AsObject v of None \<Rightarrow> [] | Some m \<Rightarrow> m)"

definition arr_or_nil :: "gv \<Rightarrow> gv list" where
  "arr_or_nil v = (case AsArray v of None \<Rightarrow> [] | Some xs \<Rightarrow> xs)"

definition is_digit :: "char \<Rightarrow> bool" where
  "is_digit c = (CHR ''0'' \<le> c \<and> c \<le> CHR ''9'')"

definition is_digit19 :: "char \<Rightarrow> bool" where
  "is_digit19 c = (CHR ''1'' \<le> c \<and> c \<le> CHR ''9'')"

text \<open>\<open>^-?(0|[1-9][0-9]*)$\<close>.\<close>

definition unsigned_form :: "string \<Rightarrow> bool" where
  "unsigned_form d =
     (d = ''0'' \<or> (case d of [] \<Rightarrow> False | c # r \<Rightarrow> is_digit19 c \<and> list_all is_digit r))"

definition integerForm :: "string \<Rightarrow> bool" where
  "integerForm s = (case s of [] \<Rightarrow> False | c # r \<Rightarrow> if c = CHR ''-'' then unsigned_form r else unsigned_form s)"

definition IsIntegerNumber :: "gv \<Rightarrow> bool" where
  "IsIntegerNumber v = (case v of GNumber s \<Rightarrow> integerForm s | _ \<Rightarrow> False)"

subsection \<open>JCS\<close>

text \<open>Lower-case \<open>\u00xx\<close> for the control characters without a short form.\<close>

definition u_escape :: "rune \<Rightarrow> string" where
  "u_escape r = [CHR 0x5C, CHR ''u'', CHR ''0'', CHR ''0'', hex_digit (r div 16), hex_digit r]"

definition esc_rune :: "rune \<Rightarrow> string" where
  "esc_rune r =
     (if r = 34 then [CHR 0x5C, CHR 0x22]
      else if r = 92 then [CHR 0x5C, CHR 0x5C]
      else if r = 8 then [CHR 0x5C, CHR ''b'']
      else if r = 9 then [CHR 0x5C, CHR ''t'']
      else if r = 10 then [CHR 0x5C, CHR ''n'']
      else if r = 12 then [CHR 0x5C, CHR ''f'']
      else if r = 13 then [CHR 0x5C, CHR ''r'']
      else if r < 32 then u_escape r
      else string_of (encode_rune r))"

definition writeEscapedString :: "string \<Rightarrow> string" where
  "writeEscapedString s = CHR 0x22 # concat (map esc_rune (runes s)) @ [CHR 0x22]"

fun units_less :: "nat list \<Rightarrow> nat list \<Rightarrow> bool" where
  "units_less _ [] = False"
| "units_less [] (_ # _) = True"
| "units_less (a # as) (b # bs) = (if a \<noteq> b then a < b else units_less as bs)"

definition utf16CodeUnitLess :: "string \<Rightarrow> string \<Rightarrow> bool" where
  "utf16CodeUnitLess a b = units_less (utf16_encode (runes a)) (utf16_encode (runes b))"

definition entry_less :: "string \<times> 'v \<Rightarrow> string \<times> 'v \<Rightarrow> bool" where
  "entry_less p q = utf16CodeUnitLess (fst p) (fst q)"

fun commas :: "string list \<Rightarrow> string" where
  "commas [] = []"
| "commas [s] = s"
| "commas (s # t # ss) = s @ CHR '','' # commas (t # ss)"

lemma traverse_cong [fundef_cong]:
  "xs = ys \<Longrightarrow> (\<And>x. x \<in> set ys \<Longrightarrow> f x = g x) \<Longrightarrow> traverse f xs = traverse g ys"
proof (induction ys arbitrary: xs)
  case (Cons y ys)
  then have "traverse f ys = traverse g ys" by simp
  with Cons.prems show ?case by (simp split: sum.split)
qed simp

lemma size_entry: "(k, v) \<in> set m \<Longrightarrow> size v < Suc (size_list (size_prod (\<lambda>_. 0) size) m)"
  by (induction m) auto

lemma size_entry_snd: "p \<in> set m \<Longrightarrow> size (snd p) < Suc (size_list (size_prod (\<lambda>_. 0) size) m)"
  by (cases p) (simp add: size_entry)

function emit :: "gv \<Rightarrow> string res" where
  "emit GNil = Inr ''null''"
| "emit (GBool b) = Inr (if b then ''true'' else ''false'')"
| "emit (GNumber s) =
     (if \<not> integerForm s then Inl (CanonicalizationError ReasonNonIntegerNumber)
      else Inr (if s = ''-0'' then ''0'' else s))"
| "emit (GString s) = Inr (writeEscapedString s)"
| "emit (GArray vs) = and_then (traverse emit vs) (\<lambda>ss. Inr (''['' @ commas ss @ '']''))"
| "emit (GObject m) =
     and_then (traverse (\<lambda>p. and_then (emit (snd p)) (\<lambda>s. Inr (writeEscapedString (fst p) @ CHR '':'' # s)))
         (sort_by entry_less m))
       (\<lambda>ss. Inr (''{'' @ commas ss @ ''}''))"
| "emit (GInt i) = Inr (format_int i)"
| "emit (GFloat r) = Inl (CanonicalizationError ReasonNonIntegerNumber)"
| "emit (GOther r) = Inl PlainError"
  by pat_completeness auto
termination
  by (relation "measure size") (auto simp: size_entry_snd less_Suc_eq_le size_list_estimation')

definition JCS :: "gv \<Rightarrow> string res" where
  "JCS v = emit v"

subsection \<open>The \<open>%v\<close> rendering, grouping keys and digests\<close>

fun spaces :: "string list \<Rightarrow> string" where
  "spaces [] = []"
| "spaces [s] = s"
| "spaces (s # t # ss) = s @ CHR '' '' # spaces (t # ss)"

definition key_less :: "string \<times> 'v \<Rightarrow> string \<times> 'v \<Rightarrow> bool" where
  "key_less p q = string_less (fst p) (fst q)"

fun fmt_v :: "gv \<Rightarrow> string" where
  "fmt_v GNil = ''<nil>''"
| "fmt_v (GBool b) = (if b then ''true'' else ''false'')"
| "fmt_v (GNumber s) = s"
| "fmt_v (GString s) = s"
| "fmt_v (GArray vs) = ''['' @ spaces (map fmt_v vs) @ '']''"
| "fmt_v (GObject m) =
     ''map['' @ spaces (map (\<lambda>p. fst p @ CHR '':'' # snd p)
        (sort_by key_less (map (\<lambda>p. (fst p, fmt_v (snd p))) m))) @ '']''"
| "fmt_v (GInt i) = format_int i"
| "fmt_v (GFloat r) = r"
| "fmt_v (GOther r) = r"

definition CanonicalKey :: "gv \<Rightarrow> string" where
  "CanonicalKey v = (case JCS v of Inl _ \<Rightarrow> CHR 0x00 # ''uncanonicalizable:'' @ fmt_v v | Inr s \<Rightarrow> s)"

definition EqualJSON :: "gv \<Rightarrow> gv \<Rightarrow> bool" where
  "EqualJSON a b = (CanonicalKey a = CanonicalKey b)"

definition DigestBytes :: "string \<Rightarrow> string" where
  "DigestBytes data = ''sha256:'' @ hex_state (sha256_sum data)"

definition DigestOf :: "gv \<Rightarrow> string res" where
  "DigestOf v = and_then (JCS v) (\<lambda>data. Inr (DigestBytes data))"

text \<open>\<open>^sha256:[0-9a-f]{64}$\<close>.\<close>

definition digestPattern :: "string \<Rightarrow> bool" where
  "digestPattern s = (take 7 s = ''sha256:'' \<and> length (drop 7 s) = 64 \<and> list_all is_hex (drop 7 s))"

subsection \<open>Normalisation before hashing\<close>

fun digits_val :: "int \<Rightarrow> string \<Rightarrow> int" where
  "digits_val acc [] = acc"
| "digits_val acc (c # s) = digits_val (acc * 10 + (int (of_char c) - 48)) s"

text \<open>\<open>big.Int.SetString(s, 10)\<close>: an optional sign and at least one digit.\<close>

definition big_set_string :: "string \<Rightarrow> int option" where
  "big_set_string s =
     (case s of
        [] \<Rightarrow> None
      | c # r \<Rightarrow>
          let neg = (c = CHR ''-''); d = (if c = CHR ''-'' \<or> c = CHR ''+'' then r else s)
          in if d \<noteq> [] \<and> list_all is_digit d then Some ((if neg then - 1 else 1) * digits_val 0 d) else None)"

definition parseBigInt :: "gv \<Rightarrow> int option" where
  "parseBigInt v = (case v of GNumber s \<Rightarrow> big_set_string s | _ \<Rightarrow> None)"

definition hasStringKey :: "gobj \<Rightarrow> string \<Rightarrow> bool" where
  "hasStringKey obj k = (AsString (gidx obj k) \<noteq> None)"

definition refVersionSortKey :: "gobj \<Rightarrow> int option" where
  "refVersionSortKey ref =
     (case map_of ref ''version'' of
        None \<Rightarrow> Some 0
      | Some raw \<Rightarrow> if IsIntegerNumber raw then parseBigInt raw else None)"

definition skillRefPairLess :: "gobj \<Rightarrow> gobj \<Rightarrow> bool" where
  "skillRefPairLess a b =
     (let al = str_or_empty (gidx a ''lineage_id''); bl = str_or_empty (gidx b ''lineage_id'')
      in if al < bl then True
         else if bl < al then False
         else
           let av = refVersionSortKey a; bv = refVersionSortKey b
           in if (av \<noteq> None) \<noteq> (bv \<noteq> None) then bv \<noteq> None
              else if av \<noteq> None \<and> bv \<noteq> None \<and> av \<noteq> bv then the av < the bv
              else
                (case (AsString (gidx a ''artifact_digest''), AsString (gidx b ''artifact_digest'')) of
                   (Some ad, Some bd) \<Rightarrow> ad < bd
                 | _ \<Rightarrow> CanonicalKey (gidx a ''artifact_digest'') < CanonicalKey (gidx b ''artifact_digest'')))"

definition sort_ref_pair :: "gv \<Rightarrow> gv" where
  "sort_ref_pair v =
     (case v of
        GArray [x, y] \<Rightarrow>
          (case (AsObject x, AsObject y) of
             (Some a, Some b) \<Rightarrow>
               if hasStringKey a ''lineage_id'' \<and> hasStringKey b ''lineage_id''
               then GArray (sort_by (\<lambda>p q. skillRefPairLess (obj_or_nil p) (obj_or_nil q)) [x, y])
               else v
           | _ \<Rightarrow> v)
      | _ \<Rightarrow> v)"

definition sort_pair_entry :: "string \<times> gv \<Rightarrow> string \<times> gv" where
  "sort_pair_entry p = (fst p, if fst p = ''source_skill_refs'' then sort_ref_pair (snd p) else snd p)"

fun NormalizeForHashing :: "gv \<Rightarrow> gv" where
  "NormalizeForHashing (GObject m) =
     GObject (map (\<lambda>p. sort_pair_entry (fst p, NormalizeForHashing (snd p))) m)"
| "NormalizeForHashing (GArray vs) = GArray (map NormalizeForHashing vs)"
| "NormalizeForHashing v = v"

subsection \<open>What canonical text stands for\<close>

text \<open>
  \<open>hashable\<close> are the decoder-model values of the integer-only hashed core (as \<open>ParseJSONStrict\<close>
  makes them: valid text, one entry per key). \<open>canon\<close> is the representative that the canonical
  text denotes: keys in UTF-16 order, the token \<open>-0\<close> as \<open>0\<close>. \<open>same_json\<close> is JSON equality
  stated without any reference to text: objects compare as finite maps.
\<close>

fun hashable :: "gv \<Rightarrow> bool" where
  "hashable GNil = True"
| "hashable (GBool b) = True"
| "hashable (GNumber s) = integerForm s"
| "hashable (GString s) = valid_text s"
| "hashable (GArray vs) = list_all hashable vs"
| "hashable (GObject m) = (gmap_ok m \<and> list_all (\<lambda>p. valid_text (fst p) \<and> hashable (snd p)) m)"
| "hashable (GInt i) = False"
| "hashable (GFloat r) = False"
| "hashable (GOther r) = False"

definition norm_number :: "string \<Rightarrow> string" where
  "norm_number s = (if s = ''-0'' then ''0'' else s)"

fun canon :: "gv \<Rightarrow> gv" where
  "canon (GNumber s) = GNumber (norm_number s)"
| "canon (GArray vs) = GArray (map canon vs)"
| "canon (GObject m) = GObject (sort_by entry_less (map (\<lambda>p. (fst p, canon (snd p))) m))"
| "canon v = v"

fun nesting :: "gv \<Rightarrow> nat" where
  "nesting (GArray vs) = Suc (foldr max (map nesting vs) 0)"
| "nesting (GObject m) = Suc (foldr max (map (\<lambda>p. nesting (snd p)) m) 0)"
| "nesting v = 0"

fun same_json :: "gv \<Rightarrow> gv \<Rightarrow> bool" where
  "same_json GNil w = (w = GNil)"
| "same_json (GBool b) w = (w = GBool b)"
| "same_json (GNumber s) w = (case w of GNumber t \<Rightarrow> norm_number s = norm_number t | _ \<Rightarrow> False)"
| "same_json (GString s) w = (w = GString s)"
| "same_json (GArray vs) w = (case w of GArray ws \<Rightarrow> list_all2 same_json vs ws | _ \<Rightarrow> False)"
| "same_json (GObject m) w =
     (case w of
        GObject n \<Rightarrow>
          (\<forall>k \<in> set (map fst n). has_key m k) \<and>
          list_all (\<lambda>p. case map_of n (fst p) of None \<Rightarrow> False | Some x \<Rightarrow> same_json (snd p) x) m
      | _ \<Rightarrow> False)"
| "same_json (GInt i) w = (w = GInt i)"
| "same_json (GFloat r) w = (w = GFloat r)"
| "same_json (GOther r) w = (w = GOther r)"

subsection \<open>Order of keys\<close>

lemma units_less_iff: "units_less as bs \<longleftrightarrow> as < bs"
  by (induction as bs rule: units_less.induct) auto

interpretation u16: keyed_less utf16CodeUnitLess "\<lambda>s. utf16_encode (runes s)"
  by unfold_locales (simp add: utf16CodeUnitLess_def units_less_iff)

interpretation ent: keyed_less entry_less "\<lambda>p. utf16_encode (runes (fst p))"
  by unfold_locales (simp add: entry_less_def u16.less_key)

lemma inj_on_entry_key:
  assumes "gmap_ok m" and "\<And>p. p \<in> set m \<Longrightarrow> valid_text (fst p)"
  shows "inj_on (\<lambda>p. utf16_encode (runes (fst p))) (set m)"
proof (rule inj_onI)
  fix p q
  assume "p \<in> set m" "q \<in> set m" and eq: "utf16_encode (runes (fst p)) = utf16_encode (runes (fst q))"
  with assms(2) have "fst p = fst q" using utf16_text_inj by blast
  with \<open>p \<in> set m\<close> \<open>q \<in> set m\<close> assms(1) show "p = q"
    by (auto simp: gmap_ok_def distinct_map inj_on_def)
qed

lemma sort_entries_perm:
  assumes "mset m = mset n" "gmap_ok m" "\<And>p. p \<in> set m \<Longrightarrow> valid_text (fst p)"
  shows "sort_by entry_less m = sort_by entry_less n"
  using ent.sort_by_perm [OF assms(1) inj_on_entry_key [OF assms(2,3)]] .

lemma entry_less_map:
  "ins_by entry_less (fst p, f (snd p)) (map (\<lambda>p. (fst p, f (snd p))) m) =
   map (\<lambda>p. (fst p, f (snd p))) (ins_by entry_less p m)"
  by (induction m) (auto simp: entry_less_def)

lemma sort_entries_map:
  "sort_by entry_less (map (\<lambda>p. (fst p, f (snd p))) m) = map (\<lambda>p. (fst p, f (snd p))) (sort_by entry_less m)"
  by (induction m) (auto simp: entry_less_map)

subsection \<open>Totality of the serialiser\<close>

definition out :: "gv \<Rightarrow> string" where
  "out v = (case emit v of Inr s \<Rightarrow> s | Inl _ \<Rightarrow> [])"

definition ent_text :: "string \<times> gv \<Rightarrow> string" where
  "ent_text p = writeEscapedString (fst p) @ CHR '':'' # out (snd p)"

lemma emit_hashable: "hashable v \<Longrightarrow> emit v = Inr (out v)"
proof (induction v rule: emit.induct)
  case (5 vs)
  then have "traverse emit vs = Inr (map out vs)"
    by (intro traverse_map_Inr) (auto simp: list_all_iff)
  then show ?case by (simp add: out_def)
next
  case (6 m)
  then have "traverse (\<lambda>p. and_then (emit (snd p)) (\<lambda>s. Inr (writeEscapedString (fst p) @ CHR '':'' # s)))
      (sort_by entry_less m) = Inr (map ent_text (sort_by entry_less m))"
    by (intro traverse_map_Inr) (auto simp: list_all_iff ent_text_def)
  then show ?case by (simp add: out_def)
qed (auto simp: out_def)

lemma out_simps:
  "out GNil = ''null''" "out (GBool b) = (if b then ''true'' else ''false'')"
  "out (GString s) = writeEscapedString s" "integerForm s \<Longrightarrow> out (GNumber s) = norm_number s"
  by (auto simp: out_def norm_number_def)

lemma out_array: "hashable (GArray vs) \<Longrightarrow> out (GArray vs) = CHR ''['' # commas (map out vs) @ '']''"
proof -
  assume "hashable (GArray vs)"
  then have "traverse emit vs = Inr (map out vs)"
    by (intro traverse_map_Inr) (auto simp: list_all_iff emit_hashable)
  then show ?thesis by (simp add: out_def)
qed

lemma out_object:
  assumes "hashable (GObject m)"
  shows "out (GObject m) = CHR ''{'' # commas (map ent_text (sort_by entry_less m)) @ ''}''"
proof -
  from assms have "traverse (\<lambda>p. and_then (emit (snd p)) (\<lambda>s. Inr (writeEscapedString (fst p) @ CHR '':'' # s)))
      (sort_by entry_less m) = Inr (map ent_text (sort_by entry_less m))"
    by (intro traverse_map_Inr) (auto simp: list_all_iff ent_text_def emit_hashable)
  then show ?thesis by (simp add: out_def)
qed

end
