(* ===== verification/Json_Decode.thy ===== *)
theory Json_Decode
  imports Canonical
begin

text \<open>
  \<open>ParseJSONStrict\<close> (\<^verbatim>\<open>internal/contract/dto.go\<close>): a single UTF-8 JSON document, numbers kept as
  text (\<open>UseNumber\<close>), nothing after it. The decoder is the part of \<open>encoding/json\<close> the call uses:
  the scanner's grammar, its nesting limit of 10000, string unquoting with surrogate pairs, and
  the last value winning for a repeated key. The main result is the round trip through JCS.
\<close>

subsection \<open>Tokens\<close>

definition is_ws :: "char \<Rightarrow> bool" where
  "is_ws c = (c = CHR '' '' \<or> c = CHR 0x09 \<or> c = CHR 0x0A \<or> c = CHR 0x0D)"

definition skip_ws :: "string \<Rightarrow> string" where
  "skip_ws s = dropWhile is_ws s"

definition hex_val :: "char \<Rightarrow> nat option" where
  "hex_val c =
     (if CHR ''0'' \<le> c \<and> c \<le> CHR ''9'' then Some (of_char c - 48)
      else if CHR ''a'' \<le> c \<and> c \<le> CHR ''f'' then Some (of_char c - 87)
      else if CHR ''A'' \<le> c \<and> c \<le> CHR ''F'' then Some (of_char c - 55)
      else None)"

text \<open>Four hexadecimal digits, as after \<open>\u\<close>.\<close>

definition get_hex4 :: "string \<Rightarrow> (nat \<times> string) option" where
  "get_hex4 s =
     (case s of
        a # b # c # d # r \<Rightarrow>
          (case (hex_val a, hex_val b, hex_val c, hex_val d) of
             (Some w, Some x, Some y, Some z) \<Rightarrow> Some (((w * 16 + x) * 16 + y) * 16 + z, r)
           | _ \<Rightarrow> None)
      | _ \<Rightarrow> None)"

definition get_u4 :: "string \<Rightarrow> (nat \<times> string) option" where
  "get_u4 s = (case s of a # b # r \<Rightarrow> if a = CHR 0x5C \<and> b = CHR ''u'' then get_hex4 r else None | _ \<Rightarrow> None)"

definition simple_escape :: "char \<Rightarrow> char option" where
  "simple_escape e =
     (if e = CHR 0x22 \<or> e = CHR 0x5C \<or> e = CHR ''/'' then Some e
      else if e = CHR ''b'' then Some (CHR 0x08)
      else if e = CHR ''f'' then Some (CHR 0x0C)
      else if e = CHR ''n'' then Some (CHR 0x0A)
      else if e = CHR ''r'' then Some (CHR 0x0D)
      else if e = CHR ''t'' then Some (CHR 0x09)
      else None)"

definition prepend :: "string \<Rightarrow> (string \<times> string) option \<Rightarrow> (string \<times> string) option" where
  "prepend x r = map_option (\<lambda>p. (x @ fst p, snd p)) r"

definition rune_text :: "rune \<Rightarrow> string" where
  "rune_text r = string_of (encode_rune r)"

text \<open>\<open>utf16.DecodeRune\<close> on a high and a low surrogate.\<close>

definition surrogate_pair :: "nat \<Rightarrow> nat \<Rightarrow> nat option" where
  "surrogate_pair hi lo =
     (if 55296 \<le> hi \<and> hi < 56320 \<and> 56320 \<le> lo \<and> lo < 57344
      then Some ((hi - 55296) * 1024 + (lo - 56320) + 65536) else None)"

lemma get_hex4_length: "get_hex4 s = Some (x, r) \<Longrightarrow> length r < length s"
  by (auto simp: get_hex4_def split: list.splits option.splits)

lemma get_u4_length: "get_u4 s = Some (x, r) \<Longrightarrow> length r < length s"
  by (auto simp: get_u4_def split: list.splits if_splits dest: get_hex4_length)

text \<open>The body of a string after its opening quote: its value and what follows the closing quote.\<close>

function parse_str :: "string \<Rightarrow> (string \<times> string) option" where
  "parse_str [] = None"
| "parse_str (c # s) =
     (if c = CHR 0x22 then Some ([], s)
      else if c = CHR 0x5C then
        (case s of
           [] \<Rightarrow> None
         | e # s1 \<Rightarrow>
             if e = CHR ''u'' then
               (case get_hex4 s1 of
                  None \<Rightarrow> None
                | Some (r, s2) \<Rightarrow>
                    if 55296 \<le> r \<and> r < 57344 then
                      (case get_u4 s2 of
                         None \<Rightarrow> prepend (rune_text 65533) (parse_str s2)
                       | Some (lo, s3) \<Rightarrow>
                           (case surrogate_pair r lo of
                              None \<Rightarrow> prepend (rune_text 65533) (parse_str s2)
                            | Some q \<Rightarrow> prepend (rune_text q) (parse_str s3)))
                    else prepend (rune_text r) (parse_str s2))
             else (case simple_escape e of
                     None \<Rightarrow> None
                   | Some x \<Rightarrow> prepend [x] (parse_str s1)))
      else if (of_char c :: nat) < 32 then None
      else prepend [c] (parse_str s))"
  by pat_completeness auto
termination
  by (relation "measure length") (auto dest!: get_hex4_length get_u4_length)

definition scan_exp :: "string \<Rightarrow> string \<Rightarrow> (string \<times> string) option" where
  "scan_exp tok s =
     (case s of
        [] \<Rightarrow> Some (tok, [])
      | e # r \<Rightarrow>
          if e = CHR ''e'' \<or> e = CHR ''E'' then
            (let sg = (case r of [] \<Rightarrow> [] | c # _ \<Rightarrow> if c = CHR ''+'' \<or> c = CHR ''-'' then [c] else []);
                 r1 = drop (length sg) r; d = takeWhile is_digit r1
             in if d = [] then None else Some (tok @ [e] @ sg @ d, dropWhile is_digit r1))
          else Some (tok, s))"

definition scan_frac :: "string \<Rightarrow> string \<Rightarrow> (string \<times> string) option" where
  "scan_frac tok s =
     (case s of
        [] \<Rightarrow> Some (tok, [])
      | c # r \<Rightarrow>
          if c = CHR ''.'' then
            (let d = takeWhile is_digit r
             in if d = [] then None else scan_exp (tok @ ''.'' @ d) (dropWhile is_digit r))
          else scan_exp tok s)"

definition scan_number :: "string \<Rightarrow> (string \<times> string) option" where
  "scan_number s =
     (let sg = (case s of [] \<Rightarrow> [] | c # _ \<Rightarrow> if c = CHR ''-'' then [c] else []); s1 = drop (length sg) s
      in case s1 of
           [] \<Rightarrow> None
         | c # r \<Rightarrow>
             if c = CHR ''0'' then scan_frac (sg @ [c]) r
             else if is_digit19 c then scan_frac (sg @ takeWhile is_digit s1) (dropWhile is_digit s1)
             else None)"

subsection \<open>Values\<close>

definition max_nesting :: nat where
  "max_nesting = 10000"

definition literal :: "string \<Rightarrow> gv \<Rightarrow> string \<Rightarrow> (gv \<times> string) option" where
  "literal w v s = (if take (length w) s = w then Some (v, drop (length w) s) else None)"

lemma length_skip_ws: "length (skip_ws s) \<le> length s"
  by (simp add: skip_ws_def length_dropWhile_le)

lemma skip_ws_Cons_length: "skip_ws s = c # r \<Longrightarrow> length r < length s"
  using length_skip_ws [of s] by simp

function (sequential) parse_value :: "nat \<Rightarrow> string \<Rightarrow> (gv \<times> string) option"
  and parse_elems :: "nat \<Rightarrow> string \<Rightarrow> (gv list \<times> string) option"
  and parse_members :: "nat \<Rightarrow> gobj \<Rightarrow> string \<Rightarrow> (gobj \<times> string) option" where
  "parse_value d s0 =
     (case skip_ws s0 of
        [] \<Rightarrow> None
      | c # r \<Rightarrow>
          if c = CHR ''{'' then
            (if max_nesting \<le> d then None
             else case skip_ws r of
                 [] \<Rightarrow> None
               | c2 # r2 \<Rightarrow>
                   if c2 = CHR ''}'' then Some (GObject [], r2)
                   else map_option (\<lambda>p. (GObject (fst p), snd p)) (parse_members (Suc d) [] r))
          else if c = CHR ''['' then
            (if max_nesting \<le> d then None
             else case skip_ws r of
                 [] \<Rightarrow> None
               | c2 # r2 \<Rightarrow>
                   if c2 = CHR '']'' then Some (GArray [], r2)
                   else map_option (\<lambda>p. (GArray (fst p), snd p)) (parse_elems (Suc d) r))
          else if c = CHR 0x22 then map_option (\<lambda>p. (GString (fst p), snd p)) (parse_str r)
          else if c = CHR ''t'' then literal ''true'' (GBool True) (c # r)
          else if c = CHR ''f'' then literal ''false'' (GBool False) (c # r)
          else if c = CHR ''n'' then literal ''null'' GNil (c # r)
          else map_option (\<lambda>p. (GNumber (fst p), snd p)) (scan_number (c # r)))"
| "parse_elems d s =
     (case parse_value d s of
        None \<Rightarrow> None
      | Some (v, r) \<Rightarrow>
          if length r < length s then
            (case skip_ws r of
               [] \<Rightarrow> None
             | c # r1 \<Rightarrow>
                 if c = CHR '','' then map_option (\<lambda>p. (v # fst p, snd p)) (parse_elems d r1)
                 else if c = CHR '']'' then Some ([v], r1)
                 else None)
          else None)"
| "parse_members d acc s =
     (case skip_ws s of
        [] \<Rightarrow> None
      | q # r \<Rightarrow>
          if q \<noteq> CHR 0x22 then None
          else (case parse_str r of
              None \<Rightarrow> None
            | Some (k, r1) \<Rightarrow>
                if length r1 < length s then
                  (case skip_ws r1 of
                     [] \<Rightarrow> None
                   | c # r2 \<Rightarrow>
                       if c \<noteq> CHR '':'' then None
                       else (case parse_value d r2 of
                           None \<Rightarrow> None
                         | Some (v, r3) \<Rightarrow>
                             if length r3 < length s then
                               (case skip_ws r3 of
                                  [] \<Rightarrow> None
                                | c4 # r4 \<Rightarrow>
                                    if c4 = CHR '','' then parse_members d (gput k v acc) r4
                                    else if c4 = CHR ''}'' then Some (gput k v acc, r4)
                                    else None)
                             else None))
                else None))"
  by pat_completeness auto
termination
  by (relation "measure (\<lambda>x. case x of
        Inl (d, s) \<Rightarrow> 3 * length s
      | Inr (Inl (d, s)) \<Rightarrow> 3 * length s + 1
      | Inr (Inr (d, acc, s)) \<Rightarrow> 3 * length s + 1)")
    (auto dest!: skip_ws_Cons_length)

declare parse_value.simps [simp del] parse_elems.simps [simp del] parse_members.simps [simp del]

definition ParseJSONStrict :: "string \<Rightarrow> gv res" where
  "ParseJSONStrict data =
     (if \<not> valid_text data then Inl PlainError
      else case parse_value 0 data of
          None \<Rightarrow> Inl PlainError
        | Some (v, rest) \<Rightarrow> if skip_ws rest = [] then Inr v else Inl PlainError)"

subsection \<open>Tokens of canonical text decode\<close>

lemma hex_val_hex_digit: "hex_val (hex_digit n) = Some (n mod 16)"
proof -
  have "\<forall>i < 16. hex_val (''0123456789abcdef'' ! i) = Some i"
    by (simp add: hex_val_def less_eq_char_def All_less_Suc numeral_eq_Suc)
  then show ?thesis by (simp add: hex_digit_def)
qed

lemma hex_val_zero: "hex_val (CHR ''0'') = Some 0"
  by (simp add: hex_val_def less_eq_char_def)

definition plain_char :: "char \<Rightarrow> bool" where
  "plain_char c = (c \<noteq> CHR 0x22 \<and> c \<noteq> CHR 0x5C \<and> 32 \<le> (of_char c :: nat))"

lemma prepend_prepend [simp]: "prepend a (prepend b r) = prepend (a @ b) r"
  by (cases r) (auto simp: prepend_def)

lemma prepend_Nil [simp]: "prepend [] r = r"
  by (cases r) (auto simp: prepend_def)

lemma parse_str_plain: "list_all plain_char cs \<Longrightarrow> parse_str (cs @ t) = prepend cs (parse_str t)"
  by (induction cs) (auto simp: plain_char_def)

lemma encode_rune_bytes:
  assumes "scalar r" and "b \<in> set (encode_rune r)"
  shows "b < 256 \<and> (b = r \<or> 128 \<le> b)"
proof -
  have "r \<le> 1114111" using assms(1) by (auto simp: scalar_def)
  then have "r div 262144 \<le> 4" and "r < 65536 \<longrightarrow> r div 4096 < 16" and "r < 2048 \<longrightarrow> r div 64 < 32"
    by auto
  with assms show ?thesis
    by (auto simp: encode_rune_def split: if_splits)
qed

lemma of_char_quote: "of_char (CHR 0x22) = (34::nat)"
  by simp

lemma of_char_backslash: "of_char (CHR 0x5C) = (92::nat)"
  by simp

lemma encode_rune_plain:
  assumes "scalar r" "32 \<le> r" "r \<noteq> 34" "r \<noteq> 92"
  shows "list_all plain_char (rune_text r)"
proof -
  have "plain_char (char_of b)" if b: "b \<in> set (encode_rune r)" for b
  proof -
    have small: "b < 256" and rng: "b = r \<or> 128 \<le> b" using encode_rune_bytes [OF assms(1) b] by auto
    have inv: "of_char (char_of b :: char) = b" using small by simp
    have "b \<noteq> 34" "b \<noteq> 92" "32 \<le> b" using rng assms by auto
    then have "char_of b \<noteq> CHR 0x22" "char_of b \<noteq> CHR 0x5C"
      using inv of_char_quote of_char_backslash by metis+
    with inv \<open>32 \<le> b\<close> show ?thesis by (simp add: plain_char_def)
  qed
  then show ?thesis by (auto simp: rune_text_def string_of_def list_all_iff)
qed

lemma parse_str_esc:
  assumes "scalar r"
  shows "parse_str (esc_rune r @ t) = prepend (rune_text r) (parse_str t)"
proof -
  consider (special) "r \<in> {34, 92, 8, 9, 10, 12, 13}" | (ctl) "r < 32" "r \<notin> {8, 9, 10, 12, 13}"
    | (plain) "32 \<le> r" "r \<noteq> 34" "r \<noteq> 92" by force
  then show ?thesis
  proof cases
    case special
    have "\<forall>r \<in> set [34, 92, 8, 9, 10, 12, 13].
        \<exists>e x. esc_rune r = [CHR 0x5C, e] \<and> e \<noteq> CHR ''u'' \<and> simple_escape e = Some x \<and> rune_text r = [x]"
      by (simp add: esc_rune_def simple_escape_def rune_text_def string_of_def encode_rune_def char_of_def bit_0 flip: drop_bit_0)
    with special obtain e x where "esc_rune r = [CHR 0x5C, e]" "e \<noteq> CHR ''u''"
      "simple_escape e = Some x" "rune_text r = [x]" by fastforce
    then show ?thesis by simp
  next
    case ctl
    have "r div 16 mod 16 * 16 + r mod 16 = r" using ctl by simp
    with ctl have "get_hex4 (drop 2 (u_escape r) @ t) = Some (r, t)"
      by (simp add: u_escape_def get_hex4_def hex_val_hex_digit hex_val_zero)
    with ctl show ?thesis by (auto simp: esc_rune_def u_escape_def)
  next
    case plain
    then have "esc_rune r = rune_text r" by (auto simp: esc_rune_def rune_text_def)
    with parse_str_plain [OF encode_rune_plain [OF assms plain]] show ?thesis by simp
  qed
qed

lemma parse_str_runes:
  "list_all scalar rs \<Longrightarrow>
   parse_str (concat (map esc_rune rs) @ CHR 0x22 # t) = Some (string_of (concat (map encode_rune rs)), t)"
proof (induction rs)
  case (Cons r rs)
  then show ?case
    using parse_str_esc [of r "concat (map esc_rune rs) @ CHR 0x22 # t"]
    by (simp add: prepend_def rune_text_def string_of_def)
qed (simp add: string_of_def)

lemma parse_str_escaped:
  assumes "valid_text s"
  shows "parse_str (tl (writeEscapedString s) @ t) = Some (s, t)"
proof -
  have "list_all scalar (runes s)" "concat (map encode_rune (runes s)) = bytes_of s"
    using decode_runes_valid assms by (auto simp: valid_text_def runes_def)
  then show ?thesis
    using parse_str_runes [of "runes s" t] by (simp add: writeEscapedString_def)
qed

definition num_end :: "string \<Rightarrow> bool" where
  "num_end t = (case t of [] \<Rightarrow> True | c # _ \<Rightarrow> \<not> is_digit c \<and> c \<notin> {CHR ''.'', CHR ''e'', CHR ''E''})"

lemma scan_frac_end: "num_end t \<Longrightarrow> scan_frac tok t = Some (tok, t)"
  by (auto simp: num_end_def scan_frac_def scan_exp_def split: list.splits)

lemma digit19_digit: "is_digit19 c \<Longrightarrow> is_digit c"
  by (auto simp: is_digit19_def is_digit_def less_eq_char_def)

lemma takeWhile_digits:
  assumes "list_all is_digit d" "num_end t"
  shows "takeWhile is_digit (d @ t) = d \<and> dropWhile is_digit (d @ t) = t"
  using assms by (cases t) (auto simp: list_all_iff num_end_def takeWhile_append dropWhile_append)

lemma scan_unsigned:
  assumes "unsigned_form d" "num_end t"
  shows "\<exists>c r. d @ t = c # r \<and>
    (if c = CHR ''0'' then scan_frac (sg @ [c]) r
     else if is_digit19 c then scan_frac (sg @ takeWhile is_digit (c # r)) (dropWhile is_digit (c # r))
     else None) = Some (sg @ d, t)"
proof (cases "d = ''0''")
  case True
  then show ?thesis using scan_frac_end [OF assms(2)] by simp
next
  case False
  with assms(1) obtain c r where d: "d = c # r" "is_digit19 c" "list_all is_digit r"
    by (auto simp: unsigned_form_def split: list.splits)
  then have "list_all is_digit d" by (simp add: digit19_digit)
  with takeWhile_digits [OF _ assms(2)] d scan_frac_end [OF assms(2)] show ?thesis
    by (auto simp: is_digit19_def less_eq_char_def)
qed

lemma scan_number_integer:
  assumes "integerForm s" "num_end t"
  shows "scan_number (s @ t) = Some (s, t)"
proof -
  obtain c r where s: "s = c # r" using assms(1) by (cases s) (auto simp: integerForm_def)
  show ?thesis
  proof (cases "c = CHR ''-''")
    case True
    with assms(1) s have "unsigned_form r" by (simp add: integerForm_def)
    from scan_unsigned [OF this assms(2), of "[c]"] True s show ?thesis
      by (auto simp: scan_number_def)
  next
    case False
    with assms(1) s have "unsigned_form s" by (simp add: integerForm_def)
    from scan_unsigned [OF this assms(2), of "[]"] False s show ?thesis
      by (auto simp: scan_number_def)
  qed
qed

lemma integer_first:
  assumes "integerForm s"
  obtains c r where "s = c # r" "c = CHR ''-'' \<or> is_digit c"
  using assms digit19_digit
  by (cases s) (auto simp: integerForm_def unsigned_form_def is_digit_def less_eq_char_def split: if_splits list.splits)

subsection \<open>Canonical text decodes to the value\<close>

lemma skip_ws_id: "\<not> is_ws c \<Longrightarrow> skip_ws (c # r) = c # r"
  by (simp add: skip_ws_def)

definition value_start :: "char \<Rightarrow> bool" where
  "value_start c = (\<not> is_ws c \<and> c \<noteq> CHR '']'' \<and> c \<noteq> CHR ''}'')"

lemma integer_norm: "integerForm s \<Longrightarrow> integerForm (norm_number s)"
  by (simp add: norm_number_def integerForm_def unsigned_form_def)

lemma num_end_sep [simp]: "num_end (CHR '','' # t)" "num_end (CHR '']'' # t)" "num_end (CHR ''}'' # t)" "num_end []"
  by (auto simp: num_end_def is_digit_def less_eq_char_def)

lemma not_ws_sep [simp]: "skip_ws (CHR '','' # t) = CHR '','' # t" "skip_ws (CHR '']'' # t) = CHR '']'' # t"
  "skip_ws (CHR ''}'' # t) = CHR ''}'' # t" "skip_ws (CHR '':'' # t) = CHR '':'' # t"
  "skip_ws (CHR 0x22 # t) = CHR 0x22 # t" "skip_ws (CHR ''['' # t) = CHR ''['' # t" "skip_ws (CHR ''{'' # t) = CHR ''{'' # t"
  by (auto simp: skip_ws_def is_ws_def)

lemma parse_value_number:
  assumes "integerForm s" "num_end t"
  shows "parse_value d (s @ t) = Some (GNumber s, t)"
proof -
  obtain c r where s: "s = c # r" "c = CHR ''-'' \<or> is_digit c" using assms(1) by (rule integer_first)
  then have c: "\<not> is_ws c" "c \<notin> {CHR ''{'', CHR ''['', CHR 0x22, CHR ''t'', CHR ''f'', CHR ''n''}"
    by (auto simp: is_ws_def is_digit_def less_eq_char_def)
  then show ?thesis
    using scan_number_integer [OF assms] s
    by (subst parse_value.simps) (simp add: skip_ws_id)
qed

text \<open>
  \<open>reads_as d t v\<close>: inside \<open>d\<close> open brackets, the compact text \<open>t\<close> is read as \<open>v\<close>, whatever may follow it. One
  rule per kind of value; every printer of compact JSON is shown to decode by these rules.
\<close>

definition reads_as :: "nat \<Rightarrow> string \<Rightarrow> gv \<Rightarrow> bool" where
  "reads_as d t v = ((\<exists>c r. t = c # r \<and> value_start c) \<and> (\<forall>r. num_end r \<longrightarrow> parse_value d (t @ r) = Some (v, r)))"

definition reads_string :: "string \<Rightarrow> string \<Rightarrow> bool" where
  "reads_string t s = (\<exists>w. t = CHR 0x22 # w \<and> (\<forall>r. parse_str (w @ r) = Some (s, r)))"

definition reads_entry :: "nat \<Rightarrow> string \<Rightarrow> string \<times> gv \<Rightarrow> bool" where
  "reads_entry d t p = (\<exists>q u. t = q @ CHR '':'' # u \<and> reads_string q (fst p) \<and> reads_as d u (snd p))"

lemma reads_stringD: "reads_string t s \<Longrightarrow> reads_as d t (GString s)"
  unfolding reads_string_def reads_as_def
  by (elim exE conjE) (simp add: parse_value.simps value_start_def is_ws_def)

lemma reads_number:
  assumes "integerForm s"
  shows "reads_as d s (GNumber s)"
proof -
  obtain c r where s: "s = c # r" "c = CHR ''-'' \<or> is_digit c" using assms by (rule integer_first)
  then have "value_start c" by (auto simp: value_start_def is_ws_def is_digit_def less_eq_char_def)
  with s(1) show ?thesis using parse_value_number [OF assms] by (simp add: reads_as_def)
qed

lemma reads_literals: "reads_as d ''null'' GNil" "reads_as d ''true'' (GBool True)" "reads_as d ''false'' (GBool False)"
  by (simp_all add: reads_as_def value_start_def is_ws_def parse_value.simps skip_ws_def literal_def)

lemma parse_elems_reads:
  assumes "ts \<noteq> []" "list_all2 (reads_as d) ts vs"
  shows "parse_elems d (commas ts @ CHR '']'' # t) = Some (vs, t)"
  using assms
proof (induction ts arbitrary: vs rule: induct_list012)
  case (2 x)
  then obtain v where v: "vs = [v]" "reads_as d x v" by (auto simp: list_all2_Cons1)
  then have "parse_value d (x @ CHR '']'' # t) = Some (v, CHR '']'' # t)" "x \<noteq> []" by (auto simp: reads_as_def)
  with v(1) show ?case by (subst parse_elems.simps) simp
next
  case (3 x y ts)
  then obtain v ws where v: "vs = v # ws" "reads_as d x v" "list_all2 (reads_as d) (y # ts) ws" by (auto simp: list_all2_Cons1)
  let ?rest = "commas (y # ts) @ CHR '']'' # t"
  have "parse_elems d ?rest = Some (ws, t)" using 3 v(3) by simp
  moreover have "parse_value d (x @ CHR '','' # ?rest) = Some (v, CHR '','' # ?rest)" "x \<noteq> []"
    using v(2) by (auto simp: reads_as_def)
  ultimately show ?case using v(1) by (subst parse_elems.simps) simp
qed simp

lemma parse_members_step:
  assumes "reads_entry d x p" "num_end tail"
  shows "parse_members d acc (x @ tail) =
     (case skip_ws tail of
        [] \<Rightarrow> None
      | c # r \<Rightarrow>
          if c = CHR '','' then parse_members d (gput (fst p) (snd p) acc) r
          else if c = CHR ''}'' then Some (gput (fst p) (snd p) acc, r)
          else None)"
proof -
  obtain w u where x: "x = CHR 0x22 # w @ CHR '':'' # u" "\<And>r. parse_str (w @ r) = Some (fst p, r)" "reads_as d u (snd p)"
    using assms(1) by (auto simp: reads_entry_def reads_string_def)
  then have "parse_value d (u @ tail) = Some (snd p, tail)" using assms(2) by (simp add: reads_as_def)
  with x(1,2) show ?thesis
    by (subst parse_members.simps) (simp cong: list.case_cong)
qed

lemma parse_members_reads:
  assumes "ts \<noteq> []" "list_all2 (reads_entry d) ts es" "distinct (map fst acc @ map fst es)"
  shows "parse_members d acc (commas ts @ CHR ''}'' # t) = Some (acc @ es, t)"
  using assms
proof (induction ts arbitrary: acc es rule: induct_list012)
  case (2 x)
  then obtain p where p: "es = [p]" "reads_entry d x p" by (auto simp: list_all2_Cons1)
  have "gput (fst p) (snd p) acc = acc @ [p]" using 2 p(1) gput_fresh [of "fst p" acc "snd p"] by auto
  with p show ?case by (simp add: parse_members_step)
next
  case (3 x y ts)
  then obtain p ps where p: "es = p # ps" "reads_entry d x p" "list_all2 (reads_entry d) (y # ts) ps" by (auto simp: list_all2_Cons1)
  have "gput (fst p) (snd p) acc = acc @ [p]" using 3 p(1) gput_fresh [of "fst p" acc "snd p"] by auto
  moreover have "parse_members d (acc @ [p]) (commas (y # ts) @ CHR ''}'' # t) = Some ((acc @ [p]) @ ps, t)"
    using 3 p by (intro "3.IH") auto
  ultimately show ?case using p by (simp add: parse_members_step)
qed simp

lemma commas_start: "xs \<noteq> [] \<Longrightarrow> (\<And>x. x \<in> set xs \<Longrightarrow> \<exists>c r. x = c # r \<and> P c) \<Longrightarrow> \<exists>c r. commas xs @ t = c # r \<and> P c"
  by (induction xs rule: commas.induct) fastforce+

lemma reads_array:
  assumes "list_all2 (reads_as (Suc d)) ts vs" "d < max_nesting"
  shows "reads_as d (CHR ''['' # commas ts @ '']'') (GArray vs)"
proof (cases "ts = []")
  case True
  with assms show ?thesis by (simp add: reads_as_def value_start_def is_ws_def parse_value.simps)
next
  case False
  have el: "parse_elems (Suc d) (commas ts @ CHR '']'' # t) = Some (vs, t)" for t using parse_elems_reads [OF False assms(1)] .
  have "\<exists>c r. commas ts @ CHR '']'' # t = c # r \<and> value_start c" for t
    using False assms(1) by (intro commas_start) (auto simp: reads_as_def list_all2_conv_all_nth in_set_conv_nth)
  then have st: "\<exists>c r. commas ts @ CHR '']'' # t = c # r \<and> skip_ws (c # r) = c # r \<and> c \<noteq> CHR '']''" for t
    by (metis skip_ws_id value_start_def)
  have "parse_value d (CHR ''['' # commas ts @ CHR '']'' # t) = Some (GArray vs, t)" for t
  proof -
    obtain c r where "commas ts @ CHR '']'' # t = c # r" "skip_ws (c # r) = c # r" "c \<noteq> CHR '']''" using st by blast
    with el [of t] assms(2) show ?thesis by (subst parse_value.simps) simp
  qed
  then show ?thesis by (simp add: reads_as_def value_start_def is_ws_def)
qed

lemma reads_object:
  assumes "list_all2 (reads_entry (Suc d)) ts es" "distinct (map fst es)" "d < max_nesting"
  shows "reads_as d (CHR ''{'' # commas ts @ ''}'') (GObject es)"
proof (cases "ts = []")
  case True
  with assms show ?thesis by (simp add: reads_as_def value_start_def is_ws_def parse_value.simps)
next
  case False
  have el: "parse_members (Suc d) [] (commas ts @ CHR ''}'' # t) = Some (es, t)" for t
    using parse_members_reads [OF False assms(1), of "[]"] assms(2) by simp
  have "\<exists>c r. commas ts @ CHR ''}'' # t = c # r \<and> value_start c" for t
    using False assms(1)
    by (intro commas_start) (auto simp: reads_entry_def reads_string_def value_start_def is_ws_def list_all2_conv_all_nth in_set_conv_nth)
  then have st: "\<exists>c r. commas ts @ CHR ''}'' # t = c # r \<and> skip_ws (c # r) = c # r \<and> c \<noteq> CHR ''}''" for t
    by (metis skip_ws_id value_start_def)
  have "parse_value d (CHR ''{'' # commas ts @ CHR ''}'' # t) = Some (GObject es, t)" for t
  proof -
    obtain c r where "commas ts @ CHR ''}'' # t = c # r" "skip_ws (c # r) = c # r" "c \<noteq> CHR ''}''" using st by blast
    with el [of t] assms(3) show ?thesis by (subst parse_value.simps) simp
  qed
  then show ?thesis by (simp add: reads_as_def value_start_def is_ws_def)
qed

lemma nesting_elem: "x \<in> set xs \<Longrightarrow> f x \<le> foldr max (map f xs) (0::nat)"
  by (induction xs) auto

lemma reads_escaped: "valid_text s \<Longrightarrow> reads_string (writeEscapedString s) s"
  unfolding reads_string_def using parse_str_escaped by (auto simp: writeEscapedString_def)

lemma out_reads: "hashable v \<Longrightarrow> nesting v + d \<le> max_nesting \<Longrightarrow> reads_as d (out v) (canon v)"
proof (induction v arbitrary: d rule: emit.induct)
  case (3 s)
  then show ?case by (simp add: out_simps reads_number integer_norm)
next
  case (4 s)
  then show ?case by (simp add: out_simps reads_stringD reads_escaped)
next
  case (5 vs)
  have "reads_as (Suc d) (out v) (canon v)" if "v \<in> set vs" for v
    using 5 that nesting_elem [OF that, of nesting] by (auto simp: list_all_iff)
  then have "list_all2 (reads_as (Suc d)) (map out vs) (map canon vs)"
    unfolding list_all2_map1 list_all2_map2 by (auto intro: list.rel_refl_strong)
  with 5 show ?case by (auto simp: out_array intro: reads_array)
next
  case (6 m)
  let ?es = "sort_by entry_less m"
  have "reads_entry (Suc d) (ent_text p) (fst p, canon (snd p))" if "p \<in> set ?es" for p
  proof -
    have "reads_as (Suc d) (out (snd p)) (canon (snd p))" "valid_text (fst p)"
      using 6 that nesting_elem [of p m "\<lambda>p. nesting (snd p)"] by (auto simp: list_all_iff)
    then have "reads_string (writeEscapedString (fst p)) (fst p)" "reads_as (Suc d) (out (snd p)) (canon (snd p))"
      by (simp_all add: reads_escaped)
    then show ?thesis unfolding reads_entry_def ent_text_def fst_conv snd_conv by blast
  qed
  then have "list_all2 (reads_entry (Suc d)) (map ent_text ?es) (map (\<lambda>p. (fst p, canon (snd p))) ?es)"
    unfolding list_all2_map1 list_all2_map2 by (auto intro: list.rel_refl_strong)
  moreover have "distinct (map fst (map (\<lambda>p. (fst p, canon (snd p))) ?es))"
  proof -
    have "mset (map fst ?es) = mset (map fst m)" by simp
    from mset_eq_imp_distinct_iff [OF this] 6 show ?thesis by (simp add: gmap_ok_def comp_def)
  qed
  ultimately have "reads_as d (CHR ''{'' # commas (map ent_text ?es) @ ''}'') (GObject (map (\<lambda>p. (fst p, canon (snd p))) ?es))"
    using 6 by (intro reads_object) simp_all
  with 6 show ?case by (simp add: out_object sort_entries_map)
qed (simp_all add: out_simps reads_literals)

subsection \<open>Canonical text is valid UTF-8\<close>

lemma decode_rune_append:
  "decode_rune (b # bs) = (r, n) \<Longrightarrow> (r, n) \<noteq> (65533, 1) \<Longrightarrow> decode_rune (b # bs @ t) = (r, n) \<and> n - 1 \<le> length bs"
  by (auto simp: decode_rune_def split: list.splits if_splits)

lemma utf8_valid_append: "utf8_valid bs \<Longrightarrow> utf8_valid t \<Longrightarrow> utf8_valid (bs @ t)"
proof (induction bs rule: utf8_valid.induct)
  case (2 b bs)
  obtain r n where rn: "decode_rune (b # bs) = (r, n)" by fastforce
  with 2 have "(r, n) \<noteq> (65533, 1)" by simp
  then have "decode_rune (b # bs @ t) = (r, n)" "n - Suc (length bs) = 0"
    using decode_rune_append [OF rn, of t] by auto
  with 2 rn show ?case by simp
qed simp

lemma utf8_valid_ascii: "list_all (\<lambda>b. b < 128) bs \<Longrightarrow> utf8_valid bs"
  by (induction bs) (auto simp: decode_rune_def)

lemma utf8_valid_encode_rune:
  assumes "scalar r"
  shows "utf8_valid (encode_rune r)"
proof -
  have h: "r div 64 = 64 * (r div 4096) + r div 64 mod 64" "r div 4096 = 64 * (r div 262144) + r div 4096 mod 64"
    by (simp_all add: div_mult2_eq [of r 64 64, simplified] div_mult2_eq [of r 4096 64, simplified])
  have top: "r \<le> 1114111" using assms by (auto simp: scalar_def)
  consider "r < 128" | "128 \<le> r" "r < 2048" | "2048 \<le> r" "r < 65536" | "65536 \<le> r" by linarith
  then show ?thesis
  proof cases
    case 1
    then show ?thesis by (simp add: encode_rune_def decode_rune_def)
  next
    case 2
    then have "2 \<le> r div 64" "r div 64 < 32" by auto
    with 2 show ?thesis by (simp add: encode_rune_def decode_rune_def cont_def)
  next
    case 3
    have "r div 4096 < 16" "r div 4096 = 0 \<longrightarrow> 32 \<le> r div 64 mod 64" using 3 h by auto
    moreover have "r div 4096 = 13 \<longrightarrow> r div 64 mod 64 \<le> 31" using assms h(1) by (auto simp: scalar_def)
    moreover have "\<not> (55296 \<le> r \<and> r \<le> 57343)" using assms by (auto simp: scalar_def)
    ultimately show ?thesis using 3 by (auto simp: encode_rune_def decode_rune_def cont_def)
  next
    case 4
    have "r div 262144 \<le> 4" "r div 262144 = 0 \<longrightarrow> 16 \<le> r div 4096 mod 64" using 4 h top by auto
    moreover have "r div 262144 = 4 \<longrightarrow> r div 4096 mod 64 \<le> 15" using top h(2) by auto
    ultimately show ?thesis using 4 top by (auto simp: encode_rune_def decode_rune_def cont_def)
  qed
qed

lemma valid_text_append: "valid_text s \<Longrightarrow> valid_text t \<Longrightarrow> valid_text (s @ t)"
  by (simp add: valid_text_def bytes_of_def utf8_valid_append)

lemma valid_text_ascii: "list_all (\<lambda>c. (of_char c :: nat) < 128) s \<Longrightarrow> valid_text s"
  by (simp add: valid_text_def bytes_of_def utf8_valid_ascii list_all_iff)

lemma valid_text_Cons: "(of_char c :: nat) < 128 \<Longrightarrow> valid_text s \<Longrightarrow> valid_text (c # s)"
  using valid_text_append [of "[c]" s] valid_text_ascii [of "[c]"] by simp

lemma hex_digit_ascii: "(of_char (hex_digit n) :: nat) < 128"
  using is_hex_hex_digit [of n] by (auto simp: is_hex_def less_eq_char_def)

lemma valid_esc_rune:
  assumes "scalar r"
  shows "valid_text (esc_rune r)"
proof -
  have "bytes_of (string_of (encode_rune r)) = encode_rune r"
    using encode_rune_bytes [OF assms] by (auto simp: bytes_of_def string_of_def o_def intro!: map_idI)
  then have "valid_text (string_of (encode_rune r))"
    by (simp add: valid_text_def utf8_valid_encode_rune assms)
  moreover have "valid_text (u_escape r)"
    by (rule valid_text_ascii) (simp add: u_escape_def hex_digit_ascii)
  ultimately show ?thesis
    by (auto simp: esc_rune_def intro!: valid_text_ascii)
qed

lemma valid_text_concat: "(\<And>s. s \<in> set ss \<Longrightarrow> valid_text s) \<Longrightarrow> valid_text (concat ss)"
  by (induction ss) (auto intro: valid_text_append valid_text_ascii)

lemma valid_writeEscapedString: "valid_text s \<Longrightarrow> valid_text (writeEscapedString s)"
proof -
  assume "valid_text s"
  then have "list_all scalar (runes s)"
    using decode_runes_valid by (simp add: valid_text_def runes_def)
  then have "valid_text (concat (map esc_rune (runes s)))"
    by (intro valid_text_concat) (auto simp: list_all_iff valid_esc_rune)
  then show ?thesis
    unfolding writeEscapedString_def
    by (intro valid_text_Cons valid_text_append) (auto intro: valid_text_ascii)
qed

lemma valid_commas: "(\<And>s. s \<in> set ss \<Longrightarrow> valid_text s) \<Longrightarrow> valid_text (commas ss)"
  by (induction ss rule: commas.induct) (auto intro!: valid_text_append valid_text_Cons intro: valid_text_ascii)

lemma integer_ascii:
  assumes "integerForm s"
  shows "valid_text s"
proof (rule valid_text_ascii)
  have "(of_char c :: nat) < 128" if "is_digit c" for c
    using that by (auto simp: is_digit_def less_eq_char_def)
  with assms digit19_digit show "list_all (\<lambda>c. (of_char c :: nat) < 128) s"
    by (cases s) (auto simp: integerForm_def unsigned_form_def list_all_iff split: if_splits list.splits)
qed

lemma valid_out: "hashable v \<Longrightarrow> valid_text (out v)"
proof (induction v rule: emit.induct)
  case (5 vs)
  then have "valid_text (commas (map out vs))" by (intro valid_commas) (auto simp: list_all_iff)
  with 5 show ?case
    by (auto simp: out_array intro!: valid_text_append valid_text_Cons intro: valid_text_ascii)
next
  case (6 m)
  then have "valid_text (ent_text p)" if "p \<in> set (sort_by entry_less m)" for p
    using that by (cases p) (auto simp: list_all_iff ent_text_def intro!: valid_text_append valid_text_Cons valid_writeEscapedString)
  then have "valid_text (commas (map ent_text (sort_by entry_less m)))" by (intro valid_commas) auto
  with 6 show ?case
    by (auto simp: out_object intro!: valid_text_append valid_text_Cons intro: valid_text_ascii)
qed (auto simp: out_simps integer_ascii integer_norm valid_writeEscapedString intro: valid_text_ascii)

subsection \<open>Round trip and exact equality\<close>

lemma parse_out:
  assumes "hashable v" "nesting v \<le> max_nesting"
  shows "ParseJSONStrict (out v) = Inr (canon v)"
proof -
  have "reads_as 0 (out v) (canon v)" using out_reads [OF assms(1), of 0] assms(2) by simp
  then have "parse_value 0 (out v @ []) = Some (canon v, [])" unfolding reads_as_def by (meson num_end_sep(4))
  with valid_out [OF assms(1)] show ?thesis by (simp add: ParseJSONStrict_def skip_ws_def)
qed

lemma map_eq_list_all2:
  "(\<And>x y. x \<in> set xs \<Longrightarrow> y \<in> set ys \<Longrightarrow> f x = f y \<longleftrightarrow> R x y) \<Longrightarrow> map f xs = map f ys \<longleftrightarrow> list_all2 R xs ys"
proof (induction xs arbitrary: ys)
  case (Cons x xs)
  then show ?case by (cases ys) auto
qed auto

lemma same_entries:
  assumes "gmap_ok m" "gmap_ok n"
    and R: "\<And>p q. p \<in> set m \<Longrightarrow> q \<in> set n \<Longrightarrow> f (snd p) = f (snd q) \<longleftrightarrow> R (snd p) (snd q)"
  shows "(\<lambda>p. (fst p, f (snd p))) ` set m = (\<lambda>p. (fst p, f (snd p))) ` set n \<longleftrightarrow>
     (\<forall>k \<in> set (map fst n). has_key m k) \<and>
     list_all (\<lambda>p. case map_of n (fst p) of None \<Rightarrow> False | Some x \<Rightarrow> R (snd p) x) m"
    (is "?f ` set m = ?f ` set n \<longleftrightarrow> ?keys \<and> ?vals")
proof
  have at: "map_of n (fst q) = Some (snd q)" if "q \<in> set n" for q
    using assms(2) that by (cases q) (auto simp: gmap_ok_def)
  {
    assume eq: "?f ` set m = ?f ` set n"
    have "fst ` set m = fst ` set n"
      using arg_cong [OF eq, of "(`) fst"] by (simp add: image_image)
    then have ?keys by (auto simp: has_key_def)
    moreover have "case map_of n (fst p) of None \<Rightarrow> False | Some x \<Rightarrow> R (snd p) x" if p: "p \<in> set m" for p
    proof -
      have "?f p \<in> ?f ` set n" using p unfolding eq [symmetric] by (rule imageI)
      then obtain q where q: "q \<in> set n" "fst q = fst p" "f (snd p) = f (snd q)" by force
      with at [OF q(1)] R [OF p q(1)] show ?thesis by simp
    qed
    ultimately show "?keys \<and> ?vals" by (simp add: list_all_iff)
  next
    assume kv: "?keys \<and> ?vals"
    have "?f p \<in> ?f ` set n" if p: "p \<in> set m" for p
    proof -
      from kv p obtain x where x: "map_of n (fst p) = Some x" "R (snd p) x"
        by (auto simp: list_all_iff split: option.splits)
      then have "(fst p, x) \<in> set n" by (auto dest: map_of_SomeD)
      with R [OF p this] x show ?thesis by (intro image_eqI [of _ _ "(fst p, x)"]) auto
    qed
    moreover have "?f q \<in> ?f ` set m" if q: "q \<in> set n" for q
    proof -
      from kv q obtain p where p: "p \<in> set m" "fst p = fst q" by (force simp: has_key_def)
      with kv at [OF q] have "R (snd p) (snd q)" by (auto simp: list_all_iff)
      with R [OF p(1) q] p show ?thesis by (intro image_eqI [of _ _ p]) auto
    qed
    ultimately show "?f ` set m = ?f ` set n" by auto
  }
qed

lemma canon_eq_scalar:
  "GNil = canon w \<longleftrightarrow> w = GNil" "GBool b = canon w \<longleftrightarrow> w = GBool b" "GString s = canon w \<longleftrightarrow> w = GString s"
  by (cases w; auto)+

lemma canon_eq_same_json: "hashable v \<Longrightarrow> hashable w \<Longrightarrow> canon v = canon w \<longleftrightarrow> same_json v w"
proof (induction v arbitrary: w rule: canon.induct)
  case (2 vs)
  show ?case
  proof (cases w)
    case (GArray ws)
    with 2 have "map canon vs = map canon ws \<longleftrightarrow> list_all2 same_json vs ws"
      by (intro map_eq_list_all2) (auto simp: list_all_iff)
    with GArray show ?thesis by simp
  qed auto
next
  case (3 m)
  show ?case
  proof (cases w)
    case (GObject n)
    let ?f = "\<lambda>p. (fst p, canon (snd p))"
    have fm: "gmap_ok (map ?f m)" "gmap_ok (map ?f n)"
      using 3 GObject by (simp_all add: gmap_ok_def comp_def)
    have keys: "valid_text (fst p)" if "p \<in> set (map ?f m)" for p
      using that 3 by (auto simp: list_all_iff)
    have dist: "distinct (map ?f m)" "distinct (map ?f n)"
      using fm unfolding gmap_ok_def distinct_map [of fst] by blast+
    have "sort_by entry_less (map ?f m) = sort_by entry_less (map ?f n) \<longleftrightarrow> mset (map ?f m) = mset (map ?f n)"
    proof
      assume "sort_by entry_less (map ?f m) = sort_by entry_less (map ?f n)"
      from arg_cong [OF this, of mset] show "mset (map ?f m) = mset (map ?f n)" by (simp only: mset_sort_by)
    next
      assume "mset (map ?f m) = mset (map ?f n)"
      from sort_entries_perm [OF this fm(1) keys]
      show "sort_by entry_less (map ?f m) = sort_by entry_less (map ?f n)" .
    qed
    also have "\<dots> \<longleftrightarrow> ?f ` set m = ?f ` set n"
      using set_eq_iff_mset_eq_distinct [OF dist] by simp
    also have "\<dots> \<longleftrightarrow> same_json (GObject m) (GObject n)"
    proof -
      have "canon (snd p) = canon (snd q) \<longleftrightarrow> same_json (snd p) (snd q)"
        if "p \<in> set m" "q \<in> set n" for p q
        using 3 GObject that by (cases p) (auto simp: list_all_iff)
      from same_entries [where f = canon and R = same_json, OF _ _ this] 3 GObject show ?thesis by simp
    qed
    finally show ?thesis using GObject by simp
  qed auto
qed (auto simp: canon_eq_scalar split: gv.splits)

lemma out_canon: "hashable v \<Longrightarrow> hashable (canon v) \<and> out (canon v) = out v"
proof (induction v rule: canon.induct)
  case (1 s)
  then show ?case by (simp add: out_simps integer_norm) (simp add: norm_number_def)
next
  case (2 vs)
  then have "hashable (GArray (map canon vs))" "map out (map canon vs) = map out vs"
    by (auto simp: list_all_iff)
  with 2 show ?case by (simp add: out_array del: map_map)
next
  case (3 m)
  let ?f = "\<lambda>p. (fst p, canon (snd p))"
  have eq: "canon (GObject m) = GObject (map ?f (sort_by entry_less m))" by (simp add: sort_entries_map)
  have "hashable (snd (?f p)) \<and> ent_text (?f p) = ent_text p" if "p \<in> set m" for p
    using 3 that by (cases p) (auto simp: list_all_iff ent_text_def)
  moreover have "gmap_ok (map ?f (sort_by entry_less m))"
  proof -
    have "mset (map fst (sort_by entry_less m)) = mset (map fst m)" by simp
    from mset_eq_imp_distinct_iff [OF this] 3 show ?thesis by (simp add: gmap_ok_def comp_def)
  qed
  ultimately have h: "hashable (canon (GObject m))" and t: "map ent_text (map ?f (sort_by entry_less m)) = map ent_text (sort_by entry_less m)"
    using 3 unfolding eq by (auto simp: list_all_iff)
  have "sort_by entry_less (map ?f (sort_by entry_less m)) = map ?f (sort_by entry_less m)"
    using ent.sorted_sort_by [of m] by (intro ent.sort_by_sorted) (simp add: comp_def)
  with h t 3 show ?case unfolding eq by (simp add: out_object del: map_map)
qed auto

lemma out_eq_same_json:
  assumes "hashable v" "hashable w" "nesting v \<le> max_nesting" "nesting w \<le> max_nesting"
  shows "out v = out w \<longleftrightarrow> same_json v w"
proof
  assume "out v = out w"
  with parse_out assms have "canon v = canon w" by (metis Inr_inject)
  with canon_eq_same_json assms show "same_json v w" by blast
next
  assume "same_json v w"
  with canon_eq_same_json assms have "canon v = canon w" by blast
  with out_canon assms show "out v = out w" by metis
qed

end
