(* ===== verification/Canonical_Facts.thy ===== *)
theory Canonical_Facts
  imports Json_Decode
begin

text \<open>
  The properties of the canonical form: round trip, exactness of canonical equality, the one reason
  for which canonicalisation fails, the shape of digests, and the symmetry of the reference-pair
  normalisation.
\<close>

subsection \<open>Which values the serialiser refuses\<close>

fun decoder_model :: "gv \<Rightarrow> bool" where
  "decoder_model (GArray vs) = list_all decoder_model vs"
| "decoder_model (GObject m) = list_all (\<lambda>p. decoder_model (snd p)) m"
| "decoder_model (GInt i) = False"
| "decoder_model (GFloat r) = False"
| "decoder_model (GOther r) = False"
| "decoder_model v = True"

fun number_tokens :: "gv \<Rightarrow> string list" where
  "number_tokens (GNumber s) = [s]"
| "number_tokens (GArray vs) = concat (map number_tokens vs)"
| "number_tokens (GObject m) = concat (map (\<lambda>p. number_tokens (snd p)) m)"
| "number_tokens v = []"

lemma traverse_uniform_error:
  assumes "\<And>x. x \<in> set xs \<Longrightarrow> P x \<Longrightarrow> \<exists>y. f x = Inr y"
    and "\<And>x. x \<in> set xs \<Longrightarrow> \<not> P x \<Longrightarrow> f x = Inl e"
  shows "if list_all P xs then \<exists>ys. traverse f xs = Inr ys else traverse f xs = Inl e"
  using assms
proof (induction xs)
  case (Cons x xs)
  then have "if list_all P xs then \<exists>ys. traverse f xs = Inr ys else traverse f xs = Inl e" by simp
  with Cons.prems [of x] show ?case by (cases "P x") (auto split: if_splits)
qed simp

lemma emit_outcome:
  "decoder_model v \<Longrightarrow>
   if list_all integerForm (number_tokens v) then \<exists>s. emit v = Inr s
   else emit v = Inl (CanonicalizationError ReasonNonIntegerNumber)"
proof (induction v rule: emit.induct)
  case (5 vs)
  have IH: "if list_all integerForm (number_tokens v) then \<exists>s. emit v = Inr s
      else emit v = Inl (CanonicalizationError ReasonNonIntegerNumber)" if "v \<in> set vs" for v
    using 5 that by (auto simp: list_all_iff)
  have "if list_all (\<lambda>v. list_all integerForm (number_tokens v)) vs then \<exists>ys. traverse emit vs = Inr ys
      else traverse emit vs = Inl (CanonicalizationError ReasonNonIntegerNumber)"
    by (rule traverse_uniform_error) (use IH in \<open>force split: if_splits\<close>)+
  then show ?case by (auto simp: list_all_iff split: if_splits)
next
  case (6 m)
  let ?es = "sort_by entry_less m"
  let ?f = "\<lambda>p. and_then (emit (snd p)) (\<lambda>s. Inr (writeEscapedString (fst p) @ CHR '':'' # s))"
  have IH: "if list_all integerForm (number_tokens (snd p)) then \<exists>s. emit (snd p) = Inr s
      else emit (snd p) = Inl (CanonicalizationError ReasonNonIntegerNumber)" if "p \<in> set ?es" for p
    using "6.IH" [OF that] "6.prems" that by (simp add: list_all_iff)
  have "if list_all (\<lambda>p. list_all integerForm (number_tokens (snd p))) ?es then \<exists>ys. traverse ?f ?es = Inr ys
      else traverse ?f ?es = Inl (CanonicalizationError ReasonNonIntegerNumber)"
    by (rule traverse_uniform_error) (use IH in \<open>force split: if_splits\<close>)+
  then show ?case by (auto simp: list_all_iff split: if_splits)
qed auto

subsection \<open>The normalised pair of source references\<close>

text \<open>The exact triple that identifies a normalised source reference.\<close>

definition ref_triple :: "gobj \<Rightarrow> string \<times> int \<times> string" where
  "ref_triple r = (str_or_empty (gidx r ''lineage_id''), the (refVersionSortKey r), str_or_empty (gidx r ''artifact_digest''))"

definition ref_shaped :: "gobj \<Rightarrow> bool" where
  "ref_shaped r = (hasStringKey r ''lineage_id'' \<and> refVersionSortKey r \<noteq> None \<and> hasStringKey r ''artifact_digest'')"

lemma ref_shaped_fields:
  assumes "ref_shaped r"
  obtains l v d where "AsString (gidx r ''lineage_id'') = Some l" "refVersionSortKey r = Some v"
    "AsString (gidx r ''artifact_digest'') = Some d" "ref_triple r = (l, v, d)"
  using assms by (auto simp: ref_shaped_def hasStringKey_def ref_triple_def str_or_empty_def)

lemma skillRefPairLess_triple:
  assumes "ref_shaped a" "ref_shaped b"
  shows "skillRefPairLess a b \<longleftrightarrow> ref_triple a < ref_triple b"
proof -
  obtain al av ad where a: "AsString (gidx a ''lineage_id'') = Some al" "refVersionSortKey a = Some av"
    "AsString (gidx a ''artifact_digest'') = Some ad" "ref_triple a = (al, av, ad)"
    using assms(1) by (rule ref_shaped_fields)
  obtain bl bv bd where b: "AsString (gidx b ''lineage_id'') = Some bl" "refVersionSortKey b = Some bv"
    "AsString (gidx b ''artifact_digest'') = Some bd" "ref_triple b = (bl, bv, bd)"
    using assms(2) by (rule ref_shaped_fields)
  show ?thesis
    unfolding skillRefPairLess_def Let_def str_or_empty_def a b
    by (simp add: less_prod_def) fastforce
qed

lemma map_of_norm: "map_of (map (\<lambda>p. sort_pair_entry (fst p, NormalizeForHashing (snd p))) m) k =
   map_option (\<lambda>v. snd (sort_pair_entry (k, NormalizeForHashing v))) (map_of m k)"
  by (induction m) (auto simp: sort_pair_entry_def)

lemma normalize_scalar_field:
  fixes m k
  defines "n \<equiv> map (\<lambda>p. sort_pair_entry (fst p, NormalizeForHashing (snd p))) m"
  assumes "AsString (gidx m k) \<noteq> None \<or> IsIntegerNumber (gidx m k) \<or> map_of m k = None"
  shows "map_of n k = map_of m k"
proof (cases "map_of m k")
  case (Some v)
  then have "AsString v \<noteq> None \<or> IsIntegerNumber v" using assms(2) by (auto simp: gidx_def)
  then have "snd (sort_pair_entry (k, NormalizeForHashing v)) = v"
    by (cases v) (auto simp: sort_pair_entry_def AsString_def IsIntegerNumber_def sort_ref_pair_def)
  then show ?thesis unfolding n_def map_of_norm Some by simp
qed (simp add: n_def map_of_norm)

definition norm_entries :: "gobj \<Rightarrow> gobj" where
  "norm_entries m = map (\<lambda>p. sort_pair_entry (fst p, NormalizeForHashing (snd p))) m"

lemma norm_entries_ref:
  assumes "ref_shaped a"
  shows "ref_shaped (norm_entries a)" "ref_triple (norm_entries a) = ref_triple a"
proof -
  from assms have "map_of (norm_entries a) k = map_of a k"
    if "k \<in> {''lineage_id'', ''version'', ''artifact_digest''}" for k
    using that normalize_scalar_field [of a k]
    by (auto simp: norm_entries_def ref_shaped_def hasStringKey_def refVersionSortKey_def gidx_def
        split: option.splits if_splits)
  then have "gidx (norm_entries a) ''lineage_id'' = gidx a ''lineage_id''"
    "gidx (norm_entries a) ''artifact_digest'' = gidx a ''artifact_digest''"
    "refVersionSortKey (norm_entries a) = refVersionSortKey a"
    by (simp_all add: gidx_def refVersionSortKey_def)
  with assms show "ref_shaped (norm_entries a)" "ref_triple (norm_entries a) = ref_triple a"
    by (simp_all add: ref_shaped_def ref_triple_def hasStringKey_def)
qed

lemma sort_ref_pair_swap:
  assumes "ref_shaped a" "ref_shaped b" "ref_triple a \<noteq> ref_triple b"
  shows "sort_ref_pair (GArray [GObject a, GObject b]) = sort_ref_pair (GArray [GObject b, GObject a])"
proof -
  have "hasStringKey a ''lineage_id''" "hasStringKey b ''lineage_id''"
    using assms by (auto simp: ref_shaped_def)
  with assms show ?thesis
    by (auto simp: sort_ref_pair_def AsObject_def obj_or_nil_def skillRefPairLess_triple not_less)
qed

lemma canon_idem: "hashable v \<Longrightarrow> canon (canon v) = canon v"
proof (induction v rule: canon.induct)
  case (3 m)
  let ?f = "\<lambda>p. (fst p, canon (snd p))"
  let ?es = "sort_by entry_less m"
  have eq: "canon (GObject m) = GObject (map ?f ?es)" by (simp add: sort_entries_map)
  have "map ?f (map ?f ?es) = map ?f ?es" using 3 by (auto simp: list_all_iff)
  moreover have "sort_by entry_less (map ?f ?es) = map ?f ?es"
    using ent.sorted_sort_by [of m] by (intro ent.sort_by_sorted) (simp add: comp_def)
  ultimately show ?case unfolding eq by (simp del: map_map)
qed (auto simp: norm_number_def list_all_iff)

text \<open>On ASCII keys the UTF-16 order is the byte order.\<close>

lemma utf16_ascii:
  assumes "list_all (\<lambda>c. (of_char c :: nat) < 128) s"
  shows "utf16_encode (runes s) = map of_char s"
proof -
  have "decode_runes bs = bs" if "list_all (\<lambda>b. b < 128) bs" for bs
    using that by (induction bs) (simp_all add: decode_rune_def)
  then have "runes s = map of_char s" using assms by (simp add: runes_def bytes_of_def list_all_iff)
  moreover have "concat (map utf16_units bs) = bs" if "list_all (\<lambda>b. b < 128) bs" for bs
    using that by (induction bs) (simp_all add: utf16_units_def)
  ultimately show ?thesis using assms by (simp add: utf16_encode_def list_all_iff del: map_map)
qed

lemma digest_bytes_pattern: "digestPattern (DigestBytes s)"
  by (simp add: DigestBytes_def digestPattern_def length_hex_state hex_state_is_hex)

lemma DigestOf_hashable: "hashable v \<Longrightarrow> DigestOf v = Inr (DigestBytes (out v))"
  by (simp add: DigestOf_def JCS_def emit_hashable)

subsection \<open>Properties\<close>

text \<open>
  C23: the canonical bytes of a hashable value always exist, are valid input of the strict decoder, and
  decode to a value that is JSON-equal to the original and has the same canonical bytes again.
\<close>

theorem jcs_roundtrip:
  assumes "hashable v" and "nesting v \<le> max_nesting"
  shows "\<exists>s w. JCS v = Inr s \<and> ParseJSONStrict s = Inr w \<and> same_json v w \<and> JCS w = Inr s"
proof (intro exI conjI)
  show "JCS v = Inr (out v)" using assms(1) by (simp add: JCS_def emit_hashable)
  show "ParseJSONStrict (out v) = Inr (canon v)" by (rule parse_out [OF assms])
  have canon: "hashable (canon v)" "out (canon v) = out v" using out_canon [OF assms(1)] by auto
  then show "JCS (canon v) = Inr (out v)" by (simp add: JCS_def emit_hashable)
  show "same_json v (canon v)"
    using canon_eq_same_json [OF assms(1) canon(1)] canon_idem [OF assms(1)] by simp
qed

definition sample_doc :: gv where
  "sample_doc = GObject [(''b'', GNumber ''-0''), (''a'', GArray [GString ''x'', GBool True, GNil])]"

lemma sample_doc_hashable: "hashable sample_doc" "nesting sample_doc \<le> max_nesting"
  by (simp_all add: sample_doc_def max_nesting_def gmap_ok_def valid_text_ascii integerForm_def unsigned_form_def)

theorem jcs_roundtrip_witness:
  "hashable sample_doc \<and> nesting sample_doc \<le> max_nesting \<and>
   (\<exists>s w. JCS sample_doc = Inr s \<and> ParseJSONStrict s = Inr w \<and> same_json sample_doc w \<and> JCS w = Inr s)"
  using jcs_roundtrip [of sample_doc] sample_doc_hashable by blast

text \<open>
  \<open>EqualJSON\<close> (equality of canonical keys) is exactly JSON equality: arrays element by element,
  objects as finite maps whatever the order of their entries, numbers by their integer token with
  \<open>-0\<close> equal to \<open>0\<close>. Two different values never share a canonical key.
\<close>

theorem EqualJSON_exact:
  assumes "hashable v" "hashable w" "nesting v \<le> max_nesting" "nesting w \<le> max_nesting"
  shows "EqualJSON v w \<longleftrightarrow> same_json v w"
proof -
  have "CanonicalKey v = out v" "CanonicalKey w = out w"
    using assms by (simp_all add: CanonicalKey_def JCS_def emit_hashable)
  with out_eq_same_json [OF assms] show ?thesis by (simp add: EqualJSON_def)
qed

theorem EqualJSON_exact_witness:
  "EqualJSON sample_doc (GObject [(''a'', GArray [GString ''x'', GBool True, GNil]), (''b'', GNumber ''0'')])"
proof -
  let ?w = "GObject [(''a'', GArray [GString ''x'', GBool True, GNil]), (''b'', GNumber ''0'')]"
  have w: "hashable ?w" "nesting ?w \<le> max_nesting"
    by (simp_all add: max_nesting_def gmap_ok_def valid_text_ascii integerForm_def unsigned_form_def)
  have "same_json sample_doc ?w" by code_simp
  with EqualJSON_exact [of sample_doc ?w] w sample_doc_hashable show ?thesis by blast
qed

text \<open>
  on decoder-model values canonicalisation is total but for one reason: it fails, and then with
  \<open>NON_INTEGER_NUMBER\<close>, exactly when some number token anywhere in the value is not a plain integer.
\<close>

theorem JCS_refuses_exactly_non_integers:
  assumes "decoder_model v"
  shows "if list_all integerForm (number_tokens v) then \<exists>s. JCS v = Inr s
         else JCS v = Inl (CanonicalizationError ReasonNonIntegerNumber)"
  using emit_outcome [OF assms] by (simp add: JCS_def)

theorem JCS_refuses_exactly_non_integers_witness:
  "JCS (GArray [GNumber ''1'', GObject [(''k'', GNumber ''1.0'')]]) = Inl (CanonicalizationError ReasonNonIntegerNumber)"
proof -
  let ?v = "GArray [GNumber ''1'', GObject [(''k'', GNumber ''1.0'')]]"
  have "decoder_model ?v" "\<not> list_all integerForm (number_tokens ?v)" by code_simp+
  with JCS_refuses_exactly_non_integers [of ?v] show ?thesis by simp
qed

text \<open>
  every digest the contract package hands out has the shape its own pattern requires, so a freshly
  computed digest is always accepted by the strict parsers.
\<close>

theorem DigestOf_shape:
  assumes "DigestOf v = Inr d"
  shows "digestPattern d"
  using assms by (auto simp: DigestOf_def res_simps digest_bytes_pattern)

theorem DigestOf_shape_witness: "\<exists>d. DigestOf sample_doc = Inr d \<and> digestPattern d"
proof -
  have "DigestOf sample_doc = Inr (DigestBytes (out sample_doc))"
    using sample_doc_hashable by (simp add: DigestOf_hashable)
  with DigestOf_shape [of sample_doc] show ?thesis by blast
qed

text \<open>
  the normalisation before hashing makes the two orders of a \<open>source_skill_refs\<close> pair the same value
  (so A+B and B+A get the same digest), for any two references with different exact triples, whatever
  else the document holds.
\<close>

theorem normalize_pair_symmetric:
  assumes "ref_shaped a" "ref_shaped b" "ref_triple a \<noteq> ref_triple b"
  shows "NormalizeForHashing (GObject (pre @ (''source_skill_refs'', GArray [GObject a, GObject b]) # post)) =
         NormalizeForHashing (GObject (pre @ (''source_skill_refs'', GArray [GObject b, GObject a]) # post))"
  using sort_ref_pair_swap [of "norm_entries a" "norm_entries b"] norm_entries_ref assms
  by (simp add: sort_pair_entry_def norm_entries_def)

theorem normalize_pair_symmetric_witness:
  "DigestOf (NormalizeForHashing (GObject [(''source_skill_refs'',
      GArray [GObject [(''lineage_id'', GString ''b''), (''version'', GNumber ''2''), (''artifact_digest'', GString ''d'')],
              GObject [(''lineage_id'', GString ''a''), (''version'', GNumber ''1''), (''artifact_digest'', GString ''d'')]])])) =
   DigestOf (NormalizeForHashing (GObject [(''source_skill_refs'',
      GArray [GObject [(''lineage_id'', GString ''a''), (''version'', GNumber ''1''), (''artifact_digest'', GString ''d'')],
              GObject [(''lineage_id'', GString ''b''), (''version'', GNumber ''2''), (''artifact_digest'', GString ''d'')]])]))"
proof -
  let ?b = "[(''lineage_id'', GString ''b''), (''version'', GNumber ''2''), (''artifact_digest'', GString ''d'')]"
  let ?a = "[(''lineage_id'', GString ''a''), (''version'', GNumber ''1''), (''artifact_digest'', GString ''d'')]"
  have "ref_shaped ?b" "ref_shaped ?a" "ref_triple ?b \<noteq> ref_triple ?a" by code_simp+
  from normalize_pair_symmetric [OF this, of "[]" "[]"] show ?thesis by simp
qed

end
