(* ===== verification/Refs.thy ===== *)
theory Refs
  imports Canonical_Facts
begin

text \<open>
  The strict exact-reference parsers of \<^verbatim>\<open>internal/contract/dto.go\<close> and the renderers that the replay
  and evaluator packages use for the same shapes. The results characterise each parser completely:
  a document is accepted exactly when it is the rendering of a well-formed reference.
\<close>

abbreviation SchemaSkillArtifactRef :: string where
  "SchemaSkillArtifactRef \<equiv> ''gms.skill-artifact-ref.v2''"
abbreviation SchemaCandidateArtifactRef :: string where
  "SchemaCandidateArtifactRef \<equiv> ''gms.candidate-artifact-ref.v2''"
abbreviation SchemaEvidenceRef :: string where
  "SchemaEvidenceRef \<equiv> ''gms.evidence-ref.v1''"
abbreviation ReasonSchemaVersionUnsupported :: string where
  "ReasonSchemaVersionUnsupported \<equiv> ''SCHEMA_VERSION_UNSUPPORTED''"
abbreviation ReasonSchemaFieldUnknown :: string where
  "ReasonSchemaFieldUnknown \<equiv> ''SCHEMA_FIELD_UNKNOWN''"
abbreviation ReasonSchemaRequiredFieldMissin :: string where
  "ReasonSchemaRequiredFieldMissin \<equiv> ''SCHEMA_REQUIRED_FIELD_MISSING''"
abbreviation ReasonSchemaEnumInvalid :: string where
  "ReasonSchemaEnumInvalid \<equiv> ''SCHEMA_ENUM_INVALID''"

definition legacySkillArtifactRefAliases :: "string list" where
  "legacySkillArtifactRefAliases = [''skill_id'', ''artifact_id'', ''digest'', ''body_sha'', ''parents'']"

definition skillKinds :: "string list" where
  "skillKinds = [''human_procedure'', ''step_guidance'', ''composite'', ''tool'']"

definition originTypes :: "string list" where
  "originTypes = [''skill_proposal'', ''merge_proposal'']"

definition commitStates :: "string list" where
  "commitStates = [''committed'', ''sealed'']"

definition evidenceKinds :: "string list" where
  "evidenceKinds = [''success_path'', ''failure_path'', ''recovery_path'', ''observation'', ''replay_result'', ''human_attestation'']"

subsection \<open>The references\<close>

record SkillArtifactRef =
  sar_schema_version :: string
  sar_lineage_id :: string
  sar_version :: string
  sar_kind :: string
  sar_artifact_digest :: string

record VersionedRef =
  vr_id :: string
  vr_version :: string
  vr_digest :: string

record CandidateArtifactRef =
  car_schema_version :: string
  car_candidate_id :: string
  car_kind :: string
  car_body_digest :: string
  car_origin_type :: string
  car_origin_ref :: VersionedRef

record EvidenceRef =
  er_schema_version :: string
  er_evidence_id :: string
  er_version :: string
  er_evidence_digest :: string
  er_commit_state :: string
  er_evidence_kind :: string
  er_source_segment_ref :: "VersionedRef option"

definition VersionInt :: "SkillArtifactRef \<Rightarrow> int option" where
  "VersionInt r = big_set_string (sar_version r)"

subsection \<open>Field readers\<close>

definition rejectUnknownFields :: "gobj \<Rightarrow> string list \<Rightarrow> string list \<Rightarrow> unit res" where
  "rejectUnknownFields obj closed legacyAliases =
     and_then (for_each (\<lambda>alias. check (\<not> has_key obj alias) (SchemaError ReasonSchemaFieldUnknown)) legacyAliases)
       (\<lambda>_. for_each (\<lambda>key. check (key \<in> set closed) (SchemaError ReasonSchemaFieldUnknown)) (map fst obj))"

definition requireNonEmptyString :: "gobj \<Rightarrow> string \<Rightarrow> string res" where
  "requireNonEmptyString obj field =
     (case map_of obj field of
        None \<Rightarrow> Inl (SchemaError ReasonSchemaRequiredFieldMissin)
      | Some raw \<Rightarrow>
          (case AsString raw of
             None \<Rightarrow> Inl (SchemaError ReasonSchemaEnumInvalid)
           | Some s \<Rightarrow> if s = [] then Inl (SchemaError ReasonSchemaEnumInvalid) else Inr s))"

definition requireVersionField :: "gobj \<Rightarrow> string res" where
  "requireVersionField obj =
     (case map_of obj ''version'' of
        None \<Rightarrow> Inl (SchemaError ReasonSchemaRequiredFieldMissin)
      | Some raw \<Rightarrow>
          if \<not> IsIntegerNumber raw then Inl (SchemaError ReasonSchemaEnumInvalid)
          else (case parseBigInt raw of
                  None \<Rightarrow> Inl (SchemaError ReasonSchemaEnumInvalid)
                | Some z \<Rightarrow>
                    if z < 1 then Inl (SchemaError ReasonSchemaEnumInvalid)
                    else Inr (case raw of GNumber n \<Rightarrow> n | _ \<Rightarrow> [])))"

definition requireEnumField :: "gobj \<Rightarrow> string \<Rightarrow> string list \<Rightarrow> string res" where
  "requireEnumField obj field allowed =
     (case map_of obj field of
        None \<Rightarrow> Inl (SchemaError ReasonSchemaRequiredFieldMissin)
      | Some raw \<Rightarrow>
          (case AsString raw of
             None \<Rightarrow> Inl (SchemaError ReasonSchemaEnumInvalid)
           | Some s \<Rightarrow> if s \<in> set allowed then Inr s else Inl (SchemaError ReasonSchemaEnumInvalid)))"

definition requireDigestField :: "gobj \<Rightarrow> string \<Rightarrow> string res" where
  "requireDigestField obj field =
     (case map_of obj field of
        None \<Rightarrow> Inl (SchemaError ReasonSchemaRequiredFieldMissin)
      | Some raw \<Rightarrow>
          (case AsString raw of
             None \<Rightarrow> Inl (SchemaError ReasonSchemaEnumInvalid)
           | Some s \<Rightarrow> if digestPattern s then Inr s else Inl (SchemaError ReasonSchemaEnumInvalid)))"

subsection \<open>The parsers\<close>

definition ParseSkillArtifactRef :: "gobj \<Rightarrow> SkillArtifactRef res" where
  "ParseSkillArtifactRef obj =
     and_then (rejectUnknownFields obj [''schema_version'', ''lineage_id'', ''version'', ''kind'', ''artifact_digest'']
         legacySkillArtifactRefAliases) (\<lambda>_.
     and_then (check (str_or_empty (gidx obj ''schema_version'') = SchemaSkillArtifactRef)
         (SchemaError ReasonSchemaVersionUnsupported)) (\<lambda>_.
     and_then (requireNonEmptyString obj ''lineage_id'') (\<lambda>lineage.
     and_then (requireVersionField obj) (\<lambda>version.
     and_then (requireEnumField obj ''kind'' skillKinds) (\<lambda>kind.
     and_then (requireDigestField obj ''artifact_digest'') (\<lambda>digest.
       Inr \<lparr>sar_schema_version = SchemaSkillArtifactRef, sar_lineage_id = lineage, sar_version = version,
            sar_kind = kind, sar_artifact_digest = digest\<rparr>))))))"

definition ParseVersionedRef :: "gobj \<Rightarrow> VersionedRef res" where
  "ParseVersionedRef obj =
     and_then (rejectUnknownFields obj [''id'', ''version'', ''digest''] []) (\<lambda>_.
     and_then (requireNonEmptyString obj ''id'') (\<lambda>id.
     and_then (requireVersionField obj) (\<lambda>version.
     and_then (requireDigestField obj ''digest'') (\<lambda>digest.
       Inr \<lparr>vr_id = id, vr_version = version, vr_digest = digest\<rparr>))))"

definition ParseCandidateArtifactRef :: "gobj \<Rightarrow> CandidateArtifactRef res" where
  "ParseCandidateArtifactRef obj =
     and_then (rejectUnknownFields obj
         [''schema_version'', ''candidate_id'', ''kind'', ''body_digest'', ''origin_type'', ''origin_ref'']
         legacySkillArtifactRefAliases) (\<lambda>_.
     and_then (check (str_or_empty (gidx obj ''schema_version'') = SchemaCandidateArtifactRef)
         (SchemaError ReasonSchemaVersionUnsupported)) (\<lambda>_.
     and_then (requireNonEmptyString obj ''candidate_id'') (\<lambda>id.
     and_then (requireEnumField obj ''kind'' skillKinds) (\<lambda>kind.
     and_then (requireDigestField obj ''body_digest'') (\<lambda>bodyDigest.
     and_then (requireEnumField obj ''origin_type'' originTypes) (\<lambda>originType.
     (case AsObject (gidx obj ''origin_ref'') of
        None \<Rightarrow> Inl (SchemaError ReasonSchemaRequiredFieldMissin)
      | Some originRaw \<Rightarrow>
          and_then (ParseVersionedRef originRaw) (\<lambda>origin.
            Inr \<lparr>car_schema_version = SchemaCandidateArtifactRef, car_candidate_id = id, car_kind = kind,
                 car_body_digest = bodyDigest, car_origin_type = originType, car_origin_ref = origin\<rparr>))))))))"

definition ParseEvidenceRef :: "gobj \<Rightarrow> EvidenceRef res" where
  "ParseEvidenceRef obj =
     and_then (rejectUnknownFields obj
         [''schema_version'', ''evidence_id'', ''version'', ''evidence_digest'', ''commit_state'', ''evidence_kind'',
          ''source_segment_ref''] []) (\<lambda>_.
     and_then (check (str_or_empty (gidx obj ''schema_version'') = SchemaEvidenceRef)
         (SchemaError ReasonSchemaVersionUnsupported)) (\<lambda>_.
     and_then (requireNonEmptyString obj ''evidence_id'') (\<lambda>id.
     and_then (requireVersionField obj) (\<lambda>version.
     and_then (requireDigestField obj ''evidence_digest'') (\<lambda>digest.
     and_then (requireEnumField obj ''commit_state'' commitStates) (\<lambda>commit.
     and_then (requireEnumField obj ''evidence_kind'' evidenceKinds) (\<lambda>kind.
     and_then (case map_of obj ''source_segment_ref'' of
                 None \<Rightarrow> Inr None
               | Some raw \<Rightarrow>
                   (case AsObject raw of
                      None \<Rightarrow> Inl (SchemaError ReasonSchemaEnumInvalid)
                    | Some segRaw \<Rightarrow> and_then (ParseVersionedRef segRaw) (\<lambda>seg. Inr (Some seg)))) (\<lambda>segment.
       Inr \<lparr>er_schema_version = SchemaEvidenceRef, er_evidence_id = id, er_version = version,
            er_evidence_digest = digest, er_commit_state = commit, er_evidence_kind = kind,
            er_source_segment_ref = segment\<rparr>))))))))"

subsection \<open>The renderers\<close>

definition versionedRefDoc :: "VersionedRef \<Rightarrow> gobj" where
  "versionedRefDoc ref =
     [(''id'', GString (vr_id ref)), (''version'', GNumber (vr_version ref)), (''digest'', GString (vr_digest ref))]"

definition versionedRefDocs :: "VersionedRef list \<Rightarrow> gv list" where
  "versionedRefDocs refs = map (\<lambda>ref. GObject (versionedRefDoc ref)) refs"

definition skillRefDoc :: "SkillArtifactRef \<Rightarrow> gobj" where
  "skillRefDoc ref =
     [(''schema_version'', GString (sar_schema_version ref)), (''lineage_id'', GString (sar_lineage_id ref)),
      (''version'', GNumber (sar_version ref)), (''kind'', GString (sar_kind ref)),
      (''artifact_digest'', GString (sar_artifact_digest ref))]"

definition candidateRefDoc :: "CandidateArtifactRef \<Rightarrow> gobj" where
  "candidateRefDoc ref =
     [(''schema_version'', GString (car_schema_version ref)), (''candidate_id'', GString (car_candidate_id ref)),
      (''kind'', GString (car_kind ref)), (''body_digest'', GString (car_body_digest ref)),
      (''origin_type'', GString (car_origin_type ref)), (''origin_ref'', GObject (versionedRefDoc (car_origin_ref ref)))]"

subsection \<open>Well-formed references\<close>

definition version_ok :: "string \<Rightarrow> bool" where
  "version_ok v = (integerForm v \<and> (case big_set_string v of None \<Rightarrow> False | Some z \<Rightarrow> 1 \<le> z))"

definition sar_ok :: "SkillArtifactRef \<Rightarrow> bool" where
  "sar_ok r = (sar_schema_version r = SchemaSkillArtifactRef \<and> sar_lineage_id r \<noteq> [] \<and> version_ok (sar_version r)
     \<and> sar_kind r \<in> set skillKinds \<and> digestPattern (sar_artifact_digest r))"

definition vr_ok :: "VersionedRef \<Rightarrow> bool" where
  "vr_ok r = (vr_id r \<noteq> [] \<and> version_ok (vr_version r) \<and> digestPattern (vr_digest r))"

definition car_ok :: "CandidateArtifactRef \<Rightarrow> bool" where
  "car_ok r = (car_schema_version r = SchemaCandidateArtifactRef \<and> car_candidate_id r \<noteq> [] \<and> car_kind r \<in> set skillKinds
     \<and> digestPattern (car_body_digest r) \<and> car_origin_type r \<in> set originTypes \<and> vr_ok (car_origin_ref r))"

subsection \<open>Field readers, characterised\<close>

lemma rejectUnknownFields_Inr [res_simps]:
  "rejectUnknownFields obj closed aliases = Inr u \<longleftrightarrow>
     (\<forall>a \<in> set aliases. a \<notin> fst ` set obj) \<and> fst ` set obj \<subseteq> set closed"
  by (auto simp: rejectUnknownFields_def res_simps has_key_def)

lemma requireNonEmptyString_Inr [res_simps]:
  "requireNonEmptyString obj f = Inr s \<longleftrightarrow> map_of obj f = Some (GString s) \<and> s \<noteq> []"
  by (auto simp: requireNonEmptyString_def AsString_def split: option.splits gv.splits)

lemma requireVersionField_Inr [res_simps]:
  "requireVersionField obj = Inr s \<longleftrightarrow> map_of obj ''version'' = Some (GNumber s) \<and> version_ok s"
  by (auto simp: requireVersionField_def version_ok_def IsIntegerNumber_def parseBigInt_def
      split: option.splits gv.splits)

lemma requireEnumField_Inr [res_simps]:
  "requireEnumField obj f allowed = Inr s \<longleftrightarrow> map_of obj f = Some (GString s) \<and> s \<in> set allowed"
  by (auto simp: requireEnumField_def AsString_def split: option.splits gv.splits)

lemma requireDigestField_Inr [res_simps]:
  "requireDigestField obj f = Inr s \<longleftrightarrow> map_of obj f = Some (GString s) \<and> digestPattern s"
  by (auto simp: requireDigestField_def AsString_def split: option.splits gv.splits)

lemma str_or_empty_const: "c \<noteq> [] \<Longrightarrow> str_or_empty (gidx obj f) = c \<longleftrightarrow> map_of obj f = Some (GString c)"
  by (auto simp: str_or_empty_def gidx_def AsString_def split: option.splits gv.splits)

text \<open>
  Two Go maps with the same keys and the same values at them have the same entries: the accepted
  document is the rendering, up to the order of its entries.
\<close>

lemma gmap_same_entries:
  assumes "gmap_ok m" "gmap_ok n" "fst ` set m \<subseteq> fst ` set n" "\<And>k v. (k, v) \<in> set n \<Longrightarrow> map_of m k = Some v"
  shows "mset m = mset n"
proof -
  have "set m = set n"
  proof
    show "set n \<subseteq> set m" using assms(4) by (auto dest: map_of_SomeD)
    show "set m \<subseteq> set n"
    proof
      fix p
      assume p: "p \<in> set m"
      then obtain v where v: "(fst p, v) \<in> set n" using assms(3) by force
      have "map_of m (fst p) = Some (snd p)" using p assms(1) by (metis gmap_ok_def map_of_is_SomeI prod.collapse)
      with assms(4) [OF v] v show "p \<in> set n" by (cases p) simp
    qed
  qed
  moreover have "distinct m" "distinct n" using assms(1,2) by (auto simp: gmap_ok_def distinct_map)
  ultimately show ?thesis by (simp add: set_eq_iff_mset_eq_distinct)
qed

lemma map_of_mset:
  assumes "mset m = mset n" "gmap_ok n"
  shows "gmap_ok m" "map_of m = map_of n" "fst ` set m = fst ` set n"
proof -
  have "mset (map fst m) = mset (map fst n)" using assms(1) by simp
  from mset_eq_imp_distinct_iff [OF this] show ok: "gmap_ok m" using assms(2) by (simp add: gmap_ok_def)
  have sets: "set m = set n" using assms(1) by (rule mset_eq_setD)
  then show "fst ` set m = fst ` set n" by simp
  have "map_of m k = Some v \<longleftrightarrow> map_of n k = Some v" for k v
    using ok assms(2) sets by (simp add: gmap_ok_def)
  then show "map_of m = map_of n" by (metis (no_types) ext not_None_eq)
qed

subsection \<open>The parsers, characterised\<close>

lemma ParseVersionedRef_Inr [res_simps]:
  "ParseVersionedRef obj = Inr r \<longleftrightarrow> vr_ok r \<and> fst ` set obj \<subseteq> {''id'', ''version'', ''digest''}
     \<and> map_of obj ''id'' = Some (GString (vr_id r)) \<and> map_of obj ''version'' = Some (GNumber (vr_version r))
     \<and> map_of obj ''digest'' = Some (GString (vr_digest r))"
  by (cases r) (auto simp: ParseVersionedRef_def res_simps vr_ok_def)

lemma gmap_ok_docs [simp]:
  "gmap_ok (versionedRefDoc v)" "gmap_ok (skillRefDoc s)" "gmap_ok (candidateRefDoc c)"
  by (simp_all add: gmap_ok_def versionedRefDoc_def skillRefDoc_def candidateRefDoc_def)

subsection \<open>Properties\<close>

text \<open>
  \<open>ParseSkillArtifactRef\<close> accepts a document exactly when it is the rendering of a well-formed exact
  reference (up to the order of its entries) and returns that reference: no alias, no extra field,
  no missing field, no other version form gets through, and rendering then parsing is the identity.
\<close>

theorem ParseSkillArtifactRef_exact:
  assumes "gmap_ok obj"
  shows "ParseSkillArtifactRef obj = Inr r \<longleftrightarrow> sar_ok r \<and> mset obj = mset (skillRefDoc r)"
proof -
  let ?keys = "{''schema_version'', ''lineage_id'', ''version'', ''kind'', ''artifact_digest''}"
  have accept: "ParseSkillArtifactRef obj = Inr r \<longleftrightarrow> sar_ok r \<and> fst ` set obj \<subseteq> ?keys
     \<and> (\<forall>(k, v) \<in> set (skillRefDoc r). map_of obj k = Some v)"
    by (cases r) (auto simp: ParseSkillArtifactRef_def res_simps sar_ok_def skillRefDoc_def str_or_empty_const
        legacySkillArtifactRefAliases_def subset_iff)
  have keys: "fst ` set (skillRefDoc r) = ?keys" by (simp add: skillRefDoc_def)
  show ?thesis
  proof
    assume "ParseSkillArtifactRef obj = Inr r"
    with accept have a: "sar_ok r" "fst ` set obj \<subseteq> ?keys" "\<And>k v. (k, v) \<in> set (skillRefDoc r) \<Longrightarrow> map_of obj k = Some v"
      by auto
    have "mset obj = mset (skillRefDoc r)"
      using a by (intro gmap_same_entries [OF assms gmap_ok_docs(2)]) (simp_all add: keys)
    with a(1) show "sar_ok r \<and> mset obj = mset (skillRefDoc r)" by simp
  next
    assume r: "sar_ok r \<and> mset obj = mset (skillRefDoc r)"
    from map_of_mset [OF conjunct2 [OF r] gmap_ok_docs(2)] r keys accept
    show "ParseSkillArtifactRef obj = Inr r"
      by (auto simp: gmap_ok_docs [unfolded gmap_ok_def])
  qed
qed

definition sample_digest :: string where
  "sample_digest = ''sha256:'' @ replicate 64 (CHR ''a'')"

definition sample_skill_ref :: SkillArtifactRef where
  "sample_skill_ref = \<lparr>sar_schema_version = SchemaSkillArtifactRef, sar_lineage_id = ''retry'', sar_version = ''12'',
     sar_kind = ''tool'', sar_artifact_digest = sample_digest\<rparr>"

lemma sample_digest_ok [simp]: "digestPattern sample_digest"
  by (simp add: digestPattern_def sample_digest_def list_all_iff is_hex_def)

lemma sample_skill_ref_ok: "sar_ok sample_skill_ref"
  by (simp add: sar_ok_def sample_skill_ref_def skillKinds_def version_ok_def integerForm_def unsigned_form_def
      is_digit_def is_digit19_def big_set_string_def)

theorem ParseSkillArtifactRef_exact_witness:
  "ParseSkillArtifactRef (rev (skillRefDoc sample_skill_ref)) = Inr sample_skill_ref"
proof -
  have "gmap_ok (rev (skillRefDoc sample_skill_ref))"
    using gmap_ok_docs(2) [of sample_skill_ref] by (simp add: gmap_ok_def rev_map [symmetric])
  from ParseSkillArtifactRef_exact [OF this, of sample_skill_ref] sample_skill_ref_ok show ?thesis
    by simp
qed

end
