(* ===== verification/Go_Path.thy ===== *)
theory Go_Path
  imports Go_Prelude
begin

text \<open>
  The parts of Go's \<^verbatim>\<open>strings\<close> and \<^verbatim>\<open>path\<close> packages that the loaders use: prefix and substring
  tests, splitting, replacing, and lexical path cleaning (\<open>filepath\<close> on a Unix host is the same).
\<close>

subsection \<open>Strings\<close>

definition HasPrefix :: "string \<Rightarrow> string \<Rightarrow> bool" where
  "HasPrefix s p = (take (length p) s = p)"

definition HasSuffix :: "string \<Rightarrow> string \<Rightarrow> bool" where
  "HasSuffix s p = (length p \<le> length s \<and> drop (length s - length p) s = p)"

definition TrimPrefix :: "string \<Rightarrow> string \<Rightarrow> string" where
  "TrimPrefix s p = (if HasPrefix s p then drop (length p) s else s)"

text \<open>\<open>strings.Index\<close>: the first position at which \<open>p\<close> occurs.\<close>

fun str_index :: "string \<Rightarrow> string \<Rightarrow> nat option" where
  "str_index [] p = (if p = [] then Some 0 else None)"
| "str_index (c # s) p = (if HasPrefix (c # s) p then Some 0 else map_option Suc (str_index s p))"

definition Contains :: "string \<Rightarrow> string \<Rightarrow> bool" where
  "Contains s p = (str_index s p \<noteq> None)"

text \<open>\<open>strings.Split\<close> at a one-byte separator.\<close>

fun split_at :: "char \<Rightarrow> string \<Rightarrow> string list" where
  "split_at c [] = [[]]"
| "split_at c (d # s) =
     (if d = c then [] # split_at c s
      else (case split_at c s of [] \<Rightarrow> [[d]] | w # ws \<Rightarrow> (d # w) # ws))"

text \<open>\<open>strings.ReplaceAll\<close> of a two-byte pattern by one byte.\<close>

fun replace2 :: "char \<Rightarrow> char \<Rightarrow> char \<Rightarrow> string \<Rightarrow> string" where
  "replace2 a b r (x # y # s) = (if x = a \<and> y = b then r # replace2 a b r s else x # replace2 a b r (y # s))"
| "replace2 a b r s = s"

fun join_with :: "char \<Rightarrow> string list \<Rightarrow> string" where
  "join_with c [] = []"
| "join_with c [w] = w"
| "join_with c (w # v # ws) = w @ c # join_with c (v # ws)"

subsection \<open>Paths\<close>

text \<open>The elements that survive cleaning; the stack is held in reverse.\<close>

fun clean_elems :: "bool \<Rightarrow> string list \<Rightarrow> string list \<Rightarrow> string list" where
  "clean_elems rooted acc [] = rev acc"
| "clean_elems rooted acc (w # ws) =
     (if w = [] \<or> w = ''.'' then clean_elems rooted acc ws
      else if w = ''..'' then
        (case acc of
           [] \<Rightarrow> clean_elems rooted (if rooted then [] else [''..'']) ws
         | v # vs \<Rightarrow> if v = ''..'' then clean_elems rooted (''..'' # acc) ws else clean_elems rooted vs ws)
      else clean_elems rooted (w # acc) ws)"

definition path_clean :: "string \<Rightarrow> string" where
  "path_clean p =
     (let rooted = HasPrefix p ''/''; body = join_with (CHR ''/'') (clean_elems rooted [] (split_at (CHR ''/'') p))
      in if rooted then CHR ''/'' # body else if body = [] then ''.'' else body)"

definition path_join :: "string \<Rightarrow> string \<Rightarrow> string" where
  "path_join a b =
     (if a = [] then (if b = [] then [] else path_clean b)
      else if b = [] then path_clean a else path_clean (a @ CHR ''/'' # b))"

definition path_dir :: "string \<Rightarrow> string" where
  "path_dir p = path_clean (rev (dropWhile (\<lambda>c. c \<noteq> CHR ''/'') (rev p)))"

subsection \<open>Facts\<close>

lemma str_index_prefix: "str_index s p = Some i \<Longrightarrow> HasPrefix (drop i s) p \<and> i \<le> length s"
  by (induction s arbitrary: i) (auto simp: HasPrefix_def split: if_splits)

lemma HasPrefix_append [simp]: "HasPrefix (p @ s) p"
  by (simp add: HasPrefix_def)

lemma TrimPrefix_append [simp]: "TrimPrefix (p @ s) p = s"
  by (simp add: TrimPrefix_def)

lemma split_at_ne [simp]: "split_at c s \<noteq> []"
  by (induction s) (auto split: list.splits)

lemma join_split: "join_with c (split_at c s) = s"
proof (induction s)
  case (Cons d s)
  obtain w ws where "split_at c s = w # ws" by (meson list.exhaust split_at_ne)
  with Cons show ?case by (cases ws) auto
qed simp

end
