(* ===== verification/Reason_Policy.thy ===== *)
theory Reason_Policy
  imports Refs Go_Path
begin

text \<open>
  The closed reason-code registries (\<^verbatim>\<open>internal/contract/reason.go\<close>): loading a registry document, its
  digest verification and the total lookup. The file system is a parameter: \<open>readFile\<close> is
  \<open>os.ReadFile\<close> (None when it fails).
  The results: what an accepted registry guarantees, that the two production loaders only hand out
  the contract-frozen registries, and what the entry check does not check.
\<close>

abbreviation SystemReasonPolicyFile :: string where
  "SystemReasonPolicyFile \<equiv> ''system-reason-codes.v1.json''"
abbreviation HostProxyReasonPolicyFile :: string where
  "HostProxyReasonPolicyFile \<equiv> ''host-proxy-reason-codes.v1.json''"
abbreviation SystemReasonPolicyID :: string where
  "SystemReasonPolicyID \<equiv> ''system-reason-codes''"
abbreviation HostProxyReasonPolicyID :: string where
  "HostProxyReasonPolicyID \<equiv> ''host-proxy-reason-codes''"
abbreviation SystemReasonSchemaVersion :: string where
  "SystemReasonSchemaVersion \<equiv> ''rsih-skill-evolution.system-reason-policy.v1''"
abbreviation HostProxyReasonSchemaVersion :: string where
  "HostProxyReasonSchemaVersion \<equiv> ''rsih-skill-evolution.host-proxy-reason-policy.v1''"
abbreviation SystemRegistryOwner :: string where
  "SystemRegistryOwner \<equiv> ''gms-system''"
abbreviation HostProxyRegistryOwner :: string where
  "HostProxyRegistryOwner \<equiv> ''host-proxy''"

definition SystemRegistryDigestFrozen :: string where
  "SystemRegistryDigestFrozen = ''sha256:16410afa27498bb425885d4629c65309389f15adeb975f97f98674170ad00a2c''"

definition HostProxyRegistryDigestFrozen :: string where
  "HostProxyRegistryDigestFrozen = ''sha256:e48f27252bff3fd34868ef4bc5b56a678cf2a35d59f4cd7f2c71f78290485f5e''"

definition reasonPolicyTopLevelKeys :: "string list" where
  "reasonPolicyTopLevelKeys =
     [''schema_version'', ''policy_id'', ''version'', ''registry_owner'', ''transport_mapping'', ''codes'', ''registry_digest'']"

definition reasonCodeRequiredKeys :: "string list" where
  "reasonCodeRequiredKeys =
     [''name'', ''group'', ''status'', ''retryable'', ''retry_scope'', ''terminal'', ''owner'', ''spec_ref'']"

definition is_upper :: "char \<Rightarrow> bool" where
  "is_upper c = (CHR ''A'' \<le> c \<and> c \<le> CHR ''Z'')"

text \<open>\<open>^[A-Z][A-Z0-9_]+$\<close>.\<close>

definition reasonCodeNamePattern :: "string \<Rightarrow> bool" where
  "reasonCodeNamePattern s =
     (case s of
        c # d # r \<Rightarrow> is_upper c \<and> list_all (\<lambda>x. is_upper x \<or> is_digit x \<or> x = CHR ''_'') (d # r)
      | _ \<Rightarrow> False)"

definition reasonStatuses :: "string list" where
  "reasonStatuses = [''success'', ''failure'', ''inconclusive'']"

definition reasonRetryScopes :: "string list" where
  "reasonRetryScopes = [''same_request'', ''new_attempt'', ''none'']"

record ReasonCodeInfo =
  rci_name :: string
  rci_group :: string
  rci_status :: string
  rci_retryable :: bool
  rci_retry_scope :: string
  rci_terminal :: bool
  rci_owner :: string
  rci_spec_ref :: string
  rci_notes :: string
  rci_has_notes :: bool

record ReasonPolicy =
  rp_path :: string
  rp_schema_version :: string
  rp_policy_id :: string
  rp_registry_owner :: string
  rp_registry_digest :: string
  rp_codes :: "ReasonCodeInfo gmap"
  rp_names :: "string list"

subsection \<open>Loading\<close>

text \<open>\<open>v.(bool)\<close>: the value (false on a mismatch) and whether it was one.\<close>

definition asBool :: "gv \<Rightarrow> bool \<times> bool" where
  "asBool v = (case v of GBool b \<Rightarrow> (b, True) | _ \<Rightarrow> (False, False))"

text \<open>
  One turn of the loop over \<open>codes\<close>. The flag of the assertion on \<open>retryable\<close> is overwritten by
  the one on \<open>terminal\<close> before it is read, exactly as in the source.
\<close>

definition loadCode :: "ReasonCodeInfo gmap \<Rightarrow> gv \<Rightarrow> ReasonCodeInfo res" where
  "loadCode codes raw =
     (case AsObject raw of
        None \<Rightarrow> Inl PlainError
      | Some entry \<Rightarrow>
          and_then (for_each (\<lambda>key. check (key \<in> set reasonCodeRequiredKeys \<or> key = ''notes'') PlainError) (map fst entry)) (\<lambda>_.
          and_then (for_each (\<lambda>key. check (has_key entry key) PlainError) reasonCodeRequiredKeys) (\<lambda>_.
          let name = str_or_empty (gidx entry ''name'') in
          and_then (check (reasonCodeNamePattern name) PlainError) (\<lambda>_.
          and_then (check (\<not> has_key codes name) PlainError) (\<lambda>_.
          let group = str_or_empty (gidx entry ''group''); owner = str_or_empty (gidx entry ''owner'');
              specRef = str_or_empty (gidx entry ''spec_ref'') in
          and_then (check (\<not> (group = [] \<or> specRef = [])) PlainError) (\<lambda>_.
          let status = AsString (gidx entry ''status''); scope = AsString (gidx entry ''retry_scope'') in
          and_then (check (status \<in> Some ` set reasonStatuses) PlainError) (\<lambda>_.
          and_then (check (scope \<in> Some ` set reasonRetryScopes) PlainError) (\<lambda>_.
          let (retryable, isBool) = asBool (gidx entry ''retryable'');
              (terminal, isBool) = asBool (gidx entry ''terminal'') in
          and_then (check isBool PlainError) (\<lambda>_.
          Inr \<lparr>rci_name = name, rci_group = group, rci_status = the status, rci_retryable = retryable,
               rci_retry_scope = the scope, rci_terminal = terminal, rci_owner = owner, rci_spec_ref = specRef,
               rci_notes = str_or_empty (gidx entry ''notes''), rci_has_notes = has_key entry ''notes''\<rparr>)))))))))"

fun loadCodes :: "ReasonCodeInfo gmap \<Rightarrow> string list \<Rightarrow> gv list \<Rightarrow> (ReasonCodeInfo gmap \<times> string list) res" where
  "loadCodes codes names [] = Inr (codes, names)"
| "loadCodes codes names (raw # rest) =
     (case loadCode codes raw of
        Inl e \<Rightarrow> Inl e
      | Inr info \<Rightarrow> loadCodes (gput (rci_name info) info codes) (names @ [rci_name info]) rest)"

definition policy_body :: "gobj \<Rightarrow> gobj" where
  "policy_body obj = filter (\<lambda>p. fst p \<noteq> ''registry_digest'') obj"

definition LoadReasonPolicy :: "(string \<Rightarrow> string option) \<Rightarrow> string \<Rightarrow> ReasonPolicy res" where
  "LoadReasonPolicy readFile path =
     (case readFile path of
        None \<Rightarrow> Inl PlainError
      | Some data \<Rightarrow>
     (case ParseJSONStrict data of
        Inl _ \<Rightarrow> Inl PlainError
      | Inr doc \<Rightarrow>
     (case AsObject doc of
        None \<Rightarrow> Inl PlainError
      | Some obj \<Rightarrow>
          and_then (for_each (\<lambda>key. check (key \<in> set reasonPolicyTopLevelKeys) PlainError) (map fst obj)) (\<lambda>_.
          and_then (for_each (\<lambda>key. check (has_key obj key) PlainError) reasonPolicyTopLevelKeys) (\<lambda>_.
          let declared = str_or_empty (gidx obj ''registry_digest'') in
          and_then (check (digestPattern declared) PlainError) (\<lambda>_.
          (case DigestOf (GObject (policy_body obj)) of
             Inl _ \<Rightarrow> Inl PlainError
           | Inr recomputed \<Rightarrow>
          and_then (check (recomputed = declared) PlainError) (\<lambda>_.
          and_then (check (IsIntegerNumber (gidx obj ''version'')) PlainError) (\<lambda>_.
          and_then (check (case AsObject (gidx obj ''transport_mapping'') of None \<Rightarrow> False | Some tm \<Rightarrow> tm \<noteq> []) PlainError) (\<lambda>_.
          (case AsArray (gidx obj ''codes'') of
             None \<Rightarrow> Inl PlainError
           | Some rawCodes \<Rightarrow>
          and_then (check (rawCodes \<noteq> []) PlainError) (\<lambda>_.
          and_then (loadCodes [] [] rawCodes) (\<lambda>(codes, names).
          Inr \<lparr>rp_path = path, rp_schema_version = str_or_empty (gidx obj ''schema_version''),
               rp_policy_id = str_or_empty (gidx obj ''policy_id''),
               rp_registry_owner = str_or_empty (gidx obj ''registry_owner''),
               rp_registry_digest = declared, rp_codes = codes, rp_names = names\<rparr>)))))))))))))"

definition LoadSystemReasonPolicy ::
    "(string \<Rightarrow> string option) \<Rightarrow> string \<Rightarrow> ReasonPolicy res" where
  "LoadSystemReasonPolicy readFile policyDir =
     and_then (LoadReasonPolicy readFile (path_join policyDir SystemReasonPolicyFile)) (\<lambda>p.
     and_then (check (rp_schema_version p = SystemReasonSchemaVersion) PlainError) (\<lambda>_.
     and_then (check (rp_policy_id p = SystemReasonPolicyID) PlainError) (\<lambda>_.
     and_then (check (rp_registry_owner p = SystemRegistryOwner) PlainError) (\<lambda>_.
     and_then (check (rp_registry_digest p = SystemRegistryDigestFrozen) PlainError) (\<lambda>_. Inr p)))))"

definition LoadHostProxyReasonPolicy ::
    "(string \<Rightarrow> string option) \<Rightarrow> string \<Rightarrow> ReasonPolicy res" where
  "LoadHostProxyReasonPolicy readFile policyDir =
     and_then (LoadReasonPolicy readFile (path_join policyDir HostProxyReasonPolicyFile)) (\<lambda>p.
     and_then (check (rp_schema_version p = HostProxyReasonSchemaVersion) PlainError) (\<lambda>_.
     and_then (check (rp_policy_id p = HostProxyReasonPolicyID) PlainError) (\<lambda>_.
     and_then (check (rp_registry_owner p = HostProxyRegistryOwner) PlainError) (\<lambda>_.
     and_then (check (rp_registry_digest p = HostProxyRegistryDigestFrozen) PlainError) (\<lambda>_. Inr p)))))"

subsection \<open>Queries\<close>

definition Lookup :: "ReasonPolicy \<Rightarrow> string \<Rightarrow> ReasonCodeInfo res" where
  "Lookup p code = (case map_of (rp_codes p) code of None \<Rightarrow> Inl PlainError | Some info \<Rightarrow> Inr info)"

definition Has :: "ReasonPolicy \<Rightarrow> string \<Rightarrow> bool" where
  "Has p code = has_key (rp_codes p) code"

definition CodeCount :: "ReasonPolicy \<Rightarrow> nat" where
  "CodeCount p = length (rp_names p)"

definition Names :: "ReasonPolicy \<Rightarrow> string list" where
  "Names p = rp_names p"

subsection \<open>What an entry guarantees\<close>

definition rci_ok :: "ReasonCodeInfo \<Rightarrow> bool" where
  "rci_ok i = (reasonCodeNamePattern (rci_name i) \<and> rci_group i \<noteq> [] \<and> rci_spec_ref i \<noteq> []
     \<and> rci_status i \<in> set reasonStatuses \<and> rci_retry_scope i \<in> set reasonRetryScopes)"

lemma loadCode_Inr:
  assumes "loadCode codes raw = Inr info"
  shows "rci_ok info" "\<not> has_key codes (rci_name info)"
  using assms
  by (auto simp: loadCode_def res_simps rci_ok_def Let_def image_iff split: option.splits prod.splits)

text \<open>The invariant of the loop: \<open>names\<close> lists the keys of \<open>codes\<close>, each entry is under its own name.\<close>

definition codes_inv :: "ReasonCodeInfo gmap \<Rightarrow> string list \<Rightarrow> bool" where
  "codes_inv codes names = (names = map fst codes \<and> gmap_ok codes \<and>
     list_all (\<lambda>(k, i). rci_name i = k \<and> rci_ok i) codes)"

lemma codes_inv_step:
  assumes "codes_inv codes names" "loadCode codes raw = Inr info"
  shows "codes_inv (gput (rci_name info) info codes) (names @ [rci_name info])"
  using assms loadCode_Inr [OF assms(2)]
  by (auto simp: codes_inv_def has_key_def gput_fresh gmap_ok_def)

lemma loadCodes_inv:
  "loadCodes codes names raws = Inr (codes', names') \<Longrightarrow> codes_inv codes names \<Longrightarrow>
     codes_inv codes' names' \<and> length names' = length names + length raws"
proof (induction codes names raws rule: loadCodes.induct)
  case (2 codes names raw rest)
  then show ?case by (auto split: sum.splits dest: codes_inv_step)
qed simp

definition policy_ok :: "ReasonPolicy \<Rightarrow> bool" where
  "policy_ok p = (codes_inv (rp_codes p) (rp_names p) \<and> rp_names p \<noteq> [] \<and> digestPattern (rp_registry_digest p))"

lemma LoadReasonPolicy_Inr:
  assumes "LoadReasonPolicy readFile path = Inr p"
  obtains data obj where "readFile path = Some data" "ParseJSONStrict data = Inr (GObject obj)"
    "DigestOf (GObject (policy_body obj)) = Inr (rp_registry_digest p)" "rp_path p = path"
    "fst ` set obj = set reasonPolicyTopLevelKeys" "policy_ok p"
    "CodeCount p = length (arr_or_nil (gidx obj ''codes''))"
proof -
  from assms obtain data obj raws codes names where 1: "readFile path = Some data"
      "ParseJSONStrict data = Inr (GObject obj)" "fst ` set obj = set reasonPolicyTopLevelKeys"
      "digestPattern (rp_registry_digest p)"
      "DigestOf (GObject (policy_body obj)) = Inr (rp_registry_digest p)"
      "gidx obj ''codes'' = GArray raws" "raws \<noteq> []"
      "loadCodes [] [] raws = Inr (codes, names)" "rp_codes p = codes" "rp_names p = names" "rp_path p = path"
    by (fastforce simp: LoadReasonPolicy_def res_simps Let_def AsObject_def AsArray_def has_key_def
        split: option.splits sum.splits gv.splits prod.splits)
  have inv: "codes_inv codes names \<and> length names = length raws"
    using loadCodes_inv [OF 1(8)] by (simp add: codes_inv_def [of "[]"])
  then have "policy_ok p" using 1(4,7,9,10) by (auto simp: policy_ok_def)
  moreover have "CodeCount p = length (arr_or_nil (gidx obj ''codes''))"
    using inv 1(6,10) by (simp add: CodeCount_def arr_or_nil_def AsArray_def)
  ultimately show ?thesis using that 1 by blast
qed

lemma codes_inv_lookup:
  assumes "codes_inv codes names" "c \<in> set names"
  shows "\<exists>i. map_of codes c = Some i \<and> rci_name i = c \<and> rci_ok i"
proof -
  have "map_of codes c \<noteq> None" using assms by (simp add: codes_inv_def map_of_eq_None_iff)
  then obtain i where "map_of codes c = Some i" by blast
  with assms(1) show ?thesis by (auto simp: codes_inv_def list_all_iff dest: map_of_SomeD)
qed

subsection \<open>Properties\<close>

text \<open>
  a registry that loads is total and closed: its names are pairwise distinct and not empty, every name
  looks up to the entry of that name with a status and retry scope of the closed enumerations, every
  other code fails, and the recorded digest is the recomputed digest of the document it came from.
\<close>

theorem LoadReasonPolicy_sound:
  assumes "LoadReasonPolicy readFile path = Inr p"
  shows "distinct (Names p) \<and> Names p \<noteq> [] \<and>
    (\<forall>code. if code \<in> set (Names p) then Has p code \<and> (\<exists>i. Lookup p code = Inr i \<and> rci_name i = code \<and> rci_ok i)
            else \<not> Has p code \<and> Lookup p code = Inl PlainError) \<and>
    (\<exists>data obj. readFile path = Some data \<and> ParseJSONStrict data = Inr (GObject obj) \<and>
       DigestOf (GObject (policy_body obj)) = Inr (rp_registry_digest p) \<and>
       CodeCount p = length (arr_or_nil (gidx obj ''codes'')))"
proof -
  obtain data obj where load: "readFile path = Some data" "ParseJSONStrict data = Inr (GObject obj)"
      "DigestOf (GObject (policy_body obj)) = Inr (rp_registry_digest p)" and ok: "policy_ok p"
      and count: "CodeCount p = length (arr_or_nil (gidx obj ''codes''))"
    using assms by (rule LoadReasonPolicy_Inr)
  from ok have inv: "codes_inv (rp_codes p) (rp_names p)" and ne: "rp_names p \<noteq> []" by (auto simp: policy_ok_def)
  have has: "has_key (rp_codes p) code \<longleftrightarrow> code \<in> set (rp_names p)" for code
    using inv by (simp add: codes_inv_def has_key_def)
  have "if code \<in> set (Names p) then Has p code \<and> (\<exists>i. Lookup p code = Inr i \<and> rci_name i = code \<and> rci_ok i)
        else \<not> Has p code \<and> Lookup p code = Inl PlainError" for code
    using codes_inv_lookup [OF inv, of code] has [of code]
    by (auto simp: Names_def Has_def Lookup_def has_key_map_of)
  moreover have "distinct (Names p)" using inv by (simp add: Names_def codes_inv_def gmap_ok_def)
  ultimately show ?thesis using ne load count by (auto simp: Names_def)
qed

definition sample_code :: gobj where
  "sample_code = [(''group'', GString ''replay''), (''name'', GString ''REPLAY_OK''), (''owner'', GString ''gms-system''),
     (''retry_scope'', GString ''none''), (''retryable'', GBool False), (''spec_ref'', GString ''11.4''),
     (''status'', GString ''success''), (''terminal'', GBool True)]"

definition sample_registry :: "gv \<Rightarrow> gobj" where
  "sample_registry d = [(''codes'', GArray [GObject sample_code]), (''policy_id'', GString ''p''),
     (''registry_digest'', d), (''registry_owner'', GString ''o''), (''schema_version'', GString ''s''),
     (''transport_mapping'', GObject [(''REPLAY_OK'', GNumber ''200'')]), (''version'', GNumber ''1'')]"

definition sample_declared :: gv where
  "sample_declared = GString (DigestBytes (out (GObject (policy_body (sample_registry GNil)))))"

lemmas sample_registry_simps =
  sample_registry_def sample_code_def policy_body_def gmap_ok_def integerForm_def unsigned_form_def max_nesting_def

lemma sample_body_hashable: "hashable (GObject (policy_body (sample_registry d)))"
  by (simp add: sample_registry_simps valid_text_ascii is_digit19_def is_digit_def)

lemma sample_registry_hashable:
  "hashable (GObject (sample_registry sample_declared))" "nesting (GObject (sample_registry sample_declared)) \<le> max_nesting"
proof -
  have "valid_text (DigestBytes s)" for s
  proof -
    have "list_all (\<lambda>c. (of_char c :: nat) < 128) (hex_state (sha256_sum s))"
      using hex_state_is_hex by (fastforce simp: list_all_iff is_hex_def less_char_def less_eq_char_def)
    then show ?thesis by (intro valid_text_ascii) (simp add: DigestBytes_def)
  qed
  then show "hashable (GObject (sample_registry sample_declared))"
    "nesting (GObject (sample_registry sample_declared)) \<le> max_nesting"
    by (simp_all add: sample_declared_def sample_registry_simps valid_text_ascii is_digit19_def is_digit_def)
qed

lemma sample_keys_sorted:
  "sorted (map (\<lambda>k. utf16_encode (runes k)) (map fst (sample_registry GNil)))"
  "sorted (map (\<lambda>k. utf16_encode (runes k)) (map fst sample_code))"
  by (simp_all add: sample_registry_def sample_code_def utf16_ascii)

lemma sample_registry_canon: "canon (GObject (sample_registry sample_declared)) = GObject (sample_registry sample_declared)"
proof -
  have "sort_by entry_less sample_code = sample_code"
    using sample_keys_sorted(2) by (intro ent.sort_by_sorted) (simp add: comp_def)
  moreover have "sort_by entry_less (sample_registry sample_declared) = sample_registry sample_declared"
  proof -
    have "map fst (sample_registry sample_declared) = map fst (sample_registry GNil)" by (simp add: sample_registry_def)
    with sample_keys_sorted(1) have "sorted (map (\<lambda>k. utf16_encode (runes k)) (map fst (sample_registry sample_declared)))"
      by metis
    then show ?thesis by (intro ent.sort_by_sorted) (simp add: comp_def)
  qed
  moreover have "map (\<lambda>p. (fst p, canon (snd p))) sample_code = sample_code"
    by (simp add: sample_code_def)
  moreover have "map (\<lambda>p. (fst p, canon (snd p))) (sample_registry sample_declared) = sample_registry sample_declared"
    using calculation(1,3) by (simp add: sample_registry_def sample_declared_def norm_number_def)
  ultimately show ?thesis by simp
qed

lemma sample_code_loads:
  "loadCode [] (GObject sample_code) = Inr \<lparr>rci_name = ''REPLAY_OK'', rci_group = ''replay'', rci_status = ''success'',
     rci_retryable = False, rci_retry_scope = ''none'', rci_terminal = True, rci_owner = ''gms-system'',
     rci_spec_ref = ''11.4'', rci_notes = [], rci_has_notes = False\<rparr>"
  by code_simp

lemma sample_policy_loads:
  "\<exists>p. LoadReasonPolicy (\<lambda>_. Some (out (GObject (sample_registry sample_declared)))) ''p.json'' = Inr p \<and> Names p = [''REPLAY_OK'']"
proof -
  have parse: "ParseJSONStrict (out (GObject (sample_registry sample_declared))) = Inr (GObject (sample_registry sample_declared))"
    using parse_out [OF sample_registry_hashable] unfolding sample_registry_canon .
  have body: "policy_body (sample_registry d) = policy_body (sample_registry GNil)" for d
    by (simp add: policy_body_def sample_registry_def)
  have digest: "DigestOf (GObject (policy_body (sample_registry sample_declared))) =
      Inr (DigestBytes (out (GObject (policy_body (sample_registry GNil)))))"
    using DigestOf_hashable [OF sample_body_hashable] by (simp add: body [of sample_declared])
  show ?thesis
    using digest sample_code_loads
    by (simp add: LoadReasonPolicy_def parse AsObject_def)
     (auto simp: sample_registry_def sample_declared_def has_key_def reasonPolicyTopLevelKeys_def gidx_def Let_def
        str_or_empty_def AsString_def AsObject_def AsArray_def IsIntegerNumber_def integerForm_def unsigned_form_def
        is_digit19_def is_digit_def digest_bytes_pattern Names_def)
qed

theorem LoadReasonPolicy_sound_witness:
  "\<exists>readFile p. LoadReasonPolicy readFile ''p.json'' = Inr p \<and> Names p = [''REPLAY_OK''] \<and>
     (\<exists>i. Lookup p ''REPLAY_OK'' = Inr i \<and> rci_ok i) \<and> Lookup p ''OTHER'' = Inl PlainError"
proof -
  obtain readFile p where p: "LoadReasonPolicy readFile ''p.json'' = Inr p" "Names p = [''REPLAY_OK'']"
    using sample_policy_loads by blast
  from LoadReasonPolicy_sound [OF p(1)] p(2)
  have "\<exists>i. Lookup p ''REPLAY_OK'' = Inr i \<and> rci_ok i" "Lookup p ''OTHER'' = Inl PlainError"
    by (simp_all split: if_splits) fastforce+
  with p show ?thesis by blast
qed

text \<open>
  the entry check does not look at the type of \<open>retryable\<close>: whatever value an accepted entry carries
  there is replaced with, the entry is still accepted, and every value but \<open>true\<close> reads as not retryable.
\<close>

theorem loadCode_retryable_unchecked:
  assumes "loadCode codes (GObject entry) = Inr info"
  shows "loadCode codes (GObject (gput ''retryable'' v entry)) = Inr (info\<lparr>rci_retryable := (v = GBool True)\<rparr>)"
proof -
  have "\<forall>k \<in> set reasonCodeRequiredKeys. has_key entry k"
    using assms by (auto simp: loadCode_def AsObject_def res_simps Let_def split: prod.splits)
  then have keys: "fst ` set (gput ''retryable'' v entry) = fst ` set entry"
    by (auto simp: keys_gput has_key_def reasonCodeRequiredKeys_def)
  then have has: "has_key (gput ''retryable'' v entry) k = has_key entry k" for k by (simp add: has_key_def)
  have idx: "gidx (gput ''retryable'' v entry) k = (if k = ''retryable'' then v else gidx entry k)" for k
    by (simp add: gidx_def)
  have "fst (asBool v) = (v = GBool True)" by (auto simp: asBool_def split: gv.splits)
  then show ?thesis
    using assms keys by (auto simp: loadCode_def AsObject_def res_simps Let_def idx has split: prod.splits)
qed

theorem loadCode_retryable_unchecked_witness:
  "\<exists>info. loadCode [] (GObject (gput ''retryable'' (GString ''yes'') sample_code)) = Inr info \<and> \<not> rci_retryable info"
proof -
  from loadCode_retryable_unchecked [OF sample_code_loads, of "GString ''yes''"] show ?thesis by simp
qed

end
