(* ===== verification/Decimal.thy ===== *)
theory Decimal
  imports Canonical_Facts
begin

text \<open>
  Decimal text and integers: printing and reading are inverse on the integer tokens of JSON, so two
  integer tokens have the same value exactly when they are the same token up to \<open>-0\<close>.
\<close>

lemma digits_val_append: "digits_val a (s @ t) = digits_val (digits_val a s) t"
  by (induction s arbitrary: a) auto

lemma digit_code: "is_digit c \<Longrightarrow> \<exists>k < 10. c = char_of (48 + k :: nat)"
proof -
  assume "is_digit c"
  then have "48 \<le> (of_char c :: nat)" "(of_char c :: nat) \<le> 57"
    by (auto simp: is_digit_def less_eq_char_def)
  then have "of_char c - 48 < (10 :: nat)" "c = char_of (48 + (of_char c - 48) :: nat)" by simp_all
  then show ?thesis by blast
qed

lemma digit_of_char: "(k :: nat) < 10 \<Longrightarrow> of_char (char_of (48 + k) :: char) = 48 + k"
  by (simp add: of_char_of)

lemma digits_val_nonneg: "list_all is_digit s \<Longrightarrow> 0 \<le> a \<Longrightarrow> 0 \<le> digits_val a s"
proof (induction s arbitrary: a)
  case (Cons c s)
  from Cons.prems obtain k :: nat where "k < 10" "c = char_of (48 + k)" using digit_code by auto
  then have "int (of_char c) - 48 \<ge> 0" by (simp add: digit_of_char)
  with Cons show ?case by simp
qed simp

lemma digits_val_pos:
  assumes "unsigned_form d" "d \<noteq> ''0''"
  shows "0 < digits_val 0 d"
proof -
  obtain c r where d: "d = c # r" "is_digit19 c" "list_all is_digit r"
    using assms by (cases d) (auto simp: unsigned_form_def)
  have mono: "0 < a \<Longrightarrow> list_all is_digit r' \<Longrightarrow> 0 < digits_val a r'" for a r'
  proof (induction r' arbitrary: a)
    case (Cons x r')
    from Cons.prems obtain k :: nat where "k < 10" "x = char_of (48 + k)" using digit_code by auto
    then have "int (of_char x) - 48 \<ge> 0" by (simp add: digit_of_char)
    with Cons show ?case by simp
  qed simp
  have "0 < int (of_char c) - 48" using d(2) by (auto simp: is_digit19_def less_eq_char_def)
  with mono d show ?thesis by simp
qed

lemma unsigned_char: "unsigned_form [c] \<Longrightarrow> is_digit c"
  by (auto simp: unsigned_form_def digit19_digit) (simp add: is_digit_def)

lemma nat_digits_step: "0 < n \<Longrightarrow> k < 10 \<Longrightarrow> nat_digits (n * 10 + k) = nat_digits n @ [char_of (48 + k)]"
  by (subst nat_digits.simps) simp

lemma nat_digits_digits_val:
  "unsigned_form d \<Longrightarrow> nat_digits (nat (digits_val 0 d)) = d"
proof (induction d rule: rev_induct)
  case (snoc c d)
  show ?case
  proof (cases "d = []")
    case True
    with snoc.prems have "is_digit c" using unsigned_char [of c] by simp
    then obtain k :: nat where "k < 10" "c = char_of (48 + k)" using digit_code by blast
    then show ?thesis using True by (subst nat_digits.simps) (simp add: digit_of_char)
  next
    case False
    then have d: "unsigned_form d" "d \<noteq> ''0''" "is_digit c"
      using snoc.prems by (cases d; auto simp: unsigned_form_def is_digit19_def)+
    then obtain k :: nat where k: "k < 10" "c = char_of (48 + k)" using digit_code by blast
    let ?n = "nat (digits_val 0 d)"
    have pos: "0 < digits_val 0 d" by (rule digits_val_pos [OF d(1,2)])
    then have "nat (digits_val 0 (d @ [c])) = ?n * 10 + k"
      using k by (simp add: digits_val_append digit_of_char nat_add_distrib nat_mult_distrib)
    with nat_digits_step [of ?n k] snoc.IH [OF d(1)] k pos show ?thesis by simp
  qed
qed (simp add: unsigned_form_def)

lemma unsigned_digits: "unsigned_form d \<Longrightarrow> d \<noteq> [] \<and> list_all is_digit d \<and> hd d \<noteq> CHR ''-'' \<and> hd d \<noteq> CHR ''+''"
  by (auto simp: unsigned_form_def digit19_digit split: list.splits) (auto simp: is_digit19_def is_digit_def)

lemma format_big_set:
  assumes "integerForm s"
  shows "\<exists>z. big_set_string s = Some z \<and> format_int z = norm_number s"
proof -
  obtain c r where s: "s = c # r" using assms by (cases s) (auto simp: integerForm_def)
  show ?thesis
  proof (cases "c = CHR ''-''")
    case True
    with assms s have u: "unsigned_form r" by (simp add: integerForm_def)
    with unsigned_digits have big: "big_set_string s = Some (- digits_val 0 r)" by (auto simp: s True big_set_string_def Let_def)
    show ?thesis
    proof (cases "r = ''0''")
      case True
      moreover have "nat_digits 0 = ''0''" by code_simp
      ultimately show ?thesis using big \<open>c = CHR ''-''\<close> by (simp add: s format_int_def norm_number_def)
    next
      case False
      with digits_val_pos [OF u] nat_digits_digits_val [OF u] big show ?thesis
        by (simp add: s True format_int_def norm_number_def)
    qed
  next
    case False
    with assms s have u: "unsigned_form s" by (simp add: integerForm_def)
    with unsigned_digits [OF u] have big: "big_set_string s = Some (digits_val 0 s)"
      by (auto simp: s big_set_string_def Let_def)
    have "0 \<le> digits_val 0 s" using unsigned_digits [OF u] by (intro digits_val_nonneg) auto
    with nat_digits_digits_val [OF u] big False show ?thesis
      by (auto simp: s format_int_def norm_number_def)
  qed
qed

text \<open>Equal values, equal tokens.\<close>

lemma big_set_inj:
  assumes "integerForm s" "integerForm t"
  shows "big_set_string s = big_set_string t \<longleftrightarrow> norm_number s = norm_number t"
proof -
  obtain y z where "big_set_string s = Some y" "format_int y = norm_number s"
    "big_set_string t = Some z" "format_int z = norm_number t"
    using format_big_set assms by metis
  moreover have "big_set_string (norm_number u) = big_set_string u" for u
    by (simp add: norm_number_def big_set_string_def is_digit_def)
  ultimately show ?thesis by (metis option.inject)
qed

subsection \<open>Printing and reading back\<close>

lemma unsigned_snoc:
  assumes "unsigned_form d" "d \<noteq> ''0''" "is_digit c"
  shows "unsigned_form (d @ [c])" "d @ [c] \<noteq> ''0''"
  using assms by (cases d; auto simp: unsigned_form_def)+

lemma nat_digits_form: "unsigned_form (nat_digits n) \<and> (0 < n \<longrightarrow> nat_digits n \<noteq> ''0'') \<and> digits_val 0 (nat_digits n) = int n"
proof (induction n rule: nat_digits.induct)
  case (1 n)
  show ?case
  proof (cases "n < 10")
    case True
    have "is_digit (char_of (48 + n))" "0 < n \<Longrightarrow> is_digit19 (char_of (48 + n))"
      using True digit_of_char [of n] by (auto simp: is_digit_def is_digit19_def less_eq_char_def)
    moreover have "(char_of (48 + n) :: char) \<noteq> CHR ''0''" if "0 < n"
    proof
      assume "(char_of (48 + n) :: char) = CHR ''0''"
      then have "(of_char (char_of (48 + n) :: char) :: nat) = of_char (CHR ''0'')" by (rule arg_cong)
      then show False using digit_of_char [OF True] that by simp
    qed
    moreover have "nat_digits 0 = ''0''" by code_simp
    moreover have "nat_digits n = [char_of (48 + n)]" using True by (subst nat_digits.simps) simp
    ultimately show ?thesis using True by (cases "n = 0") (simp_all add: unsigned_form_def digit_of_char)
  next
    case False
    have step: "nat_digits n = nat_digits (n div 10) @ [char_of (48 + n mod 10)]" using False by (subst nat_digits.simps) simp
    have IH: "unsigned_form (nat_digits (n div 10))" "nat_digits (n div 10) \<noteq> ''0''" "digits_val 0 (nat_digits (n div 10)) = int (n div 10)"
      using 1 False by (simp_all add: div_greater_zero_iff)
    have digit: "is_digit (char_of (48 + n mod 10))" using digit_of_char [of "n mod 10"] by (simp add: is_digit_def less_eq_char_def)
    have "int n = int (n div 10) * 10 + int (n mod 10)" using div_mult_mod_eq [of n 10] by linarith
    then have "digits_val 0 (nat_digits n) = int n"
      by (simp add: step digits_val_append IH(3) digit_of_char)
    with unsigned_snoc [OF IH(1,2) digit] show ?thesis by (simp add: step)
  qed
qed

lemma format_int_form: "integerForm (format_int z)" "big_set_string (format_int z) = Some z"
proof -
  have u: "unsigned_form (nat_digits n)" "digits_val 0 (nat_digits n) = int n" for n using nat_digits_form by blast+
  have d: "nat_digits n \<noteq> []" "list_all is_digit (nat_digits n)" "hd (nat_digits n) \<noteq> CHR ''-''" "hd (nat_digits n) \<noteq> CHR ''+''" for n
    using unsigned_digits [OF u(1)] by blast+
  have c: "nat_digits n = a # r \<Longrightarrow> a \<noteq> CHR ''-'' \<and> a \<noteq> CHR ''+''" for n a r using d(3,4) [of n] by simp
  show "integerForm (format_int z)"
  proof (cases "nat_digits (nat z)")
    case (Cons a r)
    then show ?thesis using u(1) [of "nat (- z)"] u(1) [of "nat z"] c [OF Cons] by (auto simp: format_int_def integerForm_def)
  qed (use d(1) in simp)
  show "big_set_string (format_int z) = Some z"
  proof (cases "z < 0")
    case True
    then show ?thesis using d u(2) [of "nat (- z)"] by (simp add: format_int_def big_set_string_def Let_def)
  next
    case False
    obtain a r where ar: "nat_digits (nat z) = a # r" using d(1) by (metis neq_Nil_conv)
    with False d(2) [of "nat z"] u(2) [of "nat z"] c [OF ar] show ?thesis
      by (simp add: format_int_def big_set_string_def Let_def)
  qed
qed

lemma format_int_inj: "format_int y = format_int z \<Longrightarrow> y = z"
  by (metis format_int_form(2) option.inject)

lemma format_int_chars: "c \<in> set (format_int z) \<Longrightarrow> is_digit c \<or> c = CHR ''-''"
proof -
  have "list_all is_digit (nat_digits n)" for n using nat_digits_form unsigned_digits by blast
  then show "c \<in> set (format_int z) \<Longrightarrow> is_digit c \<or> c = CHR ''-''"
    by (auto simp: format_int_def list_all_iff split: if_splits)
qed

end
