(* ===== verification/Schema.thy ===== *)
theory Schema
  imports Refs Go_Path Decimal
begin

text \<open>
  The authority-schema interpreter (\<^verbatim>\<open>internal/skillevolution/validation/schema.go\<close>): the loaded schema
  set with its lazily filled document cache, \<open>$ref\<close> resolution, the closed keyword subset, the load-time
  keyword check, and the value helpers of the decoder model. The file system and the regular-expression
  engine are parameters, gathered in \<open>env\<close>. The interpreter threads the schema set, because resolving a
  reference may load a parent-directory document into it; \<open>validate\<close> is the same interpreter over a
  fixed view of the documents, and the refinement lemmas show that the cache does not change a verdict.
\<close>

subsection \<open>Codes\<close>

abbreviation CodeSchemaVersionUnsupported :: string where "CodeSchemaVersionUnsupported \<equiv> ''SCHEMA_VERSION_UNSUPPORTED''"
abbreviation CodeSchemaFieldUnknown :: string where "CodeSchemaFieldUnknown \<equiv> ''SCHEMA_FIELD_UNKNOWN''"
abbreviation CodeSchemaRequiredFieldMissing :: string where
  "CodeSchemaRequiredFieldMissing \<equiv> ''SCHEMA_REQUIRED_FIELD_MISSING''"
abbreviation CodeSchemaEnumInvalid :: string where "CodeSchemaEnumInvalid \<equiv> ''SCHEMA_ENUM_INVALID''"
abbreviation CodeSchemaTypeInvalid :: string where "CodeSchemaTypeInvalid \<equiv> ''SCHEMA_TYPE_INVALID''"
abbreviation CodeSchemaConstMismatch :: string where "CodeSchemaConstMismatch \<equiv> ''SCHEMA_CONST_MISMATCH''"
abbreviation CodeSchemaPatternInvalid :: string where "CodeSchemaPatternInvalid \<equiv> ''SCHEMA_PATTERN_INVALID''"
abbreviation CodeSchemaMinimumViolated :: string where "CodeSchemaMinimumViolated \<equiv> ''SCHEMA_MINIMUM_VIOLATED''"
abbreviation CodeSchemaMinItemsViolated :: string where "CodeSchemaMinItemsViolated \<equiv> ''SCHEMA_MINITEMS_VIOLATED''"
abbreviation CodeSchemaConditionalRequired :: string where
  "CodeSchemaConditionalRequired \<equiv> ''SCHEMA_CONDITIONAL_REQUIRED_MISSING''"
abbreviation CodeSchemaConditionalForbidden :: string where
  "CodeSchemaConditionalForbidden \<equiv> ''SCHEMA_CONDITIONAL_FORBIDDEN_PRESENT''"
abbreviation CodeSchemaRefCycle :: string where "CodeSchemaRefCycle \<equiv> ''SCHEMA_REF_CYCLE''"
abbreviation CodeSchemaKeywordUnknown :: string where "CodeSchemaKeywordUnknown \<equiv> ''SCHEMA_KEYWORD_UNKNOWN''"
abbreviation CodeNonIntegerNumber :: string where "CodeNonIntegerNumber \<equiv> ''NON_INTEGER_NUMBER''"
abbreviation CodeDigestMismatch :: string where "CodeDigestMismatch \<equiv> ''DIGEST_MISMATCH''"
abbreviation CodeUnknownRequiredExtension :: string where "CodeUnknownRequiredExtension \<equiv> ''UNKNOWN_REQUIRED_EXTENSION''"
abbreviation CodeIllegalStateTransition :: string where "CodeIllegalStateTransition \<equiv> ''ILLEGAL_STATE_TRANSITION''"
abbreviation CodeUndefinedState :: string where "CodeUndefinedState \<equiv> ''UNDEFINED_STATE''"
abbreviation CodeTerminalStateReopen :: string where "CodeTerminalStateReopen \<equiv> ''TERMINAL_STATE_REOPEN''"
abbreviation CodePermissionCapExceeded :: string where "CodePermissionCapExceeded \<equiv> ''PERMISSION_CAP_EXCEEDED''"
abbreviation CodeFixtureExpectationMismatch :: string where
  "CodeFixtureExpectationMismatch \<equiv> ''FIXTURE_EXPECTATION_MISMATCH''"

text \<open>\<open>validation.CodeOf\<close>.\<close>

definition validationCodeOf :: "go_error option \<Rightarrow> string" where
  "validationCodeOf err = (case err of Some (ValidationError c) \<Rightarrow> c | _ \<Rightarrow> [])"

subsection \<open>Value helpers\<close>

definition max_int64 :: int where
  "max_int64 = 9223372036854775807"

definition min_int64 :: int where
  "min_int64 = - 9223372036854775808"

text \<open>\<open>strconv.ParseInt(s, 10, 64)\<close> and \<open>strconv.Atoi\<close> on a 64-bit host.\<close>

definition parse_int64 :: "string \<Rightarrow> int option" where
  "parse_int64 s =
     (case big_set_string s of
        None \<Rightarrow> None
      | Some z \<Rightarrow> if min_int64 \<le> z \<and> z \<le> max_int64 then Some z else None)"

definition instanceInt :: "gv \<Rightarrow> int option" where
  "instanceInt v =
     (case v of
        GNumber text \<Rightarrow>
          if \<not> integerForm text then None
          else (case parse_int64 text of
                  Some z \<Rightarrow> Some z
                | None \<Rightarrow> Some (if HasPrefix text ''-'' then min_int64 else max_int64))
      | _ \<Rightarrow> None)"

definition intValue :: "gv \<Rightarrow> int option" where
  "intValue v = (case instanceInt v of None \<Rightarrow> None | Some n \<Rightarrow> if n < 0 \<or> n > 1073741824 then None else Some n)"

fun jsonEqual :: "gv \<Rightarrow> gv \<Rightarrow> bool" where
  "jsonEqual (GBool a) r = (r = GBool a)"
| "jsonEqual (GNumber s) r = (case instanceInt (GNumber s) of None \<Rightarrow> False | Some i \<Rightarrow> instanceInt r = Some i)"
| "jsonEqual GNil r = (r = GNil)"
| "jsonEqual (GString s) r = (r = GString s)"
| "jsonEqual (GArray ls) r = (case r of GArray rs \<Rightarrow> list_all2 jsonEqual ls rs | _ \<Rightarrow> False)"
| "jsonEqual (GObject l) r =
     (case r of
        GObject n \<Rightarrow>
          length l = length n \<and>
          list_all (\<lambda>p. case map_of n (fst p) of None \<Rightarrow> False | Some rv \<Rightarrow> jsonEqual (snd p) rv) l
      | _ \<Rightarrow> False)"
| "jsonEqual _ r = False"

definition enumContains :: "gv list \<Rightarrow> gv \<Rightarrow> bool" where
  "enumContains enum value = list_ex (\<lambda>candidate. jsonEqual candidate value) enum"

definition sortedMapKeys :: "gobj \<Rightarrow> string list" where
  "sortedMapKeys obj = sort_strings (map fst obj)"

definition requiredNames :: "gobj \<Rightarrow> string list" where
  "requiredNames node =
     (case AsArray (gidx node ''required'') of
        None \<Rightarrow> []
      | Some raw \<Rightarrow> concat (map (\<lambda>item. case AsString item of None \<Rightarrow> [] | Some s \<Rightarrow> [s]) raw))"

definition typeMatches :: "gv \<Rightarrow> string \<Rightarrow> bool" where
  "typeMatches inst expected =
     (if expected = ''object'' then AsObject inst \<noteq> None
      else if expected = ''array'' then AsArray inst \<noteq> None
      else if expected = ''string'' then AsString inst \<noteq> None
      else if expected = ''integer'' then instanceInt inst \<noteq> None
      else if expected = ''boolean'' then (case inst of GBool _ \<Rightarrow> True | _ \<Rightarrow> False)
      else if expected = ''null'' then inst = GNil
      else False)"

definition schemaKeyOf :: "string \<Rightarrow> string" where
  "schemaKeyOf p =
     (case str_index p ''.schema.json'' of None \<Rightarrow> p | Some idx \<Rightarrow> take (idx + length ''.schema.json'') p)"

definition refSuffix :: "string \<Rightarrow> string" where
  "refSuffix p = (let key = schemaKeyOf p in if length p > length key then drop (length key) p else [])"

subsection \<open>The schema set\<close>

record SchemaSet =
  ss_dir :: string
  ss_docs :: "gobj gmap"
  ss_names :: "string list"

text \<open>\<open>os.ReadFile\<close>, \<open>os.ReadDir\<close> (entries with their \<open>IsDir\<close> flag) and \<open>regexp.Compile\<close> with \<open>MatchString\<close>.\<close>

record env =
  readFile :: "string \<Rightarrow> string option"
  readDir :: "string \<Rightarrow> (string \<times> bool) list option"
  compile :: "string \<Rightarrow> (string \<Rightarrow> bool) option"

definition Files :: "SchemaSet \<Rightarrow> string list" where
  "Files s = ss_names s"

definition Schema_doc :: "SchemaSet \<Rightarrow> string \<Rightarrow> gobj res" where
  "Schema_doc s file = (case map_of (ss_docs s) file of None \<Rightarrow> Inl PlainError | Some doc \<Rightarrow> Inr doc)"

text \<open>What \<open>loadSchemaFile\<close> reads, and what it registers.\<close>

definition read_schema :: "env \<Rightarrow> string \<Rightarrow> gobj res" where
  "read_schema ev absPath =
     (case readFile ev absPath of
        None \<Rightarrow> Inl PlainError
      | Some data \<Rightarrow>
          (case ParseJSONStrict data of
             Inl _ \<Rightarrow> Inl PlainError
           | Inr value \<Rightarrow>
               (case AsObject value of
                  None \<Rightarrow> Inl PlainError
                | Some obj \<Rightarrow> if str_or_empty (gidx obj ''$id'') = [] then Inl PlainError else Inr obj)))"

text \<open>A method that may change the schema set: its result and the set afterwards.\<close>

type_synonym 'a sst = "SchemaSet \<Rightarrow> 'a res \<times> SchemaSet"

definition st_ret :: "'a res \<Rightarrow> 'a sst" where
  "st_ret r = (\<lambda>s. (r, s))"

definition st_then :: "'a sst \<Rightarrow> ('a \<Rightarrow> 'b sst) \<Rightarrow> 'b sst" where
  "st_then m f = (\<lambda>s. case m s of (Inl e, s') \<Rightarrow> (Inl e, s') | (Inr a, s') \<Rightarrow> f a s')"

text \<open>Going on after a call whatever it returned: \<open>if err := \<dots>; err != nil { \<dots> } else { \<dots> }\<close>.\<close>

definition st_catch :: "'a sst \<Rightarrow> ('a res \<Rightarrow> 'b sst) \<Rightarrow> 'b sst" where
  "st_catch m f = (\<lambda>s. case m s of (r, s') \<Rightarrow> f r s')"

fun st_each :: "('a \<Rightarrow> unit sst) \<Rightarrow> 'a list \<Rightarrow> unit sst" where
  "st_each f [] = st_ret (Inr ())"
| "st_each f (x # xs) = st_then (f x) (\<lambda>_. st_each f xs)"

definition register :: "string \<Rightarrow> gobj \<Rightarrow> SchemaSet \<Rightarrow> SchemaSet" where
  "register key obj s =
     (if has_key (ss_docs s) key then s
      else s\<lparr>ss_docs := gput key obj (ss_docs s), ss_names := ss_names s @ [key]\<rparr>)"

definition loadSchemaFile :: "env \<Rightarrow> string \<Rightarrow> string \<Rightarrow> unit sst" where
  "loadSchemaFile ev absPath key =
     (\<lambda>s. case read_schema ev absPath of
            Inl e \<Rightarrow> (Inl e, s)
          | Inr obj \<Rightarrow> (Inr (), register key obj s))"

subsection \<open>References\<close>

text \<open>The file and the pointer a reference names, seen from the document \<open>currentKey\<close>.\<close>

definition ref_parts :: "string \<Rightarrow> string \<Rightarrow> string \<times> string" where
  "ref_parts ref currentKey =
     (let (file, pointer) =
        (case str_index ref ''#'' of
           Some idx \<Rightarrow> if HasPrefix ref ''#'' then (currentKey, TrimPrefix ref ''#'') else (take idx ref, drop (idx + 1) ref)
         | None \<Rightarrow> (currentKey, TrimPrefix ref ''#''))
      in (if file \<noteq> currentKey then path_clean (path_join (path_dir currentKey) file) else file, pointer))"

definition parent_key :: "string \<Rightarrow> bool" where
  "parent_key file = (HasPrefix file ''../'' \<and> \<not> Contains (TrimPrefix file ''../'') ''..'')"

definition segment_of :: "string \<Rightarrow> string" where
  "segment_of rawSegment = replace2 (CHR ''~'') (CHR ''0'') (CHR ''~'') (replace2 (CHR ''~'') (CHR ''1'') (CHR ''/'') rawSegment)"

fun walk_pointer :: "gv \<Rightarrow> string list \<Rightarrow> gv res" where
  "walk_pointer node [] = Inr node"
| "walk_pointer node (rawSegment # rest) =
     (let segment = segment_of rawSegment in
      case AsObject node of
        Some obj \<Rightarrow>
          (case map_of obj segment of
             None \<Rightarrow> Inl (ValidationError CodeSchemaKeywordUnknown)
           | Some nxt \<Rightarrow> walk_pointer nxt rest)
      | None \<Rightarrow>
          (case AsArray node of
             Some arr \<Rightarrow>
               (case parse_int64 segment of
                  None \<Rightarrow> Inl (ValidationError CodeSchemaKeywordUnknown)
                | Some index \<Rightarrow>
                    if index < 0 \<or> index \<ge> int (length arr) then Inl (ValidationError CodeSchemaKeywordUnknown)
                    else walk_pointer (arr ! nat index) rest)
           | None \<Rightarrow> Inl (ValidationError CodeSchemaKeywordUnknown)))"

definition point_into :: "gobj \<Rightarrow> string \<Rightarrow> gobj res" where
  "point_into doc pointer =
     and_then (if pointer \<noteq> [] then walk_pointer (GObject doc) (split_at (CHR ''/'') (TrimPrefix pointer ''/''))
               else Inr (GObject doc)) (\<lambda>node.
     case AsObject node of
       None \<Rightarrow> Inl (ValidationError CodeSchemaKeywordUnknown)
     | Some resolved \<Rightarrow> Inr resolved)"

text \<open>The document a reference points into; a parent-directory document is loaded on first use.\<close>

definition find_doc :: "env \<Rightarrow> string \<Rightarrow> gobj sst" where
  "find_doc ev file =
     (\<lambda>s. case map_of (ss_docs s) file of
            Some doc \<Rightarrow> (Inr doc, s)
          | None \<Rightarrow>
              if parent_key file then
                (case loadSchemaFile ev (path_join (ss_dir s) file) file s of
                   (Inl _, s') \<Rightarrow> (Inl (ValidationError CodeSchemaKeywordUnknown), s')
                 | (Inr _, s') \<Rightarrow> (Inr (case map_of (ss_docs s') file of None \<Rightarrow> [] | Some doc \<Rightarrow> doc), s'))
              else (Inl (ValidationError CodeSchemaKeywordUnknown), s))"

definition resolveRef :: "env \<Rightarrow> string \<Rightarrow> string \<Rightarrow> (gobj \<times> string) sst" where
  "resolveRef ev ref currentKey =
     (let (file, pointer) = ref_parts ref currentKey in
      st_then (find_doc ev file) (\<lambda>doc.
      st_then (st_ret (point_into doc pointer)) (\<lambda>node. st_ret (Inr (node, file)))))"

subsection \<open>The interpreter\<close>

definition maxSchemaDepth :: nat where
  "maxSchemaDepth = 64"

abbreviation verr :: "string \<Rightarrow> go_error" where
  "verr c \<equiv> ValidationError c"

text \<open>The keywords that look at the instance alone, in the order of the source.\<close>

definition check_scalars :: "env \<Rightarrow> gv \<Rightarrow> gobj \<Rightarrow> unit res" where
  "check_scalars ev inst node =
     and_then (case map_of node ''type'' of
                 None \<Rightarrow> Inr ()
               | Some expected \<Rightarrow>
                   check (list_ex (\<lambda>raw. typeMatches inst (str_or_empty raw))
                            (case AsArray expected of Some l \<Rightarrow> l | None \<Rightarrow> [expected]))
                     (verr CodeSchemaTypeInvalid)) (\<lambda>_.
     and_then (case map_of node ''const'' of
                 None \<Rightarrow> Inr ()
               | Some want \<Rightarrow> check (jsonEqual inst want) (verr CodeSchemaConstMismatch)) (\<lambda>_.
     and_then (case AsArray (gidx node ''enum'') of
                 None \<Rightarrow> Inr ()
               | Some enum \<Rightarrow> check (enumContains enum inst) (verr CodeSchemaEnumInvalid)) (\<lambda>_.
     and_then (case AsString (gidx node ''pattern'') of
                 None \<Rightarrow> Inr ()
               | Some pattern \<Rightarrow>
                   (case compile ev pattern of
                      None \<Rightarrow> Inl (verr CodeSchemaKeywordUnknown)
                    | Some re \<Rightarrow>
                        check (case AsString inst of None \<Rightarrow> False | Some text \<Rightarrow> re text) (verr CodeSchemaPatternInvalid))) (\<lambda>_.
     and_then (case (intValue (gidx node ''minLength''), AsString inst) of
                 (Some minLength, Some text) \<Rightarrow> check (\<not> int (length text) < minLength) (verr CodeSchemaPatternInvalid)
               | _ \<Rightarrow> Inr ()) (\<lambda>_.
     (case (intValue (gidx node ''minimum''), instanceInt inst) of
        (Some minimum, Some number) \<Rightarrow> check (\<not> number < minimum) (verr CodeSchemaMinimumViolated)
      | _ \<Rightarrow> Inr ()))))))"

definition check_item_counts :: "gv list \<Rightarrow> gobj \<Rightarrow> unit res" where
  "check_item_counts items node =
     and_then (case intValue (gidx node ''minItems'') of
                 None \<Rightarrow> Inr ()
               | Some minItems \<Rightarrow> check (\<not> int (length items) < minItems) (verr CodeSchemaMinItemsViolated)) (\<lambda>_.
     (case intValue (gidx node ''maxItems'') of
        None \<Rightarrow> Inr ()
      | Some maxItems \<Rightarrow> check (\<not> int (length items) > maxItems) (verr CodeSchemaMinItemsViolated)))"

definition check_fields :: "gobj \<Rightarrow> gobj \<Rightarrow> unit res" where
  "check_fields obj node =
     and_then (for_each (\<lambda>name. check (has_key obj name) (verr CodeSchemaRequiredFieldMissing)) (requiredNames node)) (\<lambda>_.
     if map_of node ''additionalProperties'' = Some (GBool False)
     then for_each (\<lambda>key. check (has_key (obj_or_nil (gidx node ''properties'')) key) (verr CodeSchemaFieldUnknown)) (sortedMapKeys obj)
     else Inr ())"

definition without_ref :: "gobj \<Rightarrow> gobj" where
  "without_ref node = filter (\<lambda>p. fst p \<noteq> ''$ref'') node"

text \<open>A branch that misses a required field is reported under its own code.\<close>

definition conditional_code :: "unit res \<Rightarrow> unit res" where
  "conditional_code r =
     (if r = Inl (verr CodeSchemaRequiredFieldMissing) then Inl (verr CodeSchemaConditionalRequired) else r)"

function validateNode :: "env \<Rightarrow> gv \<Rightarrow> gobj \<Rightarrow> string \<Rightarrow> nat \<Rightarrow> unit sst" where
  "validateNode ev inst node file depth =
     (if depth > maxSchemaDepth then st_ret (Inl (verr CodeSchemaRefCycle))
      else
        (case map_of node ''$ref'' of
           Some ref \<Rightarrow>
             (case AsString ref of
                None \<Rightarrow> st_ret (Inl (verr CodeSchemaKeywordUnknown))
              | Some refStr \<Rightarrow>
                  st_then (resolveRef ev refStr file) (\<lambda>resolved.
                  st_then (validateNode ev inst (fst resolved) (snd resolved) (depth + 1)) (\<lambda>_.
                  if without_ref node \<noteq> [] then validateNode ev inst (without_ref node) file (depth + 1)
                  else st_ret (Inr ()))))
         | None \<Rightarrow>
             st_then (st_ret (check_scalars ev inst node)) (\<lambda>_.
             st_then (case AsArray inst of
                        None \<Rightarrow> st_ret (Inr ())
                      | Some items \<Rightarrow>
                          st_then (st_ret (check_item_counts items node)) (\<lambda>_.
                          (case AsObject (gidx node ''items'') of
                             None \<Rightarrow> st_ret (Inr ())
                           | Some itemSchema \<Rightarrow> st_each (\<lambda>item. validateNode ev item itemSchema file (depth + 1)) items))) (\<lambda>_.
             st_then (case AsObject inst of
                        None \<Rightarrow> st_ret (Inr ())
                      | Some obj \<Rightarrow>
                          st_then (st_ret (check_fields obj node)) (\<lambda>_.
                          st_each (\<lambda>key.
                              case map_of obj key of
                                None \<Rightarrow> st_ret (Inr ())
                              | Some val \<Rightarrow>
                                  validateNode ev val (obj_or_nil (gidx (obj_or_nil (gidx node ''properties'')) key)) file (depth + 1))
                            (sortedMapKeys (obj_or_nil (gidx node ''properties''))))) (\<lambda>_.
             st_then (case AsArray (gidx node ''allOf'') of
                        None \<Rightarrow> st_ret (Inr ())
                      | Some allOf \<Rightarrow> st_each (\<lambda>rawEntry. validateNode ev inst (obj_or_nil rawEntry) file (depth + 1)) allOf) (\<lambda>_.
             st_then (case AsObject (gidx node ''if'') of
                        None \<Rightarrow> st_ret (Inr False)
                      | Some ifNode \<Rightarrow>
                          st_catch (validateNode ev inst ifNode file (depth + 1)) (\<lambda>r.
                          (case (case r of Inl _ \<Rightarrow> gidx node ''else'' | Inr _ \<Rightarrow> gidx node ''then'') of
                             GNil \<Rightarrow> st_ret (Inr False)
                           | GBool accept \<Rightarrow> if accept then st_ret (Inr True) else st_ret (Inl (verr CodeSchemaTypeInvalid))
                           | GObject branchNode \<Rightarrow>
                               st_catch (validateNode ev inst branchNode file (depth + 1)) (\<lambda>br.
                               st_then (st_ret (conditional_code br)) (\<lambda>_. st_ret (Inr False)))
                           | _ \<Rightarrow> st_ret (Inl (verr CodeSchemaKeywordUnknown))))) (\<lambda>returned.
             if returned then st_ret (Inr ())
             else
             (case AsObject (gidx node ''not'') of
                None \<Rightarrow> st_ret (Inr ())
              | Some notNode \<Rightarrow>
                  st_catch (validateNode ev inst notNode file (depth + 1)) (\<lambda>r.
                  st_ret (case r of Inl _ \<Rightarrow> Inr () | Inr _ \<Rightarrow> Inl (verr CodeSchemaConditionalForbidden)))))))))))"
  by pat_completeness auto
termination
  by (relation "measure (\<lambda>(ev, inst, node, file, depth). Suc maxSchemaDepth - depth)") auto

declare validateNode.simps [simp del]

subsection \<open>Load-time keyword check\<close>

definition closedSchemaKeywords :: "string list" where
  "closedSchemaKeywords =
     [''$schema'', ''$id'', ''title'', ''description'', ''contract_refs'', ''type'', ''enum'', ''const'', ''pattern'',
      ''minLength'', ''minimum'', ''items'', ''minItems'', ''maxItems'', ''required'', ''properties'',
      ''additionalProperties'', ''$ref'', ''allOf'', ''if'', ''then'', ''else'', ''not'', ''x-digest'', ''$defs'']"

definition object_entries :: "string \<Rightarrow> gv \<Rightarrow> (string \<times> gobj) list" where
  "object_entries prefix v =
     concat (map (\<lambda>key. case AsObject (gidx (obj_or_nil v) key) of None \<Rightarrow> [] | Some sub \<Rightarrow> [(prefix @ key, sub)])
       (sortedMapKeys (obj_or_nil v)))"

definition schema_children :: "gobj \<Rightarrow> (string \<times> gobj) list" where
  "schema_children node =
     object_entries ''properties/'' (gidx node ''properties'') @
     object_entries ''$defs/'' (gidx node ''$defs'') @
     (case AsObject (gidx node ''items'') of None \<Rightarrow> [] | Some items \<Rightarrow> [(''items'', items)]) @
     concat (map (\<lambda>p. case AsObject (snd p) of None \<Rightarrow> []
                      | Some entry \<Rightarrow> [(''allOf['' @ format_int (int (fst p)) @ '']'', entry)])
       (enumerate 0 (arr_or_nil (gidx node ''allOf'')))) @
     concat (map (\<lambda>keyword. case AsObject (gidx node keyword) of None \<Rightarrow> [] | Some sub \<Rightarrow> [(keyword, sub)])
       [''if'', ''then'', ''else'', ''not''])"

function validateSchemaNode :: "env \<Rightarrow> gobj \<Rightarrow> string \<Rightarrow> nat \<Rightarrow> unit sst" where
  "validateSchemaNode ev node path depth =
     (if depth > maxSchemaDepth then st_ret (Inl (verr CodeSchemaRefCycle))
      else
        st_then (st_ret (for_each (\<lambda>key. check (key \<in> set closedSchemaKeywords) (verr CodeSchemaKeywordUnknown)) (map fst node))) (\<lambda>_.
        (case map_of node ''$ref'' of
           Some ref \<Rightarrow>
             st_then (resolveRef ev (str_or_empty ref) (schemaKeyOf path)) (\<lambda>resolved.
               validateSchemaNode ev (fst resolved) (snd resolved @ refSuffix path) (depth + 1))
         | None \<Rightarrow>
             st_each (\<lambda>child. validateSchemaNode ev (snd child) (path @ CHR ''/'' # fst child) (depth + 1))
               (schema_children node))))"
  by pat_completeness auto
termination
  by (relation "measure (\<lambda>(ev, node, path, depth). Suc maxSchemaDepth - depth)") auto

declare validateSchemaNode.simps [simp del]

text \<open>\<open>LoadSchemaSet\<close> wraps every error of its two passes.\<close>

definition wrapped :: "'a sst \<Rightarrow> 'a sst" where
  "wrapped m = st_catch m (\<lambda>r. st_ret (case r of Inl _ \<Rightarrow> Inl PlainError | Inr a \<Rightarrow> Inr a))"

definition LoadSchemaSet :: "env \<Rightarrow> string \<Rightarrow> SchemaSet res" where
  "LoadSchemaSet ev dir =
     (case readDir ev dir of
        None \<Rightarrow> Inl PlainError
      | Some entries \<Rightarrow>
          (case (st_then (st_each (\<lambda>entry.
                   if snd entry \<or> \<not> HasSuffix (fst entry) ''.schema.json'' then st_ret (Inr ())
                   else wrapped (loadSchemaFile ev (path_join dir (fst entry)) (fst entry))) entries) (\<lambda>_.
                 st_then (\<lambda>s. (check (ss_docs s \<noteq> []) PlainError, s)) (\<lambda>_.
                 st_then (\<lambda>s. (Inr (), s\<lparr>ss_names := sort_strings (ss_names s)\<rparr>)) (\<lambda>_.
                 st_then (\<lambda>s. (Inr (ss_names s), s)) (\<lambda>names.
                 st_each (\<lambda>name s. wrapped (validateSchemaNode ev
                     (case map_of (ss_docs s) name of None \<Rightarrow> [] | Some doc \<Rightarrow> doc) name 0) s) names)))))
               \<lparr>ss_dir = dir, ss_docs = [], ss_names = []\<rparr> of
             (Inl e, _) \<Rightarrow> Inl e
           | (Inr _, s) \<Rightarrow> Inr s))"

subsection \<open>The interpreter over a fixed view of the documents\<close>

text \<open>
  The documents a schema set can see: the loaded ones, and behind them the parent-directory files that a
  reference may pull in. \<open>resolve\<close> and \<open>validate\<close> are \<open>resolveRef\<close> and \<open>validateNode\<close> over such a view.
\<close>

definition doc_view :: "env \<Rightarrow> SchemaSet \<Rightarrow> string \<Rightarrow> gobj res" where
  "doc_view ev s file =
     (case map_of (ss_docs s) file of
        Some doc \<Rightarrow> Inr doc
      | None \<Rightarrow>
          if parent_key file then
            (case read_schema ev (path_join (ss_dir s) file) of
               Inl _ \<Rightarrow> Inl (verr CodeSchemaKeywordUnknown)
             | Inr doc \<Rightarrow> Inr doc)
          else Inl (verr CodeSchemaKeywordUnknown))"

definition resolve :: "(string \<Rightarrow> gobj res) \<Rightarrow> string \<Rightarrow> string \<Rightarrow> (gobj \<times> string) res" where
  "resolve docs ref currentKey =
     (let (file, pointer) = ref_parts ref currentKey in
      and_then (docs file) (\<lambda>doc. and_then (point_into doc pointer) (\<lambda>node. Inr (node, file))))"

function validate :: "env \<Rightarrow> (string \<Rightarrow> gobj res) \<Rightarrow> gv \<Rightarrow> gobj \<Rightarrow> string \<Rightarrow> nat \<Rightarrow> unit res" where
  "validate ev docs inst node file depth =
     (if depth > maxSchemaDepth then Inl (verr CodeSchemaRefCycle)
      else
        (case map_of node ''$ref'' of
           Some ref \<Rightarrow>
             (case AsString ref of
                None \<Rightarrow> Inl (verr CodeSchemaKeywordUnknown)
              | Some refStr \<Rightarrow>
                  and_then (resolve docs refStr file) (\<lambda>resolved.
                  and_then (validate ev docs inst (fst resolved) (snd resolved) (depth + 1)) (\<lambda>_.
                  if without_ref node \<noteq> [] then validate ev docs inst (without_ref node) file (depth + 1) else Inr ())))
         | None \<Rightarrow>
             and_then (check_scalars ev inst node) (\<lambda>_.
             and_then (case AsArray inst of
                         None \<Rightarrow> Inr ()
                       | Some items \<Rightarrow>
                           and_then (check_item_counts items node) (\<lambda>_.
                           (case AsObject (gidx node ''items'') of
                              None \<Rightarrow> Inr ()
                            | Some itemSchema \<Rightarrow> for_each (\<lambda>item. validate ev docs item itemSchema file (depth + 1)) items))) (\<lambda>_.
             and_then (case AsObject inst of
                         None \<Rightarrow> Inr ()
                       | Some obj \<Rightarrow>
                           and_then (check_fields obj node) (\<lambda>_.
                           for_each (\<lambda>key.
                               case map_of obj key of
                                 None \<Rightarrow> Inr ()
                               | Some val \<Rightarrow>
                                   validate ev docs val (obj_or_nil (gidx (obj_or_nil (gidx node ''properties'')) key)) file (depth + 1))
                             (sortedMapKeys (obj_or_nil (gidx node ''properties''))))) (\<lambda>_.
             and_then (case AsArray (gidx node ''allOf'') of
                         None \<Rightarrow> Inr ()
                       | Some allOf \<Rightarrow> for_each (\<lambda>rawEntry. validate ev docs inst (obj_or_nil rawEntry) file (depth + 1)) allOf) (\<lambda>_.
             and_then (case AsObject (gidx node ''if'') of
                         None \<Rightarrow> Inr False
                       | Some ifNode \<Rightarrow>
                           (case (case validate ev docs inst ifNode file (depth + 1) of
                                    Inl _ \<Rightarrow> gidx node ''else'' | Inr _ \<Rightarrow> gidx node ''then'') of
                              GNil \<Rightarrow> Inr False
                            | GBool accept \<Rightarrow> if accept then Inr True else Inl (verr CodeSchemaTypeInvalid)
                            | GObject branchNode \<Rightarrow>
                                and_then (conditional_code (validate ev docs inst branchNode file (depth + 1))) (\<lambda>_. Inr False)
                            | _ \<Rightarrow> Inl (verr CodeSchemaKeywordUnknown))) (\<lambda>returned.
             if returned then Inr ()
             else
             (case AsObject (gidx node ''not'') of
                None \<Rightarrow> Inr ()
              | Some notNode \<Rightarrow>
                  (case validate ev docs inst notNode file (depth + 1) of
                     Inl _ \<Rightarrow> Inr ()
                   | Inr _ \<Rightarrow> Inl (verr CodeSchemaConditionalForbidden))))))))))"
  by pat_completeness auto
termination
  by (relation "measure (\<lambda>(ev, docs, inst, node, file, depth). Suc maxSchemaDepth - depth)") auto

declare validate.simps [simp del]

subsection \<open>The cache is transparent\<close>

text \<open>
  \<open>refines I m r\<close>: run from any set with the invariant, \<open>m\<close> returns \<open>r\<close> and keeps the invariant.
\<close>

definition refines :: "(SchemaSet \<Rightarrow> bool) \<Rightarrow> 'a sst \<Rightarrow> 'a res \<Rightarrow> bool" where
  "refines I m r = (\<forall>s. I s \<longrightarrow> fst (m s) = r \<and> I (snd (m s)))"

named_theorems refines_intros \<open>composition of refinements\<close>

lemma refines_ret [refines_intros]: "refines I (st_ret r) r"
  by (simp add: refines_def st_ret_def)

lemma refines_then [refines_intros]:
  "refines I m r \<Longrightarrow> (\<And>a. r = Inr a \<Longrightarrow> refines I (f a) (g a)) \<Longrightarrow> refines I (st_then m f) (and_then r g)"
  by (cases r) (fastforce simp: refines_def st_then_def split: prod.splits sum.splits)+

lemma refines_catch: "refines I m r \<Longrightarrow> refines I (f r) q \<Longrightarrow> refines I (st_catch m f) q"
  unfolding refines_def st_catch_def by (simp add: case_prod_beta)

lemma refines_each [refines_intros]:
  "(\<And>x. x \<in> set xs \<Longrightarrow> refines I (f x) (g x)) \<Longrightarrow> refines I (st_each f xs) (for_each g xs)"
proof (induction xs)
  case (Cons x xs)
  have "for_each g (x # xs) = and_then (g x) (\<lambda>_. for_each g xs)" by (simp add: and_then_def)
  with Cons show ?case by (auto intro!: refines_then)
qed (simp add: refines_ret)

lemma refines_option [refines_intros]:
  "refines I a a' \<Longrightarrow> (\<And>x. v = Some x \<Longrightarrow> refines I (b x) (b' x)) \<Longrightarrow>
   refines I (case v of None \<Rightarrow> a | Some x \<Rightarrow> b x) (case v of None \<Rightarrow> a' | Some x \<Rightarrow> b' x)"
  by (cases v) auto

lemma refines_if [refines_intros]:
  "refines I a a' \<Longrightarrow> refines I b b' \<Longrightarrow> refines I (if c then a else b) (if c then a' else b')"
  by simp

definition same_view :: "env \<Rightarrow> (string \<Rightarrow> gobj res) \<Rightarrow> SchemaSet \<Rightarrow> bool" where
  "same_view ev docs s = (\<forall>file. doc_view ev s file = docs file)"

lemma doc_view_register:
  assumes "map_of (ss_docs s) file = None" "parent_key file" "read_schema ev (path_join (ss_dir s) file) = Inr obj"
  shows "doc_view ev (register file obj s) k = doc_view ev s k"
  using assms by (auto simp: register_def has_key_map_of doc_view_def split: option.splits)

lemma find_doc_refines [refines_intros]: "refines (same_view ev docs) (find_doc ev file) (docs file)"
proof -
  have "fst (find_doc ev file s) = doc_view ev s file \<and> (\<forall>k. doc_view ev (snd (find_doc ev file s)) k = doc_view ev s k)" for s
    using doc_view_register [of s "file" ev]
    by (auto simp: find_doc_def doc_view_def [of ev s "file"] loadSchemaFile_def register_def has_key_map_of
        split: option.splits sum.splits)
  then show ?thesis by (simp add: refines_def same_view_def)
qed

lemma resolveRef_refines [refines_intros]: "refines (same_view ev docs) (resolveRef ev ref key) (resolve docs ref key)"
  by (auto simp: resolveRef_def resolve_def split: prod.split intro!: refines_intros)

lemma validateNode_refines:
  "refines (same_view ev docs) (validateNode ev inst node file depth) (validate ev docs inst node file depth)"
proof (induction "Suc maxSchemaDepth - depth" arbitrary: inst node "file" depth rule: less_induct)
  case less
  show ?case
  proof (cases "depth > maxSchemaDepth")
    case True
    then show ?thesis by (simp add: validateNode.simps validate.simps refines_ret)
  next
    case False
    then have IH: "refines (same_view ev docs) (validateNode ev i n f (depth + 1)) (validate ev docs i n f (depth + 1))" for i n f
      using less.hyps [of "depth + 1" i n f] by simp
    note IHc = refines_catch [OF IH]
    have branch: "refines (same_view ev docs)
        (case v of
           GNil \<Rightarrow> st_ret (Inr False)
         | GBool accept \<Rightarrow> if accept then st_ret (Inr True) else st_ret (Inl (verr CodeSchemaTypeInvalid))
         | GObject branchNode \<Rightarrow>
             st_catch (validateNode ev inst branchNode f (depth + 1)) (\<lambda>br.
             st_then (st_ret (conditional_code br)) (\<lambda>_. st_ret (Inr False)))
         | _ \<Rightarrow> st_ret (Inl (verr CodeSchemaKeywordUnknown)))
        (case v of
           GNil \<Rightarrow> Inr False
         | GBool accept \<Rightarrow> if accept then Inr True else Inl (verr CodeSchemaTypeInvalid)
         | GObject branchNode \<Rightarrow>
             and_then (conditional_code (validate ev docs inst branchNode f (depth + 1))) (\<lambda>_. Inr False)
         | _ \<Rightarrow> Inl (verr CodeSchemaKeywordUnknown))" for v f
      by (cases v; simp only: gv.case; intro refines_intros IHc)
    show ?thesis
      unfolding validateNode.simps [of ev inst node "file" depth] validate.simps [of ev docs inst node "file" depth]
      using False by (simp only: if_False) (intro refines_intros IH IHc branch)
  qed
qed

subsection \<open>Equality of values\<close>

text \<open>Every number token of the value is an int64.\<close>

definition int64_tokens :: "gv \<Rightarrow> bool" where
  "int64_tokens v = list_all (\<lambda>t. parse_int64 t \<noteq> None) (number_tokens v)"

lemma int64_tokens_simps [simp]:
  "int64_tokens (GArray vs) = list_all int64_tokens vs"
  "int64_tokens (GObject m) = list_all (\<lambda>p. int64_tokens (snd p)) m"
  "int64_tokens (GNumber s) = (parse_int64 s \<noteq> None)"
  by (auto simp: int64_tokens_def list_all_iff)

lemma instanceInt_int64:
  assumes "integerForm s" "integerForm t" "parse_int64 s \<noteq> None" "parse_int64 t \<noteq> None"
  shows "instanceInt (GNumber s) = instanceInt (GNumber t) \<longleftrightarrow> norm_number s = norm_number t"
  using assms big_set_inj [OF assms(1,2)]
  by (auto simp: instanceInt_def parse_int64_def split: option.splits if_splits)

lemma instanceInt_other:
  "instanceInt GNil = None" "instanceInt (GBool b) = None" "instanceInt (GString t) = None" "instanceInt (GArray vs) = None"
  "instanceInt (GObject m) = None" "instanceInt (GInt i) = None" "instanceInt (GFloat t) = None" "instanceInt (GOther t) = None"
  by (simp_all add: instanceInt_def)

lemma same_keys_length:
  assumes "gmap_ok m" "gmap_ok n" "\<forall>p \<in> set m. map_of n (fst p) \<noteq> None"
  shows "length m = length n \<longleftrightarrow> (\<forall>k \<in> set (map fst n). has_key m k)"
proof -
  have len: "length m = card (fst ` set m)" "length n = card (fst ` set n)"
    using assms(1,2) distinct_card [of "map fst m"] distinct_card [of "map fst n"] by (simp_all add: gmap_ok_def)
  have sub: "fst ` set m \<subseteq> fst ` set n"
  proof
    fix k
    assume "k \<in> fst ` set m"
    with assms(3) have "map_of n k \<noteq> None" by auto
    then show "k \<in> fst ` set n" by (simp add: map_of_eq_None_iff)
  qed
  show ?thesis
  proof
    assume "length m = length n"
    then have "card (fst ` set m) = card (fst ` set n)" using len by simp
    with sub have "fst ` set m = fst ` set n" by (intro card_subset_eq) simp_all
    then show "\<forall>k \<in> set (map fst n). has_key m k" by (simp add: has_key_def)
  next
    assume "\<forall>k \<in> set (map fst n). has_key m k"
    then have "fst ` set m = fst ` set n" using sub by (auto simp: has_key_def)
    with len show "length m = length n" by simp
  qed
qed

lemma jsonEqual_same_json:
  "hashable v \<Longrightarrow> hashable w \<Longrightarrow> int64_tokens v \<Longrightarrow> int64_tokens w \<Longrightarrow> jsonEqual v w \<longleftrightarrow> same_json v w"
proof (induction v w rule: jsonEqual.induct)
  case (2 s r)
  obtain z where z: "instanceInt (GNumber s) = Some z"
    using 2 by (cases "instanceInt (GNumber s)") (auto simp: instanceInt_def split: option.splits)
  show ?case
  proof (cases r)
    case (GNumber t)
    with 2 z instanceInt_int64 [of s t] show ?thesis by auto
  qed (use z in \<open>simp_all add: instanceInt_other\<close>)
next
  case (5 ls r)
  show ?case
  proof (cases r)
    case (GArray rs)
    have "jsonEqual l x \<longleftrightarrow> same_json l x" if "l \<in> set ls" "x \<in> set rs" for l x
      using that 5 GArray by (auto simp: list_all_iff)
    then have "list_all2 jsonEqual ls rs \<longleftrightarrow> list_all2 same_json ls rs"
      by (auto simp: list_all2_conv_all_nth)
    with GArray show ?thesis by simp
  qed auto
next
  case (6 l r)
  show ?case
  proof (cases r)
    case (GObject n)
    have entry: "(case map_of n (fst p) of None \<Rightarrow> False | Some rv \<Rightarrow> jsonEqual (snd p) rv) \<longleftrightarrow>
        (case map_of n (fst p) of None \<Rightarrow> False | Some x \<Rightarrow> same_json (snd p) x)" if "p \<in> set l" for p
    proof (cases "map_of n (fst p)")
      case (Some x)
      then have "(fst p, x) \<in> set n" by (rule map_of_SomeD)
      with "6.prems" GObject that have "hashable x" "int64_tokens x" "hashable (snd p)" "int64_tokens (snd p)"
        by (auto simp: list_all_iff)
      with "6.IH" [OF GObject that Some] Some show ?thesis by simp
    qed simp
    have "list_all (\<lambda>p. case map_of n (fst p) of None \<Rightarrow> False | Some rv \<Rightarrow> jsonEqual (snd p) rv) l \<longleftrightarrow>
        list_all (\<lambda>p. case map_of n (fst p) of None \<Rightarrow> False | Some x \<Rightarrow> same_json (snd p) x) l"
      using entry by (simp add: list_all_iff)
    moreover have "length l = length n \<longleftrightarrow> (\<forall>k \<in> set (map fst n). has_key l k)"
      if "list_all (\<lambda>p. case map_of n (fst p) of None \<Rightarrow> False | Some x \<Rightarrow> same_json (snd p) x) l"
      using that "6.prems" GObject by (intro same_keys_length) (simp, simp, fastforce simp: list_all_iff split: option.splits)
    ultimately show ?thesis using GObject by auto
  qed auto
qed auto

text \<open>A reference without \<open>#\<close> names no file: it is a pointer into the current document.\<close>

lemma ref_without_hash_is_local:
  assumes "str_index ref ''#'' = None"
  shows "ref_parts ref key = (key, ref)"
proof -
  have "\<not> HasPrefix ref ''#''" using assms by (cases ref) (auto simp: HasPrefix_def split: if_splits)
  then show ?thesis using assms by (simp add: ref_parts_def TrimPrefix_def)
qed

subsection \<open>Properties\<close>

text \<open>
  C24: the document cache of the schema set is transparent: the verdict of the interpreter is the verdict of the
  cache-free interpreter over the documents the set could see before the call, and the documents it can
  see afterwards are the same, so the order in which instances are validated never changes a verdict.
\<close>

theorem validateNode_cache_transparent:
  "fst (validateNode ev inst node key depth s) = validate ev (doc_view ev s) inst node key depth \<and>
   doc_view ev (snd (validateNode ev inst node key depth s)) = doc_view ev s"
  using validateNode_refines [of ev "doc_view ev s" inst node key depth]
  by (auto simp: refines_def same_view_def)

text \<open>
  \<open>jsonEqual\<close>, which decides \<open>const\<close> and \<open>enum\<close>, is JSON equality on values whose integers fit int64.
\<close>

theorem jsonEqual_exact:
  assumes "hashable v" "hashable w" "int64_tokens v" "int64_tokens w"
  shows "jsonEqual v w \<longleftrightarrow> same_json v w"
  using assms by (rule jsonEqual_same_json)

theorem jsonEqual_exact_witness:
  "jsonEqual (GArray [GNumber ''-0'', GNumber ''7'']) (GArray [GNumber ''0'', GNumber ''7'']) =
   same_json (GArray [GNumber ''-0'', GNumber ''7'']) (GArray [GNumber ''0'', GNumber ''7''])"
proof -
  let ?v = "GArray [GNumber ''-0'', GNumber ''7'']" and ?w = "GArray [GNumber ''0'', GNumber ''7'']"
  have "hashable ?v" "hashable ?w" "int64_tokens ?v" "int64_tokens ?w"
    by (simp_all add: integerForm_def unsigned_form_def is_digit19_def parse_int64_def big_set_string_def is_digit_def
        min_int64_def max_int64_def)
  from jsonEqual_exact [OF this] show ?thesis .
qed

text \<open>
  beyond int64 it is not: every two positive integers above the int64 range compare equal, although
  they are different JSON values (and have different canonical bytes).
\<close>

theorem jsonEqual_clamps:
  assumes "integerForm s" "integerForm t" "big_set_string s = Some y" "big_set_string t = Some z"
    "y > max_int64" "z > max_int64" "y \<noteq> z"
  shows "jsonEqual (GNumber s) (GNumber t) \<and> \<not> same_json (GNumber s) (GNumber t)"
proof -
  have clamp: "instanceInt (GNumber u) = Some max_int64"
    if u: "integerForm u" "big_set_string u = Some x" "x > max_int64" for u x
  proof -
    have "\<not> HasPrefix u ''-''"
    proof
      assume "HasPrefix u ''-''"
      then obtain d where d: "u = CHR ''-'' # d" by (cases u) (auto simp: HasPrefix_def)
      with u(1) have un: "unsigned_form d" by (simp add: integerForm_def)
      then have "0 \<le> digits_val 0 d" using unsigned_digits by (intro digits_val_nonneg) auto
      with d u unsigned_digits [OF un] show False by (auto simp: big_set_string_def Let_def max_int64_def)
    qed
    with u show ?thesis by (simp add: instanceInt_def parse_int64_def)
  qed
  have "norm_number s \<noteq> norm_number t" using big_set_inj [OF assms(1,2)] assms by simp
  then show ?thesis using clamp [OF assms(1,3,5)] clamp [OF assms(2,4,6)] by simp
qed

theorem jsonEqual_clamps_witness:
  "jsonEqual (GNumber ''9223372036854775808'') (GNumber ''9223372036854775809'') \<and>
   \<not> same_json (GNumber ''9223372036854775808'') (GNumber ''9223372036854775809'')"
  by (rule jsonEqual_clamps [of _ _ 9223372036854775808 9223372036854775809])
    (simp_all add: integerForm_def unsigned_form_def is_digit19_def is_digit_def big_set_string_def max_int64_def)

lemma validate_no_ref:
  assumes "validate ev docs inst node key depth = Inr u" "map_of node ''$ref'' = None"
  shows "depth \<le> maxSchemaDepth" "check_scalars ev inst node = Inr ()"
    "\<And>obj. inst = GObject obj \<Longrightarrow> check_fields obj node = Inr ()"
    "\<And>obj k v. inst = GObject obj \<Longrightarrow> has_key (obj_or_nil (gidx node ''properties'')) k \<Longrightarrow> map_of obj k = Some v \<Longrightarrow>
       validate ev docs v (obj_or_nil (gidx (obj_or_nil (gidx node ''properties'')) k)) key (depth + 1) = Inr ()"
proof -
  from assms show "depth \<le> maxSchemaDepth" by (simp add: validate.simps [of ev docs inst node] split: if_splits)
  with assms obtain b where *: "check_scalars ev inst node = Inr ()"
    "(case AsObject inst of
        None \<Rightarrow> Inr ()
      | Some obj \<Rightarrow>
          and_then (check_fields obj node) (\<lambda>_.
          for_each (\<lambda>key'.
              case map_of obj key' of
                None \<Rightarrow> Inr ()
              | Some val \<Rightarrow> validate ev docs val (obj_or_nil (gidx (obj_or_nil (gidx node ''properties'')) key')) key (depth + 1))
            (sortedMapKeys (obj_or_nil (gidx node ''properties''))))) = Inr b"
    by (subst (asm) validate.simps) (auto simp: and_then_Inr simp del: for_each.simps)
  then show "check_scalars ev inst node = Inr ()" by simp
  show "check_fields obj node = Inr ()" if "inst = GObject obj" for obj
    using *(2) that by (auto simp: AsObject_def res_simps)
  show "validate ev docs v (obj_or_nil (gidx (obj_or_nil (gidx node ''properties'')) k)) key (depth + 1) = Inr ()"
    if "inst = GObject obj" "has_key (obj_or_nil (gidx node ''properties'')) k" "map_of obj k = Some v" for obj k v
    using *(2) that by (force simp: AsObject_def res_simps sortedMapKeys_def sort_strings_sort has_key_def)
qed

lemma validate_empty: "depth \<le> maxSchemaDepth \<Longrightarrow> validate ev docs inst [] key depth = Inr ()"
  by (subst validate.simps)
    (auto simp: check_scalars_def check_item_counts_def check_fields_def gidx_def AsArray_def AsString_def AsObject_def
      requiredNames_def intValue_def instanceInt_def obj_or_nil_def sortedMapKeys_def sort_strings_def split: option.split gv.split)

text \<open>
  an object that passes a node without \<open>$ref\<close> has every required field, under
  \<open>additionalProperties: false\<close> no other field than the declared properties, and each declared property
  that it has passes its own subschema.
\<close>

theorem validateNode_object_sound:
  assumes "fst (validateNode ev (GObject obj) node key depth s) = Inr ()" "map_of node ''$ref'' = None"
  shows "set (requiredNames node) \<subseteq> fst ` set obj \<and>
    (map_of node ''additionalProperties'' = Some (GBool False) \<longrightarrow>
       fst ` set obj \<subseteq> fst ` set (obj_or_nil (gidx node ''properties''))) \<and>
    (\<forall>k v sub. map_of obj k = Some v \<and> map_of (obj_or_nil (gidx node ''properties'')) k = Some (GObject sub) \<longrightarrow>
       validate ev (doc_view ev s) v sub key (depth + 1) = Inr ())"
proof -
  have v: "validate ev (doc_view ev s) (GObject obj) node key depth = Inr ()"
    using assms(1) validateNode_refines [of ev "doc_view ev s" "GObject obj" node key depth]
    by (simp add: refines_def same_view_def)
  note sound = validate_no_ref [OF v assms(2)]
  have "validate ev (doc_view ev s) v sub key (depth + 1) = Inr ()"
    if "map_of obj k = Some v" "map_of (obj_or_nil (gidx node ''properties'')) k = Some (GObject sub)" for k v sub
    using sound(4) [OF refl _ that(1)] that(2)
    by (simp add: has_key_map_of gidx_def [of "obj_or_nil (gidx node ''properties'')"])
     (simp add: obj_or_nil_def AsObject_def)
  moreover have "set (requiredNames node) \<subseteq> fst ` set obj"
    "map_of node ''additionalProperties'' = Some (GBool False) \<longrightarrow> fst ` set obj \<subseteq> fst ` set (obj_or_nil (gidx node ''properties''))"
    using sound(3) [OF refl]
    by (auto simp: check_fields_def res_simps has_key_def sortedMapKeys_def sort_strings_sort split: if_splits)
  ultimately show ?thesis by blast
qed

definition sample_node :: gobj where
  "sample_node = [(''required'', GArray [GString ''a'']), (''additionalProperties'', GBool False),
     (''properties'', GObject [(''a'', GObject [(''type'', GString ''string'')])])]"

lemmas node_simps = check_scalars_def check_item_counts_def check_fields_def gidx_def AsArray_def AsString_def AsObject_def
  requiredNames_def intValue_def instanceInt_def obj_or_nil_def sortedMapKeys_def sort_strings_def str_or_empty_def

lemma verdict: "fst (validateNode ev inst node key depth s) = validate ev (doc_view ev s) inst node key depth"
  using validateNode_refines [of ev "doc_view ev s" inst node key depth] by (simp add: refines_def same_view_def)

lemma sample_node_accepts: "fst (validateNode ev (GObject [(''a'', GString ''x'')]) sample_node key 0 s) = Inr ()"
proof -
  have "validate ev docs (GString ''x'') [(''type'', GString ''string'')] key 1 = Inr ()" for docs
    by (subst validate.simps) (simp add: node_simps maxSchemaDepth_def typeMatches_def)
  then show ?thesis unfolding verdict
    by (subst validate.simps) (simp add: node_simps sample_node_def has_key_def)
qed

definition sample_env :: env where
  "sample_env = \<lparr>readFile = (\<lambda>_. None), readDir = (\<lambda>_. None), compile = (\<lambda>_. Some (\<lambda>_. True))\<rparr>"

definition sample_set :: SchemaSet where
  "sample_set = \<lparr>ss_dir = ''schema'', ss_docs = [(''a.schema.json'', sample_node)], ss_names = [''a.schema.json'']\<rparr>"

theorem validateNode_object_sound_witness:
  "validate sample_env (doc_view sample_env sample_set) (GString ''x'') [(''type'', GString ''string'')] ''a.schema.json'' 1 = Inr ()"
  using validateNode_object_sound [OF sample_node_accepts [of sample_env "''a.schema.json''" sample_set]]
  by (simp add: sample_node_def gidx_def obj_or_nil_def AsObject_def)

text \<open>
  boolean subschemas are not enforced: a property declared \<open>false\<close> accepts every value, and a
  conditional whose taken branch is \<open>true\<close> ends the check of its node, so a \<open>not\<close> beside it that
  rejects everything is never looked at.
\<close>

theorem boolean_schemas_not_enforced:
  "fst (validateNode ev (GObject [(k, v)]) [(''properties'', GObject [(k, GBool False)])] key 0 s) = Inr () \<and>
   fst (validateNode ev inst [(''if'', GObject []), (''then'', GBool True), (''not'', GObject [])] key 0 s) = Inr () \<and>
   fst (validateNode ev inst [(''if'', GObject []), (''not'', GObject [])] key 0 s) = Inl (verr CodeSchemaConditionalForbidden)"
proof -
  have "fst (validateNode ev (GObject [(k, v)]) [(''properties'', GObject [(k, GBool False)])] key 0 s) = Inr ()"
    unfolding verdict
    by (subst validate.simps) (simp add: node_simps has_key_def validate_empty maxSchemaDepth_def split: gv.split)
  moreover have "fst (validateNode ev inst [(''if'', GObject []), (''then'', GBool True), (''not'', GObject [])] key 0 s) = Inr ()"
    unfolding verdict
    by (subst validate.simps) (auto simp: node_simps validate_empty maxSchemaDepth_def split: gv.split)
  moreover have "fst (validateNode ev inst [(''if'', GObject []), (''not'', GObject [])] key 0 s) = Inl (verr CodeSchemaConditionalForbidden)"
    unfolding verdict
    by (subst validate.simps) (auto simp: node_simps validate_empty maxSchemaDepth_def split: gv.split)
  ultimately show ?thesis by blast
qed

end
