(* ===== verification/Gates.thy ===== *)
theory Gates
  imports Schema
begin

text \<open>
  The static-gate engine (\<^verbatim>\<open>internal/skillevolution/validation/gates.go\<close>): the closed validation pipeline over
  an authority schema (integer-only core, shape, declared digest, extensions) and the permission cap.
  The results: which instances the pipeline accepts, exactly, that a freshly computed digest is accepted, and that
  the permission walk reaches every permission array outside other permission arrays.
\<close>

definition HostCapabilityCapV2 :: "string list" where
  "HostCapabilityCapV2 = [''memory_explore'', ''memory_expand'', ''skill_get'', ''tool_execute'']"

text \<open>\<open>NewGates\<close>: None is the nil set.\<close>

definition NewGates :: "SchemaSet option \<Rightarrow> SchemaSet res" where
  "NewGates schemas = (case schemas of None \<Rightarrow> Inl PlainError | Some s \<Rightarrow> if ss_docs s = [] then Inl PlainError else Inr s)"

subsection \<open>Integer-only core\<close>

lemma for_each_cong [fundef_cong]:
  "xs = ys \<Longrightarrow> (\<And>x. x \<in> set ys \<Longrightarrow> f x = g x) \<Longrightarrow> for_each f xs = for_each g ys"
proof (induction ys arbitrary: xs)
  case (Cons y ys)
  then have "for_each f ys = for_each g ys" by simp
  with Cons.prems show ?case by (simp split: sum.split)
qed simp

function checkFloats :: "gv \<Rightarrow> unit res" where
  "checkFloats (GNumber t) = check (integerForm t) (verr CodeNonIntegerNumber)"
| "checkFloats (GObject t) = for_each (\<lambda>p. checkFloats (snd p)) (sort_by key_less t)"
| "checkFloats (GArray t) = for_each checkFloats t"
| "checkFloats GNil = Inr ()"
| "checkFloats (GBool b) = Inr ()"
| "checkFloats (GString s) = Inr ()"
| "checkFloats (GInt i) = Inr ()"
| "checkFloats (GFloat r) = Inr ()"
| "checkFloats (GOther r) = Inr ()"
  by pat_completeness auto
termination
  by (relation "measure size") (auto simp: size_entry_snd less_Suc_eq_le size_list_estimation')

subsection \<open>Extensions and digests\<close>

definition CheckExtensions :: "gv \<Rightarrow> unit res" where
  "CheckExtensions extensions =
     (case AsObject extensions of
        None \<Rightarrow> Inl (verr CodeUnknownRequiredExtension)
      | Some obj \<Rightarrow>
          for_each (\<lambda>key.
              case AsObject (gidx obj key) of
                None \<Rightarrow> Inr ()
              | Some entry \<Rightarrow> check (gidx entry ''required'' \<noteq> GBool True) (verr CodeUnknownRequiredExtension))
            (sortedMapKeys obj))"

fun put_present :: "gobj \<Rightarrow> gobj \<Rightarrow> gv list \<Rightarrow> gobj" where
  "put_present inst core [] = core"
| "put_present inst core (raw # rest) =
     (let name = str_or_empty raw in
      put_present inst (case map_of inst name of None \<Rightarrow> core | Some value \<Rightarrow> gput name value core) rest)"

definition preimageCore :: "gobj \<Rightarrow> gobj \<Rightarrow> gobj" where
  "preimageCore inst meta = put_present inst [] (arr_or_nil (gidx meta ''preimage_fields''))"

definition digestShape :: "string \<Rightarrow> bool" where
  "digestShape digest =
     (length digest = 71 \<and> take 7 digest = ''sha256:'' \<and>
      list_all (\<lambda>c. \<not> ((c < CHR ''0'' \<or> c > CHR ''9'') \<and> (c < CHR ''a'' \<or> c > CHR ''f''))) (drop 7 digest))"

definition checkDigestMeta :: "gobj \<Rightarrow> gobj \<Rightarrow> unit res" where
  "checkDigestMeta inst meta =
     (let digestField = str_or_empty (gidx meta ''digest_field'') in
      if digestField = [] then Inr ()
      else
        (case map_of inst digestField of
           None \<Rightarrow> Inr ()
         | Some declaredRaw \<Rightarrow>
             (case AsString declaredRaw of
                None \<Rightarrow> Inl (verr CodeDigestMismatch)
              | Some declared \<Rightarrow>
                  if \<not> digestShape declared then Inl (verr CodeDigestMismatch)
                  else
                    (case DigestOf (GObject (preimageCore inst meta)) of
                       Inl _ \<Rightarrow> Inl (verr CodeNonIntegerNumber)
                     | Inr computed \<Rightarrow> check (computed = declared) (verr CodeDigestMismatch)))))"

definition CheckDigestPreimage :: "SchemaSet \<Rightarrow> gobj \<Rightarrow> string \<Rightarrow> unit res" where
  "CheckDigestPreimage g inst schemaFile =
     and_then (Schema_doc g schemaFile) (\<lambda>doc.
     case AsObject (gidx doc ''x-digest'') of
       None \<Rightarrow> Inl (verr CodeSchemaKeywordUnknown)
     | Some meta \<Rightarrow> checkDigestMeta inst meta)"

definition ComputeDigestPreimage :: "SchemaSet \<Rightarrow> gobj \<Rightarrow> string \<Rightarrow> string res" where
  "ComputeDigestPreimage g inst schemaFile =
     and_then (Schema_doc g schemaFile) (\<lambda>doc.
     case AsObject (gidx doc ''x-digest'') of
       None \<Rightarrow> Inl (verr CodeSchemaKeywordUnknown)
     | Some meta \<Rightarrow>
         (case DigestOf (GObject (preimageCore inst meta)) of
            Inl _ \<Rightarrow> Inl (verr CodeNonIntegerNumber)
          | Inr digest \<Rightarrow> Inr digest))"

subsection \<open>The pipeline\<close>

text \<open>The common front of both pipelines: floats, the document, a root reference, the shape.\<close>

definition check_shape :: "env \<Rightarrow> gv \<Rightarrow> string \<Rightarrow> gobj sst" where
  "check_shape ev inst schemaFile =
     st_then (st_ret (checkFloats inst)) (\<lambda>_.
     st_then (\<lambda>s. (Schema_doc s schemaFile, s)) (\<lambda>doc.
     st_then (case map_of doc ''$ref'' of
                None \<Rightarrow> st_ret (Inr (doc, schemaFile))
              | Some ref \<Rightarrow> resolveRef ev (str_or_empty ref) schemaFile) (\<lambda>(node, target).
     st_then (validateNode ev inst node target 0) (\<lambda>_. st_ret (Inr doc)))))"

definition check_extensions_of :: "gobj \<Rightarrow> unit res" where
  "check_extensions_of obj = (case map_of obj ''extensions'' of None \<Rightarrow> Inr () | Some raw \<Rightarrow> CheckExtensions raw)"

definition ValidateInstance :: "env \<Rightarrow> gv \<Rightarrow> string \<Rightarrow> unit sst" where
  "ValidateInstance ev inst schemaFile =
     st_then (check_shape ev inst schemaFile) (\<lambda>doc.
     case AsObject inst of
       None \<Rightarrow> st_ret (Inr ())
     | Some obj \<Rightarrow>
         st_then (st_ret (case AsObject (gidx doc ''x-digest'') of None \<Rightarrow> Inr () | Some meta \<Rightarrow> checkDigestMeta obj meta)) (\<lambda>_.
         st_ret (check_extensions_of obj)))"

definition ValidateShape :: "env \<Rightarrow> gv \<Rightarrow> string \<Rightarrow> unit sst" where
  "ValidateShape ev inst schemaFile =
     st_then (check_shape ev inst schemaFile) (\<lambda>_.
     case AsObject inst of
       None \<Rightarrow> st_ret (Inr ())
     | Some obj \<Rightarrow> st_ret (check_extensions_of obj))"

subsection \<open>Permissions\<close>

definition CheckPermissionEntry :: "gv \<Rightarrow> unit res" where
  "CheckPermissionEntry entry =
     (case AsObject entry of
        None \<Rightarrow> Inl (verr CodeSchemaEnumInvalid)
      | Some obj \<Rightarrow>
          let capability = str_or_empty (gidx obj ''capability''); scope = str_or_empty (gidx obj ''scope'') in
          and_then (check (capability \<noteq> []) (verr CodeSchemaRequiredFieldMissing)) (\<lambda>_.
          and_then (check (scope \<noteq> []) (verr CodeSchemaRequiredFieldMissing)) (\<lambda>_.
          check (capability \<in> set HostCapabilityCapV2) (verr CodePermissionCapExceeded))))"

definition CheckPermissionList :: "gv \<Rightarrow> unit res" where
  "CheckPermissionList entries =
     (case AsArray entries of
        None \<Rightarrow> Inl (verr CodeSchemaEnumInvalid)
      | Some l \<Rightarrow> for_each CheckPermissionEntry l)"

definition permissionKeys :: "string list" where
  "permissionKeys = [''permissions'', ''orchestration_permissions'']"

function CheckPermissionsWalked :: "gv \<Rightarrow> unit res" where
  "CheckPermissionsWalked (GObject t) =
     and_then (for_each (\<lambda>key. case map_of t key of None \<Rightarrow> Inr () | Some raw \<Rightarrow> CheckPermissionList raw) permissionKeys) (\<lambda>_.
     for_each (\<lambda>p. if fst p \<in> set permissionKeys then Inr () else CheckPermissionsWalked (snd p)) (sort_by key_less t))"
| "CheckPermissionsWalked (GArray t) = for_each CheckPermissionsWalked t"
| "CheckPermissionsWalked GNil = Inr ()"
| "CheckPermissionsWalked (GBool b) = Inr ()"
| "CheckPermissionsWalked (GNumber n) = Inr ()"
| "CheckPermissionsWalked (GString s) = Inr ()"
| "CheckPermissionsWalked (GInt i) = Inr ()"
| "CheckPermissionsWalked (GFloat r) = Inr ()"
| "CheckPermissionsWalked (GOther r) = Inr ()"
  by pat_completeness auto
termination
  by (relation "measure size") (auto simp: size_entry_snd less_Suc_eq_le size_list_estimation')

subsection \<open>What the checks mean\<close>

lemma checkFloats_iff: "checkFloats v = Inr () \<longleftrightarrow> list_all integerForm (number_tokens v)"
  by (induction v rule: checkFloats.induct) (auto simp: res_simps list_all_iff)

lemma checkFloats_error: "checkFloats v = Inl e \<Longrightarrow> e = verr CodeNonIntegerNumber"
proof (induction v rule: checkFloats.induct)
  case (2 t)
  then show ?case by (auto dest: for_each_Inl)
next
  case (3 t)
  then show ?case by (auto dest: for_each_Inl)
qed (auto simp: res_simps)

lemma CheckExtensions_iff:
  "CheckExtensions raw = Inr () \<longleftrightarrow>
     (\<exists>exts. raw = GObject exts \<and> (\<forall>k entry. map_of exts k = Some (GObject entry) \<longrightarrow> map_of entry ''required'' \<noteq> Some (GBool True)))"
proof (cases raw)
  case (GObject obj)
  have keys: "map_of obj k \<noteq> None \<longleftrightarrow> k \<in> set (sortedMapKeys obj)" for k
    by (simp add: sortedMapKeys_def sort_strings_sort map_of_eq_None_iff)
  have "CheckExtensions raw = Inr () \<longleftrightarrow>
      (\<forall>k \<in> set (sortedMapKeys obj). case AsObject (gidx obj k) of None \<Rightarrow> True | Some e \<Rightarrow> gidx e ''required'' \<noteq> GBool True)"
    by (auto simp: GObject CheckExtensions_def AsObject_def res_simps split: option.splits gv.splits)
  also have "\<dots> \<longleftrightarrow> (\<forall>k entry. map_of obj k = Some (GObject entry) \<longrightarrow> map_of entry ''required'' \<noteq> Some (GBool True))"
    unfolding keys [symmetric] Ball_def mem_Collect_eq
    by (fastforce simp: AsObject_def gidx_def split: gv.splits option.splits)
  finally show ?thesis by (simp add: GObject)
qed (simp_all add: CheckExtensions_def AsObject_def)

lemma digestShape_pattern: "digestShape d = digestPattern d"
proof -
  have "\<not> ((c < CHR ''0'' \<or> c > CHR ''9'') \<and> (c < CHR ''a'' \<or> c > CHR ''f'')) \<longleftrightarrow> is_hex c" for c
    by (auto simp: is_hex_def not_less)
  then show ?thesis by (auto simp: digestShape_def digestPattern_def)
qed

text \<open>What the steps of the pipeline demand of an instance.\<close>

definition shape_ok :: "env \<Rightarrow> SchemaSet \<Rightarrow> gv \<Rightarrow> gobj \<Rightarrow> string \<Rightarrow> bool" where
  "shape_ok ev s inst doc key =
     (case map_of doc ''$ref'' of
        None \<Rightarrow> validate ev (doc_view ev s) inst doc key 0 = Inr ()
      | Some ref \<Rightarrow> \<exists>node target. resolve (doc_view ev s) (str_or_empty ref) key = Inr (node, target) \<and>
          validate ev (doc_view ev s) inst node target 0 = Inr ())"

definition digest_ok :: "gobj \<Rightarrow> gobj \<Rightarrow> bool" where
  "digest_ok obj doc =
     (\<forall>meta f raw. map_of doc ''x-digest'' = Some (GObject meta) \<and> map_of meta ''digest_field'' = Some (GString f) \<and> f \<noteq> [] \<and>
        map_of obj f = Some raw \<longrightarrow> (\<exists>d. raw = GString d \<and> DigestOf (GObject (preimageCore obj meta)) = Inr d))"

definition extensions_ok :: "gobj \<Rightarrow> bool" where
  "extensions_ok obj =
     (\<forall>raw. map_of obj ''extensions'' = Some raw \<longrightarrow>
        (\<exists>exts. raw = GObject exts \<and> (\<forall>k entry. map_of exts k = Some (GObject entry) \<longrightarrow> map_of entry ''required'' \<noteq> Some (GBool True))))"

lemma DigestOf_digestShape: "DigestOf v = Inr d \<Longrightarrow> digestShape d"
  by (auto simp: digestShape_pattern DigestOf_def res_simps digest_bytes_pattern)

lemma digest_ok_iff: "(case AsObject (gidx doc ''x-digest'') of None \<Rightarrow> Inr () | Some meta \<Rightarrow> checkDigestMeta obj meta) = Inr () \<longleftrightarrow> digest_ok obj doc"
proof (cases "\<exists>meta f raw. map_of doc ''x-digest'' = Some (GObject meta) \<and> map_of meta ''digest_field'' = Some (GString f) \<and> f \<noteq> [] \<and> map_of obj f = Some raw")
  case True
  then obtain meta f raw where m: "map_of doc ''x-digest'' = Some (GObject meta)" "map_of meta ''digest_field'' = Some (GString f)" "f \<noteq> []"
    "map_of obj f = Some raw" by blast
  have "checkDigestMeta obj meta = Inr () \<longleftrightarrow> (\<exists>d. raw = GString d \<and> DigestOf (GObject (preimageCore obj meta)) = Inr d)"
    using m(2-4) DigestOf_digestShape
    by (cases raw) (auto simp: checkDigestMeta_def Let_def gidx_def str_or_empty_def AsString_def check_Inr split: sum.splits)
  moreover have "digest_ok obj doc \<longleftrightarrow> (\<exists>d. raw = GString d \<and> DigestOf (GObject (preimageCore obj meta)) = Inr d)"
    using m by (auto simp: digest_ok_def)
  ultimately show ?thesis using m(1) by (simp add: gidx_def AsObject_def)
next
  case False
  then have "digest_ok obj doc" unfolding digest_ok_def by blast
  moreover have "checkDigestMeta obj meta = Inr ()" if "map_of doc ''x-digest'' = Some (GObject meta)" for meta
    using False that by (auto simp: checkDigestMeta_def Let_def gidx_def str_or_empty_def AsString_def split: option.splits gv.splits)
  ultimately show ?thesis by (auto simp: gidx_def AsObject_def split: option.splits gv.splits)
qed

text \<open>A reference at the root is resolved against the documents that the set can see, and loading it does not change them.\<close>

lemma resolveRef_view:
  "fst (resolveRef ev ref key s) = resolve (doc_view ev s) ref key" "doc_view ev (snd (resolveRef ev ref key s)) = doc_view ev s"
  using resolveRef_refines [of ev "doc_view ev s" ref key] by (auto simp: refines_def same_view_def)

lemma check_shape_iff:
  "fst (check_shape ev inst key s) = Inr doc \<longleftrightarrow> checkFloats inst = Inr () \<and> Schema_doc s key = Inr doc \<and> shape_ok ev s inst doc key"
proof (cases "checkFloats inst = Inr () \<and> Schema_doc s key = Inr doc")
  case True
  show ?thesis
  proof (cases "map_of doc ''$ref''")
    case None
    have "fst (check_shape ev inst key s) = Inr doc \<longleftrightarrow> fst (validateNode ev inst doc key 0 s) = Inr ()"
      using True None by (auto simp: check_shape_def st_then_def st_ret_def split: sum.splits prod.splits)
    with True None show ?thesis by (simp add: verdict shape_ok_def)
  next
    case (Some ref)
    obtain r t where rt: "resolveRef ev (str_or_empty ref) key s = (r, t)" by fastforce
    note view = resolveRef_view [of ev "str_or_empty ref" key s, unfolded rt fst_conv snd_conv]
    show ?thesis
    proof (cases r)
      case (Inl e)
      then show ?thesis using True Some rt view(1) by (simp add: check_shape_def st_then_def st_ret_def shape_ok_def)
    next
      case (Inr p)
      then have "fst (check_shape ev inst key s) = Inr doc \<longleftrightarrow> fst (validateNode ev inst (fst p) (snd p) 0 t) = Inr ()"
        using True Some rt by (auto simp: check_shape_def st_then_def st_ret_def split: sum.splits prod.splits)
      with True Some Inr view show ?thesis by (cases p) (simp add: verdict shape_ok_def)
    qed
  qed
next
  case False
  then show ?thesis by (auto simp: check_shape_def st_then_def st_ret_def split: sum.splits prod.splits option.splits)
qed

lemma put_present_map_of:
  "map_of (put_present inst core raws) k =
     (if k \<in> set (map str_or_empty raws) \<and> map_of inst k \<noteq> None then map_of inst k else map_of core k)"
  by (induction inst core raws rule: put_present.induct) (auto simp: Let_def split: option.splits)

lemma put_present_irrelevant:
  "f \<notin> set (map str_or_empty raws) \<Longrightarrow> put_present (gput f v inst) core raws = put_present inst core raws"
  by (induction inst core raws rule: put_present.induct) (auto simp: Let_def)

text \<open>The objects of a document that the permission walk visits: it does not descend into permission arrays.\<close>

fun walked :: "gv \<Rightarrow> gobj list" where
  "walked (GObject t) = t # concat (map (\<lambda>p. if fst p \<in> set permissionKeys then [] else walked (snd p)) t)"
| "walked (GArray t) = concat (map walked t)"
| "walked v = []"

definition permission_granted :: "gv \<Rightarrow> bool" where
  "permission_granted entry =
     (\<exists>obj c sc. entry = GObject obj \<and> map_of obj ''capability'' = Some (GString c) \<and> c \<in> set HostCapabilityCapV2
        \<and> map_of obj ''scope'' = Some (GString sc) \<and> sc \<noteq> [])"

lemma str_or_empty_ne: "str_or_empty (gidx obj k) \<noteq> [] \<longleftrightarrow> (\<exists>x. map_of obj k = Some (GString x) \<and> x \<noteq> [])"
  by (auto simp: str_or_empty_def gidx_def AsString_def split: option.splits gv.splits)

lemma CheckPermissionEntry_iff: "CheckPermissionEntry entry = Inr () \<longleftrightarrow> permission_granted entry"
proof (cases entry)
  case (GObject obj)
  have "CheckPermissionEntry entry = Inr () \<longleftrightarrow> str_or_empty (gidx obj ''capability'') \<noteq> [] \<and>
      str_or_empty (gidx obj ''scope'') \<noteq> [] \<and> str_or_empty (gidx obj ''capability'') \<in> set HostCapabilityCapV2"
    by (auto simp: GObject CheckPermissionEntry_def AsObject_def res_simps Let_def)
  also have "\<dots> \<longleftrightarrow> permission_granted entry"
    unfolding str_or_empty_ne permission_granted_def GObject
    by (auto simp: str_or_empty_def gidx_def AsString_def HostCapabilityCapV2_def)
  finally show ?thesis .
qed (auto simp: CheckPermissionEntry_def AsObject_def permission_granted_def)

lemma CheckPermissionList_iff:
  "CheckPermissionList raw = Inr () \<longleftrightarrow> (\<exists>l. raw = GArray l \<and> list_all permission_granted l)"
  by (auto simp: CheckPermissionList_def AsArray_def res_simps CheckPermissionEntry_iff list_all_iff split: gv.splits)

definition permissions_ok :: "gobj \<Rightarrow> bool" where
  "permissions_ok obj = list_all (\<lambda>key.
     case map_of obj key of None \<Rightarrow> True | Some raw \<Rightarrow> (\<exists>l. raw = GArray l \<and> list_all permission_granted l)) permissionKeys"

lemma own_permissions:
  "for_each (\<lambda>key. case map_of t key of None \<Rightarrow> Inr () | Some raw \<Rightarrow> CheckPermissionList raw) permissionKeys = Inr u \<longleftrightarrow> permissions_ok t"
  by (simp only: for_each_Inr permissions_ok_def list_all_iff) (fastforce simp: CheckPermissionList_iff list_all_iff split: option.splits)

lemma CheckPermissionsWalked_iff: "CheckPermissionsWalked v = Inr () \<longleftrightarrow> list_all permissions_ok (walked v)"
proof (induction v rule: CheckPermissionsWalked.induct)
  case (1 t)
  have "(if fst p \<in> set permissionKeys then Inr () else CheckPermissionsWalked (snd p)) = Inr () \<longleftrightarrow>
      list_all permissions_ok (if fst p \<in> set permissionKeys then [] else walked (snd p))" if "p \<in> set t" for p
    using 1 [of p] that by simp
  then show ?case
    by (simp only: CheckPermissionsWalked.simps and_then_Inr own_permissions) (auto simp: for_each_Inr list_all_iff)
next
  case (2 t)
  then show ?case by (auto simp: res_simps list_all_iff)
qed simp_all

subsection \<open>Properties\<close>

text \<open>
  C28: an instance passes the full pipeline exactly when it has only integer numbers; it has the shape of the authority
  schema, or of the schema the root reference of that one points to; where the schema names a digest field and the
  instance carries it, the field is the digest recomputed from the preimage fields of the instance; and its extensions, if it has any, are an
  object none of whose entries is marked as required.
\<close>

theorem ValidateInstance_exact:
  "fst (ValidateInstance ev (GObject obj) key s) = Inr () \<longleftrightarrow>
     list_all integerForm (number_tokens (GObject obj)) \<and>
     (\<exists>doc. Schema_doc s key = Inr doc \<and> shape_ok ev s (GObject obj) doc key \<and> digest_ok obj doc) \<and> extensions_ok obj"
proof -
  have ext: "check_extensions_of obj = Inr () \<longleftrightarrow> extensions_ok obj"
    by (auto simp: check_extensions_of_def extensions_ok_def CheckExtensions_iff split: option.splits)
  obtain r t where rt: "check_shape ev (GObject obj) key s = (r, t)" by fastforce
  have "fst (ValidateInstance ev (GObject obj) key s) = Inr () \<longleftrightarrow> (\<exists>doc. r = Inr doc \<and>
      (case AsObject (gidx doc ''x-digest'') of None \<Rightarrow> Inr () | Some meta \<Rightarrow> checkDigestMeta obj meta) = Inr () \<and> check_extensions_of obj = Inr ())"
    unfolding ValidateInstance_def st_then_def st_ret_def rt by (auto simp: AsObject_def [of "GObject obj"] split: sum.splits prod.splits)
  also have "\<dots> \<longleftrightarrow> (\<exists>doc. r = Inr doc \<and> digest_ok obj doc) \<and> extensions_ok obj" by (simp only: digest_ok_iff ext) blast
  moreover have "r = Inr doc \<longleftrightarrow> list_all integerForm (number_tokens (GObject obj)) \<and> Schema_doc s key = Inr doc \<and> shape_ok ev s (GObject obj) doc key" for doc
    using check_shape_iff [of ev "GObject obj" key s doc] by (simp only: rt fst_conv checkFloats_iff)
  ultimately show ?thesis by blast
qed

definition sample_dto :: gobj where
  "sample_dto = [(''a'', GString ''x''), (''d'', GString (DigestBytes (out (GObject [(''a'', GString ''x'')]))))]"

definition sample_schemas :: SchemaSet where
  "sample_schemas = \<lparr>ss_dir = ''schema'',
     ss_docs = [(''a.schema.json'', [(''x-digest'', GObject [(''digest_field'', GString ''d''), (''preimage_fields'', GArray [GString ''a''])])])],
     ss_names = [''a.schema.json'']\<rparr>"

lemma sample_dto_valid: "fst (ValidateInstance sample_env (GObject sample_dto) ''a.schema.json'' sample_schemas) = Inr ()"
proof -
  have h: "hashable (GObject [(''a'', GString ''x'')])" by (simp add: gmap_ok_def valid_text_ascii)
  have d: "checkDigestMeta sample_dto [(''digest_field'', GString ''d''), (''preimage_fields'', GArray [GString ''a''])] = Inr ()"
    by (simp add: checkDigestMeta_def preimageCore_def sample_dto_def node_simps arr_or_nil_def DigestOf_hashable [OF h]
        digestShape_pattern digest_bytes_pattern)
  have "validate sample_env docs (GObject sample_dto) [(''x-digest'', x)] key 0 = Inr ()" for docs x key
    by (subst validate.simps) (simp add: node_simps sample_dto_def maxSchemaDepth_def)
  then have v: "\<exists>t. validateNode sample_env (GObject sample_dto) [(''x-digest'', x)] key 0 s = (Inr (), t)" for x key s
    by (metis verdict prod.collapse)
  have "checkFloats (GObject sample_dto) = Inr ()" by (simp add: checkFloats_iff sample_dto_def)
  moreover have "check_extensions_of sample_dto = Inr ()" by (simp add: check_extensions_of_def sample_dto_def)
  moreover obtain t where "validateNode sample_env (GObject sample_dto) [(''x-digest'',
      GObject [(''digest_field'', GString ''d''), (''preimage_fields'', GArray [GString ''a''])])] ''a.schema.json'' 0 sample_schemas = (Inr (), t)"
    using v by blast
  ultimately show ?thesis using d
    by (simp add: ValidateInstance_def check_shape_def st_then_def st_ret_def Schema_doc_def sample_schemas_def gidx_def AsObject_def)
qed

theorem ValidateInstance_exact_witness:
  "extensions_ok sample_dto \<and> (\<exists>d. map_of sample_dto ''d'' = Some (GString d) \<and> DigestOf (GObject (preimageCore sample_dto
      [(''digest_field'', GString ''d''), (''preimage_fields'', GArray [GString ''a''])])) = Inr d)"
  using ValidateInstance_exact [of sample_env sample_dto "''a.schema.json''" sample_schemas] sample_dto_valid
  by (auto simp: Schema_doc_def sample_schemas_def digest_ok_def) (simp add: sample_dto_def)

text \<open>
  stamping an instance with the digest computed for its schema makes the digest check pass, as long as
  the digest field is not itself a preimage field; nothing else of the instance matters.
\<close>

theorem stamped_digest_accepted:
  assumes "ComputeDigestPreimage g inst key = Inr d" "Schema_doc g key = Inr doc"
    "map_of doc ''x-digest'' = Some (GObject meta)" "map_of meta ''digest_field'' = Some (GString f)"
    "GString f \<notin> set (arr_or_nil (gidx meta ''preimage_fields''))" "f \<noteq> []"
  shows "CheckDigestPreimage g (gput f (GString d) inst) key = Inr ()"
proof -
  have "DigestOf (GObject (preimageCore inst meta)) = Inr d"
    using assms by (auto simp: ComputeDigestPreimage_def gidx_def AsObject_def split: sum.splits)
  moreover have "f \<notin> set (map str_or_empty (arr_or_nil (gidx meta ''preimage_fields'')))"
    using assms(5,6) by (auto simp: str_or_empty_def AsString_def split: gv.splits option.splits)
  then have "preimageCore (gput f (GString d) inst) meta = preimageCore inst meta"
    by (simp add: preimageCore_def put_present_irrelevant)
  ultimately show ?thesis
    using assms(2-4,6) DigestOf_digestShape
    by (simp add: CheckDigestPreimage_def checkDigestMeta_def gidx_def AsObject_def str_or_empty_def AsString_def)
qed

theorem stamped_digest_accepted_witness:
  "\<exists>d. CheckDigestPreimage sample_schemas (gput ''d'' (GString d) [(''a'', GString ''x'')]) ''a.schema.json'' = Inr ()"
proof -
  have h: "hashable (GObject [(''a'', GString ''x'')])" by (simp add: gmap_ok_def valid_text_ascii)
  let ?meta = "[(''digest_field'', GString ''d''), (''preimage_fields'', GArray [GString ''a''])]"
  have "ComputeDigestPreimage sample_schemas [(''a'', GString ''x'')] ''a.schema.json'' = Inr (DigestBytes (out (GObject [(''a'', GString ''x'')])))"
    by (simp add: ComputeDigestPreimage_def Schema_doc_def sample_schemas_def preimageCore_def node_simps arr_or_nil_def
        DigestOf_hashable [OF h])
  from stamped_digest_accepted [OF this, of "[(''x-digest'', GObject ?meta)]" ?meta "''d''"] show ?thesis
    by (auto simp: Schema_doc_def sample_schemas_def arr_or_nil_def gidx_def AsArray_def)
qed

text \<open>
  the permission walk accepts a document exactly when, in every object it visits, both permission
  fields, where present, are arrays of entries with a capability inside the Host cap and a non-empty scope.
\<close>

theorem permissions_walked_exact:
  "CheckPermissionsWalked v = Inr () \<longleftrightarrow>
     (\<forall>obj \<in> set (walked v). \<forall>key \<in> set permissionKeys. \<forall>raw. map_of obj key = Some raw \<longrightarrow>
        (\<exists>l. raw = GArray l \<and> (\<forall>entry \<in> set l. permission_granted entry)))"
  unfolding CheckPermissionsWalked_iff permissions_ok_def
  by (fastforce simp: list_all_iff split: option.splits)

definition sample_permissions :: gv where
  "sample_permissions = GObject [(''steps'', GArray [GObject [(''permissions'', GArray [GObject [(''capability'', GString ''skill_get''), (''scope'', GString ''s'')]])]])]"

theorem permissions_walked_exact_witness:
  "permission_granted (GObject [(''capability'', GString ''skill_get''), (''scope'', GString ''s'')])"
proof -
  have "CheckPermissionsWalked sample_permissions = Inr ()" by code_simp
  then have "\<forall>obj \<in> set (walked sample_permissions). \<forall>key \<in> set permissionKeys. \<forall>raw. map_of obj key = Some raw \<longrightarrow>
        (\<exists>l. raw = GArray l \<and> (\<forall>entry \<in> set l. permission_granted entry))"
    using permissions_walked_exact [of sample_permissions] by blast
  then show ?thesis by (simp add: sample_permissions_def permissionKeys_def)
qed

end
