(* ===== verification/State_Bundle.thy ===== *)
theory State_Bundle
  imports Schema
begin

text \<open>
  State-machine bundles (\<^verbatim>\<open>internal/skillevolution/validation/states.go\<close>): loading the transition tables of the
  authority documents and replaying event sequences against them. The results: a replay succeeds exactly
  along the legal runs of the machine, a terminal state is never left, the loaded edges are exactly the
  declared transitions, and the hand-written insertion sort behind the stable listings sorts.
\<close>

record Machine =
  mc_id :: string
  mc_initial :: "bool gmap"
  mc_states :: "bool gmap"
  mc_terminal :: "bool gmap"
  mc_edges :: "(bool gmap) gmap"
  mc_triggers :: "string gmap"

record Bundle =
  bd_path :: string
  bd_machines :: "Machine gmap"

record StateEvent =
  se_sequence :: int
  se_from :: string
  se_to :: string

text \<open>\<open>m[k]\<close> on a \<open>map[string]bool\<close>.\<close>

definition flag :: "bool gmap \<Rightarrow> string \<Rightarrow> bool" where
  "flag m k = (map_of m k = Some True)"

subsection \<open>Loading a machine\<close>

fun parseInitials :: "bool gmap \<Rightarrow> gv list \<Rightarrow> bool gmap" where
  "parseInitials m [] = m"
| "parseInitials m (raw # rest) =
     parseInitials (case AsString raw of None \<Rightarrow> m | Some state \<Rightarrow> gput state True m) rest"

fun parseStates :: "Machine \<Rightarrow> gv list \<Rightarrow> Machine res" where
  "parseStates m [] = Inr m"
| "parseStates m (raw # rest) =
     (case AsObject raw of
        None \<Rightarrow> Inl (verr CodeSchemaKeywordUnknown)
      | Some stateDoc \<Rightarrow>
          let name = str_or_empty (gidx stateDoc ''name'') in
          if name = [] then Inl (verr CodeSchemaRequiredFieldMissing)
          else
            let m' = m\<lparr>mc_states := gput name True (mc_states m)\<rparr> in
            parseStates (if gidx stateDoc ''terminal'' = GBool True
                         then m'\<lparr>mc_terminal := gput name True (mc_terminal m')\<rparr> else m') rest)"

definition trigger_key :: "string \<Rightarrow> string \<Rightarrow> string" where
  "trigger_key a b = a @ CHR 0x1F # b"

fun parseTransitions :: "Machine \<Rightarrow> gv list \<Rightarrow> Machine res" where
  "parseTransitions m [] = Inr m"
| "parseTransitions m (raw # rest) =
     (case AsObject raw of
        None \<Rightarrow> Inl (verr CodeSchemaKeywordUnknown)
      | Some transition \<Rightarrow>
          let src = str_or_empty (gidx transition ''from''); dst = str_or_empty (gidx transition ''to'');
              trigger = str_or_empty (gidx transition ''trigger'') in
          if src = [] \<or> dst = [] then Inl (verr CodeSchemaRequiredFieldMissing)
          else
            let targets = (case map_of (mc_edges m) src of None \<Rightarrow> [] | Some t \<Rightarrow> t) in
            parseTransitions (m\<lparr>mc_edges := gput src (gput dst True targets) (mc_edges m),
                                mc_triggers := gput (trigger_key src dst) trigger (mc_triggers m)\<rparr>) rest)"

definition parseMachine :: "gobj \<Rightarrow> Machine res" where
  "parseMachine doc =
     (let id = str_or_empty (gidx doc ''machine_id'') in
      if id = [] then Inl (verr CodeSchemaRequiredFieldMissing)
      else
        and_then (parseStates
          \<lparr>mc_id = id, mc_initial = parseInitials [] (arr_or_nil (gidx doc ''initial_states'')), mc_states = [], mc_terminal = [],
           mc_edges = [], mc_triggers = []\<rparr> (arr_or_nil (gidx doc ''states'')))
          (\<lambda>m. parseTransitions m (arr_or_nil (gidx doc ''transitions''))))"

fun loadMachines :: "Machine gmap \<Rightarrow> gv list \<Rightarrow> (Machine gmap) res" where
  "loadMachines ms [] = Inr ms"
| "loadMachines ms (rawMachine # rest) =
     (case AsObject rawMachine of
        None \<Rightarrow> Inl PlainError
      | Some machineDoc \<Rightarrow>
          (case parseMachine machineDoc of
             Inl _ \<Rightarrow> Inl PlainError
           | Inr machine \<Rightarrow> loadMachines (gput (mc_id machine) machine ms) rest))"

definition LoadStateBundle :: "env \<Rightarrow> string \<Rightarrow> Bundle res" where
  "LoadStateBundle ev path =
     (case readFile ev path of
        None \<Rightarrow> Inl PlainError
      | Some data \<Rightarrow>
          (case ParseJSONStrict data of
             Inl _ \<Rightarrow> Inl PlainError
           | Inr value \<Rightarrow>
               (case AsObject value of
                  None \<Rightarrow> Inl PlainError
                | Some obj \<Rightarrow>
                    and_then (loadMachines [] (arr_or_nil (gidx obj ''machines''))) (\<lambda>ms.
                    and_then (check (ms \<noteq> []) PlainError) (\<lambda>_. Inr \<lparr>bd_path = path, bd_machines = ms\<rparr>)))))"

subsection \<open>Stable listings\<close>

text \<open>The inner loop of \<open>sortStrings\<close>, from index \<open>j\<close> down, and its outer loop.\<close>

fun sift :: "string list \<Rightarrow> nat \<Rightarrow> string list" where
  "sift vals 0 = vals"
| "sift vals (Suc j) =
     (if vals ! Suc j < vals ! j
      then sift (vals[Suc j := vals ! j, j := vals ! Suc j]) j
      else vals)"

definition sortStrings :: "string list \<Rightarrow> string list" where
  "sortStrings vals = fold (\<lambda>i vs. sift vs i) [1..<length vals] vals"

definition MachineIDs :: "Bundle \<Rightarrow> string list" where
  "MachineIDs b = sortStrings (map fst (bd_machines b))"

definition Bundle_Machine :: "Bundle \<Rightarrow> string \<Rightarrow> Machine res" where
  "Bundle_Machine b mid = (case map_of (bd_machines b) mid of None \<Rightarrow> Inl PlainError | Some m \<Rightarrow> Inr m)"

definition InitialStates :: "Machine \<Rightarrow> string list" where
  "InitialStates m = sortStrings (map fst (mc_initial m))"

subsection \<open>Queries and replay\<close>

definition IsInitial :: "Machine \<Rightarrow> string \<Rightarrow> bool" where
  "IsInitial m state = flag (mc_initial m) state"

definition IsDefined :: "Machine \<Rightarrow> string \<Rightarrow> bool" where
  "IsDefined m state = flag (mc_states m) state"

definition IsTerminal :: "Machine \<Rightarrow> string \<Rightarrow> bool" where
  "IsTerminal m state = flag (mc_terminal m) state"

definition HasEdge :: "Machine \<Rightarrow> string \<Rightarrow> string \<Rightarrow> bool" where
  "HasEdge m src dst = (case map_of (mc_edges m) src of None \<Rightarrow> False | Some targets \<Rightarrow> flag targets dst)"

definition Trigger :: "Machine \<Rightarrow> string \<Rightarrow> string \<Rightarrow> string option" where
  "Trigger m src dst = map_of (mc_triggers m) (trigger_key src dst)"

fun check_sequence :: "int \<Rightarrow> StateEvent list \<Rightarrow> unit res" where
  "check_sequence i [] = Inr ()"
| "check_sequence i (e # es) =
     (if se_sequence e \<noteq> i + 1 then Inl (verr CodeIllegalStateTransition) else check_sequence (i + 1) es)"

fun replay_from :: "Machine \<Rightarrow> string \<Rightarrow> StateEvent list \<Rightarrow> string res" where
  "replay_from m current [] = Inr current"
| "replay_from m current (event # rest) =
     (if \<not> flag (mc_states m) (se_from event) then Inl (verr CodeUndefinedState)
      else if \<not> flag (mc_states m) (se_to event) then Inl (verr CodeUndefinedState)
      else if se_from event \<noteq> current then Inl (verr CodeIllegalStateTransition)
      else if flag (mc_terminal m) (se_from event) then Inl (verr CodeTerminalStateReopen)
      else if \<not> HasEdge m (se_from event) (se_to event) then Inl (verr CodeIllegalStateTransition)
      else replay_from m (se_to event) rest)"

definition Replay :: "Machine \<Rightarrow> string \<Rightarrow> StateEvent list \<Rightarrow> string res" where
  "Replay m initial events = and_then (check_sequence 0 events) (\<lambda>_. replay_from m initial events)"

abbreviation stateEventsSchemaVersion :: string where
  "stateEventsSchemaVersion \<equiv> ''rsih-skill-evolution.state-events.v1''"

definition stateEventDocKeys :: "string list" where
  "stateEventDocKeys = [''schema_version'', ''case_id'', ''bundle'', ''machine'', ''initial_state'', ''events'']"

definition parseEvent :: "gv \<Rightarrow> StateEvent res" where
  "parseEvent raw =
     (case AsObject raw of
        None \<Rightarrow> Inl (verr CodeIllegalStateTransition)
      | Some eventDoc \<Rightarrow>
          if length eventDoc \<noteq> 3 then Inl (verr CodeFixtureExpectationMismatch)
          else
            (case (instanceInt (gidx eventDoc ''event_sequence''), AsString (gidx eventDoc ''from_state''),
                   AsString (gidx eventDoc ''to_state'')) of
               (Some sequence, Some src, Some dst) \<Rightarrow> Inr \<lparr>se_sequence = sequence, se_from = src, se_to = dst\<rparr>
             | _ \<Rightarrow> Inl (verr CodeFixtureExpectationMismatch)))"

definition ReplayDocument :: "Machine \<Rightarrow> gobj \<Rightarrow> unit res" where
  "ReplayDocument m doc =
     and_then (for_each (\<lambda>key. check (key \<in> set stateEventDocKeys) (verr CodeFixtureExpectationMismatch)) (map fst doc)) (\<lambda>_.
     and_then (for_each (\<lambda>key. check (has_key doc key) (verr CodeFixtureExpectationMismatch)) stateEventDocKeys) (\<lambda>_.
     and_then (check (str_or_empty (gidx doc ''schema_version'') = stateEventsSchemaVersion) (verr CodeFixtureExpectationMismatch)) (\<lambda>_.
     let initialState = str_or_empty (gidx doc ''initial_state'') in
     and_then (check (flag (mc_initial m) initialState) (verr CodeIllegalStateTransition)) (\<lambda>_.
     (case AsArray (gidx doc ''events'') of
        None \<Rightarrow> Inl (verr CodeFixtureExpectationMismatch)
      | Some rawEvents \<Rightarrow>
          and_then (traverse parseEvent rawEvents) (\<lambda>events.
          and_then (Replay m initialState events) (\<lambda>_. Inr ())))))))"

subsection \<open>The insertion sort\<close>

lemma sift_prefix:
  "sorted ys \<Longrightarrow> \<exists>ws. sift (ys @ x # zs) (length ys) = ws @ zs \<and> mset ws = add_mset x (mset ys) \<and> sorted ws"
proof (induction ys arbitrary: zs rule: rev_induct)
  case Nil
  then show ?case by (intro exI [of _ "[x]"]) simp
next
  case (snoc y ys)
  then have sorted: "sorted ys" "\<forall>a \<in> set ys. a \<le> y" by (auto simp: sorted_append)
  show ?case
  proof (cases "x < y")
    case True
    have "sift ((ys @ [y]) @ x # zs) (length (ys @ [y])) = sift (ys @ x # y # zs) (length ys)"
      using True by (simp add: nth_append list_update_append)
    moreover obtain ws where ws: "sift (ys @ x # y # zs) (length ys) = ws @ y # zs" "mset ws = add_mset x (mset ys)" "sorted ws"
      using snoc.IH [OF sorted(1), of "y # zs"] by blast
    moreover have "set ws = insert x (set ys)" using ws(2) by (metis set_mset_add_mset_insert set_mset_mset)
    then have "sorted (ws @ [y])" using ws(3) True sorted(2) by (auto simp: sorted_append)
    ultimately show ?thesis by (intro exI [of _ "ws @ [y]"]) simp
  next
    case False
    then have "sift ((ys @ [y]) @ x # zs) (length (ys @ [y])) = (ys @ [y, x]) @ zs"
      by (simp add: nth_append)
    with False sorted show ?thesis
      by (intro exI [of _ "ys @ [y, x]"]) (auto simp: sorted_append)
  qed
qed

lemma sortStrings_prefix:
  "n \<le> length vals \<Longrightarrow> \<exists>ws. fold (\<lambda>i vs. sift vs i) [1..<n] vals = ws @ drop n vals \<and> mset ws = mset (take n vals) \<and> sorted ws"
proof (induction n)
  case (Suc n)
  show ?case
  proof (cases "n = 0")
    case True
    with Suc.prems show ?thesis
      by (intro exI [of _ "take 1 vals"]) (cases vals; simp)
  next
    case False
    from Suc obtain ws where ws: "fold (\<lambda>i vs. sift vs i) [1..<n] vals = ws @ drop n vals"
        "mset ws = mset (take n vals)" "sorted ws" by auto
    have len: "length ws = n" using ws(2) Suc.prems by (metis length_take min.absorb2 size_mset Suc_leD)
    have split: "drop n vals = vals ! n # drop (Suc n) vals" using Suc.prems by (simp add: Cons_nth_drop_Suc)
    obtain vs where vs: "sift (ws @ vals ! n # drop (Suc n) vals) (length ws) = vs @ drop (Suc n) vals"
        "mset vs = add_mset (vals ! n) (mset ws)" "sorted vs"
      using sift_prefix [OF ws(3)] by blast
    have "fold (\<lambda>i vs. sift vs i) [1..<Suc n] vals = vs @ drop (Suc n) vals"
      using False ws(1) vs(1) len split by simp
    moreover have "mset vs = mset (take (Suc n) vals)"
      using vs(2) ws(2) Suc.prems by (simp add: take_Suc_conv_app_nth)
    ultimately show ?thesis using vs(3) by blast
  qed
qed simp

lemma sortStrings_sort: "sortStrings vals = sort vals"
proof -
  obtain ws where ws: "sortStrings vals = ws" "mset ws = mset vals" "sorted ws"
    using sortStrings_prefix [of "length vals" vals] by (auto simp: sortStrings_def)
  then show ?thesis by (metis properties_for_sort)
qed

subsection \<open>Legal runs\<close>

text \<open>
  The machine as a transition system: a legal step leaves a defined, non-terminal state along a declared
  edge to a defined state; \<open>legal_run m a es b\<close> is a run from \<open>a\<close> to \<open>b\<close> along the events \<open>es\<close>.
\<close>

inductive legal_step :: "Machine \<Rightarrow> string \<Rightarrow> string \<Rightarrow> bool" for m where
  step: "IsDefined m a \<Longrightarrow> \<not> IsTerminal m a \<Longrightarrow> HasEdge m a b \<Longrightarrow> IsDefined m b \<Longrightarrow> legal_step m a b"

inductive legal_run :: "Machine \<Rightarrow> string \<Rightarrow> StateEvent list \<Rightarrow> string \<Rightarrow> bool" for m where
  stop: "legal_run m a [] a"
| move: "legal_step m a b \<Longrightarrow> legal_run m b es c \<Longrightarrow> se_from e = a \<Longrightarrow> se_to e = b \<Longrightarrow> legal_run m a (e # es) c"

inductive_simps legal_step_simps: "legal_step m a b"
inductive_simps legal_run_simps [simp]: "legal_run m a [] b" "legal_run m a (e # es) b"

lemma replay_from_run: "replay_from m a es = Inr b \<longleftrightarrow> legal_run m a es b"
  by (induction es arbitrary: a) (auto simp: legal_step_simps IsDefined_def IsTerminal_def)

lemma check_sequence_iff:
  "check_sequence i es = Inr u \<longleftrightarrow> map se_sequence es = map (\<lambda>k. i + 1 + int k) [0..<length es]"
proof (induction es arbitrary: i)
  case (Cons e es)
  have "map (\<lambda>k. i + 1 + int k) [0..<Suc (length es)] = (i + 1) # map (\<lambda>k. (i + 1) + 1 + int k) [0..<length es]"
    by (simp add: upt_conv_Cons map_Suc_upt [symmetric] del: upt_Suc)
  with Cons.IH [of "i + 1"] show ?case by simp
qed simp

lemma legal_run_states:
  assumes "legal_run m a es b" "i < length es"
  shows "legal_step m (se_from (es ! i)) (se_to (es ! i))"
    "se_from (es ! i) = (if i = 0 then a else se_to (es ! (i - 1)))"
    "b = se_to (last es)"
  using assms
proof (induction a es b arbitrary: i rule: legal_run.induct)
  case (move a b es c e)
  {
    case 1
    with move show ?case by (cases i) auto
  next
    case 2
    with move show ?case by (cases i) (auto split: nat.splits if_splits simp: nth_Cons')
  next
    case 3
    from move(2,4) move.IH(3) [of 0] show ?case by (cases es) auto
  }
qed simp_all

subsection \<open>Loading, characterised\<close>

lemma flag_Nil [simp]: "\<not> flag [] x"
  by (simp add: flag_def)

lemma gmap_flag_gput [simp]: "flag (gput k True m) x \<longleftrightarrow> x = k \<or> flag m x"
  by (auto simp: flag_def)

definition declared_edge :: "gv list \<Rightarrow> string \<Rightarrow> string \<Rightarrow> bool" where
  "declared_edge raws a b = list_ex (\<lambda>raw. str_or_empty (gidx (obj_or_nil raw) ''from'') = a \<and> str_or_empty (gidx (obj_or_nil raw) ''to'') = b) raws"

lemma parseTransitions_edges:
  "parseTransitions m raws = Inr m' \<Longrightarrow>
     (HasEdge m' a b \<longleftrightarrow> HasEdge m a b \<or> declared_edge raws a b) \<and>
     mc_id m' = mc_id m \<and> mc_initial m' = mc_initial m \<and> mc_states m' = mc_states m \<and> mc_terminal m' = mc_terminal m"
proof (induction m raws rule: parseTransitions.induct)
  case (2 m raw rest)
  obtain t where t: "AsObject raw = Some t" "\<not> (str_or_empty (gidx t ''from'') = [] \<or> str_or_empty (gidx t ''to'') = [])"
    using "2.prems" by (auto split: option.splits if_splits simp: Let_def)
  have obj: "obj_or_nil raw = t" using t(1) by (simp add: obj_or_nil_def)
  show ?case
    using 2 t
    by (auto simp: Let_def declared_edge_def obj HasEdge_def split: option.splits if_splits)
qed (simp add: declared_edge_def)

definition declared_state :: "gv list \<Rightarrow> string \<Rightarrow> bool" where
  "declared_state raws a = list_ex (\<lambda>raw. str_or_empty (gidx (obj_or_nil raw) ''name'') = a) raws"

definition declared_terminal :: "gv list \<Rightarrow> string \<Rightarrow> bool" where
  "declared_terminal raws a = list_ex (\<lambda>raw. str_or_empty (gidx (obj_or_nil raw) ''name'') = a \<and>
     gidx (obj_or_nil raw) ''terminal'' = GBool True) raws"

lemma parseStates_states:
  "parseStates m raws = Inr m' \<Longrightarrow>
     (flag (mc_states m') a \<longleftrightarrow> flag (mc_states m) a \<or> declared_state raws a) \<and>
     (flag (mc_terminal m') a \<longleftrightarrow> flag (mc_terminal m) a \<or> declared_terminal raws a) \<and>
     mc_id m' = mc_id m \<and> mc_initial m' = mc_initial m \<and> mc_edges m' = mc_edges m"
proof (induction m raws rule: parseStates.induct)
  case (2 m raw rest)
  obtain t where t: "AsObject raw = Some t" "str_or_empty (gidx t ''name'') \<noteq> []"
    using "2.prems" by (auto split: option.splits if_splits simp: Let_def)
  have obj: "obj_or_nil raw = t" using t(1) by (simp add: obj_or_nil_def)
  show ?case
    using 2 t
    by (auto simp: Let_def declared_state_def declared_terminal_def obj split: option.splits if_splits)
qed (simp add: declared_state_def declared_terminal_def)

lemma parseInitials_flag: "flag (parseInitials m raws) a \<longleftrightarrow> flag m a \<or> GString a \<in> set raws"
  by (induction m raws rule: parseInitials.induct) (auto simp: AsString_def split: gv.splits)

lemma loadMachines_inv:
  "loadMachines ms raws = Inr ms' \<Longrightarrow> gmap_ok ms \<Longrightarrow> (\<forall>p \<in> set ms. mc_id (snd p) = fst p) \<Longrightarrow>
   gmap_ok ms' \<and> (\<forall>p \<in> set ms'. mc_id (snd p) = fst p)"
proof (induction ms raws rule: loadMachines.induct)
  case (2 ms raw rest)
  have put: "p \<in> set (gput k v m) \<Longrightarrow> p = (k, v) \<or> p \<in> set m" for p :: "string \<times> Machine" and k v m
    by (induction m) (auto split: if_splits)
  from 2 show ?case by (fastforce split: option.splits sum.splits dest: put)
qed simp

subsection \<open>Properties\<close>

text \<open>
  C27: a replay returns a final state exactly when the events are numbered 1 to n and form a legal run of
  the machine from the initial to that state.
\<close>

theorem Replay_exact:
  "Replay m a es = Inr b \<longleftrightarrow> map se_sequence es = map (\<lambda>k. 1 + int k) [0..<length es] \<and> legal_run m a es b"
  by (auto simp: Replay_def res_simps check_sequence_iff replay_from_run)

text \<open>
  a terminal state is never left: if a replay has reached a terminal state, then every further event
  out of it, whatever its (defined) target and whatever edges the table declares, makes the replay fail
  with \<open>TERMINAL_STATE_REOPEN\<close>.
\<close>

theorem Replay_terminal_absorbing:
  assumes "Replay m a es = Inr b" "IsTerminal m b" "IsDefined m b" "IsDefined m c"
    "e = \<lparr>se_sequence = int (length es) + 1, se_from = b, se_to = c\<rparr>"
  shows "Replay m a (es @ [e]) = Inl (verr CodeTerminalStateReopen)"
proof -
  from assms(1) have run: "replay_from m a es = Inr b" and seq: "check_sequence 0 es = Inr ()"
    by (simp_all add: Replay_def res_simps)
  have "replay_from m a (es @ [e]) = Inl (verr CodeTerminalStateReopen)"
  proof -
    have "se_from e = b" "se_to e = c" using assms(5) by simp_all
    with run assms(2-4) show ?thesis
      by (induction es arbitrary: a) (auto simp: IsDefined_def IsTerminal_def split: if_splits)
  qed
  moreover have "check_sequence 0 (es @ [e]) = Inr ()"
    using seq assms(5) by (simp add: check_sequence_iff)
  ultimately show ?thesis by (simp add: Replay_def)
qed

definition sample_machine :: gobj where
  "sample_machine = [(''machine_id'', GString ''m''), (''initial_states'', GArray [GString ''open'']),
     (''states'', GArray [GObject [(''name'', GString ''open''), (''terminal'', GBool False)],
                          GObject [(''name'', GString ''done''), (''terminal'', GBool True)]]),
     (''transitions'', GArray [GObject [(''from'', GString ''open''), (''to'', GString ''done''), (''trigger'', GString ''t'')]])]"

definition loaded_machine :: Machine where
  "loaded_machine = \<lparr>mc_id = ''m'', mc_initial = [(''open'', True)], mc_states = [(''open'', True), (''done'', True)],
     mc_terminal = [(''done'', True)], mc_edges = [(''open'', [(''done'', True)])],
     mc_triggers = [(trigger_key ''open'' ''done'', ''t'')]\<rparr>"

lemma sample_machine_loads: "parseMachine sample_machine = Inr loaded_machine"
  by (simp add: parseMachine_def sample_machine_def loaded_machine_def node_simps arr_or_nil_def Let_def)

theorem Replay_terminal_absorbing_witness:
  "Replay loaded_machine ''open'' [\<lparr>se_sequence = 1, se_from = ''open'', se_to = ''done''\<rparr>,
      \<lparr>se_sequence = 2, se_from = ''done'', se_to = ''open''\<rparr>] = Inl (verr CodeTerminalStateReopen)"
proof -
  have "Replay loaded_machine ''open'' [\<lparr>se_sequence = 1, se_from = ''open'', se_to = ''done''\<rparr>] = Inr ''done''"
    "IsTerminal loaded_machine ''done''" "IsDefined loaded_machine ''done''" "IsDefined loaded_machine ''open''"
    by (simp_all add: Replay_def loaded_machine_def flag_def HasEdge_def IsTerminal_def IsDefined_def)
  from Replay_terminal_absorbing [OF this] show ?thesis by simp
qed

text \<open>
  the loaded machine is the declared table: its edges, states, terminal states and initial states are
  exactly those of the document.
\<close>

theorem parseMachine_exact:
  assumes "parseMachine doc = Inr m"
  shows "(HasEdge m a b \<longleftrightarrow> declared_edge (arr_or_nil (gidx doc ''transitions'')) a b) \<and>
    (IsDefined m a \<longleftrightarrow> declared_state (arr_or_nil (gidx doc ''states'')) a) \<and>
    (IsTerminal m a \<longleftrightarrow> declared_terminal (arr_or_nil (gidx doc ''states'')) a) \<and>
    (IsInitial m a \<longleftrightarrow> GString a \<in> set (arr_or_nil (gidx doc ''initial_states''))) \<and>
    mc_id m = str_or_empty (gidx doc ''machine_id'') \<and> mc_id m \<noteq> []"
proof -
  let ?init = "parseInitials [] (arr_or_nil (gidx doc ''initial_states''))"
  let ?m0 = "\<lparr>mc_id = str_or_empty (gidx doc ''machine_id''), mc_initial = ?init, mc_states = [], mc_terminal = [],
      mc_edges = [], mc_triggers = []\<rparr>"
  from assms obtain m1 where m: "parseStates ?m0 (arr_or_nil (gidx doc ''states'')) = Inr m1"
      "parseTransitions m1 (arr_or_nil (gidx doc ''transitions'')) = Inr m" "str_or_empty (gidx doc ''machine_id'') \<noteq> []"
    by (auto simp: parseMachine_def Let_def res_simps split: if_splits)
  note 1 = parseStates_states [OF m(1), of a] and 2 = parseTransitions_edges [OF m(2), of a b]
  have "HasEdge m1 a b \<longleftrightarrow> False" using 1 by (simp add: HasEdge_def)
  with 1 2 m(3) show ?thesis by (simp add: IsDefined_def IsTerminal_def IsInitial_def parseInitials_flag)
qed

theorem parseMachine_exact_witness:
  "HasEdge loaded_machine ''open'' ''done'' \<longleftrightarrow> declared_edge (arr_or_nil (gidx sample_machine ''transitions'')) ''open'' ''done''"
  using parseMachine_exact [OF sample_machine_loads, of "''open''" "''done''"] by blast

text \<open>
  the hand-written insertion sort of the stable listings is a sort (any input, duplicates included),
  so the machine ids of a bundle come out sorted whatever the order of map iteration was.
\<close>

theorem sortStrings_correct:
  "sorted (sortStrings vals) \<and> mset (sortStrings vals) = mset vals \<and>
   sorted (MachineIDs bd) \<and> mset (MachineIDs bd) = image_mset fst (mset (bd_machines bd))"
  by (simp add: sortStrings_sort MachineIDs_def)

end
