(* ===== verification/Checked_Arith.thy ===== *)
theory Checked_Arith
  imports Go_Prelude
begin

text \<open>
  The checked int64 arithmetic of the decision path (\<^verbatim>\<open>evaluator/arithmetic.go\<close> and the same addition in
  \<^verbatim>\<open>replay/aggregation.go\<close>), on 64-bit words read as two's complement. The results: addition is exact or
  refused, multiplication is exact or refused for products below 3 * 2^63, and in the window from there to
  2^65 it hands out a wrapped negative number as if it were the product.
\<close>

unbundle bit_operations_syntax

abbreviation (input) lt64 :: "int64 \<Rightarrow> int64 \<Rightarrow> bool" where
  "lt64 a b \<equiv> sint a < sint b"

definition checkedAdd :: "int64 \<Rightarrow> int64 \<Rightarrow> int64 res" where
  "checkedAdd a b =
     (let c = a + b in
      if (lt64 0 b \<and> lt64 c a) \<or> (lt64 b 0 \<and> lt64 a c) then Inl OverflowError else Inr c)"

text \<open>\<open>bits.Mul64\<close>: the high and the low word of the 128-bit product.\<close>

definition Mul64 :: "int64 \<Rightarrow> int64 \<Rightarrow> int64 \<times> int64" where
  "Mul64 a b = (word_of_nat (unat a * unat b div 2 ^ 64), a * b)"

definition checkedMul :: "int64 \<Rightarrow> int64 \<Rightarrow> int64 res" where
  "checkedMul a b =
     (if lt64 a 0 \<or> lt64 b 0 then Inl OverflowError
      else if a = 0 \<or> b = 0 then Inr 0
      else
        let (hi, lo) = Mul64 a b in
        if hi \<noteq> drop_bit 63 lo then Inl OverflowError else Inr lo)"

definition crossAtLeast :: "int64 \<Rightarrow> int64 \<Rightarrow> int64 \<Rightarrow> int64 \<Rightarrow> bool res" where
  "crossAtLeast a b c d =
     (if lt64 a 0 \<or> lt64 b 0 \<or> lt64 c 0 \<or> lt64 d 1 then Inl OverflowError
      else
        and_then (checkedMul a d) (\<lambda>left.
        and_then (checkedMul b c) (\<lambda>right. Inr (\<not> lt64 left right))))"

definition compareRatios :: "int64 \<Rightarrow> int64 \<Rightarrow> int64 \<Rightarrow> int64 \<Rightarrow> int res" where
  "compareRatios aNum aDen bNum bDen =
     (if lt64 aNum 0 \<or> lt64 bNum 0 \<or> \<not> lt64 0 aDen \<or> \<not> lt64 0 bDen then Inl OverflowError
      else
        and_then (checkedMul aNum bDen) (\<lambda>left.
        and_then (checkedMul bNum aDen) (\<lambda>right.
          Inr (if lt64 left right then - 1 else if lt64 right left then 1 else 0))))"

subsection \<open>Reading words\<close>

lemma sint_range: "- (2 ^ 63) \<le> sint (a :: int64)" "sint (a :: int64) < 2 ^ 63"
  using sint_ge [of a] sint_lt [of a] by simp_all

lemma mod_by_quotient: "x = y + q * m \<Longrightarrow> 0 \<le> y \<Longrightarrow> y < m \<Longrightarrow> x mod m = (y :: int)"
  by simp

lemma wrap64:
  assumes "- (2 ^ 64) \<le> k" "k < 2 ^ 64"
  shows "signed_take_bit 63 (k :: int) =
    (if k < - (2 ^ 63) then k + 2 ^ 64 else if k < 2 ^ 63 then k else k - 2 ^ 64)"
proof -
  have "(k + 2 ^ 63) mod 2 ^ 64 = k + 3 * 2 ^ 63" if "k < - (2 ^ 63)"
    using assms that by (intro mod_by_quotient [where q = "-1"]) simp_all
  moreover have "(k + 2 ^ 63) mod 2 ^ 64 = k + 2 ^ 63" if "- (2 ^ 63) \<le> k" "k < 2 ^ 63"
    using assms that by (intro mod_by_quotient [where q = 0]) simp_all
  moreover have "(k + 2 ^ 63) mod 2 ^ 64 = k - 2 ^ 63" if "2 ^ 63 \<le> k"
    using assms that by (intro mod_by_quotient [where q = 1]) simp_all
  ultimately show ?thesis by (auto simp: signed_take_bit_eq_take_bit_shift take_bit_eq_mod not_less)
qed

lemma sint_add_wrap:
  fixes a b :: int64
  shows "sint (a + b) = (let k = sint a + sint b in
    if k < - (2 ^ 63) then k + 2 ^ 64 else if k < 2 ^ 63 then k else k - 2 ^ 64)"
  using wrap64 [of "sint a + sint b"] sint_range [of a] sint_range [of b] by (simp add: sint_word_add Let_def)

lemma sint_uint64: "sint (a :: int64) = (if uint a < 2 ^ 63 then uint a else uint a - 2 ^ 64)"
proof -
  have u: "0 \<le> uint a" "uint a < 2 ^ 64" using uint_lt2p [of a] by simp_all
  have "sint a = signed_take_bit 63 (uint a)" by (simp add: sint_uint)
  also have "\<dots> = (if uint a < 2 ^ 63 then uint a else uint a - 2 ^ 64)"
    using u by (auto simp: wrap64 order.trans [OF _ uint_ge_0] dest: order.strict_trans1 [OF uint_ge_0])
  finally show ?thesis .
qed

lemma unat_nonneg: "0 \<le> sint (a :: int64) \<Longrightarrow> int (unat a) = sint a"
  using uint_lt2p [of a] by (simp add: sint_uint64 split: if_splits)

lemma checkedAdd_spec:
  "checkedAdd a b =
     (if - (2 ^ 63) \<le> sint a + sint b \<and> sint a + sint b < 2 ^ 63 then Inr (a + b) else Inl OverflowError)"
  using sint_range [of a] sint_range [of b] by (auto simp: checkedAdd_def sint_add_wrap Let_def)

lemma checkedAdd_Inr: "checkedAdd a b = Inr c \<longleftrightarrow> sint c = sint a + sint b"
proof
  assume "checkedAdd a b = Inr c"
  then show "sint c = sint a + sint b"
    by (auto simp: checkedAdd_spec sint_add_wrap Let_def split: if_splits)
next
  assume c: "sint c = sint a + sint b"
  then have r: "- (2 ^ 63) \<le> sint a + sint b \<and> sint a + sint b < 2 ^ 63" using sint_range [of c] by simp
  then have "sint (a + b) = sint c" by (simp add: sint_add_wrap Let_def c)
  then have "a + b = c" by (rule signed_word_eqI)
  with r show "checkedAdd a b = Inr c" by (simp add: checkedAdd_spec)
qed

text \<open>
  The product split in the two words \<open>bits.Mul64\<close> returns, and the sign test on them.
\<close>

lemma unat_hi:
  assumes "0 \<le> sint a" "0 \<le> sint b"
  shows "int (unat (fst (Mul64 a b))) = sint a * sint b div 2 ^ 64"
    "int (unat (snd (Mul64 a b))) = sint a * sint b mod 2 ^ 64"
proof -
  let ?p = "unat a * unat b"
  have p: "int ?p = sint a * sint b" using unat_nonneg assms by simp
  have "sint a * sint b < 2 ^ 63 * 2 ^ 63"
    using sint_range [of a] sint_range [of b] assms by (intro mult_strict_mono') auto
  with p have "int ?p < int (2 ^ 63 * 2 ^ 63)" by simp
  then have "?p < 2 ^ 63 * 2 ^ 63" by (simp only: of_nat_less_iff)
  then have "?p div 2 ^ 64 < 2 ^ 64" by (intro less_mult_imp_div_less) simp
  then have "unat (word_of_nat (?p div 2 ^ 64) :: int64) = ?p div 2 ^ 64"
    by (simp add: unat_of_nat take_bit_eq_mod)
  then show "int (unat (fst (Mul64 a b))) = sint a * sint b div 2 ^ 64"
    using p by (simp add: Mul64_def zdiv_int)
  have "unat (a * b) = ?p mod 2 ^ 64" by (simp add: unat_word_ariths)
  then show "int (unat (snd (Mul64 a b))) = sint a * sint b mod 2 ^ 64"
    using p by (simp add: Mul64_def zmod_int)
qed

lemma quotient_test:
  fixes p :: int
  assumes "0 \<le> p"
  shows "p div 2 ^ 64 = (p mod 2 ^ 64) div 2 ^ 63 \<longleftrightarrow> p < 2 ^ 63 \<or> (3 * 2 ^ 63 \<le> p \<and> p < 2 ^ 65)"
proof -
  define q r where "q = p div 2 ^ 64" and "r = p mod 2 ^ 64"
  have r: "0 \<le> r" "r < 2 ^ 64" by (simp_all add: r_def)
  have p: "p = q * 2 ^ 64 + r" by (simp add: q_def r_def)
  have q: "0 \<le> q" using assms by (simp add: q_def pos_imp_zdiv_nonneg_iff)
  consider "r < 2 ^ 63" "r div 2 ^ 63 = 0" | "2 ^ 63 \<le> r" "r div 2 ^ 63 = 1"
  proof (cases "r < 2 ^ 63")
    case True
    then show ?thesis using r(1) that(1) by (simp add: div_pos_pos_trivial)
  next
    case False
    then have "r div 2 ^ 63 = 1" using r(2) by (intro int_div_pos_eq [of _ _ _ "r - 2 ^ 63"]) simp_all
    then show ?thesis using False that(2) by simp
  qed
  then have cases: "(q = r div 2 ^ 63) \<longleftrightarrow> (r < 2 ^ 63 \<and> q = 0) \<or> (2 ^ 63 \<le> r \<and> q = 1)" by cases auto
  consider "q = 0" | "q = 1" | "2 \<le> q" using q by linarith
  then have "(q = r div 2 ^ 63) \<longleftrightarrow> p < 2 ^ 63 \<or> (3 * 2 ^ 63 \<le> p \<and> p < 2 ^ 65)"
  proof cases
    case 1
    with cases p r show ?thesis by simp
  next
    case 2
    with cases p r show ?thesis by auto
  next
    case 3
    then have "2 ^ 65 \<le> p" using p r by simp
    with 3 cases show ?thesis by simp
  qed
  then show ?thesis by (simp add: q_def r_def)
qed

lemma checkedMul_spec:
  assumes "0 \<le> sint a" "0 \<le> sint b"
  shows "checkedMul a b =
    (if sint a * sint b < 2 ^ 63 \<or> (3 * 2 ^ 63 \<le> sint a * sint b \<and> sint a * sint b < 2 ^ 65) then Inr (a * b)
     else Inl OverflowError)"
proof -
  let ?p = "sint a * sint b"
  obtain hi lo where hl: "Mul64 a b = (hi, lo)" by fastforce
  then have lo: "lo = a * b" by (simp add: Mul64_def)
  have p: "0 \<le> ?p" using assms by simp
  have u: "int (unat hi) = ?p div 2 ^ 64" "int (unat lo) = ?p mod 2 ^ 64" using unat_hi [OF assms] hl by simp_all
  have "unat (drop_bit 63 lo) = unat lo div 2 ^ 63" by (subst unat_drop_bit_eq) (rule drop_bit_eq_div)
  then have "int (unat (drop_bit 63 lo)) = (?p mod 2 ^ 64) div 2 ^ 63" using u(2) by (simp add: zdiv_int)
  then have "hi = drop_bit 63 lo \<longleftrightarrow> ?p div 2 ^ 64 = (?p mod 2 ^ 64) div 2 ^ 63"
    using u(1) by (metis of_nat_eq_iff [where 'a = int] word_unat_eq_iff)
  then have "hi = drop_bit 63 lo \<longleftrightarrow> ?p < 2 ^ 63 \<or> (3 * 2 ^ 63 \<le> ?p \<and> ?p < 2 ^ 65)"
    using quotient_test [OF p] by simp
  then show ?thesis using assms hl lo by (auto simp: checkedMul_def)
qed

lemma sint_mult_small: "0 \<le> sint a \<Longrightarrow> 0 \<le> sint b \<Longrightarrow> sint a * sint b < 2 ^ 63 \<Longrightarrow> sint (a * b :: int64) = sint a * sint b"
proof -
  assume "0 \<le> sint a" "0 \<le> sint b" "sint a * sint b < 2 ^ 63"
  moreover from this have "0 \<le> sint a * sint b" by (intro mult_nonneg_nonneg)
  then have "- (2 ^ 63) \<le> sint a * sint b" by (rule order.trans [rotated]) simp
  ultimately have "signed_take_bit 63 (sint a * sint b) = sint a * sint b"
    using signed_take_bit_int_eq_self_iff [of 63 "sint a * sint b"] by blast
  then show ?thesis by (simp add: sint_word_mult)
qed

lemma sint_mult_window:
  assumes "3 * 2 ^ 63 \<le> sint a * sint b" "sint a * sint b < 2 ^ 65"
  shows "sint (a * b :: int64) = sint a * sint b - 2 ^ 65"
proof -
  have "signed_take_bit 63 (sint a * sint b) = signed_take_bit 63 (sint a * sint b - 2 ^ 65)"
    using mod_mult_self1 [of "sint a * sint b + 2 ^ 63" "- 2" "2 ^ 64 :: int"]
    by (simp add: signed_take_bit_eq_take_bit_shift take_bit_eq_mod algebra_simps)
  also have "\<dots> = sint a * sint b - 2 ^ 65" using assms by (subst wrap64) auto
  finally show ?thesis by (simp add: sint_word_mult)
qed

text \<open>
  Operands for which the products of the comparators stay below the window: this is where the sign test
  is sound, and there a result is the exact product.
\<close>

definition product_safe :: "int64 \<Rightarrow> int64 \<Rightarrow> bool" where
  "product_safe a b = (0 \<le> sint a \<and> 0 \<le> sint b \<and> sint a * sint b < 3 * 2 ^ 63)"

lemma checkedMul_safe:
  assumes "product_safe a b"
  shows "checkedMul a b = (if sint a * sint b < 2 ^ 63 then Inr (a * b) else Inl OverflowError)"
    and "checkedMul a b = Inr c \<Longrightarrow> sint c = sint a * sint b"
  using assms by (auto simp: product_safe_def checkedMul_spec sint_mult_small split: if_splits)

subsection \<open>Properties\<close>

text \<open>
  checked addition returns exactly the mathematical sum whenever that fits int64 and otherwise fails; it
  never wraps.
\<close>

theorem checkedAdd_exact:
  "case checkedAdd a b of
     Inr c \<Rightarrow> sint c = sint a + sint b
   | Inl e \<Rightarrow> e = OverflowError \<and> (sint a + sint b < - (2 ^ 63) \<or> 2 ^ 63 \<le> sint a + sint b)"
proof (cases "checkedAdd a b")
  case (Inl e)
  then show ?thesis by (auto simp: checkedAdd_spec split: if_splits)
next
  case (Inr c)
  then show ?thesis using checkedAdd_Inr [of a b c] by simp
qed

text \<open>
  checked multiplication on non-negative operands, completely: the exact product below 2^63, a failure
  from there up to 3 * 2^63 and from 2^65 on, but in the window between 3 * 2^63 and 2^65 no failure: it
  returns the product minus 2^65, a negative number.
\<close>

theorem checkedMul_complete:
  assumes "0 \<le> sint a" "0 \<le> sint b"
  shows "case checkedMul a b of
      Inr c \<Rightarrow> (if sint a * sint b < 2 ^ 63 then sint c = sint a * sint b
                else 3 * 2 ^ 63 \<le> sint a * sint b \<and> sint c = sint a * sint b - 2 ^ 65 \<and> sint c < 0)
    | Inl e \<Rightarrow> e = OverflowError \<and> 2 ^ 63 \<le> sint a * sint b \<and> \<not> (3 * 2 ^ 63 \<le> sint a * sint b \<and> sint a * sint b < 2 ^ 65)"
  using assms by (auto simp: checkedMul_spec sint_mult_small sint_mult_window)

theorem checkedMul_complete_witness:
  "\<exists>c. checkedMul (2 ^ 62) 6 = Inr c \<and> sint c = - (2 ^ 63)"
proof -
  have ops: "sint (2 ^ 62 :: int64) = 2 ^ 62" "sint (6 :: int64) = 6" by simp_all
  have "0 \<le> sint (2 ^ 62 :: int64)" "0 \<le> sint (6 :: int64)" by simp_all
  from checkedMul_complete [OF this] show ?thesis unfolding ops by (auto split: sum.splits)
qed

end
