(* ===== verification/Replay_Model.thy ===== *)
theory Replay_Model
  imports Gates Reason_Policy Checked_Arith
begin

text \<open>
  The data of the paired-replay canonicaliser (\<^verbatim>\<open>internal/skillevolution/replay\<close>: \<^verbatim>\<open>replay.go\<close>, \<^verbatim>\<open>plan.go\<close>,
  \<^verbatim>\<open>request.go\<close>, \<^verbatim>\<open>result.go\<close>): the frozen request, the family plan, observed runs, run records, the utility
  vectors, fixture outcomes and the result document. A nil map is None where the code tests for nil.
  The service record holds the schema set and the reason registry it was wired to; as validation only
  fills the document cache, its verdict is read off and the cache update dropped.
\<close>

subsection \<open>Codes, sides, domains\<close>

abbreviation SchemaReplayRequest :: string where "SchemaReplayRequest \<equiv> ''replay-request.schema.json''"
abbreviation SchemaReplayResult :: string where "SchemaReplayResult \<equiv> ''replay-result.schema.json''"
abbreviation ReasonReplayRequestInvalid :: string where "ReasonReplayRequestInvalid \<equiv> ''REPLAY_REQUEST_INVALID''"
abbreviation ReasonReplayResultInvalid :: string where "ReasonReplayResultInvalid \<equiv> ''REPLAY_RESULT_INVALID''"
abbreviation ReasonMissingFamily :: string where "ReasonMissingFamily \<equiv> ''MISSING_FAMILY''"
abbreviation ReasonReplayNondeterministic :: string where "ReasonReplayNondeterministic \<equiv> ''REPLAY_NONDETERMINISTIC''"
abbreviation ReasonReplayInconclusive :: string where "ReasonReplayInconclusive \<equiv> ''REPLAY_INCONCLUSIVE''"
abbreviation ReasonUtilityArithmeticOverflow :: string where
  "ReasonUtilityArithmeticOverflow \<equiv> ''UTILITY_ARITHMETIC_OVERFLOW''"
abbreviation ReasonDigestMismatch :: string where "ReasonDigestMismatch \<equiv> ''DIGEST_MISMATCH''"
abbreviation ReasonRefMismatch :: string where "ReasonRefMismatch \<equiv> ''REF_MISMATCH''"
abbreviation StatusSucceeded :: string where "StatusSucceeded \<equiv> ''succeeded''"
abbreviation StatusFailed :: string where "StatusFailed \<equiv> ''failed''"
abbreviation StatusInconclusive :: string where "StatusInconclusive \<equiv> ''inconclusive''"
abbreviation SideBaseline :: string where "SideBaseline \<equiv> ''baseline''"
abbreviation SideCandidate :: string where "SideCandidate \<equiv> ''candidate''"
abbreviation CategorySemanticPass :: string where "CategorySemanticPass \<equiv> ''semantic_pass''"
abbreviation CategorySemanticFail :: string where "CategorySemanticFail \<equiv> ''semantic_fail''"
abbreviation CategoryInfra :: string where "CategoryInfra \<equiv> ''infra''"
abbreviation CategoryNondeterministic :: string where "CategoryNondeterministic \<equiv> ''nondeterministic''"

abbreviation rerr :: "string \<Rightarrow> go_error" where
  "rerr c \<equiv> ReplayError c"

definition closedDomains :: "string list" where
  "closedDomains = [''source_a'', ''source_b'', ''overlap'', ''general'']"

definition closedSides :: "string list" where
  "closedSides = [SideBaseline, SideCandidate]"

text \<open>\<open>replay.CodeOf\<close>.\<close>

definition replayCodeOf :: "go_error option \<Rightarrow> string" where
  "replayCodeOf err =
     (case err of
        None \<Rightarrow> []
      | Some (ReplayError c) \<Rightarrow> c
      | Some e \<Rightarrow> validationCodeOf (Some e))"

subsection \<open>The service\<close>

record Service =
  sv_gates :: SchemaSet
  sv_policy :: ReasonPolicy

definition NewService :: "SchemaSet option \<Rightarrow> ReasonPolicy option \<Rightarrow> Service res" where
  "NewService gates policy =
     (case (gates, policy) of
        (Some g, Some p) \<Rightarrow> Inr \<lparr>sv_gates = g, sv_policy = p\<rparr>
      | _ \<Rightarrow> Inl PlainError)"

definition isInfraCode :: "Service \<Rightarrow> string \<Rightarrow> bool" where
  "isInfraCode s code =
     (case Lookup (sv_policy s) code of
        Inl _ \<Rightarrow> False
      | Inr info \<Rightarrow> rci_retryable info \<and> rci_retry_scope info = ''same_request'')"

text \<open>The verdict of \<open>gates.ValidateInstance\<close>.\<close>

definition gate :: "env \<Rightarrow> SchemaSet \<Rightarrow> gobj \<Rightarrow> string \<Rightarrow> unit res" where
  "gate ev g doc schemaFile = fst (ValidateInstance ev (GObject doc) schemaFile g)"

subsection \<open>Plan and runs\<close>

record Packet =
  pk_id :: string
  pk_side :: string
  pk_path_domains :: "string list"
  pk_critical :: bool
  pk_status :: string
  pk_reason :: string
  pk_digest :: string
  pk_artifact :: "gobj option"

record Family =
  fm_name :: string
  fm_domain :: string
  fm_sides :: "string list"
  fm_baseline :: "gobj option"
  fm_packets :: "Packet list"

type_synonym Plan = "Family list"

record RunOutput =
  ro_packet :: string
  ro_side :: string
  ro_status :: string
  ro_reason :: string
  ro_digest :: string
  ro_output :: string
  ro_cost :: int64
  ro_artifact :: "gobj option"
  ro_adapter :: "gobj option"
  ro_profile :: "gobj option"

definition digestShaped :: "string \<Rightarrow> bool" where
  "digestShaped digest =
     (length digest = length ''sha256:'' + 64 \<and> take 7 digest = ''sha256:'' \<and>
      list_all (\<lambda>c. \<not> ((c < CHR ''0'' \<or> c > CHR ''9'') \<and> (c < CHR ''a'' \<or> c > CHR ''f''))) (drop 7 digest))"

definition validate_packet :: "string list \<Rightarrow> Packet \<Rightarrow> unit res" where
  "validate_packet sides packet =
     (let bad = rerr ReasonReplayRequestInvalid in
      and_then (check (pk_side packet \<in> set sides) bad) (\<lambda>_.
      and_then (check (\<not> (pk_status packet \<noteq> ''succeeded'' \<and> pk_status packet \<noteq> ''failed'')) bad) (\<lambda>_.
      and_then (check (\<not> (pk_status packet = ''failed'' \<and> pk_reason packet = [])) bad) (\<lambda>_.
      and_then (check (\<not> (pk_status packet = ''succeeded'' \<and> pk_reason packet \<noteq> [])) bad) (\<lambda>_.
      and_then (check (digestShaped (pk_digest packet)) bad) (\<lambda>_.
      check (pk_artifact packet \<noteq> None) bad))))))"

definition validate_family :: "string list \<Rightarrow> Family \<Rightarrow> unit res" where
  "validate_family seen family =
     (let bad = rerr ReasonReplayRequestInvalid in
      and_then (check (\<not> (fm_name family = [] \<or> fm_name family \<in> set seen)) bad) (\<lambda>_.
      and_then (check (fm_domain family \<in> set closedDomains) bad) (\<lambda>_.
      and_then (check (fm_sides family \<noteq> []) bad) (\<lambda>_.
      and_then (for_each (\<lambda>side. check (side \<in> set closedSides) bad) (fm_sides family)) (\<lambda>_.
      (case fm_baseline family of
         None \<Rightarrow> Inl bad
       | Some baseline \<Rightarrow>
      (case ParseSkillArtifactRef baseline of
         Inl _ \<Rightarrow> Inl bad
       | Inr _ \<Rightarrow>
      and_then (check (fm_packets family \<noteq> []) (rerr ReasonMissingFamily)) (\<lambda>_.
      for_each (validate_packet (fm_sides family)) (fm_packets family)))))))))"

fun validate_families :: "string list \<Rightarrow> Plan \<Rightarrow> unit res" where
  "validate_families seen [] = Inr ()"
| "validate_families seen (family # rest) =
     and_then (validate_family seen family) (\<lambda>_. validate_families (fm_name family # seen) rest)"

definition Plan_validate :: "Plan \<Rightarrow> unit res" where
  "Plan_validate p =
     and_then (check (p \<noteq> []) (rerr ReasonReplayRequestInvalid)) (\<lambda>_. validate_families [] p)"

subsection \<open>The frozen request\<close>

record Request =
  rq_doc :: gobj
  rq_id :: string
  rq_candidate :: CandidateArtifactRef
  rq_candidate_doc :: gobj
  rq_baselines :: "SkillArtifactRef list"
  rq_baseline_docs :: "gobj list"
  rq_adapter :: VersionedRef
  rq_profile :: VersionedRef
  rq_idempotency_key :: string
  rq_heads :: "gobj list"
  rq_digest :: string

definition versionedRefOf :: "gobj \<Rightarrow> string \<Rightarrow> VersionedRef res" where
  "versionedRefOf obj field =
     (case AsObject (gidx obj field) of
        None \<Rightarrow> Inl (rerr ReasonReplayRequestInvalid)
      | Some raw \<Rightarrow>
          (case ParseVersionedRef raw of Inl _ \<Rightarrow> Inl (rerr ReasonReplayRequestInvalid) | Inr ref \<Rightarrow> Inr ref))"

definition parse_baseline :: "gv \<Rightarrow> (SkillArtifactRef \<times> gobj) res" where
  "parse_baseline raw =
     (case AsObject raw of
        None \<Rightarrow> Inl (rerr ReasonReplayRequestInvalid)
      | Some refDoc \<Rightarrow>
          (case ParseSkillArtifactRef refDoc of
             Inl _ \<Rightarrow> Inl (rerr ReasonReplayRequestInvalid)
           | Inr ref \<Rightarrow> Inr (ref, refDoc)))"

definition ParseRequest :: "env \<Rightarrow> Service \<Rightarrow> gv \<Rightarrow> Request res" where
  "ParseRequest ev s doc =
     (let bad = rerr ReasonReplayRequestInvalid in
      case AsObject doc of
        None \<Rightarrow> Inl bad
      | Some obj \<Rightarrow>
          and_then (gate ev (sv_gates s) obj SchemaReplayRequest) (\<lambda>_.
          let rid = str_or_empty (gidx obj ''replay_request_id'') in
          and_then (check (rid \<noteq> []) bad) (\<lambda>_.
          let candidateRaw = obj_or_nil (gidx obj ''candidate_ref'') in
          (case ParseCandidateArtifactRef candidateRaw of
             Inl _ \<Rightarrow> Inl bad
           | Inr candidate \<Rightarrow>
          and_then (traverse parse_baseline (arr_or_nil (gidx obj ''baseline_skill_refs''))) (\<lambda>baselines.
          and_then (check (baselines \<noteq> []) bad) (\<lambda>_.
          and_then (versionedRefOf obj ''runtime_adapter_ref'') (\<lambda>adapter.
          and_then (versionedRefOf obj ''replay_profile_ref'') (\<lambda>profile.
          let heads = concat (map (\<lambda>raw. case AsObject raw of None \<Rightarrow> [] | Some head \<Rightarrow> [head])
                (arr_or_nil (gidx obj ''required_source_heads''))) in
          (case DigestOf (GObject obj) of
             Inl _ \<Rightarrow> Inl bad
           | Inr digest \<Rightarrow>
          Inr \<lparr>rq_doc = obj, rq_id = rid, rq_candidate = candidate, rq_candidate_doc = candidateRaw,
               rq_baselines = map fst baselines, rq_baseline_docs = map snd baselines, rq_adapter = adapter,
               rq_profile = profile, rq_idempotency_key = str_or_empty (gidx obj ''idempotency_key''),
               rq_heads = heads, rq_digest = digest\<rparr>)))))))))"

definition IsMerge :: "Request \<Rightarrow> bool" where
  "IsMerge r = (car_origin_type (rq_candidate r) = ''merge_proposal'')"

definition Request_Ref :: "Request \<Rightarrow> VersionedRef" where
  "Request_Ref r = \<lparr>vr_id = rq_id r, vr_version = ''1'', vr_digest = rq_digest r\<rparr>"

text \<open>A deep copy through the canonical text; nil (the empty map) when the value does not canonicalise.\<close>

definition deepCopyObject :: "gobj \<Rightarrow> gobj" where
  "deepCopyObject obj =
     (case JCS (GObject obj) of
        Inl _ \<Rightarrow> []
      | Inr data \<Rightarrow> (case ParseJSONStrict data of Inl _ \<Rightarrow> [] | Inr value \<Rightarrow> obj_or_nil value))"

definition RequiredSourceHeads :: "Request \<Rightarrow> gobj list" where
  "RequiredSourceHeads r = map deepCopyObject (rq_heads r)"

definition Request_Doc :: "Request \<Rightarrow> gobj" where
  "Request_Doc r = deepCopyObject (rq_doc r)"

definition num64 :: "int64 \<Rightarrow> gv" where
  "num64 v = GNumber (format_int (sint v))"

subsection \<open>Results\<close>

record UtilityVector =
  uv_task :: int64
  uv_critical :: int64
  uv_recovery :: int64
  uv_inconclusive :: int64
  uv_cost :: int64

definition zero_vector :: UtilityVector where
  "zero_vector = \<lparr>uv_task = 0, uv_critical = 0, uv_recovery = 0, uv_inconclusive = 0, uv_cost = 0\<rparr>"

definition UtilityVector_Doc :: "UtilityVector \<Rightarrow> gobj" where
  "UtilityVector_Doc u =
     [(''task_success_count'', num64 (uv_task u)), (''critical_branch_pass_count'', num64 (uv_critical u)),
      (''recovery_success_count'', num64 (uv_recovery u)), (''inconclusive_case_count'', num64 (uv_inconclusive u)),
      (''execution_cost_units'', num64 (uv_cost u))]"

record FixtureOutcome =
  fo_fixture_ref :: VersionedRef
  fo_domain :: string
  fo_baseline_ref :: gobj
  fo_baseline_passed :: int64
  fo_candidate_passed :: int64
  fo_total_cases :: int64
  fo_regressions :: int64
  fo_output_digest :: string

definition FixtureOutcome_Doc :: "FixtureOutcome \<Rightarrow> gobj" where
  "FixtureOutcome_Doc o' =
     [(''fixture_ref'', GObject (versionedRefDoc (fo_fixture_ref o'))), (''domain'', GString (fo_domain o')),
      (''baseline_ref'', GObject (deepCopyObject (fo_baseline_ref o'))), (''baseline_passed'', num64 (fo_baseline_passed o')),
      (''candidate_passed'', num64 (fo_candidate_passed o')), (''total_cases'', num64 (fo_total_cases o')),
      (''critical_regression_count'', num64 (fo_regressions o')), (''output_digest'', GString (fo_output_digest o'))]"

record RunRecord =
  rr_packet :: string
  rr_family :: string
  rr_domain :: string
  rr_side :: string
  rr_critical :: bool
  rr_recovery :: bool
  rr_category :: string
  rr_reason :: string

definition Passed :: "RunRecord \<Rightarrow> bool" where
  "Passed r = (rr_category r = CategorySemanticPass)"

record Result =
  rs_id :: string
  rs_request_ref :: VersionedRef
  rs_candidate_doc :: gobj
  rs_status :: string
  rs_outcomes :: "FixtureOutcome list"
  rs_utility :: UtilityVector
  rs_envelope :: UtilityVector
  rs_candidate_cases :: int64
  rs_envelope_cases :: int64
  rs_failure :: string
  rs_digest :: string
  rs_records :: "RunRecord list"

definition Result_Doc :: "Result \<Rightarrow> gobj" where
  "Result_Doc r =
     (let doc =
        [(''schema_version'', GString ''gms.replay-result.v1''), (''replay_result_id'', GString (rs_id r)),
         (''replay_request_ref'', GObject (versionedRefDoc (rs_request_ref r))),
         (''candidate_ref'', GObject (deepCopyObject (rs_candidate_doc r))), (''status'', GString (rs_status r)),
         (''fixture_outcomes'', GArray (map (\<lambda>outcome. GObject (FixtureOutcome_Doc outcome)) (rs_outcomes r))),
         (''utility_vector'', GObject (UtilityVector_Doc (rs_utility r))), (''result_digest'', GString (rs_digest r))]
      in if rs_failure r \<noteq> [] then gput ''failure_reason_code'' (GString (rs_failure r)) doc else doc)"

end
