(* ===== verification/Canonicalizer.thy ===== *)
theory Canonicalizer
  imports Replay_Model
begin

text \<open>
  The paired-replay canonicaliser (\<^verbatim>\<open>replay/canonicalizer.go\<close>) and its aggregation (\<^verbatim>\<open>replay/aggregation.go\<close>):
  correlation of observed runs with the frozen plan, completeness, nondeterminism, classification, checked
  aggregation and the minting of the result. The facts about
  it are in \<open>Canonicalizer_Facts\<close>.
\<close>

subsection \<open>Aggregation\<close>

record aggregatedPacket =
  ap_packet :: Packet
  ap_record :: RunRecord
  ap_digests :: "string list"

record familyAggregation =
  fa_name :: string
  fa_domain :: string
  fa_baseline :: gobj
  fa_packets :: "aggregatedPacket list"

record aggregator =
  ag_families :: "familyAggregation list"
  ag_utility :: UtilityVector
  ag_envelope :: UtilityVector
  ag_cand_cases :: int64
  ag_env_cases :: int64
  ag_records :: "RunRecord list"
  ag_overflowed :: bool

definition newAggregator :: aggregator where
  "newAggregator = \<lparr>ag_families = [], ag_utility = zero_vector, ag_envelope = zero_vector, ag_cand_cases = 0,
     ag_env_cases = 0, ag_records = [], ag_overflowed = False\<rparr>"

definition addPacket :: "Packet \<Rightarrow> RunRecord \<Rightarrow> RunOutput list \<Rightarrow> familyAggregation \<Rightarrow> familyAggregation" where
  "addPacket packet rec grp f =
     f\<lparr>fa_packets := fa_packets f @ [\<lparr>ap_packet = packet, ap_record = rec, ap_digests = sort_strings (map ro_digest grp)\<rparr>]\<rparr>"

text \<open>
  \<open>addChecked(dst, delta)\<close>: the destination is given by its reader and its update. Once overflowed, the
  aggregator adds nothing any more.
\<close>

definition addChecked ::
    "(aggregator \<Rightarrow> int64) \<Rightarrow> ((int64 \<Rightarrow> int64) \<Rightarrow> aggregator \<Rightarrow> aggregator) \<Rightarrow> int64 \<Rightarrow> aggregator \<Rightarrow> aggregator" where
  "addChecked dst dst_update delta a =
     (if ag_overflowed a then a
      else (case checkedAdd (dst a) delta of
              Inl _ \<Rightarrow> a\<lparr>ag_overflowed := True\<rparr>
            | Inr c \<Rightarrow> dst_update (\<lambda>_. c) a))"

text \<open>The vector of a side: the candidate's utility or the reference envelope.\<close>

definition add_to_vector ::
    "bool \<Rightarrow> (UtilityVector \<Rightarrow> int64) \<Rightarrow> ((int64 \<Rightarrow> int64) \<Rightarrow> UtilityVector \<Rightarrow> UtilityVector) \<Rightarrow> int64 \<Rightarrow> aggregator \<Rightarrow> aggregator" where
  "add_to_vector cand dim dim_update delta =
     (if cand then addChecked (\<lambda>a. dim (ag_utility a)) (\<lambda>f. ag_utility_update (dim_update f)) delta
      else addChecked (\<lambda>a. dim (ag_envelope a)) (\<lambda>f. ag_envelope_update (dim_update f)) delta)"

definition len64 :: "'a list \<Rightarrow> int64" where
  "len64 xs = word_of_nat (length xs)"

definition aggregator_add :: "Packet \<Rightarrow> RunRecord \<Rightarrow> RunOutput list \<Rightarrow> aggregator \<Rightarrow> aggregator" where
  "aggregator_add packet rec grp a0 =
     (let cand = (rr_side rec = SideCandidate);
          a1 = a0\<lparr>ag_records := ag_records a0 @ [rec]\<rparr>;
          a2 = (if cand then addChecked ag_cand_cases ag_cand_cases_update (len64 grp) a1
                else addChecked ag_env_cases ag_env_cases_update (len64 grp) a1);
          a3 = (if rr_category rec = CategoryNondeterministic
                then add_to_vector cand uv_inconclusive uv_inconclusive_update (len64 grp) a2 else a2);
          a4 = fold (\<lambda>run. add_to_vector cand uv_cost uv_cost_update (ro_cost run)) grp a3;
          a5 = (if Passed rec
                then
                  let b1 = add_to_vector cand uv_task uv_task_update 1 a4;
                      b2 = (if pk_critical packet then add_to_vector cand uv_critical uv_critical_update 1 b1 else b1)
                  in if rr_recovery rec then add_to_vector cand uv_recovery uv_recovery_update 1 b2 else b2
                else a4);
          a6 = (if rr_side rec = SideCandidate \<and> rr_category rec = CategoryInfra
                then add_to_vector True uv_inconclusive uv_inconclusive_update (len64 grp) a5 else a5)
      in if rr_side rec = SideBaseline \<and> rr_category rec = CategoryInfra
         then add_to_vector False uv_inconclusive uv_inconclusive_update (len64 grp) a6 else a6)"

definition addFamily :: "familyAggregation \<Rightarrow> aggregator \<Rightarrow> aggregator" where
  "addFamily fam a = a\<lparr>ag_families := ag_families a @ [fam]\<rparr>"

subsection \<open>Outcomes\<close>

definition key_order :: "gv \<Rightarrow> gv \<Rightarrow> bool" where
  "key_order x y = string_less (CanonicalKey x) (CanonicalKey y)"

definition familyOutputDigest :: "familyAggregation \<Rightarrow> string res" where
  "familyOutputDigest fam =
     DigestOf (GArray (sort_by key_order (map (\<lambda>ap. GObject [(''packet_id'', GString (pk_id (ap_packet ap))),
        (''side'', GString (pk_side (ap_packet ap))), (''digests'', GArray (map GString (ap_digests ap)))]) (fa_packets fam))))"

definition familyPlanDigest :: "familyAggregation \<Rightarrow> string res" where
  "familyPlanDigest fam =
     DigestOf (GArray (sort_by key_order (map (\<lambda>ap. GObject [(''packet_id'', GString (pk_id (ap_packet ap))),
        (''side'', GString (pk_side (ap_packet ap))), (''expected_output_digest'', GString (pk_digest (ap_packet ap)))]) (fa_packets fam))))"

text \<open>\<open>byPacket[id][side]\<close>: the last packet of that id and side.\<close>

definition by_packet :: "familyAggregation \<Rightarrow> string \<Rightarrow> string \<Rightarrow> aggregatedPacket option" where
  "by_packet fam pid side = find (\<lambda>ap. pk_id (ap_packet ap) = pid \<and> pk_side (ap_packet ap) = side) (rev (fa_packets fam))"

definition is_regression :: "familyAggregation \<Rightarrow> string \<Rightarrow> bool" where
  "is_regression fam pid =
     (case by_packet fam pid SideBaseline of
        None \<Rightarrow> False
      | Some baseline \<Rightarrow>
          pk_critical (ap_packet baseline) \<and> Passed (ap_record baseline) \<and>
          (case by_packet fam pid SideCandidate of None \<Rightarrow> True | Some candidate \<Rightarrow> \<not> Passed (ap_record candidate)))"

definition passed_on :: "string \<Rightarrow> aggregatedPacket \<Rightarrow> bool" where
  "passed_on side ap = (Passed (ap_record ap) \<and> pk_side (ap_packet ap) = side)"

definition outcomeFor :: "familyAggregation \<Rightarrow> FixtureOutcome res" where
  "outcomeFor fam =
     and_then (familyOutputDigest fam) (\<lambda>outputDigest.
     and_then (familyPlanDigest fam) (\<lambda>planDigest.
     Inr \<lparr>fo_fixture_ref = \<lparr>vr_id = fa_name fam, vr_version = ''1'', vr_digest = planDigest\<rparr>,
          fo_domain = fa_domain fam, fo_baseline_ref = fa_baseline fam,
          fo_baseline_passed = len64 (filter (passed_on SideBaseline) (fa_packets fam)),
          fo_candidate_passed = len64 (filter (passed_on SideCandidate) (fa_packets fam)),
          fo_total_cases = sum_list (map (\<lambda>ap. len64 (ap_digests ap)) (fa_packets fam)),
          fo_regressions = len64 (filter (is_regression fam) (remdups (map (\<lambda>ap. pk_id (ap_packet ap)) (fa_packets fam)))),
          fo_output_digest = outputDigest\<rparr>))"

subsection \<open>Minting\<close>

definition outcome_less :: "FixtureOutcome \<Rightarrow> FixtureOutcome \<Rightarrow> bool" where
  "outcome_less x y =
     (if vr_id (fo_fixture_ref x) \<noteq> vr_id (fo_fixture_ref y) then vr_id (fo_fixture_ref x) < vr_id (fo_fixture_ref y)
      else fo_output_digest x < fo_output_digest y)"

definition record_less :: "RunRecord \<Rightarrow> RunRecord \<Rightarrow> bool" where
  "record_less x y =
     (if rr_family x \<noteq> rr_family y then rr_family x < rr_family y
      else if rr_packet x \<noteq> rr_packet y then rr_packet x < rr_packet y
      else rr_side x < rr_side y)"

definition deriveResultID :: "Request \<Rightarrow> Plan \<Rightarrow> string res" where
  "deriveResultID req plan =
     and_then (DigestOf (GObject [(''request_digest'', GString (rq_digest req)),
        (''families'', GArray (sort_by key_order (map (\<lambda>family. GString (fm_name family)) plan)))])) (\<lambda>digest.
     Inr (''rr-'' @ take 16 (drop 7 digest)))"

definition resultPreimage :: "gobj \<Rightarrow> gobj" where
  "resultPreimage doc =
     map (\<lambda>field. (field, gidx doc field))
       [''schema_version'', ''replay_result_id'', ''replay_request_ref'', ''candidate_ref'', ''status'', ''fixture_outcomes'',
        ''utility_vector'']"

text \<open>Errors are wrapped: \<open>if err != nil { return nil, newError(code, \<dots>) }\<close>.\<close>

definition recode :: "string \<Rightarrow> 'a res \<Rightarrow> 'a res" where
  "recode code r = (case r of Inl _ \<Rightarrow> Inl (rerr code) | Inr x \<Rightarrow> Inr x)"

definition mintResult :: "env \<Rightarrow> Service \<Rightarrow> Request \<Rightarrow> Plan \<Rightarrow> aggregator \<Rightarrow> string \<Rightarrow> string \<Rightarrow> Result res" where
  "mintResult ev s req plan agg status failureCode =
     and_then (recode ReasonReplayResultInvalid (traverse outcomeFor (ag_families agg))) (\<lambda>outcomes.
     and_then (recode ReasonReplayResultInvalid (deriveResultID req plan)) (\<lambda>resultID.
     let result = \<lparr>rs_id = resultID, rs_request_ref = Request_Ref req, rs_candidate_doc = rq_candidate_doc req,
           rs_status = status, rs_outcomes = sort_by outcome_less outcomes, rs_utility = ag_utility agg,
           rs_envelope = ag_envelope agg, rs_candidate_cases = ag_cand_cases agg, rs_envelope_cases = ag_env_cases agg,
           rs_failure = failureCode, rs_digest = [], rs_records = sort_by record_less (ag_records agg)\<rparr> in
     and_then (recode ReasonReplayResultInvalid (DigestOf (GObject (resultPreimage (Result_Doc result))))) (\<lambda>digest.
     let result' = result\<lparr>rs_digest := digest\<rparr> in
     and_then (recode ReasonReplayResultInvalid (gate ev (sv_gates s) (Result_Doc result') SchemaReplayResult)) (\<lambda>_.
     Inr result'))))"

definition inconclusiveResult :: "env \<Rightarrow> Service \<Rightarrow> Request \<Rightarrow> Plan \<Rightarrow> aggregator \<Rightarrow> string \<Rightarrow> Result res" where
  "inconclusiveResult ev s req plan agg code = mintResult ev s req plan agg StatusInconclusive code"

subsection \<open>Correlation\<close>

definition checkPlanAgainstRequest :: "Request \<Rightarrow> Plan \<Rightarrow> unit res" where
  "checkPlanAgainstRequest req plan =
     and_then (for_each (\<lambda>family. check (CanonicalKey (GObject (case fm_baseline family of None \<Rightarrow> [] | Some b \<Rightarrow> b))
         \<in> set (map (\<lambda>doc. CanonicalKey (GObject doc)) (rq_baseline_docs req))) (rerr ReasonRefMismatch)) plan) (\<lambda>_.
     check (\<not> (IsMerge req \<and> rq_heads req = [])) (rerr ReasonReplayRequestInvalid))"

definition refInBaselines :: "Request \<Rightarrow> SkillArtifactRef \<Rightarrow> bool" where
  "refInBaselines req ref =
     list_ex (\<lambda>baseline. sar_lineage_id baseline = sar_lineage_id ref \<and> sar_version baseline = sar_version ref \<and>
        sar_artifact_digest baseline = sar_artifact_digest ref \<and> sar_kind baseline = sar_kind ref) (rq_baselines req)"

definition same_doc :: "gobj \<Rightarrow> gobj \<Rightarrow> bool" where
  "same_doc a b = (CanonicalKey (GObject a) = CanonicalKey (GObject b))"

definition checkRunCorrelation :: "Request \<Rightarrow> Packet \<Rightarrow> RunOutput \<Rightarrow> unit res" where
  "checkRunCorrelation req packet run =
     and_then (case ro_adapter run of
                 None \<Rightarrow> Inr ()
               | Some r \<Rightarrow> check (same_doc r (versionedRefDoc (rq_adapter req))) (rerr ReasonRefMismatch)) (\<lambda>_.
     and_then (case ro_profile run of
                 None \<Rightarrow> Inr ()
               | Some r \<Rightarrow> check (same_doc r (versionedRefDoc (rq_profile req))) (rerr ReasonRefMismatch)) (\<lambda>_.
     (case ro_artifact run of
        None \<Rightarrow> Inl (rerr ReasonReplayRequestInvalid)
      | Some artifact \<Rightarrow>
          and_then (check (same_doc artifact (case pk_artifact packet of None \<Rightarrow> [] | Some r \<Rightarrow> r)) (rerr ReasonRefMismatch)) (\<lambda>_.
          if ro_side run = SideBaseline then
            and_then (check (\<not> has_key artifact ''candidate_id'') (rerr ReasonReplayRequestInvalid)) (\<lambda>_.
            (case ParseSkillArtifactRef artifact of
               Inl _ \<Rightarrow> Inl (rerr ReasonRefMismatch)
             | Inr ref \<Rightarrow> check (refInBaselines req ref) (rerr ReasonRefMismatch)))
          else if ro_side run = SideCandidate then
            and_then (check (has_key artifact ''candidate_id'') (rerr ReasonReplayRequestInvalid)) (\<lambda>_.
            (case ParseCandidateArtifactRef artifact of
               Inl _ \<Rightarrow> Inl (rerr ReasonRefMismatch)
             | Inr ref \<Rightarrow> check (same_doc artifact (rq_candidate_doc req)) (rerr ReasonRefMismatch)))
          else Inr ()))))"

subsection \<open>Canonicalize\<close>

type_synonym packetKey = "string \<times> string \<times> string"

text \<open>The index of planned packets, and the family each (packet, side) is attributed to.\<close>

fun index_packets :: "string \<Rightarrow> Packet list \<Rightarrow> (packetKey \<times> Packet) list \<times> string gmap \<Rightarrow>
    ((packetKey \<times> Packet) list \<times> string gmap) res" where
  "index_packets family [] idx = Inr idx"
| "index_packets family (packet # rest) (packets, familyOf) =
     (let key = (family, pk_id packet, pk_side packet) in
      if has_key packets key then Inl (rerr ReasonReplayRequestInvalid)
      else index_packets family rest
             (gput key packet packets, gput (pk_id packet @ CHR 0x1F # pk_side packet) family familyOf))"

fun index_plan :: "Plan \<Rightarrow> (packetKey \<times> Packet) list \<times> string gmap \<Rightarrow> ((packetKey \<times> Packet) list \<times> string gmap) res" where
  "index_plan [] idx = Inr idx"
| "index_plan (family # rest) idx = and_then (index_packets (fm_name family) (fm_packets family) idx) (index_plan rest)"

type_synonym observed = "(packetKey \<times> RunOutput list) list"

text \<open>Reading a missing key of \<open>packets\<close> gives the zero \<open>Packet\<close>.\<close>

definition zero_packet :: Packet where
  "zero_packet = \<lparr>pk_id = [], pk_side = [], pk_path_domains = [], pk_critical = False, pk_status = [], pk_reason = [],
     pk_digest = [], pk_artifact = None\<rparr>"

definition runs_of :: "observed \<Rightarrow> packetKey \<Rightarrow> RunOutput list" where
  "runs_of obs key = (case map_of obs key of None \<Rightarrow> [] | Some grp \<Rightarrow> grp)"

fun correlate :: "Request \<Rightarrow> (packetKey \<times> Packet) list \<times> string gmap \<Rightarrow> observed \<Rightarrow> RunOutput list \<Rightarrow> observed res" where
  "correlate req idx obs [] = Inr obs"
| "correlate req idx obs (run # rest) =
     (if ro_side run \<notin> set closedSides then Inl (rerr ReasonReplayRequestInvalid)
      else
        (case map_of (snd idx) (ro_packet run @ CHR 0x1F # ro_side run) of
           None \<Rightarrow> Inl (rerr ReasonReplayRequestInvalid)
         | Some family \<Rightarrow>
             let key = (family, ro_packet run, ro_side run);
                 packet = (case map_of (fst idx) key of None \<Rightarrow> zero_packet | Some packet \<Rightarrow> packet) in
             and_then (checkRunCorrelation req packet run) (\<lambda>_.
             correlate req idx (gput key (runs_of obs key @ [run]) obs) rest)))"

definition family_complete :: "observed \<Rightarrow> Family \<Rightarrow> unit res" where
  "family_complete obs family =
     for_each (\<lambda>side. check (list_ex (\<lambda>packet. pk_side packet = side \<and> runs_of obs (fm_name family, pk_id packet, side) \<noteq> [])
         (fm_packets family)) (rerr ReasonMissingFamily)) (fm_sides family)"

definition nondeterministic :: "observed \<Rightarrow> packetKey \<Rightarrow> bool" where
  "nondeterministic obs key =
     (case runs_of obs key of
        [] \<Rightarrow> False
      | first # others \<Rightarrow> list_ex (\<lambda>run. ro_digest run \<noteq> ro_digest first) others)"

definition verify_outputs :: "Packet \<Rightarrow> RunOutput list \<Rightarrow> unit res" where
  "verify_outputs packet grp =
     for_each (\<lambda>run.
         and_then (check (ro_digest run = pk_digest packet) (rerr ReasonDigestMismatch)) (\<lambda>_.
         check (\<not> (ro_output run \<noteq> [] \<and> DigestBytes (ro_output run) \<noteq> ro_digest run)) (rerr ReasonDigestMismatch))) grp"

definition classify :: "Service \<Rightarrow> observed \<Rightarrow> string \<Rightarrow> Packet \<Rightarrow> string res" where
  "classify s obs family packet =
     (let key = (family, pk_id packet, pk_side packet) in
      if nondeterministic obs key then Inr CategoryNondeterministic
      else
        and_then (verify_outputs packet (runs_of obs key)) (\<lambda>_.
        Inr (if pk_status packet = ''succeeded'' then CategorySemanticPass
             else if isInfraCode s (pk_reason packet) then CategoryInfra
             else CategorySemanticFail)))"

definition record_of :: "Family \<Rightarrow> Packet \<Rightarrow> string \<Rightarrow> RunRecord" where
  "record_of family packet category =
     \<lparr>rr_packet = pk_id packet, rr_family = fm_name family, rr_domain = fm_domain family, rr_side = pk_side packet,
      rr_critical = pk_critical packet, rr_recovery = (''recovery'' \<in> set (pk_path_domains packet)),
      rr_category = category, rr_reason = pk_reason packet\<rparr>"

fun aggregate_packets :: "Service \<Rightarrow> observed \<Rightarrow> Family \<Rightarrow> Packet list \<Rightarrow> familyAggregation \<times> aggregator \<Rightarrow>
    (familyAggregation \<times> aggregator) res" where
  "aggregate_packets s obs family [] st = Inr st"
| "aggregate_packets s obs family (packet # rest) (fam, agg) =
     and_then (classify s obs (fm_name family) packet) (\<lambda>category.
       let rec = record_of family packet category; grp = runs_of obs (fm_name family, pk_id packet, pk_side packet) in
       aggregate_packets s obs family rest (addPacket packet rec grp fam, aggregator_add packet rec grp agg))"

fun aggregate_plan :: "Service \<Rightarrow> observed \<Rightarrow> Plan \<Rightarrow> aggregator \<Rightarrow> aggregator res" where
  "aggregate_plan s obs [] agg = Inr agg"
| "aggregate_plan s obs (family # rest) agg =
     and_then (aggregate_packets s obs family (fm_packets family)
         (\<lparr>fa_name = fm_name family, fa_domain = fm_domain family,
           fa_baseline = (case fm_baseline family of None \<Rightarrow> [] | Some b \<Rightarrow> b), fa_packets = []\<rparr>, agg)) (\<lambda>st.
     aggregate_plan s obs rest (addFamily (fst st) (snd st)))"

definition Canonicalize :: "env \<Rightarrow> Service \<Rightarrow> Request option \<Rightarrow> Plan option \<Rightarrow> RunOutput list \<Rightarrow> Result res" where
  "Canonicalize ev s reqp planp runs =
     (case reqp of
        None \<Rightarrow> Inl (rerr ReasonReplayRequestInvalid)
      | Some req \<Rightarrow>
     (case planp of
        None \<Rightarrow> Inl (rerr ReasonReplayRequestInvalid)
      | Some plan \<Rightarrow>
          and_then (Plan_validate plan) (\<lambda>_.
          and_then (checkPlanAgainstRequest req plan) (\<lambda>_.
          and_then (index_plan plan ([], [])) (\<lambda>idx.
          and_then (correlate req idx [] runs) (\<lambda>obs.
          and_then (for_each (family_complete obs) plan) (\<lambda>_.
          and_then (aggregate_plan s obs plan newAggregator) (\<lambda>agg.
          if ag_overflowed agg then inconclusiveResult ev s req plan agg ReasonUtilityArithmeticOverflow
          else if list_ex (nondeterministic obs) (map fst obs)
          then inconclusiveResult ev s req plan agg ReasonReplayNondeterministic
          else mintResult ev s req plan agg StatusSucceeded []))))))))"

end
