(* ===== verification/Accumulator.thy ===== *)
theory Accumulator
  imports Checked_Arith
begin

text \<open>
  Saturating accumulation: a state with int64 counters and an overflow flag, and a step that adds to one
  counter with checked addition and raises the flag, for good, when that fails. The interface says how
  counters, flag and updates interact; under it a whole run of steps is described by integer sums.
\<close>

definition bump :: "('s \<Rightarrow> 'c \<Rightarrow> int64) \<Rightarrow> ('c \<Rightarrow> int64 \<Rightarrow> 's \<Rightarrow> 's) \<Rightarrow> ('s \<Rightarrow> bool) \<Rightarrow> ('s \<Rightarrow> 's) \<Rightarrow> 'c \<times> int64 \<Rightarrow> 's \<Rightarrow> 's" where
  "bump get put flag raise x a =
     (if flag a then a
      else (case checkedAdd (get a (fst x)) (snd x) of Inl _ \<Rightarrow> raise a | Inr v \<Rightarrow> put (fst x) v a))"

definition added :: "('c \<times> int64) list \<Rightarrow> 'c \<Rightarrow> int" where
  "added ds c = sum_list (map (\<lambda>x. if fst x = c then sint (snd x) else 0) ds)"

lemma added_simps [simp]:
  "added [] c = 0"
  "added (x # ds) c = (if fst x = c then sint (snd x) else 0) + added ds c"
  "added (ds @ es) c = added ds c + added es c"
  by (simp_all add: added_def)

lemma added_concat: "added (concat dss) c = sum_list (map (\<lambda>ds. added ds c) dss)"
  by (induction dss) simp_all

lemma added_nonneg: "(\<And>x. x \<in> set ds \<Longrightarrow> 0 \<le> sint (snd x)) \<Longrightarrow> 0 \<le> added ds c"
  by (induction ds) (auto intro: add_nonneg_nonneg)

lemma added_mset: "mset ds = mset es \<Longrightarrow> added ds c = added es c"
proof -
  let ?f = "\<lambda>x :: 'a \<times> int64. if fst x = c then sint (snd x) else 0"
  assume "mset ds = mset es"
  then have "sum_mset (mset (map ?f ds)) = sum_mset (mset (map ?f es))" by simp
  then show ?thesis unfolding added_def sum_mset_sum_list .
qed

locale accumulator =
  fixes get :: "'s \<Rightarrow> 'c \<Rightarrow> int64"
    and put :: "'c \<Rightarrow> int64 \<Rightarrow> 's \<Rightarrow> 's"
    and flag :: "'s \<Rightarrow> bool"
    and raise :: "'s \<Rightarrow> 's"
  assumes get_put: "get (put c v a) c' = (if c' = c then v else get a c')"
    and flag_put: "flag (put c v a) = flag a"
    and flag_raise: "flag (raise a)"
begin

lemma fold_flagged: "flag a \<Longrightarrow> fold (bump get put flag raise) ds a = a"
  by (induction ds) (simp_all add: bump_def)

lemma bump_over:
  assumes "\<not> flag a" "2 ^ 63 \<le> sint (get a k) + sint d"
  shows "fold (bump get put flag raise) ((k, d) # ds) a = raise a"
  using assms fold_flagged [OF flag_raise] by (simp add: bump_def checkedAdd_spec)

lemma bump_fits:
  assumes "\<not> flag a" "0 \<le> sint (get a k)" "0 \<le> sint d" "\<not> 2 ^ 63 \<le> sint (get a k) + sint d"
  obtains v where "bump get put flag raise (k, d) a = put k v a" "sint v = sint (get a k) + sint d"
  using assms that [of "get a k + d"] checkedAdd_Inr [of "get a k" d "get a k + d"]
  by (simp add: bump_def checkedAdd_spec)

text \<open>
  Non-negative additions to non-negative counters: the flag goes up exactly when some exact sum leaves
  int64, and otherwise every counter is its exact sum.
\<close>

lemma fold_exact:
  assumes "\<not> flag a" "\<And>c. 0 \<le> sint (get a c)" "\<And>x. x \<in> set ds \<Longrightarrow> 0 \<le> sint (snd x)"
  shows "flag (fold (bump get put flag raise) ds a) \<longleftrightarrow> (\<exists>c. 2 ^ 63 \<le> sint (get a c) + added ds c)"
    and "\<not> flag (fold (bump get put flag raise) ds a) \<Longrightarrow> sint (get (fold (bump get put flag raise) ds a) c) = sint (get a c) + added ds c"
  using assms
proof (induction ds arbitrary: a)
  case Nil
  {
    case 1
    have "\<not> 2 ^ 63 \<le> sint (get a c)" for c using sint_range(2) [of "get a c"] by simp
    then show ?case using 1 by simp
  next
    case 2
    then show ?case by simp
  }
next
  case (Cons x ds)
  obtain k d where x: "x = (k, d)" by (cases x)
  {
    case 1
    have nn: "0 \<le> sint d" "\<And>y. y \<in> set ds \<Longrightarrow> 0 \<le> sint (snd y)" using 1(3) by (fastforce simp: x)+
    show ?case
    proof (cases "2 ^ 63 \<le> sint (get a k) + sint d")
      case True
      moreover have "0 \<le> added ds k" using nn(2) by (rule added_nonneg)
      ultimately have "2 ^ 63 \<le> sint (get a k) + added (x # ds) k" by (simp add: x)
      then show ?thesis using bump_over [OF 1(1) True, of ds] flag_raise by (auto simp only: x)
    next
      case False
      obtain v where v: "bump get put flag raise (k, d) a = put k v a" "sint v = sint (get a k) + sint d"
        using bump_fits [OF 1(1) 1(2) nn(1) False] .
      have "flag (fold (bump get put flag raise) ds (put k v a)) \<longleftrightarrow> (\<exists>c. 2 ^ 63 \<le> sint (get (put k v a) c) + added ds c)"
        using 1 v nn by (intro Cons.IH(1)) (simp_all add: flag_put get_put)
      also have "\<dots> \<longleftrightarrow> (\<exists>c. 2 ^ 63 \<le> sint (get a c) + added (x # ds) c)"
        by (intro iff_exI) (simp add: get_put v(2) x add.assoc)
      finally show ?thesis by (simp add: v(1) x)
    qed
  next
    case 2
    have nn: "0 \<le> sint d" "\<And>y. y \<in> set ds \<Longrightarrow> 0 \<le> sint (snd y)" using 2(4) by (fastforce simp: x)+
    have "\<not> 2 ^ 63 \<le> sint (get a k) + sint d"
    proof
      assume "2 ^ 63 \<le> sint (get a k) + sint d"
      from bump_over [OF 2(2) this] 2(1) flag_raise show False by (simp only: x not_True_eq_False)
    qed
    then obtain v where v: "bump get put flag raise (k, d) a = put k v a" "sint v = sint (get a k) + sint d"
      using bump_fits [OF 2(2) 2(3) nn(1)] by blast
    have "sint (get (fold (bump get put flag raise) ds (put k v a)) c) = sint (get (put k v a) c) + added ds c"
      using 2 v nn by (intro Cons.IH(2)) (simp_all add: flag_put get_put x)
    then show ?case by (auto simp: v get_put x)
  }
qed

text \<open>Hence the order of non-negative additions does not matter, unless they overflow.\<close>

lemma fold_perm:
  assumes "\<not> flag a" "\<And>c. 0 \<le> sint (get a c)" "\<And>x. x \<in> set ds \<Longrightarrow> 0 \<le> sint (snd x)" "\<And>c. added ds c = added es c"
    "\<And>x. x \<in> set es \<Longrightarrow> 0 \<le> sint (snd x)" "\<not> flag (fold (bump get put flag raise) ds a)"
  shows "\<not> flag (fold (bump get put flag raise) es a)"
    and "get (fold (bump get put flag raise) es a) c = get (fold (bump get put flag raise) ds a) c"
proof -
  show nf: "\<not> flag (fold (bump get put flag raise) es a)"
    using fold_exact(1) [OF assms(1-3)] fold_exact(1) [OF assms(1,2,5)] assms(4,6) by simp
  show "get (fold (bump get put flag raise) es a) c = get (fold (bump get put flag raise) ds a) c"
  proof (rule signed_word_eqI)
    show "sint (get (fold (bump get put flag raise) es a) c) = sint (get (fold (bump get put flag raise) ds a) c)"
      using fold_exact(2) [OF assms(1-3,6), of c] fold_exact(2) [OF assms(1,2,5) nf, of c] assms(4) by simp
  qed
qed

end

end
