(* ===== verification/Plain_Json.thy ===== *)
theory Plain_Json
  imports Replay_Model
begin

text \<open>
  Documents the pipeline builds itself: rendering an integer and reading it back, documents of strings and
  integers always have a digest, and the deep copy through canonical text keeps a document.
\<close>

definition plain :: "gv \<Rightarrow> bool" where
  "plain v = (decoder_model v \<and> list_all integerForm (number_tokens v))"

lemma plain_simps [simp]:
  "plain (GString x)" "plain GNil" "plain (GBool b)" "plain (GNumber t) = integerForm t"
  "plain (GArray vs) = list_all plain vs" "plain (GObject m) = list_all (\<lambda>p. plain (snd p)) m"
  by (auto simp: plain_def list_all_iff)

lemma plain_gidx:
  assumes "plain (GObject m)"
  shows "plain (gidx m k)"
proof (cases "map_of m k")
  case (Some v)
  then have "(k, v) \<in> set m" by (rule map_of_SomeD)
  with assms Some show ?thesis by (auto simp: gidx_def list_all_iff)
qed (simp add: gidx_def)

lemma DigestOf_plain: "plain v \<Longrightarrow> \<exists>d. DigestOf v = Inr d"
  using emit_outcome [of v] by (auto simp: plain_def DigestOf_def JCS_def)

lemma plain_hashable: "hashable v \<Longrightarrow> plain v"
  by (induction v rule: hashable.induct) (auto simp: list_all_iff)

subsection \<open>Integers\<close>

lemma plain_num64 [simp]: "plain (num64 v)"
  by (simp add: num64_def format_int_form)

subsection \<open>Deep copies\<close>

lemma deepCopyObject_canon:
  assumes "hashable (GObject m)" "nesting (GObject m) \<le> max_nesting"
  shows "GObject (deepCopyObject m) = canon (GObject m)"
proof -
  have "ParseJSONStrict (out (GObject m)) = Inr (canon (GObject m))" by (rule parse_out [OF assms])
  moreover have "JCS (GObject m) = Inr (out (GObject m))" unfolding JCS_def by (rule emit_hashable [OF assms(1)])
  ultimately show ?thesis by (simp add: deepCopyObject_def obj_or_nil_def AsObject_def)
qed

lemma deepCopyObject_plain:
  assumes "hashable (GObject m)" "nesting (GObject m) \<le> max_nesting"
  shows "plain (GObject (deepCopyObject m))" "CanonicalKey (GObject (deepCopyObject m)) = CanonicalKey (GObject m)"
proof -
  note copy = deepCopyObject_canon [OF assms]
  have c: "hashable (canon (GObject m))" "out (canon (GObject m)) = out (GObject m)" using out_canon [OF assms(1)] by auto
  show "plain (GObject (deepCopyObject m))" unfolding copy using c(1) by (rule plain_hashable)
  show "CanonicalKey (GObject (deepCopyObject m)) = CanonicalKey (GObject m)"
    unfolding copy CanonicalKey_def JCS_def emit_hashable [OF assms(1)] emit_hashable [OF c(1)] by (simp only: c(2) sum.case)
qed

lemma versionedRefDoc_plain: "integerForm (vr_version r) \<Longrightarrow> plain (GObject (versionedRefDoc r))"
  by (simp add: versionedRefDoc_def)

subsection \<open>A gate without constraints\<close>

lemma open_gate:
  assumes "map_of (ss_docs g) key = Some []" "plain (GObject doc)" "map_of doc ''extensions'' = None"
  shows "gate ev g doc key = Inr ()"
proof -
  have "checkFloats (GObject doc) = Inr ()" using assms(2) by (simp only: checkFloats_iff plain_def)
  moreover have "\<exists>t. validateNode ev (GObject doc) [] key 0 g = (Inr (), t)"
    by (metis validate_empty verdict prod.collapse zero_le)
  ultimately show ?thesis using assms(1,3)
    by (auto simp: gate_def ValidateInstance_def check_shape_def st_then_def st_ret_def Schema_doc_def gidx_def AsObject_def
        check_extensions_of_def)
qed

end
