(* ===== verification/Canonicalizer_Facts.thy ===== *)
theory Canonicalizer_Facts
  imports Canonicalizer Accumulator Plain_Json
begin

text \<open>
  The facts about the canonicaliser: its counters are exact sums over the plan, the order of the observed
  runs cannot matter unless a sum overflows, a result that counts as succeeded only rests on runs that are
  exactly the planned ones; and two places where the counting is not what the comments promise.
\<close>

subsection \<open>The twelve counters\<close>

datatype dimension = Task | Critical | Recovery | Inconclusive | Cost
datatype counter = CandCases | EnvCases | Dim bool dimension

fun dim_of :: "dimension \<Rightarrow> UtilityVector \<Rightarrow> int64" where
  "dim_of Task = uv_task" | "dim_of Critical = uv_critical" | "dim_of Recovery = uv_recovery"
| "dim_of Inconclusive = uv_inconclusive" | "dim_of Cost = uv_cost"

fun set_dim :: "dimension \<Rightarrow> int64 \<Rightarrow> UtilityVector \<Rightarrow> UtilityVector" where
  "set_dim Task v u = u\<lparr>uv_task := v\<rparr>" | "set_dim Critical v u = u\<lparr>uv_critical := v\<rparr>"
| "set_dim Recovery v u = u\<lparr>uv_recovery := v\<rparr>" | "set_dim Inconclusive v u = u\<lparr>uv_inconclusive := v\<rparr>"
| "set_dim Cost v u = u\<lparr>uv_cost := v\<rparr>"

fun counter_of :: "aggregator \<Rightarrow> counter \<Rightarrow> int64" where
  "counter_of a CandCases = ag_cand_cases a"
| "counter_of a EnvCases = ag_env_cases a"
| "counter_of a (Dim cand d) = dim_of d (if cand then ag_utility a else ag_envelope a)"

fun set_counter :: "counter \<Rightarrow> int64 \<Rightarrow> aggregator \<Rightarrow> aggregator" where
  "set_counter CandCases v a = a\<lparr>ag_cand_cases := v\<rparr>"
| "set_counter EnvCases v a = a\<lparr>ag_env_cases := v\<rparr>"
| "set_counter (Dim cand d) v a =
     (if cand then a\<lparr>ag_utility := set_dim d v (ag_utility a)\<rparr> else a\<lparr>ag_envelope := set_dim d v (ag_envelope a)\<rparr>)"

abbreviation bump_ag :: "counter \<times> int64 \<Rightarrow> aggregator \<Rightarrow> aggregator" where
  "bump_ag \<equiv> bump counter_of set_counter ag_overflowed (ag_overflowed_update (\<lambda>_. True))"

lemma dim_of_set_dim: "dim_of d (set_dim d' v u) = (if d = d' then v else dim_of d u)"
  by (cases d'; cases d) simp_all

lemma counter_of_set_counter: "counter_of (set_counter c v a) c' = (if c' = c then v else counter_of a c')"
  by (cases c; cases c') (simp_all add: dim_of_set_dim)

interpretation ag: accumulator counter_of set_counter ag_overflowed "ag_overflowed_update (\<lambda>_. True)"
proof
  show "ag_overflowed (set_counter c v a) = ag_overflowed a" for c v a by (cases c) simp_all
qed (simp_all add: counter_of_set_counter)

lemma counters_eqI:
  assumes "\<And>c. counter_of a c = counter_of b c" "ag_records a = ag_records b" "ag_families a = ag_families b"
    "ag_overflowed a = ag_overflowed b"
  shows "a = b"
proof -
  have "dim_of d (ag_utility a) = dim_of d (ag_utility b)" "dim_of d (ag_envelope a) = dim_of d (ag_envelope b)" for d
    using assms(1) [of "Dim True d"] assms(1) [of "Dim False d"] by simp_all
  note * = this [of Task] this [of Critical] this [of Recovery] this [of Inconclusive] this [of Cost]
  have "ag_utility a = ag_utility b" "ag_envelope a = ag_envelope b"
    using * by (simp_all add: UtilityVector.equality)
  then show ?thesis
    using assms(2-4) assms(1) [of CandCases] assms(1) [of EnvCases] by (simp add: aggregator.equality)
qed

subsection \<open>Adding a packet\<close>

text \<open>What \<open>add\<close> adds, in order.\<close>

definition deltas :: "Packet \<Rightarrow> RunRecord \<Rightarrow> RunOutput list \<Rightarrow> (counter \<times> int64) list" where
  "deltas packet rec grp =
     (let cand = (rr_side rec = SideCandidate) in
      [(if cand then CandCases else EnvCases, len64 grp)] @
      (if rr_category rec = CategoryNondeterministic then [(Dim cand Inconclusive, len64 grp)] else []) @
      map (\<lambda>run. (Dim cand Cost, ro_cost run)) grp @
      (if Passed rec
       then [(Dim cand Task, 1)] @ (if pk_critical packet then [(Dim cand Critical, 1)] else []) @
            (if rr_recovery rec then [(Dim cand Recovery, 1)] else [])
       else []) @
      (if rr_category rec = CategoryInfra \<and> (cand \<or> rr_side rec = SideBaseline)
       then [(Dim cand Inconclusive, len64 grp)] else []))"

lemma addChecked_bump:
  assumes "dst a = counter_of a c" "\<And>v. upd (\<lambda>_. v) a = set_counter c v a"
  shows "addChecked dst upd d a = bump_ag (c, d) a"
  using assms by (simp add: addChecked_def bump_def split: sum.split)

lemma add_to_vector_bump:
  "add_to_vector cand uv_task uv_task_update d a = bump_ag (Dim cand Task, d) a"
  "add_to_vector cand uv_critical uv_critical_update d a = bump_ag (Dim cand Critical, d) a"
  "add_to_vector cand uv_recovery uv_recovery_update d a = bump_ag (Dim cand Recovery, d) a"
  "add_to_vector cand uv_inconclusive uv_inconclusive_update d a = bump_ag (Dim cand Inconclusive, d) a"
  "add_to_vector cand uv_cost uv_cost_update d a = bump_ag (Dim cand Cost, d) a"
  unfolding add_to_vector_def by (cases cand; simp; intro addChecked_bump; simp)+

lemma add_cases_bump:
  "addChecked ag_cand_cases ag_cand_cases_update d a = bump_ag (CandCases, d) a"
  "addChecked ag_env_cases ag_env_cases_update d a = bump_ag (EnvCases, d) a"
  by (intro addChecked_bump; simp)+

lemma aggregator_add_deltas:
  "aggregator_add packet rec grp a = fold bump_ag (deltas packet rec grp) (a\<lparr>ag_records := ag_records a @ [rec]\<rparr>)"
proof -
  have loop: "fold (\<lambda>run. add_to_vector cand uv_cost uv_cost_update (ro_cost run)) grp =
      fold bump_ag (map (\<lambda>run. (Dim cand Cost, ro_cost run)) grp)" for cand
    by (simp add: fold_map comp_def add_to_vector_bump(5) [abs_def])
  show ?thesis
    unfolding aggregator_add_def deltas_def Let_def loop add_to_vector_bump add_cases_bump
    by (cases "rr_side rec = SideCandidate"; cases "rr_category rec = CategoryInfra"; cases "rr_category rec = CategoryNondeterministic"; cases "Passed rec")
      simp_all
qed

lemma bump_frame:
  "bump_ag x (a\<lparr>ag_records := r\<rparr>) = (bump_ag x a)\<lparr>ag_records := r\<rparr>"
  "bump_ag x (a\<lparr>ag_families := f\<rparr>) = (bump_ag x a)\<lparr>ag_families := f\<rparr>"
proof -
  obtain c d where x: "x = (c, d)" by fastforce
  have "counter_of (a\<lparr>ag_records := r\<rparr>) c = counter_of a c" "counter_of (a\<lparr>ag_families := f\<rparr>) c = counter_of a c"
    by (cases c; simp)+
  moreover have "set_counter c v (a\<lparr>ag_records := r\<rparr>) = (set_counter c v a)\<lparr>ag_records := r\<rparr>"
    "set_counter c v (a\<lparr>ag_families := f\<rparr>) = (set_counter c v a)\<lparr>ag_families := f\<rparr>" for v
    by (cases c; simp)+
  ultimately show "bump_ag x (a\<lparr>ag_records := r\<rparr>) = (bump_ag x a)\<lparr>ag_records := r\<rparr>"
    "bump_ag x (a\<lparr>ag_families := f\<rparr>) = (bump_ag x a)\<lparr>ag_families := f\<rparr>"
    by (simp_all add: bump_def x split: sum.split)
qed

lemma bumps_frame:
  "fold bump_ag ds (a\<lparr>ag_records := r\<rparr>) = (fold bump_ag ds a)\<lparr>ag_records := r\<rparr>"
  "fold bump_ag ds (a\<lparr>ag_families := f\<rparr>) = (fold bump_ag ds a)\<lparr>ag_families := f\<rparr>"
  by (induction ds arbitrary: a) (simp_all add: bump_frame)

lemma bump_keep: "ag_records (bump_ag x a) = ag_records a" "ag_families (bump_ag x a) = ag_families a"
proof -
  have "ag_records (set_counter c v a) = ag_records a" "ag_families (set_counter c v a) = ag_families a" for c v
    by (cases c; simp)+
  then show "ag_records (bump_ag x a) = ag_records a" "ag_families (bump_ag x a) = ag_families a"
    by (simp_all add: bump_def split: sum.split)
qed

lemma bumps_keep: "ag_records (fold bump_ag ds a) = ag_records a" "ag_families (fold bump_ag ds a) = ag_families a"
  by (induction ds arbitrary: a) (simp_all add: bump_keep)

subsection \<open>The whole plan\<close>

definition packet_key :: "Family \<times> Packet \<Rightarrow> packetKey" where
  "packet_key fp = (fm_name (fst fp), pk_id (snd fp), pk_side (snd fp))"

definition plan_packets :: "Plan \<Rightarrow> (Family \<times> Packet) list" where
  "plan_packets plan = concat (map (\<lambda>family. map (Pair family) (fm_packets family)) plan)"

text \<open>The category a planned packet gets, and when it gets one.\<close>

definition category_of :: "Service \<Rightarrow> observed \<Rightarrow> Family \<times> Packet \<Rightarrow> string" where
  "category_of s obs fp =
     (if nondeterministic obs (packet_key fp) then CategoryNondeterministic
      else if pk_status (snd fp) = ''succeeded'' then CategorySemanticPass
      else if isInfraCode s (pk_reason (snd fp)) then CategoryInfra
      else CategorySemanticFail)"

definition reproduced :: "observed \<Rightarrow> Family \<times> Packet \<Rightarrow> bool" where
  "reproduced obs fp = (nondeterministic obs (packet_key fp) \<or> verify_outputs (snd fp) (runs_of obs (packet_key fp)) = Inr ())"

definition record_for :: "Service \<Rightarrow> observed \<Rightarrow> Family \<times> Packet \<Rightarrow> RunRecord" where
  "record_for s obs fp = record_of (fst fp) (snd fp) (category_of s obs fp)"

definition packet_deltas :: "Service \<Rightarrow> observed \<Rightarrow> Family \<times> Packet \<Rightarrow> (counter \<times> int64) list" where
  "packet_deltas s obs fp = deltas (snd fp) (record_for s obs fp) (runs_of obs (packet_key fp))"

definition family_of :: "Service \<Rightarrow> observed \<Rightarrow> Family \<Rightarrow> familyAggregation" where
  "family_of s obs family =
     \<lparr>fa_name = fm_name family, fa_domain = fm_domain family, fa_baseline = (case fm_baseline family of None \<Rightarrow> [] | Some b \<Rightarrow> b),
      fa_packets = map (\<lambda>packet. \<lparr>ap_packet = packet, ap_record = record_for s obs (family, packet),
        ap_digests = sort_strings (map ro_digest (runs_of obs (packet_key (family, packet))))\<rparr>) (fm_packets family)\<rparr>"

lemma classify_Inr: "classify s obs (fm_name family) packet = Inr c \<longleftrightarrow>
    reproduced obs (family, packet) \<and> c = category_of s obs (family, packet)"
  by (auto simp: classify_def reproduced_def category_of_def packet_key_def Let_def and_then_Inr)

text \<open>The two loops in closed form.\<close>

lemma aggregate_packets_closed:
  "aggregate_packets s obs family ps (fam, agg) = Inr st \<longleftrightarrow>
     (\<forall>p \<in> set ps. reproduced obs (family, p)) \<and>
     st = (fam\<lparr>fa_packets := fa_packets fam @ map (\<lambda>packet. \<lparr>ap_packet = packet, ap_record = record_for s obs (family, packet),
             ap_digests = sort_strings (map ro_digest (runs_of obs (packet_key (family, packet))))\<rparr>) ps\<rparr>,
           (fold bump_ag (concat (map (\<lambda>p. packet_deltas s obs (family, p)) ps)) agg)
             \<lparr>ag_records := ag_records agg @ map (\<lambda>p. record_for s obs (family, p)) ps\<rparr>)"
proof (induction ps arbitrary: fam agg)
  case Nil
  then show ?case by auto
next
  case (Cons p ps)
  have key: "packet_key (family, p) = (fm_name family, pk_id p, pk_side p)" by (simp add: packet_key_def)
  have rec: "record_of family p (category_of s obs (family, p)) = record_for s obs (family, p)"
    by (simp add: record_for_def)
  show ?case
    by (simp add: and_then_Inr classify_Inr Let_def Cons.IH rec key [symmetric] addPacket_def aggregator_add_deltas
        bumps_frame bumps_keep packet_deltas_def)
qed

lemma aggregate_plan_closed:
  "aggregate_plan s obs plan agg = Inr agg' \<longleftrightarrow>
     (\<forall>fp \<in> set (plan_packets plan). reproduced obs fp) \<and>
     agg' = (fold bump_ag (concat (map (packet_deltas s obs) (plan_packets plan))) agg)
       \<lparr>ag_records := ag_records agg @ map (record_for s obs) (plan_packets plan),
        ag_families := ag_families agg @ map (family_of s obs) plan\<rparr>"
proof (induction plan arbitrary: agg)
  case Nil
  then show ?case by (auto simp: plan_packets_def)
next
  case (Cons family plan)
  have pp: "plan_packets (family # plan) = map (Pair family) (fm_packets family) @ plan_packets plan"
    by (simp add: plan_packets_def)
  show ?case
    by (simp add: and_then_Inr aggregate_packets_closed Cons.IH pp addFamily_def bumps_frame bumps_keep comp_def family_of_def) blast
qed

subsection \<open>Correlated runs\<close>

definition run_family :: "(packetKey \<times> Packet) list \<times> string gmap \<Rightarrow> RunOutput \<Rightarrow> string option" where
  "run_family idx run = map_of (snd idx) (ro_packet run @ CHR 0x1F # ro_side run)"

definition run_key :: "(packetKey \<times> Packet) list \<times> string gmap \<Rightarrow> RunOutput \<Rightarrow> packetKey" where
  "run_key idx run = (case run_family idx run of None \<Rightarrow> ([], [], []) | Some family \<Rightarrow> (family, ro_packet run, ro_side run))"

definition planned :: "(packetKey \<times> Packet) list \<times> string gmap \<Rightarrow> RunOutput \<Rightarrow> Packet" where
  "planned idx run = (case map_of (fst idx) (run_key idx run) of None \<Rightarrow> zero_packet | Some packet \<Rightarrow> packet)"

definition run_ok :: "Request \<Rightarrow> (packetKey \<times> Packet) list \<times> string gmap \<Rightarrow> RunOutput \<Rightarrow> bool" where
  "run_ok req idx run = (ro_side run \<in> set closedSides \<and> run_family idx run \<noteq> None \<and> checkRunCorrelation req (planned idx run) run = Inr ())"

definition observe :: "(packetKey \<times> Packet) list \<times> string gmap \<Rightarrow> RunOutput \<Rightarrow> observed \<Rightarrow> observed" where
  "observe idx run obs = gput (run_key idx run) (runs_of obs (run_key idx run) @ [run]) obs"

lemma correlate_closed:
  "correlate req idx obs runs = Inr obs' \<longleftrightarrow> (\<forall>run \<in> set runs. run_ok req idx run) \<and> obs' = fold (observe idx) runs obs"
proof (induction runs arbitrary: obs)
  case (Cons run runs)
  show ?case
  proof (cases "run_family idx run")
    case None
    then show ?thesis by (auto simp: run_family_def [symmetric] run_ok_def)
  next
    case (Some family)
    then have "run_key idx run = (family, ro_packet run, ro_side run)" by (simp add: run_key_def)
    with Some show ?thesis
      by (simp add: run_family_def [symmetric] run_ok_def planned_def Let_def and_then_Inr Cons.IH observe_def)
  qed
qed auto

lemma runs_of_observed:
  "runs_of (fold (observe idx) runs obs) key = runs_of obs key @ filter (\<lambda>run. run_key idx run = key) runs"
  by (induction runs arbitrary: obs) (auto simp: observe_def runs_of_def)

lemma grouped: "runs_of (fold (observe idx) runs []) key = filter (\<lambda>run. run_key idx run = key) runs"
  by (simp add: runs_of_observed) (simp add: runs_of_def)

lemma keys_observed: "fst ` set (fold (observe idx) runs obs) = fst ` set obs \<union> run_key idx ` set runs"
  by (induction runs arbitrary: obs) (auto simp: observe_def keys_gput)

lemma nondeterministic_set:
  "nondeterministic obs key \<longleftrightarrow> (\<exists>x \<in> set (runs_of obs key). \<exists>y \<in> set (runs_of obs key). ro_digest x \<noteq> ro_digest y)"
  by (cases "runs_of obs key") (auto simp: nondeterministic_def list_ex_iff, metis+)

text \<open>Two observations of the same runs in another order.\<close>

definition same_runs :: "observed \<Rightarrow> observed \<Rightarrow> bool" where
  "same_runs obs obs' = (\<forall>key. mset (runs_of obs key) = mset (runs_of obs' key))"

lemma same_runs_mset: "same_runs obs obs' \<Longrightarrow> mset (runs_of obs' key) = mset (runs_of obs key)"
  by (simp only: same_runs_def)

lemma same_runs_set: "same_runs obs obs' \<Longrightarrow> set (runs_of obs key) = set (runs_of obs' key)"
  unfolding same_runs_def by (metis mset_eq_setD)

lemma same_runs_length: "same_runs obs obs' \<Longrightarrow> length (runs_of obs key) = length (runs_of obs' key)"
  unfolding same_runs_def by (metis mset_eq_length)

lemma same_runs_facts:
  assumes "same_runs obs obs'"
  shows "nondeterministic obs' = nondeterministic obs" "reproduced obs' = reproduced obs"
    "record_for s obs' = record_for s obs" "family_of s obs' = family_of s obs"
    "family_complete obs' = family_complete obs" "mset (packet_deltas s obs' fp) = mset (packet_deltas s obs fp)"
proof -
  note set = same_runs_set [OF assms]
  show nd: "nondeterministic obs' = nondeterministic obs"
    by (intro ext) (simp add: nondeterministic_set set)
  show "reproduced obs' = reproduced obs"
    by (intro ext) (simp add: reproduced_def nd verify_outputs_def for_each_Inr set)
  show rec: "record_for s obs' = record_for s obs"
    by (intro ext) (simp add: record_for_def category_of_def nd)
  have "sort_strings (map ro_digest (runs_of obs' key)) = sort_strings (map ro_digest (runs_of obs key))" for key
  proof -
    have "mset (map ro_digest (runs_of obs' key)) = mset (map ro_digest (runs_of obs key))"
      using same_runs_mset [OF assms] by simp
    then show ?thesis unfolding sort_strings_sort by (metis mset_sort properties_for_sort sorted_sort)
  qed
  then show "family_of s obs' = family_of s obs" by (intro ext) (simp add: family_of_def rec)
  have "runs_of obs' key = [] \<longleftrightarrow> runs_of obs key = []" for key
    using set [of key] by (metis set_empty2)
  then show "family_complete obs' = family_complete obs" by (intro ext) (simp add: family_complete_def)
  have "len64 (runs_of obs' key) = len64 (runs_of obs key)" for key
    using same_runs_length [OF assms, of key] by (simp add: len64_def)
  moreover have "mset (runs_of obs' key) = mset (runs_of obs key)" for key using same_runs_mset [OF assms] .
  ultimately show "mset (packet_deltas s obs' fp) = mset (packet_deltas s obs fp)"
    by (simp add: packet_deltas_def deltas_def rec Let_def)
qed

lemma sint_len64: "length xs < 2 ^ 63 \<Longrightarrow> sint (len64 xs) = int (length xs)"
  by (simp add: len64_def sint_uint64 unsigned_of_nat take_bit_eq_mod)

lemma deltas_nonneg:
  assumes "x \<in> set (deltas packet rec grp)" "\<And>run. run \<in> set grp \<Longrightarrow> 0 \<le> sint (ro_cost run)" "length grp < 2 ^ 63"
  shows "0 \<le> sint (snd x)"
  using assms(1,2) sint_len64 [OF assms(3)] by (auto simp: deltas_def Let_def split: if_splits)

subsection \<open>The canonicaliser in closed form\<close>

definition total_agg :: "Service \<Rightarrow> observed \<Rightarrow> Plan \<Rightarrow> aggregator" where
  "total_agg s obs plan = (fold bump_ag (concat (map (packet_deltas s obs) (plan_packets plan))) newAggregator)
     \<lparr>ag_records := map (record_for s obs) (plan_packets plan), ag_families := map (family_of s obs) plan\<rparr>"

definition finish :: "env \<Rightarrow> Service \<Rightarrow> Request \<Rightarrow> Plan \<Rightarrow> observed \<Rightarrow> Result res" where
  "finish ev s req plan obs =
     (if ag_overflowed (total_agg s obs plan) then mintResult ev s req plan (total_agg s obs plan) StatusInconclusive ReasonUtilityArithmeticOverflow
      else if \<exists>key \<in> fst ` set obs. nondeterministic obs key
      then mintResult ev s req plan (total_agg s obs plan) StatusInconclusive ReasonReplayNondeterministic
      else mintResult ev s req plan (total_agg s obs plan) StatusSucceeded [])"

lemma Canonicalize_Inr:
  "Canonicalize ev s (Some req) (Some plan) runs = Inr res \<longleftrightarrow>
     Plan_validate plan = Inr () \<and> checkPlanAgainstRequest req plan = Inr () \<and>
     (\<exists>idx. index_plan plan ([], []) = Inr idx \<and> (\<forall>run \<in> set runs. run_ok req idx run) \<and>
        (\<forall>family \<in> set plan. family_complete (fold (observe idx) runs []) family = Inr ()) \<and>
        (\<forall>fp \<in> set (plan_packets plan). reproduced (fold (observe idx) runs []) fp) \<and>
        finish ev s req plan (fold (observe idx) runs []) = Inr res)"
proof -
  have new: "ag_records newAggregator = []" "ag_families newAggregator = []" by (simp_all add: newAggregator_def)
  show ?thesis
    by (auto simp: Canonicalize_def and_then_Inr correlate_closed for_each_Inr aggregate_plan_closed new
        total_agg_def [symmetric] finish_def inconclusiveResult_def list_ex_iff)
qed

definition result_counter :: "Result \<Rightarrow> counter \<Rightarrow> int64" where
  "result_counter res c =
     (case c of
        CandCases \<Rightarrow> rs_candidate_cases res
      | EnvCases \<Rightarrow> rs_envelope_cases res
      | Dim cand d \<Rightarrow> dim_of d (if cand then rs_utility res else rs_envelope res))"

lemma mintResult_fields:
  assumes "mintResult ev s req plan agg status code = Inr res"
  shows "rs_status res = status" "rs_failure res = code" "result_counter res c = counter_of agg c"
    "rs_records res = sort_by record_less (ag_records agg)" "gate ev (sv_gates s) (Result_Doc res) SchemaReplayResult = Inr ()"
proof -
  from assms have f: "rs_status res = status" "rs_failure res = code" "rs_utility res = ag_utility agg" "rs_envelope res = ag_envelope agg"
      "rs_candidate_cases res = ag_cand_cases agg" "rs_envelope_cases res = ag_env_cases agg"
      "rs_records res = sort_by record_less (ag_records agg)" "gate ev (sv_gates s) (Result_Doc res) SchemaReplayResult = Inr ()"
    unfolding mintResult_def Let_def and_then_Inr by (auto simp: recode_def split: sum.splits)
  then show "rs_status res = status" "rs_failure res = code" "rs_records res = sort_by record_less (ag_records agg)"
    "gate ev (sv_gates s) (Result_Doc res) SchemaReplayResult = Inr ()" by simp_all
  show "result_counter res c = counter_of agg c" by (cases c) (simp_all add: result_counter_def f)
qed

lemma finish_fields:
  assumes "finish ev s req plan obs = Inr res"
  shows "rs_failure res = ReasonUtilityArithmeticOverflow \<longleftrightarrow> ag_overflowed (total_agg s obs plan)"
    "rs_status res = StatusSucceeded \<longleftrightarrow> \<not> ag_overflowed (total_agg s obs plan) \<and> \<not> (\<exists>key \<in> fst ` set obs. nondeterministic obs key)"
    "result_counter res c = counter_of (total_agg s obs plan) c"
    "rs_records res = sort_by record_less (map (record_for s obs) (plan_packets plan))"
    "gate ev (sv_gates s) (Result_Doc res) SchemaReplayResult = Inr ()"
  using assms mintResult_fields [of ev s req plan "total_agg s obs plan" _ _ res]
  by (auto simp: finish_def total_agg_def split: if_splits)

text \<open>The exact total of a counter over the plan.\<close>

definition plan_total :: "Service \<Rightarrow> observed \<Rightarrow> Plan \<Rightarrow> counter \<Rightarrow> int" where
  "plan_total s obs plan c = sum_list (map (\<lambda>fp. added (packet_deltas s obs fp) c) (plan_packets plan))"

lemma new_counters: "counter_of newAggregator c = 0" "\<not> ag_overflowed newAggregator"
proof -
  have "dim_of d zero_vector = 0" for d by (cases d) (simp_all add: zero_vector_def)
  then show "counter_of newAggregator c = 0" by (cases c) (simp_all add: newAggregator_def)
  show "\<not> ag_overflowed newAggregator" by (simp add: newAggregator_def)
qed

lemma plan_deltas_nonneg:
  assumes "x \<in> set (concat (map (packet_deltas s (fold (observe idx) runs [])) (plan_packets plan)))"
    "\<forall>run \<in> set runs. 0 \<le> sint (ro_cost run)" "length runs < 2 ^ 63"
  shows "0 \<le> sint (snd x)"
proof -
  from assms(1) obtain fp where "x \<in> set (packet_deltas s (fold (observe idx) runs []) fp)" by auto
  moreover have "length (filter P runs) < 2 ^ 63" for P
    by (rule le_less_trans [OF length_filter_le assms(3)])
  ultimately show ?thesis
    using deltas_nonneg [of x "snd fp" "record_for s (fold (observe idx) runs []) fp" "filter (\<lambda>run. run_key idx run = packet_key fp) runs"] assms(2)
    by (simp add: packet_deltas_def grouped)
qed

lemma total_agg_exact:
  fixes idx runs
  defines "obs \<equiv> fold (observe idx) runs []"
  assumes "\<forall>run \<in> set runs. 0 \<le> sint (ro_cost run)" "length runs < 2 ^ 63"
  shows "ag_overflowed (total_agg s obs plan) \<longleftrightarrow> (\<exists>c. 2 ^ 63 \<le> plan_total s obs plan c)"
    and "\<not> ag_overflowed (total_agg s obs plan) \<Longrightarrow> sint (counter_of (total_agg s obs plan) c) = plan_total s obs plan c"
proof -
  let ?ds = "concat (map (packet_deltas s obs) (plan_packets plan))"
  have ds: "added ?ds c = plan_total s obs plan c" for c by (simp add: added_concat plan_total_def comp_def)
  have frame: "ag_overflowed (total_agg s obs plan) = ag_overflowed (fold bump_ag ?ds newAggregator)"
    "counter_of (total_agg s obs plan) c = counter_of (fold bump_ag ?ds newAggregator) c" for c
    by (simp add: total_agg_def, cases c) (simp_all add: total_agg_def)
  have nn: "x \<in> set ?ds \<Longrightarrow> 0 \<le> sint (snd x)" for x unfolding obs_def by (rule plan_deltas_nonneg [OF _ assms(2,3)])
  show "ag_overflowed (total_agg s obs plan) \<longleftrightarrow> (\<exists>c. 2 ^ 63 \<le> plan_total s obs plan c)"
    using ag.fold_exact(1) [of newAggregator ?ds] nn by (simp add: new_counters frame ds)
  show "sint (counter_of (total_agg s obs plan) c) = plan_total s obs plan c" if "\<not> ag_overflowed (total_agg s obs plan)"
    using ag.fold_exact(2) [of newAggregator ?ds c] nn that by (simp add: new_counters frame ds)
qed

lemma total_agg_perm:
  fixes idx runs runs'
  defines "obs \<equiv> fold (observe idx) runs []" and "obs' \<equiv> fold (observe idx) runs' []"
  assumes perm: "mset runs = mset runs'" and cost: "\<forall>run \<in> set runs. 0 \<le> sint (ro_cost run)" and len: "length runs < 2 ^ 63"
    and ok: "\<not> ag_overflowed (total_agg s obs plan)"
  shows "total_agg s obs' plan = total_agg s obs plan"
proof -
  have same: "same_runs obs obs'"
    unfolding same_runs_def obs_def obs'_def using perm by (simp add: grouped)
  have total: "plan_total s obs' plan = plan_total s obs plan"
    using added_mset [OF same_runs_facts(6) [OF same]] by (intro ext) (simp add: plan_total_def)
  have cost': "\<forall>run \<in> set runs'. 0 \<le> sint (ro_cost run)" and len': "length runs' < 2 ^ 63"
    using cost len mset_eq_setD [OF perm] mset_eq_length [OF perm] by auto
  note ex = total_agg_exact [OF cost len, of s idx plan, folded obs_def]
  note ex' = total_agg_exact [OF cost' len', of s idx plan, folded obs'_def]
  have ok': "\<not> ag_overflowed (total_agg s obs' plan)" using ex(1) ex'(1) ok total by simp
  show ?thesis
  proof (rule counters_eqI)
    fix c
    show "counter_of (total_agg s obs' plan) c = counter_of (total_agg s obs plan) c"
    proof (rule signed_word_eqI)
      show "sint (counter_of (total_agg s obs' plan) c) = sint (counter_of (total_agg s obs plan) c)"
        using ex(2) [OF ok] ex'(2) [OF ok'] total by simp
    qed
  qed (use ok ok' same_runs_facts(3,4) [OF same] in \<open>simp_all add: total_agg_def\<close>)
qed

subsection \<open>What a packet contributes\<close>

fun contribution :: "counter \<Rightarrow> Packet \<Rightarrow> RunRecord \<Rightarrow> RunOutput list \<Rightarrow> int" where
  "contribution CandCases packet rec grp = (if rr_side rec = SideCandidate then int (length grp) else 0)"
| "contribution EnvCases packet rec grp = (if rr_side rec = SideCandidate then 0 else int (length grp))"
| "contribution (Dim cand d) packet rec grp =
     (if cand \<noteq> (rr_side rec = SideCandidate) then 0
      else
        (case d of
           Task \<Rightarrow> of_bool (Passed rec)
         | Critical \<Rightarrow> of_bool (Passed rec \<and> pk_critical packet)
         | Recovery \<Rightarrow> of_bool (Passed rec \<and> rr_recovery rec)
         | Inconclusive \<Rightarrow> if rr_category rec \<in> {CategoryNondeterministic, CategoryInfra} then int (length grp) else 0
         | Cost \<Rightarrow> sum_list (map (\<lambda>run. sint (ro_cost run)) grp)))"

lemma added_costs: "added (map (\<lambda>run. (Dim b Cost, ro_cost run)) grp) c =
    (if c = Dim b Cost then sum_list (map (\<lambda>run. sint (ro_cost run)) grp) else 0)"
  by (induction grp) auto

lemma added_deltas:
  assumes "rr_side rec \<in> set closedSides" "length grp < 2 ^ 63"
  shows "added (deltas packet rec grp) c = contribution c packet rec grp"
proof -
  have one: "sint (1 :: int64) = 1" by simp
  have side: "rr_side rec = SideCandidate \<or> rr_side rec = SideBaseline" using assms(1) by (auto simp: closedSides_def)
  show ?thesis
  proof (cases c)
    case (Dim b d)
    then show ?thesis using side sint_len64 [OF assms(2)]
      by (cases d) (auto simp: deltas_def Let_def added_costs Passed_def)
  qed (use side sint_len64 [OF assms(2)] in \<open>auto simp: deltas_def Let_def added_costs\<close>)
qed

subsection \<open>The index of the plan\<close>

definition indexed :: "Plan \<Rightarrow> (packetKey \<times> Packet) list \<times> string gmap \<Rightarrow> bool" where
  "indexed plan idx =
     ((\<forall>key packet. map_of (fst idx) key = Some packet \<longrightarrow> (\<exists>family \<in> set plan. packet \<in> set (fm_packets family) \<and> key = packet_key (family, packet))) \<and>
      (\<forall>name family. map_of (snd idx) name = Some family \<longrightarrow>
         (\<exists>fam \<in> set plan. \<exists>packet \<in> set (fm_packets fam). fm_name fam = family \<and> name = pk_id packet @ CHR 0x1F # pk_side packet \<and>
            map_of (fst idx) (packet_key (fam, packet)) \<noteq> None)))"

lemma index_packets_indexed:
  assumes "index_packets (fm_name family) ps idx = Inr idx'" "indexed plan idx" "family \<in> set plan" "set ps \<subseteq> set (fm_packets family)"
  shows "indexed plan idx'"
  using assms
proof (induction ps arbitrary: idx)
  case (Cons p ps)
  obtain m f where idx: "idx = (m, f)" by fastforce
  let ?key = "(fm_name family, pk_id p, pk_side p)"
  from Cons.prems(1) have "index_packets (fm_name family) ps (gput ?key p m, gput (pk_id p @ CHR 0x1F # pk_side p) (fm_name family) f) = Inr idx'"
    by (simp add: idx Let_def split: if_splits)
  moreover have "indexed plan (gput ?key p m, gput (pk_id p @ CHR 0x1F # pk_side p) (fm_name family) f)"
    unfolding indexed_def
  proof (intro conjI allI impI)
    fix key packet
    assume "map_of (fst (gput ?key p m, gput (pk_id p @ CHR 0x1F # pk_side p) (fm_name family) f)) key = Some packet"
    then have "(if key = ?key then Some p else map_of m key) = Some packet" by (simp add: fun_upd_def)
    then consider "key = ?key" "packet = p" | "map_of m key = Some packet" by (cases "key = ?key") simp_all
    then show "\<exists>family \<in> set plan. packet \<in> set (fm_packets family) \<and> key = packet_key (family, packet)"
    proof cases
      case 1
      then show ?thesis using Cons.prems(3,4) by (auto simp: packet_key_def)
    next
      case 2
      then show ?thesis using Cons.prems(2) unfolding indexed_def idx fst_conv by blast
    qed
  next
    fix name fname
    assume "map_of (snd (gput ?key p m, gput (pk_id p @ CHR 0x1F # pk_side p) (fm_name family) f)) name = Some fname"
    then have "(if name = pk_id p @ CHR 0x1F # pk_side p then Some (fm_name family) else map_of f name) = Some fname" by (simp add: fun_upd_def)
    then consider "name = pk_id p @ CHR 0x1F # pk_side p" "fname = fm_name family" | "map_of f name = Some fname"
      by (cases "name = pk_id p @ CHR 0x1F # pk_side p") simp_all
    then show "\<exists>fam \<in> set plan. \<exists>packet \<in> set (fm_packets fam). fm_name fam = fname \<and> name = pk_id packet @ CHR 0x1F # pk_side packet \<and>
        map_of (fst (gput ?key p m, gput (pk_id p @ CHR 0x1F # pk_side p) (fm_name family) f)) (packet_key (fam, packet)) \<noteq> None"
    proof cases
      case 1
      then show ?thesis using Cons.prems(3,4) by (intro bexI [of _ family] bexI [of _ p]) (simp_all add: packet_key_def)
    next
      case 2
      then obtain fam packet where "fam \<in> set plan" "packet \<in> set (fm_packets fam)" "fm_name fam = fname"
        "name = pk_id packet @ CHR 0x1F # pk_side packet" "map_of m (packet_key (fam, packet)) \<noteq> None"
        using Cons.prems(2) unfolding indexed_def idx snd_conv fst_conv by blast
      then show ?thesis by (intro bexI [of _ fam] bexI [of _ packet]) simp_all
    qed
  qed
  ultimately show ?case using Cons by simp
qed simp

lemma index_plan_indexed:
  assumes "index_plan ps idx = Inr idx'" "indexed plan idx" "set ps \<subseteq> set plan"
  shows "indexed plan idx'"
  using assms
proof (induction ps arbitrary: idx)
  case (Cons family ps)
  then show ?case by (auto simp: and_then_Inr intro: index_packets_indexed)
qed simp

lemma split_at_first: "x \<notin> set as \<Longrightarrow> x \<notin> set cs \<Longrightarrow> as @ x # bs = cs @ x # ds \<longleftrightarrow> as = cs \<and> bs = ds"
proof (induction as arbitrary: cs)
  case Nil
  then show ?case by (cases cs) auto
next
  case (Cons a as)
  then show ?case by (cases cs) auto
qed

lemma separator_unique:
  assumes "a @ x # b = c @ x # d" "x \<notin> set b" "x \<notin> set d"
  shows "a = c \<and> b = d"
proof -
  have "rev b @ x # rev a = rev d @ x # rev c" using arg_cong [OF assms(1), of rev] by simp
  then show ?thesis using split_at_first [of x "rev b" "rev d"] assms by simp
qed

lemma validate_families_sides:
  "validate_families seen plan = Inr () \<Longrightarrow> family \<in> set plan \<Longrightarrow> packet \<in> set (fm_packets family) \<Longrightarrow>
   pk_side packet \<in> set closedSides \<and> pk_artifact packet \<noteq> None"
  by (induction plan arbitrary: seen)
    (auto simp: validate_family_def validate_packet_def Let_def res_simps split: option.splits sum.splits)

lemma run_planned:
  assumes "Plan_validate plan = Inr ()" "index_plan plan ([], []) = Inr idx" "run_ok req idx run"
  obtains family where "family \<in> set plan" "planned idx run \<in> set (fm_packets family)" "run_key idx run = packet_key (family, planned idx run)"
    "ro_packet run = pk_id (planned idx run)" "ro_side run = pk_side (planned idx run)"
proof -
  have ix: "indexed plan idx" using index_plan_indexed [OF assms(2)] by (simp add: indexed_def)
  have sides: "pk_side packet \<in> set closedSides" if "family \<in> set plan" "packet \<in> set (fm_packets family)" for family packet
    using assms(1) validate_families_sides [OF _ that] by (auto simp: Plan_validate_def res_simps)
  have sep: "x \<in> set closedSides \<Longrightarrow> CHR 0x1F \<notin> set x" for x by (auto simp: closedSides_def)
  from assms(3) obtain name where name: "run_family idx run = Some name" and side: "ro_side run \<in> set closedSides"
    by (auto simp: run_ok_def)
  then obtain fam p where fp: "fam \<in> set plan" "p \<in> set (fm_packets fam)" "fm_name fam = name"
    "ro_packet run @ CHR 0x1F # ro_side run = pk_id p @ CHR 0x1F # pk_side p" "map_of (fst idx) (packet_key (fam, p)) \<noteq> None"
    using ix unfolding indexed_def run_family_def by blast
  with separator_unique [OF fp(4)] sep side sides have eq: "ro_packet run = pk_id p" "ro_side run = pk_side p" by blast+
  then have key: "run_key idx run = packet_key (fam, p)" using name fp(3) by (simp add: run_key_def packet_key_def)
  then have "map_of (fst idx) (run_key idx run) = Some (planned idx run)" using fp(5) by (auto simp: planned_def)
  then obtain family where "family \<in> set plan" "planned idx run \<in> set (fm_packets family)" "run_key idx run = packet_key (family, planned idx run)"
    using ix unfolding indexed_def by blast
  then show thesis using that key eq by (simp add: packet_key_def)
qed

subsection \<open>Minting succeeds\<close>

text \<open>The only way minting can fail is the authority schema of the result.\<close>

definition copyable :: "gobj \<Rightarrow> bool" where
  "copyable m = (hashable (GObject m) \<and> nesting (GObject m) \<le> max_nesting)"

lemma copyable_plain: "copyable m \<Longrightarrow> plain (GObject (deepCopyObject m))"
  unfolding copyable_def by (rule deepCopyObject_plain) blast+

lemma outcomeFor_total: "\<exists>outcome. outcomeFor fam = Inr outcome \<and> fo_baseline_ref outcome = fa_baseline fam \<and> vr_version (fo_fixture_ref outcome) = ''1''"
proof -
  have "\<exists>d. familyOutputDigest fam = Inr d" "\<exists>d. familyPlanDigest fam = Inr d"
    unfolding familyOutputDigest_def familyPlanDigest_def by (intro DigestOf_plain; auto simp: list_all_iff)+
  then show ?thesis by (auto simp: outcomeFor_def)
qed

lemma Result_Doc_plain:
  assumes "copyable (rs_candidate_doc r)" "vr_version (rs_request_ref r) = ''1''"
    "\<forall>outcome \<in> set (rs_outcomes r). copyable (fo_baseline_ref outcome) \<and> vr_version (fo_fixture_ref outcome) = ''1''"
  shows "plain (GObject (Result_Doc r))" "plain (GObject (resultPreimage (Result_Doc r)))" "map_of (Result_Doc r) ''extensions'' = None"
proof -
  have one: "integerForm ''1''" by code_simp
  have refs: "plain (GObject (versionedRefDoc (rs_request_ref r)))" using assms(2) one by (intro versionedRefDoc_plain) simp
  have cand: "plain (GObject (deepCopyObject (rs_candidate_doc r)))" using assms(1) by (rule copyable_plain)
  have out: "plain (GObject (FixtureOutcome_Doc oc))" if oc: "oc \<in> set (rs_outcomes r)" for oc
  proof -
    have "plain (GObject (deepCopyObject (fo_baseline_ref oc)))" using assms(3) oc by (intro copyable_plain) simp
    moreover have "plain (GObject (versionedRefDoc (fo_fixture_ref oc)))"
      using assms(3) oc one by (intro versionedRefDoc_plain) simp
    ultimately show ?thesis by (simp add: FixtureOutcome_Doc_def)
  qed
  have vec: "plain (GObject (UtilityVector_Doc (rs_utility r)))" by (simp add: UtilityVector_Doc_def)
  show doc: "plain (GObject (Result_Doc r))" using refs cand out vec
    by (auto simp: Result_Doc_def Let_def list_all_iff)
  show "plain (GObject (resultPreimage (Result_Doc r)))" using plain_gidx [OF doc] by (simp add: resultPreimage_def)
  show "map_of (Result_Doc r) ''extensions'' = None" by (simp add: Result_Doc_def Let_def)
qed

lemma mintResult_total:
  assumes "copyable (rq_candidate_doc req)" "\<forall>fam \<in> set (ag_families agg). copyable (fa_baseline fam)"
    "map_of (ss_docs (sv_gates s)) SchemaReplayResult = Some []"
  shows "\<exists>res. mintResult ev s req plan agg status code = Inr res"
proof -
  obtain os where os: "traverse outcomeFor (ag_families agg) = Inr os"
    "\<forall>oc \<in> set os. copyable (fo_baseline_ref oc) \<and> vr_version (fo_fixture_ref oc) = ''1''"
  proof -
    have "\<exists>os. traverse outcomeFor fams = Inr os \<and> (\<forall>oc \<in> set os. copyable (fo_baseline_ref oc) \<and> vr_version (fo_fixture_ref oc) = ''1'')"
      if "\<forall>fam \<in> set fams. copyable (fa_baseline fam)" for fams
      using that
    proof (induction fams)
      case (Cons fam fams)
      then obtain os where "traverse outcomeFor fams = Inr os" "\<forall>oc \<in> set os. copyable (fo_baseline_ref oc) \<and> vr_version (fo_fixture_ref oc) = ''1''"
        by auto
      moreover obtain oc where "outcomeFor fam = Inr oc" "fo_baseline_ref oc = fa_baseline fam" "vr_version (fo_fixture_ref oc) = ''1''"
        using outcomeFor_total by blast
      ultimately show ?case using Cons.prems by (intro exI [of _ "oc # os"]) simp
    qed simp
    then show thesis using that assms(2) by blast
  qed
  obtain rid where rid: "deriveResultID req plan = Inr rid"
    using DigestOf_plain [of "GObject [(''request_digest'', GString (rq_digest req)),
        (''families'', GArray (sort_by key_order (map (\<lambda>family. GString (fm_name family)) plan)))]"]
    by (auto simp: deriveResultID_def list_all_iff)
  define r where "r = \<lparr>rs_id = rid, rs_request_ref = Request_Ref req, rs_candidate_doc = rq_candidate_doc req,
           rs_status = status, rs_outcomes = sort_by outcome_less os, rs_utility = ag_utility agg,
           rs_envelope = ag_envelope agg, rs_candidate_cases = ag_cand_cases agg, rs_envelope_cases = ag_env_cases agg,
           rs_failure = code, rs_digest = [], rs_records = sort_by record_less (ag_records agg)\<rparr>"
  have doc: "copyable (rs_candidate_doc (r\<lparr>rs_digest := d\<rparr>))" "vr_version (rs_request_ref (r\<lparr>rs_digest := d\<rparr>)) = ''1''"
    "\<forall>outcome \<in> set (rs_outcomes (r\<lparr>rs_digest := d\<rparr>)). copyable (fo_baseline_ref outcome) \<and> vr_version (fo_fixture_ref outcome) = ''1''" for d
    using assms(1) os(2) by (simp_all add: r_def Request_Ref_def)
  have "plain (GObject (resultPreimage (Result_Doc r)))" using doc [of "rs_digest r"] by (intro Result_Doc_plain) simp_all
  then obtain d where "DigestOf (GObject (resultPreimage (Result_Doc r))) = Inr d" using DigestOf_plain by blast
  moreover have "gate ev (sv_gates s) (Result_Doc (r\<lparr>rs_digest := d\<rparr>)) SchemaReplayResult = Inr ()"
    by (intro open_gate assms(3) Result_Doc_plain doc)
  ultimately have "mintResult ev s req plan agg status code = Inr (r\<lparr>rs_digest := d\<rparr>)"
    unfolding mintResult_def os(1) rid recode_def Let_def by (simp only: sum.case and_then_simps r_def [symmetric])
  then show ?thesis by blast
qed

subsection \<open>A concrete replay\<close>

definition sample_packet :: Packet where
  "sample_packet = \<lparr>pk_id = ''p'', pk_side = SideBaseline, pk_path_domains = [], pk_critical = False, pk_status = StatusSucceeded,
     pk_reason = [], pk_digest = sample_digest, pk_artifact = Some (skillRefDoc sample_skill_ref)\<rparr>"

definition sample_plan :: Plan where
  "sample_plan = [\<lparr>fm_name = ''f'', fm_domain = ''general'', fm_sides = [SideBaseline],
     fm_baseline = Some (skillRefDoc sample_skill_ref), fm_packets = [sample_packet]\<rparr>]"

definition sample_run :: "int64 \<Rightarrow> RunOutput" where
  "sample_run cost = \<lparr>ro_packet = ''p'', ro_side = SideBaseline, ro_status = StatusSucceeded, ro_reason = [], ro_digest = sample_digest,
     ro_output = [], ro_cost = cost, ro_artifact = Some (skillRefDoc sample_skill_ref), ro_adapter = None, ro_profile = None\<rparr>"

definition sample_ref :: VersionedRef where
  "sample_ref = \<lparr>vr_id = ''r'', vr_version = ''1'', vr_digest = sample_digest\<rparr>"

definition sample_request :: Request where
  "sample_request = \<lparr>rq_doc = [], rq_id = ''q'', rq_candidate = \<lparr>car_schema_version = SchemaCandidateArtifactRef,
       car_candidate_id = ''c'', car_kind = ''tool'', car_body_digest = sample_digest, car_origin_type = ''skill_proposal'',
       car_origin_ref = sample_ref\<rparr>, rq_candidate_doc = [], rq_baselines = [sample_skill_ref],
     rq_baseline_docs = [skillRefDoc sample_skill_ref], rq_adapter = sample_ref, rq_profile = sample_ref, rq_idempotency_key = [],
     rq_heads = [], rq_digest = sample_digest\<rparr>"

definition sample_service :: Service where
  "sample_service = \<lparr>sv_gates = \<lparr>ss_dir = [], ss_docs = [(SchemaReplayResult, [])], ss_names = [SchemaReplayResult]\<rparr>,
     sv_policy = \<lparr>rp_path = [], rp_schema_version = [], rp_policy_id = [], rp_registry_owner = [],
       rp_registry_digest = [], rp_codes = [], rp_names = []\<rparr>\<rparr>"

lemma ParseSkillArtifactRef_doc: "sar_ok r \<Longrightarrow> ParseSkillArtifactRef (skillRefDoc r) = Inr r"
  by (cases r) (auto simp: ParseSkillArtifactRef_def res_simps sar_ok_def skillRefDoc_def str_or_empty_const
      legacySkillArtifactRefAliases_def)

lemma sample_plan_ok: "Plan_validate sample_plan = Inr ()" "checkPlanAgainstRequest sample_request sample_plan = Inr ()"
  "index_plan sample_plan ([], []) = Inr ([((''f'', ''p'', SideBaseline), sample_packet)], [(''p'' @ CHR 0x1F # SideBaseline, ''f'')])"
proof -
  have parse: "ParseSkillArtifactRef (skillRefDoc sample_skill_ref) = Inr sample_skill_ref"
    by (rule ParseSkillArtifactRef_doc [OF sample_skill_ref_ok])
  have "digestShaped sample_digest" using sample_digest_ok
    by (simp add: digestShaped_def sample_digest_def list_all_iff)
  then show "Plan_validate sample_plan = Inr ()"
    by (simp add: Plan_validate_def sample_plan_def validate_family_def validate_packet_def sample_packet_def closedDomains_def closedSides_def parse)
  show "checkPlanAgainstRequest sample_request sample_plan = Inr ()"
    by (simp add: checkPlanAgainstRequest_def sample_plan_def sample_request_def IsMerge_def)
  show "index_plan sample_plan ([], []) = Inr ([((''f'', ''p'', SideBaseline), sample_packet)], [(''p'' @ CHR 0x1F # SideBaseline, ''f'')])"
    by (simp add: sample_plan_def sample_packet_def has_key_def)
qed

lemma sample_copyable: "copyable []" "copyable (skillRefDoc sample_skill_ref)"
proof -
  show "copyable []" by (simp add: copyable_def max_nesting_def)
  have "valid_text sample_digest" by (rule valid_text_ascii) (simp add: sample_digest_def list_all_iff)
  then show "copyable (skillRefDoc sample_skill_ref)"
    by (simp add: copyable_def max_nesting_def gmap_ok_def skillRefDoc_def sample_skill_ref_def valid_text_ascii integerForm_def
      unsigned_form_def is_digit19_def is_digit_def less_eq_char_def)
qed

lemma sample_replay:
  assumes "runs \<noteq> []" "set runs \<subseteq> range sample_run"
  shows "\<exists>res. Canonicalize ev sample_service (Some sample_request) (Some sample_plan) runs = Inr res"
proof -
  let ?idx = "([((''f'', ''p'', SideBaseline), sample_packet)], [(''p'' @ CHR 0x1F # SideBaseline, ''f'')])"
  have parse: "ParseSkillArtifactRef (skillRefDoc sample_skill_ref) = Inr sample_skill_ref"
    by (rule ParseSkillArtifactRef_doc [OF sample_skill_ref_ok])
  have key: "run_key ?idx (sample_run c) = (''f'', ''p'', SideBaseline)" for c
    by (simp add: run_key_def run_family_def sample_run_def)
  have art: "\<not> has_key (skillRefDoc sample_skill_ref) ''candidate_id''" by (simp add: has_key_def skillRefDoc_def)
  have "refInBaselines sample_request sample_skill_ref" by (simp add: refInBaselines_def sample_request_def)
  then have "checkRunCorrelation sample_request sample_packet (sample_run c) = Inr ()" for c
    using art parse by (simp add: checkRunCorrelation_def sample_packet_def sample_run_def same_doc_def)
  then have "run_ok sample_request ?idx (sample_run c)" for c
    unfolding run_ok_def planned_def key by (simp add: run_family_def) (simp add: sample_run_def closedSides_def)
  then have ok: "\<forall>run \<in> set runs. run_ok sample_request ?idx run" using assms(2) by blast
  have all: "filter (\<lambda>run. run_key ?idx run = (''f'', ''p'', SideBaseline)) runs = runs"
    using assms(2) key by (intro filter_True) blast
  have "family_complete (fold (observe ?idx) runs []) family = Inr ()" if "family \<in> set sample_plan" for family
    using that assms(1) all by (simp add: sample_plan_def family_complete_def sample_packet_def grouped)
  moreover have "reproduced (fold (observe ?idx) runs []) fp" if "fp \<in> set (plan_packets sample_plan)" for fp
    using that assms(2) all
    by (auto simp: plan_packets_def sample_plan_def reproduced_def packet_key_def sample_packet_def grouped verify_outputs_def for_each_Inr
        sample_run_def)
  moreover have "\<exists>res. finish ev sample_service sample_request sample_plan (fold (observe ?idx) runs []) = Inr res"
  proof -
    have "\<exists>res. mintResult ev sample_service sample_request sample_plan (total_agg sample_service obs sample_plan) status code = Inr res" for obs status code
      using sample_copyable by (intro mintResult_total)
        (auto simp: sample_request_def sample_service_def total_agg_def sample_plan_def family_of_def)
    then show ?thesis by (simp add: finish_def)
  qed
  ultimately show ?thesis unfolding Canonicalize_Inr using sample_plan_ok ok by blast
qed

lemma sample_runs: "set [sample_run 1, sample_run 2] \<subseteq> range sample_run" "length [sample_run 1, sample_run 2] < 2 ^ 63"
  "\<forall>run \<in> set [sample_run 1, sample_run 2]. 0 \<le> sint (ro_cost run)"
  by (auto simp: sample_run_def)

lemma sample_no_overflow:
  assumes "Canonicalize ev sample_service (Some sample_request) (Some sample_plan) [sample_run 1, sample_run 2] = Inr res"
  shows "rs_failure res \<noteq> ReasonUtilityArithmeticOverflow"
proof -
  let ?runs = "[sample_run 1, sample_run 2]"
  from assms obtain idx where fin: "finish ev sample_service sample_request sample_plan (fold (observe idx) ?runs []) = Inr res"
    unfolding Canonicalize_Inr by blast
  let ?obs = "fold (observe idx) ?runs []"
  define fp where "fp = (hd sample_plan, sample_packet)"
  let ?rec = "record_for sample_service ?obs fp" and ?grp = "filter (\<lambda>run. run_key idx run = packet_key fp) ?runs"
  have "plan_total sample_service ?obs sample_plan c = added (deltas sample_packet ?rec ?grp) c" for c
    by (simp only: plan_total_def packet_deltas_def grouped) (simp add: plan_packets_def sample_plan_def fp_def)
  also have "added (deltas sample_packet ?rec ?grp) c = contribution c sample_packet ?rec ?grp" for c
    by (intro added_deltas le_less_trans [OF length_filter_le])
      (simp_all add: record_for_def record_of_def fp_def sample_packet_def closedSides_def)
  also have "contribution c sample_packet ?rec ?grp \<le> 3" for c
    by (cases "(c, sample_packet, ?rec, ?grp)" rule: contribution.cases) (auto simp: sample_run_def split: dimension.split)
  finally have small: "plan_total sample_service ?obs sample_plan c \<le> 3" for c .
  have "\<not> 2 ^ 63 \<le> plan_total sample_service ?obs sample_plan c" for c
    unfolding not_le by (rule order.strict_trans1 [OF small]) simp
  then show ?thesis using finish_fields(1) [OF fin] total_agg_exact(1) [OF sample_runs(3,2), of sample_service idx sample_plan] by simp
qed

subsection \<open>Properties\<close>

lemma correlation_checked:
  assumes "checkRunCorrelation req packet run = Inr ()"
  shows "\<exists>a. ro_artifact run = Some a \<and> same_doc a (case pk_artifact packet of None \<Rightarrow> [] | Some r \<Rightarrow> r) \<and>
    (ro_side run = SideCandidate \<longrightarrow> same_doc a (rq_candidate_doc req)) \<and>
    (ro_side run = SideBaseline \<longrightarrow> (\<exists>ref. ParseSkillArtifactRef a = Inr ref \<and> refInBaselines req ref))"
    and "\<forall>r. ro_adapter run = Some r \<longrightarrow> same_doc r (versionedRefDoc (rq_adapter req))"
    and "\<forall>r. ro_profile run = Some r \<longrightarrow> same_doc r (versionedRefDoc (rq_profile req))"
  using assms
  by (auto simp: checkRunCorrelation_def and_then_Inr check_Inr split: option.splits if_splits sum.splits)

text \<open>
  C4: every run behind a canonical result is exactly a planned one: it executed the planned artifact for its
  packet and side, which is the request's candidate on the candidate side and one of the frozen baselines on
  the baseline side, under the frozen adapter and profile; and when the result counts as succeeded the run
  reproduced the expected output digest.
\<close>

theorem Canonicalize_counts_planned_runs:
  assumes "Canonicalize ev s (Some req) (Some plan) runs = Inr res" "run \<in> set runs"
  shows "\<exists>family \<in> set plan. \<exists>packet \<in> set (fm_packets family).
    ro_packet run = pk_id packet \<and> ro_side run = pk_side packet \<and>
    (\<exists>a. ro_artifact run = Some a \<and> same_doc a (case pk_artifact packet of None \<Rightarrow> [] | Some r \<Rightarrow> r) \<and>
      (ro_side run = SideCandidate \<longrightarrow> same_doc a (rq_candidate_doc req)) \<and>
      (ro_side run = SideBaseline \<longrightarrow> (\<exists>ref. ParseSkillArtifactRef a = Inr ref \<and> refInBaselines req ref))) \<and>
    (\<forall>r. ro_adapter run = Some r \<longrightarrow> same_doc r (versionedRefDoc (rq_adapter req))) \<and>
    (\<forall>r. ro_profile run = Some r \<longrightarrow> same_doc r (versionedRefDoc (rq_profile req))) \<and>
    (rs_status res = StatusSucceeded \<longrightarrow>
      ro_digest run = pk_digest packet \<and> (ro_output run = [] \<or> DigestBytes (ro_output run) = pk_digest packet))"
proof -
  from assms(1) obtain idx where pv: "Plan_validate plan = Inr ()" and ix: "index_plan plan ([], []) = Inr idx"
    and ok: "run_ok req idx run" and rep: "\<forall>fp \<in> set (plan_packets plan). reproduced (fold (observe idx) runs []) fp"
    and fin: "finish ev s req plan (fold (observe idx) runs []) = Inr res"
    unfolding Canonicalize_Inr using assms(2) by blast
  obtain family where f: "family \<in> set plan" "planned idx run \<in> set (fm_packets family)" "run_key idx run = packet_key (family, planned idx run)"
    "ro_packet run = pk_id (planned idx run)" "ro_side run = pk_side (planned idx run)"
    using run_planned [OF pv ix ok] .
  let ?obs = "fold (observe idx) runs []"
  have mem: "run \<in> set (runs_of ?obs (packet_key (family, planned idx run)))" using assms(2) f(3) by (simp add: grouped)
  have dig: "ro_digest run = pk_digest (planned idx run) \<and> (ro_output run = [] \<or> DigestBytes (ro_output run) = pk_digest (planned idx run))"
    if "rs_status res = StatusSucceeded"
  proof -
    have "\<not> nondeterministic ?obs (run_key idx run)"
      using finish_fields(2) [OF fin] that assms(2) by (simp add: keys_observed)
    moreover have "(family, planned idx run) \<in> set (plan_packets plan)" using f(1,2) by (auto simp: plan_packets_def)
    ultimately have "verify_outputs (planned idx run) (runs_of ?obs (packet_key (family, planned idx run))) = Inr ()"
      using rep f(3) by (auto simp: reproduced_def)
    with mem show ?thesis by (auto simp: verify_outputs_def for_each_Inr and_then_Inr check_Inr)
  qed
  show ?thesis
    using f correlation_checked [of req "planned idx run" run] ok dig
    by (intro bexI [of _ family] bexI [of _ "planned idx run"]) (simp_all add: run_ok_def)
qed

theorem Canonicalize_counts_planned_runs_witness:
  "ro_packet (sample_run 1) = ''p'' \<and> (\<exists>a. ro_artifact (sample_run 1) = Some a \<and> (\<exists>ref. ParseSkillArtifactRef a = Inr ref \<and> refInBaselines sample_request ref))"
proof -
  obtain res where "Canonicalize sample_env sample_service (Some sample_request) (Some sample_plan) [sample_run 1] = Inr res"
    using sample_replay [of "[sample_run 1]"] by auto
  from Canonicalize_counts_planned_runs [OF this, of "sample_run 1"] show ?thesis
    by (auto simp: sample_plan_def sample_packet_def)
qed

text \<open>
  C5: the order in which the runs are reported cannot matter: with non-negative costs, a result whose sums
  do not overflow is the same result, byte for byte, for every reordering of the runs.
\<close>

theorem Canonicalize_order_independent:
  assumes "Canonicalize ev s (Some req) (Some plan) runs = Inr res" "rs_failure res \<noteq> ReasonUtilityArithmeticOverflow"
    "mset runs = mset runs'" "\<forall>run \<in> set runs. 0 \<le> sint (ro_cost run)" "length runs < 2 ^ 63"
  shows "Canonicalize ev s (Some req) (Some plan) runs' = Inr res"
proof -
  from assms(1) obtain idx where ix: "index_plan plan ([], []) = Inr idx"
    and fin: "finish ev s req plan (fold (observe idx) runs []) = Inr res"
    unfolding Canonicalize_Inr by blast
  let ?obs = "fold (observe idx) runs []" and ?obs' = "fold (observe idx) runs' []"
  have same: "same_runs ?obs ?obs'" using assms(3) by (simp add: same_runs_def grouped)
  have set: "set runs' = set runs" using assms(3) by (metis mset_eq_setD)
  have "\<not> ag_overflowed (total_agg s ?obs plan)" using finish_fields(1) [OF fin] assms(2) by simp
  then have agg: "total_agg s ?obs' plan = total_agg s ?obs plan"
    by (rule total_agg_perm [OF assms(3-5)])
  have "finish ev s req plan ?obs' = finish ev s req plan ?obs"
    by (simp only: finish_def agg same_runs_facts(1) [OF same] keys_observed set)
  then have "finish ev s req plan ?obs' = Inr res" using fin by simp
  then show ?thesis
    using assms(1) ix unfolding Canonicalize_Inr
    by (auto simp: same_runs_facts(2,5) [OF same] set)
qed

theorem Canonicalize_order_independent_witness:
  "\<exists>res. Canonicalize sample_env sample_service (Some sample_request) (Some sample_plan) [sample_run 1, sample_run 2] = Inr res \<and>
     Canonicalize sample_env sample_service (Some sample_request) (Some sample_plan) [sample_run 2, sample_run 1] = Inr res"
proof -
  obtain res where res: "Canonicalize sample_env sample_service (Some sample_request) (Some sample_plan) [sample_run 1, sample_run 2] = Inr res"
    using sample_replay [OF _ sample_runs(1)] by blast
  from Canonicalize_order_independent [OF res sample_no_overflow [OF res] _ sample_runs(3,2), of "[sample_run 2, sample_run 1]"] res
  show ?thesis by (simp add: add_mset_commute)
qed

text \<open>
  C19: the counters of a result are exact: with non-negative costs the result reports the overflow code
  exactly when some total over the plan leaves int64, and otherwise every counter of both sides is the
  exact sum of what the planned packets contribute.
\<close>

theorem Canonicalize_counts_exactly:
  assumes "Canonicalize ev s (Some req) (Some plan) runs = Inr res" "\<forall>run \<in> set runs. 0 \<le> sint (ro_cost run)" "length runs < 2 ^ 63"
  shows "\<exists>idx obs. index_plan plan ([], []) = Inr idx \<and> correlate req idx [] runs = Inr obs \<and>
    (let total = (\<lambda>c. sum_list (map (\<lambda>fp. contribution c (snd fp) (record_for s obs fp) (runs_of obs (packet_key fp))) (plan_packets plan))) in
     (rs_failure res = ReasonUtilityArithmeticOverflow \<longleftrightarrow> (\<exists>c. 2 ^ 63 \<le> total c)) \<and>
     (rs_failure res \<noteq> ReasonUtilityArithmeticOverflow \<longrightarrow> (\<forall>c. sint (result_counter res c) = total c)))"
proof -
  from assms(1) obtain idx where pv: "Plan_validate plan = Inr ()" and ix: "index_plan plan ([], []) = Inr idx"
    and ok: "\<forall>run \<in> set runs. run_ok req idx run" and fin: "finish ev s req plan (fold (observe idx) runs []) = Inr res"
    unfolding Canonicalize_Inr by blast
  let ?obs = "fold (observe idx) runs []"
  have "added (packet_deltas s ?obs fp) c = contribution c (snd fp) (record_for s ?obs fp) (runs_of ?obs (packet_key fp))"
    if fp: "fp \<in> set (plan_packets plan)" for fp c
  proof -
    have "pk_side (snd fp) \<in> set closedSides"
      using fp pv validate_families_sides [of "[]" plan "fst fp" "snd fp"] by (auto simp: plan_packets_def Plan_validate_def res_simps)
    then show ?thesis unfolding packet_deltas_def
      using le_less_trans [OF length_filter_le assms(3)] by (intro added_deltas) (simp_all add: record_for_def record_of_def grouped)
  qed
  then have total: "plan_total s ?obs plan c = sum_list (map (\<lambda>fp. contribution c (snd fp) (record_for s ?obs fp) (runs_of ?obs (packet_key fp))) (plan_packets plan))" for c
    unfolding plan_total_def by (intro arg_cong [where f = sum_list] map_cong) auto
  show ?thesis
    using ok ix total_agg_exact [OF assms(2,3), of s idx plan] finish_fields [OF fin]
    by (intro exI [of _ idx] exI [of _ ?obs]) (simp add: correlate_closed total Let_def)
qed

theorem Canonicalize_counts_exactly_witness:
  "\<exists>res obs. Canonicalize sample_env sample_service (Some sample_request) (Some sample_plan) [sample_run 1, sample_run 2] = Inr res \<and>
     (\<forall>c. sint (result_counter res c) = sum_list (map (\<lambda>fp.
        contribution c (snd fp) (record_for sample_service obs fp) (runs_of obs (packet_key fp))) (plan_packets sample_plan)))"
proof -
  obtain res where res: "Canonicalize sample_env sample_service (Some sample_request) (Some sample_plan) [sample_run 1, sample_run 2] = Inr res"
    using sample_replay [OF _ sample_runs(1)] by blast
  with Canonicalize_counts_exactly [OF res sample_runs(3,2)] sample_no_overflow [OF res] show ?thesis unfolding Let_def by blast
qed

text \<open>
  a planned packet that was never observed but is expected to succeed is classified as a semantic pass:
  it adds one task success (and the critical and recovery successes) to its side without adding a case.
\<close>

theorem unobserved_packet_counts_as_pass:
  assumes "runs_of obs (fm_name family, pk_id packet, pk_side packet) = []" "pk_status packet = StatusSucceeded"
    "pk_side packet \<in> set closedSides"
  shows "classify s obs (fm_name family) packet = Inr CategorySemanticPass \<and>
    (let a = aggregator_add packet (record_of family packet CategorySemanticPass) [] newAggregator;
         cand = (pk_side packet = SideCandidate) in
     sint (counter_of a (Dim cand Task)) = 1 \<and> sint (counter_of a (Dim cand Critical)) = of_bool (pk_critical packet) \<and>
     sint (counter_of a CandCases) = 0 \<and> sint (counter_of a EnvCases) = 0)"
proof
  show "classify s obs (fm_name family) packet = Inr CategorySemanticPass"
    using assms by (simp add: classify_def nondeterministic_def verify_outputs_def Let_def)
  let ?rec = "record_of family packet CategorySemanticPass"
  let ?ds = "deltas packet ?rec []" and ?a = "newAggregator\<lparr>ag_records := ag_records newAggregator @ [?rec]\<rparr>"
  have "counter_of (a\<lparr>ag_records := r\<rparr>) c = counter_of a c" for a r c by (cases c) simp_all
  then have start: "counter_of ?a c = 0" "\<not> ag_overflowed ?a" for c by (simp_all add: new_counters)
  have sum: "added ?ds c = contribution c packet ?rec []" for c
    using assms(3) by (intro added_deltas) (simp_all add: record_of_def)
  have bit: "contribution c packet ?rec [] \<le> 1" for c
    by (cases "(c, packet, ?rec, [] :: RunOutput list)" rule: contribution.cases) (auto split: dimension.split)
  have nn: "x \<in> set ?ds \<Longrightarrow> 0 \<le> sint (snd x)" for x by (erule deltas_nonneg) simp_all
  have "\<not> 2 ^ 63 \<le> contribution c packet ?rec []" for c using bit [of c] by simp
  then have "\<not> ag_overflowed (fold bump_ag ?ds ?a)"
    using ag.fold_exact(1) [of ?a ?ds] nn by (simp add: start sum)
  then have "sint (counter_of (aggregator_add packet ?rec [] newAggregator) c) = contribution c packet ?rec []" for c
    using ag.fold_exact(2) [of ?a ?ds c] nn by (simp add: start sum aggregator_add_deltas)
  then show "let a = aggregator_add packet ?rec [] newAggregator; cand = (pk_side packet = SideCandidate) in
     sint (counter_of a (Dim cand Task)) = 1 \<and> sint (counter_of a (Dim cand Critical)) = of_bool (pk_critical packet) \<and>
     sint (counter_of a CandCases) = 0 \<and> sint (counter_of a EnvCases) = 0"
    by (simp only: Let_def) (simp add: record_of_def Passed_def)
qed

theorem unobserved_packet_counts_as_pass_witness:
  "\<exists>s. classify s [] ''f'' (zero_packet\<lparr>pk_status := StatusSucceeded, pk_side := SideCandidate\<rparr>) = Inr CategorySemanticPass"
  using unobserved_packet_counts_as_pass [of "[]" "\<lparr>fm_name = ''f'', fm_domain = [], fm_sides = [], fm_baseline = None, fm_packets = []\<rparr>"
      "zero_packet\<lparr>pk_status := StatusSucceeded, pk_side := SideCandidate\<rparr>"]
  by (auto simp: runs_of_def Let_def closedSides_def)

text \<open>
  once a sum overflows, the order of the runs shows: the counter keeps the partial sum reached before
  the failing addition (not 0, as the comment on \<open>addChecked\<close> has it).
\<close>

theorem overflow_keeps_partial_sum:
  "let big = run\<lparr>ro_cost := 2 ^ 63 - 1\<rparr>; small = run\<lparr>ro_cost := 1\<rparr>;
       rec = record_of family (packet\<lparr>pk_side := SideCandidate\<rparr>) CategorySemanticPass;
       a = aggregator_add packet rec [big, small] newAggregator; a' = aggregator_add packet rec [small, big] newAggregator in
   ag_overflowed a \<and> uv_cost (ag_utility a) = 2 ^ 63 - 1 \<and> ag_overflowed a' \<and> uv_cost (ag_utility a') = 1"
  by (simp add: Let_def aggregator_add_deltas deltas_def record_of_def Passed_def len64_def bump_def checkedAdd_spec
      newAggregator_def zero_vector_def)

end
