(* ===== verification/Pareto.thy ===== *)
theory Pareto
  imports Complex_Main Replay_Model
begin

text \<open>
  The constrained Pareto comparison of utility vectors (\<^verbatim>\<open>evaluator/pareto.go\<close>) and its specification over the
  rational numbers. The results: wherever the cross products fit int64 the comparison decides exactly the
  specification; where they do not, an undetected overflow of the checked multiplication can accept a
  candidate that is worse in every respect.
\<close>

abbreviation ModeRate :: string where "ModeRate \<equiv> ''rate''"
abbreviation ModeRaw :: string where "ModeRaw \<equiv> ''raw''"
abbreviation VerdictAccept :: string where "VerdictAccept \<equiv> ''accept''"
abbreviation VerdictNotImproved :: string where "VerdictNotImproved \<equiv> ''not_improved''"

abbreviation eerr :: "string \<Rightarrow> go_error" where
  "eerr c \<equiv> EvaluatorError c"

text \<open>A primary dimension: its reader and whether it is maximised.\<close>

definition primaryDimensions :: "((UtilityVector \<Rightarrow> int64) \<times> bool) list" where
  "primaryDimensions = [(uv_task, True), (uv_critical, True), (uv_recovery, True), (uv_inconclusive, False)]"

fun compare_dims :: "((UtilityVector \<Rightarrow> int64) \<times> bool) list \<Rightarrow> UtilityVector \<Rightarrow> int64 \<Rightarrow> UtilityVector \<Rightarrow> int64 \<Rightarrow>
    int64 \<Rightarrow> int64 \<Rightarrow> bool \<Rightarrow> string res" where
  "compare_dims [] candidate candidateDen envelope envelopeDen ratioNum ratioDen strict =
     Inr (if \<not> strict then VerdictNotImproved else VerdictAccept)"
| "compare_dims ((val, maximize) # dims) candidate candidateDen envelope envelopeDen ratioNum ratioDen strict =
     (let cand = val candidate; env = val envelope in
      case compareRatios cand candidateDen env envelopeDen of
        Inl _ \<Rightarrow> Inl (eerr ReasonUtilityArithmeticOverflow)
      | Inr order \<Rightarrow>
          if maximize then
            if order < 0 then Inr VerdictNotImproved
            else if order > 0 then
              (case crossAtLeast cand env ratioNum ratioDen of
                 Inl _ \<Rightarrow> Inl (eerr ReasonUtilityArithmeticOverflow)
               | Inr met \<Rightarrow>
                   compare_dims dims candidate candidateDen envelope envelopeDen ratioNum ratioDen (if met then True else strict))
            else compare_dims dims candidate candidateDen envelope envelopeDen ratioNum ratioDen strict
          else
            if order > 0 then Inr VerdictNotImproved
            else compare_dims dims candidate candidateDen envelope envelopeDen ratioNum ratioDen (if order < 0 then True else strict))"

definition CompareUtility ::
    "UtilityVector \<Rightarrow> int64 \<Rightarrow> UtilityVector \<Rightarrow> int64 \<Rightarrow> string \<Rightarrow> int64 \<Rightarrow> int64 \<Rightarrow> string res" where
  "CompareUtility candidate candidateCases envelope envelopeCases mode ratioNum ratioDen =
     (if mode \<noteq> ModeRate \<and> mode \<noteq> ModeRaw then Inl (eerr ReasonUtilityArithmeticOverflow)
      else
        let candidateDen = (if mode = ModeRate then candidateCases else 1);
            envelopeDen = (if mode = ModeRate then envelopeCases else 1) in
        if lt64 candidateCases 1 \<or> lt64 envelopeCases 1 then Inl (eerr ReasonUtilityArithmeticOverflow)
        else if lt64 ratioNum 1 \<or> lt64 ratioDen 1 then Inl (eerr ReasonUtilityArithmeticOverflow)
        else compare_dims primaryDimensions candidate candidateDen envelope envelopeDen ratioNum ratioDen False)"

definition withinCostBudget :: "int64 \<Rightarrow> int64 \<Rightarrow> bool" where
  "withinCostBudget costUnits budget = (\<not> lt64 costUnits 0 \<and> \<not> lt64 budget 0 \<and> \<not> lt64 budget costUnits)"

subsection \<open>The specification\<close>

definition rate :: "int64 \<Rightarrow> int64 \<Rightarrow> rat" where
  "rate n d = of_int (sint n) / of_int (sint d)"

text \<open>No dimension worse, and one strictly better, by at least the frozen ratio where it is maximised.\<close>

definition dim_no_worse :: "UtilityVector \<Rightarrow> int64 \<Rightarrow> UtilityVector \<Rightarrow> int64 \<Rightarrow> (UtilityVector \<Rightarrow> int64) \<times> bool \<Rightarrow> bool" where
  "dim_no_worse c cd e ed d =
     (if snd d then rate (fst d e) ed \<le> rate (fst d c) cd else rate (fst d c) cd \<le> rate (fst d e) ed)"

definition dim_better ::
    "UtilityVector \<Rightarrow> int64 \<Rightarrow> UtilityVector \<Rightarrow> int64 \<Rightarrow> int64 \<Rightarrow> int64 \<Rightarrow> (UtilityVector \<Rightarrow> int64) \<times> bool \<Rightarrow> bool" where
  "dim_better c cd e ed rn rd d =
     (if snd d then rate (fst d e) ed < rate (fst d c) cd \<and> sint (fst d e) * sint rn \<le> sint (fst d c) * sint rd
      else rate (fst d c) cd < rate (fst d e) ed)"

definition pareto_better :: "((UtilityVector \<Rightarrow> int64) \<times> bool) list \<Rightarrow> UtilityVector \<Rightarrow> int64 \<Rightarrow> UtilityVector \<Rightarrow> int64 \<Rightarrow>
    int64 \<Rightarrow> int64 \<Rightarrow> bool" where
  "pareto_better dims c cd e ed rn rd = (list_all (dim_no_worse c cd e ed) dims \<and> list_ex (dim_better c cd e ed rn rd) dims)"

text \<open>The operands of a dimension are in the domain, and none of its four products reaches 2^63.\<close>

definition comparable :: "UtilityVector \<Rightarrow> int64 \<Rightarrow> UtilityVector \<Rightarrow> int64 \<Rightarrow> int64 \<Rightarrow> int64 \<Rightarrow> (UtilityVector \<Rightarrow> int64) \<times> bool \<Rightarrow> bool" where
  "comparable c cd e ed rn rd d =
     (let x = sint (fst d c); y = sint (fst d e) in
      0 \<le> x \<and> 0 \<le> y \<and> x * sint ed < 2 ^ 63 \<and> y * sint cd < 2 ^ 63 \<and> x * sint rd < 2 ^ 63 \<and> y * sint rn < 2 ^ 63)"

lemma checkedMul_fits:
  assumes "0 \<le> sint a" "0 \<le> sint b" "sint a * sint b < 2 ^ 63"
  shows "checkedMul a b = Inr (a * b)" "sint (a * b) = sint a * sint b"
  using assms by (simp_all add: checkedMul_spec sint_mult_small)

lemma ratio_less_iff:
  fixes x y p q :: int
  assumes "0 < p" "0 < q"
  shows "(of_int x / of_int p :: rat) < of_int y / of_int q \<longleftrightarrow> x * q < y * p"
  using assms by (simp add: divide_simps flip: of_int_mult)

lemma compareRatios_exact:
  assumes "0 \<le> sint a" "0 < sint ad" "0 \<le> sint b" "0 < sint bd"
    "sint a * sint bd < 2 ^ 63" "sint b * sint ad < 2 ^ 63"
  shows "compareRatios a ad b bd = Inr (if rate a ad < rate b bd then - 1 else if rate b bd < rate a ad then 1 else 0)"
proof -
  have "rate a ad < rate b bd \<longleftrightarrow> sint a * sint bd < sint b * sint ad" "rate b bd < rate a ad \<longleftrightarrow> sint b * sint ad < sint a * sint bd"
    unfolding rate_def using ratio_less_iff [OF assms(2,4)] ratio_less_iff [OF assms(4,2)] by blast+
  then show ?thesis
    using assms checkedMul_fits [of a bd] checkedMul_fits [of b ad] by (simp add: compareRatios_def not_less)
qed

lemma crossAtLeast_exact:
  assumes "0 \<le> sint a" "0 \<le> sint b" "0 \<le> sint c" "1 \<le> sint d" "sint a * sint d < 2 ^ 63" "sint b * sint c < 2 ^ 63"
  shows "crossAtLeast a b c d = Inr (sint b * sint c \<le> sint a * sint d)"
  using assms checkedMul_fits [of a d] checkedMul_fits [of b c] by (auto simp: crossAtLeast_def not_less)

lemma compare_dims_exact:
  assumes "\<And>d. d \<in> set dims \<Longrightarrow> comparable c cd e ed rn rd d" "1 \<le> sint cd" "1 \<le> sint ed" "1 \<le> sint rn" "1 \<le> sint rd"
  shows "compare_dims dims c cd e ed rn rd strict =
    Inr (if list_all (dim_no_worse c cd e ed) dims \<and> (strict \<or> list_ex (dim_better c cd e ed rn rd) dims)
         then VerdictAccept else VerdictNotImproved)"
  using assms(1)
proof (induction dims arbitrary: strict)
  case (Cons d dims)
  obtain val mx where d: "d = (val, mx)" by fastforce
  have dom: "0 \<le> sint (val c)" "0 \<le> sint (val e)" "sint (val c) * sint ed < 2 ^ 63" "sint (val e) * sint cd < 2 ^ 63"
    "sint (val c) * sint rd < 2 ^ 63" "sint (val e) * sint rn < 2 ^ 63"
    using Cons.prems [of d] by (simp_all add: d comparable_def Let_def)
  have IH: "compare_dims dims c cd e ed rn rd st =
      Inr (if list_all (dim_no_worse c cd e ed) dims \<and> (st \<or> list_ex (dim_better c cd e ed rn rd) dims)
           then VerdictAccept else VerdictNotImproved)" for st
    using Cons by simp
  have ratios: "compareRatios (val c) cd (val e) ed =
      Inr (if rate (val c) cd < rate (val e) ed then - 1 else if rate (val e) ed < rate (val c) cd then 1 else 0)"
    using dom assms by (intro compareRatios_exact) simp_all
  have cross: "crossAtLeast (val c) (val e) rn rd = Inr (sint (val e) * sint rn \<le> sint (val c) * sint rd)"
    using dom assms by (intro crossAtLeast_exact) simp_all
  have nw: "dim_no_worse c cd e ed (val, mx) = (if mx then rate (val e) ed \<le> rate (val c) cd else rate (val c) cd \<le> rate (val e) ed)"
    and bt: "dim_better c cd e ed rn rd (val, mx) =
      (if mx then rate (val e) ed < rate (val c) cd \<and> sint (val e) * sint rn \<le> sint (val c) * sint rd
       else rate (val c) cd < rate (val e) ed)"
    by (simp_all add: dim_no_worse_def dim_better_def)
  show ?case
    by (auto simp: d Let_def ratios cross IH nw bt not_less)
qed simp

subsection \<open>Properties\<close>

text \<open>
  C26: where the operands are in the domain and the cross products fit int64, the comparison always decides,
  and it accepts exactly when the candidate is Pareto-better as rational numbers: no primary dimension worse
  and at least one strictly better (by the frozen ratio where it is maximised). Cost plays no part.
\<close>

theorem CompareUtility_exact:
  assumes "mode = ModeRate \<or> mode = ModeRaw" "cd = (if mode = ModeRate then cc else 1)" "ed = (if mode = ModeRate then ec else 1)"
    "1 \<le> sint cc" "1 \<le> sint ec" "1 \<le> sint rn" "1 \<le> sint rd"
    "list_all (comparable c cd e ed rn rd) primaryDimensions"
  shows "CompareUtility c cc e ec mode rn rd =
    Inr (if pareto_better primaryDimensions c cd e ed rn rd then VerdictAccept else VerdictNotImproved)"
proof -
  have "compare_dims primaryDimensions c cd e ed rn rd False =
    Inr (if list_all (dim_no_worse c cd e ed) primaryDimensions \<and> (False \<or> list_ex (dim_better c cd e ed rn rd) primaryDimensions)
         then VerdictAccept else VerdictNotImproved)"
    using assms by (intro compare_dims_exact) (auto simp: list_all_iff)
  then show ?thesis using assms by (auto simp: CompareUtility_def pareto_better_def not_less)
qed

theorem CompareUtility_exact_witness:
  "CompareUtility (zero_vector\<lparr>uv_task := 3\<rparr>) 4 (zero_vector\<lparr>uv_task := 1\<rparr>) 2 ModeRate 1 1 = Inr VerdictAccept"
proof -
  let ?c = "zero_vector\<lparr>uv_task := 3\<rparr>" and ?e = "zero_vector\<lparr>uv_task := 1\<rparr>"
  have ok: "list_all (comparable ?c 4 ?e 2 1 1) primaryDimensions"
    by (simp add: primaryDimensions_def comparable_def zero_vector_def)
  have "pareto_better primaryDimensions ?c 4 ?e 2 1 1"
    by (simp add: pareto_better_def primaryDimensions_def dim_no_worse_def dim_better_def rate_def zero_vector_def)
  with CompareUtility_exact [of ModeRate 4 4 2 2 1 1 ?c ?e] ok show ?thesis by simp
qed

text \<open>
  outside that range the comparison can accept what is worse: a candidate whose cases are all
  inconclusive (2^62 of 2^62) is accepted over an envelope that has no inconclusive case, all other
  dimensions equal, because the cross product 6 * 2^62 wraps to a negative number undetected.
\<close>

theorem CompareUtility_accepts_worse:
  "CompareUtility (zero_vector\<lparr>uv_inconclusive := 2 ^ 62\<rparr>) (2 ^ 62) zero_vector 6 ModeRate 1 1 = Inr VerdictAccept \<and>
   \<not> pareto_better primaryDimensions (zero_vector\<lparr>uv_inconclusive := 2 ^ 62\<rparr>) (2 ^ 62) zero_vector 6 1 1"
proof
  show "CompareUtility (zero_vector\<lparr>uv_inconclusive := 2 ^ 62\<rparr>) (2 ^ 62) zero_vector 6 ModeRate 1 1 = Inr VerdictAccept"
    by (simp add: CompareUtility_def primaryDimensions_def zero_vector_def compareRatios_def checkedMul_spec)
  show "\<not> pareto_better primaryDimensions (zero_vector\<lparr>uv_inconclusive := 2 ^ 62\<rparr>) (2 ^ 62) zero_vector 6 1 1"
    by (simp add: pareto_better_def primaryDimensions_def dim_no_worse_def rate_def zero_vector_def)
qed

end
