(* ===== verification/Evaluator.thy ===== *)
theory Evaluator
  imports Pareto
begin

text \<open>
  The protected decision evaluator (\<^verbatim>\<open>internal/skillevolution/evaluator\<close>: \<^verbatim>\<open>evaluator.go\<close>, \<^verbatim>\<open>gates.go\<close>,
  \<^verbatim>\<open>decide.go\<close>, \<^verbatim>\<open>writer.go\<close>): the hard gates over one frozen input, the order in which they decide, and the
  decision document. The gate findings, a pointer that every gate updates, are passed and returned.
\<close>

subsection \<open>Data\<close>

abbreviation SchemaReleaseDecision :: string where "SchemaReleaseDecision \<equiv> ''release-decision.schema.json''"
abbreviation ReasonCriticalRegression :: string where "ReasonCriticalRegression \<equiv> ''CRITICAL_REGRESSION''"
abbreviation ReasonHardGateFailed :: string where "ReasonHardGateFailed \<equiv> ''HARD_GATE_FAILED''"
abbreviation ReasonReferenceEnvelopeInvalid :: string where "ReasonReferenceEnvelopeInvalid \<equiv> ''REFERENCE_ENVELOPE_INVALID''"
abbreviation ReasonUtilityNotParetoImproved :: string where "ReasonUtilityNotParetoImproved \<equiv> ''UTILITY_NOT_PARETO_IMPROVED''"
abbreviation ReasonUtilityCostBudgetExceeded :: string where "ReasonUtilityCostBudgetExceeded \<equiv> ''UTILITY_COST_BUDGET_EXCEEDED''"
abbreviation ReasonSourceHeadStale :: string where "ReasonSourceHeadStale \<equiv> ''SOURCE_HEAD_STALE''"
abbreviation ReasonReleaseDecisionInvalid :: string where "ReasonReleaseDecisionInvalid \<equiv> ''RELEASE_DECISION_INVALID''"
abbreviation OutcomeAccepted :: string where "OutcomeAccepted \<equiv> ''accepted''"
abbreviation OutcomeRejected :: string where "OutcomeRejected \<equiv> ''rejected''"
abbreviation OutcomeInconclusive :: string where "OutcomeInconclusive \<equiv> ''inconclusive''"

abbreviation GateStaticValidation :: string where "GateStaticValidation \<equiv> ''static_validation_gates''"
abbreviation GateSchemaDigest :: string where "GateSchemaDigest \<equiv> ''replay_result_schema_digest''"
abbreviation GateExactRefs :: string where "GateExactRefs \<equiv> ''exact_ref_resolution''"
abbreviation GateFixtureCompletion :: string where "GateFixtureCompletion \<equiv> ''fixture_completeness''"
abbreviation GateCriticalSlices :: string where "GateCriticalSlices \<equiv> ''critical_slices_zero_regression''"
abbreviation GateInfraSeparation :: string where "GateInfraSeparation \<equiv> ''infra_semantic_separation''"
abbreviation GateCostBudget :: string where "GateCostBudget \<equiv> ''cost_budget''"
abbreviation GateSourceHeads :: string where "GateSourceHeads \<equiv> ''source_head_freshness''"
abbreviation GateReferenceEnvelope :: string where "GateReferenceEnvelope \<equiv> ''reference_envelope''"
abbreviation GateUtilityPareto :: string where "GateUtilityPareto \<equiv> ''utility_pareto_u1''"

definition gateOrder :: "string list" where
  "gateOrder = [GateStaticValidation, GateSchemaDigest, GateExactRefs, GateFixtureCompletion, GateCriticalSlices,
     GateInfraSeparation, GateCostBudget, GateSourceHeads, GateReferenceEnvelope, GateUtilityPareto]"

text \<open>\<open>evaluator.CodeOf\<close>.\<close>

definition evaluatorCodeOf :: "go_error option \<Rightarrow> string" where
  "evaluatorCodeOf err =
     (case err of
        None \<Rightarrow> []
      | Some (EvaluatorError c) \<Rightarrow> c
      | Some e \<Rightarrow> if replayCodeOf (Some e) \<noteq> [] then replayCodeOf (Some e) else validationCodeOf (Some e))"

record StaticGate =
  sg_code :: string
  sg_passed :: bool
  sg_refs :: "VersionedRef list"

record ReleaseRule =
  rl_ref :: VersionedRef
  rl_domains :: "string list"

record Input =
  in_decision_id :: string
  in_decision_version :: int64
  in_candidate :: CandidateArtifactRef
  in_result_doc :: "gobj option"
  in_records :: "RunRecord list"
  in_envelope :: UtilityVector
  in_enveloped_cases :: int64
  in_candidate_cases :: int64
  in_request_baselines :: "SkillArtifactRef list"
  in_validation_refs :: "VersionedRef list"
  in_static_gates :: "StaticGate list"
  in_release_rule :: ReleaseRule
  in_expected_heads :: "SkillArtifactRef list"
  in_observed_heads :: "SkillArtifactRef list"

record Comparator =
  cm_ref :: VersionedRef
  cm_cost_budget :: int64
  cm_critical_domains :: "string list"
  cm_mode :: string
  cm_ratio_num :: int64
  cm_ratio_den :: int64

text \<open>\<open>evaluator.New\<close>: an evaluator is its gates.\<close>

definition NewEvaluator :: "SchemaSet option \<Rightarrow> SchemaSet res" where
  "NewEvaluator gates = (case gates of None \<Rightarrow> Inl PlainError | Some g \<Rightarrow> Inr g)"

record GateResult =
  gr_code :: string
  gr_passed :: bool
  gr_refs :: "VersionedRef list"

record gateFindings =
  gf_results :: "GateResult gmap"
  gf_reasons :: "string list"
  gf_inconclusive :: "string list"

subsection \<open>Findings\<close>

definition gate_result :: "string \<Rightarrow> bool \<Rightarrow> VersionedRef list \<Rightarrow> GateResult" where
  "gate_result code passed refs = \<lparr>gr_code = code, gr_passed = passed, gr_refs = refs\<rparr>"

definition newFindings :: gateFindings where
  "newFindings = \<lparr>gf_results = map (\<lambda>code. (code, gate_result code False [])) gateOrder, gf_reasons = [], gf_inconclusive = []\<rparr>"

definition appendUnique :: "string list \<Rightarrow> string \<Rightarrow> string list" where
  "appendUnique vals v = (if v \<in> set vals then vals else vals @ [v])"

definition pass :: "string \<Rightarrow> VersionedRef list \<Rightarrow> gateFindings \<Rightarrow> gateFindings" where
  "pass code refs f = f\<lparr>gf_results := gput code (gate_result code True refs) (gf_results f)\<rparr>"

definition fail_gate :: "string \<Rightarrow> string \<Rightarrow> gateFindings \<Rightarrow> gateFindings" where
  "fail_gate code reason f =
     f\<lparr>gf_results := gput code (gate_result code False []) (gf_results f),
       gf_reasons := (if reason \<noteq> [] then appendUnique (gf_reasons f) reason else gf_reasons f)\<rparr>"

definition failInconclusive :: "string \<Rightarrow> string \<Rightarrow> gateFindings \<Rightarrow> gateFindings" where
  "failInconclusive code reason f =
     f\<lparr>gf_results := gput code (gate_result code False []) (gf_results f),
       gf_inconclusive := (if reason \<noteq> [] then appendUnique (gf_inconclusive f) reason else gf_inconclusive f)\<rparr>"

definition result_of :: "gateFindings \<Rightarrow> string \<Rightarrow> GateResult" where
  "result_of f code = (case map_of (gf_results f) code of None \<Rightarrow> gate_result [] False [] | Some r \<Rightarrow> r)"

definition ordered :: "gateFindings \<Rightarrow> GateResult list" where
  "ordered f = map (result_of f) gateOrder"

subsection \<open>Reading the result document\<close>

definition refInList :: "SkillArtifactRef \<Rightarrow> SkillArtifactRef list \<Rightarrow> bool" where
  "refInList ref refs =
     list_ex (\<lambda>candidate. sar_lineage_id candidate = sar_lineage_id ref \<and> sar_version candidate = sar_version ref \<and>
        sar_artifact_digest candidate = sar_artifact_digest ref \<and> sar_kind candidate = sar_kind ref) refs"

text \<open>\<open>strconv.ParseInt(token, 10, 64)\<close>; the caller has checked that it is a number.\<close>

definition parseInt64 :: "gv \<Rightarrow> int64 res" where
  "parseInt64 raw =
     (case parseBigInt raw of
        None \<Rightarrow> Inl PlainError
      | Some z \<Rightarrow> if - (2 ^ 63) \<le> z \<and> z < 2 ^ 63 then Inr (word_of_int z) else Inl PlainError)"

definition intOf :: "gv \<Rightarrow> int64 option" where
  "intOf raw =
     (if \<not> IsIntegerNumber raw then None
      else (case parseInt64 raw of Inl _ \<Rightarrow> None | Inr v \<Rightarrow> Some v))"

definition utilityVectorOf :: "gobj option \<Rightarrow> UtilityVector option" where
  "utilityVectorOf objp =
     (case objp of
        None \<Rightarrow> None
      | Some obj \<Rightarrow>
          (case (intOf (gidx obj ''task_success_count''), intOf (gidx obj ''critical_branch_pass_count''),
                 intOf (gidx obj ''recovery_success_count''), intOf (gidx obj ''inconclusive_case_count''),
                 intOf (gidx obj ''execution_cost_units'')) of
             (Some task, Some critical, Some recovery, Some inconclusive, Some cost) \<Rightarrow>
               Some \<lparr>uv_task = task, uv_critical = critical, uv_recovery = recovery, uv_inconclusive = inconclusive, uv_cost = cost\<rparr>
           | _ \<Rightarrow> None))"

definition primaryDimsEqual :: "UtilityVector \<Rightarrow> UtilityVector \<Rightarrow> bool" where
  "primaryDimsEqual a b =
     (uv_task a = uv_task b \<and> uv_critical a = uv_critical b \<and> uv_recovery a = uv_recovery b \<and> uv_inconclusive a = uv_inconclusive b)"

text \<open>
  \<open>headSetKey\<close>: the keys are a \<open>[]string\<close>, which is not a type of the decoder model, so its canonical key is
  the fallback over its \<open>%v\<close> text.
\<close>

definition head_key :: "SkillArtifactRef \<Rightarrow> string" where
  "head_key head = CanonicalKey (GObject [(''lineage_id'', GString (sar_lineage_id head)), (''version'', GNumber (sar_version head)),
     (''kind'', GString (sar_kind head)), (''artifact_digest'', GString (sar_artifact_digest head))])"

definition headSetKey :: "SkillArtifactRef list \<Rightarrow> string" where
  "headSetKey heads = CanonicalKey (GOther (''['' @ spaces (map head_key heads) @ '']''))"

definition outcomes_of :: "gobj \<Rightarrow> gobj list" where
  "outcomes_of doc = map obj_or_nil (arr_or_nil (gidx doc ''fixture_outcomes''))"

subsection \<open>The gates\<close>

definition evaluateStaticGates :: "Input \<Rightarrow> gateFindings \<Rightarrow> gateFindings" where
  "evaluateStaticGates inp f =
     (if in_static_gates inp = [] then fail_gate GateStaticValidation ReasonHardGateFailed f
      else
        (case find (\<lambda>g. \<not> sg_passed g) (in_static_gates inp) of
           Some g \<Rightarrow>
             (let f' = fail_gate GateStaticValidation ReasonHardGateFailed f in
              f'\<lparr>gf_results := gput GateStaticValidation (gate_result GateStaticValidation False (sg_refs g)) (gf_results f')\<rparr>)
         | None \<Rightarrow>
             f\<lparr>gf_results := gput GateStaticValidation (gate_result GateStaticValidation True (in_validation_refs inp)) (gf_results f)\<rparr>))"

definition evaluateSchemaDigest :: "env \<Rightarrow> SchemaSet \<Rightarrow> gobj \<Rightarrow> gateFindings \<Rightarrow> gateFindings" where
  "evaluateSchemaDigest ev e doc f =
     (case gate ev e (deepCopyObject doc) SchemaReplayResult of
        Inl _ \<Rightarrow> fail_gate GateSchemaDigest ReasonReplayResultInvalid f
      | Inr _ \<Rightarrow> pass GateSchemaDigest [] f)"

definition baseline_resolves :: "Input \<Rightarrow> gobj \<Rightarrow> bool" where
  "baseline_resolves inp outcome =
     (case AsObject (gidx outcome ''baseline_ref'') of
        None \<Rightarrow> False
      | Some baselineRaw \<Rightarrow>
          (case ParseSkillArtifactRef baselineRaw of
             Inl _ \<Rightarrow> False
           | Inr ref \<Rightarrow> refInList ref (in_request_baselines inp)))"

definition evaluateExactRefs :: "Input \<Rightarrow> gobj \<Rightarrow> gateFindings \<Rightarrow> gateFindings" where
  "evaluateExactRefs inp doc f =
     (case AsObject (gidx doc ''candidate_ref'') of
        None \<Rightarrow> fail_gate GateExactRefs ReasonRefMismatch f
      | Some candidateRaw \<Rightarrow>
          if CanonicalKey (GObject candidateRaw) \<noteq> CanonicalKey (GObject (candidateRefDoc (in_candidate inp)))
          then fail_gate GateExactRefs ReasonRefMismatch f
          else if \<not> list_all (baseline_resolves inp) (outcomes_of doc) then fail_gate GateExactRefs ReasonRefMismatch f
          else pass GateExactRefs [] f)"

definition evaluateFixtureCompleteness :: "gobj \<Rightarrow> ReleaseRule \<Rightarrow> gateFindings \<Rightarrow> gateFindings" where
  "evaluateFixtureCompleteness doc rule f =
     (let covered = map (\<lambda>outcome. str_or_empty (gidx outcome ''domain'')) (outcomes_of doc) in
      if list_all (\<lambda>domain. domain \<in> set covered) (rl_domains rule) then pass GateFixtureCompletion [] f
      else fail_gate GateFixtureCompletion ReasonMissingFamily f)"

text \<open>The per-family pass counts and the recount of both vectors over the run records.\<close>

definition family_passes :: "bool \<Rightarrow> RunRecord list \<Rightarrow> string \<Rightarrow> int64" where
  "family_passes cand records family =
     word_of_nat (length (filter (\<lambda>r. Passed r \<and> (rr_side r = SideCandidate) = cand \<and> rr_family r = family) records))"

definition outcome_family :: "gobj \<Rightarrow> string" where
  "outcome_family outcome = str_or_empty (gidx (obj_or_nil (gidx outcome ''fixture_ref'')) ''id'')"

definition outcome_counts_match :: "RunRecord list \<Rightarrow> gobj \<Rightarrow> bool" where
  "outcome_counts_match records outcome =
     (let family = outcome_family outcome in
      intOf (gidx outcome ''baseline_passed'') = Some (family_passes False records family) \<and>
      intOf (gidx outcome ''candidate_passed'') = Some (family_passes True records family))"

definition recount_vector :: "RunRecord \<Rightarrow> UtilityVector \<Rightarrow> UtilityVector" where
  "recount_vector r u =
     (if Passed r then
        u\<lparr>uv_task := uv_task u + 1, uv_critical := (if rr_critical r then uv_critical u + 1 else uv_critical u),
          uv_recovery := (if rr_recovery r then uv_recovery u + 1 else uv_recovery u)\<rparr>
      else if rr_category r = CategoryInfra \<or> rr_category r = CategoryNondeterministic
      then u\<lparr>uv_inconclusive := uv_inconclusive u + 1\<rparr>
      else u)"

record recount =
  rc_utility :: UtilityVector
  rc_envelope :: UtilityVector
  rc_cand :: int64
  rc_env :: int64

definition recount_step :: "RunRecord \<Rightarrow> recount \<Rightarrow> recount" where
  "recount_step r a =
     (if rr_side r = SideCandidate
      then a\<lparr>rc_cand := rc_cand a + 1, rc_utility := recount_vector r (rc_utility a)\<rparr>
      else a\<lparr>rc_env := rc_env a + 1, rc_envelope := recount_vector r (rc_envelope a)\<rparr>)"

definition recount_all :: "RunRecord list \<Rightarrow> recount" where
  "recount_all records = fold recount_step records \<lparr>rc_utility = zero_vector, rc_envelope = zero_vector, rc_cand = 0, rc_env = 0\<rparr>"

definition evaluateInfraSeparation :: "Input \<Rightarrow> gobj \<Rightarrow> gateFindings \<Rightarrow> gateFindings" where
  "evaluateInfraSeparation inp doc f =
     (let bad = fail_gate GateInfraSeparation ReasonReplayResultInvalid f;
          outcomes = outcomes_of doc; records = in_records inp; again = recount_all records in
      if \<not> list_all (outcome_counts_match records) outcomes then bad
      else if length (remdups (map rr_family records)) \<noteq> length (remdups (map outcome_family outcomes)) then bad
      else
        (case utilityVectorOf (AsObject (gidx doc ''utility_vector'')) of
           None \<Rightarrow> bad
         | Some want \<Rightarrow>
             if \<not> primaryDimsEqual want (rc_utility again) then bad
             else if in_candidate_cases inp \<noteq> rc_cand again \<or> in_enveloped_cases inp \<noteq> rc_env again then bad
             else if \<not> primaryDimsEqual (in_envelope inp) (rc_envelope again) then bad
             else pass GateInfraSeparation [] f))"

fun declared_regressions :: "string list \<Rightarrow> gobj list \<Rightarrow> int64 \<Rightarrow> int64 option" where
  "declared_regressions critical [] acc = Some acc"
| "declared_regressions critical (outcome # rest) acc =
     (if str_or_empty (gidx outcome ''domain'') \<notin> set critical then declared_regressions critical rest acc
      else
        (case intOf (gidx outcome ''critical_regression_count'') of
           None \<Rightarrow> None
         | Some n \<Rightarrow> if lt64 n 0 then None else declared_regressions critical rest (acc + n)))"

text \<open>\<open>byPacket[id][side]\<close>: the last critical record of that packet and side.\<close>

definition critical_record :: "RunRecord list \<Rightarrow> string \<Rightarrow> string \<Rightarrow> RunRecord option" where
  "critical_record records pid side = find (\<lambda>r. rr_critical r \<and> rr_packet r = pid \<and> rr_side r = side) (rev records)"

definition regressed_packet :: "RunRecord list \<Rightarrow> string \<Rightarrow> bool" where
  "regressed_packet records pid =
     (case critical_record records pid SideBaseline of
        None \<Rightarrow> False
      | Some baseline \<Rightarrow> Passed baseline \<and>
          (case critical_record records pid SideCandidate of None \<Rightarrow> True | Some candidate \<Rightarrow> \<not> Passed candidate))"

definition recomputed_regressions :: "RunRecord list \<Rightarrow> int64" where
  "recomputed_regressions records =
     word_of_nat (length (filter (regressed_packet records) (remdups (map rr_packet (filter rr_critical records)))))"

definition evaluateCriticalSlices :: "Comparator \<Rightarrow> gobj \<Rightarrow> RunRecord list \<Rightarrow> gateFindings \<Rightarrow> gateFindings" where
  "evaluateCriticalSlices cmp doc records f =
     (case declared_regressions (cm_critical_domains cmp) (outcomes_of doc) 0 of
        None \<Rightarrow> fail_gate GateCriticalSlices ReasonReplayResultInvalid f
      | Some regressed \<Rightarrow>
          if regressed \<noteq> recomputed_regressions records \<or> lt64 0 regressed then fail_gate GateCriticalSlices ReasonCriticalRegression f
          else pass GateCriticalSlices [] f)"

definition evaluateCostBudget :: "Comparator \<Rightarrow> gobj \<Rightarrow> gateFindings \<Rightarrow> gateFindings" where
  "evaluateCostBudget cmp doc f =
     (case utilityVectorOf (AsObject (gidx doc ''utility_vector'')) of
        None \<Rightarrow> fail_gate GateCostBudget ReasonReplayResultInvalid f
      | Some u \<Rightarrow>
          if \<not> withinCostBudget (uv_cost u) (cm_cost_budget cmp) then fail_gate GateCostBudget ReasonUtilityCostBudgetExceeded f
          else pass GateCostBudget [] f)"

definition evaluateSourceHeads :: "Input \<Rightarrow> gateFindings \<Rightarrow> gateFindings" where
  "evaluateSourceHeads inp f =
     (if in_expected_heads inp = [] \<and> in_observed_heads inp = [] then pass GateSourceHeads [] f
      else if headSetKey (in_expected_heads inp) \<noteq> headSetKey (in_observed_heads inp)
      then failInconclusive GateSourceHeads ReasonSourceHeadStale f
      else pass GateSourceHeads [] f)"

definition evaluateEnvelope :: "Input \<Rightarrow> gateFindings \<Rightarrow> gateFindings" where
  "evaluateEnvelope inp f =
     (if lt64 (in_enveloped_cases inp) 1 \<or> lt64 (in_candidate_cases inp) 1
      then failInconclusive GateReferenceEnvelope ReasonReferenceEnvelopeInvalid f
      else pass GateReferenceEnvelope [] f)"

subsection \<open>The decision document\<close>

record Decision =
  dn_id :: string
  dn_version :: int64
  dn_digest :: string
  dn_candidate :: CandidateArtifactRef
  dn_validation_refs :: "VersionedRef list"
  dn_replay_refs :: "VersionedRef list"
  dn_rule_ref :: VersionedRef
  dn_comparator_ref :: VersionedRef
  dn_gates :: "GateResult list"
  dn_outcome :: string
  dn_reasons :: "string list"
  dn_heads :: "SkillArtifactRef list"

definition gate_doc :: "GateResult \<Rightarrow> gv" where
  "gate_doc g =
     GObject ([(''gate_code'', GString (gr_code g)), (''passed'', GBool (gr_passed g))] @
       (if gr_refs g \<noteq> [] then [(''record_refs'', GArray (versionedRefDocs (gr_refs g)))] else []))"

definition Decision_Doc :: "Decision \<Rightarrow> gobj" where
  "Decision_Doc d =
     [(''schema_version'', GString ''gms.release-decision.v1''), (''decision_id'', GString (dn_id d)),
      (''decision_version'', num64 (dn_version d)), (''decision_digest'', GString (dn_digest d)),
      (''candidate_ref'', GObject (candidateRefDoc (dn_candidate d))),
      (''validation_record_refs'', GArray (versionedRefDocs (dn_validation_refs d))),
      (''replay_result_refs'', GArray (versionedRefDocs (dn_replay_refs d))),
      (''release_rule_ref'', GObject (versionedRefDoc (dn_rule_ref d))),
      (''utility_comparator_ref'', GObject (versionedRefDoc (dn_comparator_ref d))),
      (''hard_gate_results'', GArray (map gate_doc (dn_gates d))), (''outcome'', GString (dn_outcome d)),
      (''reason_codes'', GArray (map GString (dn_reasons d)))] @
     (if dn_heads d \<noteq> [] then [(''source_head_expectations'', GArray (map (\<lambda>h. GObject (skillRefDoc h)) (dn_heads d)))] else [])"

definition decisionPreimage :: "gobj \<Rightarrow> gobj" where
  "decisionPreimage doc =
     map (\<lambda>field. (field, gidx doc field))
       [''schema_version'', ''decision_id'', ''decision_version'', ''candidate_ref'', ''validation_record_refs'',
        ''replay_result_refs'', ''release_rule_ref'', ''utility_comparator_ref'', ''hard_gate_results'', ''outcome'', ''reason_codes'']"

definition replayResultRefs :: "gobj \<Rightarrow> VersionedRef list" where
  "replayResultRefs doc =
     (let rid = str_or_empty (gidx doc ''replay_result_id''); digest = str_or_empty (gidx doc ''result_digest'') in
      if rid = [] \<or> digest = [] then [] else [\<lparr>vr_id = rid, vr_version = ''1'', vr_digest = digest\<rparr>])"

text \<open>
  The value under \<open>replay_results\<close> is a \<open>[]contract.VersionedRef\<close>, again not of the decoder model.
\<close>

definition deriveDecisionID :: "Input \<Rightarrow> gobj \<Rightarrow> Comparator \<Rightarrow> string" where
  "deriveDecisionID inp doc cmp =
     (case DigestOf (GObject [(''candidate'', GObject (candidateRefDoc (in_candidate inp))),
          (''release_rule'', GObject (versionedRefDoc (rl_ref (in_release_rule inp)))),
          (''comparator'', GObject (versionedRefDoc (cm_ref cmp))),
          (''replay_results'', GOther (''['' @ spaces (map (\<lambda>r. ''{'' @ spaces [vr_id r, vr_version r, vr_digest r] @ ''}'')
             (replayResultRefs doc)) @ '']''))]) of
        Inl _ \<Rightarrow> ''decision-unknown''
      | Inr digest \<Rightarrow> ''decision-'' @ take 16 (drop 7 digest))"

definition writeDecision :: "env \<Rightarrow> SchemaSet \<Rightarrow> Comparator \<Rightarrow> Input \<Rightarrow> gobj \<Rightarrow> gateFindings \<Rightarrow> string \<Rightarrow> string list \<Rightarrow> Decision res" where
  "writeDecision ev e cmp inp doc findings outcome reasons =
     (let decision = \<lparr>dn_id = (if in_decision_id inp = [] then deriveDecisionID inp doc cmp else in_decision_id inp),
            dn_version = (if lt64 (in_decision_version inp) 1 then 1 else in_decision_version inp), dn_digest = [],
            dn_candidate = in_candidate inp, dn_validation_refs = in_validation_refs inp, dn_replay_refs = replayResultRefs doc,
            dn_rule_ref = rl_ref (in_release_rule inp), dn_comparator_ref = cm_ref cmp, dn_gates = ordered findings,
            dn_outcome = outcome, dn_reasons = reasons, dn_heads = in_expected_heads inp\<rparr> in
      (case DigestOf (GObject (decisionPreimage (Decision_Doc decision))) of
         Inl _ \<Rightarrow> Inl (eerr ReasonReleaseDecisionInvalid)
       | Inr digest \<Rightarrow>
           let decision' = decision\<lparr>dn_digest := digest\<rparr> in
           (case gate ev e (Decision_Doc decision') SchemaReleaseDecision of
              Inl _ \<Rightarrow> Inl (eerr ReasonReleaseDecisionInvalid)
            | Inr _ \<Rightarrow> Inr decision')))"

subsection \<open>Decide\<close>

definition validateComparator :: "Comparator \<Rightarrow> unit res" where
  "validateComparator cmp =
     (let bad = eerr ReasonReplayResultInvalid in
      and_then (check (\<not> lt64 (cm_cost_budget cmp) 0) bad) (\<lambda>_.
      and_then (check (\<not> (cm_mode cmp \<noteq> ModeRate \<and> cm_mode cmp \<noteq> ModeRaw)) bad) (\<lambda>_.
      and_then (check (\<not> (lt64 (cm_ratio_num cmp) 1 \<or> lt64 (cm_ratio_den cmp) 1)) bad) (\<lambda>_.
      check (cm_critical_domains cmp \<noteq> []) bad))))"

text \<open>All gates before the comparison, in the order of the code.\<close>

definition run_gates :: "Comparator \<Rightarrow> Input \<Rightarrow> gobj \<Rightarrow> gateFindings \<Rightarrow> gateFindings" where
  "run_gates cmp inp doc f0 =
     (let f1 = evaluateStaticGates inp f0;
          f2 = evaluateExactRefs inp doc f1;
          f3 = evaluateFixtureCompleteness doc (in_release_rule inp) f2;
          f4 = evaluateInfraSeparation inp doc f3;
          f5 = evaluateCriticalSlices cmp doc (in_records inp) f4;
          f6 = evaluateCostBudget cmp doc f5;
          f7 = evaluateSourceHeads inp f6
      in evaluateEnvelope inp f7)"

definition decide_utility :: "env \<Rightarrow> SchemaSet \<Rightarrow> Comparator \<Rightarrow> Input \<Rightarrow> gobj \<Rightarrow> gateFindings \<Rightarrow> Decision res" where
  "decide_utility ev e cmp inp doc f =
     (case utilityVectorOf (AsObject (gidx doc ''utility_vector'')) of
        None \<Rightarrow>
          (let f' = fail_gate GateUtilityPareto ReasonReplayResultInvalid f in
           writeDecision ev e cmp inp doc f' OutcomeRejected (gf_reasons f'))
      | Some u \<Rightarrow>
          (case CompareUtility u (in_candidate_cases inp) (in_envelope inp) (in_enveloped_cases inp) (cm_mode cmp)
                  (cm_ratio_num cmp) (cm_ratio_den cmp) of
             Inl _ \<Rightarrow>
               writeDecision ev e cmp inp doc (fail_gate GateUtilityPareto ReasonUtilityArithmeticOverflow f)
                 OutcomeInconclusive [ReasonUtilityArithmeticOverflow]
           | Inr verdict \<Rightarrow>
               if verdict = VerdictNotImproved then
                 let f' = fail_gate GateUtilityPareto ReasonUtilityNotParetoImproved f in
                 writeDecision ev e cmp inp doc f' OutcomeRejected (gf_reasons f')
               else writeDecision ev e cmp inp doc (pass GateUtilityPareto [] f) OutcomeAccepted []))"

definition Decide :: "env \<Rightarrow> SchemaSet \<Rightarrow> Comparator \<Rightarrow> Input \<Rightarrow> Decision res" where
  "Decide ev e cmp inp =
     (case in_result_doc inp of
        None \<Rightarrow> Inl (eerr ReasonReplayResultInvalid)
      | Some doc \<Rightarrow>
          if car_candidate_id (in_candidate inp) = [] \<or> car_body_digest (in_candidate inp) = []
          then Inl (eerr ReasonReplayResultInvalid)
          else
            and_then (validateComparator cmp) (\<lambda>_.
            let f0 = evaluateSchemaDigest ev e doc newFindings; status = str_or_empty (gidx doc ''status'') in
            if status \<noteq> StatusSucceeded \<and> status \<noteq> StatusFailed \<and> status \<noteq> StatusInconclusive
            then writeDecision ev e cmp inp doc f0 OutcomeRejected [ReasonReplayResultInvalid]
            else if gr_passed (result_of f0 GateSchemaDigest) \<and> status \<noteq> StatusSucceeded then
              let reason = str_or_empty (gidx doc ''failure_reason_code'');
                  f1 = f0\<lparr>gf_inconclusive := appendUnique (gf_inconclusive f0) (if reason = [] then ReasonReplayInconclusive else reason)\<rparr>
              in writeDecision ev e cmp inp doc f1 OutcomeInconclusive (gf_inconclusive f1)
            else
              let f = run_gates cmp inp doc f0 in
              if gf_reasons f \<noteq> [] then writeDecision ev e cmp inp doc f OutcomeRejected (gf_reasons f)
              else if gf_inconclusive f \<noteq> [] then writeDecision ev e cmp inp doc f OutcomeInconclusive (gf_inconclusive f)
              else decide_utility ev e cmp inp doc f))"

end
