(* ===== verification/Evaluator_Facts.thy ===== *)
theory Evaluator_Facts
  imports Evaluator Canonicalizer_Facts
begin

text \<open>
  The facts about the decision evaluator. Every hard gate offers the same contract to the pipeline: when its
  condition holds it records a pass and nothing else, and when not it records a failure and leaves a reason
  behind. From that contract alone follows what an accepted decision guarantees. The composition with the
  canonicaliser shows one thing both cannot agree on: a packet that was run twice.
\<close>

subsection \<open>The contract of a gate\<close>

definition clean :: "gateFindings \<Rightarrow> bool" where
  "clean f = (gf_reasons f = [] \<and> gf_inconclusive f = [])"

definition passed :: "gateFindings \<Rightarrow> string \<Rightarrow> bool" where
  "passed f code = gr_passed (result_of f code)"

locale hard_gate =
  fixes code :: string and ok :: bool and run :: "gateFindings \<Rightarrow> gateFindings"
  assumes ok_step: "ok \<Longrightarrow> \<exists>refs. run f = f\<lparr>gf_results := gput code (gate_result code True refs) (gf_results f)\<rparr>"
    and bad_step: "\<not> ok \<Longrightarrow> \<not> clean (run f) \<and> (\<exists>refs. gf_results (run f) = gput code (gate_result code False refs) (gf_results f))"
begin

lemma clean_run: "clean (run f) \<longleftrightarrow> ok \<and> clean f"
proof (cases ok)
  case True
  then obtain refs where "run f = f\<lparr>gf_results := gput code (gate_result code True refs) (gf_results f)\<rparr>" using ok_step by blast
  then show ?thesis using True by (simp add: clean_def)
next
  case False
  then show ?thesis using bad_step by blast
qed

lemma passed_run: "passed (run f) c = (if c = code then ok else passed f c)"
proof (cases ok)
  case True
  then obtain refs where "run f = f\<lparr>gf_results := gput code (gate_result code True refs) (gf_results f)\<rparr>" using ok_step by blast
  then show ?thesis using True by (simp add: passed_def result_of_def gate_result_def)
next
  case False
  then obtain refs where "gf_results (run f) = gput code (gate_result code False refs) (gf_results f)" using bad_step by blast
  then show ?thesis using False by (simp add: passed_def result_of_def gate_result_def)
qed

end

subsection \<open>The gates offer it\<close>

definition static_ok :: "Input \<Rightarrow> bool" where
  "static_ok inp = (in_static_gates inp \<noteq> [] \<and> list_all sg_passed (in_static_gates inp))"

definition refs_ok :: "Input \<Rightarrow> gobj \<Rightarrow> bool" where
  "refs_ok inp doc = ((\<exists>c. gidx doc ''candidate_ref'' = GObject c \<and> EqualJSON (GObject c) (GObject (candidateRefDoc (in_candidate inp)))) \<and>
     list_all (baseline_resolves inp) (outcomes_of doc))"

definition fixtures_ok :: "gobj \<Rightarrow> ReleaseRule \<Rightarrow> bool" where
  "fixtures_ok doc rule = (\<forall>domain \<in> set (rl_domains rule). \<exists>outcome \<in> set (outcomes_of doc). str_or_empty (gidx outcome ''domain'') = domain)"

definition declared_utility :: "gobj \<Rightarrow> UtilityVector option" where
  "declared_utility doc = utilityVectorOf (AsObject (gidx doc ''utility_vector''))"

definition infra_ok :: "Input \<Rightarrow> gobj \<Rightarrow> bool" where
  "infra_ok inp doc =
     (list_all (outcome_counts_match (in_records inp)) (outcomes_of doc) \<and>
      card (rr_family ` set (in_records inp)) = card (outcome_family ` set (outcomes_of doc)) \<and>
      (\<exists>u. declared_utility doc = Some u \<and> primaryDimsEqual u (rc_utility (recount_all (in_records inp)))) \<and>
      in_candidate_cases inp = rc_cand (recount_all (in_records inp)) \<and> in_enveloped_cases inp = rc_env (recount_all (in_records inp)) \<and>
      primaryDimsEqual (in_envelope inp) (rc_envelope (recount_all (in_records inp))))"

definition critical_ok :: "Comparator \<Rightarrow> gobj \<Rightarrow> RunRecord list \<Rightarrow> bool" where
  "critical_ok cmp doc records =
     (\<exists>n. declared_regressions (cm_critical_domains cmp) (outcomes_of doc) 0 = Some n \<and> n = recomputed_regressions records \<and> \<not> lt64 0 n)"

definition budget_ok :: "Comparator \<Rightarrow> gobj \<Rightarrow> bool" where
  "budget_ok cmp doc = (\<exists>u. declared_utility doc = Some u \<and> withinCostBudget (uv_cost u) (cm_cost_budget cmp))"

definition heads_ok :: "Input \<Rightarrow> bool" where
  "heads_ok inp = (in_expected_heads inp = [] \<and> in_observed_heads inp = [] \<or> headSetKey (in_expected_heads inp) = headSetKey (in_observed_heads inp))"

definition envelope_ok :: "Input \<Rightarrow> bool" where
  "envelope_ok inp = (1 \<le> sint (in_enveloped_cases inp) \<and> 1 \<le> sint (in_candidate_cases inp))"

lemma appendUnique_not_Nil [simp]: "appendUnique xs x \<noteq> []"
  by (auto simp: appendUnique_def)

lemma pass_step: "\<exists>refs'. pass code refs f = f\<lparr>gf_results := gput code (gate_result code True refs') (gf_results f)\<rparr>"
  by (auto simp: pass_def)

lemma fail_step:
  "reason \<noteq> [] \<Longrightarrow> \<not> clean (fail_gate code reason f) \<and>
     (\<exists>refs. gf_results (fail_gate code reason f) = gput code (gate_result code False refs) (gf_results f))"
  "reason \<noteq> [] \<Longrightarrow> \<not> clean (failInconclusive code reason f) \<and>
     (\<exists>refs. gf_results (failInconclusive code reason f) = gput code (gate_result code False refs) (gf_results f))"
  by (auto simp: fail_gate_def failInconclusive_def clean_def)

lemmas gate_steps = pass_step fail_step

interpretation static: hard_gate GateStaticValidation "static_ok inp" "evaluateStaticGates inp" for inp
proof
  show "\<exists>refs. evaluateStaticGates inp f = f\<lparr>gf_results := gput GateStaticValidation (gate_result GateStaticValidation True refs) (gf_results f)\<rparr>"
    if "static_ok inp" for f
  proof -
    have "find (\<lambda>g. \<not> sg_passed g) (in_static_gates inp) = None"
      using that by (simp add: static_ok_def find_None_iff list_all_iff)
    then show ?thesis using that by (auto simp: evaluateStaticGates_def static_ok_def)
  qed
  show "\<not> clean (evaluateStaticGates inp f) \<and>
      (\<exists>refs. gf_results (evaluateStaticGates inp f) = gput GateStaticValidation (gate_result GateStaticValidation False refs) (gf_results f))"
    if "\<not> static_ok inp" for f
  proof (cases "in_static_gates inp = []")
    case True
    then show ?thesis by (simp add: evaluateStaticGates_def gate_steps)
  next
    case False
    with that obtain g where "find (\<lambda>g. \<not> sg_passed g) (in_static_gates inp) = Some g"
      by (metis find_None_iff list_all_iff not_None_eq static_ok_def)
    with False show ?thesis
      by (auto simp: evaluateStaticGates_def Let_def clean_def fail_gate_def gput_gput)
  qed
qed

interpretation schema: hard_gate GateSchemaDigest "gate ev e (deepCopyObject doc) SchemaReplayResult = Inr ()" "evaluateSchemaDigest ev e doc" for ev e doc
  by unfold_locales (auto simp: evaluateSchemaDigest_def gate_steps split: sum.split)

interpretation refs: hard_gate GateExactRefs "refs_ok inp doc" "evaluateExactRefs inp doc" for inp doc
  by unfold_locales (auto simp: evaluateExactRefs_def refs_ok_def gate_steps AsObject_def EqualJSON_def split: gv.splits)

interpretation fixtures: hard_gate GateFixtureCompletion "fixtures_ok doc rule" "\<lambda>f. evaluateFixtureCompleteness doc rule f" for doc rule
  by unfold_locales (auto simp: evaluateFixtureCompleteness_def fixtures_ok_def gate_steps Let_def list_all_iff)

interpretation infra: hard_gate GateInfraSeparation "infra_ok inp doc" "evaluateInfraSeparation inp doc" for inp doc
  by unfold_locales
    (auto simp: evaluateInfraSeparation_def infra_ok_def gate_steps Let_def declared_utility_def length_remdups_card_conv split: option.splits)

interpretation critical: hard_gate GateCriticalSlices "critical_ok cmp doc records" "evaluateCriticalSlices cmp doc records" for cmp doc records
  by unfold_locales (auto simp: evaluateCriticalSlices_def critical_ok_def gate_steps split: option.splits)

interpretation budget: hard_gate GateCostBudget "budget_ok cmp doc" "evaluateCostBudget cmp doc" for cmp doc
  by unfold_locales (auto simp: evaluateCostBudget_def budget_ok_def declared_utility_def gate_steps split: option.splits)

interpretation heads: hard_gate GateSourceHeads "heads_ok inp" "evaluateSourceHeads inp" for inp
  by unfold_locales (auto simp: evaluateSourceHeads_def heads_ok_def gate_steps)

interpretation envelope: hard_gate GateReferenceEnvelope "envelope_ok inp" "evaluateEnvelope inp" for inp
  by unfold_locales (auto simp: evaluateEnvelope_def envelope_ok_def gate_steps not_less)

lemmas gates_clean = static.clean_run schema.clean_run refs.clean_run fixtures.clean_run infra.clean_run critical.clean_run
  budget.clean_run heads.clean_run envelope.clean_run
lemmas gates_passed = static.passed_run schema.passed_run refs.passed_run fixtures.passed_run infra.passed_run critical.passed_run
  budget.passed_run heads.passed_run envelope.passed_run

subsection \<open>The pipeline\<close>

definition all_ok :: "Comparator \<Rightarrow> Input \<Rightarrow> gobj \<Rightarrow> bool" where
  "all_ok cmp inp doc =
     (static_ok inp \<and> refs_ok inp doc \<and> fixtures_ok doc (in_release_rule inp) \<and> infra_ok inp doc \<and>
      critical_ok cmp doc (in_records inp) \<and> budget_ok cmp doc \<and> heads_ok inp \<and> envelope_ok inp)"

lemma run_gates_clean: "clean (run_gates cmp inp doc f) \<longleftrightarrow> all_ok cmp inp doc \<and> clean f"
  by (auto simp: run_gates_def Let_def gates_clean all_ok_def)

lemma run_gates_passed:
  assumes "all_ok cmp inp doc" "passed f GateSchemaDigest" "code \<in> set gateOrder" "code \<noteq> GateUtilityPareto"
  shows "passed (run_gates cmp inp doc f) code"
  using assms by (auto simp: run_gates_def Let_def gates_passed all_ok_def gateOrder_def)

lemma clean_new: "clean newFindings"
  by (simp add: clean_def newFindings_def)

lemma writeDecision_Inr:
  assumes "writeDecision ev e cmp inp doc f outcome reasons = Inr d"
  shows "dn_outcome d = outcome" "dn_reasons d = reasons" "dn_gates d = ordered f"
    "gate ev e (Decision_Doc d) SchemaReleaseDecision = Inr ()"
  using assms unfolding writeDecision_def Let_def by (auto split: sum.splits)

lemma written: "writeDecision ev e cmp inp doc f outcome reasons = Inr d \<Longrightarrow> dn_outcome d = outcome \<and> dn_reasons d = reasons \<and> dn_gates d = ordered f"
  by (intro conjI) (erule writeDecision_Inr)+

lemma verdict_cases: "compare_dims dims c cd e ed rn rd strict = Inr v \<Longrightarrow> v = VerdictAccept \<or> v = VerdictNotImproved"
  by (induction dims arbitrary: strict) (auto simp: Let_def split: prod.splits sum.splits if_splits)

lemma CompareUtility_verdict: "CompareUtility c cc e ec mode rn rd = Inr v \<Longrightarrow> v = VerdictAccept \<or> v = VerdictNotImproved"
  by (auto simp: CompareUtility_def Let_def dest: verdict_cases split: if_splits)

definition doc_status :: "gobj \<Rightarrow> string" where
  "doc_status doc = str_or_empty (gidx doc ''status'')"

definition improves :: "Comparator \<Rightarrow> Input \<Rightarrow> gobj \<Rightarrow> bool" where
  "improves cmp inp doc =
     (\<exists>u. declared_utility doc = Some u \<and>
        CompareUtility u (in_candidate_cases inp) (in_envelope inp) (in_enveloped_cases inp) (cm_mode cmp) (cm_ratio_num cmp) (cm_ratio_den cmp)
          = Inr VerdictAccept)"

text \<open>What the last step does, and then the whole: which outcome, with which findings and reasons.\<close>

lemma decide_utility_Inr:
  assumes "decide_utility ev e cmp inp doc f = Inr d"
  shows "if improves cmp inp doc then dn_outcome d = OutcomeAccepted \<and> dn_reasons d = [] \<and> dn_gates d = ordered (pass GateUtilityPareto [] f)
    else dn_outcome d \<in> {OutcomeRejected, OutcomeInconclusive} \<and> dn_reasons d \<noteq> []"
proof (cases "declared_utility doc")
  case None
  then show ?thesis using assms
    by (auto simp: decide_utility_def improves_def declared_utility_def Let_def fail_gate_def dest: written)
next
  case (Some u)
  let ?cmp = "CompareUtility u (in_candidate_cases inp) (in_envelope inp) (in_enveloped_cases inp) (cm_mode cmp) (cm_ratio_num cmp) (cm_ratio_den cmp)"
  show ?thesis
  proof (cases ?cmp)
    case (Inl err)
    with Some assms show ?thesis
      by (auto simp: decide_utility_def improves_def declared_utility_def dest: written)
  next
    case (Inr v)
    have eq: "decide_utility ev e cmp inp doc f = (if v = VerdictNotImproved
        then writeDecision ev e cmp inp doc (fail_gate GateUtilityPareto ReasonUtilityNotParetoImproved f) OutcomeRejected
          (appendUnique (gf_reasons f) ReasonUtilityNotParetoImproved)
        else writeDecision ev e cmp inp doc (pass GateUtilityPareto [] f) OutcomeAccepted [])"
      using Some Inr by (simp add: decide_utility_def declared_utility_def Let_def) (simp add: fail_gate_def)
    have "improves cmp inp doc \<longleftrightarrow> v \<noteq> VerdictNotImproved"
      using CompareUtility_verdict [OF Inr] Some Inr by (auto simp: improves_def)
    with assms show ?thesis unfolding eq by (auto dest: written split: if_splits)
  qed
qed

lemma Decide_Inr:
  assumes "Decide ev e cmp inp = Inr d" "in_result_doc inp = Some doc"
  defines "sound \<equiv> gate ev e (deepCopyObject doc) SchemaReplayResult = Inr ()"
    and "f \<equiv> run_gates cmp inp doc (evaluateSchemaDigest ev e doc newFindings)"
  shows "if sound \<and> doc_status doc = StatusSucceeded \<and> all_ok cmp inp doc \<and> improves cmp inp doc
    then dn_outcome d = OutcomeAccepted \<and> dn_reasons d = [] \<and> dn_gates d = ordered (pass GateUtilityPareto [] f)
    else dn_outcome d \<in> {OutcomeRejected, OutcomeInconclusive} \<and> dn_reasons d \<noteq> []"
proof -
  let ?f0 = "evaluateSchemaDigest ev e doc newFindings"
  have sound: "gr_passed (result_of ?f0 GateSchemaDigest) = sound"
    using schema.passed_run [of ev e doc newFindings GateSchemaDigest] by (simp add: passed_def sound_def)
  have clean: "clean f \<longleftrightarrow> all_ok cmp inp doc \<and> sound"
    by (simp add: f_def run_gates_clean gates_clean clean_new sound_def)
  consider (invalid) "doc_status doc \<notin> {StatusSucceeded, StatusFailed, StatusInconclusive}"
      "writeDecision ev e cmp inp doc ?f0 OutcomeRejected [ReasonReplayResultInvalid] = Inr d"
    | (unusable) f1 rs r where "sound" "doc_status doc \<noteq> StatusSucceeded" "writeDecision ev e cmp inp doc f1 OutcomeInconclusive (appendUnique rs r) = Inr d"
    | (rejected) "gf_reasons f \<noteq> []" "writeDecision ev e cmp inp doc f OutcomeRejected (gf_reasons f) = Inr d" "\<not> sound \<or> doc_status doc = StatusSucceeded"
    | (stale) "gf_reasons f = []" "gf_inconclusive f \<noteq> []" "writeDecision ev e cmp inp doc f OutcomeInconclusive (gf_inconclusive f) = Inr d"
    | (compare) "clean f" "decide_utility ev e cmp inp doc f = Inr d" "\<not> sound \<or> doc_status doc = StatusSucceeded"
    using assms(1) unfolding Decide_def assms(2) option.case Let_def sound f_def [symmetric] doc_status_def [symmetric]
    by (auto simp: and_then_Inr clean_def split: if_splits)
  then show ?thesis
  proof cases
    case invalid
    then show ?thesis by (auto dest: written)
  next
    case unusable
    then show ?thesis by (auto dest: written)
  next
    case rejected
    then show ?thesis using clean by (auto simp: clean_def dest: written)
  next
    case stale
    then show ?thesis using clean by (auto simp: clean_def dest: written)
  next
    case compare
    then show ?thesis using clean decide_utility_Inr [OF compare(2)] by auto
  qed
qed

subsection \<open>A written decision\<close>

text \<open>The only way writing can fail on plain references is the authority schema of the decision.\<close>

definition no_refs :: "gateFindings \<Rightarrow> bool" where
  "no_refs f = (\<forall>r \<in> set (gf_results f). gr_refs (snd r) = [])"

lemma no_refs_gput: "no_refs f \<Longrightarrow> gr_refs v = [] \<Longrightarrow> no_refs (f\<lparr>gf_results := gput k v (gf_results f)\<rparr>)"
  using set_gput [of k v "gf_results f"] by (auto simp: no_refs_def)

lemma no_refs_update [simp]: "no_refs (f\<lparr>gf_reasons := r\<rparr>) = no_refs f" "no_refs (f\<lparr>gf_inconclusive := r\<rparr>) = no_refs f"
  by (simp_all add: no_refs_def)

lemma no_refs_steps:
  assumes "no_refs f"
  shows "no_refs (pass code [] f)" "no_refs (fail_gate code reason f)" "no_refs (failInconclusive code reason f)"
  using no_refs_gput [OF assms] by (simp_all add: pass_def fail_gate_def failInconclusive_def gate_result_def)

lemma no_refs_gates:
  assumes "no_refs f" "in_validation_refs inp = []" "\<forall>g \<in> set (in_static_gates inp). sg_refs g = []"
  shows "no_refs (run_gates cmp inp doc f)"
proof -
  have "no_refs (evaluateStaticGates inp f)" if "no_refs f" for f
    using that assms(2,3) no_refs_steps(2) [OF that] no_refs_gput
    by (auto simp: evaluateStaticGates_def Let_def gate_result_def find_Some_iff split: option.split)
  moreover have "no_refs (evaluateExactRefs inp doc f)" "no_refs (evaluateFixtureCompleteness doc rule f)" "no_refs (evaluateInfraSeparation inp doc f)"
    "no_refs (evaluateCriticalSlices cmp doc records f)" "no_refs (evaluateCostBudget cmp doc f)" "no_refs (evaluateSourceHeads inp f)"
    "no_refs (evaluateEnvelope inp f)" if "no_refs f" for f rule records
    using no_refs_steps [OF that]
    by (auto simp: evaluateExactRefs_def evaluateFixtureCompleteness_def evaluateInfraSeparation_def evaluateCriticalSlices_def
        evaluateCostBudget_def evaluateSourceHeads_def evaluateEnvelope_def Let_def split: option.split)
  ultimately show ?thesis using assms(1) by (simp add: run_gates_def Let_def)
qed

lemma ordered_no_refs: "no_refs f \<Longrightarrow> g \<in> set (ordered f) \<Longrightarrow> gr_refs g = []"
  by (auto simp: ordered_def result_of_def gate_result_def no_refs_def split: option.splits) (fastforce dest: map_of_SomeD)

definition plain_input :: "Input \<Rightarrow> Comparator \<Rightarrow> bool" where
  "plain_input inp cmp =
     (integerForm (vr_version (car_origin_ref (in_candidate inp))) \<and> integerForm (vr_version (rl_ref (in_release_rule inp))) \<and>
      integerForm (vr_version (cm_ref cmp)) \<and> in_validation_refs inp = [] \<and> in_expected_heads inp = [])"

lemma writeDecision_total:
  assumes "plain_input inp cmp" "no_refs f" "map_of (ss_docs e) SchemaReleaseDecision = Some []"
  shows "\<exists>d. writeDecision ev e cmp inp doc f outcome reasons = Inr d"
proof -
  have one: "integerForm ''1''" by code_simp
  have gates: "plain (gate_doc g)" if "g \<in> set (ordered f)" for g
    using ordered_no_refs [OF assms(2) that] by (simp add: gate_doc_def)
  have refs: "list_all plain (versionedRefDocs (replayResultRefs doc))"
    using one by (simp add: replayResultRefs_def Let_def versionedRefDocs_def versionedRefDoc_def)
  define d where "d = \<lparr>dn_id = (if in_decision_id inp = [] then deriveDecisionID inp doc cmp else in_decision_id inp),
            dn_version = (if lt64 (in_decision_version inp) 1 then 1 else in_decision_version inp), dn_digest = [],
            dn_candidate = in_candidate inp, dn_validation_refs = in_validation_refs inp, dn_replay_refs = replayResultRefs doc,
            dn_rule_ref = rl_ref (in_release_rule inp), dn_comparator_ref = cm_ref cmp, dn_gates = ordered f,
            dn_outcome = outcome, dn_reasons = reasons, dn_heads = in_expected_heads inp\<rparr>"
  have plain: "plain (GObject (Decision_Doc (d\<lparr>dn_digest := x\<rparr>)))" "map_of (Decision_Doc (d\<lparr>dn_digest := x\<rparr>)) ''extensions'' = None" for x
    using assms(1) gates refs
    by (auto simp: Decision_Doc_def d_def plain_input_def candidateRefDoc_def versionedRefDoc_def list_all_iff versionedRefDocs_def)
  have "plain (GObject (decisionPreimage (Decision_Doc d)))"
    using plain_gidx [OF plain(1) [of "dn_digest d"]] by (simp add: decisionPreimage_def)
  then obtain x where "DigestOf (GObject (decisionPreimage (Decision_Doc d))) = Inr x" using DigestOf_plain by blast
  moreover have "gate ev e (Decision_Doc (d\<lparr>dn_digest := x\<rparr>)) SchemaReleaseDecision = Inr ()"
    by (intro open_gate assms(3) plain)
  ultimately have "writeDecision ev e cmp inp doc f outcome reasons = Inr (d\<lparr>dn_digest := x\<rparr>)"
    unfolding writeDecision_def Let_def by (simp only: d_def [symmetric] sum.case)
  then show ?thesis by blast
qed

text \<open>So does the whole decision: every branch ends in writing one.\<close>

lemma Decide_total:
  assumes "in_result_doc inp = Some doc" "car_candidate_id (in_candidate inp) \<noteq> []" "car_body_digest (in_candidate inp) \<noteq> []"
    "validateComparator cmp = Inr ()" "plain_input inp cmp" "\<forall>g \<in> set (in_static_gates inp). sg_refs g = []"
    "map_of (ss_docs e) SchemaReleaseDecision = Some []"
  shows "\<exists>d. Decide ev e cmp inp = Inr d"
proof -
  let ?f0 = "evaluateSchemaDigest ev e doc newFindings"
  have f0: "no_refs ?f0"
    using no_refs_steps [of newFindings] by (auto simp: evaluateSchemaDigest_def no_refs_def newFindings_def gate_result_def split: sum.split)
  moreover have "in_validation_refs inp = []" using assms(5) by (simp add: plain_input_def)
  ultimately have f: "no_refs (run_gates cmp inp doc ?f0)" using assms(6) by (intro no_refs_gates)
  have wr: "\<exists>d. writeDecision ev e cmp inp doc g outcome reasons = Inr d" if "no_refs g" for g outcome reasons
    using writeDecision_total [OF assms(5) that assms(7)] .
  have "\<exists>d. decide_utility ev e cmp inp doc g = Inr d" if "no_refs g" for g
    using wr no_refs_steps [OF that] by (auto simp: decide_utility_def Let_def split: option.split sum.split)
  then show ?thesis using f0 f wr assms(1-4) by (auto simp: Decide_def Let_def)
qed

subsection \<open>A concrete accepted decision\<close>

definition sample_outcome :: gobj where
  "sample_outcome = [(''fixture_ref'', GObject [(''id'', GString ''f'')]), (''domain'', GString ''general''),
     (''baseline_ref'', GObject (skillRefDoc sample_skill_ref)), (''baseline_passed'', GNumber ''0''),
     (''candidate_passed'', GNumber ''1''), (''critical_regression_count'', GNumber ''0'')]"

definition sample_utility_doc :: gobj where
  "sample_utility_doc = [(''task_success_count'', GNumber ''1''), (''critical_branch_pass_count'', GNumber ''0''),
     (''recovery_success_count'', GNumber ''0''), (''inconclusive_case_count'', GNumber ''0''), (''execution_cost_units'', GNumber ''5'')]"

definition sample_result_doc :: gobj where
  "sample_result_doc = [(''status'', GString StatusSucceeded), (''candidate_ref'', GObject (candidateRefDoc (rq_candidate sample_request))),
     (''fixture_outcomes'', GArray [GObject sample_outcome]), (''utility_vector'', GObject sample_utility_doc)]"

definition sample_record :: "string \<Rightarrow> string \<Rightarrow> RunRecord" where
  "sample_record side category = \<lparr>rr_packet = ''p'', rr_family = ''f'', rr_domain = ''general'', rr_side = side, rr_critical = False,
     rr_recovery = False, rr_category = category, rr_reason = []\<rparr>"

definition sample_input :: Input where
  "sample_input = \<lparr>in_decision_id = ''d'', in_decision_version = 1, in_candidate = rq_candidate sample_request,
     in_result_doc = Some sample_result_doc,
     in_records = [sample_record SideBaseline CategorySemanticFail, sample_record SideCandidate CategorySemanticPass],
     in_envelope = zero_vector, in_enveloped_cases = 1, in_candidate_cases = 1, in_request_baselines = [sample_skill_ref],
     in_validation_refs = [], in_static_gates = [\<lparr>sg_code = ''s'', sg_passed = True, sg_refs = []\<rparr>],
     in_release_rule = \<lparr>rl_ref = sample_ref, rl_domains = [''general'']\<rparr>, in_expected_heads = [], in_observed_heads = []\<rparr>"

definition sample_comparator :: Comparator where
  "sample_comparator = \<lparr>cm_ref = sample_ref, cm_cost_budget = 10, cm_critical_domains = [''general''], cm_mode = ModeRate,
     cm_ratio_num = 1, cm_ratio_den = 1\<rparr>"

definition sample_gates :: SchemaSet where
  "sample_gates = \<lparr>ss_dir = [], ss_docs = [(SchemaReplayResult, []), (SchemaReleaseDecision, [])], ss_names = []\<rparr>"

lemma sample_ints:
  "intOf (GNumber ''0'') = Some 0" "intOf (GNumber ''1'') = Some 1" "intOf (GNumber ''5'') = Some 5"
proof -
  have "IsIntegerNumber (GNumber ''0'')" "IsIntegerNumber (GNumber ''1'')" "IsIntegerNumber (GNumber ''5'')"
    "parseBigInt (GNumber ''0'') = Some 0" "parseBigInt (GNumber ''1'') = Some 1" "parseBigInt (GNumber ''5'') = Some 5" by code_simp+
  then show "intOf (GNumber ''0'') = Some 0" "intOf (GNumber ''1'') = Some 1" "intOf (GNumber ''5'') = Some 5"
    by (simp_all add: intOf_def parseInt64_def)
qed

lemma sample_utility: "declared_utility sample_result_doc = Some (zero_vector\<lparr>uv_task := 1, uv_cost := 5\<rparr>)"
  by (simp add: declared_utility_def sample_result_doc_def gidx_def AsObject_def utilityVectorOf_def sample_utility_doc_def sample_ints zero_vector_def)

lemma sample_outcomes: "outcomes_of sample_result_doc = [sample_outcome]"
  by (simp add: outcomes_of_def sample_result_doc_def gidx_def arr_or_nil_def AsArray_def obj_or_nil_def AsObject_def)

lemma sample_all_ok: "all_ok sample_comparator sample_input sample_result_doc"
proof -
  have "static_ok sample_input" by (simp add: static_ok_def sample_input_def)
  moreover have "refs_ok sample_input sample_result_doc"
    by (simp add: refs_ok_def sample_outcomes EqualJSON_def) (simp add: sample_result_doc_def gidx_def sample_input_def baseline_resolves_def sample_outcome_def
        AsObject_def ParseSkillArtifactRef_doc sample_skill_ref_ok refInList_def)
  moreover have "fixtures_ok sample_result_doc (in_release_rule sample_input)"
    by (simp add: fixtures_ok_def sample_outcomes sample_input_def sample_outcome_def gidx_def str_or_empty_def AsString_def)
  moreover have "infra_ok sample_input sample_result_doc"
    by (simp add: infra_ok_def sample_outcomes sample_utility sample_input_def outcome_counts_match_def Let_def sample_outcome_def gidx_def
        sample_ints family_passes_def outcome_family_def obj_or_nil_def AsObject_def str_or_empty_def AsString_def sample_record_def Passed_def
        recount_all_def recount_step_def recount_vector_def zero_vector_def primaryDimsEqual_def)
  moreover have "critical_ok sample_comparator sample_result_doc (in_records sample_input)"
    by (simp add: critical_ok_def sample_outcomes sample_outcome_def gidx_def str_or_empty_def AsString_def sample_ints
        recomputed_regressions_def sample_input_def sample_record_def)
  moreover have "budget_ok sample_comparator sample_result_doc"
    by (simp add: budget_ok_def sample_utility withinCostBudget_def sample_comparator_def)
  moreover have "heads_ok sample_input" "envelope_ok sample_input" by (simp_all add: heads_ok_def envelope_ok_def sample_input_def)
  ultimately show ?thesis by (simp add: all_ok_def)
qed

lemma sample_improves: "improves sample_comparator sample_input sample_result_doc"
  by (simp add: improves_def sample_utility sample_comparator_def sample_input_def CompareUtility_def primaryDimensions_def zero_vector_def
      compareRatios_def crossAtLeast_def checkedMul_spec)

lemma sample_doc_gate: "gate ev sample_gates (deepCopyObject sample_result_doc) SchemaReplayResult = Inr ()"
proof (rule open_gate)
  have ints: "integerForm ''0''" "integerForm ''1''" "integerForm ''5''" "integerForm ''12''" by code_simp+
  have "valid_text sample_digest" by (rule valid_text_ascii) (simp add: sample_digest_def list_all_iff)
  then have c: "copyable sample_result_doc"
    by (simp add: copyable_def max_nesting_def gmap_ok_def sample_result_doc_def sample_outcome_def sample_utility_doc_def skillRefDoc_def
        candidateRefDoc_def versionedRefDoc_def sample_request_def sample_skill_ref_def sample_ref_def valid_text_ascii ints)
  then show "plain (GObject (deepCopyObject sample_result_doc))" by (rule copyable_plain)
  show "map_of (deepCopyObject sample_result_doc) ''extensions'' = None"
  proof -
    have "GObject (deepCopyObject sample_result_doc) = canon (GObject sample_result_doc)"
      using c unfolding copyable_def by (metis deepCopyObject_canon)
    then have "fst ` set (deepCopyObject sample_result_doc) = fst ` set sample_result_doc"
      by (simp add: image_image)
    then show ?thesis by (simp add: map_of_eq_None_iff) (simp add: sample_result_doc_def)
  qed
qed (simp add: sample_gates_def)

lemma sample_decision: "\<exists>d. Decide ev sample_gates sample_comparator sample_input = Inr d"
proof (rule Decide_total)
  have "integerForm ''1''" by code_simp
  then show "plain_input sample_input sample_comparator"
    by (simp add: plain_input_def sample_input_def sample_comparator_def sample_request_def sample_ref_def)
  show "validateComparator sample_comparator = Inr ()"
    by (simp add: validateComparator_def sample_comparator_def)
  show "in_result_doc sample_input = Some sample_result_doc" by (simp add: sample_input_def)
  show "car_candidate_id (in_candidate sample_input) \<noteq> []" "car_body_digest (in_candidate sample_input) \<noteq> []"
    by (simp_all add: sample_input_def sample_request_def sample_digest_def)
qed (simp_all add: sample_input_def sample_gates_def)

subsection \<open>Properties\<close>

text \<open>
  C3: an evaluation that yields a decision accepts exactly when the result document passes its authority
  schema and reports success, every hard gate's condition holds, and the comparison accepts the declared
  utility; then all ten recorded gates are passed. Utility never overrides a failed gate.
\<close>

theorem Decide_accepts_exactly:
  assumes "Decide ev e cmp inp = Inr d" "in_result_doc inp = Some doc"
  shows "(dn_outcome d = OutcomeAccepted \<longleftrightarrow>
      gate ev e (deepCopyObject doc) SchemaReplayResult = Inr () \<and> doc_status doc = StatusSucceeded \<and>
      all_ok cmp inp doc \<and> improves cmp inp doc) \<and>
    (dn_outcome d = OutcomeAccepted \<longrightarrow> map gr_passed (dn_gates d) = replicate 10 True)"
proof -
  let ?start = "evaluateSchemaDigest ev e doc newFindings" and ?final = "run_gates cmp inp doc (evaluateSchemaDigest ev e doc newFindings)"
  let ?yes = "gate ev e (deepCopyObject doc) SchemaReplayResult = Inr () \<and> doc_status doc = StatusSucceeded \<and> all_ok cmp inp doc \<and> improves cmp inp doc"
  note D = Decide_Inr [OF assms]
  have out: "dn_outcome d = OutcomeAccepted \<longleftrightarrow> ?yes" using D by (auto split: if_splits)
  have "map gr_passed (dn_gates d) = replicate 10 True" if "?yes"
  proof -
    have gates: "dn_gates d = ordered (pass GateUtilityPareto [] ?final)" using D that by simp
    have "passed ?start GateSchemaDigest" using that by (simp add: schema.passed_run)
    then have "passed (pass GateUtilityPareto [] ?final) code" if "code \<in> set gateOrder" for code
      using run_gates_passed [of cmp inp doc ?start code] that \<open>?yes\<close>
      by (cases "code = GateUtilityPareto") (simp_all add: pass_def passed_def result_of_def gate_result_def)
    then have "map gr_passed (dn_gates d) = map (\<lambda>_. True) gateOrder" by (simp add: gates ordered_def passed_def)
    then show ?thesis by (simp add: gateOrder_def numeral_eq_Suc)
  qed
  with out show ?thesis by blast
qed

theorem Decide_accepts_exactly_witness:
  "\<exists>d. Decide sample_env sample_gates sample_comparator sample_input = Inr d \<and> dn_outcome d = OutcomeAccepted"
proof -
  obtain d where d: "Decide sample_env sample_gates sample_comparator sample_input = Inr d" using sample_decision by blast
  have "doc_status sample_result_doc = StatusSucceeded" by (simp add: doc_status_def sample_result_doc_def gidx_def str_or_empty_def AsString_def)
  moreover have "in_result_doc sample_input = Some sample_result_doc" by (simp add: sample_input_def)
  ultimately show ?thesis
    using Decide_accepts_exactly [OF d] sample_all_ok sample_improves sample_doc_gate d by blast
qed

text \<open>
  a decision carries reason codes exactly when it does not accept, its outcome is one of the three
  closed outcomes, and its document has passed the authority schema of decisions.
\<close>

theorem Decide_reasons:
  assumes "Decide ev e cmp inp = Inr d"
  shows "(dn_reasons d = [] \<longleftrightarrow> dn_outcome d = OutcomeAccepted) \<and>
    dn_outcome d \<in> {OutcomeAccepted, OutcomeRejected, OutcomeInconclusive} \<and>
    gate ev e (Decision_Doc d) SchemaReleaseDecision = Inr ()"
proof -
  obtain doc where doc: "in_result_doc inp = Some doc" using assms by (cases "in_result_doc inp") (auto simp: Decide_def)
  have "gate ev e (Decision_Doc d) SchemaReleaseDecision = Inr ()"
    using assms writeDecision_Inr(4) unfolding Decide_def doc decide_utility_def Let_def
    by (fastforce simp: and_then_Inr split: if_splits option.splits sum.splits)
  with Decide_Inr [OF assms doc] show ?thesis by (auto split: if_splits)
qed

theorem Decide_reasons_witness:
  "\<exists>d. Decide sample_env sample_gates sample_comparator sample_input = Inr d \<and>
     gate sample_env sample_gates (Decision_Doc d) SchemaReleaseDecision = Inr ()"
proof -
  obtain d where d: "Decide sample_env sample_gates sample_comparator sample_input = Inr d" using sample_decision by blast
  with Decide_reasons [OF d] show ?thesis by blast
qed

text \<open>
  a derived decision identity is always the fallback: the list of replay references is not a value the
  canonical form knows, so no digest is ever computed and two different decisions get the same identity.
\<close>

theorem deriveDecisionID_constant: "deriveDecisionID inp doc cmp = ''decision-unknown''"
proof -
  have "\<nexists>t. emit (GObject m) = Inr t" if "(k, GOther r) \<in> set m" for m k r
  proof
    assume "\<exists>t. emit (GObject m) = Inr t"
    then obtain ts where "traverse (\<lambda>p. and_then (emit (snd p)) (\<lambda>s. Inr (writeEscapedString (fst p) @ CHR '':'' # s))) (sort_by entry_less m) = Inr ts"
      by (auto simp: and_then_Inr)
    then have all: "i < length m \<Longrightarrow> \<exists>t. emit (snd (sort_by entry_less m ! i)) = Inr t" for i
      by (auto simp: traverse_Inr and_then_Inr)
    from that have "(k, GOther r) \<in> set (sort_by entry_less m)" by simp
    then obtain i where "i < length m" "sort_by entry_less m ! i = (k, GOther r)" by (metis in_set_conv_nth length_sort_by)
    with all [of i] show False by simp
  qed
  then have "DigestOf (GObject m) \<noteq> Inr t" if "(k, GOther r) \<in> set m" for m k r t
    using that unfolding DigestOf_def JCS_def by (metis and_then_Inr)
  then show ?thesis unfolding deriveDecisionID_def by (auto split: sum.split)
qed

text \<open>
  the separation gate compares how many families were recorded and declared, not which: records of one
  family pass against a result that declares only another one, as long as neither has a pass.
\<close>

theorem infra_gate_ignores_family_names:
  "let inp = sample_input\<lparr>in_records := [sample_record SideBaseline CategorySemanticFail, sample_record SideCandidate CategorySemanticFail]\<rparr>;
       outcome = gput ''fixture_ref'' (GObject [(''id'', GString ''other'')]) (gput ''candidate_passed'' (GNumber ''0'') sample_outcome);
       doc = gput ''fixture_outcomes'' (GArray [GObject outcome])
         (gput ''utility_vector'' (GObject (gput ''task_success_count'' (GNumber ''0'') sample_utility_doc)) sample_result_doc) in
   rr_family ` set (in_records inp) = {''f''} \<and> outcome_family ` set (outcomes_of doc) = {''other''} \<and>
   passed (evaluateInfraSeparation inp doc newFindings) GateInfraSeparation"
proof -
  let ?inp = "sample_input\<lparr>in_records := [sample_record SideBaseline CategorySemanticFail, sample_record SideCandidate CategorySemanticFail]\<rparr>"
  let ?outcome = "gput ''fixture_ref'' (GObject [(''id'', GString ''other'')]) (gput ''candidate_passed'' (GNumber ''0'') sample_outcome)"
  let ?doc = "gput ''fixture_outcomes'' (GArray [GObject ?outcome])
     (gput ''utility_vector'' (GObject (gput ''task_success_count'' (GNumber ''0'') sample_utility_doc)) sample_result_doc)"
  have out: "outcomes_of ?doc = [?outcome]"
    by (simp add: outcomes_of_def gidx_def arr_or_nil_def AsArray_def obj_or_nil_def AsObject_def)
  have util: "declared_utility ?doc = Some (zero_vector\<lparr>uv_cost := 5\<rparr>)"
    by (simp add: declared_utility_def gidx_def AsObject_def utilityVectorOf_def sample_utility_doc_def sample_ints zero_vector_def)
  have fam: "outcome_family ?outcome = ''other''"
    by (simp add: outcome_family_def gidx_def obj_or_nil_def AsObject_def str_or_empty_def AsString_def)
  have "outcome_counts_match (in_records ?inp) ?outcome"
    by (simp add: outcome_counts_match_def Let_def fam) (simp add: gidx_def sample_outcome_def sample_ints family_passes_def sample_record_def Passed_def)
  then have "infra_ok ?inp ?doc"
    unfolding infra_ok_def out util
    by (simp add: fam sample_record_def Passed_def recount_all_def recount_step_def recount_vector_def zero_vector_def primaryDimsEqual_def sample_input_def)
  then show ?thesis by (simp add: infra.passed_run Let_def out fam sample_record_def)
qed

end
