(* ===== verification/Replay_Decision.thy ===== *)
theory Replay_Decision
  imports Evaluator_Facts
begin

text \<open>
  Canonicaliser and evaluator together. The canonicaliser counts a case per observed run, the evaluator
  recounts a case per run record, and there is one record per planned packet.
\<close>

definition is_cand :: "string \<Rightarrow> bool" where
  "is_cand side = (side = SideCandidate)"

subsection \<open>Keys of the plan are distinct\<close>

lemma index_packets_keys:
  "index_packets name ps idx = Inr idx' \<Longrightarrow> distinct (map fst (fst idx)) \<Longrightarrow>
   map fst (fst idx') = map fst (fst idx) @ map (\<lambda>p. (name, pk_id p, pk_side p)) ps \<and> distinct (map fst (fst idx'))"
proof (induction ps arbitrary: idx)
  case (Cons p ps)
  obtain m f where idx: "idx = (m, f)" by fastforce
  let ?key = "(name, pk_id p, pk_side p)"
  from Cons.prems have fresh: "?key \<notin> set (map fst m)"
    and step: "index_packets name ps (gput ?key p m, gput (pk_id p @ CHR 0x1F # pk_side p) name f) = Inr idx'"
    by (auto simp: idx Let_def has_key_def split: if_splits)
  have put: "gput ?key p m = m @ [(?key, p)]" by (rule gput_fresh [OF fresh])
  have "distinct (map fst (fst (gput ?key p m, gput (pk_id p @ CHR 0x1F # pk_side p) name f)))"
    using Cons.prems(2) fresh by (simp add: idx put)
  from Cons.IH [OF step this] have "map fst (fst idx') = map fst (fst idx) @ map (\<lambda>p. (name, pk_id p, pk_side p)) (p # ps)"
    and "distinct (map fst (fst idx'))" by (auto simp only: idx put fst_conv map_append list.map append_assoc append_Cons append_Nil)
  then show ?case by blast
qed simp

lemma index_plan_keys:
  "index_plan plan idx = Inr idx' \<Longrightarrow> distinct (map fst (fst idx)) \<Longrightarrow>
   map fst (fst idx') = map fst (fst idx) @ map packet_key (plan_packets plan) \<and> distinct (map fst (fst idx'))"
proof (induction plan arbitrary: idx)
  case (Cons family plan)
  then obtain mid where mid: "index_packets (fm_name family) (fm_packets family) idx = Inr mid" "index_plan plan mid = Inr idx'"
    by (auto simp: and_then_Inr)
  have pk: "map packet_key (map (Pair family) (fm_packets family)) = map (\<lambda>p. (fm_name family, pk_id p, pk_side p)) (fm_packets family)"
    by (simp add: packet_key_def)
  have "plan_packets (family # plan) = map (Pair family) (fm_packets family) @ plan_packets plan" by (simp add: plan_packets_def)
  moreover note first = index_packets_keys [OF mid(1) Cons.prems(2)]
  moreover note rest = Cons.IH [OF mid(2) conjunct2 [OF first]]
  ultimately have "map fst (fst idx') = map fst (fst idx) @ map packet_key (plan_packets (family # plan))"
    using pk by (simp only: map_append append_assoc conjunct1 [OF first] conjunct1 [OF rest])
  then show ?case using rest by blast
qed (simp add: plan_packets_def)

lemma plan_keys_distinct: "index_plan plan ([], []) = Inr idx \<Longrightarrow> distinct (map packet_key (plan_packets plan))"
  using index_plan_keys [of plan "([], [])" idx] by (metis append_Nil distinct.simps(1) fst_conv list.map(1))

subsection \<open>Every run is counted once\<close>

lemma partition_by_key:
  assumes "distinct ks" "\<And>x. x \<in> set xs \<Longrightarrow> f x \<in> set ks"
  shows "sum_list (map (\<lambda>k. length (filter (\<lambda>x. f x = k) xs)) ks) = length xs"
  using assms(2)
proof (induction xs)
  case (Cons x xs)
  have "sum_list (map (\<lambda>k. length (filter (\<lambda>y. f y = k) (x # xs))) ks) =
      sum_list (map (\<lambda>k. of_bool (f x = k)) ks) + sum_list (map (\<lambda>k. length (filter (\<lambda>y. f y = k) xs)) ks)"
    by (subst sum_list_addf [symmetric]) (auto intro!: arg_cong [where f = sum_list])
  also have "sum_list (map (\<lambda>k. of_bool (f x = k)) ks) = (1 :: nat)"
    using assms(1) Cons.prems [of x] by (simp add: sum_list_distinct_conv_sum_set of_bool_def flip: sum.inter_restrict)
  finally show ?case using Cons by simp
qed simp

lemma side_key: "is_cand (pk_side (snd fp)) = is_cand (snd (snd (packet_key fp)))"
  by (simp add: packet_key_def)

definition cases_counter :: "bool \<Rightarrow> counter" where
  "cases_counter b = (if b then CandCases else EnvCases)"

definition cases_of :: "bool \<Rightarrow> Result \<Rightarrow> int64" where
  "cases_of b res = (if b then rs_candidate_cases res else rs_envelope_cases res)"

lemma cases_are_runs:
  assumes "Canonicalize ev s (Some req) (Some plan) runs = Inr res" "rs_failure res \<noteq> ReasonUtilityArithmeticOverflow"
    "\<forall>run \<in> set runs. 0 \<le> sint (ro_cost run)" "length runs < 2 ^ 63"
  shows "sint (cases_of b res) = int (length (filter (\<lambda>run. is_cand (ro_side run) = b) runs))"
proof -
  from assms(1) obtain idx where pv: "Plan_validate plan = Inr ()" and ix: "index_plan plan ([], []) = Inr idx"
    and ok: "\<forall>run \<in> set runs. run_ok req idx run" and fin: "finish ev s req plan (fold (observe idx) runs []) = Inr res"
    unfolding Canonicalize_Inr by blast
  let ?obs = "fold (observe idx) runs []" and ?on = "\<lambda>run. is_cand (ro_side run) = b"
  let ?pp = "filter (\<lambda>fp. is_cand (pk_side (snd fp)) = b) (plan_packets plan)"
  have key: "run_key idx run \<in> packet_key ` set (plan_packets plan)" "is_cand (ro_side run) = is_cand (snd (snd (run_key idx run)))"
    if member: "run \<in> set runs" for run
  proof -
    obtain family where f: "family \<in> set plan" "planned idx run \<in> set (fm_packets family)" "run_key idx run = packet_key (family, planned idx run)"
      "ro_side run = pk_side (planned idx run)" using run_planned [OF pv ix bspec [OF ok member]] by blast
    then show "run_key idx run \<in> packet_key ` set (plan_packets plan)" by (force simp: plan_packets_def)
    show "is_cand (ro_side run) = is_cand (snd (snd (run_key idx run)))" using f(3,4) by (simp add: packet_key_def)
  qed
  have side: "pk_side (snd fp) \<in> set closedSides" if "fp \<in> set (plan_packets plan)" for fp
    using that pv validate_families_sides [of "[]" plan "fst fp" "snd fp"] by (auto simp: plan_packets_def Plan_validate_def res_simps)
  have "added (packet_deltas s ?obs fp) (cases_counter b) =
      (if is_cand (pk_side (snd fp)) = b then int (length (filter (\<lambda>run. run_key idx run = packet_key fp) runs)) else 0)"
    if "fp \<in> set (plan_packets plan)" for fp
    unfolding packet_deltas_def using side [OF that] le_less_trans [OF length_filter_le assms(4)]
    by (subst added_deltas) (auto simp: grouped record_for_def record_of_def cases_counter_def is_cand_def)
  then have "plan_total s ?obs plan (cases_counter b) = sum_list (map (\<lambda>fp. if is_cand (pk_side (snd fp)) = b
      then int (length (filter (\<lambda>run. run_key idx run = packet_key fp) runs)) else 0) (plan_packets plan))"
    unfolding plan_total_def by (intro arg_cong [where f = sum_list] map_cong) auto
  also have "\<dots> = sum_list (map (\<lambda>fp. int (length (filter (\<lambda>run. run_key idx run = packet_key fp) runs))) ?pp)"
    by (simp add: sum_list_map_filter')
  also have "\<dots> = int (sum_list (map (\<lambda>k. length (filter (\<lambda>run. run_key idx run = k) (filter ?on runs))) (map packet_key ?pp)))"
  proof -
    have "filter (\<lambda>run. run_key idx run = packet_key fp) runs = filter (\<lambda>run. run_key idx run = packet_key fp) (filter ?on runs)"
      if "fp \<in> set ?pp" for fp
      using that key(2) side_key [of fp] unfolding filter_filter by (intro filter_cong) auto
    then have "map (\<lambda>fp. int (length (filter (\<lambda>run. run_key idx run = packet_key fp) runs))) ?pp =
        map (int \<circ> (\<lambda>k. length (filter (\<lambda>run. run_key idx run = k) (filter ?on runs))) \<circ> packet_key) ?pp"
      by (intro map_cong) (simp_all only: comp_def)
    then show ?thesis by (simp only: sum_list_of_nat [symmetric] map_map comp_assoc)
  qed
  also have "sum_list (map (\<lambda>k. length (filter (\<lambda>run. run_key idx run = k) (filter ?on runs))) (map packet_key ?pp)) = length (filter ?on runs)"
  proof (rule partition_by_key)
    show "distinct (map packet_key ?pp)" using plan_keys_distinct [OF ix] by (rule distinct_map_filter)
    show "run_key idx run \<in> set (map packet_key ?pp)" if "run \<in> set (filter ?on runs)" for run
      using that key(1) [of run] key(2) [of run] side_key by auto
  qed
  finally have total: "plan_total s ?obs plan (cases_counter b) = int (length (filter ?on runs))" .
  have "\<not> ag_overflowed (total_agg s ?obs plan)" using finish_fields(1) [OF fin] assms(2) by simp
  from total_agg_exact(2) [OF assms(3,4) this, of "cases_counter b"] finish_fields(3) [OF fin, of "cases_counter b"] total
  show ?thesis by (simp add: cases_of_def result_counter_def cases_counter_def split: if_splits)
qed

subsection \<open>The evaluator's recount\<close>

lemma recount_step_cases:
  "rc_cand (recount_step r a) = (if is_cand (rr_side r) then rc_cand a + 1 else rc_cand a)"
  "rc_env (recount_step r a) = (if is_cand (rr_side r) then rc_env a else rc_env a + 1)"
  by (simp_all add: recount_step_def is_cand_def)

lemma recount_cases:
  "rc_cand (recount_all records) = word_of_nat (length (filter (\<lambda>r. is_cand (rr_side r)) records))"
  "rc_env (recount_all records) = word_of_nat (length (filter (\<lambda>r. \<not> is_cand (rr_side r)) records))"
proof -
  have "rc_cand (fold recount_step rs a) = rc_cand a + word_of_nat (length (filter (\<lambda>r. is_cand (rr_side r)) rs))"
    "rc_env (fold recount_step rs a) = rc_env a + word_of_nat (length (filter (\<lambda>r. \<not> is_cand (rr_side r)) rs))" for rs a
    by (induction rs arbitrary: a) (auto simp: recount_step_cases algebra_simps)
  then show "rc_cand (recount_all records) = word_of_nat (length (filter (\<lambda>r. is_cand (rr_side r)) records))"
    "rc_env (recount_all records) = word_of_nat (length (filter (\<lambda>r. \<not> is_cand (rr_side r)) records))"
    by (simp_all add: recount_all_def)
qed

lemma length_filter_mset: "mset xs = mset ys \<Longrightarrow> length (filter P xs) = length (filter P ys)"
  by (metis mset_filter size_mset)

lemma recount_of_result:
  assumes "Canonicalize ev s (Some req) (Some plan) runs = Inr res"
  shows "length (filter (\<lambda>r. is_cand (rr_side r) = b) (rs_records res)) = length (filter (\<lambda>fp. is_cand (pk_side (snd fp)) = b) (plan_packets plan))"
proof -
  obtain obs where "rs_records res = sort_by record_less (map (record_for s obs) (plan_packets plan))"
    using assms finish_fields(4) unfolding Canonicalize_Inr by blast
  then have "length (filter (\<lambda>r. is_cand (rr_side r) = b) (rs_records res)) =
      length (filter (\<lambda>r. is_cand (rr_side r) = b) (map (record_for s obs) (plan_packets plan)))"
    by (intro length_filter_mset) simp
  also have "\<dots> = length (filter (\<lambda>fp. is_cand (pk_side (snd fp)) = b) (plan_packets plan))"
    by (simp add: filter_map comp_def record_for_def record_of_def)
  finally show ?thesis .
qed

end
