(* ===== verification/Host_Prelude.thy ===== *)
theory Host_Prelude
  imports Go_Prelude
begin

text \<open>
  What the components of the chat host share: reachable states of a step relation and invariants over them.
  Each host component is a state and operations on it; its step relation is one step per operation that
  succeeds or fails, whatever the request.
\<close>

text \<open>The states reachable from a given one.\<close>

inductive reaches :: "('s \<Rightarrow> 's \<Rightarrow> bool) \<Rightarrow> 's \<Rightarrow> 's \<Rightarrow> bool" for step where
  start: "reaches step s s"
| more: "reaches step s t \<Longrightarrow> step t u \<Longrightarrow> reaches step s u"

lemma reaches_one: "step s t \<Longrightarrow> reaches step s t"
  by (rule reaches.more [OF reaches.start])

lemma reaches_trans: "reaches step t u \<Longrightarrow> reaches step s t \<Longrightarrow> reaches step s u"
  by (induction rule: reaches.induct) (auto intro: reaches.intros)

text \<open>
  The interface between a component and its invariant: initial states have it and every step keeps it. Then
  every reachable state has it, and so has everything reachable from there.
\<close>

locale component =
  fixes init :: "'s \<Rightarrow> bool" and step :: "'s \<Rightarrow> 's \<Rightarrow> bool" and inv :: "'s \<Rightarrow> bool"
  assumes init_inv: "init s \<Longrightarrow> inv s"
    and step_inv: "inv s \<Longrightarrow> step s t \<Longrightarrow> inv t"
begin

lemma reaches_inv: "reaches step s t \<Longrightarrow> inv s \<Longrightarrow> inv t"
  by (induction rule: reaches.induct) (auto intro: step_inv)

lemma reachable_inv: "init s \<Longrightarrow> reaches step s t \<Longrightarrow> inv t"
  using reaches_inv init_inv by blast

end

text \<open>A property that, once it holds, no step takes away.\<close>

locale stable = component +
  fixes P :: "'s \<Rightarrow> bool"
  assumes step_stable: "inv s \<Longrightarrow> P s \<Longrightarrow> step s t \<Longrightarrow> P t"
begin

lemma reaches_stable: "reaches step s t \<Longrightarrow> inv s \<Longrightarrow> P s \<Longrightarrow> P t"
  by (induction rule: reaches.induct) (auto intro: step_stable reaches_inv)

end

end
