(* ===== verification/Delivery.thy ===== *)
theory Delivery
  imports Host_Prelude
begin

text \<open>
  The delivery state machine of the chat host (\<^verbatim>\<open>internal/delivery/state_machine.go\<close>, on the types of
  \<^verbatim>\<open>internal/domain/types.go\<close>) and the authority boundary of the interaction DAG (\<^verbatim>\<open>internal/dag/authority.go\<close>).
  Instants are integers: they are only stored. The results: a delivery's state and its three timestamps agree
  in every reachable delivery, a terminal delivery never moves, and recall never changes the DAG.
\<close>

subsection \<open>Deliveries\<close>

abbreviation DeliveryPending :: string where "DeliveryPending \<equiv> ''pending''"
abbreviation DeliveryAccepted :: string where "DeliveryAccepted \<equiv> ''accepted''"
abbreviation DeliverySettled :: string where "DeliverySettled \<equiv> ''settled''"
abbreviation DeliveryFailed :: string where "DeliveryFailed \<equiv> ''failed''"
abbreviation DeliveryAborted :: string where "DeliveryAborted \<equiv> ''aborted''"

record Delivery =
  dv_id :: string
  dv_room :: string
  dv_agent :: string
  dv_message :: string
  dv_state :: string
  dv_attempts :: int64
  dv_accepted_at :: "int option"
  dv_settled_at :: "int option"
  dv_terminal_at :: "int option"
  dv_failure_code :: string

datatype delivery_error = ErrInvalidTransition

text \<open>\<open>Transition\<close> returns the delivery unchanged next to its error.\<close>

definition Transition :: "Delivery \<Rightarrow> string \<Rightarrow> int \<Rightarrow> Delivery \<times> delivery_error option" where
  "Transition current target at =
     (let legal =
        (if target = DeliveryAccepted then dv_state current = DeliveryPending
         else if target = DeliverySettled then dv_state current = DeliveryAccepted
         else if target = DeliveryFailed \<or> target = DeliveryAborted
         then dv_state current = DeliveryPending \<or> dv_state current = DeliveryAccepted
         else False)
      in if \<not> legal then (current, Some ErrInvalidTransition)
         else
           let updated = current\<lparr>dv_state := target\<rparr> in
           (if target = DeliveryAccepted then updated\<lparr>dv_accepted_at := Some at\<rparr>
            else if target = DeliverySettled then updated\<lparr>dv_settled_at := Some at\<rparr>
            else updated\<lparr>dv_terminal_at := Some at\<rparr>, None))"

text \<open>The specification: the legal moves, and one step of a delivery.\<close>

inductive moves :: "string \<Rightarrow> string \<Rightarrow> bool" where
  accept: "moves DeliveryPending DeliveryAccepted"
| settle: "moves DeliveryAccepted DeliverySettled"
| fail: "s = DeliveryPending \<or> s = DeliveryAccepted \<Longrightarrow> moves s DeliveryFailed"
| abort: "s = DeliveryPending \<or> s = DeliveryAccepted \<Longrightarrow> moves s DeliveryAborted"

inductive_simps moves_iff: "moves s t"

definition delivery_step :: "Delivery \<Rightarrow> Delivery \<Rightarrow> bool" where
  "delivery_step d d' = (\<exists>target at. d' = fst (Transition d target at))"

definition fresh :: "Delivery \<Rightarrow> bool" where
  "fresh d = (dv_state d = DeliveryPending \<and> dv_accepted_at d = None \<and> dv_settled_at d = None \<and> dv_terminal_at d = None)"

text \<open>What the state says about the timestamps.\<close>

definition stamped :: "Delivery \<Rightarrow> bool" where
  "stamped d =
     (dv_state d = DeliveryPending \<and> dv_accepted_at d = None \<and> dv_settled_at d = None \<and> dv_terminal_at d = None \<or>
      dv_state d = DeliveryAccepted \<and> dv_accepted_at d \<noteq> None \<and> dv_settled_at d = None \<and> dv_terminal_at d = None \<or>
      dv_state d = DeliverySettled \<and> dv_accepted_at d \<noteq> None \<and> dv_settled_at d \<noteq> None \<and> dv_terminal_at d = None \<or>
      dv_state d \<in> {DeliveryFailed, DeliveryAborted} \<and> dv_settled_at d = None \<and> dv_terminal_at d \<noteq> None)"

definition terminal :: "Delivery \<Rightarrow> bool" where
  "terminal d = (dv_state d \<in> {DeliverySettled, DeliveryFailed, DeliveryAborted})"

lemma Transition_simps:
  "Transition d DeliveryAccepted at =
     (if dv_state d = DeliveryPending then (d\<lparr>dv_state := DeliveryAccepted, dv_accepted_at := Some at\<rparr>, None) else (d, Some ErrInvalidTransition))"
  "Transition d DeliverySettled at =
     (if dv_state d = DeliveryAccepted then (d\<lparr>dv_state := DeliverySettled, dv_settled_at := Some at\<rparr>, None) else (d, Some ErrInvalidTransition))"
  "target \<in> {DeliveryFailed, DeliveryAborted} \<Longrightarrow> Transition d target at =
     (if dv_state d = DeliveryPending \<or> dv_state d = DeliveryAccepted then (d\<lparr>dv_state := target, dv_terminal_at := Some at\<rparr>, None)
      else (d, Some ErrInvalidTransition))"
  "target \<notin> {DeliveryAccepted, DeliverySettled, DeliveryFailed, DeliveryAborted} \<Longrightarrow> Transition d target at = (d, Some ErrInvalidTransition)"
  unfolding Transition_def Let_def
  subgoal by simp
  subgoal by simp
  subgoal by (elim insertE emptyE; simp)
  subgoal by (simp only: insert_iff empty_iff de_Morgan_disj if_True if_False simp_thms)
  done

lemma target_cases:
  obtains "target = DeliveryAccepted" | "target = DeliverySettled" | "target \<in> {DeliveryFailed, DeliveryAborted}"
    | "target \<notin> {DeliveryAccepted, DeliverySettled, DeliveryFailed, DeliveryAborted}"
  by blast

lemma moves_cases:
  "moves s DeliveryAccepted \<longleftrightarrow> s = DeliveryPending" "moves s DeliverySettled \<longleftrightarrow> s = DeliveryAccepted"
  "t \<in> {DeliveryFailed, DeliveryAborted} \<Longrightarrow> moves s t \<longleftrightarrow> s = DeliveryPending \<or> s = DeliveryAccepted"
  "t \<notin> {DeliveryAccepted, DeliverySettled, DeliveryFailed, DeliveryAborted} \<Longrightarrow> \<not> moves s t"
  by (simp_all add: moves_iff) auto

lemma Transition_moves: "snd (Transition d target at) = None \<longleftrightarrow> moves (dv_state d) target"
  by (cases target rule: target_cases) (simp_all add: Transition_simps moves_cases del: insert_iff)

lemma terminal_stuck: "terminal d \<Longrightarrow> Transition d target at = (d, Some ErrInvalidTransition)"
  unfolding terminal_def by (cases target rule: target_cases) (auto simp: Transition_simps)

lemma Transition_stamped: "stamped d \<Longrightarrow> stamped (fst (Transition d target at))"
  by (cases target rule: target_cases) (auto simp: Transition_simps stamped_def)

interpretation delivery: stable fresh delivery_step stamped "\<lambda>d. terminal d \<and> d = frozen" for frozen
proof
  show "fresh d \<Longrightarrow> stamped d" for d by (simp add: fresh_def stamped_def)
  show "stamped d \<Longrightarrow> delivery_step d d' \<Longrightarrow> stamped d'" for d d'
    unfolding delivery_step_def using Transition_stamped by blast
  show "terminal d' \<and> d' = frozen" if "terminal d \<and> d = frozen" "delivery_step d d'" for d d'
    using that terminal_stuck by (auto simp: delivery_step_def)
qed

text \<open>What is recorded of a delivery stays as it was recorded: whom and what it is for, and each instant once it is known.\<close>

definition recorded_in :: "Delivery \<Rightarrow> Delivery \<Rightarrow> bool" where
  "recorded_in d e =
     (dv_id e = dv_id d \<and> dv_room e = dv_room d \<and> dv_agent e = dv_agent d \<and> dv_message e = dv_message d \<and> dv_attempts e = dv_attempts d \<and>
      dv_failure_code e = dv_failure_code d \<and> (\<forall>field \<in> {dv_accepted_at, dv_settled_at, dv_terminal_at}. field d \<noteq> None \<longrightarrow> field e = field d))"

lemma Transition_records:
  assumes "stamped d"
  shows "recorded_in d (fst (Transition d target at))"
  using assms by (cases target rule: target_cases) (auto simp: Transition_simps stamped_def recorded_in_def)

lemma recorded_in_trans: "recorded_in d e \<Longrightarrow> recorded_in e f \<Longrightarrow> recorded_in d f"
  by (auto simp: recorded_in_def)

interpretation delivery_records: stable fresh delivery_step stamped "recorded_in d" for d
proof
  show "recorded_in d e'" if "stamped e" "recorded_in d e" "delivery_step e e'" for e e'
    using that Transition_records recorded_in_trans by (auto simp: delivery_step_def)
qed

subsection \<open>The interaction DAG\<close>

record Segment =
  sg_id :: string
  sg_room :: string
  sg_delivery :: string
  sg_state :: string

record Event =
  ev_id :: string
  ev_segment :: string
  ev_kind :: string
  ev_content :: string

record Link =
  lk_id :: string
  lk_from :: string
  lk_to :: string
  lk_kind :: string

record Snapshot =
  sn_segments :: "Segment list"
  sn_events :: "Event list"
  sn_links :: "Link list"

text \<open>The values of the mutation-like fields are never read; \<open>'v\<close> is their type.\<close>

record 'v GraphMemoryResponse =
  gm_recall :: string
  gm_citation :: string
  gm_mutations :: "'v gmap"

record AuthorityResult =
  ar_before :: Snapshot
  ar_after :: Snapshot
  ar_ignored :: "string list"

definition ApplyGraphMemoryResponse :: "Snapshot \<Rightarrow> 'v GraphMemoryResponse \<Rightarrow> AuthorityResult" where
  "ApplyGraphMemoryResponse snapshot response =
     \<lparr>ar_before = snapshot, ar_after = snapshot, ar_ignored = sort_strings (map fst (gm_mutations response))\<rparr>"

subsection \<open>Properties\<close>

text \<open>
  C39: a delivery moves exactly along pending, accepted, settled and from the first two to failed or aborted, and such a move stamps
  the instant of the new state with the given one; in every delivery reachable from a fresh one the timestamps are those its state
  calls for (so it is only ever settled after it was accepted); what is recorded, each timestamp included, is never changed by later
  transitions; and a settled, failed or aborted delivery stays as it is for good.
\<close>

theorem delivery_lifecycle:
  assumes "fresh d" "reaches delivery_step d d'" "reaches delivery_step d' d''"
  shows "stamped d' \<and> (snd (Transition d' target at) = None \<longleftrightarrow> moves (dv_state d') target) \<and>
    (moves (dv_state d') target \<longrightarrow> dv_state (fst (Transition d' target at)) = target \<and>
       (if target = DeliveryAccepted then dv_accepted_at else if target = DeliverySettled then dv_settled_at else dv_terminal_at)
         (fst (Transition d' target at)) = Some at) \<and>
    recorded_in d' d'' \<and> (terminal d' \<longrightarrow> d'' = d')"
proof -
  have st: "stamped d'" by (rule delivery.reachable_inv [OF assms(1,2)])
  have "recorded_in d' d'" by (simp add: recorded_in_def)
  with delivery_records.reaches_stable [OF assms(3) st] have rec: "recorded_in d' d''" by blast
  have "moves (dv_state d') target \<longrightarrow> dv_state (fst (Transition d' target at)) = target \<and>
      (if target = DeliveryAccepted then dv_accepted_at else if target = DeliverySettled then dv_settled_at else dv_terminal_at)
        (fst (Transition d' target at)) = Some at"
    by (cases target rule: target_cases) (auto simp: Transition_simps moves_cases)
  with st rec Transition_moves delivery.reaches_stable [OF assms(3) st] show ?thesis by blast
qed

definition sample_delivery :: Delivery where
  "sample_delivery = \<lparr>dv_id = ''delivery-1'', dv_room = ''r'', dv_agent = ''a'', dv_message = ''message-1'', dv_state = DeliveryPending,
     dv_attempts = 0, dv_accepted_at = None, dv_settled_at = None, dv_terminal_at = None, dv_failure_code = []\<rparr>"

theorem delivery_lifecycle_witness:
  "let d = fst (Transition sample_delivery DeliveryAccepted 1); e = fst (Transition d DeliverySettled 2) in
   stamped d \<and> recorded_in d e \<and> dv_accepted_at e = Some 1 \<and> dv_settled_at e = Some 2 \<and> dv_state e = DeliverySettled"
proof -
  let ?d = "fst (Transition sample_delivery DeliveryAccepted 1)"
  have "fresh sample_delivery" by (simp add: fresh_def sample_delivery_def)
  moreover have "reaches delivery_step sample_delivery ?d" "reaches delivery_step ?d (fst (Transition ?d DeliverySettled 2))"
    by (intro reaches_one; unfold delivery_step_def; blast)+
  ultimately have "stamped ?d \<and> recorded_in ?d (fst (Transition ?d DeliverySettled 2))" using delivery_lifecycle by blast
  then show ?thesis by (simp add: Let_def) (simp add: Transition_def sample_delivery_def)
qed

text \<open>
  A Graph Memory response, whatever it carries, leaves the interaction DAG as it was, and the names of
  all its mutation-like fields are reported, in sorted order, however the map is iterated.
\<close>

lemma graph_memory_never_mutates:
  assumes "mset (gm_mutations response) = mset entries" "distinct (map fst entries)"
  shows "ar_after (ApplyGraphMemoryResponse snapshot response) = snapshot \<and>
    ar_before (ApplyGraphMemoryResponse snapshot response) = snapshot \<and>
    ar_ignored (ApplyGraphMemoryResponse snapshot response) = sorted_list_of_set (fst ` set entries)"
proof -
  have "mset (map fst (gm_mutations response)) = mset (map fst entries)" using assms(1) by simp
  then have "sort (map fst (gm_mutations response)) = sort (map fst entries)" by (metis mset_sort properties_for_sort sorted_sort)
  also have "\<dots> = sorted_list_of_set (set (map fst entries))" using assms(2) by (metis distinct_remdups_id sorted_list_of_set_sort_remdups)
  finally show ?thesis by (simp add: ApplyGraphMemoryResponse_def sort_strings_sort)
qed

end
