(* ===== verification/Room_Service.thy ===== *)
theory Room_Service
  imports Host_Prelude Decimal
begin

text \<open>
  The in-process room authority of the chat host (\<^verbatim>\<open>internal/room/service.go\<close>): canonical message order,
  one delivery per mentioned agent and message, and replays of idempotency keys. The mutex makes every
  operation one atomic step. The results: message order has no gaps, deliveries are unique, and a repeated
  mention returns what the first one returned, whatever happened in between.
\<close>

subsection \<open>State and requests\<close>

record Message =
  rm_id :: string
  rm_room :: string
  rm_seq :: int64
  rm_author :: string
  rm_content :: string
  rm_reply_to :: string
  rm_key :: string

record RoomDelivery =
  rd_id :: string
  rd_agent :: string
  rd_message :: string
  rd_state :: string

text \<open>\<open>deliveryKeys\<close> only ever maps to true: the list of its keys.\<close>

record roomState =
  st_messages :: "Message list"
  st_deliveries :: "RoomDelivery list"
  st_next_sequence :: int64
  st_next_id :: int64
  st_mention_keys :: "Message gmap"
  st_reply_keys :: "Message gmap"
  st_delivery_keys :: "string list"

type_synonym rooms = "roomState gmap"

record AppendMentionRequest =
  am_room :: string
  am_author :: string
  am_content :: string
  am_key :: string
  am_agents :: "string list"

record AppendMentionResult =
  ar_message :: Message
  ar_deliveries :: "RoomDelivery list"
  ar_duplicate :: bool
  ar_message_count :: nat
  ar_delivery_count :: nat

record ReplyRequest =
  rp_room :: string
  rp_agent :: string
  rp_operation :: string
  rp_reply_to :: string
  rp_content :: string

record ReplyResult =
  rr_message :: Message
  rr_duplicate :: bool
  rr_message_count :: nat
  rr_delivery_count :: nat

subsection \<open>Operations\<close>

definition NewRoomService :: rooms where
  "NewRoomService = []"

definition empty_room :: roomState where
  "empty_room = \<lparr>st_messages = [], st_deliveries = [], st_next_sequence = 0, st_next_id = 0, st_mention_keys = [],
     st_reply_keys = [], st_delivery_keys = []\<rparr>"

text \<open>\<open>s.room(id)\<close> also stores the empty state it makes; the callers below store the room they return.\<close>

definition room :: "rooms \<Rightarrow> string \<Rightarrow> roomState" where
  "room s roomID = (case map_of s roomID of None \<Rightarrow> empty_room | Some st \<Rightarrow> st)"

definition deliveriesFor :: "roomState \<Rightarrow> string \<Rightarrow> RoomDelivery list" where
  "deliveriesFor st messageID = filter (\<lambda>d. rd_message d = messageID) (st_deliveries st)"

definition message_id :: "int64 \<Rightarrow> string" where
  "message_id n = ''message-'' @ format_int (sint n)"

definition delivery_id :: "int64 \<Rightarrow> string" where
  "delivery_id n = ''delivery-'' @ format_int (sint n)"

text \<open>Appending a message: the next id, the next sequence number.\<close>

definition push_message :: "Message \<Rightarrow> roomState \<Rightarrow> Message \<times> roomState" where
  "push_message m st =
     (let next = st_next_id st + 1;
          message = m\<lparr>rm_id := message_id next, rm_seq := st_next_sequence st + 1\<rparr>
      in (message, st\<lparr>st_next_id := next, st_next_sequence := rm_seq message, st_messages := st_messages st @ [message]\<rparr>))"

fun add_deliveries :: "string \<Rightarrow> string list \<Rightarrow> RoomDelivery list \<times> roomState \<Rightarrow> RoomDelivery list \<times> roomState" where
  "add_deliveries mid [] acc = acc"
| "add_deliveries mid (agent # agents) (ds, st) =
     (let key = agent @ CHR 0x00 # mid in
      if key \<in> set (st_delivery_keys st) then add_deliveries mid agents (ds, st)
      else
        let next = st_next_id st + 1;
            d = \<lparr>rd_id = delivery_id next, rd_agent = agent, rd_message = mid, rd_state = ''pending''\<rparr>
        in add_deliveries mid agents (ds @ [d],
             st\<lparr>st_delivery_keys := st_delivery_keys st @ [key], st_next_id := next, st_deliveries := st_deliveries st @ [d]\<rparr>))"

definition AppendMention :: "AppendMentionRequest \<Rightarrow> rooms \<Rightarrow> AppendMentionResult \<times> rooms" where
  "AppendMention request s =
     (let st = room s (am_room request) in
      case map_of (st_mention_keys st) (am_key request) of
        Some original \<Rightarrow>
          (\<lparr>ar_message = original, ar_deliveries = deliveriesFor st (rm_id original), ar_duplicate = True,
            ar_message_count = length (st_messages st), ar_delivery_count = length (st_deliveries st)\<rparr>,
           gput (am_room request) st s)
      | None \<Rightarrow>
          let (message, st1) = push_message \<lparr>rm_id = [], rm_room = am_room request, rm_seq = 0, rm_author = am_author request,
                rm_content = am_content request, rm_reply_to = [], rm_key = am_key request\<rparr> st;
              st2 = st1\<lparr>st_mention_keys := gput (am_key request) message (st_mention_keys st1)\<rparr>;
              (ds, st3) = add_deliveries (rm_id message) (am_agents request) ([], st2)
          in (\<lparr>ar_message = message, ar_deliveries = ds, ar_duplicate = False,
               ar_message_count = length (st_messages st3), ar_delivery_count = length (st_deliveries st3)\<rparr>,
              gput (am_room request) st3 s))"

definition PublishReply :: "ReplyRequest \<Rightarrow> rooms \<Rightarrow> ReplyResult \<times> rooms" where
  "PublishReply request s =
     (let st = room s (rp_room request) in
      case map_of (st_reply_keys st) (rp_operation request) of
        Some original \<Rightarrow>
          (\<lparr>rr_message = original, rr_duplicate = True, rr_message_count = length (st_messages st),
            rr_delivery_count = length (st_deliveries st)\<rparr>, gput (rp_room request) st s)
      | None \<Rightarrow>
          let (message, st1) = push_message \<lparr>rm_id = [], rm_room = rp_room request, rm_seq = 0, rm_author = rp_agent request,
                rm_content = rp_content request, rm_reply_to = rp_reply_to request, rm_key = rp_operation request\<rparr> st;
              st2 = st1\<lparr>st_reply_keys := gput (rp_operation request) message (st_reply_keys st1)\<rparr>
          in (\<lparr>rr_message = message, rr_duplicate = False, rr_message_count = length (st_messages st2),
               rr_delivery_count = length (st_deliveries st2)\<rparr>, gput (rp_room request) st2 s))"

subsection \<open>The invariant of a room\<close>

definition issued :: "roomState \<Rightarrow> nat" where
  "issued st = length (st_messages st) + length (st_deliveries st)"

definition delivery_key :: "RoomDelivery \<Rightarrow> string" where
  "delivery_key d = rd_agent d @ CHR 0x00 # rd_message d"

text \<open>Sequence numbers without gaps; message ids from a rising sequence of numbers that were issued.\<close>

definition ordered_messages :: "roomState \<Rightarrow> bool" where
  "ordered_messages st =
     (st_next_sequence st = word_of_nat (length (st_messages st)) \<and> st_next_id st = word_of_nat (issued st) \<and>
      map rm_seq (st_messages st) = map (\<lambda>i. word_of_nat (Suc i)) [0 ..< length (st_messages st)] \<and>
      (\<exists>ns. map rm_id (st_messages st) = map (\<lambda>n. message_id (word_of_nat n)) ns \<and> sorted_wrt (<) ns \<and> (\<forall>n \<in> set ns. 0 < n \<and> n \<le> issued st)))"

definition unique_deliveries :: "roomState \<Rightarrow> bool" where
  "unique_deliveries st =
     (set (st_delivery_keys st) = delivery_key ` set (st_deliveries st) \<and> distinct (map delivery_key (st_deliveries st)) \<and>
      (\<forall>d \<in> set (st_deliveries st). rd_message d \<in> rm_id ` set (st_messages st)))"

definition known_keys :: "roomState \<Rightarrow> bool" where
  "known_keys st =
     ((\<forall>k m. map_of (st_mention_keys st) k = Some m \<longrightarrow> m \<in> set (st_messages st) \<and> rm_key m = k) \<and>
      (\<forall>k m. map_of (st_reply_keys st) k = Some m \<longrightarrow> m \<in> set (st_messages st) \<and> rm_key m = k))"

definition room_ok :: "roomState \<Rightarrow> bool" where
  "room_ok st = (ordered_messages st \<and> unique_deliveries st \<and> known_keys st)"

lemma room_ok_empty: "room_ok empty_room"
  by (simp add: room_ok_def ordered_messages_def unique_deliveries_def known_keys_def empty_room_def issued_def)

lemma push_message_fields:
  assumes "push_message m st = (message, st')"
  shows "st_messages st' = st_messages st @ [message]" "st_deliveries st' = st_deliveries st" "rm_key message = rm_key m"
    "st_mention_keys st' = st_mention_keys st" "st_reply_keys st' = st_reply_keys st" "st_delivery_keys st' = st_delivery_keys st"
    "rm_id message = message_id (st_next_id st + 1)" "rm_seq message = st_next_sequence st + 1"
    "st_next_id st' = st_next_id st + 1" "st_next_sequence st' = st_next_sequence st + 1"
  using assms by (auto simp: push_message_def Let_def)

lemma push_message_ok:
  assumes "room_ok st" "push_message m st = (message, st')"
  shows "ordered_messages st'" "unique_deliveries st'" "issued st' = Suc (issued st)" "rm_id message = message_id (word_of_nat (Suc (issued st)))"
proof -
  note f = push_message_fields [OF assms(2)]
  have ord: "ordered_messages st" using assms(1) by (simp add: room_ok_def)
  show iss: "issued st' = Suc (issued st)" by (simp add: issued_def f)
  have nid: "st_next_id st + 1 = word_of_nat (Suc (issued st))" using ord by (simp add: ordered_messages_def add.commute)
  show mid: "rm_id message = message_id (word_of_nat (Suc (issued st)))" by (simp only: f(7) nid)
  obtain ns where ns: "map rm_id (st_messages st) = map (\<lambda>n. message_id (word_of_nat n)) ns" "sorted_wrt (<) ns" "\<forall>n \<in> set ns. 0 < n \<and> n \<le> issued st"
    using ord unfolding ordered_messages_def by blast
  have "\<exists>ns. map rm_id (st_messages st') = map (\<lambda>n. message_id (word_of_nat n)) ns \<and> sorted_wrt (<) ns \<and> (\<forall>n \<in> set ns. 0 < n \<and> n \<le> issued st')"
    using ns mid by (intro exI [of _ "ns @ [Suc (issued st)]"]) (auto simp: f iss sorted_wrt_append)
  moreover have "st_next_id st' = word_of_nat (issued st')" using nid by (simp add: f iss)
  moreover have "st_next_sequence st' = word_of_nat (length (st_messages st'))"
    "map rm_seq (st_messages st') = map (\<lambda>i. word_of_nat (Suc i)) [0 ..< length (st_messages st')]"
    using ord by (simp_all add: f ordered_messages_def add.commute)
  ultimately show "ordered_messages st'" unfolding ordered_messages_def by blast
  show "unique_deliveries st'" using assms(1) by (auto simp: room_ok_def unique_deliveries_def f)
qed

lemma add_deliveries_ok:
  assumes "add_deliveries mid agents (ds, st) = (ds', st')" "ordered_messages st" "unique_deliveries st" "mid \<in> rm_id ` set (st_messages st)"
  shows "ordered_messages st' \<and> unique_deliveries st' \<and> st_messages st' = st_messages st \<and> st_mention_keys st' = st_mention_keys st \<and>
    st_reply_keys st' = st_reply_keys st \<and>
    (\<exists>new. st_deliveries st' = st_deliveries st @ new \<and> ds' = ds @ new \<and> (\<forall>d \<in> set new. rd_message d = mid))"
  using assms
proof (induction agents arbitrary: ds st)
  case Nil
  then show ?case by auto
next
  case (Cons agent agents)
  let ?key = "agent @ CHR 0x00 # mid"
  show ?case
  proof (cases "?key \<in> set (st_delivery_keys st)")
    case True
    with Cons.prems(1) have "add_deliveries mid agents (ds, st) = (ds', st')" by simp
    from Cons.IH [OF this Cons.prems(2-4)] show ?thesis .
  next
    case False
    define d where "d = \<lparr>rd_id = delivery_id (st_next_id st + 1), rd_agent = agent, rd_message = mid, rd_state = ''pending''\<rparr>"
    define st1 where "st1 = st\<lparr>st_delivery_keys := st_delivery_keys st @ [?key], st_next_id := st_next_id st + 1, st_deliveries := st_deliveries st @ [d]\<rparr>"
    have step: "add_deliveries mid agents (ds @ [d], st1) = (ds', st')"
      using Cons.prems(1) False by (simp add: Let_def d_def st1_def)
    have dk: "delivery_key d = ?key" by (simp add: d_def delivery_key_def)
    have iss: "issued st1 = Suc (issued st)" by (simp add: issued_def st1_def)
    obtain ns where ns: "map rm_id (st_messages st) = map (\<lambda>n. message_id (word_of_nat n)) ns" "sorted_wrt (<) ns" "\<forall>n \<in> set ns. 0 < n \<and> n \<le> issued st"
      using Cons.prems(2) unfolding ordered_messages_def by blast
    have "ordered_messages st1"
      unfolding ordered_messages_def
    proof (intro conjI exI [of _ ns])
      show "st_next_id st1 = word_of_nat (issued st1)" unfolding iss using Cons.prems(2) by (simp add: st1_def ordered_messages_def add.commute)
      show "\<forall>n \<in> set ns. 0 < n \<and> n \<le> issued st1" using ns(3) by (auto simp: iss)
    qed (use Cons.prems(2) ns in \<open>simp_all add: st1_def ordered_messages_def\<close>)
    moreover have "unique_deliveries st1"
      using Cons.prems(3,4) False dk by (auto simp: unique_deliveries_def st1_def) (auto simp: d_def)
    moreover have "mid \<in> rm_id ` set (st_messages st1)" using Cons.prems(4) by (simp add: st1_def)
    moreover have "st_messages st1 = st_messages st" "st_mention_keys st1 = st_mention_keys st" "st_reply_keys st1 = st_reply_keys st"
      "st_deliveries st1 = st_deliveries st @ [d]" "rd_message d = mid" by (simp_all add: st1_def d_def)
    ultimately show ?thesis using Cons.IH [OF step] by auto
  qed
qed

text \<open>Deliveries are added for the agents that have none yet for the message, one for each.\<close>

lemma add_deliveries_agents:
  assumes "add_deliveries mid agents (ds, st) = (ds', st')" "\<And>a. a @ CHR 0x00 # mid \<in> set (st_delivery_keys st) \<longleftrightarrow> a \<in> A"
  shows "\<exists>new. ds' = ds @ new \<and> distinct (map rd_agent new) \<and> set (map rd_agent new) = set agents - A \<and> (\<forall>d \<in> set new. rd_state d = ''pending'')"
  using assms
proof (induction agents arbitrary: ds st A)
  case Nil
  then show ?case by auto
next
  case (Cons agent agents)
  let ?key = "agent @ CHR 0x00 # mid"
  show ?case
  proof (cases "?key \<in> set (st_delivery_keys st)")
    case True
    with Cons.prems have "add_deliveries mid agents (ds, st) = (ds', st')" "agent \<in> A" by auto
    from Cons.IH [OF this(1) Cons.prems(2)] this(2) show ?thesis by (auto simp: insert_Diff_if)
  next
    case False
    define d where "d = \<lparr>rd_id = delivery_id (st_next_id st + 1), rd_agent = agent, rd_message = mid, rd_state = ''pending''\<rparr>"
    define st1 where "st1 = st\<lparr>st_delivery_keys := st_delivery_keys st @ [?key], st_next_id := st_next_id st + 1, st_deliveries := st_deliveries st @ [d]\<rparr>"
    have step: "add_deliveries mid agents (ds @ [d], st1) = (ds', st')" using Cons.prems(1) False by (simp add: Let_def d_def st1_def)
    have "a @ CHR 0x00 # mid \<in> set (st_delivery_keys st1) \<longleftrightarrow> a \<in> insert agent A" for a using Cons.prems(2) by (auto simp: st1_def)
    from Cons.IH [OF step this] obtain new where new: "ds' = (ds @ [d]) @ new" "distinct (map rd_agent new)"
      "set (map rd_agent new) = set agents - insert agent A" "\<forall>d \<in> set new. rd_state d = ''pending''" by blast
    have "agent \<notin> A" using False Cons.prems(2) by blast
    with new show ?thesis by (intro exI [of _ "d # new"]) (auto simp: d_def)
  qed
qed

text \<open>A mention that is not a replay, and a reply that is not one, in a room.\<close>

lemma new_message_ok:
  assumes "room_ok st" "push_message m st = (message, st1)"
    "st2 = st1\<lparr>st_mention_keys := gput (rm_key m) message (st_mention_keys st1)\<rparr> \<or>
     st2 = st1\<lparr>st_reply_keys := gput (rm_key m) message (st_reply_keys st1)\<rparr>"
  shows "room_ok st2"
proof -
  note f = push_message_fields [OF assms(2)] and ok = push_message_ok [OF assms(1,2)]
  have "known_keys st" using assms(1) by (simp add: room_ok_def)
  then have "known_keys st2" using assms(3) f(1,3,4,5) by (auto simp: known_keys_def split: if_splits)
  moreover have "ordered_messages st2" "unique_deliveries st2"
    using ok(1,2) assms(3) by (auto simp: ordered_messages_def unique_deliveries_def issued_def)
  ultimately show ?thesis by (simp add: room_ok_def)
qed

subsection \<open>Ids are fresh\<close>

lemma message_id_inj:
  assumes "message_id (word_of_nat m) = message_id (word_of_nat n)" "m < 2 ^ 63" "n < 2 ^ 63"
  shows "m = n"
proof -
  from assms(1) have "sint (word_of_nat m :: int64) = sint (word_of_nat n :: int64)"
    by (auto simp: message_id_def dest: format_int_inj)
  then show ?thesis using assms(2,3) by (simp add: word_of_nat_length)
qed

lemma issued_numbers:
  assumes "ordered_messages st"
  obtains ns where "map rm_id (st_messages st) = map (\<lambda>n. message_id (word_of_nat n)) ns" "distinct ns" "\<And>n. n \<in> set ns \<Longrightarrow> n \<le> issued st"
  using assms unfolding ordered_messages_def by (metis strict_sorted_iff)

lemma message_ids_distinct:
  assumes "ordered_messages st" "issued st < 2 ^ 63"
  shows "distinct (map rm_id (st_messages st))"
proof -
  obtain ns where ns: "map rm_id (st_messages st) = map (\<lambda>n. message_id (word_of_nat n)) ns" "distinct ns" "\<And>n. n \<in> set ns \<Longrightarrow> n \<le> issued st"
    using issued_numbers [OF assms(1)] by blast
  have "inj_on (\<lambda>n. message_id (word_of_nat n)) (set ns)"
  proof (rule inj_onI)
    fix x y
    assume x: "x \<in> set ns" and y: "y \<in> set ns" and eq: "message_id (word_of_nat x) = message_id (word_of_nat y)"
    show "x = y"
      by (rule message_id_inj [OF eq le_less_trans [OF ns(3) [OF x] assms(2)] le_less_trans [OF ns(3) [OF y] assms(2)]])
  qed
  with ns(2) show ?thesis by (simp add: ns(1) distinct_map)
qed

lemma fresh_message_id:
  assumes "ordered_messages st" "Suc (issued st) < 2 ^ 63"
  shows "message_id (word_of_nat (Suc (issued st))) \<notin> rm_id ` set (st_messages st)"
proof -
  obtain ns where ns: "map rm_id (st_messages st) = map (\<lambda>n. message_id (word_of_nat n)) ns" "distinct ns" "\<And>n. n \<in> set ns \<Longrightarrow> n \<le> issued st"
    using issued_numbers [OF assms(1)] by blast
  have "message_id (word_of_nat (Suc (issued st))) \<noteq> message_id (word_of_nat n)" if n: "n \<in> set ns" for n
  proof
    assume eq: "message_id (word_of_nat (Suc (issued st))) = message_id (word_of_nat n)"
    have "n < Suc (issued st)" using ns(3) [OF n] by simp
    with message_id_inj [OF eq assms(2) less_trans [OF this assms(2)]] show False by simp
  qed
  moreover have "rm_id ` set (st_messages st) = (\<lambda>n. message_id (word_of_nat n)) ` set ns"
    using arg_cong [OF ns(1), of set] by simp
  ultimately show ?thesis by auto
qed

subsection \<open>Steps of the service\<close>

definition room_step :: "rooms \<Rightarrow> rooms \<Rightarrow> bool" where
  "room_step s t = ((\<exists>request. t = snd (AppendMention request s)) \<or> (\<exists>request. t = snd (PublishReply request s)))"

definition rooms_ok :: "rooms \<Rightarrow> bool" where
  "rooms_ok s = (\<forall>rid. room_ok (room s rid))"

lemma room_gput: "room (gput r st s) r' = (if r' = r then st else room s r')"
  by (simp add: room_def)

text \<open>What one step does to a room: nothing, or one new message with deliveries of its own.\<close>

definition grows :: "roomState \<Rightarrow> roomState \<Rightarrow> bool" where
  "grows st st' =
     (st' = st \<or>
      (\<exists>message new. st_messages st' = st_messages st @ [message] \<and> rm_id message = message_id (word_of_nat (Suc (issued st))) \<and>
         st_deliveries st' = st_deliveries st @ new \<and> (\<forall>d \<in> set new. rd_message d = rm_id message) \<and>
         (\<forall>k m. map_of (st_mention_keys st) k = Some m \<longrightarrow> map_of (st_mention_keys st') k = Some m)))"

lemma AppendMention_replay:
  assumes "map_of (st_mention_keys (room s (am_room request))) (am_key request) = Some original"
  shows "AppendMention request s =
    (\<lparr>ar_message = original, ar_deliveries = deliveriesFor (room s (am_room request)) (rm_id original), ar_duplicate = True,
      ar_message_count = length (st_messages (room s (am_room request))), ar_delivery_count = length (st_deliveries (room s (am_room request)))\<rparr>, s)"
proof -
  have "map_of s (am_room request) = Some (room s (am_room request))"
    using assms by (cases "map_of s (am_room request)") (auto simp: room_def empty_room_def)
  then show ?thesis using assms by (simp add: AppendMention_def Let_def gput_same)
qed

lemma AppendMention_new:
  assumes "room_ok (room s (am_room request))" "map_of (st_mention_keys (room s (am_room request))) (am_key request) = None"
  obtains message new st' where "AppendMention request s = (\<lparr>ar_message = message, ar_deliveries = new, ar_duplicate = False,
      ar_message_count = length (st_messages st'), ar_delivery_count = length (st_deliveries st')\<rparr>, gput (am_room request) st' s)"
    "room_ok st'" "st_messages st' = st_messages (room s (am_room request)) @ [message]"
    "rm_id message = message_id (word_of_nat (Suc (issued (room s (am_room request)))))"
    "st_deliveries st' = st_deliveries (room s (am_room request)) @ new" "\<forall>d \<in> set new. rd_message d = rm_id message"
    "map_of (st_mention_keys st') = (map_of (st_mention_keys (room s (am_room request))))(am_key request \<mapsto> message)"
proof -
  let ?st = "room s (am_room request)"
  let ?m = "\<lparr>rm_id = [], rm_room = am_room request, rm_seq = 0, rm_author = am_author request,
                rm_content = am_content request, rm_reply_to = [], rm_key = am_key request\<rparr>"
  obtain message st1 where push: "push_message ?m ?st = (message, st1)" by fastforce
  let ?st2 = "st1\<lparr>st_mention_keys := gput (am_key request) message (st_mention_keys st1)\<rparr>"
  obtain ds st3 where add: "add_deliveries (rm_id message) (am_agents request) ([], ?st2) = (ds, st3)" by fastforce
  note f = push_message_fields [OF push]
  have "room_ok ?st2"
    by (rule new_message_ok [OF assms(1) push]) simp
  then have ok2: "ordered_messages ?st2" "unique_deliveries ?st2" "known_keys ?st2" by (simp_all add: room_ok_def)
  have "rm_id message \<in> rm_id ` set (st_messages ?st2)" by (simp add: f)
  from add_deliveries_ok [OF add ok2(1,2) this] obtain new where
    a: "ordered_messages st3" "unique_deliveries st3" "st_messages st3 = st_messages ?st2" "st_mention_keys st3 = st_mention_keys ?st2"
      "st_reply_keys st3 = st_reply_keys ?st2" "st_deliveries st3 = st_deliveries ?st2 @ new" "ds = new" "\<forall>d \<in> set new. rd_message d = rm_id message"
    by auto
  have "room_ok st3" using a ok2(3) by (simp add: room_ok_def known_keys_def)
  moreover have "AppendMention request s = (\<lparr>ar_message = message, ar_deliveries = new, ar_duplicate = False,
      ar_message_count = length (st_messages st3), ar_delivery_count = length (st_deliveries st3)\<rparr>, gput (am_room request) st3 s)"
    using assms(2) push add a(7) by (simp add: AppendMention_def Let_def)
  ultimately show thesis
    using that [of message new st3] push_message_ok(4) [OF assms(1) push] a f by simp
qed

text \<open>The key of a delivery for a message with a new id is not in use, whatever the agent is called.\<close>

lemma message_id_no_nul: "CHR 0x00 \<notin> set (message_id n)"
  using format_int_chars by (fastforce simp: message_id_def is_digit_def less_eq_char_def)

lemma unused_key:
  assumes "room_ok st" "mid = message_id n" "mid \<notin> rm_id ` set (st_messages st)"
  shows "a @ CHR 0x00 # mid \<notin> set (st_delivery_keys st)"
proof
  assume "a @ CHR 0x00 # mid \<in> set (st_delivery_keys st)"
  then obtain d where d: "d \<in> set (st_deliveries st)" "a @ CHR 0x00 # mid = rd_agent d @ CHR 0x00 # rd_message d"
    using assms(1) by (auto simp: room_ok_def unique_deliveries_def delivery_key_def)
  then have old: "rd_message d \<in> rm_id ` set (st_messages st)" using assms(1) by (simp add: room_ok_def unique_deliveries_def)
  moreover have "rm_id ` set (st_messages st) \<subseteq> range message_id"
  proof -
    obtain ns where "map rm_id (st_messages st) = map (\<lambda>n. message_id (word_of_nat n)) ns" using assms(1) by (auto simp: room_ok_def ordered_messages_def)
    then have "rm_id ` set (st_messages st) = (\<lambda>n. message_id (word_of_nat n)) ` set ns" by (metis set_map)
    then show ?thesis by auto
  qed
  ultimately have "CHR 0x00 \<notin> set (rd_message d)" "CHR 0x00 \<notin> set mid" using message_id_no_nul assms(2) by auto
  moreover have "takeWhile (\<lambda>c. c \<noteq> CHR 0x00) (rev (x @ CHR 0x00 # y)) = rev y" if "CHR 0x00 \<notin> set y" for x y
  proof -
    have "takeWhile (\<lambda>c. c \<noteq> CHR 0x00) (rev y @ CHR 0x00 # rev x) = rev y @ takeWhile (\<lambda>c. c \<noteq> CHR 0x00) (CHR 0x00 # rev x)"
      using that by (intro takeWhile_append2) auto
    then show ?thesis by simp
  qed
  ultimately have "rev mid = rev (rd_message d)" using d(2) by metis
  then show False using old assms(3) by simp
qed

lemma AppendMention_delivers:
  assumes "room_ok (room s (am_room request))" "map_of (st_mention_keys (room s (am_room request))) (am_key request) = None"
    "Suc (issued (room s (am_room request))) < 2 ^ 63" "AppendMention request s = (result, s1)"
  shows "distinct (map rd_agent (ar_deliveries result)) \<and> set (map rd_agent (ar_deliveries result)) = set (am_agents request) \<and>
    (\<forall>d \<in> set (ar_deliveries result). rd_state d = ''pending'') \<and> rm_room (ar_message result) = am_room request \<and>
    rm_author (ar_message result) = am_author request \<and> rm_content (ar_message result) = am_content request \<and> rm_key (ar_message result) = am_key request"
proof -
  let ?st = "room s (am_room request)"
  let ?m = "\<lparr>rm_id = [], rm_room = am_room request, rm_seq = 0, rm_author = am_author request,
                rm_content = am_content request, rm_reply_to = [], rm_key = am_key request\<rparr>"
  obtain message st1 where push: "push_message ?m ?st = (message, st1)" by fastforce
  let ?st2 = "st1\<lparr>st_mention_keys := gput (am_key request) message (st_mention_keys st1)\<rparr>"
  obtain ds st3 where add: "add_deliveries (rm_id message) (am_agents request) ([], ?st2) = (ds, st3)" by fastforce
  note f = push_message_fields [OF push]
  have res: "ar_deliveries result = ds" "ar_message result = message" using assms(2,4) push add by (auto simp: AppendMention_def Let_def)
  have id: "rm_id message = message_id (word_of_nat (Suc (issued ?st)))" by (rule push_message_ok(4) [OF assms(1) push])
  have "rm_id message \<notin> rm_id ` set (st_messages ?st)" unfolding id using assms(1,3) by (intro fresh_message_id) (simp_all add: room_ok_def)
  from unused_key [OF assms(1) id this] have "a @ CHR 0x00 # rm_id message \<in> set (st_delivery_keys ?st2) \<longleftrightarrow> a \<in> {}" for a by (simp add: f)
  from add_deliveries_agents [OF add this] have "distinct (map rd_agent ds)" "set (map rd_agent ds) = set (am_agents request)"
    "\<forall>d \<in> set ds. rd_state d = ''pending''" by auto
  moreover have "rm_room message = am_room request" "rm_author message = am_author request" "rm_content message = am_content request"
    "rm_key message = am_key request" using push by (auto simp: push_message_def Let_def)
  ultimately show ?thesis by (simp add: res)
qed

lemma PublishReply_room:
  assumes "room_ok (room s (rp_room request))"
  obtains st' where "snd (PublishReply request s) = gput (rp_room request) st' s" "room_ok st'" "grows (room s (rp_room request)) st'"
    "st_deliveries st' = st_deliveries (room s (rp_room request))"
proof (cases "map_of (st_reply_keys (room s (rp_room request))) (rp_operation request)")
  case (Some original)
  then show thesis using that [of "room s (rp_room request)"] assms by (simp add: PublishReply_def Let_def grows_def)
next
  case None
  let ?st = "room s (rp_room request)"
  let ?m = "\<lparr>rm_id = [], rm_room = rp_room request, rm_seq = 0, rm_author = rp_agent request,
                rm_content = rp_content request, rm_reply_to = rp_reply_to request, rm_key = rp_operation request\<rparr>"
  obtain message st1 where push: "push_message ?m ?st = (message, st1)" by fastforce
  let ?st2 = "st1\<lparr>st_reply_keys := gput (rp_operation request) message (st_reply_keys st1)\<rparr>"
  note f = push_message_fields [OF push]
  have "room_ok ?st2" by (rule new_message_ok [OF assms push]) simp
  moreover have "grows ?st ?st2" using push_message_ok(4) [OF assms push] by (auto simp: grows_def f)
  moreover have "snd (PublishReply request s) = gput (rp_room request) ?st2 s" using None push by (simp add: PublishReply_def Let_def)
  ultimately show thesis using that [of ?st2] by (simp add: f)
qed

lemma step_room:
  assumes "rooms_ok s" "room_step s t"
  shows "grows (room s rid) (room t rid)" "rooms_ok t"
proof -
  have ok: "room_ok (room s r)" for r using assms(1) by (simp add: rooms_ok_def)
  have self: "grows st st" for st by (simp add: grows_def)
  obtain r st' where t: "\<And>r'. room t r' = (if r' = r then st' else room s r')" "room_ok st'" "grows (room s r) st'"
  proof (cases "\<exists>request. t = snd (AppendMention request s)")
    case True
    then obtain request where request: "t = snd (AppendMention request s)" ..
    show thesis
    proof (cases "map_of (st_mention_keys (room s (am_room request))) (am_key request)")
      case None
      from AppendMention_new [OF ok None] obtain message new st' where
        "AppendMention request s = (\<lparr>ar_message = message, ar_deliveries = new, ar_duplicate = False,
           ar_message_count = length (st_messages st'), ar_delivery_count = length (st_deliveries st')\<rparr>, gput (am_room request) st' s)"
        and new: "room_ok st'" "st_messages st' = st_messages (room s (am_room request)) @ [message]"
        "rm_id message = message_id (word_of_nat (Suc (issued (room s (am_room request)))))"
        "st_deliveries st' = st_deliveries (room s (am_room request)) @ new" "\<forall>d \<in> set new. rd_message d = rm_id message"
        "map_of (st_mention_keys st') = (map_of (st_mention_keys (room s (am_room request))))(am_key request \<mapsto> message)" .
      then have "room t r' = (if r' = am_room request then st' else room s r')" for r' by (simp add: request room_gput)
      moreover have "grows (room s (am_room request)) st'" using new None by (auto simp: grows_def)
      ultimately show thesis using that new(1) by blast
    next
      case (Some original)
      from AppendMention_replay [OF Some] request have "t = s" by simp
      then show thesis using that [of "am_room request" "room s (am_room request)"] ok self by simp
    qed
  next
    case False
    then obtain request where request: "t = snd (PublishReply request s)" using assms(2) by (auto simp: room_step_def)
    from PublishReply_room [OF ok] obtain st' where "snd (PublishReply request s) = gput (rp_room request) st' s" "room_ok st'" "grows (room s (rp_room request)) st'" .
    then show thesis using that [of "rp_room request" st'] by (simp add: request room_gput)
  qed
  then show "grows (room s rid) (room t rid)" "rooms_ok t" using ok self by (auto simp: rooms_ok_def)
qed

text \<open>A mention stays on record, with its deliveries, as long as ids do not repeat.\<close>

definition kept :: "string \<Rightarrow> string \<Rightarrow> Message \<Rightarrow> RoomDelivery list \<Rightarrow> rooms \<Rightarrow> bool" where
  "kept rid key message ds s =
     (issued (room s rid) < 2 ^ 63 \<longrightarrow>
        map_of (st_mention_keys (room s rid)) key = Some message \<and> deliveriesFor (room s rid) (rm_id message) = ds)"

lemma kept_grows:
  assumes "room_ok st" "grows st st'" "map_of (st_mention_keys st) key = Some message" "issued st' < 2 ^ 63"
  shows "map_of (st_mention_keys st') key = Some message" "deliveriesFor st' (rm_id message) = deliveriesFor st (rm_id message)"
proof -
  have "message \<in> set (st_messages st)" using assms(1,3) by (simp add: room_ok_def known_keys_def)
  then have old: "rm_id message \<in> rm_id ` set (st_messages st)" by simp
  consider "st' = st" | m new where "st_messages st' = st_messages st @ [m]" "rm_id m = message_id (word_of_nat (Suc (issued st)))"
      "st_deliveries st' = st_deliveries st @ new" "\<forall>d \<in> set new. rd_message d = rm_id m"
      "\<forall>k m. map_of (st_mention_keys st) k = Some m \<longrightarrow> map_of (st_mention_keys st') k = Some m"
    using assms(2) unfolding grows_def by blast
  then show "map_of (st_mention_keys st') key = Some message" "deliveriesFor st' (rm_id message) = deliveriesFor st (rm_id message)"
  proof (atomize (full), cases)
    case (2 m new)
    have "Suc (issued st) \<le> issued st'" using 2(1,3) by (simp add: issued_def)
    then have "rm_id m \<noteq> rm_id message"
      using fresh_message_id [of st] assms(1,4) old 2(2) by (auto simp: room_ok_def)
    then have "filter (\<lambda>d. rd_message d = rm_id message) new = []" using 2(4) by (auto simp: filter_empty_conv)
    then show "map_of (st_mention_keys st') key = Some message \<and> deliveriesFor st' (rm_id message) = deliveriesFor st (rm_id message)"
      using 2(3,5) assms(3) by (simp add: deliveriesFor_def)
  qed (use assms(3) in simp)
qed

lemma grows_issued: "grows st st' \<Longrightarrow> issued st \<le> issued st'"
  by (auto simp: grows_def issued_def)

interpretation rooms: stable "\<lambda>s. s = NewRoomService" room_step rooms_ok "kept rid key message ds" for rid key message ds
proof
  show "s = NewRoomService \<Longrightarrow> rooms_ok s" for s by (simp add: rooms_ok_def NewRoomService_def room_def room_ok_empty)
  show "rooms_ok s \<Longrightarrow> room_step s t \<Longrightarrow> rooms_ok t" for s t by (rule step_room(2))
  show "kept rid key message ds t" if "rooms_ok s" "kept rid key message ds s" "room_step s t" for s t
  proof (unfold kept_def, intro impI)
    assume lt: "issued (room t rid) < 2 ^ 63"
    have g: "grows (room s rid) (room t rid)" using step_room(1) that by blast
    have "issued (room s rid) < 2 ^ 63" using grows_issued [OF g] lt by linarith
    then show "map_of (st_mention_keys (room t rid)) key = Some message \<and> deliveriesFor (room t rid) (rm_id message) = ds"
      using that(1,2) kept_grows [OF _ g] lt by (auto simp: kept_def rooms_ok_def)
  qed
qed

interpretation rooms_issued: stable "\<lambda>s. s = NewRoomService" room_step rooms_ok "\<lambda>s. n \<le> issued (room s rid)" for n rid
proof
  show "n \<le> issued (room t rid)" if "rooms_ok s" "n \<le> issued (room s rid)" "room_step s t" for s t
    using grows_issued [OF step_room(1) [OF that(1,3)], of rid] that(2) by simp
qed

subsection \<open>Properties\<close>

text \<open>
  C29: in every reachable state of the room service and in every room, sequence numbers are 1, 2, 3, \<dots> in
  order, there is at most one delivery per agent and message, every delivery belongs to a message of the
  room, message ids are unique while fewer than 2^63 ids were issued, every idempotency key on record, of a mention or
  of a reply, points at a message of the room that carries that key, and no reply creates a delivery.
\<close>

theorem room_order:
  assumes "reaches room_step NewRoomService s"
  shows "map rm_seq (st_messages (room s rid)) = map (\<lambda>i. word_of_nat (Suc i)) [0 ..< length (st_messages (room s rid))] \<and>
    distinct (map (\<lambda>d. (rd_agent d, rd_message d)) (st_deliveries (room s rid))) \<and>
    (\<forall>d \<in> set (st_deliveries (room s rid)). rd_message d \<in> rm_id ` set (st_messages (room s rid))) \<and>
    (issued (room s rid) < 2 ^ 63 \<longrightarrow> distinct (map rm_id (st_messages (room s rid)))) \<and>
    (\<forall>keys \<in> {st_mention_keys (room s rid), st_reply_keys (room s rid)}. \<forall>k m. map_of keys k = Some m \<longrightarrow>
       m \<in> set (st_messages (room s rid)) \<and> rm_key m = k) \<and>
    st_deliveries (room (snd (PublishReply request s)) rid) = st_deliveries (room s rid)"
proof -
  have ok: "room_ok (room s r)" for r using rooms.reachable_inv [OF refl assms] by (simp add: rooms_ok_def)
  have keys: "map delivery_key ds = map (\<lambda>p. fst p @ CHR 0x00 # snd p) (map (\<lambda>d. (rd_agent d, rd_message d)) ds)" for ds
    by (simp add: delivery_key_def)
  have "distinct (map delivery_key (st_deliveries (room s rid)))" using ok [of rid] by (simp add: room_ok_def unique_deliveries_def)
  then have "distinct (map (\<lambda>d. (rd_agent d, rd_message d)) (st_deliveries (room s rid)))" unfolding keys distinct_map by blast
  moreover have "st_deliveries (room (snd (PublishReply request s)) rid) = st_deliveries (room s rid)"
  proof -
    obtain st' where "snd (PublishReply request s) = gput (rp_room request) st' s" "st_deliveries st' = st_deliveries (room s (rp_room request))"
      using PublishReply_room [OF ok] by blast
    then show ?thesis by (simp add: room_gput)
  qed
  moreover have "\<forall>keys \<in> {st_mention_keys (room s rid), st_reply_keys (room s rid)}. \<forall>k m. map_of keys k = Some m \<longrightarrow>
      m \<in> set (st_messages (room s rid)) \<and> rm_key m = k" using ok [of rid] by (auto simp: room_ok_def known_keys_def)
  ultimately show ?thesis using ok [of rid] message_ids_distinct [of "room s rid"]
    by (simp add: room_ok_def ordered_messages_def unique_deliveries_def)
qed

definition sample_mention :: AppendMentionRequest where
  "sample_mention = \<lparr>am_room = ''r'', am_author = ''u'', am_content = ''hi'', am_key = ''k'', am_agents = [''a'', ''b'', ''a'']\<rparr>"

theorem room_order_witness:
  "distinct (map (\<lambda>d. (rd_agent d, rd_message d)) (st_deliveries (room (snd (AppendMention sample_mention NewRoomService)) ''r''))) \<and>
   length (st_deliveries (room (snd (AppendMention sample_mention NewRoomService)) ''r'')) = 2"
proof -
  have "reaches room_step NewRoomService (snd (AppendMention sample_mention NewRoomService))"
    by (rule reaches_one) (auto simp: room_step_def)
  moreover have "length (st_deliveries (room (snd (AppendMention sample_mention NewRoomService)) ''r'')) = 2"
    by (simp add: sample_mention_def AppendMention_def Let_def NewRoomService_def room_def empty_room_def push_message_def)
  ultimately show ?thesis using room_order by blast
qed

lemma filter_by_id: "distinct (map f xs) \<Longrightarrow> x \<in> set xs \<Longrightarrow> filter (\<lambda>y. f y = f x) xs = [x]"
proof (induction xs)
  case (Cons y ys)
  show ?case
  proof (cases "y = x")
    case True
    have "filter (\<lambda>y. f y = f x) ys = []" unfolding filter_empty_conv
    proof (intro ballI notI)
      fix z
      assume z: "z \<in> set ys" "f z = f x"
      have "f z \<in> f ` set ys" by (rule imageI [OF z(1)])
      with z(2) True Cons.prems(1) show False by simp
    qed
    with True show ?thesis by simp
  next
    case False
    then have "f y \<noteq> f x" using Cons.prems by force
    with False Cons show ?thesis by simp
  qed
qed simp

text \<open>
  C12: a mention happens exactly once. A mention with a new key appends one message with its author, content and key to the room,
  and one pending delivery of that message for every agent it names, however often it names it. Whatever other operations follow
  (while fewer than 2^63 ids were issued in the room), the room holds that message once, with exactly those deliveries, and any mention
  with the same key in the room returns the original message and the original deliveries, is marked a duplicate, and changes nothing.
\<close>

theorem mention_exactly_once:
  assumes "reaches room_step NewRoomService s" "AppendMention request s = (result, s1)" "\<not> ar_duplicate result"
    "reaches room_step s1 s2" "issued (room s2 (am_room request)) < 2 ^ 63"
    "am_room again = am_room request" "am_key again = am_key request"
  defines "old \<equiv> room s (am_room request)" and "new \<equiv> room s1 (am_room request)" and "later \<equiv> room s2 (am_room request)"
    and "m \<equiv> ar_message result" and "ds \<equiv> ar_deliveries result"
  shows "st_messages new = st_messages old @ [m] \<and> rm_author m = am_author request \<and> rm_content m = am_content request \<and> rm_key m = am_key request \<and>
    st_deliveries new = st_deliveries old @ ds \<and> distinct (map rd_agent ds) \<and> set (map rd_agent ds) = set (am_agents request) \<and>
    (\<forall>d \<in> set ds. rd_message d = rm_id m \<and> rd_state d = ''pending'') \<and>
    filter (\<lambda>x. rm_id x = rm_id m) (st_messages later) = [m] \<and> deliveriesFor later (rm_id m) = ds \<and>
    AppendMention again s2 =
      (\<lparr>ar_message = m, ar_deliveries = ds, ar_duplicate = True, ar_message_count = length (st_messages later),
         ar_delivery_count = length (st_deliveries later)\<rparr>, s2)"
proof -
  let ?r = "am_room request"
  have ok: "rooms_ok s" by (rule rooms.reachable_inv [OF refl assms(1)])
  then have okr: "room_ok (room s ?r)" by (simp add: rooms_ok_def)
  have step: "room_step s s1" using assms(2) by (auto simp: room_step_def) (metis snd_conv)
  have none: "map_of (st_mention_keys (room s ?r)) (am_key request) = None"
    using assms(2,3) AppendMention_replay [of s request] by (cases "map_of (st_mention_keys (room s ?r)) (am_key request)") auto
  obtain message new' st' where res: "AppendMention request s = (\<lparr>ar_message = message, ar_deliveries = new', ar_duplicate = False,
      ar_message_count = length (st_messages st'), ar_delivery_count = length (st_deliveries st')\<rparr>, gput ?r st' s)"
    and appended: "st_messages st' = st_messages (room s ?r) @ [message]" "rm_id message = message_id (word_of_nat (Suc (issued (room s ?r))))"
      "st_deliveries st' = st_deliveries (room s ?r) @ new'" "\<forall>d \<in> set new'. rd_message d = rm_id message"
      "map_of (st_mention_keys st') = (map_of (st_mention_keys (room s ?r)))(am_key request \<mapsto> message)"
    using AppendMention_new [OF okr none] .
  have s1: "new = st'" "m = message" "ds = new'" using res assms(2) by (auto simp: room_gput new_def m_def ds_def)
  have small: "Suc (issued old) < 2 ^ 63"
  proof -
    have "Suc (issued old) \<le> issued (room s1 ?r)" using appended(1,3) s1(1) by (simp add: issued_def old_def new_def)
    from rooms_issued.reaches_stable [OF assms(4) rooms.step_inv [OF ok step] this] show ?thesis using assms(5) by simp
  qed
  then have "rm_id message \<notin> rm_id ` set (st_messages old)" using fresh_message_id okr appended(2) by (simp add: room_ok_def old_def)
  then have "filter (\<lambda>d. rd_message d = rm_id message) (st_deliveries old) = []"
    using okr by (auto simp: filter_empty_conv room_ok_def unique_deliveries_def old_def) (metis imageI)
  then have "deliveriesFor st' (rm_id message) = new'" using appended(3,4) by (simp add: deliveriesFor_def old_def)
  then have "kept ?r (am_key request) m ds s1" by (simp add: kept_def s1 [unfolded new_def] appended(5))
  from rooms.reaches_stable [OF assms(4) rooms.step_inv [OF ok step] this]
  have later: "map_of (st_mention_keys later) (am_key request) = Some m" "deliveriesFor later (rm_id m) = ds"
    using assms(5) by (simp_all add: kept_def later_def)
  have okl: "room_ok later" using rooms.reaches_inv [OF assms(4) rooms.step_inv [OF ok step]] by (simp add: rooms_ok_def later_def)
  then have "m \<in> set (st_messages later)" "distinct (map rm_id (st_messages later))"
    using later(1) message_ids_distinct assms(5) by (auto simp: room_ok_def known_keys_def later_def)
  note once = filter_by_id [OF this(2,1)]
  have again: "AppendMention again s2 = (\<lparr>ar_message = m, ar_deliveries = ds, ar_duplicate = True, ar_message_count = length (st_messages later),
      ar_delivery_count = length (st_deliveries later)\<rparr>, s2)"
    using AppendMention_replay [of s2 again m] later assms(6,7) by (simp add: later_def)
  from AppendMention_delivers [OF okr none small [unfolded old_def] assms(2)] appended(1,3,4) once later(2) again show ?thesis
    by (simp add: s1 old_def flip: m_def ds_def)
qed

theorem mention_exactly_once_witness:
  "let (result, s1) = AppendMention sample_mention NewRoomService;
       s2 = snd (PublishReply \<lparr>rp_room = ''r'', rp_agent = ''a'', rp_operation = ''o'', rp_reply_to = [], rp_content = []\<rparr> s1) in
   set (map rd_agent (ar_deliveries result)) = {''a'', ''b''} \<and> distinct (map rd_agent (ar_deliveries result)) \<and>
   ar_deliveries (fst (AppendMention sample_mention s2)) = ar_deliveries result \<and> snd (AppendMention sample_mention s2) = s2"
proof -
  obtain result s1 where first: "AppendMention sample_mention NewRoomService = (result, s1)" by fastforce
  let ?s2 = "snd (PublishReply \<lparr>rp_room = ''r'', rp_agent = ''a'', rp_operation = ''o'', rp_reply_to = [], rp_content = []\<rparr> s1)"
  have new: "\<not> ar_duplicate result" and small: "issued (room ?s2 (am_room sample_mention)) < 2 ^ 63"
    using first by (auto simp: sample_mention_def AppendMention_def PublishReply_def Let_def NewRoomService_def room_def empty_room_def
        push_message_def issued_def)
  have "reaches room_step s1 ?s2" by (rule reaches_one) (auto simp: room_step_def)
  from mention_exactly_once [OF reaches.start first new this small refl refl] show ?thesis
    by (simp add: first Let_def) (simp add: sample_mention_def insert_commute)
qed

end
