(* ===== verification/Room_Lifecycle.thy ===== *)
theory Room_Lifecycle
  imports Host_Prelude
begin

text \<open>
  The benchmark room lifecycle coordinator (\<^verbatim>\<open>internal/room/lifecycle.go\<close>): epoch compare-and-set for
  active, closing, closed, the closing guards and the write fences. The mutex makes every operation one
  atomic step. The results: what a successful transition did and that a failed one did nothing; that the
  fence of a closing room is permanent; and that entering closing does not look at the tenant.
\<close>

subsection \<open>State and requests\<close>

abbreviation BenchmarkRoom :: string where "BenchmarkRoom \<equiv> ''benchmark''"
abbreviation ProductionRoom :: string where "ProductionRoom \<equiv> ''production''"
abbreviation LifecycleActive :: string where "LifecycleActive \<equiv> ''active''"
abbreviation LifecycleClosing :: string where "LifecycleClosing \<equiv> ''closing''"
abbreviation LifecycleClosed :: string where "LifecycleClosed \<equiv> ''closed''"
abbreviation ReasonBarrierReached :: string where "ReasonBarrierReached \<equiv> ''BARRIER_REACHED''"

datatype lifecycle_error =
    ErrRoomEpochConflict
  | ErrRegisteredRunsNotTerminal
  | ErrInvalidLifecycleReason
  | ErrLifecycleStateConflict
  | ErrCloseGuardNotSatisfied

definition validLifecycleReason :: "string \<Rightarrow> bool" where
  "validLifecycleReason reason = (reason = ReasonBarrierReached)"

record RegisteredAgentRun =
  ra_id :: string
  ra_terminal :: bool

record EnterClosingRequest =
  ec_tenant :: string
  ec_room :: string
  ec_kind :: string
  ec_epoch :: int64
  ec_runs :: "RegisteredAgentRun list"
  ec_reason :: string

record CloseRoomRequest =
  cr_tenant :: string
  cr_room :: string
  cr_epoch :: int64
  cr_runs :: "RegisteredAgentRun list"
  cr_receipts :: bool
  cr_open_deliveries :: int64
  cr_open_segments :: int64
  cr_reason :: string

record LifecycleEvent =
  le_tenant :: string
  le_room :: string
  le_epoch :: int64
  le_state :: string
  le_reason :: string
  le_runs :: "RegisteredAgentRun list"
  le_receipts :: bool
  le_open_deliveries :: int64
  le_open_segments :: int64

record lifecycleRoom =
  lr_tenant :: string
  lr_state :: string
  lr_epoch :: int64
  lr_registered :: "RegisteredAgentRun gmap"
  lr_receipts :: bool
  lr_open_deliveries :: int64
  lr_open_segments :: int64

type_synonym lifecycle = "lifecycleRoom gmap"

definition NewLifecycle :: lifecycle where
  "NewLifecycle = []"

subsection \<open>Operations\<close>

definition adoptLocked :: "string \<Rightarrow> string \<Rightarrow> int64 \<Rightarrow> lifecycle \<Rightarrow> lifecycleRoom \<times> lifecycle" where
  "adoptLocked roomID tenantID expectedEpoch l =
     (case map_of l roomID of
        Some r \<Rightarrow> (r, l)
      | None \<Rightarrow>
          let r = \<lparr>lr_tenant = tenantID, lr_state = LifecycleActive, lr_epoch = expectedEpoch, lr_registered = [],
                lr_receipts = False, lr_open_deliveries = 0, lr_open_segments = 0\<rparr>
          in (r, gput roomID r l))"

definition eventLocked :: "string \<Rightarrow> string \<Rightarrow> lifecycleRoom \<Rightarrow> string \<Rightarrow> LifecycleEvent" where
  "eventLocked tenantID roomID r reason =
     \<lparr>le_tenant = tenantID, le_room = roomID, le_epoch = lr_epoch r, le_state = lr_state r, le_reason = reason,
      le_runs = map snd (lr_registered r), le_receipts = lr_receipts r, le_open_deliveries = lr_open_deliveries r,
      le_open_segments = lr_open_segments r\<rparr>"

definition EnterClosing :: "EnterClosingRequest \<Rightarrow> lifecycle \<Rightarrow> (lifecycle_error + LifecycleEvent) \<times> lifecycle" where
  "EnterClosing req l =
     (if \<not> validLifecycleReason (ec_reason req) then (Inl ErrInvalidLifecycleReason, l)
      else if ec_kind req = ProductionRoom then (Inl ErrLifecycleStateConflict, l)
      else if list_ex (\<lambda>run. \<not> ra_terminal run) (ec_runs req) then (Inl ErrRegisteredRunsNotTerminal, l)
      else
        let (r, l1) = adoptLocked (ec_room req) (ec_tenant req) (ec_epoch req) l in
        if lr_epoch r \<noteq> ec_epoch req then (Inl ErrRoomEpochConflict, l1)
        else if lr_state r \<noteq> LifecycleActive then (Inl ErrLifecycleStateConflict, l1)
        else
          let r' = r\<lparr>lr_epoch := ec_epoch req + 1, lr_state := LifecycleClosing,
                lr_registered := fold (\<lambda>run. gput (ra_id run) run) (ec_runs req) []\<rparr>
          in (Inr (eventLocked (ec_tenant req) (ec_room req) r' (ec_reason req)), gput (ec_room req) r' l1))"

definition CloseRoom :: "CloseRoomRequest \<Rightarrow> lifecycle \<Rightarrow> (lifecycle_error + LifecycleEvent) \<times> lifecycle" where
  "CloseRoom req l =
     (if \<not> validLifecycleReason (cr_reason req) then (Inl ErrInvalidLifecycleReason, l)
      else
        (case map_of l (cr_room req) of
           None \<Rightarrow> (Inl ErrLifecycleStateConflict, l)
         | Some r \<Rightarrow>
             if lr_tenant r \<noteq> cr_tenant req then (Inl ErrLifecycleStateConflict, l)
             else if lr_epoch r \<noteq> cr_epoch req then (Inl ErrRoomEpochConflict, l)
             else if lr_state r \<noteq> LifecycleClosing then (Inl ErrLifecycleStateConflict, l)
             else if \<not> cr_receipts req \<or> sint (cr_open_deliveries req) > 0 \<or> sint (cr_open_segments req) > 0
             then (Inl ErrCloseGuardNotSatisfied, l)
             else
               let r' = r\<lparr>lr_epoch := cr_epoch req + 1, lr_state := LifecycleClosed, lr_receipts := True,
                     lr_open_deliveries := 0, lr_open_segments := 0\<rparr>
               in (Inr (eventLocked (cr_tenant req) (cr_room req) r' (cr_reason req)), gput (cr_room req) r' l)))"

definition acceptsNewWrites :: "lifecycle \<Rightarrow> string \<Rightarrow> int64 \<Rightarrow> lifecycle_error + bool" where
  "acceptsNewWrites l roomID epoch =
     (case map_of l roomID of
        None \<Rightarrow> Inr True
      | Some r \<Rightarrow> if lr_epoch r \<noteq> epoch then Inl ErrRoomEpochConflict else Inr (lr_state r = LifecycleActive))"

definition CanAcceptNewRootTurn :: "lifecycle \<Rightarrow> string \<Rightarrow> int64 \<Rightarrow> lifecycle_error + bool" where
  "CanAcceptNewRootTurn l roomID epoch = acceptsNewWrites l roomID epoch"

definition CanAcceptNewDelegate :: "lifecycle \<Rightarrow> string \<Rightarrow> int64 \<Rightarrow> lifecycle_error + bool" where
  "CanAcceptNewDelegate l roomID epoch = acceptsNewWrites l roomID epoch"

definition CanAcceptNewDelivery :: "lifecycle \<Rightarrow> string \<Rightarrow> int64 \<Rightarrow> lifecycle_error + bool" where
  "CanAcceptNewDelivery l roomID epoch = acceptsNewWrites l roomID epoch"

definition CanAcceptNewSegment :: "lifecycle \<Rightarrow> string \<Rightarrow> int64 \<Rightarrow> lifecycle_error + bool" where
  "CanAcceptNewSegment l roomID epoch = acceptsNewWrites l roomID epoch"

definition CanRegisteredWorkFinish :: "lifecycle \<Rightarrow> string \<Rightarrow> string \<Rightarrow> int64 \<Rightarrow> lifecycle_error + bool" where
  "CanRegisteredWorkFinish l roomID agentRunID epoch =
     (case map_of l roomID of
        None \<Rightarrow> Inr False
      | Some r \<Rightarrow>
          if lr_epoch r \<noteq> epoch then Inl ErrRoomEpochConflict
          else if lr_state r = LifecycleClosed then Inr False
          else Inr (has_key (lr_registered r) agentRunID))"

definition CanProductionCutCloseRoom :: "lifecycle \<Rightarrow> string \<Rightarrow> lifecycle_error + bool" where
  "CanProductionCutCloseRoom l roomID = Inr False"

subsection \<open>The specification\<close>

text \<open>One room: unknown, or in a state at an epoch; each transition is a compare-and-set on the epoch.\<close>

inductive cas :: "int64 \<Rightarrow> (string \<times> int64) option \<Rightarrow> (string \<times> int64) option \<Rightarrow> bool" where
  adopt: "cas e None (Some (LifecycleClosing, e + 1))"
| closing: "cas e (Some (LifecycleActive, e)) (Some (LifecycleClosing, e + 1))"
| closed: "cas e (Some (LifecycleClosing, e)) (Some (LifecycleClosed, e + 1))"

definition view :: "lifecycle \<Rightarrow> string \<Rightarrow> (string \<times> int64) option" where
  "view l roomID = map_option (\<lambda>r. (lr_state r, lr_epoch r)) (map_of l roomID)"

definition lifecycle_step :: "lifecycle \<Rightarrow> lifecycle \<Rightarrow> bool" where
  "lifecycle_step l l' = ((\<exists>req. l' = snd (EnterClosing req l)) \<or> (\<exists>req. l' = snd (CloseRoom req l)))"

text \<open>
  What a room's state says: only the three states; all runs registered at closing are terminal; a closed
  room has complete receipts and nothing open.
\<close>

definition room_sound :: "lifecycleRoom \<Rightarrow> bool" where
  "room_sound r =
     (lr_state r \<in> {LifecycleActive, LifecycleClosing, LifecycleClosed} \<and>
      (\<forall>run \<in> set (lr_registered r). ra_terminal (snd run)) \<and>
      (lr_state r = LifecycleClosed \<longrightarrow> lr_receipts r \<and> lr_open_deliveries r = 0 \<and> lr_open_segments r = 0))"

definition lifecycle_ok :: "lifecycle \<Rightarrow> bool" where
  "lifecycle_ok l = (\<forall>roomID r. map_of l roomID = Some r \<longrightarrow> room_sound r)"

definition fenced :: "string \<Rightarrow> lifecycle \<Rightarrow> bool" where
  "fenced roomID l = (\<exists>r. map_of l roomID = Some r \<and> lr_state r \<noteq> LifecycleActive)"

subsection \<open>What the operations do\<close>

lemma registered_terminal:
  fixes runs :: "RegisteredAgentRun list"
  assumes "\<And>run. run \<in> set runs \<Longrightarrow> ra_terminal run" "\<And>x. x \<in> set acc \<Longrightarrow> ra_terminal (snd x)"
  shows "x \<in> set (fold (\<lambda>run. gput (ra_id run) run) runs acc) \<Longrightarrow> ra_terminal (snd x)"
  using assms
proof (induction runs arbitrary: acc)
  case (Cons run runs)
  have "ra_terminal (snd y)" if "y \<in> set (gput (ra_id run) run acc)" for y
  proof -
    have "y = (ra_id run, run) \<or> y \<in> set acc" using subsetD [OF set_gput that] by simp
    then show ?thesis using Cons.prems(2) [of run] Cons.prems(3) [of y] by auto
  qed
  with Cons show ?case by simp
qed simp

text \<open>Entering closing: refused with nothing changed, or one compare-and-set on the named room.\<close>

lemma EnterClosing_cases:
  obtains (failed) e where "EnterClosing req l = (Inl e, l)"
  | (entered) r' where "EnterClosing req l = (Inr (eventLocked (ec_tenant req) (ec_room req) r' (ec_reason req)), snd (EnterClosing req l))"
      "map_of (snd (EnterClosing req l)) = (map_of l)(ec_room req \<mapsto> r')" "lr_state r' = LifecycleClosing" "lr_epoch r' = ec_epoch req + 1"
      "cas (ec_epoch req) (view l (ec_room req)) (Some (lr_state r', lr_epoch r'))" "\<forall>run \<in> set (lr_registered r'). ra_terminal (snd run)"
      "\<not> fenced (ec_room req) l"
proof (cases "validLifecycleReason (ec_reason req) \<and> ec_kind req \<noteq> ProductionRoom \<and> (\<forall>run \<in> set (ec_runs req). ra_terminal run)")
  case False
  then have "\<exists>e. EnterClosing req l = (Inl e, l)" by (auto simp: EnterClosing_def list_ex_iff)
  then show thesis using failed by blast
next
  case True
  let ?runs = "fold (\<lambda>run. gput (ra_id run) run) (ec_runs req) []"
  have terminal: "\<forall>run \<in> set ?runs. ra_terminal (snd run)" using True registered_terminal [of "ec_runs req" "[]"] by auto
  have go: "EnterClosing req l =
      (let (r, l1) = adoptLocked (ec_room req) (ec_tenant req) (ec_epoch req) l in
        if lr_epoch r \<noteq> ec_epoch req then (Inl ErrRoomEpochConflict, l1)
        else if lr_state r \<noteq> LifecycleActive then (Inl ErrLifecycleStateConflict, l1)
        else
          let r' = r\<lparr>lr_epoch := ec_epoch req + 1, lr_state := LifecycleClosing, lr_registered := ?runs\<rparr>
          in (Inr (eventLocked (ec_tenant req) (ec_room req) r' (ec_reason req)), gput (ec_room req) r' l1))"
    using True by (auto simp: EnterClosing_def list_ex_iff)
  show thesis
  proof (cases "map_of l (ec_room req)")
    case None
    let ?r = "\<lparr>lr_tenant = ec_tenant req, lr_state = LifecycleClosing, lr_epoch = ec_epoch req + 1, lr_registered = ?runs,
                lr_receipts = False, lr_open_deliveries = 0, lr_open_segments = 0\<rparr>"
    show thesis by (rule entered [of ?r]) (use None terminal in \<open>simp_all add: go adoptLocked_def Let_def view_def fenced_def cas.adopt\<close>)
  next
    case (Some r)
    show thesis
    proof (cases "lr_epoch r = ec_epoch req \<and> lr_state r = LifecycleActive")
      case False
      then have "\<exists>e. EnterClosing req l = (Inl e, l)" using Some by (auto simp: go adoptLocked_def)
      then show thesis using failed by blast
    next
      case True
      let ?r = "r\<lparr>lr_epoch := ec_epoch req + 1, lr_state := LifecycleClosing, lr_registered := ?runs\<rparr>"
      show thesis
      proof (rule entered [of ?r])
        show "cas (ec_epoch req) (view l (ec_room req)) (Some (lr_state ?r, lr_epoch ?r))"
          using Some True cas.closing [of "ec_epoch req"] by (simp add: view_def)
      qed (use Some True terminal in \<open>simp_all add: go adoptLocked_def Let_def fenced_def\<close>)
    qed
  qed
qed

lemma CloseRoom_cases:
  obtains (failed) e where "CloseRoom req l = (Inl e, l)"
  | (closed) r r' where "CloseRoom req l = (Inr (eventLocked (cr_tenant req) (cr_room req) r' (cr_reason req)), snd (CloseRoom req l))"
      "map_of l (cr_room req) = Some r" "lr_tenant r = cr_tenant req" "map_of (snd (CloseRoom req l)) = (map_of l)(cr_room req \<mapsto> r')"
      "r' = r\<lparr>lr_epoch := cr_epoch req + 1, lr_state := LifecycleClosed, lr_receipts := True, lr_open_deliveries := 0, lr_open_segments := 0\<rparr>"
      "cas (cr_epoch req) (view l (cr_room req)) (Some (LifecycleClosed, cr_epoch req + 1))"
      "cr_receipts req" "\<not> sint (cr_open_deliveries req) > 0" "\<not> sint (cr_open_segments req) > 0"
proof (cases "map_of l (cr_room req)")
  case None
  then have "\<exists>e. CloseRoom req l = (Inl e, l)" by (simp add: CloseRoom_def)
  then show thesis using failed by blast
next
  case (Some r)
  show thesis
  proof (cases "validLifecycleReason (cr_reason req) \<and> lr_tenant r = cr_tenant req \<and> lr_epoch r = cr_epoch req \<and> lr_state r = LifecycleClosing \<and>
      cr_receipts req \<and> \<not> sint (cr_open_deliveries req) > 0 \<and> \<not> sint (cr_open_segments req) > 0")
    case False
    then have "\<exists>e. CloseRoom req l = (Inl e, l)" using Some by (auto simp: CloseRoom_def)
    then show thesis using failed by blast
  next
    case True
    have "cas (cr_epoch req) (view l (cr_room req)) (Some (LifecycleClosed, cr_epoch req + 1))"
      using Some True cas.closed [of "cr_epoch req"] by (simp add: view_def)
    then show thesis using Some True by (intro closed [of _ r]) (simp_all add: CloseRoom_def Let_def)
  qed
qed

interpretation lifecycle: stable "\<lambda>l. l = NewLifecycle" lifecycle_step lifecycle_ok "fenced roomID" for roomID
proof
  show "l = NewLifecycle \<Longrightarrow> lifecycle_ok l" for l by (simp add: lifecycle_ok_def NewLifecycle_def)
  fix l l'
  assume step: "lifecycle_step l l'"
  consider (same) "l' = l"
    | (enter) rid r' where "map_of l' = (map_of l)(rid \<mapsto> r')" "lr_state r' = LifecycleClosing" "\<forall>run \<in> set (lr_registered r'). ra_terminal (snd run)"
    | (close) rid r r' epoch where "map_of l rid = Some r" "map_of l' = (map_of l)(rid \<mapsto> r')"
      "r' = r\<lparr>lr_epoch := epoch, lr_state := LifecycleClosed, lr_receipts := True, lr_open_deliveries := 0, lr_open_segments := 0\<rparr>"
  proof (cases "\<exists>req. l' = snd (EnterClosing req l)")
    case True
    then obtain req where req: "l' = snd (EnterClosing req l)" ..
    show thesis
    proof (cases rule: EnterClosing_cases [of req l])
      case (entered r')
      then show thesis using enter [of "ec_room req" r'] req by simp
    qed (use req same in simp)
  next
    case False
    then obtain req where req: "l' = snd (CloseRoom req l)" using step by (auto simp: lifecycle_step_def)
    show thesis
    proof (cases rule: CloseRoom_cases [of req l])
      case (closed r r')
      then show thesis using close [of "cr_room req" r r'] req by simp
    qed (use req same in simp)
  qed
  note cases = this
  show "lifecycle_ok l'" if ok: "lifecycle_ok l"
  proof (cases rule: cases)
    case enter
    then show ?thesis using ok by (auto simp: lifecycle_ok_def room_sound_def)
  next
    case close
    then have "room_sound r'" using ok by (auto simp: lifecycle_ok_def room_sound_def)
    then show ?thesis using ok close by (simp add: lifecycle_ok_def)
  qed (use ok in simp)
  show "fenced roomID l'" if "fenced roomID l"
    by (cases rule: cases) (use that in \<open>auto simp: fenced_def\<close>)
qed

subsection \<open>Properties\<close>

text \<open>
  C25: both transitions are compare-and-set on the epoch: one that reports an error has changed nothing, and
  one that succeeds took exactly the named room from its expected epoch one step along active, closing,
  closed, to the next epoch, and reported that state and epoch; no other room changed. Reachable closed
  rooms have complete receipts and no open work.
\<close>

theorem lifecycle_cas:
  assumes "reaches lifecycle_step NewLifecycle l"
  shows "(case EnterClosing enter l of
       (Inl e, l') \<Rightarrow> l' = l
     | (Inr event, l') \<Rightarrow> cas (ec_epoch enter) (view l (ec_room enter)) (view l' (ec_room enter)) \<and>
         view l' (ec_room enter) = Some (le_state event, le_epoch event) \<and> (\<forall>other. other \<noteq> ec_room enter \<longrightarrow> view l' other = view l other)) \<and>
    (case CloseRoom close l of
       (Inl e, l') \<Rightarrow> l' = l
     | (Inr event, l') \<Rightarrow> cas (cr_epoch close) (view l (cr_room close)) (view l' (cr_room close)) \<and>
         view l' (cr_room close) = Some (le_state event, le_epoch event) \<and> (\<forall>other. other \<noteq> cr_room close \<longrightarrow> view l' other = view l other)) \<and>
    (\<forall>roomID r. map_of l roomID = Some r \<and> lr_state r = LifecycleClosed \<longrightarrow>
       lr_receipts r \<and> lr_open_deliveries r = 0 \<and> lr_open_segments r = 0)"
proof (intro conjI)
  show "case EnterClosing enter l of
       (Inl e, l') \<Rightarrow> l' = l
     | (Inr event, l') \<Rightarrow> cas (ec_epoch enter) (view l (ec_room enter)) (view l' (ec_room enter)) \<and>
         view l' (ec_room enter) = Some (le_state event, le_epoch event) \<and> (\<forall>other. other \<noteq> ec_room enter \<longrightarrow> view l' other = view l other)"
  proof (cases rule: EnterClosing_cases [of enter l])
    case (entered r')
    show ?thesis by (subst entered(1)) (use entered(2-5) in \<open>simp add: view_def eventLocked_def\<close>)
  qed simp
  show "case CloseRoom close l of
       (Inl e, l') \<Rightarrow> l' = l
     | (Inr event, l') \<Rightarrow> cas (cr_epoch close) (view l (cr_room close)) (view l' (cr_room close)) \<and>
         view l' (cr_room close) = Some (le_state event, le_epoch event) \<and> (\<forall>other. other \<noteq> cr_room close \<longrightarrow> view l' other = view l other)"
  proof (cases rule: CloseRoom_cases [of close l])
    case (closed r r')
    show ?thesis by (subst closed(1)) (use closed(2-6) in \<open>simp add: view_def eventLocked_def\<close>)
  qed simp
  show "\<forall>roomID r. map_of l roomID = Some r \<and> lr_state r = LifecycleClosed \<longrightarrow>
       lr_receipts r \<and> lr_open_deliveries r = 0 \<and> lr_open_segments r = 0"
    using lifecycle.reachable_inv [OF refl assms] by (auto simp: lifecycle_ok_def room_sound_def)
qed

definition sample_enter :: EnterClosingRequest where
  "sample_enter = \<lparr>ec_tenant = ''t'', ec_room = ''r'', ec_kind = BenchmarkRoom, ec_epoch = 7, ec_runs = [\<lparr>ra_id = ''a'', ra_terminal = True\<rparr>],
     ec_reason = ReasonBarrierReached\<rparr>"

lemma sample_entered: "\<exists>event l. EnterClosing sample_enter NewLifecycle = (Inr event, l)"
  by (simp add: NewLifecycle_def sample_enter_def EnterClosing_def validLifecycleReason_def adoptLocked_def Let_def)

theorem lifecycle_cas_witness: "cas 7 None (view (snd (EnterClosing sample_enter NewLifecycle)) ''r'')"
proof -
  obtain event l where l: "EnterClosing sample_enter NewLifecycle = (Inr event, l)" using sample_entered by blast
  have "view NewLifecycle ''r'' = None" "ec_room sample_enter = ''r''" "ec_epoch sample_enter = 7"
    by (simp_all add: view_def NewLifecycle_def sample_enter_def)
  moreover have "cas (ec_epoch sample_enter) (view NewLifecycle (ec_room sample_enter)) (view l (ec_room sample_enter))"
    using conjunct1 [OF lifecycle_cas [OF reaches.start, of sample_enter]] unfolding l prod.case sum.case by (rule conjunct1)
  ultimately show ?thesis by (simp only: l snd_conv)
qed

text \<open>
  C13: the fence is permanent: once a room has entered closing, then whatever requests follow, no epoch ever
  makes any of the four fences accept a new write there, and entering closing never succeeds again.
\<close>

theorem closing_fence_permanent:
  assumes "reaches lifecycle_step NewLifecycle l" "EnterClosing req l = (Inr event, l1)" "reaches lifecycle_step l1 l2"
    "ec_room again = ec_room req"
  shows "CanAcceptNewRootTurn l2 (ec_room req) epoch \<noteq> Inr True \<and> CanAcceptNewDelegate l2 (ec_room req) epoch \<noteq> Inr True \<and>
    CanAcceptNewDelivery l2 (ec_room req) epoch \<noteq> Inr True \<and> CanAcceptNewSegment l2 (ec_room req) epoch \<noteq> Inr True \<and>
    (\<exists>e. EnterClosing again l2 = (Inl e, l2))"
proof -
  have "lifecycle_step l l1" unfolding lifecycle_step_def by (rule disjI1, rule exI [of _ req]) (simp add: assms(2))
  then have ok: "lifecycle_ok l1" using lifecycle.step_inv [OF lifecycle.reachable_inv [OF refl assms(1)]] by blast
  have "fenced (ec_room req) l1"
    by (cases rule: EnterClosing_cases [of req l]) (use assms(2) in \<open>auto simp: fenced_def\<close>)
  then have "fenced (ec_room req) l2" using lifecycle.reaches_stable [OF assms(3) ok] by blast
  then have "acceptsNewWrites l2 (ec_room req) epoch \<noteq> Inr True" and "\<exists>e. EnterClosing again l2 = (Inl e, l2)"
  proof -
    assume f: "fenced (ec_room req) l2"
    then show "acceptsNewWrites l2 (ec_room req) epoch \<noteq> Inr True" by (auto simp: fenced_def acceptsNewWrites_def split: if_splits)
    show "\<exists>e. EnterClosing again l2 = (Inl e, l2)"
      by (cases rule: EnterClosing_cases [of again l2]) (use f assms(4) in auto)
  qed
  then show ?thesis
    by (simp add: CanAcceptNewRootTurn_def CanAcceptNewDelegate_def CanAcceptNewDelivery_def CanAcceptNewSegment_def)
qed

theorem closing_fence_permanent_witness:
  "CanAcceptNewDelivery (snd (EnterClosing sample_enter NewLifecycle)) ''r'' 8 \<noteq> Inr True"
proof -
  obtain event l where l: "EnterClosing sample_enter NewLifecycle = (Inr event, l)" using sample_entered by blast
  have "ec_room sample_enter = ''r''" by (simp add: sample_enter_def)
  with closing_fence_permanent [OF reaches.start l reaches.start refl] l show ?thesis by simp
qed

text \<open>
  entering closing never looks at the tenant: whoever names an active room at its current epoch, with
  terminal runs and the barrier reason, moves it to closing, and the room's own tenant is left as it was.
\<close>

theorem EnterClosing_ignores_tenant:
  assumes "map_of l (ec_room req) = Some r" "lr_state r = LifecycleActive" "lr_epoch r = ec_epoch req"
    "ec_reason req = ReasonBarrierReached" "ec_kind req = BenchmarkRoom" "list_all ra_terminal (ec_runs req)"
  shows "\<exists>event r'. fst (EnterClosing (req\<lparr>ec_tenant := intruder\<rparr>) l) = Inr event \<and> le_tenant event = intruder \<and>
    map_of (snd (EnterClosing (req\<lparr>ec_tenant := intruder\<rparr>) l)) (ec_room req) = Some r' \<and>
    lr_state r' = LifecycleClosing \<and> lr_tenant r' = lr_tenant r"
  using assms by (auto simp: EnterClosing_def validLifecycleReason_def adoptLocked_def list_ex_iff list_all_iff Let_def eventLocked_def)

definition sample_room :: lifecycleRoom where
  "sample_room = \<lparr>lr_tenant = ''t'', lr_state = LifecycleActive, lr_epoch = 7, lr_registered = [], lr_receipts = False,
     lr_open_deliveries = 0, lr_open_segments = 0\<rparr>"

theorem EnterClosing_ignores_tenant_witness:
  "\<exists>event. fst (EnterClosing (sample_enter\<lparr>ec_tenant := ''other''\<rparr>) [(''r'', sample_room)]) = Inr event \<and> le_tenant event = ''other''"
proof -
  have "map_of [(''r'', sample_room)] (ec_room sample_enter) = Some sample_room" "lr_state sample_room = LifecycleActive"
    "lr_epoch sample_room = ec_epoch sample_enter" "ec_reason sample_enter = ReasonBarrierReached" "ec_kind sample_enter = BenchmarkRoom"
    "list_all ra_terminal (ec_runs sample_enter)"
    by (simp_all add: sample_enter_def sample_room_def)
  from EnterClosing_ignores_tenant [OF this, of "''other''"] show ?thesis by blast
qed

end
