(* ===== verification/Ledger.thy ===== *)
theory Ledger
  imports Replay_Model
begin

text \<open>
  The immutable ledger of the skill-evolution write path (\<^verbatim>\<open>internal/skillevolution/ledger\<close>: \<^verbatim>\<open>ports.go\<close> and
  \<^verbatim>\<open>memory.go\<close>): the closed enumerations, the record shapes, and the in-memory store with its five maps. Every
  port operation runs under one mutex, so each is a function from the store to a result and the new store.
\<close>

subsection \<open>Reason codes and errors\<close>

abbreviation ReasonIdempotencyConflict :: string where "ReasonIdempotencyConflict \<equiv> ''IDEMPOTENCY_CONFLICT''"
abbreviation ReasonActiveHeadConflict :: string where "ReasonActiveHeadConflict \<equiv> ''ACTIVE_HEAD_CONFLICT''"
abbreviation ReasonMergeSourceHeadStale :: string where "ReasonMergeSourceHeadStale \<equiv> ''MERGE_SOURCE_HEAD_STALE''"
abbreviation ReasonMergeGroupInFlight :: string where "ReasonMergeGroupInFlight \<equiv> ''MERGE_GROUP_IN_FLIGHT''"
abbreviation ReasonLineageVersionConflict :: string where "ReasonLineageVersionConflict \<equiv> ''LINEAGE_VERSION_CONFLICT''"
abbreviation ReasonProjectionHeadConflict :: string where "ReasonProjectionHeadConflict \<equiv> ''PROJECTION_HEAD_CONFLICT''"
abbreviation ReasonActivationSequenceConflict :: string where "ReasonActivationSequenceConflict \<equiv> ''ACTIVATION_SEQUENCE_CONFLICT''"
abbreviation ReasonProposalStateConflict :: string where "ReasonProposalStateConflict \<equiv> ''PROPOSAL_STATE_CONFLICT''"
abbreviation ReasonMergeStateConflict :: string where "ReasonMergeStateConflict \<equiv> ''MERGE_STATE_CONFLICT''"
abbreviation ReasonActivationEventInvalid :: string where "ReasonActivationEventInvalid \<equiv> ''ACTIVATION_EVENT_INVALID''"
abbreviation ReasonIllegalStateTransition :: string where "ReasonIllegalStateTransition \<equiv> ''ILLEGAL_STATE_TRANSITION''"
abbreviation ReasonInvalidJSON :: string where "ReasonInvalidJSON \<equiv> ''INVALID_JSON''"
abbreviation ReasonProjectionEventConflictCode :: string where "ReasonProjectionEventConflictCode \<equiv> ''PROJECTION_EVENT_CONFLICT''"
abbreviation ReasonRequiredFieldMissing :: string where "ReasonRequiredFieldMissing \<equiv> ''SCHEMA_REQUIRED_FIELD_MISSING''"

text \<open>The registry port: nil, or something that verifies codes.\<close>

type_synonym registry = "(string \<Rightarrow> unit res) option"

definition newError :: "registry \<Rightarrow> string \<Rightarrow> go_error" where
  "newError registry code =
     (case registry of
        None \<Rightarrow> PortError code
      | Some verify \<Rightarrow> (case verify code of Inl _ \<Rightarrow> PlainError | Inr _ \<Rightarrow> PortError code))"

definition ReasonOf :: "go_error \<Rightarrow> string" where
  "ReasonOf err = (case err of PortError code \<Rightarrow> code | _ \<Rightarrow> [])"

text \<open>\<open>ContractReasonRegistry.Verify\<close>.\<close>

definition Verify :: "ReasonPolicy option \<Rightarrow> string \<Rightarrow> unit res" where
  "Verify policy code =
     (case policy of
        None \<Rightarrow> Inl PlainError
      | Some p \<Rightarrow> (case Lookup p code of Inl _ \<Rightarrow> Inl PlainError | Inr _ \<Rightarrow> Inr ()))"

subsection \<open>Ledger and head kinds\<close>

abbreviation LedgerActivation :: string where "LedgerActivation \<equiv> ''activation''"
abbreviation LedgerProposal :: string where "LedgerProposal \<equiv> ''proposal''"
abbreviation LedgerMergeEvent :: string where "LedgerMergeEvent \<equiv> ''merge-event''"
abbreviation SchemaProposalEvent :: string where "SchemaProposalEvent \<equiv> ''gms.proposal-event.v1''"
abbreviation SchemaActivationEvent :: string where "SchemaActivationEvent \<equiv> ''gms.activation-event.v1''"
abbreviation SchemaMergeProposalEvent :: string where "SchemaMergeProposalEvent \<equiv> ''gms.merge-proposal-event.v1''"

record ledgerKindSpec =
  payloadSchemas :: "string list"
  singleStream :: bool
  sequenceConflictCode :: string

definition kind_spec :: "string list \<Rightarrow> bool \<Rightarrow> string \<Rightarrow> ledgerKindSpec" where
  "kind_spec schemas single code = \<lparr>payloadSchemas = schemas, singleStream = single, sequenceConflictCode = code\<rparr>"

definition ledgerKinds :: "ledgerKindSpec gmap" where
  "ledgerKinds =
     [(''evidence'', kind_spec [SchemaEvidenceRef] False ReasonIdempotencyConflict),
      (LedgerProposal, kind_spec [''gms.skill-proposal.v1'', SchemaProposalEvent] False ReasonProposalStateConflict),
      (''candidate'', kind_spec [SchemaCandidateArtifactRef] False ReasonIdempotencyConflict),
      (''validation'', kind_spec [] False ReasonIdempotencyConflict),
      (''replay'', kind_spec [''gms.replay-request.v1'', ''gms.replay-result.v1''] False ReasonIdempotencyConflict),
      (''evaluation'', kind_spec [''gms.release-decision.v1''] False ReasonIdempotencyConflict),
      (''release'', kind_spec [] False ReasonLineageVersionConflict),
      (LedgerActivation, kind_spec [SchemaActivationEvent] True ReasonActivationSequenceConflict),
      (''deactivation'', kind_spec [] False ReasonActivationSequenceConflict),
      (''merge-proposal'', kind_spec [''gms.merge-proposal.v1''] False ReasonMergeStateConflict),
      (LedgerMergeEvent, kind_spec [SchemaMergeProposalEvent] False ReasonMergeStateConflict),
      (''similarity'', kind_spec [''gms.similarity-assessment.v1''] False ReasonIdempotencyConflict),
      (''projection'', kind_spec [] False ReasonProjectionEventConflictCode)]"

definition AllLedgerKinds :: "string list" where
  "AllLedgerKinds =
     [''evidence'', ''proposal'', ''candidate'', ''validation'', ''replay'', ''evaluation'', ''release'', ''activation'',
      ''deactivation'', ''merge-proposal'', ''merge-event'', ''similarity'', ''projection'']"

definition LedgerSpec :: "string \<Rightarrow> ledgerKindSpec option" where
  "LedgerSpec kind = map_of ledgerKinds kind"

definition headKinds :: "string gmap" where
  "headKinds =
     [(''skill-active'', ReasonActiveHeadConflict), (''merge-source'', ReasonMergeSourceHeadStale),
      (''merge-group-winner'', ReasonMergeGroupInFlight), (''lineage-version'', ReasonLineageVersionConflict),
      (''projection'', ReasonProjectionHeadConflict), (''activation-sequence'', ReasonActivationSequenceConflict)]"

definition AllHeadKinds :: "string list" where
  "AllHeadKinds = [''skill-active'', ''merge-source'', ''merge-group-winner'', ''lineage-version'', ''projection'', ''activation-sequence'']"

definition HeadSpec :: "string \<Rightarrow> string option" where
  "HeadSpec kind = map_of headKinds kind"

definition emitted_codes :: "string list" where
  "emitted_codes =
     [ReasonIdempotencyConflict, ReasonActivationEventInvalid, ReasonDigestMismatch, ReasonRefMismatch,
      ReasonIllegalStateTransition, ReasonSchemaEnumInvalid, ReasonSchemaVersionUnsupported, ReasonSchemaFieldUnknown,
      ReasonRequiredFieldMissing, ReasonInvalidJSON, ReasonNonIntegerNumber, ReasonProjectionEventConflictCode]"

definition verifyMappedReasonCodes :: "registry \<Rightarrow> unit res" where
  "verifyMappedReasonCodes registry =
     (case registry of
        None \<Rightarrow> Inl PlainError
      | Some verify \<Rightarrow>
          and_then (for_each (\<lambda>kind. case map_of ledgerKinds kind of
              None \<Rightarrow> Inl PlainError
            | Some spec \<Rightarrow> (case verify (sequenceConflictCode spec) of Inl _ \<Rightarrow> Inl PlainError | Inr _ \<Rightarrow> Inr ())) AllLedgerKinds) (\<lambda>_.
          and_then (for_each (\<lambda>kind. case map_of headKinds kind of
              None \<Rightarrow> Inl PlainError
            | Some code \<Rightarrow> (case verify code of Inl _ \<Rightarrow> Inl PlainError | Inr _ \<Rightarrow> Inr ())) AllHeadKinds) (\<lambda>_.
          for_each verify emitted_codes)))"

subsection \<open>State tables\<close>

text \<open>\<open>buildTransitionTable\<close> and the edge test.\<close>

definition add_edge :: "string \<times> string \<Rightarrow> (bool gmap) gmap \<Rightarrow> (bool gmap) gmap" where
  "add_edge edge table =
     gput (fst edge) (gput (snd edge) True (case map_of table (fst edge) of None \<Rightarrow> [] | Some targets \<Rightarrow> targets)) table"

definition buildTransitionTable :: "(string \<times> string) list \<Rightarrow> (bool gmap) gmap" where
  "buildTransitionTable edges = fold add_edge edges []"

definition legalTransition :: "(bool gmap) gmap \<Rightarrow> string \<Rightarrow> string \<Rightarrow> bool" where
  "legalTransition table from to =
     (case map_of table from of None \<Rightarrow> False | Some targets \<Rightarrow> map_of targets to = Some True)"

definition proposal_edges :: "(string \<times> string) list" where
  "proposal_edges =
     [(''none'', ''proposed''),
      (''proposed'', ''admitted''), (''proposed'', ''rejected''), (''proposed'', ''stale''), (''proposed'', ''withdrawn''),
      (''admitted'', ''candidate_bound''), (''admitted'', ''rejected''), (''admitted'', ''stale''), (''admitted'', ''withdrawn''),
      (''candidate_bound'', ''validating''), (''candidate_bound'', ''stale''),
      (''validating'', ''replay_pending''), (''validating'', ''rejected''), (''validating'', ''stale''),
      (''replay_pending'', ''replaying''), (''replay_pending'', ''stale''),
      (''replaying'', ''decision_pending''), (''replaying'', ''rejected''), (''replaying'', ''inconclusive''), (''replaying'', ''stale''),
      (''decision_pending'', ''activation_pending''), (''decision_pending'', ''rejected''), (''decision_pending'', ''inconclusive''),
      (''activation_pending'', ''released''), (''activation_pending'', ''rejected''), (''activation_pending'', ''stale'')]"

definition merge_edges :: "(string \<times> string) list" where
  "merge_edges =
     [(''none'', ''proposed''),
      (''proposed'', ''admitted''), (''proposed'', ''duplicate''), (''proposed'', ''rejected''), (''proposed'', ''stale''), (''proposed'', ''withdrawn''),
      (''admitted'', ''synthesizing''), (''admitted'', ''rejected''), (''admitted'', ''stale''), (''admitted'', ''withdrawn''),
      (''synthesizing'', ''candidate_bound''), (''synthesizing'', ''inconclusive''), (''synthesizing'', ''rejected''), (''synthesizing'', ''stale''),
      (''candidate_bound'', ''validating''), (''candidate_bound'', ''stale''),
      (''validating'', ''replaying''), (''validating'', ''rejected''), (''validating'', ''stale''),
      (''replaying'', ''decision_pending''), (''replaying'', ''rejected''), (''replaying'', ''inconclusive''), (''replaying'', ''stale''),
      (''decision_pending'', ''activation_pending''), (''decision_pending'', ''rejected''), (''decision_pending'', ''inconclusive''),
      (''activation_pending'', ''released''), (''activation_pending'', ''stale'')]"

definition ProposalEventTransitions :: "(bool gmap) gmap" where
  "ProposalEventTransitions = buildTransitionTable proposal_edges"

definition MergeEventTransitions :: "(bool gmap) gmap" where
  "MergeEventTransitions = buildTransitionTable merge_edges"

definition payloadStateTables :: "((bool gmap) gmap) gmap" where
  "payloadStateTables = [(SchemaProposalEvent, ProposalEventTransitions), (SchemaMergeProposalEvent, MergeEventTransitions)]"

subsection \<open>Records and the store\<close>

type_synonym uint64 = "64 word"

record Entry =
  en_ledger :: string
  en_stream :: string
  en_seq :: uint64
  en_event :: string
  en_digest :: string

abbreviation OutboxPending :: string where "OutboxPending \<equiv> ''pending''"
abbreviation OutboxDelivered :: string where "OutboxDelivered \<equiv> ''delivered''"

record OutboxRecord =
  ob_key :: string
  ob_ledger :: string
  ob_seq :: uint64
  ob_digest :: string
  ob_target :: string
  ob_state :: string

record IdempotencyRecord =
  ir_key :: string
  ir_digest :: string
  ir_outcome :: string

record headState =
  hs_seq :: uint64
  hs_digest :: string

record MemoryStore =
  ms_registry :: registry
  ms_ledgers :: "(Entry list) gmap"
  ms_content :: "string gmap"
  ms_idem :: "IdempotencyRecord gmap"
  ms_heads :: "headState gmap"
  ms_outbox :: "OutboxRecord gmap"

definition NewMemoryStore :: "registry \<Rightarrow> MemoryStore res" where
  "NewMemoryStore registry =
     and_then (verifyMappedReasonCodes registry) (\<lambda>_.
     Inr \<lparr>ms_registry = registry, ms_ledgers = [], ms_content = [], ms_idem = [], ms_heads = [], ms_outbox = []\<rparr>)"

definition store_fail :: "MemoryStore \<Rightarrow> string \<Rightarrow> go_error" where
  "store_fail s code = newError (ms_registry s) code"

definition ledgerKey :: "string \<Rightarrow> string \<Rightarrow> string" where
  "ledgerKey kind stream = kind @ CHR 0x1F # stream"

definition headKey :: "string \<Rightarrow> string \<Rightarrow> string" where
  "headKey kind key = kind @ CHR 0x1F # key"

abbreviation isValidDigest :: "string \<Rightarrow> bool" where "isValidDigest \<equiv> digestPattern"

text \<open>A missing slice reads as the empty one.\<close>

definition entries_at :: "MemoryStore \<Rightarrow> string \<Rightarrow> Entry list" where
  "entries_at s key = (case map_of (ms_ledgers s) key of None \<Rightarrow> [] | Some es \<Rightarrow> es)"

subsection \<open>Ledger port\<close>

definition check_entry :: "MemoryStore \<Rightarrow> Entry \<Rightarrow> ledgerKindSpec res" where
  "check_entry s entry =
     (case map_of ledgerKinds (en_ledger entry) of
        None \<Rightarrow> Inl (store_fail s ReasonSchemaEnumInvalid)
      | Some spec \<Rightarrow>
          if singleStream spec \<and> en_stream entry \<noteq> [] then Inl (store_fail s ReasonSchemaEnumInvalid)
          else if en_event entry = [] then Inl (store_fail s ReasonRequiredFieldMissing)
          else if \<not> isValidDigest (en_digest entry) then Inl (store_fail s ReasonSchemaEnumInvalid)
          else if en_seq entry = 0 then Inl (store_fail s ReasonSchemaEnumInvalid)
          else Inr spec)"

definition Append :: "Entry \<Rightarrow> MemoryStore \<Rightarrow> unit res \<times> MemoryStore" where
  "Append entry s =
     (case check_entry s entry of
        Inl e \<Rightarrow> (Inl e, s)
      | Inr spec \<Rightarrow>
          let key = ledgerKey (en_ledger entry) (en_stream entry);
              entries = entries_at s key
          in if en_seq entry = word_of_nat (length entries) + 1
             then (Inr (), s\<lparr>ms_ledgers := gput key (entries @ [entry]) (ms_ledgers s)\<rparr>)
             else if en_seq entry \<le> word_of_nat (length entries) \<and> entries ! unat (en_seq entry - 1) = entry then (Inr (), s)
             else (Inl (store_fail s (sequenceConflictCode spec)), s))"

definition ledger_Snapshot :: "MemoryStore \<Rightarrow> string \<Rightarrow> string \<Rightarrow> (Entry list) res" where
  "ledger_Snapshot s kind stream =
     (if map_of ledgerKinds kind = None then Inl (store_fail s ReasonSchemaEnumInvalid)
      else Inr (entries_at s (ledgerKey kind stream)))"

definition Head :: "MemoryStore \<Rightarrow> string \<Rightarrow> string \<Rightarrow> (Entry option) res" where
  "Head s kind stream =
     (if map_of ledgerKinds kind = None then Inl (store_fail s ReasonSchemaEnumInvalid)
      else
        let entries = entries_at s (ledgerKey kind stream)
        in Inr (if entries = [] then None else Some (last entries)))"

definition EntryAt :: "MemoryStore \<Rightarrow> string \<Rightarrow> string \<Rightarrow> uint64 \<Rightarrow> (Entry option) res" where
  "EntryAt s kind stream sequence =
     (if map_of ledgerKinds kind = None then Inl (store_fail s ReasonSchemaEnumInvalid)
      else
        let entries = entries_at s (ledgerKey kind stream)
        in Inr (if sequence = 0 \<or> sequence > word_of_nat (length entries) then None else Some (entries ! unat (sequence - 1))))"

subsection \<open>Content port\<close>

definition Put :: "string \<Rightarrow> MemoryStore \<Rightarrow> string \<times> MemoryStore" where
  "Put canonical s =
     (let digest = DigestBytes canonical
      in (digest, if has_key (ms_content s) digest then s else s\<lparr>ms_content := gput digest canonical (ms_content s)\<rparr>))"

definition Get :: "MemoryStore \<Rightarrow> string \<Rightarrow> string option" where
  "Get s digest = map_of (ms_content s) digest"

subsection \<open>Idempotency port\<close>

definition Record :: "IdempotencyRecord \<Rightarrow> MemoryStore \<Rightarrow> unit res \<times> MemoryStore" where
  "Record rec s =
     (if ir_key rec = [] then (Inl (store_fail s ReasonRequiredFieldMissing), s)
      else if \<not> isValidDigest (ir_digest rec) then (Inl (store_fail s ReasonSchemaEnumInvalid), s)
      else
        (case map_of (ms_idem s) (ir_key rec) of
           Some prior \<Rightarrow>
             if ir_digest prior = ir_digest rec then (Inr (), s)
             else (Inl (store_fail s ReasonIdempotencyConflict), s)
         | None \<Rightarrow>
             (Inr (), s\<lparr>ms_idem := gput (ir_key rec)
                \<lparr>ir_key = ir_key rec, ir_digest = ir_digest rec, ir_outcome = ir_outcome rec\<rparr> (ms_idem s)\<rparr>)))"

definition LookupIdem :: "MemoryStore \<Rightarrow> string \<Rightarrow> IdempotencyRecord option" where
  "LookupIdem s key = map_of (ms_idem s) key"

subsection \<open>Head port\<close>

definition check_cas :: "MemoryStore \<Rightarrow> string \<Rightarrow> string \<Rightarrow> uint64 \<Rightarrow> string \<Rightarrow> uint64 \<Rightarrow> string \<Rightarrow> string res" where
  "check_cas s kind key expectedSeq expectedDigest newSeq newDigest =
     (case map_of headKinds kind of
        None \<Rightarrow> Inl (store_fail s ReasonSchemaEnumInvalid)
      | Some conflictCode \<Rightarrow>
          if key = [] then Inl (store_fail s ReasonRequiredFieldMissing)
          else if expectedDigest \<noteq> [] \<and> \<not> isValidDigest expectedDigest then Inl (store_fail s ReasonSchemaEnumInvalid)
          else if \<not> isValidDigest newDigest then Inl (store_fail s ReasonSchemaEnumInvalid)
          else if newSeq \<noteq> expectedSeq + 1 then Inl (store_fail s conflictCode)
          else Inr conflictCode)"

definition CompareAndSwap ::
    "string \<Rightarrow> string \<Rightarrow> uint64 \<Rightarrow> string \<Rightarrow> uint64 \<Rightarrow> string \<Rightarrow> MemoryStore \<Rightarrow> unit res \<times> MemoryStore" where
  "CompareAndSwap kind key expectedSeq expectedDigest newSeq newDigest s =
     (case check_cas s kind key expectedSeq expectedDigest newSeq newDigest of
        Inl e \<Rightarrow> (Inl e, s)
      | Inr conflictCode \<Rightarrow>
          let hkey = headKey kind key;
              swapped = s\<lparr>ms_heads := gput hkey \<lparr>hs_seq = newSeq, hs_digest = newDigest\<rparr> (ms_heads s)\<rparr>
          in case map_of (ms_heads s) hkey of
               None \<Rightarrow>
                 if expectedSeq = 0 \<and> expectedDigest = [] then (Inr (), swapped)
                 else (Inl (store_fail s conflictCode), s)
             | Some current \<Rightarrow>
                 if hs_seq current \<noteq> expectedSeq \<or> hs_digest current \<noteq> expectedDigest
                 then (Inl (store_fail s conflictCode), s)
                 else (Inr (), swapped))"

definition GetHead :: "MemoryStore \<Rightarrow> string \<Rightarrow> string \<Rightarrow> (headState option) res" where
  "GetHead s kind key =
     (if map_of headKinds kind = None then Inl (store_fail s ReasonSchemaEnumInvalid)
      else Inr (map_of (ms_heads s) (headKey kind key)))"

subsection \<open>Outbox port\<close>

definition same_binding :: "OutboxRecord \<Rightarrow> OutboxRecord \<Rightarrow> bool" where
  "same_binding prior rec = (ob_ledger prior = ob_ledger rec \<and> ob_seq prior = ob_seq rec \<and> ob_digest prior = ob_digest rec)"

definition Enqueue :: "OutboxRecord \<Rightarrow> MemoryStore \<Rightarrow> unit res \<times> MemoryStore" where
  "Enqueue rec s =
     (if \<not> isValidDigest (ob_key rec) then (Inl (store_fail s ReasonSchemaEnumInvalid), s)
      else if \<not> isValidDigest (ob_digest rec) then (Inl (store_fail s ReasonSchemaEnumInvalid), s)
      else if ob_target rec = [] then (Inl (store_fail s ReasonRequiredFieldMissing), s)
      else if ob_state rec \<noteq> OutboxPending then (Inl (store_fail s ReasonSchemaEnumInvalid), s)
      else if map_of ledgerKinds (ob_ledger rec) = None then (Inl (store_fail s ReasonSchemaEnumInvalid), s)
      else if ob_seq rec = 0 then (Inl (store_fail s ReasonSchemaEnumInvalid), s)
      else
        (case map_of (ms_outbox s) (ob_key rec) of
           Some prior \<Rightarrow>
             if same_binding prior rec then (Inr (), s)
             else (Inl (store_fail s ReasonIdempotencyConflict), s)
         | None \<Rightarrow> (Inr (), s\<lparr>ms_outbox := gput (ob_key rec) rec (ms_outbox s)\<rparr>)))"

definition GetOutbox :: "MemoryStore \<Rightarrow> string \<Rightarrow> OutboxRecord option" where
  "GetOutbox s outboxKey = map_of (ms_outbox s) outboxKey"

definition pending_less :: "OutboxRecord \<Rightarrow> OutboxRecord \<Rightarrow> bool" where
  "pending_less a b = (if ob_seq a \<noteq> ob_seq b then ob_seq a < ob_seq b else string_less (ob_key a) (ob_key b))"

definition Pending :: "MemoryStore \<Rightarrow> OutboxRecord list" where
  "Pending s = sort_by pending_less (filter (\<lambda>rec. ob_state rec = OutboxPending) (map snd (ms_outbox s)))"

definition MarkDelivered :: "string \<Rightarrow> uint64 \<Rightarrow> string \<Rightarrow> MemoryStore \<Rightarrow> unit res \<times> MemoryStore" where
  "MarkDelivered outboxKey activationSequence eventDigest s =
     (case map_of (ms_outbox s) outboxKey of
        None \<Rightarrow> (Inl (store_fail s ReasonRefMismatch), s)
      | Some rec \<Rightarrow>
          if ob_digest rec \<noteq> eventDigest \<or> ob_seq rec \<noteq> activationSequence then (Inl (store_fail s ReasonDigestMismatch), s)
          else if ob_state rec = OutboxDelivered then (Inr (), s)
          else (Inr (), s\<lparr>ms_outbox := gput outboxKey (rec\<lparr>ob_state := OutboxDelivered\<rparr>) (ms_outbox s)\<rparr>))"

subsection \<open>Compensation\<close>

text \<open>\<open>delete(m, k)\<close>.\<close>

definition gdel :: "'k \<Rightarrow> ('k \<times> 'v) list \<Rightarrow> ('k \<times> 'v) list" where
  "gdel k m = filter (\<lambda>p. fst p \<noteq> k) m"

definition undoContentPut :: "string \<Rightarrow> MemoryStore \<Rightarrow> MemoryStore" where
  "undoContentPut digest s = s\<lparr>ms_content := gdel digest (ms_content s)\<rparr>"

definition undoAppend :: "Entry \<Rightarrow> MemoryStore \<Rightarrow> MemoryStore" where
  "undoAppend entry s =
     (let key = ledgerKey (en_ledger entry) (en_stream entry);
          entries = entries_at s key
      in if entries \<noteq> [] \<and> last entries = entry then s\<lparr>ms_ledgers := gput key (butlast entries) (ms_ledgers s)\<rparr> else s)"

definition undoHeadCAS :: "string \<Rightarrow> string \<Rightarrow> headState option \<Rightarrow> MemoryStore \<Rightarrow> MemoryStore" where
  "undoHeadCAS kind key prev s =
     (case prev of
        None \<Rightarrow> s\<lparr>ms_heads := gdel (headKey kind key) (ms_heads s)\<rparr>
      | Some h \<Rightarrow> s\<lparr>ms_heads := gput (headKey kind key) h (ms_heads s)\<rparr>)"

definition undoOutbox :: "string \<Rightarrow> MemoryStore \<Rightarrow> MemoryStore" where
  "undoOutbox outboxKey s = s\<lparr>ms_outbox := gdel outboxKey (ms_outbox s)\<rparr>"

definition undoIdempotency :: "string \<Rightarrow> MemoryStore \<Rightarrow> MemoryStore" where
  "undoIdempotency key s = s\<lparr>ms_idem := gdel key (ms_idem s)\<rparr>"

end
