(* ===== verification/Ledger_Tx.thy ===== *)
theory Ledger_Tx
  imports Ledger
begin

text \<open>
  The domain transaction of the ledger (\<^verbatim>\<open>internal/skillevolution/ledger/transaction.go\<close>): the staged write set with its
  checks, and the commit that applies it in the pinned order and compensates what it applied when a step fails.
  The manager holds the commit lock of the store over the whole commit, so a commit is one function on the store.
\<close>

subsection \<open>The staged write set\<close>

record stagedContent =
  sc_digest :: string
  sc_canonical :: string

record stagedCAS =
  cas_kind :: string
  cas_key :: string
  cas_expected_seq :: uint64
  cas_expected_digest :: string
  cas_new_seq :: uint64
  cas_new_digest :: string

record Tx =
  tx_puts :: "stagedContent list"
  tx_appends :: "Entry list"
  tx_cas :: "stagedCAS list"
  tx_outbox :: "OutboxRecord list"
  tx_idem :: "IdempotencyRecord list"
  tx_idem_seen :: "string gmap"
  tx_replay :: bool
  tx_replay_key :: string
  tx_outbox_seen :: "OutboxRecord gmap"

definition new_tx :: Tx where
  "new_tx = \<lparr>tx_puts = [], tx_appends = [], tx_cas = [], tx_outbox = [], tx_idem = [], tx_idem_seen = [], tx_replay = False,
     tx_replay_key = [], tx_outbox_seen = []\<rparr>"

definition hasWrites :: "Tx \<Rightarrow> bool" where
  "hasWrites tx = (length (tx_puts tx) + length (tx_appends tx) + length (tx_cas tx) + length (tx_outbox tx) + length (tx_idem tx) > 0)"

definition NewManager :: "MemoryStore option \<Rightarrow> registry \<Rightarrow> (MemoryStore \<times> registry) res" where
  "NewManager store registry =
     (case store of
        None \<Rightarrow> Inl PlainError
      | Some s \<Rightarrow> and_then (verifyMappedReasonCodes registry) (\<lambda>_. Inr (s, registry)))"

subsection \<open>Payload validation\<close>

text \<open>Strict parse, normalisation, canonical bytes and digest, and the object when the payload is one.\<close>

definition canonicalize :: "registry \<Rightarrow> string \<Rightarrow> (string \<times> string \<times> gobj option) res" where
  "canonicalize registry payload =
     (case ParseJSONStrict payload of
        Inl _ \<Rightarrow> Inl (newError registry ReasonInvalidJSON)
      | Inr val \<Rightarrow>
          (case JCS (NormalizeForHashing val) of
             Inl (CanonicalizationError code) \<Rightarrow> Inl (newError registry code)
           | Inl e \<Rightarrow> Inl e
           | Inr canonical \<Rightarrow> Inr (canonical, DigestBytes canonical, AsObject val)))"

text \<open>
  \<open>fmt.Sscanf(s, "%d", &v)\<close> for an unsigned target: the leading digits, which must fit; no sign is accepted. The text of a
  JSON number has no leading space.
\<close>

definition scan_uint :: "string \<Rightarrow> uint64 option" where
  "scan_uint s =
     (let ds = takeWhile is_digit s in
      if ds = [] then None
      else if digits_val 0 ds < 2 ^ 64 then Some (word_of_int (digits_val 0 ds)) else None)"

definition check_sequence_field :: "registry \<Rightarrow> gobj \<Rightarrow> uint64 \<Rightarrow> string \<Rightarrow> unit res" where
  "check_sequence_field registry obj sequence field =
     (case map_of obj field of
        None \<Rightarrow> Inr ()
      | Some (GNumber number) \<Rightarrow>
          (case scan_uint number of
             None \<Rightarrow> Inl (newError registry ReasonSchemaEnumInvalid)
           | Some val \<Rightarrow> check (val = sequence) (newError registry ReasonRefMismatch))
      | Some _ \<Rightarrow> Inl (newError registry ReasonSchemaEnumInvalid))"

definition check_state_edge :: "registry \<Rightarrow> gobj \<Rightarrow> string \<Rightarrow> unit res" where
  "check_state_edge registry obj schemaVersion =
     (case map_of payloadStateTables schemaVersion of
        None \<Rightarrow> Inr ()
      | Some table \<Rightarrow>
          check (legalTransition table (str_or_empty (gidx obj ''from_state'')) (str_or_empty (gidx obj ''to_state'')))
            (newError registry ReasonIllegalStateTransition))"

definition validateEventPayload :: "registry \<Rightarrow> string \<Rightarrow> string \<Rightarrow> uint64 \<Rightarrow> string \<Rightarrow> (string \<times> string) res" where
  "validateEventPayload registry kind eventID sequence payload =
     (case map_of ledgerKinds kind of
        None \<Rightarrow> Inl (newError registry ReasonSchemaEnumInvalid)
      | Some spec \<Rightarrow>
          and_then (canonicalize registry payload) (\<lambda>(canonical, digest, obj).
          (case obj of
             None \<Rightarrow> Inl (newError registry ReasonSchemaFieldUnknown)
           | Some ob \<Rightarrow>
               let schemaVersion = str_or_empty (gidx ob ''schema_version'') in
               and_then (check (schemaVersion \<in> set (payloadSchemas spec)) (newError registry ReasonSchemaVersionUnsupported)) (\<lambda>_.
               and_then (case AsString (gidx ob ''event_id'') of
                   None \<Rightarrow> Inr ()
                 | Some ident \<Rightarrow> check (ident = eventID) (newError registry ReasonRefMismatch)) (\<lambda>_.
               and_then (for_each (check_sequence_field registry ob sequence) [''event_sequence'', ''activation_sequence'']) (\<lambda>_.
               and_then (check_state_edge registry ob schemaVersion) (\<lambda>_.
               Inr (canonical, digest))))))))"

subsection \<open>Staging\<close>

definition checkStream :: "registry \<Rightarrow> ledgerKindSpec \<Rightarrow> string \<Rightarrow> unit res" where
  "checkStream registry spec stream = check (\<not> (singleStream spec \<and> stream \<noteq> [])) (newError registry ReasonSchemaEnumInvalid)"

definition stageContent :: "string \<Rightarrow> string \<Rightarrow> Tx \<Rightarrow> Tx" where
  "stageContent digest canonical tx =
     (if \<exists>put \<in> set (tx_puts tx). sc_digest put = digest then tx
      else tx\<lparr>tx_puts := tx_puts tx @ [\<lparr>sc_digest = digest, sc_canonical = canonical\<rparr>]\<rparr>)"

definition head_sequence :: "Entry option \<Rightarrow> uint64" where
  "head_sequence head = (case head of None \<Rightarrow> 0 | Some e \<Rightarrow> en_seq e)"

definition NextSequence :: "registry \<Rightarrow> MemoryStore \<Rightarrow> Tx \<Rightarrow> string \<Rightarrow> string \<Rightarrow> uint64 res" where
  "NextSequence registry s tx kind stream =
     (case map_of ledgerKinds kind of
        None \<Rightarrow> Inl (newError registry ReasonSchemaEnumInvalid)
      | Some spec \<Rightarrow>
          and_then (checkStream registry spec stream) (\<lambda>_.
          and_then (Head s kind stream) (\<lambda>head.
          Inr (head_sequence head + 1 +
            word_of_nat (length (filter (\<lambda>e. en_ledger e = kind \<and> en_stream e = stream) (tx_appends tx)))))))"

definition PutContent :: "registry \<Rightarrow> string \<Rightarrow> Tx \<Rightarrow> string res \<times> Tx" where
  "PutContent registry payload tx =
     (case canonicalize registry payload of
        Inl e \<Rightarrow> (Inl e, tx)
      | Inr (canonical, digest, _) \<Rightarrow> (Inr digest, stageContent digest canonical tx))"

definition AppendEvent :: "registry \<Rightarrow> MemoryStore \<Rightarrow> string \<Rightarrow> string \<Rightarrow> string \<Rightarrow> string \<Rightarrow> Tx \<Rightarrow> Entry res \<times> Tx" where
  "AppendEvent registry s kind stream eventID payload tx =
     (case NextSequence registry s tx kind stream of
        Inl e \<Rightarrow> (Inl e, tx)
      | Inr sequence \<Rightarrow>
          (case validateEventPayload registry kind eventID sequence payload of
             Inl e \<Rightarrow> (Inl e, tx)
           | Inr (canonical, digest) \<Rightarrow>
               let entry = \<lparr>en_ledger = kind, en_stream = stream, en_seq = sequence, en_event = eventID, en_digest = digest\<rparr>;
                   tx1 = stageContent digest canonical tx
               in (Inr entry, tx1\<lparr>tx_appends := tx_appends tx1 @ [entry]\<rparr>)))"

definition AppendEntry :: "registry \<Rightarrow> Entry \<Rightarrow> string \<Rightarrow> Tx \<Rightarrow> unit res \<times> Tx" where
  "AppendEntry registry entry payload tx =
     (case (case map_of ledgerKinds (en_ledger entry) of
              None \<Rightarrow> Inl (newError registry ReasonSchemaEnumInvalid)
            | Some spec \<Rightarrow>
                and_then (checkStream registry spec (en_stream entry)) (\<lambda>_.
                and_then (check (en_event entry \<noteq> []) (newError registry ReasonRequiredFieldMissing)) (\<lambda>_.
                and_then (check (isValidDigest (en_digest entry)) (newError registry ReasonSchemaEnumInvalid)) (\<lambda>_.
                and_then (check (en_seq entry \<noteq> 0) (newError registry ReasonSchemaEnumInvalid)) (\<lambda>_.
                and_then (validateEventPayload registry (en_ledger entry) (en_event entry) (en_seq entry) payload) (\<lambda>(canonical, digest).
                and_then (check (digest = en_digest entry) (newError registry ReasonDigestMismatch)) (\<lambda>_.
                Inr (canonical, digest)))))))) of
        Inl e \<Rightarrow> (Inl e, tx)
      | Inr (canonical, digest) \<Rightarrow>
          let tx1 = stageContent digest canonical tx
          in (Inr (), tx1\<lparr>tx_appends := tx_appends tx1 @ [entry]\<rparr>))"

definition CompareAndSwapHead :: "registry \<Rightarrow> stagedCAS \<Rightarrow> Tx \<Rightarrow> unit res \<times> Tx" where
  "CompareAndSwapHead registry op tx =
     (if map_of headKinds (cas_kind op) = None then (Inl (newError registry ReasonSchemaEnumInvalid), tx)
      else if cas_key op = [] then (Inl (newError registry ReasonRequiredFieldMissing), tx)
      else if cas_expected_digest op \<noteq> [] \<and> \<not> isValidDigest (cas_expected_digest op)
      then (Inl (newError registry ReasonSchemaEnumInvalid), tx)
      else if \<not> isValidDigest (cas_new_digest op) then (Inl (newError registry ReasonSchemaEnumInvalid), tx)
      else (Inr (), tx\<lparr>tx_cas := tx_cas tx @ [op]\<rparr>))"

definition EnqueueOutbox :: "registry \<Rightarrow> MemoryStore \<Rightarrow> OutboxRecord \<Rightarrow> Tx \<Rightarrow> unit res \<times> Tx" where
  "EnqueueOutbox registry s rec tx =
     (if \<not> isValidDigest (ob_key rec) then (Inl (newError registry ReasonSchemaEnumInvalid), tx)
      else if \<not> isValidDigest (ob_digest rec) then (Inl (newError registry ReasonSchemaEnumInvalid), tx)
      else if ob_target rec = [] then (Inl (newError registry ReasonRequiredFieldMissing), tx)
      else if ob_state rec \<noteq> OutboxPending then (Inl (newError registry ReasonSchemaEnumInvalid), tx)
      else if map_of ledgerKinds (ob_ledger rec) = None then (Inl (newError registry ReasonSchemaEnumInvalid), tx)
      else if ob_ledger rec \<noteq> LedgerActivation then (Inl (newError registry ReasonActivationEventInvalid), tx)
      else if ob_seq rec = 0 then (Inl (newError registry ReasonSchemaEnumInvalid), tx)
      else
        (case map_of (tx_outbox_seen tx) (ob_key rec) of
           Some prior \<Rightarrow>
             if same_binding prior rec then (Inr (), tx) else (Inl (newError registry ReasonIdempotencyConflict), tx)
         | None \<Rightarrow>
             (case GetOutbox s (ob_key rec) of
                Some prior \<Rightarrow>
                  if same_binding prior rec then (Inr (), tx) else (Inl (newError registry ReasonIdempotencyConflict), tx)
              | None \<Rightarrow>
                  (Inr (), tx\<lparr>tx_outbox_seen := gput (ob_key rec) rec (tx_outbox_seen tx), tx_outbox := tx_outbox tx @ [rec]\<rparr>))))"

text \<open>The result is the recorded outcome of a replay, or None.\<close>

definition RecordIdempotency :: "registry \<Rightarrow> MemoryStore \<Rightarrow> string \<Rightarrow> string \<Rightarrow> string \<Rightarrow> Tx \<Rightarrow> (string option) res \<times> Tx" where
  "RecordIdempotency registry s key requestDigest outcome tx =
     (if key = [] then (Inl (newError registry ReasonRequiredFieldMissing), tx)
      else if \<not> isValidDigest requestDigest then (Inl (newError registry ReasonSchemaEnumInvalid), tx)
      else
        (case LookupIdem s key of
           Some prior \<Rightarrow>
             if ir_digest prior \<noteq> requestDigest then (Inl (newError registry ReasonIdempotencyConflict), tx)
             else (Inr (Some (ir_outcome prior)), tx\<lparr>tx_replay := True, tx_replay_key := key\<rparr>)
         | None \<Rightarrow>
             (case map_of (tx_idem_seen tx) key of
                Some priorDigest \<Rightarrow>
                  if priorDigest \<noteq> requestDigest then (Inl (newError registry ReasonIdempotencyConflict), tx) else (Inr None, tx)
              | None \<Rightarrow>
                  (Inr None, tx\<lparr>tx_idem_seen := gput key requestDigest (tx_idem_seen tx),
                     tx_idem := tx_idem tx @ [\<lparr>ir_key = key, ir_digest = requestDigest, ir_outcome = outcome\<rparr>]\<rparr>))))"

subsection \<open>Commit\<close>

text \<open>The closures of the undo stack.\<close>

datatype undo =
    UndoContentPut string
  | UndoHeadCAS string string "headState option"
  | UndoAppend Entry
  | UndoOutbox string
  | UndoIdempotency string

fun run_undo :: "undo \<Rightarrow> MemoryStore \<Rightarrow> MemoryStore" where
  "run_undo (UndoContentPut digest) s = undoContentPut digest s"
| "run_undo (UndoHeadCAS kind key prev) s = undoHeadCAS kind key prev s"
| "run_undo (UndoAppend entry) s = undoAppend entry s"
| "run_undo (UndoOutbox key) s = undoOutbox key s"
| "run_undo (UndoIdempotency key) s = undoIdempotency key s"

text \<open>\<open>fail\<close>: the last undo first.\<close>

definition unwind :: "undo list \<Rightarrow> MemoryStore \<Rightarrow> MemoryStore" where
  "unwind undos s = fold run_undo (rev undos) s"

text \<open>One loop of the commit: apply the writes in order and collect their undos, or stop at the first error.\<close>

fun apply_all :: "('o \<Rightarrow> MemoryStore \<Rightarrow> (undo list) res \<times> MemoryStore) \<Rightarrow> 'o list \<Rightarrow> undo list \<Rightarrow> MemoryStore \<Rightarrow>
    go_error option \<times> undo list \<times> MemoryStore" where
  "apply_all f [] undos s = (None, undos, s)"
| "apply_all f (x # xs) undos s =
     (case f x s of
        (Inl e, s') \<Rightarrow> (Some e, undos, s')
      | (Inr us, s') \<Rightarrow> apply_all f xs (undos @ us) s')"

definition then_phase :: "go_error option \<times> undo list \<times> MemoryStore \<Rightarrow>
    (undo list \<Rightarrow> MemoryStore \<Rightarrow> go_error option \<times> undo list \<times> MemoryStore) \<Rightarrow> go_error option \<times> undo list \<times> MemoryStore" where
  "then_phase r f = (case r of (Some e, us, s) \<Rightarrow> (Some e, us, s) | (None, us, s) \<Rightarrow> f us s)"

definition apply_put :: "registry \<Rightarrow> stagedContent \<Rightarrow> MemoryStore \<Rightarrow> (undo list) res \<times> MemoryStore" where
  "apply_put registry put s =
     (let existed = (Get s (sc_digest put) \<noteq> None);
          (digest, s1) = Put (sc_canonical put) s
      in if digest \<noteq> sc_digest put then (Inl (newError registry ReasonDigestMismatch), s1)
         else (Inr (if existed then [] else [UndoContentPut (sc_digest put)]), s1))"

definition apply_cas :: "stagedCAS \<Rightarrow> MemoryStore \<Rightarrow> (undo list) res \<times> MemoryStore" where
  "apply_cas op s =
     (case GetHead s (cas_kind op) (cas_key op) of
        Inl e \<Rightarrow> (Inl e, s)
      | Inr prev \<Rightarrow>
          (case CompareAndSwap (cas_kind op) (cas_key op) (cas_expected_seq op) (cas_expected_digest op) (cas_new_seq op) (cas_new_digest op) s of
             (Inl e, s1) \<Rightarrow> (Inl e, s1)
           | (Inr _, s1) \<Rightarrow> (Inr [UndoHeadCAS (cas_kind op) (cas_key op) prev], s1)))"

definition apply_append :: "Entry \<Rightarrow> MemoryStore \<Rightarrow> (undo list) res \<times> MemoryStore" where
  "apply_append entry s =
     (case Head s (en_ledger entry) (en_stream entry) of
        Inl e \<Rightarrow> (Inl e, s)
      | Inr head \<Rightarrow>
          (case Append entry s of
             (Inl e, s1) \<Rightarrow> (Inl e, s1)
           | (Inr _, s1) \<Rightarrow> (Inr (if en_seq entry = head_sequence head + 1 then [UndoAppend entry] else []), s1)))"

definition overlay_of :: "Entry list \<Rightarrow> (Entry list) gmap" where
  "overlay_of appends =
     fold (\<lambda>entry m. let key = ledgerKey (en_ledger entry) (en_stream entry) in
       gput key ((case map_of m key of None \<Rightarrow> [] | Some es \<Rightarrow> es) @ [entry]) m) appends []"

definition outboxResolves :: "MemoryStore \<Rightarrow> (Entry list) gmap \<Rightarrow> OutboxRecord \<Rightarrow> bool" where
  "outboxResolves s overlay rec =
     (case find (\<lambda>entry. en_seq entry = ob_seq rec)
             (case map_of overlay (ledgerKey (ob_ledger rec) []) of None \<Rightarrow> [] | Some es \<Rightarrow> es) of
        Some entry \<Rightarrow> en_digest entry = ob_digest rec
      | None \<Rightarrow>
          (case EntryAt s (ob_ledger rec) [] (ob_seq rec) of
             Inr (Some entry) \<Rightarrow> en_digest entry = ob_digest rec
           | _ \<Rightarrow> False))"

definition apply_outbox :: "registry \<Rightarrow> (Entry list) gmap \<Rightarrow> OutboxRecord \<Rightarrow> MemoryStore \<Rightarrow> (undo list) res \<times> MemoryStore" where
  "apply_outbox registry overlay rec s =
     (if \<not> outboxResolves s overlay rec then (Inl (newError registry ReasonActivationEventInvalid), s)
      else
        let existed = (GetOutbox s (ob_key rec) \<noteq> None)
        in case Enqueue rec s of
             (Inl e, s1) \<Rightarrow> (Inl e, s1)
           | (Inr _, s1) \<Rightarrow> (Inr (if existed then [] else [UndoOutbox (ob_key rec)]), s1))"

definition apply_idem :: "IdempotencyRecord \<Rightarrow> MemoryStore \<Rightarrow> (undo list) res \<times> MemoryStore" where
  "apply_idem rec s =
     (let existed = (LookupIdem s (ir_key rec) \<noteq> None)
      in case Record rec s of
           (Inl e, s1) \<Rightarrow> (Inl e, s1)
         | (Inr _, s1) \<Rightarrow> (Inr (if existed then [] else [UndoIdempotency (ir_key rec)]), s1))"

definition apply_tx :: "registry \<Rightarrow> Tx \<Rightarrow> MemoryStore \<Rightarrow> go_error option \<times> undo list \<times> MemoryStore" where
  "apply_tx registry tx s =
     then_phase (apply_all (apply_put registry) (tx_puts tx) [] s) (\<lambda>us1 s1.
     then_phase (apply_all apply_cas (tx_cas tx) us1 s1) (\<lambda>us2 s2.
     then_phase (apply_all apply_append (tx_appends tx) us2 s2) (\<lambda>us3 s3.
     then_phase (apply_all (apply_outbox registry (overlay_of (tx_appends tx))) (tx_outbox tx) us3 s3) (\<lambda>us4 s4.
     apply_all apply_idem (tx_idem tx) us4 s4))))"

definition commit :: "registry \<Rightarrow> Tx \<Rightarrow> MemoryStore \<Rightarrow> unit res \<times> MemoryStore" where
  "commit registry tx s =
     (if tx_replay tx then
        (if hasWrites tx then (Inl (newError registry ReasonIdempotencyConflict), s) else (Inr (), s))
      else
        (case apply_tx registry tx s of
           (Some e, us, s') \<Rightarrow> (Inl e, unwind us s')
         | (None, us, s') \<Rightarrow> (Inr (), s')))"

text \<open>
  \<open>WithinTx\<close>: the callback reads the store and fills the write set; \<open>cancelled\<close> and \<open>cancelled_later\<close> say whether the context is
  done before the callback and after it.
\<close>

definition WithinTx :: "registry \<Rightarrow> bool \<Rightarrow> bool \<Rightarrow> (MemoryStore \<Rightarrow> Tx \<Rightarrow> unit res \<times> Tx) \<Rightarrow> MemoryStore \<Rightarrow> unit res \<times> MemoryStore" where
  "WithinTx registry cancelled cancelled_later callback s =
     (if cancelled then (Inl ContextError, s)
      else
        (case callback s new_tx of
           (Inl e, _) \<Rightarrow> (Inl e, s)
         | (Inr _, tx) \<Rightarrow> if cancelled_later then (Inl ContextError, s) else commit registry tx s))"

end
