(* ===== verification/Ledger_Facts.thy ===== *)
theory Ledger_Facts
  imports Ledger_Tx Host_Prelude "HOL-Library.Sublist"
begin

text \<open>
  What the ledger promises: a commit applies its whole write set or nothing that can be seen, history is append-only,
  every entry is backed by content and every outbox record by an entry, a recorded request is never executed again.
  The contract of one write of the commit is the locale \<open>compensated\<close>, interpreted by the five kinds of writes.
\<close>

subsection \<open>Observing a store\<close>

text \<open>Two stores that no port can tell apart: a missing stream is an empty one.\<close>

definition same :: "MemoryStore \<Rightarrow> MemoryStore \<Rightarrow> bool" where
  "same s t = (ms_registry s = ms_registry t \<and> ms_content s = ms_content t \<and> ms_idem s = ms_idem t \<and> ms_heads s = ms_heads t \<and>
     ms_outbox s = ms_outbox t \<and> (\<forall>key. entries_at s key = entries_at t key))"

text \<open>Sequence numbers of a stream are 1, 2, 3, and so on; content is stored under its digest.\<close>

definition numbered :: "Entry list \<Rightarrow> bool" where
  "numbered es = (length es < 2 ^ 64 \<and> (\<forall>i < length es. unat (en_seq (es ! i)) = Suc i))"

definition store_ok :: "MemoryStore \<Rightarrow> bool" where
  "store_ok s = ((\<forall>key. numbered (entries_at s key)) \<and> (\<forall>digest blob. map_of (ms_content s) digest = Some blob \<longrightarrow> DigestBytes blob = digest))"

text \<open>The later store has everything the earlier one has; heads may have moved, pending deliveries may be done.\<close>

definition outbox_kept :: "OutboxRecord \<Rightarrow> OutboxRecord \<Rightarrow> bool" where
  "outbox_kept r r' = (r'\<lparr>ob_state := ob_state r\<rparr> = r \<and> (ob_state r' \<noteq> ob_state r \<longrightarrow> ob_state r' = OutboxDelivered))"

definition extends :: "MemoryStore \<Rightarrow> MemoryStore \<Rightarrow> bool" where
  "extends s t = (ms_registry t = ms_registry s \<and> map_of (ms_content s) \<subseteq>\<^sub>m map_of (ms_content t) \<and>
     map_of (ms_idem s) \<subseteq>\<^sub>m map_of (ms_idem t) \<and> (\<forall>key. prefix (entries_at s key) (entries_at t key)) \<and>
     (\<forall>k r. map_of (ms_outbox s) k = Some r \<longrightarrow> (\<exists>r'. map_of (ms_outbox t) k = Some r' \<and> outbox_kept r r')))"

lemma same_refl [simp]: "same s s"
  by (simp add: same_def)

lemma same_sym: "same s t \<Longrightarrow> same t s"
  by (simp add: same_def)

lemma same_trans: "same s t \<Longrightarrow> same t u \<Longrightarrow> same s u"
  by (simp add: same_def)

lemma same_store_ok: "same s t \<Longrightarrow> store_ok s \<Longrightarrow> store_ok t"
  by (simp add: same_def store_ok_def)

lemma outbox_kept_refl [simp]: "outbox_kept r r"
  by (simp add: outbox_kept_def)

lemma outbox_kept_trans: "outbox_kept r r' \<Longrightarrow> outbox_kept r' r'' \<Longrightarrow> outbox_kept r r''"
  by (cases r; cases r'; cases r'') (auto simp: outbox_kept_def)

lemma outbox_kept_binding: "outbox_kept r r' \<Longrightarrow> same_binding r' r"
  by (cases r; cases r') (auto simp: outbox_kept_def same_binding_def)

lemma extends_refl [simp]: "extends s s"
  by (auto simp: extends_def)

lemma extends_trans: "extends s t \<Longrightarrow> extends t u \<Longrightarrow> extends s u"
  unfolding extends_def
  apply (intro conjI allI impI)
      apply simp
     apply (blast intro: map_le_trans)
    apply (blast intro: map_le_trans)
   apply (blast intro: prefix_order.trans)
  apply (meson outbox_kept_trans)
  done

lemma same_extends: "same s t \<Longrightarrow> extends s t"
  by (auto simp: same_def extends_def)

lemma entries_at_update [simp]:
  "entries_at (s\<lparr>ms_ledgers := gput k es (ms_ledgers s)\<rparr>) key = (if key = k then es else entries_at s key)"
  by (simp add: entries_at_def)

lemma entries_at_other [simp]:
  "entries_at (s\<lparr>ms_content := c\<rparr>) key = entries_at s key" "entries_at (s\<lparr>ms_idem := i\<rparr>) key = entries_at s key"
  "entries_at (s\<lparr>ms_heads := h\<rparr>) key = entries_at s key" "entries_at (s\<lparr>ms_outbox := b\<rparr>) key = entries_at s key"
  by (simp_all add: entries_at_def)

lemma gdel_gput: "map_of m k = None \<Longrightarrow> gdel k (gput k v m) = m"
  by (induction m) (auto simp: gdel_def filter_id_conv split: if_splits)

subsection \<open>Undoing\<close>

lemma run_undo_same: "same s t \<Longrightarrow> same (run_undo u s) (run_undo u t)"
  by (cases u) (auto simp: same_def undoContentPut_def undoHeadCAS_def undoAppend_def undoOutbox_def undoIdempotency_def Let_def
      split: option.split)

lemma unwind_simps [simp]: "unwind [] s = s" "unwind [u] s = run_undo u s" "unwind (us @ vs) s = unwind us (unwind vs s)"
  by (simp_all add: unwind_def)

lemma unwind_same: "same s t \<Longrightarrow> same (unwind us s) (unwind us t)"
proof (induction us arbitrary: s t rule: rev_induct)
  case (snoc u us)
  then show ?case by (simp add: run_undo_same)
qed simp

definition reverts :: "MemoryStore \<Rightarrow> go_error option \<times> undo list \<times> MemoryStore \<Rightarrow> bool" where
  "reverts s r = (store_ok (snd (snd r)) \<and> same (unwind (fst (snd r)) (snd (snd r))) s)"

text \<open>
  The contract of one write of the commit: it succeeds and then its undos take it back, or it fails and has changed nothing;
  what it wrote is there afterwards and stays there when the store only grows.
\<close>

locale compensated =
  fixes write_op :: "'o \<Rightarrow> MemoryStore \<Rightarrow> (undo list) res \<times> MemoryStore"
    and staged_ok :: "'o \<Rightarrow> bool"
    and there :: "'o \<Rightarrow> MemoryStore \<Rightarrow> bool"
  assumes write_ok: "\<lbrakk>store_ok s; staged_ok x; write_op x s = (Inr us, s')\<rbrakk> \<Longrightarrow> store_ok s' \<and> same (unwind us s') s"
    and write_fail: "\<lbrakk>store_ok s; staged_ok x; write_op x s = (Inl e, s')\<rbrakk> \<Longrightarrow> same s' s"
    and write_grows: "\<lbrakk>store_ok s; staged_ok x; write_op x s = (Inr us, s')\<rbrakk> \<Longrightarrow> extends s s' \<and> there x s'"
    and there_stays: "\<lbrakk>there x s; extends s s'\<rbrakk> \<Longrightarrow> there x s'"
begin

lemma apply_all_undo:
  "\<lbrakk>store_ok s; \<forall>x \<in> set xs. staged_ok x; apply_all write_op xs us s = (r, us', s')\<rbrakk> \<Longrightarrow>
     store_ok s' \<and> (\<exists>new. us' = us @ new \<and> same (unwind new s') s)"
proof (induction xs arbitrary: us s)
  case Nil
  then show ?case by auto
next
  case (Cons x xs)
  obtain r1 s1 where w: "write_op x s = (r1, s1)" by (cases "write_op x s")
  show ?case
  proof (cases r1)
    case (Inl e)
    with Cons.prems w have "same s1 s" "us' = us" "s' = s1" using write_fail [of s x e s1] by auto
    with Cons.prems(1) show ?thesis using same_store_ok same_sym by auto
  next
    case (Inr us1)
    have ok: "store_ok s1" and undo: "same (unwind us1 s1) s" using write_ok [of s x us1 s1] Cons.prems w Inr by auto
    have rest: "apply_all write_op xs (us @ us1) s1 = (r, us', s')" using Cons.prems(3) w Inr by simp
    have good: "\<forall>x \<in> set xs. staged_ok x" using Cons.prems(2) by simp
    obtain new where "store_ok s'" "us' = (us @ us1) @ new" and back_s1: "same (unwind new s') s1"
      using Cons.IH [OF ok good rest] by blast
    moreover have "same (unwind (us1 @ new) s') s"
      using same_trans [OF unwind_same [OF back_s1] undo] by simp
    ultimately show ?thesis by auto
  qed
qed

lemma apply_all_reverts:
  assumes "store_ok s1" "same (unwind us s1) s" "\<forall>x \<in> set xs. staged_ok x"
  shows "reverts s (apply_all write_op xs us s1)"
proof -
  obtain r us' s' where r: "apply_all write_op xs us s1 = (r, us', s')" by (cases "apply_all write_op xs us s1") auto
  obtain new where "store_ok s'" "us' = us @ new" "same (unwind new s') s1"
    using apply_all_undo [OF assms(1,3) r] by blast
  then show ?thesis using same_trans [OF unwind_same assms(2)] by (simp add: reverts_def r)
qed

lemma apply_all_there:
  "\<lbrakk>store_ok s; \<forall>x \<in> set xs. staged_ok x; apply_all write_op xs us s = (None, us', s')\<rbrakk> \<Longrightarrow>
     extends s s' \<and> (\<forall>x \<in> set xs. there x s')"
proof (induction xs arbitrary: us s)
  case Nil
  then show ?case by auto
next
  case (Cons x xs)
  obtain r1 s1 where w: "write_op x s = (r1, s1)" by (cases "write_op x s")
  from Cons.prems(3) w obtain us1 where r1: "r1 = Inr us1" and rest: "apply_all write_op xs (us @ us1) s1 = (None, us', s')"
    by (cases r1) auto
  have ok: "store_ok s1" and grows: "extends s s1" "there x s1"
    using write_ok [of s x us1 s1] write_grows [of s x us1 s1] Cons.prems(1,2) w r1 by auto
  have good: "\<forall>x \<in> set xs. staged_ok x" using Cons.prems(2) by simp
  note IH = Cons.IH [OF ok good rest]
  with grows show ?case using extends_trans there_stays by auto
qed

end


subsection \<open>The five kinds of writes\<close>

lemma word_of_length_Suc:
  assumes "n < 2 ^ 64" "(word_of_nat n :: uint64) + 1 \<noteq> 0"
  shows "unat ((word_of_nat n :: uint64) + 1) = Suc n" "Suc n < 2 ^ 64"
proof -
  have n: "unat (word_of_nat n :: uint64) = n" using assms(1) by (simp add: unsigned_of_nat take_bit_nat_eq_self)
  have sum: "unat ((word_of_nat n :: uint64) + 1) = Suc n mod 2 ^ 64" by (simp add: unat_word_ariths n)
  have "Suc n \<noteq> 2 ^ 64" using assms(2) sum by (auto simp: unat_eq_0 simp flip: unat_eq_zero)
  then show less: "Suc n < 2 ^ 64" using assms(1) by simp
  show "unat ((word_of_nat n :: uint64) + 1) = Suc n" unfolding sum using less by simp
qed

lemma head_sequence_numbered:
  assumes "numbered es"
  shows "head_sequence (if es = [] then None else Some (last es)) = word_of_nat (length es)"
proof (cases es rule: rev_cases)
  case (snoc es' e)
  with assms have seq: "unat (en_seq e) = length es" by (auto simp: numbered_def)
  have "en_seq e = word_of_nat (length es)" by (simp flip: seq)
  with snoc show ?thesis by (simp add: head_sequence_def)
qed (simp add: head_sequence_def)

lemma numbered_snoc:
  assumes "numbered es" "en_seq e = word_of_nat (length es) + 1" "en_seq e \<noteq> 0"
  shows "numbered (es @ [e])"
  using assms word_of_length_Suc [of "length es"] by (auto simp: numbered_def nth_append less_Suc_eq)

lemma slot_index:
  fixes sq :: uint64
  assumes "sq \<noteq> 0" "sq \<le> word_of_nat n"
  shows "unat (sq - 1) < n" "Suc (unat (sq - 1)) = unat sq"
proof -
  show "Suc (unat (sq - 1)) = unat sq" using assms(1) by (metis Suc_pred' unat_gt_0 unat_minus_one)
  moreover have "unat sq \<le> n"
    using assms(2) by (metis (no_types) le_trans unat_of_nat mod_less_eq_dividend word_le_nat_alt)
  ultimately show "unat (sq - 1) < n" by simp
qed

lemma Append_cases:
  assumes "Append e s = (Inr u, s')"
  defines "key \<equiv> ledgerKey (en_ledger e) (en_stream e)"
  shows "(s' = s\<lparr>ms_ledgers := gput key (entries_at s key @ [e]) (ms_ledgers s)\<rparr> \<and> en_seq e = word_of_nat (length (entries_at s key)) + 1 \<or>
     s' = s \<and> en_seq e \<noteq> word_of_nat (length (entries_at s key)) + 1 \<and> e \<in> set (entries_at s key)) \<and> en_seq e \<noteq> 0"
proof -
  have "e \<in> set es" if "en_seq e \<noteq> 0" "en_seq e \<le> word_of_nat (length es)" "es ! unat (en_seq e - 1) = e" for es
    using nth_mem [OF slot_index(1) [OF that(1,2)]] that(3) by simp
  with assms(1) show ?thesis unfolding key_def
    by (auto simp: Append_def check_entry_def Let_def split: option.splits if_splits sum.splits)
qed

lemma Append_fail: "Append e s = (Inl err, s') \<Longrightarrow> s' = s"
  by (auto simp: Append_def Let_def split: sum.splits if_splits)

lemma CompareAndSwap_cases:
  "CompareAndSwap kind key es ed ns nd s = (r, s') \<Longrightarrow>
     (case r of Inl e \<Rightarrow> s' = s
      | Inr _ \<Rightarrow> s' = s\<lparr>ms_heads := gput (headKey kind key) \<lparr>hs_seq = ns, hs_digest = nd\<rparr> (ms_heads s)\<rparr> \<and> ns = es + 1 \<and> isValidDigest nd \<and>
          (case map_of (ms_heads s) (headKey kind key) of None \<Rightarrow> es = 0 \<and> ed = [] | Some h \<Rightarrow> hs_seq h = es \<and> hs_digest h = ed))"
  by (auto simp: CompareAndSwap_def check_cas_def Let_def split: option.splits if_splits sum.splits)

lemma Enqueue_cases:
  "Enqueue rec s = (r, s') \<Longrightarrow>
     (case r of Inl e \<Rightarrow> s' = s
      | Inr _ \<Rightarrow> (case map_of (ms_outbox s) (ob_key rec) of
                    None \<Rightarrow> s' = s\<lparr>ms_outbox := gput (ob_key rec) rec (ms_outbox s)\<rparr>
                  | Some prior \<Rightarrow> s' = s \<and> same_binding prior rec))"
  by (auto simp: Enqueue_def split: option.splits if_splits)

lemma Record_cases:
  "Record rec s = (r, s') \<Longrightarrow>
     (case r of Inl e \<Rightarrow> s' = s
      | Inr _ \<Rightarrow> (case map_of (ms_idem s) (ir_key rec) of
                    None \<Rightarrow> s' = s\<lparr>ms_idem := gput (ir_key rec) rec (ms_idem s)\<rparr>
                  | Some prior \<Rightarrow> s' = s \<and> ir_digest prior = ir_digest rec))"
  by (cases rec) (auto simp: Record_def split: option.splits if_splits)


definition put_staged :: "stagedContent \<Rightarrow> bool" where
  "put_staged put = (sc_digest put = DigestBytes (sc_canonical put))"

definition put_there :: "stagedContent \<Rightarrow> MemoryStore \<Rightarrow> bool" where
  "put_there put s = (map_of (ms_content s) (sc_digest put) \<noteq> None)"

definition entry_there :: "Entry \<Rightarrow> MemoryStore \<Rightarrow> bool" where
  "entry_there e s = (e \<in> set (entries_at s (ledgerKey (en_ledger e) (en_stream e))))"

definition outbox_there :: "OutboxRecord \<Rightarrow> MemoryStore \<Rightarrow> bool" where
  "outbox_there rec s = (\<exists>r. map_of (ms_outbox s) (ob_key rec) = Some r \<and> same_binding r rec)"

definition idem_there :: "IdempotencyRecord \<Rightarrow> MemoryStore \<Rightarrow> bool" where
  "idem_there rec s = (\<exists>r. map_of (ms_idem s) (ir_key rec) = Some r \<and> ir_digest r = ir_digest rec)"

lemma store_ok_other [simp]:
  "store_ok (s\<lparr>ms_idem := i\<rparr>) = store_ok s" "store_ok (s\<lparr>ms_heads := h\<rparr>) = store_ok s" "store_ok (s\<lparr>ms_outbox := b\<rparr>) = store_ok s"
  by (simp_all add: store_ok_def)

lemma map_le_fresh: "m k = None \<Longrightarrow> m \<subseteq>\<^sub>m m(k \<mapsto> v)"
  by (auto simp: map_le_def)

lemma there_stays_all:
  "put_there p s \<Longrightarrow> extends s t \<Longrightarrow> put_there p t"
  "entry_there e s \<Longrightarrow> extends s t \<Longrightarrow> entry_there e t"
  "outbox_there r s \<Longrightarrow> extends s t \<Longrightarrow> outbox_there r t"
  "idem_there i s \<Longrightarrow> extends s t \<Longrightarrow> idem_there i t"
proof -
  show "put_there p s \<Longrightarrow> extends s t \<Longrightarrow> put_there p t"
    by (auto simp: put_there_def extends_def map_le_def dom_def)
  show "entry_there e s \<Longrightarrow> extends s t \<Longrightarrow> entry_there e t"
    by (auto simp: entry_there_def extends_def dest: set_mono_prefix)
  show "outbox_there r s \<Longrightarrow> extends s t \<Longrightarrow> outbox_there r t"
    by (fastforce simp: outbox_there_def extends_def same_binding_def dest: outbox_kept_binding)
  show "idem_there i s \<Longrightarrow> extends s t \<Longrightarrow> idem_there i t"
    by (force simp: idem_there_def extends_def map_le_def dom_def)
qed

interpretation puts: compensated "apply_put reg" put_staged put_there for reg
proof
  fix s x us s'
  assume ok: "store_ok s" and st: "put_staged x" and w: "apply_put reg x s = (Inr us, s')"
  show "store_ok s' \<and> same (unwind us s') s"
    using ok st w by (auto simp: apply_put_def Put_def Get_def Let_def put_staged_def has_key_map_of same_def store_ok_def
        undoContentPut_def gdel_gput split: if_splits)
  show "extends s s' \<and> put_there x s'"
    using st w by (auto simp: apply_put_def Put_def Let_def put_staged_def has_key_map_of put_there_def extends_def
        intro!: map_le_fresh split: if_splits)
next
  fix s x e s'
  assume "store_ok s" "put_staged x" "apply_put reg x s = (Inl e, s')"
  then show "same s' s" by (auto simp: apply_put_def Put_def Let_def put_staged_def split: if_splits)
qed (rule there_stays_all)

interpretation swaps: compensated apply_cas "\<lambda>_. True" "\<lambda>_ _. True"
proof
  fix s x us s'
  assume ok: "store_ok s" and w: "apply_cas x s = (Inr us, s')"
  let ?k = "headKey (cas_kind x) (cas_key x)"
  obtain u where cas: "CompareAndSwap (cas_kind x) (cas_key x) (cas_expected_seq x) (cas_expected_digest x) (cas_new_seq x) (cas_new_digest x) s = (Inr u, s')"
    and us: "us = [UndoHeadCAS (cas_kind x) (cas_key x) (map_of (ms_heads s) ?k)]"
    using w by (auto simp: apply_cas_def GetHead_def split: sum.splits prod.splits if_splits)
  have s': "s' = s\<lparr>ms_heads := gput ?k \<lparr>hs_seq = cas_new_seq x, hs_digest = cas_new_digest x\<rparr> (ms_heads s)\<rparr>"
    using CompareAndSwap_cases [OF cas] by simp
  show "store_ok s' \<and> same (unwind us s') s"
    unfolding s' us using ok by (auto simp: undoHeadCAS_def same_def gdel_gput gput_gput gput_same split: option.split)
  show "extends s s' \<and> True" unfolding s' by (simp add: extends_def)
next
  fix s x e s'
  assume "apply_cas x s = (Inl e, s')"
  then show "same s' s"
    by (auto simp: apply_cas_def dest!: CompareAndSwap_cases split: sum.splits prod.splits)
qed simp

interpretation appends: compensated apply_append "\<lambda>_. True" entry_there
proof
  fix s x us s'
  assume ok: "store_ok s" and w: "apply_append x s = (Inr us, s')"
  let ?k = "ledgerKey (en_ledger x) (en_stream x)"
  have num: "numbered (entries_at s ?k)" using ok by (simp add: store_ok_def)
  obtain u where app: "Append x s = (Inr u, s')"
    and us: "us = (if en_seq x = word_of_nat (length (entries_at s ?k)) + 1 then [UndoAppend x] else [])"
    using w head_sequence_numbered [OF num] by (auto simp: apply_append_def Head_def Let_def split: sum.splits prod.splits if_splits)
  note cs = Append_cases [OF app]
  show "store_ok s' \<and> same (unwind us s') s"
    using cs ok numbered_snoc [OF num] unfolding us by (auto simp: store_ok_def same_def undoAppend_def Let_def gput_gput)
  show "extends s s' \<and> entry_there x s'"
    using cs by (auto simp: extends_def entry_there_def)
next
  fix s x e s'
  assume "apply_append x s = (Inl e, s')"
  then show "same s' s" by (auto simp: apply_append_def dest!: Append_fail split: sum.splits prod.splits)
qed (rule there_stays_all)

interpretation enqueues: compensated "apply_outbox reg overlay" "\<lambda>_. True" outbox_there for reg overlay
proof
  fix s x us s'
  assume ok: "store_ok s" and w: "apply_outbox reg overlay x s = (Inr us, s')"
  obtain u where enq: "Enqueue x s = (Inr u, s')"
    and us: "us = (if map_of (ms_outbox s) (ob_key x) \<noteq> None then [] else [UndoOutbox (ob_key x)])"
    using w by (auto simp: apply_outbox_def GetOutbox_def Let_def split: sum.splits prod.splits if_splits)
  note cs = Enqueue_cases [OF enq]
  show "store_ok s' \<and> same (unwind us s') s"
    using cs ok unfolding us by (auto simp: same_def undoOutbox_def gdel_gput split: option.splits)
  show "extends s s' \<and> outbox_there x s'"
    using cs by (auto simp: extends_def outbox_there_def same_binding_def split: option.splits)
next
  fix s x e s'
  assume "apply_outbox reg overlay x s = (Inl e, s')"
  then show "same s' s" by (auto simp: apply_outbox_def Let_def dest!: Enqueue_cases split: sum.splits prod.splits if_splits)
qed (rule there_stays_all)

interpretation records: compensated apply_idem "\<lambda>_. True" idem_there
proof
  fix s x us s'
  assume ok: "store_ok s" and w: "apply_idem x s = (Inr us, s')"
  obtain u where rec: "Record x s = (Inr u, s')"
    and us: "us = (if map_of (ms_idem s) (ir_key x) \<noteq> None then [] else [UndoIdempotency (ir_key x)])"
    using w by (auto simp: apply_idem_def LookupIdem_def Let_def split: sum.splits prod.splits if_splits)
  note cs = Record_cases [OF rec]
  show "store_ok s' \<and> same (unwind us s') s"
    using cs ok unfolding us by (auto simp: same_def undoIdempotency_def gdel_gput split: option.splits)
  show "extends s s' \<and> idem_there x s'"
    using cs by (auto simp: extends_def idem_there_def intro!: map_le_fresh split: option.splits)
next
  fix s x e s'
  assume "apply_idem x s = (Inl e, s')"
  then show "same s' s" by (auto simp: apply_idem_def Let_def dest!: Record_cases split: sum.splits prod.splits if_splits)
qed (rule there_stays_all)


subsection \<open>The staged write set\<close>

text \<open>
  The operations a transaction callback may call, and the write sets they build: each call may read another store, since
  other transactions commit while the callback runs.
\<close>

datatype tx_op =
    OpPutContent string
  | OpAppendEvent string string string string
  | OpAppendEntry Entry string
  | OpCompareAndSwapHead stagedCAS
  | OpEnqueueOutbox OutboxRecord
  | OpRecordIdempotency string string string

fun run_op :: "registry \<Rightarrow> MemoryStore \<Rightarrow> tx_op \<Rightarrow> Tx \<Rightarrow> Tx" where
  "run_op reg s (OpPutContent payload) tx = snd (PutContent reg payload tx)"
| "run_op reg s (OpAppendEvent kind stream eventID payload) tx = snd (AppendEvent reg s kind stream eventID payload tx)"
| "run_op reg s (OpAppendEntry entry payload) tx = snd (AppendEntry reg entry payload tx)"
| "run_op reg s (OpCompareAndSwapHead op) tx = snd (CompareAndSwapHead reg op tx)"
| "run_op reg s (OpEnqueueOutbox rec) tx = snd (EnqueueOutbox reg s rec tx)"
| "run_op reg s (OpRecordIdempotency key digest outcome) tx = snd (RecordIdempotency reg s key digest outcome tx)"

inductive staged_from :: "registry \<Rightarrow> Tx \<Rightarrow> Tx \<Rightarrow> bool" for reg tx0 where
  begin_tx: "staged_from reg tx0 tx0"
| stage: "staged_from reg tx0 tx \<Longrightarrow> staged_from reg tx0 (run_op reg s op tx)"

abbreviation staged :: "registry \<Rightarrow> Tx \<Rightarrow> bool" where
  "staged reg \<equiv> staged_from reg new_tx"

text \<open>An entry was validated: some payload passed the checks of its ledger under its identity, and has its digest.\<close>

definition validated :: "registry \<Rightarrow> Entry \<Rightarrow> bool" where
  "validated reg e = (\<exists>payload canonical. validateEventPayload reg (en_ledger e) (en_event e) (en_seq e) payload = Inr (canonical, en_digest e))"

definition tx_ok :: "registry \<Rightarrow> Tx \<Rightarrow> bool" where
  "tx_ok reg tx = ((\<forall>put \<in> set (tx_puts tx). put_staged put) \<and>
     (\<forall>e \<in> set (tx_appends tx). validated reg e \<and> (\<exists>put \<in> set (tx_puts tx). sc_digest put = en_digest e)) \<and>
     (\<forall>rec \<in> set (tx_outbox tx). ob_ledger rec = LedgerActivation))"

lemma canonicalize_digest: "canonicalize reg payload = Inr (canonical, digest, ob) \<Longrightarrow> digest = DigestBytes canonical"
  by (auto simp: canonicalize_def split: sum.splits go_error.splits)

lemma validate_Inr:
  "validateEventPayload reg kind eid sq payload = Inr (canonical, digest) \<longleftrightarrow>
     (\<exists>spec ob. map_of ledgerKinds kind = Some spec \<and> canonicalize reg payload = Inr (canonical, digest, Some ob) \<and>
        str_or_empty (gidx ob ''schema_version'') \<in> set (payloadSchemas spec) \<and>
        (\<forall>ident. AsString (gidx ob ''event_id'') = Some ident \<longrightarrow> ident = eid) \<and>
        check_sequence_field reg ob sq ''event_sequence'' = Inr () \<and> check_sequence_field reg ob sq ''activation_sequence'' = Inr () \<and>
        check_state_edge reg ob (str_or_empty (gidx ob ''schema_version'')) = Inr ())"
proof (cases "map_of ledgerKinds kind")
  case (Some spec)
  show ?thesis
  proof (cases "canonicalize reg payload")
    case (Inr r)
    obtain c d ob where r: "r = (c, d, ob)" by (cases r) auto
    show ?thesis
    proof (cases ob)
      case (Some fs)
      show ?thesis unfolding validateEventPayload_def Let_def and_then_Inr \<open>map_of ledgerKinds kind = Some spec\<close> Inr r Some
        by (cases "AsString (gidx fs ''event_id'')") (auto simp: and_then_Inr check_Inr for_each_Inr simp del: for_each.simps)
    qed (simp add: validateEventPayload_def Some Inr r)
  qed (simp add: validateEventPayload_def Some)
qed (simp add: validateEventPayload_def)

lemma validate_digest: "validateEventPayload reg kind eid sq payload = Inr (canonical, digest) \<Longrightarrow> digest = DigestBytes canonical"
  unfolding validate_Inr by (blast dest: canonicalize_digest)

lemma stageContent_sets:
  "tx_appends (stageContent d c tx) = tx_appends tx" "tx_outbox (stageContent d c tx) = tx_outbox tx"
  "set (tx_puts tx) \<subseteq> set (tx_puts (stageContent d c tx))" "\<exists>put \<in> set (tx_puts (stageContent d c tx)). sc_digest put = d"
  "tx_replay (stageContent d c tx) = tx_replay tx"
  by (auto simp: stageContent_def)

lemma tx_ok_stageContent:
  assumes "tx_ok reg tx" "d = DigestBytes c"
  shows "tx_ok reg (stageContent d c tx)"
  using assms unfolding tx_ok_def stageContent_def by (auto simp: put_staged_def)

lemma tx_ok_append:
  assumes "tx_ok reg tx" "validated reg e" "d = DigestBytes c" "en_digest e = d"
  shows "tx_ok reg ((stageContent d c tx)\<lparr>tx_appends := tx_appends (stageContent d c tx) @ [e]\<rparr>)"
  using tx_ok_stageContent [OF assms(1,3)] assms(2,4) stageContent_sets(4) [of d c tx] unfolding tx_ok_def by auto

lemma run_op_ok: "tx_ok reg tx \<Longrightarrow> tx_ok reg (run_op reg s op tx)"
proof (cases op)
  case (OpPutContent payload)
  moreover assume "tx_ok reg tx"
  ultimately show ?thesis
    by (auto simp: PutContent_def tx_ok_stageContent dest: canonicalize_digest split: sum.splits prod.splits)
next
  case (OpAppendEvent kind stream eid payload)
  moreover assume "tx_ok reg tx"
  ultimately show ?thesis
    by (fastforce simp: AppendEvent_def Let_def validated_def split: sum.splits prod.splits intro!: tx_ok_append dest: validate_digest)
next
  case (OpAppendEntry entry payload)
  moreover assume "tx_ok reg tx"
  ultimately show ?thesis
    by (fastforce simp: AppendEntry_def Let_def validated_def and_then_Inr check_Inr split: sum.splits prod.splits option.splits
        intro!: tx_ok_append dest: validate_digest)
next
  case (OpCompareAndSwapHead op')
  moreover assume "tx_ok reg tx"
  ultimately show ?thesis by (auto simp: CompareAndSwapHead_def tx_ok_def)
next
  case (OpEnqueueOutbox rec)
  moreover assume "tx_ok reg tx"
  ultimately show ?thesis by (auto simp: EnqueueOutbox_def tx_ok_def split: option.splits)
next
  case (OpRecordIdempotency key digest outcome)
  moreover assume "tx_ok reg tx"
  ultimately show ?thesis by (auto simp: RecordIdempotency_def tx_ok_def split: option.splits)
qed

lemma staged_ok: "staged reg tx \<Longrightarrow> tx_ok reg tx"
  by (induction rule: staged_from.induct) (simp_all add: run_op_ok, simp add: tx_ok_def new_tx_def)


subsection \<open>Commit\<close>

lemma then_phase_reverts:
  assumes "reverts s r" "\<And>us s1. \<lbrakk>store_ok s1; same (unwind us s1) s\<rbrakk> \<Longrightarrow> reverts s (f us s1)"
  shows "reverts s (then_phase r f)"
  using assms by (cases r rule: prod_cases3) (auto simp: then_phase_def reverts_def split: option.split)

lemma then_phase_None:
  "then_phase r f = (None, us', s') \<longleftrightarrow> (\<exists>us s. r = (None, us, s) \<and> f us s = (None, us', s'))"
  by (cases r rule: prod_cases3) (auto simp: then_phase_def split: option.split)

lemma apply_tx_reverts:
  assumes "store_ok s" "tx_ok reg tx"
  shows "reverts s (apply_tx reg tx s)"
  using assms unfolding apply_tx_def tx_ok_def
  by (intro then_phase_reverts puts.apply_all_reverts swaps.apply_all_reverts appends.apply_all_reverts enqueues.apply_all_reverts
      records.apply_all_reverts) simp_all

lemma apply_all_inv:
  "\<lbrakk>apply_all w xs us s = (None, us', s'); P s; \<And>x s us s'. \<lbrakk>x \<in> set xs; P s; w x s = (Inr us, s')\<rbrakk> \<Longrightarrow> P s'\<rbrakk> \<Longrightarrow> P s'"
proof (induction xs arbitrary: us s)
  case (Cons x xs)
  obtain r1 s1 where w: "w x s = (r1, s1)" by (cases "w x s")
  with Cons.prems(1) obtain us1 where r1: "r1 = Inr us1" and rest: "apply_all w xs (us @ us1) s1 = (None, us', s')" by (cases r1) auto
  have "P s1" using Cons.prems(2,3) w r1 by auto
  from Cons.IH [OF rest this] Cons.prems(3) show ?case by auto
qed simp

text \<open>The phases of a successful commit.\<close>

lemma apply_tx_phases:
  assumes "store_ok s" "tx_ok reg tx" "apply_tx reg tx s = (None, us, s')"
  obtains us1 s1 us2 s2 us3 s3 us4 s4 where
    "apply_all (apply_put reg) (tx_puts tx) [] s = (None, us1, s1)" "apply_all apply_cas (tx_cas tx) us1 s1 = (None, us2, s2)"
    "apply_all apply_append (tx_appends tx) us2 s2 = (None, us3, s3)"
    "apply_all (apply_outbox reg (overlay_of (tx_appends tx))) (tx_outbox tx) us3 s3 = (None, us4, s4)"
    "apply_all apply_idem (tx_idem tx) us4 s4 = (None, us, s')"
    "store_ok s1" "store_ok s2" "store_ok s3" "store_ok s4" "store_ok s'"
    "extends s s1" "extends s1 s2" "extends s2 s3" "extends s3 s4" "extends s4 s'"
    "\<forall>put \<in> set (tx_puts tx). put_there put s1" "\<forall>e \<in> set (tx_appends tx). entry_there e s3"
    "\<forall>rec \<in> set (tx_outbox tx). outbox_there rec s4" "\<forall>rec \<in> set (tx_idem tx). idem_there rec s'"
proof -
  from assms(3) obtain us1 s1 us2 s2 us3 s3 us4 s4 where ph:
    "apply_all (apply_put reg) (tx_puts tx) [] s = (None, us1, s1)" "apply_all apply_cas (tx_cas tx) us1 s1 = (None, us2, s2)"
    "apply_all apply_append (tx_appends tx) us2 s2 = (None, us3, s3)"
    "apply_all (apply_outbox reg (overlay_of (tx_appends tx))) (tx_outbox tx) us3 s3 = (None, us4, s4)"
    "apply_all apply_idem (tx_idem tx) us4 s4 = (None, us, s')"
    unfolding apply_tx_def then_phase_None by blast
  have puts_ok: "\<forall>put \<in> set (tx_puts tx). put_staged put" using assms(2) by (simp add: tx_ok_def)
  note p1 = puts.apply_all_undo [OF assms(1) puts_ok ph(1)] puts.apply_all_there [OF assms(1) puts_ok ph(1)]
  then have ok1: "store_ok s1" by blast
  note p2 = swaps.apply_all_undo [OF ok1 _ ph(2)] swaps.apply_all_there [OF ok1 _ ph(2)]
  then have ok2: "store_ok s2" by blast
  note p3 = appends.apply_all_undo [OF ok2 _ ph(3)] appends.apply_all_there [OF ok2 _ ph(3)]
  then have ok3: "store_ok s3" by blast
  note p4 = enqueues.apply_all_undo [OF ok3 _ ph(4)] enqueues.apply_all_there [OF ok3 _ ph(4)]
  then have ok4: "store_ok s4" by blast
  note p5 = records.apply_all_undo [OF ok4 _ ph(5)] records.apply_all_there [OF ok4 _ ph(5)]
  then have ok5: "store_ok s'" by blast
  show thesis
    by (rule that [OF ph ok1 ok2 ok3 ok4 ok5]) (use p1 p2 p3 p4 p5 in blast)+
qed

definition swap_head :: "stagedCAS \<Rightarrow> headState gmap \<Rightarrow> headState gmap" where
  "swap_head op = gput (headKey (cas_kind op) (cas_key op)) \<lparr>hs_seq = cas_new_seq op, hs_digest = cas_new_digest op\<rparr>"

lemma apply_cas_Inr:
  assumes "apply_cas op s = (Inr us, s')"
  shows "s' = s\<lparr>ms_heads := swap_head op (ms_heads s)\<rparr>" "cas_new_seq op = cas_expected_seq op + 1"
    "case map_of (ms_heads s) (headKey (cas_kind op) (cas_key op)) of
       None \<Rightarrow> cas_expected_seq op = 0 \<and> cas_expected_digest op = []
     | Some h \<Rightarrow> hs_seq h = cas_expected_seq op \<and> hs_digest h = cas_expected_digest op"
  using assms by (auto simp: apply_cas_def swap_head_def dest!: CompareAndSwap_cases split: sum.splits prod.splits)

lemma apply_all_heads: "apply_all apply_cas ops us s = (None, us', s') \<Longrightarrow> s' = s\<lparr>ms_heads := fold swap_head ops (ms_heads s)\<rparr>"
proof (induction ops arbitrary: us s)
  case (Cons op ops)
  then obtain us1 s1 where w: "apply_cas op s = (Inr us1, s1)" and rest: "apply_all apply_cas ops (us @ us1) s1 = (None, us', s')"
    by (auto split: sum.splits prod.splits)
  show ?case unfolding Cons.IH [OF rest] apply_cas_Inr(1) [OF w] by simp
qed simp

lemma apply_heads_kept:
  "apply_put reg p s = (r, s') \<Longrightarrow> ms_heads s' = ms_heads s" "apply_append e s = (r', s') \<Longrightarrow> ms_heads s' = ms_heads s"
  "apply_outbox reg ov b s = (r', s') \<Longrightarrow> ms_heads s' = ms_heads s" "apply_idem i s = (r', s') \<Longrightarrow> ms_heads s' = ms_heads s"
  by (auto simp: apply_put_def apply_append_def apply_outbox_def apply_idem_def Put_def Append_def Enqueue_def Record_def Let_def
      split: if_splits sum.splits prod.splits option.splits)

text \<open>What a commit does: nothing that can be seen, or everything that was staged.\<close>

definition written :: "Tx \<Rightarrow> MemoryStore \<Rightarrow> MemoryStore \<Rightarrow> bool" where
  "written tx s s' = (extends s s' \<and> ms_heads s' = fold swap_head (tx_cas tx) (ms_heads s) \<and>
     (\<forall>put \<in> set (tx_puts tx). put_there put s') \<and> (\<forall>e \<in> set (tx_appends tx). entry_there e s') \<and>
     (\<forall>rec \<in> set (tx_outbox tx). outbox_there rec s') \<and> (\<forall>rec \<in> set (tx_idem tx). idem_there rec s'))"

lemma apply_tx_written:
  assumes "store_ok s" "tx_ok reg tx" "apply_tx reg tx s = (None, us, s')"
  shows "written tx s s'"
proof -
  obtain us1 s1 us2 s2 us3 s3 us4 s4 where ph:
    "apply_all (apply_put reg) (tx_puts tx) [] s = (None, us1, s1)" "apply_all apply_cas (tx_cas tx) us1 s1 = (None, us2, s2)"
    "apply_all apply_append (tx_appends tx) us2 s2 = (None, us3, s3)"
    "apply_all (apply_outbox reg (overlay_of (tx_appends tx))) (tx_outbox tx) us3 s3 = (None, us4, s4)"
    "apply_all apply_idem (tx_idem tx) us4 s4 = (None, us, s')"
    and ext: "extends s s1" "extends s1 s2" "extends s2 s3" "extends s3 s4" "extends s4 s'"
    and there: "\<forall>put \<in> set (tx_puts tx). put_there put s1" "\<forall>e \<in> set (tx_appends tx). entry_there e s3"
      "\<forall>rec \<in> set (tx_outbox tx). outbox_there rec s4" "\<forall>rec \<in> set (tx_idem tx). idem_there rec s'"
    by (rule apply_tx_phases [OF assms]) blast
  have h1: "ms_heads s1 = ms_heads s"
    by (rule apply_all_inv [OF ph(1), where P = "\<lambda>t. ms_heads t = ms_heads s"]) (auto dest: apply_heads_kept)
  have h2: "ms_heads s2 = fold swap_head (tx_cas tx) (ms_heads s1)" using apply_all_heads [OF ph(2)] by simp
  have h3: "ms_heads s3 = ms_heads s2"
    by (rule apply_all_inv [OF ph(3), where P = "\<lambda>t. ms_heads t = ms_heads s2"]) (auto dest: apply_heads_kept)
  have h4: "ms_heads s4 = ms_heads s3"
    by (rule apply_all_inv [OF ph(4), where P = "\<lambda>t. ms_heads t = ms_heads s3"]) (auto dest: apply_heads_kept)
  have h5: "ms_heads s' = ms_heads s4"
    by (rule apply_all_inv [OF ph(5), where P = "\<lambda>t. ms_heads t = ms_heads s4"]) (auto dest: apply_heads_kept)
  from ext have later: "extends s s'" "extends s1 s'" "extends s3 s'" by (blast intro: extends_trans)+
  with there h1 h2 h3 h4 h5 ext show ?thesis unfolding written_def using there_stays_all by auto
qed

lemma commit_cases:
  assumes "store_ok s" "tx_ok reg tx" "commit reg tx s = (r, s')"
  shows "store_ok s' \<and>
    (case r of Inl e \<Rightarrow> same s' s
     | Inr _ \<Rightarrow> if tx_replay tx then s' = s \<and> \<not> hasWrites tx else written tx s s' \<and> (\<exists>us. apply_tx reg tx s = (None, us, s')))"
proof (cases "tx_replay tx")
  case True
  with assms show ?thesis by (auto simp: commit_def split: if_splits)
next
  case False
  obtain r1 us s1 where ap: "apply_tx reg tx s = (r1, us, s1)" by (cases "apply_tx reg tx s") auto
  have rev: "store_ok s1" "same (unwind us s1) s" using apply_tx_reverts [OF assms(1,2)] ap by (simp_all add: reverts_def)
  show ?thesis
  proof (cases r1)
    case None
    with assms(3) False ap have "r = Inr ()" "s' = s1" by (simp_all add: commit_def)
    with apply_tx_written [OF assms(1,2)] ap None False rev show ?thesis by auto
  next
    case (Some e)
    with assms(3) False ap have "r = Inl e" "s' = unwind us s1" by (simp_all add: commit_def)
    with rev(2) same_store_ok [OF same_sym [OF rev(2)] assms(1)] show ?thesis by simp
  qed
qed


subsection \<open>The ledger as a system\<close>

text \<open>
  What happens to a store: commits of write sets that were staged at any earlier times, deliveries by the projector, and its own
  swaps of the projection head. Committing under the lock makes the commits a sequence.
\<close>

inductive ledger_step :: "registry \<Rightarrow> MemoryStore \<Rightarrow> MemoryStore \<Rightarrow> bool" for reg where
  commits: "staged reg tx \<Longrightarrow> ledger_step reg s (snd (commit reg tx s))"
| delivers: "ledger_step reg s (snd (MarkDelivered key sq digest s))"
| swaps: "ledger_step reg s (snd (CompareAndSwap ''projection'' key es ed ns nd s))"

inductive_cases ledger_stepE: "ledger_step reg s s'"

definition backed :: "registry \<Rightarrow> MemoryStore \<Rightarrow> bool" where
  "backed reg s = ((\<forall>key. \<forall>e \<in> set (entries_at s key). ledgerKey (en_ledger e) (en_stream e) = key \<and> validated reg e \<and>
       map_of (ms_content s) (en_digest e) \<noteq> None) \<and>
     (\<forall>k r. map_of (ms_outbox s) k = Some r \<longrightarrow>
        (\<exists>e \<in> set (entries_at s (ledgerKey LedgerActivation [])). en_seq e = ob_seq r \<and> en_digest e = ob_digest r)))"

definition ledger_ok :: "registry \<Rightarrow> MemoryStore \<Rightarrow> bool" where
  "ledger_ok reg s = (store_ok s \<and> backed reg s)"

lemma MarkDelivered_cases:
  assumes "MarkDelivered key sq digest s = (r, s')"
  shows "s' = s \<or> (\<exists>rec. map_of (ms_outbox s) key = Some rec \<and>
    s' = s\<lparr>ms_outbox := gput key (rec\<lparr>ob_state := OutboxDelivered\<rparr>) (ms_outbox s)\<rparr>)"
  using assms by (auto simp: MarkDelivered_def split: option.splits if_splits)

lemma same_backed: "same s t \<Longrightarrow> backed reg s \<Longrightarrow> backed reg t"
  by (simp add: same_def backed_def)

lemma backed_put: "backed reg s \<Longrightarrow> apply_put reg p s = (Inr us, s') \<Longrightarrow> backed reg s'"
  by (fastforce simp: apply_put_def Put_def Let_def backed_def split: if_splits)

lemma backed_heads: "backed reg (s\<lparr>ms_heads := h\<rparr>) = backed reg s"
  by (simp add: backed_def)

lemma backed_idem: "backed reg s \<Longrightarrow> apply_idem i s = (Inr us, s') \<Longrightarrow> backed reg s'"
  by (auto simp: apply_idem_def Record_def Let_def backed_def split: if_splits sum.splits prod.splits option.splits)

lemma apply_append_Append: "apply_append e s = (Inr us, s') \<Longrightarrow> Append e s = (Inr (), s')"
  by (auto simp: apply_append_def split: sum.splits prod.splits)

lemma backed_append:
  assumes "backed reg s" "apply_append e s = (Inr us, s')" "validated reg e" "map_of (ms_content s) (en_digest e) \<noteq> None"
  shows "backed reg s'" "ms_content s' = ms_content s"
  using Append_cases [OF apply_append_Append [OF assms(2)]] assms(1,3,4) by (auto simp: backed_def split: if_splits)

lemma overlay_lookup:
  "(case map_of (overlay_of es) key of None \<Rightarrow> [] | Some fs \<Rightarrow> fs) = filter (\<lambda>e. ledgerKey (en_ledger e) (en_stream e) = key) es"
proof -
  let ?step = "\<lambda>entry (m :: (Entry list) gmap). let key = ledgerKey (en_ledger entry) (en_stream entry) in
       gput key ((case map_of m key of None \<Rightarrow> [] | Some es \<Rightarrow> es) @ [entry]) m"
  have "(case map_of (fold ?step es m) key of None \<Rightarrow> [] | Some fs \<Rightarrow> fs) =
      (case map_of m key of None \<Rightarrow> [] | Some fs \<Rightarrow> fs) @ filter (\<lambda>e. ledgerKey (en_ledger e) (en_stream e) = key) es" for m
    by (induction es arbitrary: m) (simp_all add: Let_def)
  from this [of "[]"] show ?thesis unfolding overlay_of_def by simp
qed

lemma outboxResolves_entry:
  assumes "store_ok s" "outboxResolves s (overlay_of es) rec" "\<forall>e \<in> set es. entry_there e s"
  shows "\<exists>e \<in> set (entries_at s (ledgerKey (ob_ledger rec) [])). en_seq e = ob_seq rec \<and> en_digest e = ob_digest rec"
proof (cases "find (\<lambda>entry. en_seq entry = ob_seq rec) (filter (\<lambda>e. ledgerKey (en_ledger e) (en_stream e) = ledgerKey (ob_ledger rec) []) es)")
  case None
  let ?es = "entries_at s (ledgerKey (ob_ledger rec) [])"
  from None assms(2) obtain e where "EntryAt s (ob_ledger rec) [] (ob_seq rec) = Inr (Some e)" and digest: "en_digest e = ob_digest rec"
    by (auto simp: outboxResolves_def overlay_lookup split: sum.splits option.splits)
  then have "ob_seq rec \<noteq> 0" "ob_seq rec \<le> word_of_nat (length ?es)" and e: "e = ?es ! unat (ob_seq rec - 1)"
    by (auto simp: EntryAt_def Let_def not_less split: if_splits)
  note i = slot_index [OF this(1,2)]
  have "unat (en_seq e) = unat (ob_seq rec)" using assms(1) i unfolding e by (simp add: store_ok_def numbered_def)
  with digest show ?thesis using nth_mem [OF i(1)] unfolding e [symmetric] by (metis unsigned_word_eqI)
next
  case (Some e)
  then have "e \<in> set es" "ledgerKey (en_ledger e) (en_stream e) = ledgerKey (ob_ledger rec) []" "en_seq e = ob_seq rec"
    by (auto simp: find_Some_iff dest: nth_mem)
  with assms(3) have "e \<in> set (entries_at s (ledgerKey (ob_ledger rec) []))" by (simp add: entry_there_def) metis
  with Some assms(2) \<open>en_seq e = ob_seq rec\<close> show ?thesis by (auto simp: outboxResolves_def overlay_lookup)
qed

lemma backed_outbox:
  assumes "store_ok s" "backed reg s" "\<forall>e \<in> set es. entry_there e s" "apply_outbox reg (overlay_of es) rec s = (Inr us, s')"
    "ob_ledger rec = LedgerActivation"
  shows "backed reg s'" "entries_at s' = entries_at s" "store_ok s'"
proof -
  obtain u where enq: "Enqueue rec s = (Inr u, s')" and res: "outboxResolves s (overlay_of es) rec"
    using assms(4) by (auto simp: apply_outbox_def Let_def split: if_splits sum.splits prod.splits)
  have out: "s' = s \<or> s' = s\<lparr>ms_outbox := gput (ob_key rec) rec (ms_outbox s)\<rparr>"
    using Enqueue_cases [OF enq] by (auto split: option.splits)
  with outboxResolves_entry [OF assms(1) res assms(3)] assms(2,5) show "backed reg s'" by (auto simp: backed_def split: if_splits)
  from out assms(1) show "entries_at s' = entries_at s" "store_ok s'" by auto
qed

lemma backed_commit:
  assumes "store_ok s" "tx_ok reg tx" "backed reg s" "apply_tx reg tx s = (None, us, s')"
  shows "backed reg s'"
proof -
  obtain us1 s1 us2 s2 us3 s3 us4 s4 where ph:
    "apply_all (apply_put reg) (tx_puts tx) [] s = (None, us1, s1)" "apply_all apply_cas (tx_cas tx) us1 s1 = (None, us2, s2)"
    "apply_all apply_append (tx_appends tx) us2 s2 = (None, us3, s3)"
    "apply_all (apply_outbox reg (overlay_of (tx_appends tx))) (tx_outbox tx) us3 s3 = (None, us4, s4)"
    "apply_all apply_idem (tx_idem tx) us4 s4 = (None, us, s')"
    and ok: "store_ok s3" and there: "\<forall>put \<in> set (tx_puts tx). put_there put s1" "\<forall>e \<in> set (tx_appends tx). entry_there e s3"
    by (rule apply_tx_phases [OF assms(1,2,4)]) blast
  have b1: "backed reg s1" by (rule apply_all_inv [where P = "backed reg", OF ph(1) assms(3)]) (rule backed_put)
  have s2: "s2 = s1\<lparr>ms_heads := fold swap_head (tx_cas tx) (ms_heads s1)\<rparr>" by (rule apply_all_heads [OF ph(2)])
  have valid: "validated reg e \<and> map_of (ms_content s2) (en_digest e) \<noteq> None" if "e \<in> set (tx_appends tx)" for e
    using assms(2) there(1) that unfolding s2 by (fastforce simp: tx_ok_def put_there_def)
  have "backed reg s3 \<and> ms_content s3 = ms_content s2"
  proof (rule apply_all_inv [where P = "\<lambda>t. backed reg t \<and> ms_content t = ms_content s2", OF ph(3)])
    show "backed reg s2 \<and> ms_content s2 = ms_content s2" using b1 by (simp add: s2 backed_heads)
    fix e t us t'
    assume e: "e \<in> set (tx_appends tx)" and t: "backed reg t \<and> ms_content t = ms_content s2" "apply_append e t = (Inr us, t')"
    with valid [OF e] show "backed reg t' \<and> ms_content t' = ms_content s2" using backed_append [of reg t e us t'] by simp
  qed
  then have b3: "backed reg s3" ..
  have led: "ob_ledger rec = LedgerActivation" if "rec \<in> set (tx_outbox tx)" for rec using assms(2) that by (simp add: tx_ok_def)
  have "backed reg s4 \<and> store_ok s4 \<and> (\<forall>e \<in> set (tx_appends tx). entry_there e s4)"
  proof (rule apply_all_inv [where P = "\<lambda>t. backed reg t \<and> store_ok t \<and> (\<forall>e \<in> set (tx_appends tx). entry_there e t)", OF ph(4)])
    fix rec t us t'
    assume rec: "rec \<in> set (tx_outbox tx)" and t: "backed reg t \<and> store_ok t \<and> (\<forall>e \<in> set (tx_appends tx). entry_there e t)"
      and w: "apply_outbox reg (overlay_of (tx_appends tx)) rec t = (Inr us, t')"
    from t have "store_ok t" "backed reg t" "\<forall>e \<in> set (tx_appends tx). entry_there e t" by simp_all
    from backed_outbox [OF this w led [OF rec]] t show "backed reg t' \<and> store_ok t' \<and> (\<forall>e \<in> set (tx_appends tx). entry_there e t')"
      by (simp add: entry_there_def)
  qed (use b3 ok there(2) in simp)
  then have "backed reg s4" by simp
  then show ?thesis by (rule apply_all_inv [where P = "backed reg", OF ph(5)]) (rule backed_idem)
qed

lemma ledger_ok_commit:
  assumes "ledger_ok reg s" "staged reg tx"
  shows "ledger_ok reg (snd (commit reg tx s))" "extends s (snd (commit reg tx s))"
proof -
  obtain r s' where c: "commit reg tx s = (r, s')" by (cases "commit reg tx s")
  have ok: "store_ok s" "backed reg s" using assms(1) by (simp_all add: ledger_ok_def)
  note cs = commit_cases [OF ok(1) staged_ok [OF assms(2)] c]
  have "backed reg s' \<and> extends s s'"
  proof (cases r)
    case (Inl e)
    with cs have "same s s'" using same_sym by simp
    with ok(2) show ?thesis using same_extends same_backed by blast
  next
    case (Inr u)
    with cs ok(2) show ?thesis using backed_commit [OF ok(1) staged_ok [OF assms(2)] ok(2)] by (auto simp: written_def split: if_splits)
  qed
  with cs c show "ledger_ok reg (snd (commit reg tx s))" "extends s (snd (commit reg tx s))" by (simp_all add: ledger_ok_def)
qed

lemma ledger_ok_step:
  assumes "ledger_ok reg s" "ledger_step reg s s'"
  shows "ledger_ok reg s' \<and> extends s s'"
  using assms(2)
proof (cases rule: ledger_step.cases)
  case (commits tx)
  with ledger_ok_commit [OF assms(1)] show ?thesis by simp
next
  case (delivers key sq digest)
  then have "MarkDelivered key sq digest s = (fst (MarkDelivered key sq digest s), s')" by simp
  from MarkDelivered_cases [OF this] assms(1) show ?thesis
    by (auto simp: ledger_ok_def backed_def extends_def outbox_kept_def split: if_splits)
next
  case (swaps key es ed ns nd)
  obtain r s1 where c: "CompareAndSwap ''projection'' key es ed ns nd s = (r, s1)"
    by (cases "CompareAndSwap ''projection'' key es ed ns nd s")
  with swaps have "s' = s1" by simp
  with CompareAndSwap_cases [OF c] assms(1) show ?thesis
    by (cases r) (auto simp: ledger_ok_def backed_heads extends_def)
qed

definition fresh_store :: "MemoryStore \<Rightarrow> bool" where
  "fresh_store s = (ms_ledgers s = [] \<and> ms_content s = [] \<and> ms_outbox s = [])"

lemma NewMemoryStore_fresh: "NewMemoryStore r = Inr s \<Longrightarrow> fresh_store s"
  by (auto simp: NewMemoryStore_def and_then_Inr fresh_store_def)

interpretation ledger: component fresh_store "ledger_step reg" "ledger_ok reg" for reg
proof
  show "fresh_store s \<Longrightarrow> ledger_ok reg s" for s
    by (simp add: fresh_store_def ledger_ok_def store_ok_def backed_def entries_at_def numbered_def)
qed (use ledger_ok_step in blast)

interpretation history: stable fresh_store "ledger_step reg" "ledger_ok reg" "extends s0" for reg s0
  by unfold_locales (use ledger_ok_step extends_trans in blast)

end
