(* ===== verification/Ledger_Promises.thy ===== *)
theory Ledger_Promises
  imports Ledger_Facts
begin

text \<open>
  The promises of the ledger as theorems over the operations of the code: atomic commits, an append-only history, entries backed by
  validated content, bound outbox records, exact compare-and-swap, and requests that are executed once; and the one retry
  that is executed twice.
\<close>

subsection \<open>Samples\<close>

definition any_registry :: registry where
  "any_registry = Some (\<lambda>_. Inr ())"

definition empty_store :: MemoryStore where
  "empty_store = \<lparr>ms_registry = any_registry, ms_ledgers = [], ms_content = [], ms_idem = [], ms_heads = [], ms_outbox = []\<rparr>"

definition digest_a :: string where
  "digest_a = ''sha256:'' @ replicate 64 (CHR ''a'')"

definition swap_a :: "string \<Rightarrow> stagedCAS" where
  "swap_a key = \<lparr>cas_kind = ''lineage-version'', cas_key = key, cas_expected_seq = 0, cas_expected_digest = [], cas_new_seq = 1, cas_new_digest = digest_a\<rparr>"

lemma new_store: "NewMemoryStore any_registry = Inr empty_store"
proof -
  have "verifyMappedReasonCodes any_registry = Inr ()"
    unfolding verifyMappedReasonCodes_def any_registry_def ledgerKinds_def headKinds_def AllLedgerKinds_def AllHeadKinds_def
    by (simp add: for_each_Inr)
  then show ?thesis by (simp add: NewMemoryStore_def empty_store_def)
qed

lemma digest_a_ok: "isValidDigest digest_a"
  unfolding digest_a_def by code_simp

lemma known_head: "map_of headKinds ''lineage-version'' = Some ReasonLineageVersionConflict"
  by (simp add: headKinds_def)

definition recorded_swap :: "string \<Rightarrow> MemoryStore \<Rightarrow> Tx" where
  "recorded_swap key s = run_op any_registry s (OpCompareAndSwapHead (swap_a key))
     (run_op any_registry s (OpRecordIdempotency ''request-1'' digest_a key) new_tx)"

lemma recorded_swap_staged: "staged any_registry (recorded_swap key s)"
  unfolding recorded_swap_def by (intro staged_from.intros)

lemma recorded_swap_commits:
  assumes "map_of (ms_idem s) ''request-1'' = None" "map_of (ms_heads t) (headKey ''lineage-version'' key) = None" "key \<noteq> []"
    "\<forall>r. map_of (ms_idem t) ''request-1'' = Some r \<longrightarrow> ir_digest r = digest_a"
  shows "fst (commit any_registry (recorded_swap key s) t) = Inr ()"
    "ms_heads (snd (commit any_registry (recorded_swap key s) t)) = swap_head (swap_a key) (ms_heads t)"
    "ms_idem (snd (commit any_registry (recorded_swap key s) t)) =
       (if map_of (ms_idem t) ''request-1'' = None then gput ''request-1'' \<lparr>ir_key = ''request-1'', ir_digest = digest_a, ir_outcome = key\<rparr> (ms_idem t)
        else ms_idem t)"
  using assms digest_a_ok known_head
  by (auto simp: recorded_swap_def RecordIdempotency_def LookupIdem_def new_tx_def CompareAndSwapHead_def swap_a_def commit_def apply_tx_def
      then_phase_def apply_cas_def GetHead_def CompareAndSwap_def check_cas_def Let_def apply_idem_def Record_def swap_head_def
      split: option.splits)


text \<open>A transaction that appends one activation event and enqueues its outbox record.\<close>

definition event_doc :: gv where
  "event_doc = GObject [(''schema_version'', GString SchemaActivationEvent)]"

definition sample_payload :: string where
  "sample_payload = out event_doc"

definition sample_outbox :: OutboxRecord where
  "sample_outbox = \<lparr>ob_key = digest_a, ob_ledger = LedgerActivation, ob_seq = 1, ob_digest = DigestBytes sample_payload, ob_target = ''projection'',
     ob_state = OutboxPending\<rparr>"

definition sample_entry :: Entry where
  "sample_entry = \<lparr>en_ledger = LedgerActivation, en_stream = [], en_seq = 1, en_event = ''e1'', en_digest = DigestBytes sample_payload\<rparr>"

definition sample_event_tx :: Tx where
  "sample_event_tx = run_op any_registry empty_store (OpEnqueueOutbox sample_outbox)
     (run_op any_registry empty_store (OpAppendEvent LedgerActivation [] ''e1'' sample_payload) new_tx)"

definition sample_event_store :: MemoryStore where
  "sample_event_store = snd (commit any_registry sample_event_tx empty_store)"

lemma sample_event_staged: "staged any_registry sample_event_tx"
  unfolding sample_event_tx_def by (intro staged_from.intros)

lemma activation_kind: "map_of ledgerKinds LedgerActivation = Some (kind_spec [SchemaActivationEvent] True ReasonActivationSequenceConflict)"
  by (simp add: ledgerKinds_def)

lemma sample_canonicalize:
  "canonicalize any_registry sample_payload = Inr (sample_payload, DigestBytes sample_payload, Some [(''schema_version'', GString SchemaActivationEvent)])"
proof -
  have h: "hashable event_doc" "nesting event_doc \<le> max_nesting"
    by (simp_all add: event_doc_def max_nesting_def gmap_ok_def valid_text_ascii)
  have "canon event_doc = event_doc" by (simp add: event_doc_def)
  then have "ParseJSONStrict sample_payload = Inr event_doc" using parse_out [OF h] by (simp add: sample_payload_def)
  moreover have "NormalizeForHashing event_doc = event_doc" by (simp add: event_doc_def sort_pair_entry_def)
  moreover have "JCS event_doc = Inr sample_payload" using h(1) by (simp add: JCS_def emit_hashable sample_payload_def)
  ultimately show ?thesis by (simp add: canonicalize_def) (simp add: event_doc_def AsObject_def)
qed

lemma sample_validate:
  "validateEventPayload any_registry LedgerActivation ''e1'' 1 sample_payload = Inr (sample_payload, DigestBytes sample_payload)"
  unfolding validate_Inr using sample_canonicalize activation_kind
  by (simp add: kind_spec_def gidx_def str_or_empty_def AsString_def check_sequence_field_def check_state_edge_def payloadStateTables_def)

lemma sample_event_tx_eq:
  "sample_event_tx = new_tx\<lparr>tx_puts := [\<lparr>sc_digest = DigestBytes sample_payload, sc_canonical = sample_payload\<rparr>], tx_appends := [sample_entry],
     tx_outbox := [sample_outbox], tx_outbox_seen := [(digest_a, sample_outbox)]\<rparr>"
proof -
  have "NextSequence any_registry empty_store new_tx LedgerActivation [] = Inr 1"
    using activation_kind by (simp add: NextSequence_def checkStream_def Head_def entries_at_def empty_store_def head_sequence_def new_tx_def)
  then have "run_op any_registry empty_store (OpAppendEvent LedgerActivation [] ''e1'' sample_payload) new_tx =
      new_tx\<lparr>tx_puts := [\<lparr>sc_digest = DigestBytes sample_payload, sc_canonical = sample_payload\<rparr>], tx_appends := [sample_entry]\<rparr>"
    by (simp add: AppendEvent_def Let_def sample_validate stageContent_def new_tx_def sample_entry_def)
  then show ?thesis using activation_kind digest_a_ok digest_bytes_pattern
    by (simp add: sample_event_tx_def EnqueueOutbox_def sample_outbox_def GetOutbox_def empty_store_def new_tx_def)
qed

lemma sample_event_commits:
  "entries_at sample_event_store (ledgerKey LedgerActivation []) = [sample_entry]" "GetOutbox sample_event_store digest_a = Some sample_outbox"
  using activation_kind digest_a_ok digest_bytes_pattern unfolding sample_event_store_def sample_event_tx_eq
  by (simp_all add: new_tx_def commit_def apply_tx_def then_phase_def apply_put_def Put_def Get_def empty_store_def has_key_def
      apply_append_def Head_def entries_at_def Append_def check_entry_def kind_spec_def sample_entry_def head_sequence_def
      apply_outbox_def outboxResolves_def overlay_of_def sample_outbox_def GetOutbox_def Enqueue_def Let_def)

lemma sample_event_reached: "reaches (ledger_step any_registry) empty_store sample_event_store"
  unfolding sample_event_store_def by (rule reaches_one) (rule commits [OF sample_event_staged])

subsection \<open>Atomic commits\<close>

text \<open>
  C1: a commit is atomic. Whatever was staged, and whatever other transactions did between staging and commit, a commit
  that fails leaves a store that no port operation can tell from the one before; a commit that succeeds has applied
  every staged write (content, swaps of heads in their order, entries, outbox and idempotency records) and lost nothing; a
  transaction that replays a recorded request writes nothing at all.
\<close>

theorem commit_atomic:
  assumes "NewMemoryStore reg0 = Inr s0" "reaches (ledger_step reg) s0 s" "staged reg tx" "commit reg tx s = (r, s')"
  shows "case r of Inl e \<Rightarrow> same s' s | Inr _ \<Rightarrow> if tx_replay tx then s' = s \<and> \<not> hasWrites tx else written tx s s'"
proof -
  have "ledger_ok reg s" by (rule ledger.reachable_inv [OF NewMemoryStore_fresh [OF assms(1)] assms(2)])
  then have "store_ok s" by (simp add: ledger_ok_def)
  from commit_cases [OF this staged_ok [OF assms(3)] assms(4)] show ?thesis by (auto split: sum.splits if_splits)
qed

theorem commit_atomic_witness:
  "\<exists>s'. commit any_registry (recorded_swap ''a'' empty_store) empty_store = (Inr (), s') \<and> written (recorded_swap ''a'' empty_store) empty_store s'"
proof -
  obtain r s' where c: "commit any_registry (recorded_swap ''a'' empty_store) empty_store = (r, s')"
    by (cases "commit any_registry (recorded_swap ''a'' empty_store) empty_store")
  have r: "r = Inr ()" using recorded_swap_commits(1) [of empty_store empty_store "''a''"] c by (simp add: empty_store_def)
  have "\<not> tx_replay (recorded_swap ''a'' empty_store)"
    using digest_a_ok known_head by (simp add: recorded_swap_def RecordIdempotency_def LookupIdem_def new_tx_def CompareAndSwapHead_def swap_a_def empty_store_def)
  with commit_atomic [OF new_store reaches.start recorded_swap_staged c] r c show ?thesis by auto
qed

subsection \<open>History\<close>

text \<open>
  C6: the history is append-only. From any reachable store, whatever commits (also failing and compensated ones), deliveries
  and head swaps follow, every stream keeps its entries as a prefix, with sequence numbers 1, 2, 3, \<dots> and no gap, no content and
  no recorded request is lost or changed, and an outbox record changes at most from pending to delivered.
\<close>

theorem history_append_only:
  assumes "NewMemoryStore reg0 = Inr s0" "reaches (ledger_step reg) s0 s" "reaches (ledger_step reg) s s'"
  shows "extends s s' \<and> (\<forall>key i. i < length (entries_at s' key) \<longrightarrow> unat (en_seq (entries_at s' key ! i)) = Suc i)"
proof -
  have ok: "ledger_ok reg s" by (rule ledger.reachable_inv [OF NewMemoryStore_fresh [OF assms(1)] assms(2)])
  have "extends s s'" by (rule history.reaches_stable [OF assms(3) ok extends_refl])
  moreover have "ledger_ok reg s'" by (rule ledger.reaches_inv [OF assms(3) ok])
  ultimately show ?thesis by (simp add: ledger_ok_def store_ok_def numbered_def)
qed

theorem history_append_only_witness:
  "extends empty_store (snd (commit any_registry (recorded_swap ''a'' empty_store) empty_store))"
  using history_append_only [OF new_store reaches.start reaches_one [where step = "ledger_step any_registry", OF commits [OF recorded_swap_staged]]] by blast

subsection \<open>Integrity\<close>

lemma canonicalize_Inr:
  "canonicalize reg payload = Inr (canonical, digest, Some ob) \<longleftrightarrow>
     ParseJSONStrict payload = Inr (GObject ob) \<and> JCS (NormalizeForHashing (GObject ob)) = Inr canonical \<and> digest = DigestBytes canonical"
  by (auto simp: canonicalize_def AsObject_def split: sum.splits go_error.splits gv.splits)

text \<open>
  C20: every entry of every ledger in every reachable store stands for a validated event: its ledger is one of the closed kinds, it
  is the digest of a JSON object that was accepted for that ledger (a schema version of the whitelist, a legal edge of the
  proposal or merge state machine when it is a state event), and the content store holds bytes with exactly that digest.
\<close>

theorem ledger_integrity:
  assumes "NewMemoryStore reg0 = Inr s0" "reaches (ledger_step reg) s0 s" "e \<in> set (entries_at s key)"
  shows "key = ledgerKey (en_ledger e) (en_stream e) \<and>
    (\<exists>spec payload ob blob. map_of ledgerKinds (en_ledger e) = Some spec \<and> ParseJSONStrict payload = Inr (GObject ob) \<and>
       DigestOf (NormalizeForHashing (GObject ob)) = Inr (en_digest e) \<and>
       str_or_empty (gidx ob ''schema_version'') \<in> set (payloadSchemas spec) \<and>
       (\<forall>table. map_of payloadStateTables (str_or_empty (gidx ob ''schema_version'')) = Some table \<longrightarrow>
          legalTransition table (str_or_empty (gidx ob ''from_state'')) (str_or_empty (gidx ob ''to_state''))) \<and>
       map_of (ms_content s) (en_digest e) = Some blob \<and> DigestBytes blob = en_digest e)"
proof -
  have ok: "ledger_ok reg s" by (rule ledger.reachable_inv [OF NewMemoryStore_fresh [OF assms(1)] assms(2)])
  then have key: "key = ledgerKey (en_ledger e) (en_stream e)" and "validated reg e" and "map_of (ms_content s) (en_digest e) \<noteq> None"
    using assms(3) by (auto simp: ledger_ok_def backed_def)
  then obtain payload canonical blob where v: "validateEventPayload reg (en_ledger e) (en_event e) (en_seq e) payload = Inr (canonical, en_digest e)"
    and blob: "map_of (ms_content s) (en_digest e) = Some blob" by (auto simp: validated_def)
  have stored: "DigestBytes blob = en_digest e" using ok blob by (simp add: ledger_ok_def store_ok_def)
  from v obtain spec ob where spec: "map_of ledgerKinds (en_ledger e) = Some spec"
    and can: "canonicalize reg payload = Inr (canonical, en_digest e, Some ob)"
    and schema: "str_or_empty (gidx ob ''schema_version'') \<in> set (payloadSchemas spec)"
    and edge: "check_state_edge reg ob (str_or_empty (gidx ob ''schema_version'')) = Inr ()" unfolding validate_Inr by blast
  have "DigestOf (NormalizeForHashing (GObject ob)) = Inr (en_digest e)" "ParseJSONStrict payload = Inr (GObject ob)"
    using can by (simp_all add: canonicalize_Inr DigestOf_def)
  moreover have "\<forall>table. map_of payloadStateTables (str_or_empty (gidx ob ''schema_version'')) = Some table \<longrightarrow>
      legalTransition table (str_or_empty (gidx ob ''from_state'')) (str_or_empty (gidx ob ''to_state''))"
    using edge by (auto simp: check_state_edge_def check_Inr)
  ultimately show ?thesis using key spec schema blob stored by blast
qed

theorem ledger_integrity_witness: "\<exists>blob. map_of (ms_content sample_event_store) (en_digest sample_entry) = Some blob \<and> DigestBytes blob = en_digest sample_entry"
  using ledger_integrity [OF new_store sample_event_reached, of sample_entry "ledgerKey LedgerActivation []"] sample_event_commits(1) by auto

text \<open>
  C22: every outbox record of every reachable store is bound: the activation ledger has, at the sequence the record names, an
  entry whose payload digest is the event digest of the record.
\<close>

theorem outbox_always_bound:
  assumes "NewMemoryStore reg0 = Inr s0" "reaches (ledger_step reg) s0 s" "GetOutbox s outboxKey = Some rec"
  shows "\<exists>e. EntryAt s LedgerActivation [] (ob_seq rec) = Inr (Some e) \<and> en_digest e = ob_digest rec"
proof -
  let ?es = "entries_at s (ledgerKey LedgerActivation [])"
  have ok: "ledger_ok reg s" by (rule ledger.reachable_inv [OF NewMemoryStore_fresh [OF assms(1)] assms(2)])
  then have num: "numbered ?es" by (simp add: ledger_ok_def store_ok_def)
  obtain e where e: "e \<in> set ?es" "en_seq e = ob_seq rec" "en_digest e = ob_digest rec"
    using ok assms(3) unfolding ledger_ok_def backed_def GetOutbox_def by blast
  then obtain i where i: "i < length ?es" "?es ! i = e" by (auto simp: in_set_conv_nth)
  then have seq: "unat (ob_seq rec) = Suc i" using num e(2) by (auto simp: numbered_def)
  then have nz: "ob_seq rec \<noteq> 0" by auto
  have "ob_seq rec \<le> word_of_nat (length ?es)" using seq i(1) num by (simp add: word_le_nat_alt numbered_def unsigned_of_nat take_bit_nat_eq_self)
  moreover have "unat (ob_seq rec - 1) = i" using slot_index(2) [OF nz calculation] seq by simp
  moreover have "map_of ledgerKinds LedgerActivation \<noteq> None" by (simp add: ledgerKinds_def)
  ultimately show ?thesis using e(3) i nz by (auto simp: EntryAt_def Let_def not_less)
qed

theorem outbox_always_bound_witness:
  "\<exists>e. EntryAt sample_event_store LedgerActivation [] (ob_seq sample_outbox) = Inr (Some e) \<and> en_digest e = ob_digest sample_outbox"
  by (rule outbox_always_bound [OF new_store sample_event_reached sample_event_commits(2)])


subsection \<open>Compare and swap\<close>

definition on_head :: "string \<Rightarrow> stagedCAS \<Rightarrow> bool" where
  "on_head hk op = (headKey (cas_kind op) (cas_key op) = hk)"

text \<open>The absent head is sequence 0 with the empty digest.\<close>

definition head_pair :: "MemoryStore \<Rightarrow> string \<Rightarrow> uint64 \<times> string" where
  "head_pair s hk = (case map_of (ms_heads s) hk of None \<Rightarrow> (0, []) | Some h \<Rightarrow> (hs_seq h, hs_digest h))"

lemma swaps_exact:
  "apply_all apply_cas ops us s = (None, us', s') \<Longrightarrow>
     (\<forall>op. find (on_head hk) ops = Some op \<longrightarrow> head_pair s hk = (cas_expected_seq op, cas_expected_digest op)) \<and>
     fst (head_pair s' hk) = fst (head_pair s hk) + word_of_nat (length (filter (on_head hk) ops))"
proof (induction ops arbitrary: us s)
  case (Cons op ops)
  then obtain us1 s1 where w: "apply_cas op s = (Inr us1, s1)" and rest: "apply_all apply_cas ops (us @ us1) s1 = (None, us', s')"
    by (auto split: sum.splits prod.splits)
  note IH = Cons.IH [OF rest] and eff = apply_cas_Inr [OF w]
  show ?case
  proof (cases "on_head hk op")
    case True
    then have "head_pair s hk = (cas_expected_seq op, cas_expected_digest op)" "fst (head_pair s1 hk) = cas_expected_seq op + 1"
      using eff by (auto simp: head_pair_def on_head_def swap_head_def split: option.splits)
    with IH True show ?thesis by (simp add: algebra_simps)
  next
    case False
    then have "head_pair s1 hk = head_pair s hk" using eff(1) by (auto simp: head_pair_def on_head_def swap_head_def)
    with IH False show ?thesis by simp
  qed
qed simp

lemma commit_heads:
  assumes "store_ok s" "tx_ok reg tx" "\<not> tx_replay tx" "commit reg tx s = (Inr u, s')"
  shows "(\<forall>op. find (on_head hk) (tx_cas tx) = Some op \<longrightarrow> head_pair s hk = (cas_expected_seq op, cas_expected_digest op)) \<and>
     fst (head_pair s' hk) = fst (head_pair s hk) + word_of_nat (length (filter (on_head hk) (tx_cas tx)))"
proof -
  obtain us where ap: "apply_tx reg tx s = (None, us, s')" using commit_cases [OF assms(1,2,4)] assms(3) by auto
  have heads: "ms_heads s' = fold swap_head (tx_cas tx) (ms_heads s)" using apply_tx_written [OF assms(1,2) ap] by (simp add: written_def)
  from ap obtain us1 s1 us2 s2 where ph1: "apply_all (apply_put reg) (tx_puts tx) [] s = (None, us1, s1)"
    and ph2: "apply_all apply_cas (tx_cas tx) us1 s1 = (None, us2, s2)" unfolding apply_tx_def then_phase_None by blast
  have "ms_heads s1 = ms_heads s"
    by (rule apply_all_inv [OF ph1, where P = "\<lambda>t. ms_heads t = ms_heads s"]) (auto dest: apply_heads_kept)
  then have "head_pair s1 hk = head_pair s hk" "head_pair s' hk = head_pair s2 hk"
    using heads apply_all_heads [OF ph2] by (simp_all add: head_pair_def)
  with swaps_exact [OF ph2, of hk] show ?thesis by simp
qed

text \<open>
  C21: heads are swapped exactly, so no update is lost: a transaction that commits found every head it swaps at the sequence and digest
  it expected and moved its sequence forward by one per swap; a second transaction that was staged against the same
  expectation is then refused, and leaves no trace.
\<close>

theorem no_lost_update:
  assumes "NewMemoryStore reg0 = Inr s0" "reaches (ledger_step reg) s0 s" "staged reg tx" "\<not> tx_replay tx" "commit reg tx s = (Inr u, s')"
    "find (on_head (headKey kind key)) (tx_cas tx) = Some op"
  shows "head_pair s (headKey kind key) = (cas_expected_seq op, cas_expected_digest op) \<and>
    fst (head_pair s' (headKey kind key)) = cas_expected_seq op + word_of_nat (length (filter (on_head (headKey kind key)) (tx_cas tx))) \<and>
    (length (tx_cas tx) < 2 ^ 64 \<and> staged reg tx2 \<and> \<not> tx_replay tx2 \<and> find (on_head (headKey kind key)) (tx_cas tx2) = Some op2 \<and>
       cas_expected_seq op2 = cas_expected_seq op \<longrightarrow> (\<exists>e s2. commit reg tx2 s' = (Inl e, s2) \<and> same s2 s'))"
proof -
  let ?hk = "headKey kind key"
  let ?n = "length (filter (on_head ?hk) (tx_cas tx))"
  have ok: "store_ok s" using ledger.reachable_inv [OF NewMemoryStore_fresh [OF assms(1)] assms(2)] by (simp add: ledger_ok_def)
  note hd = commit_heads [OF ok staged_ok [OF assms(3)] assms(4,5), of ?hk]
  have expd: "head_pair s ?hk = (cas_expected_seq op, cas_expected_digest op)" and moved: "fst (head_pair s' ?hk) = cas_expected_seq op + word_of_nat ?n"
    using hd assms(6) by auto
  have ok': "store_ok s'" using commit_cases [OF ok staged_ok [OF assms(3)] assms(5)] by simp
  have pos: "0 < ?n" using assms(6) by (auto simp: find_Some_iff filter_empty_conv)
  have "\<exists>e s2. commit reg tx2 s' = (Inl e, s2) \<and> same s2 s'"
    if len: "length (tx_cas tx) < 2 ^ 64" and tx2: "staged reg tx2" "\<not> tx_replay tx2" "find (on_head ?hk) (tx_cas tx2) = Some op2"
      and eq: "cas_expected_seq op2 = cas_expected_seq op"
  proof -
    obtain r s2 where c: "commit reg tx2 s' = (r, s2)" by (cases "commit reg tx2 s'")
    have "?n < 2 ^ 64" using len length_filter_le [of "on_head ?hk" "tx_cas tx"] by linarith
    then have "word_of_nat ?n \<noteq> (0 :: uint64)" using pos by (simp add: word_of_nat_eq_0_iff nat_dvd_not_less)
    with moved eq have ne: "fst (head_pair s' ?hk) \<noteq> cas_expected_seq op2" by simp
    have "r \<noteq> Inr u'" for u' using commit_heads [OF ok' staged_ok [OF tx2(1)] tx2(2), of u' s2 ?hk] c tx2(3) ne by auto
    then obtain e where "r = Inl e" by (cases r) auto
    with commit_cases [OF ok' staged_ok [OF tx2(1)] c] c show ?thesis by auto
  qed
  with expd moved show ?thesis by blast
qed

lemma recorded_swap_eq:
  assumes "map_of (ms_idem s) ''request-1'' = None" "key \<noteq> []"
  shows "recorded_swap key s = new_tx\<lparr>tx_cas := [swap_a key], tx_idem := [\<lparr>ir_key = ''request-1'', ir_digest = digest_a, ir_outcome = key\<rparr>],
     tx_idem_seen := [(''request-1'', digest_a)]\<rparr>"
  using assms digest_a_ok known_head
  by (simp add: recorded_swap_def RecordIdempotency_def LookupIdem_def new_tx_def CompareAndSwapHead_def swap_a_def)

theorem no_lost_update_witness:
  "\<exists>e s1 s2. commit any_registry (recorded_swap ''a'' empty_store) empty_store = (Inr (), s1) \<and>
     commit any_registry (recorded_swap ''a'' empty_store) s1 = (Inl e, s2) \<and> same s2 s1"
proof -
  let ?tx = "recorded_swap ''a'' empty_store" and ?hk = "headKey (cas_kind (swap_a ''a'')) (cas_key (swap_a ''a''))"
  obtain s1 where c: "commit any_registry ?tx empty_store = (Inr (), s1)"
    using recorded_swap_commits(1) [of empty_store empty_store "''a''"]
    by (cases "commit any_registry ?tx empty_store") (auto simp: empty_store_def)
  have eq: "?tx = new_tx\<lparr>tx_cas := [swap_a ''a''], tx_idem := [\<lparr>ir_key = ''request-1'', ir_digest = digest_a, ir_outcome = ''a''\<rparr>],
     tx_idem_seen := [(''request-1'', digest_a)]\<rparr>" by (rule recorded_swap_eq) (simp_all add: empty_store_def)
  have "\<not> tx_replay ?tx" "find (on_head ?hk) (tx_cas ?tx) = Some (swap_a ''a'')" "length (tx_cas ?tx) < 2 ^ 64"
    by (simp_all add: eq new_tx_def on_head_def)
  with no_lost_update [OF new_store reaches.start recorded_swap_staged _ c, of "cas_kind (swap_a ''a'')" "cas_key (swap_a ''a'')" "swap_a ''a''" ?tx "swap_a ''a''"]
    recorded_swap_staged c show ?thesis by blast
qed

subsection \<open>Idempotent requests\<close>

lemma apply_idem_kept:
  "apply_put reg p s = (r, s') \<Longrightarrow> ms_idem s' = ms_idem s" "apply_append e s = (r', s') \<Longrightarrow> ms_idem s' = ms_idem s"
  "apply_outbox reg ov b s = (r', s') \<Longrightarrow> ms_idem s' = ms_idem s"
  by (auto simp: apply_put_def apply_append_def apply_outbox_def Put_def Append_def Enqueue_def Let_def
      split: if_splits sum.splits prod.splits option.splits)

lemma map_le_grow: "m \<subseteq>\<^sub>m n \<Longrightarrow> n k = None \<Longrightarrow> m \<subseteq>\<^sub>m n(k \<mapsto> v)"
  by (erule map_le_trans) (rule map_le_fresh)

lemma records_exact:
  "\<lbrakk>apply_all apply_idem recs us s = (None, us', s'); distinct (map ir_key recs); rec \<in> set recs; map_of (ms_idem s) (ir_key rec) = None\<rbrakk> \<Longrightarrow>
     map_of (ms_idem s') (ir_key rec) = Some rec"
proof (induction recs arbitrary: us s)
  case (Cons r recs)
  then obtain us1 s1 where w: "apply_idem r s = (Inr us1, s1)" and rest: "apply_all apply_idem recs (us @ us1) s1 = (None, us', s')"
    by (auto split: sum.splits prod.splits)
  have rec: "Record r s = (Inr (), s1)" using w by (auto simp: apply_idem_def Let_def split: sum.splits prod.splits)
  show ?case
  proof (cases "rec = r")
    case True
    then have "s1 = s\<lparr>ms_idem := gput (ir_key rec) rec (ms_idem s)\<rparr>" using Record_cases [OF rec] Cons.prems(4) by simp
    then have "map_of (ms_idem s1) (ir_key rec) = Some rec" by simp
    moreover have "map_of (ms_idem s1) \<subseteq>\<^sub>m map_of (ms_idem s')"
      by (rule apply_all_inv [OF rest, where P = "\<lambda>t. map_of (ms_idem s1) \<subseteq>\<^sub>m map_of (ms_idem t)"])
        (auto simp: apply_idem_def Record_def Let_def intro!: map_le_grow split: if_splits sum.splits prod.splits option.splits)
    ultimately show ?thesis by (auto simp: map_le_def dom_def)
  next
    case False
    then have mem: "rec \<in> set recs" using Cons.prems(3) by simp
    then have "ir_key rec \<noteq> ir_key r" using Cons.prems(2) by (metis distinct.simps(2) image_eqI list.set_map list.simps(9))
    then have "map_of (ms_idem s1) (ir_key rec) = None" using Record_cases [OF rec] Cons.prems(4) by (auto split: option.splits)
    from Cons.IH [OF rest _ mem this] Cons.prems(2) show ?thesis by simp
  qed
qed simp

lemma stageContent_idem [simp]: "tx_idem (stageContent d c tx) = tx_idem tx" "tx_idem_seen (stageContent d c tx) = tx_idem_seen tx"
  by (simp_all add: stageContent_def)

lemma run_op_idem:
  assumes "case op of OpRecordIdempotency key digest outcome \<Rightarrow> False | _ \<Rightarrow> True"
  shows "tx_idem (run_op reg s op tx) = tx_idem tx \<and> tx_idem_seen (run_op reg s op tx) = tx_idem_seen tx"
  using assms
  by (cases op) (simp_all add: PutContent_def AppendEvent_def AppendEntry_def CompareAndSwapHead_def EnqueueOutbox_def Let_def split: sum.split prod.split option.split)

lemma staged_idem_distinct: "staged reg tx \<Longrightarrow> distinct (map ir_key (tx_idem tx)) \<and> (\<forall>rec \<in> set (tx_idem tx). map_of (tx_idem_seen tx) (ir_key rec) \<noteq> None)"
proof (induction rule: staged_from.induct)
  case (stage tx s op)
  have "tx_idem (run_op reg s op tx) = tx_idem tx \<and> tx_idem_seen (run_op reg s op tx) = tx_idem_seen tx"
    if "case op of OpRecordIdempotency key digest outcome \<Rightarrow> False | _ \<Rightarrow> True" using that by (rule run_op_idem)
  then show ?case using stage.IH by (cases op) (auto simp: RecordIdempotency_def split: option.splits)
qed (simp add: new_tx_def)

lemma replay_stays: "staged_from reg tx0 tx \<Longrightarrow> tx_replay tx0 \<Longrightarrow> tx_replay tx"
proof (induction rule: staged_from.induct)
  case (stage tx s op)
  then show ?case
    by (cases op) (auto simp: PutContent_def AppendEvent_def AppendEntry_def CompareAndSwapHead_def EnqueueOutbox_def RecordIdempotency_def
        stageContent_def Let_def split: sum.splits prod.splits option.splits if_splits)
qed

lemma commit_records:
  assumes "store_ok s" "staged reg tx" "\<not> tx_replay tx" "commit reg tx s = (Inr u, s')" "rec \<in> set (tx_idem tx)" "LookupIdem s (ir_key rec) = None"
  shows "LookupIdem s' (ir_key rec) = Some rec"
proof -
  obtain us where ap: "apply_tx reg tx s = (None, us, s')" using commit_cases [OF assms(1) staged_ok [OF assms(2)] assms(4)] assms(3) by auto
  obtain us1 s1 us2 s2 us3 s3 us4 s4 where ph:
    "apply_all (apply_put reg) (tx_puts tx) [] s = (None, us1, s1)" "apply_all apply_cas (tx_cas tx) us1 s1 = (None, us2, s2)"
    "apply_all apply_append (tx_appends tx) us2 s2 = (None, us3, s3)"
    "apply_all (apply_outbox reg (overlay_of (tx_appends tx))) (tx_outbox tx) us3 s3 = (None, us4, s4)"
    "apply_all apply_idem (tx_idem tx) us4 s4 = (None, us, s')"
    using ap unfolding apply_tx_def then_phase_None by blast
  have "ms_idem s1 = ms_idem s"
    by (rule apply_all_inv [OF ph(1), where P = "\<lambda>t. ms_idem t = ms_idem s"]) (auto dest: apply_idem_kept)
  moreover have "ms_idem s2 = ms_idem s1" using apply_all_heads [OF ph(2)] by simp
  moreover have "ms_idem s3 = ms_idem s2"
    by (rule apply_all_inv [OF ph(3), where P = "\<lambda>t. ms_idem t = ms_idem s2"]) (auto dest: apply_idem_kept)
  moreover have "ms_idem s4 = ms_idem s3"
    by (rule apply_all_inv [OF ph(4), where P = "\<lambda>t. ms_idem t = ms_idem s3"]) (auto dest: apply_idem_kept)
  ultimately show ?thesis using records_exact [OF ph(5) _ assms(5)] staged_idem_distinct [OF assms(2)] assms(6) by (simp add: LookupIdem_def)
qed

text \<open>
  C7: a recorded request is executed once. After a transaction that recorded a new key committed, and whatever happens to the store
  after that, a retry with the same key and digest gets the recorded outcome back and its transaction can no longer write
  anything, whatever else it stages; the same key with another digest is refused as a conflict.
\<close>

theorem idempotent_retry:
  assumes "NewMemoryStore reg0 = Inr s0" "reaches (ledger_step reg) s0 s" "staged reg tx" "\<not> tx_replay tx" "commit reg tx s = (Inr u, s1)"
    "rec \<in> set (tx_idem tx)" "LookupIdem s (ir_key rec) = None" "ir_key rec \<noteq> []" "reaches (ledger_step reg) s1 s2" "isValidDigest digest"
  shows "RecordIdempotency reg s2 (ir_key rec) digest outcome t =
      (if digest = ir_digest rec then (Inr (Some (ir_outcome rec)), t\<lparr>tx_replay := True, tx_replay_key := ir_key rec\<rparr>)
       else (Inl (newError reg ReasonIdempotencyConflict), t)) \<and>
    (staged_from reg (t\<lparr>tx_replay := True, tx_replay_key := ir_key rec\<rparr>) t' \<longrightarrow> snd (commit reg t' s3) = s3)"
proof -
  have ok: "ledger_ok reg s" by (rule ledger.reachable_inv [OF NewMemoryStore_fresh [OF assms(1)] assms(2)])
  then have "store_ok s" by (simp add: ledger_ok_def)
  then have rec: "LookupIdem s1 (ir_key rec) = Some rec" by (rule commit_records [OF _ assms(3-7)])
  have "ledger_ok reg s1" using ledger_ok_commit(1) [OF ok assms(3)] assms(5) by simp
  then have "extends s1 s2" by (rule history.reaches_stable [OF assms(9) _ extends_refl])
  with rec have "LookupIdem s2 (ir_key rec) = Some rec" by (auto simp: LookupIdem_def extends_def map_le_def dom_def)
  then have "RecordIdempotency reg s2 (ir_key rec) digest outcome t =
      (if digest = ir_digest rec then (Inr (Some (ir_outcome rec)), t\<lparr>tx_replay := True, tx_replay_key := ir_key rec\<rparr>)
       else (Inl (newError reg ReasonIdempotencyConflict), t))"
    using assms(8,10) by (simp add: RecordIdempotency_def)
  moreover have "snd (commit reg t' s3) = s3" if "staged_from reg (t\<lparr>tx_replay := True, tx_replay_key := ir_key rec\<rparr>) t'"
    using replay_stays [OF that] by (simp add: commit_def)
  ultimately show ?thesis by blast
qed

lemma recorded_swap_done:
  "\<exists>s1. commit any_registry (recorded_swap ''a'' empty_store) empty_store = (Inr (), s1)"
  using recorded_swap_commits(1) [of empty_store empty_store "''a''"]
  by (cases "commit any_registry (recorded_swap ''a'' empty_store) empty_store") (auto simp: empty_store_def)

theorem idempotent_retry_witness:
  "\<exists>s1. commit any_registry (recorded_swap ''a'' empty_store) empty_store = (Inr (), s1) \<and>
     fst (RecordIdempotency any_registry s1 ''request-1'' digest_a [] new_tx) = Inr (Some ''a'')"
proof -
  let ?tx = "recorded_swap ''a'' empty_store" and ?rec = "\<lparr>ir_key = ''request-1'', ir_digest = digest_a, ir_outcome = ''a''\<rparr>"
  obtain s1 where c: "commit any_registry ?tx empty_store = (Inr (), s1)" using recorded_swap_done by blast
  have eq: "?tx = new_tx\<lparr>tx_cas := [swap_a ''a''], tx_idem := [?rec], tx_idem_seen := [(''request-1'', digest_a)]\<rparr>"
    by (rule recorded_swap_eq) (simp_all add: empty_store_def)
  have "\<not> tx_replay ?tx" "?rec \<in> set (tx_idem ?tx)" "LookupIdem empty_store (ir_key ?rec) = None" "ir_key ?rec \<noteq> []"
    unfolding eq by (simp_all add: new_tx_def LookupIdem_def empty_store_def)
  from idempotent_retry [OF new_store reaches.start recorded_swap_staged this(1) c this(2-4) reaches.start digest_a_ok]
  show ?thesis using c by simp
qed

text \<open>
  C40: two concurrent executions of one request can both take effect. When two transactions record the same key with the same digest
  against the same store before either commits, and their other writes do not collide, both commits succeed and both
  writes are there afterwards: the second record of the key is silently a no-op, so only the first outcome is kept.
\<close>

theorem concurrent_retry_commits_twice:
  assumes "LookupIdem s ''request-1'' = None" "GetHead s ''lineage-version'' a = Inr None" "GetHead s ''lineage-version'' b = Inr None"
    "a \<noteq> b" "a \<noteq> []" "b \<noteq> []"
  defines "s1 \<equiv> snd (commit any_registry (recorded_swap a s) s)"
  defines "s2 \<equiv> snd (commit any_registry (recorded_swap b s) s1)"
  shows "fst (commit any_registry (recorded_swap a s) s) = Inr () \<and> fst (commit any_registry (recorded_swap b s) s1) = Inr () \<and>
    GetHead s2 ''lineage-version'' a = Inr (Some \<lparr>hs_seq = 1, hs_digest = digest_a\<rparr>) \<and>
    GetHead s2 ''lineage-version'' b = Inr (Some \<lparr>hs_seq = 1, hs_digest = digest_a\<rparr>) \<and>
    map_option ir_outcome (LookupIdem s2 ''request-1'') = Some a"
proof -
  have none: "map_of (ms_idem s) ''request-1'' = None" "map_of (ms_heads s) (headKey ''lineage-version'' a) = None"
    "map_of (ms_heads s) (headKey ''lineage-version'' b) = None"
    using assms(1-3) known_head by (simp_all add: LookupIdem_def GetHead_def)
  note c1 = recorded_swap_commits [of s s a, folded s1_def]
  have keys: "headKey ''lineage-version'' a \<noteq> headKey ''lineage-version'' b" using assms(4) by (simp add: headKey_def)
  have h1: "ms_heads s1 = swap_head (swap_a a) (ms_heads s)" "fst (commit any_registry (recorded_swap a s) s) = Inr ()"
    and i1: "map_of (ms_idem s1) ''request-1'' = Some \<lparr>ir_key = ''request-1'', ir_digest = digest_a, ir_outcome = a\<rparr>"
    using c1 none assms(5) by simp_all
  have "map_of (ms_heads s1) (headKey ''lineage-version'' b) = None" using h1(1) none(3) keys by (simp add: swap_head_def swap_a_def)
  note c2 = recorded_swap_commits [OF none(1) this assms(6), folded s2_def]
  have "ms_heads s2 = swap_head (swap_a b) (ms_heads s1)" "fst (commit any_registry (recorded_swap b s) s1) = Inr ()" "ms_idem s2 = ms_idem s1"
    using c2 i1 by simp_all
  with h1 i1 keys known_head show ?thesis by (simp add: GetHead_def LookupIdem_def swap_head_def swap_a_def)
qed

theorem concurrent_retry_commits_twice_witness:
  "fst (commit any_registry (recorded_swap ''b'' empty_store) (snd (commit any_registry (recorded_swap ''a'' empty_store) empty_store))) = Inr ()"
  using concurrent_retry_commits_twice [of empty_store "''a''" "''b''"] known_head by (simp add: LookupIdem_def GetHead_def empty_store_def)

end
