(* ===== verification/Host_Progress.thy ===== *)
theory Host_Progress
  imports Host_Prelude
begin

text \<open>
  Progress of a host component. Its goroutines take inner steps (as opposed to calls from outside); the
  locale is the contract under which the component comes to rest by itself: a number goes down with
  every inner step, and as long as some goroutine is not finished one of them can move.
\<close>

inductive takes :: "('s \<Rightarrow> 's \<Rightarrow> bool) \<Rightarrow> nat \<Rightarrow> 's \<Rightarrow> 's \<Rightarrow> bool" for step where
  none: "takes step 0 s s"
| one_more: "takes step n s t \<Longrightarrow> step t u \<Longrightarrow> takes step (Suc n) s u"

lemma reaches_takes: "reaches step s t \<longleftrightarrow> (\<exists>n. takes step n s t)"
proof
  show "reaches step s t \<Longrightarrow> \<exists>n. takes step n s t"
    by (induction rule: reaches.induct) (auto intro: takes.intros)
  assume "\<exists>n. takes step n s t"
  then obtain n where "takes step n s t" ..
  then show "reaches step s t" by (induction rule: takes.induct) (auto intro: reaches.intros)
qed

locale quiescing =
  fixes inv :: "'s \<Rightarrow> bool" and inner :: "'s \<Rightarrow> 's \<Rightarrow> bool" and at_rest :: "'s \<Rightarrow> bool" and work :: "'s \<Rightarrow> nat"
  assumes inner_inv: "inv s \<Longrightarrow> inner s t \<Longrightarrow> inv t"
    and work_down: "inner s t \<Longrightarrow> work t < work s"
    and progress: "inv s \<Longrightarrow> \<not> at_rest s \<Longrightarrow> \<exists>t. inner s t"
begin

lemma takes_bound: "takes inner n s t \<Longrightarrow> n + work t \<le> work s"
proof (induction rule: takes.induct)
  case (one_more n s t u)
  then show ?case using work_down [of t u] by linarith
qed simp

lemma comes_to_rest: "inv s \<Longrightarrow> \<exists>t. reaches inner s t \<and> at_rest t"
proof (induction "work s" arbitrary: s rule: less_induct)
  case less
  show ?case
  proof (cases "at_rest s")
    case True
    then show ?thesis by (intro exI [of _ s]) (simp add: reaches.start)
  next
    case False
    from progress [OF less.prems this] obtain t where t: "inner s t" ..
    from less.hyps [OF work_down [OF t] inner_inv [OF less.prems t]] obtain u where u: "reaches inner t u" "at_rest u" by blast
    have "reaches inner s u" by (rule reaches_trans [OF u(1) reaches_one [of inner, OF t]])
    with u(2) show ?thesis by blast
  qed
qed

lemma reaches_inner_inv: "reaches inner s t \<Longrightarrow> inv s \<Longrightarrow> inv t"
  by (induction rule: reaches.induct) (auto intro: inner_inv)

lemma stuck_at_rest: "reaches inner s t \<Longrightarrow> inv s \<Longrightarrow> \<nexists>u. inner t u \<Longrightarrow> at_rest t"
  using progress reaches_inner_inv by blast

end

text \<open>A component whose steps are events with an executable effect: sequences of events.\<close>

fun run_events :: "('e \<Rightarrow> 's \<Rightarrow> 's option) \<Rightarrow> 'e list \<Rightarrow> 's \<Rightarrow> 's option" where
  "run_events perf [] s = Some s"
| "run_events perf (ev # evs) s = (case perf ev s of None \<Rightarrow> None | Some t \<Rightarrow> run_events perf evs t)"

lemma run_events_reaches:
  assumes "run_events perf evs s = Some t" "list_all P evs" "\<And>ev s t. P ev \<Longrightarrow> perf ev s = Some t \<Longrightarrow> step s t"
  shows "reaches step s t"
  using assms(1,2)
proof (induction evs arbitrary: s)
  case (Cons ev evs)
  then obtain x where x: "perf ev s = Some x" "run_events perf evs x = Some t" by (auto split: option.splits)
  have "step s x" by (rule assms(3) [OF _ x(1)]) (use Cons.prems(2) in simp)
  with Cons x(2) show ?case by (intro reaches_trans [OF Cons.IH [OF x(2)] reaches_one [of step]]) simp_all
qed (simp add: reaches.start)

end
