(* ===== verification/Directed_Offer.thy ===== *)
theory Directed_Offer
  imports Host_Progress Room_Service
begin

text \<open>
  The directed-offer authority of the chat host (\<^verbatim>\<open>internal/directedoffer/coordinator.go\<close>): a mention of an
  agent is published in the room and, when the session of the agent is running, joins one abort/resume
  cycle that injects the queued mentions in room order. An agent pointer is the agent's id (a runtime is
  never replaced), a cycle pointer is an index into the list of cycles. Every region under the mutex is
  one operation; the goroutines that run between them are the program counters of \<open>offer_sys\<close> below. What
  the session answers (\<open>Running\<close>, \<open>Abort\<close>, \<open>WaitSettled\<close>, \<open>Resume\<close>) is an argument.
\<close>

subsection \<open>Requests, bindings and results\<close>

datatype offer_error =
    ErrRoomIDRequired
  | ErrAuthorIDRequired
  | ErrIdempotencyKeyRequired
  | ErrOfferBodyConflict
  | ErrExactSessionRequired
  | ErrAgentMismatch
  | ErrSessionMismatch
  | ErrAlreadyAttached
  | ErrBindingPinsRequired
  | ErrBindingDigest
  | ErrFromSession string
  | ErrContextDone

definition ReasonDirectedMention :: string where
  "ReasonDirectedMention = ''DIRECTED_MENTION''"

record OfferRequest =
  of_room :: string
  of_author :: string
  of_content :: string
  of_key :: string
  of_recipient :: string
  of_skill :: string

record PiSession =
  ps_file :: string
  ps_id :: string

definition validSession :: "PiSession \<Rightarrow> bool" where
  "validSession s = (ps_file s \<noteq> [] \<and> ps_id s \<noteq> [])"

record Binding =
  bi_evaluation :: string
  bi_run :: string
  bi_attempt :: string
  bi_room :: string
  bi_agent :: string
  bi_session :: PiSession
  bi_session_dir :: string
  bi_work_dir :: string
  bi_profile :: string
  bi_provider :: string
  bi_model :: string
  bi_tool_policy :: string
  bi_generation :: "64 word"
  bi_segment :: string

abbreviation bindingDigestRE :: "string \<Rightarrow> bool" where "bindingDigestRE \<equiv> digestPattern"

definition validateBinding :: "Binding \<Rightarrow> offer_error option" where
  "validateBinding b =
     (if bi_evaluation b = [] \<or> bi_run b = [] \<or> bi_attempt b = [] \<or> bi_room b = [] \<or> bi_agent b = [] \<or>
         bi_session_dir b = [] \<or> bi_work_dir b = [] \<or> bi_profile b = [] \<or> bi_provider b = [] \<or> bi_model b = [] \<or>
         bi_tool_policy b = [] then Some ErrBindingPinsRequired
      else if \<not> validSession (bi_session b) then Some ErrExactSessionRequired
      else if \<not> list_all bindingDigestRE [bi_profile b, bi_provider b, bi_model b, bi_tool_policy b] then Some ErrBindingDigest
      else None)"

record QueuedMessage =
  qm_message :: string
  qm_delivery :: string
  qm_seq :: int64
  qm_content :: string

record OfferSegment =
  os_id :: string
  os_room :: string
  os_agent :: string
  os_continuation :: string
  os_reason :: string

definition no_segment :: OfferSegment where
  "no_segment = \<lparr>os_id = [], os_room = [], os_agent = [], os_continuation = [], os_reason = []\<rparr>"

record OfferResult =
  or_message :: Message
  or_deliveries :: "RoomDelivery list"
  or_duplicate :: bool
  or_segment :: OfferSegment

record offerBody =
  bo_author :: string
  bo_content :: string
  bo_recipient :: string
  bo_skill :: string

record offerRecord =
  ofr_body :: offerBody
  ofr_result :: OfferResult

record ResumeRequest =
  rq_session :: PiSession
  rq_messages :: "QueuedMessage list"

record interruptCycle =
  cy_agent :: string
  cy_generation :: "64 word"
  cy_done :: bool
  cy_segment :: OfferSegment
  cy_err :: "offer_error option"

text \<open>\<open>inflight\<close> counts goroutines that exist in memory; it is an integer here and can not wrap.\<close>

record agentRuntime =
  ag_binding :: Binding
  ag_generation :: "64 word"
  ag_abort_started :: bool
  ag_pending :: "QueuedMessage list"
  ag_inflight :: int
  ag_current :: OfferSegment
  ag_segments :: "OfferSegment list"
  ag_segment_seq :: int64
  ag_cycle :: "nat option"

record Coordinator =
  co_room :: rooms
  co_offers :: "offerRecord gmap"
  co_agents :: "agentRuntime gmap"
  co_cycles :: "interruptCycle list"

definition NewCoordinator :: Coordinator where
  "NewCoordinator = \<lparr>co_room = NewRoomService, co_offers = [], co_agents = [], co_cycles = []\<rparr>"

subsection \<open>Attach, queued, Segments\<close>

text \<open>The session handed to \<open>Attach\<close>: nil, or its agent id and its exact session.\<close>

definition Attach :: "Binding \<Rightarrow> (string \<times> PiSession) option \<Rightarrow> Coordinator \<Rightarrow> offer_error option \<times> Coordinator" where
  "Attach b session c =
     (case validateBinding b of
        Some e \<Rightarrow> (Some e, c)
      | None \<Rightarrow>
          (case session of
             None \<Rightarrow> (Some ErrExactSessionRequired, c)
           | Some (agent, got) \<Rightarrow>
               if agent = [] \<or> agent \<noteq> bi_agent b then (Some ErrAgentMismatch, c)
               else if ps_file got \<noteq> ps_file (bi_session b) \<or> ps_id got \<noteq> ps_id (bi_session b) then (Some ErrSessionMismatch, c)
               else if has_key (co_agents c) (bi_agent b) then (Some ErrAlreadyAttached, c)
               else
                 let segmentID = (if bi_segment b = [] then ''segment-'' @ bi_agent b else bi_segment b);
                     initial = \<lparr>os_id = segmentID, os_room = bi_room b, os_agent = bi_agent b, os_continuation = [], os_reason = []\<rparr>
                 in (None, c\<lparr>co_agents := gput (bi_agent b)
                      \<lparr>ag_binding = b, ag_generation = 0, ag_abort_started = False, ag_pending = [], ag_inflight = 0,
                       ag_current = initial, ag_segments = [initial], ag_segment_seq = 0, ag_cycle = None\<rparr> (co_agents c)\<rparr>)))"

definition queued :: "string \<Rightarrow> Coordinator \<Rightarrow> QueuedMessage list" where
  "queued agentID c = (case map_of (co_agents c) agentID of None \<Rightarrow> [] | Some agent \<Rightarrow> ag_pending agent)"

definition Segments :: "string \<Rightarrow> Coordinator \<Rightarrow> OfferSegment list" where
  "Segments agentID c = (case map_of (co_agents c) agentID of None \<Rightarrow> [] | Some agent \<Rightarrow> ag_segments agent)"

subsection \<open>Offer\<close>

definition validateRequest :: "OfferRequest \<Rightarrow> offer_error option" where
  "validateRequest r =
     (if of_room r = [] then Some ErrRoomIDRequired
      else if of_author r = [] then Some ErrAuthorIDRequired
      else if of_key r = [] then Some ErrIdempotencyKeyRequired
      else None)"

definition request_body :: "OfferRequest \<Rightarrow> offerBody" where
  "request_body r = \<lparr>bo_author = of_author r, bo_content = of_content r, bo_recipient = of_recipient r, bo_skill = of_skill r\<rparr>"

definition offerKey :: "string \<Rightarrow> string \<Rightarrow> string" where
  "offerKey roomID key = roomID @ CHR 0x00 # key"

definition no_message :: Message where
  "no_message = \<lparr>rm_id = [], rm_room = [], rm_seq = 0, rm_author = [], rm_content = [], rm_reply_to = [], rm_key = []\<rparr>"

definition no_result :: OfferResult where
  "no_result = \<lparr>or_message = no_message, or_deliveries = [], or_duplicate = False, or_segment = no_segment\<rparr>"

definition queued_message :: "OfferResult \<Rightarrow> QueuedMessage" where
  "queued_message published =
     \<lparr>qm_message = rm_id (or_message published),
      qm_delivery = (case or_deliveries published of [] \<Rightarrow> [] | d # _ \<Rightarrow> rd_id d),
      qm_seq = rm_seq (or_message published), qm_content = rm_content (or_message published)\<rparr>"

text \<open>
  The first locked region ends the call (\<open>Offer_Done\<close>, a result and an error) or leaves it waiting for a
  cycle, which it may have started.
\<close>

datatype offer_outcome =
    Offer_Done "OfferResult \<times> offer_error option"
  | Offer_Joined OfferResult nat bool

text \<open>The part that joins or starts the cycle of a runtime.\<close>

definition join_cycle :: "string \<Rightarrow> OfferResult \<Rightarrow> agentRuntime \<Rightarrow> Coordinator \<Rightarrow> offer_outcome \<times> Coordinator" where
  "join_cycle recipient result agent c =
     (let agent1 = agent\<lparr>ag_pending := ag_pending agent @ [queued_message result], ag_inflight := ag_inflight agent + 1\<rparr>;
          start = (\<not> ag_abort_started agent)
      in if start then
           let generation = ag_generation agent + 1;
               cycle = length (co_cycles c);
               agent2 = agent1\<lparr>ag_abort_started := True, ag_generation := generation, ag_cycle := Some cycle\<rparr>
           in (Offer_Joined result cycle True,
               c\<lparr>co_agents := gput recipient agent2 (co_agents c),
                 co_cycles := co_cycles c @ [\<lparr>cy_agent = recipient, cy_generation = generation, cy_done = False,
                   cy_segment = no_segment, cy_err = None\<rparr>]\<rparr>)
         else (Offer_Joined result (the (ag_cycle agent)) False, c\<lparr>co_agents := gput recipient agent1 (co_agents c)\<rparr>))"

definition mention_of :: "OfferRequest \<Rightarrow> AppendMentionRequest" where
  "mention_of req = \<lparr>am_room = of_room req, am_author = of_author req, am_content = of_content req, am_key = of_key req,
     am_agents = (if of_recipient req = [] then [] else [of_recipient req])\<rparr>"

definition offer_result :: "AppendMentionResult \<Rightarrow> OfferResult" where
  "offer_result published = \<lparr>or_message = ar_message published, or_deliveries = ar_deliveries published,
     or_duplicate = ar_duplicate published, or_segment = no_segment\<rparr>"

definition Offer :: "bool \<Rightarrow> OfferRequest \<Rightarrow> Coordinator \<Rightarrow> offer_outcome \<times> Coordinator" where
  "Offer running req c =
     (case validateRequest req of
        Some e \<Rightarrow> (Offer_Done (no_result, Some e), c)
      | None \<Rightarrow>
          let key = offerKey (of_room req) (of_key req); body = request_body req; recipient = of_recipient req in
          (case map_of (co_offers c) key of
             Some existing \<Rightarrow>
               if ofr_body existing \<noteq> body then (Offer_Done (no_result, Some ErrOfferBodyConflict), c)
               else (Offer_Done ((ofr_result existing)\<lparr>or_duplicate := True\<rparr>, None), c)
           | None \<Rightarrow>
               let (published, rooms') = AppendMention (mention_of req) (co_room c);
                   result = offer_result published;
                   c1 = c\<lparr>co_room := rooms', co_offers := gput key \<lparr>ofr_body = body, ofr_result = result\<rparr> (co_offers c)\<rparr>
               in (case map_of (co_agents c1) recipient of
                     None \<Rightarrow> (Offer_Done (result, None), c1)
                   | Some agent \<Rightarrow>
                       if recipient = [] \<or> (\<not> running \<and> \<not> ag_abort_started agent) then (Offer_Done (result, None), c1)
                       else join_cycle recipient result agent c1)))"

text \<open>The second locked region of \<open>Offer\<close>.\<close>

definition leave_inflight :: "string \<Rightarrow> Coordinator \<Rightarrow> Coordinator" where
  "leave_inflight recipient c =
     (case map_of (co_agents c) recipient of
        None \<Rightarrow> c
      | Some agent \<Rightarrow> c\<lparr>co_agents := gput recipient (agent\<lparr>ag_inflight := ag_inflight agent - 1\<rparr>) (co_agents c)\<rparr>)"

text \<open>The end of \<open>Offer\<close>, once the cycle is done.\<close>

definition cycle_result :: "OfferResult \<Rightarrow> interruptCycle \<Rightarrow> OfferResult \<times> offer_error option" where
  "cycle_result result cycle =
     (case cy_err cycle of
        Some e \<Rightarrow> (result, Some e)
      | None \<Rightarrow> (result\<lparr>or_segment := cy_segment cycle\<rparr>, None))"

subsection \<open>interruptAndResume\<close>

definition seq_less :: "QueuedMessage \<Rightarrow> QueuedMessage \<Rightarrow> bool" where
  "seq_less p q = (sint (qm_seq p) < sint (qm_seq q))"

text \<open>The locked region between settling and resuming, which waits until no offer is in flight.\<close>

definition drain :: "nat \<Rightarrow> Coordinator \<Rightarrow> (ResumeRequest \<times> Coordinator) option" where
  "drain k c =
     (let cycle = co_cycles c ! k in
      case map_of (co_agents c) (cy_agent cycle) of
        None \<Rightarrow> None
      | Some agent \<Rightarrow>
          if 0 < ag_inflight agent then None
          else
            let pending = sort_by seq_less (ag_pending agent);
                segseq = ag_segment_seq agent + 1;
                next_segment = \<lparr>os_id = os_id (ag_current agent) @ ''-cont-'' @ format_int (sint segseq),
                  os_room = bi_room (ag_binding agent), os_agent = bi_agent (ag_binding agent),
                  os_continuation = os_id (ag_current agent), os_reason = ReasonDirectedMention\<rparr>;
                agent1 = agent\<lparr>ag_pending := [], ag_segment_seq := segseq, ag_current := next_segment,
                  ag_segments := ag_segments agent @ [next_segment]\<rparr>
            in Some (\<lparr>rq_session = bi_session (ag_binding agent), rq_messages = pending\<rparr>,
                c\<lparr>co_agents := gput (cy_agent cycle) agent1 (co_agents c),
                  co_cycles := (co_cycles c)[k := cycle\<lparr>cy_segment := next_segment\<rparr>]\<rparr>))"

definition set_cycle_err :: "nat \<Rightarrow> offer_error option \<Rightarrow> Coordinator \<Rightarrow> Coordinator" where
  "set_cycle_err k err c =
     (case err of None \<Rightarrow> c | Some e \<Rightarrow> c\<lparr>co_cycles := (co_cycles c)[k := (co_cycles c ! k)\<lparr>cy_err := Some e\<rparr>]\<rparr>)"

definition finishCycle :: "string \<Rightarrow> Coordinator \<Rightarrow> Coordinator" where
  "finishCycle agentID c =
     (case map_of (co_agents c) agentID of
        None \<Rightarrow> c
      | Some agent \<Rightarrow>
          let agent1 = agent\<lparr>ag_abort_started := False\<rparr>;
              agent2 = (if ag_cycle agent \<noteq> None \<and> ag_inflight agent = 0 \<and> ag_pending agent = [] then agent1\<lparr>ag_cycle := None\<rparr> else agent1)
          in c\<lparr>co_agents := gput agentID agent2 (co_agents c)\<rparr>)"

definition close_done :: "nat \<Rightarrow> Coordinator \<Rightarrow> Coordinator" where
  "close_done k c = c\<lparr>co_cycles := (co_cycles c)[k := (co_cycles c ! k)\<lparr>cy_done := True\<rparr>]\<rparr>"

subsection \<open>Goroutines\<close>

text \<open>
  A call of \<open>Offer\<close> between its locked regions, and a goroutine of \<open>interruptAndResume\<close> (one per cycle, started
  by the call that made the cycle). \<open>sy_resumes\<close> lists the requests handed to \<open>session.Resume\<close>.
\<close>

datatype call_pc = Joined | Waiting | Returned "OfferResult \<times> offer_error option"

record offer_call =
  oc_request :: OfferRequest
  oc_result :: OfferResult
  oc_cycle :: "nat option"
  oc_pc :: call_pc

datatype run_pc = Aborting | Settling | Draining | Resuming | Finishing | Closing | Closed

record offer_sys =
  sy_coord :: Coordinator
  sy_calls :: "offer_call list"
  sy_runs :: "run_pc list"
  sy_resumes :: "(string \<times> ResumeRequest) list"

datatype offer_event =
    Ev_Attach Binding "(string \<times> PiSession) option"
  | Ev_Offer bool OfferRequest
  | Ev_Leave nat
  | Ev_Return nat
  | Ev_Cancel nat
  | Ev_Abort nat "offer_error option"
  | Ev_Settle nat "offer_error option"
  | Ev_Drain nat
  | Ev_Resume nat "offer_error option"
  | Ev_Finish nat
  | Ev_Close nat

definition new_sys :: offer_sys where
  "new_sys = \<lparr>sy_coord = NewCoordinator, sy_calls = [], sy_runs = [], sy_resumes = []\<rparr>"

definition call_at :: "offer_sys \<Rightarrow> nat \<Rightarrow> call_pc \<Rightarrow> bool" where
  "call_at y j pc = (j < length (sy_calls y) \<and> oc_pc (sy_calls y ! j) = pc)"

definition run_at :: "offer_sys \<Rightarrow> nat \<Rightarrow> run_pc \<Rightarrow> bool" where
  "run_at y k pc = (k < length (sy_runs y) \<and> sy_runs y ! k = pc)"

definition call_to :: "nat \<Rightarrow> call_pc \<Rightarrow> offer_sys \<Rightarrow> offer_sys" where
  "call_to j pc y = y\<lparr>sy_calls := (sy_calls y)[j := (sy_calls y ! j)\<lparr>oc_pc := pc\<rparr>]\<rparr>"

definition run_to :: "nat \<Rightarrow> run_pc \<Rightarrow> offer_sys \<Rightarrow> offer_sys" where
  "run_to k pc y = y\<lparr>sy_runs := (sy_runs y)[k := pc]\<rparr>"

definition with_coord :: "Coordinator \<Rightarrow> offer_sys \<Rightarrow> offer_sys" where
  "with_coord c y = y\<lparr>sy_coord := c\<rparr>"

fun begin_offer :: "OfferRequest \<Rightarrow> offer_outcome \<Rightarrow> offer_sys \<Rightarrow> offer_sys" where
  "begin_offer req (Offer_Done r) y =
     y\<lparr>sy_calls := sy_calls y @ [\<lparr>oc_request = req, oc_result = fst r, oc_cycle = None, oc_pc = Returned r\<rparr>]\<rparr>"
| "begin_offer req (Offer_Joined result k start) y =
     y\<lparr>sy_calls := sy_calls y @ [\<lparr>oc_request = req, oc_result = result, oc_cycle = Some k, oc_pc = Joined\<rparr>],
       sy_runs := sy_runs y @ (if start then [Aborting] else [])\<rparr>"

text \<open>A session call that may fail: on an error the cycle records it and goes to \<open>finishCycle\<close>.\<close>

definition session_call :: "nat \<Rightarrow> run_pc \<Rightarrow> run_pc \<Rightarrow> offer_error option \<Rightarrow> offer_sys \<Rightarrow> offer_sys option" where
  "session_call k pc pc' err y =
     (if run_at y k pc
      then Some (with_coord (set_cycle_err k err (sy_coord y)) (run_to k (if err = None then pc' else Finishing) y))
      else None)"

fun perform :: "offer_event \<Rightarrow> offer_sys \<Rightarrow> offer_sys option" where
  "perform (Ev_Attach b session) y = Some (with_coord (snd (Attach b session (sy_coord y))) y)"
| "perform (Ev_Offer running req) y =
     (let (res, c) = Offer running req (sy_coord y) in Some (with_coord c (begin_offer req res y)))"
| "perform (Ev_Leave j) y =
     (if call_at y j Joined
      then Some (with_coord (leave_inflight (of_recipient (oc_request (sy_calls y ! j))) (sy_coord y)) (call_to j Waiting y))
      else None)"
| "perform (Ev_Return j) y =
     (if call_at y j Waiting then
        (case oc_cycle (sy_calls y ! j) of
           None \<Rightarrow> None
         | Some k \<Rightarrow>
             let cycle = co_cycles (sy_coord y) ! k in
             if cy_done cycle then Some (call_to j (Returned (cycle_result (oc_result (sy_calls y ! j)) cycle)) y) else None)
      else None)"
| "perform (Ev_Cancel j) y =
     (if call_at y j Waiting then Some (call_to j (Returned (oc_result (sy_calls y ! j), Some ErrContextDone)) y) else None)"
| "perform (Ev_Abort k err) y = session_call k Aborting Settling err y"
| "perform (Ev_Settle k err) y = session_call k Settling Draining err y"
| "perform (Ev_Drain k) y =
     (if run_at y k Draining then
        (case drain k (sy_coord y) of
           None \<Rightarrow> None
         | Some (rq, c) \<Rightarrow>
             Some (with_coord c (run_to k Resuming y)\<lparr>sy_resumes := sy_resumes y @ [(cy_agent (co_cycles c ! k), rq)]\<rparr>))
      else None)"
| "perform (Ev_Resume k err) y = session_call k Resuming Finishing err y"
| "perform (Ev_Finish k) y =
     (if run_at y k Finishing
      then Some (with_coord (finishCycle (cy_agent (co_cycles (sy_coord y) ! k)) (sy_coord y)) (run_to k Closing y))
      else None)"
| "perform (Ev_Close k) y =
     (if run_at y k Closing then Some (with_coord (close_done k (sy_coord y)) (run_to k Closed y)) else None)"

fun from_outside :: "offer_event \<Rightarrow> bool" where
  "from_outside (Ev_Attach b session) = True"
| "from_outside (Ev_Offer running req) = True"
| "from_outside (Ev_Cancel j) = True"
| "from_outside _ = False"

definition offer_step :: "offer_sys \<Rightarrow> offer_sys \<Rightarrow> bool" where
  "offer_step y z = (\<exists>ev. perform ev y = Some z)"

definition offer_inner :: "offer_sys \<Rightarrow> offer_sys \<Rightarrow> bool" where
  "offer_inner y z = (\<exists>ev. \<not> from_outside ev \<and> perform ev y = Some z)"

end
