(* ===== verification/Directed_Offer_Facts.thy ===== *)
theory Directed_Offer_Facts
  imports Directed_Offer
begin

text \<open>
  What the directed-offer coordinator keeps, whatever its goroutines interleave: one abort/resume cycle per
  agent, every queued mention handed to the session exactly once, a chain of continuation segments, and calls
  that always come to an end. One theorem shows what it does not keep: a mention that arrives while the
  session is being resumed stays queued.
\<close>

subsection \<open>The invariant\<close>

definition active :: "run_pc \<Rightarrow> bool" where
  "active pc = (pc \<noteq> Closing \<and> pc \<noteq> Closed)"

abbreviation runtime :: "offer_sys \<Rightarrow> string \<Rightarrow> agentRuntime option" where
  "runtime y \<equiv> map_of (co_agents (sy_coord y))"

abbreviation cycle_at :: "offer_sys \<Rightarrow> nat \<Rightarrow> interruptCycle" where
  "cycle_at y k \<equiv> co_cycles (sy_coord y) ! k"

text \<open>The mentions of an agent that joined a cycle, and those handed to its session.\<close>

definition joins :: "string \<Rightarrow> offer_call \<Rightarrow> QueuedMessage list" where
  "joins a call = (if oc_cycle call \<noteq> None \<and> of_recipient (oc_request call) = a then [queued_message (oc_result call)] else [])"

definition joined :: "string \<Rightarrow> offer_sys \<Rightarrow> QueuedMessage list" where
  "joined a y = concat (map (joins a) (sy_calls y))"

definition injected :: "string \<Rightarrow> offer_sys \<Rightarrow> QueuedMessage list" where
  "injected a y = concat (map (\<lambda>p. if fst p = a then rq_messages (snd p) else []) (sy_resumes y))"

definition in_flight :: "string \<Rightarrow> offer_call \<Rightarrow> bool" where
  "in_flight a call = (oc_pc call = Joined \<and> of_recipient (oc_request call) = a)"

definition runs_ok :: "offer_sys \<Rightarrow> bool" where
  "runs_ok y = (length (sy_runs y) = length (co_cycles (sy_coord y)) \<and>
     (\<forall>k < length (sy_runs y). cy_done (cycle_at y k) = (sy_runs y ! k = Closed) \<and>
        (\<exists>ag. runtime y (cy_agent (cycle_at y k)) = Some ag \<and>
           (active (sy_runs y ! k) \<longrightarrow> ag_abort_started ag \<and> ag_cycle ag = Some k) \<and>
           (sy_runs y ! k \<in> {Resuming, Finishing, Closing, Closed} \<and> cy_err (cycle_at y k) = None \<longrightarrow>
              cy_segment (cycle_at y k) \<in> set (ag_segments ag)))))"

definition starts_ok :: "offer_sys \<Rightarrow> bool" where
  "starts_ok y = (\<forall>a ag. runtime y a = Some ag \<and> ag_abort_started ag \<longrightarrow>
     (\<exists>k < length (sy_runs y). ag_cycle ag = Some k \<and> active (sy_runs y ! k) \<and> cy_agent (cycle_at y k) = a))"

definition call_ok :: "offer_sys \<Rightarrow> offer_call \<Rightarrow> bool" where
  "call_ok y call = ((oc_cycle call = None \<longrightarrow> (\<exists>r. oc_pc call = Returned r)) \<and>
     (\<forall>k. oc_cycle call = Some k \<longrightarrow> k < length (sy_runs y) \<and> cy_agent (cycle_at y k) = of_recipient (oc_request call)) \<and>
     (\<forall>r. oc_pc call = Returned (r, None) \<and> oc_cycle call \<noteq> None \<longrightarrow>
        or_segment r \<in> set (Segments (of_recipient (oc_request call)) (sy_coord y))))"

definition calls_ok :: "offer_sys \<Rightarrow> bool" where
  "calls_ok y = (\<forall>call \<in> set (sy_calls y). call_ok y call)"

definition flight_ok :: "offer_sys \<Rightarrow> bool" where
  "flight_ok y = (\<forall>a ag. runtime y a = Some ag \<longrightarrow> ag_inflight ag = int (length (filter (in_flight a) (sy_calls y))))"

definition queue_ok :: "offer_sys \<Rightarrow> bool" where
  "queue_ok y = (\<forall>a. mset (joined a y) = mset (injected a y) + mset (queued a (sy_coord y)))"

definition continues :: "OfferSegment \<Rightarrow> OfferSegment \<Rightarrow> bool" where
  "continues s t = (os_continuation t = os_id s \<and> os_reason t = ReasonDirectedMention \<and> os_agent t = os_agent s \<and> os_room t = os_room s \<and>
     length (os_id s) < length (os_id t))"

definition chain_ok :: "offer_sys \<Rightarrow> bool" where
  "chain_ok y = (\<forall>a ag. runtime y a = Some ag \<longrightarrow> ag_segments ag \<noteq> [] \<and> ag_current ag = last (ag_segments ag) \<and>
     bi_agent (ag_binding ag) = a \<and> (\<forall>s \<in> set (ag_segments ag). os_agent s = a \<and> os_room s = bi_room (ag_binding ag)) \<and>
     (\<forall>i. Suc i < length (ag_segments ag) \<longrightarrow> continues (ag_segments ag ! i) (ag_segments ag ! Suc i)))"

definition sys_ok :: "offer_sys \<Rightarrow> bool" where
  "sys_ok y = (runs_ok y \<and> starts_ok y \<and> calls_ok y \<and> flight_ok y \<and> queue_ok y \<and> chain_ok y \<and> rooms_ok (co_room (sy_coord y)))"

lemma sys_okD:
  assumes "sys_ok y"
  shows "runs_ok y" "starts_ok y" "calls_ok y" "flight_ok y" "queue_ok y" "chain_ok y" "rooms_ok (co_room (sy_coord y))"
  using assms by (simp_all add: sys_ok_def)

lemma sys_okI:
  "runs_ok y \<Longrightarrow> starts_ok y \<Longrightarrow> calls_ok y \<Longrightarrow> flight_ok y \<Longrightarrow> queue_ok y \<Longrightarrow> chain_ok y \<Longrightarrow> rooms_ok (co_room (sy_coord y)) \<Longrightarrow> sys_ok y"
  by (simp add: sys_ok_def)

lemma sys_ok_new: "sys_ok new_sys"
  by (simp add: sys_ok_def runs_ok_def starts_ok_def calls_ok_def flight_ok_def queue_ok_def chain_ok_def new_sys_def NewCoordinator_def
      joined_def injected_def queued_def rooms_ok_def NewRoomService_def room_def room_ok_empty)

subsection \<open>Lists updated in place\<close>

lemma concat_map_update: "j < length xs \<Longrightarrow> f x = f (xs ! j) \<Longrightarrow> concat (map f (xs[j := x])) = concat (map f xs)"
  by (simp add: map_update) (metis length_map list_update_id nth_map)

lemma filter_update_same: "j < length xs \<Longrightarrow> \<not> P x \<Longrightarrow> \<not> P (xs ! j) \<Longrightarrow> filter P (xs[j := x]) = filter P xs"
  using arg_cong [OF id_take_nth_drop [of j xs], of "filter P"] by (simp add: upd_conv_take_nth_drop)

lemma length_filter_update:
  "j < length xs \<Longrightarrow> P (xs ! j) \<Longrightarrow> \<not> P x \<Longrightarrow> Suc (length (filter P (xs[j := x]))) = length (filter P xs)"
  using arg_cong [OF id_take_nth_drop [of j xs], of "filter P"] by (simp add: upd_conv_take_nth_drop)

lemma call_ok_mono:
  assumes "call_ok y call" "length (sy_runs y) \<le> length (sy_runs z)"
    "\<And>k. k < length (sy_runs y) \<Longrightarrow> cy_agent (cycle_at z k) = cy_agent (cycle_at y k)"
    "\<And>a. set (Segments a (sy_coord y)) \<subseteq> set (Segments a (sy_coord z))"
  shows "call_ok z call"
  using assms(1-3) subsetD [OF assms(4)] by (auto simp: call_ok_def)

lemma joins_pc [simp]: "joins a (call\<lparr>oc_pc := pc\<rparr>) = joins a call"
  by (simp add: joins_def)

lemma joined_call_to [simp]: "j < length (sy_calls y) \<Longrightarrow> joined a (call_to j pc y) = joined a y"
  by (simp add: joined_def call_to_def concat_map_update)

lemma in_flight_pc: "in_flight a (call\<lparr>oc_pc := pc\<rparr>) = (pc = Joined \<and> of_recipient (oc_request call) = a)"
  by (simp add: in_flight_def)

subsection \<open>Every event keeps the invariant\<close>

text \<open>A call that returns: nothing changes but its program counter.\<close>

lemma return_ok:
  assumes ok: "sys_ok y" and at: "call_at y j Waiting"
    and r: "\<And>x. r = (x, None) \<Longrightarrow> or_segment x \<in> set (Segments (of_recipient (oc_request (sy_calls y ! j))) (sy_coord y))"
  shows "sys_ok (call_to j (Returned r) y)"
proof -
  have j: "j < length (sy_calls y)" "oc_pc (sy_calls y ! j) = Waiting" using at by (auto simp: call_at_def)
  let ?z = "call_to j (Returned r) y"
  have same: "sy_coord ?z = sy_coord y" "sy_runs ?z = sy_runs y" "sy_resumes ?z = sy_resumes y" by (simp_all add: call_to_def)
  have "set (sy_calls ?z) \<subseteq> insert ((sy_calls y ! j)\<lparr>oc_pc := Returned r\<rparr>) (set (sy_calls y))"
    by (simp add: call_to_def set_update_subset_insert)
  moreover have "calls_ok y" using ok by (simp add: sys_ok_def)
  moreover have "sy_calls y ! j \<in> set (sy_calls y)" using j by simp
  moreover have "call_ok y ((sy_calls y ! j)\<lparr>oc_pc := Returned r\<rparr>)" using r calculation(2,3) by (auto simp: calls_ok_def call_ok_def)
  ultimately have "\<forall>call \<in> set (sy_calls ?z). call_ok y call" by (auto simp: calls_ok_def)
  then have "calls_ok ?z" by (auto simp: calls_ok_def same intro: call_ok_mono)
  moreover have "filter (in_flight a) (sy_calls ?z) = filter (in_flight a) (sy_calls y)" for a
    using j by (simp add: call_to_def filter_update_same in_flight_def)
  then have "flight_ok ?z" using ok by (simp add: sys_ok_def flight_ok_def same)
  moreover have "runs_ok ?z" "starts_ok ?z" using sys_okD(1,2) [OF ok] unfolding runs_ok_def starts_ok_def same by blast+
  moreover have "queue_ok ?z" "chain_ok ?z" using sys_okD(5,6) [OF ok] j unfolding queue_ok_def chain_ok_def same injected_def by simp_all
  ultimately show ?thesis using sys_okD(7) [OF ok] by (simp add: sys_ok_def same)
qed

lemma leave_ok:
  assumes ok: "sys_ok y" and at: "call_at y j Joined"
  shows "sys_ok (with_coord (leave_inflight (of_recipient (oc_request (sy_calls y ! j))) (sy_coord y)) (call_to j Waiting y))"
proof -
  let ?call = "sy_calls y ! j" let ?a = "of_recipient (oc_request ?call)"
  have j: "j < length (sy_calls y)" "oc_pc ?call = Joined" using at by (auto simp: call_at_def)
  then have mem: "?call \<in> set (sy_calls y)" by simp
  then obtain k where k: "oc_cycle ?call = Some k" "k < length (sy_runs y)" "cy_agent (cycle_at y k) = ?a"
    using ok j(2) by (fastforce simp: sys_ok_def calls_ok_def call_ok_def)
  then obtain ag where ag: "runtime y ?a = Some ag" using ok by (fastforce simp: sys_ok_def runs_ok_def)
  let ?z = "with_coord (leave_inflight ?a (sy_coord y)) (call_to j Waiting y)"
  have same: "runtime ?z = (runtime y)(?a \<mapsto> ag\<lparr>ag_inflight := ag_inflight ag - 1\<rparr>)" "co_cycles (sy_coord ?z) = co_cycles (sy_coord y)"
    "sy_runs ?z = sy_runs y" "sy_resumes ?z = sy_resumes y" "co_room (sy_coord ?z) = co_room (sy_coord y)"
    "sy_calls ?z = (sy_calls y)[j := ?call\<lparr>oc_pc := Waiting\<rparr>]"
    by (simp_all add: call_to_def with_coord_def leave_inflight_def ag)
  have segs: "Segments b (sy_coord ?z) = Segments b (sy_coord y)" "queued b (sy_coord ?z) = queued b (sy_coord y)" for b
    by (simp_all add: Segments_def queued_def same ag)
  have "set (sy_calls ?z) \<subseteq> insert (?call\<lparr>oc_pc := Waiting\<rparr>) (set (sy_calls y))"
    by (simp add: same set_update_subset_insert)
  moreover have "calls_ok y" using ok by (simp add: sys_ok_def)
  moreover have "call_ok y (?call\<lparr>oc_pc := Waiting\<rparr>)" using k by (simp add: call_ok_def)
  ultimately have "\<forall>call \<in> set (sy_calls ?z). call_ok y call" by (auto simp: calls_ok_def)
  then have "calls_ok ?z" by (auto simp: calls_ok_def same segs intro!: call_ok_mono [of y _ ?z])
  moreover have "flight_ok ?z"
  proof -
    have "Suc (length (filter (in_flight ?a) (sy_calls ?z))) = length (filter (in_flight ?a) (sy_calls y))"
      using j by (simp only: same) (rule length_filter_update, auto simp: in_flight_def)
    moreover have "filter (in_flight b) (sy_calls ?z) = filter (in_flight b) (sy_calls y)" if "b \<noteq> ?a" for b
      using j that by (simp add: same filter_update_same in_flight_def)
    ultimately show ?thesis using ok ag by (auto simp: sys_ok_def flight_ok_def same)
  qed
  moreover have "joined b ?z = joined b y" for b using j by (simp add: joined_def same concat_map_update)
  then have "queue_ok ?z" using ok by (simp add: sys_ok_def queue_ok_def segs injected_def same)
  moreover have "runs_ok ?z" using ok ag by (fastforce simp: sys_ok_def runs_ok_def same)
  moreover have "starts_ok ?z" using ok ag by (auto simp: sys_ok_def starts_ok_def same)
  moreover have "chain_ok ?z" using ok ag by (simp add: sys_ok_def chain_ok_def same)
  ultimately show ?thesis using ok by (simp add: sys_ok_def same)
qed

text \<open>A run that moves on without touching its agent, possibly with an error recorded in its cycle.\<close>

lemma run_move_ok:
  assumes ok: "sys_ok y" and k: "k < length (sy_runs y)" "active (sy_runs y ! k) = active pc"
    and same: "co_agents (sy_coord z) = co_agents (sy_coord y)" "sy_calls z = sy_calls y" "sy_resumes z = sy_resumes y"
      "co_room (sy_coord z) = co_room (sy_coord y)"
    and moved: "sy_runs z = (sy_runs y)[k := pc]" "co_cycles (sy_coord z) = (co_cycles (sy_coord y))[k := cy]"
    and cy: "cy_agent cy = cy_agent (cycle_at y k)" "cy_done cy = (pc = Closed)" "cy_segment cy = cy_segment (cycle_at y k)"
      "cy_err cy = None \<Longrightarrow> cy_err (cycle_at y k) = None \<and> (pc \<in> {Resuming, Finishing, Closing, Closed} \<longrightarrow> sy_runs y ! k \<in> {Resuming, Finishing, Closing, Closed})"
  shows "sys_ok z"
proof -
  have len: "k < length (co_cycles (sy_coord y))" using ok k(1) by (simp add: sys_ok_def runs_ok_def)
  have agent: "cy_agent (cycle_at z i) = cy_agent (cycle_at y i)" for i
    using cy(1) len by (cases "i = k") (simp_all add: moved)
  have act: "active (sy_runs z ! i) = active (sy_runs y ! i)" for i using k by (cases "i = k") (simp_all add: moved)
  have "runs_ok z"
  proof -
    obtain ag where ag: "runtime y (cy_agent (cycle_at y k)) = Some ag" "active (sy_runs y ! k) \<longrightarrow> ag_abort_started ag \<and> ag_cycle ag = Some k"
        "sy_runs y ! k \<in> {Resuming, Finishing, Closing, Closed} \<and> cy_err (cycle_at y k) = None \<longrightarrow> cy_segment (cycle_at y k) \<in> set (ag_segments ag)"
      using ok k(1) by (fastforce simp: sys_ok_def runs_ok_def)
    have "cy_done (cycle_at z i) = (sy_runs z ! i = Closed) \<and> (\<exists>ag. runtime z (cy_agent (cycle_at z i)) = Some ag \<and>
        (active (sy_runs z ! i) \<longrightarrow> ag_abort_started ag \<and> ag_cycle ag = Some i) \<and>
        (sy_runs z ! i \<in> {Resuming, Finishing, Closing, Closed} \<and> cy_err (cycle_at z i) = None \<longrightarrow> cy_segment (cycle_at z i) \<in> set (ag_segments ag)))"
      if "i < length (sy_runs z)" for i
    proof (cases "i = k")
      case True
      then show ?thesis using ag cy len k(1) k(2)[symmetric] by (auto simp: moved same)
    next
      case False
      then show ?thesis using ok that by (simp add: sys_ok_def runs_ok_def moved same)
    qed
    then show ?thesis using ok by (simp add: sys_ok_def runs_ok_def moved)
  qed
  moreover have "starts_ok z" using ok by (simp add: sys_ok_def starts_ok_def agent act same) (simp add: moved)
  moreover have "calls_ok z" using ok by (auto simp: sys_ok_def calls_ok_def agent same Segments_def moved(1) intro!: call_ok_mono [of y _ z])
  moreover have "flight_ok z" "queue_ok z" "chain_ok z" 
    using ok by (simp_all add: sys_ok_def flight_ok_def queue_ok_def chain_ok_def same injected_def joined_def queued_def)
  ultimately show ?thesis using ok by (simp add: sys_ok_def same)
qed

lemma set_cycle_err_cycles:
  "co_agents (set_cycle_err k err c) = co_agents c" "co_room (set_cycle_err k err c) = co_room c"
  "co_cycles (set_cycle_err k err c) = (co_cycles c)[k := (co_cycles c ! k)\<lparr>cy_err := (if err = None then cy_err (co_cycles c ! k) else err)\<rparr>]"
  by (auto simp: set_cycle_err_def split: option.splits)

lemma session_call_ok:
  assumes ok: "sys_ok y" and step: "session_call k pc pc' err y = Some z"
    and pcs: "active pc" "active pc'" "pc \<noteq> Closed" "pc' \<noteq> Closed" "pc' \<in> {Settling, Draining} \<or> pc = Resuming"
  shows "sys_ok z"
proof -
  let ?pc = "if err = None then pc' else Finishing"
  let ?cy = "(cycle_at y k)\<lparr>cy_err := (if err = None then cy_err (cycle_at y k) else err)\<rparr>"
  have z: "z = with_coord (set_cycle_err k err (sy_coord y)) (run_to k ?pc y)" and k: "k < length (sy_runs y)" "sy_runs y ! k = pc"
    using step by (auto simp: session_call_def run_at_def split: if_splits)
  have "\<not> cy_done (cycle_at y k)" using ok k pcs(3) by (fastforce simp: sys_ok_def runs_ok_def)
  then show ?thesis
    using pcs by (intro run_move_ok [OF ok k(1), of ?pc z ?cy]) (auto simp: z k(2) with_coord_def run_to_def set_cycle_err_cycles active_def)
qed

lemma close_ok:
  assumes ok: "sys_ok y" and at: "run_at y k Closing"
  shows "sys_ok (with_coord (close_done k (sy_coord y)) (run_to k Closed y))"
proof -
  have k: "k < length (sy_runs y)" "sy_runs y ! k = Closing" using at by (auto simp: run_at_def)
  show ?thesis
    by (rule run_move_ok [OF ok k(1), of Closed _ "(cycle_at y k)\<lparr>cy_done := True\<rparr>"])
      (auto simp: k(2) with_coord_def run_to_def close_done_def active_def)
qed

lemma finish_ok:
  assumes ok: "sys_ok y" and at: "run_at y k Finishing"
  shows "sys_ok (with_coord (finishCycle (cy_agent (cycle_at y k)) (sy_coord y)) (run_to k Closing y))"
proof -
  let ?a = "cy_agent (cycle_at y k)"
  have k: "k < length (sy_runs y)" "sy_runs y ! k = Finishing" using at by (auto simp: run_at_def)
  obtain ag where ag: "runtime y ?a = Some ag" "ag_abort_started ag" "ag_cycle ag = Some k"
    using ok k by (fastforce simp: sys_ok_def runs_ok_def active_def)
  define ag' where "ag' = (if ag_cycle ag \<noteq> None \<and> ag_inflight ag = 0 \<and> ag_pending ag = [] then ag\<lparr>ag_abort_started := False, ag_cycle := None\<rparr>
      else ag\<lparr>ag_abort_started := False\<rparr>)"
  have f: "\<not> ag_abort_started ag'" "ag_pending ag' = ag_pending ag" "ag_inflight ag' = ag_inflight ag" "ag_segments ag' = ag_segments ag"
    "ag_current ag' = ag_current ag" "ag_binding ag' = ag_binding ag" by (simp_all add: ag'_def)
  let ?z = "with_coord (finishCycle ?a (sy_coord y)) (run_to k Closing y)"
  have same: "runtime ?z = (runtime y)(?a \<mapsto> ag')" "co_cycles (sy_coord ?z) = co_cycles (sy_coord y)"
    "sy_runs ?z = (sy_runs y)[k := Closing]" "sy_resumes ?z = sy_resumes y" "co_room (sy_coord ?z) = co_room (sy_coord y)"
    "sy_calls ?z = sy_calls y"
    by (auto simp: run_to_def with_coord_def finishCycle_def ag Let_def ag'_def)
  have segs: "Segments b (sy_coord ?z) = Segments b (sy_coord y)" "queued b (sy_coord ?z) = queued b (sy_coord y)" for b
    by (simp_all add: Segments_def queued_def same ag f)
  have others: "\<not> active (sy_runs y ! i)" if "i < length (sy_runs y)" "i \<noteq> k" "cy_agent (cycle_at y i) = ?a" for i
    using ok that ag by (auto simp: sys_ok_def runs_ok_def)
  have "runs_ok ?z"
    unfolding runs_ok_def
  proof (intro conjI allI impI)
    show "length (sy_runs ?z) = length (co_cycles (sy_coord ?z))" using sys_okD(1) [OF ok] by (simp add: runs_ok_def same)
    fix i
    assume i: "i < length (sy_runs ?z)"
    then have i': "i < length (sy_runs y)" by (simp add: same)
    with sys_okD(1) [OF ok] obtain agi where agi: "cy_done (cycle_at y i) = (sy_runs y ! i = Closed)"
        "runtime y (cy_agent (cycle_at y i)) = Some agi" "active (sy_runs y ! i) \<longrightarrow> ag_abort_started agi \<and> ag_cycle agi = Some i"
        "sy_runs y ! i \<in> {Resuming, Finishing, Closing, Closed} \<and> cy_err (cycle_at y i) = None \<longrightarrow> cy_segment (cycle_at y i) \<in> set (ag_segments agi)"
      unfolding runs_ok_def by blast
    show "cy_done (cycle_at ?z i) = (sy_runs ?z ! i = Closed)" using agi(1) k by (cases "i = k") (simp_all add: same)
    show "\<exists>ag. runtime ?z (cy_agent (cycle_at ?z i)) = Some ag \<and> (active (sy_runs ?z ! i) \<longrightarrow> ag_abort_started ag \<and> ag_cycle ag = Some i) \<and>
        (sy_runs ?z ! i \<in> {Resuming, Finishing, Closing, Closed} \<and> cy_err (cycle_at ?z i) = None \<longrightarrow> cy_segment (cycle_at ?z i) \<in> set (ag_segments ag))"
    proof (cases "i = k")
      case True
      then show ?thesis using agi ag(1) k by (simp add: same f active_def)
    next
      case False
      then show ?thesis using agi ag(1) others [OF i' False] by (cases "cy_agent (cycle_at y i) = ?a") (simp_all add: same f)
    qed
  qed
  moreover have "starts_ok ?z"
    unfolding starts_ok_def
  proof (intro allI impI)
    fix a g
    assume g: "runtime ?z a = Some g \<and> ag_abort_started g"
    then have "a \<noteq> ?a" "runtime y a = Some g" using f(1) by (auto simp: same split: if_splits)
    with g sys_okD(2) [OF ok] obtain i where "i < length (sy_runs y)" "ag_cycle g = Some i" "active (sy_runs y ! i)" "cy_agent (cycle_at y i) = a"
      unfolding starts_ok_def by blast
    moreover from this \<open>a \<noteq> ?a\<close> have "i \<noteq> k" by auto
    ultimately show "\<exists>i < length (sy_runs ?z). ag_cycle g = Some i \<and> active (sy_runs ?z ! i) \<and> cy_agent (cycle_at ?z i) = a"
      by (intro exI [of _ i]) (simp add: same)
  qed
  moreover have "calls_ok ?z" using ok by (auto simp: sys_ok_def calls_ok_def segs same intro!: call_ok_mono [of y _ ?z])
  moreover have "flight_ok ?z" "chain_ok ?z" using ok ag f by (simp_all add: sys_ok_def flight_ok_def chain_ok_def same)
  moreover have "queue_ok ?z" using ok by (simp add: sys_ok_def queue_ok_def segs injected_def same joined_def)
  ultimately show ?thesis using ok by (simp add: sys_ok_def same)
qed

lemma drain_cases:
  assumes "drain k c = Some (rq, c')"
  obtains ag next_segment ag' where "map_of (co_agents c) (cy_agent (co_cycles c ! k)) = Some ag" "ag_inflight ag \<le> 0"
    "os_id next_segment = os_id (ag_current ag) @ ''-cont-'' @ format_int (sint (ag_segment_seq ag + 1))"
    "os_room next_segment = bi_room (ag_binding ag)" "os_agent next_segment = bi_agent (ag_binding ag)"
    "os_continuation next_segment = os_id (ag_current ag)" "os_reason next_segment = ReasonDirectedMention"
    "ag' = ag\<lparr>ag_pending := [], ag_segment_seq := ag_segment_seq ag + 1, ag_current := next_segment, ag_segments := ag_segments ag @ [next_segment]\<rparr>"
    "rq = \<lparr>rq_session = bi_session (ag_binding ag), rq_messages = sort_by seq_less (ag_pending ag)\<rparr>"
    "c' = c\<lparr>co_agents := gput (cy_agent (co_cycles c ! k)) ag' (co_agents c), co_cycles := (co_cycles c)[k := (co_cycles c ! k)\<lparr>cy_segment := next_segment\<rparr>]\<rparr>"
proof -
  obtain ag where ag: "map_of (co_agents c) (cy_agent (co_cycles c ! k)) = Some ag" "\<not> 0 < ag_inflight ag"
    using assms by (auto simp: drain_def Let_def split: option.splits if_splits)
  from assms show thesis
    by (intro that [OF ag(1)]) (use ag(2) in \<open>auto simp: drain_def Let_def ag(1)\<close>)
qed

lemma drain_ok:
  assumes ok: "sys_ok y" and at: "run_at y k Draining" and d: "drain k (sy_coord y) = Some (rq, c)"
  shows "sys_ok (with_coord c (run_to k Resuming y)\<lparr>sy_resumes := sy_resumes y @ [(cy_agent (co_cycles c ! k), rq)]\<rparr>)"
proof -
  let ?a = "cy_agent (cycle_at y k)"
  define z where "z = with_coord c (run_to k Resuming y)\<lparr>sy_resumes := sy_resumes y @ [(cy_agent (co_cycles c ! k), rq)]\<rparr>"
  have k: "k < length (sy_runs y)" "sy_runs y ! k = Draining" using at by (auto simp: run_at_def)
  then have len: "k < length (co_cycles (sy_coord y))" using sys_okD(1) [OF ok] by (simp add: runs_ok_def)
  from drain_cases [OF d] obtain ag s ag' where ag: "runtime y ?a = Some ag"
    and s: "os_id s = os_id (ag_current ag) @ ''-cont-'' @ format_int (sint (ag_segment_seq ag + 1))"
      "os_room s = bi_room (ag_binding ag)" "os_agent s = bi_agent (ag_binding ag)"
      "os_continuation s = os_id (ag_current ag)" "os_reason s = ReasonDirectedMention"
    and ag': "ag' = ag\<lparr>ag_pending := [], ag_segment_seq := ag_segment_seq ag + 1, ag_current := s, ag_segments := ag_segments ag @ [s]\<rparr>"
    and rq: "rq = \<lparr>rq_session = bi_session (ag_binding ag), rq_messages = sort_by seq_less (ag_pending ag)\<rparr>"
    and c: "c = (sy_coord y)\<lparr>co_agents := gput ?a ag' (co_agents (sy_coord y)), co_cycles := (co_cycles (sy_coord y))[k := (cycle_at y k)\<lparr>cy_segment := s\<rparr>]\<rparr>" .
  have same: "runtime z = (runtime y)(?a \<mapsto> ag')" "co_cycles (sy_coord z) = (co_cycles (sy_coord y))[k := (cycle_at y k)\<lparr>cy_segment := s\<rparr>]"
    "sy_runs z = (sy_runs y)[k := Resuming]" "sy_resumes z = sy_resumes y @ [(?a, rq)]" "co_room (sy_coord z) = co_room (sy_coord y)"
    "sy_calls z = sy_calls y"
    using len by (simp_all add: z_def run_to_def with_coord_def c)
  have agent: "cy_agent (cycle_at z i) = cy_agent (cycle_at y i)" for i using len by (cases "i = k") (simp_all add: same)
  have segs: "set (Segments b (sy_coord y)) \<subseteq> set (Segments b (sy_coord z))" for b
    by (cases "b = ?a") (auto simp: Segments_def same ag ag')
  have "runs_ok z"
    unfolding runs_ok_def
  proof (intro conjI allI impI)
    show "length (sy_runs z) = length (co_cycles (sy_coord z))" using sys_okD(1) [OF ok] by (simp add: runs_ok_def same)
    fix i
    assume i: "i < length (sy_runs z)"
    then have i': "i < length (sy_runs y)" by (simp add: same)
    with sys_okD(1) [OF ok] obtain agi where agi: "cy_done (cycle_at y i) = (sy_runs y ! i = Closed)"
        "runtime y (cy_agent (cycle_at y i)) = Some agi" "active (sy_runs y ! i) \<longrightarrow> ag_abort_started agi \<and> ag_cycle agi = Some i"
        "sy_runs y ! i \<in> {Resuming, Finishing, Closing, Closed} \<and> cy_err (cycle_at y i) = None \<longrightarrow> cy_segment (cycle_at y i) \<in> set (ag_segments agi)"
      unfolding runs_ok_def by blast
    show "cy_done (cycle_at z i) = (sy_runs z ! i = Closed)" using agi(1) k len by (cases "i = k") (simp_all add: same)
    show "\<exists>ag. runtime z (cy_agent (cycle_at z i)) = Some ag \<and> (active (sy_runs z ! i) \<longrightarrow> ag_abort_started ag \<and> ag_cycle ag = Some i) \<and>
        (sy_runs z ! i \<in> {Resuming, Finishing, Closing, Closed} \<and> cy_err (cycle_at z i) = None \<longrightarrow> cy_segment (cycle_at z i) \<in> set (ag_segments ag))"
    proof (cases "i = k")
      case True
      then show ?thesis using agi ag k len by (simp add: same active_def ag')
    next
      case False
      then show ?thesis using agi ag unfolding agent by (cases "cy_agent (cycle_at y i) = ?a") (simp_all add: same ag')
    qed
  qed
  moreover have "starts_ok z"
    unfolding starts_ok_def
  proof (intro allI impI)
    fix a g
    assume g: "runtime z a = Some g \<and> ag_abort_started g"
    then obtain g' where "runtime y a = Some g'" "ag_abort_started g'" "ag_cycle g' = ag_cycle g"
      by (auto simp: same ag ag' split: if_splits)
    with sys_okD(2) [OF ok] obtain i where "i < length (sy_runs y)" "ag_cycle g = Some i" "active (sy_runs y ! i)" "cy_agent (cycle_at y i) = a"
      unfolding starts_ok_def by metis
    then show "\<exists>i < length (sy_runs z). ag_cycle g = Some i \<and> active (sy_runs z ! i) \<and> cy_agent (cycle_at z i) = a"
      unfolding agent by (intro exI [of _ i], cases "i = k") (simp_all add: same active_def)
  qed
  moreover have "calls_ok z"
    using sys_okD(3) [OF ok] segs by (auto simp: calls_ok_def same(6) agent intro!: call_ok_mono [of y _ z]) (simp add: same)
  moreover have "flight_ok z" using sys_okD(4) [OF ok] ag by (simp add: flight_ok_def same ag')
  moreover have "queue_ok z" using sys_okD(5) [OF ok] ag
    by (auto simp: queue_ok_def injected_def same joined_def queued_def ag' rq)
  moreover have "chain_ok z"
    unfolding chain_ok_def
  proof (intro allI impI)
    fix a g
    assume g: "runtime z a = Some g"
    show "ag_segments g \<noteq> [] \<and> ag_current g = last (ag_segments g) \<and> bi_agent (ag_binding g) = a \<and>
        (\<forall>s \<in> set (ag_segments g). os_agent s = a \<and> os_room s = bi_room (ag_binding g)) \<and>
        (\<forall>i. Suc i < length (ag_segments g) \<longrightarrow> continues (ag_segments g ! i) (ag_segments g ! Suc i))"
    proof (cases "a = ?a")
      case True
      with g have g': "g = ag'" by (simp add: same)
      have old: "ag_segments ag \<noteq> []" "ag_current ag = last (ag_segments ag)" "bi_agent (ag_binding ag) = ?a"
          "\<forall>s \<in> set (ag_segments ag). os_agent s = ?a \<and> os_room s = bi_room (ag_binding ag)"
          "\<forall>i. Suc i < length (ag_segments ag) \<longrightarrow> continues (ag_segments ag ! i) (ag_segments ag ! Suc i)"
        using sys_okD(6) [OF ok] ag unfolding chain_ok_def by blast+
      have "continues (last (ag_segments ag)) s"
        using old s last_in_set [OF old(1)] by (simp add: continues_def)
      then have "continues ((ag_segments ag @ [s]) ! i) ((ag_segments ag @ [s]) ! Suc i)" if "Suc i < length (ag_segments ag @ [s])" for i
      proof (cases "Suc i = length (ag_segments ag)")
        case True
        then have "i = length (ag_segments ag) - 1" by simp
        then show ?thesis using True old(1) \<open>continues (last (ag_segments ag)) s\<close> by (simp add: nth_append last_conv_nth)
      next
        case False
        then show ?thesis using old(5) that by (simp add: nth_append)
      qed
      with old s True show ?thesis by (simp add: g' ag')
    next
      case False
      with g sys_okD(6) [OF ok] show ?thesis by (simp add: same chain_ok_def)
    qed
  qed
  ultimately have "sys_ok z" using sys_okD(7) [OF ok] by (simp add: sys_ok_def same)
  then show ?thesis by (simp only: z_def)
qed

text \<open>A call that returns from its first locked region.\<close>

lemma done_ok:
  assumes ok: "sys_ok y" and c: "co_agents c = co_agents (sy_coord y)" "co_cycles c = co_cycles (sy_coord y)" "rooms_ok (co_room c)"
  shows "sys_ok (with_coord c (begin_offer req (Offer_Done r) y))"
proof -
  define z where "z = with_coord c (begin_offer req (Offer_Done r) y)"
  have same: "co_agents (sy_coord z) = co_agents (sy_coord y)" "co_cycles (sy_coord z) = co_cycles (sy_coord y)" "co_room (sy_coord z) = co_room c"
    "sy_runs z = sy_runs y" "sy_resumes z = sy_resumes y"
    "sy_calls z = sy_calls y @ [\<lparr>oc_request = req, oc_result = fst r, oc_cycle = None, oc_pc = Returned r\<rparr>]"
    by (simp_all add: z_def with_coord_def c)
  have segs: "Segments b (sy_coord z) = Segments b (sy_coord y)" "queued b (sy_coord z) = queued b (sy_coord y)" for b
    by (simp_all add: Segments_def queued_def same)
  have "runs_ok z" "starts_ok z" "chain_ok z"
    using sys_okD(1,2,6) [OF ok] unfolding runs_ok_def starts_ok_def chain_ok_def same by blast+
  moreover have "calls_ok z"
    using sys_okD(3) [OF ok] by (auto simp: calls_ok_def same segs intro!: call_ok_mono [of y _ z]) (simp add: call_ok_def)
  moreover have "flight_ok z" using sys_okD(4) [OF ok] by (simp add: flight_ok_def same in_flight_def)
  moreover have "queue_ok z" using sys_okD(5) [OF ok] by (simp add: queue_ok_def segs joined_def injected_def same joins_def)
  ultimately have "sys_ok z" using c(3) by (simp add: sys_ok_def same)
  then show ?thesis by (simp only: z_def)
qed

lemma join_ok:
  assumes ok: "sys_ok y" and c: "co_agents c = co_agents (sy_coord y)" "co_cycles c = co_cycles (sy_coord y)" "rooms_ok (co_room c)"
    and ag: "runtime y (of_recipient req) = Some ag" and j: "join_cycle (of_recipient req) result ag c = (res, c')"
  shows "sys_ok (with_coord c' (begin_offer req res y))"
proof -
  let ?a = "of_recipient req" let ?start = "\<not> ag_abort_started ag"
  define k where "k = (if ?start then length (sy_runs y) else the (ag_cycle ag))"
  define ag' where "ag' = ag\<lparr>ag_pending := ag_pending ag @ [queued_message result], ag_inflight := ag_inflight ag + 1,
    ag_abort_started := True, ag_generation := (if ?start then ag_generation ag + 1 else ag_generation ag), ag_cycle := Some k\<rparr>"
  define cy where "cy = \<lparr>cy_agent = ?a, cy_generation = ag_generation ag + 1, cy_done = False, cy_segment = no_segment, cy_err = None\<rparr>"
  define z where "z = with_coord c' (begin_offer req res y)"
  have len: "length (sy_runs y) = length (co_cycles (sy_coord y))" using sys_okD(1) [OF ok] by (simp add: runs_ok_def)
  have cur: "ag_cycle ag = Some k \<and> k < length (sy_runs y) \<and> active (sy_runs y ! k) \<and> cy_agent (cycle_at y k) = ?a" if "\<not> ?start"
    using that sys_okD(2) [OF ok] ag by (fastforce simp: starts_ok_def k_def)
  have "ag_cycle (ag\<lparr>ag_pending := p, ag_inflight := n\<rparr>) = ag_cycle ag" for p n by simp
  have same: "runtime z = (runtime y)(?a \<mapsto> ag')" "co_cycles (sy_coord z) = co_cycles (sy_coord y) @ (if ?start then [cy] else [])"
    "co_room (sy_coord z) = co_room c" "sy_runs z = sy_runs y @ (if ?start then [Aborting] else [])" "sy_resumes z = sy_resumes y"
    "sy_calls z = sy_calls y @ [\<lparr>oc_request = req, oc_result = result, oc_cycle = Some k, oc_pc = Joined\<rparr>]"
    using j cur by (auto simp: z_def with_coord_def c join_cycle_def Let_def cy_def ag'_def k_def len split: if_splits)
  have agent: "cy_agent (cycle_at z i) = cy_agent (cycle_at y i)" if "i < length (sy_runs y)" for i using that len by (simp add: same nth_append)
  have kz: "k < length (sy_runs z) \<and> active (sy_runs z ! k) \<and> cy_agent (cycle_at z k) = ?a"
  proof (cases ?start)
    case True
    then show ?thesis using len [symmetric] by (simp add: same k_def cy_def active_def nth_append)
  next
    case False
    from cur [OF this] len show ?thesis by (simp add: same nth_append)
  qed
  have segs: "Segments b (sy_coord z) = Segments b (sy_coord y)" for b
    by (cases "b = ?a") (simp_all add: Segments_def same ag ag'_def)
  have "runs_ok z"
    unfolding runs_ok_def
  proof (intro conjI allI impI)
    show "length (sy_runs z) = length (co_cycles (sy_coord z))" using len by (simp add: same)
    fix i
    assume i: "i < length (sy_runs z)"
    have "cy_done (cycle_at z i) = (sy_runs z ! i = Closed) \<and> (\<exists>ag. runtime z (cy_agent (cycle_at z i)) = Some ag \<and>
        (active (sy_runs z ! i) \<longrightarrow> ag_abort_started ag \<and> ag_cycle ag = Some i) \<and>
        (sy_runs z ! i \<in> {Resuming, Finishing, Closing, Closed} \<and> cy_err (cycle_at z i) = None \<longrightarrow> cy_segment (cycle_at z i) \<in> set (ag_segments ag)))"
    proof (cases "i < length (sy_runs y)")
      case True
      with sys_okD(1) [OF ok] obtain agi where agi: "cy_done (cycle_at y i) = (sy_runs y ! i = Closed)"
          "runtime y (cy_agent (cycle_at y i)) = Some agi" "active (sy_runs y ! i) \<longrightarrow> ag_abort_started agi \<and> ag_cycle agi = Some i"
          "sy_runs y ! i \<in> {Resuming, Finishing, Closing, Closed} \<and> cy_err (cycle_at y i) = None \<longrightarrow> cy_segment (cycle_at y i) \<in> set (ag_segments agi)"
        unfolding runs_ok_def by blast
      show ?thesis
      proof (cases "cy_agent (cycle_at y i) = ?a")
        case eq: True
        then have "agi = ag" using agi(2) ag by simp
        moreover have "active (sy_runs y ! i) \<longrightarrow> k = i" using agi(3) \<open>agi = ag\<close> by (auto simp: k_def)
        ultimately show ?thesis using agi True len eq by (simp add: same nth_append ag'_def)
      next
        case False
        then show ?thesis using agi True len by (simp add: same nth_append)
      qed
    next
      case False
      then have "?start" "i = length (sy_runs y)" using i by (auto simp: same split: if_splits)
      then show ?thesis using len by (simp add: same nth_append cy_def ag'_def k_def)
    qed
    then show "cy_done (cycle_at z i) = (sy_runs z ! i = Closed)"
      "\<exists>ag. runtime z (cy_agent (cycle_at z i)) = Some ag \<and> (active (sy_runs z ! i) \<longrightarrow> ag_abort_started ag \<and> ag_cycle ag = Some i) \<and>
        (sy_runs z ! i \<in> {Resuming, Finishing, Closing, Closed} \<and> cy_err (cycle_at z i) = None \<longrightarrow> cy_segment (cycle_at z i) \<in> set (ag_segments ag))"
      by blast+
  qed
  moreover have "starts_ok z"
    unfolding starts_ok_def
  proof (intro allI impI)
    fix a g
    assume g: "runtime z a = Some g \<and> ag_abort_started g"
    show "\<exists>i < length (sy_runs z). ag_cycle g = Some i \<and> active (sy_runs z ! i) \<and> cy_agent (cycle_at z i) = a"
    proof (cases "a = ?a")
      case True
      then have "g = ag'" using g by (simp add: same)
      then show ?thesis using kz True by (intro exI [of _ k]) (simp add: ag'_def)
    next
      case False
      with g sys_okD(2) [OF ok] obtain i where "i < length (sy_runs y)" "ag_cycle g = Some i" "active (sy_runs y ! i)" "cy_agent (cycle_at y i) = a"
        unfolding starts_ok_def same by auto
      then show ?thesis using agent by (intro exI [of _ i]) (simp add: same nth_append)
    qed
  qed
  moreover have "calls_ok z"
  proof -
    have "call_ok z call" if "call \<in> set (sy_calls y)" for call
      using sys_okD(3) [OF ok] that agent by (auto simp: calls_ok_def segs same(4) intro!: call_ok_mono [of y _ z])
    moreover have "call_ok z \<lparr>oc_request = req, oc_result = result, oc_cycle = Some k, oc_pc = Joined\<rparr>" using kz by (simp add: call_ok_def)
    ultimately show ?thesis by (auto simp: calls_ok_def same(6))
  qed
  moreover have "flight_ok z" using sys_okD(4) [OF ok] ag by (auto simp: flight_ok_def same in_flight_def ag'_def)
  moreover have "queue_ok z"
    using sys_okD(5) [OF ok] ag by (auto simp: queue_ok_def queued_def joined_def injected_def same joins_def ag'_def)
  moreover have "chain_ok z" using sys_okD(6) [OF ok] ag by (simp add: chain_ok_def same ag'_def)
  ultimately have "sys_ok z" using c(3) by (simp add: sys_ok_def same)
  then show ?thesis by (simp only: z_def)
qed

text \<open>The ways through the first locked region of \<open>Offer\<close>.\<close>

definition publish :: "OfferRequest \<Rightarrow> Coordinator \<Rightarrow> OfferResult \<times> Coordinator" where
  "publish req c =
     (let result = offer_result (fst (AppendMention (mention_of req) (co_room c)))
      in (result, c\<lparr>co_room := snd (AppendMention (mention_of req) (co_room c)),
            co_offers := gput (offerKey (of_room req) (of_key req)) \<lparr>ofr_body = request_body req, ofr_result = result\<rparr> (co_offers c)\<rparr>))"

lemma publish_same [simp]:
  "co_agents (snd (publish req c)) = co_agents c" "co_cycles (snd (publish req c)) = co_cycles c"
  "co_room (snd (publish req c)) = snd (AppendMention (mention_of req) (co_room c))"
  "map_of (co_offers (snd (publish req c))) =
     (map_of (co_offers c))(offerKey (of_room req) (of_key req) \<mapsto> \<lparr>ofr_body = request_body req, ofr_result = fst (publish req c)\<rparr>)"
  by (simp_all add: publish_def Let_def)

lemma publish_rooms_ok: "rooms_ok (co_room c) \<Longrightarrow> rooms_ok (co_room (snd (publish req c)))"
  using step_room(2) [of "co_room c"] by (auto simp: room_step_def)

lemma Offer_cases:
  assumes "Offer running req c = (res, c')"
  obtains (refused) r where "res = Offer_Done r" "c' = c"
  | (published) "res = Offer_Done (fst (publish req c), None)" "c' = snd (publish req c)"
      "map_of (co_offers c) (offerKey (of_room req) (of_key req)) = None"
  | (joins) ag where "join_cycle (of_recipient req) (fst (publish req c)) ag (snd (publish req c)) = (res, c')"
      "map_of (co_offers c) (offerKey (of_room req) (of_key req)) = None" "map_of (co_agents c) (of_recipient req) = Some ag"
      "of_recipient req \<noteq> []" "running \<or> ag_abort_started ag"
proof (cases "validateRequest req \<noteq> None \<or> map_of (co_offers c) (offerKey (of_room req) (of_key req)) \<noteq> None")
  case True
  then show thesis using assms refused by (auto simp: Offer_def Let_def split: option.splits if_splits)
next
  case False
  let ?p = "publish req c"
  have pub: "Offer running req c = (case map_of (co_agents c) (of_recipient req) of None \<Rightarrow> (Offer_Done (fst ?p, None), snd ?p)
      | Some agent \<Rightarrow> if of_recipient req = [] \<or> (\<not> running \<and> \<not> ag_abort_started agent) then (Offer_Done (fst ?p, None), snd ?p)
          else join_cycle (of_recipient req) (fst ?p) agent (snd ?p))"
    using False unfolding Offer_def publish_def Let_def fst_conv snd_conv
    by (cases "AppendMention (mention_of req) (co_room c)") (simp split: option.split)
  show thesis
  proof (cases "map_of (co_agents c) (of_recipient req)")
    case None
    then show thesis using pub assms published False by simp
  next
    case (Some ag)
    show thesis
    proof (cases "of_recipient req = [] \<or> (\<not> running \<and> \<not> ag_abort_started ag)")
      case True
      then show thesis using published pub assms Some False by simp
    next
      case go: False
      then have "Offer running req c = join_cycle (of_recipient req) (fst ?p) ag (snd ?p)" using pub Some by auto
      then show thesis by (intro joins [OF _ _ Some]) (use go assms False in auto)
    qed
  qed
qed

lemma attach_ok:
  assumes ok: "sys_ok y"
  shows "sys_ok (with_coord (snd (Attach b session (sy_coord y))) y)"
proof (cases "snd (Attach b session (sy_coord y)) = sy_coord y")
  case True
  then show ?thesis using ok by (simp add: with_coord_def)
next
  case False
  let ?a = "bi_agent b"
  obtain ag i where new: "runtime y ?a = None" and
    ag: "snd (Attach b session (sy_coord y)) = (sy_coord y)\<lparr>co_agents := gput ?a ag (co_agents (sy_coord y))\<rparr>"
      "ag_abort_started ag = False" "ag_pending ag = []" "ag_inflight ag = 0" "ag_current ag = i" "ag_segments ag = [i]" "ag_binding ag = b"
      "os_agent i = ?a" "os_room i = bi_room b"
    using False by (auto simp: Attach_def Let_def has_key_map_of split: option.splits if_splits)
  define z where "z = with_coord (snd (Attach b session (sy_coord y))) y"
  have same: "runtime z = (runtime y)(?a \<mapsto> ag)" "co_cycles (sy_coord z) = co_cycles (sy_coord y)" "co_room (sy_coord z) = co_room (sy_coord y)"
    "sy_runs z = sy_runs y" "sy_resumes z = sy_resumes y" "sy_calls z = sy_calls y"
    by (simp_all add: z_def with_coord_def ag)
  have segs: "set (Segments b (sy_coord y)) \<subseteq> set (Segments b (sy_coord z))" "queued b (sy_coord z) = queued b (sy_coord y)" for b
    using new by (auto simp: Segments_def queued_def same ag)
  have old: "cy_agent (cycle_at y k) \<noteq> ?a" if "k < length (sy_runs y)" for k
    using sys_okD(1) [OF ok] that new by (fastforce simp: runs_ok_def)
  have "runs_ok z" using sys_okD(1) [OF ok] old unfolding runs_ok_def same by auto
  moreover have "starts_ok z" using sys_okD(2) [OF ok] ag(2) unfolding starts_ok_def same by auto
  moreover have calls: "calls_ok z" using sys_okD(3) [OF ok] segs by (auto simp: calls_ok_def same intro!: call_ok_mono [of y _ z])
  moreover have "flight_ok z"
  proof -
    have "\<not> in_flight ?a call" if "call \<in> set (sy_calls y)" for call
      using sys_okD(3) [OF ok] that old by (fastforce simp: in_flight_def calls_ok_def call_ok_def)
    then have "filter (in_flight ?a) (sy_calls y) = []" by (simp add: filter_empty_conv)
    then show ?thesis using sys_okD(4) [OF ok] ag by (simp add: flight_ok_def same)
  qed
  moreover have "queue_ok z" using sys_okD(5) [OF ok] by (simp add: queue_ok_def segs joined_def injected_def same)
  moreover have "chain_ok z" using sys_okD(6) [OF ok] ag by (simp add: chain_ok_def same)
  ultimately have "sys_ok z" using sys_okD(7) [OF ok] by (simp add: sys_ok_def same)
  then show ?thesis by (simp only: z_def)
qed

lemma perform_ok:
  assumes ok: "sys_ok y" and z: "perform ev y = Some z"
  shows "sys_ok z"
proof (cases ev)
  case (Ev_Offer running req)
  obtain res c where o: "Offer running req (sy_coord y) = (res, c)" by fastforce
  have z': "z = with_coord c (begin_offer req res y)" using z by (simp add: Ev_Offer o)
  from o show ?thesis
  proof (cases rule: Offer_cases)
    case refused
    then show ?thesis using done_ok [OF ok] sys_okD(7) [OF ok] by (simp add: z')
  next
    case published
    show ?thesis unfolding z' published(1,2)
      by (rule done_ok [OF ok _ _ publish_rooms_ok [OF sys_okD(7) [OF ok]]]) simp_all
  next
    case (joins ag)
    show ?thesis unfolding z'
      by (rule join_ok [OF ok _ _ publish_rooms_ok [OF sys_okD(7) [OF ok]] joins(3,1)]) simp_all
  qed
next
  case (Ev_Return j)
  then obtain k where at: "call_at y j Waiting" and k: "oc_cycle (sy_calls y ! j) = Some k" "cy_done (cycle_at y k)"
    and z': "z = call_to j (Returned (cycle_result (oc_result (sy_calls y ! j)) (cycle_at y k))) y"
    using z by (auto simp: Let_def split: if_splits option.splits)
  have "sy_calls y ! j \<in> set (sy_calls y)" using at by (simp add: call_at_def)
  then have k': "k < length (sy_runs y)" "cy_agent (cycle_at y k) = of_recipient (oc_request (sy_calls y ! j))"
    using sys_okD(3) [OF ok] k(1) by (auto simp: calls_ok_def call_ok_def)
  then have "cy_err (cycle_at y k) = None \<Longrightarrow> cy_segment (cycle_at y k) \<in> set (Segments (of_recipient (oc_request (sy_calls y ! j))) (sy_coord y))"
    using sys_okD(1) [OF ok] k(2) by (auto simp: runs_ok_def Segments_def split: option.splits)
  then show ?thesis unfolding z'
    by (intro return_ok [OF ok at]) (auto simp: cycle_result_def split: option.splits)
next
  case (Ev_Drain k)
  then obtain rq c where "run_at y k Draining" "drain k (sy_coord y) = Some (rq, c)"
      "z = with_coord c (run_to k Resuming y)\<lparr>sy_resumes := sy_resumes y @ [(cy_agent (co_cycles c ! k), rq)]\<rparr>"
    using z by (auto split: if_splits option.splits)
  then show ?thesis using drain_ok [OF ok] by simp
qed (use z ok in \<open>auto simp: attach_ok leave_ok close_ok finish_ok intro: return_ok session_call_ok [OF ok] split: if_splits
  simp: active_def\<close>)

interpretation offers: component "\<lambda>y. y = new_sys" offer_step sys_ok
  by unfold_locales (auto simp: sys_ok_new offer_step_def intro: perform_ok)

lemmas reachable_ok = offers.reachable_inv [OF refl]

end
