(* ===== verification/Directed_Offer_Promises.thy ===== *)
theory Directed_Offer_Promises
  imports Directed_Offer_Facts
begin

text \<open>
  The properties of the directed-offer coordinator, over every interleaving of its calls and goroutines.
\<close>

subsection \<open>What one event does to the queues and to the room\<close>

abbreviation waiting :: "string \<Rightarrow> offer_sys \<Rightarrow> QueuedMessage list" where
  "waiting a y \<equiv> queued a (sy_coord y)"

abbreviation offer_key :: "OfferRequest \<Rightarrow> string" where
  "offer_key req \<equiv> offerKey (of_room req) (of_key req)"

definition publishes :: "OfferRequest \<Rightarrow> offer_sys \<Rightarrow> offer_sys \<Rightarrow> bool" where
  "publishes req y z = (map_of (co_offers (sy_coord y)) (offer_key req) = None \<and>
     co_room (sy_coord z) = co_room (snd (publish req (sy_coord y))) \<and> co_offers (sy_coord z) = co_offers (snd (publish req (sy_coord y))))"

definition keeps_room :: "offer_sys \<Rightarrow> offer_sys \<Rightarrow> bool" where
  "keeps_room y z = (co_room (sy_coord z) = co_room (sy_coord y) \<and> co_offers (sy_coord z) = co_offers (sy_coord y))"

definition keeps_queues :: "string \<Rightarrow> offer_sys \<Rightarrow> offer_sys \<Rightarrow> bool" where
  "keeps_queues a y z = (joined a z = joined a y \<and> injected a z = injected a y \<and> waiting a z = waiting a y \<and>
     (\<forall>call \<in> set (sy_calls y). \<exists>call' \<in> set (sy_calls z). oc_request call' = oc_request call \<and> oc_cycle call' = oc_cycle call))"

lemma call_to_requests:
  assumes "j < length (sy_calls y)" "call \<in> set (sy_calls y)"
  shows "\<exists>call' \<in> set (sy_calls (call_to j pc y)). oc_request call' = oc_request call \<and> oc_cycle call' = oc_cycle call"
proof -
  obtain i where i: "i < length (sy_calls y)" "call = sy_calls y ! i" using assms(2) by (metis in_set_conv_nth)
  have "sy_calls (call_to j pc y) ! i \<in> set (sy_calls (call_to j pc y))" using i(1) by (simp add: call_to_def)
  moreover have "oc_request (sy_calls (call_to j pc y) ! i) = oc_request call" "oc_cycle (sy_calls (call_to j pc y) ! i) = oc_cycle call"
    using i assms(1) by (cases "i = j"; simp add: call_to_def)+
  ultimately show ?thesis by blast
qed

lemma set_cycle_err_same: "co_room (set_cycle_err k err c) = co_room c" "co_offers (set_cycle_err k err c) = co_offers c"
  "co_agents (set_cycle_err k err c) = co_agents c"
  by (auto simp: set_cycle_err_def split: option.splits)

lemma leave_same: "co_room (leave_inflight a c) = co_room c" "co_offers (leave_inflight a c) = co_offers c" "queued b (leave_inflight a c) = queued b c"
  by (auto simp: leave_inflight_def queued_def split: option.splits)

lemma finish_same: "co_room (finishCycle a c) = co_room c" "co_offers (finishCycle a c) = co_offers c" "queued b (finishCycle a c) = queued b c"
  by (auto simp: finishCycle_def queued_def Let_def split: option.splits)

lemma close_same: "co_room (close_done k c) = co_room c" "co_offers (close_done k c) = co_offers c" "queued b (close_done k c) = queued b c"
  by (simp_all add: close_done_def queued_def)

lemma attach_same: "co_room (snd (Attach b session c)) = co_room c" "co_offers (snd (Attach b session c)) = co_offers c"
    "queued a (snd (Attach b session c)) = queued a c"
  by (auto simp: Attach_def queued_def Let_def has_key_map_of split: option.splits)

lemma session_call_same:
  assumes "session_call k pc pc' err y = Some z"
  shows "keeps_room y z \<and> keeps_queues a y z"
  using assms by (auto simp: session_call_def keeps_room_def keeps_queues_def with_coord_def run_to_def set_cycle_err_same joined_def
      injected_def queued_def split: if_splits)

text \<open>Apart from the end of a drain and the start of an offer, an event leaves the queues and the room alone.\<close>

lemma perform_same:
  assumes "perform ev y = Some z" "\<nexists>running req. ev = Ev_Offer running req" "\<nexists>k. ev = Ev_Drain k"
  shows "keeps_room y z \<and> keeps_queues a y z"
proof (cases ev)
  case (Ev_Leave j)
  then show ?thesis using assms(1) call_to_requests [of j y]
    by (auto simp: keeps_room_def keeps_queues_def with_coord_def leave_same call_at_def joined_def injected_def call_to_def concat_map_update
        split: if_splits)
next
  case (Ev_Return j)
  then show ?thesis using assms(1) call_to_requests [of j y]
    by (auto simp: keeps_room_def keeps_queues_def call_at_def joined_def injected_def call_to_def concat_map_update Let_def
        split: if_splits option.splits)
next
  case (Ev_Cancel j)
  then show ?thesis using assms(1) call_to_requests [of j y]
    by (auto simp: keeps_room_def keeps_queues_def call_at_def joined_def injected_def call_to_def concat_map_update split: if_splits)
qed (use assms session_call_same in \<open>auto simp: keeps_room_def keeps_queues_def with_coord_def attach_same finish_same close_same run_to_def
    joined_def injected_def split: if_splits\<close>)

lemma perform_drain:
  assumes "perform (Ev_Drain k) y = Some z"
  shows "keeps_room y z" "sy_calls z = sy_calls y" "b \<noteq> cy_agent (cycle_at y k) \<Longrightarrow> keeps_queues b y z"
    "joined (cy_agent (cycle_at y k)) z = joined (cy_agent (cycle_at y k)) y" "waiting (cy_agent (cycle_at y k)) z = []"
    "injected (cy_agent (cycle_at y k)) z = injected (cy_agent (cycle_at y k)) y @ sort_by seq_less (waiting (cy_agent (cycle_at y k)) y)"
    "rq_messages (snd (last (sy_resumes z))) = sort_by seq_less (waiting (cy_agent (cycle_at y k)) y)"
proof -
  let ?a = "cy_agent (cycle_at y k)"
  obtain rq c where d: "drain k (sy_coord y) = Some (rq, c)"
    and z: "z = with_coord c (run_to k Resuming y)\<lparr>sy_resumes := sy_resumes y @ [(cy_agent (co_cycles c ! k), rq)]\<rparr>"
    using assms by (auto split: if_splits option.splits)
  from drain_cases [OF d] obtain ag s ag' where ag: "runtime y ?a = Some ag"
    and ag': "ag' = ag\<lparr>ag_pending := [], ag_segment_seq := ag_segment_seq ag + 1, ag_current := s, ag_segments := ag_segments ag @ [s]\<rparr>"
    and rq: "rq = \<lparr>rq_session = bi_session (ag_binding ag), rq_messages = sort_by seq_less (ag_pending ag)\<rparr>"
    and c: "c = (sy_coord y)\<lparr>co_agents := gput ?a ag' (co_agents (sy_coord y)), co_cycles := (co_cycles (sy_coord y))[k := (cycle_at y k)\<lparr>cy_segment := s\<rparr>]\<rparr>" .
  have agent: "cy_agent (co_cycles c ! k) = ?a"
    by (cases "k < length (co_cycles (sy_coord y))") (simp_all add: c list_update_beyond)
  show "keeps_room y z" "sy_calls z = sy_calls y" "joined ?a z = joined ?a y"
    by (simp_all add: z c keeps_room_def with_coord_def run_to_def joined_def)
  show "waiting ?a z = []" "injected ?a z = injected ?a y @ sort_by seq_less (waiting ?a y)"
    "rq_messages (snd (last (sy_resumes z))) = sort_by seq_less (waiting ?a y)"
    using ag by (simp_all add: z queued_def injected_def with_coord_def run_to_def agent) (simp_all add: c rq ag')
  show "keeps_queues b y z" if "b \<noteq> ?a"
    using that by (auto simp: z keeps_queues_def joined_def queued_def injected_def with_coord_def run_to_def agent) (auto simp: c)
qed

lemma join_cycle_fields:
  assumes "join_cycle a result ag c = (res, c')"
  obtains k start ag' where "res = Offer_Joined result k start" "co_room c' = co_room c" "co_offers c' = co_offers c"
    "co_agents c' = gput a ag' (co_agents c)" "ag_pending ag' = ag_pending ag @ [queued_message result]"
proof (cases "ag_abort_started ag")
  case True
  then show thesis using assms by (intro that [of "the (ag_cycle ag)" False]) (auto simp: join_cycle_def Let_def)
next
  case False
  then show thesis using assms by (intro that [of "length (co_cycles c)" True]) (auto simp: join_cycle_def Let_def)
qed

lemma perform_offer:
  assumes "perform (Ev_Offer running req) y = Some z"
  obtains (refused) "keeps_room y z" "\<And>a. keeps_queues a y z"
  | (published) "publishes req y z" "\<And>a. keeps_queues a y z"
  | (joins) call where "publishes req y z" "\<And>a. a \<noteq> of_recipient req \<Longrightarrow> keeps_queues a y z" "injected (of_recipient req) z = injected (of_recipient req) y"
      "sy_calls z = sy_calls y @ [call]" "oc_request call = req" "oc_cycle call \<noteq> None"
      "joined (of_recipient req) z = joined (of_recipient req) y @ [queued_message (fst (publish req (sy_coord y)))]"
      "waiting (of_recipient req) z = waiting (of_recipient req) y @ [queued_message (fst (publish req (sy_coord y)))]"
proof -
  obtain res c where o: "Offer running req (sy_coord y) = (res, c)" by fastforce
  have z: "z = with_coord c (begin_offer req res y)" using assms by (simp add: o)
  let ?p = "publish req (sy_coord y)"
  from o show thesis
  proof (cases rule: Offer_cases)
    case (refused r)
    show thesis by (rule that(1)) (auto simp: z refused keeps_room_def keeps_queues_def with_coord_def joined_def joins_def injected_def)
  next
    case published
    show thesis by (rule that(2))
        (auto simp: z published publishes_def keeps_queues_def with_coord_def joined_def joins_def injected_def queued_def)
  next
    case (joins ag)
    let ?a = "of_recipient req"
    from join_cycle_fields [OF joins(1)] obtain k start ag' where res: "res = Offer_Joined (fst ?p) k start"
      and agents: "co_room c = co_room (snd ?p)" "co_offers c = co_offers (snd ?p)"
      and ag': "co_agents c = gput ?a ag' (co_agents (snd ?p))" "ag_pending ag' = ag_pending ag @ [queued_message (fst ?p)]" .
    show thesis
    proof (rule that(3))
      show "publishes req y z" using joins(2) by (simp add: publishes_def z with_coord_def agents)
      show "keeps_queues a y z" if "a \<noteq> ?a" for a
        using that by (auto simp: keeps_queues_def z with_coord_def res joined_def joins_def injected_def queued_def ag')
      show "sy_calls z = sy_calls y @ [\<lparr>oc_request = req, oc_result = fst ?p, oc_cycle = Some k, oc_pc = Joined\<rparr>]"
        by (simp add: z with_coord_def res)
    qed (use joins(3) in \<open>simp_all add: z with_coord_def res joined_def joins_def injected_def queued_def ag'\<close>)
  qed
qed

subsection \<open>Calls and goroutines come to an end\<close>

fun call_work :: "call_pc \<Rightarrow> nat" where
  "call_work Joined = 2" | "call_work Waiting = 1" | "call_work (Returned r) = 0"

fun run_work :: "run_pc \<Rightarrow> nat" where
  "run_work Aborting = 6" | "run_work Settling = 5" | "run_work Draining = 4" | "run_work Resuming = 3"
| "run_work Finishing = 2" | "run_work Closing = 1" | "run_work Closed = 0"

definition offer_work :: "offer_sys \<Rightarrow> nat" where
  "offer_work y = sum_list (map (call_work \<circ> oc_pc) (sy_calls y)) + sum_list (map run_work (sy_runs y))"

fun has_returned :: "call_pc \<Rightarrow> bool" where
  "has_returned (Returned r) = True" | "has_returned _ = False"

definition at_rest :: "offer_sys \<Rightarrow> bool" where
  "at_rest y = ((\<forall>call \<in> set (sy_calls y). has_returned (oc_pc call)) \<and> (\<forall>pc \<in> set (sy_runs y). pc = Closed))"

lemma sum_update_less:
  "j < length xs \<Longrightarrow> f x < f (xs ! j) \<Longrightarrow> sum_list (map f (xs[j := x])) < (sum_list (map f xs) :: nat)"
  by (induction xs arbitrary: j) (auto split: nat.splits simp: nth_Cons')

lemma call_down: "call_at y j pc \<Longrightarrow> call_work pc' < call_work pc \<Longrightarrow> offer_work (with_coord c (call_to j pc' y)) < offer_work y"
  by (auto simp: call_at_def offer_work_def with_coord_def call_to_def intro!: sum_update_less)

lemma run_down: "run_at y k pc \<Longrightarrow> run_work pc' < run_work pc \<Longrightarrow> offer_work (with_coord c (run_to k pc' y)) < offer_work y"
  by (auto simp: run_at_def offer_work_def with_coord_def run_to_def intro!: sum_update_less)

lemma inner_down:
  assumes "\<not> from_outside ev" "perform ev y = Some z"
  shows "offer_work z < offer_work y"
proof -
  have return: "call_at y j Waiting \<Longrightarrow> offer_work (call_to j (Returned r) y) < offer_work y" for j r
    using call_down [of y j Waiting "Returned r" "sy_coord (call_to j (Returned r) y)"] by (simp add: with_coord_def)
  have drains: "offer_work (w\<lparr>sy_resumes := rs\<rparr>) = offer_work w" for w rs by (simp add: offer_work_def)
  show ?thesis using assms
    by (cases ev) (auto simp: Let_def session_call_def return drains call_down run_down split: if_splits option.splits)
qed

lemma not_at_rest_moves:
  assumes ok: "sys_ok y" and busy: "\<not> at_rest y"
  shows "\<exists>z. offer_inner y z"
proof (cases "\<forall>pc \<in> set (sy_runs y). pc = Closed")
  case False
  then obtain k where k: "k < length (sy_runs y)" "sy_runs y ! k \<noteq> Closed" by (metis in_set_conv_nth)
  then obtain ag where ag: "runtime y (cy_agent (cycle_at y k)) = Some ag" using sys_okD(1) [OF ok] unfolding runs_ok_def by blast
  have moves: "perform ev y \<noteq> None \<Longrightarrow> \<not> from_outside ev \<Longrightarrow> \<exists>z. offer_inner y z" for ev
    by (auto simp: offer_inner_def)
  show ?thesis
  proof (cases "sy_runs y ! k")
    case Aborting
    then show ?thesis using k by (intro moves [of "Ev_Abort k None"]) (simp_all add: session_call_def run_at_def)
  next
    case Settling
    then show ?thesis using k by (intro moves [of "Ev_Settle k None"]) (simp_all add: session_call_def run_at_def)
  next
    case Draining
    show ?thesis
    proof (cases "0 < ag_inflight ag")
      case True
      then have "filter (in_flight (cy_agent (cycle_at y k))) (sy_calls y) \<noteq> []"
        using sys_okD(4) [OF ok] ag by (auto simp: flight_ok_def)
      then obtain j where "j < length (sy_calls y)" "oc_pc (sy_calls y ! j) = Joined"
        by (auto simp: filter_empty_conv in_flight_def) (metis in_set_conv_nth)
      then show ?thesis by (intro moves [of "Ev_Leave j"]) (simp_all add: call_at_def)
    next
      case False
      then show ?thesis using k Draining ag by (intro moves [of "Ev_Drain k"]) (simp_all add: run_at_def drain_def Let_def)
    qed
  next
    case Resuming
    then show ?thesis using k by (intro moves [of "Ev_Resume k None"]) (simp_all add: session_call_def run_at_def)
  next
    case Finishing
    then show ?thesis using k by (intro moves [of "Ev_Finish k"]) (simp_all add: run_at_def)
  next
    case Closing
    then show ?thesis using k by (intro moves [of "Ev_Close k"]) (simp_all add: run_at_def)
  qed (use k in simp)
next
  case True
  then obtain call where call: "call \<in> set (sy_calls y)" "\<not> has_returned (oc_pc call)" using busy by (auto simp: at_rest_def)
  then obtain j where j: "j < length (sy_calls y)" "call = sy_calls y ! j" by (metis in_set_conv_nth)
  have moves: "perform ev y \<noteq> None \<Longrightarrow> \<not> from_outside ev \<Longrightarrow> \<exists>z. offer_inner y z" for ev
    by (auto simp: offer_inner_def)
  show ?thesis
  proof (cases "oc_pc call")
    case Joined
    then show ?thesis using j by (intro moves [of "Ev_Leave j"]) (simp_all add: call_at_def)
  next
    case Waiting
    then obtain k where k: "oc_cycle call = Some k" "k < length (sy_runs y)"
      using sys_okD(3) [OF ok] call(1) by (fastforce simp: calls_ok_def call_ok_def)
    then have "cy_done (cycle_at y k)" using sys_okD(1) [OF ok] True by (simp add: runs_ok_def)
    then show ?thesis using j k(1) Waiting by (intro moves [of "Ev_Return j"]) (simp_all add: call_at_def Let_def)
  qed (use call(2) in simp)
qed

interpretation offer_rest: quiescing sys_ok offer_inner at_rest offer_work
proof
  show "sys_ok y \<Longrightarrow> offer_inner y z \<Longrightarrow> sys_ok z" for y z by (auto simp: offer_inner_def intro: perform_ok)
  show "offer_inner y z \<Longrightarrow> offer_work z < offer_work y" for y z by (auto simp: offer_inner_def intro: inner_down)
  show "sys_ok y \<Longrightarrow> \<not> at_rest y \<Longrightarrow> \<exists>z. offer_inner y z" for y by (rule not_at_rest_moves)
qed

text \<open>
  C14: every call of \<open>Offer\<close> and every abort/resume cycle comes to an end by itself: from any state the
  coordinator can be in, without cancellations and whatever the sessions answer, the goroutines take at
  most \<open>offer_work\<close> steps, and as long as some call has not returned or some cycle is not closed one of them
  can move, so all of them finish: no interleaving deadlocks on the in-flight counter.
\<close>

theorem offers_terminate:
  assumes "reaches offer_step new_sys y"
  shows "(\<forall>n z. takes offer_inner n y z \<longrightarrow> n \<le> offer_work y) \<and>
    (\<forall>z. reaches offer_inner y z \<and> (\<nexists>u. offer_inner z u) \<longrightarrow> at_rest z) \<and> (\<exists>z. reaches offer_inner y z \<and> at_rest z)"
proof -
  have ok: "sys_ok y" by (rule reachable_ok [OF assms])
  have "at_rest z" if "reaches offer_inner y z" "\<nexists>u. offer_inner z u" for z
    by (rule offer_rest.stuck_at_rest [OF that(1) ok that(2)])
  moreover have "n \<le> offer_work y" if "takes offer_inner n y z" for n z
    using offer_rest.takes_bound [OF that] by linarith
  ultimately show ?thesis using offer_rest.comes_to_rest [OF ok] by blast
qed

text \<open>
  an agent never has two abort/resume cycles at once: of all goroutines between \<open>Abort\<close> and \<open>finishCycle\<close> at
  most one belongs to the agent, it is the cycle its runtime points to, and the abort flag is set exactly
  while there is one.
\<close>

theorem one_cycle_per_agent:
  assumes "reaches offer_step new_sys y" "runtime y a = Some ag"
  shows "(ag_abort_started ag \<longleftrightarrow> (\<exists>k < length (sy_runs y). active (sy_runs y ! k) \<and> cy_agent (cycle_at y k) = a)) \<and>
    (\<forall>k < length (sy_runs y). active (sy_runs y ! k) \<and> cy_agent (cycle_at y k) = a \<longrightarrow> ag_cycle ag = Some k)"
proof -
  have ok: "sys_ok y" by (rule reachable_ok [OF assms(1)])
  have "ag_abort_started ag \<and> ag_cycle ag = Some k" if "k < length (sy_runs y)" "active (sy_runs y ! k)" "cy_agent (cycle_at y k) = a" for k
    using sys_okD(1) [OF ok] that assms(2) unfolding runs_ok_def by fastforce
  moreover have "\<exists>k < length (sy_runs y). active (sy_runs y ! k) \<and> cy_agent (cycle_at y k) = a" if "ag_abort_started ag"
    using sys_okD(2) [OF ok] that assms(2) unfolding starts_ok_def by blast
  ultimately show ?thesis by blast
qed

text \<open>
  the segments of an agent are a chain: each continuation names its predecessor, carries the mention
  reason and the room and agent of the binding, no segment id occurs twice, the current segment is the last
  one, and a call that returned without an error after a cycle returned one of them.
\<close>

theorem segment_chain:
  assumes "reaches offer_step new_sys y" "runtime y a = Some ag"
  shows "(\<forall>i. Suc i < length (ag_segments ag) \<longrightarrow> continues (ag_segments ag ! i) (ag_segments ag ! Suc i)) \<and>
    distinct (map os_id (ag_segments ag)) \<and> ag_current ag = last (ag_segments ag) \<and>
    (\<forall>s \<in> set (ag_segments ag). os_agent s = a \<and> os_room s = bi_room (ag_binding ag)) \<and>
    (\<forall>call \<in> set (sy_calls y). of_recipient (oc_request call) = a \<and> oc_cycle call \<noteq> None \<longrightarrow>
       (\<forall>r. oc_pc call = Returned (r, None) \<longrightarrow> or_segment r \<in> set (ag_segments ag)))"
proof -
  have ok: "sys_ok y" by (rule reachable_ok [OF assms(1)])
  have chain: "Suc i < length (ag_segments ag) \<Longrightarrow> continues (ag_segments ag ! i) (ag_segments ag ! Suc i)" for i
    using sys_okD(6) [OF ok] assms(2) unfolding chain_ok_def by blast
  have longer: "i < j \<Longrightarrow> j < length (ag_segments ag) \<Longrightarrow> length (os_id (ag_segments ag ! i)) < length (os_id (ag_segments ag ! j))" for i j
  proof (induction j)
    case (Suc j)
    have "length (os_id (ag_segments ag ! j)) < length (os_id (ag_segments ag ! Suc j))" using chain [OF Suc.prems(2)] by (simp add: continues_def)
    then show ?case using Suc by (cases "i = j") auto
  qed simp
  have "distinct (map os_id (ag_segments ag))"
    unfolding distinct_conv_nth
  proof (intro allI impI)
    fix i j
    assume "i < length (map os_id (ag_segments ag))" "j < length (map os_id (ag_segments ag))" "i \<noteq> j"
    then show "map os_id (ag_segments ag) ! i \<noteq> map os_id (ag_segments ag) ! j"
      using longer [of i j] longer [of j i] by (cases "i < j") fastforce+
  qed
  moreover have "\<forall>call \<in> set (sy_calls y). of_recipient (oc_request call) = a \<and> oc_cycle call \<noteq> None \<longrightarrow>
       (\<forall>r. oc_pc call = Returned (r, None) \<longrightarrow> or_segment r \<in> set (ag_segments ag))"
    using sys_okD(3) [OF ok] assms(2) by (auto simp: calls_ok_def call_ok_def Segments_def)
  ultimately show ?thesis using chain sys_okD(6) [OF ok] assms(2) unfolding chain_ok_def by blast
qed

subsection \<open>Mentions reach the session exactly once, in room order\<close>

abbreviation room_of :: "offer_sys \<Rightarrow> string \<Rightarrow> roomState" where
  "room_of y r \<equiv> room (co_room (sy_coord y)) r"

definition keys_known :: "offer_sys \<Rightarrow> bool" where
  "keys_known y = (\<forall>r key. map_of (st_mention_keys (room_of y r)) key \<noteq> None \<longrightarrow> map_of (co_offers (sy_coord y)) (offerKey r key) \<noteq> None)"

lemma publishes_room:
  assumes "sys_ok y" "keys_known y" "publishes req y z"
  shows "\<not> or_duplicate (fst (publish req (sy_coord y)))"
    "st_messages (room_of z (of_room req)) = st_messages (room_of y (of_room req)) @ [or_message (fst (publish req (sy_coord y)))]"
    "rm_seq (or_message (fst (publish req (sy_coord y)))) = word_of_nat (Suc (length (st_messages (room_of y (of_room req)))))"
    "r \<noteq> of_room req \<Longrightarrow> room_of z r = room_of y r"
    "map_of (st_mention_keys (room_of z (of_room req))) =
       (map_of (st_mention_keys (room_of y (of_room req))))(of_key req \<mapsto> or_message (fst (publish req (sy_coord y))))"
proof -
  let ?rooms = "co_room (sy_coord y)" and ?m = "mention_of req"
  have am: "am_room ?m = of_room req" "am_key ?m = of_key req" by (simp_all add: mention_of_def)
  have new: "room_ok (room ?rooms (am_room ?m))" "map_of (st_mention_keys (room ?rooms (am_room ?m))) (am_key ?m) = None"
    using sys_okD(7) [OF assms(1)] assms(2,3) unfolding rooms_ok_def keys_known_def publishes_def am by blast+
  from AppendMention_new [OF new] obtain message ds st' where res: "AppendMention ?m ?rooms = (\<lparr>ar_message = message, ar_deliveries = ds,
      ar_duplicate = False, ar_message_count = length (st_messages st'), ar_delivery_count = length (st_deliveries st')\<rparr>, gput (am_room ?m) st' ?rooms)"
    and st': "room_ok st'" "st_messages st' = st_messages (room ?rooms (am_room ?m)) @ [message]"
      "map_of (st_mention_keys st') = (map_of (st_mention_keys (room ?rooms (am_room ?m))))(am_key ?m \<mapsto> message)" by metis
  have p: "or_message (fst (publish req (sy_coord y))) = message" "\<not> or_duplicate (fst (publish req (sy_coord y)))"
    "co_room (sy_coord z) = gput (of_room req) st' ?rooms"
    using assms(3) by (simp_all add: publishes_def publish_def Let_def offer_result_def res am)
  show "rm_seq (or_message (fst (publish req (sy_coord y)))) = word_of_nat (Suc (length (st_messages (room_of y (of_room req)))))"
    using st'(1) unfolding room_ok_def ordered_messages_def st'(2) p(1) am by simp
  show "\<not> or_duplicate (fst (publish req (sy_coord y)))" by (rule p(2))
  show "st_messages (room_of z (of_room req)) = st_messages (room_of y (of_room req)) @ [or_message (fst (publish req (sy_coord y)))]"
    "r \<noteq> of_room req \<Longrightarrow> room_of z r = room_of y r"
    "map_of (st_mention_keys (room_of z (of_room req))) =
       (map_of (st_mention_keys (room_of y (of_room req))))(of_key req \<mapsto> or_message (fst (publish req (sy_coord y))))"
    using st' by (simp_all add: p room_gput am)
qed

definition in_order :: "string \<Rightarrow> string \<Rightarrow> offer_sys \<Rightarrow> bool" where
  "in_order a r y = ((\<forall>call \<in> set (sy_calls y). oc_cycle call \<noteq> None \<and> of_recipient (oc_request call) = a \<longrightarrow> of_room (oc_request call) = r) \<and>
      length (st_messages (room_of y r)) < 2 ^ 63 \<longrightarrow>
     joined a y = injected a y @ waiting a y \<and> sorted_wrt (<) (map (sint \<circ> qm_seq) (joined a y)) \<and>
     (\<forall>q \<in> set (joined a y). sint (qm_seq q) \<le> int (length (st_messages (room_of y r)))))"

interpretation by_seq: keyed_less seq_less "sint \<circ> qm_seq"
  by unfold_locales (simp add: seq_less_def)

lemma keeps_order:
  assumes "in_order a r y" "keeps_queues a y z" "length (st_messages (room_of y r)) \<le> length (st_messages (room_of z r))"
  shows "in_order a r z"
  unfolding in_order_def
proof (intro impI)
  assume z: "(\<forall>call \<in> set (sy_calls z). oc_cycle call \<noteq> None \<and> of_recipient (oc_request call) = a \<longrightarrow> of_room (oc_request call) = r) \<and>
      length (st_messages (room_of z r)) < 2 ^ 63"
  have "of_room (oc_request call) = r" if "call \<in> set (sy_calls y)" "oc_cycle call \<noteq> None" "of_recipient (oc_request call) = a" for call
    using assms(2) that z unfolding keeps_queues_def by metis
  then have "joined a y = injected a y @ waiting a y \<and> sorted_wrt (<) (map (sint \<circ> qm_seq) (joined a y)) \<and>
     (\<forall>q \<in> set (joined a y). sint (qm_seq q) \<le> int (length (st_messages (room_of y r))))"
    using assms(1,3) z unfolding in_order_def by (meson order.strict_trans1)
  then show "joined a z = injected a z @ waiting a z \<and> sorted_wrt (<) (map (sint \<circ> qm_seq) (joined a z)) \<and>
     (\<forall>q \<in> set (joined a z). sint (qm_seq q) \<le> int (length (st_messages (room_of z r))))"
    using assms(2) order_trans [OF _ zle_int [THEN iffD2, OF assms(3)]] by (auto simp: keeps_queues_def)
qed

lemma step_order:
  assumes ok: "sys_ok y" and known: "keys_known y" and ord: "in_order a r y" and z: "perform ev y = Some z"
  shows "keys_known z \<and> in_order a r z"
proof -
  have same: "keeps_room y z \<Longrightarrow> keys_known z" using known by (simp add: keys_known_def keeps_room_def)
  have pub: "keys_known z" "length (st_messages (room_of y r)) \<le> length (st_messages (room_of z r))" if "publishes req y z" for req
  proof -
    note p = publishes_room [OF ok known that]
    have "map_of (co_offers (sy_coord z)) k \<noteq> None" if "map_of (co_offers (sy_coord y)) k \<noteq> None \<or> k = offer_key req" for k
      using \<open>publishes req y z\<close> that by (auto simp: publishes_def)
    then show "keys_known z" using known p(4,5) unfolding keys_known_def by (metis fun_upd_apply)
    show "length (st_messages (room_of y r)) \<le> length (st_messages (room_of z r))"
      using p(2,4) by (cases "r = of_room req") simp_all
  qed
  have still: "keeps_room y z \<Longrightarrow> length (st_messages (room_of y r)) \<le> length (st_messages (room_of z r))" by (simp add: keeps_room_def)
  consider (offer) running req where "ev = Ev_Offer running req" | (drains) k where "ev = Ev_Drain k"
    | (other) "\<nexists>running req. ev = Ev_Offer running req" "\<nexists>k. ev = Ev_Drain k" by blast
  then show ?thesis
  proof cases
    case other
    then show ?thesis using perform_same [OF z other] keeps_order [OF ord] same still by blast
  next
    case (drains k)
    note d = perform_drain [OF z [unfolded drains]]
    show ?thesis
    proof (cases "a = cy_agent (cycle_at y k)")
      case False
      then show ?thesis using d(1) d(3) keeps_order [OF ord] same still by blast
    next
      case True
      have "in_order a r z"
        unfolding in_order_def
      proof (intro impI)
        assume "(\<forall>call \<in> set (sy_calls z). oc_cycle call \<noteq> None \<and> of_recipient (oc_request call) = a \<longrightarrow> of_room (oc_request call) = r) \<and>
          length (st_messages (room_of z r)) < 2 ^ 63"
        then have o: "joined a y = injected a y @ waiting a y" "sorted_wrt (<) (map (sint \<circ> qm_seq) (joined a y))"
            "\<forall>q \<in> set (joined a y). sint (qm_seq q) \<le> int (length (st_messages (room_of y r)))"
          using ord d(1,2) by (auto simp: in_order_def keeps_room_def)
        then have "sorted (map (sint \<circ> qm_seq) (waiting a y))" by (auto simp: sorted_wrt_append strict_sorted_imp_sorted)
        then have "sort_by seq_less (waiting a y) = waiting a y" by (rule by_seq.sort_by_sorted)
        then show "joined a z = injected a z @ waiting a z \<and> sorted_wrt (<) (map (sint \<circ> qm_seq) (joined a z)) \<and>
            (\<forall>q \<in> set (joined a z). sint (qm_seq q) \<le> int (length (st_messages (room_of z r))))"
          using o d True by (simp add: keeps_room_def)
      qed
      then show ?thesis using same d(1) by blast
    qed
  next
    case (offer running req)
    from z [unfolded offer] show ?thesis
    proof (cases rule: perform_offer)
      case refused
      then show ?thesis using same still keeps_order [OF ord] by blast
    next
      case published
      then show ?thesis using pub keeps_order [OF ord] by blast
    next
      case (joins call)
      show ?thesis
      proof (cases "a = of_recipient req")
        case False
        then show ?thesis using pub joins keeps_order [OF ord] by blast
      next
        case True
        have "in_order a r z"
          unfolding in_order_def
        proof (intro impI)
          assume i: "(\<forall>call \<in> set (sy_calls z). oc_cycle call \<noteq> None \<and> of_recipient (oc_request call) = a \<longrightarrow> of_room (oc_request call) = r) \<and>
            length (st_messages (room_of z r)) < 2 ^ 63"
          then have r: "r = of_room req" using joins(4-6) True by simp
          note p = publishes_room [OF ok known joins(1)]
          have small: "Suc (length (st_messages (room_of y r))) < 2 ^ 63" using i p(2) r by simp
          then have o: "joined a y = injected a y @ waiting a y" "sorted_wrt (<) (map (sint \<circ> qm_seq) (joined a y))"
              "\<forall>q \<in> set (joined a y). sint (qm_seq q) \<le> int (length (st_messages (room_of y r)))"
            using ord i joins(4) by (auto simp: in_order_def)
          let ?q = "queued_message (fst (publish req (sy_coord y)))"
          have q: "sint (qm_seq ?q) = int (Suc (length (st_messages (room_of y r))))"
            unfolding queued_message_def QueuedMessage.select_convs p(3) r [symmetric] by (rule word_of_nat_length [OF small])
          have z: "joined a z = joined a y @ [?q]" "length (st_messages (room_of z r)) = Suc (length (st_messages (room_of y r)))"
            using joins(7) True p(2) r by simp_all
          show "joined a z = injected a z @ waiting a z \<and> sorted_wrt (<) (map (sint \<circ> qm_seq) (joined a z)) \<and>
              (\<forall>q \<in> set (joined a z). sint (qm_seq q) \<le> int (length (st_messages (room_of z r))))"
          proof (intro conjI ballI)
            show "joined a z = injected a z @ waiting a z" using o(1) joins(3,7,8) True by simp
            have "sint (qm_seq p) < sint (qm_seq ?q)" if "p \<in> set (joined a y)" for p using o(3) that q by fastforce
            then show "sorted_wrt (<) (map (sint \<circ> qm_seq) (joined a z))" using o(2) by (simp add: z sorted_wrt_append)
            show "sint (qm_seq p) \<le> int (length (st_messages (room_of z r)))" if "p \<in> set (joined a z)" for p
              using o(3) that q by (fastforce simp: z)
          qed
        qed
        then show ?thesis using pub joins(1) by blast
      qed
    qed
  qed
qed

interpretation offer_order: stable "\<lambda>y. y = new_sys" offer_step sys_ok "\<lambda>y. keys_known y \<and> in_order a r y" for a r
  by unfold_locales (auto simp: offer_step_def dest: step_order)

text \<open>What is on record under a key stays there.\<close>

lemma step_offers:
  assumes "offer_step y z" "map_of (co_offers (sy_coord y)) key = Some rec"
  shows "map_of (co_offers (sy_coord z)) key = Some rec"
proof -
  obtain ev where z: "perform ev y = Some z" using assms(1) by (auto simp: offer_step_def)
  have same: "keeps_room y z \<Longrightarrow> ?thesis" using assms(2) by (simp add: keeps_room_def)
  have pub: "publishes req y z \<Longrightarrow> ?thesis" for req using assms(2) by (auto simp: publishes_def)
  consider (offer) running req where "ev = Ev_Offer running req" | (drains) k where "ev = Ev_Drain k"
    | (other) "\<nexists>running req. ev = Ev_Offer running req" "\<nexists>k. ev = Ev_Drain k" by blast
  then show ?thesis
  proof cases
    case (offer running req)
    from z [unfolded offer] show ?thesis by (cases rule: perform_offer) (use same pub in blast)+
  next
    case (drains k)
    then show ?thesis using perform_drain(1) z same by blast
  next
    case other
    then show ?thesis using perform_same [OF z other] same by blast
  qed
qed

interpretation offer_record: stable "\<lambda>y. y = new_sys" offer_step sys_ok "\<lambda>y. map_of (co_offers (sy_coord y)) key = Some rec" for key rec
  by unfold_locales (auto intro: step_offers)

text \<open>
  C17: no mention is lost or doubled between the room and the session: for every agent, the mentions that
  joined one of its cycles are, counted with multiplicity, the ones handed to \<open>session.Resume\<close> and the ones
  still queued, each request of a drain is sorted by room sequence, and after a drain nothing is queued.
\<close>

theorem mentions_conserved:
  assumes "reaches offer_step new_sys y"
  shows "mset (joined a y) = mset (injected a y) + mset (waiting a y) \<and>
    (perform (Ev_Drain k) y = Some z \<longrightarrow>
       (let b = cy_agent (cycle_at y k); rq = snd (last (sy_resumes z)) in
        waiting b z = [] \<and> mset (joined b z) = mset (injected b z) \<and> injected b z = injected b y @ rq_messages rq \<and>
        sorted (map (sint \<circ> qm_seq) (rq_messages rq)) \<and> mset (rq_messages rq) = mset (waiting b y)))"
proof -
  have ok: "sys_ok y" by (rule reachable_ok [OF assms])
  have q: "mset (joined b y) = mset (injected b y) + mset (waiting b y)" for b using sys_okD(5) [OF ok] by (simp add: queue_ok_def)
  have "let b = cy_agent (cycle_at y k); rq = snd (last (sy_resumes z)) in
        waiting b z = [] \<and> mset (joined b z) = mset (injected b z) \<and> injected b z = injected b y @ rq_messages rq \<and>
        sorted (map (sint \<circ> qm_seq) (rq_messages rq)) \<and> mset (rq_messages rq) = mset (waiting b y)" if z: "perform (Ev_Drain k) y = Some z"
    using perform_drain [OF z] q [of "cy_agent (cycle_at y k)"] by_seq.sorted_sort_by by (simp add: Let_def)
  then show ?thesis using q by blast
qed

text \<open>
  when all offers that reached an agent come from one room, its session receives the mentions in exactly
  the order in which they joined, over all resumes together: what was injected so far followed by what is
  queued is the list of joined mentions, with strictly increasing room sequence numbers, so that nothing is
  ever reordered or injected twice (while the room has fewer than 2^63 messages).
\<close>

theorem mentions_in_room_order:
  assumes "reaches offer_step new_sys y" "length (st_messages (room_of y r)) < 2 ^ 63"
    "\<forall>call \<in> set (sy_calls y). oc_cycle call \<noteq> None \<and> of_recipient (oc_request call) = a \<longrightarrow> of_room (oc_request call) = r"
  shows "injected a y @ waiting a y = joined a y \<and> sorted_wrt (<) (map (sint \<circ> qm_seq) (injected a y @ waiting a y))"
proof -
  have "keys_known new_sys \<and> in_order a r new_sys"
    by (simp add: keys_known_def in_order_def new_sys_def NewCoordinator_def NewRoomService_def room_def empty_room_def
        joined_def injected_def queued_def)
  from offer_order.reaches_stable [OF assms(1) sys_ok_new this] assms(2,3) show ?thesis by (auto simp: in_order_def)
qed

text \<open>
  an offer is answered once: after an offer whose key was new, and whatever happens next, an offer with the
  same room, key and body returns the recorded message and deliveries, marked a duplicate, without any
  effect, and one with another body is refused with \<open>ErrOfferBodyConflict\<close>, also without effect.
\<close>

theorem offer_replayed:
  assumes "reaches offer_step new_sys y" "map_of (co_offers (sy_coord y)) (offer_key req) = Some rec" "reaches offer_step y z"
    "validateRequest again = None" "offer_key again = offer_key req"
  shows "Offer running again (sy_coord z) =
    (Offer_Done (if request_body again = ofr_body rec then ((ofr_result rec)\<lparr>or_duplicate := True\<rparr>, None) else (no_result, Some ErrOfferBodyConflict)),
     sy_coord z)"
proof -
  have "map_of (co_offers (sy_coord z)) (offer_key req) = Some rec"
    by (rule offer_record.reaches_stable [OF assms(3) reachable_ok [OF assms(1)] assms(2)])
  then show ?thesis using assms(4,5) by (auto simp: Offer_def Let_def)
qed

subsection \<open>A mention that arrives during the resume\<close>

definition past_drain :: "string \<Rightarrow> offer_sys \<Rightarrow> bool" where
  "past_drain a y = (\<forall>k < length (sy_runs y). cy_agent (cycle_at y k) = a \<longrightarrow> sy_runs y ! k \<notin> {Aborting, Settling, Draining})"

lemma past_drain_run:
  assumes "past_drain a y" "length (sy_runs z) = length (sy_runs y)" "\<And>i. cy_agent (cycle_at z i) = cy_agent (cycle_at y i)"
    "\<And>i. i < length (sy_runs y) \<Longrightarrow> i \<noteq> k \<Longrightarrow> sy_runs z ! i = sy_runs y ! i"
    "k < length (sy_runs y) \<Longrightarrow> sy_runs y ! k \<notin> {Aborting, Settling, Draining} \<Longrightarrow> sy_runs z ! k \<notin> {Aborting, Settling, Draining}"
  shows "past_drain a z"
  unfolding past_drain_def
proof (intro allI impI)
  fix i
  assume "i < length (sy_runs z)" "cy_agent (cycle_at z i) = a"
  with assms(1-3) have "i < length (sy_runs y)" "sy_runs y ! i \<notin> {Aborting, Settling, Draining}" by (auto simp: past_drain_def)
  then show "sy_runs z ! i \<notin> {Aborting, Settling, Draining}" using assms(4,5) by (cases "i = k") auto
qed

lemma session_call_past:
  assumes "past_drain a y" "session_call k pc pc' err y = Some z" "pc \<in> {Aborting, Settling} \<or> pc' = Finishing"
  shows "past_drain a z"
proof -
  have z: "z = with_coord (set_cycle_err k err (sy_coord y)) (run_to k (if err = None then pc' else Finishing) y)"
    and k: "k < length (sy_runs y)" "sy_runs y ! k = pc" using assms(2) by (auto simp: session_call_def run_at_def split: if_splits)
  show ?thesis
  proof (rule past_drain_run [OF assms(1), where k = k])
    show "cy_agent (cycle_at z i) = cy_agent (cycle_at y i)" for i
      by (cases "i = k"; cases "k < length (co_cycles (sy_coord y))") (simp_all add: z with_coord_def set_cycle_err_cycles list_update_beyond)
  qed (use assms(3) k in \<open>auto simp: z with_coord_def run_to_def\<close>)
qed

lemma inner_past:
  assumes past: "past_drain a y" and ev: "\<not> from_outside ev" and z: "perform ev y = Some z"
  shows "past_drain a z \<and> keeps_queues a y z"
proof -
  have same: "past_drain a w" if "sy_runs w = sy_runs y" "co_cycles (sy_coord w) = co_cycles (sy_coord y)" for w
    using past that by (simp add: past_drain_def)
  have offer: "\<nexists>running req. ev = Ev_Offer running req" using ev by auto
  show ?thesis
  proof (cases "\<exists>k. ev = Ev_Drain k")
    case True
    then obtain k where k: "ev = Ev_Drain k" ..
    then have at: "run_at y k Draining" using z by (auto split: if_splits)
    then have other: "a \<noteq> cy_agent (cycle_at y k)" using past by (auto simp: past_drain_def run_at_def)
    obtain rq c where d: "drain k (sy_coord y) = Some (rq, c)"
        and z': "z = with_coord c (run_to k Resuming y)\<lparr>sy_resumes := sy_resumes y @ [(cy_agent (co_cycles c ! k), rq)]\<rparr>"
      using z k by (auto split: if_splits option.splits)
    have "cy_agent (co_cycles c ! i) = cy_agent (cycle_at y i)" for i
      using d by (cases "i = k"; cases "k < length (co_cycles (sy_coord y))") (auto elim!: drain_cases simp: list_update_beyond)
    then have "past_drain a z"
      by (intro past_drain_run [OF past, where k = k]) (simp_all add: z' with_coord_def run_to_def)
    then show ?thesis using perform_drain(3) [OF z [unfolded k]] other by blast
  next
    case False
    have "past_drain a z"
    proof (cases ev)
      case (Ev_Finish k)
      have "co_cycles (finishCycle b c) = co_cycles c" for b c by (auto simp: finishCycle_def Let_def split: option.splits)
      then show ?thesis using Ev_Finish z past_drain_run [OF past, of z k]
        by (auto simp: with_coord_def run_to_def split: if_splits)
    next
      case (Ev_Close k)
      have "cy_agent (co_cycles (close_done k c) ! i) = cy_agent (co_cycles c ! i)" for c i
        by (cases "i = k"; cases "k < length (co_cycles c)") (simp_all add: close_done_def list_update_beyond)
      then show ?thesis using Ev_Close z past_drain_run [OF past, of z k]
        by (auto simp: with_coord_def run_to_def split: if_splits)
    next
      case (Ev_Leave j)
      have "co_cycles (leave_inflight b c) = co_cycles c" for b c by (auto simp: leave_inflight_def split: option.splits)
      then show ?thesis using Ev_Leave z by (auto simp: with_coord_def call_to_def intro!: same split: if_splits)
    next
      case (Ev_Return j)
      then show ?thesis using z by (auto simp: call_to_def Let_def intro!: same split: if_splits option.splits)
    qed (use z ev offer False session_call_past [OF past] in auto)
    then show ?thesis using perform_same [OF z offer] False by blast
  qed
qed

lemma inner_reaches_past:
  "reaches offer_inner z u \<Longrightarrow> past_drain a z \<Longrightarrow> past_drain a u \<and> waiting a u = waiting a z \<and> injected a u = injected a z"
proof (induction rule: reaches.induct)
  case (more s t u)
  then obtain ev where "\<not> from_outside ev" "perform ev t = Some u" by (auto simp: offer_inner_def)
  with more inner_past [of a t ev u] show ?case by (simp add: keeps_queues_def)
qed simp

text \<open>
  a mention that arrives while the session of its agent is being resumed is left behind: it joins the cycle
  that was drained already, so that whatever the goroutines do after that, until they have all finished, it
  stays in the queue and no resume receives it, while its own call waits for that cycle and reports its
  segment as if the mention had been part of it.
\<close>

theorem late_mention_stranded:
  assumes "reaches offer_step new_sys y" "run_at y k Resuming" "cy_agent (cycle_at y k) = of_recipient req"
    "validateRequest req = None" "of_recipient req \<noteq> []" "map_of (co_offers (sy_coord y)) (offer_key req) = None"
    "perform (Ev_Offer running req) y = Some z" "reaches offer_inner z u"
  shows "queued_message (fst (publish req (sy_coord y))) \<in> set (waiting (of_recipient req) u) \<and>
    injected (of_recipient req) u = injected (of_recipient req) y \<and>
    oc_cycle (last (sy_calls z)) = Some k \<and> oc_request (last (sy_calls z)) = req"
proof -
  let ?a = "of_recipient req" let ?p = "publish req (sy_coord y)"
  have ok: "sys_ok y" by (rule reachable_ok [OF assms(1)])
  have k: "k < length (sy_runs y)" "sy_runs y ! k = Resuming" using assms(2) by (auto simp: run_at_def)
  obtain ag where ag: "runtime y ?a = Some ag" "ag_abort_started ag" "ag_cycle ag = Some k"
    using sys_okD(1) [OF ok] k assms(3) by (fastforce simp: runs_ok_def active_def)
  have only: "i = k" if "i < length (sy_runs y)" "active (sy_runs y ! i)" "cy_agent (cycle_at y i) = ?a" for i
    using sys_okD(1) [OF ok] that ag unfolding runs_ok_def by fastforce
  have past: "past_drain ?a y"
    unfolding past_drain_def
  proof (intro allI impI notI)
    fix i
    assume i: "i < length (sy_runs y)" "cy_agent (cycle_at y i) = ?a" "sy_runs y ! i \<in> {Aborting, Settling, Draining}"
    then have "active (sy_runs y ! i)" by (auto simp: active_def)
    from only [OF i(1) this i(2)] i(3) k(2) show False by simp
  qed
  define c where "c = snd (join_cycle ?a (fst ?p) ag (snd ?p))"
  have "Offer running req (sy_coord y) = join_cycle ?a (fst ?p) ag (snd ?p)"
    using assms(4-6) ag unfolding Offer_def publish_def Let_def fst_conv snd_conv
    by (cases "AppendMention (mention_of req) (co_room (sy_coord y))") (simp split: option.split)
  moreover have "join_cycle ?a (fst ?p) ag (snd ?p) = (Offer_Joined (fst ?p) k False, c)" "co_cycles c = co_cycles (sy_coord y)"
    using ag by (simp_all add: c_def join_cycle_def Let_def)
  ultimately have z: "z = with_coord c (begin_offer req (Offer_Joined (fst ?p) k False) y)" "co_cycles c = co_cycles (sy_coord y)"
    using assms(7) by simp_all
  have start: "past_drain ?a z" using past by (simp add: z past_drain_def with_coord_def)
  have first: "queued_message (fst ?p) \<in> set (waiting ?a z) \<and> injected ?a z = injected ?a y"
    using ag by (simp add: z(1) with_coord_def injected_def) (simp add: c_def join_cycle_def Let_def queued_def)
  have "waiting ?a u = waiting ?a z \<and> injected ?a u = injected ?a z" using inner_reaches_past [OF assms(8) start] by blast
  then show ?thesis using first by (simp add: z(1) with_coord_def)
qed

subsection \<open>A run of the coordinator\<close>

lemma performs_reaches: "run_events perform evs y = Some z \<Longrightarrow> reaches offer_step y z"
  by (rule run_events_reaches [where P = "\<lambda>_. True"]) (auto simp: offer_step_def list_all_iff)

lemma performs_inner: "run_events perform evs y = Some z \<Longrightarrow> list_all (\<lambda>ev. \<not> from_outside ev) evs \<Longrightarrow> reaches offer_inner y z"
  by (rule run_events_reaches [where P = "\<lambda>ev. \<not> from_outside ev"]) (auto simp: offer_inner_def)

definition sample_pin :: string where
  "sample_pin = ''sha256:'' @ replicate 64 CHR ''0''"

definition sample_session :: PiSession where
  "sample_session = \<lparr>ps_file = ''f'', ps_id = ''s''\<rparr>"

definition sample_binding :: Binding where
  "sample_binding = \<lparr>bi_evaluation = ''e'', bi_run = ''u'', bi_attempt = ''t'', bi_room = ''r'', bi_agent = ''a'', bi_session = sample_session,
     bi_session_dir = ''/s'', bi_work_dir = ''/w'', bi_profile = sample_pin, bi_provider = sample_pin, bi_model = sample_pin,
     bi_tool_policy = sample_pin, bi_generation = 0, bi_segment = []\<rparr>"

definition sample_offer :: "string \<Rightarrow> OfferRequest" where
  "sample_offer key = \<lparr>of_room = ''r'', of_author = ''u'', of_content = ''hi'', of_key = key, of_recipient = ''a'', of_skill = []\<rparr>"

text \<open>The first mention, up to the resume of its cycle, and what the goroutines do once a second one has come.\<close>

definition until_resume :: "offer_event list" where
  "until_resume = [Ev_Attach sample_binding (Some (''a'', sample_session)), Ev_Offer True (sample_offer ''k1''), Ev_Leave 0, Ev_Abort 0 None,
     Ev_Settle 0 None, Ev_Drain 0]"

definition after_second :: "offer_event list" where
  "after_second = [Ev_Leave 1, Ev_Resume 0 None, Ev_Finish 0, Ev_Close 0, Ev_Return 0, Ev_Return 1]"

definition first_message :: Message where
  "first_message = \<lparr>rm_id = ''message-1'', rm_room = ''r'', rm_seq = 1, rm_author = ''u'', rm_content = ''hi'', rm_reply_to = [], rm_key = ''k1''\<rparr>"

definition first_delivery :: RoomDelivery where
  "first_delivery = \<lparr>rd_id = ''delivery-2'', rd_agent = ''a'', rd_message = ''message-1'', rd_state = ''pending''\<rparr>"

definition first_result :: OfferResult where
  "first_result = \<lparr>or_message = first_message, or_deliveries = [first_delivery], or_duplicate = False,
     or_segment = \<lparr>os_id = [], os_room = [], os_agent = [], os_continuation = [], os_reason = []\<rparr>\<rparr>"

definition second_segment :: OfferSegment where
  "second_segment = \<lparr>os_id = ''segment-a-cont-1'', os_room = ''r'', os_agent = ''a'', os_continuation = ''segment-a'', os_reason = ''DIRECTED_MENTION''\<rparr>"

definition at_resume :: offer_sys where
  "at_resume =
     \<lparr>sy_coord =
        \<lparr>co_room = [(''r'', \<lparr>st_messages = [first_message], st_deliveries = [first_delivery], st_next_sequence = 1, st_next_id = 2,
            st_mention_keys = [(''k1'', first_message)], st_reply_keys = [], st_delivery_keys = [''a'' @ CHR 0x00 # ''message-1'']\<rparr>)],
         co_offers = [(''r'' @ CHR 0x00 # ''k1'',
            \<lparr>ofr_body = \<lparr>bo_author = ''u'', bo_content = ''hi'', bo_recipient = ''a'', bo_skill = []\<rparr>, ofr_result = first_result\<rparr>)],
         co_agents = [(''a'', \<lparr>ag_binding = sample_binding, ag_generation = 1, ag_abort_started = True, ag_pending = [], ag_inflight = 0,
            ag_current = second_segment,
            ag_segments = [\<lparr>os_id = ''segment-a'', os_room = ''r'', os_agent = ''a'', os_continuation = [], os_reason = []\<rparr>, second_segment],
            ag_segment_seq = 1, ag_cycle = Some 0\<rparr>)],
         co_cycles = [\<lparr>cy_agent = ''a'', cy_generation = 1, cy_done = False, cy_segment = second_segment, cy_err = None\<rparr>]\<rparr>,
      sy_calls = [\<lparr>oc_request = sample_offer ''k1'', oc_result = first_result, oc_cycle = Some 0, oc_pc = Waiting\<rparr>],
      sy_runs = [Resuming],
      sy_resumes = [(''a'', \<lparr>rq_session = sample_session,
         rq_messages = [\<lparr>qm_message = ''message-1'', qm_delivery = ''delivery-2'', qm_seq = 1, qm_content = ''hi''\<rparr>]\<rparr>)]\<rparr>"

definition second_offered :: offer_sys where
  "second_offered = the (perform (Ev_Offer True (sample_offer ''k2'')) at_resume)"

definition all_finished :: offer_sys where
  "all_finished = the (run_events perform after_second second_offered)"

lemma sample_run:
  "run_events perform until_resume new_sys = Some at_resume" "perform (Ev_Offer True (sample_offer ''k2'')) at_resume = Some second_offered"
  "run_events perform after_second second_offered = Some all_finished"
  by code_simp+

lemma sample_reaches:
  "reaches offer_step new_sys at_resume" "reaches offer_step new_sys second_offered" "reaches offer_step new_sys all_finished"
  "reaches offer_step at_resume second_offered" "reaches offer_inner second_offered all_finished"
proof -
  have step: "offer_step at_resume second_offered" unfolding offer_step_def by (rule exI) (rule sample_run(2))
  show one: "reaches offer_step new_sys at_resume" by (rule performs_reaches [OF sample_run(1)])
  show "reaches offer_step at_resume second_offered" by (rule reaches_one [of offer_step, OF step])
  then show two: "reaches offer_step new_sys second_offered" by (rule reaches_trans [OF _ one])
  show "reaches offer_step new_sys all_finished" by (rule reaches_trans [OF performs_reaches [OF sample_run(3)] two])
  show "reaches offer_inner second_offered all_finished" by (rule performs_inner [OF sample_run(3)]) (simp add: after_second_def)
qed

lemma sample_ends:
  "at_rest all_finished" "map qm_message (injected ''a'' all_finished) = [''message-1'']" "length (joined ''a'' all_finished) = 2"
  "list_all (\<lambda>call. oc_cycle call = Some 0 \<and> (case oc_pc call of Returned (r, None) \<Rightarrow> os_id (or_segment r) = ''segment-a-cont-1'' | _ \<Rightarrow> False))
     (sy_calls all_finished)"
  "length (Segments ''a'' (sy_coord all_finished)) = 2" "list_all (\<lambda>call. of_room (oc_request call) = ''r'') (sy_calls all_finished)"
  "length (st_messages (room_of all_finished ''r'')) = 2"
  by code_simp+

theorem late_mention_stranded_witness:
  "at_rest all_finished \<and> map qm_message (injected ''a'' all_finished) = [''message-1''] \<and> waiting ''a'' all_finished \<noteq> [] \<and>
   list_all (\<lambda>call. case oc_pc call of Returned (r, None) \<Rightarrow> os_id (or_segment r) = ''segment-a-cont-1'' | _ \<Rightarrow> False) (sy_calls all_finished)"
proof -
  have at: "run_at at_resume 0 Resuming" "cy_agent (cycle_at at_resume 0) = of_recipient (sample_offer ''k2'')"
    "validateRequest (sample_offer ''k2'') = None" "of_recipient (sample_offer ''k2'') \<noteq> []"
    "map_of (co_offers (sy_coord at_resume)) (offer_key (sample_offer ''k2'')) = None" by code_simp+
  from late_mention_stranded [OF sample_reaches(1) at sample_run(2) sample_reaches(5)] have "waiting ''a'' all_finished \<noteq> []"
    by (auto simp: sample_offer_def)
  moreover have "list_all (\<lambda>call. case oc_pc call of Returned (r, None) \<Rightarrow> os_id (or_segment r) = ''segment-a-cont-1'' | _ \<Rightarrow> False) (sy_calls all_finished)"
    using sample_ends(4) by (auto simp: list_all_iff)
  ultimately show ?thesis using sample_ends by simp
qed

theorem offers_terminate_witness: "\<exists>z. reaches offer_inner at_resume z \<and> at_rest z"
  using offers_terminate [OF sample_reaches(1)] by blast

lemma sample_runtimes: "runtime at_resume ''a'' \<noteq> None" "runtime all_finished ''a'' \<noteq> None" "run_at at_resume 0 Resuming"
    "cy_agent (cycle_at at_resume 0) = ''a''"
  by code_simp+

theorem one_cycle_per_agent_witness: "\<exists>ag. runtime at_resume ''a'' = Some ag \<and> ag_cycle ag = Some 0 \<and> ag_abort_started ag"
proof -
  obtain ag where ag: "runtime at_resume ''a'' = Some ag" using sample_runtimes(1) by blast
  have k: "0 < length (sy_runs at_resume)" "active (sy_runs at_resume ! 0)" using sample_runtimes(3) by (simp_all add: run_at_def active_def)
  from one_cycle_per_agent [OF sample_reaches(1) ag] k sample_runtimes(4) ag show ?thesis by blast
qed

theorem segment_chain_witness: "\<exists>ag. runtime all_finished ''a'' = Some ag \<and> length (ag_segments ag) = 2 \<and> distinct (map os_id (ag_segments ag))"
proof -
  obtain ag where ag: "runtime all_finished ''a'' = Some ag" using sample_runtimes(2) by blast
  from segment_chain [OF sample_reaches(3) ag] sample_ends(5) ag show ?thesis by (auto simp: Segments_def)
qed

theorem mentions_conserved_witness: "mset (joined ''a'' all_finished) = mset (injected ''a'' all_finished) + mset (waiting ''a'' all_finished)"
  using mentions_conserved [OF sample_reaches(3)] by blast

theorem mentions_in_room_order_witness:
  "sorted_wrt (<) (map (sint \<circ> qm_seq) (injected ''a'' all_finished @ waiting ''a'' all_finished)) \<and> length (joined ''a'' all_finished) = 2"
proof -
  have "length (st_messages (room_of all_finished ''r'')) < 2 ^ 63" by (simp add: sample_ends(7))
  from mentions_in_room_order [OF sample_reaches(3) this, of "''a''"] sample_ends(3,6) show ?thesis unfolding list_all_iff by blast
qed

theorem offer_replayed_witness:
  "snd (Offer True (sample_offer ''k1'') (sy_coord all_finished)) = sy_coord all_finished"
proof -
  have "map_of (co_offers (sy_coord at_resume)) (offer_key (sample_offer ''k1'')) \<noteq> None" by code_simp
  then obtain rec where rec: "map_of (co_offers (sy_coord at_resume)) (offer_key (sample_offer ''k1'')) = Some rec" by blast
  have later: "reaches offer_step at_resume all_finished"
    by (rule reaches_trans [OF performs_reaches [OF sample_run(3)] sample_reaches(4)])
  have "validateRequest (sample_offer ''k1'') = None" by code_simp
  from offer_replayed [OF sample_reaches(1) rec later this refl] show ?thesis by simp
qed

end
