(* ===== verification/Go_Strings.thy ===== *)
theory Go_Strings
  imports Go_Path Decimal
begin

text \<open>
  More of Go's \<^verbatim>\<open>strings\<close> and \<^verbatim>\<open>strconv\<close>: trimming Unicode white space, a lower-case view of a text for
  searching ASCII words in it, and unsigned decimal parsing.
\<close>

subsection \<open>White space\<close>

text \<open>The UTF-8 encodings of the runes for which \<open>unicode.IsSpace\<close> holds; each decodes as itself from either end.\<close>

definition white_space :: "string list" where
  "white_space =
     [[CHR 0x09], [CHR 0x0A], [CHR 0x0B], [CHR 0x0C], [CHR 0x0D], [CHR 0x20], [CHR 0xC2, CHR 0x85],
      [CHR 0xC2, CHR 0xA0], [CHR 0xE1, CHR 0x9A, CHR 0x80], [CHR 0xE2, CHR 0x80, CHR 0x80],
      [CHR 0xE2, CHR 0x80, CHR 0x81], [CHR 0xE2, CHR 0x80, CHR 0x82], [CHR 0xE2, CHR 0x80, CHR 0x83],
      [CHR 0xE2, CHR 0x80, CHR 0x84], [CHR 0xE2, CHR 0x80, CHR 0x85], [CHR 0xE2, CHR 0x80, CHR 0x86],
      [CHR 0xE2, CHR 0x80, CHR 0x87], [CHR 0xE2, CHR 0x80, CHR 0x88], [CHR 0xE2, CHR 0x80, CHR 0x89],
      [CHR 0xE2, CHR 0x80, CHR 0x8A], [CHR 0xE2, CHR 0x80, CHR 0xA8], [CHR 0xE2, CHR 0x80, CHR 0xA9],
      [CHR 0xE2, CHR 0x80, CHR 0xAF], [CHR 0xE2, CHR 0x81, CHR 0x9F], [CHR 0xE3, CHR 0x80, CHR 0x80]]"

definition leading_space :: "string \<Rightarrow> string option" where
  "leading_space s = find (HasPrefix s) white_space"

definition trailing_space :: "string \<Rightarrow> string option" where
  "trailing_space s = find (HasSuffix s) white_space"

lemma white_space_nonempty: "w \<in> set white_space \<Longrightarrow> w \<noteq> []"
proof -
  have "list_all (\<lambda>w. w \<noteq> []) white_space" by (simp add: white_space_def)
  then show "w \<in> set white_space \<Longrightarrow> w \<noteq> []" by (simp add: list_all_iff)
qed

lemma find_set: "find P xs = Some x \<Longrightarrow> x \<in> set xs \<and> P x"
  by (induction xs) (auto split: if_splits)

lemma leading_space_pos: "leading_space s = Some w \<Longrightarrow> 0 < length w \<and> length w \<le> length s"
  unfolding leading_space_def by (drule find_set) (auto simp: HasPrefix_def white_space_nonempty dest: arg_cong [where f = length])

lemma trailing_space_pos: "trailing_space s = Some w \<Longrightarrow> 0 < length w \<and> length w \<le> length s"
  unfolding trailing_space_def by (drule find_set) (auto simp: HasSuffix_def white_space_nonempty)

lemma leading_space_less: "leading_space s = Some w \<Longrightarrow> length s - length w < length s"
  using leading_space_pos [of s w] by linarith

lemma trailing_space_less: "trailing_space s = Some w \<Longrightarrow> length s - length w < length s"
  using trailing_space_pos [of s w] by linarith

function TrimLeftSpace :: "string \<Rightarrow> string" where
  "TrimLeftSpace s = (case leading_space s of None \<Rightarrow> s | Some w \<Rightarrow> TrimLeftSpace (drop (length w) s))"
  by pat_completeness auto
termination
  by (relation "measure length") (auto dest: leading_space_less)

function TrimRightSpace :: "string \<Rightarrow> string" where
  "TrimRightSpace s = (case trailing_space s of None \<Rightarrow> s | Some w \<Rightarrow> TrimRightSpace (take (length s - length w) s))"
  by pat_completeness auto
termination
  by (relation "measure length") (auto dest: trailing_space_less)

declare TrimLeftSpace.simps [simp del] TrimRightSpace.simps [simp del]

definition TrimSpace :: "string \<Rightarrow> string" where
  "TrimSpace s = TrimRightSpace (TrimLeftSpace s)"

lemmas trim_eval = TrimSpace_def TrimLeftSpace.simps TrimRightSpace.simps leading_space_def trailing_space_def white_space_def
  HasPrefix_def HasSuffix_def

lemma TrimSpace_self: "leading_space s = None \<Longrightarrow> trailing_space s = None \<Longrightarrow> TrimSpace s = s"
  by (simp add: TrimSpace_def TrimLeftSpace.simps [of s] TrimRightSpace.simps [of s])

lemma TrimRightSpace_trailing: "trailing_space (TrimRightSpace s) = None"
proof (induction s rule: TrimRightSpace.induct)
  case (1 s)
  show ?case
  proof (cases "trailing_space s")
    case None
    then show ?thesis by (simp add: TrimRightSpace.simps [of s])
  next
    case (Some w)
    from 1 [OF Some] show ?thesis by (simp add: TrimRightSpace.simps [of s] Some)
  qed
qed

lemma TrimSpace_trailing: "trailing_space (TrimSpace s) = None"
  by (simp add: TrimSpace_def TrimRightSpace_trailing)

lemma TrimRightSpace_prefix: "\<exists>r. s = TrimRightSpace s @ r"
proof (induction s rule: TrimRightSpace.induct)
  case (1 s)
  show ?case
  proof (cases "trailing_space s")
    case None
    then show ?thesis by (simp add: TrimRightSpace.simps [of s])
  next
    case (Some w)
    from 1 [OF Some] obtain r where "take (length s - length w) s = TrimRightSpace (take (length s - length w) s) @ r" ..
    then have "s = TrimRightSpace s @ r @ drop (length s - length w) s"
      by (simp add: TrimRightSpace.simps [of s] Some) (metis append.assoc append_take_drop_id)
    then show ?thesis by blast
  qed
qed

lemma TrimLeftSpace_leading: "leading_space (TrimLeftSpace s) = None"
proof (induction s rule: TrimLeftSpace.induct)
  case (1 s)
  show ?case
  proof (cases "leading_space s")
    case None
    then show ?thesis by (simp add: TrimLeftSpace.simps [of s])
  next
    case (Some w)
    from 1 [OF Some] show ?thesis by (simp add: TrimLeftSpace.simps [of s] Some)
  qed
qed

lemma leading_space_append: "leading_space (s @ r) = None \<Longrightarrow> leading_space s = None"
proof -
  have "HasPrefix (s @ r) w" if "HasPrefix s w" for w
    using that unfolding HasPrefix_def by (metis append_take_drop_id append.assoc append_eq_conv_conj)
  then show "leading_space (s @ r) = None \<Longrightarrow> leading_space s = None" by (auto simp: leading_space_def find_None_iff)
qed

lemma TrimSpace_leading: "leading_space (TrimSpace s) = None"
proof -
  obtain r where "TrimLeftSpace s = TrimSpace s @ r" using TrimRightSpace_prefix unfolding TrimSpace_def by blast
  then show ?thesis using TrimLeftSpace_leading [of s] leading_space_append by metis
qed

lemma TrimSpace_idem: "TrimSpace (TrimSpace s) = TrimSpace s"
  by (rule TrimSpace_self [OF TrimSpace_leading TrimSpace_trailing])

subsection \<open>Lower case, for searching\<close>

text \<open>
  \<open>strings.ToLower\<close> as a search for an ASCII word sees it: ASCII letters, and the two runes outside ASCII whose
  lower case is ASCII (U+0130 and U+212A). Every other rune stays outside ASCII.
\<close>

definition lower_byte :: "char \<Rightarrow> char" where
  "lower_byte c = (if CHR ''A'' \<le> c \<and> c \<le> CHR ''Z'' then char_of ((of_char c :: nat) + 32) else c)"

fun ToLower :: "string \<Rightarrow> string" where
  "ToLower [] = []"
| "ToLower (c # s) =
     (if c = CHR 0xC4 \<and> take 1 s = [CHR 0xB0] then CHR ''i'' # ToLower (drop 1 s)
      else if c = CHR 0xE2 \<and> take 2 s = [CHR 0x84, CHR 0xAA] then CHR ''k'' # ToLower (drop 2 s)
      else lower_byte c # ToLower s)"

subsection \<open>Unsigned decimals\<close>

text \<open>\<open>strconv.ParseUint(s, 10, 64)\<close> on a string of digits.\<close>

definition ParseUint :: "string \<Rightarrow> nat option" where
  "ParseUint s =
     (if s \<noteq> [] \<and> list_all is_digit s \<and> digits_val 0 s < 2 ^ 64 then Some (nat (digits_val 0 s)) else None)"

end
