(* ===== verification/Skill_Fence.thy ===== *)
theory Skill_Fence
  imports Host_Progress Go_Strings
begin

text \<open>
  The fence around an agent that was resumed with a skill offer (\<^verbatim>\<open>internal/skillfence/fence.go\<close>): before any other
  tool it must fetch the pinned skill, the exact body must arrive in its session, and after that only feedback
  is let through. The resolver and the target session are the environment of a call. \<open>HandleToolCall\<close> locks twice
  and works in between without the lock, so a call is a thread with two locked regions around one effect.
\<close>

subsection \<open>Names and records\<close>

datatype fence_error =
    ErrOfferRequired
  | ErrOfferNotBound
  | ErrLatestAlias
  | ErrLocalPath
  | ErrCrossManifestRevision
  | ErrPermissionMismatch
  | ErrDigestMismatch
  | ErrOrdinaryToolFenced
  | ErrFeedbackRequired
  | ErrSkillGetRequired
  | ErrPinnedReferenceRequired
  | ErrManifestDigestRequired
  | ErrSkillGetReferenceMismatch
  | ErrFromInjection

definition ToolSkillGet :: string where "ToolSkillGet = ''skill_get''"
definition ToolSkillFeedback :: string where "ToolSkillFeedback = ''skill_feedback''"
definition FenceGet :: string where "FenceGet = ''skill_get''"
definition FenceFeedback :: string where "FenceFeedback = ''skill_feedback''"
definition StageServed :: string where "StageServed = ''served''"
definition ReasonResolutionError :: string where "ReasonResolutionError = ''resolution_error''"
definition FailureLatestAlias :: string where "FailureLatestAlias = ''latest_alias''"
definition FailureLocalPath :: string where "FailureLocalPath = ''local_path''"
definition FailureCrossManifest :: string where "FailureCrossManifest = ''cross_manifest_revision''"
definition FailurePermission :: string where "FailurePermission = ''permission_mismatch''"
definition FailureDigestMismatch :: string where "FailureDigestMismatch = ''digest_mismatch''"
definition FailureOrdinaryTool :: string where "FailureOrdinaryTool = ''ordinary_tool_fenced''"
definition EvaluationNamespace :: string where "EvaluationNamespace = ''evaluation''"

lemmas fence_names = ToolSkillGet_def ToolSkillFeedback_def FenceGet_def FenceFeedback_def StageServed_def ReasonResolutionError_def
  FailureLatestAlias_def FailureLocalPath_def FailureCrossManifest_def FailurePermission_def FailureDigestMismatch_def FailureOrdinaryTool_def
  EvaluationNamespace_def

record FencedOffer =
  fo_id :: string
  fo_agent :: string
  fo_skill :: string
  fo_manifest :: string

record ToolCall =
  tc_id :: string
  tc_name :: string
  tc_agent :: string
  tc_skill :: string

record ServedFact =
  sf_offer :: string
  sf_agent :: string
  sf_skill :: string
  sf_call :: string
  sf_body :: string
  sf_manifest :: string
  sf_stage :: string

record FenceResult =
  fr_allowed :: bool
  fr_duplicate :: bool
  fr_fence :: string
  fr_reason :: string
  fr_failure :: string
  fr_served :: "ServedFact option"

definition no_decision :: FenceResult where
  "no_decision = \<lparr>fr_allowed = False, fr_duplicate = False, fr_fence = [], fr_reason = [], fr_failure = [], fr_served = None\<rparr>"

record ResolvedView =
  rv_reference :: string
  rv_body :: string
  rv_digest :: string
  rv_manifest :: string

record ResolveRequest =
  rs_manifest :: string
  rs_skill :: string
  rs_agent :: string

text \<open>The error detail of a notice is a message text and left out.\<close>

record ResolutionNotice =
  rn_offer :: string
  rn_agent :: string
  rn_skill :: string
  rn_reason :: string
  rn_failure :: string

text \<open>\<open>rejected\<close> is never written by the code; \<open>fence\<close> is empty until an offer is bound.\<close>

record FenceState =
  fs_offer :: FencedOffer
  fs_bound :: bool
  fs_fence :: string
  fs_served :: "ServedFact list"
  fs_notices :: "ResolutionNotice list"
  fs_calls :: "FenceResult gmap"

definition new_fence :: FenceState where
  "new_fence = \<lparr>fs_offer = \<lparr>fo_id = [], fo_agent = [], fo_skill = [], fo_manifest = []\<rparr>, fs_bound = False, fs_fence = [], fs_served = [],
     fs_notices = [], fs_calls = []\<rparr>"

text \<open>
  What the resolver and the session answer to one call: a resolver error wraps one of the five sentinels that
  \<open>classifyResolve\<close> looks for or is another error with its text; \<open>fe_captured\<close> is what the session holds after the
  injection.
\<close>

datatype resolver_error =
    Wraps_LatestAlias
  | Wraps_LocalPath
  | Wraps_CrossManifest
  | Wraps_Permission
  | Wraps_Digest
  | Other_Error string

record fence_env =
  fe_session_agent :: string
  fe_resolve :: "ResolveRequest \<Rightarrow> resolver_error + ResolvedView"
  fe_inject_fails :: "string \<Rightarrow> bool"
  fe_captured :: "string \<Rightarrow> string"

subsection \<open>Skill references\<close>

definition looksLikeLocalPath :: "string \<Rightarrow> bool" where
  "looksLikeLocalPath raw =
     (HasPrefix raw ''/'' \<or> HasPrefix raw ''./'' \<or> HasPrefix raw ''../'' \<or> HasPrefix raw ''file:'' \<or> HasPrefix raw ''file://'' \<or>
      Contains raw [CHR 0x5C])"

definition isUnpinnedSkillURI :: "string \<Rightarrow> bool" where
  "isUnpinnedSkillURI raw = (HasPrefix raw ''skill://'' \<and> \<not> Contains raw ''@'')"

text \<open>\<open>^skill://([A-Za-z0-9._-]+)/([A-Za-z0-9._-]+)@([1-9][0-9]*)$\<close>: the classes exclude the separators.\<close>

definition ref_char :: "char \<Rightarrow> bool" where
  "ref_char c = ((CHR ''A'' \<le> c \<and> c \<le> CHR ''Z'') \<or> (CHR ''a'' \<le> c \<and> c \<le> CHR ''z'') \<or> is_digit c \<or> c \<in> {CHR ''.'', CHR ''_'', CHR ''-''})"

definition exactSkillRef :: "string \<Rightarrow> (string \<times> string \<times> string) option" where
  "exactSkillRef s =
     (if \<not> HasPrefix s ''skill://'' then None
      else
        let r = drop 8 s; ns = takeWhile ref_char r; r1 = dropWhile ref_char r in
        if ns = [] \<or> take 1 r1 \<noteq> ''/'' then None
        else
          let r2 = drop 1 r1; lineage = takeWhile ref_char r2; r3 = dropWhile ref_char r2 in
          if lineage = [] \<or> take 1 r3 \<noteq> ''@'' then None
          else
            let rev = drop 1 r3 in
            if rev \<noteq> [] \<and> is_digit19 (hd rev) \<and> list_all is_digit (tl rev) then Some (ns, lineage, rev) else None)"

definition ParseExactSkillReference :: "string \<Rightarrow> fence_error + (string \<times> string \<times> nat)" where
  "ParseExactSkillReference raw =
     (let trimmed = TrimSpace raw in
      if looksLikeLocalPath trimmed then Inl ErrLocalPath
      else if Contains (ToLower trimmed) ''@latest'' \<or> isUnpinnedSkillURI trimmed then Inl ErrLatestAlias
      else (case exactSkillRef trimmed of
          None \<Rightarrow> if looksLikeLocalPath trimmed then Inl ErrLocalPath else Inl ErrLatestAlias
        | Some (ns, lineage, revision) \<Rightarrow>
            if ns \<noteq> EvaluationNamespace then Inl ErrPermissionMismatch
            else (case ParseUint revision of None \<Rightarrow> Inl ErrLatestAlias | Some n \<Rightarrow> Inr (ns, lineage, n))))"

subsection \<open>Errors and failures\<close>

fun classifyResolve :: "resolver_error \<Rightarrow> fence_error" where
  "classifyResolve Wraps_LatestAlias = ErrLatestAlias"
| "classifyResolve Wraps_LocalPath = ErrLocalPath"
| "classifyResolve Wraps_CrossManifest = ErrCrossManifestRevision"
| "classifyResolve Wraps_Permission = ErrPermissionMismatch"
| "classifyResolve Wraps_Digest = ErrDigestMismatch"
| "classifyResolve (Other_Error text) =
     (let msg = ToLower text in
      if Contains msg ''latest'' then ErrLatestAlias
      else if Contains msg ''local'' \<or> Contains msg ''file:'' then ErrLocalPath
      else if Contains msg ''permission'' \<or> Contains msg ''scope'' \<or> Contains msg ''denied'' then ErrPermissionMismatch
      else if Contains msg ''digest'' then ErrDigestMismatch
      else ErrCrossManifestRevision)"

definition failureOf :: "fence_error \<Rightarrow> string" where
  "failureOf err =
     (if err = ErrLatestAlias then FailureLatestAlias
      else if err = ErrLocalPath then FailureLocalPath
      else if err = ErrPermissionMismatch then FailurePermission
      else if err = ErrDigestMismatch then FailureDigestMismatch
      else FailureCrossManifest)"

fun firstNonEmpty :: "string list \<Rightarrow> string" where
  "firstNonEmpty [] = []"
| "firstNonEmpty (v # vs) = (if TrimSpace v \<noteq> [] then v else firstNonEmpty vs)"

text \<open>The error a replayed decision is answered with.\<close>

definition resultError :: "FenceResult \<Rightarrow> fence_error option" where
  "resultError r =
     (if fr_allowed r then None
      else if fr_failure r = FailureLatestAlias then Some ErrLatestAlias
      else if fr_failure r = FailureLocalPath then Some ErrLocalPath
      else if fr_failure r = FailureCrossManifest then Some ErrCrossManifestRevision
      else if fr_failure r = FailurePermission then Some ErrPermissionMismatch
      else if fr_failure r = FailureDigestMismatch then Some ErrDigestMismatch
      else if fr_failure r = FailureOrdinaryTool then
        (if fr_fence r = FenceFeedback then Some ErrOrdinaryToolFenced else Some ErrSkillGetRequired)
      else if fr_reason r = FailureOrdinaryTool then
        (if fr_fence r = FenceFeedback then Some ErrFeedbackRequired else Some ErrSkillGetRequired)
      else None)"

subsection \<open>Binding and one call\<close>

definition BindOffer :: "FencedOffer \<Rightarrow> FenceState \<Rightarrow> fence_error option \<times> FenceState" where
  "BindOffer offer c =
     (if TrimSpace (fo_id offer) = [] \<or> TrimSpace (fo_agent offer) = [] then (Some ErrOfferRequired, c)
      else if TrimSpace (fo_manifest offer) = [] then (Some ErrManifestDigestRequired, c)
      else (case ParseExactSkillReference (fo_skill offer) of
          Inl _ \<Rightarrow> (Some ErrPinnedReferenceRequired, c)
        | Inr _ \<Rightarrow> (None, c\<lparr>fs_offer := offer, fs_bound := True, fs_fence := FenceGet\<rparr>)))"

definition failResolution :: "FencedOffer \<Rightarrow> ToolCall \<Rightarrow> fence_error \<Rightarrow> string \<Rightarrow> FenceState \<Rightarrow> (FenceResult \<times> fence_error option) \<times> FenceState" where
  "failResolution offer call err failure c =
     (let notice = \<lparr>rn_offer = fo_id offer, rn_agent = fo_agent offer, rn_skill = firstNonEmpty [tc_skill call, fo_skill offer],
            rn_reason = ReasonResolutionError, rn_failure = failure\<rparr>
      in ((no_decision\<lparr>fr_fence := FenceGet, fr_reason := ReasonResolutionError, fr_failure := failure\<rparr>, Some err),
          c\<lparr>fs_notices := fs_notices c @ [notice]\<rparr>))"

definition handleSkillGet :: "fence_env \<Rightarrow> FencedOffer \<Rightarrow> ToolCall \<Rightarrow> FenceState \<Rightarrow> (FenceResult \<times> fence_error option) \<times> FenceState" where
  "handleSkillGet env offer call c =
     (let ref = (if TrimSpace (tc_skill call) = [] then fo_skill offer else TrimSpace (tc_skill call)) in
      case ParseExactSkillReference ref of
        Inl e \<Rightarrow> failResolution offer call e (failureOf e) c
      | Inr _ \<Rightarrow>
          if ref \<noteq> fo_skill offer then failResolution offer call ErrSkillGetReferenceMismatch FailureCrossManifest c
          else (case fe_resolve env \<lparr>rs_manifest = fo_manifest offer, rs_skill = ref, rs_agent = fo_agent offer\<rparr> of
              Inl err \<Rightarrow> failResolution offer call (classifyResolve err) (failureOf (classifyResolve err)) c
            | Inr resolved \<Rightarrow>
                if rv_manifest resolved \<noteq> [] \<and> rv_manifest resolved \<noteq> fo_manifest offer
                  then failResolution offer call ErrCrossManifestRevision FailureCrossManifest c
                else if rv_digest resolved = [] \<or> DigestBytes (rv_body resolved) \<noteq> rv_digest resolved
                  then failResolution offer call ErrDigestMismatch FailureDigestMismatch c
                else if fe_inject_fails env (rv_body resolved) then failResolution offer call ErrFromInjection FailureDigestMismatch c
                else
                  let capturedDigest = DigestBytes (fe_captured env (rv_body resolved)) in
                  if capturedDigest \<noteq> rv_digest resolved then failResolution offer call ErrDigestMismatch FailureDigestMismatch c
                  else
                    let served = \<lparr>sf_offer = fo_id offer, sf_agent = fo_agent offer, sf_skill = ref, sf_call = tc_id call,
                          sf_body = capturedDigest, sf_manifest = fo_manifest offer, sf_stage = StageServed\<rparr>
                    in ((no_decision\<lparr>fr_allowed := True, fr_fence := FenceFeedback, fr_served := Some served\<rparr>, None),
                        c\<lparr>fs_served := fs_served c @ [served], fs_fence := FenceFeedback\<rparr>)))"

definition dispatch :: "fence_env \<Rightarrow> FencedOffer \<Rightarrow> string \<Rightarrow> ToolCall \<Rightarrow> FenceState \<Rightarrow> (FenceResult \<times> fence_error option) \<times> FenceState" where
  "dispatch env offer fence call c =
     (if tc_agent call \<noteq> [] \<and> tc_agent call \<noteq> fo_agent offer then failResolution offer call ErrPermissionMismatch FailurePermission c
      else if fe_session_agent env \<noteq> [] \<and> fe_session_agent env \<noteq> fo_agent offer then failResolution offer call ErrPermissionMismatch FailurePermission c
      else if fence = FenceGet then
        (if tc_name call \<noteq> ToolSkillGet
         then ((no_decision\<lparr>fr_fence := FenceGet, fr_reason := FailureOrdinaryTool\<rparr>, Some ErrSkillGetRequired), c)
         else handleSkillGet env offer call c)
      else if fence = FenceFeedback then
        (if tc_name call = ToolSkillGet
         then ((no_decision\<lparr>fr_fence := FenceFeedback, fr_reason := FailureOrdinaryTool\<rparr>, Some ErrFeedbackRequired), c)
         else if tc_name call \<noteq> ToolSkillFeedback
         then ((no_decision\<lparr>fr_fence := FenceFeedback, fr_reason := FailureOrdinaryTool\<rparr>, Some ErrOrdinaryToolFenced), c)
         else ((no_decision\<lparr>fr_allowed := True, fr_fence := FenceFeedback\<rparr>, None), c))
      else ((no_decision, Some ErrOfferNotBound), c))"

text \<open>The two locked regions of \<open>HandleToolCall\<close>: an answer at once or what to dispatch, and the record of the decision.\<close>

definition begin_call :: "ToolCall \<Rightarrow> FenceState \<Rightarrow> (FenceResult \<times> fence_error option) + (FencedOffer \<times> string)" where
  "begin_call call c =
     (if \<not> fs_bound c then Inl (no_decision, Some ErrOfferNotBound)
      else (case (if tc_id call = [] then None else map_of (fs_calls c) (tc_id call)) of
          Some existing \<Rightarrow> Inl (existing\<lparr>fr_duplicate := True\<rparr>, resultError (existing\<lparr>fr_duplicate := True\<rparr>))
        | None \<Rightarrow> Inr (fs_offer c, fs_fence c)))"

definition record_call :: "ToolCall \<Rightarrow> FenceResult \<Rightarrow> FenceState \<Rightarrow> FenceState" where
  "record_call call result c =
     (if tc_id call = [] then c else c\<lparr>fs_calls := gput (tc_id call) (result\<lparr>fr_duplicate := False\<rparr>) (fs_calls c)\<rparr>)"

text \<open>A call that nothing interrupts.\<close>

definition HandleToolCall :: "fence_env \<Rightarrow> ToolCall \<Rightarrow> FenceState \<Rightarrow> (FenceResult \<times> fence_error option) \<times> FenceState" where
  "HandleToolCall env call c =
     (case begin_call call c of
        Inl answer \<Rightarrow> (answer, c)
      | Inr (offer, fence) \<Rightarrow>
          let ((result, err), c1) = dispatch env offer fence call c in ((result, err), record_call call result c1))"

subsection \<open>Calls that overlap\<close>

text \<open>A call between its locked regions: it goes on with the offer and the fence it saw in the first one.\<close>

datatype fence_pc =
    Checked FencedOffer string
  | Dispatched "FenceResult \<times> fence_error option"
  | Answered "FenceResult \<times> fence_error option"

record fence_sys =
  fy_state :: FenceState
  fy_calls :: "(ToolCall \<times> fence_pc) list"

definition new_fence_sys :: fence_sys where
  "new_fence_sys = \<lparr>fy_state = new_fence, fy_calls = []\<rparr>"

datatype fence_event = Bind FencedOffer | Begin ToolCall | Dispatch fence_env nat | Conclude nat

text \<open>The middle of a call takes the lock only to append to \<open>notices\<close> or to \<open>served\<close> with the fence: one effect.\<close>

fun fence_perform :: "fence_event \<Rightarrow> fence_sys \<Rightarrow> fence_sys option" where
  "fence_perform (Bind offer) y = Some (y\<lparr>fy_state := snd (BindOffer offer (fy_state y))\<rparr>)"
| "fence_perform (Begin call) y =
     Some (y\<lparr>fy_calls := fy_calls y @ [(call, case begin_call call (fy_state y) of Inl answer \<Rightarrow> Answered answer | Inr (offer, fence) \<Rightarrow> Checked offer fence)]\<rparr>)"
| "fence_perform (Dispatch env i) y =
     (if i < length (fy_calls y) then
        (case fy_calls y ! i of
           (call, Checked offer fence) \<Rightarrow>
             let (answer, c) = dispatch env offer fence call (fy_state y)
             in Some \<lparr>fy_state = c, fy_calls = (fy_calls y)[i := (call, Dispatched answer)]\<rparr>
         | _ \<Rightarrow> None)
      else None)"
| "fence_perform (Conclude i) y =
     (if i < length (fy_calls y) then
        (case fy_calls y ! i of
           (call, Dispatched answer) \<Rightarrow>
             Some \<lparr>fy_state = record_call call (fst answer) (fy_state y), fy_calls = (fy_calls y)[i := (call, Answered answer)]\<rparr>
         | _ \<Rightarrow> None)
      else None)"

definition fence_step :: "fence_sys \<Rightarrow> fence_sys \<Rightarrow> bool" where
  "fence_step y z = (\<exists>ev. fence_perform ev y = Some z)"

text \<open>Calls one after the other.\<close>

definition call_step :: "FenceState \<Rightarrow> FenceState \<Rightarrow> bool" where
  "call_step c c' = ((\<exists>offer. c' = snd (BindOffer offer c)) \<or> (\<exists>env call. c' = snd (HandleToolCall env call c)))"

end
