(* ===== verification/Skill_Fence_Facts.thy ===== *)
theory Skill_Fence_Facts
  imports Skill_Fence
begin

text \<open>
  What the skill fence promises: exact references, a served fact only for the exact body of the pinned skill,
  feedback only after it, and replays of decisions; and two races that the unlocked middle of a call allows.
\<close>

subsection \<open>Exact references\<close>

lemma ref_char_class: "ref_char c \<Longrightarrow> c \<noteq> CHR ''/'' \<and> c \<noteq> CHR ''@'' \<and> c \<noteq> CHR 0x5C"
  by (auto simp: ref_char_def is_digit_def less_eq_char_def)

lemma takeWhile_dropWhile_sep:
  assumes "list_all P xs" "\<not> P c"
  shows "takeWhile P (xs @ c # ys) = xs" "dropWhile P (xs @ c # ys) = c # ys"
  using assms by (induction xs) auto

definition render_skill :: "string \<Rightarrow> string \<Rightarrow> string \<Rightarrow> string" where
  "render_skill ns lineage revision = ''skill://'' @ ns @ CHR ''/'' # lineage @ CHR ''@'' # revision"

definition ref_name :: "string \<Rightarrow> bool" where
  "ref_name s = (s \<noteq> [] \<and> list_all ref_char s)"

definition ref_revision :: "string \<Rightarrow> bool" where
  "ref_revision s = (s \<noteq> [] \<and> is_digit19 (hd s) \<and> list_all is_digit (tl s))"

lemma exactSkillRef_iff:
  "exactSkillRef s = Some (ns, lineage, revision) \<longleftrightarrow>
     s = render_skill ns lineage revision \<and> ref_name ns \<and> ref_name lineage \<and> ref_revision revision"
proof
  assume "exactSkillRef s = Some (ns, lineage, revision)"
  then have p: "HasPrefix s ''skill://''" "ns = takeWhile ref_char (drop 8 s)" "ns \<noteq> []" "take 1 (dropWhile ref_char (drop 8 s)) = ''/''"
    "lineage = takeWhile ref_char (drop 1 (dropWhile ref_char (drop 8 s)))" "lineage \<noteq> []"
    "take 1 (dropWhile ref_char (drop 1 (dropWhile ref_char (drop 8 s)))) = ''@''"
    "revision = drop 1 (dropWhile ref_char (drop 1 (dropWhile ref_char (drop 8 s))))" "ref_revision revision"
    by (auto simp: exactSkillRef_def Let_def ref_revision_def split: if_splits)
  have split: "r = takeWhile ref_char r @ c # drop 1 (dropWhile ref_char r)" if "take 1 (dropWhile ref_char r) = [c]" for r c
    using that takeWhile_dropWhile_id [of ref_char r] by (cases "dropWhile ref_char r") auto
  have "take (length ''skill://'') s = ''skill://''" using p(1) by (simp only: HasPrefix_def)
  moreover have "length ''skill://'' = 8" by simp
  ultimately have "s = ''skill://'' @ drop 8 s" by (metis append_take_drop_id)
  also have "drop 8 s = ns @ CHR ''/'' # lineage @ CHR ''@'' # revision"
    using split [OF p(4)] split [OF p(7)] by (metis p(2,5,8))
  finally show "s = render_skill ns lineage revision \<and> ref_name ns \<and> ref_name lineage \<and> ref_revision revision"
    using p(2,3,5,6,9) by (auto simp: render_skill_def ref_name_def list_all_iff dest: set_takeWhileD)
next
  assume r: "s = render_skill ns lineage revision \<and> ref_name ns \<and> ref_name lineage \<and> ref_revision revision"
  then have *: "list_all ref_char ns" "list_all ref_char lineage" "ns \<noteq> []" "lineage \<noteq> []" by (simp_all add: ref_name_def)
  have sep: "\<not> ref_char (CHR ''/'')" "\<not> ref_char (CHR ''@'')" using ref_char_class by blast+
  have "HasPrefix s ''skill://''" "drop 8 s = ns @ CHR ''/'' # lineage @ CHR ''@'' # revision" using r by (simp_all add: render_skill_def HasPrefix_def)
  then show "exactSkillRef s = Some (ns, lineage, revision)"
    using r * takeWhile_dropWhile_sep [OF *(1) sep(1)] takeWhile_dropWhile_sep [OF *(2) sep(2)]
    by (simp add: exactSkillRef_def Let_def ref_revision_def)
qed

lemma Contains_iff: "Contains s p \<longleftrightarrow> (\<exists>a b. s = a @ p @ b)"
proof (induction s)
  case Nil
  then show ?case by (simp add: Contains_def)
next
  case (Cons c s)
  have pre: "HasPrefix (c # s) p \<longleftrightarrow> (\<exists>b. c # s = p @ b)"
    unfolding HasPrefix_def by (metis append_eq_conv_conj append_take_drop_id)
  have "Contains (c # s) p \<longleftrightarrow> HasPrefix (c # s) p \<or> Contains s p" by (auto simp: Contains_def)
  also have "\<dots> \<longleftrightarrow> (\<exists>a b. c # s = a @ p @ b)"
    unfolding pre Cons.IH by (metis append_Cons append_Nil neq_Nil_conv list.inject)
  finally show ?case .
qed

lemma set_of_parts: "set (w @ ns @ a # ls @ b # rs) = set w \<union> set ns \<union> set ls \<union> set rs \<union> {a, b}"
  by auto

lemma render_chars:
  assumes "ref_name ns" "ref_name lineage" "ref_revision revision" "c \<in> set (render_skill ns lineage revision)"
  shows "ref_char c \<or> c \<in> {CHR '':'', CHR ''/'', CHR ''@''}"
proof -
  have "list_all ref_char revision"
    using assms(3) by (cases revision) (auto simp: ref_revision_def ref_char_def list_all_iff is_digit_def is_digit19_def less_eq_char_def)
  moreover have "list_all (\<lambda>c. ref_char c \<or> c \<in> {CHR '':'', CHR ''/'', CHR ''@''}) ''skill://''" by code_simp
  ultimately have "\<forall>c \<in> set ''skill://'' \<union> set ns \<union> set lineage \<union> set revision. ref_char c \<or> c \<in> {CHR '':'', CHR ''/'', CHR ''@''}"
    using assms(1,2) unfolding ref_name_def list_all_iff by blast
  moreover have "set (render_skill ns lineage revision) = set ''skill://'' \<union> set ns \<union> set lineage \<union> set revision \<union> {CHR ''/'', CHR ''@''}"
    unfolding render_skill_def by (rule set_of_parts)
  ultimately show ?thesis using assms(4) by blast
qed

lemma ToLower_ascii: "list_all (\<lambda>c. of_char c < (128 :: nat)) s \<Longrightarrow> ToLower s = map lower_byte s"
  by (induction s) auto

lemma ref_char_ascii: "ref_char c \<or> c \<in> {CHR '':'', CHR ''/'', CHR ''@''} \<Longrightarrow> of_char c < (128 :: nat)"
  by (auto simp: ref_char_def is_digit_def less_eq_char_def)

lemma lower_byte_at: "lower_byte c = CHR ''@'' \<longleftrightarrow> c = CHR ''@''"
proof -
  have "CHR ''A'' \<le> c \<and> c \<le> CHR ''Z'' \<Longrightarrow> char_of ((of_char c :: nat) + 32) \<noteq> CHR ''@''"
  proof
    assume r: "CHR ''A'' \<le> c \<and> c \<le> CHR ''Z''" and e: "char_of ((of_char c :: nat) + 32) = CHR ''@''"
    then have "(of_char c :: nat) + 32 < 256" by (simp add: less_eq_char_def)
    then have "(of_char c :: nat) + 32 = of_char (CHR ''@'')" using arg_cong [OF e, of "of_char :: char \<Rightarrow> nat"] by (simp add: of_char_of)
    then show False using r by (simp add: less_eq_char_def)
  qed
  then show ?thesis by (auto simp: lower_byte_def less_eq_char_def)
qed

lemma no_at: "CHR ''@'' \<notin> set xs \<Longrightarrow> CHR ''@'' \<notin> set (map lower_byte xs)"
proof (induction xs)
  case (Cons c xs)
  then show ?case using lower_byte_at [of c] by (auto simp del: lower_byte_at)
qed simp

lemma render_not_latest:
  assumes "ref_name ns" "ref_name lineage" "ref_revision revision"
  shows "\<not> Contains (ToLower (render_skill ns lineage revision)) ''@latest''"
proof
  let ?s = "render_skill ns lineage revision" let ?pre = "''skill://'' @ ns @ CHR ''/'' # lineage"
  have s: "?s = ?pre @ CHR ''@'' # revision" by (simp add: render_skill_def)
  assume "Contains (ToLower ?s) ''@latest''"
  moreover have "ToLower ?s = map lower_byte ?s"
    using render_chars [OF assms] ref_char_ascii by (intro ToLower_ascii) (auto simp: list_all_iff)
  ultimately obtain a b where "map lower_byte ?s = a @ ''@latest'' @ b" unfolding Contains_iff by auto
  then have eq: "map lower_byte ?pre @ CHR ''@'' # map lower_byte revision = a @ CHR ''@'' # ''latest'' @ b"
    unfolding s by (simp add: lower_byte_def less_eq_char_def)
  have "\<not> ref_char (CHR ''@'')" using ref_char_class by blast
  then have "CHR ''@'' \<notin> set ?pre" using assms(1,2) by (auto simp: ref_name_def list_all_iff)
  then have 1: "CHR ''@'' \<notin> set (map lower_byte ?pre)" by (rule no_at)
  have "\<forall>c \<in> set revision. is_digit c"
    using assms(3) by (cases revision) (auto simp: ref_revision_def list_all_iff is_digit_def is_digit19_def less_eq_char_def)
  then have same: "map lower_byte revision = revision" by (intro map_idI) (auto simp: lower_byte_def is_digit_def less_eq_char_def)
  moreover have "CHR ''@'' \<notin> set revision" using \<open>\<forall>c \<in> set revision. is_digit c\<close> by (auto simp: is_digit_def less_eq_char_def)
  ultimately have 2: "CHR ''@'' \<notin> set (map lower_byte revision)" "map lower_byte revision = revision" by simp_all
  from eq 1 2(1) have "map lower_byte revision = ''latest'' @ b" by (metis append_Cons_eq_iff)
  then have "hd revision = CHR ''l''" using 2(2) by simp
  then show False using assms(3) by (simp add: ref_revision_def is_digit19_def less_eq_char_def)
qed

lemma render_not_path:
  assumes "ref_name ns" "ref_name lineage" "ref_revision revision"
  shows "\<not> looksLikeLocalPath (render_skill ns lineage revision)" "\<not> isUnpinnedSkillURI (render_skill ns lineage revision)"
proof -
  have "CHR 0x5C \<notin> set (render_skill ns lineage revision)" using render_chars [OF assms] ref_char_class by blast
  then have "\<not> Contains (render_skill ns lineage revision) [CHR 0x5C]" unfolding Contains_iff by (metis in_set_conv_decomp append_Cons append_Nil)
  then show "\<not> looksLikeLocalPath (render_skill ns lineage revision)"
    by (simp add: looksLikeLocalPath_def) (simp add: render_skill_def HasPrefix_def)
  have "Contains (render_skill ns lineage revision) ''@''" unfolding Contains_iff
    by (intro exI [of _ "''skill://'' @ ns @ CHR ''/'' # lineage"] exI [of _ revision]) (simp add: render_skill_def)
  then show "\<not> isUnpinnedSkillURI (render_skill ns lineage revision)" by (simp add: isUnpinnedSkillURI_def)
qed

text \<open>
  a skill reference is accepted exactly when, white space around it aside, it is the rendering of a lineage
  of the evaluation namespace with a positive decimal revision below 2^64, and the parts returned are those.
  Every \<open>latest\<close> alias, local path and other namespace is refused.
\<close>

theorem skill_reference_exact:
  "ParseExactSkillReference raw = Inr (ns, lineage, n) \<longleftrightarrow>
     ns = EvaluationNamespace \<and>
     (\<exists>revision. TrimSpace raw = render_skill ns lineage revision \<and> ref_name lineage \<and> ref_revision revision \<and>
        digits_val 0 revision < 2 ^ 64 \<and> n = nat (digits_val 0 revision))"
proof -
  have name: "ref_name EvaluationNamespace" by code_simp
  have uint: "ParseUint revision = Some n \<longleftrightarrow> digits_val 0 revision < 2 ^ 64 \<and> n = nat (digits_val 0 revision)" if "ref_revision revision" for revision
    using that by (cases revision) (auto simp: ParseUint_def ref_revision_def list_all_iff is_digit_def is_digit19_def less_eq_char_def)
  show ?thesis
  proof
    assume "ParseExactSkillReference raw = Inr (ns, lineage, n)"
    then obtain revision where "exactSkillRef (TrimSpace raw) = Some (ns, lineage, revision)" "ns = EvaluationNamespace" "ParseUint revision = Some n"
      by (auto simp: ParseExactSkillReference_def Let_def split: if_splits option.splits)
    then show "ns = EvaluationNamespace \<and> (\<exists>revision. TrimSpace raw = render_skill ns lineage revision \<and> ref_name lineage \<and>
        ref_revision revision \<and> digits_val 0 revision < 2 ^ 64 \<and> n = nat (digits_val 0 revision))"
      unfolding exactSkillRef_iff using uint by blast
  next
    assume r: "ns = EvaluationNamespace \<and> (\<exists>revision. TrimSpace raw = render_skill ns lineage revision \<and> ref_name lineage \<and>
        ref_revision revision \<and> digits_val 0 revision < 2 ^ 64 \<and> n = nat (digits_val 0 revision))"
    then obtain revision where s: "TrimSpace raw = render_skill EvaluationNamespace lineage revision" "ref_name lineage" "ref_revision revision"
        "ParseUint revision = Some n" "ns = EvaluationNamespace" using uint by blast
    then have "exactSkillRef (TrimSpace raw) = Some (EvaluationNamespace, lineage, revision)" unfolding exactSkillRef_iff using name by simp
    then show "ParseExactSkillReference raw = Inr (ns, lineage, n)"
      using s render_not_latest [OF name s(2,3)] render_not_path [OF name s(2,3)] by (simp add: ParseExactSkillReference_def Let_def)
  qed
qed

subsection \<open>What one call does\<close>

text \<open>When the exact body of the pinned skill is in the session of the right agent.\<close>

definition delivered :: "fence_env \<Rightarrow> FencedOffer \<Rightarrow> ToolCall \<Rightarrow> bool" where
  "delivered env offer call =
     (tc_name call = ToolSkillGet \<and> tc_agent call \<in> {[], fo_agent offer} \<and> fe_session_agent env \<in> {[], fo_agent offer} \<and>
      TrimSpace (tc_skill call) \<in> {[], fo_skill offer} \<and> (\<exists>r. ParseExactSkillReference (fo_skill offer) = Inr r) \<and>
      (case fe_resolve env \<lparr>rs_manifest = fo_manifest offer, rs_skill = fo_skill offer, rs_agent = fo_agent offer\<rparr> of
         Inl _ \<Rightarrow> False
       | Inr view \<Rightarrow> rv_manifest view \<in> {[], fo_manifest offer} \<and> rv_digest view = DigestBytes (rv_body view) \<and>
           \<not> fe_inject_fails env (rv_body view) \<and> DigestBytes (fe_captured env (rv_body view)) = rv_digest view))"

definition proof_of :: "fence_env \<Rightarrow> FencedOffer \<Rightarrow> ToolCall \<Rightarrow> ServedFact" where
  "proof_of env offer call =
     \<lparr>sf_offer = fo_id offer, sf_agent = fo_agent offer, sf_skill = fo_skill offer, sf_call = tc_id call,
      sf_body = DigestBytes (fe_captured env (case fe_resolve env \<lparr>rs_manifest = fo_manifest offer, rs_skill = fo_skill offer,
        rs_agent = fo_agent offer\<rparr> of Inl _ \<Rightarrow> [] | Inr view \<Rightarrow> rv_body view)),
      sf_manifest = fo_manifest offer, sf_stage = StageServed\<rparr>"

lemma DigestBytes_nonempty [simp]: "DigestBytes s \<noteq> []"
  by (simp add: DigestBytes_def)

lemma failResolution_simps [simp]:
  "fst (fst (failResolution offer call e f c)) = no_decision\<lparr>fr_fence := FenceGet, fr_reason := ReasonResolutionError, fr_failure := f\<rparr>"
  "snd (fst (failResolution offer call e f c)) = Some e"
  "fs_served (snd (failResolution offer call e f c)) = fs_served c" "fs_fence (snd (failResolution offer call e f c)) = fs_fence c"
  "fs_offer (snd (failResolution offer call e f c)) = fs_offer c" "fs_bound (snd (failResolution offer call e f c)) = fs_bound c"
  "fs_calls (snd (failResolution offer call e f c)) = fs_calls c"
  by (simp_all add: failResolution_def Let_def)

definition refusal :: "FenceResult \<times> fence_error option \<Rightarrow> bool" where
  "refusal answer = (\<not> fr_allowed (fst answer) \<and> fr_served (fst answer) = None \<and> snd answer \<noteq> None)"

lemma handleSkillGet_cases:
  obtains (failed) e f where "handleSkillGet env offer call c = failResolution offer call e f c" "\<not> delivered env offer call"
  | (served) "handleSkillGet env offer call c =
        ((no_decision\<lparr>fr_allowed := True, fr_fence := FenceFeedback, fr_served := Some (proof_of env offer call)\<rparr>, None),
         c\<lparr>fs_served := fs_served c @ [proof_of env offer call], fs_fence := FenceFeedback\<rparr>)"
      "tc_name call = ToolSkillGet \<Longrightarrow> tc_agent call \<in> {[], fo_agent offer} \<Longrightarrow> fe_session_agent env \<in> {[], fo_agent offer} \<Longrightarrow> delivered env offer call"
proof (cases "TrimSpace (tc_skill call) \<in> {[], fo_skill offer}")
  case False
  then have "\<exists>e f. handleSkillGet env offer call c = failResolution offer call e f c"
    by (cases "ParseExactSkillReference (TrimSpace (tc_skill call))") (auto simp: handleSkillGet_def Let_def)
  with False that(1) show ?thesis unfolding delivered_def by blast
next
  case True
  let ?key = "\<lparr>rs_manifest = fo_manifest offer, rs_skill = fo_skill offer, rs_agent = fo_agent offer\<rparr>"
  have ref: "(if TrimSpace (tc_skill call) = [] then fo_skill offer else TrimSpace (tc_skill call)) = fo_skill offer" using True by auto
  note get = handleSkillGet_def [of env offer call c, unfolded Let_def, unfolded ref]
  show ?thesis
  proof (cases "ParseExactSkillReference (fo_skill offer)")
    case (Inl e)
    show ?thesis by (rule that(1)) (use Inl in \<open>simp_all add: get delivered_def\<close>)
  next
    case (Inr r)
    obtain x y z where r: "r = (x, y, z)" by (cases r)
    show ?thesis
    proof (cases "fe_resolve env ?key")
      case (Inl err)
      show ?thesis by (rule that(1)) (use Inl Inr in \<open>simp_all add: get delivered_def\<close>)
    next
      case view: (Inr view)
      show ?thesis
      proof (cases "rv_manifest view \<in> {[], fo_manifest offer} \<and> rv_digest view = DigestBytes (rv_body view) \<and>
          \<not> fe_inject_fails env (rv_body view) \<and> DigestBytes (fe_captured env (rv_body view)) = rv_digest view")
        case good: True
        then have "rv_digest view \<noteq> []" by simp
        show ?thesis
          by (rule that(2)) (use good view Inr True r in \<open>auto simp: get delivered_def proof_of_def\<close>)
      next
        case False
        then have "\<exists>e f. handleSkillGet env offer call c = failResolution offer call e f c"
          by (auto simp: get Inr view)
        moreover have "\<not> delivered env offer call" using False view by (auto simp: delivered_def)
        ultimately show ?thesis using that(1) by blast
      qed
    qed
  qed
qed

lemma dispatch_get:
  fixes c :: FenceState
  assumes "dispatch env offer FenceGet call c = (answer, c')"
  shows "fs_offer c' = fs_offer c \<and> fs_bound c' = fs_bound c \<and> fs_calls c' = fs_calls c \<and>
    (if delivered env offer call
     then fst answer = no_decision\<lparr>fr_allowed := True, fr_fence := FenceFeedback, fr_served := Some (proof_of env offer call)\<rparr> \<and> snd answer = None \<and>
       fs_served c' = fs_served c @ [proof_of env offer call] \<and> fs_fence c' = FenceFeedback
     else refusal answer \<and> fs_served c' = fs_served c \<and> fs_fence c' = fs_fence c)"
proof -
  have fail: "failResolution offer call e f c = (answer, c') \<Longrightarrow>
      fs_offer c' = fs_offer c \<and> fs_bound c' = fs_bound c \<and> fs_calls c' = fs_calls c \<and> refusal answer \<and> fs_served c' = fs_served c \<and> fs_fence c' = fs_fence c"
    for e f by (auto simp: failResolution_def Let_def refusal_def no_decision_def)
  show ?thesis
  proof (cases "tc_agent call \<notin> {[], fo_agent offer} \<or> fe_session_agent env \<notin> {[], fo_agent offer} \<or> tc_name call \<noteq> ToolSkillGet")
    case True
    then show ?thesis using assms fail
      by (auto simp: dispatch_def delivered_def refusal_def no_decision_def split: if_splits)
  next
    case False
    then have get: "handleSkillGet env offer call c = (answer, c')" using assms by (auto simp: dispatch_def)
    show ?thesis
    proof (cases rule: handleSkillGet_cases [of env offer call c])
      case (failed e f)
      then show ?thesis using get fail by simp
    next
      case served
      then show ?thesis using get False by auto
    qed
  qed
qed

lemma dispatch_frame:
  fixes c :: FenceState
  assumes "dispatch env offer fence call c = ((r, err), c')"
  shows "fs_calls c' = fs_calls c \<and> \<not> fr_duplicate r"
proof -
  have "fs_calls (snd x) = fs_calls c \<and> \<not> fr_duplicate (fst (fst x))" if "x = handleSkillGet env offer call c" for x
    using that by (cases rule: handleSkillGet_cases [of env offer call c]) (simp_all add: no_decision_def)
  note get = this [OF refl]
  have "fs_calls (snd (dispatch env offer fence call c)) = fs_calls c \<and> \<not> fr_duplicate (fst (fst (dispatch env offer fence call c)))"
    unfolding dispatch_def using get by (simp add: no_decision_def)
  then show ?thesis by (simp add: assms)
qed

lemma dispatch_feedback:
  assumes "dispatch env offer FenceFeedback call c = (answer, c')"
  shows "fs_offer c' = fs_offer c \<and> fs_bound c' = fs_bound c \<and> fs_calls c' = fs_calls c \<and> fs_served c' = fs_served c \<and> fs_fence c' = fs_fence c \<and>
    (if tc_name call = ToolSkillFeedback \<and> tc_agent call \<in> {[], fo_agent offer} \<and> fe_session_agent env \<in> {[], fo_agent offer}
     then answer = (no_decision\<lparr>fr_allowed := True, fr_fence := FenceFeedback\<rparr>, None) else refusal answer)"
  using assms
  by (auto simp: dispatch_def fence_names failResolution_def Let_def refusal_def no_decision_def split: if_splits)

subsection \<open>The fence, call after call\<close>

definition served_for :: "FencedOffer \<Rightarrow> ServedFact \<Rightarrow> bool" where
  "served_for offer f = (sf_offer f = fo_id offer \<and> sf_agent f = fo_agent offer \<and> sf_skill f = fo_skill offer \<and> sf_manifest f = fo_manifest offer \<and>
     sf_stage f = StageServed)"

definition fence_ok :: "FenceState \<Rightarrow> bool" where
  "fence_ok c = (fs_fence c \<in> {[], FenceGet, FenceFeedback} \<and> (fs_bound c \<longleftrightarrow> fs_fence c \<noteq> []) \<and>
     (fs_fence c = FenceFeedback \<longrightarrow> (\<exists>f \<in> set (fs_served c). served_for (fs_offer c) f)))"

lemma fence_distinct: "FenceGet \<noteq> FenceFeedback" "FenceGet \<noteq> []" "FenceFeedback \<noteq> []" "ToolSkillGet \<noteq> ToolSkillFeedback"
  by (simp_all add: fence_names)

lemma fence_ok_new: "fence_ok new_fence"
  using fence_distinct by (simp add: fence_ok_def new_fence_def)

lemma record_call_simps [simp]:
  "fs_offer (record_call call r c) = fs_offer c" "fs_bound (record_call call r c) = fs_bound c" "fs_fence (record_call call r c) = fs_fence c"
  "fs_served (record_call call r c) = fs_served c" "fs_notices (record_call call r c) = fs_notices c"
  by (simp_all add: record_call_def)

text \<open>A call is answered from the record, or dispatched under the bound offer and its fence and recorded.\<close>

definition on_record :: "ToolCall \<Rightarrow> FenceState \<Rightarrow> FenceResult option" where
  "on_record call c = (if tc_id call = [] then None else map_of (fs_calls c) (tc_id call))"

lemma HandleToolCall_cases:
  assumes "HandleToolCall env call c = (answer, c')"
  obtains (unbound) "\<not> fs_bound c" "answer = (no_decision, Some ErrOfferNotBound)" "c' = c"
  | (replayed) r where "fs_bound c" "on_record call c = Some r" "answer = (r\<lparr>fr_duplicate := True\<rparr>, resultError r)" "c' = c"
  | (dispatched) c1 where "fs_bound c" "on_record call c = None" "dispatch env (fs_offer c) (fs_fence c) call c = (answer, c1)"
      "c' = record_call call (fst answer) c1"
  using assms by (auto simp: HandleToolCall_def begin_call_def on_record_def Let_def resultError_def split: option.splits if_splits prod.splits)

lemma dispatch_ok:
  assumes "fence_ok c" "fs_bound c" "dispatch env (fs_offer c) (fs_fence c) call c = (answer, c')"
  shows "fence_ok c' \<and> fs_calls c' = fs_calls c \<and> fs_offer c' = fs_offer c \<and> fs_bound c'"
proof -
  consider "fs_fence c = FenceGet" | "fs_fence c = FenceFeedback" using assms(1,2) by (auto simp: fence_ok_def)
  then show ?thesis
  proof cases
    case 1
    have "served_for (fs_offer c) (proof_of env (fs_offer c) call)" by (simp add: served_for_def proof_of_def)
    then show ?thesis using dispatch_get [OF assms(3) [unfolded 1]] assms(1,2) 1 fence_distinct
      by (auto simp: fence_ok_def split: if_splits)
  next
    case 2
    then show ?thesis using dispatch_feedback [OF assms(3) [unfolded 2]] assms(1,2) by (auto simp: fence_ok_def)
  qed
qed

lemma call_step_ok: "fence_ok c \<Longrightarrow> call_step c c' \<Longrightarrow> fence_ok c'"
proof -
  assume ok: "fence_ok c" and "call_step c c'"
  then consider (bind) offer where "c' = snd (BindOffer offer c)" | (call) env call where "c' = snd (HandleToolCall env call c)"
    by (auto simp: call_step_def)
  then show "fence_ok c'"
  proof cases
    case bind
    then show ?thesis using ok fence_distinct by (auto simp: BindOffer_def fence_ok_def split: sum.splits)
  next
    case (call env call)
    obtain answer c1 where h: "HandleToolCall env call c = (answer, c1)" by fastforce
    then have c': "c' = c1" using call by simp
    from h show ?thesis
    proof (cases rule: HandleToolCall_cases)
      case (dispatched c2)
      have "fence_ok (record_call call (fst answer) c2) = fence_ok c2" by (simp add: fence_ok_def)
      then show ?thesis using dispatch_ok [OF ok dispatched(1,3)] by (simp add: c' dispatched(4))
    qed (use ok c' in simp_all)
  qed
qed

text \<open>A decision on record under a call id stays there.\<close>

lemma call_step_record:
  assumes "map_of (fs_calls c) k = Some r" "call_step c c'"
  shows "map_of (fs_calls c') k = Some r"
proof -
  consider (bind) offer where "c' = snd (BindOffer offer c)" | (call) env call where "c' = snd (HandleToolCall env call c)"
    using assms(2) by (auto simp: call_step_def)
  then show ?thesis
  proof cases
    case bind
    then show ?thesis using assms(1) by (auto simp: BindOffer_def split: sum.splits)
  next
    case (call env call)
    obtain answer c1 where h: "HandleToolCall env call c = (answer, c1)" by fastforce
    then have c': "c' = c1" using call by simp
    from h show ?thesis
    proof (cases rule: HandleToolCall_cases)
      case (dispatched c2)
      obtain r err where "answer = (r, err)" by (cases answer)
      then have "fs_calls c2 = fs_calls c" using dispatch_frame dispatched(3) by blast
      then show ?thesis using assms(1) dispatched by (auto simp: c' record_call_def on_record_def split: if_splits)
    qed (use assms(1) c' in simp_all)
  qed
qed

interpretation fence: stable "\<lambda>c. c = new_fence" call_step fence_ok "\<lambda>c. map_of (fs_calls c) k = Some r" for k r
  by unfold_locales (auto simp: fence_ok_new intro: call_step_ok call_step_record)

text \<open>What a recorded permission rests on: something was served, and the fact it names, if any, is on the list.\<close>

definition records_ok :: "FenceState \<Rightarrow> bool" where
  "records_ok c = (\<forall>k d. map_of (fs_calls c) k = Some d \<and> fr_allowed d \<longrightarrow>
     (\<exists>f \<in> set (fs_served c). sf_stage f = StageServed) \<and> (\<forall>f. fr_served d = Some f \<longrightarrow> f \<in> set (fs_served c)))"

lemma records_ok_new: "records_ok new_fence"
  by (simp add: records_ok_def new_fence_def)

lemma dispatch_serves:
  assumes "fence_ok c" "fs_bound c" "dispatch env (fs_offer c) (fs_fence c) call c = ((r, err), c')"
  shows "set (fs_served c) \<subseteq> set (fs_served c')"
    "fr_allowed r \<Longrightarrow> (\<exists>f \<in> set (fs_served c'). sf_stage f = StageServed) \<and> (\<forall>f. fr_served r = Some f \<longrightarrow> f \<in> set (fs_served c'))"
proof -
  consider (get) "fs_fence c = FenceGet" | (feedback) "fs_fence c = FenceFeedback" using assms(1,2) by (auto simp: fence_ok_def)
  then have "set (fs_served c) \<subseteq> set (fs_served c') \<and> (fr_allowed r \<longrightarrow>
      (\<exists>f \<in> set (fs_served c'). sf_stage f = StageServed) \<and> (\<forall>f. fr_served r = Some f \<longrightarrow> f \<in> set (fs_served c')))"
  proof cases
    case get
    have "sf_stage (proof_of env (fs_offer c) call) = StageServed" by (simp add: proof_of_def)
    then show ?thesis using dispatch_get [OF assms(3) [unfolded get]] by (auto simp: refusal_def no_decision_def split: if_splits)
  next
    case feedback
    then have "\<exists>f \<in> set (fs_served c). sf_stage f = StageServed" using assms(1) by (auto simp: fence_ok_def served_for_def)
    then show ?thesis using dispatch_feedback [OF assms(3) [unfolded feedback]] by (auto simp: refusal_def no_decision_def split: if_splits)
  qed
  then show "set (fs_served c) \<subseteq> set (fs_served c')"
    "fr_allowed r \<Longrightarrow> (\<exists>f \<in> set (fs_served c'). sf_stage f = StageServed) \<and> (\<forall>f. fr_served r = Some f \<longrightarrow> f \<in> set (fs_served c'))" by blast+
qed

lemma call_step_records:
  assumes "fence_ok c" "records_ok c" "call_step c c'"
  shows "records_ok c'"
proof -
  consider (bind) offer where "c' = snd (BindOffer offer c)" | (call) env call where "c' = snd (HandleToolCall env call c)"
    using assms(3) by (auto simp: call_step_def)
  then show ?thesis
  proof cases
    case bind
    then show ?thesis using assms(2) by (auto simp: BindOffer_def records_ok_def split: sum.splits)
  next
    case (call env call)
    obtain answer c1 where h: "HandleToolCall env call c = (answer, c1)" by fastforce
    then have c': "c' = c1" using call by simp
    from h show ?thesis
    proof (cases rule: HandleToolCall_cases)
      case (dispatched c2)
      obtain r err where r: "answer = (r, err)" by (cases answer)
      note sv = dispatch_serves [OF assms(1) dispatched(1) dispatched(3) [unfolded r]]
      have "fs_calls c2 = fs_calls c" using dispatch_frame dispatched(3) r by blast
      then show ?thesis using assms(2) sv
        by (auto simp: c' dispatched(4) r records_ok_def record_call_def split: if_splits) blast+
    qed (use assms(2) c' in simp_all)
  qed
qed

interpretation fence_records: component "\<lambda>c. c = new_fence" call_step "\<lambda>c. fence_ok c \<and> records_ok c"
proof
  show "c = new_fence \<Longrightarrow> fence_ok c \<and> records_ok c" for c by (simp add: fence_ok_new records_ok_new)
  show "fence_ok c \<and> records_ok c \<Longrightarrow> call_step c c' \<Longrightarrow> fence_ok c' \<and> records_ok c'" for c c'
    using call_step_ok call_step_records by blast
qed

text \<open>
  C16: while the skill must be fetched, a call whose id is not on record is let through exactly when it is the fetch, the calling agent, the
  agent of the session, the requested skill and the manifest of the resolver's answer are those of the offer as far as they are given, the pinned reference is
  an exact one, the resolver answered with a body that has the digest of its view, the injection did not fail, and what the session then holds has that digest too. Then one served fact
  with that digest is recorded and the fence moves to feedback; in every other case the call fails, nothing
  is served and the fence stays. A call whose id is on record gets the recorded decision again, marked as a duplicate: that
  may let it through, after the offer was bound anew, but nothing is served and nothing changes.
\<close>

theorem skill_get_served_exactly:
  assumes "fs_bound c" "fs_fence c = FenceGet" "HandleToolCall env call c = ((r, err), c')"
  shows "case on_record call c of
      Some d \<Rightarrow> r = d\<lparr>fr_duplicate := True\<rparr> \<and> err = resultError d \<and> c' = c
    | None \<Rightarrow> (fr_allowed r \<longleftrightarrow> delivered env (fs_offer c) call) \<and> (err = None \<longleftrightarrow> fr_allowed r) \<and>
        fs_served c' = fs_served c @ (if delivered env (fs_offer c) call then [proof_of env (fs_offer c) call] else []) \<and>
        fs_fence c' = (if delivered env (fs_offer c) call then FenceFeedback else FenceGet) \<and>
        fr_served r = (if delivered env (fs_offer c) call then Some (proof_of env (fs_offer c) call) else None) \<and> fs_offer c' = fs_offer c"
  using assms(3)
proof (cases rule: HandleToolCall_cases)
  case (dispatched c1)
  then show ?thesis using dispatch_get [of env "fs_offer c" call c "(r, err)" c1] assms(2)
    by (auto simp: refusal_def no_decision_def split: if_splits)
qed (use assms in simp_all)

text \<open>
  C35: whatever calls and bindings came before, one after the other: a call that is let through and whose id is not on record
  is either the fetch of the pinned skill, which is served by it, or feedback, and
  then the pinned skill of the bound offer has been served to its agent before. A call that is let through under an id on record, whatever
  tool it names, repeats a decision that let a call through, and changes nothing: the decision rests on a skill that had been
  served by then, though perhaps under an offer bound earlier, and the fact it names is on the list.
\<close>

theorem feedback_after_served:
  assumes "reaches call_step new_fence c" "HandleToolCall env call c = ((r, err), c')" "fr_allowed r"
  shows "case on_record call c of
      Some d \<Rightarrow> fr_allowed d \<and> r = d\<lparr>fr_duplicate := True\<rparr> \<and> c' = c \<and> (\<exists>f \<in> set (fs_served c). sf_stage f = StageServed) \<and>
        (\<forall>f. fr_served d = Some f \<longrightarrow> f \<in> set (fs_served c))
    | None \<Rightarrow> (tc_name call = ToolSkillGet \<and> (\<exists>f. fr_served r = Some f \<and> served_for (fs_offer c) f \<and> fs_served c' = fs_served c @ [f])) \<or>
        (tc_name call = ToolSkillFeedback \<and> (\<exists>f \<in> set (fs_served c). served_for (fs_offer c) f) \<and> fs_served c' = fs_served c)"
proof -
  have ok: "fence_ok c" "records_ok c" using fence_records.reachable_inv [OF refl assms(1)] by simp_all
  from assms(2) show ?thesis
  proof (cases rule: HandleToolCall_cases)
    case unbound
    then show ?thesis using assms(3) by (simp add: no_decision_def)
  next
    case (replayed d)
    then have "map_of (fs_calls c) (tc_id call) = Some d" "fr_allowed d" using assms(3) by (auto simp: on_record_def split: if_splits)
    then show ?thesis using ok(2) replayed by (simp add: records_ok_def)
  next
    case (dispatched c1)
    consider (get) "fs_fence c = FenceGet" | (feedback) "fs_fence c = FenceFeedback" using ok dispatched(1) by (auto simp: fence_ok_def)
    then show ?thesis
    proof cases
      case get
      have "served_for (fs_offer c) (proof_of env (fs_offer c) call)" by (simp add: served_for_def proof_of_def)
      then show ?thesis using dispatch_get [OF dispatched(3) [unfolded get]] assms(3) dispatched(2,4)
        by (auto simp: refusal_def delivered_def split: if_splits)
    next
      case feedback
      then have "\<exists>f \<in> set (fs_served c). served_for (fs_offer c) f" using ok by (simp add: fence_ok_def)
      then show ?thesis using dispatch_feedback [OF dispatched(3) [unfolded feedback]] assms(3) dispatched(2,4)
        by (auto simp: refusal_def split: if_splits)
    qed
  qed
qed

text \<open>How the error of a decision reads when the decision is repeated.\<close>

definition repeated_error :: "fence_error option \<Rightarrow> fence_error option" where
  "repeated_error e =
     (if e = Some ErrSkillGetReferenceMismatch then Some ErrCrossManifestRevision
      else if e = Some ErrOrdinaryToolFenced then Some ErrFeedbackRequired
      else if e = Some ErrFromInjection then Some ErrDigestMismatch
      else e)"

lemma failure_repeats:
  "e \<in> {ErrLatestAlias, ErrLocalPath, ErrPermissionMismatch, ErrDigestMismatch, ErrCrossManifestRevision} \<Longrightarrow>
     resultError (no_decision\<lparr>fr_fence := FenceGet, fr_reason := ReasonResolutionError, fr_failure := failureOf e\<rparr>) = Some e"
  by (auto simp: resultError_def no_decision_def failureOf_def fence_names)

lemma parse_errors: "ParseExactSkillReference raw = Inl e \<Longrightarrow> e \<in> {ErrLatestAlias, ErrLocalPath, ErrPermissionMismatch}"
  by (auto simp: ParseExactSkillReference_def Let_def split: if_splits option.splits)

lemma resolver_errors: "classifyResolve e \<in> {ErrLatestAlias, ErrLocalPath, ErrPermissionMismatch, ErrDigestMismatch, ErrCrossManifestRevision}"
  by (cases e) (auto simp: Let_def)

lemma failureOf_values: "failureOf ErrPermissionMismatch = FailurePermission" "failureOf ErrDigestMismatch = FailureDigestMismatch"
    "failureOf ErrCrossManifestRevision = FailureCrossManifest"
  by (simp_all add: failureOf_def)

definition reported :: "fence_error \<Rightarrow> string \<Rightarrow> bool" where
  "reported e f = ((e \<in> {ErrLatestAlias, ErrLocalPath, ErrPermissionMismatch, ErrDigestMismatch, ErrCrossManifestRevision} \<and> f = failureOf e) \<or>
     (e = ErrSkillGetReferenceMismatch \<and> f = FailureCrossManifest) \<or> (e = ErrFromInjection \<and> f = FailureDigestMismatch))"

lemma handleSkillGet_outcome:
  "(\<exists>e f. handleSkillGet env offer call c = failResolution offer call e f c \<and> reported e f) \<or> fr_allowed (fst (fst (handleSkillGet env offer call c))) \<and> snd (fst (handleSkillGet env offer call c)) = None"
proof -
  define ref where "ref = (if TrimSpace (tc_skill call) = [] then fo_skill offer else TrimSpace (tc_skill call))"
  have fail: "handleSkillGet env offer call c = failResolution offer call e f c \<Longrightarrow> reported e f \<Longrightarrow> ?thesis" for e f by blast
  show ?thesis
  proof (cases "ParseExactSkillReference ref")
    case (Inl e)
    then show ?thesis using parse_errors [OF Inl] by (intro fail [of e "failureOf e"]) (auto simp: handleSkillGet_def ref_def [symmetric] reported_def)
  next
    case (Inr p)
    note get = handleSkillGet_def [of env offer call c, folded ref_def, unfolded Let_def Inr sum.case]
    show ?thesis
    proof (cases "ref \<noteq> fo_skill offer")
      case True
      then show ?thesis by (intro fail [of ErrSkillGetReferenceMismatch FailureCrossManifest]) (simp_all add: get reported_def)
    next
      case False
      show ?thesis
      proof (cases "fe_resolve env \<lparr>rs_manifest = fo_manifest offer, rs_skill = ref, rs_agent = fo_agent offer\<rparr>")
        case (Inl err)
        then show ?thesis using False resolver_errors [of err]
          by (intro fail [of "classifyResolve err" "failureOf (classifyResolve err)"]) (simp_all add: get reported_def)
      next
        case (Inr view)
        then show ?thesis using False fail [of ErrCrossManifestRevision FailureCrossManifest] fail [of ErrDigestMismatch FailureDigestMismatch]
            fail [of ErrFromInjection FailureDigestMismatch]
          by (simp add: get reported_def failureOf_values split: if_splits)
      qed
    qed
  qed
qed

lemma reported_denied: "reported ErrPermissionMismatch FailurePermission"
  unfolding reported_def failureOf_values by blast

lemma resultError_duplicate: "resultError (r\<lparr>fr_duplicate := b\<rparr>) = resultError r"
  by (simp add: resultError_def)

lemma reported_repeats:
  "reported e f \<Longrightarrow> resultError (no_decision\<lparr>fr_fence := FenceGet, fr_reason := ReasonResolutionError, fr_failure := f\<rparr>) = repeated_error (Some e)"
  using failure_repeats [of ErrCrossManifestRevision] failure_repeats [of ErrDigestMismatch] failure_repeats [of e]
  by (auto simp: reported_def repeated_error_def failureOf_values)

lemma dispatch_repeats:
  assumes "dispatch env offer fence call c = ((r, err), c')" "fence = FenceGet \<or> fence = FenceFeedback"
  shows "resultError r = repeated_error err"
proof -
  have fail: "failResolution offer call e f c = ((r, err), c') \<Longrightarrow> reported e f \<Longrightarrow> ?thesis" for e f
    using reported_repeats by (auto simp: failResolution_def Let_def)
  have denied: "failResolution offer call ErrPermissionMismatch FailurePermission c = ((r, err), c') \<Longrightarrow> ?thesis"
    by (rule fail [OF _ reported_denied])
  have fenced: "resultError (no_decision\<lparr>fr_fence := FenceGet, fr_reason := FailureOrdinaryTool\<rparr>) = Some ErrSkillGetRequired"
    "resultError (no_decision\<lparr>fr_fence := FenceFeedback, fr_reason := FailureOrdinaryTool\<rparr>) = Some ErrFeedbackRequired"
    "resultError (no_decision\<lparr>fr_allowed := True, fr_fence := FenceFeedback\<rparr>) = None"
    by (simp_all add: resultError_def no_decision_def fence_names)
  consider (agent) "(tc_agent call \<noteq> [] \<and> tc_agent call \<noteq> fo_agent offer) \<or> (fe_session_agent env \<noteq> [] \<and> fe_session_agent env \<noteq> fo_agent offer)"
    | (get) "\<not> (tc_agent call \<noteq> [] \<and> tc_agent call \<noteq> fo_agent offer)" "\<not> (fe_session_agent env \<noteq> [] \<and> fe_session_agent env \<noteq> fo_agent offer)"
        "fence = FenceGet" "tc_name call = ToolSkillGet"
    | (rest) "\<not> (tc_agent call \<noteq> [] \<and> tc_agent call \<noteq> fo_agent offer)" "\<not> (fe_session_agent env \<noteq> [] \<and> fe_session_agent env \<noteq> fo_agent offer)"
        "fence = FenceGet \<and> tc_name call \<noteq> ToolSkillGet \<or> fence = FenceFeedback" using assms(2) by blast
  then show ?thesis
  proof cases
    case agent
    then have "failResolution offer call ErrPermissionMismatch FailurePermission c = ((r, err), c')"
      using assms(1) unfolding dispatch_def by (metis (full_types))
    then show ?thesis by (rule denied)
  next
    case get
    have "handleSkillGet env offer call c = ((r, err), c')"
      using assms(1) [unfolded dispatch_def if_not_P [OF get(1)] if_not_P [OF get(2)]] get(3,4) by simp
    with handleSkillGet_outcome [of env offer call c]
    consider e f where "failResolution offer call e f c = ((r, err), c')" "reported e f" | "fr_allowed r" "err = None" by (metis fst_conv snd_conv)
    then show ?thesis by cases (use fail in \<open>simp_all add: resultError_def repeated_error_def\<close>)
  next
    case rest
    note d = assms(1) [unfolded dispatch_def if_not_P [OF rest(1)] if_not_P [OF rest(2)]]
    consider (get) "fence = FenceGet" "tc_name call \<noteq> ToolSkillGet" | (again) "fence = FenceFeedback" "tc_name call = ToolSkillGet"
      | (feedback) "fence = FenceFeedback" "tc_name call = ToolSkillFeedback"
      | (other) "fence = FenceFeedback" "tc_name call \<noteq> ToolSkillGet" "tc_name call \<noteq> ToolSkillFeedback" using rest(3) by blast
    then show ?thesis
    proof cases
      case get
      then have "r = no_decision\<lparr>fr_fence := FenceGet, fr_reason := FailureOrdinaryTool\<rparr>" "err = Some ErrSkillGetRequired" using d by simp_all
      then show ?thesis using fenced(1) by (simp only: repeated_error_def) simp
    next
      case again
      then have "r = no_decision\<lparr>fr_fence := FenceFeedback, fr_reason := FailureOrdinaryTool\<rparr>" "err = Some ErrFeedbackRequired"
        using d fence_distinct(1) by simp_all
      then show ?thesis using fenced(2) by (simp only: repeated_error_def) simp
    next
      case feedback
      then have "r = no_decision\<lparr>fr_allowed := True, fr_fence := FenceFeedback\<rparr>" "err = None"
        using d fence_distinct(1,4) by simp_all
      then show ?thesis using fenced(3) by (simp only: repeated_error_def) simp
    next
      case other
      then have "r = no_decision\<lparr>fr_fence := FenceFeedback, fr_reason := FailureOrdinaryTool\<rparr>" "err = Some ErrOrdinaryToolFenced"
        using d fence_distinct(1) by simp_all
      then show ?thesis using fenced(2) by (simp only: repeated_error_def) simp
    qed
  qed
qed

text \<open>
  a decision taken under a call id is final: every later call with that id, whatever tool it names, whatever
  it asks for and whichever offer was bound in between, gets the same decision, marked a duplicate, and changes
  nothing. Its error is the original one, except that a reference other than the pinned one then reads as a
  cross-manifest revision, a failed injection as a digest mismatch, and an ordinary tool that was refused in
  the feedback phase as a missing feedback.
\<close>

theorem decision_final:
  assumes "reaches call_step new_fence c" "fs_bound c" "tc_id call \<noteq> []" "on_record call c = None"
    "HandleToolCall env call c = ((r, err), c1)" "reaches call_step c1 c2" "tc_id again = tc_id call" "fs_bound c2"
  shows "HandleToolCall env' again c2 = ((r\<lparr>fr_duplicate := True\<rparr>, repeated_error err), c2)"
proof -
  have ok: "fence_ok c" by (rule fence.reachable_inv [OF refl assms(1)])
  from assms(5) obtain c0 where d: "dispatch env (fs_offer c) (fs_fence c) call c = ((r, err), c0)" "c1 = record_call call r c0"
    by (cases rule: HandleToolCall_cases) (use assms(2,4) in auto)
  have fence: "fs_fence c = FenceGet \<or> fs_fence c = FenceFeedback" using ok assms(2) by (auto simp: fence_ok_def)
  have fresh: "r\<lparr>fr_duplicate := False\<rparr> = r"
    using dispatch_frame [OF d(1)] by simp
  have "call_step c c1" using assms(5) by (auto simp: call_step_def) (metis snd_conv)
  then have ok1: "fence_ok c1" by (rule call_step_ok [OF ok])
  have "map_of (fs_calls c1) (tc_id call) = Some r" using assms(3) d(2) fresh by (simp add: record_call_def)
  then have "map_of (fs_calls c2) (tc_id call) = Some r" using fence.reaches_stable [OF assms(6) ok1] by blast
  moreover have "resultError (r\<lparr>fr_duplicate := True\<rparr>) = repeated_error err"
    using dispatch_repeats [OF d(1) fence] by (simp only: resultError_duplicate)
  ultimately show ?thesis using assms(3,7,8) by (simp add: HandleToolCall_def begin_call_def)
qed

subsection \<open>Calls that overlap\<close>

definition bound_to :: "FencedOffer \<Rightarrow> FenceState" where
  "bound_to offer = new_fence\<lparr>fs_offer := offer, fs_bound := True, fs_fence := FenceGet\<rparr>"

definition accepted_offer :: "FencedOffer \<Rightarrow> bool" where
  "accepted_offer offer = (fst (BindOffer offer new_fence) = None)"

lemma BindOffer_accepted: "accepted_offer offer \<Longrightarrow> snd (BindOffer offer c) = c\<lparr>fs_offer := offer, fs_bound := True, fs_fence := FenceGet\<rparr>"
  by (auto simp: accepted_offer_def BindOffer_def split: if_splits sum.splits)

lemma fence_reaches_more: "reaches fence_step s y \<Longrightarrow> fence_perform ev y = Some z \<Longrightarrow> reaches fence_step s z"
  by (rule reaches.more) (auto simp: fence_step_def)

lemma one_call_checked:
  assumes "accepted_offer offer"
  shows "reaches fence_step new_fence_sys \<lparr>fy_state = bound_to offer, fy_calls = [(call, Checked offer FenceGet)]\<rparr>"
proof -
  have "fence_perform (Bind offer) new_fence_sys = Some \<lparr>fy_state = bound_to offer, fy_calls = []\<rparr>"
    by (simp add: new_fence_sys_def BindOffer_accepted [OF assms] bound_to_def)
  then have 1: "reaches fence_step new_fence_sys \<lparr>fy_state = bound_to offer, fy_calls = []\<rparr>"
    by (rule fence_reaches_more [OF reaches.start])
  show ?thesis by (rule fence_reaches_more [OF 1, of "Begin call"]) (simp add: begin_call_def bound_to_def new_fence_def)
qed

text \<open>
  the duplicate check of a call and the record of its decision are two locked regions: when a call is sent
  again before its first copy has concluded, both copies fetch the skill, both are let through and neither is
  marked a duplicate, so that one call id has two served facts.
\<close>

theorem overlapping_copies_both_served:
  assumes "accepted_offer offer" "delivered env offer call"
  shows "\<exists>y. reaches fence_step new_fence_sys y \<and> fs_served (fy_state y) = [proof_of env offer call, proof_of env offer call] \<and>
    length (fy_calls y) = 2 \<and>
    (\<forall>p \<in> set (fy_calls y). fst p = call \<and> (\<exists>r. snd p = Answered (r, None) \<and> fr_allowed r \<and> \<not> fr_duplicate r \<and> fr_served r = Some (proof_of env offer call)))"
proof -
  let ?s0 = "bound_to offer" and ?pending = "(call, Checked offer FenceGet)"
  define r where "r = no_decision\<lparr>fr_allowed := True, fr_fence := FenceFeedback, fr_served := Some (proof_of env offer call)\<rparr>"
  have d: "\<exists>c'. dispatch env offer FenceGet call c = ((r, None), c') \<and> fs_served c' = fs_served c @ [proof_of env offer call]" for c
  proof -
    obtain answer c' where "dispatch env offer FenceGet call c = (answer, c')" by fastforce
    with dispatch_get [OF this] assms(2) show ?thesis by (cases answer) (simp add: r_def)
  qed
  obtain c1 where c1: "dispatch env offer FenceGet call ?s0 = ((r, None), c1)" "fs_served c1 = [proof_of env offer call]"
    using d [of ?s0] by (auto simp: bound_to_def new_fence_def)
  obtain c2 where c2: "dispatch env offer FenceGet call c1 = ((r, None), c2)" "fs_served c2 = [proof_of env offer call, proof_of env offer call]"
    using d [of c1] c1(2) by auto
  have "fence_perform (Begin call) \<lparr>fy_state = ?s0, fy_calls = [?pending]\<rparr> = Some \<lparr>fy_state = ?s0, fy_calls = [?pending, ?pending]\<rparr>"
    by (simp add: begin_call_def bound_to_def new_fence_def)
  note 1 = fence_reaches_more [OF one_call_checked [OF assms(1)] this]
  have "fence_perform (Dispatch env 0) \<lparr>fy_state = ?s0, fy_calls = [?pending, ?pending]\<rparr> =
      Some \<lparr>fy_state = c1, fy_calls = [(call, Dispatched (r, None)), ?pending]\<rparr>"
    by (simp add: c1 Let_def)
  note 2 = fence_reaches_more [OF 1 this]
  have "fence_perform (Dispatch env 1) \<lparr>fy_state = c1, fy_calls = [(call, Dispatched (r, None)), ?pending]\<rparr> =
      Some \<lparr>fy_state = c2, fy_calls = [(call, Dispatched (r, None)), (call, Dispatched (r, None))]\<rparr>"
    by (simp add: c2 Let_def)
  note 3 = fence_reaches_more [OF 2 this]
  have "fence_perform (Conclude 0) \<lparr>fy_state = c2, fy_calls = [(call, Dispatched (r, None)), (call, Dispatched (r, None))]\<rparr> =
      Some \<lparr>fy_state = record_call call r c2, fy_calls = [(call, Answered (r, None)), (call, Dispatched (r, None))]\<rparr>" by simp
  note 4 = fence_reaches_more [OF 3 this]
  have "fence_perform (Conclude 1) \<lparr>fy_state = record_call call r c2, fy_calls = [(call, Answered (r, None)), (call, Dispatched (r, None))]\<rparr> =
      Some \<lparr>fy_state = record_call call r (record_call call r c2), fy_calls = [(call, Answered (r, None)), (call, Answered (r, None))]\<rparr>" by simp
  note 5 = fence_reaches_more [OF 4 this]
  show ?thesis
    by (rule exI, rule conjI, rule 5) (simp add: c2(2) r_def no_decision_def)
qed

text \<open>
  binding a new offer does not stop a fetch that is under way for the old one: when that fetch concludes, it
  opens the fence of the new offer, whose skill was never fetched, and feedback on the new offer is let through.
\<close>

theorem rebinding_opens_fence:
  assumes "accepted_offer offer" "accepted_offer offer'" "delivered env offer call" "fo_id offer \<noteq> fo_id offer'"
  shows "\<exists>y. reaches fence_step new_fence_sys y \<and> fs_offer (fy_state y) = offer' \<and> (\<forall>f \<in> set (fs_served (fy_state y)). \<not> served_for offer' f) \<and>
    (\<forall>env' call'. tc_name call' = ToolSkillFeedback \<and> tc_agent call' = fo_agent offer' \<and> fe_session_agent env' = fo_agent offer' \<and> on_record call' (fy_state y) = None \<longrightarrow>
       fr_allowed (fst (fst (HandleToolCall env' call' (fy_state y)))))"
proof -
  let ?s1 = "(bound_to offer)\<lparr>fs_offer := offer', fs_bound := True, fs_fence := FenceGet\<rparr>"
  obtain answer c where d: "dispatch env offer FenceGet call ?s1 = (answer, c)" by fastforce
  note g = dispatch_get [OF d]
  have c: "fs_offer c = offer'" "fs_bound c" "fs_fence c = FenceFeedback" "fs_served c = [proof_of env offer call]"
    using g assms(3) by (simp_all add: bound_to_def new_fence_def)
  have "fence_perform (Bind offer') \<lparr>fy_state = bound_to offer, fy_calls = [(call, Checked offer FenceGet)]\<rparr> =
      Some \<lparr>fy_state = ?s1, fy_calls = [(call, Checked offer FenceGet)]\<rparr>"
    using BindOffer_accepted [OF assms(2)] by simp
  note 1 = fence_reaches_more [OF one_call_checked [OF assms(1)] this]
  have "fence_perform (Dispatch env 0) \<lparr>fy_state = ?s1, fy_calls = [(call, Checked offer FenceGet)]\<rparr> =
      Some \<lparr>fy_state = c, fy_calls = [(call, Dispatched answer)]\<rparr>" by (simp add: d Let_def)
  note 2 = fence_reaches_more [OF 1 this]
  have "fr_allowed (fst (fst (HandleToolCall env' call' c)))"
    if "tc_name call' = ToolSkillFeedback" "tc_agent call' = fo_agent offer'" "fe_session_agent env' = fo_agent offer'" "on_record call' c = None" for env' call'
  proof -
    obtain a2 c2 where h: "HandleToolCall env' call' c = (a2, c2)" by fastforce
    then show ?thesis
    proof (cases rule: HandleToolCall_cases)
      case (dispatched c3)
      then show ?thesis using dispatch_feedback [of env' offer' call' c a2 c3] that c h by simp
    qed (use that(4) c(2) in simp_all)
  qed
  moreover have "\<not> served_for offer' (proof_of env offer call)" using assms(4) by (simp add: served_for_def proof_of_def)
  ultimately show ?thesis
    by (intro exI [of _ "\<lparr>fy_state = c, fy_calls = [(call, Dispatched answer)]\<rparr>"]) (simp add: 2 c)
qed

text \<open>
  an offer can be bound with white space around its skill reference, and then no call that names a
  reference is ever let through, not even one that repeats the reference of the offer: the check trims what the
  call asks for and compares it with the untrimmed pin.
\<close>

theorem padded_offer_never_matches:
  assumes "fs_bound c" "fs_fence c = FenceGet" "fs_offer c = offer" "TrimSpace (fo_skill offer) \<noteq> fo_skill offer"
    "TrimSpace (tc_skill call) \<noteq> []" "on_record call c = None"
  shows "\<not> fr_allowed (fst (fst (HandleToolCall env call c)))"
proof -
  obtain r err c' where h: "HandleToolCall env call c = ((r, err), c')" by (metis prod.exhaust)
  have "TrimSpace (tc_skill call) \<noteq> fo_skill offer" using assms(4) TrimSpace_idem by metis
  then have "\<not> delivered env offer call" using assms(5) by (simp add: delivered_def)
  from h show ?thesis
  proof (cases rule: HandleToolCall_cases)
    case (dispatched c1)
    then show ?thesis using dispatch_get [of env offer call c "(r, err)" c1] assms(2,3) \<open>\<not> delivered env offer call\<close> h by (simp add: refusal_def)
  qed (use assms in simp_all)
qed

subsection \<open>Sample offers and calls\<close>

definition sample_fenced :: "string \<Rightarrow> FencedOffer" where
  "sample_fenced offer = \<lparr>fo_id = offer, fo_agent = ''a'', fo_skill = ''skill://evaluation/x@12'', fo_manifest = ''m''\<rparr>"

definition sample_call :: "string \<Rightarrow> string \<Rightarrow> ToolCall" where
  "sample_call callID name = \<lparr>tc_id = callID, tc_name = name, tc_agent = ''a'', tc_skill = []\<rparr>"

definition sample_fence_env :: fence_env where
  "sample_fence_env = \<lparr>fe_session_agent = ''a'', fe_resolve = (\<lambda>rq. Inr \<lparr>rv_reference = rs_skill rq, rv_body = ''body'',
     rv_digest = DigestBytes ''body'', rv_manifest = rs_manifest rq\<rparr>), fe_inject_fails = (\<lambda>_. False), fe_captured = (\<lambda>body. body)\<rparr>"

lemma sample_trims: "TrimSpace [] = []" "TrimSpace ''o1'' = ''o1''" "TrimSpace ''o2'' = ''o2''" "TrimSpace ''a'' = ''a''" "TrimSpace ''m'' = ''m''"
    "TrimSpace '' skill://evaluation/x@12'' = ''skill://evaluation/x@12''" "TrimSpace ''skill://evaluation/x@12'' = ''skill://evaluation/x@12''"
  by (simp_all add: trim_eval)

lemma sample_parses: "\<exists>r. ParseExactSkillReference raw = Inr r" if "TrimSpace raw = ''skill://evaluation/x@12''"
proof -
  have parts: "ref_name EvaluationNamespace" "ref_name ''x''" "ref_revision ''12''"
    by (simp_all add: ref_name_def ref_revision_def EvaluationNamespace_def ref_char_def is_digit_def is_digit19_def less_eq_char_def)
  have s: "TrimSpace raw = render_skill EvaluationNamespace ''x'' ''12''" using that by (simp add: render_skill_def EvaluationNamespace_def)
  have n: "ParseUint ''12'' = Some 12" by (simp add: ParseUint_def is_digit_def less_eq_char_def)
  have "exactSkillRef (TrimSpace raw) = Some (EvaluationNamespace, ''x'', ''12'')" unfolding exactSkillRef_iff s using parts by blast
  then show ?thesis
    using render_not_latest [OF parts] render_not_path [OF parts] n by (simp add: ParseExactSkillReference_def Let_def flip: s)
qed

lemma sample_skill: "\<not> isl (ParseExactSkillReference ''skill://evaluation/x@12'')" "\<not> isl (ParseExactSkillReference '' skill://evaluation/x@12'')"
  using sample_parses [OF sample_trims(7)] sample_parses [OF sample_trims(6)] by auto

lemma isl_case: "\<not> isl r \<Longrightarrow> (case r of Inl e \<Rightarrow> f e | Inr x \<Rightarrow> y) = y"
  by (cases r) auto

lemma sample_delivered: "delivered sample_fence_env (sample_fenced offer) (sample_call callID ToolSkillGet)"
  using sample_parses [OF sample_trims(7)] by (simp add: delivered_def sample_fence_env_def sample_fenced_def sample_call_def sample_trims(1))

lemma sample_accepted: "accepted_offer (sample_fenced ''o1'')" "accepted_offer (sample_fenced ''o2'')"
  by (simp_all add: accepted_offer_def BindOffer_def sample_fenced_def sample_trims isl_case [OF sample_skill(1)])

lemma sample_bound: "reaches call_step new_fence (bound_to (sample_fenced ''o1''))"
  by (rule reaches_one, unfold call_step_def, rule disjI1, rule exI [of _ "sample_fenced ''o1''"])
    (simp add: bound_to_def BindOffer_accepted [OF sample_accepted(1)])

lemma bound_fields: "fs_bound (bound_to offer)" "fs_fence (bound_to offer) = FenceGet" "fs_offer (bound_to offer) = offer"
    "on_record call (bound_to offer) = None" "fs_served (bound_to offer) = []"
  by (simp_all add: bound_to_def new_fence_def on_record_def)

theorem skill_get_served_exactly_witness:
  "fs_served (snd (HandleToolCall sample_fence_env (sample_call ''c'' ToolSkillGet) (bound_to (sample_fenced ''o1'')))) =
     [proof_of sample_fence_env (sample_fenced ''o1'') (sample_call ''c'' ToolSkillGet)]"
proof -
  obtain r err c' where h: "HandleToolCall sample_fence_env (sample_call ''c'' ToolSkillGet) (bound_to (sample_fenced ''o1'')) = ((r, err), c')"
    by (metis prod.exhaust)
  from skill_get_served_exactly [OF bound_fields(1,2) h] show ?thesis using sample_delivered by (simp add: bound_fields h)
qed

theorem feedback_after_served_witness:
  "\<exists>f. fr_served (fst (fst (HandleToolCall sample_fence_env (sample_call ''c'' ToolSkillGet) (bound_to (sample_fenced ''o1''))))) = Some f \<and>
     served_for (sample_fenced ''o1'') f"
proof -
  obtain r err c' where h: "HandleToolCall sample_fence_env (sample_call ''c'' ToolSkillGet) (bound_to (sample_fenced ''o1'')) = ((r, err), c')"
    by (metis prod.exhaust)
  from h have "fr_allowed r"
    by (cases rule: HandleToolCall_cases) (use dispatch_get sample_delivered in \<open>fastforce simp: bound_fields\<close>)+
  from feedback_after_served [OF sample_bound h this] have "\<exists>f. fr_served r = Some f \<and> served_for (sample_fenced ''o1'') f"
    by (auto simp: bound_fields sample_call_def fence_names)
  then show ?thesis by (simp add: h)
qed

theorem decision_final_witness:
  "let (answer, c1) = HandleToolCall sample_fence_env (sample_call ''c'' ToolSkillGet) (bound_to (sample_fenced ''o1'')) in
   HandleToolCall sample_fence_env (sample_call ''c'' ''bash'') c1 = (((fst answer)\<lparr>fr_duplicate := True\<rparr>, repeated_error (snd answer)), c1)"
proof -
  obtain r err c1 where h: "HandleToolCall sample_fence_env (sample_call ''c'' ToolSkillGet) (bound_to (sample_fenced ''o1'')) = ((r, err), c1)"
    by (metis prod.exhaust)
  have ids: "tc_id (sample_call ''c'' ToolSkillGet) \<noteq> []" "tc_id (sample_call ''c'' ''bash'') = tc_id (sample_call ''c'' ToolSkillGet)"
    by (simp_all add: sample_call_def)
  from h have bound: "fs_bound c1"
    by (cases rule: HandleToolCall_cases) (use dispatch_ok [OF fence.reachable_inv [OF refl sample_bound]] in \<open>auto simp: bound_fields\<close>)
  from decision_final [OF sample_bound bound_fields(1) ids(1) bound_fields(4) h reaches.start ids(2) bound] show ?thesis by (simp add: h)
qed

theorem overlapping_copies_both_served_witness:
  "\<exists>y. reaches fence_step new_fence_sys y \<and> map sf_call (fs_served (fy_state y)) = [''c'', ''c'']"
  using overlapping_copies_both_served [OF sample_accepted(1) sample_delivered [of "''o1''" "''c''"]]
  by (auto simp: proof_of_def sample_call_def)

theorem rebinding_opens_fence_witness:
  "\<exists>y. reaches fence_step new_fence_sys y \<and> fs_offer (fy_state y) = sample_fenced ''o2'' \<and>
     fr_allowed (fst (fst (HandleToolCall sample_fence_env (sample_call [] ToolSkillFeedback) (fy_state y))))"
proof -
  have "fo_id (sample_fenced ''o1'') \<noteq> fo_id (sample_fenced ''o2'')" by (simp add: sample_fenced_def)
  from rebinding_opens_fence [OF sample_accepted sample_delivered [of "''o1''" "''c''"] this] show ?thesis
    by (auto simp: sample_call_def sample_fenced_def sample_fence_env_def on_record_def)
qed

theorem padded_offer_never_matches_witness:
  "let offer = (sample_fenced ''o1'')\<lparr>fo_skill := '' skill://evaluation/x@12''\<rparr>;
       call = (sample_call ''c'' ToolSkillGet)\<lparr>tc_skill := '' skill://evaluation/x@12''\<rparr> in
   accepted_offer offer \<and> \<not> fr_allowed (fst (fst (HandleToolCall sample_fence_env call (bound_to offer))))"
proof -
  let ?offer = "(sample_fenced ''o1'')\<lparr>fo_skill := '' skill://evaluation/x@12''\<rparr>"
  let ?call = "(sample_call ''c'' ToolSkillGet)\<lparr>tc_skill := '' skill://evaluation/x@12''\<rparr>"
  have "accepted_offer ?offer" by (simp add: accepted_offer_def BindOffer_def sample_fenced_def sample_trims isl_case [OF sample_skill(2)])
  moreover have "TrimSpace (fo_skill ?offer) \<noteq> fo_skill ?offer" "TrimSpace (tc_skill ?call) \<noteq> []" by (simp_all add: sample_trims)
  ultimately show ?thesis using padded_offer_never_matches [OF bound_fields(1,2,3) _ _ bound_fields(4)] by (simp add: Let_def)
qed

end
