(* ===== verification/Effects_Interrupt.thy ===== *)
theory Effects_Interrupt
  imports Directed_Offer Decimal
begin

text \<open>
  Interrupting an agent by what it is doing (\<^verbatim>\<open>internal/effectsinterrupt\<close>): a model or read-only execution is aborted and
  resumed, a mutating one only when its side effects are proven; otherwise the attempt is quarantined and the
  runner mints another attempt within its budget. The session and the process tree are the environment of an
  interrupt.
\<close>

subsection \<open>The runner\<close>

definition OutcomeAborted :: string where "OutcomeAborted = ''aborted''"
definition OutcomeEffectsUnknown :: string where "OutcomeEffectsUnknown = ''effects_unknown''"
definition OutcomeRetryExhausted :: string where "OutcomeRetryExhausted = ''retry_exhausted''"

record AttemptRecord =
  at_task :: string
  at_attempt :: string
  at_outcome :: string
  at_resumed :: bool

text \<open>The map key is the task id; \<open>ID\<close> repeats it.\<close>

record taskState =
  ts_preregistered :: bool
  ts_allocated :: int
  ts_passed :: bool
  ts_exhausted :: bool
  ts_attempts :: "AttemptRecord list"

record Runner =
  ru_max :: int
  ru_tasks :: "taskState gmap"

definition NewRunner :: "int \<Rightarrow> Runner" where
  "NewRunner maxAttempts = \<lparr>ru_max = (if maxAttempts < 1 then 1 else maxAttempts), ru_tasks = []\<rparr>"

definition ensure_task :: "string \<Rightarrow> Runner \<Rightarrow> taskState" where
  "ensure_task taskID r = (case map_of (ru_tasks r) taskID of
     None \<Rightarrow> \<lparr>ts_preregistered = False, ts_allocated = 0, ts_passed = False, ts_exhausted = False, ts_attempts = []\<rparr> | Some st \<Rightarrow> st)"

definition put_task :: "string \<Rightarrow> taskState \<Rightarrow> Runner \<Rightarrow> Runner" where
  "put_task taskID st r = r\<lparr>ru_tasks := gput taskID st (ru_tasks r)\<rparr>"

definition Preregister :: "string \<Rightarrow> Runner \<Rightarrow> Runner" where
  "Preregister taskID r = (if taskID = [] then r else put_task taskID ((ensure_task taskID r)\<lparr>ts_preregistered := True\<rparr>) r)"

definition attempt_id :: "string \<Rightarrow> int \<Rightarrow> string" where
  "attempt_id taskID n = taskID @ ''-attempt-'' @ format_int n"

definition AllocateAttempt :: "string \<Rightarrow> Runner \<Rightarrow> string option \<times> Runner" where
  "AllocateAttempt taskID r =
     (if taskID = [] then (None, r)
      else
        let st = ensure_task taskID r in
        if ru_max r \<le> ts_allocated st then (None, put_task taskID (st\<lparr>ts_exhausted := True\<rparr>) r)
        else
          let st1 = st\<lparr>ts_allocated := ts_allocated st + 1\<rparr>
          in (Some (attempt_id taskID (ts_allocated st1)), put_task taskID st1 r))"

definition Quarantine :: "string \<Rightarrow> string \<Rightarrow> Runner \<Rightarrow> Runner" where
  "Quarantine taskID attemptID r =
     (let st = ensure_task taskID r;
          rec = \<lparr>at_task = taskID, at_attempt = attemptID, at_outcome = OutcomeEffectsUnknown, at_resumed = False\<rparr>;
          st1 = st\<lparr>ts_attempts := ts_attempts st @ [rec]\<rparr>;
          st2 = (if ru_max r \<le> ts_allocated st1 then st1\<lparr>ts_exhausted := True\<rparr> else st1)
      in put_task taskID st2 r)"

definition MarkExhausted :: "string \<Rightarrow> Runner \<Rightarrow> Runner" where
  "MarkExhausted taskID r = put_task taskID ((ensure_task taskID r)\<lparr>ts_exhausted := True, ts_passed := False\<rparr>) r"

definition Attempts :: "string \<Rightarrow> Runner \<Rightarrow> AttemptRecord list" where
  "Attempts taskID r = (case map_of (ru_tasks r) taskID of None \<Rightarrow> [] | Some st \<Rightarrow> ts_attempts st)"

definition Kept :: "string \<Rightarrow> Runner \<Rightarrow> bool" where
  "Kept taskID r = (case map_of (ru_tasks r) taskID of None \<Rightarrow> False | Some st \<Rightarrow> ts_preregistered st)"

definition Exhausted :: "string \<Rightarrow> Runner \<Rightarrow> bool" where
  "Exhausted taskID r = (case map_of (ru_tasks r) taskID of None \<Rightarrow> False | Some st \<Rightarrow> ts_exhausted st)"

definition PassAt1 :: "Runner \<Rightarrow> nat \<times> nat" where
  "PassAt1 r = (length (filter (\<lambda>(_, st). ts_preregistered st \<and> ts_passed st) (ru_tasks r)), length (filter (\<lambda>(_, st). ts_preregistered st) (ru_tasks r)))"

subsection \<open>The coordinator\<close>

definition KindModel :: string where "KindModel = ''model''"
definition KindReadOnly :: string where "KindReadOnly = ''read_only''"
definition KindMutating :: string where "KindMutating = ''mutating''"

lemmas kind_names = KindModel_def KindReadOnly_def KindMutating_def

definition SignalCooperative :: string where "SignalCooperative = ''cooperative_abort''"
definition SignalTERM :: string where "SignalTERM = ''SIGTERM''"
definition SignalKILL :: string where "SignalKILL = ''SIGKILL''"

datatype interrupt_error =
    InvalidBinding offer_error
  | SessionRequired
  | AgentMismatch
  | SessionMismatch
  | AlreadyAttached
  | UnknownAgent
  | EffectsUnknown
  | RetryExhausted
  | FromSession
  | FromContext

record InterruptResult =
  ir_agent :: string
  ir_task :: string
  ir_attempt :: string
  ir_next :: string
  ir_kind :: string
  ir_outcome :: string
  ir_signals :: "string list"
  ir_resumed :: bool
  ir_exhausted :: bool
  ir_reclaimed :: bool
  ir_completed :: "string list"
  ir_replayed :: "string list"

record attachedAgent =
  aa_binding :: Binding
  aa_task :: string

record InterruptCoordinator =
  ic_runner :: "Runner option"
  ic_agents :: "attachedAgent gmap"

definition NewInterruptCoordinator :: "Runner option \<Rightarrow> InterruptCoordinator" where
  "NewInterruptCoordinator runner = \<lparr>ic_runner = runner, ic_agents = []\<rparr>"

definition AttachInterrupt :: "Binding \<Rightarrow> string \<Rightarrow> (string \<times> PiSession) option \<Rightarrow> InterruptCoordinator \<Rightarrow> interrupt_error option \<times> InterruptCoordinator" where
  "AttachInterrupt b taskID session c =
     (case validateBinding b of
        Some e \<Rightarrow> (Some (InvalidBinding e), c)
      | None \<Rightarrow>
          (case session of
             None \<Rightarrow> (Some SessionRequired, c)
           | Some (agent, got) \<Rightarrow>
               if agent = [] \<or> agent \<noteq> bi_agent b then (Some AgentMismatch, c)
               else if ps_file got \<noteq> ps_file (bi_session b) \<or> ps_id got \<noteq> ps_id (bi_session b) then (Some SessionMismatch, c)
               else if has_key (ic_agents c) (bi_agent b) then (Some AlreadyAttached, c)
               else (None, c\<lparr>ic_agents := gput (bi_agent b) \<lparr>aa_binding = b, aa_task = (if taskID = [] then bi_run b else taskID)\<rparr> (ic_agents c)\<rparr>)))"

definition Detach :: "string \<Rightarrow> InterruptCoordinator \<Rightarrow> InterruptCoordinator" where
  "Detach agentID c = c\<lparr>ic_agents := filter (\<lambda>(k, _). k \<noteq> agentID) (ic_agents c)\<rparr>"

text \<open>
  What the session and the tree do: whether the three session calls fail, whether the mutating tool completed in
  the grace period, whether the caller's context ended then, whether the effects are proven before and after the
  escalation, and whether the tree (if any) was dead after the first and after the second signal.
\<close>

record interrupt_env =
  ie_kind :: string
  ie_abort_fails :: bool
  ie_settle_fails :: bool
  ie_resume_fails :: bool
  ie_completed_in_grace :: bool
  ie_proven :: bool
  ie_context_done :: bool
  ie_tree :: "(bool \<times> bool) option"
  ie_proven_late :: bool
  ie_completed :: "string list"
  ie_replayed :: "string list"

definition abortAndResume :: "interrupt_env \<Rightarrow> InterruptResult \<Rightarrow> InterruptResult \<times> interrupt_error option" where
  "abortAndResume env result =
     (let r = result\<lparr>ir_signals := ir_signals result @ [SignalCooperative]\<rparr> in
      if ie_abort_fails env \<or> ie_settle_fails env \<or> ie_resume_fails env then (r, Some FromSession)
      else (r\<lparr>ir_outcome := OutcomeAborted, ir_resumed := True, ir_completed := ie_completed env, ir_replayed := ie_replayed env\<rparr>, None))"

definition escalate :: "interrupt_env \<Rightarrow> string list \<times> bool" where
  "escalate env =
     (case ie_tree env of
        None \<Rightarrow> ([SignalTERM, SignalKILL], False)
      | Some (dead_after_term, dead_after_kill) \<Rightarrow>
          if dead_after_term then ([SignalTERM], True) else ([SignalTERM, SignalKILL], dead_after_kill))"

definition quarantine :: "interrupt_env \<Rightarrow> string \<Rightarrow> InterruptResult \<Rightarrow> Runner option \<Rightarrow> (InterruptResult \<times> interrupt_error option) \<times> Runner option" where
  "quarantine env taskID result runner =
     (let r = result\<lparr>ir_outcome := OutcomeEffectsUnknown, ir_resumed := False, ir_completed := ie_completed env, ir_replayed := ie_replayed env\<rparr> in
      case runner of
        None \<Rightarrow> ((r, Some EffectsUnknown), None)
      | Some ru \<Rightarrow>
          let ru1 = Quarantine taskID (ir_attempt r) ru in
          (case AllocateAttempt taskID ru1 of
             (Some next_id, ru2) \<Rightarrow> ((r\<lparr>ir_next := next_id\<rparr>, Some EffectsUnknown), Some ru2)
           | (None, ru2) \<Rightarrow> ((r\<lparr>ir_exhausted := True, ir_outcome := OutcomeRetryExhausted\<rparr>, Some RetryExhausted), Some (MarkExhausted taskID ru2))))"

definition interruptMutating :: "interrupt_env \<Rightarrow> string \<Rightarrow> InterruptResult \<Rightarrow> Runner option \<Rightarrow> (InterruptResult \<times> interrupt_error option) \<times> Runner option" where
  "interruptMutating env taskID result runner =
     (if ie_completed_in_grace env \<and> ie_proven env then (abortAndResume env result, runner)
      else if ie_context_done env then ((result, Some FromContext), runner)
      else
        let (signals, reclaimed) = escalate env;
            r = result\<lparr>ir_signals := ir_signals result @ signals, ir_reclaimed := reclaimed\<rparr>
        in if ie_proven_late env then
             let (got, err) = abortAndResume env r
             in ((got\<lparr>ir_signals := ir_signals r, ir_reclaimed := reclaimed\<rparr>, err), runner)
           else quarantine env taskID r runner)"

definition no_interrupt :: InterruptResult where
  "no_interrupt = \<lparr>ir_agent = [], ir_task = [], ir_attempt = [], ir_next = [], ir_kind = [], ir_outcome = [], ir_signals = [], ir_resumed = False,
     ir_exhausted = False, ir_reclaimed = False, ir_completed = [], ir_replayed = []\<rparr>"

definition interrupt_start :: "interrupt_env \<Rightarrow> string \<Rightarrow> attachedAgent \<Rightarrow> InterruptResult" where
  "interrupt_start env agentID agent =
     no_interrupt\<lparr>ir_agent := agentID, ir_task := aa_task agent, ir_attempt := bi_attempt (aa_binding agent), ir_kind := ie_kind env\<rparr>"

definition Interrupt :: "interrupt_env \<Rightarrow> string \<Rightarrow> InterruptCoordinator \<Rightarrow> (InterruptResult \<times> interrupt_error option) \<times> InterruptCoordinator" where
  "Interrupt env agentID c =
     (case map_of (ic_agents c) agentID of
        None \<Rightarrow> ((no_interrupt, Some UnknownAgent), c)
      | Some agent \<Rightarrow>
          let result = interrupt_start env agentID agent;
              (answer, runner) =
                (if ie_kind env = KindModel \<or> ie_kind env = KindReadOnly then (abortAndResume env result, ic_runner c)
                 else if ie_kind env = KindMutating then interruptMutating env (aa_task agent) result (ic_runner c)
                 else quarantine env (aa_task agent) result (ic_runner c))
          in (answer, c\<lparr>ic_runner := runner\<rparr>))"

subsection \<open>The attempts of a runner\<close>

text \<open>The operations of a runner, each under its mutex, with the attempt ids handed out so far.\<close>

inductive runner_step :: "Runner \<times> string list \<Rightarrow> Runner \<times> string list \<Rightarrow> bool" where
  preregister: "runner_step (r, ids) (Preregister taskID r, ids)"
| allocated: "AllocateAttempt taskID r = (Some attempt, r') \<Longrightarrow> runner_step (r, ids) (r', ids @ [attempt])"
| refused: "AllocateAttempt taskID r = (None, r') \<Longrightarrow> runner_step (r, ids) (r', ids)"
| quarantined: "runner_step (r, ids) (Quarantine taskID attempt r, ids)"
| exhausted: "runner_step (r, ids) (MarkExhausted taskID r, ids)"

inductive_cases runner_stepE: "runner_step (r, ids) (r', ids')"

definition allocated :: "string \<Rightarrow> Runner \<Rightarrow> int" where
  "allocated taskID r = ts_allocated (ensure_task taskID r)"

lemma ensure_put: "ensure_task t (put_task t' st r) = (if t = t' then st else ensure_task t r)"
  by (simp add: ensure_task_def put_task_def)

lemma ru_max_put [simp]: "ru_max (put_task t st r) = ru_max r"
  by (simp add: put_task_def)

definition none_passed :: "Runner \<Rightarrow> bool" where
  "none_passed r = (gmap_ok (ru_tasks r) \<and> (\<forall>t st. map_of (ru_tasks r) t = Some st \<longrightarrow> \<not> ts_passed st))"

lemma none_passed_put: "none_passed r \<Longrightarrow> \<not> ts_passed st \<Longrightarrow> none_passed (put_task t st r)"
  by (auto simp: none_passed_def put_task_def split: if_splits)

text \<open>Every id ever handed out belongs to a task and a number that the task has reached; none repeats.\<close>

definition runner_ok :: "Runner \<times> string list \<Rightarrow> bool" where
  "runner_ok s = (distinct (snd s) \<and> (\<forall>t. 0 \<le> allocated t (fst s) \<and> allocated t (fst s) \<le> ru_max (fst s)) \<and> 1 \<le> ru_max (fst s) \<and>
     (\<forall>i \<in> set (snd s). \<exists>t n. i = attempt_id t n \<and> 0 < n \<and> n \<le> allocated t (fst s)) \<and>
     none_passed (fst s))"

lemma nat_digits_no_dash: "CHR ''-'' \<notin> set (nat_digits n)"
proof (induction n rule: nat_digits.induct)
  case (1 n)
  have d: "k < 10 \<Longrightarrow> char_of (48 + k :: nat) \<noteq> CHR ''-''" for k
  proof
    assume "k < 10" "char_of (48 + k :: nat) = CHR ''-''"
    then have "(of_char (char_of (48 + k :: nat)) :: nat) = of_char (CHR ''-'')" by simp
    with \<open>k < 10\<close> show False by (simp add: of_char_of)
  qed
  show ?case
  proof (cases "n < 10")
    case True
    then show ?thesis using d [of n] by (subst nat_digits.simps) auto
  next
    case False
    then show ?thesis using 1 [OF False] d [of "n mod 10"] by (subst nat_digits.simps) auto
  qed
qed

lemma last_separator:
  assumes "c \<notin> set d" "c \<notin> set d'" "a @ c # d = a' @ c # d'"
  shows "a = a' \<and> d = d'"
proof -
  have "rev d @ c # rev a = rev d' @ c # rev a'" using arg_cong [OF assms(3), of rev] by simp
  moreover have "takeWhile ((\<noteq>) c) (rev d @ c # x) = rev d" "takeWhile ((\<noteq>) c) (rev d' @ c # x) = rev d'" for x
    using assms(1,2) by (subst takeWhile_append2; auto)+
  ultimately have "rev d = rev d'" by metis
  then show ?thesis using assms(3) by simp
qed

lemma attempt_id_inj:
  assumes "0 < n" "0 < m" "attempt_id t n = attempt_id t' m"
  shows "t = t' \<and> n = m"
proof -
  have "(t @ ''-attempt'') @ CHR ''-'' # nat_digits (nat n) = (t' @ ''-attempt'') @ CHR ''-'' # nat_digits (nat m)"
    using assms by (simp add: attempt_id_def format_int_def)
  from last_separator [OF nat_digits_no_dash nat_digits_no_dash this] have "t = t'" "format_int n = format_int m"
    using assms(1,2) by (simp_all add: format_int_def)
  then show ?thesis using format_int_inj by blast
qed

lemma allocated_put: "allocated t (put_task t' st r) = (if t = t' then ts_allocated st else allocated t r)"
  by (simp add: allocated_def ensure_put)

lemma put_task_ok:
  assumes "runner_ok (r, ids)" "ts_allocated st = allocated t r" "\<not> ts_passed st"
  shows "runner_ok (put_task t st r, ids)"
proof -
  have "allocated t' (put_task t st r) = allocated t' r" for t' using assms(2) by (simp add: allocated_put)
  then show ?thesis using assms(1) none_passed_put [OF _ assms(3)] by (simp add: runner_ok_def)
qed

lemma ensure_passed: "runner_ok (r, ids) \<Longrightarrow> \<not> ts_passed (ensure_task t r)"
  by (auto simp: runner_ok_def none_passed_def ensure_task_def split: option.splits)

lemma AllocateAttempt_cases:
  assumes "AllocateAttempt t r = (res, r')"
  obtains (nothing) "t = []" "res = None" "r' = r"
  | (spent) "res = None" "ru_max r \<le> allocated t r" "r' = put_task t ((ensure_task t r)\<lparr>ts_exhausted := True\<rparr>) r"
  | (minted) "res = Some (attempt_id t (allocated t r + 1))" "allocated t r < ru_max r"
      "r' = put_task t ((ensure_task t r)\<lparr>ts_allocated := allocated t r + 1\<rparr>) r"
proof (cases "t = [] \<or> ru_max r \<le> ts_allocated (ensure_task t r)")
  case True
  show thesis
  proof (cases "t = []")
    case empty: True
    show thesis by (rule nothing) (use assms empty in \<open>simp_all add: AllocateAttempt_def\<close>)
  next
    case False
    show thesis by (rule spent) (use assms True False in \<open>simp_all add: AllocateAttempt_def Let_def allocated_def\<close>)
  qed
next
  case False
  show thesis by (rule minted) (use assms False in \<open>simp_all add: AllocateAttempt_def Let_def allocated_def\<close>)
qed

lemma minted_ok:
  assumes ok: "runner_ok (r, ids)" and lt: "allocated t r < ru_max r"
  shows "runner_ok (put_task t ((ensure_task t r)\<lparr>ts_allocated := allocated t r + 1\<rparr>) r, ids @ [attempt_id t (allocated t r + 1)])"
proof -
  let ?st = "(ensure_task t r)\<lparr>ts_allocated := allocated t r + 1\<rparr>"
  have pos: "0 \<le> allocated t' r" for t' using ok by (simp add: runner_ok_def)
  have old: "\<exists>t' n. i = attempt_id t' n \<and> 0 < n \<and> n \<le> allocated t' r" if "i \<in> set ids" for i
    using ok that by (simp add: runner_ok_def)
  have "attempt_id t (allocated t r + 1) \<notin> set ids"
  proof
    assume "attempt_id t (allocated t r + 1) \<in> set ids"
    then obtain t' n where n: "attempt_id t (allocated t r + 1) = attempt_id t' n" "0 < n" "n \<le> allocated t' r" using old by blast
    have "0 < allocated t r + 1" using pos [of t] by linarith
    from attempt_id_inj [OF this n(2,1)] n(3) show False by auto
  qed
  moreover have "\<exists>t' n. i = attempt_id t' n \<and> 0 < n \<and> n \<le> allocated t' (put_task t ?st r)"
    if i: "i \<in> set (ids @ [attempt_id t (allocated t r + 1)])" for i
  proof (cases "i \<in> set ids")
    case True
    then obtain t' n where "i = attempt_id t' n" "0 < n" "n \<le> allocated t' r" using old by blast
    then show ?thesis by (intro exI [of _ t'] exI [of _ n]) (auto simp: allocated_put)
  next
    case False
    then have "i = attempt_id t (allocated t r + 1)" using i by simp
    then show ?thesis using pos [of t] by (intro exI [of _ t] exI [of _ "allocated t r + 1"]) (simp add: allocated_put)
  qed
  moreover have "none_passed (put_task t ?st r)" using ok ensure_passed [OF ok, of t] by (intro none_passed_put) (simp_all add: runner_ok_def)
  moreover have "0 \<le> allocated t' (put_task t ?st r) \<and> allocated t' (put_task t ?st r) \<le> ru_max r" for t'
    using ok lt pos [of t] by (simp add: allocated_put runner_ok_def)
  ultimately show ?thesis using ok unfolding runner_ok_def fst_conv snd_conv ru_max_put by simp
qed

lemma runner_step_ok: "runner_step s t \<Longrightarrow> runner_ok s \<Longrightarrow> runner_ok t"
proof (induction rule: runner_step.induct)
  case (preregister r ids taskID)
  then show ?case using put_task_ok ensure_passed by (auto simp: Preregister_def allocated_def)
next
  case (allocated taskID r attempt r' ids)
  from allocated(1) show ?case by (cases rule: AllocateAttempt_cases) (use minted_ok [OF allocated(2)] in auto)
next
  case (refused taskID r r' ids)
  from refused(1) show ?case
    by (cases rule: AllocateAttempt_cases) (use refused(2) put_task_ok [OF refused(2)] ensure_passed [OF refused(2)] in \<open>auto simp: allocated_def\<close>)
next
  case (quarantined r ids taskID attempt)
  then show ?case using put_task_ok ensure_passed by (auto simp: Quarantine_def Let_def allocated_def)
next
  case (exhausted r ids taskID)
  then show ?case using put_task_ok by (auto simp: MarkExhausted_def allocated_def)
qed

text \<open>What a runner never takes back: its records, a preregistration and an exhaustion.\<close>

definition runner_grows :: "Runner \<Rightarrow> Runner \<Rightarrow> bool" where
  "runner_grows r r' = ((\<forall>t. (\<exists>new. Attempts t r' = Attempts t r @ new) \<and> (Kept t r \<longrightarrow> Kept t r') \<and> (Exhausted t r \<longrightarrow> Exhausted t r') \<and>
     allocated t r \<le> allocated t r') \<and> ru_max r' = ru_max r)"

lemma views: "Attempts t r = ts_attempts (ensure_task t r)" "Kept t r = ts_preregistered (ensure_task t r)" "Exhausted t r = ts_exhausted (ensure_task t r)"
  by (auto simp: Attempts_def Kept_def Exhausted_def ensure_task_def split: option.splits)

lemma put_grows:
  assumes "\<exists>new. ts_attempts st = ts_attempts (ensure_task t r) @ new" "ts_preregistered (ensure_task t r) \<Longrightarrow> ts_preregistered st"
    "ts_exhausted (ensure_task t r) \<Longrightarrow> ts_exhausted st" "allocated t r \<le> ts_allocated st"
  shows "runner_grows r (put_task t st r)"
  using assms by (auto simp: runner_grows_def views ensure_put allocated_put)

lemma runner_step_grows: "runner_step s t \<Longrightarrow> runner_grows (fst s) (fst t)"
proof (induction rule: runner_step.induct)
  case (preregister r ids taskID)
  then show ?case by (auto simp: Preregister_def allocated_def intro!: put_grows) (simp add: runner_grows_def)
next
  case (allocated taskID r attempt r' ids)
  from allocated show ?case by (cases rule: AllocateAttempt_cases) (auto intro!: put_grows)
next
  case (refused taskID r r' ids)
  from refused show ?case by (cases rule: AllocateAttempt_cases) (auto simp: allocated_def runner_grows_def [of r r] intro!: put_grows)
next
  case (quarantined r ids taskID attempt)
  then show ?case by (auto simp: Quarantine_def Let_def allocated_def intro!: put_grows)
next
  case (exhausted r ids taskID)
  then show ?case by (auto simp: MarkExhausted_def allocated_def intro!: put_grows)
qed

lemma runner_grows_trans: "runner_grows a b \<Longrightarrow> runner_grows b c \<Longrightarrow> runner_grows a c"
  unfolding runner_grows_def by (metis append.assoc order_trans)

interpretation runner: stable "\<lambda>s. \<exists>n. s = (NewRunner n, [])" runner_step runner_ok "\<lambda>s. runner_grows r0 (fst s)" for r0
proof
  show "\<exists>n. s = (NewRunner n, []) \<Longrightarrow> runner_ok s" for s by (auto simp: runner_ok_def none_passed_def NewRunner_def allocated_def ensure_task_def)
  show "runner_ok s \<Longrightarrow> runner_step s t \<Longrightarrow> runner_ok t" for s t by (rule runner_step_ok)
  show "runner_ok s \<Longrightarrow> runner_grows r0 (fst s) \<Longrightarrow> runner_step s t \<Longrightarrow> runner_grows r0 (fst t)" for s t
    by (rule runner_grows_trans [OF _ runner_step_grows])
qed

subsection \<open>Properties\<close>

text \<open>
  C18: whatever the order of the operations on a runner, no task ever gets more attempts than the frozen budget
  (at least one), and no attempt id is handed out twice, neither to one task nor to two.
\<close>

theorem attempts_within_budget:
  assumes "reaches runner_step (NewRunner n, []) (r, ids)"
  shows "distinct ids \<and> ru_max r = max 1 n \<and> (\<forall>t. 0 \<le> allocated t r \<and> allocated t r \<le> max 1 n) \<and>
    (\<forall>i \<in> set ids. \<exists>t k. i = attempt_id t k \<and> 0 < k \<and> k \<le> allocated t r)"
proof -
  have ok0: "runner_ok (NewRunner n, [])" using runner.init_inv by blast
  have ok: "runner_ok (r, ids)" by (rule runner.reachable_inv [OF _ assms]) blast
  have "runner_grows (NewRunner n) (NewRunner n)" by (simp add: runner_grows_def)
  with runner.reaches_stable [OF assms ok0] have "runner_grows (NewRunner n) r" by fastforce
  then have "ru_max r = max 1 n" by (simp add: runner_grows_def NewRunner_def)
  then show ?thesis using ok by (auto simp: runner_ok_def)
qed

text \<open>
  the ledger of attempts is append-only, a preregistered task stays in the denominator and an exhausted one
  stays exhausted, through every sequence of operations; and no operation ever marks a task as passed, so the
  numerator of pass@1 is zero for ever.
\<close>

theorem runner_never_forgets:
  assumes "reaches runner_step (NewRunner n, []) (r, ids)" "reaches runner_step (r, ids) (r', ids')"
  shows "(\<exists>new. Attempts t r' = Attempts t r @ new) \<and> (Kept t r \<longrightarrow> Kept t r') \<and> (Exhausted t r \<longrightarrow> Exhausted t r') \<and>
    fst (PassAt1 r') = 0"
proof -
  have ok: "runner_ok (r, ids)" by (rule runner.reachable_inv [OF _ assms(1)]) blast
  have ok': "runner_ok (r', ids')" by (rule runner.reaches_inv [OF assms(2) ok])
  have "runner_grows r r" by (simp add: runner_grows_def)
  with runner.reaches_stable [OF assms(2) ok, of r] have g: "runner_grows r r'" by simp
  have "\<not> ts_passed st" if "(k, st) \<in> set (ru_tasks r')" for k st
    using ok' that by (auto simp: runner_ok_def none_passed_def gmap_ok_def dest!: map_of_is_SomeI)
  then have "filter (\<lambda>(_, st). ts_preregistered st \<and> ts_passed st) (ru_tasks r') = []" by (auto simp: filter_empty_conv)
  then show ?thesis using g by (simp add: runner_grows_def PassAt1_def)
qed

lemma kinds_distinct: "KindMutating \<noteq> KindModel" "KindMutating \<noteq> KindReadOnly"
  by (simp_all add: kind_names)

lemma start_fields: "\<not> ir_resumed (interrupt_start env agentID agent)" "ir_signals (interrupt_start env agentID agent) = []"
    "ir_next (interrupt_start env agentID agent) = []" "ir_attempt (interrupt_start env agentID agent) = bi_attempt (aa_binding agent)"
  by (simp_all add: interrupt_start_def no_interrupt_def)

lemma Interrupt_mutating:
  assumes "map_of (ic_agents c) agentID = Some agent" "ie_kind env = KindMutating" "Interrupt env agentID c = ((r, err), c')"
  shows "interruptMutating env (aa_task agent) (interrupt_start env agentID agent) (ic_runner c) = ((r, err), ic_runner c')"
    "c' = c\<lparr>ic_runner := ic_runner c'\<rparr>"
  using assms kinds_distinct by (auto simp: Interrupt_def Let_def split: prod.splits)

text \<open>A mutating execution after the escalation.\<close>

definition escalated :: "interrupt_env \<Rightarrow> InterruptResult \<Rightarrow> InterruptResult" where
  "escalated env r = r\<lparr>ir_signals := ir_signals r @ fst (escalate env), ir_reclaimed := snd (escalate env)\<rparr>"

lemma interruptMutating_cases:
  assumes "interruptMutating env t r0 ru = ((r, err), ru')"
  obtains (proven) "ie_completed_in_grace env \<and> ie_proven env" "abortAndResume env r0 = (r, err)" "ru' = ru"
  | (ended) "\<not> (ie_completed_in_grace env \<and> ie_proven env)" "ie_context_done env" "r = r0" "err = Some FromContext" "ru' = ru"
  | (late) got where "\<not> (ie_completed_in_grace env \<and> ie_proven env)" "\<not> ie_context_done env" "ie_proven_late env"
      "abortAndResume env (escalated env r0) = (got, err)" "r = got\<lparr>ir_signals := ir_signals (escalated env r0), ir_reclaimed := snd (escalate env)\<rparr>" "ru' = ru"
  | (never) "\<not> (ie_completed_in_grace env \<and> ie_proven env)" "\<not> ie_context_done env" "\<not> ie_proven_late env"
      "quarantine env t (escalated env r0) ru = ((r, err), ru')"
proof -
  consider "ie_completed_in_grace env \<and> ie_proven env" | "\<not> (ie_completed_in_grace env \<and> ie_proven env)" "ie_context_done env"
    | "\<not> (ie_completed_in_grace env \<and> ie_proven env)" "\<not> ie_context_done env" "ie_proven_late env"
    | "\<not> (ie_completed_in_grace env \<and> ie_proven env)" "\<not> ie_context_done env" "\<not> ie_proven_late env" by blast
  then show thesis
  proof cases
    case 1
    then show thesis using assms by (intro proven) (simp_all add: interruptMutating_def)
  next
    case 2
    note i = assms [unfolded interruptMutating_def if_not_P [OF 2(1)]]
    show thesis by (rule ended [OF 2]) (use i 2(2) in simp_all)
  next
    case 3
    obtain got e' where g: "abortAndResume env (escalated env r0) = (got, e')" by fastforce
    show thesis by (rule late [OF 3]) (use assms [unfolded interruptMutating_def if_not_P [OF 3(1)]] 3(2,3) g in \<open>auto simp: escalated_def split_beta Let_def\<close>)
  next
    case 4
    show thesis by (rule never [OF 4]) (use assms [unfolded interruptMutating_def if_not_P [OF 4(1)]] 4(2,3) in \<open>simp add: escalated_def split_beta Let_def\<close>)
  qed
qed

lemma quarantine_fields:
  assumes "quarantine env t r0 ru = ((r, err), ru')"
  shows "\<not> ir_resumed r" "err \<noteq> None" "ir_signals r = ir_signals r0" "ir_reclaimed r = ir_reclaimed r0"
  using assms by (auto simp: quarantine_def Let_def split: option.splits prod.splits)

lemma abort_fields:
  assumes "abortAndResume env r0 = (r, err)" "\<not> ir_resumed r0"
  shows "ir_resumed r \<longleftrightarrow> \<not> ie_abort_fails env \<and> \<not> ie_settle_fails env \<and> \<not> ie_resume_fails env" "ir_resumed r \<longleftrightarrow> err = None"
    "ir_resumed r \<Longrightarrow> ir_outcome r = OutcomeAborted" "ir_reclaimed r = ir_reclaimed r0"
  using assms by (auto simp: abortAndResume_def Let_def split: if_splits)

text \<open>
  C36: an interrupt resumes the session exactly when every session call succeeds and the execution is a model or
  read-only one, or a mutating one whose side effects were proven, in the grace period or after the
  escalation. It never resumes an execution of any other kind, and resuming never touches the runner.
\<close>

theorem resumed_only_when_proven:
  assumes "map_of (ic_agents c) agentID = Some agent" "Interrupt env agentID c = ((r, err), c')"
  shows "(ir_resumed r \<longleftrightarrow> \<not> ie_abort_fails env \<and> \<not> ie_settle_fails env \<and> \<not> ie_resume_fails env \<and>
      (ie_kind env \<in> {KindModel, KindReadOnly} \<or>
       ie_kind env = KindMutating \<and> (ie_completed_in_grace env \<and> ie_proven env \<or> \<not> ie_context_done env \<and> ie_proven_late env))) \<and>
    (ir_resumed r \<longleftrightarrow> err = None) \<and> (ir_resumed r \<longrightarrow> c' = c \<and> ir_outcome r = OutcomeAborted)"
proof -
  let ?r0 = "interrupt_start env agentID agent"
  have esc: "\<not> ir_resumed (escalated env ?r0)" by (simp add: escalated_def start_fields)
  consider (direct) "ie_kind env \<in> {KindModel, KindReadOnly}" | (mutating) "ie_kind env = KindMutating"
    | (other) "ie_kind env \<notin> {KindModel, KindReadOnly, KindMutating}" by blast
  then show ?thesis
  proof cases
    case direct
    then have d: "abortAndResume env ?r0 = (r, err)" "c' = c" using assms by (auto simp: Interrupt_def Let_def)
    then show ?thesis using abort_fields [OF d(1) start_fields(1)] direct by auto
  next
    case mutating
    note m = Interrupt_mutating [OF assms(1) mutating assms(2)]
    from m(1) show ?thesis
    proof (cases rule: interruptMutating_cases)
      case proven
      then show ?thesis using abort_fields [OF proven(2) start_fields(1)] mutating kinds_distinct m(2) by auto
    next
      case ended
      then show ?thesis using mutating kinds_distinct start_fields(1) by auto
    next
      case (late got)
      then show ?thesis using abort_fields [OF late(4) esc] mutating kinds_distinct m(2) by auto
    next
      case never
      then show ?thesis using quarantine_fields [OF never(4)] mutating kinds_distinct by auto
    qed
  next
    case other
    then obtain ru where q: "quarantine env (aa_task agent) ?r0 (ic_runner c) = ((r, err), ru)"
      using assms by (auto simp: Interrupt_def Let_def split: prod.splits)
    show ?thesis using quarantine_fields [OF q] other by auto
  qed
qed

text \<open>
  a mutating execution whose effects stay unproven is quarantined: its attempt is recorded, once, as failed with
  unknown effects; if the task has budget left a fresh attempt id is returned and counted, otherwise the task is
  exhausted; no other task is touched and a preregistration survives.
\<close>

theorem unproven_quarantined:
  assumes "map_of (ic_agents c) agentID = Some agent" "ic_runner c = Some ru" "ie_kind env = KindMutating" "aa_task agent \<noteq> []"
    "\<not> (ie_completed_in_grace env \<and> ie_proven env)" "\<not> ie_context_done env" "\<not> ie_proven_late env"
    "Interrupt env agentID c = ((r, err), c')"
  shows "\<exists>ru'. ic_runner c' = Some ru' \<and> \<not> ir_resumed r \<and>
    Attempts (aa_task agent) ru' = Attempts (aa_task agent) ru @
      [\<lparr>at_task = aa_task agent, at_attempt = bi_attempt (aa_binding agent), at_outcome = OutcomeEffectsUnknown, at_resumed = False\<rparr>] \<and>
    (if allocated (aa_task agent) ru < ru_max ru
     then err = Some EffectsUnknown \<and> ir_next r = attempt_id (aa_task agent) (allocated (aa_task agent) ru + 1) \<and>
       allocated (aa_task agent) ru' = allocated (aa_task agent) ru + 1 \<and> ir_outcome r = OutcomeEffectsUnknown
     else err = Some RetryExhausted \<and> ir_next r = [] \<and> Exhausted (aa_task agent) ru' \<and> ir_outcome r = OutcomeRetryExhausted) \<and>
    (\<forall>t. t \<noteq> aa_task agent \<longrightarrow> ensure_task t ru' = ensure_task t ru) \<and> Kept (aa_task agent) ru' = Kept (aa_task agent) ru"
proof -
  let ?t = "aa_task agent" let ?r1 = "escalated env (interrupt_start env agentID agent)"
  have q: "quarantine env ?t ?r1 (Some ru) = ((r, err), ic_runner c')"
    using Interrupt_mutating(1) [OF assms(1,3,8)] assms(2) by (cases rule: interruptMutating_cases) (use assms(5-7) in auto)
  have r1: "ir_attempt ?r1 = bi_attempt (aa_binding agent)" "ir_next ?r1 = []" by (simp_all add: escalated_def start_fields)
  let ?ru1 = "Quarantine ?t (ir_attempt ?r1) ru"
  have ru1: "allocated ?t ?ru1 = allocated ?t ru" "ru_max ?ru1 = ru_max ru" "Kept ?t ?ru1 = Kept ?t ru"
    "Attempts ?t ?ru1 = Attempts ?t ru @ [\<lparr>at_task = ?t, at_attempt = bi_attempt (aa_binding agent), at_outcome = OutcomeEffectsUnknown, at_resumed = False\<rparr>]"
    "\<And>t. t \<noteq> ?t \<Longrightarrow> ensure_task t ?ru1 = ensure_task t ru"
    by (simp_all add: Quarantine_def Let_def allocated_def views ensure_put r1)
  obtain res ru2 where al: "AllocateAttempt ?t ?ru1 = (res, ru2)" by fastforce
  have q': "((r, err), ic_runner c') = (case res of Some next_id \<Rightarrow>
        ((?r1\<lparr>ir_outcome := OutcomeEffectsUnknown, ir_resumed := False, ir_completed := ie_completed env, ir_replayed := ie_replayed env, ir_next := next_id\<rparr>, Some EffectsUnknown), Some ru2)
      | None \<Rightarrow> ((?r1\<lparr>ir_resumed := False, ir_completed := ie_completed env, ir_replayed := ie_replayed env, ir_exhausted := True, ir_outcome := OutcomeRetryExhausted\<rparr>,
          Some RetryExhausted), Some (MarkExhausted ?t ru2)))"
    using q al by (cases res) (simp_all add: quarantine_def Let_def)
  from al show ?thesis
  proof (cases rule: AllocateAttempt_cases)
    case nothing
    then show ?thesis using assms(4) by simp
  next
    case spent
    then show ?thesis using q' ru1 r1 by (auto simp: views ensure_put MarkExhausted_def)
  next
    case minted
    then show ?thesis using q' ru1 r1 by (auto simp: views ensure_put allocated_put)
  qed
qed

text \<open>
  the signals a result reports are not the signals that were sent: when the effects are proven after the
  escalation the session is aborted cooperatively and resumed, and the abort is not reported; and without a
  process tree both process signals are reported although none was sent.
\<close>

theorem signals_misreported:
  assumes "map_of (ic_agents c) agentID = Some agent" "ie_kind env = KindMutating" "\<not> (ie_completed_in_grace env \<and> ie_proven env)"
    "\<not> ie_context_done env" "Interrupt env agentID c = ((r, err), c')"
  shows "SignalCooperative \<notin> set (ir_signals r) \<and>
    (ie_tree env = None \<longrightarrow> ir_signals r = [SignalTERM, SignalKILL] \<and> \<not> ir_reclaimed r) \<and>
    (ie_proven_late env \<and> \<not> ie_abort_fails env \<and> \<not> ie_settle_fails env \<and> \<not> ie_resume_fails env \<longrightarrow> ir_resumed r)"
proof -
  let ?r0 = "interrupt_start env agentID agent"
  have s: "SignalCooperative \<notin> set (fst (escalate env))" "ie_tree env = None \<Longrightarrow> escalate env = ([SignalTERM, SignalKILL], False)"
    by (auto simp: escalate_def SignalCooperative_def SignalTERM_def SignalKILL_def split: option.splits)
  have f: "ir_signals (escalated env ?r0) = fst (escalate env)" "ir_reclaimed (escalated env ?r0) = snd (escalate env)" "\<not> ir_resumed (escalated env ?r0)"
    by (simp_all add: escalated_def start_fields)
  from Interrupt_mutating(1) [OF assms(1,2,5)] show ?thesis
  proof (cases rule: interruptMutating_cases)
    case (late got)
    then show ?thesis using abort_fields [OF late(4) f(3)] s f by auto
  next
    case never
    then show ?thesis using quarantine_fields [OF never(4)] s f by auto
  qed (use assms(3,4) in blast)+
qed

subsection \<open>A sample\<close>

definition sample_env_mutating :: interrupt_env where
  "sample_env_mutating = \<lparr>ie_kind = KindMutating, ie_abort_fails = False, ie_settle_fails = False, ie_resume_fails = False,
     ie_completed_in_grace = False, ie_proven = False, ie_context_done = False, ie_tree = None, ie_proven_late = False, ie_completed = [], ie_replayed = []\<rparr>"

definition sample_attached :: attachedAgent where
  "sample_attached = \<lparr>aa_binding = \<lparr>bi_evaluation = ''e'', bi_run = ''u'', bi_attempt = ''t0'', bi_room = ''r'', bi_agent = ''a'',
     bi_session = \<lparr>ps_file = ''f'', ps_id = ''s''\<rparr>, bi_session_dir = [], bi_work_dir = [], bi_profile = [], bi_provider = [], bi_model = [],
     bi_tool_policy = [], bi_generation = 0, bi_segment = []\<rparr>, aa_task = ''t''\<rparr>"

definition sample_interrupts :: InterruptCoordinator where
  "sample_interrupts = \<lparr>ic_runner = Some (NewRunner 1), ic_agents = [(''a'', sample_attached)]\<rparr>"

lemma sample_attached_fields: "map_of (ic_agents sample_interrupts) ''a'' = Some sample_attached" "ic_runner sample_interrupts = Some (NewRunner 1)"
    "aa_task sample_attached \<noteq> []" "aa_task sample_attached = ''t''"
  by (simp_all add: sample_interrupts_def sample_attached_def)

lemma sample_runner_steps: "reaches runner_step (NewRunner 1, []) (snd (AllocateAttempt ''t'' (NewRunner 1)), [attempt_id ''t'' 1])"
proof (rule reaches_one, rule runner_step.allocated [of "''t''" "NewRunner 1" _ _ "[]", simplified])
  show "AllocateAttempt ''t'' (NewRunner 1) = (Some (attempt_id ''t'' 1), snd (AllocateAttempt ''t'' (NewRunner 1)))"
    by (simp add: AllocateAttempt_def NewRunner_def ensure_task_def Let_def)
qed

theorem attempts_within_budget_witness: "allocated ''t'' (snd (AllocateAttempt ''t'' (NewRunner 1))) \<le> 1"
  using attempts_within_budget [OF sample_runner_steps] by simp

theorem runner_never_forgets_witness:
  "fst (PassAt1 (MarkExhausted ''t'' (snd (AllocateAttempt ''t'' (NewRunner 1))))) = 0"
  using runner_never_forgets [OF sample_runner_steps reaches_one [of runner_step, OF runner_step.exhausted [of _ _ "''t''"]]] by blast

theorem resumed_only_when_proven_witness:
  "\<not> ir_resumed (fst (fst (Interrupt sample_env_mutating ''a'' sample_interrupts))) \<and>
   ir_resumed (fst (fst (Interrupt (sample_env_mutating\<lparr>ie_proven_late := True\<rparr>) ''a'' sample_interrupts)))"
proof -
  obtain r e c r' e' c' where i: "Interrupt sample_env_mutating ''a'' sample_interrupts = ((r, e), c)"
    "Interrupt (sample_env_mutating\<lparr>ie_proven_late := True\<rparr>) ''a'' sample_interrupts = ((r', e'), c')" by (metis prod.exhaust)
  from resumed_only_when_proven [OF sample_attached_fields(1) i(1)] resumed_only_when_proven [OF sample_attached_fields(1) i(2)]
  have "\<not> ir_resumed r" "ir_resumed r'" using kinds_distinct by (simp_all add: sample_env_mutating_def)
  then show ?thesis unfolding i by simp
qed

theorem unproven_quarantined_witness:
  "ir_next (fst (fst (Interrupt sample_env_mutating ''a'' sample_interrupts))) = attempt_id ''t'' 1"
proof -
  obtain r e c where i: "Interrupt sample_env_mutating ''a'' sample_interrupts = ((r, e), c)" by (metis prod.exhaust)
  have m: "ie_kind sample_env_mutating = KindMutating" "\<not> (ie_completed_in_grace sample_env_mutating \<and> ie_proven sample_env_mutating)"
    "\<not> ie_context_done sample_env_mutating" "\<not> ie_proven_late sample_env_mutating" by (simp_all add: sample_env_mutating_def)
  have "allocated ''t'' (NewRunner 1) = 0" "ru_max (NewRunner 1) = 1" by (simp_all add: allocated_def NewRunner_def ensure_task_def)
  with unproven_quarantined [OF sample_attached_fields(1,2) m(1) sample_attached_fields(3) m(2-4) i] show ?thesis
    by (auto simp: i sample_attached_fields(4))
qed

theorem signals_misreported_witness:
  "ir_signals (fst (fst (Interrupt sample_env_mutating ''a'' sample_interrupts))) = [SignalTERM, SignalKILL]"
proof -
  obtain r e c where i: "Interrupt sample_env_mutating ''a'' sample_interrupts = ((r, e), c)" by (metis prod.exhaust)
  have m: "ie_kind sample_env_mutating = KindMutating" "\<not> (ie_completed_in_grace sample_env_mutating \<and> ie_proven sample_env_mutating)"
    "\<not> ie_context_done sample_env_mutating" "ie_tree sample_env_mutating = None" by (simp_all add: sample_env_mutating_def)
  from signals_misreported [OF sample_attached_fields(1) m(1-3) i] m(4) show ?thesis by (simp add: i)
qed

end
