(* ===== verification/Freeze_Cut.thy ===== *)
theory Freeze_Cut
  imports Host_Progress
begin

text \<open>
  The host half of a consolidation cut (\<^verbatim>\<open>internal/consolidationcut/coordinator.go\<close>): one immutable snapshot of a
  room per idempotency key, submission only when commit receipts cover the sealed segments exactly. The store
  is read between two locked regions, so a freeze is a thread with a check, a build and a publication.
\<close>

subsection \<open>Records\<close>

datatype freeze_error =
    ErrFreezeStoreRequired
  | ErrFreezeKeyRequired
  | ErrInvalidMode
  | ErrFreezeRequestBodyConflict
  | ErrRoomIdentityMismatch
  | ErrReceiptCoverageIncomplete
  | ErrFromStore

definition ModeThreshold :: string where "ModeThreshold = ''threshold''"
definition ModeForce :: string where "ModeForce = ''force''"

record RoomFreezePoint =
  fp_tenant :: string
  fp_room :: string
  fp_epoch :: "64 word"
  fp_sequence :: "64 word"

record CommitReceipt =
  rc_receipt :: string
  rc_segment :: string
  rc_batches :: "string list"
  rc_digest :: string

record FreezeRequest =
  fz_tenant :: string
  fz_room :: string
  fz_mode :: string
  fz_key :: string

record HostFreezeSnapshot =
  hs_tenant :: string
  hs_room :: string
  hs_epoch :: "64 word"
  hs_sequence :: "64 word"
  hs_sealed :: "string list"
  hs_deferred :: "string list"
  hs_receipts :: "CommitReceipt list"
  hs_key :: string
  hs_complete :: bool
  hs_permitted :: bool

text \<open>\<open>fc_store\<close>: whether the coordinator was given a store. Snapshots are values, so cloning them is the identity.\<close>

record FreezeCoordinator =
  fc_store :: bool
  fc_frozen :: "HostFreezeSnapshot gmap"
  fc_bodies :: "FreezeRequest gmap"

definition NewFreezeCoordinator :: "bool \<Rightarrow> FreezeCoordinator" where
  "NewFreezeCoordinator store = \<lparr>fc_store = store, fc_frozen = [], fc_bodies = []\<rparr>"

text \<open>What the store answers to one freeze.\<close>

record freeze_env =
  fe_point :: "RoomFreezePoint option"
  fe_sealed :: "string list option"
  fe_open :: "string list option"
  fe_receipts :: "CommitReceipt list option"

subsection \<open>Operations\<close>

definition freezeMemoKey :: "FreezeRequest \<Rightarrow> string" where
  "freezeMemoKey req = fz_tenant req @ CHR 0x00 # fz_room req @ CHR 0x00 # fz_key req"

fun cover :: "string list \<Rightarrow> string list \<Rightarrow> CommitReceipt list \<Rightarrow> freeze_error + string list" where
  "cover covered ids [] = Inr covered"
| "cover covered ids (r # rs) =
     (if rc_receipt r = [] \<or> rc_digest r = [] \<or> rc_batches r = [] then Inl ErrReceiptCoverageIncomplete
      else if rc_segment r \<in> set covered \<or> rc_receipt r \<in> set ids then Inl ErrReceiptCoverageIncomplete
      else cover (rc_segment r # covered) (rc_receipt r # ids) rs)"

definition receiptsCoverExactly :: "string list \<Rightarrow> CommitReceipt list \<Rightarrow> freeze_error + bool" where
  "receiptsCoverExactly sealed receipts =
     (if length receipts \<noteq> length sealed then Inr False
      else (case cover [] [] receipts of Inl e \<Rightarrow> Inl e | Inr covered \<Rightarrow> Inr (list_all (\<lambda>s. s \<in> set covered) sealed)))"

text \<open>The first locked region: an answer from the memo, a refusal, or the permission to read the store.\<close>

definition freeze_check :: "FreezeRequest \<Rightarrow> FreezeCoordinator \<Rightarrow> (freeze_error + HostFreezeSnapshot) option" where
  "freeze_check req c =
     (if fz_key req = [] then Some (Inl ErrFreezeKeyRequired)
      else if fz_mode req \<noteq> ModeThreshold \<and> fz_mode req \<noteq> ModeForce then Some (Inl ErrInvalidMode)
      else (case map_of (fc_frozen c) (freezeMemoKey req) of
          Some snapshot \<Rightarrow>
            if map_of (fc_bodies c) (freezeMemoKey req) \<noteq> Some req then Some (Inl ErrFreezeRequestBodyConflict) else Some (Inr snapshot)
        | None \<Rightarrow> if \<not> fc_store c then Some (Inl ErrFreezeStoreRequired) else None))"

definition build_snapshot :: "freeze_env \<Rightarrow> FreezeRequest \<Rightarrow> freeze_error + HostFreezeSnapshot" where
  "build_snapshot env req =
     (case fe_point env of
        None \<Rightarrow> Inl ErrFromStore
      | Some point \<Rightarrow>
          if fp_tenant point \<noteq> fz_tenant req \<or> fp_room point \<noteq> fz_room req then Inl ErrRoomIdentityMismatch
          else (case fe_sealed env of
              None \<Rightarrow> Inl ErrFromStore
            | Some sealed \<Rightarrow>
                (case fe_open env of
                   None \<Rightarrow> Inl ErrFromStore
                 | Some deferred \<Rightarrow>
                     let snapshot = \<lparr>hs_tenant = fz_tenant req, hs_room = fz_room req, hs_epoch = fp_epoch point, hs_sequence = fp_sequence point,
                           hs_sealed = sealed, hs_deferred = deferred, hs_receipts = [], hs_key = fz_key req, hs_complete = False, hs_permitted = False\<rparr>
                     in if deferred \<noteq> [] then Inr snapshot
                        else (case fe_receipts env of
                            None \<Rightarrow> Inl ErrFromStore
                          | Some receipts \<Rightarrow>
                              (case receiptsCoverExactly sealed receipts of
                                 Inl e \<Rightarrow> Inl e
                               | Inr complete \<Rightarrow> Inr (snapshot\<lparr>hs_receipts := receipts, hs_complete := complete, hs_permitted := complete\<rparr>))))))"

text \<open>The second locked region: the first freeze to get here fixes the snapshot of the key.\<close>

definition publish_snapshot :: "FreezeRequest \<Rightarrow> HostFreezeSnapshot \<Rightarrow> FreezeCoordinator \<Rightarrow> HostFreezeSnapshot \<times> FreezeCoordinator" where
  "publish_snapshot req snapshot c =
     (case map_of (fc_frozen c) (freezeMemoKey req) of
        Some existing \<Rightarrow> (existing, c)
      | None \<Rightarrow> (snapshot, c\<lparr>fc_frozen := gput (freezeMemoKey req) snapshot (fc_frozen c), fc_bodies := gput (freezeMemoKey req) req (fc_bodies c)\<rparr>))"

text \<open>A freeze that nothing interrupts.\<close>

definition Freeze :: "freeze_env \<Rightarrow> FreezeRequest \<Rightarrow> FreezeCoordinator \<Rightarrow> (freeze_error + HostFreezeSnapshot) \<times> FreezeCoordinator" where
  "Freeze env req c =
     (case freeze_check req c of
        Some answer \<Rightarrow> (answer, c)
      | None \<Rightarrow>
          (case build_snapshot env req of
             Inl e \<Rightarrow> (Inl e, c)
           | Inr snapshot \<Rightarrow> let (s, c') = publish_snapshot req snapshot c in (Inr s, c')))"

subsection \<open>Freezes that overlap\<close>

datatype freeze_pc = Reading | Built HostFreezeSnapshot | Done "freeze_error + HostFreezeSnapshot"

record freeze_sys =
  fz_coord :: FreezeCoordinator
  fz_calls :: "(FreezeRequest \<times> freeze_pc) list"

definition new_freezes :: freeze_sys where
  "new_freezes = \<lparr>fz_coord = NewFreezeCoordinator True, fz_calls = []\<rparr>"

datatype freeze_event = Start FreezeRequest | Read freeze_env nat | Publish nat

fun freeze_perform :: "freeze_event \<Rightarrow> freeze_sys \<Rightarrow> freeze_sys option" where
  "freeze_perform (Start req) y =
     Some (y\<lparr>fz_calls := fz_calls y @ [(req, case freeze_check req (fz_coord y) of Some answer \<Rightarrow> Done answer | None \<Rightarrow> Reading)]\<rparr>)"
| "freeze_perform (Read env i) y =
     (if i < length (fz_calls y) \<and> snd (fz_calls y ! i) = Reading then
        let req = fst (fz_calls y ! i) in
        Some (y\<lparr>fz_calls := (fz_calls y)[i := (req, case build_snapshot env req of Inl e \<Rightarrow> Done (Inl e) | Inr s \<Rightarrow> Built s)]\<rparr>)
      else None)"
| "freeze_perform (Publish i) y =
     (if i < length (fz_calls y) then
        (case fz_calls y ! i of
           (req, Built snapshot) \<Rightarrow>
             let (s, c) = publish_snapshot req snapshot (fz_coord y) in Some \<lparr>fz_coord = c, fz_calls = (fz_calls y)[i := (req, Done (Inr s))]\<rparr>
         | _ \<Rightarrow> None)
      else None)"

definition freeze_step :: "freeze_sys \<Rightarrow> freeze_sys \<Rightarrow> bool" where
  "freeze_step y z = (\<exists>ev. freeze_perform ev y = Some z)"

subsection \<open>Coverage by receipts\<close>

definition receipt_ok :: "CommitReceipt \<Rightarrow> bool" where
  "receipt_ok r = (rc_receipt r \<noteq> [] \<and> rc_digest r \<noteq> [] \<and> rc_batches r \<noteq> [])"

lemma cover_Inr:
  "cover covered ids rs = Inr c \<longleftrightarrow>
     list_all receipt_ok rs \<and> distinct (map rc_segment rs) \<and> distinct (map rc_receipt rs) \<and>
     set (map rc_segment rs) \<inter> set covered = {} \<and> set (map rc_receipt rs) \<inter> set ids = {} \<and> c = rev (map rc_segment rs) @ covered"
  by (induction rs arbitrary: covered ids) (auto simp: receipt_ok_def)

lemma cover_exact:
  assumes "distinct sealed" "length rs = length sealed" "distinct (map rc_segment rs)"
  shows "set sealed \<subseteq> set (map rc_segment rs) \<longleftrightarrow> mset (map rc_segment rs) = mset sealed"
proof
  assume sub: "set sealed \<subseteq> set (map rc_segment rs)"
  have "card (set sealed) = card (set (map rc_segment rs))" using assms by (metis distinct_card length_map)
  then have "set sealed = set (map rc_segment rs)" using sub by (intro card_subset_eq) simp_all
  then show "mset (map rc_segment rs) = mset sealed" using assms(1,3) by (metis set_eq_iff_mset_eq_distinct)
next
  assume "mset (map rc_segment rs) = mset sealed"
  then show "set sealed \<subseteq> set (map rc_segment rs)" by (metis set_mset_mset subset_refl)
qed

text \<open>
  for a sealed set without repetitions the receipts cover exactly when every receipt is complete, no receipt
  identity repeats, and the segments of the receipts are the sealed segments, each once, in any order. The loop
  with its two maps decides precisely this.
\<close>

theorem receipts_cover_exactly:
  assumes "distinct sealed"
  shows "receiptsCoverExactly sealed receipts = Inr True \<longleftrightarrow>
    list_all receipt_ok receipts \<and> distinct (map rc_receipt receipts) \<and> mset (map rc_segment receipts) = mset sealed"
proof
  assume a: "receiptsCoverExactly sealed receipts = Inr True"
  then have len: "length receipts = length sealed" by (auto simp: receiptsCoverExactly_def split: if_splits)
  then obtain c where c: "cover [] [] receipts = Inr c" "list_all (\<lambda>s. s \<in> set c) sealed"
    using a by (auto simp: receiptsCoverExactly_def split: sum.splits)
  from c(1) have r: "list_all receipt_ok receipts" "distinct (map rc_segment receipts)" "distinct (map rc_receipt receipts)"
      "c = rev (map rc_segment receipts)" unfolding cover_Inr by auto
  have "set sealed \<subseteq> set (map rc_segment receipts)" using c(2) r(4) by (auto simp: list_all_iff)
  then show "list_all receipt_ok receipts \<and> distinct (map rc_receipt receipts) \<and> mset (map rc_segment receipts) = mset sealed"
    using cover_exact [OF assms len r(2)] r(1,3) by blast
next
  assume r: "list_all receipt_ok receipts \<and> distinct (map rc_receipt receipts) \<and> mset (map rc_segment receipts) = mset sealed"
  then have len: "length receipts = length sealed" by (metis length_map mset_eq_length)
  have d: "distinct (map rc_segment receipts)" using r assms by (metis mset_eq_imp_distinct_iff)
  have "cover [] [] receipts = Inr (rev (map rc_segment receipts))" unfolding cover_Inr using r d by simp
  moreover have "set sealed \<subseteq> set (map rc_segment receipts)" using r by (metis set_mset_mset subset_refl)
  ultimately show "receiptsCoverExactly sealed receipts = Inr True" using len by (auto simp: receiptsCoverExactly_def list_all_iff)
qed

text \<open>What the loop decides without that condition: a complete receipt of its own for every sealed segment, and no more receipts than names.\<close>

definition covering :: "string list \<Rightarrow> CommitReceipt list \<Rightarrow> bool" where
  "covering sealed receipts =
     ((\<forall>r \<in> set receipts. receipt_ok r) \<and> distinct (map rc_receipt receipts) \<and> distinct (map rc_segment receipts) \<and>
      (\<forall>segment \<in> set sealed. \<exists>r \<in> set receipts. rc_segment r = segment) \<and> length receipts = length sealed \<and>
      (distinct sealed \<longrightarrow> mset (map rc_segment receipts) = mset sealed))"

lemma receiptsCoverExactly_covering: "receiptsCoverExactly sealed receipts = Inr True \<Longrightarrow> covering sealed receipts"
proof -
  assume a: "receiptsCoverExactly sealed receipts = Inr True"
  then have len: "length receipts = length sealed" by (auto simp: receiptsCoverExactly_def split: if_splits)
  then obtain c where c: "cover [] [] receipts = Inr c" "list_all (\<lambda>s. s \<in> set c) sealed"
    using a by (auto simp: receiptsCoverExactly_def split: sum.splits)
  from c(1) have r: "list_all receipt_ok receipts" "distinct (map rc_segment receipts)" "distinct (map rc_receipt receipts)"
      "c = rev (map rc_segment receipts)" unfolding cover_Inr by auto
  have "\<forall>segment \<in> set sealed. \<exists>r \<in> set receipts. rc_segment r = segment" using c(2) r(4) by (auto simp: list_all_iff)
  moreover have "distinct sealed \<longrightarrow> mset (map rc_segment receipts) = mset sealed" using receipts_cover_exactly a by blast
  ultimately show ?thesis using len r(1-3) by (simp add: covering_def list_all_iff)
qed

text \<open>
  when the store names a sealed segment twice, the count of the receipts no longer ties them to the sealed set:
  a receipt for a segment outside of it is accepted, and the coverage counts as exact.
\<close>

theorem repeated_segment_covers_stranger:
  assumes "receipt_ok r" "receipt_ok r'" "rc_receipt r \<noteq> rc_receipt r'" "rc_segment r = s" "rc_segment r' \<noteq> s"
  shows "receiptsCoverExactly [s, s] [r, r'] = Inr True"
  using assms by (auto simp: receiptsCoverExactly_def receipt_ok_def)

subsection \<open>One snapshot per key\<close>

definition built_for :: "FreezeRequest \<Rightarrow> HostFreezeSnapshot \<Rightarrow> bool" where
  "built_for req s = (\<exists>env. build_snapshot env req = Inr s)"

definition freezes_ok :: "freeze_sys \<Rightarrow> bool" where
  "freezes_ok y =
     ((\<forall>k s. map_of (fc_frozen (fz_coord y)) k = Some s \<longrightarrow>
         (\<exists>req. map_of (fc_bodies (fz_coord y)) k = Some req \<and> freezeMemoKey req = k \<and> built_for req s)) \<and>
      (\<forall>(req, pc) \<in> set (fz_calls y). (\<forall>s. pc = Built s \<longrightarrow> built_for req s) \<and>
         (\<forall>s. pc = Done (Inr s) \<longrightarrow> map_of (fc_frozen (fz_coord y)) (freezeMemoKey req) = Some s)))"

lemma publish_cases:
  assumes "publish_snapshot req s c = (s', c')"
  obtains (lost) "map_of (fc_frozen c) (freezeMemoKey req) = Some s'" "c' = c"
  | (won) "map_of (fc_frozen c) (freezeMemoKey req) = None" "s' = s"
      "c' = c\<lparr>fc_frozen := gput (freezeMemoKey req) s (fc_frozen c), fc_bodies := gput (freezeMemoKey req) req (fc_bodies c)\<rparr>"
  using assms by (auto simp: publish_snapshot_def split: option.splits)

lemma freeze_step_frozen:
  assumes "freeze_step y z" "map_of (fc_frozen (fz_coord y)) k = Some s"
  shows "map_of (fc_frozen (fz_coord z)) k = Some s"
proof -
  obtain ev where "freeze_perform ev y = Some z" using assms(1) by (auto simp: freeze_step_def)
  then show ?thesis using assms(2)
    by (cases ev) (auto simp: Let_def elim!: publish_cases split: if_splits prod.splits freeze_pc.splits)
qed

lemma freeze_perform_ok:
  assumes ok: "freezes_ok y" and z: "freeze_perform ev y = Some z"
  shows "freezes_ok z"
proof -
  have calls: "(\<forall>s. pc = Built s \<longrightarrow> built_for req s) \<and> (\<forall>s. pc = Done (Inr s) \<longrightarrow> map_of (fc_frozen (fz_coord y)) (freezeMemoKey req) = Some s)"
    if "(req, pc) \<in> set (fz_calls y)" for req pc using ok that unfolding freezes_ok_def by blast
  have frozen: "\<exists>req. map_of (fc_bodies (fz_coord y)) k = Some req \<and> freezeMemoKey req = k \<and> built_for req s"
    if "map_of (fc_frozen (fz_coord y)) k = Some s" for k s using ok that unfolding freezes_ok_def by blast
  show ?thesis
  proof (cases ev)
    case (Start req)
    let ?pc = "case freeze_check req (fz_coord y) of Some answer \<Rightarrow> Done answer | None \<Rightarrow> Reading"
    have zz: "z = y\<lparr>fz_calls := fz_calls y @ [(req, ?pc)]\<rparr>" using z by (simp add: Start)
    have memo: "map_of (fc_frozen (fz_coord y)) (freezeMemoKey req) = Some s" if "freeze_check req (fz_coord y) = Some (Inr s)" for s
      using that by (auto simp: freeze_check_def split: if_splits option.splits)
    have "(\<forall>s. pc = Built s \<longrightarrow> built_for r s) \<and> (\<forall>s. pc = Done (Inr s) \<longrightarrow> map_of (fc_frozen (fz_coord y)) (freezeMemoKey r) = Some s)"
      if "(r, pc) \<in> set (fz_calls z)" for r pc
    proof (cases "(r, pc) \<in> set (fz_calls y)")
      case True
      then show ?thesis by (rule calls)
    next
      case False
      then have "r = req" "pc = ?pc" using that by (auto simp: zz)
      then show ?thesis using memo by (auto split: option.splits)
    qed
    then show ?thesis using frozen unfolding freezes_ok_def by (auto simp: zz)
  next
    case (Read env i)
    then obtain req where i: "i < length (fz_calls y)" "fst (fz_calls y ! i) = req"
      and zz: "z = y\<lparr>fz_calls := (fz_calls y)[i := (req, case build_snapshot env req of Inl e \<Rightarrow> Done (Inl e) | Inr s \<Rightarrow> Built s)]\<rparr>"
      using z by (auto simp: Let_def split: if_splits)
    have "p \<in> set (fz_calls z) \<Longrightarrow> p = (req, case build_snapshot env req of Inl e \<Rightarrow> Done (Inl e) | Inr s \<Rightarrow> Built s) \<or> p \<in> set (fz_calls y)" for p
      using set_update_subset_insert [of "fz_calls y" i] by (auto simp: zz)
    then show ?thesis using frozen calls unfolding freezes_ok_def by (fastforce simp: zz built_for_def split: sum.splits)
  next
    case (Publish i)
    then obtain req snap s c where i: "i < length (fz_calls y)" "fz_calls y ! i = (req, Built snap)" "publish_snapshot req snap (fz_coord y) = (s, c)"
      and zz: "z = \<lparr>fz_coord = c, fz_calls = (fz_calls y)[i := (req, Done (Inr s))]\<rparr>"
      using z by (auto simp: Let_def split: if_splits prod.splits freeze_pc.splits)
    have mem: "p \<in> set (fz_calls z) \<Longrightarrow> p = (req, Done (Inr s)) \<or> p \<in> set (fz_calls y)" for p
      using set_update_subset_insert [of "fz_calls y" i] by (auto simp: zz)
    have "(req, Built snap) \<in> set (fz_calls y)" using i(1,2) by (metis nth_mem)
    then have built: "built_for req snap" using calls by blast
    from i(3) show ?thesis
    proof (cases rule: publish_cases)
      case lost
      have "\<forall>p \<in> set (fz_calls z). case p of (r, pc) \<Rightarrow> (\<forall>s. pc = Built s \<longrightarrow> built_for r s) \<and>
          (\<forall>s. pc = Done (Inr s) \<longrightarrow> map_of (fc_frozen (fz_coord y)) (freezeMemoKey r) = Some s)"
        using mem calls lost(1) by fastforce
      then show ?thesis using frozen unfolding freezes_ok_def by (simp add: zz lost(2))
    next
      case won
      have f: "map_of (fc_frozen (fz_coord z)) = (map_of (fc_frozen (fz_coord y)))(freezeMemoKey req \<mapsto> snap)"
        "map_of (fc_bodies (fz_coord z)) = (map_of (fc_bodies (fz_coord y)))(freezeMemoKey req \<mapsto> req)" by (simp_all add: zz won(3))
      have "(\<forall>t. pc = Built t \<longrightarrow> built_for r t) \<and> (\<forall>t. pc = Done (Inr t) \<longrightarrow> map_of (fc_frozen (fz_coord z)) (freezeMemoKey r) = Some t)"
        if "(r, pc) \<in> set (fz_calls z)" for r pc
        using mem [OF that] calls [of r pc] won(1,2) by (auto simp: f)
      moreover have "\<exists>r. map_of (fc_bodies (fz_coord z)) k = Some r \<and> freezeMemoKey r = k \<and> built_for r t"
        if "map_of (fc_frozen (fz_coord z)) k = Some t" for k t
        using that frozen [of k t] built by (auto simp: f split: if_splits)
      ultimately show ?thesis unfolding freezes_ok_def by blast
    qed
  qed
qed

interpretation freezes: stable "\<lambda>y. y = new_freezes" freeze_step freezes_ok "\<lambda>y. map_of (fc_frozen (fz_coord y)) k = Some s" for k s
proof
  show "y = new_freezes \<Longrightarrow> freezes_ok y" for y by (simp add: freezes_ok_def new_freezes_def NewFreezeCoordinator_def)
  show "freezes_ok y \<Longrightarrow> freeze_step y z \<Longrightarrow> freezes_ok z" for y z by (auto simp: freeze_step_def intro: freeze_perform_ok)
  show "freezes_ok y \<Longrightarrow> map_of (fc_frozen (fz_coord y)) k = Some s \<Longrightarrow> freeze_step y z \<Longrightarrow> map_of (fc_frozen (fz_coord z)) k = Some s" for y z
    by (rule freeze_step_frozen)
qed

lemma built_permitted:
  assumes "build_snapshot env req = Inr s"
  shows "hs_tenant s = fz_tenant req \<and> hs_room s = fz_room req \<and> hs_key s = fz_key req \<and>
    (hs_permitted s \<longleftrightarrow> hs_complete s) \<and> (hs_permitted s \<longrightarrow> hs_deferred s = [] \<and> receiptsCoverExactly (hs_sealed s) (hs_receipts s) = Inr True)"
  using assms by (auto simp: build_snapshot_def Let_def split: option.splits if_splits sum.splits)

text \<open>
  C15: freezes of one key agree: whatever overlaps, two freezes of one tenant, room and key that both succeed have
  the same snapshot, every later freeze gets that snapshot or a conflict, and once it is fixed nothing changes
  it, whatever the store would answer by then.
\<close>

theorem freezes_agree:
  assumes "reaches freeze_step new_freezes y" "(req, Done (Inr s)) \<in> set (fz_calls y)" "(req', Done (Inr s')) \<in> set (fz_calls y)"
    "freezeMemoKey req' = freezeMemoKey req" "reaches freeze_step y z"
  shows "s' = s \<and> fst (Freeze env req' (fz_coord z)) \<in> {Inr s, Inl ErrFreezeRequestBodyConflict, Inl ErrFreezeKeyRequired, Inl ErrInvalidMode} \<and>
    snd (Freeze env req' (fz_coord z)) = fz_coord z"
proof -
  have ok: "freezes_ok y" by (rule freezes.reachable_inv [OF refl assms(1)])
  then have s: "map_of (fc_frozen (fz_coord y)) (freezeMemoKey req) = Some s" "map_of (fc_frozen (fz_coord y)) (freezeMemoKey req') = Some s'"
    using assms(2,3) unfolding freezes_ok_def by blast+
  have "map_of (fc_frozen (fz_coord z)) (freezeMemoKey req) = Some s" by (rule freezes.reaches_stable [OF assms(5) ok s(1)])
  then show ?thesis using s assms(4) by (auto simp: Freeze_def freeze_check_def)
qed

text \<open>
  C37: a snapshot that permits submission names no open segment and its receipts cover its sealed segments: every
  receipt is complete, no receipt and no segment has two, every sealed segment has one, and there are as many receipts as names of sealed segments; so,
  unless the store named a sealed segment twice, the receipts are for the sealed segments and no others.
  And the snapshot was built for the tenant, room and key under which it is returned.
\<close>

theorem submission_only_when_covered:
  assumes "reaches freeze_step new_freezes y" "(req, Done (Inr s)) \<in> set (fz_calls y)"
  shows "\<exists>owner. freezeMemoKey owner = freezeMemoKey req \<and> map_of (fc_bodies (fz_coord y)) (freezeMemoKey req) = Some owner \<and>
    hs_tenant s = fz_tenant owner \<and> hs_room s = fz_room owner \<and> hs_key s = fz_key owner \<and>
    (hs_permitted s \<longrightarrow> hs_deferred s = [] \<and> covering (hs_sealed s) (hs_receipts s))"
proof -
  have ok: "freezes_ok y" by (rule freezes.reachable_inv [OF refl assms(1)])
  then have "map_of (fc_frozen (fz_coord y)) (freezeMemoKey req) = Some s" using assms(2) unfolding freezes_ok_def by blast
  then obtain owner where "map_of (fc_bodies (fz_coord y)) (freezeMemoKey req) = Some owner" "freezeMemoKey owner = freezeMemoKey req" "built_for owner s"
    using ok unfolding freezes_ok_def by blast
  moreover from this(3) obtain env where "build_snapshot env owner = Inr s" by (auto simp: built_for_def)
  ultimately show ?thesis using built_permitted receiptsCoverExactly_covering by blast
qed

lemma freeze_reaches_more: "reaches freeze_step s y \<Longrightarrow> freeze_perform ev y = Some z \<Longrightarrow> reaches freeze_step s z"
  by (rule reaches.more) (auto simp: freeze_step_def)

text \<open>
  the body of a key is compared only in the first locked region: when two freezes with one key and different
  modes overlap, both succeed and the later one is answered with the snapshot frozen for the other mode,
  although the same two freezes one after the other end in a body conflict.
\<close>

theorem overlapping_modes_not_refused:
  assumes "fz_key req \<noteq> []" "fz_mode req = ModeThreshold" "build_snapshot env req = Inr s"
    "build_snapshot env' (req\<lparr>fz_mode := ModeForce\<rparr>) = Inr s'"
  shows "(\<exists>y. reaches freeze_step new_freezes y \<and> fz_calls y = [(req, Done (Inr s)), (req\<lparr>fz_mode := ModeForce\<rparr>, Done (Inr s))]) \<and>
    fst (Freeze env' (req\<lparr>fz_mode := ModeForce\<rparr>) (snd (Freeze env req (NewFreezeCoordinator True)))) = Inl ErrFreezeRequestBodyConflict"
proof -
  let ?req' = "req\<lparr>fz_mode := ModeForce\<rparr>" and ?c0 = "NewFreezeCoordinator True"
  have modes: "ModeThreshold \<noteq> ModeForce" by (simp add: ModeThreshold_def ModeForce_def)
  have key: "freezeMemoKey ?req' = freezeMemoKey req" by (simp add: freezeMemoKey_def)
  have empty: "freeze_check req ?c0 = None" "freeze_check ?req' ?c0 = None"
    using assms(1,2) by (simp_all add: freeze_check_def NewFreezeCoordinator_def)
  define c where "c = ?c0\<lparr>fc_frozen := [(freezeMemoKey req, s)], fc_bodies := [(freezeMemoKey req, req)]\<rparr>"
  have pub: "publish_snapshot req s ?c0 = (s, c)" "publish_snapshot ?req' s' c = (s, c)"
    by (simp_all add: publish_snapshot_def NewFreezeCoordinator_def c_def key)
  have "freeze_perform (Start req) new_freezes = Some \<lparr>fz_coord = ?c0, fz_calls = [(req, Reading)]\<rparr>"
    by (simp add: new_freezes_def empty)
  note 1 = freeze_reaches_more [OF reaches.start this]
  have "freeze_perform (Start ?req') \<lparr>fz_coord = ?c0, fz_calls = [(req, Reading)]\<rparr> = Some \<lparr>fz_coord = ?c0, fz_calls = [(req, Reading), (?req', Reading)]\<rparr>"
    by (simp add: empty)
  note 2 = freeze_reaches_more [OF 1 this]
  have "freeze_perform (Read env 0) \<lparr>fz_coord = ?c0, fz_calls = [(req, Reading), (?req', Reading)]\<rparr> = Some \<lparr>fz_coord = ?c0, fz_calls = [(req, Built s), (?req', Reading)]\<rparr>"
    by (simp add: assms(3))
  note 3 = freeze_reaches_more [OF 2 this]
  have "freeze_perform (Read env' 1) \<lparr>fz_coord = ?c0, fz_calls = [(req, Built s), (?req', Reading)]\<rparr> = Some \<lparr>fz_coord = ?c0, fz_calls = [(req, Built s), (?req', Built s')]\<rparr>"
    by (simp add: assms(4))
  note 4 = freeze_reaches_more [OF 3 this]
  have "freeze_perform (Publish 0) \<lparr>fz_coord = ?c0, fz_calls = [(req, Built s), (?req', Built s')]\<rparr> = Some \<lparr>fz_coord = c, fz_calls = [(req, Done (Inr s)), (?req', Built s')]\<rparr>"
    by (simp add: pub)
  note 5 = freeze_reaches_more [OF 4 this]
  have "freeze_perform (Publish 1) \<lparr>fz_coord = c, fz_calls = [(req, Done (Inr s)), (?req', Built s')]\<rparr> = Some \<lparr>fz_coord = c, fz_calls = [(req, Done (Inr s)), (?req', Done (Inr s))]\<rparr>"
    by (simp add: pub)
  note 6 = freeze_reaches_more [OF 5 this]
  have "snd (Freeze env req ?c0) = c" by (simp add: Freeze_def empty assms(3) pub)
  moreover have "req \<noteq> ?req'"
  proof
    assume "req = ?req'"
    then have "fz_mode req = ModeForce" by (metis FreezeRequest.select_convs(3) FreezeRequest.surjective FreezeRequest.update_convs(3))
    then show False using assms(2) modes by simp
  qed
  then have "fst (Freeze env' ?req' c) = Inl ErrFreezeRequestBodyConflict"
    using assms(1) by (simp add: Freeze_def freeze_check_def key c_def)
  ultimately show ?thesis using 6 by auto
qed

subsection \<open>A room with two overlapping freezes\<close>

definition sample_freeze :: FreezeRequest where
  "sample_freeze = \<lparr>fz_tenant = ''t'', fz_room = ''r'', fz_mode = ModeThreshold, fz_key = ''k''\<rparr>"

definition sample_receipt :: "string \<Rightarrow> string \<Rightarrow> CommitReceipt" where
  "sample_receipt i segment = \<lparr>rc_receipt = i, rc_segment = segment, rc_batches = [''b''], rc_digest = ''d''\<rparr>"

definition sample_room_state :: freeze_env where
  "sample_room_state = \<lparr>fe_point = Some \<lparr>fp_tenant = ''t'', fp_room = ''r'', fp_epoch = 1, fp_sequence = 4\<rparr>, fe_sealed = Some [''s1'', ''s2''],
     fe_open = Some [], fe_receipts = Some [sample_receipt ''2'' ''s2'', sample_receipt ''1'' ''s1'']\<rparr>"

lemma sample_receipts: "receipt_ok (sample_receipt i segment) \<longleftrightarrow> i \<noteq> []"
  "rc_receipt (sample_receipt i segment) = i" "rc_segment (sample_receipt i segment) = segment"
  by (simp_all add: sample_receipt_def receipt_ok_def)

definition sample_snapshot :: HostFreezeSnapshot where
  "sample_snapshot = \<lparr>hs_tenant = ''t'', hs_room = ''r'', hs_epoch = 1, hs_sequence = 4, hs_sealed = [''s1'', ''s2''], hs_deferred = [],
     hs_receipts = [sample_receipt ''2'' ''s2'', sample_receipt ''1'' ''s1''], hs_key = ''k'', hs_complete = True, hs_permitted = True\<rparr>"

lemma sample_built: "build_snapshot sample_room_state sample_freeze = Inr sample_snapshot"
  "build_snapshot sample_room_state (sample_freeze\<lparr>fz_mode := ModeForce\<rparr>) = Inr sample_snapshot"
  by code_simp+

definition both_started :: "freeze_event list" where
  "both_started = [Start sample_freeze, Start (sample_freeze\<lparr>fz_mode := ModeForce\<rparr>), Read sample_room_state 1, Read sample_room_state 0, Publish 1, Publish 0]"

definition both_frozen :: freeze_sys where
  "both_frozen = the (run_events freeze_perform both_started new_freezes)"

lemma both_frozen_reached: "reaches freeze_step new_freezes both_frozen"
proof -
  have "run_events freeze_perform both_started new_freezes = Some both_frozen" by code_simp
  then show ?thesis by (rule run_events_reaches [where P = "\<lambda>_. True"]) (auto simp: freeze_step_def list_all_iff)
qed

lemma both_frozen_calls:
  "fz_calls both_frozen = [(sample_freeze, Done (Inr sample_snapshot)), (sample_freeze\<lparr>fz_mode := ModeForce\<rparr>, Done (Inr sample_snapshot))]"
  by code_simp

theorem receipts_cover_exactly_witness:
  "receiptsCoverExactly [''s1'', ''s2''] [sample_receipt ''2'' ''s2'', sample_receipt ''1'' ''s1''] = Inr True"
proof -
  have "distinct [''s1'', ''s2'']" by simp
  from receipts_cover_exactly [OF this] show ?thesis by (simp add: sample_receipts)
qed

theorem repeated_segment_covers_stranger_witness:
  "receiptsCoverExactly [''s1'', ''s1''] [sample_receipt ''1'' ''s1'', sample_receipt ''2'' ''stranger''] = Inr True"
  by (rule repeated_segment_covers_stranger) (simp_all add: sample_receipts)

theorem freezes_agree_witness:
  "fst (Freeze sample_room_state (sample_freeze\<lparr>fz_mode := ModeForce\<rparr>) (fz_coord both_frozen)) \<noteq> Inl ErrFromStore"
proof -
  have "(sample_freeze, Done (Inr sample_snapshot)) \<in> set (fz_calls both_frozen)"
    "(sample_freeze\<lparr>fz_mode := ModeForce\<rparr>, Done (Inr sample_snapshot)) \<in> set (fz_calls both_frozen)" by (simp_all add: both_frozen_calls)
  from freezes_agree [OF both_frozen_reached this _ reaches.start, of sample_room_state] show ?thesis by (auto simp: freezeMemoKey_def)
qed

theorem submission_only_when_covered_witness:
  "hs_permitted sample_snapshot \<and> covering (hs_sealed sample_snapshot) (hs_receipts sample_snapshot)"
proof -
  have "(sample_freeze, Done (Inr sample_snapshot)) \<in> set (fz_calls both_frozen)" by (simp add: both_frozen_calls)
  from submission_only_when_covered [OF both_frozen_reached this] show ?thesis by (auto simp: sample_snapshot_def)
qed

theorem overlapping_modes_not_refused_witness:
  "\<exists>y. reaches freeze_step new_freezes y \<and>
     fz_calls y = [(sample_freeze, Done (Inr sample_snapshot)), (sample_freeze\<lparr>fz_mode := ModeForce\<rparr>, Done (Inr sample_snapshot))]"
proof -
  have "fz_key sample_freeze \<noteq> []" "fz_mode sample_freeze = ModeThreshold" by (simp_all add: sample_freeze_def)
  from overlapping_modes_not_refused [OF this sample_built] show ?thesis by blast
qed

end
