(* ===== verification/Go_Marshal.thy ===== *)
theory Go_Marshal
  imports Plain_Json Ledger_Tx
begin

text \<open>
  \<open>encoding/json\<close> as the services use it to write documents they have built: \<open>json.Marshal\<close> of a decoder-model
  value. Object keys come in byte order, the characters that matter to HTML are escaped, invalid UTF-8 becomes
  U+FFFD. The result: what is written is read back as the same document, so its ledger digest is the digest of
  the document.
\<close>

subsection \<open>json.Marshal\<close>

text \<open>\<open>appendString\<close> with HTML escaping: the escapes of JCS and six more.\<close>

definition html_rune :: "rune \<Rightarrow> string" where
  "html_rune r =
     (if r = 38 \<or> r = 60 \<or> r = 62 then u_escape r
      else if r = 8232 \<or> r = 8233 then [CHR 0x5C, CHR ''u'', CHR ''2'', CHR ''0'', CHR ''2'', hex_digit r]
      else esc_rune r)"

function marshal_bytes :: "nat list \<Rightarrow> string" where
  "marshal_bytes [] = []"
| "marshal_bytes (b # bs) =
     (if decode_rune (b # bs) = (65533, 1) then CHR 0x5C # ''ufffd'' else html_rune (fst (decode_rune (b # bs)))) @
     marshal_bytes (drop (snd (decode_rune (b # bs)) - 1) bs)"
  by pat_completeness auto
termination
  by (relation "measure length") auto

definition marshal_text :: "string \<Rightarrow> string" where
  "marshal_text s = CHR 0x22 # marshal_bytes (bytes_of s) @ [CHR 0x22]"

text \<open>
  A \<open>json.Number\<close> is written as it is when it is a number token, an empty one as 0. Floats and values of other
  dynamic types do not occur in the documents of these services; an error stands for their text.
\<close>

function marshal :: "gv \<Rightarrow> string res" where
  "marshal GNil = Inr ''null''"
| "marshal (GBool b) = Inr (if b then ''true'' else ''false'')"
| "marshal (GNumber s) =
     (if s = [] then Inr ''0''
      else (case scan_number s of Some (_, []) \<Rightarrow> Inr s | _ \<Rightarrow> Inl PlainError))"
| "marshal (GString s) = Inr (marshal_text s)"
| "marshal (GArray vs) = and_then (traverse marshal vs) (\<lambda>ss. Inr (''['' @ commas ss @ '']''))"
| "marshal (GObject m) =
     and_then (traverse (\<lambda>p. and_then (marshal (snd p)) (\<lambda>s. Inr (marshal_text (fst p) @ CHR '':'' # s))) (sort_by key_less m))
       (\<lambda>ss. Inr (''{'' @ commas ss @ ''}''))"
| "marshal (GInt i) = Inr (format_int i)"
| "marshal (GFloat r) = Inl PlainError"
| "marshal (GOther r) = Inl PlainError"
  by pat_completeness auto
termination
  by (relation "measure size") (auto simp: size_entry_snd less_Suc_eq_le size_list_estimation')

subsection \<open>Strings are read back\<close>

lemma parse_str_html:
  assumes "scalar r"
  shows "parse_str (html_rune r @ t) = prepend (rune_text r) (parse_str t)"
proof -
  consider (ctl) "r \<in> {38, 60, 62}" | (sep) "r \<in> {8232, 8233}" | (plain) "r \<notin> {38, 60, 62, 8232, 8233}" by blast
  then show ?thesis
  proof cases
    case ctl
    then have "html_rune r = u_escape r" "r div 16 mod 16 * 16 + r mod 16 = r" "\<not> 55296 \<le> r" by (auto simp: html_rune_def)
    moreover from this(2) have "get_hex4 (drop 2 (u_escape r) @ t) = Some (r, t)"
      by (simp add: u_escape_def get_hex4_def hex_val_hex_digit hex_val_zero)
    ultimately show ?thesis by (simp add: u_escape_def)
  next
    case sep
    have two: "hex_val (CHR ''2'') = Some 2" by (simp add: hex_val_def less_eq_char_def)
    from sep have "get_hex4 (drop 2 (html_rune r) @ t) = Some (r, t)" "\<not> 55296 \<le> r"
      by (auto simp: html_rune_def get_hex4_def hex_val_hex_digit hex_val_zero two)
    with sep show ?thesis by (auto simp: html_rune_def)
  next
    case plain
    then have "html_rune r = esc_rune r" by (simp add: html_rune_def)
    then show ?thesis using parse_str_esc [OF assms] by simp
  qed
qed

lemma marshal_bytes_valid: "utf8_valid bs \<Longrightarrow> marshal_bytes bs = concat (map html_rune (decode_runes bs))"
  by (induction bs rule: marshal_bytes.induct) auto

lemma parse_str_html_runes:
  "list_all scalar rs \<Longrightarrow> parse_str (concat (map html_rune rs) @ CHR 0x22 # t) = Some (string_of (concat (map encode_rune rs)), t)"
proof (induction rs)
  case (Cons r rs)
  then show ?case using parse_str_html [of r "concat (map html_rune rs) @ CHR 0x22 # t"]
    by (simp add: prepend_def rune_text_def string_of_def)
qed (simp add: string_of_def)

lemma reads_marshal_text:
  assumes "valid_text s"
  shows "reads_string (marshal_text s) s"
proof -
  have "list_all scalar (decode_runes (bytes_of s))" "concat (map encode_rune (decode_runes (bytes_of s))) = bytes_of s"
    using decode_runes_valid assms by (auto simp: valid_text_def)
  then show ?thesis
    using parse_str_html_runes [of "decode_runes (bytes_of s)"] assms
    by (simp add: reads_string_def marshal_text_def marshal_bytes_valid valid_text_def)
qed

lemma valid_html_rune: "scalar r \<Longrightarrow> valid_text (html_rune r)"
  unfolding html_rune_def u_escape_def
  by (auto intro!: valid_text_ascii valid_esc_rune simp: hex_digit_ascii)

lemma valid_marshal_text: "valid_text s \<Longrightarrow> valid_text (marshal_text s)"
proof -
  assume s: "valid_text s"
  then have "list_all scalar (decode_runes (bytes_of s))" using decode_runes_valid by (simp add: valid_text_def)
  then have "valid_text (concat (map html_rune (decode_runes (bytes_of s))))"
    by (intro valid_text_concat) (auto simp: list_all_iff valid_html_rune)
  then have "valid_text (marshal_bytes (bytes_of s) @ [CHR 0x22])"
    using s by (intro valid_text_append) (auto simp: marshal_bytes_valid valid_text_def [of s] intro: valid_text_ascii)
  then show ?thesis unfolding marshal_text_def by (intro valid_text_Cons) simp_all
qed

subsection \<open>Documents are read back\<close>

text \<open>What is read: the same document with its keys in byte order.\<close>

fun mcanon :: "gv \<Rightarrow> gv" where
  "mcanon (GArray vs) = GArray (map mcanon vs)"
| "mcanon (GObject m) = GObject (map (\<lambda>p. (fst p, mcanon (snd p))) (sort_by key_less m))"
| "mcanon v = v"

lemma marshal_reads:
  "hashable v \<Longrightarrow> nesting v + d \<le> max_nesting \<Longrightarrow> \<exists>t. marshal v = Inr t \<and> reads_as d t (mcanon v) \<and> valid_text t"
proof (induction v arbitrary: d rule: marshal.induct)
  case (3 s)
  then have "integerForm s" by simp
  then have "scan_number s = Some (s, [])" "s \<noteq> []" using scan_number_integer [of s "[]"] by (auto simp: integerForm_def)
  then show ?case using 3 by (simp add: reads_number valid_text_ascii integer_ascii)
next
  case (4 s)
  then show ?case by (simp add: reads_stringD reads_marshal_text valid_marshal_text)
next
  case (5 vs)
  have "\<exists>t. marshal v = Inr t \<and> reads_as (Suc d) t (mcanon v) \<and> valid_text t" if "v \<in> set vs" for v
    using 5 that nesting_elem [OF that, of nesting] by (auto simp: list_all_iff)
  then obtain f where f: "marshal v = Inr (f v)" "reads_as (Suc d) (f v) (mcanon v)" "valid_text (f v)" if "v \<in> set vs" for v by metis
  have "traverse marshal vs = Inr (map f vs)" using f(1) by (intro traverse_map_Inr) simp
  moreover have "list_all2 (reads_as (Suc d)) (map f vs) (map mcanon vs)"
    unfolding list_all2_map1 list_all2_map2 using f(2) by (auto intro: list.rel_refl_strong)
  then have "reads_as d (''['' @ commas (map f vs) @ '']'') (mcanon (GArray vs))" using 5 by (auto intro: reads_array)
  moreover have "valid_text (''['' @ commas (map f vs) @ '']'')"
    using f(3) by (intro valid_text_append valid_commas) (auto intro: valid_text_ascii)
  ultimately show ?case by simp
next
  case (6 m)
  let ?es = "sort_by key_less m"
  have "\<exists>t. marshal (snd p) = Inr t \<and> reads_as (Suc d) t (mcanon (snd p)) \<and> valid_text t" if "p \<in> set m" for p
    using 6 that nesting_elem [of p m "\<lambda>p. nesting (snd p)"] by (auto simp: list_all_iff)
  then obtain f where f: "marshal (snd p) = Inr (f p)" "reads_as (Suc d) (f p) (mcanon (snd p))" "valid_text (f p)" if "p \<in> set m" for p by metis
  let ?t = "\<lambda>p. marshal_text (fst p) @ CHR '':'' # f p"
  have key: "valid_text (fst p)" if "p \<in> set m" for p using 6 that by (auto simp: list_all_iff)
  have "traverse (\<lambda>p. and_then (marshal (snd p)) (\<lambda>s. Inr (marshal_text (fst p) @ CHR '':'' # s))) ?es = Inr (map ?t ?es)"
    using f(1) by (intro traverse_map_Inr) simp
  moreover have "reads_entry (Suc d) (?t p) (fst p, mcanon (snd p))" if "p \<in> set m" for p
    unfolding reads_entry_def fst_conv snd_conv using f(2) [OF that] reads_marshal_text [OF key [OF that]] by blast
  then have "list_all2 (reads_entry (Suc d)) (map ?t ?es) (map (\<lambda>p. (fst p, mcanon (snd p))) ?es)"
    unfolding list_all2_map1 list_all2_map2 by (auto intro: list.rel_refl_strong)
  moreover have "distinct (map fst (map (\<lambda>p. (fst p, mcanon (snd p))) ?es))"
  proof -
    have "mset (map fst ?es) = mset (map fst m)" by simp
    from mset_eq_imp_distinct_iff [OF this] 6 show ?thesis by (simp add: gmap_ok_def comp_def)
  qed
  ultimately have "reads_as d (''{'' @ commas (map ?t ?es) @ ''}'') (mcanon (GObject m))" using 6 by (auto intro: reads_object)
  moreover have "valid_text (?t p)" if "p \<in> set m" for p
    using f(3) [OF that] valid_marshal_text [OF key [OF that]] by (intro valid_text_append valid_text_Cons) simp_all
  then have "valid_text (''{'' @ commas (map ?t ?es) @ ''}'')"
    by (intro valid_text_append valid_commas) (auto intro: valid_text_ascii)
  ultimately show ?case
    using \<open>traverse _ ?es = _\<close> by simp
qed (auto simp: reads_literals intro: valid_text_ascii)

definition mtext :: "gv \<Rightarrow> string" where
  "mtext v = (case marshal v of Inr s \<Rightarrow> s | Inl _ \<Rightarrow> [])"

lemma parse_marshal:
  assumes "hashable v" "nesting v \<le> max_nesting"
  shows "marshal v = Inr (mtext v)" "ParseJSONStrict (mtext v) = Inr (mcanon v)"
proof -
  obtain t where t: "marshal v = Inr t" "reads_as 0 t (mcanon v)" "valid_text t" using marshal_reads [of v 0] assms by auto
  then show "marshal v = Inr (mtext v)" by (simp add: mtext_def)
  have "parse_value 0 (t @ []) = Some (mcanon v, [])" using t(2) unfolding reads_as_def by (meson num_end_sep(4))
  then show "ParseJSONStrict (mtext v) = Inr (mcanon v)" using t(1,3) by (simp add: ParseJSONStrict_def skip_ws_def mtext_def)
qed

subsection \<open>The document that is read back\<close>

lemma gmap_ok_sorted: "gmap_ok (map (\<lambda>p. (fst p, f (snd p))) (sort_by lt m)) \<longleftrightarrow> gmap_ok m"
proof -
  have "mset (map fst (sort_by lt m)) = mset (map fst m)" by simp
  from mset_eq_imp_distinct_iff [OF this] show ?thesis by (simp add: gmap_ok_def comp_def)
qed

lemma map_of_sorted:
  assumes "gmap_ok m"
  shows "map_of (map (\<lambda>p. (fst p, f (snd p))) (sort_by lt m)) k = map_option f (map_of m k)"
proof -
  have "map_of (sort_by lt m) = map_of m" using map_of_mset(2) [OF mset_sort_by assms] .
  then show ?thesis using map_of_map [of f "sort_by lt m"] by (simp add: case_prod_beta')
qed

lemma canon_mcanon: "hashable v \<Longrightarrow> hashable (mcanon v) \<and> canon (mcanon v) = canon v \<and> nesting (mcanon v) = nesting v"
proof (induction v rule: mcanon.induct)
  case (1 vs)
  then show ?case by (auto simp: list_all_iff comp_def cong: map_cong)
next
  case (2 m)
  let ?f = "\<lambda>p. (fst p, mcanon (snd p))"
  have IH: "hashable (mcanon (snd p))" "canon (mcanon (snd p)) = canon (snd p)" "nesting (mcanon (snd p)) = nesting (snd p)" if "p \<in> set m" for p
    using 2 that by (auto simp: list_all_iff)
  have keys: "valid_text (fst p)" if "p \<in> set m" for p using 2 that by (auto simp: list_all_iff)
  have "hashable (mcanon (GObject m))" using 2 IH keys by (auto simp: list_all_iff gmap_ok_sorted)
  moreover have "canon (mcanon (GObject m)) = canon (GObject m)"
  proof -
    have eq: "map (\<lambda>p. (fst p, canon (snd p))) (map ?f (sort_by key_less m)) = map (\<lambda>p. (fst p, canon (snd p))) (sort_by key_less m)"
      using IH(2) by simp
    have "sort_by entry_less (map (\<lambda>p. (fst p, canon (snd p))) (sort_by key_less m)) = sort_by entry_less (map (\<lambda>p. (fst p, canon (snd p))) m)"
      using 2 keys by (intro sort_entries_perm) (auto simp: gmap_ok_sorted)
    with eq show ?thesis by (simp del: map_map)
  qed
  moreover have "nesting (mcanon (GObject m)) = nesting (GObject m)"
  proof -
    have "foldr max xs (0::nat) = Max (insert 0 (set xs))" for xs by (induction xs) (simp_all add: insert_commute)
    then have m: "foldr max xs 0 = foldr max ys (0::nat)" if "mset xs = mset ys" for xs ys
      using mset_eq_setD [OF that] by simp
    have "map (\<lambda>p. nesting (snd p)) (map ?f (sort_by key_less m)) = map (\<lambda>p. nesting (snd p)) (sort_by key_less m)" using IH(3) by simp
    then show ?thesis using m [of "map (\<lambda>p. nesting (snd p)) (sort_by key_less m)" "map (\<lambda>p. nesting (snd p)) m"] by (simp del: map_map)
  qed
  ultimately show ?case by blast
qed simp_all


lemma mcanon_object: "mcanon (GObject m) = GObject (map (\<lambda>p. (fst p, mcanon (snd p))) (sort_by key_less m))"
  by simp

lemma map_of_mcanon: "gmap_ok m \<Longrightarrow> mcanon (GObject m) = GObject n \<Longrightarrow> map_of n k = map_option mcanon (map_of m k)"
  by (auto simp: map_of_sorted)

text \<open>A document without a source pair is its own normal form.\<close>

fun unpaired :: "gv \<Rightarrow> bool" where
  "unpaired (GArray vs) = list_all unpaired vs"
| "unpaired (GObject m) = list_all (\<lambda>p. fst p \<noteq> ''source_skill_refs'' \<and> unpaired (snd p)) m"
| "unpaired v = True"

lemma normal_unpaired: "unpaired v \<Longrightarrow> NormalizeForHashing v = v"
proof (induction v rule: unpaired.induct)
  case (1 vs)
  then show ?case by (simp add: list_all_iff map_idI)
next
  case (2 m)
  have "sort_pair_entry (fst p, NormalizeForHashing (snd p)) = p" if "p \<in> set m" for p
    using 2 that by (cases p) (auto simp: list_all_iff sort_pair_entry_def)
  then show ?case by (simp add: map_idI)
qed simp_all

lemma unpaired_mcanon: "unpaired v \<Longrightarrow> unpaired (mcanon v)"
  by (induction v rule: unpaired.induct) (auto simp: list_all_iff)

lemma unpaired_canon: "unpaired v \<Longrightarrow> unpaired (canon v)"
  by (induction v rule: unpaired.induct) (auto simp: list_all_iff)

text \<open>What the ledger makes of a written document: its canonical bytes and their digest.\<close>

lemma out_canon_eq: "hashable v \<Longrightarrow> hashable w \<Longrightarrow> canon v = canon w \<Longrightarrow> out v = out w"
  by (metis out_canon)

lemma canonicalize_marshal:
  assumes "hashable (GObject m)" "nesting (GObject m) \<le> max_nesting" "unpaired (GObject m)"
  shows "canonicalize reg (mtext (GObject m)) = Inr (out (GObject m), DigestBytes (out (GObject m)), AsObject (mcanon (GObject m)))"
proof -
  note c = canon_mcanon [OF assms(1)]
  have "JCS (NormalizeForHashing (mcanon (GObject m))) = Inr (out (mcanon (GObject m)))"
    unfolding normal_unpaired [OF unpaired_mcanon [OF assms(3)]] JCS_def by (rule emit_hashable) (use c in blast)
  moreover have "out (mcanon (GObject m)) = out (GObject m)" using out_canon_eq c assms(1) by blast
  ultimately show ?thesis
    unfolding canonicalize_def parse_marshal(2) [OF assms(1,2)] sum.case by (simp only: sum.case)
qed

end
