(* ===== verification/Event_Stream.thy ===== *)
theory Event_Stream
  imports Go_Marshal Ledger_Promises
begin

text \<open>
  Event-sourced state on the ledger, shared by the proposal and the release service: a state is the replay of the committed
  entries of a stream, an event is written as JSON and read back from the content store, and a commit extends a stream by the
  staged entries of that stream.
\<close>

subsection \<open>Replay\<close>

fun replay_entries :: "(Entry \<Rightarrow> 'st \<Rightarrow> 'st res) \<Rightarrow> Entry list \<Rightarrow> 'st \<Rightarrow> 'st res" where
  "replay_entries advance [] st = Inr st"
| "replay_entries advance (e # es) st = (case advance e st of Inl err \<Rightarrow> Inl err | Inr st' \<Rightarrow> replay_entries advance es st')"

lemma replay_entries_append:
  "replay_entries f (es @ fs) st = and_then (replay_entries f es st) (replay_entries f fs)"
  by (induction es arbitrary: st) (auto split: sum.split)

text \<open>
  The contract of a replay: what one entry does is decided by its payload in the content store, so it does not change when the
  store grows. Then the replay of a prefix stays what it was.
\<close>

locale event_stream =
  fixes advance :: "MemoryStore \<Rightarrow> Entry \<Rightarrow> 'st \<Rightarrow> 'st res"
  assumes advance_grows: "\<lbrakk>extends s t; advance s e st = Inr st'\<rbrakk> \<Longrightarrow> advance t e st = Inr st'"
begin

lemma replay_grows: "\<lbrakk>extends s t; replay_entries (advance s) es st = Inr st'\<rbrakk> \<Longrightarrow> replay_entries (advance t) es st = Inr st'"
proof (induction es arbitrary: st)
  case (Cons e es)
  then obtain st1 where "advance s e st = Inr st1" "replay_entries (advance s) es st1 = Inr st'" by (auto split: sum.splits)
  with Cons advance_grows [OF Cons.prems(1)] show ?case by simp
qed simp

lemma replay_extended:
  assumes "extends s t" "replay_entries (advance s) (entries_at s key) st = Inr st1" "entries_at t key = entries_at s key @ es"
  shows "replay_entries (advance t) (entries_at t key) st = replay_entries (advance t) es st1"
  unfolding assms(3) replay_entries_append using replay_grows [OF assms(1,2)] by simp

lemma replay_snoc:
  assumes "extends s t" "replay_entries (advance s) (entries_at s key) st = Inr st1" "entries_at t key = entries_at s key @ [e]"
  shows "replay_entries (advance t) (entries_at t key) st = advance t e st1"
  unfolding replay_extended [OF assms] by (simp split: sum.split)

end

subsection \<open>Documents in the content store\<close>

text \<open>A document that survives writing and reading: valid text, integers only, not too deep, no pair to be sorted.\<close>

definition readable :: "gobj \<Rightarrow> bool" where
  "readable m = (hashable (GObject m) \<and> nesting (GObject m) \<le> max_nesting \<and> unpaired (GObject m))"

lemma readable_marshal: "readable m \<Longrightarrow> marshal (GObject m) = Inr (mtext (GObject m))"
  using parse_marshal(1) by (simp only: readable_def)

lemma readable_canonicalize:
  assumes "readable m"
  obtains n where "canonicalize reg (mtext (GObject m)) = Inr (out (GObject m), DigestBytes (out (GObject m)), Some n)"
    "\<And>k. map_of n k = map_option mcanon (map_of m k)"
proof -
  have h: "hashable (GObject m)" "nesting (GObject m) \<le> max_nesting" "unpaired (GObject m)" using assms by (simp_all only: readable_def)
  obtain n where n: "mcanon (GObject m) = GObject n" by simp
  have "gmap_ok m" using h(1) by simp
  from that [of n] canonicalize_marshal [OF h] map_of_mcanon [OF this n] show thesis unfolding n by (simp add: AsObject_def)
qed

lemma readable_parse:
  assumes "readable m"
  obtains n where "ParseJSONStrict (out (GObject m)) = Inr (GObject n)" "\<And>k. map_of n k = map_option canon (map_of m k)"
    "JCS (NormalizeForHashing (GObject n)) = Inr (out (GObject m))"
proof -
  have h: "hashable (GObject m)" "nesting (GObject m) \<le> max_nesting" "unpaired (GObject m)" using assms by (simp_all only: readable_def)
  then have ok: "gmap_ok m" by simp
  let ?n = "sort_by entry_less (map (\<lambda>p. (fst p, canon (snd p))) m)"
  have n: "canon (GObject m) = GObject ?n" by simp
  have c: "hashable (GObject ?n)" "out (GObject ?n) = out (GObject m)" using out_canon [OF h(1)] unfolding n by simp_all
  have u: "unpaired (GObject ?n)" using unpaired_canon [OF h(3)] unfolding n .
  have "JCS (NormalizeForHashing (GObject ?n)) = Inr (out (GObject m))"
    unfolding normal_unpaired [OF u] JCS_def emit_hashable [OF c(1)] c(2) ..
  moreover have "map_of ?n k = map_option canon (map_of m k)" for k
  proof -
    have "gmap_ok (map (\<lambda>p. (fst p, canon (snd p))) m)" using ok by (simp add: gmap_ok_def comp_def)
    from map_of_mset(2) [OF mset_sort_by this] have "map_of ?n = map_of (map (\<lambda>p. (fst p, canon (snd p))) m)" .
    then show ?thesis using map_of_map [of canon m] by (simp add: case_prod_beta')
  qed
  moreover have "ParseJSONStrict (out (GObject m)) = Inr (GObject ?n)" using parse_out [OF h(1,2)] unfolding n .
  ultimately show thesis by (intro that [of ?n])
qed

lemma valid_format_int: "valid_text (format_int i)"
  by (rule integer_ascii) (rule format_int_form(1))

subsection \<open>What a commit does to a stream\<close>

definition on_stream :: "string \<Rightarrow> Entry \<Rightarrow> bool" where
  "on_stream key e = (ledgerKey (en_ledger e) (en_stream e) = key)"

text \<open>An entry at the next sequence is appended; one that is there already changes nothing.\<close>

definition add_entry :: "Entry \<Rightarrow> Entry list \<Rightarrow> Entry list" where
  "add_entry e es = (if en_seq e = word_of_nat (length es) + 1 then es @ [e] else es)"

lemma apply_append_stream:
  assumes "apply_append e s = (Inr us, s')"
  shows "entries_at s' key = (if on_stream key e then add_entry e (entries_at s key) else entries_at s key)" "ms_content s' = ms_content s"
  using Append_cases [OF apply_append_Append [OF assms]] by (auto simp: on_stream_def add_entry_def)

lemma apply_all_stream:
  "apply_all apply_append es us s = (None, us', s') \<Longrightarrow>
     entries_at s' key = fold add_entry (filter (on_stream key) es) (entries_at s key) \<and> ms_content s' = ms_content s"
proof (induction es arbitrary: us s)
  case (Cons e es)
  then obtain us1 s1 where w: "apply_append e s = (Inr us1, s1)" and rest: "apply_all apply_append es (us @ us1) s1 = (None, us', s')"
    by (auto split: sum.splits prod.splits)
  from Cons.IH [OF rest] apply_append_stream [OF w] show ?case by simp
qed simp

lemma entries_kept:
  "apply_put reg p s = (r, s') \<Longrightarrow> entries_at s' key = entries_at s key" "apply_cas c s = (r', s') \<Longrightarrow> entries_at s' key = entries_at s key"
  "apply_outbox reg ov b s = (r', s') \<Longrightarrow> entries_at s' key = entries_at s key" "apply_idem i s = (r', s') \<Longrightarrow> entries_at s' key = entries_at s key"
  by (auto simp: apply_put_def apply_cas_def apply_outbox_def apply_idem_def Put_def CompareAndSwap_def Enqueue_def Record_def Let_def
      split: if_splits sum.splits prod.splits option.splits)

lemma content_kept:
  "apply_outbox reg ov b s = (r, s') \<Longrightarrow> ms_content s' = ms_content s" "apply_idem i s = (r', s') \<Longrightarrow> ms_content s' = ms_content s"
  by (auto simp: apply_outbox_def apply_idem_def Enqueue_def Record_def Let_def split: if_splits sum.splits prod.splits option.splits)

lemma apply_puts_content:
  "\<lbrakk>apply_all (apply_put reg) ps us s = (None, us', s'); \<forall>p \<in> set ps. put_staged p\<rbrakk> \<Longrightarrow>
     snd ` set (ms_content s') \<subseteq> snd ` set (ms_content s) \<union> sc_canonical ` set ps"
proof (induction ps arbitrary: us s)
  case (Cons p ps)
  then obtain us1 s1 where w: "apply_put reg p s = (Inr us1, s1)" and rest: "apply_all (apply_put reg) ps (us @ us1) s1 = (None, us', s')"
    by (auto split: sum.splits prod.splits)
  have "snd ` set (ms_content s1) \<subseteq> snd ` set (ms_content s) \<union> {sc_canonical p}"
    using w set_gput [of "sc_digest p" "sc_canonical p" "ms_content s"]
    by (fastforce simp: apply_put_def Put_def Let_def split: if_splits)
  with Cons.IH [OF rest] Cons.prems(2) show ?case by auto
qed simp

text \<open>
  A commit as seen on one stream. Nothing happens, or the staged entries of the stream are added in their order; the content that is
  there afterwards was there before or was staged.
\<close>

lemma commit_stream:
  assumes "store_ok s" "tx_ok reg tx" "commit reg tx s = (r, s')"
  shows "(entries_at s' key = entries_at s key \<and> (r = Inr () \<longrightarrow> tx_replay tx) \<or>
     r = Inr () \<and> \<not> tx_replay tx \<and> entries_at s' key = fold add_entry (filter (on_stream key) (tx_appends tx)) (entries_at s key))"
    "snd ` set (ms_content s') \<subseteq> snd ` set (ms_content s) \<union> sc_canonical ` set (tx_puts tx)"
proof -
  note cs = commit_cases [OF assms]
  have "(entries_at s' key = entries_at s key \<and> (r = Inr () \<longrightarrow> tx_replay tx) \<or>
      r = Inr () \<and> \<not> tx_replay tx \<and> entries_at s' key = fold add_entry (filter (on_stream key) (tx_appends tx)) (entries_at s key)) \<and>
    snd ` set (ms_content s') \<subseteq> snd ` set (ms_content s) \<union> sc_canonical ` set (tx_puts tx)"
  proof (cases "r = Inr () \<and> \<not> tx_replay tx")
    case True
    with cs obtain us where "apply_tx reg tx s = (None, us, s')" by auto
    then obtain us1 s1 us2 s2 us3 s3 us4 s4 where ph:
      "apply_all (apply_put reg) (tx_puts tx) [] s = (None, us1, s1)" "apply_all apply_cas (tx_cas tx) us1 s1 = (None, us2, s2)"
      "apply_all apply_append (tx_appends tx) us2 s2 = (None, us3, s3)"
      "apply_all (apply_outbox reg (overlay_of (tx_appends tx))) (tx_outbox tx) us3 s3 = (None, us4, s4)"
      "apply_all apply_idem (tx_idem tx) us4 s4 = (None, us, s')" unfolding apply_tx_def then_phase_None by blast
    have "entries_at s1 key = entries_at s key"
      by (rule apply_all_inv [OF ph(1), where P = "\<lambda>t. entries_at t key = entries_at s key"]) (simp_all add: entries_kept(1))
    moreover have "entries_at s2 key = entries_at s1 key" "ms_content s2 = ms_content s1" using apply_all_heads [OF ph(2)] by simp_all
    moreover note apply_all_stream [OF ph(3), of key]
    moreover have "entries_at s4 key = entries_at s3 key \<and> ms_content s4 = ms_content s3"
      by (rule apply_all_inv [OF ph(4), where P = "\<lambda>t. entries_at t key = entries_at s3 key \<and> ms_content t = ms_content s3"])
        (simp_all add: entries_kept(3) content_kept(1))
    moreover have "entries_at s' key = entries_at s4 key \<and> ms_content s' = ms_content s4"
      by (rule apply_all_inv [OF ph(5), where P = "\<lambda>t. entries_at t key = entries_at s4 key \<and> ms_content t = ms_content s4"])
        (simp_all add: entries_kept(4) content_kept(2))
    moreover have "snd ` set (ms_content s1) \<subseteq> snd ` set (ms_content s) \<union> sc_canonical ` set (tx_puts tx)"
      using apply_puts_content [OF ph(1)] assms(2) by (simp add: tx_ok_def)
    ultimately show ?thesis using True by simp
  next
    case False
    then have "same s' s \<and> (r = Inr () \<longrightarrow> tx_replay tx)" using cs by (cases r) auto
    then show ?thesis by (auto simp: same_def)
  qed
  then show "(entries_at s' key = entries_at s key \<and> (r = Inr () \<longrightarrow> tx_replay tx) \<or>
     r = Inr () \<and> \<not> tx_replay tx \<and> entries_at s' key = fold add_entry (filter (on_stream key) (tx_appends tx)) (entries_at s key))"
    "snd ` set (ms_content s') \<subseteq> snd ` set (ms_content s) \<union> sc_canonical ` set (tx_puts tx)" by blast+
qed

text \<open>Entries that were numbered against an earlier length: at most one of them is added.\<close>

lemma unat_of_nat64: "n < 2 ^ 64 \<Longrightarrow> unat (word_of_nat n :: uint64) = n"
  by (simp add: unsigned_of_nat take_bit_nat_eq_self)

lemma length_fold_add_entry: "length es \<le> length (fold add_entry fs es)"
proof (induction fs arbitrary: es)
  case (Cons f fs)
  have "length es \<le> length (add_entry f es)" by (simp add: add_entry_def)
  with Cons [of "add_entry f es"] show ?case by simp
qed simp

lemma fold_add_entry_none:
  "\<forall>e \<in> set fs. en_seq e \<noteq> word_of_nat (length es) + 1 \<Longrightarrow> fold add_entry fs es = es"
  by (induction fs) (simp_all add: add_entry_def)

lemma fold_add_entry_once:
  assumes "\<And>e. e \<in> set fs \<Longrightarrow> \<exists>k \<le> length es. en_seq e = word_of_nat k + 1" "length (fold add_entry fs es) < 2 ^ 64"
  shows "fold add_entry fs es = es \<or> (\<exists>e \<in> set fs. en_seq e = word_of_nat (length es) + 1 \<and> fold add_entry fs es = es @ [e])"
  using assms
proof (induction fs)
  case (Cons f fs)
  show ?case
  proof (cases "en_seq f = word_of_nat (length es) + 1")
    case True
    then have step: "fold add_entry (f # fs) es = fold add_entry fs (es @ [f])" by (simp add: add_entry_def)
    have len: "Suc (length es) < 2 ^ 64" using Cons.prems(2) length_fold_add_entry [of "es @ [f]" fs] unfolding step by simp
    have "en_seq e \<noteq> word_of_nat (length (es @ [f])) + 1" if e: "e \<in> set fs" for e
    proof
      assume eq: "en_seq e = word_of_nat (length (es @ [f])) + 1"
      obtain k where k: "k \<le> length es" "en_seq e = word_of_nat k + 1" using Cons.prems(1) [of e] e by auto
      then have "(word_of_nat k :: uint64) = word_of_nat (Suc (length es))" using eq by simp
      then have "k = Suc (length es)" using k(1) len by (metis le_imp_less_Suc less_trans unat_of_nat64)
      with k(1) show False by simp
    qed
    then have "fold add_entry fs (es @ [f]) = es @ [f]" by (intro fold_add_entry_none) blast
    with True step show ?thesis by auto
  next
    case False
    then have "fold add_entry (f # fs) es = fold add_entry fs es" by (simp add: add_entry_def)
    with Cons show ?thesis by auto
  qed
qed simp

text \<open>The key of a stream determines its ledger and its name; what is in the content store under a digest is the only text with it.\<close>

lemma ledgerKey_inj:
  assumes "map_of ledgerKinds k \<noteq> None" "map_of ledgerKinds k' \<noteq> None"
  shows "ledgerKey k st = ledgerKey k' st' \<longleftrightarrow> k = k' \<and> st = st'"
proof -
  have no_sep: "CHR 0x1F \<notin> set x" if "map_of ledgerKinds x \<noteq> None" for x
  proof -
    have "x \<in> fst ` set ledgerKinds" using that by (metis map_of_eq_None_iff)
    then show ?thesis by (auto simp: ledgerKinds_def)
  qed
  have split: "takeWhile (\<lambda>c. c \<noteq> CHR 0x1F) (ledgerKey x y) = x \<and> dropWhile (\<lambda>c. c \<noteq> CHR 0x1F) (ledgerKey x y) = CHR 0x1F # y"
    if "map_of ledgerKinds x \<noteq> None" for x y
  proof -
    have "\<forall>c \<in> set x. c \<noteq> CHR 0x1F" using no_sep [OF that] by auto
    then show ?thesis by (simp add: ledgerKey_def takeWhile_append2 dropWhile_append2)
  qed
  show ?thesis using split [OF assms(1), of st] split [OF assms(2), of st'] by (metis list.inject)
qed

lemma stored_text:
  assumes "store_ok s" "snd ` set (ms_content s) \<subseteq> T" "inj_on DigestBytes T" "t \<in> T" "map_of (ms_content s) (DigestBytes t) \<noteq> None"
  shows "Get s (DigestBytes t) = Some t"
proof -
  obtain blob where blob: "map_of (ms_content s) (DigestBytes t) = Some blob" using assms(5) by blast
  then have "DigestBytes blob = DigestBytes t" using assms(1) by (simp add: store_ok_def)
  moreover have "blob \<in> T" using map_of_SomeD [OF blob] assms(2) by force
  ultimately have "blob = t" using assms(3,4) by (simp add: inj_on_def)
  with blob show ?thesis by (simp add: Get_def)
qed

end
