(* ===== verification/Proposal_Engine.thy ===== *)
theory Proposal_Engine
  imports Event_Stream State_Bundle Go_Path
begin

text \<open>
  The proposal state engine (\<^verbatim>\<open>internal/skillevolution/proposal/engine.go\<close>): strict parsing of a proposal document, and
  the append of one lifecycle event to the proposal ledger, checked against the state machine that the engine loads from the
  authority bundle. The engine reads the committed stream and the ledger head at different moments, so a call
  reads two stores; both are the same when nothing commits in between.
\<close>

subsection \<open>Names\<close>

abbreviation SchemaProposal :: string where "SchemaProposal \<equiv> ''skill-proposal.schema.json''"
abbreviation SchemaFileProposalEvent :: string where "SchemaFileProposalEvent \<equiv> ''proposal-event.schema.json''"
abbreviation BundleProposalLifecycle :: string where "BundleProposalLifecycle \<equiv> ''proposal-lifecycle.schema.json''"
abbreviation MachineSkillProposal :: string where "MachineSkillProposal \<equiv> ''skill-proposal''"
abbreviation StateNone :: string where "StateNone \<equiv> ''none''"
abbreviation ReasonProposalInvalid :: string where "ReasonProposalInvalid \<equiv> ''PROPOSAL_INVALID''"

subsection \<open>The engine\<close>

record Engine =
  eg_gates :: SchemaSet
  eg_machine :: Machine
  eg_bundleDigest :: string
  eg_registry :: registry

text \<open>
  \<open>NewService\<close>; the flags say whether a store and a transaction manager are wired. The store itself is an argument of the
  operations, the manager works on the same store.
\<close>

definition NewEngine :: "env \<Rightarrow> SchemaSet option \<Rightarrow> string \<Rightarrow> bool \<Rightarrow> bool \<Rightarrow> registry \<Rightarrow> Engine res" where
  "NewEngine ev gates stateDir has_store has_mgr registry =
     (case gates of
        None \<Rightarrow> Inl PlainError
      | Some g \<Rightarrow>
          let bundlePath = path_join stateDir BundleProposalLifecycle in
          (case LoadStateBundle ev bundlePath of
             Inl _ \<Rightarrow> Inl PlainError
           | Inr bundle \<Rightarrow>
               (case Bundle_Machine bundle MachineSkillProposal of
                  Inl _ \<Rightarrow> Inl PlainError
                | Inr machine \<Rightarrow>
                    (case readFile ev bundlePath of
                       None \<Rightarrow> Inl PlainError
                     | Some rawBundle \<Rightarrow>
                         (case registry of
                            None \<Rightarrow> Inl PlainError
                          | Some verify \<Rightarrow>
                              if \<not> has_store \<or> \<not> has_mgr then Inl PlainError
                              else
                                and_then (for_each (\<lambda>code. case verify code of Inl _ \<Rightarrow> Inl PlainError | Inr _ \<Rightarrow> Inr ())
                                  [ReasonProposalInvalid, ReasonProposalStateConflict, ReasonIllegalStateTransition, ReasonIdempotencyConflict]) (\<lambda>_.
                                Inr \<lparr>eg_gates = g, eg_machine = machine, eg_bundleDigest = DigestBytes rawBundle, eg_registry = registry\<rparr>))))))"

definition ComputeDigest :: "Engine \<Rightarrow> gobj \<Rightarrow> string res" where
  "ComputeDigest s doc = ComputeDigestPreimage (eg_gates s) doc SchemaProposal"

subsection \<open>Helpers\<close>

definition stringField :: "gobj \<Rightarrow> string \<Rightarrow> string" where
  "stringField obj key = str_or_empty (gidx obj key)"

definition versionDigits :: "gv \<Rightarrow> string" where
  "versionDigits v = (case v of GNumber n \<Rightarrow> n | _ \<Rightarrow> [])"

definition versionedRefJSON :: "VersionedRef \<Rightarrow> gv" where
  "versionedRefJSON ref = GObject [(''id'', GString (vr_id ref)), (''version'', GNumber (vr_version ref)), (''digest'', GString (vr_digest ref))]"

definition marshalJSON :: "gobj \<Rightarrow> string res" where
  "marshalJSON value = (case marshal (GObject value) of Inl _ \<Rightarrow> Inl Panicked | Inr data \<Rightarrow> Inr data)"

definition transitionError :: go_error where
  "transitionError = verr ReasonIllegalStateTransition"

definition format_uint :: "uint64 \<Rightarrow> string" where
  "format_uint n = format_int (uint n)"

subsection \<open>Proposals\<close>

record Proposal =
  pr_id :: string
  pr_version :: string
  pr_digest :: string
  pr_kind :: string
  pr_operation :: string
  pr_evidence :: "EvidenceRef list"
  pr_policyRefs :: "VersionedRef list"

definition Proposal_Ref :: "Proposal \<Rightarrow> VersionedRef" where
  "Proposal_Ref p = \<lparr>vr_id = pr_id p, vr_version = pr_version p, vr_digest = pr_digest p\<rparr>"

definition parse_evidence :: "gv \<Rightarrow> EvidenceRef res" where
  "parse_evidence raw =
     (case AsObject raw of
        None \<Rightarrow> Inl (verr CodeSchemaEnumInvalid)
      | Some refObj \<Rightarrow>
          (case ParseEvidenceRef refObj of Inl e \<Rightarrow> Inl (verr (validationCodeOf (Some e))) | Inr ref \<Rightarrow> Inr ref))"

definition parse_policy :: "gv \<Rightarrow> VersionedRef res" where
  "parse_policy raw =
     (case ParseVersionedRef (obj_or_nil raw) of Inl e \<Rightarrow> Inl (verr (validationCodeOf (Some e))) | Inr ref \<Rightarrow> Inr ref)"

definition ParseProposal :: "env \<Rightarrow> Engine \<Rightarrow> gv \<Rightarrow> Proposal res" where
  "ParseProposal ev s doc =
     (case AsObject doc of
        None \<Rightarrow> Inl (verr ReasonProposalInvalid)
      | Some obj \<Rightarrow>
          and_then (gate ev (eg_gates s) obj SchemaProposal) (\<lambda>_.
          and_then (traverse parse_evidence (arr_or_nil (gidx obj ''evidence_refs''))) (\<lambda>evidence.
          and_then (traverse parse_policy (arr_or_nil (gidx obj ''policy_refs''))) (\<lambda>policies.
          Inr \<lparr>pr_id = stringField obj ''proposal_id'', pr_version = versionDigits (gidx obj ''proposal_version''),
               pr_digest = stringField obj ''proposal_digest'', pr_kind = stringField obj ''proposed_kind'',
               pr_operation = stringField obj ''requested_operation'', pr_evidence = evidence, pr_policyRefs = policies\<rparr>))))"

subsection \<open>The committed state\<close>

text \<open>One entry of the replay: the payload must resolve, parse and start where the stream stands.\<close>

definition advance_proposal :: "MemoryStore \<Rightarrow> Entry \<Rightarrow> string \<times> uint64 \<Rightarrow> (string \<times> uint64) res" where
  "advance_proposal store entry st =
     (case Get store (en_digest entry) of
        None \<Rightarrow> Inl PlainError
      | Some payload \<Rightarrow>
          (case ParseJSONStrict payload of
             Inl _ \<Rightarrow> Inl PlainError
           | Inr val \<Rightarrow>
               let obj = obj_or_nil val; src = str_or_empty (gidx obj ''from_state''); dst = str_or_empty (gidx obj ''to_state'') in
               if src \<noteq> fst st then Inl PlainError else Inr (dst, en_seq entry)))"

definition committedState :: "MemoryStore \<Rightarrow> string \<Rightarrow> (string \<times> uint64) res" where
  "committedState store proposalID =
     and_then (ledger_Snapshot store LedgerProposal proposalID) (\<lambda>entries.
     replay_entries (advance_proposal store) entries (StateNone, 0))"

definition CurrentState :: "MemoryStore \<Rightarrow> string \<Rightarrow> (string \<times> uint64) res" where
  "CurrentState store proposalID = committedState store proposalID"

definition Entries :: "MemoryStore \<Rightarrow> string \<Rightarrow> (Entry list) res" where
  "Entries store proposalID = ledger_Snapshot store LedgerProposal proposalID"

subsection \<open>The event\<close>

definition authorityRef :: "Engine \<Rightarrow> gv" where
  "authorityRef s =
     GObject [(''id'', GString MachineSkillProposal), (''version'', GNumber ''1''), (''digest'', GString (eg_bundleDigest s))]"

definition event_trigger :: "Engine \<Rightarrow> string \<Rightarrow> string \<Rightarrow> string" where
  "event_trigger s src dst =
     (if src = StateNone then ''proposal_created'' else (case Trigger (eg_machine s) src dst of None \<Rightarrow> [] | Some t \<Rightarrow> t))"

definition event_payload :: "Engine \<Rightarrow> Proposal \<Rightarrow> string \<Rightarrow> string \<Rightarrow> uint64 \<Rightarrow> VersionedRef list \<Rightarrow> gobj" where
  "event_payload s p src dst sequence recordRefs =
     [(''schema_version'', GString SchemaProposalEvent),
      (''proposal_ref'', versionedRefJSON (Proposal_Ref p)),
      (''event_sequence'', GNumber (format_uint sequence)),
      (''event_id'', GString (''pe-'' @ pr_id p @ ''-'' @ format_uint sequence)),
      (''from_state'', GString src),
      (''to_state'', GString dst),
      (''reason_codes'', GArray (if event_trigger s src dst \<noteq> [] then [GString (event_trigger s src dst)] else [])),
      (''authority_ref'', authorityRef s),
      (''record_refs'', GArray (map versionedRefJSON recordRefs)),
      (''payload_digest'', GString (pr_digest p)),
      (''expected_previous_event_sequence'', GNumber (format_uint (sequence - 1)))]"

definition buildEventPayload :: "env \<Rightarrow> Engine \<Rightarrow> Proposal \<Rightarrow> string \<Rightarrow> string \<Rightarrow> uint64 \<Rightarrow> VersionedRef list \<Rightarrow> gobj res" where
  "buildEventPayload ev s p src dst sequence recordRefs =
     (let payload = event_payload s p src dst sequence recordRefs in
      and_then (ComputeDigestPreimage (eg_gates s) payload SchemaFileProposalEvent) (\<lambda>digest.
      let sealed = gput ''event_digest'' (GString digest) payload in
      and_then (gate ev (eg_gates s) sealed SchemaFileProposalEvent) (\<lambda>_.
      Inr sealed)))"

subsection \<open>Transitions\<close>

record EventInfo =
  ei_FromState :: string
  ei_ToState :: string
  ei_EventSequence :: uint64
  ei_EventID :: string
  ei_ExpectedPrevSeq :: uint64

definition check_transition :: "Machine \<Rightarrow> string \<Rightarrow> uint64 \<Rightarrow> string \<Rightarrow> string \<Rightarrow> unit res" where
  "check_transition m current lastSeq src dst =
     (if src = StateNone then
        and_then (check (lastSeq = 0) transitionError) (\<lambda>_.
        check (IsInitial m dst) transitionError)
      else
        and_then (check (IsDefined m src \<and> IsDefined m dst) transitionError) (\<lambda>_.
        and_then (check (src = current) transitionError) (\<lambda>_.
        and_then (check (\<not> IsTerminal m src) transitionError) (\<lambda>_.
        check (HasEdge m src dst) transitionError))))"

definition stageTransition :: "env \<Rightarrow> Engine \<Rightarrow> MemoryStore \<Rightarrow> MemoryStore \<Rightarrow> Proposal \<Rightarrow> string \<Rightarrow> string \<Rightarrow> VersionedRef list \<Rightarrow> Tx \<Rightarrow>
    EventInfo res \<times> Tx" where
  "stageTransition ev s store store' p src dst recordRefs tx =
     (case committedState store (pr_id p) of
        Inl e \<Rightarrow> (Inl e, tx)
      | Inr (current, lastSeq) \<Rightarrow>
          (case check_transition (eg_machine s) current lastSeq src dst of
             Inl e \<Rightarrow> (Inl e, tx)
           | Inr _ \<Rightarrow>
               let sequence = lastSeq + 1 in
               (case buildEventPayload ev s p src dst sequence recordRefs of
                  Inl e \<Rightarrow> (Inl e, tx)
                | Inr payload \<Rightarrow>
                    let eventID = stringField payload ''event_id'' in
                    (case marshalJSON payload of
                       Inl e \<Rightarrow> (Inl e, tx)
                     | Inr data \<Rightarrow>
                         (case AppendEvent (eg_registry s) store' LedgerProposal (pr_id p) eventID data tx of
                            (Inl e, tx') \<Rightarrow> (Inl e, tx')
                          | (Inr _, tx') \<Rightarrow>
                              (Inr \<lparr>ei_FromState = src, ei_ToState = dst, ei_EventSequence = sequence, ei_EventID = eventID,
                                    ei_ExpectedPrevSeq = sequence - 1\<rparr>, tx'))))))"

definition AppendTransitionTx :: "env \<Rightarrow> Engine \<Rightarrow> MemoryStore \<Rightarrow> MemoryStore \<Rightarrow> Proposal \<Rightarrow> string \<Rightarrow> string \<Rightarrow> VersionedRef list \<Rightarrow> Tx \<Rightarrow>
    EventInfo res \<times> Tx" where
  "AppendTransitionTx ev s store store' p src dst recordRefs tx = stageTransition ev s store store' p src dst recordRefs tx"

text \<open>A nil slice of record references is written as an empty array, as an empty slice is.\<close>

definition transition_callback :: "env \<Rightarrow> Engine \<Rightarrow> Proposal \<Rightarrow> string \<Rightarrow> string \<Rightarrow> MemoryStore \<Rightarrow> Tx \<Rightarrow> unit res \<times> Tx" where
  "transition_callback ev s p src dst store tx =
     (case stageTransition ev s store store p src dst [] tx of
        (Inl e, tx') \<Rightarrow> (Inl e, tx')
      | (Inr _, tx') \<Rightarrow> (Inr (), tx'))"

definition AppendTransition :: "env \<Rightarrow> Engine \<Rightarrow> bool \<Rightarrow> bool \<Rightarrow> gv \<Rightarrow> string \<Rightarrow> string \<Rightarrow> MemoryStore \<Rightarrow> EventInfo res \<times> MemoryStore" where
  "AppendTransition ev s cancelled cancelled_later proposalDoc src dst store =
     (case ParseProposal ev s proposalDoc of
        Inl e \<Rightarrow> (Inl e, store)
      | Inr p \<Rightarrow>
          (case WithinTx (eg_registry s) cancelled cancelled_later (transition_callback ev s p src dst) store of
             (Inl e, store') \<Rightarrow> (Inl e, store')
           | (Inr _, store') \<Rightarrow> (fst (stageTransition ev s store store p src dst [] new_tx), store')))"

end
