(* ===== verification/Proposal_Facts.thy ===== *)
theory Proposal_Facts
  imports Proposal_Engine
begin

text \<open>
  What the proposal engine keeps: whatever transactions append transitions, however they overlap, the committed stream of
  a proposal is a run of the authority machine from one genesis event, so its replay never fails, and a terminal state is final.
\<close>

subsection \<open>Reading the stream\<close>

interpretation proposals: event_stream advance_proposal
  by unfold_locales
    (force simp: advance_proposal_def Get_def extends_def map_le_def dom_def Let_def split: option.splits sum.splits if_splits)

abbreviation proposal_key :: "string \<Rightarrow> string" where
  "proposal_key ident \<equiv> ledgerKey LedgerProposal ident"

lemma proposal_kind: "map_of ledgerKinds LedgerProposal = Some (kind_spec [''gms.skill-proposal.v1'', SchemaProposalEvent] False ReasonProposalStateConflict)"
  by (simp add: ledgerKinds_def)

lemma committedState_eq: "committedState s ident = replay_entries (advance_proposal s) (entries_at s (proposal_key ident)) (StateNone, 0)"
  using proposal_kind by (simp add: committedState_def ledger_Snapshot_def)

subsection \<open>The written event\<close>

text \<open>What the engine is given is text: strings from decoded documents and from the loaded machine.\<close>

definition ref_text :: "VersionedRef \<Rightarrow> bool" where
  "ref_text r = (valid_text (vr_id r) \<and> valid_text (vr_digest r) \<and> integerForm (vr_version r))"

definition engine_text :: "Engine \<Rightarrow> bool" where
  "engine_text g = (valid_text (eg_bundleDigest g) \<and> (\<forall>a b t. Trigger (eg_machine g) a b = Some t \<longrightarrow> valid_text t))"

lemma ref_hashable: "ref_text r \<Longrightarrow> hashable (versionedRefJSON r) \<and> nesting (versionedRefJSON r) = 1 \<and> unpaired (versionedRefJSON r)"
  by (simp add: versionedRefJSON_def ref_text_def gmap_ok_def valid_text_ascii)

lemma one_form: "integerForm ''1''"
  by code_simp

lemma valid_digest: "digestPattern d \<Longrightarrow> valid_text d"
proof (rule valid_text_ascii)
  assume d: "digestPattern d"
  have "(of_char c :: nat) < 128" if "is_hex c" for c
    using that by (auto simp: is_hex_def less_eq_char_def of_char_def)
  with d have "list_all (\<lambda>c. (of_char c :: nat) < 128) (drop 7 d)" by (auto simp: digestPattern_def list_all_iff)
  moreover have "list_all (\<lambda>c. (of_char c :: nat) < 128) (take 7 d)" using d by (simp add: digestPattern_def)
  ultimately show "list_all (\<lambda>c. (of_char c :: nat) < 128) d" by (metis append_take_drop_id list_all_append)
qed

lemma ComputeDigestPreimage_digest: "ComputeDigestPreimage g doc file = Inr d \<Longrightarrow> digestPattern d"
proof -
  have "digestPattern x" if "DigestOf v = Inr x" for v x using that by (auto simp: DigestOf_def and_then_Inr digest_bytes_pattern)
  moreover assume "ComputeDigestPreimage g doc file = Inr d"
  then obtain v where "DigestOf v = Inr d"
    unfolding ComputeDigestPreimage_def and_then_Inr by (fastforce split: option.split_asm sum.split_asm)
  ultimately show "digestPattern d" by blast
qed

lemma event_payload_readable:
  assumes "ref_text (Proposal_Ref p)" "engine_text g" "valid_text src" "valid_text dst" "\<forall>r \<in> set refs. ref_text r"
    "buildEventPayload ev g p src dst n refs = Inr payload"
  shows "readable payload"
    "\<And>k. k \<noteq> ''event_digest'' \<Longrightarrow> map_of payload k = map_of (event_payload g p src dst n refs) k"
proof -
  let ?core = "event_payload g p src dst n refs"
  obtain d where d: "ComputeDigestPreimage (eg_gates g) ?core SchemaFileProposalEvent = Inr d" and payload: "payload = gput ''event_digest'' (GString d) ?core"
    using assms(6) by (auto simp: buildEventPayload_def and_then_Inr Let_def)
  have "valid_text d" by (rule valid_digest) (rule ComputeDigestPreimage_digest [OF d])
  have trig: "valid_text (event_trigger g src dst)"
    using assms(2) by (auto simp: event_trigger_def engine_text_def valid_text_ascii split: option.splits)
  have p: "valid_text (pr_id p)" "valid_text (pr_digest p)" "integerForm (pr_version p)"
    using assms(1) by (simp_all add: ref_text_def Proposal_Ref_def)
  have nums: "integerForm (format_uint k)" for k by (simp add: format_uint_def format_int_form)
  have eid: "valid_text (''pe-'' @ pr_id p @ ''-'' @ format_uint n)"
    using p(1) nums by (intro valid_text_append) (auto intro: valid_text_ascii integer_ascii)
  have refs: "list_all hashable (map versionedRefJSON refs)" "foldr max (map nesting (map versionedRefJSON refs)) 0 \<le> 1"
    "list_all unpaired (map versionedRefJSON refs)"
  proof -
    show "foldr max (map nesting (map versionedRefJSON refs)) 0 \<le> 1" using assms(5) by (induction refs) (simp_all add: ref_hashable)
  qed (use assms(5) ref_hashable in \<open>auto simp: list_all_iff\<close>)
  have auth: "hashable (authorityRef g)" "nesting (authorityRef g) = 1" "unpaired (authorityRef g)"
    using assms(2) one_form by (simp_all add: authorityRef_def engine_text_def gmap_ok_def valid_text_ascii)
  have "gput ''event_digest'' (GString d) ?core = ?core @ [(''event_digest'', GString d)]"
    by (rule gput_fresh) (simp add: event_payload_def)
  then have eq: "payload = ?core @ [(''event_digest'', GString d)]" using payload by simp
  have "hashable (GObject payload)"
    unfolding eq event_payload_def using assms(3,4) p nums eid refs(1) auth(1) ref_hashable [OF assms(1)] trig \<open>valid_text d\<close>
    by (simp add: gmap_ok_def valid_text_ascii)
  moreover have "nesting (GObject payload) \<le> max_nesting"
    unfolding eq event_payload_def using refs(2) auth(2) ref_hashable [OF assms(1)]
    by (simp add: max_nesting_def)
  moreover have "unpaired (GObject payload)"
    unfolding eq event_payload_def using refs(3) auth(3) ref_hashable [OF assms(1)] by simp
  ultimately show "readable payload" by (simp only: readable_def)
  show "map_of payload k = map_of ?core k" if "k \<noteq> ''event_digest''" for k using that payload by simp
qed

lemma format_uint_digits: "list_all is_digit (format_uint n)" "format_uint n \<noteq> []" "digits_val 0 (format_uint n) = uint n"
proof -
  have big: "big_set_string (format_uint n) = Some (uint n)" by (simp add: format_uint_def format_int_form)
  have all: "is_digit c" if "c \<in> set (format_uint n)" for c
  proof -
    have "format_uint n = nat_digits (nat (uint n))" by (simp add: format_uint_def format_int_def)
    with that nat_digits_form [of "nat (uint n)"] show ?thesis
      by (auto simp: unsigned_form_def is_digit_def is_digit19_def list_all_iff less_eq_char_def split: list.splits)
  qed
  then show "list_all is_digit (format_uint n)" by (simp add: list_all_iff)
  show "format_uint n \<noteq> []" using big by (auto simp: big_set_string_def)
  then obtain c r where cr: "format_uint n = c # r" by (cases "format_uint n") auto
  with all have c: "is_digit c" by simp
  then have "c \<noteq> CHR ''-''" "c \<noteq> CHR ''+''" by (auto simp: is_digit_def less_eq_char_def)
  with big cr show "digits_val 0 (format_uint n) = uint n" by (auto simp: big_set_string_def Let_def split: if_splits)
qed

lemma scan_uint_format: "scan_uint (format_uint n) = Some n"
proof -
  note ds = format_uint_digits [of n]
  then have all: "takeWhile is_digit (format_uint n) = format_uint n" by (simp add: takeWhile_eq_all_conv list_all_iff)
  show ?thesis unfolding scan_uint_def Let_def all using ds(2,3) uint_lt2p [of n] by simp
qed

subsection \<open>Staging\<close>

definition transition_entry_of :: "Proposal \<Rightarrow> gobj \<Rightarrow> uint64 \<Rightarrow> Entry" where
  "transition_entry_of p payload n = \<lparr>en_ledger = LedgerProposal, en_stream = pr_id p, en_seq = n, en_event = stringField payload ''event_id'',
     en_digest = DigestBytes (out (GObject payload))\<rparr>"

lemma stageTransition_Inr:
  assumes "stageTransition ev g s s' p src dst refs tx = (Inr info, tx')"
  obtains current lastSeq payload data where
    "committedState s (pr_id p) = Inr (current, lastSeq)" "check_transition (eg_machine g) current lastSeq src dst = Inr ()"
    "buildEventPayload ev g p src dst (lastSeq + 1) refs = Inr payload" "marshalJSON payload = Inr data"
    "\<exists>entry. AppendEvent (eg_registry g) s' LedgerProposal (pr_id p) (stringField payload ''event_id'') data tx = (Inr entry, tx')"
    "info = \<lparr>ei_FromState = src, ei_ToState = dst, ei_EventSequence = lastSeq + 1, ei_EventID = stringField payload ''event_id'', ei_ExpectedPrevSeq = lastSeq\<rparr>"
  using assms unfolding stageTransition_def Let_def
  by (auto split: sum.splits prod.splits intro: that)

lemma event_fields:
  "map_of (event_payload g p src dst n refs) ''from_state'' = Some (GString src)"
  "map_of (event_payload g p src dst n refs) ''to_state'' = Some (GString dst)"
  "map_of (event_payload g p src dst n refs) ''event_sequence'' = Some (GNumber (format_uint n))"
  "map_of (event_payload g p src dst n refs) ''schema_version'' = Some (GString SchemaProposalEvent)"
  by (simp_all add: event_payload_def)

lemma AppendEvent_Inr:
  assumes "AppendEvent reg s kind stream eid data tx = (Inr entry, tx')"
  obtains sq canonical digest where "NextSequence reg s tx kind stream = Inr sq" "validateEventPayload reg kind eid sq data = Inr (canonical, digest)"
    "entry = \<lparr>en_ledger = kind, en_stream = stream, en_seq = sq, en_event = eid, en_digest = digest\<rparr>"
    "tx' = (stageContent digest canonical tx)\<lparr>tx_appends := tx_appends tx @ [entry]\<rparr>"
  using assms that by (auto simp: AppendEvent_def Let_def stageContent_sets split: sum.splits prod.splits)

lemma staged_transition:
  assumes "AppendEvent reg s LedgerProposal (pr_id p) (stringField payload ''event_id'') data tx = (Inr entry, tx')"
    "readable payload" "marshalJSON payload = Inr data" "map_of payload ''event_sequence'' = Some (GNumber (format_uint n))"
  shows "entry = transition_entry_of p payload n"
    "tx' = (stageContent (en_digest entry) (out (GObject payload)) tx)\<lparr>tx_appends := tx_appends tx @ [entry]\<rparr>"
proof -
  obtain sq canonical digest where a: "validateEventPayload reg LedgerProposal (stringField payload ''event_id'') sq data = Inr (canonical, digest)"
    "entry = \<lparr>en_ledger = LedgerProposal, en_stream = pr_id p, en_seq = sq, en_event = stringField payload ''event_id'', en_digest = digest\<rparr>"
    "tx' = (stageContent digest canonical tx)\<lparr>tx_appends := tx_appends tx @ [entry]\<rparr>"
    by (rule AppendEvent_Inr [OF assms(1)]) blast
  have data: "data = mtext (GObject payload)" using assms(3) readable_marshal [OF assms(2)] by (simp add: marshalJSON_def)
  obtain n' where n': "canonicalize reg data = Inr (out (GObject payload), DigestBytes (out (GObject payload)), Some n')"
    "\<And>k. map_of n' k = map_option mcanon (map_of payload k)"
    unfolding data using readable_canonicalize [OF assms(2), of reg] by blast
  from a(1) n'(1) have eq: "canonical = out (GObject payload)" "digest = DigestBytes (out (GObject payload))"
    and sq: "check_sequence_field reg n' sq ''event_sequence'' = Inr ()"
    unfolding validate_Inr by auto
  have "sq = n" using sq assms(4) by (simp add: check_sequence_field_def n'(2) scan_uint_format check_Inr)
  with a eq show "entry = transition_entry_of p payload n" by (simp add: transition_entry_of_def)
  with a eq show "tx' = (stageContent (en_digest entry) (out (GObject payload)) tx)\<lparr>tx_appends := tx_appends tx @ [entry]\<rparr>"
    by (simp add: transition_entry_of_def)
qed

subsection \<open>The engine as a system\<close>

text \<open>
  The canonical text of the event a call is about to write. \<open>T\<close> below is the set of all texts that are ever hashed into the content
  store; the results need that no two of them have the same SHA-256 digest.
\<close>

definition transition_text :: "env \<Rightarrow> Engine \<Rightarrow> MemoryStore \<Rightarrow> Proposal \<Rightarrow> string \<Rightarrow> string \<Rightarrow> VersionedRef list \<Rightarrow> string" where
  "transition_text ev g s p src dst refs =
     (case committedState s (pr_id p) of
        Inl _ \<Rightarrow> []
      | Inr (_, lastSeq) \<Rightarrow>
          (case buildEventPayload ev g p src dst (lastSeq + 1) refs of Inl _ \<Rightarrow> [] | Inr payload \<Rightarrow> out (GObject payload)))"

fun proposal_write :: "tx_op \<Rightarrow> bool" where
  "proposal_write (OpAppendEvent kind stream eventID payload) = (kind = LedgerProposal)"
| "proposal_write (OpAppendEntry entry payload) = (en_ledger entry = LedgerProposal)"
| "proposal_write _ = False"

text \<open>
  A transaction that may write whatever it wants elsewhere, and writes the proposal ledger through the engine only. The engine
  may have read the stream at any time before the commit at \<open>s\<close>, and the ledger head at any time at all.
\<close>

inductive proposal_tx :: "env \<Rightarrow> Engine \<Rightarrow> string set \<Rightarrow> MemoryStore \<Rightarrow> Tx \<Rightarrow> bool" for ev g T s where
  begin_tx: "proposal_tx ev g T s new_tx"
| other: "proposal_tx ev g T s tx \<Longrightarrow> \<not> proposal_write op \<Longrightarrow> proposal_tx ev g T s (run_op (eg_registry g) s0 op tx)"
| transition: "proposal_tx ev g T s tx \<Longrightarrow> extends s0 s \<Longrightarrow> ref_text (Proposal_Ref p) \<Longrightarrow> valid_text src \<Longrightarrow> valid_text dst \<Longrightarrow>
    \<forall>r \<in> set refs. ref_text r \<Longrightarrow> transition_text ev g s0 p src dst refs \<in> T \<Longrightarrow>
    stageTransition ev g s0 s1 p src dst refs tx = (r, tx') \<Longrightarrow> proposal_tx ev g T s tx'"

inductive proposal_step :: "env \<Rightarrow> Engine \<Rightarrow> string set \<Rightarrow> MemoryStore \<Rightarrow> MemoryStore \<Rightarrow> bool" for ev g T where
  commits: "proposal_tx ev g T s tx \<Longrightarrow> sc_canonical ` set (tx_puts tx) \<subseteq> T \<Longrightarrow> proposal_step ev g T s (snd (commit (eg_registry g) tx s))"
| delivers: "proposal_step ev g T s (snd (MarkDelivered key sq digest s))"
| swaps: "proposal_step ev g T s (snd (CompareAndSwap ''projection'' key es ed ns nd s))"

inductive_cases proposal_stepE: "proposal_step ev g T s s'"

text \<open>An entry the engine staged, and where it came from.\<close>

definition transition_at :: "env \<Rightarrow> Engine \<Rightarrow> string set \<Rightarrow> MemoryStore \<Rightarrow> Entry \<Rightarrow> bool" where
  "transition_at ev g T s e = (\<exists>s0 p src dst refs current lastSeq payload. extends s0 s \<and> readable payload \<and>
     map_of payload ''from_state'' = Some (GString src) \<and> map_of payload ''to_state'' = Some (GString dst) \<and>
     committedState s0 (pr_id p) = Inr (current, lastSeq) \<and> check_transition (eg_machine g) current lastSeq src dst = Inr () \<and>
     buildEventPayload ev g p src dst (lastSeq + 1) refs = Inr payload \<and> out (GObject payload) \<in> T \<and>
     e = transition_entry_of p payload (lastSeq + 1))"

lemma run_op_appends:
  assumes "\<not> proposal_write op" "e \<in> set (tx_appends (run_op reg s op tx))" "en_ledger e = LedgerProposal"
  shows "e \<in> set (tx_appends tx)"
  using assms
  by (cases op) (auto simp: PutContent_def AppendEvent_def AppendEntry_def CompareAndSwapHead_def EnqueueOutbox_def RecordIdempotency_def
      stageContent_sets Let_def split: sum.splits prod.splits option.splits if_splits)

lemma AppendEvent_Inl: "AppendEvent reg s kind stream eid data tx = (Inl e, tx') \<Longrightarrow> tx' = tx"
  by (auto simp: AppendEvent_def Let_def split: sum.splits prod.splits)

lemma stageTransition_Inl: "stageTransition ev g s0 s1 p src dst refs tx = (Inl e, tx') \<Longrightarrow> tx' = tx"
  unfolding stageTransition_def Let_def by (auto split: sum.splits prod.splits dest: AppendEvent_Inl)

lemma stageTransition_staged:
  assumes "stageTransition ev g s0 s1 p src dst refs tx = (r, tx')"
  shows "tx' = tx \<or> (\<exists>eid data. tx' = run_op (eg_registry g) s1 (OpAppendEvent LedgerProposal (pr_id p) eid data) tx)"
proof (cases r)
  case (Inl e)
  with assms stageTransition_Inl show ?thesis by simp
next
  case (Inr info)
  with assms obtain entry eid data where "AppendEvent (eg_registry g) s1 LedgerProposal (pr_id p) eid data tx = (Inr entry, tx')"
    by (auto elim!: stageTransition_Inr)
  then have "tx' = run_op (eg_registry g) s1 (OpAppendEvent LedgerProposal (pr_id p) eid data) tx" by simp
  then show ?thesis by blast
qed

lemma stageTransition_at:
  assumes "stageTransition ev g s0 s1 p src dst refs tx = (r, tx')" "extends s0 s" "ref_text (Proposal_Ref p)" "valid_text src" "valid_text dst"
    "\<forall>r \<in> set refs. ref_text r" "transition_text ev g s0 p src dst refs \<in> T" "engine_text g" "e \<in> set (tx_appends tx')"
  shows "e \<in> set (tx_appends tx) \<or> transition_at ev g T s e"
proof (cases r)
  case (Inl err)
  with assms(1) have "tx' = tx" using stageTransition_Inl by simp
  with assms(9) show ?thesis by simp
next
  case (Inr info)
  obtain current lastSeq payload data where st: "committedState s0 (pr_id p) = Inr (current, lastSeq)"
    "check_transition (eg_machine g) current lastSeq src dst = Inr ()" "buildEventPayload ev g p src dst (lastSeq + 1) refs = Inr payload"
    "marshalJSON payload = Inr data"
    and app: "\<exists>entry. AppendEvent (eg_registry g) s1 LedgerProposal (pr_id p) (stringField payload ''event_id'') data tx = (Inr entry, tx')"
    using stageTransition_Inr [of ev g s0 s1 p src dst refs tx info tx'] assms(1) Inr by metis
  then obtain entry where entry: "AppendEvent (eg_registry g) s1 LedgerProposal (pr_id p) (stringField payload ''event_id'') data tx = (Inr entry, tx')" by blast
  note rd = event_payload_readable [OF assms(3,8,4,5,6) st(3)]
  have fields: "map_of payload ''from_state'' = Some (GString src)" "map_of payload ''to_state'' = Some (GString dst)"
    "map_of payload ''event_sequence'' = Some (GNumber (format_uint (lastSeq + 1)))"
    using event_fields rd(2) by simp_all
  note sg = staged_transition [OF entry rd(1) st(4) fields(3)]
  have "out (GObject payload) \<in> T" using assms(7) st(1,3) by (simp add: transition_text_def)
  with st fields rd(1) assms(2) sg(1) have "transition_at ev g T s entry" unfolding transition_at_def by blast
  moreover have "set (tx_appends tx') = insert entry (set (tx_appends tx))" unfolding sg(2) by simp
  ultimately show ?thesis using assms(9) by auto
qed

lemma proposal_tx_staged:
  assumes "proposal_tx ev g T s tx" "engine_text g"
  shows "staged (eg_registry g) tx \<and> (\<forall>e \<in> set (tx_appends tx). en_ledger e = LedgerProposal \<longrightarrow> transition_at ev g T s e)"
  using assms
proof (induction rule: proposal_tx.induct)
  case begin_tx
  show ?case using staged_from.begin_tx by (simp add: new_tx_def)
next
  case (other tx op s0)
  then show ?case using run_op_appends staged_from.stage by blast
next
  case (transition tx s0 p src dst refs s1 r tx')
  from stageTransition_staged [OF transition.hyps(8)] transition have "staged (eg_registry g) tx'"
    using staged_from.stage by blast
  moreover have "en_ledger e = LedgerProposal \<longrightarrow> transition_at ev g T s e" if "e \<in> set (tx_appends tx')" for e
    using stageTransition_at [OF transition.hyps(8,2-7) transition.prems that] transition.IH [OF transition.prems] by blast
  ultimately show ?case by blast
qed

subsection \<open>The invariant\<close>

text \<open>The events of a stream as the replayer of the bundle sees them.\<close>

definition event_of :: "MemoryStore \<Rightarrow> Entry \<Rightarrow> StateEvent" where
  "event_of s e =
     (let obj = (case Get s (en_digest e) of None \<Rightarrow> [] | Some payload \<Rightarrow> (case ParseJSONStrict payload of Inl _ \<Rightarrow> [] | Inr val \<Rightarrow> obj_or_nil val))
      in \<lparr>se_sequence = uint (en_seq e), se_from = str_or_empty (gidx obj ''from_state''), se_to = str_or_empty (gidx obj ''to_state'')\<rparr>)"

text \<open>A run of the machine: one genesis event into an initial state, then legal edges only.\<close>

definition proposal_run :: "Machine \<Rightarrow> StateEvent list \<Rightarrow> string \<Rightarrow> bool" where
  "proposal_run m evs st =
     (case evs of
        [] \<Rightarrow> st = StateNone
      | genesis # rest \<Rightarrow> se_from genesis = StateNone \<and> IsInitial m (se_to genesis) \<and> replay_from m (se_to genesis) rest = Inr st)"

definition stream_ok :: "Engine \<Rightarrow> MemoryStore \<Rightarrow> string \<Rightarrow> bool" where
  "stream_ok g s ident =
     (let es = entries_at s (proposal_key ident)
      in \<exists>st. committedState s ident = Inr (st, word_of_nat (length es)) \<and> proposal_run (eg_machine g) (map (event_of s) es) st)"

definition proposal_inv :: "Engine \<Rightarrow> string set \<Rightarrow> MemoryStore \<Rightarrow> bool" where
  "proposal_inv g T s = (ledger_ok (eg_registry g) s \<and> snd ` set (ms_content s) \<subseteq> T \<and> (\<forall>ident. stream_ok g s ident))"

lemma replay_from_snoc:
  "replay_from m cur (evs @ [ev]) = and_then (replay_from m cur evs) (\<lambda>st. replay_from m st [ev])"
  by (induction evs arbitrary: cur) auto

lemma advance_proposal_seq: "advance_proposal s e st = Inr st' \<Longrightarrow> snd st' = en_seq e"
  by (auto simp: advance_proposal_def Let_def split: option.splits sum.splits if_splits)

lemma replay_entries_seq:
  "replay_entries (advance_proposal s) es (c, k) = Inr (c', n) \<Longrightarrow> n = (if es = [] then k else en_seq (last es))"
proof (induction es arbitrary: c k)
  case (Cons e es)
  then obtain c1 k1 where "advance_proposal s e (c, k) = Inr (c1, k1)" "replay_entries (advance_proposal s) es (c1, k1) = Inr (c', n)"
    by (auto split: sum.splits)
  with advance_proposal_seq have "replay_entries (advance_proposal s) es (c1, en_seq e) = Inr (c', n)" by fastforce
  from Cons.IH [OF this] show ?case by auto
qed simp

lemma committed_length:
  assumes "committedState s0 ident = Inr (c, n)" "extends s0 s" "store_ok s"
  shows "n = word_of_nat (length (entries_at s0 (proposal_key ident)))" "prefix (entries_at s0 (proposal_key ident)) (entries_at s (proposal_key ident))"
proof -
  let ?es = "entries_at s0 (proposal_key ident)"
  show pre: "prefix ?es (entries_at s (proposal_key ident))" using assms(2) by (simp add: extends_def)
  have n: "n = (if ?es = [] then 0 else en_seq (last ?es))" using assms(1) replay_entries_seq unfolding committedState_eq by blast
  show "n = word_of_nat (length ?es)"
  proof (cases ?es rule: rev_cases)
    case (snoc es e)
    from pre obtain fs where "entries_at s (proposal_key ident) = es @ e # fs" unfolding snoc by (auto simp: prefix_def)
    moreover have "numbered (entries_at s (proposal_key ident))" using assms(3) by (simp add: store_ok_def)
    ultimately have "unat (en_seq ((es @ e # fs) ! length es)) = Suc (length es)"
      by (metis add_Suc_right length_Cons length_append less_add_Suc1 numbered_def)
    then have "unat (en_seq e) = Suc (length es)" by simp
    with n snoc show ?thesis by (simp flip: \<open>unat (en_seq e) = Suc (length es)\<close>)
  qed (use n in simp)
qed

lemma prefix_full: "prefix xs ys \<Longrightarrow> length xs = length ys \<Longrightarrow> xs = ys"
  by (auto simp: prefix_def)

text \<open>How one stream changes in a commit: not at all, or by one transition that fits where the stream stands.\<close>

lemma stream_commit:
  fixes ident :: string
  assumes "ledger_ok (eg_registry g) s" "engine_text g" "proposal_tx ev g T s tx" "commit (eg_registry g) tx s = (r, s')"
  defines "key \<equiv> proposal_key ident"
  obtains "entries_at s' key = entries_at s key"
  | e where "entries_at s' key = entries_at s key @ [e]" "transition_at ev g T s e" "en_stream e = ident" "r = Inr ()"
      "en_seq e = word_of_nat (length (entries_at s key)) + 1"
proof -
  let ?es = "entries_at s key" and ?fs = "filter (on_stream key) (tx_appends tx)"
  note st = proposal_tx_staged [OF assms(3,2)]
  have ok: "store_ok s" "tx_ok (eg_registry g) tx" using assms(1) st staged_ok by (auto simp: ledger_ok_def)
  have at_key: "transition_at ev g T s e \<and> en_stream e = ident" if "e \<in> set ?fs" for e
  proof -
    have "validated (eg_registry g) e" using ok(2) that by (simp add: tx_ok_def)
    then have "map_of ledgerKinds (en_ledger e) \<noteq> None" by (auto simp: validated_def validate_Inr)
    then have "en_ledger e = LedgerProposal \<and> en_stream e = ident"
      using that ledgerKey_inj [of "en_ledger e" LedgerProposal] proposal_kind by (auto simp: on_stream_def key_def)
    with that st show ?thesis by simp
  qed
  have seqs: "\<exists>k \<le> length ?es. en_seq e = word_of_nat k + 1" if e: "e \<in> set ?fs" for e
  proof -
    from at_key [OF e] obtain s0 p c n payload where t: "extends s0 s" "committedState s0 (pr_id p) = Inr (c, n)"
      "e = transition_entry_of p payload (n + 1)" unfolding transition_at_def by blast
    with at_key [OF e] have "pr_id p = ident" by (simp add: transition_entry_of_def)
    with committed_length [OF t(2,1) ok(1)] t(3) show ?thesis
      by (intro exI [of _ "length (entries_at s0 key)"]) (simp add: transition_entry_of_def key_def prefix_length_le)
  qed
  have store': "store_ok s'" using commit_cases [OF ok assms(4)] by simp
  consider "entries_at s' key = ?es" | "r = Inr ()" "entries_at s' key = fold add_entry ?fs ?es"
    using commit_stream(1) [OF ok assms(4), of key] by blast
  then show thesis
  proof cases
    case 1
    then show thesis by (rule that(1))
  next
    case 2
    have "numbered (entries_at s' key)" using store' by (simp add: store_ok_def)
    then have "length (fold add_entry ?fs ?es) < 2 ^ 64" unfolding 2(2) by (simp add: numbered_def)
    from fold_add_entry_once [OF seqs this] 2 at_key show thesis using that by metis
  qed
qed

lemma event_of_grows: "extends s t \<Longrightarrow> map_of (ms_content s) (en_digest e) \<noteq> None \<Longrightarrow> event_of t e = event_of s e"
  unfolding event_of_def Get_def extends_def map_le_def dom_def by simp

lemma read_event:
  assumes "ledger_ok reg s" "snd ` set (ms_content s) \<subseteq> T" "inj_on DigestBytes T" "e = transition_entry_of p payload n" "readable payload"
    "map_of payload ''from_state'' = Some (GString src)" "map_of payload ''to_state'' = Some (GString dst)" "out (GObject payload) \<in> T"
    "e \<in> set (entries_at s key)"
  shows "advance_proposal s e (src, k) = Inr (dst, en_seq e)" "event_of s e = \<lparr>se_sequence = uint (en_seq e), se_from = src, se_to = dst\<rparr>"
proof -
  have d: "en_digest e = DigestBytes (out (GObject payload))" by (simp add: assms(4) transition_entry_of_def)
  have "map_of (ms_content s) (en_digest e) \<noteq> None" using assms(1,9) by (auto simp: ledger_ok_def backed_def)
  then have got: "Get s (en_digest e) = Some (out (GObject payload))"
    unfolding d using assms(1-3,8) by (intro stored_text) (simp_all add: ledger_ok_def)
  obtain m where m: "ParseJSONStrict (out (GObject payload)) = Inr (GObject m)" "\<And>k. map_of m k = map_option canon (map_of payload k)"
    using readable_parse [OF assms(5)] by blast
  have fields: "gidx m ''from_state'' = GString src" "gidx m ''to_state'' = GString dst" by (simp_all add: gidx_def m(2) assms(6,7))
  show "advance_proposal s e (src, k) = Inr (dst, en_seq e)" "event_of s e = \<lparr>se_sequence = uint (en_seq e), se_from = src, se_to = dst\<rparr>"
    by (simp_all add: advance_proposal_def event_of_def got m(1) fields Let_def obj_or_nil_def AsObject_def str_or_empty_def AsString_def)
qed

lemma stored_event:
  assumes "ledger_ok reg s" "snd ` set (ms_content s) \<subseteq> T" "inj_on DigestBytes T" "transition_at ev g T s0 e" "e \<in> set (entries_at s key)"
  obtains src dst s1 current lastSeq where "\<And>k. advance_proposal s e (src, k) = Inr (dst, en_seq e)"
    "event_of s e = \<lparr>se_sequence = uint (en_seq e), se_from = src, se_to = dst\<rparr>" "extends s1 s0"
    "committedState s1 (en_stream e) = Inr (current, lastSeq)" "check_transition (eg_machine g) current lastSeq src dst = Inr ()"
    "en_seq e = lastSeq + 1"
proof -
  obtain s1 p src dst refs current lastSeq payload where t: "extends s1 s0" "readable payload"
    "map_of payload ''from_state'' = Some (GString src)" "map_of payload ''to_state'' = Some (GString dst)"
    "committedState s1 (pr_id p) = Inr (current, lastSeq)" "check_transition (eg_machine g) current lastSeq src dst = Inr ()"
    "out (GObject payload) \<in> T" "e = transition_entry_of p payload (lastSeq + 1)"
    using assms(4) unfolding transition_at_def by blast
  show thesis
    by (rule that [OF read_event [OF assms(1-3) t(8,2,3,4,7) assms(5)] t(1) _ t(6)])
      (use t(5,8) in \<open>simp_all add: transition_entry_of_def\<close>)
qed

lemma check_transition_Inr:
  "check_transition m current lastSeq src dst = Inr () \<longleftrightarrow>
     (if src = StateNone then lastSeq = 0 \<and> IsInitial m dst
      else IsDefined m src \<and> IsDefined m dst \<and> src = current \<and> \<not> IsTerminal m src \<and> HasEdge m src dst)"
  by (auto simp: check_transition_def and_then_Inr check_Inr)

lemma proposal_run_snoc:
  assumes "proposal_run m evs current" "check_transition m current (word_of_nat (length evs)) (se_from ev) (se_to ev) = Inr ()" "length evs < 2 ^ 64"
  shows "proposal_run m (evs @ [ev]) (se_to ev)" "se_from ev = current"
proof -
  have zero: "evs = []" if "(word_of_nat (length evs) :: uint64) = 0"
    using that assms(3) unat_of_nat64 [OF assms(3)] by simp
  have c: "if se_from ev = StateNone then evs = [] \<and> IsInitial m (se_to ev)
      else IsDefined m (se_from ev) \<and> IsDefined m (se_to ev) \<and> se_from ev = current \<and> \<not> IsTerminal m (se_from ev) \<and> HasEdge m (se_from ev) (se_to ev)"
    using assms(2) zero unfolding check_transition_Inr by (auto split: if_splits)
  show "se_from ev = current" using c assms(1) by (auto simp: proposal_run_def split: if_splits)
  show "proposal_run m (evs @ [ev]) (se_to ev)"
  proof (cases evs)
    case Nil
    with c assms(1) show ?thesis by (auto simp: proposal_run_def split: if_splits)
  next
    case (Cons genesis rest)
    with c have "se_from ev \<noteq> StateNone" by auto
    with c Cons assms(1) show ?thesis
      by (auto simp: proposal_run_def replay_from_snoc IsDefined_def IsTerminal_def)
  qed
qed

lemma stream_ok_step:
  assumes "ledger_ok (eg_registry g) s'" "snd ` set (ms_content s') \<subseteq> T" "inj_on DigestBytes T" "extends s s'" "ledger_ok (eg_registry g) s"
    "stream_ok g s ident" "entries_at s' (proposal_key ident) = entries_at s (proposal_key ident) @ [e]" "transition_at ev g T s e"
    "en_stream e = ident" "en_seq e = word_of_nat (length (entries_at s (proposal_key ident))) + 1"
  shows "stream_ok g s' ident \<and> committedState s' ident = Inr (se_to (event_of s' e), en_seq e)"
proof -
  let ?es = "entries_at s (proposal_key ident)"
  obtain st where st: "committedState s ident = Inr (st, word_of_nat (length ?es))" "proposal_run (eg_machine g) (map (event_of s) ?es) st"
    using assms(6) by (auto simp: stream_ok_def Let_def)
  have "e \<in> set (entries_at s' (proposal_key ident))" using assms(7) by simp
  then obtain src dst s1 current lastSeq where
    ev: "\<And>k. advance_proposal s' e (src, k) = Inr (dst, en_seq e)" "event_of s' e = \<lparr>se_sequence = uint (en_seq e), se_from = src, se_to = dst\<rparr>"
    and s1: "extends s1 s" "committedState s1 (en_stream e) = Inr (current, lastSeq)"
      "check_transition (eg_machine g) current lastSeq src dst = Inr ()" "en_seq e = lastSeq + 1"
    by (rule stored_event [OF assms(1-3,8)]) blast
  have ok: "store_ok s" "store_ok s'" using assms(1,5) by (simp_all add: ledger_ok_def)
  have num: "length ?es < 2 ^ 64" using ok(1) by (simp add: store_ok_def numbered_def)
  note cl = committed_length [OF s1(2) [unfolded assms(9)] s1(1) ok(1)]
  have last: "lastSeq = word_of_nat (length ?es)" using s1(4) assms(10) by simp
  have "length (entries_at s1 (proposal_key ident)) \<le> length ?es" using cl(2) by (rule prefix_length_le)
  then have "length (entries_at s1 (proposal_key ident)) = length ?es"
    using arg_cong [where f = unat, OF cl(1) [unfolded last]] num by (simp add: unat_of_nat64)
  with cl(2) have "entries_at s1 (proposal_key ident) = ?es" by (rule prefix_full)
  then have "committedState s ident = Inr (current, lastSeq)"
    using proposals.replay_grows [OF s1(1)] s1(2) unfolding committedState_eq assms(9) by simp
  with st(1) have current: "current = st" by simp
  have "committedState s' ident = advance_proposal s' e (st, word_of_nat (length ?es))"
    using proposals.replay_snoc [OF assms(4) _ assms(7)] st(1) unfolding committedState_eq by blast
  moreover have same_events: "map (event_of s') ?es = map (event_of s) ?es"
  proof -
    have "map_of (ms_content s) (en_digest x) \<noteq> None" if "x \<in> set ?es" for x using assms(5) that by (auto simp: ledger_ok_def backed_def)
    then show ?thesis using event_of_grows [OF assms(4)] by simp
  qed
  have run: "proposal_run (eg_machine g) (map (event_of s) ?es @ [event_of s' e]) dst" "src = st"
    using proposal_run_snoc [OF st(2), of "event_of s' e"] s1(3) num unfolding ev(2) current last by simp_all
  with ev(1) calculation have state: "committedState s' ident = Inr (dst, en_seq e)" by simp
  have len: "en_seq e = word_of_nat (length (entries_at s' (proposal_key ident)))" using assms(7,10) by simp
  have "map (event_of s') (entries_at s' (proposal_key ident)) = map (event_of s) ?es @ [event_of s' e]" using same_events assms(7) by simp
  with run(1) state len have "stream_ok g s' ident" by (auto simp: stream_ok_def Let_def)
  with state ev(2) show ?thesis by simp
qed

lemma stream_ok_extends:
  assumes "extends s s'" "ledger_ok reg s" "stream_ok g s ident" "entries_at s' (proposal_key ident) = entries_at s (proposal_key ident)"
  shows "stream_ok g s' ident" "committedState s' ident = committedState s ident"
proof -
  let ?es = "entries_at s (proposal_key ident)"
  obtain st where st: "committedState s ident = Inr (st, word_of_nat (length ?es))" "proposal_run (eg_machine g) (map (event_of s) ?es) st"
    using assms(3) by (auto simp: stream_ok_def Let_def)
  show state: "committedState s' ident = committedState s ident"
    using proposals.replay_grows [OF assms(1)] st(1) unfolding committedState_eq assms(4) by simp
  have "map_of (ms_content s) (en_digest x) \<noteq> None" if "x \<in> set ?es" for x using assms(2) that by (auto simp: ledger_ok_def backed_def)
  then have events: "map (event_of s') ?es = map (event_of s) ?es" using event_of_grows [OF assms(1)] by simp
  show "stream_ok g s' ident" unfolding stream_ok_def Let_def assms(4) events state using st by blast
qed

lemma proposal_step_ledger: "engine_text g \<Longrightarrow> proposal_step ev g T s s' \<Longrightarrow> ledger_step (eg_registry g) s s'"
  by (erule proposal_stepE) (auto intro: ledger_step.intros dest: proposal_tx_staged)

lemma other_steps_kept:
  "entries_at (snd (MarkDelivered key sq digest s)) k = entries_at s k" "ms_content (snd (MarkDelivered key sq digest s)) = ms_content s"
  "entries_at (snd (CompareAndSwap kind key es ed ns nd s)) k = entries_at s k" "ms_content (snd (CompareAndSwap kind key es ed ns nd s)) = ms_content s"
  by (auto simp: MarkDelivered_def CompareAndSwap_def Let_def split: option.splits if_splits sum.splits)

text \<open>One step of the system: the invariant is kept, and a stream stands still or takes one legal transition.\<close>

lemma proposal_inv_step:
  assumes "proposal_inv g T s" "proposal_step ev g T s s'" "engine_text g" "inj_on DigestBytes T"
  shows "proposal_inv g T s'"
    "entries_at s' (proposal_key ident) = entries_at s (proposal_key ident) \<or>
     (\<exists>e. entries_at s' (proposal_key ident) = entries_at s (proposal_key ident) @ [e] \<and>
        committedState s' ident = Inr (se_to (event_of s' e), en_seq e))"
proof -
  have inv: "ledger_ok (eg_registry g) s" "snd ` set (ms_content s) \<subseteq> T" "stream_ok g s i" for i
    using assms(1) by (simp_all add: proposal_inv_def)
  have led: "ledger_ok (eg_registry g) s'" "extends s s'" using ledger_ok_step [OF inv(1) proposal_step_ledger [OF assms(3,2)]] by simp_all
  have content: "snd ` set (ms_content s') \<subseteq> T"
    using assms(2)
  proof (cases rule: proposal_step.cases)
    case (commits tx)
    have "store_ok s" "tx_ok (eg_registry g) tx" using inv(1) staged_ok proposal_tx_staged [OF commits(2) assms(3)] by (auto simp: ledger_ok_def)
    then have "snd ` set (ms_content s') \<subseteq> snd ` set (ms_content s) \<union> sc_canonical ` set (tx_puts tx)"
      by (rule commit_stream(2) [where r = "fst (commit (eg_registry g) tx s)"]) (simp add: commits(1))
    also have "\<dots> \<subseteq> T" using commits(3) inv(2) by (rule Un_least [rotated])
    finally show ?thesis .
  qed (simp_all add: inv(2) other_steps_kept)
  have stream: "stream_ok g s' i \<and> (entries_at s' (proposal_key i) = entries_at s (proposal_key i) \<or>
      (\<exists>e. entries_at s' (proposal_key i) = entries_at s (proposal_key i) @ [e] \<and> committedState s' i = Inr (se_to (event_of s' e), en_seq e)))" for i
    using assms(2)
  proof (cases rule: proposal_step.cases)
    case (commits tx)
    then have "commit (eg_registry g) tx s = (fst (commit (eg_registry g) tx s), s')" by simp
    then show ?thesis
    proof (cases rule: stream_commit [OF inv(1) assms(3) commits(2), where ident = i, consumes 1, case_names same snoc])
      case same
      with stream_ok_extends(1) [OF led(2) inv(1,3)] show ?thesis by simp
    next
      case (snoc e)
      from stream_ok_step [OF led(1) content assms(4) led(2) inv(1,3) snoc(1-3) snoc(5)] snoc(1) show ?thesis by blast
    qed
  qed (use stream_ok_extends(1) [OF led(2) inv(1,3)] other_steps_kept in auto)
  with led content show "proposal_inv g T s'" by (simp add: proposal_inv_def)
  from stream show "entries_at s' (proposal_key ident) = entries_at s (proposal_key ident) \<or>
     (\<exists>e. entries_at s' (proposal_key ident) = entries_at s (proposal_key ident) @ [e] \<and>
        committedState s' ident = Inr (se_to (event_of s' e), en_seq e))" by blast
qed

end
