(* ===== verification/Proposal_Promises.thy ===== *)
theory Proposal_Promises
  imports Proposal_Facts
begin

text \<open>
  The promises of the proposal engine over the operations of the code: the committed stream of every proposal is a legal run,
  terminal states are final, and what one call of \<open>AppendTransition\<close> does.
\<close>

subsection \<open>The system\<close>

interpretation proposal_system: component fresh_store "proposal_step ev g T" "\<lambda>s. engine_text g \<and> inj_on DigestBytes T \<longrightarrow> proposal_inv g T s" for ev g T
proof
  fix s
  assume fresh: "fresh_store s"
  then have empty: "entries_at s k = []" for k by (simp add: fresh_store_def entries_at_def)
  have "stream_ok g s i" for i by (simp add: stream_ok_def empty committedState_eq proposal_run_def)
  moreover have "ledger_ok (eg_registry g) s" using fresh by (rule ledger.init_inv)
  ultimately show "engine_text g \<and> inj_on DigestBytes T \<longrightarrow> proposal_inv g T s" using fresh by (simp add: proposal_inv_def fresh_store_def)
qed (use proposal_inv_step(1) in blast)

lemma reachable_proposal_inv:
  assumes "NewMemoryStore reg0 = Inr s0" "reaches (proposal_step ev g T) s0 s" "engine_text g" "inj_on DigestBytes T"
  shows "proposal_inv g T s"
  using proposal_system.reachable_inv [OF NewMemoryStore_fresh [OF assms(1)] assms(2)] assms(3,4) by blast

text \<open>A stream in a terminal state is left alone.\<close>

definition rests :: "Engine \<Rightarrow> string set \<Rightarrow> string \<Rightarrow> Entry list \<Rightarrow> string \<Rightarrow> MemoryStore \<Rightarrow> bool" where
  "rests g T ident es st s = (engine_text g \<and> inj_on DigestBytes T \<and> IsTerminal (eg_machine g) st \<and> es \<noteq> [] \<longrightarrow>
     entries_at s (proposal_key ident) = es \<and> committedState s ident = Inr (st, word_of_nat (length es)))"

lemma terminal_stream_step:
  assumes "proposal_inv g T s" "proposal_step ev g T s s'" "engine_text g" "inj_on DigestBytes T" "IsTerminal (eg_machine g) st"
    "entries_at s (proposal_key ident) \<noteq> []" "committedState s ident = Inr (st, n)"
  shows "entries_at s' (proposal_key ident) = entries_at s (proposal_key ident) \<and> committedState s' ident = Inr (st, n)"
proof -
  let ?es = "entries_at s (proposal_key ident)"
  have inv: "ledger_ok (eg_registry g) s" "stream_ok g s ident" using assms(1) by (simp_all add: proposal_inv_def)
  have ext: "extends s s'" using ledger_ok_step [OF inv(1) proposal_step_ledger [OF assms(3,2)]] by simp
  have inv': "proposal_inv g T s'" by (rule proposal_inv_step(1) [OF assms(1-4)])
  have old: "map (event_of s') ?es = map (event_of s) ?es"
  proof -
    have "map_of (ms_content s) (en_digest x) \<noteq> None" if "x \<in> set ?es" for x using inv(1) that by (auto simp: ledger_ok_def backed_def)
    then show ?thesis using event_of_grows [OF ext] by simp
  qed
  consider "entries_at s' (proposal_key ident) = ?es" | e where "entries_at s' (proposal_key ident) = ?es @ [e]"
    using proposal_inv_step(2) [OF assms(1-4)] by blast
  then show ?thesis
  proof cases
    case 1
    with stream_ok_extends(2) [OF ext inv] assms(7) show ?thesis by simp
  next
    case 2
    obtain st1 where run1: "committedState s ident = Inr (st1, word_of_nat (length ?es))" "proposal_run (eg_machine g) (map (event_of s) ?es) st1"
      using inv(2) by (auto simp: stream_ok_def Let_def)
    with assms(7) have run: "proposal_run (eg_machine g) (map (event_of s) ?es) st" by simp
    have "stream_ok g s' ident" using inv' by (simp add: proposal_inv_def)
    then obtain st2 where "proposal_run (eg_machine g) (map (event_of s') (entries_at s' (proposal_key ident))) st2"
      by (auto simp: stream_ok_def Let_def)
    then have "proposal_run (eg_machine g) (map (event_of s) ?es @ [event_of s' e]) st2" using old 2 by (simp del: map_eq_conv)
    with run assms(5,6) have False
      by (cases "map (event_of s) ?es") (auto simp: proposal_run_def replay_from_snoc and_then_Inr IsTerminal_def split: if_splits)
    then show ?thesis ..
  qed
qed

interpretation resting: stable fresh_store "proposal_step ev g T" "\<lambda>s. engine_text g \<and> inj_on DigestBytes T \<longrightarrow> proposal_inv g T s"
  "rests g T ident es st" for ev g T ident es st
proof
  show "rests g T ident es st t" if "engine_text g \<and> inj_on DigestBytes T \<longrightarrow> proposal_inv g T s" "rests g T ident es st s" "proposal_step ev g T s t" for s t
    using terminal_stream_step [OF _ that(3)] that(1,2) unfolding rests_def by auto
qed

subsection \<open>One call\<close>

lemma NextSequence_first:
  assumes "store_ok s"
  shows "NextSequence reg s new_tx LedgerProposal ident = Inr (word_of_nat (length (entries_at s (proposal_key ident))) + 1)"
proof -
  have "numbered (entries_at s (proposal_key ident))" using assms by (simp add: store_ok_def)
  from head_sequence_numbered [OF this] show ?thesis
    using proposal_kind by (simp add: NextSequence_def checkStream_def kind_spec_def Head_def Let_def new_tx_def)
qed

lemma AppendEvent_transition:
  assumes "store_ok s" "readable payload" "map_of payload ''event_sequence'' = Some (GNumber (format_uint (word_of_nat (length (entries_at s (proposal_key ident))) + 1)))"
    "map_of payload ''from_state'' = Some (GString src)" "map_of payload ''to_state'' = Some (GString dst)"
    "map_of payload ''schema_version'' = Some (GString SchemaProposalEvent)" "map_of payload ''activation_sequence'' = None"
    "map_of payload ''event_id'' = Some (GString eid)"
  defines "n \<equiv> word_of_nat (length (entries_at s (proposal_key ident))) + 1"
  defines "d \<equiv> DigestBytes (out (GObject payload))"
  defines "entry \<equiv> \<lparr>en_ledger = LedgerProposal, en_stream = ident, en_seq = n, en_event = eid, en_digest = d\<rparr>"
  shows "AppendEvent reg s LedgerProposal ident eid (mtext (GObject payload)) new_tx =
    (if legalTransition ProposalEventTransitions src dst
     then (Inr entry, new_tx\<lparr>tx_puts := [\<lparr>sc_digest = d, sc_canonical = out (GObject payload)\<rparr>], tx_appends := [entry]\<rparr>)
     else (Inl (newError reg ReasonIllegalStateTransition), new_tx))"
proof -
  obtain m where m: "canonicalize reg (mtext (GObject payload)) = Inr (out (GObject payload), d, Some m)"
    "\<And>k. map_of m k = map_option mcanon (map_of payload k)" unfolding d_def using readable_canonicalize [OF assms(2), of reg] by blast
  have f: "gidx m ''from_state'' = GString src" "gidx m ''to_state'' = GString dst" "gidx m ''schema_version'' = GString SchemaProposalEvent"
    "gidx m ''event_id'' = GString eid" "map_of m ''activation_sequence'' = None" "map_of m ''event_sequence'' = Some (GNumber (format_uint n))"
    using assms(3-8) by (simp_all add: m(2) gidx_def n_def)
  have table: "map_of payloadStateTables SchemaProposalEvent = Some ProposalEventTransitions" by (simp add: payloadStateTables_def)
  have v: "validateEventPayload reg LedgerProposal eid n (mtext (GObject payload)) =
      (if legalTransition ProposalEventTransitions src dst then Inr (out (GObject payload), d) else Inl (newError reg ReasonIllegalStateTransition))"
    using f proposal_kind table
    by (simp add: validateEventPayload_def m(1) kind_spec_def str_or_empty_def AsString_def Let_def check_sequence_field_def scan_uint_format check_state_edge_def)
  show ?thesis
    unfolding AppendEvent_def NextSequence_first [OF assms(1)] n_def [symmetric]
    by (simp add: v entry_def stageContent_def new_tx_def Let_def)
qed

lemma commit_one_event:
  assumes "store_ok s" "isValidDigest (en_digest e)" "en_digest e = DigestBytes c" "en_ledger e = LedgerProposal" "en_event e \<noteq> []"
    "en_seq e = word_of_nat (length (entries_at s (proposal_key (en_stream e)))) + 1" "en_seq e \<noteq> 0"
  shows "\<exists>s'. commit reg (new_tx\<lparr>tx_puts := [\<lparr>sc_digest = en_digest e, sc_canonical = c\<rparr>], tx_appends := [e]\<rparr>) s = (Inr (), s')"
proof -
  obtain u s1 where p: "apply_put reg \<lparr>sc_digest = en_digest e, sc_canonical = c\<rparr> s = (Inr u, s1)"
    using assms(3) by (auto simp: apply_put_def Put_def Let_def)
  have s1: "entries_at s1 k = entries_at s k" for k using entries_kept(1) [OF p] .
  have "check_entry s1 e = Inr (kind_spec [''gms.skill-proposal.v1'', SchemaProposalEvent] False ReasonProposalStateConflict)"
    using assms(2,4,5,7) proposal_kind by (simp add: check_entry_def kind_spec_def)
  then have "\<exists>s2. Append e s1 = (Inr (), s2)" using assms(4,6) by (simp add: Append_def s1 Let_def)
  then obtain us s2 where "apply_append e s1 = (Inr us, s2)"
    using assms(4) proposal_kind by (auto simp: apply_append_def Head_def Let_def)
  with p show ?thesis by (simp add: commit_def apply_tx_def new_tx_def then_phase_def)
qed

lemma event_identity:
  "map_of (event_payload g p src dst n refs) ''event_id'' = Some (GString (''pe-'' @ pr_id p @ ''-'' @ format_uint n))"
  "map_of (event_payload g p src dst n refs) ''activation_sequence'' = None"
  by (simp_all add: event_payload_def)

lemma stageTransition_legal:
  assumes "store_ok s" "engine_text g" "ref_text (Proposal_Ref p)" "valid_text src" "valid_text dst"
    "committedState s (pr_id p) = Inr (current, n)" "n = word_of_nat (length (entries_at s (proposal_key (pr_id p))))"
    "buildEventPayload ev g p src dst (n + 1) [] = Inr payload"
  defines "e \<equiv> transition_entry_of p payload (n + 1)"
  shows "stageTransition ev g s s p src dst [] new_tx =
    (if check_transition (eg_machine g) current n src dst \<noteq> Inr () then (Inl transitionError, new_tx)
     else if \<not> legalTransition ProposalEventTransitions src dst then (Inl (newError (eg_registry g) ReasonIllegalStateTransition), new_tx)
     else (Inr \<lparr>ei_FromState = src, ei_ToState = dst, ei_EventSequence = n + 1, ei_EventID = en_event e, ei_ExpectedPrevSeq = n\<rparr>,
        new_tx\<lparr>tx_puts := [\<lparr>sc_digest = en_digest e, sc_canonical = out (GObject payload)\<rparr>], tx_appends := [e]\<rparr>))"
    "en_event e \<noteq> []"
proof -
  note rd = event_payload_readable [OF assms(3,2,4,5) _ assms(8), simplified]
  define eid where "eid = ''pe-'' @ pr_id p @ ''-'' @ format_uint (n + 1)"
  have fields: "map_of payload ''event_sequence'' = Some (GNumber (format_uint (n + 1)))" "map_of payload ''from_state'' = Some (GString src)"
    "map_of payload ''to_state'' = Some (GString dst)" "map_of payload ''schema_version'' = Some (GString SchemaProposalEvent)"
    "map_of payload ''activation_sequence'' = None" "map_of payload ''event_id'' = Some (GString eid)"
    unfolding eid_def using event_fields event_identity rd(2) by simp_all
  have eid: "stringField payload ''event_id'' = eid" by (simp add: stringField_def gidx_def fields(6) str_or_empty_def AsString_def)
  have data: "marshalJSON payload = Inr (mtext (GObject payload))" using readable_marshal [OF rd(1)] by (simp add: marshalJSON_def)
  have ap: "AppendEvent (eg_registry g) s LedgerProposal (pr_id p) eid (mtext (GObject payload)) new_tx =
    (if legalTransition ProposalEventTransitions src dst
     then (Inr e, new_tx\<lparr>tx_puts := [\<lparr>sc_digest = en_digest e, sc_canonical = out (GObject payload)\<rparr>], tx_appends := [e]\<rparr>)
     else (Inl (newError (eg_registry g) ReasonIllegalStateTransition), new_tx))"
    using AppendEvent_transition [OF assms(1) rd(1) fields(1)[unfolded assms(7)] fields(2-6)] eid
    by (simp add: e_def transition_entry_of_def assms(7))
  have bad: "check_transition m c k a b = Inl err \<Longrightarrow> err = transitionError" for m c k a b err
    by (auto simp: check_transition_def and_then_def check_def split: if_splits)
  show "stageTransition ev g s s p src dst [] new_tx =
    (if check_transition (eg_machine g) current n src dst \<noteq> Inr () then (Inl transitionError, new_tx)
     else if \<not> legalTransition ProposalEventTransitions src dst then (Inl (newError (eg_registry g) ReasonIllegalStateTransition), new_tx)
     else (Inr \<lparr>ei_FromState = src, ei_ToState = dst, ei_EventSequence = n + 1, ei_EventID = en_event e, ei_ExpectedPrevSeq = n\<rparr>,
        new_tx\<lparr>tx_puts := [\<lparr>sc_digest = en_digest e, sc_canonical = out (GObject payload)\<rparr>], tx_appends := [e]\<rparr>))"
    using bad [of "eg_machine g" current n src dst] assms(6,8)
    by (cases "check_transition (eg_machine g) current n src dst")
      (simp_all add: stageTransition_def Let_def data eid ap e_def transition_entry_of_def)
  show "en_event e \<noteq> []" by (simp add: e_def transition_entry_of_def eid eid_def)
qed

lemma transition_appends:
  assumes "proposal_inv g T s" "engine_text g" "inj_on DigestBytes T"
    "ParseProposal ev g doc = Inr p" "ref_text (Proposal_Ref p)" "valid_text src" "valid_text dst"
    "CurrentState s (pr_id p) = Inr (current, n)" "n + 1 \<noteq> 0" "buildEventPayload ev g p src dst (n + 1) [] = Inr payload"
    "out (GObject payload) \<in> T" "check_transition (eg_machine g) current n src dst = Inr ()" "legalTransition ProposalEventTransitions src dst"
  shows "\<exists>info s'. AppendTransition ev g False False doc src dst s = (Inr info, s') \<and> ei_EventSequence info = n + 1 \<and>
      proposal_step ev g T s s' \<and> CurrentState s' (pr_id p) = Inr (dst, n + 1) \<and>
      entries_at s' (proposal_key (pr_id p)) = entries_at s (proposal_key (pr_id p)) @ [transition_entry_of p payload (n + 1)]"
proof -
  note inv = assms(1)
  from assms(1) have ok: "store_ok s" "ledger_ok (eg_registry g) s" "stream_ok g s (pr_id p)" by (simp_all add: proposal_inv_def ledger_ok_def)
  let ?e = "transition_entry_of p payload (n + 1)" and ?m = "eg_machine g"
  let ?tx = "new_tx\<lparr>tx_puts := [\<lparr>sc_digest = en_digest ?e, sc_canonical = out (GObject payload)\<rparr>], tx_appends := [?e]\<rparr>"
  have state: "committedState s (pr_id p) = Inr (current, n)" using assms(8) by (simp add: CurrentState_def)
  have n: "n = word_of_nat (length (entries_at s (proposal_key (pr_id p))))" by (rule committed_length(1) [OF state extends_refl ok(1)])
  note st = stageTransition_legal [OF ok(1) assms(2,5-7) state n assms(10)]
  obtain info where staged: "stageTransition ev g s s p src dst [] new_tx = (Inr info, ?tx)" "ei_EventSequence info = n + 1"
    using st(1) assms(12,13) by simp
  have e: "isValidDigest (en_digest ?e)" "en_digest ?e = DigestBytes (out (GObject payload))" "en_ledger ?e = LedgerProposal"
    "en_stream ?e = pr_id p" "en_seq ?e = n + 1" by (simp_all add: transition_entry_of_def digest_bytes_pattern)
  obtain s' where commit: "commit (eg_registry g) ?tx s = (Inr (), s')"
    using commit_one_event [OF ok(1) e(1-3) st(2), of "eg_registry g"] n assms(9) e(4,5) by auto
  have written: "transition_text ev g s p src dst [] \<in> T" using state assms(10,11) by (simp add: transition_text_def)
  have "proposal_tx ev g T s ?tx"
    by (rule proposal_tx.transition [OF proposal_tx.begin_tx extends_refl assms(5-7) _ written staged(1)]) simp
  moreover have "sc_canonical ` set (tx_puts ?tx) \<subseteq> T" using assms(11) by simp
  ultimately have step: "proposal_step ev g T s s'" using proposal_step.commits commit by (metis snd_conv)
  have call: "AppendTransition ev g False False doc src dst s = (Inr info, s')"
    by (simp add: AppendTransition_def assms(4) WithinTx_def transition_callback_def staged(1) commit)
  have "tx_ok (eg_registry g) ?tx" using staged_ok proposal_tx_staged [OF \<open>proposal_tx ev g T s ?tx\<close> assms(2)] by blast
  from commit_stream(1) [OF ok(1) this commit, of "proposal_key (pr_id p)"]
  have grown: "entries_at s' (proposal_key (pr_id p)) = entries_at s (proposal_key (pr_id p)) @ [?e]"
    using e n by (simp add: on_stream_def add_entry_def new_tx_def)
  have cur: "committedState s' (pr_id p) = Inr (se_to (event_of s' ?e), en_seq ?e)"
    using proposal_inv_step(2) [OF inv step assms(2,3), of "pr_id p"] grown by auto
  have inv': "ledger_ok (eg_registry g) s'" "snd ` set (ms_content s') \<subseteq> T"
    using proposal_inv_step(1) [OF inv step assms(2,3)] by (simp_all add: proposal_inv_def)
  note rd = event_payload_readable [OF assms(5,2,6,7) _ assms(10), simplified]
  have fields: "map_of payload ''from_state'' = Some (GString src)" "map_of payload ''to_state'' = Some (GString dst)"
    using event_fields rd(2) by simp_all
  have "?e \<in> set (entries_at s' (proposal_key (pr_id p)))" using grown by simp
  from read_event(2) [OF inv' assms(3) refl rd(1) fields assms(11) this] cur e(5)
  have "CurrentState s' (pr_id p) = Inr (dst, n + 1)" by (simp add: CurrentState_def)
  with call step staged(2) grown show ?thesis by auto
qed

text \<open>
  C30: one call of \<open>AppendTransition\<close> on a store that the engine and other writers produced. The event is appended exactly when the
  transition is legal in the committed state, for the loaded authority machine and for the table the ledger carries; then it is the next
  event of the stream, the proposal is in the new state and every promise about the stream still holds. Otherwise the store
  is unchanged.
\<close>

theorem transition_exact:
  assumes "NewMemoryStore reg0 = Inr s0" "reaches (proposal_step ev g T) s0 s" "engine_text g" "inj_on DigestBytes T"
    "ParseProposal ev g doc = Inr p" "ref_text (Proposal_Ref p)" "valid_text src" "valid_text dst"
    "CurrentState s (pr_id p) = Inr (current, n)" "n + 1 \<noteq> 0" "buildEventPayload ev g p src dst (n + 1) [] = Inr payload"
    "out (GObject payload) \<in> T"
  shows "if check_transition (eg_machine g) current n src dst = Inr () \<and> legalTransition ProposalEventTransitions src dst
    then \<exists>info s'. AppendTransition ev g False False doc src dst s = (Inr info, s') \<and> ei_EventSequence info = n + 1 \<and>
      proposal_step ev g T s s' \<and> CurrentState s' (pr_id p) = Inr (dst, n + 1)
    else \<exists>e. AppendTransition ev g False False doc src dst s = (Inl e, s)"
proof -
  have inv: "proposal_inv g T s" by (rule reachable_proposal_inv [OF assms(1-4)])
  then have ok: "store_ok s" by (simp add: proposal_inv_def ledger_ok_def)
  have state: "committedState s (pr_id p) = Inr (current, n)" using assms(9) by (simp add: CurrentState_def)
  note st = stageTransition_legal(1) [OF ok assms(3,6-8) state committed_length(1) [OF state extends_refl ok] assms(11)]
  show ?thesis
  proof (cases "check_transition (eg_machine g) current n src dst = Inr () \<and> legalTransition ProposalEventTransitions src dst")
    case True
    with transition_appends [OF inv assms(3-12)] show ?thesis by auto
  next
    case False
    then show ?thesis using st by (auto simp: AppendTransition_def assms(5) WithinTx_def transition_callback_def)
  qed
qed

subsection \<open>A sample\<close>

text \<open>A machine with one final initial state, and schemas without constraints.\<close>

definition sample_stages :: Machine where
  "sample_stages = \<lparr>mc_id = MachineSkillProposal, mc_initial = [(''proposed'', True)], mc_states = [(''proposed'', True)],
     mc_terminal = [(''proposed'', True)], mc_edges = [], mc_triggers = []\<rparr>"

definition open_schema :: gobj where
  "open_schema = [(''x-digest'', GObject [])]"

definition open_schemas :: SchemaSet where
  "open_schemas = \<lparr>ss_dir = [], ss_docs = map (\<lambda>file. (file, open_schema)) [SchemaProposal, SchemaFileProposalEvent], ss_names = []\<rparr>"

definition sample_engine :: Engine where
  "sample_engine = \<lparr>eg_gates = open_schemas, eg_machine = sample_stages, eg_bundleDigest = sample_digest, eg_registry = any_registry\<rparr>"

definition sample_proposal_doc :: gobj where
  "sample_proposal_doc = [(''proposal_id'', GString ''p''), (''proposal_version'', GNumber ''1''), (''proposal_digest'', GString sample_digest)]"

definition sample_proposal :: Proposal where
  "sample_proposal = \<lparr>pr_id = ''p'', pr_version = ''1'', pr_digest = sample_digest, pr_kind = [], pr_operation = [], pr_evidence = [], pr_policyRefs = []\<rparr>"

lemma open_schema_gate:
  assumes "map_of (ss_docs g) key = Some open_schema" "plain (GObject doc)" "map_of doc ''extensions'' = None"
  shows "gate ev g doc key = Inr ()"
proof -
  have "validate ev (doc_view ev g) (GObject doc) open_schema key 0 = Inr ()"
    by (subst validate.simps) (simp add: node_simps open_schema_def maxSchemaDepth_def)
  then have "fst (validateNode ev (GObject doc) open_schema key 0 g) = Inr ()" unfolding verdict .
  then obtain t where "validateNode ev (GObject doc) open_schema key 0 g = (Inr (), t)" by (metis prod.collapse)
  moreover have "checkFloats (GObject doc) = Inr ()" using assms(2) by (simp only: checkFloats_iff plain_def)
  moreover have "map_of open_schema ''$ref'' = None" "map_of open_schema ''x-digest'' = Some (GObject [])" by (simp_all add: open_schema_def)
  ultimately show ?thesis using assms(1,3)
    by (simp add: gate_def ValidateInstance_def check_shape_def st_then_def st_ret_def Schema_doc_def gidx_def AsObject_def
        check_extensions_of_def checkDigestMeta_def str_or_empty_def AsString_def)
qed

lemma open_schema_digest:
  "map_of (ss_docs g) key = Some open_schema \<Longrightarrow> ComputeDigestPreimage g doc key = Inr (DigestBytes (out (GObject [])))"
proof -
  have "DigestOf (GObject []) = Inr (DigestBytes (out (GObject [])))" by (rule DigestOf_hashable) simp
  then show "map_of (ss_docs g) key = Some open_schema \<Longrightarrow> ComputeDigestPreimage g doc key = Inr (DigestBytes (out (GObject [])))"
    by (simp add: ComputeDigestPreimage_def Schema_doc_def open_schema_def gidx_def AsObject_def preimageCore_def arr_or_nil_def AsArray_def)
qed

lemma sample_texts: "valid_text sample_digest" "engine_text sample_engine" "ref_text (Proposal_Ref sample_proposal)" "valid_text ''none''" "valid_text ''proposed''"
proof -
  show d: "valid_text sample_digest" by (rule valid_digest) simp
  show "engine_text sample_engine" using d by (simp add: engine_text_def sample_engine_def sample_stages_def Trigger_def)
  show "ref_text (Proposal_Ref sample_proposal)" using d one_form by (simp add: ref_text_def Proposal_Ref_def sample_proposal_def valid_text_ascii)
qed (simp_all add: valid_text_ascii)

lemma sample_parse: "ParseProposal ev sample_engine (GObject sample_proposal_doc) = Inr sample_proposal"
proof -
  have "gate ev open_schemas sample_proposal_doc SchemaProposal = Inr ()"
    by (rule open_schema_gate) (use one_form in \<open>simp_all add: open_schemas_def sample_proposal_doc_def\<close>)
  then show ?thesis
    by (simp add: ParseProposal_def sample_engine_def AsObject_def sample_proposal_doc_def sample_proposal_def gidx_def arr_or_nil_def AsArray_def
        stringField_def str_or_empty_def AsString_def versionDigits_def)
qed

definition sample_event_payload :: gobj where
  "sample_event_payload = gput ''event_digest'' (GString (DigestBytes (out (GObject []))))
     (event_payload sample_engine sample_proposal ''none'' ''proposed'' 1 [])"

lemma sample_build: "buildEventPayload ev sample_engine sample_proposal ''none'' ''proposed'' 1 [] = Inr sample_event_payload"
proof -
  have forms: "integerForm (format_uint n)" for n by (simp add: format_uint_def format_int_form)
  have "gate ev open_schemas sample_event_payload SchemaFileProposalEvent = Inr ()"
  proof (rule open_schema_gate)
    show "plain (GObject sample_event_payload)"
      using one_form forms by (simp add: sample_event_payload_def event_payload_def versionedRefJSON_def Proposal_Ref_def sample_proposal_def
          authorityRef_def sample_engine_def)
  qed (simp_all add: open_schemas_def sample_event_payload_def event_payload_def)
  moreover have "ComputeDigestPreimage open_schemas doc SchemaFileProposalEvent = Inr (DigestBytes (out (GObject [])))" for doc
    by (rule open_schema_digest) (simp add: open_schemas_def)
  ultimately show ?thesis by (simp add: buildEventPayload_def sample_engine_def sample_event_payload_def Let_def)
qed

abbreviation sample_events :: "string set" where
  "sample_events \<equiv> {out (GObject sample_event_payload)}"

lemma sample_genesis:
  "\<exists>info s'. AppendTransition ev sample_engine False False (GObject sample_proposal_doc) ''none'' ''proposed'' empty_store = (Inr info, s') \<and>
     ei_EventSequence info = 1 \<and> proposal_step ev sample_engine sample_events empty_store s' \<and> CurrentState s' ''p'' = Inr (''proposed'', 1) \<and>
     entries_at s' (proposal_key ''p'') \<noteq> []"
proof -
  have inv: "proposal_inv sample_engine sample_events empty_store"
    by (rule reachable_proposal_inv [OF new_store reaches.start [where step = "proposal_step ev sample_engine sample_events"] sample_texts(2)]) simp
  have legal: "check_transition (eg_machine sample_engine) ''none'' 0 ''none'' ''proposed'' = Inr ()"
    by (simp add: check_transition_Inr sample_engine_def sample_stages_def IsInitial_def flag_def)
  have edge: "legalTransition ProposalEventTransitions ''none'' ''proposed''" by code_simp
  have cur: "CurrentState empty_store (pr_id sample_proposal) = Inr (''none'', 0)"
    by (simp add: CurrentState_def committedState_eq empty_store_def entries_at_def)
  show ?thesis
    using transition_appends [OF inv sample_texts(2) _ sample_parse sample_texts(3-5) cur _ _ _ legal edge] sample_build
    by (fastforce simp: sample_proposal_def)
qed

theorem transition_exact_witness:
  "\<exists>info s'. AppendTransition sample_env sample_engine False False (GObject sample_proposal_doc) ''none'' ''proposed'' empty_store = (Inr info, s') \<and>
     ei_EventSequence info = 1 \<and> CurrentState s' ''p'' = Inr (''proposed'', 1)"
proof -
  have legal: "check_transition (eg_machine sample_engine) ''none'' 0 ''none'' ''proposed'' = Inr ()"
    by (simp add: check_transition_Inr sample_engine_def sample_stages_def IsInitial_def flag_def)
  have edge: "legalTransition ProposalEventTransitions ''none'' ''proposed''" by code_simp
  have cur: "CurrentState empty_store (pr_id sample_proposal) = Inr (''none'', 0)"
    by (simp add: CurrentState_def committedState_eq empty_store_def entries_at_def)
  have build: "buildEventPayload sample_env sample_engine sample_proposal ''none'' ''proposed'' (0 + 1) [] = Inr sample_event_payload"
    using sample_build by simp
  have "inj_on DigestBytes sample_events" by simp
  from transition_exact [OF new_store reaches.start [where step = "proposal_step sample_env sample_engine sample_events"] sample_texts(2) this
      sample_parse sample_texts(3-5) cur _ build] legal edge
  have "\<exists>info s'. AppendTransition sample_env sample_engine False False (GObject sample_proposal_doc) ''none'' ''proposed'' empty_store = (Inr info, s') \<and>
     ei_EventSequence info = 0 + 1 \<and> CurrentState s' (pr_id sample_proposal) = Inr (''proposed'', 0 + 1)" by fastforce
  then show ?thesis by (simp add: sample_proposal_def)
qed

subsection \<open>Properties\<close>

text \<open>
  C11: the committed stream of every proposal is a run of the authority machine. Whatever transactions the engine and other writers commit, in
  any order and staged against any earlier stores, the replay of a stream never fails, its events are numbered 1, 2, 3, \<dots>, the
  first is the one genesis event into an initial state, and each later one is a legal edge from a state that is
  not terminal, ending in the state that \<open>CurrentState\<close> reports.
\<close>

theorem proposal_stream_is_run:
  fixes ident :: string
  assumes "NewMemoryStore reg0 = Inr s0" "reaches (proposal_step ev g T) s0 s" "engine_text g" "inj_on DigestBytes T"
  defines "es \<equiv> entries_at s (proposal_key ident)"
  shows "\<exists>st. CurrentState s ident = Inr (st, word_of_nat (length es)) \<and> proposal_run (eg_machine g) (map (event_of s) es) st \<and>
    (\<forall>i < length es. se_sequence (map (event_of s) es ! i) = int (Suc i))"
proof -
  have inv: "proposal_inv g T s" by (rule reachable_proposal_inv [OF assms(1-4)])
  then have "stream_ok g s ident" by (simp add: proposal_inv_def)
  then obtain st where "CurrentState s ident = Inr (st, word_of_nat (length es))" "proposal_run (eg_machine g) (map (event_of s) es) st"
    by (auto simp: stream_ok_def Let_def CurrentState_def es_def)
  moreover have "numbered es" using inv by (simp add: proposal_inv_def ledger_ok_def store_ok_def es_def)
  then have "\<forall>i < length es. se_sequence (map (event_of s) es ! i) = int (Suc i)"
    by (auto simp: numbered_def event_of_def Let_def uint_nat)
  ultimately show ?thesis by blast
qed

theorem proposal_stream_is_run_witness:
  "\<exists>s st. reaches (proposal_step sample_env sample_engine sample_events) empty_store s \<and> entries_at s (proposal_key ''p'') \<noteq> [] \<and>
     proposal_run sample_stages (map (event_of s) (entries_at s (proposal_key ''p''))) st"
proof -
  obtain s' where s': "proposal_step sample_env sample_engine sample_events empty_store s'" "entries_at s' (proposal_key ''p'') \<noteq> []"
    using sample_genesis by blast
  have "eg_machine sample_engine = sample_stages" by (simp add: sample_engine_def)
  with proposal_stream_is_run [OF new_store reaches_one [where step = "proposal_step sample_env sample_engine sample_events", OF s'(1)]
      sample_texts(2), of "''p''"] s' reaches_one [where step = "proposal_step sample_env sample_engine sample_events", OF s'(1)]
  show ?thesis by auto
qed

text \<open>
  C31: a terminal state is final: once the committed stream of a proposal ends in a terminal state of the machine, no transaction,
  overlapping or later, adds another event to it; a new attempt needs a new proposal.
\<close>

theorem terminal_proposal_is_final:
  assumes "NewMemoryStore reg0 = Inr s0" "reaches (proposal_step ev g T) s0 s" "engine_text g" "inj_on DigestBytes T"
    "CurrentState s ident = Inr (st, n)" "Entries s ident = Inr es" "es \<noteq> []" "IsTerminal (eg_machine g) st" "reaches (proposal_step ev g T) s s'"
  shows "Entries s' ident = Inr es \<and> CurrentState s' ident = Inr (st, n)"
proof -
  have inv: "proposal_inv g T s" by (rule reachable_proposal_inv [OF assms(1-4)])
  have es: "es = entries_at s (proposal_key ident)" using assms(6) proposal_kind by (simp add: Entries_def ledger_Snapshot_def)
  have state: "committedState s ident = Inr (st, n)" using assms(5) by (simp add: CurrentState_def)
  moreover have "stream_ok g s ident" using inv by (simp add: proposal_inv_def)
  ultimately have n: "n = word_of_nat (length es)" by (auto simp: stream_ok_def Let_def es)
  have "rests g T ident es st s" using state n by (simp add: rests_def es)
  with resting.reaches_stable [OF assms(9)] inv have "rests g T ident es st s'" by blast
  with assms(3,4,7,8) n have "entries_at s' (proposal_key ident) = es" "committedState s' ident = Inr (st, n)" by (auto simp: rests_def)
  then show ?thesis using proposal_kind by (simp add: Entries_def ledger_Snapshot_def CurrentState_def)
qed

theorem terminal_proposal_is_final_witness:
  "\<exists>s es. reaches (proposal_step sample_env sample_engine sample_events) empty_store s \<and> es \<noteq> [] \<and> Entries s ''p'' = Inr es \<and>
     CurrentState s ''p'' = Inr (''proposed'', 1)"
proof -
  obtain s' where s': "proposal_step sample_env sample_engine sample_events empty_store s'" "CurrentState s' ''p'' = Inr (''proposed'', 1)"
    "entries_at s' (proposal_key ''p'') \<noteq> []" using sample_genesis by blast
  have r: "reaches (proposal_step sample_env sample_engine sample_events) empty_store s'" by (rule reaches_one) (rule s'(1))
  have en: "Entries s' ''p'' = Inr (entries_at s' (proposal_key ''p''))" using proposal_kind by (simp add: Entries_def ledger_Snapshot_def)
  have "IsTerminal (eg_machine sample_engine) ''proposed''" by (simp add: IsTerminal_def sample_engine_def sample_stages_def flag_def)
  from terminal_proposal_is_final [OF new_store r sample_texts(2) _ s'(2) en s'(3) this reaches.start] r s'(3) show ?thesis by auto
qed

subsection \<open>Errors of the parser\<close>

text \<open>The reference parsers return schema errors with a code, whatever is wrong.\<close>

lemma schema_errors:
  "rejectUnknownFields obj closed aliases = Inl e \<Longrightarrow> \<exists>c. e = SchemaError c \<and> c \<noteq> []" "requireNonEmptyString obj f = Inl e \<Longrightarrow> \<exists>c. e = SchemaError c \<and> c \<noteq> []"
  "requireVersionField obj = Inl e \<Longrightarrow> \<exists>c. e = SchemaError c \<and> c \<noteq> []" "requireEnumField obj f allowed = Inl e \<Longrightarrow> \<exists>c. e = SchemaError c \<and> c \<noteq> []"
  "requireDigestField obj f = Inl e \<Longrightarrow> \<exists>c. e = SchemaError c \<and> c \<noteq> []"
proof -
  have each: "for_each (\<lambda>x. check (P x) (SchemaError c)) xs = Inl e \<Longrightarrow> e = SchemaError c" for P c and xs :: "string list"
    by (induction xs) (auto simp: check_def split: if_splits)
  then show "rejectUnknownFields obj closed aliases = Inl e \<Longrightarrow> \<exists>c. e = SchemaError c \<and> c \<noteq> []"
    by (auto simp: rejectUnknownFields_def and_then_def dest!: each split: sum.splits)
qed (auto simp: requireNonEmptyString_def requireVersionField_def requireEnumField_def requireDigestField_def Let_def split: option.splits if_splits)

lemma ref_parser_errors:
  "ParseVersionedRef obj = Inl e \<Longrightarrow> \<exists>c. e = SchemaError c \<and> c \<noteq> []" "ParseEvidenceRef obj = Inl e \<Longrightarrow> \<exists>c. e = SchemaError c \<and> c \<noteq> []"
proof -
  show v: "ParseVersionedRef obj = Inl e \<Longrightarrow> \<exists>c. e = SchemaError c \<and> c \<noteq> []" for obj
    by (auto simp: ParseVersionedRef_def and_then_def dest: schema_errors split: sum.splits)
  show "ParseEvidenceRef obj = Inl e \<Longrightarrow> \<exists>c. e = SchemaError c \<and> c \<noteq> []"
    by (auto simp: ParseEvidenceRef_def and_then_def check_def dest: schema_errors v split: sum.splits if_splits option.splits)
qed

text \<open>
  a proposal with a malformed evidence reference is refused with an error that carries no reason code: the engine takes the code of the
  parser's error with \<open>validation.CodeOf\<close>, which knows validation errors only, while the parser returns schema errors.
\<close>

theorem evidence_error_without_code:
  assumes "gate ev (eg_gates g) obj SchemaProposal = Inr ()" "arr_or_nil (gidx obj ''evidence_refs'') = good @ GObject bad # rest"
    "\<forall>raw \<in> set good. \<exists>ref. parse_evidence raw = Inr ref" "ParseEvidenceRef bad = Inl e"
  shows "ParseProposal ev g (GObject obj) = Inl (ValidationError []) \<and> (\<exists>c. e = SchemaError c \<and> c \<noteq> [])"
proof -
  obtain c where e: "e = SchemaError c" "c \<noteq> []" using ref_parser_errors(2) [OF assms(4)] by blast
  have bad: "parse_evidence (GObject bad) = Inl (ValidationError [])"
    using assms(4) e(1) by (simp add: parse_evidence_def AsObject_def validationCodeOf_def)
  have "traverse parse_evidence (good @ GObject bad # rest) = Inl (ValidationError [])"
    using assms(3) by (induction good) (auto simp: bad)
  with assms(1,2) e show ?thesis by (simp add: ParseProposal_def AsObject_def)
qed

theorem evidence_error_without_code_witness:
  "ParseProposal sample_env sample_engine (GObject (sample_proposal_doc @ [(''evidence_refs'', GArray [GObject []])])) = Inl (ValidationError [])"
proof -
  let ?obj = "sample_proposal_doc @ [(''evidence_refs'', GArray [GObject []])]"
  have "gate sample_env open_schemas ?obj SchemaProposal = Inr ()"
    by (rule open_schema_gate) (use one_form in \<open>simp_all add: open_schemas_def sample_proposal_doc_def\<close>)
  then have g: "gate sample_env (eg_gates sample_engine) ?obj SchemaProposal = Inr ()" by (simp add: sample_engine_def)
  have "ParseEvidenceRef [] = Inl (SchemaError ReasonSchemaVersionUnsupported)"
    by (simp add: ParseEvidenceRef_def rejectUnknownFields_def gidx_def str_or_empty_def AsString_def)
  from evidence_error_without_code [OF g _ _ this, of "[]" "[]"] show ?thesis
    by (simp add: sample_proposal_doc_def gidx_def arr_or_nil_def AsArray_def)
qed

end
