(* ===== verification/Activation.thy ===== *)
theory Activation
  imports Proposal_Facts Go_Strings
begin

text \<open>
  The release service (\<^verbatim>\<open>internal/skillevolution/activation\<close>: \<^verbatim>\<open>service.go\<close>, \<^verbatim>\<open>transaction.go\<close>): the guards of an activation, a
  deactivation and a reactivation, the read models replayed from the ledger, the builders of the mapping record and of the
  activation event, and the three transactions. A transaction callback takes a function \<open>rd\<close> that gives the store each of its reads
  sees, since other transactions commit while it runs.
\<close>

subsection \<open>Names\<close>

abbreviation SchemaFileReleaseDecision :: string where "SchemaFileReleaseDecision \<equiv> ''release-decision.schema.json''"
abbreviation SchemaFileActivationEvent :: string where "SchemaFileActivationEvent \<equiv> ''activation-event.schema.json''"
abbreviation SchemaFileDeactivationEvent :: string where "SchemaFileDeactivationEvent \<equiv> ''deactivation-event.schema.json''"
abbreviation SchemaReleaseMapping :: string where "SchemaReleaseMapping \<equiv> ''gms.release-mapping.v1''"
abbreviation EventTypeActivate :: string where "EventTypeActivate \<equiv> ''activate''"
abbreviation EventTypeDeactivate :: string where "EventTypeDeactivate \<equiv> ''deactivate''"
abbreviation ReleaseAccepted :: string where "ReleaseAccepted \<equiv> ''accepted''"
abbreviation StateActivationPending :: string where "StateActivationPending \<equiv> ''activation_pending''"
abbreviation StateReleased :: string where "StateReleased \<equiv> ''released''"
abbreviation ProjectionTargetRuntime :: string where "ProjectionTargetRuntime \<equiv> ''runtime''"
abbreviation activationStreamKey :: string where "activationStreamKey \<equiv> ''activation''"
abbreviation LedgerEvaluation :: string where "LedgerEvaluation \<equiv> ''evaluation''"
abbreviation LedgerCandidate :: string where "LedgerCandidate \<equiv> ''candidate''"
abbreviation HeadSkillActive :: string where "HeadSkillActive \<equiv> ''skill-active''"
abbreviation HeadLineageVersion :: string where "HeadLineageVersion \<equiv> ''lineage-version''"
abbreviation HeadActivationSequence :: string where "HeadActivationSequence \<equiv> ''activation-sequence''"

definition activationEventTypes :: "string list" where
  "activationEventTypes = [EventTypeActivate, EventTypeDeactivate]"

abbreviation ReasonReleaseDecisionInvalid :: string where "ReasonReleaseDecisionInvalid \<equiv> ''RELEASE_DECISION_INVALID''"
abbreviation ReasonReleaseNotAccepted :: string where "ReasonReleaseNotAccepted \<equiv> ''RELEASE_NOT_ACCEPTED''"
abbreviation ReasonCandidateReleasedBodyMismatch :: string where "ReasonCandidateReleasedBodyMismatch \<equiv> ''CANDIDATE_RELEASED_BODY_MISMATCH''"
abbreviation ReasonCandidateNotFound :: string where "ReasonCandidateNotFound \<equiv> ''CANDIDATE_NOT_FOUND''"
abbreviation ReasonSkillKindInvalid :: string where "ReasonSkillKindInvalid \<equiv> ''SKILL_KIND_INVALID''"
abbreviation ReasonLineageKindMismatch :: string where "ReasonLineageKindMismatch \<equiv> ''LINEAGE_KIND_MISMATCH''"
abbreviation ReasonPermissionCapExceeded :: string where "ReasonPermissionCapExceeded \<equiv> ''PERMISSION_CAP_EXCEEDED''"
abbreviation ReasonProbationUnsupported :: string where "ReasonProbationUnsupported \<equiv> ''PROBATION_UNSUPPORTED''"
abbreviation ReasonDeactivationAuthorizationInvalid :: string where "ReasonDeactivationAuthorizationInvalid \<equiv> ''DEACTIVATION_AUTHORIZATION_INVALID''"
abbreviation ReasonReactivationAuthorizationRequired :: string where "ReasonReactivationAuthorizationRequired \<equiv> ''REACTIVATION_AUTHORIZATION_REQUIRED''"
abbreviation ReasonNoActiveHead :: string where "ReasonNoActiveHead \<equiv> ''NO_ACTIVE_HEAD''"
abbreviation ReasonArtifactBodyInvalid :: string where "ReasonArtifactBodyInvalid \<equiv> ''ARTIFACT_BODY_INVALID''"

definition activation_codes :: "string list" where
  "activation_codes =
     [ReasonReleaseDecisionInvalid, ReasonReleaseNotAccepted, ReasonCandidateReleasedBodyMismatch, ReasonCandidateNotFound,
      ReasonSkillKindInvalid, ReasonLineageKindMismatch, ReasonPermissionCapExceeded, ReasonProbationUnsupported,
      ReasonDeactivationAuthorizationInvalid, ReasonReactivationAuthorizationRequired, ReasonNoActiveHead, ReasonProposalInvalid,
      ReasonArtifactBodyInvalid, ReasonProposalStateConflict, ReasonRefMismatch, ReasonDigestMismatch, ReasonActiveHeadConflict,
      ReasonLineageVersionConflict, ReasonActivationSequenceConflict, ReasonActivationEventInvalid, ReasonIdempotencyConflict]"

abbreviation aerr :: "string \<Rightarrow> go_error" where
  "aerr c \<equiv> ActivationError c"

definition activationCodeOf :: "go_error option \<Rightarrow> string" where
  "activationCodeOf err =
     (case err of
        None \<Rightarrow> []
      | Some (ActivationError c) \<Rightarrow> c
      | Some e \<Rightarrow>
          if ReasonOf e \<noteq> [] then ReasonOf e
          else if validationCodeOf (Some e) \<noteq> [] then validationCodeOf (Some e)
          else (case e of SchemaError c \<Rightarrow> c | _ \<Rightarrow> []))"

subsection \<open>Ports, service and requests\<close>

text \<open>What the decision and candidate ports answer; a nil port, a nil document and a nil body are None.\<close>

record ReleaseDecision =
  rd_Outcome :: string
  rd_DecisionDigest :: string
  rd_Doc :: "gobj option"

record CandidateView =
  cv_Ref :: CandidateArtifactRef
  cv_BodyDigest :: string
  cv_CanonicalBody :: "string option"

type_synonym DeactivationAuthorizer = "VersionedRef \<Rightarrow> string \<Rightarrow> SkillArtifactRef \<Rightarrow> unit res"

definition denyAllDeactivations :: DeactivationAuthorizer where
  "denyAllDeactivations auth lineageID skill = Inl PlainError"

record ActivationService =
  as_registry :: registry
  as_gates :: SchemaSet
  as_proposals :: Engine
  as_authorizer :: DeactivationAuthorizer

text \<open>The flags say whether a store and a transaction manager are wired.\<close>

definition NewActivationService :: "bool \<Rightarrow> bool \<Rightarrow> registry \<Rightarrow> SchemaSet option \<Rightarrow> Engine option \<Rightarrow> DeactivationAuthorizer option \<Rightarrow>
    ActivationService res" where
  "NewActivationService has_store has_tx registry gates proposals authorizer =
     (case (registry, gates, proposals) of
        (Some verify, Some g, Some p) \<Rightarrow>
          if \<not> has_store \<or> \<not> has_tx then Inl PlainError
          else
            and_then (for_each (\<lambda>code. case verify code of Inl _ \<Rightarrow> Inl PlainError | Inr _ \<Rightarrow> Inr ()) activation_codes) (\<lambda>_.
            Inr \<lparr>as_registry = registry, as_gates = g, as_proposals = p,
                 as_authorizer = (case authorizer of None \<Rightarrow> denyAllDeactivations | Some a \<Rightarrow> a)\<rparr>)
      | _ \<Rightarrow> Inl PlainError)"

record ActivateRequest =
  aq_Decision :: "ReleaseDecision option"
  aq_Candidate :: "CandidateView option"
  aq_LineageID :: string
  aq_ExpectedHead :: "SkillArtifactRef option"
  aq_ProposalDoc :: gv

record ReleaseResult =
  rl_ReleasedRef :: SkillArtifactRef
  rl_ActivationSequence :: uint64
  rl_EventID :: string
  rl_EventDigest :: string
  rl_OutboxKey :: string
  rl_PreviousActiveRef :: "SkillArtifactRef option"
  rl_Replayed :: bool

record DeactivateRequest =
  dq_LineageID :: string
  dq_SkillRef :: SkillArtifactRef
  dq_Authorization :: VersionedRef

record DeactivationResult =
  dr_DeactivatedRef :: SkillArtifactRef
  dr_ActivationSequence :: uint64
  dr_EventID :: string
  dr_EventDigest :: string
  dr_OutboxKey :: string
  dr_Replayed :: bool

record ReactivateRequest =
  xq_Decision :: "ReleaseDecision option"
  xq_ReleasedRef :: SkillArtifactRef
  xq_ExpectedHead :: "SkillArtifactRef option"

record decisionView =
  dv_id :: string
  dv_version :: string
  dv_digest :: string
  dv_outcome :: string
  dv_candidate :: CandidateArtifactRef
  dv_doc :: gobj

subsection \<open>Decision and candidate guards\<close>

definition jsonDigits :: "gv \<Rightarrow> string" where
  "jsonDigits v = (case v of GNumber n \<Rightarrow> n | _ \<Rightarrow> [])"

definition parseDecision :: "env \<Rightarrow> ActivationService \<Rightarrow> ReleaseDecision option \<Rightarrow> decisionView res" where
  "parseDecision ev s dec =
     (case dec of
        None \<Rightarrow> Inl (aerr ReasonReleaseDecisionInvalid)
      | Some d \<Rightarrow>
          (case rd_Doc d of
             None \<Rightarrow> Inl (aerr ReasonReleaseDecisionInvalid)
           | Some doc \<Rightarrow>
               (case gate ev (as_gates s) doc SchemaFileReleaseDecision of
                  Inl e \<Rightarrow>
                    if validationCodeOf (Some e) = ReasonDigestMismatch then Inl (aerr ReasonDigestMismatch)
                    else Inl (aerr ReasonReleaseDecisionInvalid)
                | Inr _ \<Rightarrow>
                    let digest = str_or_empty (gidx doc ''decision_digest'') in
                    if rd_DecisionDigest d \<noteq> digest then Inl (aerr ReasonRefMismatch)
                    else
                      (case ParseCandidateArtifactRef (obj_or_nil (gidx doc ''candidate_ref'')) of
                         Inl _ \<Rightarrow> Inl (aerr ReasonReleaseDecisionInvalid)
                       | Inr cand \<Rightarrow>
                           Inr \<lparr>dv_id = str_or_empty (gidx doc ''decision_id''),
                                dv_version = (case map_of doc ''decision_version'' of None \<Rightarrow> [] | Some n \<Rightarrow> jsonDigits n),
                                dv_digest = digest, dv_outcome = str_or_empty (gidx doc ''outcome''), dv_candidate = cand, dv_doc = doc\<rparr>))))"

text \<open>\<open>body == nil\<close> checks only the committed bytes.\<close>

definition verifyBodyEquality :: "MemoryStore \<Rightarrow> CandidateArtifactRef \<Rightarrow> string option \<Rightarrow> unit res" where
  "verifyBodyEquality store candRef body =
     (let mismatch = aerr ReasonCandidateReleasedBodyMismatch in
      and_then (case body of None \<Rightarrow> Inr () | Some b \<Rightarrow> check (DigestBytes b = car_body_digest candRef) mismatch) (\<lambda>_.
      (case Get store (car_body_digest candRef) of
         None \<Rightarrow> Inl mismatch
       | Some stored \<Rightarrow>
           and_then (check (DigestBytes stored = car_body_digest candRef) mismatch) (\<lambda>_.
           (case body of
              None \<Rightarrow> Inr ()
            | Some b \<Rightarrow>
                and_then (check (stored = b) mismatch) (\<lambda>_.
                (case ParseJSONStrict stored of
                   Inl _ \<Rightarrow> Inl (aerr ReasonArtifactBodyInvalid)
                 | Inr val \<Rightarrow> CheckPermissionsWalked val)))))))"

definition findCandidate :: "MemoryStore \<Rightarrow> string \<Rightarrow> (CandidateArtifactRef option) res" where
  "findCandidate store candidateID =
     and_then (ledger_Snapshot store LedgerCandidate []) (\<lambda>entries.
     (case find (\<lambda>entry. en_event entry = candidateID) entries of
        None \<Rightarrow> Inr None
      | Some entry \<Rightarrow>
          (case Get store (en_digest entry) of
             None \<Rightarrow> Inl (aerr ReasonDigestMismatch)
           | Some payload \<Rightarrow>
               (case ParseJSONStrict payload of
                  Inl _ \<Rightarrow> Inl (aerr ReasonDigestMismatch)
                | Inr val \<Rightarrow>
                    (case ParseCandidateArtifactRef (obj_or_nil val) of
                       Inl _ \<Rightarrow> Inl (aerr ReasonDigestMismatch)
                     | Inr ref \<Rightarrow> Inr (Some ref))))))"

definition resolveMapping :: "MemoryStore \<Rightarrow> string \<Rightarrow> gobj res" where
  "resolveMapping store digest =
     (case Get store digest of
        None \<Rightarrow> Inl (aerr ReasonLineageVersionConflict)
      | Some raw \<Rightarrow>
          (case ParseJSONStrict raw of
             Inl _ \<Rightarrow> Inl (aerr ReasonDigestMismatch)
           | Inr val \<Rightarrow>
               (case AsObject val of
                  None \<Rightarrow> Inl (aerr ReasonDigestMismatch)
                | Some obj \<Rightarrow>
                    and_then (check (str_or_empty (gidx obj ''schema_version'') = SchemaReleaseMapping) (aerr ReasonDigestMismatch)) (\<lambda>_.
                    Inr obj))))"

text \<open>A mapping that does not resolve skips the check.\<close>

definition checkLineageKind :: "MemoryStore \<Rightarrow> string \<Rightarrow> string \<Rightarrow> unit res" where
  "checkLineageKind store lineageID kind =
     and_then (GetHead store HeadLineageVersion lineageID) (\<lambda>head.
     (case head of
        None \<Rightarrow> Inr ()
      | Some h \<Rightarrow>
          (case resolveMapping store (hs_digest h) of
             Inl _ \<Rightarrow> Inr ()
           | Inr mapping \<Rightarrow> check (str_or_empty (gidx mapping ''kind'') = kind) (aerr ReasonLineageKindMismatch))))"

definition parseOriginProposal :: "env \<Rightarrow> ActivationService \<Rightarrow> CandidateArtifactRef \<Rightarrow> gv \<Rightarrow> Proposal res" where
  "parseOriginProposal ev s candRef doc =
     (if car_origin_type candRef \<noteq> ''skill_proposal'' then Inl (aerr ReasonProposalInvalid)
      else if doc = GNil then Inl (aerr ReasonProposalInvalid)
      else
        (case ParseProposal ev (as_proposals s) doc of
           Inl _ \<Rightarrow> Inl (aerr ReasonProposalInvalid)
         | Inr parsed \<Rightarrow> if Proposal_Ref parsed \<noteq> car_origin_ref candRef then Inl (aerr ReasonRefMismatch) else Inr parsed))"

subsection \<open>The state of a lineage\<close>

record lineageState =
  ls_active :: "SkillArtifactRef option"
  ls_headSeq :: uint64
  ls_headDigest :: string

definition no_lineage :: lineageState where
  "no_lineage = \<lparr>ls_active = None, ls_headSeq = 0, ls_headDigest = []\<rparr>"

text \<open>One entry of the global stream, for one lineage.\<close>

definition advance_lineage :: "string \<Rightarrow> MemoryStore \<Rightarrow> Entry \<Rightarrow> lineageState \<Rightarrow> lineageState res" where
  "advance_lineage lineageID store entry state =
     (let torn = aerr ReasonActivationEventInvalid in
      case Get store (en_digest entry) of
        None \<Rightarrow> Inl torn
      | Some payload \<Rightarrow>
          (case ParseJSONStrict payload of
             Inl _ \<Rightarrow> Inl torn
           | Inr val \<Rightarrow>
               (case JCS (NormalizeForHashing val) of
                  Inl _ \<Rightarrow> Inl torn
                | Inr canonical \<Rightarrow>
                    if DigestBytes canonical \<noteq> en_digest entry then Inl torn
                    else
                      let obj = obj_or_nil val in
                      if str_or_empty (gidx obj ''lineage_id'') \<noteq> lineageID then Inr state
                      else
                        let eventType = str_or_empty (gidx obj ''event_type'') in
                        if eventType = EventTypeActivate then
                          (case ParseSkillArtifactRef (obj_or_nil (gidx obj ''skill_ref'')) of
                             Inl _ \<Rightarrow> Inl torn
                           | Inr ref \<Rightarrow>
                               Inr \<lparr>ls_active = Some ref, ls_headSeq = ls_headSeq state + 1, ls_headDigest = sar_artifact_digest ref\<rparr>)
                        else if eventType = EventTypeDeactivate then
                          Inr \<lparr>ls_active = None, ls_headSeq = ls_headSeq state + 1, ls_headDigest = en_digest entry\<rparr>
                        else Inl (aerr ReasonProbationUnsupported))))"

definition replayLineage :: "MemoryStore \<Rightarrow> string \<Rightarrow> lineageState res" where
  "replayLineage store lineageID =
     and_then (ledger_Snapshot store LedgerActivation []) (\<lambda>entries.
     replay_entries (advance_lineage lineageID store) entries no_lineage)"

definition ActiveRevision :: "MemoryStore \<Rightarrow> string \<Rightarrow> (SkillArtifactRef option) res" where
  "ActiveRevision store lineageID = and_then (replayLineage store lineageID) (\<lambda>state. Inr (ls_active state))"

definition expectActiveHead :: "lineageState \<Rightarrow> SkillArtifactRef option \<Rightarrow> unit res" where
  "expectActiveHead state expected =
     (case expected of
        None \<Rightarrow> check (ls_active state = None) (aerr ReasonActiveHeadConflict)
      | Some ref \<Rightarrow>
          (case ls_active state of
             None \<Rightarrow> Inl (aerr ReasonActiveHeadConflict)
           | Some active \<Rightarrow> check (active = ref) (aerr ReasonActiveHeadConflict)))"

subsection \<open>Versions and mappings\<close>

definition nextVersion :: "MemoryStore \<Rightarrow> string \<Rightarrow> (uint64 \<times> uint64 \<times> string) res" where
  "nextVersion store lineageID =
     and_then (GetHead store HeadLineageVersion lineageID) (\<lambda>head.
     (case head of
        None \<Rightarrow> Inr (1, 0, [])
      | Some h \<Rightarrow>
          if hs_seq h = 0 \<or> hs_digest h = [] then Inl (aerr ReasonLineageVersionConflict)
          else Inr (hs_seq h + 1, hs_seq h, hs_digest h)))"

text \<open>The loop of \<open>findMappingForVersion\<close>, at most \<open>hops\<close> records deep; the code allows $2^{20}$.\<close>

fun walk_mappings :: "MemoryStore \<Rightarrow> string \<Rightarrow> nat \<Rightarrow> string \<Rightarrow> (gobj option) res" where
  "walk_mappings store version 0 digest = Inr None"
| "walk_mappings store version (Suc hops) digest =
     (if digest = [] then Inr None
      else
        (case resolveMapping store digest of
           Inl e \<Rightarrow> Inl e
         | Inr mapping \<Rightarrow>
             if jsonDigits (gidx mapping ''version'') = version then Inr (Some mapping)
             else walk_mappings store version hops (str_or_empty (gidx mapping ''previous_mapping_digest''))))"

definition max_hops :: nat where
  "max_hops = 2 ^ 20"

definition findMappingForVersion :: "MemoryStore \<Rightarrow> string \<Rightarrow> string \<Rightarrow> (gobj option) res" where
  "findMappingForVersion store lineageID version =
     and_then (GetHead store HeadLineageVersion lineageID) (\<lambda>head.
     (case head of
        None \<Rightarrow> Inr None
      | Some h \<Rightarrow> walk_mappings store version max_hops (hs_digest h)))"

definition marshalDoc :: "gobj \<Rightarrow> string res" where
  "marshalDoc doc = (case marshal (GObject doc) of Inl _ \<Rightarrow> Inl (aerr ReasonActivationEventInvalid) | Inr data \<Rightarrow> Inr data)"

definition mapping_doc :: "string \<Rightarrow> uint64 \<Rightarrow> SkillArtifactRef \<Rightarrow> CandidateArtifactRef \<Rightarrow> VersionedRef \<Rightarrow> string \<Rightarrow> gobj" where
  "mapping_doc lineageID version released cand decision previousMappingDigest =
     [(''schema_version'', GString SchemaReleaseMapping),
      (''lineage_id'', GString lineageID),
      (''version'', GNumber (format_uint version)),
      (''kind'', GString (sar_kind released)),
      (''released_ref'', GObject (skillRefDoc released)),
      (''candidate_ref'', GObject (candidateRefDoc cand)),
      (''release_decision_ref'', GObject (versionedRefDoc decision)),
      (''body_digest_equal'', GBool True)] @
     (if previousMappingDigest \<noteq> [] then [(''previous_mapping_digest'', GString previousMappingDigest)] else [])"

definition buildMappingRecord :: "string \<Rightarrow> uint64 \<Rightarrow> SkillArtifactRef \<Rightarrow> CandidateArtifactRef \<Rightarrow> VersionedRef \<Rightarrow> string \<Rightarrow>
    (gobj \<times> string) res" where
  "buildMappingRecord lineageID version released cand decision previousMappingDigest =
     (let doc = mapping_doc lineageID version released cand decision previousMappingDigest in
      case marshal (GObject doc) of
        Inl _ \<Rightarrow> Inl (aerr ReasonDigestMismatch)
      | Inr data \<Rightarrow> Inr (doc, data))"

subsection \<open>The activation event\<close>

record activationEventSpec =
  sp_eventType :: string
  sp_eventID :: string
  sp_sequence :: uint64
  sp_lineageID :: string
  sp_skillRef :: SkillArtifactRef
  sp_previousActiveRef :: "SkillArtifactRef option"
  sp_releaseDecisionRef :: "VersionedRef option"
  sp_deactivationAuthorizationRef :: "VersionedRef option"
  sp_candidateRef :: "CandidateArtifactRef option"
  sp_bodyDigestEqual :: "bool option"
  sp_derivedFromRefs :: "SkillArtifactRef list"
  sp_expectedActiveHead :: "SkillArtifactRef option"
  sp_outboxKey :: string

definition opt_field :: "string \<Rightarrow> ('a \<Rightarrow> gv) \<Rightarrow> 'a option \<Rightarrow> gobj" where
  "opt_field key render v = (case v of None \<Rightarrow> [] | Some x \<Rightarrow> [(key, render x)])"

definition activation_payload :: "activationEventSpec \<Rightarrow> gobj" where
  "activation_payload spec =
     [(''schema_version'', GString SchemaActivationEvent),
      (''activation_sequence'', GNumber (format_uint (sp_sequence spec))),
      (''event_id'', GString (sp_eventID spec)),
      (''event_type'', GString (sp_eventType spec)),
      (''lineage_id'', GString (sp_lineageID spec)),
      (''skill_ref'', GObject (skillRefDoc (sp_skillRef spec)))] @
     opt_field ''previous_active_ref'' (\<lambda>ref. GObject (skillRefDoc ref)) (sp_previousActiveRef spec) @
     opt_field ''release_decision_ref'' (\<lambda>ref. GObject (versionedRefDoc ref)) (sp_releaseDecisionRef spec) @
     opt_field ''deactivation_authorization_ref'' (\<lambda>ref. GObject (versionedRefDoc ref)) (sp_deactivationAuthorizationRef spec) @
     opt_field ''candidate_ref'' (\<lambda>ref. GObject (candidateRefDoc ref)) (sp_candidateRef spec) @
     opt_field ''body_digest_equal'' GBool (sp_bodyDigestEqual spec) @
     (if length (sp_derivedFromRefs spec) > 0
      then [(''derived_from_refs'', GArray (map (\<lambda>ref. GObject (skillRefDoc ref)) (sp_derivedFromRefs spec)))] else []) @
     opt_field ''expected_active_head'' (\<lambda>ref. GObject (skillRefDoc ref)) (sp_expectedActiveHead spec) @
     [(''outbox_key'', GString (sp_outboxKey spec))]"

definition buildActivationEvent :: "env \<Rightarrow> ActivationService \<Rightarrow> activationEventSpec \<Rightarrow> (gobj \<times> string) res" where
  "buildActivationEvent ev s spec =
     and_then (check (sp_eventType spec \<in> set activationEventTypes) (aerr ReasonProbationUnsupported)) (\<lambda>_.
     and_then (check (sp_eventID spec \<noteq> []) (aerr ReasonActivationEventInvalid)) (\<lambda>_.
     and_then (check (sp_outboxKey spec \<noteq> []) (aerr ReasonActivationEventInvalid)) (\<lambda>_.
     let payload = activation_payload spec;
         schemaFile = (if sp_eventType spec = EventTypeDeactivate then SchemaFileDeactivationEvent else SchemaFileActivationEvent) in
     (case ComputeDigestPreimage (as_gates s) payload schemaFile of
        Inl _ \<Rightarrow> Inl (aerr ReasonActivationEventInvalid)
      | Inr digest \<Rightarrow>
          let sealed = gput ''event_digest'' (GString digest) payload in
          (case gate ev (as_gates s) sealed schemaFile of
             Inl _ \<Rightarrow> Inl (aerr ReasonActivationEventInvalid)
           | Inr _ \<Rightarrow> Inr (sealed, digest))))))"

definition deriveOutboxKey :: "string \<Rightarrow> string \<Rightarrow> uint64 \<Rightarrow> string res" where
  "deriveOutboxKey op identity sequence =
     DigestOf (GObject [(''outbox_for'', GString op), (''identity'', GString identity), (''activation_sequence'', GNumber (format_uint sequence))])"

fun deepCopyValue :: "gv \<Rightarrow> gv" where
  "deepCopyValue (GObject m) = GObject (map (\<lambda>p. (fst p, deepCopyValue (snd p))) m)"
| "deepCopyValue (GArray vs) = GArray (map deepCopyValue vs)"
| "deepCopyValue v = v"

definition payloadDigest :: "gobj \<Rightarrow> string res" where
  "payloadDigest payload =
     (case JCS (NormalizeForHashing (deepCopyValue (GObject payload))) of
        Inl _ \<Rightarrow> Inl (aerr ReasonActivationEventInvalid)
      | Inr canonical \<Rightarrow> Inr (DigestBytes canonical))"

definition expectedHeadDigestInput :: "SkillArtifactRef option \<Rightarrow> gv" where
  "expectedHeadDigestInput expected = (case expected of None \<Rightarrow> GNil | Some ref \<Rightarrow> GObject (skillRefDoc ref))"

definition previousHeadDoc :: "SkillArtifactRef option \<Rightarrow> gv" where
  "previousHeadDoc active = (case active of None \<Rightarrow> GNil | Some ref \<Rightarrow> GObject (skillRefDoc ref))"

subsection \<open>The recorded outcome\<close>

definition digitsOf :: "gv \<Rightarrow> uint64" where
  "digitsOf v = (case v of GNumber n \<Rightarrow> (case ParseUint n of None \<Rightarrow> 0 | Some u \<Rightarrow> word_of_nat u) | _ \<Rightarrow> 0)"

definition outcome_doc :: "SkillArtifactRef \<Rightarrow> uint64 \<Rightarrow> string \<Rightarrow> string \<Rightarrow> string \<Rightarrow> SkillArtifactRef option \<Rightarrow> gobj" where
  "outcome_doc released sequence eventID eventDigest outboxKey previous =
     [(''released_ref'', GObject (skillRefDoc released)), (''activation_sequence'', GNumber (format_uint sequence)),
      (''event_id'', GString eventID), (''event_digest'', GString eventDigest), (''outbox_key'', GString outboxKey),
      (''previous_active_head'', previousHeadDoc previous)]"

definition decodeReleaseResult :: "string \<Rightarrow> ReleaseResult res" where
  "decodeReleaseResult recorded =
     (case ParseJSONStrict recorded of
        Inl _ \<Rightarrow> Inl (aerr ReasonDigestMismatch)
      | Inr val \<Rightarrow>
          let obj = obj_or_nil val in
          (case ParseSkillArtifactRef (obj_or_nil (gidx obj ''released_ref'')) of
             Inl _ \<Rightarrow> Inl (aerr ReasonDigestMismatch)
           | Inr ref \<Rightarrow>
               Inr \<lparr>rl_ReleasedRef = ref, rl_ActivationSequence = digitsOf (gidx obj ''activation_sequence''),
                    rl_EventID = str_or_empty (gidx obj ''event_id''), rl_EventDigest = str_or_empty (gidx obj ''event_digest''),
                    rl_OutboxKey = str_or_empty (gidx obj ''outbox_key''),
                    rl_PreviousActiveRef =
                      (case AsObject (gidx obj ''previous_active_head'') of
                         None \<Rightarrow> None
                       | Some prevObj \<Rightarrow> (case ParseSkillArtifactRef prevObj of Inl _ \<Rightarrow> None | Inr prev \<Rightarrow> Some prev)),
                    rl_Replayed = True\<rparr>))"

subsection \<open>Steps of a callback\<close>

text \<open>A step may fail and then the callback returns; a guard that stages nothing is lifted with \<open>tx_pure\<close>.\<close>

definition tx_then :: "'a res \<times> Tx \<Rightarrow> ('a \<Rightarrow> Tx \<Rightarrow> 'b res \<times> Tx) \<Rightarrow> 'b res \<times> Tx" where
  "tx_then m f = (case m of (Inl e, tx) \<Rightarrow> (Inl e, tx) | (Inr a, tx) \<Rightarrow> f a tx)"

definition tx_pure :: "'a res \<Rightarrow> Tx \<Rightarrow> ('a \<Rightarrow> Tx \<Rightarrow> 'b res \<times> Tx) \<Rightarrow> 'b res \<times> Tx" where
  "tx_pure r tx f = tx_then (r, tx) f"

text \<open>\<open>WithinTx\<close> around a callback that leaves a result in a variable of its caller.\<close>

definition within_tx :: "registry \<Rightarrow> bool \<Rightarrow> bool \<Rightarrow> (MemoryStore \<Rightarrow> Tx \<Rightarrow> 'a res \<times> Tx) \<Rightarrow> MemoryStore \<Rightarrow> 'a res \<times> MemoryStore" where
  "within_tx registry cancelled cancelled_later callback store =
     (case WithinTx registry cancelled cancelled_later
             (\<lambda>s tx. case callback s tx of (Inl e, tx') \<Rightarrow> (Inl e, tx') | (Inr _, tx') \<Rightarrow> (Inr (), tx')) store of
        (Inl e, store') \<Rightarrow> (Inl e, store')
      | (Inr _, store') \<Rightarrow> (fst (callback store new_tx), store'))"

definition swap_op :: "string \<Rightarrow> string \<Rightarrow> uint64 \<Rightarrow> string \<Rightarrow> uint64 \<Rightarrow> string \<Rightarrow> stagedCAS" where
  "swap_op kind key expectedSeq expectedDigest newSeq newDigest =
     \<lparr>cas_kind = kind, cas_key = key, cas_expected_seq = expectedSeq, cas_expected_digest = expectedDigest, cas_new_seq = newSeq,
      cas_new_digest = newDigest\<rparr>"

text \<open>The head of the activation ledger as \<open>Head\<close> returns it, the zero entry when there is none.\<close>

definition ledger_head :: "MemoryStore \<Rightarrow> (uint64 \<times> string) res" where
  "ledger_head store =
     and_then (Head store LedgerActivation []) (\<lambda>head.
     Inr (case head of None \<Rightarrow> (0, []) | Some e \<Rightarrow> (en_seq e, en_digest e)))"

text \<open>What a callback has read and built before it stages anything.\<close>

record eventArtifacts =
  ea_state :: lineageState
  ea_sequence :: uint64
  ea_ledgerHead :: "uint64 \<times> string"
  ea_eventID :: string
  ea_outboxKey :: string
  ea_event :: gobj
  ea_eventDigest :: string

record recordedArtifacts = eventArtifacts +
  ea_requestDigest :: string
  ea_recorded :: string

record releaseArtifacts = recordedArtifacts +
  ra_version :: uint64
  ra_prevSeq :: uint64
  ra_prevMapping :: string
  ra_released :: SkillArtifactRef
  ra_mapping :: gobj
  ra_mappingBytes :: string

text \<open>The steps the three transactions share: sequence head, event, outbox record.\<close>

definition stage_event :: "registry \<Rightarrow> MemoryStore \<Rightarrow> 'a eventArtifacts_scheme \<Rightarrow> Tx \<Rightarrow> unit res \<times> Tx" where
  "stage_event registry store a tx =
     tx_then (CompareAndSwapHead registry
         (swap_op HeadActivationSequence activationStreamKey (fst (ea_ledgerHead a)) (snd (ea_ledgerHead a)) (ea_sequence a) (ea_eventDigest a)) tx) (\<lambda>_ tx.
     tx_pure (marshalDoc (ea_event a)) tx (\<lambda>eventBytes tx.
     tx_then (AppendEntry registry
         \<lparr>en_ledger = LedgerActivation, en_stream = [], en_seq = ea_sequence a, en_event = ea_eventID a, en_digest = ea_eventDigest a\<rparr> eventBytes tx) (\<lambda>_ tx.
     EnqueueOutbox registry store
       \<lparr>ob_key = ea_outboxKey a, ob_ledger = LedgerActivation, ob_seq = ea_sequence a, ob_digest = ea_eventDigest a,
        ob_target = ProjectionTargetRuntime, ob_state = OutboxPending\<rparr> tx)))"

subsection \<open>Activate\<close>

record activateInput =
  ai_decision :: decisionView
  ai_candidate :: CandidateArtifactRef
  ai_lineageID :: string
  ai_expected :: "SkillArtifactRef option"
  ai_proposal :: Proposal
  ai_proposalState :: string

definition decision_ref :: "decisionView \<Rightarrow> VersionedRef" where
  "decision_ref dv = \<lparr>vr_id = dv_id dv, vr_version = (if dv_version dv = [] then ''1'' else dv_version dv), vr_digest = dv_digest dv\<rparr>"

definition released_ref :: "activateInput \<Rightarrow> uint64 \<Rightarrow> SkillArtifactRef" where
  "released_ref inp version =
     \<lparr>sar_schema_version = SchemaSkillArtifactRef, sar_lineage_id = ai_lineageID inp, sar_version = format_uint version,
      sar_kind = car_kind (ai_candidate inp), sar_artifact_digest = car_body_digest (ai_candidate inp)\<rparr>"

definition activate_spec :: "activateInput \<Rightarrow> lineageState \<Rightarrow> uint64 \<Rightarrow> uint64 \<Rightarrow> string \<Rightarrow> string \<Rightarrow> activationEventSpec" where
  "activate_spec inp state version sequence eventID outboxKey =
     \<lparr>sp_eventType = EventTypeActivate, sp_eventID = eventID, sp_sequence = sequence, sp_lineageID = ai_lineageID inp,
      sp_skillRef = released_ref inp version, sp_previousActiveRef = ls_active state, sp_releaseDecisionRef = Some (decision_ref (ai_decision inp)),
      sp_deactivationAuthorizationRef = None, sp_candidateRef = Some (ai_candidate inp), sp_bodyDigestEqual = Some True, sp_derivedFromRefs = [],
      sp_expectedActiveHead = ai_expected inp, sp_outboxKey = outboxKey\<rparr>"

definition activate_request :: "activateInput \<Rightarrow> gobj" where
  "activate_request inp =
     [(''op'', GString EventTypeActivate), (''decision_id'', GString (dv_id (ai_decision inp))),
      (''decision_digest'', GString (dv_digest (ai_decision inp))), (''candidate_id'', GString (car_candidate_id (ai_candidate inp))),
      (''body_digest'', GString (car_body_digest (ai_candidate inp))), (''lineage_id'', GString (ai_lineageID inp)),
      (''expected_head'', expectedHeadDigestInput (ai_expected inp)), (''activation_source'', GString ''gms-204'')]"

definition activate_artifacts :: "env \<Rightarrow> ActivationService \<Rightarrow> activateInput \<Rightarrow> (nat \<Rightarrow> MemoryStore) \<Rightarrow> Tx \<Rightarrow> releaseArtifacts res" where
  "activate_artifacts ev s inp rd tx =
     and_then (replayLineage (rd 0) (ai_lineageID inp)) (\<lambda>state.
     and_then (nextVersion (rd 1) (ai_lineageID inp)) (\<lambda>(version, prevSeq, prevMapping).
     and_then (NextSequence (as_registry s) (rd 2) tx LedgerActivation []) (\<lambda>sequence.
     and_then (ledger_head (rd 3)) (\<lambda>ledgerHead.
     let dv = ai_decision inp; released = released_ref inp version in
     and_then (buildMappingRecord (ai_lineageID inp) version released (ai_candidate inp) (decision_ref dv) prevMapping) (\<lambda>(mapping, mappingBytes).
     let eventID = ''act-'' @ dv_id dv @ ''-'' @ ai_lineageID inp @ ''-v'' @ format_uint version in
     and_then (deriveOutboxKey EventTypeActivate
         (dv_id dv @ ''/'' @ car_candidate_id (ai_candidate inp) @ ''/'' @ ai_lineageID inp @ ''/'' @ format_uint version) sequence) (\<lambda>outboxKey.
     and_then (buildActivationEvent ev s (activate_spec inp state version sequence eventID outboxKey)) (\<lambda>(event, _).
     and_then (payloadDigest event) (\<lambda>eventPayloadDigest.
     and_then (case DigestOf (GObject (activate_request inp)) of Inl _ \<Rightarrow> Inl (aerr ReasonDigestMismatch) | Inr d \<Rightarrow> Inr d) (\<lambda>requestDigest.
     and_then (marshalDoc (outcome_doc released sequence eventID eventPayloadDigest outboxKey (ls_active state))) (\<lambda>recorded.
     Inr \<lparr>ea_state = state, ea_sequence = sequence, ea_ledgerHead = ledgerHead, ea_eventID = eventID, ea_outboxKey = outboxKey,
          ea_event = event, ea_eventDigest = eventPayloadDigest, ea_requestDigest = requestDigest, ea_recorded = recorded,
          ra_version = version, ra_prevSeq = prevSeq, ra_prevMapping = prevMapping, ra_released = released, ra_mapping = mapping,
          ra_mappingBytes = mappingBytes\<rparr>))))))))))"

definition stageDecision :: "registry \<Rightarrow> MemoryStore \<Rightarrow> MemoryStore \<Rightarrow> decisionView \<Rightarrow> Tx \<Rightarrow> unit res \<times> Tx" where
  "stageDecision registry store store' dv tx =
     tx_pure (ledger_Snapshot store LedgerEvaluation (dv_id dv)) tx (\<lambda>entries tx.
     (case entries of
        entry # _ \<Rightarrow> (check (en_digest entry = dv_digest dv) (aerr ReasonRefMismatch), tx)
      | [] \<Rightarrow>
          tx_pure (marshalDoc (dv_doc dv)) tx (\<lambda>payload tx.
          tx_then (AppendEvent registry store' LedgerEvaluation (dv_id dv) (dv_id dv) payload tx) (\<lambda>_ tx. (Inr (), tx)))))"

definition release_result :: "releaseArtifacts \<Rightarrow> ReleaseResult" where
  "release_result a =
     \<lparr>rl_ReleasedRef = ra_released a, rl_ActivationSequence = ea_sequence a, rl_EventID = ea_eventID a, rl_EventDigest = ea_eventDigest a,
      rl_OutboxKey = ea_outboxKey a, rl_PreviousActiveRef = ls_active (ea_state a), rl_Replayed = False\<rparr>"

definition release_records :: "activateInput \<Rightarrow> SkillArtifactRef \<Rightarrow> VersionedRef list" where
  "release_records inp released =
     [\<lparr>vr_id = sar_lineage_id released @ ''@v'' @ sar_version released, vr_version = sar_version released, vr_digest = sar_artifact_digest released\<rparr>,
      \<lparr>vr_id = dv_id (ai_decision inp), vr_version = vr_version (decision_ref (ai_decision inp)), vr_digest = dv_digest (ai_decision inp)\<rparr>]"

definition write_activation :: "env \<Rightarrow> ActivationService \<Rightarrow> activateInput \<Rightarrow> (nat \<Rightarrow> MemoryStore) \<Rightarrow> releaseArtifacts \<Rightarrow> Tx \<Rightarrow> unit res \<times> Tx" where
  "write_activation ev s inp rd a tx =
     (let registry = as_registry s; lineageID = ai_lineageID inp; state = ea_state a in
      tx_then (stageDecision registry (rd 5) (rd 6) (ai_decision inp) tx) (\<lambda>_ tx.
      tx_then (PutContent registry (ra_mappingBytes a) tx) (\<lambda>mappingDigest tx.
      tx_then (CompareAndSwapHead registry
          (swap_op HeadLineageVersion lineageID (ra_prevSeq a) (ra_prevMapping a) (ra_version a) mappingDigest) tx) (\<lambda>_ tx.
      tx_then (CompareAndSwapHead registry
          (swap_op HeadSkillActive lineageID (ls_headSeq state) (ls_headDigest state) (ls_headSeq state + 1) (sar_artifact_digest (ra_released a))) tx) (\<lambda>_ tx.
      tx_then (stage_event registry (rd 7) a tx) (\<lambda>_ tx.
      tx_then (AppendTransitionTx ev (as_proposals s) (rd 8) (rd 9) (ai_proposal inp) StateActivationPending StateReleased
          (release_records inp (ra_released a)) tx) (\<lambda>_ tx.
      (Inr (), tx))))))))"

definition activate_callback :: "env \<Rightarrow> ActivationService \<Rightarrow> activateInput \<Rightarrow> (nat \<Rightarrow> MemoryStore) \<Rightarrow> Tx \<Rightarrow> ReleaseResult res \<times> Tx" where
  "activate_callback ev s inp rd tx =
     tx_pure (activate_artifacts ev s inp rd tx) tx (\<lambda>a tx.
     tx_then (RecordIdempotency (as_registry s) (rd 4) (''activation:'' @ dv_id (ai_decision inp)) (ea_requestDigest a) (ea_recorded a) tx) (\<lambda>replayed tx.
     (case replayed of
        Some priorOutcome \<Rightarrow> (decodeReleaseResult priorOutcome, tx)
      | None \<Rightarrow>
          tx_pure (check (ai_proposalState inp = StateActivationPending) (aerr ReasonProposalStateConflict)) tx (\<lambda>_ tx.
          tx_pure (expectActiveHead (ea_state a) (ai_expected inp)) tx (\<lambda>_ tx.
          tx_then (write_activation ev s inp rd a tx) (\<lambda>_ tx.
          (Inr (release_result a), tx)))))))"

definition commitActivate :: "env \<Rightarrow> ActivationService \<Rightarrow> bool \<Rightarrow> bool \<Rightarrow> activateInput \<Rightarrow> MemoryStore \<Rightarrow> ReleaseResult res \<times> MemoryStore" where
  "commitActivate ev s cancelled cancelled_later inp store =
     within_tx (as_registry s) cancelled cancelled_later (\<lambda>st tx. activate_callback ev s inp (\<lambda>_. st) tx) store"

text \<open>The guards before the transaction.\<close>

definition activate_guards :: "env \<Rightarrow> ActivationService \<Rightarrow> ActivateRequest \<Rightarrow> MemoryStore \<Rightarrow> activateInput res" where
  "activate_guards ev s req store =
     and_then (parseDecision ev s (aq_Decision req)) (\<lambda>dv.
     and_then (check (dv_outcome dv = ReleaseAccepted) (aerr ReasonReleaseNotAccepted)) (\<lambda>_.
     (case aq_Candidate req of
        None \<Rightarrow> Inl (aerr ReasonCandidateNotFound)
      | Some cand \<Rightarrow>
          let candRef = cv_Ref cand in
          and_then (check (car_candidate_id candRef \<noteq> []) (aerr ReasonCandidateNotFound)) (\<lambda>_.
          and_then (check (candRef = dv_candidate dv) (aerr ReasonRefMismatch)) (\<lambda>_.
          and_then (check (car_kind (dv_candidate dv) = car_kind candRef) (aerr ReasonSkillKindInvalid)) (\<lambda>_.
          and_then (findCandidate store (car_candidate_id candRef)) (\<lambda>found.
          (case found of
             None \<Rightarrow> Inl (aerr ReasonCandidateNotFound)
           | Some committed \<Rightarrow>
               and_then (check (committed = candRef) (aerr ReasonRefMismatch)) (\<lambda>_.
               and_then (verifyBodyEquality store candRef (cv_CanonicalBody cand)) (\<lambda>_.
               and_then (check (aq_LineageID req \<noteq> []) (aerr ReasonReleaseDecisionInvalid)) (\<lambda>_.
               and_then (checkLineageKind store (aq_LineageID req) (car_kind candRef)) (\<lambda>_.
               and_then (parseOriginProposal ev s candRef (aq_ProposalDoc req)) (\<lambda>proposalDoc.
               and_then (CurrentState store (pr_id proposalDoc)) (\<lambda>(state, _).
               and_then (check (state = StateActivationPending \<or> state = StateReleased) (aerr ReasonProposalStateConflict)) (\<lambda>_.
               Inr \<lparr>ai_decision = dv, ai_candidate = candRef, ai_lineageID = aq_LineageID req, ai_expected = aq_ExpectedHead req,
                    ai_proposal = proposalDoc, ai_proposalState = state\<rparr>)))))))))))))))"

definition Activate :: "env \<Rightarrow> ActivationService \<Rightarrow> bool \<Rightarrow> bool \<Rightarrow> ActivateRequest \<Rightarrow> MemoryStore \<Rightarrow> ReleaseResult res \<times> MemoryStore" where
  "Activate ev s cancelled cancelled_later req store =
     (case activate_guards ev s req store of
        Inl e \<Rightarrow> (Inl e, store)
      | Inr inp \<Rightarrow> commitActivate ev s cancelled cancelled_later inp store)"

subsection \<open>Deactivate\<close>

definition deactivate_spec :: "DeactivateRequest \<Rightarrow> lineageState \<Rightarrow> uint64 \<Rightarrow> string \<Rightarrow> string \<Rightarrow> activationEventSpec" where
  "deactivate_spec req state sequence eventID outboxKey =
     \<lparr>sp_eventType = EventTypeDeactivate, sp_eventID = eventID, sp_sequence = sequence, sp_lineageID = dq_LineageID req,
      sp_skillRef = dq_SkillRef req, sp_previousActiveRef = ls_active state, sp_releaseDecisionRef = None,
      sp_deactivationAuthorizationRef = Some (dq_Authorization req), sp_candidateRef = None, sp_bodyDigestEqual = None, sp_derivedFromRefs = [],
      sp_expectedActiveHead = ls_active state, sp_outboxKey = outboxKey\<rparr>"

definition deactivate_artifacts :: "env \<Rightarrow> ActivationService \<Rightarrow> DeactivateRequest \<Rightarrow> (nat \<Rightarrow> MemoryStore) \<Rightarrow> Tx \<Rightarrow> eventArtifacts res" where
  "deactivate_artifacts ev s req rd tx =
     (let lineageID = dq_LineageID req; ref = dq_SkillRef req; auth = vr_id (dq_Authorization req) in
      and_then (replayLineage (rd 0) lineageID) (\<lambda>state.
      and_then (check (ls_active state \<noteq> None) (aerr ReasonNoActiveHead)) (\<lambda>_.
      and_then (check (ls_active state = Some ref) (aerr ReasonActiveHeadConflict)) (\<lambda>_.
      and_then (NextSequence (as_registry s) (rd 1) tx LedgerActivation []) (\<lambda>sequence.
      and_then (ledger_head (rd 2)) (\<lambda>ledgerHead.
      let eventID = ''deact-'' @ auth @ ''-'' @ lineageID in
      and_then (deriveOutboxKey EventTypeDeactivate
          (auth @ ''/'' @ lineageID @ ''/'' @ sar_version ref @ ''/'' @ sar_artifact_digest ref) sequence) (\<lambda>outboxKey.
      and_then (buildActivationEvent ev s (deactivate_spec req state sequence eventID outboxKey)) (\<lambda>(event, _).
      and_then (payloadDigest event) (\<lambda>eventPayloadDigest.
      Inr \<lparr>ea_state = state, ea_sequence = sequence, ea_ledgerHead = ledgerHead, ea_eventID = eventID, ea_outboxKey = outboxKey,
           ea_event = event, ea_eventDigest = eventPayloadDigest\<rparr>)))))))))"

definition deactivation_result :: "DeactivateRequest \<Rightarrow> eventArtifacts \<Rightarrow> DeactivationResult" where
  "deactivation_result req a =
     \<lparr>dr_DeactivatedRef = dq_SkillRef req, dr_ActivationSequence = ea_sequence a, dr_EventID = ea_eventID a, dr_EventDigest = ea_eventDigest a,
      dr_OutboxKey = ea_outboxKey a, dr_Replayed = False\<rparr>"

definition deactivate_callback :: "env \<Rightarrow> ActivationService \<Rightarrow> DeactivateRequest \<Rightarrow> (nat \<Rightarrow> MemoryStore) \<Rightarrow> Tx \<Rightarrow> DeactivationResult res \<times> Tx" where
  "deactivate_callback ev s req rd tx =
     tx_pure (deactivate_artifacts ev s req rd tx) tx (\<lambda>a tx.
     tx_then (stage_event (as_registry s) (rd 3) a tx) (\<lambda>_ tx.
     tx_then (CompareAndSwapHead (as_registry s)
         (swap_op HeadSkillActive (dq_LineageID req) (ls_headSeq (ea_state a)) (ls_headDigest (ea_state a)) (ls_headSeq (ea_state a) + 1)
            (ea_eventDigest a)) tx) (\<lambda>_ tx.
     (Inr (deactivation_result req a), tx))))"

definition commitDeactivate :: "env \<Rightarrow> ActivationService \<Rightarrow> bool \<Rightarrow> bool \<Rightarrow> DeactivateRequest \<Rightarrow> MemoryStore \<Rightarrow> DeactivationResult res \<times> MemoryStore" where
  "commitDeactivate ev s cancelled cancelled_later req store =
     within_tx (as_registry s) cancelled cancelled_later (\<lambda>st tx. deactivate_callback ev s req (\<lambda>_. st) tx) store"

definition deactivate_guards :: "ActivationService \<Rightarrow> DeactivateRequest \<Rightarrow> unit res" where
  "deactivate_guards s req =
     (let ref = dq_SkillRef req in
      and_then (check (dq_LineageID req \<noteq> []) (aerr ReasonDeactivationAuthorizationInvalid)) (\<lambda>_.
      and_then (check (sar_lineage_id ref = dq_LineageID req \<and> sar_artifact_digest ref \<noteq> [] \<and> sar_version ref \<noteq> []) (aerr ReasonRefMismatch)) (\<lambda>_.
      and_then (check (VersionInt ref \<noteq> None) (aerr ReasonRefMismatch)) (\<lambda>_.
      (case as_authorizer s (dq_Authorization req) (dq_LineageID req) ref of
         Inl _ \<Rightarrow> Inl (aerr ReasonDeactivationAuthorizationInvalid)
       | Inr _ \<Rightarrow> Inr ())))))"

definition Deactivate :: "env \<Rightarrow> ActivationService \<Rightarrow> bool \<Rightarrow> bool \<Rightarrow> DeactivateRequest \<Rightarrow> MemoryStore \<Rightarrow> DeactivationResult res \<times> MemoryStore" where
  "Deactivate ev s cancelled cancelled_later req store =
     (case deactivate_guards s req of
        Inl e \<Rightarrow> (Inl e, store)
      | Inr _ \<Rightarrow> commitDeactivate ev s cancelled cancelled_later req store)"

subsection \<open>Reactivate\<close>

record reactivateInput =
  xi_decision :: decisionView
  xi_released :: SkillArtifactRef
  xi_body :: string
  xi_candidate :: CandidateArtifactRef
  xi_expected :: "SkillArtifactRef option"

definition reactivate_spec :: "reactivateInput \<Rightarrow> lineageState \<Rightarrow> uint64 \<Rightarrow> string \<Rightarrow> string \<Rightarrow> activationEventSpec" where
  "reactivate_spec inp state sequence eventID outboxKey =
     \<lparr>sp_eventType = EventTypeActivate, sp_eventID = eventID, sp_sequence = sequence, sp_lineageID = sar_lineage_id (xi_released inp),
      sp_skillRef = xi_released inp, sp_previousActiveRef = ls_active state, sp_releaseDecisionRef = Some (decision_ref (xi_decision inp)),
      sp_deactivationAuthorizationRef = None, sp_candidateRef = None, sp_bodyDigestEqual = Some True, sp_derivedFromRefs = [],
      sp_expectedActiveHead = xi_expected inp, sp_outboxKey = outboxKey\<rparr>"

definition reactivate_request :: "reactivateInput \<Rightarrow> gobj" where
  "reactivate_request inp =
     [(''op'', GString ''reactivate''), (''decision_id'', GString (dv_id (xi_decision inp))),
      (''decision_digest'', GString (dv_digest (xi_decision inp))), (''lineage_id'', GString (sar_lineage_id (xi_released inp))),
      (''version'', GNumber (sar_version (xi_released inp))), (''artifact_digest'', GString (sar_artifact_digest (xi_released inp))),
      (''expected_head'', expectedHeadDigestInput (xi_expected inp)), (''activation_source'', GString ''gms-204'')]"

definition reactivate_artifacts :: "env \<Rightarrow> ActivationService \<Rightarrow> reactivateInput \<Rightarrow> (nat \<Rightarrow> MemoryStore) \<Rightarrow> Tx \<Rightarrow> recordedArtifacts res" where
  "reactivate_artifacts ev s inp rd tx =
     (let released = xi_released inp; lineageID = sar_lineage_id released; dv = xi_decision inp in
      and_then (replayLineage (rd 0) lineageID) (\<lambda>state.
      and_then (NextSequence (as_registry s) (rd 1) tx LedgerActivation []) (\<lambda>sequence.
      and_then (ledger_head (rd 2)) (\<lambda>ledgerHead.
      let eventID = ''act-'' @ dv_id dv @ ''-'' @ lineageID @ ''-v'' @ sar_version released @ ''-reactivate'' in
      and_then (deriveOutboxKey EventTypeActivate (dv_id dv @ ''/reactivate/'' @ lineageID @ ''/'' @ sar_version released) sequence) (\<lambda>outboxKey.
      and_then (buildActivationEvent ev s (reactivate_spec inp state sequence eventID outboxKey)) (\<lambda>(event, _).
      and_then (payloadDigest event) (\<lambda>eventPayloadDigest.
      and_then (case DigestOf (GObject (reactivate_request inp)) of Inl _ \<Rightarrow> Inl (aerr ReasonDigestMismatch) | Inr d \<Rightarrow> Inr d) (\<lambda>requestDigest.
      and_then (marshalDoc (outcome_doc released sequence eventID eventPayloadDigest outboxKey (ls_active state))) (\<lambda>recorded.
      Inr \<lparr>ea_state = state, ea_sequence = sequence, ea_ledgerHead = ledgerHead, ea_eventID = eventID, ea_outboxKey = outboxKey,
           ea_event = event, ea_eventDigest = eventPayloadDigest, ea_requestDigest = requestDigest, ea_recorded = recorded\<rparr>)))))))))"

definition reactivation_result :: "reactivateInput \<Rightarrow> recordedArtifacts \<Rightarrow> ReleaseResult" where
  "reactivation_result inp a =
     \<lparr>rl_ReleasedRef = xi_released inp, rl_ActivationSequence = ea_sequence a, rl_EventID = ea_eventID a, rl_EventDigest = ea_eventDigest a,
      rl_OutboxKey = ea_outboxKey a, rl_PreviousActiveRef = ls_active (ea_state a), rl_Replayed = False\<rparr>"

definition reactivate_callback :: "env \<Rightarrow> ActivationService \<Rightarrow> reactivateInput \<Rightarrow> (nat \<Rightarrow> MemoryStore) \<Rightarrow> Tx \<Rightarrow> ReleaseResult res \<times> Tx" where
  "reactivate_callback ev s inp rd tx =
     tx_pure (reactivate_artifacts ev s inp rd tx) tx (\<lambda>a tx.
     tx_then (RecordIdempotency (as_registry s) (rd 3) (''reactivation:'' @ dv_id (xi_decision inp)) (ea_requestDigest a) (ea_recorded a) tx) (\<lambda>replayed tx.
     (case replayed of
        Some priorOutcome \<Rightarrow> (decodeReleaseResult priorOutcome, tx)
      | None \<Rightarrow>
          tx_pure (expectActiveHead (ea_state a) (xi_expected inp)) tx (\<lambda>_ tx.
          tx_then (stage_event (as_registry s) (rd 4) a tx) (\<lambda>_ tx.
          tx_then (CompareAndSwapHead (as_registry s)
              (swap_op HeadSkillActive (sar_lineage_id (xi_released inp)) (ls_headSeq (ea_state a)) (ls_headDigest (ea_state a))
                 (ls_headSeq (ea_state a) + 1) (sar_artifact_digest (xi_released inp))) tx) (\<lambda>_ tx.
          (Inr (reactivation_result inp a), tx)))))))"

definition commitReactivate :: "env \<Rightarrow> ActivationService \<Rightarrow> bool \<Rightarrow> bool \<Rightarrow> reactivateInput \<Rightarrow> MemoryStore \<Rightarrow> ReleaseResult res \<times> MemoryStore" where
  "commitReactivate ev s cancelled cancelled_later inp store =
     within_tx (as_registry s) cancelled cancelled_later (\<lambda>st tx. reactivate_callback ev s inp (\<lambda>_. st) tx) store"

definition reactivate_guards :: "env \<Rightarrow> ActivationService \<Rightarrow> ReactivateRequest \<Rightarrow> MemoryStore \<Rightarrow> reactivateInput res" where
  "reactivate_guards ev s req store =
     (let ref = xq_ReleasedRef req in
      and_then (check (xq_Decision req \<noteq> None) (aerr ReasonReactivationAuthorizationRequired)) (\<lambda>_.
      and_then (parseDecision ev s (xq_Decision req)) (\<lambda>dv.
      and_then (check (dv_outcome dv = ReleaseAccepted) (aerr ReasonReleaseNotAccepted)) (\<lambda>_.
      and_then (check (sar_lineage_id ref \<noteq> [] \<and> sar_artifact_digest ref \<noteq> []) (aerr ReasonRefMismatch)) (\<lambda>_.
      and_then (check (VersionInt ref \<noteq> None) (aerr ReasonRefMismatch)) (\<lambda>_.
      and_then (findMappingForVersion store (sar_lineage_id ref) (sar_version ref)) (\<lambda>found.
      (case found of
         None \<Rightarrow> Inl (aerr ReasonRefMismatch)
       | Some mapping \<Rightarrow>
           and_then (check (ParseSkillArtifactRef (obj_or_nil (gidx mapping ''released_ref'')) = Inr ref) (aerr ReasonRefMismatch)) (\<lambda>_.
           and_then (check (gidx mapping ''body_digest_equal'' = GBool True) (aerr ReasonCandidateReleasedBodyMismatch)) (\<lambda>_.
           (case ParseCandidateArtifactRef (obj_or_nil (gidx mapping ''candidate_ref'')) of
              Inl _ \<Rightarrow> Inl (aerr ReasonDigestMismatch)
            | Inr mappedCand \<Rightarrow>
                and_then (check (dv_candidate dv = mappedCand) (aerr ReasonRefMismatch)) (\<lambda>_.
                and_then (verifyBodyEquality store mappedCand None) (\<lambda>_.
                Inr \<lparr>xi_decision = dv, xi_released = ref, xi_body = car_body_digest mappedCand, xi_candidate = mappedCand,
                     xi_expected = xq_ExpectedHead req\<rparr>)))))))))))))"

definition Reactivate :: "env \<Rightarrow> ActivationService \<Rightarrow> bool \<Rightarrow> bool \<Rightarrow> ReactivateRequest \<Rightarrow> MemoryStore \<Rightarrow> ReleaseResult res \<times> MemoryStore" where
  "Reactivate ev s cancelled cancelled_later req store =
     (case reactivate_guards ev s req store of
        Inl e \<Rightarrow> (Inl e, store)
      | Inr inp \<Rightarrow> commitReactivate ev s cancelled cancelled_later inp store)"

end
