(* ===== verification/Activation_Facts.thy ===== *)
theory Activation_Facts
  imports Activation
begin

text \<open>
  What the three transactions of the release service stage: the written documents are readable, and the write set has exactly one
  activation event with the swaps of the heads that belong to it.
\<close>

subsection \<open>Reading the stream\<close>

interpretation lineages: event_stream "advance_lineage lineageID" for lineageID
proof
  fix s t :: MemoryStore and e st st'
  assume ext: "extends s t" and adv: "advance_lineage lineageID s e st = Inr st'"
  show "advance_lineage lineageID t e st = Inr st'"
  proof (cases "Get s (en_digest e)")
    case None
    with adv show ?thesis by (simp add: advance_lineage_def Let_def)
  next
    case (Some payload)
    with ext have "Get t (en_digest e) = Some payload" by (auto simp: Get_def extends_def map_le_def dom_def)
    with adv Some show ?thesis by (simp add: advance_lineage_def Let_def)
  qed
qed

abbreviation activation_key :: string where
  "activation_key \<equiv> ledgerKey LedgerActivation []"

lemma replayLineage_eq: "replayLineage s L = replay_entries (advance_lineage L s) (entries_at s activation_key) no_lineage"
  using activation_kind by (simp add: replayLineage_def ledger_Snapshot_def)

subsection \<open>Text\<close>

definition skill_text :: "SkillArtifactRef \<Rightarrow> bool" where
  "skill_text r = (sar_ok r \<and> valid_text (sar_lineage_id r))"

definition candidate_text :: "CandidateArtifactRef \<Rightarrow> bool" where
  "candidate_text c = (car_ok c \<and> valid_text (car_candidate_id c) \<and> valid_text (vr_id (car_origin_ref c)))"

definition spec_text :: "activationEventSpec \<Rightarrow> bool" where
  "spec_text spec =
     (valid_text (sp_eventID spec) \<and> valid_text (sp_lineageID spec) \<and> skill_text (sp_skillRef spec) \<and>
      (\<forall>r. sp_previousActiveRef spec = Some r \<longrightarrow> skill_text r) \<and> (\<forall>r. sp_releaseDecisionRef spec = Some r \<longrightarrow> ref_text r) \<and>
      (\<forall>r. sp_deactivationAuthorizationRef spec = Some r \<longrightarrow> ref_text r) \<and> (\<forall>c. sp_candidateRef spec = Some c \<longrightarrow> candidate_text c) \<and>
      sp_derivedFromRefs spec = [] \<and> (\<forall>r. sp_expectedActiveHead spec = Some r \<longrightarrow> skill_text r) \<and> valid_text (sp_outboxKey spec))"

text \<open>Documents that can be nested in a readable one.\<close>

definition embeds :: "nat \<Rightarrow> gv \<Rightarrow> bool" where
  "embeds n v = (hashable v \<and> nesting v \<le> n \<and> unpaired v)"

lemma embeds_atoms [simp]:
  "embeds n (GString s) = valid_text s" "embeds n (GBool b)" "embeds n (GNumber k) = integerForm k" "embeds n GNil"
  by (simp_all add: embeds_def)

lemma embeds_object:
  "embeds (Suc n) (GObject m) \<longleftrightarrow> gmap_ok m \<and> (\<forall>p \<in> set m. valid_text (fst p) \<and> fst p \<noteq> ''source_skill_refs'' \<and> embeds n (snd p))"
proof -
  have "foldr max (map (\<lambda>p. nesting (snd p)) m) 0 \<le> n \<longleftrightarrow> (\<forall>p \<in> set m. nesting (snd p) \<le> n)" by (induction m) auto
  then show ?thesis by (auto simp: embeds_def list_all_iff)
qed

lemma embeds_mono: "embeds m v \<Longrightarrow> m \<le> n \<Longrightarrow> embeds n v"
  by (simp add: embeds_def)

lemma readable_embeds: "readable m \<longleftrightarrow> embeds max_nesting (GObject m)"
  by (simp add: readable_def embeds_def)

lemma version_form: "version_ok v \<Longrightarrow> integerForm v"
  by (simp add: version_ok_def)

lemma kind_texts: "k \<in> set skillKinds \<Longrightarrow> valid_text k" "t \<in> set originTypes \<Longrightarrow> valid_text t"
  by (auto simp: skillKinds_def originTypes_def intro!: valid_text_ascii)

lemma embeds_refs:
  "skill_text r \<Longrightarrow> embeds 1 (GObject (skillRefDoc r))" "ref_text v \<Longrightarrow> embeds 1 (GObject (versionedRefDoc v))"
  "candidate_text c \<Longrightarrow> embeds 2 (GObject (candidateRefDoc c))"
proof -
  have one: "embeds (Suc 0) v = embeds 1 v" for v by simp
  show s: "embeds 1 (GObject (skillRefDoc r))" if "skill_text r" for r
    using that unfolding One_nat_def embeds_object
    by (auto simp: skillRefDoc_def skill_text_def sar_ok_def version_form kind_texts valid_digest valid_text_ascii gmap_ok_def)
  show v: "embeds 1 (GObject (versionedRefDoc v))" if "ref_text v" for v
    using that unfolding One_nat_def embeds_object by (auto simp: versionedRefDoc_def ref_text_def valid_text_ascii gmap_ok_def)
  show "embeds 2 (GObject (candidateRefDoc c))" if "candidate_text c"
  proof -
    have "ref_text (car_origin_ref c)" using that by (simp add: candidate_text_def car_ok_def vr_ok_def ref_text_def version_form valid_digest)
    from v [OF this] that show ?thesis unfolding numeral_2_eq_2 embeds_object
      by (auto simp: candidateRefDoc_def candidate_text_def car_ok_def kind_texts valid_digest valid_text_ascii gmap_ok_def)
  qed
qed


text \<open>A written reference is read back, from canonical bytes and from \<open>json.Marshal\<close> alike.\<close>

lemma version_norm: "version_ok v \<Longrightarrow> norm_number v = v"
  by (auto simp: norm_number_def version_ok_def big_set_string_def is_digit_def)

lemma skill_doc_same:
  assumes "sar_ok r" "mset (map (\<lambda>p. (fst p, f (snd p))) m) = mset (map (\<lambda>p. (fst p, f (snd p))) (skillRefDoc r))"
    "\<And>s. f (GString s) = GString s" "f (GNumber (sar_version r)) = GNumber (sar_version r)"
  shows "ParseSkillArtifactRef (map (\<lambda>p. (fst p, f (snd p))) m) = Inr r"
proof -
  have "map (\<lambda>p. (fst p, f (snd p))) (skillRefDoc r) = skillRefDoc r" using assms(3,4) by (simp add: skillRefDoc_def)
  with assms(2) have eq: "mset (map (\<lambda>p. (fst p, f (snd p))) m) = mset (skillRefDoc r)" by simp
  have "gmap_ok (map (\<lambda>p. (fst p, f (snd p))) m)" by (rule map_of_mset(1) [OF eq gmap_ok_docs(2)])
  with ParseSkillArtifactRef_exact [OF this] assms(1) eq show ?thesis by blast
qed

lemma skill_doc_read:
  assumes "sar_ok r"
  shows "ParseSkillArtifactRef (obj_or_nil (mcanon (GObject (skillRefDoc r)))) = Inr r"
    "ParseSkillArtifactRef (obj_or_nil (canon (GObject (skillRefDoc r)))) = Inr r"
proof -
  have v: "version_ok (sar_version r)" using assms by (simp add: sar_ok_def)
  show "ParseSkillArtifactRef (obj_or_nil (mcanon (GObject (skillRefDoc r)))) = Inr r"
    using skill_doc_same [OF assms, of mcanon "sort_by key_less (skillRefDoc r)"] by (simp add: obj_or_nil_def AsObject_def)
  have "map (\<lambda>p. (fst p, canon (snd p))) (skillRefDoc r) = skillRefDoc r"
    using v by (simp add: skillRefDoc_def version_norm)
  then have "ParseSkillArtifactRef (sort_by entry_less (map (\<lambda>p. (fst p, canon (snd p))) (skillRefDoc r))) = Inr r"
    using skill_doc_same [OF assms, of id "sort_by entry_less (skillRefDoc r)"] by (simp add: id_def)
  then show "ParseSkillArtifactRef (obj_or_nil (canon (GObject (skillRefDoc r)))) = Inr r" by (simp add: obj_or_nil_def AsObject_def)
qed

text \<open>What a strict reader gets of a written document: every field, in the form \<open>canon\<close> or \<open>mcanon\<close>.\<close>

lemma read_marshalled:
  assumes "readable m"
  obtains n where "ParseJSONStrict (mtext (GObject m)) = Inr (GObject n)" "\<And>k. map_of n k = map_option mcanon (map_of m k)"
proof -
  have h: "hashable (GObject m)" "nesting (GObject m) \<le> max_nesting" using assms by (simp_all only: readable_def)
  obtain n where n: "mcanon (GObject m) = GObject n" by simp
  have "gmap_ok m" using h(1) by simp
  from that [of n] parse_marshal(2) [OF h] map_of_mcanon [OF this n] show thesis unfolding n by simp
qed

subsection \<open>The recorded outcome\<close>

lemma format_uint_facts: "integerForm (format_uint n)" "format_uint n \<noteq> []" "valid_text (format_uint n)"
proof -
  show i: "integerForm (format_uint n)" by (simp add: format_uint_def format_int_form)
  then show "format_uint n \<noteq> []" by (auto simp: integerForm_def)
  show "valid_text (format_uint n)" by (simp add: format_uint_def valid_format_int)
qed

lemma embeds_head: "\<forall>r. v = Some r \<longrightarrow> skill_text r \<Longrightarrow> embeds 1 (case v of None \<Rightarrow> GNil | Some r \<Rightarrow> GObject (skillRefDoc r))"
  by (cases v) (simp_all add: embeds_refs(1) del: One_nat_def)

lemma readable_fields:
  assumes "gmap_ok m" "\<And>p. p \<in> set m \<Longrightarrow> valid_text (fst p) \<and> fst p \<noteq> ''source_skill_refs'' \<and> embeds 2 (snd p)"
  shows "readable m"
proof -
  have "embeds (Suc 2) (GObject m)" unfolding embeds_object using assms by blast
  then show ?thesis unfolding readable_embeds by (rule embeds_mono) (simp add: max_nesting_def)
qed

lemma outcome_readable:
  assumes "skill_text released" "\<forall>r. previous = Some r \<longrightarrow> skill_text r" "valid_text eid" "valid_text ed" "valid_text ok"
  shows "readable (outcome_doc released sq eid ed ok previous)"
proof (rule readable_fields)
  have "embeds 2 (previousHeadDoc previous)" "embeds 2 (GObject (skillRefDoc released))"
    using embeds_mono [OF embeds_head [OF assms(2)]] embeds_mono [OF embeds_refs(1) [OF assms(1)]] by (simp_all add: previousHeadDoc_def)
  then show "valid_text (fst p) \<and> fst p \<noteq> ''source_skill_refs'' \<and> embeds 2 (snd p)" if "p \<in> set (outcome_doc released sq eid ed ok previous)" for p
    using that assms(3-5) format_uint_facts(1) by (auto simp: outcome_doc_def valid_text_ascii)
qed (simp add: outcome_doc_def gmap_ok_def)

lemma digitsOf_format: "digitsOf (GNumber (format_uint n)) = n"
  using format_uint_digits [of n] uint_lt2p [of n] by (simp add: digitsOf_def ParseUint_def)

text \<open>An outcome that was recorded is decoded to the same result, marked as replayed.\<close>

lemma outcome_read:
  assumes "skill_text released" "\<forall>r. previous = Some r \<longrightarrow> skill_text r" "valid_text eid" "valid_text ed" "valid_text ok"
  shows "marshalDoc (outcome_doc released sq eid ed ok previous) = Inr (mtext (GObject (outcome_doc released sq eid ed ok previous)))"
    "decodeReleaseResult (mtext (GObject (outcome_doc released sq eid ed ok previous))) =
       Inr \<lparr>rl_ReleasedRef = released, rl_ActivationSequence = sq, rl_EventID = eid, rl_EventDigest = ed, rl_OutboxKey = ok,
            rl_PreviousActiveRef = previous, rl_Replayed = True\<rparr>"
proof -
  let ?doc = "outcome_doc released sq eid ed ok previous"
  have rd: "readable ?doc" by (rule outcome_readable [OF assms])
  show "marshalDoc ?doc = Inr (mtext (GObject ?doc))" using readable_marshal [OF rd] by (simp add: marshalDoc_def)
  obtain n where n: "ParseJSONStrict (mtext (GObject ?doc)) = Inr (GObject n)" "\<And>k. map_of n k = map_option mcanon (map_of ?doc k)"
    by (rule read_marshalled [OF rd]) blast
  have f: "gidx n ''released_ref'' = mcanon (GObject (skillRefDoc released))" "gidx n ''activation_sequence'' = GNumber (format_uint sq)"
    "gidx n ''event_id'' = GString eid" "gidx n ''event_digest'' = GString ed" "gidx n ''outbox_key'' = GString ok"
    "gidx n ''previous_active_head'' = mcanon (previousHeadDoc previous)"
    by (simp_all add: gidx_def n(2) outcome_doc_def)
  have sar: "skill_text r \<Longrightarrow> sar_ok r" for r by (simp add: skill_text_def)
  have prev: "(case AsObject (mcanon (previousHeadDoc previous)) of None \<Rightarrow> None
      | Some prevObj \<Rightarrow> (case ParseSkillArtifactRef prevObj of Inl _ \<Rightarrow> None | Inr prev \<Rightarrow> Some prev)) = previous"
  proof (cases previous)
    case (Some r)
    with assms(2) have "sar_ok r" by (simp add: sar)
    from skill_doc_read(1) [OF this] Some show ?thesis by (simp add: previousHeadDoc_def obj_or_nil_def AsObject_def)
  qed (simp add: previousHeadDoc_def AsObject_def)
  have "obj_or_nil (GObject n) = n" by (simp add: obj_or_nil_def AsObject_def)
  with skill_doc_read(1) [OF sar [OF assms(1)]] prev f show "decodeReleaseResult (mtext (GObject ?doc)) =
       Inr \<lparr>rl_ReleasedRef = released, rl_ActivationSequence = sq, rl_EventID = eid, rl_EventDigest = ed, rl_OutboxKey = ok,
            rl_PreviousActiveRef = previous, rl_Replayed = True\<rparr>"
    by (simp add: decodeReleaseResult_def n(1) digitsOf_format str_or_empty_def AsString_def)
qed

subsection \<open>The activation event\<close>

lemma deepCopyValue_id: "deepCopyValue v = v"
  by (induction v rule: deepCopyValue.induct) (simp_all add: map_idI)

lemma payloadDigest_readable: "readable m \<Longrightarrow> payloadDigest m = Inr (DigestBytes (out (GObject m)))"
proof -
  assume rd: "readable m"
  have h: "hashable (GObject m)" "unpaired (GObject m)" using rd by (simp_all only: readable_def)
  have "JCS (NormalizeForHashing (GObject m)) = Inr (out (GObject m))"
    unfolding normal_unpaired [OF h(2)] JCS_def by (rule emit_hashable [OF h(1)])
  then show ?thesis by (simp add: payloadDigest_def deepCopyValue_id)
qed

lemma opt_field_keys: "map fst (opt_field k f v) = (if v = None then [] else [k])" "map_of (opt_field k f v) j = (if j = k then map_option f v else None)"
  by (simp_all add: opt_field_def split: option.split)

lemma activation_payload_fields:
  "map_of (activation_payload spec) ''event_type'' = Some (GString (sp_eventType spec))"
  "map_of (activation_payload spec) ''lineage_id'' = Some (GString (sp_lineageID spec))"
  "map_of (activation_payload spec) ''skill_ref'' = Some (GObject (skillRefDoc (sp_skillRef spec)))"
  "map_of (activation_payload spec) ''activation_sequence'' = Some (GNumber (format_uint (sp_sequence spec)))"
  "map_of (activation_payload spec) ''event_id'' = Some (GString (sp_eventID spec))"
  "map_of (activation_payload spec) ''event_digest'' = None"
  by (simp_all add: activation_payload_def opt_field_keys map_add_def)

lemma sealed_readable:
  assumes t: "spec_text spec" and types: "sp_eventType spec \<in> {EventTypeActivate, EventTypeDeactivate}" and d: "valid_text d"
  shows "readable (gput ''event_digest'' (GString d) (activation_payload spec))"
proof (rule readable_fields)
  have eq: "gput ''event_digest'' (GString d) (activation_payload spec) = activation_payload spec @ [(''event_digest'', GString d)]"
    using t by (intro gput_fresh) (simp add: activation_payload_def opt_field_keys spec_text_def)
  show "gmap_ok (gput ''event_digest'' (GString d) (activation_payload spec))"
    unfolding eq using t by (simp add: activation_payload_def gmap_ok_def opt_field_keys spec_text_def)
  have two: "embeds 1 v \<Longrightarrow> embeds 2 v" for v by (erule embeds_mono) simp
  have refs: "skill_text r \<Longrightarrow> embeds 2 (GObject (skillRefDoc r))" "ref_text v \<Longrightarrow> embeds 2 (GObject (versionedRefDoc v))" for r v
    using two embeds_refs(1,2) by blast+
  have "embeds 2 v" if "(k, v) \<in> set (activation_payload spec)" for k v
    using that t types refs embeds_refs(3) format_uint_facts(1)
    by (auto simp: activation_payload_def opt_field_def spec_text_def valid_text_ascii split: option.splits)
  moreover have "k \<noteq> ''source_skill_refs'' \<and> valid_text k" if "(k, v) \<in> set (activation_payload spec)" for k v
    using that by (auto simp: activation_payload_def opt_field_def valid_text_ascii split: option.splits if_splits)
  ultimately show "valid_text (fst p) \<and> fst p \<noteq> ''source_skill_refs'' \<and> embeds 2 (snd p)"
    if "p \<in> set (gput ''event_digest'' (GString d) (activation_payload spec))" for p
    using that d unfolding eq by (cases p) (auto simp: valid_text_ascii)
qed

lemma activation_event_readable:
  assumes "spec_text spec" "buildActivationEvent ev s spec = Inr (event, d)"
  shows "readable event" "\<And>k. k \<noteq> ''event_digest'' \<Longrightarrow> map_of event k = map_of (activation_payload spec) k"
    "sp_eventType spec \<in> {EventTypeActivate, EventTypeDeactivate}"
proof -
  obtain schema where d: "ComputeDigestPreimage (as_gates s) (activation_payload spec) schema = Inr d"
    and event: "event = gput ''event_digest'' (GString d) (activation_payload spec)"
    and types: "sp_eventType spec \<in> {EventTypeActivate, EventTypeDeactivate}"
    using assms(2) by (auto simp: buildActivationEvent_def and_then_Inr check_Inr Let_def activationEventTypes_def split: sum.splits)
  show "sp_eventType spec \<in> {EventTypeActivate, EventTypeDeactivate}" by (rule types)
  show "map_of event k = map_of (activation_payload spec) k" if "k \<noteq> ''event_digest''" for k using that event by simp
  show "readable event" unfolding event
    by (rule sealed_readable [OF assms(1) types]) (rule valid_digest [OF ComputeDigestPreimage_digest [OF d]])
qed

text \<open>What an entry with this event does to the replayed state of a lineage.\<close>

definition moves :: "MemoryStore \<Rightarrow> Entry \<Rightarrow> string \<Rightarrow> SkillArtifactRef option \<Rightarrow> string \<Rightarrow> bool" where
  "moves s e lineageID active marker = (\<forall>L st. advance_lineage L s e st =
     (if L = lineageID then Inr \<lparr>ls_active = active, ls_headSeq = ls_headSeq st + 1, ls_headDigest = marker\<rparr> else Inr st))"

lemma moves_grows: "extends s t \<Longrightarrow> moves s e L a d \<Longrightarrow> moves t e L a d"
  unfolding moves_def by (metis (no_types, lifting) lineages.advance_grows)

definition spec_active :: "activationEventSpec \<Rightarrow> SkillArtifactRef option" where
  "spec_active spec = (if sp_eventType spec = EventTypeActivate then Some (sp_skillRef spec) else None)"

lemma event_moves:
  assumes "spec_text spec" "buildActivationEvent ev s spec = Inr (event, d)" "en_digest e = DigestBytes (out (GObject event))"
    "Get st (en_digest e) = Some (out (GObject event))"
  shows "moves st e (sp_lineageID spec) (spec_active spec)
    (if sp_eventType spec = EventTypeActivate then sar_artifact_digest (sp_skillRef spec) else en_digest e)"
proof -
  note rd = activation_event_readable [OF assms(1,2)]
  obtain n where n: "ParseJSONStrict (out (GObject event)) = Inr (GObject n)" "\<And>k. map_of n k = map_option canon (map_of event k)"
    "JCS (NormalizeForHashing (GObject n)) = Inr (out (GObject event))" by (rule readable_parse [OF rd(1)]) blast
  have f: "gidx n ''event_type'' = GString (sp_eventType spec)" "gidx n ''lineage_id'' = GString (sp_lineageID spec)"
    "gidx n ''skill_ref'' = canon (GObject (skillRefDoc (sp_skillRef spec)))"
    by (simp_all add: gidx_def n(2) rd(2) activation_payload_fields)
  have "sar_ok (sp_skillRef spec)" using assms(1) by (simp add: spec_text_def skill_text_def)
  with f(3) skill_doc_read(2) have ref: "ParseSkillArtifactRef (obj_or_nil (gidx n ''skill_ref'')) = Inr (sp_skillRef spec)" by simp
  have o: "obj_or_nil (GObject n) = n" by (simp add: obj_or_nil_def AsObject_def)
  have get: "Get st (DigestBytes (out (GObject event))) = Some (out (GObject event))" using assms(3,4) by simp
  show ?thesis
    unfolding moves_def advance_lineage_def assms(3) get
    using rd(3) ref f(1,2) by (auto simp: n(1,3) o spec_active_def str_or_empty_def AsString_def Let_def simp del: NormalizeForHashing.simps)
qed

end
