(* ===== verification/Release_Stages.thy ===== *)
theory Release_Stages
  imports Activation_Facts
begin

text \<open>
  What the three transactions of the release service stage: one activation event, with the swaps of the heads that belong to it, and nothing
  else that the release state depends on.
\<close>

subsection \<open>The footprint of a transaction\<close>

definition acts :: "Tx \<Rightarrow> Entry list" where
  "acts tx = filter (on_stream activation_key) (tx_appends tx)"

definition release_kinds :: "string list" where
  "release_kinds = [HeadSkillActive, HeadLineageVersion, HeadActivationSequence]"

definition release_swaps :: "Tx \<Rightarrow> stagedCAS list" where
  "release_swaps tx = filter (\<lambda>op. cas_kind op \<in> set release_kinds) (tx_cas tx)"

text \<open>Stages with what they add to the activation stream and to the heads of the release state; a quiet stage adds nothing.\<close>

definition stages :: "registry \<Rightarrow> Tx \<Rightarrow> Tx \<Rightarrow> Entry list \<Rightarrow> stagedCAS list \<Rightarrow> bool" where
  "stages reg tx tx' es ops = ((staged reg tx \<longrightarrow> staged reg tx') \<and> acts tx' = acts tx @ es \<and> release_swaps tx' = release_swaps tx @ ops \<and>
     tx_replay tx' = tx_replay tx \<and> tx_idem tx' = tx_idem tx \<and> set (tx_puts tx) \<subseteq> set (tx_puts tx'))"

abbreviation quiet :: "registry \<Rightarrow> Tx \<Rightarrow> Tx \<Rightarrow> bool" where
  "quiet reg tx tx' \<equiv> stages reg tx tx' [] []"

lemma quiet_refl [simp]: "quiet reg tx tx"
  by (simp add: stages_def)

lemma stages_trans: "stages reg tx tx1 es ops \<Longrightarrow> stages reg tx1 tx2 es' ops' \<Longrightarrow> stages reg tx tx2 (es @ es') (ops @ ops')"
  by (auto simp: stages_def)

lemma staged_op: "staged reg tx \<Longrightarrow> staged reg (run_op reg s op tx)"
  by (rule staged_from.stage)

lemma not_activation: "map_of ledgerKinds kind \<noteq> None \<Longrightarrow> kind \<noteq> LedgerActivation \<Longrightarrow> ledgerKey kind stream \<noteq> activation_key"
  using ledgerKey_inj [of kind LedgerActivation stream "[]"] activation_kind by simp

lemma stageContent_kept [simp]:
  "tx_appends (stageContent d c tx) = tx_appends tx" "tx_cas (stageContent d c tx) = tx_cas tx" "tx_replay (stageContent d c tx) = tx_replay tx"
  "set (tx_puts tx) \<subseteq> set (tx_puts (stageContent d c tx))" "tx_idem (stageContent d c tx) = tx_idem tx"
  by (auto simp: stageContent_def)

lemma quiet_put: "PutContent reg payload tx = (r, tx') \<Longrightarrow> quiet reg tx tx'"
  using staged_op [of reg tx _ "OpPutContent payload"]
  by (auto simp: stages_def acts_def release_swaps_def PutContent_def split: sum.splits prod.splits intro: stageContent_kept(4) [THEN subsetD])

lemma quiet_outbox: "EnqueueOutbox reg s rec tx = (r, tx') \<Longrightarrow> quiet reg tx tx'"
  using staged_op [of reg tx s "OpEnqueueOutbox rec"]
  by (auto simp: stages_def acts_def release_swaps_def EnqueueOutbox_def split: if_splits option.splits)

lemma quiet_append:
  assumes "AppendEvent reg s kind stream eid payload tx = (r, tx')" "kind \<noteq> LedgerActivation"
  shows "quiet reg tx tx'"
proof -
  have "staged reg tx \<longrightarrow> staged reg tx'" using staged_op [of reg tx s "OpAppendEvent kind stream eid payload"] assms(1) by simp
  moreover have "map_of ledgerKinds kind = None \<Longrightarrow> tx' = tx" using assms(1) by (auto simp: AppendEvent_def NextSequence_def)
  ultimately show ?thesis
    using assms(1) not_activation [OF _ assms(2), of stream]
    by (cases "map_of ledgerKinds kind = None")
      (auto simp: stages_def acts_def release_swaps_def AppendEvent_def on_stream_def Let_def split: sum.splits prod.splits
        intro: stageContent_kept(4) [THEN subsetD])
qed

lemma stages_swap:
  assumes "CompareAndSwapHead reg op tx = (Inr u, tx')" "cas_kind op \<in> set release_kinds"
  shows "stages reg tx tx' [] [op]"
  using assms staged_op [of reg tx _ "OpCompareAndSwapHead op"]
  by (auto simp: CompareAndSwapHead_def stages_def acts_def release_swaps_def split: if_splits)

lemma quiet_decision:
  assumes "stageDecision reg s s' dv tx = (Inr u, tx')"
  shows "quiet reg tx tx'"
  using assms
  by (auto simp: stageDecision_def tx_pure_def tx_then_def check_def split: prod.splits sum.splits list.splits if_splits dest!: quiet_append)

lemma quiet_transition:
  assumes "stageTransition ev g s s' p src dst refs tx = (r, tx')"
  shows "quiet (eg_registry g) tx tx'"
proof -
  consider "tx' = tx" | eid data where "tx' = snd (AppendEvent (eg_registry g) s' LedgerProposal (pr_id p) eid data tx)"
    using stageTransition_staged [OF assms] by auto
  then show ?thesis
  proof cases
    case (2 eid data)
    then have "AppendEvent (eg_registry g) s' LedgerProposal (pr_id p) eid data tx =
        (fst (AppendEvent (eg_registry g) s' LedgerProposal (pr_id p) eid data tx), tx')" by simp
    then show ?thesis by (rule quiet_append) simp
  qed simp
qed

subsection \<open>Bind\<close>

lemma tx_then_Inr: "tx_then m f = (Inr r, tx') \<longleftrightarrow> (\<exists>a tx. m = (Inr a, tx) \<and> f a tx = (Inr r, tx'))"
  by (auto simp: tx_then_def split: prod.splits sum.splits)

lemma tx_pure_Inr: "tx_pure m tx f = (Inr r, tx') \<longleftrightarrow> (\<exists>a. m = Inr a \<and> f a tx = (Inr r, tx'))"
  by (auto simp: tx_pure_def tx_then_Inr)

subsection \<open>The event\<close>

text \<open>The stages that all three transactions share, for an event that is readable and digested as a whole.\<close>

definition event_entry :: "'a eventArtifacts_scheme \<Rightarrow> Entry" where
  "event_entry a = \<lparr>en_ledger = LedgerActivation, en_stream = [], en_seq = ea_sequence a, en_event = ea_eventID a, en_digest = ea_eventDigest a\<rparr>"

definition sequence_swap :: "'a eventArtifacts_scheme \<Rightarrow> stagedCAS" where
  "sequence_swap a = swap_op HeadActivationSequence activationStreamKey (fst (ea_ledgerHead a)) (snd (ea_ledgerHead a)) (ea_sequence a) (ea_eventDigest a)"

lemma stages_event:
  assumes "stage_event reg s a tx = (Inr u, tx')"
  shows "stages reg tx tx' [event_entry a] [sequence_swap a]"
proof -
  let ?e = "event_entry a"
  obtain u1 tx1 bytes u2 tx2 where st: "CompareAndSwapHead reg (sequence_swap a) tx = (Inr u1, tx1)" "marshalDoc (ea_event a) = Inr bytes"
    "AppendEntry reg ?e bytes tx1 = (Inr u2, tx2)"
    "EnqueueOutbox reg s \<lparr>ob_key = ea_outboxKey a, ob_ledger = LedgerActivation, ob_seq = ea_sequence a, ob_digest = ea_eventDigest a,
        ob_target = ProjectionTargetRuntime, ob_state = OutboxPending\<rparr> tx2 = (Inr u, tx')"
    using assms by (auto simp: stage_event_def tx_then_Inr tx_pure_Inr event_entry_def sequence_swap_def)
  have e: "on_stream activation_key ?e" by (simp add: on_stream_def event_entry_def)
  have "tx_appends tx2 = tx_appends tx1 @ [?e]" "tx_cas tx2 = tx_cas tx1" "tx_replay tx2 = tx_replay tx1" "tx_idem tx2 = tx_idem tx1"
    "set (tx_puts tx1) \<subseteq> set (tx_puts tx2)"
    using st(3) by (auto simp: AppendEntry_def Let_def split: sum.splits prod.splits intro: stageContent_kept(4) [THEN subsetD])
  moreover have "staged reg tx1 \<longrightarrow> staged reg tx2" using staged_op [of reg tx1 s "OpAppendEntry ?e bytes"] st(3) by simp
  ultimately have two: "stages reg tx1 tx2 [?e] []" using e by (simp add: stages_def acts_def release_swaps_def)
  have one: "stages reg tx tx1 [] [sequence_swap a]"
    by (rule stages_swap [OF st(1)]) (simp add: sequence_swap_def swap_op_def release_kinds_def)
  from stages_trans [OF stages_trans [OF one two] quiet_outbox [OF st(4)]] show ?thesis by simp
qed

subsection \<open>The three transactions\<close>

definition active_swap :: "string \<Rightarrow> 'a eventArtifacts_scheme \<Rightarrow> string \<Rightarrow> stagedCAS" where
  "active_swap lineageID a marker =
     swap_op HeadSkillActive lineageID (ls_headSeq (ea_state a)) (ls_headDigest (ea_state a)) (ls_headSeq (ea_state a) + 1) marker"

definition version_swap :: "string \<Rightarrow> releaseArtifacts \<Rightarrow> string \<Rightarrow> stagedCAS" where
  "version_swap lineageID a mappingDigest = swap_op HeadLineageVersion lineageID (ra_prevSeq a) (ra_prevMapping a) (ra_version a) mappingDigest"

lemma swap_kinds:
  "cas_kind (active_swap L a d) \<in> set release_kinds" "cas_kind (version_swap L b d) \<in> set release_kinds"
  by (simp_all add: active_swap_def version_swap_def swap_op_def release_kinds_def)

lemma write_activation_stages:
  assumes "write_activation ev s inp rd a tx = (Inr u, tx')" "eg_registry (as_proposals s) = as_registry s"
  obtains d canonical ob where "canonicalize (as_registry s) (ra_mappingBytes a) = Inr (canonical, d, ob)"
    "stages (as_registry s) tx tx' [event_entry a]
       [version_swap (ai_lineageID inp) a d, active_swap (ai_lineageID inp) a (sar_artifact_digest (ra_released a)), sequence_swap a]"
    "\<exists>put \<in> set (tx_puts tx'). sc_digest put = d"
proof -
  let ?reg = "as_registry s"
  obtain u1 tx1 d tx2 u2 tx3 u3 tx4 u4 tx5 info where st:
    "stageDecision ?reg (rd 5) (rd 6) (ai_decision inp) tx = (Inr u1, tx1)" "PutContent ?reg (ra_mappingBytes a) tx1 = (Inr d, tx2)"
    "CompareAndSwapHead ?reg (version_swap (ai_lineageID inp) a d) tx2 = (Inr u2, tx3)"
    "CompareAndSwapHead ?reg (active_swap (ai_lineageID inp) a (sar_artifact_digest (ra_released a))) tx3 = (Inr u3, tx4)"
    "stage_event ?reg (rd 7) a tx4 = (Inr u4, tx5)"
    "stageTransition ev (as_proposals s) (rd 8) (rd 9) (ai_proposal inp) StateActivationPending StateReleased (release_records inp (ra_released a)) tx5 =
       (Inr info, tx')"
    using assms(1) by (auto simp: write_activation_def tx_then_Inr active_swap_def version_swap_def AppendTransitionTx_def Let_def)
  obtain canonical ob where c: "canonicalize ?reg (ra_mappingBytes a) = Inr (canonical, d, ob)" "tx2 = stageContent d canonical tx1"
    using st(2) by (auto simp: PutContent_def split: sum.splits prod.splits)
  have "stages ?reg tx tx2 [] []" using stages_trans [OF quiet_decision [OF st(1)] quiet_put [OF st(2)]] by simp
  from stages_trans [OF this stages_swap [OF st(3) swap_kinds(2)]] stages_swap [OF st(4) swap_kinds(1)]
  have "stages ?reg tx tx4 [] [version_swap (ai_lineageID inp) a d, active_swap (ai_lineageID inp) a (sar_artifact_digest (ra_released a))]"
    using stages_trans by fastforce
  from stages_trans [OF this stages_event [OF st(5)]] quiet_transition [OF st(6)]
  have "stages ?reg tx tx' [event_entry a]
       [version_swap (ai_lineageID inp) a d, active_swap (ai_lineageID inp) a (sar_artifact_digest (ra_released a)), sequence_swap a]"
    unfolding assms(2) using stages_trans by fastforce
  moreover have "\<exists>put \<in> set (tx_puts tx2). sc_digest put = d" unfolding c(2) using stageContent_sets(4) .
  then have "\<exists>put \<in> set (tx_puts tx'). sc_digest put = d"
    using stages_swap [OF st(3) swap_kinds(2)] stages_swap [OF st(4) swap_kinds(1)] stages_event [OF st(5)] quiet_transition [OF st(6)]
    unfolding stages_def by blast
  ultimately show thesis using that c(1) by blast
qed

text \<open>The whole write set: the event, the swap of the lineage's active head, the swap of the sequence head and, for a release, the swap of the version head.\<close>

definition writes :: "registry \<Rightarrow> Tx \<Rightarrow> 'a eventArtifacts_scheme \<Rightarrow> string \<Rightarrow> string \<Rightarrow> stagedCAS list \<Rightarrow> bool" where
  "writes reg tx a lineageID marker versions = (staged reg tx \<and> \<not> tx_replay tx \<and> acts tx = [event_entry a] \<and>
     mset (release_swaps tx) = mset ([active_swap lineageID a marker, sequence_swap a] @ versions))"

text \<open>A transaction at its start, or after the idempotency record was staged.\<close>

definition started :: "registry \<Rightarrow> Tx \<Rightarrow> IdempotencyRecord list \<Rightarrow> bool" where
  "started reg tx idems = (staged reg tx \<and> acts tx = [] \<and> release_swaps tx = [] \<and> \<not> tx_replay tx \<and> tx_idem tx = idems)"

lemma started_new: "started reg new_tx []"
  by (simp add: started_def acts_def release_swaps_def staged_from.begin_tx) (simp add: new_tx_def)

lemma started_writes:
  assumes "started reg tx1 idems" "stages reg tx1 tx [event_entry a] ops" "mset ops = mset ([active_swap lineageID a marker, sequence_swap a] @ versions)"
  shows "writes reg tx a lineageID marker versions" "tx_idem tx = idems"
  using assms by (simp_all add: stages_def writes_def started_def)

lemma record_Inr:
  assumes "RecordIdempotency reg s key d outcome new_tx = (Inr r, tx)"
  shows "case r of None \<Rightarrow> started reg tx [\<lparr>ir_key = key, ir_digest = d, ir_outcome = outcome\<rparr>] \<and> LookupIdem s key = None
    | Some prior \<Rightarrow> tx = new_tx\<lparr>tx_replay := True, tx_replay_key := key\<rparr> \<and> staged reg tx \<and>
        (\<exists>prec. LookupIdem s key = Some prec \<and> ir_digest prec = d \<and> prior = ir_outcome prec)"
proof -
  have st: "staged reg tx" using staged_op [OF staged_from.begin_tx, of reg s "OpRecordIdempotency key d outcome"] assms by simp
  show ?thesis
  proof (cases r)
    case None
    with assms have "LookupIdem s key = None \<and> tx = new_tx\<lparr>tx_idem_seen := gput key d (tx_idem_seen new_tx),
        tx_idem := tx_idem new_tx @ [\<lparr>ir_key = key, ir_digest = d, ir_outcome = outcome\<rparr>]\<rparr>"
      by (auto simp: RecordIdempotency_def new_tx_def split: if_splits option.splits)
    with None st show ?thesis by (simp add: started_def acts_def release_swaps_def new_tx_def)
  next
    case (Some prior)
    with assms st show ?thesis by (auto simp: RecordIdempotency_def split: if_splits option.splits)
  qed
qed

lemma activate_callback_cases:
  assumes "activate_callback ev s inp rd new_tx = (Inr r, tx)" "eg_registry (as_proposals s) = as_registry s"
  obtains (replayed) a prec where "activate_artifacts ev s inp rd new_tx = Inr a" "LookupIdem (rd 4) (''activation:'' @ dv_id (ai_decision inp)) = Some prec"
      "ir_digest prec = ea_requestDigest a" "decodeReleaseResult (ir_outcome prec) = Inr r" "tx_replay tx" "staged (as_registry s) tx"
  | (released) a d canonical ob where "activate_artifacts ev s inp rd new_tx = Inr a" "ai_proposalState inp = StateActivationPending"
      "expectActiveHead (ea_state a) (ai_expected inp) = Inr ()" "r = release_result a"
      "canonicalize (as_registry s) (ra_mappingBytes a) = Inr (canonical, d, ob)" "\<exists>put \<in> set (tx_puts tx). sc_digest put = d"
      "writes (as_registry s) tx a (ai_lineageID inp) (sar_artifact_digest (ra_released a)) [version_swap (ai_lineageID inp) a d]"
      "LookupIdem (rd 4) (''activation:'' @ dv_id (ai_decision inp)) = None"
      "tx_idem tx = [\<lparr>ir_key = ''activation:'' @ dv_id (ai_decision inp), ir_digest = ea_requestDigest a, ir_outcome = ea_recorded a\<rparr>]"
proof -
  let ?reg = "as_registry s" and ?key = "''activation:'' @ dv_id (ai_decision inp)"
  obtain a replayed tx1 where a: "activate_artifacts ev s inp rd new_tx = Inr a"
    "RecordIdempotency ?reg (rd 4) ?key (ea_requestDigest a) (ea_recorded a) new_tx = (Inr replayed, tx1)"
    and rest: "(case replayed of
        Some priorOutcome \<Rightarrow> (decodeReleaseResult priorOutcome, tx1)
      | None \<Rightarrow>
          tx_pure (check (ai_proposalState inp = StateActivationPending) (aerr ReasonProposalStateConflict)) tx1 (\<lambda>_ tx.
          tx_pure (expectActiveHead (ea_state a) (ai_expected inp)) tx (\<lambda>_ tx.
          tx_then (write_activation ev s inp rd a tx) (\<lambda>_ tx.
          (Inr (release_result a), tx))))) = (Inr r, tx)"
    using assms(1) by (auto simp: activate_callback_def tx_then_Inr tx_pure_Inr)
  note rec = record_Inr [OF a(2)]
  show thesis
  proof (cases replayed)
    case (Some prior)
    with rec rest show thesis using replayed [OF a(1)] by auto
  next
    case None
    with rec rest obtain u where q: "started ?reg tx1 [\<lparr>ir_key = ?key, ir_digest = ea_requestDigest a, ir_outcome = ea_recorded a\<rparr>]" "ai_proposalState inp = StateActivationPending"
      "expectActiveHead (ea_state a) (ai_expected inp) = Inr ()" "write_activation ev s inp rd a tx1 = (Inr u, tx)" "r = release_result a"
      "LookupIdem (rd 4) ?key = None"
      by (auto simp: tx_then_Inr tx_pure_Inr check_Inr)
    obtain d canonical ob where w: "canonicalize ?reg (ra_mappingBytes a) = Inr (canonical, d, ob)"
      "stages ?reg tx1 tx [event_entry a]
         [version_swap (ai_lineageID inp) a d, active_swap (ai_lineageID inp) a (sar_artifact_digest (ra_released a)), sequence_swap a]"
      "\<exists>put \<in> set (tx_puts tx). sc_digest put = d"
      by (rule write_activation_stages [OF q(4) assms(2)])
    have ops: "mset [version_swap (ai_lineageID inp) a d, active_swap (ai_lineageID inp) a (sar_artifact_digest (ra_released a)), sequence_swap a] =
        mset ([active_swap (ai_lineageID inp) a (sar_artifact_digest (ra_released a)), sequence_swap a] @ [version_swap (ai_lineageID inp) a d])" by simp
    from released [OF a(1) q(2,3,5) w(1,3) started_writes(1) [OF q(1) w(2) ops] q(6) started_writes(2) [OF q(1) w(2) ops]] show thesis .
  qed
qed

lemma deactivate_callback_Inr:
  assumes "deactivate_callback ev s req rd new_tx = (Inr r, tx)"
  obtains a where "deactivate_artifacts ev s req rd new_tx = Inr a" "r = deactivation_result req a"
    "writes (as_registry s) tx a (dq_LineageID req) (ea_eventDigest a) []"
proof -
  let ?reg = "as_registry s"
  obtain a u1 tx1 u2 where st: "deactivate_artifacts ev s req rd new_tx = Inr a" "stage_event ?reg (rd 3) a new_tx = (Inr u1, tx1)"
    "CompareAndSwapHead ?reg (active_swap (dq_LineageID req) a (ea_eventDigest a)) tx1 = (Inr u2, tx)" "r = deactivation_result req a"
    using assms by (auto simp: deactivate_callback_def tx_then_Inr tx_pure_Inr active_swap_def)
  from stages_trans [OF stages_event [OF st(2)] stages_swap [OF st(3) swap_kinds(1)]]
  have "stages ?reg new_tx tx [event_entry a] [sequence_swap a, active_swap (dq_LineageID req) a (ea_eventDigest a)]" by simp
  from started_writes(1) [OF started_new this] have "writes ?reg tx a (dq_LineageID req) (ea_eventDigest a) []" by simp
  with that st(1,4) show thesis .
qed

lemma reactivate_callback_cases:
  assumes "reactivate_callback ev s inp rd new_tx = (Inr r, tx)"
  obtains (replayed) a prec where "reactivate_artifacts ev s inp rd new_tx = Inr a" "LookupIdem (rd 3) (''reactivation:'' @ dv_id (xi_decision inp)) = Some prec"
      "ir_digest prec = ea_requestDigest a" "decodeReleaseResult (ir_outcome prec) = Inr r" "tx_replay tx" "staged (as_registry s) tx"
  | (reactivated) a where "reactivate_artifacts ev s inp rd new_tx = Inr a"
      "expectActiveHead (ea_state a) (xi_expected inp) = Inr ()" "r = reactivation_result inp a"
      "writes (as_registry s) tx a (sar_lineage_id (xi_released inp)) (sar_artifact_digest (xi_released inp)) []"
      "LookupIdem (rd 3) (''reactivation:'' @ dv_id (xi_decision inp)) = None"
      "tx_idem tx = [\<lparr>ir_key = ''reactivation:'' @ dv_id (xi_decision inp), ir_digest = ea_requestDigest a, ir_outcome = ea_recorded a\<rparr>]"
proof -
  let ?reg = "as_registry s" and ?key = "''reactivation:'' @ dv_id (xi_decision inp)" and ?L = "sar_lineage_id (xi_released inp)"
  obtain a replayed tx1 where a: "reactivate_artifacts ev s inp rd new_tx = Inr a"
    "RecordIdempotency ?reg (rd 3) ?key (ea_requestDigest a) (ea_recorded a) new_tx = (Inr replayed, tx1)"
    and rest: "(case replayed of
        Some priorOutcome \<Rightarrow> (decodeReleaseResult priorOutcome, tx1)
      | None \<Rightarrow>
          tx_pure (expectActiveHead (ea_state a) (xi_expected inp)) tx1 (\<lambda>_ tx.
          tx_then (stage_event ?reg (rd 4) a tx) (\<lambda>_ tx.
          tx_then (CompareAndSwapHead ?reg (active_swap ?L a (sar_artifact_digest (xi_released inp))) tx) (\<lambda>_ tx.
          (Inr (reactivation_result inp a), tx))))) = (Inr r, tx)"
    using assms(1) unfolding reactivate_callback_def tx_then_Inr [where f = "\<lambda>replayed tx. case replayed of None \<Rightarrow> _ tx | Some p \<Rightarrow> _ p tx"]
      tx_pure_Inr [of "reactivate_artifacts ev s inp rd new_tx"] active_swap_def by blast
  note rec = record_Inr [OF a(2)]
  show thesis
  proof (cases replayed)
    case (Some prior)
    with rec rest show thesis using replayed [OF a(1)] by auto
  next
    case None
    with rec rest obtain u1 tx2 u2 where q: "started ?reg tx1 [\<lparr>ir_key = ?key, ir_digest = ea_requestDigest a, ir_outcome = ea_recorded a\<rparr>]"
      "expectActiveHead (ea_state a) (xi_expected inp) = Inr ()"
      "stage_event ?reg (rd 4) a tx1 = (Inr u1, tx2)"
      "CompareAndSwapHead ?reg (active_swap ?L a (sar_artifact_digest (xi_released inp))) tx2 = (Inr u2, tx)" "r = reactivation_result inp a"
      "LookupIdem (rd 3) ?key = None"
      by (auto simp: tx_then_Inr tx_pure_Inr)
    from stages_trans [OF stages_event [OF q(3)] stages_swap [OF q(4) swap_kinds(1)]]
    have sg: "stages ?reg tx1 tx [event_entry a] [sequence_swap a, active_swap ?L a (sar_artifact_digest (xi_released inp))]" by simp
    have ops: "mset [sequence_swap a, active_swap ?L a (sar_artifact_digest (xi_released inp))] =
        mset ([active_swap ?L a (sar_artifact_digest (xi_released inp)), sequence_swap a] @ [])" by simp
    from reactivated [OF a(1) q(2,5) started_writes(1) [OF q(1) sg ops] q(6) started_writes(2) [OF q(1) sg ops]] show thesis .
  qed
qed

end
