(* ===== verification/Release_Log.thy ===== *)
theory Release_Log
  imports Release_Stages
begin

text \<open>
  How the committed release state changes: a commit with the write set of a release moves the three heads and the activation stream together, and
  the mapping records of a lineage form a chain behind its version head.
\<close>

subsection \<open>What the artifacts are\<close>

lemma outbox_text: "deriveOutboxKey op identity sq = Inr key \<Longrightarrow> valid_text key"
  by (rule valid_digest) (auto simp: deriveOutboxKey_def DigestOf_def and_then_Inr digest_bytes_pattern)

lemma buildMappingRecord_Inr:
  "buildMappingRecord L v r c dec prev = Inr (doc, bytes) \<longleftrightarrow> doc = mapping_doc L v r c dec prev \<and> marshal (GObject doc) = Inr bytes"
  by (auto simp: buildMappingRecord_def Let_def simp del: marshal.simps split: sum.splits)

lemma digest_Inr: "(case r of Inl e \<Rightarrow> Inl err | Inr d \<Rightarrow> Inr d) = Inr q \<longleftrightarrow> r = Inr q"
  by (cases r) simp_all

lemma activate_artifacts_Inr:
  assumes "activate_artifacts ev s inp rd tx = Inr a"
  obtains d where "replayLineage (rd 0) (ai_lineageID inp) = Inr (ea_state a)"
    "nextVersion (rd 1) (ai_lineageID inp) = Inr (ra_version a, ra_prevSeq a, ra_prevMapping a)" "ra_released a = released_ref inp (ra_version a)"
    "ra_mapping a = mapping_doc (ai_lineageID inp) (ra_version a) (ra_released a) (ai_candidate inp) (decision_ref (ai_decision inp)) (ra_prevMapping a)"
    "marshal (GObject (ra_mapping a)) = Inr (ra_mappingBytes a)"
    "ea_eventID a = ''act-'' @ dv_id (ai_decision inp) @ ''-'' @ ai_lineageID inp @ ''-v'' @ format_uint (ra_version a)"
    "valid_text (ea_outboxKey a)"
    "buildActivationEvent ev s (activate_spec inp (ea_state a) (ra_version a) (ea_sequence a) (ea_eventID a) (ea_outboxKey a)) = Inr (ea_event a, d)"
    "payloadDigest (ea_event a) = Inr (ea_eventDigest a)" "DigestOf (GObject (activate_request inp)) = Inr (ea_requestDigest a)"
    "marshalDoc (outcome_doc (ra_released a) (ea_sequence a) (ea_eventID a) (ea_eventDigest a) (ea_outboxKey a) (ls_active (ea_state a))) = Inr (ea_recorded a)"
  using assms unfolding activate_artifacts_def Let_def
  by (auto simp: and_then_Inr outbox_text buildMappingRecord_Inr digest_Inr simp del: marshal.simps split: prod.splits)

lemma deactivate_artifacts_Inr:
  assumes "deactivate_artifacts ev s req rd tx = Inr a"
  obtains d where "replayLineage (rd 0) (dq_LineageID req) = Inr (ea_state a)" "ls_active (ea_state a) = Some (dq_SkillRef req)"
    "ea_eventID a = ''deact-'' @ vr_id (dq_Authorization req) @ ''-'' @ dq_LineageID req" "valid_text (ea_outboxKey a)"
    "buildActivationEvent ev s (deactivate_spec req (ea_state a) (ea_sequence a) (ea_eventID a) (ea_outboxKey a)) = Inr (ea_event a, d)"
    "payloadDigest (ea_event a) = Inr (ea_eventDigest a)"
  using assms unfolding deactivate_artifacts_def Let_def
  by (auto simp: and_then_Inr check_Inr outbox_text split: prod.splits)

lemma reactivate_artifacts_Inr:
  assumes "reactivate_artifacts ev s inp rd tx = Inr a"
  obtains d where "replayLineage (rd 0) (sar_lineage_id (xi_released inp)) = Inr (ea_state a)"
    "ea_eventID a = ''act-'' @ dv_id (xi_decision inp) @ ''-'' @ sar_lineage_id (xi_released inp) @ ''-v'' @ sar_version (xi_released inp) @ ''-reactivate''"
    "valid_text (ea_outboxKey a)"
    "buildActivationEvent ev s (reactivate_spec inp (ea_state a) (ea_sequence a) (ea_eventID a) (ea_outboxKey a)) = Inr (ea_event a, d)"
    "payloadDigest (ea_event a) = Inr (ea_eventDigest a)" "DigestOf (GObject (reactivate_request inp)) = Inr (ea_requestDigest a)"
    "marshalDoc (outcome_doc (xi_released inp) (ea_sequence a) (ea_eventID a) (ea_eventDigest a) (ea_outboxKey a) (ls_active (ea_state a))) = Inr (ea_recorded a)"
  using assms unfolding reactivate_artifacts_def Let_def
  by (auto simp: and_then_Inr outbox_text digest_Inr split: prod.splits)

lemma expect_active: "expectActiveHead st expected = Inr () \<longleftrightarrow> ls_active st = expected"
  by (auto simp: expectActiveHead_def check_Inr split: option.splits)

subsection \<open>Heads in a commit\<close>

lemma headKey_inj:
  assumes "map_of headKinds k \<noteq> None" "map_of headKinds k' \<noteq> None"
  shows "headKey k x = headKey k' x' \<longleftrightarrow> k = k' \<and> x = x'"
proof -
  have no_sep: "CHR 0x1F \<notin> set y" if "map_of headKinds y \<noteq> None" for y
  proof -
    have "y \<in> fst ` set headKinds" using that by (metis map_of_eq_None_iff)
    then show ?thesis by (auto simp: headKinds_def)
  qed
  have split: "takeWhile (\<lambda>c. c \<noteq> CHR 0x1F) (headKey y z) = y \<and> dropWhile (\<lambda>c. c \<noteq> CHR 0x1F) (headKey y z) = CHR 0x1F # z"
    if "map_of headKinds y \<noteq> None" for y z
  proof -
    have "\<forall>c \<in> set y. c \<noteq> CHR 0x1F" using no_sep [OF that] by auto
    then show ?thesis by (simp add: headKey_def takeWhile_append2 dropWhile_append2)
  qed
  show ?thesis using split [OF assms(1), of x] split [OF assms(2), of x'] by (metis list.inject)
qed

lemma staged_kinds: "staged reg tx \<Longrightarrow> op \<in> set (tx_cas tx) \<Longrightarrow> map_of headKinds (cas_kind op) \<noteq> None"
proof (induction rule: staged_from.induct)
  case (stage tx s op')
  then show ?case
    by (cases op') (auto simp: PutContent_def AppendEvent_def AppendEntry_def CompareAndSwapHead_def EnqueueOutbox_def RecordIdempotency_def
        Let_def split: sum.splits prod.splits option.splits if_splits)
qed (simp add: new_tx_def)

lemma release_kinds_known: "k \<in> set release_kinds \<Longrightarrow> map_of headKinds k \<noteq> None"
  by (auto simp: release_kinds_def headKinds_def)

lemma head_swaps:
  assumes "staged reg tx" "k \<in> set release_kinds"
  shows "filter (on_head (headKey k key)) (tx_cas tx) = filter (\<lambda>op. cas_kind op = k \<and> cas_key op = key) (release_swaps tx)"
  unfolding release_swaps_def filter_filter
proof (rule filter_cong [OF refl])
  fix op
  assume "op \<in> set (tx_cas tx)"
  from staged_kinds [OF assms(1) this] release_kinds_known [OF assms(2)] assms(2)
  show "on_head (headKey k key) op = (cas_kind op \<in> set release_kinds \<and> cas_kind op = k \<and> cas_key op = key)"
    by (auto simp: on_head_def headKey_inj)
qed

lemma fold_swap_head:
  "map_of (fold swap_head ops m) hk = (case filter (on_head hk) ops of [] \<Rightarrow> map_of m hk
     | fs \<Rightarrow> Some \<lparr>hs_seq = cas_new_seq (last fs), hs_digest = cas_new_digest (last fs)\<rparr>)"
proof (induction ops rule: rev_induct)
  case (snoc op ops)
  then show ?case by (auto simp: swap_head_def on_head_def split: list.splits)
qed simp

lemma find_single: "filter P xs = [x] \<Longrightarrow> find P xs = Some x"
  by (induction xs) (auto split: if_splits)

lemma commit_head:
  assumes "store_ok s" "staged reg tx" "\<not> tx_replay tx" "commit reg tx s = (Inr u, s')"
  shows "filter (on_head hk) (tx_cas tx) = [] \<Longrightarrow> map_of (ms_heads s') hk = map_of (ms_heads s) hk"
    "filter (on_head hk) (tx_cas tx) = [op] \<Longrightarrow> head_pair s hk = (cas_expected_seq op, cas_expected_digest op) \<and>
       head_pair s' hk = (cas_new_seq op, cas_new_digest op) \<and> cas_new_seq op = cas_expected_seq op + 1"
proof -
  note ok = staged_ok [OF assms(2)]
  have heads: "ms_heads s' = fold swap_head (tx_cas tx) (ms_heads s)"
    using commit_cases [OF assms(1) ok assms(4)] assms(3) by (simp add: written_def)
  show "filter (on_head hk) (tx_cas tx) = [] \<Longrightarrow> map_of (ms_heads s') hk = map_of (ms_heads s) hk" by (simp add: heads fold_swap_head)
  note swapped = commit_heads [OF assms(1) ok assms(3,4), of hk]
  assume f: "filter (on_head hk) (tx_cas tx) = [op]"
  then have "find (on_head hk) (tx_cas tx) = Some op" by (rule find_single)
  then show "head_pair s hk = (cas_expected_seq op, cas_expected_digest op) \<and>
       head_pair s' hk = (cas_new_seq op, cas_new_digest op) \<and> cas_new_seq op = cas_expected_seq op + 1"
    using swapped f by (simp add: head_pair_def heads fold_swap_head)
qed

subsection \<open>Mapping records\<close>

definition decision_text :: "decisionView \<Rightarrow> bool" where
  "decision_text dv = (valid_text (dv_id dv) \<and> valid_text (dv_digest dv) \<and> (dv_version dv = [] \<or> integerForm (dv_version dv)))"

lemma decision_ref_text: "decision_text dv \<Longrightarrow> ref_text (decision_ref dv)"
  using one_form by (auto simp: decision_text_def decision_ref_def ref_text_def)

lemma mapping_readable:
  assumes "valid_text L" "skill_text r" "candidate_text c" "ref_text dec" "prev = [] \<or> digestPattern prev"
  shows "readable (mapping_doc L v r c dec prev)"
proof (rule readable_fields)
  show "gmap_ok (mapping_doc L v r c dec prev)" by (simp add: mapping_doc_def gmap_ok_def)
  have two: "embeds 1 w \<Longrightarrow> embeds 2 w" for w by (erule embeds_mono) simp
  have "embeds 2 (GObject (skillRefDoc r))" "embeds 2 (GObject (versionedRefDoc dec))" "embeds 2 (GObject (candidateRefDoc c))" "valid_text (sar_kind r)"
    using two embeds_refs assms(2-4) kind_texts(1) by (auto simp: skill_text_def sar_ok_def)
  then show "valid_text (fst p) \<and> fst p \<noteq> ''source_skill_refs'' \<and> embeds 2 (snd p)" if "p \<in> set (mapping_doc L v r c dec prev)" for p
    using that assms(1,5) format_uint_facts(1) valid_digest by (auto simp: mapping_doc_def valid_text_ascii split: if_splits)
qed

text \<open>What the mapping record of a released revision says; \<open>n\<close> is its version number.\<close>

definition maps_to :: "gobj \<Rightarrow> SkillArtifactRef \<Rightarrow> nat \<Rightarrow> bool" where
  "maps_to m r n = (jsonDigits (gidx m ''version'') = format_uint (word_of_nat n) \<and> ParseSkillArtifactRef (obj_or_nil (gidx m ''released_ref'')) = Inr r \<and>
     sar_version r = format_uint (word_of_nat n) \<and> gidx m ''body_digest_equal'' = GBool True)"

text \<open>The chain behind a version head, newest revision first.\<close>

fun mapping_chain :: "MemoryStore \<Rightarrow> string \<Rightarrow> string \<Rightarrow> SkillArtifactRef list \<Rightarrow> bool" where
  "mapping_chain s L d [] = (d = [])"
| "mapping_chain s L d (r # rs) = (sar_lineage_id r = L \<and> skill_text r \<and> (\<exists>m. resolveMapping s d = Inr m \<and> maps_to m r (Suc (length rs)) \<and>
     mapping_chain s L (str_or_empty (gidx m ''previous_mapping_digest'')) rs))"

lemma resolveMapping_grows: "extends s t \<Longrightarrow> resolveMapping s d = Inr m \<Longrightarrow> resolveMapping t d = Inr m"
proof -
  assume ext: "extends s t" and res: "resolveMapping s d = Inr m"
  then obtain raw where "Get s d = Some raw" by (cases "Get s d") (auto simp: resolveMapping_def)
  moreover from this ext have "Get t d = Some raw" by (auto simp: Get_def extends_def map_le_def dom_def)
  ultimately show "resolveMapping t d = Inr m" using res by (simp add: resolveMapping_def)
qed

lemma chain_grows: "extends s t \<Longrightarrow> mapping_chain s L d rs \<Longrightarrow> mapping_chain t L d rs"
  by (induction rs arbitrary: d) (auto dest: resolveMapping_grows)

lemma format_uint_inj: "format_uint a = format_uint b \<Longrightarrow> a = b"
  by (metis option.inject scan_uint_format)

lemma chain_member:
  assumes "mapping_chain s L d rs" "r \<in> set rs"
  shows "sar_lineage_id r = L" "skill_text r"
  using assms by (induction rs arbitrary: d) auto

text \<open>The walk of the code finds the record of every revision of the chain, and nothing else.\<close>

lemma chain_digest: "mapping_chain s L d (r # rs) \<Longrightarrow> store_ok s \<Longrightarrow> d \<noteq> []"
proof
  assume "mapping_chain s L d (r # rs)" "store_ok s" "d = []"
  then obtain raw where "map_of (ms_content s) [] = Some raw" by (auto simp: resolveMapping_def Get_def split: option.splits)
  with \<open>store_ok s\<close> have "DigestBytes raw = []" by (simp add: store_ok_def)
  with digest_bytes_pattern [of raw] show False by (simp add: digestPattern_def)
qed

lemma walk_finds:
  assumes "mapping_chain s L d rs" "r \<in> set rs" "length rs \<le> hops" "length rs < 2 ^ 64" "store_ok s"
  shows "\<exists>m n. walk_mappings s (sar_version r) hops d = Inr (Some m) \<and> maps_to m r n"
  using assms
proof (induction rs arbitrary: d hops)
  case (Cons r' rs)
  obtain hops' where hops: "hops = Suc hops'" using Cons.prems(3) by (cases hops) auto
  obtain m where m: "resolveMapping s d = Inr m" "maps_to m r' (Suc (length rs))"
    "mapping_chain s L (str_or_empty (gidx m ''previous_mapping_digest'')) rs" using Cons.prems(1) by auto
  have d: "d \<noteq> []" by (rule chain_digest [OF Cons.prems(1,5)])
  show ?case
  proof (cases "jsonDigits (gidx m ''version'') = sar_version r")
    case True
    have "r = r'"
    proof (rule ccontr)
      assume "r \<noteq> r'"
      with Cons.prems(2) have r: "r \<in> set rs" by simp
      have older: "r \<in> set rs \<Longrightarrow> mapping_chain s L d' rs \<Longrightarrow> \<exists>n. 1 \<le> n \<and> n \<le> length rs \<and> sar_version r = format_uint (word_of_nat n)" for d'
        by (induction rs arbitrary: d') (auto simp: maps_to_def intro: exI [of _ "Suc _"] le_SucI)
      obtain n where n: "n \<le> length rs" "sar_version r = format_uint (word_of_nat n)" using older [OF r m(3)] by blast
      with True m(2) have "(word_of_nat n :: uint64) = word_of_nat (Suc (length rs))" by (auto simp: maps_to_def dest: format_uint_inj)
      moreover have "Suc (length rs) < 2 ^ 64" using Cons.prems(4) by simp
      ultimately have "n = Suc (length rs)" using n(1) by (metis le_imp_less_Suc less_trans unat_of_nat64)
      with n(1) show False by simp
    qed
    with True m d show ?thesis by (auto simp: hops)
  next
    case False
    then have "r \<noteq> r'" using m(2) by (auto simp: maps_to_def)
    with Cons.prems(2) have "r \<in> set rs" by simp
    from Cons.IH [OF m(3) this, of hops'] Cons.prems(3-5) False m(1) d show ?thesis by (auto simp: hops)
  qed
qed simp

lemma walk_found:
  assumes "mapping_chain s L d rs" "walk_mappings s v hops d = Inr (Some m)"
  shows "\<exists>r \<in> set rs. \<exists>n. maps_to m r n"
  using assms
proof (induction rs arbitrary: d hops)
  case Nil
  then show ?case by (cases hops) auto
next
  case (Cons r rs)
  then obtain hops' where hops: "hops = Suc hops'" by (cases hops) auto
  obtain m1 where m1: "resolveMapping s d = Inr m1" "maps_to m1 r (Suc (length rs))"
    "mapping_chain s L (str_or_empty (gidx m1 ''previous_mapping_digest'')) rs" using Cons.prems(1) by auto
  show ?case
  proof (cases "jsonDigits (gidx m1 ''version'') = v")
    case True
    with Cons.prems(2) m1 show ?thesis by (auto simp: hops split: if_splits)
  next
    case False
    with Cons.prems(2) m1(1) have "walk_mappings s v hops' (str_or_empty (gidx m1 ''previous_mapping_digest'')) = Inr (Some m)"
      by (auto simp: hops split: if_splits)
    from Cons.IH [OF m1(3) this] show ?thesis by auto
  qed
qed

end
