(* ===== verification/Release_Invariant.thy ===== *)
theory Release_Invariant
  imports Release_Log
begin

text \<open>
  The invariant of the release state: the replay of every lineage agrees with its active head, the sequence head is the end of the activation
  stream, and every active revision has its mapping record in the chain behind the version head.
\<close>

subsection \<open>A new mapping record\<close>

lemma chain_cons:
  assumes "readable (mapping_doc L v r c dec prev)" "Get s d = Some (out (GObject (mapping_doc L v r c dec prev)))" "skill_text r" "sar_lineage_id r = L"
    "sar_version r = format_uint v" "v = word_of_nat (Suc (length rs))" "mapping_chain s L prev rs"
  shows "mapping_chain s L d (r # rs)"
proof -
  let ?m = "mapping_doc L v r c dec prev"
  obtain n where n: "ParseJSONStrict (out (GObject ?m)) = Inr (GObject n)" "\<And>k. map_of n k = map_option canon (map_of ?m k)"
    by (rule readable_parse [OF assms(1)]) blast
  have f: "gidx n ''schema_version'' = GString SchemaReleaseMapping" "gidx n ''version'' = canon (GNumber (format_uint v))"
    "gidx n ''released_ref'' = canon (GObject (skillRefDoc r))" "gidx n ''body_digest_equal'' = GBool True"
    by (simp_all add: gidx_def n(2) mapping_doc_def)
  have prev: "str_or_empty (gidx n ''previous_mapping_digest'') = prev"
    by (simp add: gidx_def n(2) mapping_doc_def str_or_empty_def AsString_def)
  have sar: "sar_ok r" using assms(3) by (simp add: skill_text_def)
  then have "norm_number (format_uint v) = format_uint v" using version_norm assms(5) by (simp add: sar_ok_def)
  with f skill_doc_read(2) [OF sar] assms(5,6) have "maps_to n r (Suc (length rs))" by (simp add: maps_to_def jsonDigits_def)
  moreover have "resolveMapping s d = Inr n"
    using assms(2) n(1) f(1) by (simp add: resolveMapping_def AsObject_def str_or_empty_def AsString_def and_then_Inr check_Inr)
  ultimately show ?thesis using assms(3,4,7) prev by auto
qed

lemma version_format: "v \<noteq> 0 \<Longrightarrow> version_ok (format_uint v)"
proof -
  assume v: "v \<noteq> 0"
  have "big_set_string (format_uint v) = Some (uint v)" by (simp add: format_uint_def format_int_form)
  moreover have "uint v \<noteq> 0" "0 \<le> uint v" using v by (simp_all add: uint_0_iff)
  then have "1 \<le> uint v" by linarith
  ultimately show ?thesis by (simp add: version_ok_def format_uint_facts(1))
qed

subsection \<open>The invariant\<close>

definition version_chain :: "MemoryStore \<Rightarrow> string \<Rightarrow> SkillArtifactRef list \<Rightarrow> bool" where
  "version_chain s L rs = (fst (head_pair s (headKey HeadLineageVersion L)) = word_of_nat (length rs) \<and>
     mapping_chain s L (snd (head_pair s (headKey HeadLineageVersion L))) rs)"

definition lineage_ok :: "MemoryStore \<Rightarrow> string \<Rightarrow> lineageState \<Rightarrow> SkillArtifactRef list \<Rightarrow> bool" where
  "lineage_ok s L st rs = (replayLineage s L = Inr st \<and> head_pair s (headKey HeadSkillActive L) = (ls_headSeq st, ls_headDigest st) \<and>
     version_chain s L rs \<and> length rs \<le> length (entries_at s activation_key) \<and> (\<forall>r. ls_active st = Some r \<longrightarrow> r \<in> set rs))"

definition end_of :: "Entry list \<Rightarrow> uint64 \<times> string" where
  "end_of es = (if es = [] then (0, []) else (en_seq (last es), en_digest (last es)))"

definition release_inv :: "registry \<Rightarrow> string set \<Rightarrow> MemoryStore \<Rightarrow> bool" where
  "release_inv reg T s = (ledger_ok reg s \<and> snd ` set (ms_content s) \<subseteq> T \<and>
     head_pair s (headKey HeadActivationSequence activationStreamKey) = end_of (entries_at s activation_key) \<and> (\<forall>L. \<exists>st rs. lineage_ok s L st rs))"

lemma lineage_refs_text: "lineage_ok s L st rs \<Longrightarrow> ls_active st = Some r \<Longrightarrow> skill_text r \<and> sar_lineage_id r = L"
  using chain_member by (auto simp: lineage_ok_def version_chain_def)

lemma replay_lineage_grows:
  "extends s s' \<Longrightarrow> entries_at s' activation_key = entries_at s activation_key \<Longrightarrow> replayLineage s L = Inr st \<Longrightarrow> replayLineage s' L = Inr st"
  unfolding replayLineage_eq using lineages.replay_grows by simp

text \<open>A step that leaves the activation stream and the three kinds of heads alone.\<close>

definition release_same :: "MemoryStore \<Rightarrow> MemoryStore \<Rightarrow> bool" where
  "release_same s s' = (extends s s' \<and> entries_at s' activation_key = entries_at s activation_key \<and>
     (\<forall>k \<in> set release_kinds. \<forall>key. map_of (ms_heads s') (headKey k key) = map_of (ms_heads s) (headKey k key)))"

lemma release_same_heads: "release_same s s' \<Longrightarrow> k \<in> set release_kinds \<Longrightarrow> head_pair s' (headKey k key) = head_pair s (headKey k key)"
  by (simp add: release_same_def head_pair_def)

lemma release_same_lineage: "release_same s s' \<Longrightarrow> lineage_ok s L st rs \<Longrightarrow> lineage_ok s' L st rs"
  using replay_lineage_grows chain_grows
  by (auto simp: lineage_ok_def version_chain_def release_same_heads release_kinds_def) (auto simp: release_same_def)

lemma release_same_inv:
  assumes "release_same s s'" "release_inv reg T s" "ledger_ok reg s'" "snd ` set (ms_content s') \<subseteq> T"
  shows "release_inv reg T s'"
proof -
  have "\<exists>st rs. lineage_ok s' L st rs" for L using release_same_lineage [OF assms(1)] assms(2) by (auto simp: release_inv_def) metis
  moreover have "head_pair s' (headKey HeadActivationSequence activationStreamKey) = end_of (entries_at s' activation_key)"
    using assms(1,2) release_same_heads [OF assms(1), of HeadActivationSequence] by (simp add: release_inv_def release_kinds_def release_same_def)
  ultimately show ?thesis using assms(3,4) by (simp add: release_inv_def)
qed

subsection \<open>A commit of a release write set\<close>

lemma mset_small: "mset xs = mset ys \<Longrightarrow> length ys \<le> 1 \<Longrightarrow> xs = ys"
  by (cases ys) auto

lemma writes_heads:
  assumes "writes reg tx a L marker versions" "\<forall>op \<in> set versions. cas_kind op = HeadLineageVersion"
  shows "filter (on_head (headKey HeadSkillActive key)) (tx_cas tx) = (if key = L then [active_swap L a marker] else [])"
    "filter (on_head (headKey HeadActivationSequence key)) (tx_cas tx) = (if key = activationStreamKey then [sequence_swap a] else [])"
    "mset (filter (on_head (headKey HeadLineageVersion key)) (tx_cas tx)) = mset (filter (\<lambda>op. cas_key op = key) versions)"
proof -
  let ?all = "[active_swap L a marker, sequence_swap a] @ versions"
  let ?P = "\<lambda>k op. cas_kind op = k \<and> cas_key op = key"
  have st: "staged reg tx" and m: "mset (release_swaps tx) = mset ?all" using assms(1) by (simp_all add: writes_def)
  have f: "mset (filter (on_head (headKey k key)) (tx_cas tx)) = mset (filter (?P k) ?all)" if "k \<in> set release_kinds" for k
    unfolding head_swaps [OF st that] by (simp only: mset_filter m)
  have kinds: "cas_kind (active_swap L a marker) = HeadSkillActive" "cas_key (active_swap L a marker) = L"
    "cas_kind (sequence_swap a) = HeadActivationSequence" "cas_key (sequence_swap a) = activationStreamKey"
    by (simp_all add: active_swap_def sequence_swap_def swap_op_def)
  have none: "filter (?P k) versions = []" if "k \<noteq> HeadLineageVersion" for k using assms(2) that by (auto simp: filter_empty_conv)
  have mem: "HeadSkillActive \<in> set release_kinds" "HeadActivationSequence \<in> set release_kinds" by (simp_all add: release_kinds_def)
  have all: "filter (?P HeadLineageVersion) versions = filter (\<lambda>op. cas_key op = key) versions"
    using assms(2) by (auto intro: filter_cong)
  have "filter (?P HeadSkillActive) ?all = (if key = L then [active_swap L a marker] else [])" using none [of HeadSkillActive] kinds by auto
  from f [OF mem(1), unfolded this] show "filter (on_head (headKey HeadSkillActive key)) (tx_cas tx) = (if key = L then [active_swap L a marker] else [])"
    by (rule mset_small) simp
  have "filter (?P HeadActivationSequence) ?all = (if key = activationStreamKey then [sequence_swap a] else [])"
    using none [of HeadActivationSequence] kinds by auto
  from f [OF mem(2), unfolded this]
  show "filter (on_head (headKey HeadActivationSequence key)) (tx_cas tx) = (if key = activationStreamKey then [sequence_swap a] else [])"
    by (rule mset_small) simp
  have "filter (?P HeadLineageVersion) ?all = filter (\<lambda>op. cas_key op = key) versions" using all kinds by simp
  with f [of HeadLineageVersion] show "mset (filter (on_head (headKey HeadLineageVersion key)) (tx_cas tx)) = mset (filter (\<lambda>op. cas_key op = key) versions)"
    by (simp add: release_kinds_def)
qed

lemma commit_release:
  assumes "release_inv reg T s" "writes reg tx a L marker versions" "\<forall>op \<in> set versions. cas_kind op = HeadLineageVersion"
    "commit reg tx s = (Inr u, s')"
  shows "entries_at s' activation_key = entries_at s activation_key @ [event_entry a]" "Suc (length (entries_at s activation_key)) < 2 ^ 64"
    "head_pair s (headKey HeadSkillActive L) = (ls_headSeq (ea_state a), ls_headDigest (ea_state a))"
    "head_pair s' (headKey HeadSkillActive L) = (ls_headSeq (ea_state a) + 1, marker)"
    "L' \<noteq> L \<Longrightarrow> head_pair s' (headKey HeadSkillActive L') = head_pair s (headKey HeadSkillActive L')"
    "head_pair s' (headKey HeadActivationSequence activationStreamKey) = end_of (entries_at s' activation_key)"
    "ledger_ok reg s'" "extends s s'" "snd ` set (ms_content s') \<subseteq> snd ` set (ms_content s) \<union> sc_canonical ` set (tx_puts tx)"
proof -
  let ?es = "entries_at s activation_key"
  have inv: "ledger_ok reg s" "head_pair s (headKey HeadActivationSequence activationStreamKey) = end_of ?es"
    using assms(1) by (simp_all add: release_inv_def)
  have tx: "staged reg tx" "\<not> tx_replay tx" "acts tx = [event_entry a]" using assms(2) by (simp_all add: writes_def)
  have ok: "store_ok s" using inv(1) by (simp add: ledger_ok_def)
  note hd = commit_head [OF ok tx(1,2) assms(4)]
  have act: "filter (on_head (headKey HeadSkillActive L)) (tx_cas tx) = [active_swap L a marker]"
    using writes_heads(1) [OF assms(2,3), of L] by simp
  have sq: "filter (on_head (headKey HeadActivationSequence activationStreamKey)) (tx_cas tx) = [sequence_swap a]"
    using writes_heads(2) [OF assms(2,3), of activationStreamKey] by simp
  from hd(2) [OF act] show "head_pair s (headKey HeadSkillActive L) = (ls_headSeq (ea_state a), ls_headDigest (ea_state a))"
    "head_pair s' (headKey HeadSkillActive L) = (ls_headSeq (ea_state a) + 1, marker)" by (simp_all add: active_swap_def swap_op_def)
  show "head_pair s' (headKey HeadSkillActive L') = head_pair s (headKey HeadSkillActive L')" if "L' \<noteq> L"
    using hd(1) writes_heads(1) [OF assms(2,3), of L'] that by (simp add: head_pair_def)
  have seqs: "end_of ?es = (fst (ea_ledgerHead a), snd (ea_ledgerHead a))" "ea_sequence a = fst (ea_ledgerHead a) + 1"
    "head_pair s' (headKey HeadActivationSequence activationStreamKey) = (ea_sequence a, ea_eventDigest a)"
    using hd(2) [OF sq] inv(2) by (simp_all add: sequence_swap_def swap_op_def)
  have num: "numbered ?es" using ok by (simp add: store_ok_def)
  have "fst (end_of ?es) = word_of_nat (length ?es)"
    using head_sequence_numbered [OF num] by (auto simp: end_of_def head_sequence_def split: if_splits)
  with seqs(1,2) have at: "en_seq (event_entry a) = word_of_nat (length ?es) + 1" by (simp add: event_entry_def)
  note st = commit_stream [OF ok staged_ok [OF tx(1)] assms(4)]
  from st(1) [of activation_key] tx(2,3) have "entries_at s' activation_key = fold add_entry [event_entry a] ?es" by (auto simp: acts_def)
  with at show grown: "entries_at s' activation_key = ?es @ [event_entry a]" by (simp add: add_entry_def)
  from seqs(3) grown show "head_pair s' (headKey HeadActivationSequence activationStreamKey) = end_of (entries_at s' activation_key)"
    by (simp add: end_of_def event_entry_def)
  have "ledger_step reg s s'" using ledger_step.commits [OF tx(1), of s] assms(4) by simp
  from ledger_ok_step [OF inv(1) this] show led: "ledger_ok reg s'" "extends s s'" by simp_all
  from led(1) have "numbered (entries_at s' activation_key)" by (simp add: ledger_ok_def store_ok_def)
  then show "Suc (length ?es) < 2 ^ 64" by (simp add: grown numbered_def)
  show "snd ` set (ms_content s') \<subseteq> snd ` set (ms_content s) \<union> sc_canonical ` set (tx_puts tx)" by (rule st(2))
qed

text \<open>The event that a commit appended, read back.\<close>

lemma appended_moves:
  assumes "ledger_ok reg s'" "snd ` set (ms_content s') \<subseteq> T" "inj_on DigestBytes T" "spec_text spec" "buildActivationEvent ev svc spec = Inr (ea_event a, d)"
    "payloadDigest (ea_event a) = Inr (ea_eventDigest a)" "out (GObject (ea_event a)) \<in> T" "event_entry a \<in> set (entries_at s' activation_key)"
  shows "moves s' (event_entry a) (sp_lineageID spec) (spec_active spec)
    (if sp_eventType spec = EventTypeActivate then sar_artifact_digest (sp_skillRef spec) else ea_eventDigest a)"
proof -
  have rd: "readable (ea_event a)" by (rule activation_event_readable(1) [OF assms(4,5)])
  have dig: "en_digest (event_entry a) = DigestBytes (out (GObject (ea_event a)))"
    using payloadDigest_readable [OF rd] assms(6) by (simp add: event_entry_def)
  have en: "en_digest (event_entry a) = ea_eventDigest a" by (simp add: event_entry_def)
  have "map_of (ms_content s') (en_digest (event_entry a)) \<noteq> None" using assms(1,8) by (auto simp: ledger_ok_def backed_def)
  then have "Get s' (en_digest (event_entry a)) = Some (out (GObject (ea_event a)))"
    unfolding dig using assms(1-3,7) by (intro stored_text) (simp_all add: ledger_ok_def)
  from event_moves [OF assms(4,5) dig this] show ?thesis unfolding en .
qed

lemma replay_moves:
  assumes "extends s s'" "entries_at s' activation_key = entries_at s activation_key @ [e]" "moves s' e L active marker" "replayLineage s L' = Inr st"
  shows "replayLineage s' L' = (if L' = L then Inr \<lparr>ls_active = active, ls_headSeq = ls_headSeq st + 1, ls_headDigest = marker\<rparr> else Inr st)"
  using lineages.replay_snoc [OF assms(1) _ assms(2)] assms(3,4) unfolding replayLineage_eq moves_def by metis

lemma version_chain_same:
  assumes "version_chain s L rs" "extends s s'" "map_of (ms_heads s') (headKey HeadLineageVersion L) = map_of (ms_heads s) (headKey HeadLineageVersion L)"
  shows "version_chain s' L rs"
  using assms chain_grows by (auto simp: version_chain_def head_pair_def)

text \<open>
  One committed release write set, with its event. What the two kinds of version changes have to show is that the chain of the lineage has the
  revision that becomes active.
\<close>

lemma release_inv_write:
  assumes inv: "release_inv reg T s" and w: "writes reg tx a L marker versions" and vs: "\<forall>op \<in> set versions. cas_kind op = HeadLineageVersion \<and> cas_key op = L"
    and c: "commit reg tx s = (Inr u, s')" and puts: "sc_canonical ` set (tx_puts tx) \<subseteq> T" and inj: "inj_on DigestBytes T"
    and spec: "spec_text spec" "buildActivationEvent ev svc spec = Inr (ea_event a, d)" "payloadDigest (ea_event a) = Inr (ea_eventDigest a)"
      "out (GObject (ea_event a)) \<in> T" "sp_lineageID spec = L"
      "marker = (if sp_eventType spec = EventTypeActivate then sar_artifact_digest (sp_skillRef spec) else ea_eventDigest a)"
    and chain: "version_chain s' L rs'" "length rs' \<le> Suc (length (entries_at s activation_key))" "\<forall>r. spec_active spec = Some r \<longrightarrow> r \<in> set rs'"
  shows "release_inv reg T s'"
    "lineage_ok s' L \<lparr>ls_active = spec_active spec, ls_headSeq = ls_headSeq (ea_state a) + 1, ls_headDigest = marker\<rparr> rs'"
    "\<lbrakk>L' \<noteq> L; lineage_ok s L' st' rs''\<rbrakk> \<Longrightarrow> lineage_ok s' L' st' rs''"
proof -
  have kinds: "\<forall>op \<in> set versions. cas_kind op = HeadLineageVersion" using vs by simp
  note cr = commit_release [OF inv w kinds c]
  have content: "snd ` set (ms_content s') \<subseteq> T" by (rule order_trans [OF cr(9)]) (use inv puts in \<open>simp add: release_inv_def\<close>)
  have "event_entry a \<in> set (entries_at s' activation_key)" using cr(1) by simp
  from appended_moves [OF cr(7) content inj spec(1-4) this] spec(5,6)
  have mv: "moves s' (event_entry a) L (spec_active spec) marker" by simp
  have lin: "\<exists>st rs. lineage_ok s L' st rs" for L' using inv by (simp add: release_inv_def)
  obtain st rs where st: "lineage_ok s L st rs" using lin by blast
  then have now: "replayLineage s L = Inr st" "ls_headSeq st = ls_headSeq (ea_state a)" using cr(3) by (simp_all add: lineage_ok_def)
  from replay_moves [OF cr(8,1) mv now(1)]
  have rep: "replayLineage s' L = Inr \<lparr>ls_active = spec_active spec, ls_headSeq = ls_headSeq (ea_state a) + 1, ls_headDigest = marker\<rparr>" by (simp add: now(2))
  show ok: "lineage_ok s' L \<lparr>ls_active = spec_active spec, ls_headSeq = ls_headSeq (ea_state a) + 1, ls_headDigest = marker\<rparr> rs'"
    unfolding lineage_ok_def using rep cr(1,4) chain by simp
  have tx: "staged reg tx" "\<not> tx_replay tx" using w by (simp_all add: writes_def)
  have sok: "store_ok s" using inv by (simp add: release_inv_def ledger_ok_def)
  show other: "lineage_ok s' L' st' rs''" if "L' \<noteq> L" "lineage_ok s L' st' rs''" for L' st' rs''
  proof -
    have "mset (filter (on_head (headKey HeadLineageVersion L')) (tx_cas tx)) = {#}"
      unfolding writes_heads(3) [OF w kinds] using vs that(1) by (auto simp: filter_empty_conv)
    then have f: "filter (on_head (headKey HeadLineageVersion L')) (tx_cas tx) = []" by simp
    have "version_chain s L' rs''" using that(2) by (simp add: lineage_ok_def)
    then have "version_chain s' L' rs''" using version_chain_same cr(8) commit_head(1) [OF sok tx c f] by blast
    moreover have "replayLineage s' L' = Inr st'" using replay_moves [OF cr(8,1) mv] that by (simp add: lineage_ok_def)
    ultimately show ?thesis using that cr(1,5) by (auto simp: lineage_ok_def)
  qed
  have "\<exists>st rs. lineage_ok s' L' st rs" for L'
  proof (cases "L' = L")
    case False
    with lin [of L'] other show ?thesis by blast
  qed (use ok in blast)
  with cr(6,7) content show "release_inv reg T s'" by (simp add: release_inv_def)
qed

text \<open>No version is assigned: the chain stays what it was.\<close>

lemma unversioned_chain:
  assumes "release_inv reg T s" "writes reg tx a L marker []" "commit reg tx s = (Inr u, s')" "version_chain s L rs"
  shows "version_chain s' L rs"
proof -
  have "filter (on_head (headKey HeadLineageVersion L)) (tx_cas tx) = []" using writes_heads(3) [OF assms(2), of L] by simp
  moreover have "staged reg tx" "\<not> tx_replay tx" "store_ok s" using assms(1,2) by (simp_all add: writes_def release_inv_def ledger_ok_def)
  ultimately have "map_of (ms_heads s') (headKey HeadLineageVersion L) = map_of (ms_heads s) (headKey HeadLineageVersion L)"
    using commit_head(1) assms(3) by blast
  moreover have "extends s s'" by (rule commit_release(8) [OF assms(1,2) _ assms(3)]) simp
  ultimately show ?thesis using version_chain_same assms(4) by blast
qed

text \<open>A version is assigned: the new mapping record is put in front of the chain.\<close>

lemma versioned_chain:
  assumes inv: "release_inv reg T s" and w: "writes reg tx a L marker [version_swap L b d]" and c: "commit reg tx s = (Inr u, s')"
    and puts: "sc_canonical ` set (tx_puts tx) \<subseteq> T" and inj: "inj_on DigestBytes T" and staged: "\<exists>put \<in> set (tx_puts tx). sc_digest put = d"
    and can: "canonicalize reg (ra_mappingBytes b) = Inr (canonical, d, ob)" "marshal (GObject (ra_mapping b)) = Inr (ra_mappingBytes b)"
      "ra_mapping b = mapping_doc L (ra_version b) r cand dec (ra_prevMapping b)" "out (GObject (ra_mapping b)) \<in> T"
    and refs: "valid_text L" "candidate_text cand" "ref_text dec"
    and r: "sar_lineage_id r = L" "sar_version r = format_uint (ra_version b)" "ra_version b \<noteq> 0 \<Longrightarrow> skill_text r"
    and old: "version_chain s L rs" "length rs \<le> length (entries_at s activation_key)"
  shows "version_chain s' L (r # rs)" "skill_text r" "ra_version b = word_of_nat (Suc (length rs))"
proof -
  have kinds: "\<forall>op \<in> set [version_swap L b d]. cas_kind op = HeadLineageVersion" by (simp add: version_swap_def swap_op_def)
  note cr = commit_release [OF inv w kinds c]
  let ?hk = "headKey HeadLineageVersion L"
  have "cas_key (version_swap L b d) = L" by (simp add: version_swap_def swap_op_def)
  then have "mset (filter (on_head ?hk) (tx_cas tx)) = mset [version_swap L b d]" using writes_heads(3) [OF w kinds, of L] by simp
  then have "filter (on_head ?hk) (tx_cas tx) = [version_swap L b d]" by (rule mset_small) simp
  moreover have "staged reg tx" "\<not> tx_replay tx" and sok: "store_ok s" using inv w by (simp_all add: writes_def release_inv_def ledger_ok_def)
  ultimately have hd: "head_pair s ?hk = (ra_prevSeq b, ra_prevMapping b)" "head_pair s' ?hk = (ra_version b, d)" "ra_version b = ra_prevSeq b + 1"
    using commit_head(2) [where hk = ?hk and op = "version_swap L b d"] c by (auto simp: version_swap_def swap_op_def)
  show v: "ra_version b = word_of_nat (Suc (length rs))" using hd(1,3) old(1) by (simp add: version_chain_def)
  have len: "Suc (length rs) < 2 ^ 64" using cr(2) old(2) by simp
  have "ra_version b \<noteq> 0"
  proof
    assume "ra_version b = 0"
    with v have "unat (word_of_nat (Suc (length rs)) :: uint64) = 0" by simp
    with unat_of_nat64 [OF len] show False by simp
  qed
  with r(3) show sk: "skill_text r" by blast
  have prev: "ra_prevMapping b = [] \<or> digestPattern (ra_prevMapping b)"
  proof (cases rs)
    case Nil
    with old(1) hd(1) show ?thesis by (simp add: version_chain_def)
  next
    case (Cons r' rs')
    with old(1) hd(1) obtain raw where "map_of (ms_content s) (ra_prevMapping b) = Some raw"
      by (auto simp: version_chain_def resolveMapping_def Get_def split: option.splits)
    with sok have "DigestBytes raw = ra_prevMapping b" by (simp add: store_ok_def)
    with digest_bytes_pattern [of raw] show ?thesis by simp
  qed
  have rd: "readable (mapping_doc L (ra_version b) r cand dec (ra_prevMapping b))" by (rule mapping_readable [OF refs(1) sk refs(2,3) prev])
  have d: "d = DigestBytes (out (GObject (ra_mapping b)))"
  proof -
    have "readable (ra_mapping b)" using rd can(3) by simp
    from readable_marshal [OF this] readable_canonicalize [OF this, of reg] can(1,2) show ?thesis by auto
  qed
  have content: "snd ` set (ms_content s') \<subseteq> T" by (rule order_trans [OF cr(9)]) (use inv puts in \<open>simp add: release_inv_def\<close>)
  have "map_of (ms_content s') d \<noteq> None"
  proof -
    have "written tx s s'" using commit_cases [OF sok staged_ok c] w by (simp add: writes_def)
    with staged show ?thesis by (auto simp: written_def put_there_def)
  qed
  then have get: "Get s' d = Some (out (GObject (ra_mapping b)))"
    unfolding d using cr(7) content inj can(4) by (intro stored_text) (simp_all add: ledger_ok_def)
  have "mapping_chain s' L (ra_prevMapping b) rs" using old(1) hd(1) chain_grows [OF cr(8)] by (simp add: version_chain_def)
  from chain_cons [OF rd get [unfolded can(3)] sk r(1,2) v this] hd(2) v show "version_chain s' L (r # rs)" by (simp add: version_chain_def)
qed

end
