(* ===== verification/Release_System.thy ===== *)
theory Release_System
  imports Release_Invariant
begin

text \<open>
  The release service among other writers. A state is the history of the store, the current one first: every read of a call sees some committed
  store of the past, not always the same, and the write set is committed on the current one.
\<close>

subsection \<open>Steps\<close>

text \<open>
  What a call is given is text, as strings of decoded documents are. \<open>T\<close> is the set of all texts that are hashed into the content
  store.
\<close>

definition activate_text :: "activateInput \<Rightarrow> bool" where
  "activate_text inp = (valid_text (ai_lineageID inp) \<and> ai_lineageID inp \<noteq> [] \<and> candidate_text (ai_candidate inp) \<and> decision_text (ai_decision inp))"

definition hashed :: "('a eventArtifacts_scheme) res \<Rightarrow> string set" where
  "hashed r = (case r of Inl _ \<Rightarrow> {} | Inr a \<Rightarrow> {out (GObject (ea_event a))})"

definition hashed_mapping :: "releaseArtifacts res \<Rightarrow> string set" where
  "hashed_mapping r = (case r of Inl _ \<Rightarrow> {} | Inr a \<Rightarrow> {out (GObject (ra_mapping a))})"

definition texts_in :: "string set \<Rightarrow> Tx \<Rightarrow> bool" where
  "texts_in T tx = (sc_canonical ` set (tx_puts tx) \<subseteq> T)"

inductive release_step :: "env \<Rightarrow> ActivationService \<Rightarrow> string set \<Rightarrow> MemoryStore list \<Rightarrow> MemoryStore list \<Rightarrow> bool" for ev svc T where
  activates: "\<lbrakk>\<forall>i. rd i \<in> set (s # past); activate_text inp; activate_callback ev svc inp rd new_tx = (Inr r, tx);
     hashed (activate_artifacts ev svc inp rd new_tx) \<subseteq> T; hashed_mapping (activate_artifacts ev svc inp rd new_tx) \<subseteq> T; texts_in T tx\<rbrakk> \<Longrightarrow>
     release_step ev svc T (s # past) (snd (commit (as_registry svc) tx s) # s # past)"
| deactivates: "\<lbrakk>\<forall>i. rd i \<in> set (s # past); ref_text (dq_Authorization req); deactivate_callback ev svc req rd new_tx = (Inr r', tx);
     hashed (deactivate_artifacts ev svc req rd new_tx) \<subseteq> T; texts_in T tx\<rbrakk> \<Longrightarrow>
     release_step ev svc T (s # past) (snd (commit (as_registry svc) tx s) # s # past)"
| reactivates: "\<lbrakk>g \<in> set (s # past); reactivate_guards ev svc request g = Inr xinp; \<forall>i. rd i \<in> set (s # past); decision_text (xi_decision xinp);
     reactivate_callback ev svc xinp rd new_tx = (Inr r, tx); hashed (reactivate_artifacts ev svc xinp rd new_tx) \<subseteq> T; texts_in T tx\<rbrakk> \<Longrightarrow>
     release_step ev svc T (s # past) (snd (commit (as_registry svc) tx s) # s # past)"
| others: "\<lbrakk>staged (as_registry svc) tx; acts tx = []; release_swaps tx = []; texts_in T tx\<rbrakk> \<Longrightarrow>
     release_step ev svc T (s # past) (snd (commit (as_registry svc) tx s) # s # past)"
| delivers: "release_step ev svc T (s # past) (snd (MarkDelivered key sq digest s) # s # past)"
| projects: "release_step ev svc T (s # past) (snd (CompareAndSwap ''projection'' key es ed ns nd s) # s # past)"

inductive_cases release_stepE: "release_step ev svc T (s # past) hist'"

subsection \<open>One step\<close>

text \<open>What a step shows of the release state.\<close>

definition release_moves :: "registry \<Rightarrow> string set \<Rightarrow> MemoryStore \<Rightarrow> MemoryStore \<Rightarrow> bool" where
  "release_moves reg T s s' = (release_inv reg T s' \<and> extends s s' \<and>
     (\<forall>L st rs. lineage_ok s L st rs \<longrightarrow> (\<exists>st' pre. lineage_ok s' L st' (pre @ rs))))"

lemma release_same_moves:
  assumes "release_same s s'" "release_inv reg T s" "ledger_ok reg s'" "snd ` set (ms_content s') \<subseteq> T"
  shows "release_moves reg T s s'"
proof -
  have "\<exists>st' pre. lineage_ok s' L st' (pre @ rs)" if "lineage_ok s L st rs" for L st rs
    using release_same_lineage [OF assms(1) that] by (intro exI [of _ st] exI [of _ "[]"]) simp
  moreover have "extends s s'" using assms(1) by (simp add: release_same_def)
  ultimately show ?thesis using release_same_inv [OF assms] by (simp add: release_moves_def)
qed

lemma commit_ledger:
  assumes "release_inv reg T s" "staged reg tx" "texts_in T tx" "commit reg tx s = (r, s')"
  shows "ledger_ok reg s'" "extends s s'" "snd ` set (ms_content s') \<subseteq> T"
proof -
  have inv: "ledger_ok reg s" "snd ` set (ms_content s) \<subseteq> T" using assms(1) by (simp_all add: release_inv_def)
  have "ledger_step reg s s'" using ledger_step.commits [OF assms(2), of s] assms(4) by simp
  from ledger_ok_step [OF inv(1) this] show "ledger_ok reg s'" "extends s s'" by simp_all
  have "store_ok s" using inv(1) by (simp add: ledger_ok_def)
  from commit_stream(2) [OF this staged_ok [OF assms(2)] assms(4)] show "snd ` set (ms_content s') \<subseteq> T"
    by (rule order_trans) (use inv(2) assms(3) in \<open>simp add: texts_in_def\<close>)
qed

text \<open>A commit that fails, replays a recorded outcome or writes elsewhere.\<close>

lemma idle_commit:
  assumes "release_inv reg T s" "staged reg tx" "texts_in T tx" "commit reg tx s = (r, s')"
    "r \<noteq> Inr () \<or> tx_replay tx \<or> acts tx = [] \<and> release_swaps tx = []"
  shows "release_moves reg T s s'"
proof (rule release_same_moves)
  note led = commit_ledger [OF assms(1-4)]
  show "ledger_ok reg s'" "snd ` set (ms_content s') \<subseteq> T" by (fact led)+
  have ok: "store_ok s" using assms(1) by (simp add: release_inv_def ledger_ok_def)
  show "release_same s s'"
  proof (cases "r = Inr () \<and> \<not> tx_replay tx")
    case True
    with assms(5) have no: "acts tx = []" "release_swaps tx = []" by auto
    have "entries_at s' activation_key = entries_at s activation_key"
      using commit_stream(1) [OF ok staged_ok [OF assms(2)] assms(4), of activation_key] no(1) by (auto simp: acts_def)
    moreover have "map_of (ms_heads s') (headKey k key) = map_of (ms_heads s) (headKey k key)" if "k \<in> set release_kinds" for k key
    proof -
      have f: "filter (on_head (headKey k key)) (tx_cas tx) = []" unfolding head_swaps [OF assms(2) that] no(2) by simp
      from True assms(4) have "\<not> tx_replay tx" "commit reg tx s = (Inr (), s')" by simp_all
      from commit_head(1) [OF ok assms(2) this f] show ?thesis .
    qed
    ultimately show ?thesis using led(2) by (simp add: release_same_def)
  next
    case False
    then have "same s' s" using commit_cases [OF ok staged_ok [OF assms(2)] assms(4)] by (cases r) auto
    with led(2) show ?thesis by (simp add: release_same_def same_def)
  qed
qed (rule assms(1))

lemma chain_unique: "\<lbrakk>mapping_chain s L d rs; mapping_chain s L d rs'; length rs = length rs'\<rbrakk> \<Longrightarrow> rs = rs'"
proof (induction rs arbitrary: rs' d)
  case (Cons r rs)
  then obtain r' rs1 where rs': "rs' = r' # rs1" by (cases rs') auto
  obtain m where m: "resolveMapping s d = Inr m" "maps_to m r (Suc (length rs))"
    "mapping_chain s L (str_or_empty (gidx m ''previous_mapping_digest'')) rs" using Cons.prems(1) by auto
  then have m': "maps_to m r' (Suc (length rs1))" "mapping_chain s L (str_or_empty (gidx m ''previous_mapping_digest'')) rs1"
    using Cons.prems(2) by (simp_all add: rs')
  have "Inr r = (Inr r' :: SkillArtifactRef res)" using m(2) m'(1) unfolding maps_to_def by argo
  moreover have "rs = rs1" using Cons.IH [OF m(3) m'(2)] Cons.prems(3) by (simp add: rs')
  ultimately show ?case by (simp add: rs')
qed simp

lemma version_chain_unique:
  assumes "lineage_ok s L st rs" "lineage_ok s L st' rs'" "store_ok s"
  shows "rs = rs'"
proof -
  have num: "length (entries_at s activation_key) < 2 ^ 64" using assms(3) by (simp add: store_ok_def numbered_def)
  have "length rs < 2 ^ 64" "length rs' < 2 ^ 64" using assms(1,2) num by (auto simp: lineage_ok_def)
  moreover have "(word_of_nat (length rs) :: uint64) = word_of_nat (length rs')" using assms(1,2) by (simp add: lineage_ok_def version_chain_def)
  ultimately have "length rs = length rs'" by (metis unat_of_nat64)
  moreover have "mapping_chain s L (snd (head_pair s (headKey HeadLineageVersion L))) rs" "mapping_chain s L (snd (head_pair s (headKey HeadLineageVersion L))) rs'"
    using assms(1,2) by (simp_all add: lineage_ok_def version_chain_def)
  ultimately show ?thesis using chain_unique by blast
qed

lemma inv_lineage: "release_inv reg T s \<Longrightarrow> \<exists>st rs. lineage_ok s L st rs"
  by (simp add: release_inv_def)

text \<open>The event of a call is text, and it is about the lineage of the call.\<close>

lemma event_id_text: "valid_text a \<Longrightarrow> valid_text b \<Longrightarrow> valid_text c \<Longrightarrow> valid_text (''act-'' @ a @ ''-'' @ b @ ''-v'' @ c)"
  by (intro valid_text_append) (simp_all add: valid_text_ascii)

lemma read_state:
  assumes "release_inv reg T g" "replayLineage g L = Inr st" "ls_active st = Some r"
  shows "skill_text r" "sar_lineage_id r = L"
proof -
  obtain st' rs where "lineage_ok g L st' rs" using inv_lineage [OF assms(1)] by blast
  moreover from this assms(2) have "st' = st" by (simp add: lineage_ok_def)
  ultimately show "skill_text r" "sar_lineage_id r = L" using lineage_refs_text assms(3) by blast+
qed

lemma released_ref_text:
  assumes "activate_text inp" "v \<noteq> 0"
  shows "skill_text (released_ref inp v)"
  using assms version_format by (simp add: activate_text_def skill_text_def sar_ok_def released_ref_def candidate_text_def car_ok_def)

text \<open>An activation that commits puts its revision in front of the chain and makes it active.\<close>

lemma activate_committed:
  assumes inv: "release_inv (as_registry svc) T s" "release_inv (as_registry svc) T (rd 0)" and t: "activate_text inp"
    and a: "activate_artifacts ev svc inp rd new_tx = Inr a" "expectActiveHead (ea_state a) (ai_expected inp) = Inr ()"
      "canonicalize (as_registry svc) (ra_mappingBytes a) = Inr (canonical, d, ob)" "\<exists>put \<in> set (tx_puts tx). sc_digest put = d"
    and w: "writes (as_registry svc) tx a (ai_lineageID inp) (sar_artifact_digest (ra_released a)) [version_swap (ai_lineageID inp) a d]"
    and h: "out (GObject (ea_event a)) \<in> T" "out (GObject (ra_mapping a)) \<in> T" "texts_in T tx" "inj_on DigestBytes T"
    and c: "commit (as_registry svc) tx s = (Inr u, s')"
  shows "release_moves (as_registry svc) T s s'"
    "lineage_ok s (ai_lineageID inp) st rs \<Longrightarrow> lineage_ok s' (ai_lineageID inp)
       \<lparr>ls_active = Some (ra_released a), ls_headSeq = ls_headSeq st + 1, ls_headDigest = sar_artifact_digest (ra_released a)\<rparr> (ra_released a # rs)"
    "lineage_ok s (ai_lineageID inp) st rs \<Longrightarrow> ra_version a = word_of_nat (Suc (length rs))"
proof -
  let ?reg = "as_registry svc" and ?L = "ai_lineageID inp"
  obtain d' where f: "replayLineage (rd 0) ?L = Inr (ea_state a)" "ra_released a = released_ref inp (ra_version a)"
    "ra_mapping a = mapping_doc ?L (ra_version a) (ra_released a) (ai_candidate inp) (decision_ref (ai_decision inp)) (ra_prevMapping a)"
    "marshal (GObject (ra_mapping a)) = Inr (ra_mappingBytes a)"
    "ea_eventID a = ''act-'' @ dv_id (ai_decision inp) @ ''-'' @ ?L @ ''-v'' @ format_uint (ra_version a)" "valid_text (ea_outboxKey a)"
    "buildActivationEvent ev svc (activate_spec inp (ea_state a) (ra_version a) (ea_sequence a) (ea_eventID a) (ea_outboxKey a)) = Inr (ea_event a, d')"
    "payloadDigest (ea_event a) = Inr (ea_eventDigest a)"
    by (rule activate_artifacts_Inr [OF a(1)])
  let ?spec = "activate_spec inp (ea_state a) (ra_version a) (ea_sequence a) (ea_eventID a) (ea_outboxKey a)"
  have tx: "valid_text ?L" "candidate_text (ai_candidate inp)" "ref_text (decision_ref (ai_decision inp))" "decision_text (ai_decision inp)"
    using t decision_ref_text by (simp_all add: activate_text_def)
  have rel: "sar_lineage_id (ra_released a) = ?L" "sar_version (ra_released a) = format_uint (ra_version a)"
    "ra_version a \<noteq> 0 \<Longrightarrow> skill_text (ra_released a)" using released_ref_text [OF t] f(2) by (simp_all add: released_ref_def)
  have puts: "sc_canonical ` set (tx_puts tx) \<subseteq> T" using h(3) by (simp add: texts_in_def)
  note vc = versioned_chain [OF inv(1) w c puts h(4) a(4) a(3) f(4) f(3) h(2) tx(1-3) rel]
  have lin: "version_chain s ?L rs \<and> length rs \<le> length (entries_at s activation_key)" if "lineage_ok s ?L st rs" for st rs
    using that by (simp add: lineage_ok_def)
  have kinds: "\<forall>op \<in> set [version_swap ?L a d]. cas_kind op = HeadLineageVersion \<and> cas_key op = ?L" by (simp add: version_swap_def swap_op_def)
  obtain st0 rs0 where l0: "lineage_ok s ?L st0 rs0" using inv_lineage [OF inv(1)] by blast
  have sk: "skill_text (ra_released a)" using vc(2) lin [OF l0] by blast
  have spec: "spec_text ?spec"
    using tx sk f(5,6) read_state(1) [OF inv(2) f(1)] expect_active a(2) event_id_text format_uint_facts(3)
    by (auto simp: spec_text_def activate_spec_def decision_text_def f(2))
  have marker: "sar_artifact_digest (ra_released a) = (if sp_eventType ?spec = EventTypeActivate then sar_artifact_digest (sp_skillRef ?spec) else ea_eventDigest a)"
    by (simp add: activate_spec_def f(2))
  have active: "spec_active ?spec = Some (ra_released a)" by (simp add: spec_active_def activate_spec_def f(2))
  have L: "sp_lineageID ?spec = ?L" by (simp add: activate_spec_def)
  have len: "length (ra_released a # rs) \<le> Suc (length (entries_at s activation_key))" if "lineage_ok s ?L st rs" for st rs using lin [OF that] by simp
  have mem: "\<forall>r. spec_active ?spec = Some r \<longrightarrow> r \<in> set (ra_released a # rs)" for rs by (simp add: active)
  have now: "lineage_ok s' ?L \<lparr>ls_active = Some (ra_released a), ls_headSeq = ls_headSeq (ea_state a) + 1, ls_headDigest = sar_artifact_digest (ra_released a)\<rparr>
      (ra_released a # rs)" if l: "lineage_ok s ?L st rs" for st rs
    using release_inv_write(2) [OF inv(1) w kinds c puts h(4) spec f(7,8) h(1) L marker vc(1) len [OF l] mem] lin [OF l] active by simp
  have other: "lineage_ok s' L' st' rs'" if "L' \<noteq> ?L" "lineage_ok s L' st' rs'" for L' st' rs'
    using release_inv_write(3) [OF inv(1) w kinds c puts h(4) spec f(7,8) h(1) L marker vc(1) len [OF l0] mem that] lin [OF l0] by blast
  have inv': "release_inv ?reg T s'"
    using release_inv_write(1) [OF inv(1) w kinds c puts h(4) spec f(7,8) h(1) L marker vc(1) len [OF l0] mem] lin [OF l0] by blast
  have "\<exists>st' pre. lineage_ok s' L' st' (pre @ rs)" if l: "lineage_ok s L' st rs" for L' st rs
  proof (cases "L' = ?L")
    case True
    with now [of st rs] l show ?thesis by (metis append_Cons append_Nil)
  next
    case False
    with other [OF False l] show ?thesis by (metis append_Nil)
  qed
  moreover have kinds': "\<forall>op \<in> set [version_swap ?L a d]. cas_kind op = HeadLineageVersion" using kinds by simp
  note cr = commit_release [OF inv(1) w kinds' c]
  ultimately show "release_moves ?reg T s s'" using inv' cr(8) by (simp add: release_moves_def)
  show "lineage_ok s ?L st rs \<Longrightarrow> lineage_ok s' ?L
       \<lparr>ls_active = Some (ra_released a), ls_headSeq = ls_headSeq st + 1, ls_headDigest = sar_artifact_digest (ra_released a)\<rparr> (ra_released a # rs)"
    using now [of st rs] cr(3) by (simp add: lineage_ok_def)
  show "lineage_ok s ?L st rs \<Longrightarrow> ra_version a = word_of_nat (Suc (length rs))" using vc(3) lin by blast
qed

text \<open>A committed event without a version: the chain stays, the active revision changes.\<close>

lemma unversioned_committed:
  assumes inv: "release_inv reg T s" and w: "writes reg tx a L marker []" and c: "commit reg tx s = (Inr u, s')"
    and h: "texts_in T tx" "inj_on DigestBytes T"
    and spec: "spec_text spec" "buildActivationEvent ev svc spec = Inr (ea_event a, d)" "payloadDigest (ea_event a) = Inr (ea_eventDigest a)"
      "out (GObject (ea_event a)) \<in> T" "sp_lineageID spec = L"
      "marker = (if sp_eventType spec = EventTypeActivate then sar_artifact_digest (sp_skillRef spec) else ea_eventDigest a)"
    and mem: "\<And>st rs r. lineage_ok s L st rs \<Longrightarrow> spec_active spec = Some r \<Longrightarrow> r \<in> set rs"
  shows "release_moves reg T s s'"
    "lineage_ok s L st rs \<Longrightarrow> lineage_ok s' L \<lparr>ls_active = spec_active spec, ls_headSeq = ls_headSeq st + 1, ls_headDigest = marker\<rparr> rs"
proof -
  have kinds: "\<forall>op \<in> set ([] :: stagedCAS list). cas_kind op = HeadLineageVersion \<and> cas_key op = L"
    "\<forall>op \<in> set ([] :: stagedCAS list). cas_kind op = HeadLineageVersion" by simp_all
  have puts: "sc_canonical ` set (tx_puts tx) \<subseteq> T" using h(1) by (simp add: texts_in_def)
  note cr = commit_release [OF inv w kinds(2) c]
  have chain: "version_chain s' L rs" "length rs \<le> Suc (length (entries_at s activation_key))" "\<forall>r. spec_active spec = Some r \<longrightarrow> r \<in> set rs"
    if l: "lineage_ok s L st rs" for st rs
  proof -
    have "version_chain s L rs" "length rs \<le> length (entries_at s activation_key)" using l by (simp_all add: lineage_ok_def)
    then show "version_chain s' L rs" "length rs \<le> Suc (length (entries_at s activation_key))" using unversioned_chain [OF inv w c] by simp_all
    show "\<forall>r. spec_active spec = Some r \<longrightarrow> r \<in> set rs" using mem [OF l] by blast
  qed
  have now: "lineage_ok s' L \<lparr>ls_active = spec_active spec, ls_headSeq = ls_headSeq (ea_state a) + 1, ls_headDigest = marker\<rparr> rs"
    if l: "lineage_ok s L st rs" for st rs
    by (rule release_inv_write(2) [OF inv w kinds(1) c puts h(2) spec chain [OF l]])
  obtain st0 rs0 where l0: "lineage_ok s L st0 rs0" using inv_lineage [OF inv] by blast
  have other: "lineage_ok s' L' st' rs'" if "L' \<noteq> L" "lineage_ok s L' st' rs'" for L' st' rs'
    by (rule release_inv_write(3) [OF inv w kinds(1) c puts h(2) spec chain [OF l0] that])
  have inv': "release_inv reg T s'" by (rule release_inv_write(1) [OF inv w kinds(1) c puts h(2) spec chain [OF l0]])
  have "\<exists>st' pre. lineage_ok s' L' st' (pre @ rs)" if l: "lineage_ok s L' st rs" for L' st rs
  proof (cases "L' = L")
    case True
    with now [of st rs] l show ?thesis by (metis append_Nil)
  next
    case False
    with other [OF False l] show ?thesis by (metis append_Nil)
  qed
  with inv' cr(8) show "release_moves reg T s s'" by (simp add: release_moves_def)
  show "lineage_ok s L st rs \<Longrightarrow> lineage_ok s' L \<lparr>ls_active = spec_active spec, ls_headSeq = ls_headSeq st + 1, ls_headDigest = marker\<rparr> rs"
    using now [of st rs] cr(3) by (simp add: lineage_ok_def)
qed

lemma deactivate_spec_facts:
  assumes "release_inv reg T (rd 0)" "ref_text (dq_Authorization req)" "deactivate_artifacts ev svc req rd new_tx = Inr a"
  obtains d spec where "spec_text spec" "buildActivationEvent ev svc spec = Inr (ea_event a, d)" "payloadDigest (ea_event a) = Inr (ea_eventDigest a)"
    "sp_lineageID spec = dq_LineageID req" "sp_eventType spec = EventTypeDeactivate" "ls_active (ea_state a) = Some (dq_SkillRef req)"
    "replayLineage (rd 0) (dq_LineageID req) = Inr (ea_state a)"
proof -
  obtain d where f: "replayLineage (rd 0) (dq_LineageID req) = Inr (ea_state a)" "ls_active (ea_state a) = Some (dq_SkillRef req)"
    "ea_eventID a = ''deact-'' @ vr_id (dq_Authorization req) @ ''-'' @ dq_LineageID req" "valid_text (ea_outboxKey a)"
    "buildActivationEvent ev svc (deactivate_spec req (ea_state a) (ea_sequence a) (ea_eventID a) (ea_outboxKey a)) = Inr (ea_event a, d)"
    "payloadDigest (ea_event a) = Inr (ea_eventDigest a)"
    by (rule deactivate_artifacts_Inr [OF assms(3)])
  let ?spec = "deactivate_spec req (ea_state a) (ea_sequence a) (ea_eventID a) (ea_outboxKey a)"
  note r = read_state [OF assms(1) f(1,2)]
  have L: "valid_text (dq_LineageID req)" using r by (simp add: skill_text_def)
  have "valid_text (ea_eventID a)" unfolding f(3) using assms(2) L by (intro valid_text_append) (simp_all add: valid_text_ascii ref_text_def)
  then have "spec_text ?spec" using assms(2) f(2,4) r(1) L by (simp add: spec_text_def deactivate_spec_def)
  moreover have "sp_lineageID ?spec = dq_LineageID req" "sp_eventType ?spec = EventTypeDeactivate" by (simp_all add: deactivate_spec_def)
  ultimately show thesis using that [of ?spec] f by blast
qed

lemma reactivate_spec_facts:
  assumes "release_inv reg T (rd 0)" "decision_text (xi_decision inp)" "skill_text (xi_released inp)" "reactivate_artifacts ev svc inp rd new_tx = Inr a"
    "expectActiveHead (ea_state a) (xi_expected inp) = Inr ()"
  obtains d spec where "spec_text spec" "buildActivationEvent ev svc spec = Inr (ea_event a, d)" "payloadDigest (ea_event a) = Inr (ea_eventDigest a)"
    "sp_lineageID spec = sar_lineage_id (xi_released inp)" "sp_eventType spec = EventTypeActivate" "sp_skillRef spec = xi_released inp"
proof -
  let ?L = "sar_lineage_id (xi_released inp)"
  obtain d where f: "replayLineage (rd 0) ?L = Inr (ea_state a)"
    "ea_eventID a = ''act-'' @ dv_id (xi_decision inp) @ ''-'' @ ?L @ ''-v'' @ sar_version (xi_released inp) @ ''-reactivate''"
    "valid_text (ea_outboxKey a)"
    "buildActivationEvent ev svc (reactivate_spec inp (ea_state a) (ea_sequence a) (ea_eventID a) (ea_outboxKey a)) = Inr (ea_event a, d)"
    "payloadDigest (ea_event a) = Inr (ea_eventDigest a)"
    by (rule reactivate_artifacts_Inr [OF assms(4)])
  let ?spec = "reactivate_spec inp (ea_state a) (ea_sequence a) (ea_eventID a) (ea_outboxKey a)"
  have v: "valid_text ?L" "valid_text (sar_version (xi_released inp))" "valid_text (dv_id (xi_decision inp))"
    using assms(2,3) version_form by (auto simp: skill_text_def sar_ok_def decision_text_def intro: valid_text_ascii integer_ascii)
  have "valid_text (ea_eventID a)" unfolding f(2) using v by (intro valid_text_append) (simp_all add: valid_text_ascii)
  moreover have "\<forall>r. ls_active (ea_state a) = Some r \<longrightarrow> skill_text r" using read_state(1) [OF assms(1) f(1)] by blast
  ultimately have "spec_text ?spec"
    using assms(3) f(3) v decision_ref_text [OF assms(2)] expect_active assms(5) by (auto simp: spec_text_def reactivate_spec_def)
  moreover have "sp_lineageID ?spec = ?L" "sp_eventType ?spec = EventTypeActivate" "sp_skillRef ?spec = xi_released inp" by (simp_all add: reactivate_spec_def)
  ultimately show thesis using that [of ?spec] f by blast
qed

text \<open>The guards of a reactivation found the revision in the chain.\<close>

lemma option_case_Inr: "(case x of None \<Rightarrow> Inl e | Some m \<Rightarrow> f m) = Inr y \<longleftrightarrow> (\<exists>m. x = Some m \<and> f m = Inr y)"
  by (cases x) simp_all

lemma sum_case_Inr: "(case r of Inl e \<Rightarrow> Inl err | Inr c \<Rightarrow> f c) = Inr y \<longleftrightarrow> (\<exists>c. r = Inr c \<and> f c = Inr y)"
  by (cases r) simp_all

lemma reactivate_guards_Inr:
  "reactivate_guards ev svc req store = Inr inp \<longleftrightarrow>
     (\<exists>dv mapping cand. xq_Decision req \<noteq> None \<and> parseDecision ev svc (xq_Decision req) = Inr dv \<and> dv_outcome dv = ReleaseAccepted \<and>
        sar_lineage_id (xq_ReleasedRef req) \<noteq> [] \<and> sar_artifact_digest (xq_ReleasedRef req) \<noteq> [] \<and> VersionInt (xq_ReleasedRef req) \<noteq> None \<and>
        findMappingForVersion store (sar_lineage_id (xq_ReleasedRef req)) (sar_version (xq_ReleasedRef req)) = Inr (Some mapping) \<and>
        ParseSkillArtifactRef (obj_or_nil (gidx mapping ''released_ref'')) = Inr (xq_ReleasedRef req) \<and>
        gidx mapping ''body_digest_equal'' = GBool True \<and> ParseCandidateArtifactRef (obj_or_nil (gidx mapping ''candidate_ref'')) = Inr cand \<and>
        dv_candidate dv = cand \<and> verifyBodyEquality store cand None = Inr () \<and>
        inp = \<lparr>xi_decision = dv, xi_released = xq_ReleasedRef req, xi_body = car_body_digest cand, xi_candidate = cand, xi_expected = xq_ExpectedHead req\<rparr>)"
  unfolding reactivate_guards_def Let_def and_then_Inr check_Inr option_case_Inr sum_case_Inr by auto

lemma reactivated_released:
  assumes "reactivate_guards ev svc request g = Inr inp" "lineage_ok g (sar_lineage_id (xi_released inp)) st rs"
  shows "xi_released inp \<in> set rs"
proof -
  let ?L = "sar_lineage_id (xi_released inp)"
  obtain mapping where m: "findMappingForVersion g ?L (sar_version (xi_released inp)) = Inr (Some mapping)"
    "ParseSkillArtifactRef (obj_or_nil (gidx mapping ''released_ref'')) = Inr (xi_released inp)"
    using assms(1) unfolding reactivate_guards_Inr by auto
  then obtain h where "map_of (ms_heads g) (headKey HeadLineageVersion ?L) = Some h"
    "walk_mappings g (sar_version (xi_released inp)) max_hops (hs_digest h) = Inr (Some mapping)"
    by (auto simp: findMappingForVersion_def and_then_Inr GetHead_def split: if_splits option.splits)
  moreover from this assms(2) have "mapping_chain g ?L (hs_digest h) rs" by (simp add: lineage_ok_def version_chain_def head_pair_def)
  ultimately obtain r n where "r \<in> set rs" "maps_to mapping r n" using walk_found by blast
  with m(2) show ?thesis by (auto simp: maps_to_def)
qed

subsection \<open>The system\<close>

definition wired :: "ActivationService \<Rightarrow> bool" where
  "wired svc = (eg_registry (as_proposals svc) = as_registry svc)"

definition hist_inv :: "registry \<Rightarrow> string set \<Rightarrow> MemoryStore list \<Rightarrow> bool" where
  "hist_inv reg T hist = (hist \<noteq> [] \<and> (\<forall>g \<in> set hist. release_inv reg T g \<and> extends g (hd hist) \<and>
     (\<forall>L st rs. lineage_ok g L st rs \<longrightarrow> (\<exists>st' pre. lineage_ok (hd hist) L st' (pre @ rs)))))"

lemma hist_inv_moves:
  assumes "hist_inv reg T (s # past)" "release_moves reg T s s'"
  shows "hist_inv reg T (s' # s # past)"
proof -
  have m: "release_inv reg T s'" "extends s s'" "\<And>L st rs. lineage_ok s L st rs \<Longrightarrow> \<exists>st' pre. lineage_ok s' L st' (pre @ rs)"
    using assms(2) by (simp_all add: release_moves_def)
  have "release_inv reg T g \<and> extends g s' \<and> (\<forall>L st rs. lineage_ok g L st rs \<longrightarrow> (\<exists>st' pre. lineage_ok s' L st' (pre @ rs)))" if g: "g \<in> set (s # past)" for g
  proof (intro conjI allI impI)
    have old: "release_inv reg T g" "extends g s" "\<And>L st rs. lineage_ok g L st rs \<Longrightarrow> \<exists>st' pre. lineage_ok s L st' (pre @ rs)"
      using assms(1) g unfolding hist_inv_def by auto
    show "release_inv reg T g" "extends g s'" using old(1,2) m(2) extends_trans by blast+
    show "\<exists>st' pre. lineage_ok s' L st' (pre @ rs)" if "lineage_ok g L st rs" for L st rs
    proof -
      obtain st1 pre1 where "lineage_ok s L st1 (pre1 @ rs)" using old(3) [OF \<open>lineage_ok g L st rs\<close>] by blast
      from m(3) [OF this] obtain st2 pre2 where "lineage_ok s' L st2 (pre2 @ pre1 @ rs)" by blast
      then show ?thesis by (metis append_assoc)
    qed
  qed
  moreover have "\<exists>st' pre. lineage_ok s' L st' (pre @ rs)" if "lineage_ok s' L st rs" for L st rs
    using that by (metis append_Nil)
  ultimately show ?thesis using m(1) by (simp add: hist_inv_def)
qed

text \<open>What a commit of each transaction shows, on a history that satisfies the invariant.\<close>

lemma activate_moves:
  assumes h: "hist_inv (as_registry svc) T (s # past)" and w: "wired svc" and inj: "inj_on DigestBytes T"
    and rd: "\<forall>i. rd i \<in> set (s # past)" and t: "activate_text inp" and call: "activate_callback ev svc inp rd new_tx = (Inr r, tx)"
    and hs: "hashed (activate_artifacts ev svc inp rd new_tx) \<subseteq> T" "hashed_mapping (activate_artifacts ev svc inp rd new_tx) \<subseteq> T" "texts_in T tx"
    and c: "commit (as_registry svc) tx s = (u, s')"
  shows "release_moves (as_registry svc) T s s'"
    "\<lbrakk>u = Inr (); \<not> tx_replay tx; lineage_ok s (ai_lineageID inp) st rs\<rbrakk> \<Longrightarrow> rl_ReleasedRef r = released_ref inp (word_of_nat (Suc (length rs))) \<and>
       lineage_ok s' (ai_lineageID inp) \<lparr>ls_active = Some (rl_ReleasedRef r), ls_headSeq = ls_headSeq st + 1,
         ls_headDigest = sar_artifact_digest (rl_ReleasedRef r)\<rparr> (rl_ReleasedRef r # rs)"
proof -
  let ?reg = "as_registry svc"
  have inv: "release_inv ?reg T s" "release_inv ?reg T (rd 0)" using h rd by (auto simp: hist_inv_def)
  from w have reg: "eg_registry (as_proposals svc) = ?reg" by (simp add: wired_def)
  have both: "release_moves ?reg T s s' \<and> (u = Inr () \<longrightarrow> \<not> tx_replay tx \<longrightarrow> (\<forall>st rs. lineage_ok s (ai_lineageID inp) st rs \<longrightarrow>
      rl_ReleasedRef r = released_ref inp (word_of_nat (Suc (length rs))) \<and>
      lineage_ok s' (ai_lineageID inp) \<lparr>ls_active = Some (rl_ReleasedRef r), ls_headSeq = ls_headSeq st + 1,
         ls_headDigest = sar_artifact_digest (rl_ReleasedRef r)\<rparr> (rl_ReleasedRef r # rs)))"
    using call reg
  proof (cases rule: activate_callback_cases [consumes 2, case_names replayed released])
    case (replayed a prec)
    then have "release_moves ?reg T s s'" using idle_commit [OF inv(1) _ hs(3) c] by blast
    with replayed show ?thesis by simp
  next
    case (released a d canonical ob)
    have tx: "staged ?reg tx" using released(7) by (simp add: writes_def)
    have hsh: "out (GObject (ea_event a)) \<in> T" "out (GObject (ra_mapping a)) \<in> T" using hs(1,2) released(1) by (simp_all add: hashed_def hashed_mapping_def)
    obtain d' where rel: "ra_released a = released_ref inp (ra_version a)" by (rule activate_artifacts_Inr [OF released(1)])
    have res: "rl_ReleasedRef r = ra_released a" using released(4) by (simp add: release_result_def)
    show ?thesis
    proof (cases "u = Inr ()")
      case True
      note ac = activate_committed [OF inv t released(1,3,5,6,7) hsh hs(3) inj c [unfolded True]]
      show ?thesis using ac res rel by auto
    next
      case False
      with idle_commit [OF inv(1) tx hs(3) c] show ?thesis by simp
    qed
  qed
  then show "release_moves ?reg T s s'" by blast
  from both show "\<lbrakk>u = Inr (); \<not> tx_replay tx; lineage_ok s (ai_lineageID inp) st rs\<rbrakk> \<Longrightarrow> rl_ReleasedRef r = released_ref inp (word_of_nat (Suc (length rs))) \<and>
       lineage_ok s' (ai_lineageID inp) \<lparr>ls_active = Some (rl_ReleasedRef r), ls_headSeq = ls_headSeq st + 1,
         ls_headDigest = sar_artifact_digest (rl_ReleasedRef r)\<rparr> (rl_ReleasedRef r # rs)" by blast
qed

lemma deactivate_moves:
  assumes h: "hist_inv (as_registry svc) T (s # past)" and inj: "inj_on DigestBytes T"
    and rd: "\<forall>i. rd i \<in> set (s # past)" and t: "ref_text (dq_Authorization req)" and call: "deactivate_callback ev svc req rd new_tx = (Inr r, tx)"
    and hs: "hashed (deactivate_artifacts ev svc req rd new_tx) \<subseteq> T" "texts_in T tx" and c: "commit (as_registry svc) tx s = (u, s')"
  shows "release_moves (as_registry svc) T s s'"
    "\<lbrakk>u = Inr (); lineage_ok s (dq_LineageID req) st rs\<rbrakk> \<Longrightarrow>
       lineage_ok s' (dq_LineageID req) \<lparr>ls_active = None, ls_headSeq = ls_headSeq st + 1, ls_headDigest = dr_EventDigest r\<rparr> rs"
proof -
  let ?reg = "as_registry svc" and ?L = "dq_LineageID req"
  have inv: "release_inv ?reg T s" "release_inv ?reg T (rd 0)" using h rd by (auto simp: hist_inv_def)
  obtain a where a: "deactivate_artifacts ev svc req rd new_tx = Inr a" "r = deactivation_result req a"
    "writes ?reg tx a ?L (ea_eventDigest a) []" by (rule deactivate_callback_Inr [OF call])
  obtain d spec where f: "spec_text spec" "buildActivationEvent ev svc spec = Inr (ea_event a, d)" "payloadDigest (ea_event a) = Inr (ea_eventDigest a)"
    "sp_lineageID spec = ?L" "sp_eventType spec = EventTypeDeactivate" by (rule deactivate_spec_facts [where rd = rd, OF inv(2) t a(1)])
  have hsh: "out (GObject (ea_event a)) \<in> T" using hs(1) a(1) by (simp add: hashed_def)
  have marker: "ea_eventDigest a = (if sp_eventType spec = EventTypeActivate then sar_artifact_digest (sp_skillRef spec) else ea_eventDigest a)"
    by (simp add: f(5))
  have active: "spec_active spec = None" by (simp add: spec_active_def f(5))
  have tx: "staged ?reg tx" using a(3) by (simp add: writes_def)
  have step: "release_moves ?reg T s s'" "\<lbrakk>lineage_ok s ?L st rs\<rbrakk> \<Longrightarrow>
       lineage_ok s' ?L \<lparr>ls_active = None, ls_headSeq = ls_headSeq st + 1, ls_headDigest = ea_eventDigest a\<rparr> rs" if "u = Inr ()" for st rs
    using unversioned_committed [OF inv(1) a(3) c [unfolded that] hs(2) inj f(1-3) hsh f(4) marker] active by auto
  show "release_moves ?reg T s s'"
  proof (cases "u = Inr ()")
    case False
    with idle_commit [OF inv(1) tx hs(2) c] show ?thesis by simp
  qed (rule step(1))
  show "\<lbrakk>u = Inr (); lineage_ok s ?L st rs\<rbrakk> \<Longrightarrow>
       lineage_ok s' ?L \<lparr>ls_active = None, ls_headSeq = ls_headSeq st + 1, ls_headDigest = dr_EventDigest r\<rparr> rs"
    using step(2) a(2) by (simp add: deactivation_result_def)
qed

lemma reactivate_moves:
  assumes h: "hist_inv (as_registry svc) T (s # past)" and inj: "inj_on DigestBytes T"
    and g: "g \<in> set (s # past)" "reactivate_guards ev svc request g = Inr inp"
    and rd: "\<forall>i. rd i \<in> set (s # past)" and t: "decision_text (xi_decision inp)" and call: "reactivate_callback ev svc inp rd new_tx = (Inr r, tx)"
    and hs: "hashed (reactivate_artifacts ev svc inp rd new_tx) \<subseteq> T" "texts_in T tx" and c: "commit (as_registry svc) tx s = (u, s')"
  shows "release_moves (as_registry svc) T s s'"
    "\<lbrakk>u = Inr (); \<not> tx_replay tx; lineage_ok s (sar_lineage_id (xi_released inp)) st rs\<rbrakk> \<Longrightarrow> xi_released inp \<in> set rs \<and>
       lineage_ok s' (sar_lineage_id (xi_released inp)) \<lparr>ls_active = Some (xi_released inp), ls_headSeq = ls_headSeq st + 1,
         ls_headDigest = sar_artifact_digest (xi_released inp)\<rparr> rs"
proof -
  let ?reg = "as_registry svc" and ?L = "sar_lineage_id (xi_released inp)"
  have inv: "release_inv ?reg T s" "release_inv ?reg T (rd 0)" "release_inv ?reg T g" using h rd g(1) by (auto simp: hist_inv_def)
  have sok: "store_ok s" using inv(1) by (simp add: release_inv_def ledger_ok_def)
  obtain stg rsg where lg: "lineage_ok g ?L stg rsg" using inv_lineage [OF inv(3)] by blast
  from reactivated_released [OF g(2) this] have mem: "xi_released inp \<in> set rsg" .
  obtain st1 pre where "lineage_ok s ?L st1 (pre @ rsg)" using h g(1) lg unfolding hist_inv_def list.sel by blast
  then have member: "xi_released inp \<in> set rs" if "lineage_ok s ?L st rs" for st rs using version_chain_unique [OF that _ sok] mem by fastforce
  have sk: "skill_text (xi_released inp)" using chain_member(2) [OF _ mem] lg by (auto simp: lineage_ok_def version_chain_def)
  have both: "release_moves ?reg T s s' \<and> (u = Inr () \<longrightarrow> \<not> tx_replay tx \<longrightarrow> (\<forall>st rs. lineage_ok s ?L st rs \<longrightarrow>
      lineage_ok s' ?L \<lparr>ls_active = Some (xi_released inp), ls_headSeq = ls_headSeq st + 1, ls_headDigest = sar_artifact_digest (xi_released inp)\<rparr> rs))"
    using call
  proof (cases rule: reactivate_callback_cases [consumes 1, case_names replayed reactivated])
    case (replayed a prec)
    then have "release_moves ?reg T s s'" using idle_commit [OF inv(1) _ hs(2) c] by blast
    with replayed show ?thesis by simp
  next
    case (reactivated a)
    obtain d spec where f: "spec_text spec" "buildActivationEvent ev svc spec = Inr (ea_event a, d)" "payloadDigest (ea_event a) = Inr (ea_eventDigest a)"
      "sp_lineageID spec = ?L" "sp_eventType spec = EventTypeActivate" "sp_skillRef spec = xi_released inp"
      by (rule reactivate_spec_facts [where rd = rd, OF inv(2) t sk reactivated(1,2)])
    have hsh: "out (GObject (ea_event a)) \<in> T" using hs(1) reactivated(1) by (simp add: hashed_def)
    have marker: "sar_artifact_digest (xi_released inp) = (if sp_eventType spec = EventTypeActivate then sar_artifact_digest (sp_skillRef spec) else ea_eventDigest a)"
      by (simp add: f(5,6))
    have active: "spec_active spec = Some (xi_released inp)" by (simp add: spec_active_def f(5,6))
    have tx: "staged ?reg tx" using reactivated(4) by (simp add: writes_def)
    have m: "r \<in> set rs" if "lineage_ok s ?L st rs" "spec_active spec = Some r" for st rs r using member [OF that(1)] that(2) active by simp
    show ?thesis
    proof (cases "u = Inr ()")
      case True
      show ?thesis using unversioned_committed [OF inv(1) reactivated(4) c [unfolded True] hs(2) inj f(1-3) hsh f(4) marker m] active by simp
    next
      case False
      with idle_commit [OF inv(1) tx hs(2) c] show ?thesis by simp
    qed
  qed
  then show "release_moves ?reg T s s'" by blast
  from both member show "\<lbrakk>u = Inr (); \<not> tx_replay tx; lineage_ok s ?L st rs\<rbrakk> \<Longrightarrow> xi_released inp \<in> set rs \<and>
       lineage_ok s' ?L \<lparr>ls_active = Some (xi_released inp), ls_headSeq = ls_headSeq st + 1, ls_headDigest = sar_artifact_digest (xi_released inp)\<rparr> rs"
    by blast
qed

lemma release_moves_step:
  assumes h: "hist_inv (as_registry svc) T (s # past)" and w: "wired svc" and inj: "inj_on DigestBytes T" and st: "release_step ev svc T (s # past) hist'"
  shows "\<exists>s'. hist' = s' # s # past \<and> release_moves (as_registry svc) T s s'"
  using st
proof (cases rule: release_step.cases)
  case (activates rd inp r tx)
  with activate_moves(1) [OF h w inj, of rd inp ev r tx "fst (commit (as_registry svc) tx s)" "snd (commit (as_registry svc) tx s)"] show ?thesis by simp
next
  case (deactivates rd req r tx)
  with deactivate_moves(1) [OF h inj, of rd req ev r tx "fst (commit (as_registry svc) tx s)" "snd (commit (as_registry svc) tx s)"] show ?thesis by simp
next
  case (reactivates g request xinp rd r tx)
  with reactivate_moves(1) [OF h inj, of g ev request xinp rd r tx "fst (commit (as_registry svc) tx s)" "snd (commit (as_registry svc) tx s)"]
  show ?thesis by simp
next
  case (others tx)
  have "release_inv (as_registry svc) T s" using h by (simp add: hist_inv_def)
  from idle_commit [OF this others(2,5), of "fst (commit (as_registry svc) tx s)" "snd (commit (as_registry svc) tx s)"] others(1,3,4)
  show ?thesis by simp
next
  case (delivers key sq digest)
  have inv: "release_inv (as_registry svc) T s" using h by (simp add: hist_inv_def)
  let ?s = "snd (MarkDelivered key sq digest s)"
  have led: "ledger_ok (as_registry svc) ?s" "extends s ?s"
    using ledger_ok_step [of "as_registry svc" s ?s] ledger_step.delivers inv by (simp_all add: release_inv_def)
  have "ms_heads ?s = ms_heads s" by (auto simp: MarkDelivered_def split: option.splits if_splits)
  then have "release_same s ?s" using led(2) other_steps_kept(1) by (simp add: release_same_def)
  from release_same_moves [OF this inv led(1)] inv show ?thesis using delivers by (simp add: other_steps_kept release_inv_def)
next
  case (projects key es ed ns nd)
  have inv: "release_inv (as_registry svc) T s" using h by (simp add: hist_inv_def)
  let ?s = "snd (CompareAndSwap ''projection'' key es ed ns nd s)"
  have led: "ledger_ok (as_registry svc) ?s" "extends s ?s"
    using ledger_ok_step [of "as_registry svc" s ?s] ledger_step.swaps inv by (simp_all add: release_inv_def)
  have "map_of (ms_heads ?s) (headKey k x) = map_of (ms_heads s) (headKey k x)" if "k \<in> set release_kinds" for k x
  proof -
    have "headKey k x \<noteq> headKey ''projection'' key"
      using that release_kinds_known [OF that] headKey_inj [of k "''projection''" x key] by (auto simp: release_kinds_def headKinds_def)
    then show ?thesis by (auto simp: CompareAndSwap_def Let_def split: option.splits if_splits sum.splits)
  qed
  then have "release_same s ?s" using led(2) other_steps_kept(3) by (simp add: release_same_def)
  from release_same_moves [OF this inv led(1)] inv show ?thesis using projects by (simp add: other_steps_kept release_inv_def)
qed

definition new_history :: "MemoryStore list \<Rightarrow> bool" where
  "new_history hist = (\<exists>reg0 s0. NewMemoryStore reg0 = Inr s0 \<and> hist = [s0])"

lemma fresh_release:
  assumes "NewMemoryStore reg0 = Inr s0"
  shows "release_inv reg T s0" "lineage_ok s0 L no_lineage []"
proof -
  have s0: "fresh_store s0" by (rule NewMemoryStore_fresh [OF assms])
  have empty: "entries_at s0 k = []" "head_pair s0 k = (0, [])" for k
    using s0 assms by (auto simp: fresh_store_def entries_at_def head_pair_def NewMemoryStore_def and_then_Inr)
  show lin: "lineage_ok s0 L no_lineage []" for L
    unfolding lineage_ok_def version_chain_def replayLineage_eq empty by (simp add: no_lineage_def)
  then show "release_inv reg T s0"
    using s0 ledger.init_inv [OF s0] empty by (auto simp: release_inv_def fresh_store_def end_of_def)
qed

interpretation release_system: component new_history "release_step ev svc T" "\<lambda>hist. wired svc \<and> inj_on DigestBytes T \<longrightarrow> hist_inv (as_registry svc) T hist"
  for ev svc T
proof
  show "wired svc \<and> inj_on DigestBytes T \<longrightarrow> hist_inv (as_registry svc) T hist" if "new_history hist" for hist
    using that fresh_release(1) by (auto simp: new_history_def hist_inv_def) (metis append_Nil)
  show "wired svc \<and> inj_on DigestBytes T \<longrightarrow> hist_inv (as_registry svc) T hist'"
    if inv: "wired svc \<and> inj_on DigestBytes T \<longrightarrow> hist_inv (as_registry svc) T hist" and step: "release_step ev svc T hist hist'" for hist hist'
  proof -
    obtain s past where hist: "hist = s # past" using step by (cases rule: release_step.cases) auto
    show ?thesis using inv release_moves_step [of svc T s past ev hist'] hist_inv_moves step unfolding hist by blast
  qed
qed

lemma reachable_history:
  assumes "NewMemoryStore reg0 = Inr s0" "reaches (release_step ev svc T) [s0] hist" "wired svc" "inj_on DigestBytes T"
  shows "hist_inv (as_registry svc) T hist"
proof -
  have "new_history [s0]" using assms(1) by (auto simp: new_history_def)
  from release_system.reachable_inv [OF this assms(2)] assms(3,4) show ?thesis by blast
qed

end
