(* ===== verification/Release_Effects.thy ===== *)
theory Release_Effects
  imports Release_System
begin

text \<open>
  What one committed call of the release service does, on any store that keeps its numbering and its digests: nothing is assumed of the
  history of the store, and texts may collide.
\<close>

subsection \<open>Transactions around a callback\<close>

lemma within_tx_cases:
  assumes "within_tx reg False False callback s = (r, s')"
  shows "case callback s new_tx of (Inl e, tx) \<Rightarrow> r = Inl e \<and> s' = s
    | (Inr x, tx) \<Rightarrow> commit reg tx s = (case r of Inl e \<Rightarrow> Inl e | Inr _ \<Rightarrow> Inr (), s') \<and> (\<forall>y. r = Inr y \<longrightarrow> y = x)"
  using assms by (auto simp: within_tx_def WithinTx_def split: sum.splits prod.splits)

text \<open>A call that fails leaves the store as it was.\<close>

lemma within_tx_failed:
  assumes "within_tx reg False False callback s = (Inl e, s')" "store_ok s" "\<And>x tx. callback s new_tx = (Inr x, tx) \<Longrightarrow> staged reg tx"
  shows "same s' s"
proof -
  obtain r tx where cb: "callback s new_tx = (r, tx)" by (cases "callback s new_tx") auto
  note cases = within_tx_cases [OF assms(1), unfolded cb]
  show ?thesis
  proof (cases r)
    case (Inr x)
    with assms(3) cb have "staged reg tx" by simp
    from commit_cases [OF assms(2) staged_ok [OF this]] cases Inr show ?thesis by fastforce
  qed (use cases in simp)
qed

lemma within_tx_done:
  assumes "within_tx reg False False callback s = (Inr y, s')"
  obtains tx where "callback s new_tx = (Inr y, tx)" "commit reg tx s = (Inr (), s')"
proof -
  obtain r tx where cb: "callback s new_tx = (r, tx)" by (cases "callback s new_tx") auto
  with within_tx_cases [OF assms, unfolded cb] that show thesis by (cases r) auto
qed

text \<open>A fresh outcome is recorded as it was staged.\<close>

lemma commit_recorded:
  assumes "store_ok s" "staged reg tx" "\<not> tx_replay tx" "commit reg tx s = (Inr u, s')" "tx_idem tx = [rec]" "LookupIdem s (ir_key rec) = None"
  shows "LookupIdem s' (ir_key rec) = Some rec"
proof -
  obtain us where "apply_tx reg tx s = (None, us, s')" using commit_cases [OF assms(1) staged_ok [OF assms(2)] assms(4)] assms(3) by auto
  then obtain us1 s1 us2 s2 us3 s3 us4 s4 where ph:
    "apply_all (apply_put reg) (tx_puts tx) [] s = (None, us1, s1)" "apply_all apply_cas (tx_cas tx) us1 s1 = (None, us2, s2)"
    "apply_all apply_append (tx_appends tx) us2 s2 = (None, us3, s3)"
    "apply_all (apply_outbox reg (overlay_of (tx_appends tx))) (tx_outbox tx) us3 s3 = (None, us4, s4)"
    "apply_all apply_idem (tx_idem tx) us4 s4 = (None, us, s')" unfolding apply_tx_def then_phase_None by blast
  have kept: "apply_put reg p t = (r, t') \<Longrightarrow> ms_idem t' = ms_idem t" "apply_cas op t = (r, t') \<Longrightarrow> ms_idem t' = ms_idem t"
    "apply_append e t = (r, t') \<Longrightarrow> ms_idem t' = ms_idem t" "apply_outbox reg ov b t = (r, t') \<Longrightarrow> ms_idem t' = ms_idem t" for p op e ov b t r t'
    by (auto simp: apply_put_def apply_cas_def apply_append_def apply_outbox_def Put_def CompareAndSwap_def Append_def Enqueue_def Let_def
        split: if_splits sum.splits prod.splits option.splits)
  have "ms_idem s1 = ms_idem s" by (rule apply_all_inv [OF ph(1), where P = "\<lambda>t. ms_idem t = ms_idem s"]) (auto dest: kept)
  moreover have "ms_idem s2 = ms_idem s1" by (rule apply_all_inv [OF ph(2), where P = "\<lambda>t. ms_idem t = ms_idem s1"]) (auto dest: kept)
  moreover have "ms_idem s3 = ms_idem s2" by (rule apply_all_inv [OF ph(3), where P = "\<lambda>t. ms_idem t = ms_idem s2"]) (auto dest: kept)
  moreover have "ms_idem s4 = ms_idem s3" by (rule apply_all_inv [OF ph(4), where P = "\<lambda>t. ms_idem t = ms_idem s3"]) (auto dest: kept)
  ultimately have "LookupIdem s4 (ir_key rec) = None" using assms(6) by (simp add: LookupIdem_def)
  moreover obtain us5 where "apply_idem rec s4 = (Inr us5, s')" using ph(5) assms(5) by (auto split: sum.splits prod.splits)
  ultimately show ?thesis by (cases rec) (auto simp: apply_idem_def Record_def LookupIdem_def split: sum.splits prod.splits if_splits option.splits)
qed

subsection \<open>A committed release write set\<close>

text \<open>What the commit of an event shows of the release state, the versions apart.\<close>

definition event_committed :: "MemoryStore \<Rightarrow> MemoryStore \<Rightarrow> string \<Rightarrow> string \<Rightarrow> uint64 \<Rightarrow> string \<Rightarrow> string \<Rightarrow> bool" where
  "event_committed s s' lineageID marker sq eid digest =
     (entries_at s' activation_key = entries_at s activation_key @
        [\<lparr>en_ledger = LedgerActivation, en_stream = [], en_seq = sq, en_event = eid, en_digest = digest\<rparr>] \<and>
      sq = word_of_nat (length (entries_at s activation_key)) + 1 \<and>
      head_pair s' (headKey HeadActivationSequence activationStreamKey) = (sq, digest) \<and>
      head_pair s' (headKey HeadSkillActive lineageID) = (fst (head_pair s (headKey HeadSkillActive lineageID)) + 1, marker) \<and>
      (\<forall>L. L \<noteq> lineageID \<longrightarrow> head_pair s' (headKey HeadSkillActive L) = head_pair s (headKey HeadSkillActive L)) \<and> extends s s' \<and> store_ok s')"

lemma commit_event:
  assumes ok: "store_ok s" and w: "writes reg tx a L marker versions" "\<forall>op \<in> set versions. cas_kind op = HeadLineageVersion"
    and c: "commit reg tx s = (Inr u, s')" and n: "NextSequence reg s new_tx LedgerActivation [] = Inr (ea_sequence a)"
  shows "event_committed s s' L marker (ea_sequence a) (ea_eventID a) (ea_eventDigest a)"
    "head_pair s (headKey HeadSkillActive L) = (ls_headSeq (ea_state a), ls_headDigest (ea_state a))"
proof -
  let ?es = "entries_at s activation_key"
  have tx: "staged reg tx" "\<not> tx_replay tx" "acts tx = [event_entry a]" using w(1) by (simp_all add: writes_def)
  note hd = commit_head [OF ok tx(1,2) c]
  have act: "filter (on_head (headKey HeadSkillActive L)) (tx_cas tx) = [active_swap L a marker]" using writes_heads(1) [OF w, of L] by simp
  have sq: "filter (on_head (headKey HeadActivationSequence activationStreamKey)) (tx_cas tx) = [sequence_swap a]"
    using writes_heads(2) [OF w, of activationStreamKey] by simp
  show old: "head_pair s (headKey HeadSkillActive L) = (ls_headSeq (ea_state a), ls_headDigest (ea_state a))"
    using hd(2) [OF act] by (simp add: active_swap_def swap_op_def)
  have new: "head_pair s' (headKey HeadSkillActive L) = (fst (head_pair s (headKey HeadSkillActive L)) + 1, marker)"
    using hd(2) [OF act] old by (simp add: active_swap_def swap_op_def)
  have others: "L' \<noteq> L \<longrightarrow> head_pair s' (headKey HeadSkillActive L') = head_pair s (headKey HeadSkillActive L')" for L'
    using hd(1) writes_heads(1) [OF w, of L'] by (simp add: head_pair_def)
  have seqs: "head_pair s' (headKey HeadActivationSequence activationStreamKey) = (ea_sequence a, ea_eventDigest a)"
    using hd(2) [OF sq] by (simp add: sequence_swap_def swap_op_def)
  have num: "numbered ?es" using ok by (simp add: store_ok_def)
  have at: "ea_sequence a = word_of_nat (length ?es) + 1"
    using n head_sequence_numbered [OF num] activation_kind
    by (auto simp: NextSequence_def and_then_Inr Head_def new_tx_def Let_def split: option.splits if_splits)
  note cs = commit_cases [OF ok staged_ok [OF tx(1)] c]
  from commit_stream(1) [OF ok staged_ok [OF tx(1)] c, of activation_key] tx(2,3)
  have "entries_at s' activation_key = fold add_entry [event_entry a] ?es" by (auto simp: acts_def)
  with at have "entries_at s' activation_key = ?es @ [event_entry a]" by (simp add: add_entry_def event_entry_def)
  then show "event_committed s s' L marker (ea_sequence a) (ea_eventID a) (ea_eventDigest a)"
    using cs tx(2) at seqs new others by (simp add: event_committed_def event_entry_def written_def)
qed

lemma artifacts_sequence:
  "activate_artifacts ev svc inp rd tx = Inr a \<Longrightarrow> NextSequence (as_registry svc) (rd 2) tx LedgerActivation [] = Inr (ea_sequence a)"
  "deactivate_artifacts ev svc req rd tx = Inr b \<Longrightarrow> NextSequence (as_registry svc) (rd 1) tx LedgerActivation [] = Inr (ea_sequence b)"
  "reactivate_artifacts ev svc xinp rd tx = Inr c \<Longrightarrow> NextSequence (as_registry svc) (rd 1) tx LedgerActivation [] = Inr (ea_sequence c)"
  by (auto simp: activate_artifacts_def deactivate_artifacts_def reactivate_artifacts_def and_then_Inr Let_def split: prod.splits)

lemma version_unswapped:
  assumes "store_ok s" "writes reg tx a L marker versions" "\<forall>op \<in> set versions. cas_kind op = HeadLineageVersion \<and> cas_key op = L"
    "commit reg tx s = (Inr u, s')" "versions = [] \<or> L' \<noteq> L"
  shows "map_of (ms_heads s') (headKey HeadLineageVersion L') = map_of (ms_heads s) (headKey HeadLineageVersion L')"
proof -
  have tx: "staged reg tx" "\<not> tx_replay tx" using assms(2) by (simp_all add: writes_def)
  have "\<forall>op \<in> set versions. cas_kind op = HeadLineageVersion" using assms(3) by blast
  note f = writes_heads(3) [OF assms(2) this, of L']
  have "filter (\<lambda>op. cas_key op = L') versions = []" using assms(3,5) by (auto simp: filter_empty_conv)
  from f [unfolded this] have "filter (on_head (headKey HeadLineageVersion L')) (tx_cas tx) = []" by simp
  from commit_head(1) [OF assms(1) tx assms(4) this] show ?thesis .
qed

lemma nextVersion_head:
  "nextVersion s L = Inr (v, n, d) \<Longrightarrow> head_pair s (headKey HeadLineageVersion L) = (n, d) \<and> v = n + 1"
  using release_kinds_known [of HeadLineageVersion]
  by (auto simp: nextVersion_def and_then_Inr GetHead_def head_pair_def release_kinds_def split: if_splits option.splits)


subsection \<open>The proposal in a release\<close>

lemma AppendEvent_adds:
  assumes "AppendEvent reg s kind stream eid payload tx = (Inr e, tx')"
  shows "tx_appends tx' = tx_appends tx @ [e]" "en_ledger e = kind" "en_stream e = stream" "NextSequence reg s tx kind stream = Inr (en_seq e)"
  using assms by (auto simp: AppendEvent_def Let_def split: sum.splits prod.splits)

lemma AppendEvent_one:
  "AppendEvent reg s kind stream eid payload tx = (Inr e, tx') \<Longrightarrow> \<exists>ds. tx_appends tx' = tx_appends tx @ ds \<and> (\<forall>d \<in> set ds. en_ledger d = kind)"
  using AppendEvent_adds(1,2) by fastforce

lemma stageDecision_adds:
  "stageDecision reg s t dv tx = (Inr u, tx') \<Longrightarrow> \<exists>ds. tx_appends tx' = tx_appends tx @ ds \<and> (\<forall>d \<in> set ds. en_ledger d = LedgerEvaluation)"
  unfolding stageDecision_def tx_pure_Inr
  by (elim exE conjE, rename_tac entries, case_tac entries) (auto simp: tx_pure_Inr tx_then_Inr intro: AppendEvent_one)

lemma stage_event_adds:
  assumes "stage_event reg s a tx = (Inr u, tx')"
  shows "tx_appends tx' = tx_appends tx @ [event_entry a]"
proof -
  have "CompareAndSwapHead reg op tx = (Inr v, tx1) \<Longrightarrow> tx_appends tx1 = tx_appends tx" for op tx v tx1
    by (auto simp: CompareAndSwapHead_def split: if_splits)
  moreover have "AppendEntry reg e payload tx = (Inr v, tx1) \<Longrightarrow> tx_appends tx1 = tx_appends tx @ [e]" for e payload tx v tx1
    by (auto simp: AppendEntry_def Let_def split: sum.splits prod.splits)
  moreover have "EnqueueOutbox reg s rec tx = (Inr v, tx1) \<Longrightarrow> tx_appends tx1 = tx_appends tx" for rec tx v tx1
    by (auto simp: EnqueueOutbox_def split: if_splits option.splits)
  ultimately show ?thesis using assms by (auto simp: stage_event_def tx_then_Inr tx_pure_Inr event_entry_def)
qed

lemma stageTransition_adds:
  assumes "stageTransition ev g s t p src dst refs tx = (Inr info, tx')"
  obtains e n where "tx_appends tx' = tx_appends tx @ [e]" "en_ledger e = LedgerProposal" "en_stream e = pr_id p"
    "NextSequence (eg_registry g) t tx LedgerProposal (pr_id p) = Inr (en_seq e)" "src \<noteq> StateNone \<Longrightarrow> CurrentState s (pr_id p) = Inr (src, n)"
proof -
  obtain current n e data where e: "committedState s (pr_id p) = Inr (current, n)" "check_transition (eg_machine g) current n src dst = Inr ()"
    "AppendEvent (eg_registry g) t LedgerProposal (pr_id p) (ei_EventID info) data tx = (Inr e, tx')"
    using assms by (auto simp: stageTransition_def Let_def split: sum.splits prod.splits)
  have "CurrentState s (pr_id p) = Inr (src, n)" if "src \<noteq> StateNone" using e(1,2) that by (simp add: CurrentState_def check_transition_Inr)
  with AppendEvent_adds [OF e(3)] that show thesis by blast
qed

lemma write_activation_adds:
  assumes "write_activation ev s inp rd a tx = (Inr u, tx')"
  obtains ds e n tx5 where "tx_appends tx5 = tx_appends tx @ ds @ [event_entry a]" "tx_appends tx' = tx_appends tx5 @ [e]" "\<forall>d \<in> set ds. en_ledger d = LedgerEvaluation"
    "en_ledger e = LedgerProposal" "en_stream e = pr_id (ai_proposal inp)" "CurrentState (rd 8) (pr_id (ai_proposal inp)) = Inr (StateActivationPending, n)"
    "NextSequence (eg_registry (as_proposals s)) (rd 9) tx5 LedgerProposal (pr_id (ai_proposal inp)) = Inr (en_seq e)"
proof -
  let ?reg = "as_registry s"
  obtain u1 tx1 d tx2 u2 tx3 u3 tx4 u4 tx5 info where st:
    "stageDecision ?reg (rd 5) (rd 6) (ai_decision inp) tx = (Inr u1, tx1)" "PutContent ?reg (ra_mappingBytes a) tx1 = (Inr d, tx2)"
    "CompareAndSwapHead ?reg (version_swap (ai_lineageID inp) a d) tx2 = (Inr u2, tx3)"
    "CompareAndSwapHead ?reg (active_swap (ai_lineageID inp) a (sar_artifact_digest (ra_released a))) tx3 = (Inr u3, tx4)"
    "stage_event ?reg (rd 7) a tx4 = (Inr u4, tx5)"
    "stageTransition ev (as_proposals s) (rd 8) (rd 9) (ai_proposal inp) StateActivationPending StateReleased (release_records inp (ra_released a)) tx5 =
       (Inr info, tx')"
    using assms(1) by (auto simp: write_activation_def tx_then_Inr active_swap_def version_swap_def AppendTransitionTx_def Let_def)
  obtain ds where ds: "tx_appends tx1 = tx_appends tx @ ds" "\<forall>d \<in> set ds. en_ledger d = LedgerEvaluation" using stageDecision_adds [OF st(1)] by blast
  have "tx_appends tx4 = tx_appends tx1"
    using st(2-4) by (auto simp: PutContent_def CompareAndSwapHead_def split: sum.splits prod.splits if_splits)
  with stage_event_adds [OF st(5)] ds(1) have five: "tx_appends tx5 = tx_appends tx @ ds @ [event_entry a]" by simp
  obtain e n where e: "tx_appends tx' = tx_appends tx5 @ [e]" "en_ledger e = LedgerProposal" "en_stream e = pr_id (ai_proposal inp)"
    "NextSequence (eg_registry (as_proposals s)) (rd 9) tx5 LedgerProposal (pr_id (ai_proposal inp)) = Inr (en_seq e)"
    "StateActivationPending \<noteq> StateNone \<Longrightarrow> CurrentState (rd 8) (pr_id (ai_proposal inp)) = Inr (StateActivationPending, n)"
    using stageTransition_adds [OF st(6)] by metis
  with that [OF five e(1) ds(2)] show thesis by simp
qed

lemma released_write:
  assumes "activate_callback ev s inp rd new_tx = (Inr r, tx)" "\<not> tx_replay tx"
  obtains a tx1 where "activate_artifacts ev s inp rd new_tx = Inr a" "tx_appends tx1 = []" "write_activation ev s inp rd a tx1 = (Inr (), tx)"
proof -
  let ?reg = "as_registry s" and ?key = "''activation:'' @ dv_id (ai_decision inp)"
  obtain a replayed tx1 where a: "activate_artifacts ev s inp rd new_tx = Inr a"
    "RecordIdempotency ?reg (rd 4) ?key (ea_requestDigest a) (ea_recorded a) new_tx = (Inr replayed, tx1)"
    and rest: "(case replayed of
        Some priorOutcome \<Rightarrow> (decodeReleaseResult priorOutcome, tx1)
      | None \<Rightarrow>
          tx_pure (check (ai_proposalState inp = StateActivationPending) (aerr ReasonProposalStateConflict)) tx1 (\<lambda>_ tx.
          tx_pure (expectActiveHead (ea_state a) (ai_expected inp)) tx (\<lambda>_ tx.
          tx_then (write_activation ev s inp rd a tx) (\<lambda>_ tx.
          (Inr (release_result a), tx))))) = (Inr r, tx)"
    using assms(1) by (auto simp: activate_callback_def tx_then_Inr tx_pure_Inr)
  have ap: "tx_appends tx1 = []" using a(2) by (auto simp: RecordIdempotency_def new_tx_def split: if_splits option.splits)
  show thesis
  proof (cases replayed)
    case (Some prior)
    with a(2) have "tx_replay tx1" by (auto simp: RecordIdempotency_def split: if_splits option.splits)
    with rest Some assms(2) show thesis by auto
  next
    case None
    with rest that [OF a(1) ap] show thesis by (auto simp: tx_then_Inr tx_pure_Inr)
  qed
qed

lemma proposal_moves:
  assumes "store_ok s" "staged (as_registry svc) tx" "commit (as_registry svc) tx s = (Inr u, s')" "\<not> tx_replay tx"
    "activate_callback ev svc inp (\<lambda>_. s) new_tx = (Inr r, tx)"
  defines "ident \<equiv> pr_id (ai_proposal inp)"
  shows "\<exists>e n. CurrentState s ident = Inr (StateActivationPending, n) \<and> entries_at s' (proposal_key ident) = entries_at s (proposal_key ident) @ [e]"
proof -
  let ?es = "entries_at s (proposal_key ident)"
  obtain a tx1 where a: "tx_appends tx1 = []" "write_activation ev svc inp (\<lambda>_. s) a tx1 = (Inr (), tx)" by (rule released_write [OF assms(5,4)])
  obtain ds e n tx5 where w: "tx_appends tx5 = tx_appends tx1 @ ds @ [event_entry a]" "tx_appends tx = tx_appends tx5 @ [e]"
    "\<forall>d \<in> set ds. en_ledger d = LedgerEvaluation" "en_ledger e = LedgerProposal" "en_stream e = ident" "CurrentState s ident = Inr (StateActivationPending, n)"
    "NextSequence (eg_registry (as_proposals svc)) s tx5 LedgerProposal ident = Inr (en_seq e)"
    by (rule write_activation_adds [OF a(2), folded ident_def])
  have none: "filter (\<lambda>d. en_ledger d = LedgerProposal \<and> en_stream d = ident) (tx_appends tx5) = []"
    using w(1,3) a(1) by (auto simp: filter_empty_conv event_entry_def)
  have num: "numbered ?es" using assms(1) by (simp add: store_ok_def)
  have sq: "en_seq e = word_of_nat (length ?es) + 1"
    using w(7) none head_sequence_numbered [OF num] proposal_kind
    by (auto simp: NextSequence_def and_then_Inr Head_def Let_def split: option.splits if_splits)
  have kinds: "map_of ledgerKinds LedgerProposal \<noteq> None" "map_of ledgerKinds LedgerEvaluation \<noteq> None" "map_of ledgerKinds LedgerActivation \<noteq> None"
    by (simp_all add: ledgerKinds_def)
  have other: "\<not> on_stream (proposal_key ident) d" if "d \<in> set ds \<union> {event_entry a}" for d
    using that w(3) kinds ledgerKey_inj [of LedgerEvaluation LedgerProposal] ledgerKey_inj [of LedgerActivation LedgerProposal]
    by (auto simp: on_stream_def event_entry_def)
  have "on_stream (proposal_key ident) e" using w(4,5) by (simp add: on_stream_def)
  with other have f: "filter (on_stream (proposal_key ident)) (tx_appends tx) = [e]" using w(1,2) a(1) by (auto simp: filter_empty_conv)
  from commit_stream(1) [OF assms(1) staged_ok [OF assms(2)] assms(3), of "proposal_key ident"] assms(4) f sq
  have "entries_at s' (proposal_key ident) = ?es @ [e]" by (auto simp: add_entry_def)
  with w(6) show ?thesis by blast
qed

subsection \<open>The three calls\<close>

abbreviation activation_record :: "activateInput \<Rightarrow> string" where
  "activation_record inp \<equiv> ''activation:'' @ dv_id (ai_decision inp)"

definition versions_kept :: "MemoryStore \<Rightarrow> MemoryStore \<Rightarrow> string set \<Rightarrow> bool" where
  "versions_kept s s' Ls = (\<forall>L. L \<notin> Ls \<longrightarrow> map_of (ms_heads s') (headKey HeadLineageVersion L) = map_of (ms_heads s) (headKey HeadLineageVersion L))"

lemma activate_staged:
  assumes "wired svc" "activate_callback ev svc inp rd new_tx = (Inr r, tx)"
  shows "staged (as_registry svc) tx"
proof -
  have "eg_registry (as_proposals svc) = as_registry svc" using assms(1) by (simp add: wired_def)
  with assms(2) show ?thesis
  proof (cases rule: activate_callback_cases [consumes 2, case_names replayed released])
    case (released a d canonical ob)
    from released(7) show ?thesis unfolding writes_def by blast
  qed
qed

lemma activate_effect:
  assumes ok: "store_ok s" and w: "wired svc" and new: "LookupIdem s (activation_record inp) = None"
    and call: "commitActivate ev svc False False inp s = (Inr r, s')"
  obtains a d where "activate_artifacts ev svc inp (\<lambda>_. s) new_tx = Inr a" "r = release_result a" "ai_proposalState inp = StateActivationPending"
    "expectActiveHead (ea_state a) (ai_expected inp) = Inr ()"
    "event_committed s s' (ai_lineageID inp) (sar_artifact_digest (ra_released a)) (ea_sequence a) (ea_eventID a) (ea_eventDigest a)"
    "head_pair s (headKey HeadSkillActive (ai_lineageID inp)) = (ls_headSeq (ea_state a), ls_headDigest (ea_state a))"
    "head_pair s' (headKey HeadLineageVersion (ai_lineageID inp)) = (ra_version a, d)" "versions_kept s s' {ai_lineageID inp}"
    "LookupIdem s' (activation_record inp) = Some \<lparr>ir_key = activation_record inp, ir_digest = ea_requestDigest a, ir_outcome = ea_recorded a\<rparr>"
    "\<exists>e n. CurrentState s (pr_id (ai_proposal inp)) = Inr (StateActivationPending, n) \<and>
       entries_at s' (proposal_key (pr_id (ai_proposal inp))) = entries_at s (proposal_key (pr_id (ai_proposal inp))) @ [e]"
proof -
  let ?reg = "as_registry svc" and ?L = "ai_lineageID inp"
  have reg: "eg_registry (as_proposals svc) = ?reg" using w by (simp add: wired_def)
  obtain tx where cb: "activate_callback ev svc inp (\<lambda>_. s) new_tx = (Inr r, tx)" and c: "commit ?reg tx s = (Inr (), s')"
    by (rule within_tx_done [OF call [unfolded commitActivate_def]])
  from cb reg show thesis
  proof (cases rule: activate_callback_cases [consumes 2, case_names replayed released])
    case (replayed a prec)
    with new show thesis by simp
  next
    case (released a d canonical ob)
    note wr = released(7)
    have st: "staged ?reg tx" "\<not> tx_replay tx" using wr by (simp_all add: writes_def)
    have kinds: "\<forall>op \<in> set [version_swap ?L a d]. cas_kind op = HeadLineageVersion \<and> cas_key op = ?L"
      "\<forall>op \<in> set [version_swap ?L a d]. cas_kind op = HeadLineageVersion" by (simp_all add: version_swap_def swap_op_def)
    note ev = commit_event [OF ok wr kinds(2) c artifacts_sequence(1) [OF released(1)]]
    have "mset (filter (on_head (headKey HeadLineageVersion ?L)) (tx_cas tx)) = mset [version_swap ?L a d]"
      using writes_heads(3) [OF wr kinds(2), of ?L] kinds(1) by simp
    then have "filter (on_head (headKey HeadLineageVersion ?L)) (tx_cas tx) = [version_swap ?L a d]" by (rule mset_small) simp
    from commit_head(2) [OF ok st c this] have v: "head_pair s' (headKey HeadLineageVersion ?L) = (ra_version a, d)"
      by (simp add: version_swap_def swap_op_def)
    have k: "versions_kept s s' {?L}" using version_unswapped [OF ok wr kinds(1) c] by (simp add: versions_kept_def)
    note rec = commit_recorded [OF ok st c released(9)]
    from that [OF released(1,4,2,3) ev v k] rec new proposal_moves [OF ok st(1) c st(2) cb] show thesis by simp
  qed
qed

lemma deactivate_effect:
  assumes ok: "store_ok s" and call: "commitDeactivate ev svc False False req s = (Inr r, s')"
  obtains a where "deactivate_artifacts ev svc req (\<lambda>_. s) new_tx = Inr a" "r = deactivation_result req a"
    "event_committed s s' (dq_LineageID req) (ea_eventDigest a) (ea_sequence a) (ea_eventID a) (ea_eventDigest a)" "versions_kept s s' {}"
proof -
  let ?reg = "as_registry svc"
  obtain tx where cb: "deactivate_callback ev svc req (\<lambda>_. s) new_tx = (Inr r, tx)" and c: "commit ?reg tx s = (Inr (), s')"
    by (rule within_tx_done [OF call [unfolded commitDeactivate_def]])
  obtain a where a: "deactivate_artifacts ev svc req (\<lambda>_. s) new_tx = Inr a" "r = deactivation_result req a"
    "writes ?reg tx a (dq_LineageID req) (ea_eventDigest a) []" by (rule deactivate_callback_Inr [OF cb])
  have kinds: "\<forall>op \<in> set ([] :: stagedCAS list). cas_kind op = HeadLineageVersion" "\<forall>op \<in> set ([] :: stagedCAS list). cas_kind op = HeadLineageVersion \<and> cas_key op = dq_LineageID req"
    by simp_all
  have "versions_kept s s' {}" using version_unswapped [OF ok a(3) kinds(2) c] by (simp add: versions_kept_def)
  with that [OF a(1,2) commit_event(1) [OF ok a(3) kinds(1) c artifacts_sequence(2) [OF a(1)]]] show thesis by simp
qed

lemma reactivate_effect:
  assumes ok: "store_ok s" and new: "LookupIdem s (''reactivation:'' @ dv_id (xi_decision inp)) = None"
    and call: "commitReactivate ev svc False False inp s = (Inr r, s')"
  obtains a where "reactivate_artifacts ev svc inp (\<lambda>_. s) new_tx = Inr a" "r = reactivation_result inp a"
    "expectActiveHead (ea_state a) (xi_expected inp) = Inr ()"
    "event_committed s s' (sar_lineage_id (xi_released inp)) (sar_artifact_digest (xi_released inp)) (ea_sequence a) (ea_eventID a) (ea_eventDigest a)"
    "versions_kept s s' {}"
proof -
  let ?reg = "as_registry svc" and ?L = "sar_lineage_id (xi_released inp)"
  obtain tx where cb: "reactivate_callback ev svc inp (\<lambda>_. s) new_tx = (Inr r, tx)" and c: "commit ?reg tx s = (Inr (), s')"
    by (rule within_tx_done [OF call [unfolded commitReactivate_def]])
  from cb show thesis
  proof (cases rule: reactivate_callback_cases [consumes 1, case_names replayed reactivated])
    case (replayed a prec)
    with new show thesis by simp
  next
    case (reactivated a)
    have kinds: "\<forall>op \<in> set ([] :: stagedCAS list). cas_kind op = HeadLineageVersion" "\<forall>op \<in> set ([] :: stagedCAS list). cas_kind op = HeadLineageVersion \<and> cas_key op = ?L"
      by simp_all
    have "versions_kept s s' {}" using version_unswapped [OF ok reactivated(4) kinds(2) c] by (simp add: versions_kept_def)
    with that [OF reactivated(1,3,2) commit_event(1) [OF ok reactivated(4) kinds(1) c artifacts_sequence(3) [OF reactivated(1)]]] show thesis by simp
  qed
qed

lemma calls_failed:
  assumes "store_ok s"
  shows "wired svc \<Longrightarrow> commitActivate ev svc False False inp s = (Inl e, s') \<Longrightarrow> same s' s"
    "commitDeactivate ev svc False False req s = (Inl e, s') \<Longrightarrow> same s' s" "commitReactivate ev svc False False xinp s = (Inl e, s') \<Longrightarrow> same s' s"
proof -
  show "wired svc \<Longrightarrow> commitActivate ev svc False False inp s = (Inl e, s') \<Longrightarrow> same s' s"
    unfolding commitActivate_def by (erule within_tx_failed [OF _ assms]) (rule activate_staged)
  show "commitDeactivate ev svc False False req s = (Inl e, s') \<Longrightarrow> same s' s"
    unfolding commitDeactivate_def
    by (erule within_tx_failed [OF _ assms]) (erule deactivate_callback_Inr, simp add: writes_def)
  show "commitReactivate ev svc False False xinp s = (Inl e, s') \<Longrightarrow> same s' s"
    unfolding commitReactivate_def
    by (erule within_tx_failed [OF _ assms]) (erule reactivate_callback_cases, simp_all add: writes_def)
qed

text \<open>What an activation recorded is decoded to its result.\<close>

lemma recorded_result:
  assumes "activate_artifacts ev svc inp rd tx = Inr a" "skill_text (ra_released a)" "\<forall>r. ls_active (ea_state a) = Some r \<longrightarrow> skill_text r"
    "activate_text inp"
  shows "decodeReleaseResult (ea_recorded a) = Inr ((release_result a)\<lparr>rl_Replayed := True\<rparr>)"
proof -
  obtain d where f: "ea_eventID a = ''act-'' @ dv_id (ai_decision inp) @ ''-'' @ ai_lineageID inp @ ''-v'' @ format_uint (ra_version a)"
    "valid_text (ea_outboxKey a)" "payloadDigest (ea_event a) = Inr (ea_eventDigest a)"
    "marshalDoc (outcome_doc (ra_released a) (ea_sequence a) (ea_eventID a) (ea_eventDigest a) (ea_outboxKey a) (ls_active (ea_state a))) = Inr (ea_recorded a)"
    by (rule activate_artifacts_Inr [OF assms(1)])
  have "valid_text (ea_eventID a)" unfolding f(1) using assms(4) event_id_text format_uint_facts(3) by (simp add: activate_text_def decision_text_def)
  moreover have "valid_text (ea_eventDigest a)"
  proof (rule valid_digest)
    obtain c where "DigestBytes c = ea_eventDigest a" using f(3) by (auto simp: payloadDigest_def split: sum.splits)
    from this [symmetric] show "digestPattern (ea_eventDigest a)" using digest_bytes_pattern by auto
  qed
  ultimately show ?thesis using outcome_read [OF assms(2,3) _ _ f(2), of "ea_eventID a" "ea_eventDigest a" "ea_sequence a"] f(4)
    by (simp add: release_result_def)
qed

lemma DigestOf_valid: "DigestOf v = Inr d \<Longrightarrow> isValidDigest d"
  by (auto simp: DigestOf_def and_then_Inr digest_bytes_pattern)

lemma outbox_key_valid: "activate_artifacts ev svc inp rd tx = Inr a \<Longrightarrow> isValidDigest (ea_outboxKey a)"
  by (auto simp: activate_artifacts_def and_then_Inr deriveOutboxKey_def Let_def split: prod.splits intro: DigestOf_valid)

lemma replayed_call:
  assumes "activate_artifacts ev svc inp (\<lambda>_. t) new_tx = Inr a" "LookupIdem t (activation_record inp) = Some prec" "ir_digest prec = ea_requestDigest a"
    "decodeReleaseResult (ir_outcome prec) = Inr r"
  shows "commitActivate ev svc False False inp t = (Inr r, t)"
proof -
  obtain d where "DigestOf (GObject (activate_request inp)) = Inr (ea_requestDigest a)" by (rule activate_artifacts_Inr [OF assms(1)])
  then have v: "isValidDigest (ea_requestDigest a)" by (rule DigestOf_valid)
  have "RecordIdempotency (as_registry svc) t (activation_record inp) (ea_requestDigest a) (ea_recorded a) new_tx =
      (Inr (Some (ir_outcome prec)), new_tx\<lparr>tx_replay := True, tx_replay_key := activation_record inp\<rparr>)"
    using v assms(2,3) by (simp add: RecordIdempotency_def)
  with assms(1,4) have "activate_callback ev svc inp (\<lambda>_. t) new_tx = (Inr r, new_tx\<lparr>tx_replay := True, tx_replay_key := activation_record inp\<rparr>)"
    by (simp add: activate_callback_def tx_pure_def tx_then_def)
  then show ?thesis by (simp add: commitActivate_def within_tx_def WithinTx_def commit_def hasWrites_def new_tx_def)
qed

end
