(* ===== verification/Release_Progress.thy ===== *)
theory Release_Progress
  imports Release_Effects Proposal_Promises
begin

text \<open>
  When a release goes through: a transaction whose expectations hold commits, and the write set of an activation is such a transaction when the
  proposal is pending, the heads are where the history says, and the ports accept the documents. So are the ones of a deactivation and of a reactivation.
\<close>

subsection \<open>Steps of a commit\<close>

lemma apply_puts_succeed:
  "\<forall>put \<in> set puts. put_staged put \<Longrightarrow> \<exists>us' c. apply_all (apply_put reg) puts us s = (None, us', s\<lparr>ms_content := c\<rparr>)"
proof (induction puts arbitrary: us s)
  case Nil
  have "s = s\<lparr>ms_content := ms_content s\<rparr>" by simp
  then show ?case by (metis apply_all.simps(1))
next
  case (Cons put puts)
  obtain u c where "apply_put reg put s = (Inr u, s\<lparr>ms_content := c\<rparr>)"
  proof (cases "has_key (ms_content s) (sc_digest put)")
    case True
    have "s = s\<lparr>ms_content := ms_content s\<rparr>" by simp
    with True Cons.prems that [of _ "ms_content s"] show thesis by (simp add: apply_put_def Put_def put_staged_def Let_def)
  next
    case False
    with Cons.prems that [of _ "gput (sc_digest put) (sc_canonical put) (ms_content s)"] show thesis
      by (simp add: apply_put_def Put_def put_staged_def Let_def)
  qed
  with Cons.IH [of "us @ u" "s\<lparr>ms_content := c\<rparr>"] Cons.prems show ?case by auto
qed

definition swap_ready :: "MemoryStore \<Rightarrow> stagedCAS \<Rightarrow> bool" where
  "swap_ready s op = (map_of headKinds (cas_kind op) \<noteq> None \<and> cas_key op \<noteq> [] \<and> (cas_expected_digest op = [] \<or> isValidDigest (cas_expected_digest op)) \<and>
     isValidDigest (cas_new_digest op) \<and> cas_new_seq op = cas_expected_seq op + 1 \<and>
     head_pair s (headKey (cas_kind op) (cas_key op)) = (cas_expected_seq op, cas_expected_digest op))"

lemma apply_swap_succeeds:
  assumes "swap_ready s op"
  shows "\<exists>us. apply_cas op s = (Inr us, s\<lparr>ms_heads := gput (headKey (cas_kind op) (cas_key op))
    \<lparr>hs_seq = cas_new_seq op, hs_digest = cas_new_digest op\<rparr> (ms_heads s)\<rparr>)"
  using assms by (auto simp: swap_ready_def apply_cas_def GetHead_def CompareAndSwap_def check_cas_def head_pair_def split: option.splits)

lemma apply_swaps_succeed:
  assumes "\<forall>op \<in> set ops. swap_ready s op" "distinct (map (\<lambda>op. headKey (cas_kind op) (cas_key op)) ops)"
  shows "\<exists>us' h. apply_all apply_cas ops us s = (None, us', s\<lparr>ms_heads := h\<rparr>)"
  using assms
proof (induction ops arbitrary: us s)
  case Nil
  have "s = s\<lparr>ms_heads := ms_heads s\<rparr>" by simp
  then show ?case by (metis apply_all.simps(1))
next
  case (Cons op ops)
  let ?h = "gput (headKey (cas_kind op) (cas_key op)) \<lparr>hs_seq = cas_new_seq op, hs_digest = cas_new_digest op\<rparr> (ms_heads s)"
  obtain u where u: "apply_cas op s = (Inr u, s\<lparr>ms_heads := ?h\<rparr>)" using apply_swap_succeeds Cons.prems(1) by fastforce
  have "headKey (cas_kind op') (cas_key op') \<noteq> headKey (cas_kind op) (cas_key op)" if "op' \<in> set ops" for op'
    using Cons.prems(2) that by (auto simp del: image_iff) (metis (mono_tags, lifting) image_eqI)
  then have "\<forall>op' \<in> set ops. swap_ready (s\<lparr>ms_heads := ?h\<rparr>) op'" using Cons.prems(1) by (simp add: swap_ready_def head_pair_def)
  from Cons.IH [OF this, of "us @ u"] Cons.prems(2) u show ?case by auto
qed

definition entry_ready :: "MemoryStore \<Rightarrow> Entry \<Rightarrow> bool" where
  "entry_ready s e = (map_of ledgerKinds (en_ledger e) \<noteq> None \<and> (en_ledger e = LedgerActivation \<longrightarrow> en_stream e = []) \<and> en_event e \<noteq> [] \<and>
     isValidDigest (en_digest e) \<and> en_seq e \<noteq> 0 \<and> en_seq e = word_of_nat (length (entries_at s (ledgerKey (en_ledger e) (en_stream e)))) + 1)"

lemma single_streams: "map_of ledgerKinds kind = Some spec \<Longrightarrow> singleStream spec \<longleftrightarrow> kind = LedgerActivation"
  by (auto simp: ledgerKinds_def kind_spec_def split: if_splits)

lemma apply_append_succeeds:
  assumes "entry_ready s e"
  shows "\<exists>us. apply_append e s = (Inr us, s\<lparr>ms_ledgers := gput (ledgerKey (en_ledger e) (en_stream e))
    (entries_at s (ledgerKey (en_ledger e) (en_stream e)) @ [e]) (ms_ledgers s)\<rparr>)"
proof -
  obtain spec where spec: "map_of ledgerKinds (en_ledger e) = Some spec" using assms by (auto simp: entry_ready_def)
  have "check_entry s e = Inr spec" using assms spec single_streams [OF spec] by (auto simp: check_entry_def entry_ready_def)
  with assms spec show ?thesis by (auto simp: apply_append_def Head_def Append_def entry_ready_def Let_def)
qed

lemma entries_at_gput: "entries_at (s\<lparr>ms_ledgers := gput k es (ms_ledgers s)\<rparr>) k' = (if k' = k then es else entries_at s k')"
  by (simp add: entries_at_def)

lemma entry_ready_cong:
  "entries_at s (ledgerKey (en_ledger e) (en_stream e)) = entries_at t (ledgerKey (en_ledger e) (en_stream e)) \<Longrightarrow> entry_ready s e = entry_ready t e"
  by (simp only: entry_ready_def)

lemma apply_appends_succeed:
  assumes "\<forall>e \<in> set es. entry_ready s e" "distinct (map (\<lambda>e. ledgerKey (en_ledger e) (en_stream e)) es)"
  shows "\<exists>us' l. apply_all apply_append es us s = (None, us', s\<lparr>ms_ledgers := l\<rparr>)"
  using assms
proof (induction es arbitrary: us s)
  case Nil
  have "s = s\<lparr>ms_ledgers := ms_ledgers s\<rparr>" by simp
  then show ?case by (metis apply_all.simps(1))
next
  case (Cons e es)
  let ?k = "ledgerKey (en_ledger e) (en_stream e)"
  let ?s = "s\<lparr>ms_ledgers := gput ?k (entries_at s ?k @ [e]) (ms_ledgers s)\<rparr>"
  obtain u where u: "apply_append e s = (Inr u, ?s)" using apply_append_succeeds Cons.prems(1) by fastforce
  have "ledgerKey (en_ledger e') (en_stream e') \<noteq> ?k" if "e' \<in> set es" for e'
    using Cons.prems(2) that by (auto simp del: image_iff) (metis (mono_tags, lifting) image_eqI)
  then have "\<forall>e' \<in> set es. entry_ready ?s e'" using Cons.prems(1) entry_ready_cong [of ?s _ s] by (simp add: entries_at_gput)
  from Cons.IH [OF this, of "us @ u"] Cons.prems(2) u show ?case by auto
qed

lemma apply_outbox_succeeds:
  assumes "isValidDigest (ob_key rec)" "isValidDigest (ob_digest rec)" "ob_target rec \<noteq> []" "ob_state rec = OutboxPending" "ob_ledger rec = LedgerActivation"
    "ob_seq rec \<noteq> 0" "outboxResolves s ov rec" "GetOutbox s (ob_key rec) = None"
  shows "\<exists>us. apply_outbox reg ov rec s = (Inr us, s\<lparr>ms_outbox := gput (ob_key rec) rec (ms_outbox s)\<rparr>)"
  using assms activation_kind by (simp add: apply_outbox_def Enqueue_def GetOutbox_def)

lemma apply_idem_succeeds:
  assumes "ir_key rec \<noteq> []" "isValidDigest (ir_digest rec)" "LookupIdem s (ir_key rec) = None"
  shows "\<exists>us s'. apply_idem rec s = (Inr us, s')"
  using assms by (simp add: apply_idem_def Record_def LookupIdem_def)

lemma commit_succeeds:
  assumes "\<not> tx_replay tx" "\<forall>put \<in> set (tx_puts tx). put_staged put"
    "\<forall>op \<in> set (tx_cas tx). swap_ready s op" "distinct (map (\<lambda>op. headKey (cas_kind op) (cas_key op)) (tx_cas tx))"
    "\<forall>e \<in> set (tx_appends tx). entry_ready s e" "distinct (map (\<lambda>e. ledgerKey (en_ledger e) (en_stream e)) (tx_appends tx))"
    "tx_outbox tx = [b]" "isValidDigest (ob_key b)" "isValidDigest (ob_digest b)" "ob_target b \<noteq> []" "ob_state b = OutboxPending"
    "ob_ledger b = LedgerActivation" "ob_seq b \<noteq> 0" "GetOutbox s (ob_key b) = None" "\<And>t. outboxResolves t (overlay_of (tx_appends tx)) b"
    "length (tx_idem tx) \<le> 1" "\<forall>i \<in> set (tx_idem tx). ir_key i \<noteq> [] \<and> isValidDigest (ir_digest i) \<and> LookupIdem s (ir_key i) = None"
  shows "\<exists>s'. commit reg tx s = (Inr (), s')"
proof -
  obtain us1 c where 1: "apply_all (apply_put reg) (tx_puts tx) [] s = (None, us1, s\<lparr>ms_content := c\<rparr>)" using apply_puts_succeed [OF assms(2)] by blast
  have "\<forall>op \<in> set (tx_cas tx). swap_ready (s\<lparr>ms_content := c\<rparr>) op" using assms(3) by (simp add: swap_ready_def head_pair_def)
  from apply_swaps_succeed [OF this assms(4)] obtain us2 h where
    2: "apply_all apply_cas (tx_cas tx) us1 (s\<lparr>ms_content := c\<rparr>) = (None, us2, s\<lparr>ms_content := c, ms_heads := h\<rparr>)" by blast
  let ?s2 = "s\<lparr>ms_content := c, ms_heads := h\<rparr>"
  have "\<forall>e \<in> set (tx_appends tx). entry_ready ?s2 e" using assms(5) entry_ready_cong [of ?s2 _ s] by (simp add: entries_at_def)
  from apply_appends_succeed [OF this assms(6)] obtain us3 l where
    3: "apply_all apply_append (tx_appends tx) us2 ?s2 = (None, us3, ?s2\<lparr>ms_ledgers := l\<rparr>)" by blast
  let ?s3 = "?s2\<lparr>ms_ledgers := l\<rparr>"
  have "GetOutbox ?s3 (ob_key b) = None" using assms(14) by (simp add: GetOutbox_def)
  from apply_outbox_succeeds [OF assms(8-13,15) this] obtain us4 where
    4: "apply_outbox reg (overlay_of (tx_appends tx)) b ?s3 = (Inr us4, ?s3\<lparr>ms_outbox := gput (ob_key b) b (ms_outbox ?s3)\<rparr>)" by blast
  let ?s4 = "?s3\<lparr>ms_outbox := gput (ob_key b) b (ms_outbox ?s3)\<rparr>"
  obtain us5 s5 where 5: "apply_all apply_idem (tx_idem tx) (us3 @ us4) ?s4 = (None, us5, s5)"
  proof (cases "tx_idem tx")
    case (Cons i rest)
    with assms(16,17) have i: "tx_idem tx = [i]" "ir_key i \<noteq> []" "isValidDigest (ir_digest i)" "LookupIdem ?s4 (ir_key i) = None"
      by (simp_all add: LookupIdem_def)
    from apply_idem_succeeds [OF i(2-4)] i(1) that show thesis by auto
  qed (use that in simp)
  have "apply_tx reg tx s = (None, us5, s5)" using 1 2 3 4 5 assms(7) by (simp add: apply_tx_def then_phase_def)
  with assms(1) show ?thesis by (simp add: commit_def)
qed

subsection \<open>Steps of a callback\<close>

text \<open>What a write set holds at some point of a callback.\<close>

definition built :: "Tx \<Rightarrow> stagedCAS list \<Rightarrow> Entry list \<Rightarrow> OutboxRecord list \<Rightarrow> IdempotencyRecord list \<Rightarrow> bool" where
  "built tx ops es bs recs = (\<not> tx_replay tx \<and> (\<forall>put \<in> set (tx_puts tx). put_staged put) \<and> tx_cas tx = ops \<and> tx_appends tx = es \<and>
     tx_outbox tx = bs \<and> tx_outbox_seen tx = map (\<lambda>b. (ob_key b, b)) bs \<and> tx_idem tx = recs)"

lemma built_content: "built tx ops es bs recs \<Longrightarrow> built (stageContent (DigestBytes c) c tx) ops es bs recs"
  by (auto simp: built_def stageContent_def put_staged_def)

lemma built_append: "built tx ops es bs recs \<Longrightarrow> built (tx\<lparr>tx_appends := tx_appends tx @ [e]\<rparr>) ops (es @ [e]) bs recs"
  by (simp add: built_def)

text \<open>Payloads that a ledger accepts under an identity and a sequence number.\<close>

definition acceptable :: "string \<Rightarrow> gobj \<Rightarrow> string \<Rightarrow> uint64 \<Rightarrow> bool" where
  "acceptable kind m eid n = (readable m \<and> (\<exists>spec v. map_of ledgerKinds kind = Some spec \<and> map_of m ''schema_version'' = Some (GString v) \<and>
        v \<in> set (payloadSchemas spec) \<and> (case map_of payloadStateTables v of None \<Rightarrow> True | Some table \<Rightarrow>
          \<exists>src dst. map_of m ''from_state'' = Some (GString src) \<and> map_of m ''to_state'' = Some (GString dst) \<and> legalTransition table src dst)) \<and>
     (map_of m ''event_id'' = None \<or> map_of m ''event_id'' = Some (GString eid)) \<and>
     (\<forall>f \<in> {''event_sequence'', ''activation_sequence''}. map_of m f = None \<or> map_of m f = Some (GNumber (format_uint n))))"

lemma acceptable_valid:
  assumes "acceptable kind m eid n"
  shows "validateEventPayload reg kind eid n (mtext (GObject m)) = Inr (out (GObject m), DigestBytes (out (GObject m)))"
proof -
  obtain spec v where v: "map_of ledgerKinds kind = Some spec" "map_of m ''schema_version'' = Some (GString v)" "v \<in> set (payloadSchemas spec)"
    "case map_of payloadStateTables v of None \<Rightarrow> True | Some table \<Rightarrow>
          \<exists>src dst. map_of m ''from_state'' = Some (GString src) \<and> map_of m ''to_state'' = Some (GString dst) \<and> legalTransition table src dst"
    and rd: "readable m" using assms by (auto simp: acceptable_def)
  obtain k where k: "canonicalize reg (mtext (GObject m)) = Inr (out (GObject m), DigestBytes (out (GObject m)), Some k)"
    "\<And>f. map_of k f = map_option mcanon (map_of m f)" using readable_canonicalize [OF rd, of reg] by blast
  have sv: "str_or_empty (gidx k ''schema_version'') = v" using v(2) by (simp add: gidx_def k(2) str_or_empty_def AsString_def)
  have sq: "check_sequence_field reg k n f = Inr ()" if "f \<in> {''event_sequence'', ''activation_sequence''}" for f
    using that assms by (auto simp: acceptable_def check_sequence_field_def k(2) scan_uint_format check_def)
  have eid: "\<forall>ident. AsString (gidx k ''event_id'') = Some ident \<longrightarrow> ident = eid"
    using assms by (auto simp: acceptable_def gidx_def k(2) AsString_def)
  have edge: "check_state_edge reg k v = Inr ()"
    using v(4) by (auto simp: check_state_edge_def gidx_def k(2) str_or_empty_def AsString_def check_def split: option.splits)
  show ?thesis unfolding validate_Inr using v(1,3) k(1) sv sq eid edge by blast
qed

lemma append_event_step:
  assumes "built tx ops es bs recs" "NextSequence reg s tx kind stream = Inr n" "acceptable kind m eid n"
  shows "\<exists>tx'. AppendEvent reg s kind stream eid (mtext (GObject m)) tx =
      (Inr \<lparr>en_ledger = kind, en_stream = stream, en_seq = n, en_event = eid, en_digest = DigestBytes (out (GObject m))\<rparr>, tx') \<and>
    built tx' ops (es @ [\<lparr>en_ledger = kind, en_stream = stream, en_seq = n, en_event = eid, en_digest = DigestBytes (out (GObject m))\<rparr>]) bs recs"
  using built_append [OF built_content [OF assms(1)]] by (simp add: AppendEvent_def assms(2) acceptable_valid [OF assms(3)] Let_def)

lemma append_entry_step:
  assumes "built tx ops es bs recs" "acceptable LedgerActivation m (en_event e) (en_seq e)" "en_ledger e = LedgerActivation" "en_stream e = []"
    "en_event e \<noteq> []" "en_seq e \<noteq> 0" "en_digest e = DigestBytes (out (GObject m))"
  shows "\<exists>tx'. AppendEntry reg e (mtext (GObject m)) tx = (Inr (), tx') \<and> built tx' ops (es @ [e]) bs recs"
  using built_append [OF built_content [OF assms(1)]] assms(3-7) activation_kind
  by (simp add: AppendEntry_def acceptable_valid [OF assms(2)] Let_def checkStream_def check_def digest_bytes_pattern)

lemma put_step:
  assumes "built tx ops es bs recs" "readable m"
  shows "\<exists>tx'. PutContent reg (mtext (GObject m)) tx = (Inr (DigestBytes (out (GObject m))), tx') \<and> built tx' ops es bs recs"
proof -
  obtain k where "canonicalize reg (mtext (GObject m)) = Inr (out (GObject m), DigestBytes (out (GObject m)), Some k)"
    using readable_canonicalize [OF assms(2), of reg] by blast
  with built_content [OF assms(1)] show ?thesis by (simp add: PutContent_def)
qed

lemma swap_step:
  assumes "built tx ops es bs recs" "swap_ready s op"
  shows "\<exists>tx'. CompareAndSwapHead reg op tx = (Inr (), tx') \<and> built tx' (ops @ [op]) es bs recs"
  using assms by (simp add: CompareAndSwapHead_def swap_ready_def built_def)

lemma outbox_step:
  assumes "built tx ops es [] recs" "isValidDigest (ob_key b)" "isValidDigest (ob_digest b)" "ob_target b \<noteq> []" "ob_state b = OutboxPending"
    "ob_ledger b = LedgerActivation" "ob_seq b \<noteq> 0" "GetOutbox s (ob_key b) = None"
  shows "\<exists>tx'. EnqueueOutbox reg s b tx = (Inr (), tx') \<and> built tx' ops es [b] recs"
  using assms activation_kind by (simp add: EnqueueOutbox_def built_def)

lemma record_step:
  assumes "key \<noteq> []" "isValidDigest d" "LookupIdem s key = None"
  shows "\<exists>tx'. RecordIdempotency reg s key d o' new_tx = (Inr None, tx') \<and> built tx' [] [] [] [\<lparr>ir_key = key, ir_digest = d, ir_outcome = o'\<rparr>]"
  using assms by (simp add: RecordIdempotency_def new_tx_def built_def)

subsection \<open>A release that goes through\<close>

text \<open>The heads are where the history says, and every digest in them is one.\<close>

definition heads_agree :: "MemoryStore \<Rightarrow> string \<Rightarrow> lineageState \<Rightarrow> bool" where
  "heads_agree s L st = (head_pair s (headKey HeadSkillActive L) = (ls_headSeq st, ls_headDigest st) \<and>
     head_pair s (headKey HeadActivationSequence activationStreamKey) = end_of (entries_at s activation_key) \<and>
     (\<forall>k \<in> {headKey HeadSkillActive L, headKey HeadActivationSequence activationStreamKey, headKey HeadLineageVersion L}.
        snd (head_pair s k) = [] \<or> isValidDigest (snd (head_pair s k))))"

text \<open>A decision document that the evaluation ledger accepts.\<close>

definition decision_document :: "decisionView \<Rightarrow> bool" where
  "decision_document dv = (dv_id dv \<noteq> [] \<and> (\<forall>n. acceptable LedgerEvaluation (dv_doc dv) (dv_id dv) n))"

text \<open>What an activation needs of the store and of the ports, besides text.\<close>

definition release_ready :: "env \<Rightarrow> ActivationService \<Rightarrow> activateInput \<Rightarrow> MemoryStore \<Rightarrow> releaseArtifacts \<Rightarrow> bool" where
  "release_ready ev svc inp s a =
     (activate_artifacts ev svc inp (\<lambda>_. s) new_tx = Inr a \<and> ai_proposalState inp = StateActivationPending \<and>
      expectActiveHead (ea_state a) (ai_expected inp) = Inr () \<and> heads_agree s (ai_lineageID inp) (ea_state a) \<and>
      LookupIdem s (activation_record inp) = None \<and> GetOutbox s (ea_outboxKey a) = None \<and> ea_sequence a \<noteq> 0 \<and> ra_version a \<noteq> 0 \<and>
      decision_document (ai_decision inp) \<and> entries_at s (ledgerKey LedgerEvaluation (dv_id (ai_decision inp))) = [] \<and>
      (\<exists>n payload. CurrentState s (pr_id (ai_proposal inp)) = Inr (StateActivationPending, n) \<and> n + 1 \<noteq> 0 \<and>
         check_transition (eg_machine (as_proposals svc)) StateActivationPending n StateActivationPending StateReleased = Inr () \<and>
         buildEventPayload ev (as_proposals svc) (ai_proposal inp) StateActivationPending StateReleased (n + 1) (release_records inp (ra_released a)) = Inr payload))"

lemma numbers_differ: "proposal_key i \<noteq> activation_key" "ledgerKey LedgerEvaluation d \<noteq> activation_key" "ledgerKey LedgerEvaluation d \<noteq> proposal_key i"
proof -
  have kinds: "map_of ledgerKinds LedgerProposal \<noteq> None" "map_of ledgerKinds LedgerEvaluation \<noteq> None" "map_of ledgerKinds LedgerActivation \<noteq> None"
    by (simp_all add: ledgerKinds_def)
  show "proposal_key i \<noteq> activation_key" "ledgerKey LedgerEvaluation d \<noteq> activation_key" "ledgerKey LedgerEvaluation d \<noteq> proposal_key i"
    using kinds ledgerKey_inj [of LedgerProposal LedgerActivation] ledgerKey_inj [of LedgerEvaluation LedgerActivation]
      ledgerKey_inj [of LedgerEvaluation LedgerProposal] by auto
qed

lemma next_number:
  assumes "store_ok s" "\<forall>e \<in> set (tx_appends tx). \<not> (en_ledger e = kind \<and> en_stream e = stream)" "map_of ledgerKinds kind = Some spec" "singleStream spec \<longrightarrow> stream = []"
  shows "NextSequence reg s tx kind stream = Inr (word_of_nat (length (entries_at s (ledgerKey kind stream))) + 1)"
proof -
  have "numbered (entries_at s (ledgerKey kind stream))" using assms(1) by (simp add: store_ok_def)
  from head_sequence_numbered [OF this] have "head_sequence (if entries_at s (ledgerKey kind stream) = [] then None else Some (last (entries_at s (ledgerKey kind stream)))) =
    word_of_nat (length (entries_at s (ledgerKey kind stream)))" .
  moreover have "filter (\<lambda>e. en_ledger e = kind \<and> en_stream e = stream) (tx_appends tx) = []" using assms(2) by (simp add: filter_empty_conv)
  ultimately show ?thesis using assms(3,4) by (simp add: NextSequence_def checkStream_def check_def Head_def Let_def)
qed

lemma record_refs_text:
  assumes "activate_text inp" "released = released_ref inp v" "v \<noteq> 0"
  shows "\<forall>r \<in> set (release_records inp released). ref_text r"
proof -
  have t: "skill_text released" using released_ref_text [OF assms(1,3)] assms(2) by simp
  have v: "integerForm (sar_version released)" "valid_text (sar_version released)"
    using t version_form by (auto simp: skill_text_def sar_ok_def intro: valid_text_ascii integer_ascii)
  have "valid_text (sar_lineage_id released @ ''@v'' @ sar_version released)"
    using t v by (intro valid_text_append) (simp_all add: skill_text_def valid_text_ascii)
  moreover have "valid_text (sar_artifact_digest released)" using t by (simp add: skill_text_def sar_ok_def valid_digest)
  moreover have "ref_text (decision_ref (ai_decision inp))" using assms(1) decision_ref_text by (simp add: activate_text_def)
  ultimately show ?thesis using v(1) by (auto simp: release_records_def ref_text_def decision_ref_def)
qed

text \<open>The documents of an activation are accepted.\<close>

lemma event_accepted:
  assumes st: "spec_text spec" and e: "buildActivationEvent ev svc spec = Inr (event, d)" and p: "payloadDigest event = Inr dg"
  shows "acceptable LedgerActivation event (sp_eventID spec) (sp_sequence spec)" "dg = DigestBytes (out (GObject event))"
    "marshalDoc event = Inr (mtext (GObject event))"
proof -
  note er = activation_event_readable [OF st e]
  have one: "map_of (activation_payload spec) ''schema_version'' = Some (GString SchemaActivationEvent)"
    "map_of (activation_payload spec) ''event_sequence'' = None" by (simp_all add: activation_payload_def opt_field_keys map_add_def)
  have table: "map_of payloadStateTables SchemaActivationEvent = None" by (simp add: payloadStateTables_def)
  show "acceptable LedgerActivation event (sp_eventID spec) (sp_sequence spec)"
    unfolding acceptable_def using er(1,2) one activation_kind table activation_payload_fields [of spec] by (simp add: kind_spec_def)
  show "dg = DigestBytes (out (GObject event))" using payloadDigest_readable [OF er(1)] p by simp
  show "marshalDoc event = Inr (mtext (GObject event))" using readable_marshal [OF er(1)] by (simp add: marshalDoc_def)
qed

lemma release_event_accepted:
  assumes "activate_artifacts ev svc inp rd tx = Inr a" "activate_text inp" "ra_version a \<noteq> 0"
    "\<forall>r. ls_active (ea_state a) = Some r \<longrightarrow> skill_text r" "\<forall>r. ai_expected inp = Some r \<longrightarrow> skill_text r"
  shows "acceptable LedgerActivation (ea_event a) (ea_eventID a) (ea_sequence a)" "ea_eventDigest a = DigestBytes (out (GObject (ea_event a)))"
    "marshalDoc (ea_event a) = Inr (mtext (GObject (ea_event a)))"
proof -
  obtain d where f: "ra_released a = released_ref inp (ra_version a)"
    "ea_eventID a = ''act-'' @ dv_id (ai_decision inp) @ ''-'' @ ai_lineageID inp @ ''-v'' @ format_uint (ra_version a)" "valid_text (ea_outboxKey a)"
    "buildActivationEvent ev svc (activate_spec inp (ea_state a) (ra_version a) (ea_sequence a) (ea_eventID a) (ea_outboxKey a)) = Inr (ea_event a, d)"
    "payloadDigest (ea_event a) = Inr (ea_eventDigest a)"
    by (rule activate_artifacts_Inr [OF assms(1)])
  let ?spec = "activate_spec inp (ea_state a) (ra_version a) (ea_sequence a) (ea_eventID a) (ea_outboxKey a)"
  have t: "valid_text (ai_lineageID inp)" "candidate_text (ai_candidate inp)" "ref_text (decision_ref (ai_decision inp))" "valid_text (dv_id (ai_decision inp))"
    using assms(2) decision_ref_text by (simp_all add: activate_text_def decision_text_def)
  have "valid_text (ea_eventID a)" unfolding f(2) using t(1,4) event_id_text format_uint_facts(3) by simp
  then have st: "spec_text ?spec"
    using t assms(4,5) f(3) released_ref_text [OF assms(2,3)] by (simp add: spec_text_def activate_spec_def)
  note acc = event_accepted [OF st f(4,5)]
  show "acceptable LedgerActivation (ea_event a) (ea_eventID a) (ea_sequence a)" using acc(1) by (simp add: activate_spec_def)
  show "ea_eventDigest a = DigestBytes (out (GObject (ea_event a)))" "marshalDoc (ea_event a) = Inr (mtext (GObject (ea_event a)))" by (fact acc)+
qed

lemma transition_accepted:
  assumes "ref_text (Proposal_Ref p)" "engine_text g" "valid_text src" "valid_text dst" "\<forall>r \<in> set refs. ref_text r"
    "buildEventPayload ev g p src dst n refs = Inr payload" "legalTransition ProposalEventTransitions src dst"
  shows "acceptable LedgerProposal payload (stringField payload ''event_id'') n" "marshalJSON payload = Inr (mtext (GObject payload))"
    "stringField payload ''event_id'' \<noteq> []"
proof -
  note rd = event_payload_readable [OF assms(1-6)]
  have f: "map_of payload ''schema_version'' = Some (GString SchemaProposalEvent)" "map_of payload ''from_state'' = Some (GString src)"
    "map_of payload ''to_state'' = Some (GString dst)" "map_of payload ''event_sequence'' = Some (GNumber (format_uint n))"
    "map_of payload ''activation_sequence'' = None" "map_of payload ''event_id'' = Some (GString (''pe-'' @ pr_id p @ ''-'' @ format_uint n))"
    using rd(2) event_fields event_identity by simp_all
  have eid: "stringField payload ''event_id'' = ''pe-'' @ pr_id p @ ''-'' @ format_uint n"
    by (simp add: stringField_def gidx_def f(6) str_or_empty_def AsString_def)
  have table: "map_of payloadStateTables SchemaProposalEvent = Some ProposalEventTransitions" by (simp add: payloadStateTables_def)
  have "SchemaProposalEvent \<in> set (payloadSchemas (kind_spec [''gms.skill-proposal.v1'', SchemaProposalEvent] False ReasonProposalStateConflict))"
    by (simp add: kind_spec_def)
  then have "\<exists>spec v. map_of ledgerKinds LedgerProposal = Some spec \<and> map_of payload ''schema_version'' = Some (GString v) \<and> v \<in> set (payloadSchemas spec) \<and>
      (case map_of payloadStateTables v of None \<Rightarrow> True | Some table \<Rightarrow>
        \<exists>src dst. map_of payload ''from_state'' = Some (GString src) \<and> map_of payload ''to_state'' = Some (GString dst) \<and> legalTransition table src dst)"
    using f(1-3) proposal_kind table assms(7) by auto
  then show "acceptable LedgerProposal payload (stringField payload ''event_id'') n"
    using rd(1) f(4-6) unfolding acceptable_def eid by simp
  show "marshalJSON payload = Inr (mtext (GObject payload))" using readable_marshal [OF rd(1)] by (simp add: marshalJSON_def)
  show "stringField payload ''event_id'' \<noteq> []" by (simp add: eid)
qed

text \<open>The write set of a release, in the order of the callback.\<close>

definition decision_entry :: "decisionView \<Rightarrow> Entry" where
  "decision_entry dv = \<lparr>en_ledger = LedgerEvaluation, en_stream = dv_id dv, en_seq = 1, en_event = dv_id dv, en_digest = DigestBytes (out (GObject (dv_doc dv)))\<rparr>"

definition outbox_record :: "'a eventArtifacts_scheme \<Rightarrow> OutboxRecord" where
  "outbox_record a = \<lparr>ob_key = ea_outboxKey a, ob_ledger = LedgerActivation, ob_seq = ea_sequence a, ob_digest = ea_eventDigest a,
     ob_target = ProjectionTargetRuntime, ob_state = OutboxPending\<rparr>"

lemma event_staged:
  assumes "built tx ops es [] recs" "swap_ready s (sequence_swap a)" "acceptable LedgerActivation (ea_event a) (ea_eventID a) (ea_sequence a)"
    "ea_eventDigest a = DigestBytes (out (GObject (ea_event a)))" "marshalDoc (ea_event a) = Inr (mtext (GObject (ea_event a)))" "ea_eventID a \<noteq> []"
    "ea_sequence a \<noteq> 0" "isValidDigest (ea_outboxKey a)" "GetOutbox s (ea_outboxKey a) = None"
  shows "\<exists>tx'. stage_event reg s a tx = (Inr (), tx') \<and> built tx' (ops @ [sequence_swap a]) (es @ [event_entry a]) [outbox_record a] recs"
proof -
  obtain tx1 where 1: "CompareAndSwapHead reg (sequence_swap a) tx = (Inr (), tx1)" "built tx1 (ops @ [sequence_swap a]) es [] recs"
    using swap_step [OF assms(1,2)] by blast
  obtain tx2 where 2: "AppendEntry reg (event_entry a) (mtext (GObject (ea_event a))) tx1 = (Inr (), tx2)"
    "built tx2 (ops @ [sequence_swap a]) (es @ [event_entry a]) [] recs"
    using append_entry_step [OF 1(2), of "ea_event a" "event_entry a" reg] assms(3,4,6,7) by (auto simp: event_entry_def)
  obtain tx3 where 3: "EnqueueOutbox reg s (outbox_record a) tx2 = (Inr (), tx3)" "built tx3 (ops @ [sequence_swap a]) (es @ [event_entry a]) [outbox_record a] recs"
    using outbox_step [OF 2(2), of "outbox_record a" s reg] assms(4,7-9) by (auto simp: outbox_record_def digest_bytes_pattern)
  show ?thesis
    unfolding stage_event_def tx_pure_def tx_then_def using 1(1) 2(1) 3 assms(5) by (simp add: sequence_swap_def event_entry_def outbox_record_def)
qed

lemma transition_staged:
  assumes "store_ok s" "built tx ops es bs recs" "\<forall>e \<in> set es. en_ledger e \<noteq> LedgerProposal" "ref_text (Proposal_Ref p)" "engine_text g" "valid_text src" "valid_text dst"
    "\<forall>r \<in> set refs. ref_text r" "CurrentState s (pr_id p) = Inr (current, n)" "n + 1 \<noteq> 0" "check_transition (eg_machine g) current n src dst = Inr ()"
    "buildEventPayload ev g p src dst (n + 1) refs = Inr payload" "legalTransition ProposalEventTransitions src dst"
  shows "\<exists>info e tx'. AppendTransitionTx ev g s s p src dst refs tx = (Inr info, tx') \<and> built tx' ops (es @ [e]) bs recs \<and> entry_ready s e \<and>
    en_ledger e = LedgerProposal \<and> en_stream e = pr_id p"
proof -
  have cur: "committedState s (pr_id p) = Inr (current, n)" using assms(9) by (simp add: CurrentState_def)
  have n: "n = word_of_nat (length (entries_at s (proposal_key (pr_id p))))" by (rule committed_length(1) [OF cur extends_refl assms(1)])
  note acc = transition_accepted [OF assms(4-8,12,13)]
  have "NextSequence (eg_registry g) s tx LedgerProposal (pr_id p) = Inr (n + 1)"
    unfolding n using assms(2,3) proposal_kind by (intro next_number [OF assms(1)]) (auto simp: built_def kind_spec_def)
  note ap = append_event_step [OF assms(2) this acc(1)]
  let ?e = "\<lparr>en_ledger = LedgerProposal, en_stream = pr_id p, en_seq = n + 1, en_event = stringField payload ''event_id'', en_digest = DigestBytes (out (GObject payload))\<rparr>"
  have "entry_ready s ?e" using acc(3) assms(10) proposal_kind by (simp add: entry_ready_def digest_bytes_pattern n)
  moreover obtain tx' where "AppendEvent (eg_registry g) s LedgerProposal (pr_id p) (stringField payload ''event_id'') (mtext (GObject payload)) tx = (Inr ?e, tx')"
    "built tx' ops (es @ [?e]) bs recs" using ap by blast
  ultimately show ?thesis
    using cur assms(11,12) acc(2) by (auto simp: AppendTransitionTx_def stageTransition_def Let_def)
qed

lemma decision_staged:
  assumes "store_ok s" "built tx ops [] bs recs" "decision_document dv" "entries_at s (ledgerKey LedgerEvaluation (dv_id dv)) = []"
  shows "\<exists>tx'. stageDecision reg s s dv tx = (Inr (), tx') \<and> built tx' ops [decision_entry dv] bs recs" "entry_ready s (decision_entry dv)"
proof -
  have k: "map_of ledgerKinds LedgerEvaluation = Some (kind_spec [''gms.release-decision.v1''] False ReasonIdempotencyConflict)" by (simp add: ledgerKinds_def)
  have d: "dv_id dv \<noteq> []" "acceptable LedgerEvaluation (dv_doc dv) (dv_id dv) 1" using assms(3) by (simp_all add: decision_document_def)
  have m: "marshalDoc (dv_doc dv) = Inr (mtext (GObject (dv_doc dv)))" using readable_marshal d(2) by (simp add: marshalDoc_def acceptable_def)
  have "NextSequence reg s tx LedgerEvaluation (dv_id dv) = Inr (word_of_nat (length (entries_at s (ledgerKey LedgerEvaluation (dv_id dv)))) + 1)"
    using assms(2) k by (intro next_number [OF assms(1)]) (auto simp: built_def kind_spec_def)
  then have "NextSequence reg s tx LedgerEvaluation (dv_id dv) = Inr 1" by (simp add: assms(4))
  from append_event_step [OF assms(2) this d(2)] show "\<exists>tx'. stageDecision reg s s dv tx = (Inr (), tx') \<and> built tx' ops [decision_entry dv] bs recs"
    using k m assms(4) by (auto simp: stageDecision_def tx_pure_def tx_then_def ledger_Snapshot_def decision_entry_def)
  show "entry_ready s (decision_entry dv)" using k d(1) assms(4) by (simp add: entry_ready_def decision_entry_def digest_bytes_pattern)
qed

text \<open>The swaps and the entry of an event are ready.\<close>

lemma event_swaps_ready:
  assumes "store_ok s" "heads_agree s L (ea_state a)" "L \<noteq> []" "isValidDigest marker" "ea_eventDigest a = DigestBytes c"
    "ledger_head s = Inr (ea_ledgerHead a)" "NextSequence reg s new_tx LedgerActivation [] = Inr (ea_sequence a)"
  shows "swap_ready s (active_swap L a marker)" "swap_ready s (sequence_swap a)"
    "ea_sequence a \<noteq> 0 \<Longrightarrow> ea_eventID a \<noteq> [] \<Longrightarrow> entry_ready s (event_entry a)"
proof -
  let ?es = "entries_at s activation_key"
  have kinds: "map_of headKinds k \<noteq> None" if "k \<in> set release_kinds" for k using release_kinds_known [OF that] .
  have ha: "head_pair s (headKey HeadSkillActive L) = (ls_headSeq (ea_state a), ls_headDigest (ea_state a))"
    "head_pair s (headKey HeadActivationSequence activationStreamKey) = end_of ?es"
    "\<And>k. k \<in> {headKey HeadSkillActive L, headKey HeadActivationSequence activationStreamKey, headKey HeadLineageVersion L} \<Longrightarrow>
        snd (head_pair s k) = [] \<or> isValidDigest (snd (head_pair s k))"
    using assms(2) unfolding heads_agree_def by blast+
  show "swap_ready s (active_swap L a marker)"
    using kinds [of HeadSkillActive] assms(3,4) ha(1) ha(3) [of "headKey HeadSkillActive L"]
    by (simp add: swap_ready_def active_swap_def swap_op_def release_kinds_def)
  have lh: "ea_ledgerHead a = end_of ?es"
    using assms(6) activation_kind by (auto simp: ledger_head_def and_then_Inr Head_def end_of_def Let_def split: if_splits)
  have num: "numbered ?es" using assms(1) by (simp add: store_ok_def)
  have "fst (end_of ?es) = word_of_nat (length ?es)"
    using head_sequence_numbered [OF num] by (auto simp: end_of_def head_sequence_def split: if_splits)
  moreover have "NextSequence reg s new_tx LedgerActivation [] = Inr (word_of_nat (length ?es) + 1)"
    using activation_kind by (intro next_number [OF assms(1)]) (simp_all add: new_tx_def)
  ultimately have sq: "ea_sequence a = fst (ea_ledgerHead a) + 1" "ea_sequence a = word_of_nat (length ?es) + 1" using assms(7) lh by simp_all
  show "swap_ready s (sequence_swap a)"
    using kinds [of HeadActivationSequence] ha(2) ha(3) [of "headKey HeadActivationSequence activationStreamKey"] sq(1) lh assms(5)
    by (simp add: swap_ready_def sequence_swap_def swap_op_def release_kinds_def digest_bytes_pattern)
  show "ea_sequence a \<noteq> 0 \<Longrightarrow> ea_eventID a \<noteq> [] \<Longrightarrow> entry_ready s (event_entry a)"
    using sq(2) assms(5) activation_kind by (simp add: entry_ready_def event_entry_def digest_bytes_pattern)
qed

lemma artifacts_head:
  "activate_artifacts ev svc inp rd tx = Inr a \<Longrightarrow> ledger_head (rd 3) = Inr (ea_ledgerHead a)"
  "deactivate_artifacts ev svc req rd tx = Inr b \<Longrightarrow> ledger_head (rd 2) = Inr (ea_ledgerHead b)"
  "reactivate_artifacts ev svc xinp rd tx = Inr c \<Longrightarrow> ledger_head (rd 2) = Inr (ea_ledgerHead c)"
  by (auto simp: activate_artifacts_def deactivate_artifacts_def reactivate_artifacts_def and_then_Inr Let_def split: prod.splits)

lemma release_swaps_ready:
  assumes "activate_artifacts ev svc inp (\<lambda>_. s) new_tx = Inr a" "heads_agree s (ai_lineageID inp) (ea_state a)" "activate_text inp"
  shows "swap_ready s (version_swap (ai_lineageID inp) a (DigestBytes m))" "ra_prevMapping a = [] \<or> isValidDigest (ra_prevMapping a)"
    "isValidDigest (sar_artifact_digest (ra_released a))" "ai_lineageID inp \<noteq> []"
proof -
  let ?L = "ai_lineageID inp"
  obtain d where f: "nextVersion s ?L = Inr (ra_version a, ra_prevSeq a, ra_prevMapping a)" "ra_released a = released_ref inp (ra_version a)"
    by (rule activate_artifacts_Inr [OF assms(1)])
  show L: "?L \<noteq> []" "isValidDigest (sar_artifact_digest (ra_released a))"
    using assms(3) by (simp_all add: activate_text_def candidate_text_def car_ok_def f(2) released_ref_def)
  note v = nextVersion_head [OF f(1)]
  have "snd (head_pair s (headKey HeadLineageVersion ?L)) = [] \<or> isValidDigest (snd (head_pair s (headKey HeadLineageVersion ?L)))"
    using assms(2) unfolding heads_agree_def by blast
  with v show p: "ra_prevMapping a = [] \<or> isValidDigest (ra_prevMapping a)" by simp
  then show "swap_ready s (version_swap ?L a (DigestBytes m))"
    using release_kinds_known [of HeadLineageVersion] L(1) v
    by (simp add: swap_ready_def version_swap_def swap_op_def release_kinds_def digest_bytes_pattern)
qed

lemma release_succeeds:
  assumes "store_ok s" "wired svc" "activate_text inp" "\<forall>r. ai_expected inp = Some r \<longrightarrow> skill_text r" "engine_text (as_proposals svc)"
    "ref_text (Proposal_Ref (ai_proposal inp))" "release_ready ev svc inp s a"
  shows "\<exists>s'. commitActivate ev svc False False inp s = (Inr (release_result a), s')"
proof -
  let ?reg = "as_registry svc" and ?L = "ai_lineageID inp" and ?dv = "ai_decision inp"
  let ?rec = "\<lparr>ir_key = activation_record inp, ir_digest = ea_requestDigest a, ir_outcome = ea_recorded a\<rparr>"
  obtain n payload where r: "activate_artifacts ev svc inp (\<lambda>_. s) new_tx = Inr a" "ai_proposalState inp = StateActivationPending"
    "expectActiveHead (ea_state a) (ai_expected inp) = Inr ()" "heads_agree s ?L (ea_state a)" "LookupIdem s (activation_record inp) = None"
    "GetOutbox s (ea_outboxKey a) = None" "ea_sequence a \<noteq> 0" "ra_version a \<noteq> 0" "decision_document ?dv" "entries_at s (ledgerKey LedgerEvaluation (dv_id ?dv)) = []"
    "CurrentState s (pr_id (ai_proposal inp)) = Inr (StateActivationPending, n)" "n + 1 \<noteq> 0"
    "check_transition (eg_machine (as_proposals svc)) StateActivationPending n StateActivationPending StateReleased = Inr ()"
    "buildEventPayload ev (as_proposals svc) (ai_proposal inp) StateActivationPending StateReleased (n + 1) (release_records inp (ra_released a)) = Inr payload"
    using assms(7) unfolding release_ready_def by blast
  have reg: "eg_registry (as_proposals svc) = ?reg" using assms(2) by (simp add: wired_def)
  obtain d where f: "ra_released a = released_ref inp (ra_version a)"
    "ra_mapping a = mapping_doc ?L (ra_version a) (ra_released a) (ai_candidate inp) (decision_ref ?dv) (ra_prevMapping a)"
    "marshal (GObject (ra_mapping a)) = Inr (ra_mappingBytes a)"
    "ea_eventID a = ''act-'' @ dv_id ?dv @ ''-'' @ ?L @ ''-v'' @ format_uint (ra_version a)" "DigestOf (GObject (activate_request inp)) = Inr (ea_requestDigest a)"
    by (rule activate_artifacts_Inr [OF r(1)])
  have digs: "isValidDigest (ea_requestDigest a)" "isValidDigest (ea_outboxKey a)"
    by (rule DigestOf_valid [OF f(5)], rule outbox_key_valid [OF r(1)])
  have act: "ls_active (ea_state a) = ai_expected inp" using r(3) expect_active by blast
  have sk: "skill_text (ra_released a)" using released_ref_text [OF assms(3) r(8)] f(1) by simp
  have ev: "acceptable LedgerActivation (ea_event a) (ea_eventID a) (ea_sequence a)" "ea_eventDigest a = DigestBytes (out (GObject (ea_event a)))"
    "marshalDoc (ea_event a) = Inr (mtext (GObject (ea_event a)))" using release_event_accepted [OF r(1) assms(3) r(8)] assms(4) act by simp_all
  note sv = release_swaps_ready [OF r(1,4) assms(3)]
  note es = event_swaps_ready [OF assms(1) r(4) sv(4,3) ev(2) artifacts_head(1) [OF r(1)] artifacts_sequence(1) [OF r(1)]]
  have vt: "valid_text ?L" "candidate_text (ai_candidate inp)" "ref_text (decision_ref ?dv)"
    using assms(3) decision_ref_text by (simp_all add: activate_text_def)
  have mrd: "readable (ra_mapping a)" unfolding f(2) by (rule mapping_readable [OF vt(1) sk vt(2,3) sv(2)])
  have mb: "ra_mappingBytes a = mtext (GObject (ra_mapping a))" using f(3) readable_marshal [OF mrd] by simp
  have edge: "legalTransition ProposalEventTransitions StateActivationPending StateReleased" by code_simp
  obtain tx1 where 1: "RecordIdempotency ?reg s (activation_record inp) (ea_requestDigest a) (ea_recorded a) new_tx = (Inr None, tx1)" "built tx1 [] [] [] [?rec]"
    using record_step [OF _ digs(1) r(5)] by blast
  obtain tx2 where 2: "stageDecision ?reg s s ?dv tx1 = (Inr (), tx2)" "built tx2 [] [decision_entry ?dv] [] [?rec]"
    using decision_staged(1) [OF assms(1) 1(2) r(9,10)] by blast
  let ?md = "DigestBytes (out (GObject (ra_mapping a)))"
  obtain tx3 where 3: "PutContent ?reg (ra_mappingBytes a) tx2 = (Inr ?md, tx3)" "built tx3 [] [decision_entry ?dv] [] [?rec]"
    using put_step [OF 2(2) mrd] unfolding mb by blast
  obtain tx4 where 4: "CompareAndSwapHead ?reg (version_swap ?L a ?md) tx3 = (Inr (), tx4)" "built tx4 [version_swap ?L a ?md] [decision_entry ?dv] [] [?rec]"
    using swap_step [OF 3(2) sv(1)] by auto
  let ?as = "active_swap ?L a (sar_artifact_digest (ra_released a))"
  obtain tx5 where 5: "CompareAndSwapHead ?reg ?as tx4 = (Inr (), tx5)" "built tx5 [version_swap ?L a ?md, ?as] [decision_entry ?dv] [] [?rec]"
    using swap_step [OF 4(2) es(1)] by auto
  obtain tx6 where 6: "stage_event ?reg s a tx5 = (Inr (), tx6)"
    "built tx6 [version_swap ?L a ?md, ?as, sequence_swap a] [decision_entry ?dv, event_entry a] [outbox_record a] [?rec]"
    using event_staged [OF 5(2) es(2) ev _ r(7) digs(2) r(6)] f(4) by auto
  have other: "\<forall>e \<in> set [decision_entry ?dv, event_entry a]. en_ledger e \<noteq> LedgerProposal" by (simp add: decision_entry_def event_entry_def)
  have names: "valid_text StateActivationPending" "valid_text StateReleased" by (simp_all add: valid_text_ascii)
  obtain info e tx7 where 7: "AppendTransitionTx ev (as_proposals svc) s s (ai_proposal inp) StateActivationPending StateReleased (release_records inp (ra_released a)) tx6 = (Inr info, tx7)"
    "built tx7 [version_swap ?L a ?md, ?as, sequence_swap a] [decision_entry ?dv, event_entry a, e] [outbox_record a] [?rec]"
    "entry_ready s e" "en_ledger e = LedgerProposal" "en_stream e = pr_id (ai_proposal inp)"
    using transition_staged [OF assms(1) 6(2) other assms(6,5) names record_refs_text [OF assms(3) f(1) r(8)] r(11-14) edge] by auto
  have "write_activation ev svc inp (\<lambda>_. s) a tx1 = (Inr (), tx7)"
    using 2(1) 3(1) 4(1) 5(1) 6(1) 7(1) by (simp add: write_activation_def Let_def tx_then_def active_swap_def version_swap_def)
  with 1(1) r(1-3) have cb: "activate_callback ev svc inp (\<lambda>_. s) new_tx = (Inr (release_result a), tx7)"
    by (simp add: activate_callback_def tx_pure_def tx_then_def check_def)
  have b: "\<not> tx_replay tx7" "\<forall>put \<in> set (tx_puts tx7). put_staged put" "tx_cas tx7 = [version_swap ?L a ?md, ?as, sequence_swap a]"
    "tx_appends tx7 = [decision_entry ?dv, event_entry a, e]" "tx_outbox tx7 = [outbox_record a]" "tx_idem tx7 = [?rec]"
    using 7(2) by (simp_all add: built_def)
  have evr: "entry_ready s (event_entry a)" using es(3) r(7) f(4) by simp
  have "\<exists>s'. commit ?reg tx7 s = (Inr (), s')"
  proof (rule commit_succeeds [OF b(1,2) _ _ _ _ b(5)])
    show "\<forall>op \<in> set (tx_cas tx7). swap_ready s op" using sv(1) es(1,2) by (simp add: b(3))
    show "distinct (map (\<lambda>op. headKey (cas_kind op) (cas_key op)) (tx_cas tx7))"
    proof -
      have "map_of headKinds k \<noteq> None" if "k \<in> set release_kinds" for k using release_kinds_known [OF that] .
      then show ?thesis
        using headKey_inj [of HeadLineageVersion HeadSkillActive] headKey_inj [of HeadLineageVersion HeadActivationSequence]
          headKey_inj [of HeadSkillActive HeadActivationSequence]
        by (auto simp: b(3) version_swap_def active_swap_def sequence_swap_def swap_op_def release_kinds_def)
    qed
    show "\<forall>e' \<in> set (tx_appends tx7). entry_ready s e'" using evr 7(3) decision_staged(2) [OF assms(1) 1(2) r(9,10)] by (simp add: b(4))
    show "distinct (map (\<lambda>e. ledgerKey (en_ledger e) (en_stream e)) (tx_appends tx7))"
      using numbers_differ(1) [of "pr_id (ai_proposal inp)", symmetric] numbers_differ(2,3) 7(4,5) by (simp add: b(4) decision_entry_def event_entry_def)
    show "outboxResolves t (overlay_of (tx_appends tx7)) (outbox_record a)" for t
    proof -
      have ne: "activation_key \<noteq> proposal_key i" "activation_key \<noteq> ledgerKey LedgerEvaluation j" for i j using numbers_differ by metis+
      have "map_of (overlay_of (tx_appends tx7)) activation_key = Some [event_entry a]"
        using ne numbers_differ(1) 7(4,5) by (simp add: b(4) overlay_of_def Let_def decision_entry_def event_entry_def)
      then show ?thesis by (simp add: outboxResolves_def outbox_record_def event_entry_def)
    qed
  qed (use digs ev(2) r(5-7) in \<open>simp_all add: outbox_record_def digest_bytes_pattern b(6)\<close>)
  then obtain s' where "commit ?reg tx7 s = (Inr (), s')" by blast
  with cb show ?thesis by (simp add: commitActivate_def within_tx_def WithinTx_def)
qed

subsection \<open>A deactivation that goes through\<close>

lemma deactivation_succeeds:
  assumes "store_ok s" "ref_text (dq_Authorization req)" "skill_text (dq_SkillRef req)" "valid_text (dq_LineageID req)" "dq_LineageID req \<noteq> []"
    "deactivate_artifacts ev svc req (\<lambda>_. s) new_tx = Inr a" "heads_agree s (dq_LineageID req) (ea_state a)" "GetOutbox s (ea_outboxKey a) = None"
    "ea_sequence a \<noteq> 0"
  shows "\<exists>s'. commitDeactivate ev svc False False req s = (Inr (deactivation_result req a), s')"
proof -
  let ?reg = "as_registry svc" and ?L = "dq_LineageID req"
  obtain d where f: "ls_active (ea_state a) = Some (dq_SkillRef req)" "ea_eventID a = ''deact-'' @ vr_id (dq_Authorization req) @ ''-'' @ ?L"
    "valid_text (ea_outboxKey a)" "buildActivationEvent ev svc (deactivate_spec req (ea_state a) (ea_sequence a) (ea_eventID a) (ea_outboxKey a)) = Inr (ea_event a, d)"
    "payloadDigest (ea_event a) = Inr (ea_eventDigest a)" by (rule deactivate_artifacts_Inr [OF assms(6)])
  let ?spec = "deactivate_spec req (ea_state a) (ea_sequence a) (ea_eventID a) (ea_outboxKey a)"
  have "valid_text (ea_eventID a)" unfolding f(2) using assms(2,4) by (intro valid_text_append) (simp_all add: valid_text_ascii ref_text_def)
  then have st: "spec_text ?spec" using assms(2-4) f(1,3) by (simp add: spec_text_def deactivate_spec_def)
  have ev: "acceptable LedgerActivation (ea_event a) (ea_eventID a) (ea_sequence a)" "ea_eventDigest a = DigestBytes (out (GObject (ea_event a)))"
    "marshalDoc (ea_event a) = Inr (mtext (GObject (ea_event a)))"
    using event_accepted [OF st f(4,5)] by (simp_all add: deactivate_spec_def)
  have dig: "isValidDigest (ea_eventDigest a)" by (simp add: ev(2) digest_bytes_pattern)
  have key: "isValidDigest (ea_outboxKey a)"
    using assms(6) by (auto simp: deactivate_artifacts_def and_then_Inr deriveOutboxKey_def Let_def split: prod.splits intro: DigestOf_valid)
  note es = event_swaps_ready [OF assms(1,7,5) dig ev(2) artifacts_head(2) [OF assms(6)] artifacts_sequence(2) [OF assms(6)]]
  have "built new_tx [] [] [] []" by (simp add: built_def new_tx_def)
  from event_staged [OF this es(2) ev _ assms(9) key assms(8), of ?reg] f(2) obtain tx1 where
    1: "stage_event ?reg s a new_tx = (Inr (), tx1)" "built tx1 [sequence_swap a] [event_entry a] [outbox_record a] []" by auto
  let ?as = "active_swap ?L a (ea_eventDigest a)"
  obtain tx2 where 2: "CompareAndSwapHead ?reg ?as tx1 = (Inr (), tx2)" "built tx2 [sequence_swap a, ?as] [event_entry a] [outbox_record a] []"
    using swap_step [OF 1(2) es(1)] by auto
  have cb: "deactivate_callback ev svc req (\<lambda>_. s) new_tx = (Inr (deactivation_result req a), tx2)"
    using assms(6) 1(1) 2(1) by (simp add: deactivate_callback_def tx_pure_def tx_then_def active_swap_def)
  have b: "\<not> tx_replay tx2" "\<forall>put \<in> set (tx_puts tx2). put_staged put" "tx_cas tx2 = [sequence_swap a, ?as]" "tx_appends tx2 = [event_entry a]"
    "tx_outbox tx2 = [outbox_record a]" "tx_idem tx2 = []" using 2(2) by (simp_all add: built_def)
  have "\<exists>s'. commit ?reg tx2 s = (Inr (), s')"
  proof (rule commit_succeeds [OF b(1,2) _ _ _ _ b(5)])
    show "\<forall>op \<in> set (tx_cas tx2). swap_ready s op" using es(1,2) by (simp add: b(3))
    show "distinct (map (\<lambda>op. headKey (cas_kind op) (cas_key op)) (tx_cas tx2))"
      using headKey_inj [of HeadActivationSequence HeadSkillActive] release_kinds_known [of HeadActivationSequence] release_kinds_known [of HeadSkillActive]
      by (auto simp: b(3) active_swap_def sequence_swap_def swap_op_def release_kinds_def)
    show "\<forall>e \<in> set (tx_appends tx2). entry_ready s e" using es(3) assms(9) f(2) by (simp add: b(4))
    show "outboxResolves t (overlay_of (tx_appends tx2)) (outbox_record a)" for t
      by (simp add: b(4) overlay_of_def Let_def outboxResolves_def outbox_record_def event_entry_def)
  qed (use key dig assms(8,9) in \<open>simp_all add: outbox_record_def b(4,6)\<close>)
  then obtain s' where "commit ?reg tx2 s = (Inr (), s')" by blast
  with cb show ?thesis by (simp add: commitDeactivate_def within_tx_def WithinTx_def)
qed

subsection \<open>A reactivation that goes through\<close>

text \<open>What a reactivation needs of the store and of the ports, once its guards have passed.\<close>

definition reactivation_ready :: "env \<Rightarrow> ActivationService \<Rightarrow> reactivateInput \<Rightarrow> MemoryStore \<Rightarrow> recordedArtifacts \<Rightarrow> bool" where
  "reactivation_ready ev svc inp s a =
     (reactivate_artifacts ev svc inp (\<lambda>_. s) new_tx = Inr a \<and> expectActiveHead (ea_state a) (xi_expected inp) = Inr () \<and>
      heads_agree s (sar_lineage_id (xi_released inp)) (ea_state a) \<and> LookupIdem s (''reactivation:'' @ dv_id (xi_decision inp)) = None \<and>
      GetOutbox s (ea_outboxKey a) = None \<and> ea_sequence a \<noteq> 0)"

lemma reactivation_event_accepted:
  assumes "reactivate_artifacts ev svc inp rd tx = Inr a" "decision_text (xi_decision inp)" "skill_text (xi_released inp)"
    "\<forall>r. ls_active (ea_state a) = Some r \<longrightarrow> skill_text r" "\<forall>r. xi_expected inp = Some r \<longrightarrow> skill_text r"
  shows "acceptable LedgerActivation (ea_event a) (ea_eventID a) (ea_sequence a)" "ea_eventDigest a = DigestBytes (out (GObject (ea_event a)))"
    "marshalDoc (ea_event a) = Inr (mtext (GObject (ea_event a)))" "ea_eventID a \<noteq> []"
proof -
  let ?L = "sar_lineage_id (xi_released inp)"
  obtain d where f: "ea_eventID a = ''act-'' @ dv_id (xi_decision inp) @ ''-'' @ ?L @ ''-v'' @ sar_version (xi_released inp) @ ''-reactivate''"
    "valid_text (ea_outboxKey a)"
    "buildActivationEvent ev svc (reactivate_spec inp (ea_state a) (ea_sequence a) (ea_eventID a) (ea_outboxKey a)) = Inr (ea_event a, d)"
    "payloadDigest (ea_event a) = Inr (ea_eventDigest a)"
    by (rule reactivate_artifacts_Inr [OF assms(1)])
  let ?spec = "reactivate_spec inp (ea_state a) (ea_sequence a) (ea_eventID a) (ea_outboxKey a)"
  have v: "valid_text ?L" "valid_text (sar_version (xi_released inp))" "valid_text (dv_id (xi_decision inp))"
    using assms(2,3) version_form by (auto simp: skill_text_def sar_ok_def decision_text_def intro: valid_text_ascii integer_ascii)
  have "valid_text (ea_eventID a)" unfolding f(1) using v by (intro valid_text_append) (simp_all add: valid_text_ascii)
  then have st: "spec_text ?spec"
    using assms(3-5) f(2) v decision_ref_text [OF assms(2)] by (simp add: spec_text_def reactivate_spec_def)
  note acc = event_accepted [OF st f(3,4)]
  show "acceptable LedgerActivation (ea_event a) (ea_eventID a) (ea_sequence a)" using acc(1) by (simp add: reactivate_spec_def)
  show "ea_eventDigest a = DigestBytes (out (GObject (ea_event a)))" "marshalDoc (ea_event a) = Inr (mtext (GObject (ea_event a)))" by (fact acc)+
  show "ea_eventID a \<noteq> []" by (simp add: f(1))
qed

lemma reactivation_succeeds:
  assumes "store_ok s" "decision_text (xi_decision inp)" "skill_text (xi_released inp)" "\<forall>r. xi_expected inp = Some r \<longrightarrow> skill_text r"
    "reactivation_ready ev svc inp s a"
  shows "\<exists>s'. commitReactivate ev svc False False inp s = (Inr (reactivation_result inp a), s')"
proof -
  let ?reg = "as_registry svc" and ?L = "sar_lineage_id (xi_released inp)" and ?marker = "sar_artifact_digest (xi_released inp)"
  let ?key = "''reactivation:'' @ dv_id (xi_decision inp)"
  let ?rec = "\<lparr>ir_key = ?key, ir_digest = ea_requestDigest a, ir_outcome = ea_recorded a\<rparr>"
  have r: "reactivate_artifacts ev svc inp (\<lambda>_. s) new_tx = Inr a" "expectActiveHead (ea_state a) (xi_expected inp) = Inr ()"
    "heads_agree s ?L (ea_state a)" "LookupIdem s ?key = None" "GetOutbox s (ea_outboxKey a) = None" "ea_sequence a \<noteq> 0"
    using assms(5) by (simp_all add: reactivation_ready_def)
  obtain d where f: "DigestOf (GObject (reactivate_request inp)) = Inr (ea_requestDigest a)" by (rule reactivate_artifacts_Inr [OF r(1)])
  have digs: "isValidDigest (ea_requestDigest a)" "isValidDigest (ea_outboxKey a)"
    using DigestOf_valid [OF f] r(1) by (auto simp: reactivate_artifacts_def and_then_Inr deriveOutboxKey_def Let_def split: prod.splits intro: DigestOf_valid)
  have L: "?L \<noteq> []" "isValidDigest ?marker" using assms(3) by (simp_all add: skill_text_def sar_ok_def)
  have act: "\<forall>q. ls_active (ea_state a) = Some q \<longrightarrow> skill_text q" using r(2) expect_active assms(4) by simp
  note ev = reactivation_event_accepted [OF r(1) assms(2,3) act assms(4)]
  note es = event_swaps_ready [OF assms(1) r(3) L ev(2) artifacts_head(3) [OF r(1)] artifacts_sequence(3) [OF r(1)]]
  obtain tx1 where 1: "RecordIdempotency ?reg s ?key (ea_requestDigest a) (ea_recorded a) new_tx = (Inr None, tx1)" "built tx1 [] [] [] [?rec]"
    using record_step [OF _ digs(1) r(4)] by blast
  obtain tx2 where 2: "stage_event ?reg s a tx1 = (Inr (), tx2)" "built tx2 [sequence_swap a] [event_entry a] [outbox_record a] [?rec]"
    using event_staged [OF 1(2) es(2) ev r(6) digs(2) r(5)] by auto
  let ?as = "active_swap ?L a ?marker"
  obtain tx3 where 3: "CompareAndSwapHead ?reg ?as tx2 = (Inr (), tx3)" "built tx3 [sequence_swap a, ?as] [event_entry a] [outbox_record a] [?rec]"
    using swap_step [OF 2(2) es(1)] by auto
  have cb: "reactivate_callback ev svc inp (\<lambda>_. s) new_tx = (Inr (reactivation_result inp a), tx3)"
    using r(1,2) 1(1) 2(1) 3(1) by (simp add: reactivate_callback_def tx_pure_def tx_then_def active_swap_def)
  have b: "\<not> tx_replay tx3" "\<forall>put \<in> set (tx_puts tx3). put_staged put" "tx_cas tx3 = [sequence_swap a, ?as]" "tx_appends tx3 = [event_entry a]"
    "tx_outbox tx3 = [outbox_record a]" "tx_idem tx3 = [?rec]" using 3(2) by (simp_all add: built_def)
  have "\<exists>s'. commit ?reg tx3 s = (Inr (), s')"
  proof (rule commit_succeeds [OF b(1,2) _ _ _ _ b(5)])
    show "\<forall>op \<in> set (tx_cas tx3). swap_ready s op" using es(1,2) by (simp add: b(3))
    show "distinct (map (\<lambda>op. headKey (cas_kind op) (cas_key op)) (tx_cas tx3))"
      using headKey_inj [of HeadActivationSequence HeadSkillActive] release_kinds_known [of HeadActivationSequence] release_kinds_known [of HeadSkillActive]
      by (auto simp: b(3) active_swap_def sequence_swap_def swap_op_def release_kinds_def)
    show "\<forall>e \<in> set (tx_appends tx3). entry_ready s e" using es(3) [OF r(6) ev(4)] by (simp add: b(4))
    show "outboxResolves t (overlay_of (tx_appends tx3)) (outbox_record a)" for t
      by (simp add: b(4) overlay_of_def Let_def outboxResolves_def outbox_record_def event_entry_def)
  qed (use digs ev(2) r(4-6) in \<open>simp_all add: outbox_record_def digest_bytes_pattern b(4,6)\<close>)
  then obtain s' where "commit ?reg tx3 s = (Inr (), s')" by blast
  with cb show ?thesis by (simp add: commitReactivate_def within_tx_def WithinTx_def)
qed

end
