(* ===== verification/Release_Sample.thy ===== *)
theory Release_Sample
  imports Release_Progress
begin

text \<open>
  A sample: a service with schemas that constrain nothing, a store with one proposal that waits for its activation, and a first release on it;
  stores with an active revision, with a revision that was released before and with a decision that is already in its ledger.
\<close>

subsection \<open>The service\<close>

definition release_stages :: Machine where
  "release_stages = \<lparr>mc_id = MachineSkillProposal, mc_initial = [], mc_states = [(StateActivationPending, True), (StateReleased, True)],
     mc_terminal = [(StateReleased, True)], mc_edges = [(StateActivationPending, [(StateReleased, True)])], mc_triggers = []\<rparr>"

definition release_schemas :: SchemaSet where
  "release_schemas = \<lparr>ss_dir = [], ss_docs = map (\<lambda>file. (file, open_schema)) [SchemaFileActivationEvent, SchemaFileDeactivationEvent, SchemaFileReleaseDecision],
     ss_names = []\<rparr>"

definition release_service :: ActivationService where
  "release_service = \<lparr>as_registry = any_registry, as_gates = release_schemas,
     as_proposals = \<lparr>eg_gates = open_schemas, eg_machine = release_stages, eg_bundleDigest = sample_digest, eg_registry = any_registry\<rparr>,
     as_authorizer = (\<lambda>_ _ _. Inr ())\<rparr>"

lemma release_service_wired: "wired release_service" "engine_text (as_proposals release_service)" "as_registry release_service = any_registry"
  by (simp_all add: wired_def release_service_def engine_text_def valid_digest release_stages_def Trigger_def)

text \<open>The schemas accept every event of text.\<close>

lemma open_event:
  assumes "spec_text spec" "sp_eventType spec \<in> {EventTypeActivate, EventTypeDeactivate}" "sp_eventID spec \<noteq> []" "sp_outboxKey spec \<noteq> []"
  shows "\<exists>event d. buildActivationEvent ev release_service spec = Inr (event, d)"
proof -
  let ?file = "if sp_eventType spec = EventTypeDeactivate then SchemaFileDeactivationEvent else SchemaFileActivationEvent"
  let ?d = "DigestBytes (out (GObject []))"
  let ?sealed = "gput ''event_digest'' (GString ?d) (activation_payload spec)"
  have schema: "map_of (ss_docs (as_gates release_service)) ?file = Some open_schema" by (simp add: release_service_def release_schemas_def)
  have "readable ?sealed" by (rule sealed_readable [OF assms(1,2)]) (rule valid_digest [OF digest_bytes_pattern])
  then have "plain (GObject ?sealed)" by (intro plain_hashable) (simp only: readable_def)
  moreover have "map_of ?sealed ''extensions'' = None" by (simp add: activation_payload_def opt_field_keys)
  ultimately have "gate ev (as_gates release_service) ?sealed ?file = Inr ()" by (rule open_schema_gate [OF schema])
  with open_schema_digest [OF schema] assms(2-4) show ?thesis by (simp add: buildActivationEvent_def activationEventTypes_def Let_def check_def)
qed

subsection \<open>A proposal that waits\<close>

definition sample_candidate :: CandidateArtifactRef where
  "sample_candidate = \<lparr>car_schema_version = SchemaCandidateArtifactRef, car_candidate_id = ''c'', car_kind = ''tool'', car_body_digest = sample_digest,
     car_origin_type = ''skill_proposal'', car_origin_ref = Proposal_Ref sample_proposal\<rparr>"

definition sample_decision_of :: "string \<Rightarrow> decisionView" where
  "sample_decision_of d = \<lparr>dv_id = ''d'', dv_version = ''1'', dv_digest = d, dv_outcome = ReleaseAccepted, dv_candidate = sample_candidate,
     dv_doc = [(''schema_version'', GString ''gms.release-decision.v1'')]\<rparr>"

definition sample_input_of :: "string \<Rightarrow> activateInput" where
  "sample_input_of d = \<lparr>ai_decision = sample_decision_of d, ai_candidate = sample_candidate, ai_lineageID = ''l'', ai_expected = None, ai_proposal = sample_proposal,
     ai_proposalState = StateActivationPending\<rparr>"

abbreviation sample_request_input :: activateInput where
  "sample_request_input \<equiv> sample_input_of sample_digest"

definition pending_event :: gobj where
  "pending_event = [(''from_state'', GString StateNone), (''to_state'', GString StateActivationPending)]"

definition pending_store :: MemoryStore where
  "pending_store = empty_store\<lparr>
     ms_ledgers := [(proposal_key ''p'', [\<lparr>en_ledger = LedgerProposal, en_stream = ''p'', en_seq = 1, en_event = ''pe-p-1'',
        en_digest = DigestBytes (out (GObject pending_event))\<rparr>])],
     ms_content := [(DigestBytes (out (GObject pending_event)), out (GObject pending_event))]\<rparr>"

lemma pending_entries: "entries_at pending_store k = (if k = proposal_key ''p'' then
    [\<lparr>en_ledger = LedgerProposal, en_stream = ''p'', en_seq = 1, en_event = ''pe-p-1'', en_digest = DigestBytes (out (GObject pending_event))\<rparr>] else [])"
  by (simp add: pending_store_def entries_at_def)

lemma pending_store_ok: "store_ok pending_store"
  unfolding store_ok_def pending_entries by (auto simp: numbered_def pending_store_def split: if_splits)

lemma pending_store_fresh: "head_pair pending_store k = (0, [])" "LookupIdem pending_store k = None" "GetOutbox pending_store k = None"
  by (simp_all add: pending_store_def empty_store_def head_pair_def LookupIdem_def GetOutbox_def)

lemma pending_state: "CurrentState pending_store ''p'' = Inr (StateActivationPending, 1)"
proof -
  have "readable pending_event"
    by (rule readable_fields) (auto simp: pending_event_def gmap_ok_def valid_text_ascii)
  then obtain n where n: "ParseJSONStrict (out (GObject pending_event)) = Inr (GObject n)" "\<And>k. map_of n k = map_option canon (map_of pending_event k)"
    using readable_parse by blast
  have "Get pending_store (DigestBytes (out (GObject pending_event))) = Some (out (GObject pending_event))" by (simp add: Get_def pending_store_def)
  moreover have "map_of pending_event ''from_state'' = Some (GString StateNone)" "map_of pending_event ''to_state'' = Some (GString StateActivationPending)"
    by (simp_all add: pending_event_def)
  ultimately show ?thesis
    unfolding CurrentState_def committedState_eq pending_entries
    by (simp add: advance_proposal_def n(1) obj_or_nil_def AsObject_def gidx_def n(2) str_or_empty_def AsString_def)
qed

lemma sample_fields:
  "ai_decision (sample_input_of d) = sample_decision_of d" "ai_candidate (sample_input_of d) = sample_candidate" "ai_lineageID (sample_input_of d) = ''l''"
  "ai_expected (sample_input_of d) = None" "ai_proposal (sample_input_of d) = sample_proposal" "ai_proposalState (sample_input_of d) = StateActivationPending"
  "pr_id sample_proposal = ''p''" "dv_id (sample_decision_of d) = ''d''" "dv_digest (sample_decision_of d) = d"
  by (simp_all add: sample_input_of_def sample_proposal_def sample_decision_of_def)

lemma sample_texts_ok: "candidate_text sample_candidate" "valid_text d \<Longrightarrow> decision_text (sample_decision_of d)" "valid_text d \<Longrightarrow> activate_text (sample_input_of d)"
proof -
  have one: "version_ok ''1''" by code_simp
  show c: "candidate_text sample_candidate"
    using one by (simp add: candidate_text_def car_ok_def vr_ok_def sample_candidate_def Proposal_Ref_def sample_proposal_def skillKinds_def originTypes_def valid_text_ascii)
  show dt: "valid_text d \<Longrightarrow> decision_text (sample_decision_of d)" using one_form by (simp add: decision_text_def sample_decision_of_def valid_text_ascii)
  then show "valid_text d \<Longrightarrow> activate_text (sample_input_of d)" using c by (simp add: activate_text_def sample_fields valid_text_ascii)
qed

lemma sample_digest_text: "valid_text sample_digest"
  by (rule valid_digest) simp

lemma sample_decision_document: "decision_document (sample_decision_of d)"
proof -
  have "readable [(''schema_version'', GString ''gms.release-decision.v1'')]" by (rule readable_fields) (auto simp: gmap_ok_def valid_text_ascii)
  then show ?thesis by (simp add: decision_document_def acceptable_def sample_decision_of_def ledgerKinds_def kind_spec_def payloadStateTables_def)
qed

subsection \<open>The first release\<close>

lemma pending_reads:
  "replayLineage pending_store L = Inr no_lineage" "nextVersion pending_store L = Inr (1, 0, [])" "ledger_head pending_store = Inr (0, [])"
  "NextSequence any_registry pending_store new_tx LedgerActivation [] = Inr 1" "entries_at pending_store activation_key = []"
proof -
  show empty: "entries_at pending_store activation_key = []" using numbers_differ(1) [of "''p''", symmetric] by (simp add: pending_entries)
  show "replayLineage pending_store L = Inr no_lineage" by (simp add: replayLineage_eq empty)
  show "nextVersion pending_store L = Inr (1, 0, [])"
    using release_kinds_known [of HeadLineageVersion] by (simp add: nextVersion_def GetHead_def release_kinds_def pending_store_def empty_store_def)
  show "ledger_head pending_store = Inr (0, [])" using activation_kind by (simp add: ledger_head_def Head_def empty)
  have "NextSequence any_registry pending_store new_tx LedgerActivation [] = Inr (word_of_nat (length (entries_at pending_store activation_key)) + 1)"
    using activation_kind by (intro next_number [OF pending_store_ok]) (simp_all add: new_tx_def)
  then show "NextSequence any_registry pending_store new_tx LedgerActivation [] = Inr 1" by (simp add: empty)
qed

lemma outbox_key: "valid_text i \<Longrightarrow> valid_text op \<Longrightarrow> \<exists>k. deriveOutboxKey op i n = Inr k \<and> valid_text k \<and> k \<noteq> []"
proof -
  assume t: "valid_text i" "valid_text op"
  let ?doc = "GObject [(''outbox_for'', GString op), (''identity'', GString i), (''activation_sequence'', GNumber (format_uint n))]"
  have "hashable ?doc" using t format_uint_facts(1) by (simp add: gmap_ok_def valid_text_ascii)
  from DigestOf_hashable [OF this] have "deriveOutboxKey op i n = Inr (DigestBytes (out ?doc))" by (simp add: deriveOutboxKey_def)
  moreover have "valid_text (DigestBytes (out ?doc))" by (rule valid_digest [OF digest_bytes_pattern])
  moreover have "DigestBytes (out ?doc) \<noteq> []" by (simp add: DigestBytes_def)
  ultimately show ?thesis by blast
qed

lemma sample_artifacts:
  assumes d: "valid_text d" and reads: "replayLineage s ''l'' = Inr no_lineage" "nextVersion s ''l'' = Inr (1, 0, [])" "ledger_head s = Inr (0, [])"
    "NextSequence any_registry s new_tx LedgerActivation [] = Inr 1"
  shows "\<exists>a. activate_artifacts ev release_service (sample_input_of d) (\<lambda>_. s) new_tx = Inr a \<and> ea_state a = no_lineage \<and> ea_sequence a = 1 \<and> ra_version a = 1 \<and>
     ra_released a = released_ref (sample_input_of d) 1"
proof -
  let ?inp = "sample_input_of d" and ?dv = "sample_decision_of d"
  note i = sample_fields
  have sk: "skill_text (released_ref ?inp 1)" by (rule released_ref_text [OF sample_texts_ok(3) [OF d]]) simp
  have ref: "ref_text (decision_ref ?dv)" by (rule decision_ref_text [OF sample_texts_ok(2) [OF d]])
  let ?mapping = "mapping_doc ''l'' 1 (released_ref ?inp 1) sample_candidate (decision_ref ?dv) []"
  have "readable ?mapping" using sk sample_texts_ok(1) ref by (intro mapping_readable) (simp_all add: valid_text_ascii)
  then have m: "buildMappingRecord ''l'' 1 (released_ref ?inp 1) sample_candidate (decision_ref ?dv) [] = Inr (?mapping, mtext (GObject ?mapping))"
    using readable_marshal by (simp add: buildMappingRecord_def Let_def del: marshal.simps)
  let ?eid = "''act-'' @ ''d'' @ ''-'' @ ''l'' @ ''-v'' @ format_uint 1"
  have eid: "valid_text ?eid" using format_uint_facts(3) by (intro event_id_text) (simp_all add: valid_text_ascii)
  let ?ident = "''d'' @ ''/'' @ car_candidate_id sample_candidate @ ''/'' @ ''l'' @ ''/'' @ format_uint 1"
  have "valid_text ?ident" using format_uint_facts(3) [of 1] sample_texts_ok(1) by (intro valid_text_append) (simp_all add: valid_text_ascii candidate_text_def)
  from outbox_key [OF this, of EventTypeActivate 1] obtain k where k: "deriveOutboxKey EventTypeActivate ?ident 1 = Inr k" "valid_text k" "k \<noteq> []"
    by (auto simp: valid_text_ascii simp del: append_Cons append_Nil append_assoc)
  let ?spec = "activate_spec ?inp no_lineage 1 1 ?eid k"
  have st: "spec_text ?spec"
    using eid k(2) sk ref sample_texts_ok(1) by (simp add: spec_text_def activate_spec_def no_lineage_def i valid_text_ascii)
  have spf: "sp_eventType ?spec \<in> {EventTypeActivate, EventTypeDeactivate}" "sp_eventID ?spec \<noteq> []" "sp_outboxKey ?spec \<noteq> []"
    using k(3) by (simp_all add: activate_spec_def)
  then obtain event dd where e: "buildActivationEvent ev release_service ?spec = Inr (event, dd)"
    using open_event [OF st, where ev = ev] spf by blast
  have rd: "readable event" by (rule activation_event_readable(1) [OF st e])
  let ?dg = "DigestBytes (out (GObject event))"
  have p: "payloadDigest event = Inr ?dg" by (rule payloadDigest_readable [OF rd])
  have "hashable (GObject (activate_request ?inp))"
    using sample_texts_ok(1) d by (simp add: activate_request_def gmap_ok_def i valid_text_ascii valid_digest candidate_text_def car_ok_def expectedHeadDigestInput_def)
  then obtain q where q: "DigestOf (GObject (activate_request ?inp)) = Inr q" using DigestOf_hashable by blast
  have "valid_text ?dg" by (rule valid_digest [OF digest_bytes_pattern])
  from outcome_read(1) [OF sk _ eid this k(2), of None 1] obtain o' where o': "marshalDoc (outcome_doc (released_ref ?inp 1) 1 ?eid ?dg k None) = Inr o'" by blast
  show ?thesis
    using m k(1) e p q o'
    by (simp add: activate_artifacts_def reads release_service_wired(3) i Let_def no_lineage_def)
qed

lemma open_transition:
  assumes "\<forall>r \<in> set refs. ref_text r"
  shows "\<exists>payload. buildEventPayload ev (as_proposals release_service) sample_proposal StateActivationPending StateReleased n refs = Inr payload"
proof -
  let ?g = "as_proposals release_service" and ?d = "DigestBytes (out (GObject []))"
  have g: "eg_gates ?g = open_schemas" by (simp add: release_service_def)
  let ?core = "event_payload ?g sample_proposal StateActivationPending StateReleased n refs"
  let ?sealed = "gput ''event_digest'' (GString ?d) ?core"
  have schema: "map_of (ss_docs (eg_gates ?g)) SchemaFileProposalEvent = Some open_schema" by (simp add: g open_schemas_def)
  have "list_all plain (map versionedRefJSON refs)" using assms by (auto simp: list_all_iff versionedRefJSON_def ref_text_def)
  moreover have "plain (authorityRef ?g)" using one_form by (simp add: authorityRef_def)
  moreover have "plain (versionedRefJSON (Proposal_Ref sample_proposal))"
    using one_form by (simp add: versionedRefJSON_def Proposal_Ref_def sample_proposal_def)
  ultimately have "plain (GObject ?sealed)" using format_uint_facts(1) by (simp add: event_payload_def)
  moreover have "map_of ?sealed ''extensions'' = None" by (simp add: event_payload_def)
  ultimately have "gate ev (eg_gates ?g) ?sealed SchemaFileProposalEvent = Inr ()" by (rule open_schema_gate [OF schema])
  with open_schema_digest [OF schema] show ?thesis by (simp add: buildEventPayload_def Let_def)
qed

lemma sample_release_ready: "\<exists>a. release_ready sample_env release_service sample_request_input pending_store a \<and> ra_released a = released_ref sample_request_input 1"
proof -
  note i = sample_fields
  obtain a where a: "activate_artifacts sample_env release_service sample_request_input (\<lambda>_. pending_store) new_tx = Inr a" "ea_state a = no_lineage" "ea_sequence a = 1"
    "ra_version a = 1" "ra_released a = released_ref sample_request_input 1" using sample_artifacts [OF sample_digest_text] pending_reads(1-4) by blast
  have heads: "heads_agree pending_store (ai_lineageID sample_request_input) (ea_state a)"
    by (simp add: heads_agree_def pending_store_fresh a(2) no_lineage_def end_of_def pending_reads(5))
  have ready: "expectActiveHead (ea_state a) (ai_expected sample_request_input) = Inr ()" using expect_active by (simp add: a(2) i no_lineage_def)
  have "ledgerKey LedgerEvaluation ''d'' \<noteq> proposal_key ''p''" by (rule numbers_differ(3))
  then have ev: "entries_at pending_store (ledgerKey LedgerEvaluation ''d'') = []" by (simp add: pending_entries)
  have edge: "check_transition (eg_machine (as_proposals release_service)) StateActivationPending 1 StateActivationPending StateReleased = Inr ()"
    by (simp add: check_transition_Inr release_service_def release_stages_def IsDefined_def IsTerminal_def HasEdge_def flag_def)
  have "\<forall>r \<in> set (release_records sample_request_input (ra_released a)). ref_text r"
    using record_refs_text [OF sample_texts_ok(3) [OF sample_digest_text] a(5)] by simp
  then obtain payload where "buildEventPayload sample_env (as_proposals release_service) sample_proposal StateActivationPending StateReleased (1 + 1)
      (release_records sample_request_input (ra_released a)) = Inr payload" using open_transition by blast
  then have "release_ready sample_env release_service sample_request_input pending_store a"
    unfolding release_ready_def using a(1,3,4) heads ready ev edge pending_state pending_store_fresh sample_decision_document by (auto simp: i)
  with a(5) show ?thesis by blast
qed

subsection \<open>A revision that is active\<close>

definition sample_revision :: SkillArtifactRef where
  "sample_revision = released_ref sample_request_input 1"

definition active_event :: gobj where
  "active_event = [(''event_type'', GString EventTypeActivate), (''lineage_id'', GString ''l''), (''skill_ref'', GObject (skillRefDoc sample_revision))]"

definition active_entry :: Entry where
  "active_entry = \<lparr>en_ledger = LedgerActivation, en_stream = [], en_seq = 1, en_event = ''act-d-l-v1'', en_digest = DigestBytes (out (GObject active_event))\<rparr>"

definition active_store :: MemoryStore where
  "active_store = empty_store\<lparr>ms_ledgers := [(activation_key, [active_entry])],
     ms_content := [(DigestBytes (out (GObject active_event)), out (GObject active_event))],
     ms_heads := [(headKey HeadSkillActive ''l'', \<lparr>hs_seq = 1, hs_digest = sample_digest\<rparr>),
       (headKey HeadActivationSequence activationStreamKey, \<lparr>hs_seq = 1, hs_digest = DigestBytes (out (GObject active_event))\<rparr>)]\<rparr>"

definition sample_deactivation :: DeactivateRequest where
  "sample_deactivation = \<lparr>dq_LineageID = ''l'', dq_SkillRef = sample_revision, dq_Authorization = \<lparr>vr_id = ''a'', vr_version = ''1'', vr_digest = sample_digest\<rparr>\<rparr>"

abbreviation active_lineage :: lineageState where
  "active_lineage \<equiv> \<lparr>ls_active = Some sample_revision, ls_headSeq = 1, ls_headDigest = sample_digest\<rparr>"

lemma sample_revision_ok: "skill_text sample_revision" "sar_artifact_digest sample_revision = sample_digest" "sar_lineage_id sample_revision = ''l''"
  using released_ref_text [OF sample_texts_ok(3) [OF sample_digest_text], of 1]
  by (simp_all add: sample_revision_def released_ref_def sample_fields sample_candidate_def)

lemma active_event_readable: "readable active_event"
proof (rule readable_fields)
  have "embeds 2 (GObject (skillRefDoc sample_revision))" by (rule embeds_mono [OF embeds_refs(1) [OF sample_revision_ok(1)]]) simp
  then show "valid_text (fst p) \<and> fst p \<noteq> ''source_skill_refs'' \<and> embeds 2 (snd p)" if "p \<in> set active_event" for p
    using that by (auto simp: active_event_def valid_text_ascii)
qed (simp add: active_event_def gmap_ok_def)

lemma active_entries: "entries_at active_store k = (if k = activation_key then [active_entry] else [])"
  by (simp add: active_store_def entries_at_def empty_store_def)

lemma active_store_ok: "store_ok active_store"
  unfolding store_ok_def active_entries by (auto simp: numbered_def active_store_def active_entry_def split: if_splits)

lemma active_store_state: "replayLineage active_store ''l'' = Inr active_lineage"
proof -
  obtain n where n: "ParseJSONStrict (out (GObject active_event)) = Inr (GObject n)" "\<And>k. map_of n k = map_option canon (map_of active_event k)"
    "JCS (NormalizeForHashing (GObject n)) = Inr (out (GObject active_event))" using readable_parse [OF active_event_readable] by blast
  have f: "gidx n ''event_type'' = GString EventTypeActivate" "gidx n ''lineage_id'' = GString ''l''"
    "gidx n ''skill_ref'' = canon (GObject (skillRefDoc sample_revision))" by (simp_all add: gidx_def n(2) active_event_def)
  have r: "ParseSkillArtifactRef (obj_or_nil (canon (GObject (skillRefDoc sample_revision)))) = Inr sample_revision"
    using skill_doc_read(2) sample_revision_ok(1) by (simp add: skill_text_def)
  have "Get active_store (en_digest active_entry) = Some (out (GObject active_event))" by (simp add: Get_def active_store_def active_entry_def)
  moreover have "DigestBytes (out (GObject active_event)) = en_digest active_entry" by (simp add: active_entry_def)
  moreover have "obj_or_nil (GObject n) = n" by (simp add: obj_or_nil_def AsObject_def)
  ultimately have "advance_lineage ''l'' active_store active_entry no_lineage = Inr active_lineage"
    using f r n(1,3) sample_revision_ok(2) by (simp add: advance_lineage_def str_or_empty_def AsString_def no_lineage_def Let_def del: canon.simps)
  then show ?thesis by (simp add: replayLineage_eq active_entries)
qed

lemma active_store_heads: "heads_agree active_store ''l'' active_lineage"
proof -
  have "map_of headKinds k \<noteq> None" if "k \<in> set release_kinds" for k using release_kinds_known [OF that] .
  then have ne: "headKey HeadActivationSequence x \<noteq> headKey HeadSkillActive y" "headKey HeadLineageVersion x \<noteq> headKey HeadSkillActive y"
    "headKey HeadLineageVersion x \<noteq> headKey HeadActivationSequence y" for x y
    using headKey_inj [of HeadActivationSequence HeadSkillActive] headKey_inj [of HeadLineageVersion HeadSkillActive]
      headKey_inj [of HeadLineageVersion HeadActivationSequence] by (auto simp: release_kinds_def)
  have h: "head_pair active_store (headKey HeadSkillActive ''l'') = (1, sample_digest)"
    "head_pair active_store (headKey HeadActivationSequence activationStreamKey) = (1, DigestBytes (out (GObject active_event)))"
    "head_pair active_store (headKey HeadLineageVersion ''l'') = (0, [])"
    using ne by (simp_all add: head_pair_def active_store_def)
  then show ?thesis by (simp add: heads_agree_def active_entries end_of_def active_entry_def digest_bytes_pattern)
qed

lemma sample_deactivation_succeeds:
  "\<exists>r s'. commitDeactivate sample_env release_service False False sample_deactivation active_store = (Inr r, s')"
proof -
  let ?req = sample_deactivation
  have q: "dq_LineageID ?req = ''l''" "dq_SkillRef ?req = sample_revision" "vr_id (dq_Authorization ?req) = ''a''" by (simp_all add: sample_deactivation_def)
  have auth: "ref_text (dq_Authorization ?req)" using one_form valid_digest [of sample_digest]
    by (simp add: sample_deactivation_def ref_text_def valid_text_ascii)
  have sq: "NextSequence any_registry active_store new_tx LedgerActivation [] = Inr 2"
  proof -
    have "NextSequence any_registry active_store new_tx LedgerActivation [] = Inr (word_of_nat (length (entries_at active_store activation_key)) + 1)"
      using activation_kind by (intro next_number [OF active_store_ok]) (simp_all add: new_tx_def)
    then show ?thesis by (simp add: active_entries)
  qed
  have lh: "ledger_head active_store = Inr (1, en_digest active_entry)"
    using activation_kind by (simp add: ledger_head_def Head_def active_entries) (simp add: active_entry_def)
  let ?ident = "''a'' @ ''/'' @ ''l'' @ ''/'' @ sar_version sample_revision @ ''/'' @ sar_artifact_digest sample_revision"
  have v: "valid_text (sar_version sample_revision)" "valid_text (sar_artifact_digest sample_revision)"
    using sample_revision_ok(1) version_form by (auto simp: skill_text_def sar_ok_def valid_digest intro: valid_text_ascii integer_ascii)
  have "valid_text ?ident" using v by (intro valid_text_append) (simp_all add: valid_text_ascii)
  from outbox_key [OF this, of EventTypeDeactivate 2] obtain k where k: "deriveOutboxKey EventTypeDeactivate ?ident 2 = Inr k" "valid_text k" "k \<noteq> []"
    by (auto simp: valid_text_ascii simp del: append_Cons append_Nil append_assoc)
  let ?spec = "deactivate_spec ?req active_lineage 2 ''deact-a-l'' k"
  have st: "spec_text ?spec" using auth sample_revision_ok(1) k(2) by (simp add: spec_text_def deactivate_spec_def q valid_text_ascii)
  have spf: "sp_eventType ?spec \<in> {EventTypeActivate, EventTypeDeactivate}" "sp_eventID ?spec \<noteq> []" "sp_outboxKey ?spec \<noteq> []"
    using k(3) by (simp_all add: deactivate_spec_def)
  obtain event d where e: "buildActivationEvent sample_env release_service ?spec = Inr (event, d)" using open_event [OF st, where ev = sample_env] spf by blast
  have p: "payloadDigest event = Inr (DigestBytes (out (GObject event)))" by (rule payloadDigest_readable [OF activation_event_readable(1) [OF st e]])
  obtain a where a: "deactivate_artifacts sample_env release_service ?req (\<lambda>_. active_store) new_tx = Inr a" "ea_state a = active_lineage" "ea_sequence a = 2"
    using k(1) e p by (simp add: deactivate_artifacts_def q active_store_state sq lh release_service_wired(3) check_def Let_def)
  have "GetOutbox active_store (ea_outboxKey a) = None" by (simp add: GetOutbox_def active_store_def empty_store_def)
  from deactivation_succeeds [OF active_store_ok auth _ _ _ a(1) _ this] sample_revision_ok(1) active_store_heads show ?thesis
    by (auto simp: q a(2,3) valid_text_ascii)
qed

subsection \<open>References, read back\<close>

lemma canon_fields:
  assumes "gmap_ok m"
  obtains n where "canon (GObject m) = GObject n" "\<And>k. map_of n k = map_option canon (map_of m k)" "fst ` set n = fst ` set m"
proof -
  let ?m = "map (\<lambda>p. (fst p, canon (snd p))) m"
  have "gmap_ok ?m" using assms by (simp add: gmap_ok_def comp_def)
  then have "map_of (sort_by entry_less ?m) = map_of ?m" by (intro map_of_mset(2) [OF mset_sort_by])
  then have "map_of (sort_by entry_less ?m) k = map_option canon (map_of m k)" for k using map_of_map [of canon m] by (simp add: case_prod_beta')
  then show thesis by (intro that [of "sort_by entry_less ?m"]) (simp_all add: image_image)
qed

lemma versioned_read: "vr_ok r \<Longrightarrow> ParseVersionedRef (obj_or_nil (canon (GObject (versionedRefDoc r)))) = Inr r"
proof -
  assume r: "vr_ok r"
  obtain n where n: "canon (GObject (versionedRefDoc r)) = GObject n" "\<And>k. map_of n k = map_option canon (map_of (versionedRefDoc r) k)"
    "fst ` set n = fst ` set (versionedRefDoc r)" using canon_fields [OF gmap_ok_docs(1) [of r]] by blast
  have "version_ok (vr_version r)" using r by (simp add: vr_ok_def)
  then show ?thesis using r by (simp add: n(1) obj_or_nil_def AsObject_def ParseVersionedRef_Inr n(2,3) versionedRefDoc_def version_norm)
qed

text \<open>A candidate document, whatever the form of its origin.\<close>

lemma candidate_fields:
  assumes "car_ok c" "fst ` set obj = fst ` set (candidateRefDoc c)" "\<And>k. k \<noteq> ''origin_ref'' \<Longrightarrow> map_of obj k = map_of (candidateRefDoc c) k"
    "map_of obj ''origin_ref'' = Some (GObject o')" "ParseVersionedRef o' = Inr (car_origin_ref c)"
  shows "ParseCandidateArtifactRef obj = Inr c"
proof -
  have f: "map_of obj ''schema_version'' = Some (GString SchemaCandidateArtifactRef)" "map_of obj ''candidate_id'' = Some (GString (car_candidate_id c))"
    "map_of obj ''kind'' = Some (GString (car_kind c))" "map_of obj ''body_digest'' = Some (GString (car_body_digest c))"
    "map_of obj ''origin_type'' = Some (GString (car_origin_type c))" using assms(1,3) by (simp_all add: candidateRefDoc_def car_ok_def)
  have keys: "fst ` set obj = {''schema_version'', ''candidate_id'', ''kind'', ''body_digest'', ''origin_type'', ''origin_ref''}"
    using assms(2) by (simp add: candidateRefDoc_def)
  have rej: "rejectUnknownFields obj [''schema_version'', ''candidate_id'', ''kind'', ''body_digest'', ''origin_type'', ''origin_ref'']
      legacySkillArtifactRefAliases = Inr ()"
    unfolding rejectUnknownFields_Inr keys by (simp add: legacySkillArtifactRefAliases_def)
  have req: "requireNonEmptyString obj ''candidate_id'' = Inr (car_candidate_id c)" "requireEnumField obj ''kind'' skillKinds = Inr (car_kind c)"
    "requireDigestField obj ''body_digest'' = Inr (car_body_digest c)" "requireEnumField obj ''origin_type'' originTypes = Inr (car_origin_type c)"
    using assms(1) by (simp_all add: f car_ok_def requireNonEmptyString_Inr requireEnumField_Inr requireDigestField_Inr)
  have "car_schema_version c = SchemaCandidateArtifactRef" using assms(1) by (simp add: car_ok_def)
  then show ?thesis using assms(4,5) f(1)
    by (simp add: ParseCandidateArtifactRef_def rej req gidx_def str_or_empty_def AsString_def AsObject_def check_def)
qed

lemma candidate_read:
  assumes "car_ok c"
  shows "ParseCandidateArtifactRef (obj_or_nil (canon (GObject (candidateRefDoc c)))) = Inr c" "ParseCandidateArtifactRef (candidateRefDoc c) = Inr c"
proof -
  have v: "vr_ok (car_origin_ref c)" using assms by (simp add: car_ok_def)
  obtain n where n: "canon (GObject (candidateRefDoc c)) = GObject n" "\<And>k. map_of n k = map_option canon (map_of (candidateRefDoc c) k)"
    "fst ` set n = fst ` set (candidateRefDoc c)" using canon_fields [OF gmap_ok_docs(3) [of c]] by blast
  obtain o' where o': "canon (GObject (versionedRefDoc (car_origin_ref c))) = GObject o'" using canon.simps(3) by metis
  have "ParseCandidateArtifactRef n = Inr c"
  proof (rule candidate_fields [OF assms n(3)])
    show "map_of n k = map_of (candidateRefDoc c) k" if "k \<noteq> ''origin_ref''" for k using that by (simp add: n(2) candidateRefDoc_def)
    show "map_of n ''origin_ref'' = Some (GObject o')" using o' by (simp add: n(2) candidateRefDoc_def del: canon.simps(3))
    show "ParseVersionedRef o' = Inr (car_origin_ref c)" using versioned_read [OF v] by (simp only: o' obj_or_nil_def AsObject_def gv.case option.case)
  qed
  then show "ParseCandidateArtifactRef (obj_or_nil (canon (GObject (candidateRefDoc c)))) = Inr c" by (simp only: n(1) obj_or_nil_def AsObject_def gv.case option.case)
  show "ParseCandidateArtifactRef (candidateRefDoc c) = Inr c"
  proof (rule candidate_fields [OF assms refl])
    show "map_of (candidateRefDoc c) ''origin_ref'' = Some (GObject (versionedRefDoc (car_origin_ref c)))" by (simp add: candidateRefDoc_def)
    show "ParseVersionedRef (versionedRefDoc (car_origin_ref c)) = Inr (car_origin_ref c)"
      using v by (simp add: ParseVersionedRef_Inr versionedRefDoc_def)
  qed simp
qed

lemma ParseSkillArtifactRef_ok: "ParseSkillArtifactRef obj = Inr r \<Longrightarrow> sar_ok r"
  by (cases r) (auto simp: ParseSkillArtifactRef_def res_simps sar_ok_def)

subsection \<open>A released revision and its decision\<close>

definition old_candidate :: CandidateArtifactRef where
  "old_candidate = sample_candidate\<lparr>car_body_digest := DigestBytes (out (GObject []))\<rparr>"

definition old_revision :: SkillArtifactRef where
  "old_revision = \<lparr>sar_schema_version = SchemaSkillArtifactRef, sar_lineage_id = ''l'', sar_version = ''1'', sar_kind = ''tool'',
     sar_artifact_digest = DigestBytes (out (GObject []))\<rparr>"

definition old_document :: gobj where
  "old_document = [(''decision_id'', GString ''d''), (''decision_version'', GNumber ''1''), (''decision_digest'', GString sample_digest),
     (''outcome'', GString ReleaseAccepted), (''candidate_ref'', GObject (candidateRefDoc old_candidate))]"

definition old_decision :: ReleaseDecision where
  "old_decision = \<lparr>rd_Outcome = ReleaseAccepted, rd_DecisionDigest = sample_digest, rd_Doc = Some old_document\<rparr>"

definition old_view :: decisionView where
  "old_view = \<lparr>dv_id = ''d'', dv_version = ''1'', dv_digest = sample_digest, dv_outcome = ReleaseAccepted, dv_candidate = old_candidate, dv_doc = old_document\<rparr>"

abbreviation old_mapping :: gobj where
  "old_mapping \<equiv> mapping_doc ''l'' 1 old_revision old_candidate (decision_ref old_view) []"

definition released_store :: MemoryStore where
  "released_store = empty_store\<lparr>
     ms_content := [(DigestBytes (out (GObject old_mapping)), out (GObject old_mapping)), (DigestBytes (out (GObject [])), out (GObject []))],
     ms_heads := [(headKey HeadLineageVersion ''l'', \<lparr>hs_seq = 1, hs_digest = DigestBytes (out (GObject old_mapping))\<rparr>)]\<rparr>"

lemma old_ok: "car_ok old_candidate" "skill_text old_revision" "ref_text (decision_ref old_view)" "vr_ok (decision_ref old_view)" "candidate_text old_candidate"
proof -
  have one: "version_ok ''1''" by code_simp
  have c: "car_ok sample_candidate" using sample_texts_ok(1) by (simp add: candidate_text_def)
  then show "car_ok old_candidate" by (simp add: car_ok_def old_candidate_def digest_bytes_pattern)
  then show "candidate_text old_candidate" using sample_texts_ok(1) by (simp add: candidate_text_def old_candidate_def)
  show "skill_text old_revision" using one by (simp add: skill_text_def sar_ok_def old_revision_def skillKinds_def digest_bytes_pattern valid_text_ascii)
  show "ref_text (decision_ref old_view)" using one_form sample_digest_text by (simp add: ref_text_def decision_ref_def old_view_def valid_text_ascii)
  show "vr_ok (decision_ref old_view)" using one by (simp add: vr_ok_def decision_ref_def old_view_def)
qed

text \<open>The newest record of a lineage, as a release writes it, is found by its version and read back.\<close>

definition released_as :: "MemoryStore \<Rightarrow> SkillArtifactRef \<Rightarrow> CandidateArtifactRef \<Rightarrow> VersionedRef \<Rightarrow> bool" where
  "released_as s ref cand decision = (\<exists>q v prev. map_of (ms_heads s) (headKey HeadLineageVersion (sar_lineage_id ref)) = Some q \<and> hs_digest q \<noteq> [] \<and>
     Get s (hs_digest q) = Some (out (GObject (mapping_doc (sar_lineage_id ref) v ref cand decision prev))) \<and> sar_version ref = format_uint v \<and>
     (prev = [] \<or> digestPattern prev) \<and> skill_text ref \<and> candidate_text cand \<and> ref_text decision \<and> vr_ok decision)"

lemma released_mapping:
  assumes "released_as s ref cand decision"
  obtains n where "findMappingForVersion s (sar_lineage_id ref) (sar_version ref) = Inr (Some n)"
    "ParseSkillArtifactRef (obj_or_nil (gidx n ''released_ref'')) = Inr ref" "gidx n ''body_digest_equal'' = GBool True"
    "ParseCandidateArtifactRef (obj_or_nil (gidx n ''candidate_ref'')) = Inr cand"
    "ParseVersionedRef (obj_or_nil (gidx n ''release_decision_ref'')) = Inr decision"
proof -
  let ?L = "sar_lineage_id ref"
  obtain q v prev where q: "map_of (ms_heads s) (headKey HeadLineageVersion ?L) = Some q" "hs_digest q \<noteq> []"
    "Get s (hs_digest q) = Some (out (GObject (mapping_doc ?L v ref cand decision prev)))" "sar_version ref = format_uint v"
    and ok: "prev = [] \<or> digestPattern prev" "skill_text ref" "candidate_text cand" "ref_text decision" "vr_ok decision"
    using assms unfolding released_as_def by blast
  let ?m = "mapping_doc ?L v ref cand decision prev"
  have sar: "sar_ok ref" "valid_text ?L" "car_ok cand" using ok(2,3) by (simp_all add: skill_text_def candidate_text_def)
  have "readable ?m" by (rule mapping_readable [OF sar(2) ok(2-4,1)])
  then obtain n where n: "ParseJSONStrict (out (GObject ?m)) = Inr (GObject n)" "\<And>k. map_of n k = map_option canon (map_of ?m k)"
    using readable_parse by blast
  have "norm_number (format_uint v) = format_uint v" using version_norm sar(1) q(4) by (simp add: sar_ok_def)
  then have f: "gidx n ''schema_version'' = GString SchemaReleaseMapping" "gidx n ''version'' = GNumber (sar_version ref)" "gidx n ''body_digest_equal'' = GBool True"
    "gidx n ''released_ref'' = canon (GObject (skillRefDoc ref))" "gidx n ''candidate_ref'' = canon (GObject (candidateRefDoc cand))"
    "gidx n ''release_decision_ref'' = canon (GObject (versionedRefDoc decision))"
    by (simp_all add: gidx_def n(2) mapping_doc_def q(4) del: canon.simps(3))
  have "resolveMapping s (hs_digest q) = Inr n"
    using n(1) f(1) q(3) by (simp add: resolveMapping_def AsObject_def str_or_empty_def AsString_def check_def)
  then have w: "walk_mappings s (sar_version ref) (Suc k) (hs_digest q) = Inr (Some n)" for k using f(2) q(2) by (simp add: jsonDigits_def)
  obtain k where "max_hops = Suc k" by (cases max_hops) (simp_all add: max_hops_def)
  with w have w: "walk_mappings s (sar_version ref) max_hops (hs_digest q) = Inr (Some n)" by metis
  have "GetHead s HeadLineageVersion ?L = Inr (Some q)"
    using release_kinds_known [of HeadLineageVersion] q(1) by (simp add: GetHead_def release_kinds_def)
  with w have found: "findMappingForVersion s ?L (sar_version ref) = Inr (Some n)" by (simp add: findMappingForVersion_def del: walk_mappings.simps)
  note r = skill_doc_read(2) [OF sar(1)] candidate_read(1) [OF sar(3)] versioned_read [OF ok(5)]
  show thesis by (rule that [OF found]) (simp_all only: f r)
qed

lemma released_store_as: "released_as released_store old_revision old_candidate (decision_ref old_view)"
proof -
  have "format_uint 1 = ''1''" by code_simp
  then show ?thesis unfolding released_as_def using old_ok
    by (intro exI [of _ "\<lparr>hs_seq = 1, hs_digest = DigestBytes (out (GObject old_mapping))\<rparr>"] exI [of _ 1] exI [of _ "[]"])
      (simp add: released_store_def Get_def old_revision_def DigestBytes_def)
qed

lemma released_body: "verifyBodyEquality released_store old_candidate None = Inr ()"
  by (simp add: verifyBodyEquality_def Get_def released_store_def old_candidate_def check_def Let_def)

lemma old_decision_parses: "parseDecision ev release_service (Some old_decision) = Inr old_view"
proof -
  have schema: "map_of (ss_docs (as_gates release_service)) SchemaFileReleaseDecision = Some open_schema" by (simp add: release_service_def release_schemas_def)
  have "plain (GObject (candidateRefDoc old_candidate))"
    using embeds_refs(3) [OF old_ok(5)] by (intro plain_hashable) (simp add: embeds_def)
  then have "plain (GObject old_document)" using one_form by (simp add: old_document_def)
  from open_schema_gate [OF schema this] have "gate ev (as_gates release_service) old_document SchemaFileReleaseDecision = Inr ()"
    by (simp add: old_document_def)
  moreover have "gidx old_document ''candidate_ref'' = GObject (candidateRefDoc old_candidate)" by (simp add: gidx_def old_document_def)
  ultimately show ?thesis using candidate_read(2) [OF old_ok(1)]
    by (simp add: parseDecision_def old_decision_def old_view_def obj_or_nil_def AsObject_def Let_def)
      (simp add: old_document_def gidx_def str_or_empty_def AsString_def jsonDigits_def)
qed

text \<open>A reactivation of it under the same decision is ready.\<close>

definition reactivation_of :: "decisionView \<Rightarrow> SkillArtifactRef \<Rightarrow> CandidateArtifactRef \<Rightarrow> SkillArtifactRef option \<Rightarrow> reactivateInput" where
  "reactivation_of dv ref cand expected =
     \<lparr>xi_decision = dv, xi_released = ref, xi_body = car_body_digest cand, xi_candidate = cand, xi_expected = expected\<rparr>"

lemma old_decision_text: "decision_text old_view"
  using one_form sample_digest_text by (simp add: decision_text_def old_view_def valid_text_ascii)

lemma released_store_reads:
  "store_ok released_store" "replayLineage released_store ''l'' = Inr no_lineage" "heads_agree released_store ''l'' no_lineage" "ledger_head released_store = Inr (0, [])"
  "NextSequence any_registry released_store new_tx LedgerActivation [] = Inr 1" "LookupIdem released_store k = None" "GetOutbox released_store k = None"
proof -
  have empty: "entries_at released_store k = []" for k by (simp add: released_store_def empty_store_def entries_at_def)
  show ok: "store_ok released_store" unfolding store_ok_def empty by (auto simp: numbered_def released_store_def split: if_splits)
  show "replayLineage released_store ''l'' = Inr no_lineage" by (simp add: replayLineage_eq empty)
  show "ledger_head released_store = Inr (0, [])" using activation_kind by (simp add: ledger_head_def Head_def empty)
  have "NextSequence any_registry released_store new_tx LedgerActivation [] = Inr (word_of_nat (length (entries_at released_store activation_key)) + 1)"
    using activation_kind by (intro next_number [OF ok]) (simp_all add: new_tx_def)
  then show "NextSequence any_registry released_store new_tx LedgerActivation [] = Inr 1" by (simp add: empty)
  have "map_of headKinds k \<noteq> None" if "k \<in> set release_kinds" for k using release_kinds_known [OF that] .
  then have "headKey HeadSkillActive x \<noteq> headKey HeadLineageVersion y" "headKey HeadActivationSequence x \<noteq> headKey HeadLineageVersion y" for x y
    using headKey_inj [of HeadSkillActive HeadLineageVersion] headKey_inj [of HeadActivationSequence HeadLineageVersion] by (auto simp: release_kinds_def)
  then have "head_pair released_store (headKey HeadSkillActive ''l'') = (0, [])"
    "head_pair released_store (headKey HeadActivationSequence activationStreamKey) = (0, [])"
    "head_pair released_store (headKey HeadLineageVersion ''l'') = (1, DigestBytes (out (GObject old_mapping)))"
    by (simp_all add: head_pair_def released_store_def)
  then show "heads_agree released_store ''l'' no_lineage" by (simp add: heads_agree_def empty end_of_def no_lineage_def digest_bytes_pattern)
  show "LookupIdem released_store k = None" "GetOutbox released_store k = None"
    by (simp_all add: released_store_def empty_store_def LookupIdem_def GetOutbox_def)
qed

lemma old_reactivation_ready: "\<exists>a. reactivation_ready ev release_service (reactivation_of old_view old_revision old_candidate None) released_store a"
proof -
  let ?inp = "reactivation_of old_view old_revision old_candidate None"
  have i: "xi_released ?inp = old_revision" "xi_decision ?inp = old_view" "xi_expected ?inp = None" "sar_lineage_id old_revision = ''l''"
    "sar_version old_revision = ''1''" "dv_id old_view = ''d''" "dv_digest old_view = sample_digest" "isValidDigest (sar_artifact_digest old_revision)"
    by (simp_all add: reactivation_of_def old_revision_def old_view_def digest_bytes_pattern)
  let ?eid = "''act-'' @ ''d'' @ ''-'' @ ''l'' @ ''-v'' @ ''1'' @ ''-reactivate''"
  let ?ident = "''d'' @ ''/reactivate/'' @ ''l'' @ ''/'' @ ''1''"
  have eid: "valid_text ?eid" and "valid_text ?ident" by (simp_all add: valid_text_ascii)
  with outbox_key [of ?ident EventTypeActivate 1] obtain k where k: "deriveOutboxKey EventTypeActivate ?ident 1 = Inr k" "valid_text k" "k \<noteq> []"
    by (auto simp: valid_text_ascii simp del: append_Cons append_Nil append_assoc)
  let ?spec = "reactivate_spec ?inp no_lineage 1 ?eid k"
  have st: "spec_text ?spec" using eid k(2) old_ok by (simp add: spec_text_def reactivate_spec_def no_lineage_def i valid_text_ascii)
  have spf: "sp_eventType ?spec \<in> {EventTypeActivate, EventTypeDeactivate}" "sp_eventID ?spec \<noteq> []" "sp_outboxKey ?spec \<noteq> []"
    using k(3) by (simp_all add: reactivate_spec_def)
  obtain event d where e: "buildActivationEvent ev release_service ?spec = Inr (event, d)" using open_event [OF st, where ev = ev] spf by blast
  let ?dg = "DigestBytes (out (GObject event))"
  have p: "payloadDigest event = Inr ?dg" by (rule payloadDigest_readable [OF activation_event_readable(1) [OF st e]])
  have "hashable (GObject (reactivate_request ?inp))"
    using i(8) sample_digest_text one_form by (simp add: reactivate_request_def gmap_ok_def i valid_text_ascii expectedHeadDigestInput_def valid_digest)
  then obtain q where q: "DigestOf (GObject (reactivate_request ?inp)) = Inr q" using DigestOf_hashable by blast
  have "valid_text ?dg" by (rule valid_digest [OF digest_bytes_pattern])
  from outcome_read(1) [OF old_ok(2) _ eid this k(2), of None 1] obtain o' where
    o': "marshalDoc (outcome_doc old_revision 1 ?eid ?dg k None) = Inr o'" by blast
  obtain a where a: "reactivate_artifacts ev release_service ?inp (\<lambda>_. released_store) new_tx = Inr a" "ea_state a = no_lineage" "ea_sequence a = 1"
    using k(1) e p q o' by (simp add: reactivate_artifacts_def released_store_reads(2,4,5) release_service_wired(3) i Let_def no_lineage_def)
  moreover have "expectActiveHead no_lineage None = Inr ()" by (simp add: expect_active no_lineage_def)
  ultimately show ?thesis using released_store_reads(3,6,7) by (auto simp: reactivation_ready_def i)
qed

subsection \<open>A decision that is already in its ledger\<close>

definition decided_store :: MemoryStore where
  "decided_store = pending_store\<lparr>ms_ledgers := (ledgerKey LedgerEvaluation ''d'', [decision_entry (sample_decision_of [])]) # ms_ledgers pending_store\<rparr>"

lemma decided_reads:
  "replayLineage decided_store ''l'' = Inr no_lineage" "nextVersion decided_store ''l'' = Inr (1, 0, [])" "ledger_head decided_store = Inr (0, [])"
  "NextSequence any_registry decided_store new_tx LedgerActivation [] = Inr 1"
  "entries_at decided_store (ledgerKey LedgerEvaluation ''d'') = [decision_entry (sample_decision_of [])]"
proof -
  have ne: "activation_key \<noteq> ledgerKey LedgerEvaluation ''d''" "activation_key \<noteq> proposal_key ''p''" using numbers_differ by metis+
  then have empty: "entries_at decided_store activation_key = []" by (simp add: decided_store_def pending_store_def entries_at_def)
  show "replayLineage decided_store ''l'' = Inr no_lineage" by (simp add: replayLineage_eq empty)
  show "nextVersion decided_store ''l'' = Inr (1, 0, [])"
    using release_kinds_known [of HeadLineageVersion] by (simp add: nextVersion_def GetHead_def release_kinds_def decided_store_def pending_store_def empty_store_def)
  show "ledger_head decided_store = Inr (0, [])" using activation_kind by (simp add: ledger_head_def Head_def empty)
  show "NextSequence any_registry decided_store new_tx LedgerActivation [] = Inr 1"
    using activation_kind by (simp add: NextSequence_def checkStream_def check_def kind_spec_def Head_def empty head_sequence_def new_tx_def)
  show "entries_at decided_store (ledgerKey LedgerEvaluation ''d'') = [decision_entry (sample_decision_of [])]"
    by (simp add: decided_store_def entries_at_def)
qed

end
