(* ===== verification/Release_Promises.thy ===== *)
theory Release_Promises
  imports Release_Sample
begin

text \<open>
  What the release service promises: heads that agree with the history and active revisions that are released, under any interleaving; what one call
  does on any store; that a pending release goes through and is answered from its record afterwards; what a deactivation leaves; which requests reactivate the
  newest revision; and where the checks of the
  service are weaker or stronger than they say.
\<close>

subsection \<open>Histories\<close>

lemma ActiveRevision_ok: "lineage_ok s L st rs \<Longrightarrow> ActiveRevision s L = Inr (ls_active st)"
  by (simp add: ActiveRevision_def lineage_ok_def)

text \<open>The record of a revision in the chain is found by its version.\<close>

lemma version_lookup:
  assumes "release_inv reg T s" "lineage_ok s L st rs" "r \<in> set rs" "unat (fst (head_pair s (headKey HeadLineageVersion L))) \<le> max_hops"
  shows "\<exists>m n. findMappingForVersion s L (sar_version r) = Inr (Some m) \<and> maps_to m r n \<and> sar_lineage_id r = L"
proof -
  have ok: "store_ok s" using assms(1) by (simp add: release_inv_def ledger_ok_def)
  have vc: "fst (head_pair s (headKey HeadLineageVersion L)) = word_of_nat (length rs)"
    "mapping_chain s L (snd (head_pair s (headKey HeadLineageVersion L))) rs" "length rs \<le> length (entries_at s activation_key)"
    using assms(2) by (simp_all add: lineage_ok_def version_chain_def)
  have len: "length rs < 2 ^ 64" using vc(3) ok by (simp add: store_ok_def numbered_def) (meson le_less_trans)
  have hops: "length rs \<le> max_hops" using assms(4) unat_of_nat64 [OF len] by (simp add: vc(1))
  obtain m n where m: "walk_mappings s (sar_version r) max_hops (snd (head_pair s (headKey HeadLineageVersion L))) = Inr (Some m)" "maps_to m r n"
    using walk_finds [OF vc(2) assms(3) hops len ok] by blast
  then obtain h where "map_of (ms_heads s) (headKey HeadLineageVersion L) = Some h"
    by (cases "map_of (ms_heads s) (headKey HeadLineageVersion L)") (auto simp: head_pair_def max_hops_def elim: walk_mappings.elims)
  with m have "findMappingForVersion s L (sar_version r) = Inr (Some m)"
    using release_kinds_known [of HeadLineageVersion] by (simp add: findMappingForVersion_def GetHead_def head_pair_def release_kinds_def)
  with m(2) chain_member(1) [OF vc(2) assms(3)] show ?thesis by blast
qed

text \<open>The stores of a history stay in it.\<close>

lemma step_kept: "release_step ev svc T hist hist' \<Longrightarrow> set hist \<subseteq> set hist'"
  by (erule release_step.cases) auto

lemma history_kept: "reaches (release_step ev svc T) hist hist' \<Longrightarrow> set hist \<subseteq> set hist'"
  by (induction rule: reaches.induct) (auto dest: step_kept)

lemma walk_version: "walk_mappings s v hops d = Inr (Some m) \<Longrightarrow> jsonDigits (gidx m ''version'') = v"
  by (induction s v hops d rule: walk_mappings.induct) (auto split: if_splits sum.splits)

text \<open>
  A released version is never taken back or given to another body: whatever mapping a reader found for a version of a lineage at some
  earlier store, every later store has a mapping for that version with the same released reference.
\<close>

lemma released_version_fixed:
  assumes "NewMemoryStore reg0 = Inr s0" "reaches (release_step ev svc T) [s0] (s # past)" "wired svc" "inj_on DigestBytes T" "g \<in> set past"
    "findMappingForVersion g L v = Inr (Some m)" "ParseSkillArtifactRef (obj_or_nil (gidx m ''released_ref'')) = Inr r"
    "unat (fst (head_pair s (headKey HeadLineageVersion L))) \<le> max_hops"
  shows "\<exists>m'. findMappingForVersion s L v = Inr (Some m') \<and> ParseSkillArtifactRef (obj_or_nil (gidx m' ''released_ref'')) = Inr r"
proof -
  have h: "hist_inv (as_registry svc) T (s # past)" by (rule reachable_history [OF assms(1-4)])
  then have inv: "release_inv (as_registry svc) T s" "release_inv (as_registry svc) T g" using assms(5) by (simp_all add: hist_inv_def)
  obtain st rs where l: "lineage_ok g L st rs" using inv_lineage [OF inv(2)] by blast
  obtain h0 where f: "map_of (ms_heads g) (headKey HeadLineageVersion L) = Some h0" "walk_mappings g v max_hops (hs_digest h0) = Inr (Some m)"
    using assms(6) by (auto simp: findMappingForVersion_def and_then_Inr GetHead_def split: if_splits option.splits)
  have "mapping_chain g L (hs_digest h0) rs" using l f(1) by (simp add: lineage_ok_def version_chain_def head_pair_def)
  from walk_found [OF this f(2)] assms(7) obtain n where r: "r \<in> set rs" "maps_to m r n" by (auto simp: maps_to_def)
  have v: "sar_version r = v" using walk_version [OF f(2)] r(2) by (simp add: maps_to_def)
  obtain st' pre where "lineage_ok s L st' (pre @ rs)" using h assms(5) l unfolding hist_inv_def list.sel by (meson list.set_intros(2))
  from version_lookup [OF inv(1) this, of r] r(1) assms(8) v show ?thesis by (auto simp: maps_to_def)
qed

text \<open>
  C2: the release state, whatever the release service and other writers commit, in any order and however stale the stores their calls have
  read: the replay of the activation stream never fails, the active head of every lineage is at the sequence and the digest that the replay
  gives, the sequence head is the last event of the stream, and an active revision is a released one: its mapping record
  is in the chain behind the version head, found by its version number, with the revision itself as the released reference and the proof of byte equality.
\<close>

theorem active_heads_agree:
  assumes "NewMemoryStore reg0 = Inr s0" "reaches (release_step ev svc T) [s0] (s # past)" "wired svc" "inj_on DigestBytes T"
    "unat (fst (head_pair s (headKey HeadLineageVersion L))) \<le> max_hops"
  shows "\<exists>st. replayLineage s L = Inr st \<and> head_pair s (headKey HeadSkillActive L) = (ls_headSeq st, ls_headDigest st) \<and>
    head_pair s (headKey HeadActivationSequence activationStreamKey) = end_of (entries_at s activation_key) \<and>
    (case ls_active st of None \<Rightarrow> True
     | Some r \<Rightarrow> \<exists>m. findMappingForVersion s L (sar_version r) = Inr (Some m) \<and> ParseSkillArtifactRef (obj_or_nil (gidx m ''released_ref'')) = Inr r \<and>
         gidx m ''body_digest_equal'' = GBool True \<and> sar_lineage_id r = L)"
proof -
  have inv: "release_inv (as_registry svc) T s" using reachable_history [OF assms(1-4)] by (simp add: hist_inv_def)
  then obtain st rs where l: "lineage_ok s L st rs" using inv_lineage by blast
  have "\<exists>m. findMappingForVersion s L (sar_version r) = Inr (Some m) \<and> ParseSkillArtifactRef (obj_or_nil (gidx m ''released_ref'')) = Inr r \<and>
         gidx m ''body_digest_equal'' = GBool True \<and> sar_lineage_id r = L" if "ls_active st = Some r" for r
  proof -
    have "r \<in> set rs" using l that by (simp add: lineage_ok_def)
    from version_lookup [OF inv l this assms(5)] show ?thesis by (auto simp: maps_to_def)
  qed
  with inv l show ?thesis by (auto simp: lineage_ok_def release_inv_def split: option.split)
qed

text \<open>A history of two stores: another writer has put a document into the content store.\<close>

lemma sample_history:
  "\<exists>s. reaches (release_step ev release_service {out (GObject [])}) [empty_store] [s, empty_store] \<and> ms_content s \<noteq> [] \<and> ms_heads s = []"
proof -
  have rd: "readable []" by (rule readable_fields) (simp_all add: gmap_ok_def)
  obtain k where k: "canonicalize any_registry (mtext (GObject [])) = Inr (out (GObject []), DigestBytes (out (GObject [])), Some k)"
    using readable_canonicalize [OF rd, of any_registry] by blast
  let ?put = "\<lparr>sc_digest = DigestBytes (out (GObject [])), sc_canonical = out (GObject [])\<rparr>"
  let ?tx = "new_tx\<lparr>tx_puts := [?put]\<rparr>"
  have put: "PutContent any_registry (mtext (GObject [])) new_tx = (Inr (DigestBytes (out (GObject []))), ?tx)"
    by (simp add: PutContent_def k stageContent_def new_tx_def)
  have st: "staged any_registry ?tx" using staged_op [OF staged_from.begin_tx, of any_registry empty_store "OpPutContent (mtext (GObject []))"] put by simp
  have none: "acts ?tx = []" "release_swaps ?tx = []" by (simp_all add: acts_def release_swaps_def new_tx_def)
  let ?s = "snd (commit any_registry ?tx empty_store)"
  have s: "ms_content ?s \<noteq> [] \<and> ms_heads ?s = []"
    by (simp add: commit_def apply_tx_def new_tx_def then_phase_def apply_put_def Put_def Let_def empty_store_def has_key_map_of)
  have step: "release_step ev release_service {out (GObject [])} [empty_store] [?s, empty_store]"
    using release_step.others [of release_service ?tx "{out (GObject [])}" ev empty_store "[]"] st none
    by (simp add: release_service_wired texts_in_def)
  show ?thesis by (rule exI [of _ ?s]) (use reaches_one [where step = "release_step ev release_service {out (GObject [])}", OF step] s in blast)
qed

theorem active_heads_agree_witness:
  "\<exists>s st. reaches (release_step sample_env release_service {out (GObject [])}) [empty_store] [s, empty_store] \<and> ms_content s \<noteq> [] \<and>
     replayLineage s ''l'' = Inr st \<and> head_pair s (headKey HeadSkillActive ''l'') = (ls_headSeq st, ls_headDigest st)"
proof -
  obtain s where s: "reaches (release_step sample_env release_service {out (GObject [])}) [empty_store] [s, empty_store]" "ms_content s \<noteq> []" "ms_heads s = []"
    using sample_history by blast
  have "unat (fst (head_pair s (headKey HeadLineageVersion ''l''))) \<le> max_hops" by (simp add: head_pair_def s(3))
  from active_heads_agree [OF new_store s(1) release_service_wired(1) _ this] s(1,2) show ?thesis by auto
qed

subsection \<open>One activation\<close>

text \<open>
  C8: one activation, on any store that keeps its numbering and its digests, when its decision has no recorded outcome. Either it fails and
  the store reads as it did, or: the proposal was pending, for the caller and in the committed stream, and gets exactly one more event; the expected head was the
  active one; the candidate's body becomes the next version of the lineage and the mark of its active head; the activation stream gets
  one event with the next number, which is the new sequence head; nothing else of the release state moves.
\<close>

theorem activate_exact:
  assumes "store_ok s" "wired svc" "LookupIdem s (''activation:'' @ dv_id (ai_decision inp)) = None" "commitActivate ev svc False False inp s = (res, s')"
  defines "L \<equiv> ai_lineageID inp" and "ident \<equiv> pr_id (ai_proposal inp)"
  shows "case res of Inl e \<Rightarrow> same s' s
    | Inr r \<Rightarrow> ai_proposalState inp = StateActivationPending \<and> (\<exists>n. CurrentState s ident = Inr (StateActivationPending, n)) \<and>
        ActiveRevision s L = Inr (ai_expected inp) \<and> rl_PreviousActiveRef r = ai_expected inp \<and> \<not> rl_Replayed r \<and>
        rl_ReleasedRef r = released_ref inp (fst (head_pair s (headKey HeadLineageVersion L)) + 1) \<and>
        fst (head_pair s' (headKey HeadLineageVersion L)) = fst (head_pair s (headKey HeadLineageVersion L)) + 1 \<and> versions_kept s s' {L} \<and>
        event_committed s s' L (car_body_digest (ai_candidate inp)) (rl_ActivationSequence r) (rl_EventID r) (rl_EventDigest r) \<and>
        (\<exists>e. entries_at s' (proposal_key ident) = entries_at s (proposal_key ident) @ [e])"
proof (cases res)
  case (Inl e)
  with calls_failed(1) [OF assms(1,2)] assms(4) show ?thesis by simp
next
  case (Inr r)
  obtain a d where a: "activate_artifacts ev svc inp (\<lambda>_. s) new_tx = Inr a" "r = release_result a" "ai_proposalState inp = StateActivationPending"
    "expectActiveHead (ea_state a) (ai_expected inp) = Inr ()"
    "event_committed s s' L (sar_artifact_digest (ra_released a)) (ea_sequence a) (ea_eventID a) (ea_eventDigest a)"
    "head_pair s (headKey HeadSkillActive L) = (ls_headSeq (ea_state a), ls_headDigest (ea_state a))"
    "head_pair s' (headKey HeadLineageVersion L) = (ra_version a, d)" "versions_kept s s' {L}"
    "\<exists>e n. CurrentState s ident = Inr (StateActivationPending, n) \<and> entries_at s' (proposal_key ident) = entries_at s (proposal_key ident) @ [e]"
    by (rule activate_effect [OF assms(1-3) assms(4) [unfolded Inr], folded L_def ident_def]) blast
  obtain d' where f: "replayLineage s L = Inr (ea_state a)" "nextVersion s L = Inr (ra_version a, ra_prevSeq a, ra_prevMapping a)"
    "ra_released a = released_ref inp (ra_version a)" by (rule activate_artifacts_Inr [OF a(1), folded L_def])
  have act: "ls_active (ea_state a) = ai_expected inp" using a(4) expect_active by blast
  have v: "ra_version a = fst (head_pair s (headKey HeadLineageVersion L)) + 1" using nextVersion_head [OF f(2)] by simp
  have "ActiveRevision s L = Inr (ai_expected inp)" using f(1) act by (simp add: ActiveRevision_def)
  moreover have "sar_artifact_digest (ra_released a) = car_body_digest (ai_candidate inp)" by (simp add: f(3) released_ref_def)
  ultimately show ?thesis unfolding Inr sum.case using a act v f(3) by (auto simp: release_result_def)
qed

text \<open>The sample release succeeds.\<close>

lemma sample_release:
  obtains a s' where "commitActivate sample_env release_service False False sample_request_input pending_store = (Inr (release_result a), s')"
    "ra_released a = released_ref sample_request_input 1"
proof -
  obtain a where a: "release_ready sample_env release_service sample_request_input pending_store a" "ra_released a = released_ref sample_request_input 1"
    using sample_release_ready by blast
  have "ref_text (Proposal_Ref (ai_proposal sample_request_input))" by (simp add: sample_fields sample_texts(3))
  from release_succeeds [OF pending_store_ok release_service_wired(1) sample_texts_ok(3) [OF sample_digest_text] _ release_service_wired(2) this a(1)] a(2) that
  show thesis by (auto simp: sample_fields)
qed

theorem activate_exact_witness:
  "\<exists>r s'. commitActivate sample_env release_service False False sample_request_input pending_store = (Inr r, s') \<and>
     rl_ReleasedRef r = released_ref sample_request_input 1 \<and> fst (head_pair s' (headKey HeadLineageVersion ''l'')) = 1 \<and>
     event_committed pending_store s' ''l'' sample_digest (rl_ActivationSequence r) (rl_EventID r) (rl_EventDigest r)"
proof -
  obtain a s' where run: "commitActivate sample_env release_service False False sample_request_input pending_store = (Inr (release_result a), s')"
    by (rule sample_release)
  note ex = activate_exact [OF pending_store_ok release_service_wired(1) pending_store_fresh(2) run, unfolded sum.case]
  have "car_body_digest sample_candidate = sample_digest" by (simp add: sample_candidate_def)
  with ex run show ?thesis by (auto simp: sample_fields pending_store_fresh)
qed

text \<open>
  C10: a pending release goes through. On a store that keeps its numbering and its digests, for a request of text, the call commits and returns the next
  revision when all of these hold: no outcome is recorded for the decision; the decision is not yet in the evaluation ledger, and its document is one that this ledger accepts; the
  proposal is pending, for the caller and in the committed stream, and its machine allows the step to released; the expected head is the active
  one; the heads are at the end of the history and hold digests; no number wraps around; the outbox key is not used; and the artifacts of the release and the proposal event
  can be built, so their documents pass their schemas. A decision that is already in the evaluation ledger is not covered: its release is refused (C34).
\<close>

theorem pending_release_goes_through:
  assumes "store_ok s" "wired svc" "activate_text inp" "\<forall>r. ai_expected inp = Some r \<longrightarrow> skill_text r" "engine_text (as_proposals svc)"
    "ref_text (Proposal_Ref (ai_proposal inp))" "release_ready ev svc inp s a"
  shows "\<exists>s'. commitActivate ev svc False False inp s = (Inr (release_result a), s') \<and>
    event_committed s s' (ai_lineageID inp) (car_body_digest (ai_candidate inp)) (ea_sequence a) (ea_eventID a) (ea_eventDigest a)"
proof -
  obtain s' where run: "commitActivate ev svc False False inp s = (Inr (release_result a), s')" using release_succeeds [OF assms] by blast
  have new: "LookupIdem s (activation_record inp) = None" and a: "activate_artifacts ev svc inp (\<lambda>_. s) new_tx = Inr a"
    using assms(7) by (simp_all add: release_ready_def)
  obtain b d where b: "activate_artifacts ev svc inp (\<lambda>_. s) new_tx = Inr b"
    "event_committed s s' (ai_lineageID inp) (sar_artifact_digest (ra_released b)) (ea_sequence b) (ea_eventID b) (ea_eventDigest b)"
    by (rule activate_effect [OF assms(1,2) new run]) blast
  obtain d' where "ra_released a = released_ref inp (ra_version a)" by (rule activate_artifacts_Inr [OF a])
  with a b run show ?thesis by (simp add: released_ref_def)
qed

theorem pending_release_goes_through_witness:
  "\<exists>a s'. release_ready sample_env release_service sample_request_input pending_store a \<and>
     commitActivate sample_env release_service False False sample_request_input pending_store = (Inr (release_result a), s')"
proof -
  obtain a where a: "release_ready sample_env release_service sample_request_input pending_store a" using sample_release_ready by blast
  have "ref_text (Proposal_Ref (ai_proposal sample_request_input))" by (simp add: sample_fields sample_texts(3))
  from pending_release_goes_through [OF pending_store_ok release_service_wired(1) sample_texts_ok(3) [OF sample_digest_text] _ release_service_wired(2) this a] a
  show ?thesis by (auto simp: sample_fields)
qed

text \<open>
  C9: a release is idempotent. When a request has been released, a repetition of it on any later store, whatever was committed in between, either
  cannot rebuild its artifacts, and fails with that error, or returns the recorded result, marked as replayed; in both cases it writes nothing.
\<close>

theorem release_replayed:
  assumes "store_ok s" "wired svc" "activate_text inp" "\<forall>r. ai_expected inp = Some r \<longrightarrow> skill_text r"
    "LookupIdem s (''activation:'' @ dv_id (ai_decision inp)) = None" "fst (head_pair s (headKey HeadLineageVersion (ai_lineageID inp))) + 1 \<noteq> 0"
    "commitActivate ev svc False False inp s = (Inr r, s')" "extends s' t" "activate_request inp' = activate_request inp"
  shows "commitActivate ev svc False False inp' t =
    (case activate_artifacts ev svc inp' (\<lambda>_. t) new_tx of Inl e \<Rightarrow> Inl e | Inr _ \<Rightarrow> Inr (r\<lparr>rl_Replayed := True\<rparr>), t)"
proof -
  obtain a d where a: "activate_artifacts ev svc inp (\<lambda>_. s) new_tx = Inr a" "r = release_result a" "expectActiveHead (ea_state a) (ai_expected inp) = Inr ()"
    "LookupIdem s' (activation_record inp) = Some \<lparr>ir_key = activation_record inp, ir_digest = ea_requestDigest a, ir_outcome = ea_recorded a\<rparr>"
    by (rule activate_effect [OF assms(1,2,5,7)]) blast
  obtain d' where f: "nextVersion s (ai_lineageID inp) = Inr (ra_version a, ra_prevSeq a, ra_prevMapping a)" "ra_released a = released_ref inp (ra_version a)"
    "DigestOf (GObject (activate_request inp)) = Inr (ea_requestDigest a)" by (rule activate_artifacts_Inr [OF a(1)])
  have "ra_version a \<noteq> 0" using nextVersion_head [OF f(1)] assms(6) by simp
  then have sk: "skill_text (ra_released a)" using released_ref_text [OF assms(3)] f(2) by simp
  have act: "ls_active (ea_state a) = ai_expected inp" using a(3) expect_active by blast
  have dec: "decodeReleaseResult (ea_recorded a) = Inr (r\<lparr>rl_Replayed := True\<rparr>)"
    using recorded_result [OF a(1) sk _ assms(3)] assms(4) a(2) act by simp
  have key: "activation_record inp' = activation_record inp" using assms(9) by (simp add: activate_request_def)
  have found: "LookupIdem t (activation_record inp') = Some \<lparr>ir_key = activation_record inp, ir_digest = ea_requestDigest a, ir_outcome = ea_recorded a\<rparr>"
    using a(4) assms(8) unfolding key by (auto simp: LookupIdem_def extends_def map_le_def dom_def)
  show ?thesis
  proof (cases "activate_artifacts ev svc inp' (\<lambda>_. t) new_tx")
    case (Inl e)
    then show ?thesis by (simp add: commitActivate_def within_tx_def WithinTx_def activate_callback_def tx_pure_def tx_then_def)
  next
    case (Inr a')
    obtain d'' where "DigestOf (GObject (activate_request inp')) = Inr (ea_requestDigest a')" by (rule activate_artifacts_Inr [OF Inr])
    then have "ea_requestDigest a = ea_requestDigest a'" using f(3) assms(9) by simp
    then have "commitActivate ev svc False False inp' t = (Inr (r\<lparr>rl_Replayed := True\<rparr>), t)" by (intro replayed_call [OF Inr found]) (simp_all add: dec)
    with Inr show ?thesis by simp
  qed
qed

theorem release_replayed_witness:
  "\<exists>r s'. commitActivate sample_env release_service False False sample_request_input pending_store = (Inr r, s') \<and>
     commitActivate sample_env release_service False False sample_request_input s' =
       (case activate_artifacts sample_env release_service sample_request_input (\<lambda>_. s') new_tx of Inl e \<Rightarrow> Inl e | Inr _ \<Rightarrow> Inr (r\<lparr>rl_Replayed := True\<rparr>), s')"
proof -
  obtain a s' where run: "commitActivate sample_env release_service False False sample_request_input pending_store = (Inr (release_result a), s')"
    by (rule sample_release)
  from release_replayed [OF pending_store_ok release_service_wired(1) sample_texts_ok(3) [OF sample_digest_text] _ pending_store_fresh(2) _ run extends_refl refl] run
  show ?thesis by (auto simp: sample_fields pending_store_fresh)
qed

subsection \<open>One deactivation\<close>

text \<open>How a deactivation stops before it stages anything, and what it has done otherwise.\<close>

lemma deactivate_artifacts_stops:
  "replayLineage (rd 0) (dq_LineageID req) = Inl e \<Longrightarrow> deactivate_artifacts ev svc req rd tx = Inl e"
  "\<lbrakk>replayLineage (rd 0) (dq_LineageID req) = Inr st; ls_active st = None\<rbrakk> \<Longrightarrow> deactivate_artifacts ev svc req rd tx = Inl (aerr ReasonNoActiveHead)"
  "\<lbrakk>replayLineage (rd 0) (dq_LineageID req) = Inr st; ls_active st = Some r; r \<noteq> dq_SkillRef req\<rbrakk> \<Longrightarrow>
     deactivate_artifacts ev svc req rd tx = Inl (aerr ReasonActiveHeadConflict)"
  by (simp_all add: deactivate_artifacts_def check_def)

lemma deactivation_stops:
  "\<lbrakk>commitDeactivate ev svc False False req s = (res, s'); deactivate_artifacts ev svc req (\<lambda>_. s) new_tx = Inl e\<rbrakk> \<Longrightarrow> res = Inl e \<and> s' = s"
  by (simp add: commitDeactivate_def within_tx_def WithinTx_def deactivate_callback_def tx_pure_def tx_then_def)

text \<open>An active revision was parsed from an event.\<close>

lemma active_parsed:
  assumes "replayLineage s L = Inr st" "ls_active st = Some r"
  shows "sar_ok r"
proof -
  have "\<lbrakk>replay_entries (advance_lineage L s) es st0 = Inr st; \<forall>q. ls_active st0 = Some q \<longrightarrow> sar_ok q\<rbrakk> \<Longrightarrow> sar_ok r" for es st0
    using assms(2)
  proof (induction es arbitrary: st0)
    case (Cons e es)
    then obtain st1 where "advance_lineage L s e st0 = Inr st1" and rest: "replay_entries (advance_lineage L s) es st1 = Inr st"
      by (auto split: sum.splits)
    then have "\<forall>q. ls_active st1 = Some q \<longrightarrow> sar_ok q"
      using Cons.prems(2) by (auto simp: advance_lineage_def Let_def dest: ParseSkillArtifactRef_ok split: option.splits sum.splits if_splits)
    with Cons.IH [OF rest] Cons.prems(3) show ?case by blast
  qed simp
  from this [of _ no_lineage] assms(1) show ?thesis unfolding replayLineage_eq by (simp add: no_lineage_def)
qed

text \<open>The content of the event of a committed call is in the store.\<close>

lemma event_put: "stage_event reg s a tx = (Inr u, tx') \<Longrightarrow> \<exists>put \<in> set (tx_puts tx'). sc_digest put = ea_eventDigest a"
proof -
  assume "stage_event reg s a tx = (Inr u, tx')"
  then obtain u1 tx1 bytes u2 tx2 where st: "AppendEntry reg (event_entry a) bytes tx1 = (Inr u1, tx2)" "quiet reg tx2 tx'"
    by (auto simp: stage_event_def tx_then_Inr tx_pure_Inr event_entry_def dest: quiet_outbox)
  obtain spec where kind: "map_of ledgerKinds LedgerActivation = Some spec" using activation_kind by blast
  obtain canonical where "tx2 = (stageContent (ea_eventDigest a) canonical tx1)\<lparr>tx_appends := tx_appends (stageContent (ea_eventDigest a) canonical tx1) @ [event_entry a]\<rparr>"
    using st(1) unfolding AppendEntry_def event_entry_def Entry.select_convs kind option.case
    by (auto simp: Let_def and_then_Inr check_Inr split: sum.splits prod.splits)
  then have "\<exists>put \<in> set (tx_puts tx2). sc_digest put = ea_eventDigest a" using stageContent_sets(4) by simp
  with st(2) show ?thesis by (auto simp: stages_def)
qed

lemma deactivation_content:
  assumes "store_ok s" "store_ok s'" "commitDeactivate ev svc False False req s = (Inr d, s')"
  shows "\<exists>t. Get s' (dr_EventDigest d) = Some t \<and> DigestBytes t = dr_EventDigest d"
proof -
  let ?reg = "as_registry svc"
  obtain tx where cb: "deactivate_callback ev svc req (\<lambda>_. s) new_tx = (Inr d, tx)" and c: "commit ?reg tx s = (Inr (), s')"
    by (rule within_tx_done [OF assms(3) [unfolded commitDeactivate_def]])
  then obtain a u1 tx1 u2 where st: "stage_event ?reg s a new_tx = (Inr u1, tx1)"
    "CompareAndSwapHead ?reg (active_swap (dq_LineageID req) a (ea_eventDigest a)) tx1 = (Inr u2, tx)" "d = deactivation_result req a"
    by (auto simp: deactivate_callback_def tx_then_Inr tx_pure_Inr active_swap_def)
  have "\<exists>put \<in> set (tx_puts tx). sc_digest put = dr_EventDigest d"
    using event_put [OF st(1)] stages_swap [OF st(2) swap_kinds(1)] st(3) by (auto simp: stages_def deactivation_result_def)
  moreover obtain b :: eventArtifacts where "writes ?reg tx b (dq_LineageID req) (ea_eventDigest b) []" by (rule deactivate_callback_Inr [OF cb])
  then have "staged ?reg tx" "\<not> tx_replay tx" by (simp_all add: writes_def)
  then have "written tx s s'" using commit_cases [OF assms(1) staged_ok c] by simp
  ultimately obtain t where "map_of (ms_content s') (dr_EventDigest d) = Some t" by (auto simp: written_def put_there_def)
  with assms(2) show ?thesis by (auto simp: Get_def store_ok_def)
qed

text \<open>The event of a deactivation, and what it does to the state that is replayed.\<close>

definition deactivation_event :: "DeactivateRequest \<Rightarrow> uint64 \<Rightarrow> string \<Rightarrow> gobj \<Rightarrow> bool" where
  "deactivation_event req sq eid event =
     (map_of event ''event_type'' = Some (GString EventTypeDeactivate) \<and> map_of event ''lineage_id'' = Some (GString (dq_LineageID req)) \<and>
      map_of event ''skill_ref'' = Some (GObject (skillRefDoc (dq_SkillRef req))) \<and>
      map_of event ''deactivation_authorization_ref'' = Some (GObject (versionedRefDoc (dq_Authorization req))) \<and>
      map_of event ''release_decision_ref'' = None \<and> map_of event ''event_id'' = Some (GString eid) \<and>
      map_of event ''activation_sequence'' = Some (GNumber (format_uint sq)))"

definition deactivated :: "MemoryStore \<Rightarrow> MemoryStore \<Rightarrow> string \<Rightarrow> bool" where
  "deactivated s s' lineageID = (ActiveRevision s' lineageID = Inr None \<and>
     (\<forall>L' active. L' \<noteq> lineageID \<longrightarrow> ActiveRevision s L' = Inr active \<longrightarrow> ActiveRevision s' L' = Inr active))"

lemma deactivation_ends:
  assumes "store_ok s" "ref_text (dq_Authorization req)" "valid_text (dq_LineageID req)" "sar_lineage_id (dq_SkillRef req) = dq_LineageID req"
    "commitDeactivate ev svc False False req s = (res, s')"
  shows "case res of Inl e \<Rightarrow> same s' s
    | Inr d \<Rightarrow> dr_DeactivatedRef d = dq_SkillRef req \<and> versions_kept s s' {} \<and>
        event_committed s s' (dq_LineageID req) (dr_EventDigest d) (dr_ActivationSequence d) (dr_EventID d) (dr_EventDigest d) \<and>
        (\<exists>event t. deactivation_event req (dr_ActivationSequence d) (dr_EventID d) event \<and> dr_EventDigest d = DigestBytes (out (GObject event)) \<and>
           Get s' (dr_EventDigest d) = Some t \<and> DigestBytes t = dr_EventDigest d \<and> (t = out (GObject event) \<longrightarrow> deactivated s s' (dq_LineageID req)))"
proof (cases res)
  case (Inl e)
  with calls_failed(2) [OF assms(1)] assms(5) show ?thesis by simp
next
  case (Inr d)
  let ?L = "dq_LineageID req"
  note call = assms(5) [unfolded Inr]
  obtain a where a: "deactivate_artifacts ev svc req (\<lambda>_. s) new_tx = Inr a" "d = deactivation_result req a"
    "event_committed s s' ?L (ea_eventDigest a) (ea_sequence a) (ea_eventID a) (ea_eventDigest a)" "versions_kept s s' {}"
    by (rule deactivate_effect [OF assms(1) call])
  obtain dg where f: "replayLineage s ?L = Inr (ea_state a)" "ls_active (ea_state a) = Some (dq_SkillRef req)"
    "ea_eventID a = ''deact-'' @ vr_id (dq_Authorization req) @ ''-'' @ ?L" "valid_text (ea_outboxKey a)"
    "buildActivationEvent ev svc (deactivate_spec req (ea_state a) (ea_sequence a) (ea_eventID a) (ea_outboxKey a)) = Inr (ea_event a, dg)"
    "payloadDigest (ea_event a) = Inr (ea_eventDigest a)" by (rule deactivate_artifacts_Inr [OF a(1)])
  let ?spec = "deactivate_spec req (ea_state a) (ea_sequence a) (ea_eventID a) (ea_outboxKey a)"
  have "valid_text (ea_eventID a)" unfolding f(3) using assms(2,3) by (intro valid_text_append) (simp_all add: valid_text_ascii ref_text_def)
  moreover have "skill_text (dq_SkillRef req)" using active_parsed [OF f(1,2)] assms(3,4) by (simp add: skill_text_def)
  ultimately have st: "spec_text ?spec" using assms(2,3) f(2,4) by (simp add: spec_text_def deactivate_spec_def)
  note er = activation_event_readable [OF st f(5)]
  have ev: "deactivation_event req (ea_sequence a) (ea_eventID a) (ea_event a)"
    by (simp add: deactivation_event_def er(2) activation_payload_fields)
      (simp add: activation_payload_def opt_field_keys map_add_def deactivate_spec_def)
  have dig: "ea_eventDigest a = DigestBytes (out (GObject (ea_event a)))" using payloadDigest_readable [OF er(1)] f(6) by simp
  have ec: "extends s s'" "store_ok s'" "entries_at s' activation_key = entries_at s activation_key @ [event_entry a]"
    using a(3) by (simp_all add: event_committed_def event_entry_def)
  obtain t where t: "Get s' (dr_EventDigest d) = Some t" "DigestBytes t = dr_EventDigest d" using deactivation_content [OF assms(1) ec(2) call] by blast
  have "deactivated s s' ?L" if "t = out (GObject (ea_event a))"
  proof -
    have "moves s' (event_entry a) ?L None (ea_eventDigest a)"
      using event_moves [OF st f(5), of "event_entry a" s'] dig t(1) that a(2)
      by (simp add: event_entry_def deactivation_result_def spec_active_def deactivate_spec_def)
    note rm = replay_moves [OF ec(1,3) this]
    show ?thesis using rm [OF f(1)] rm by (auto simp: deactivated_def ActiveRevision_def and_then_Inr split: sum.splits)
  qed
  with ev dig t a Inr show ?thesis by (auto simp: deactivation_result_def)
qed

text \<open>
  C32: one authorized deactivation, on any store that keeps its numbering and its digests, for a request of text. Without an active revision, or with another one,
  it is refused and nothing is written. Otherwise it fails as a whole, or the activation stream gets one event with the next number: an event
  of the deactivation type, for the lineage and the revision of the request, with its authorization and without a release decision. The digest of
  this event marks the active head of the lineage, and no version of any lineage moves. A content with that digest is in the store, and unless it is another
  text with the same SHA-256 digest, the lineage has no active revision afterwards, and every other lineage that could be replayed has the one it had.
\<close>

theorem deactivate_exact:
  assumes "store_ok s" "ref_text (dq_Authorization req)" "valid_text (dq_LineageID req)" "deactivate_guards svc req = Inr ()"
    "Deactivate ev svc False False req s = (res, s')"
  defines "L \<equiv> dq_LineageID req"
  shows "case ActiveRevision s L of
      Inl e \<Rightarrow> res = Inl e \<and> s' = s
    | Inr None \<Rightarrow> res = Inl (aerr ReasonNoActiveHead) \<and> s' = s
    | Inr (Some r) \<Rightarrow>
        if r \<noteq> dq_SkillRef req then res = Inl (aerr ReasonActiveHeadConflict) \<and> s' = s
        else (case res of Inl e \<Rightarrow> same s' s
          | Inr d \<Rightarrow> dr_DeactivatedRef d = r \<and> versions_kept s s' {} \<and>
              event_committed s s' L (dr_EventDigest d) (dr_ActivationSequence d) (dr_EventID d) (dr_EventDigest d) \<and>
              (\<exists>event t. deactivation_event req (dr_ActivationSequence d) (dr_EventID d) event \<and> dr_EventDigest d = DigestBytes (out (GObject event)) \<and>
                 Get s' (dr_EventDigest d) = Some t \<and> DigestBytes t = dr_EventDigest d \<and> (t = out (GObject event) \<longrightarrow> deactivated s s' L)))"
proof -
  have call: "commitDeactivate ev svc False False req s = (res, s')" using assms(4,5) by (simp add: Deactivate_def)
  have "sar_lineage_id (dq_SkillRef req) = L"
    using assms(4) by (auto simp: deactivate_guards_def L_def Let_def and_then_Inr check_Inr)
  note ends = deactivation_ends [OF assms(1-3) this [unfolded L_def] call, folded L_def]
  note stops = deactivation_stops [OF call deactivate_artifacts_stops(1)] deactivation_stops [OF call deactivate_artifacts_stops(2)]
    deactivation_stops [OF call deactivate_artifacts_stops(3)]
  show ?thesis
  proof (cases "replayLineage s L")
    case (Inl e)
    with stops(1) [of e] show ?thesis by (simp add: ActiveRevision_def L_def)
  next
    case (Inr st)
    note state = this [unfolded L_def]
    show ?thesis
    proof (cases "ls_active st")
      case None
      with stops(2) [OF state] Inr show ?thesis by (simp add: ActiveRevision_def)
    next
      case (Some r)
      with stops(3) [OF state Some] Inr ends show ?thesis
        by (cases "r = dq_SkillRef req") (simp_all add: ActiveRevision_def)
    qed
  qed
qed

theorem deactivate_exact_witness:
  "\<exists>d s' event. Deactivate sample_env release_service False False sample_deactivation active_store = (Inr d, s') \<and> dr_DeactivatedRef d = sample_revision \<and>
     event_committed active_store s' ''l'' (dr_EventDigest d) (dr_ActivationSequence d) (dr_EventID d) (dr_EventDigest d) \<and>
     deactivation_event sample_deactivation (dr_ActivationSequence d) (dr_EventID d) event \<and> dr_EventDigest d = DigestBytes (out (GObject event)) \<and>
     (Get s' (dr_EventDigest d) = Some (out (GObject event)) \<longrightarrow> ActiveRevision s' ''l'' = Inr None)"
proof -
  have "VersionInt sample_revision = Some 1"
    by (simp add: VersionInt_def sample_revision_def released_ref_def format_uint_def format_int_form)
  moreover have "sar_version sample_revision \<noteq> []" using format_uint_facts(2) by (simp add: sample_revision_def released_ref_def)
  ultimately have g: "deactivate_guards release_service sample_deactivation = Inr ()"
    using sample_revision_ok by (simp add: deactivate_guards_def sample_deactivation_def release_service_def check_def Let_def DigestBytes_def sample_digest_def)
  obtain d s' where run: "commitDeactivate sample_env release_service False False sample_deactivation active_store = (Inr d, s')"
    using sample_deactivation_succeeds by blast
  then have call: "Deactivate sample_env release_service False False sample_deactivation active_store = (Inr d, s')" by (simp add: Deactivate_def g)
  have txts: "ref_text (dq_Authorization sample_deactivation)" "valid_text (dq_LineageID sample_deactivation)"
    using one_form valid_digest [of sample_digest] by (simp_all add: sample_deactivation_def ref_text_def valid_text_ascii)
  have q: "dq_LineageID sample_deactivation = ''l''" "dq_SkillRef sample_deactivation = sample_revision" by (simp_all add: sample_deactivation_def)
  have "ActiveRevision active_store ''l'' = Inr (Some sample_revision)" by (simp add: ActiveRevision_def active_store_state)
  with deactivate_exact [OF active_store_ok txts g call, unfolded q] call show ?thesis by (fastforce simp: deactivated_def)
qed

subsection \<open>Decisions\<close>

text \<open>The guards of a reactivation, when the newest record of the lineage is the one of the version that is asked for.\<close>

lemma version_int_digits: "sar_ok r \<Longrightarrow> VersionInt r \<noteq> None"
  by (auto simp: sar_ok_def VersionInt_def version_ok_def split: option.splits)

lemma newest_guards:
  assumes "released_as s ref cand decision" "sar_lineage_id (xq_ReleasedRef req) = sar_lineage_id ref" "sar_version (xq_ReleasedRef req) = sar_version ref"
  shows "reactivate_guards ev svc req s =
    (case xq_Decision req of
       None \<Rightarrow> Inl (aerr ReasonReactivationAuthorizationRequired)
     | Some given \<Rightarrow> and_then (parseDecision ev svc (Some given)) (\<lambda>dv.
         and_then (check (dv_outcome dv = ReleaseAccepted) (aerr ReasonReleaseNotAccepted)) (\<lambda>_.
         and_then (check (xq_ReleasedRef req = ref \<and> dv_candidate dv = cand) (aerr ReasonRefMismatch)) (\<lambda>_.
         and_then (verifyBodyEquality s cand None) (\<lambda>_. Inr (reactivation_of dv ref cand (xq_ExpectedHead req)))))))"
proof (cases "xq_Decision req")
  case (Some given)
  obtain n where n: "findMappingForVersion s (sar_lineage_id ref) (sar_version ref) = Inr (Some n)"
    "ParseSkillArtifactRef (obj_or_nil (gidx n ''released_ref'')) = Inr ref" "gidx n ''body_digest_equal'' = GBool True"
    "ParseCandidateArtifactRef (obj_or_nil (gidx n ''candidate_ref'')) = Inr cand" by (rule released_mapping [OF assms(1)])
  have ok: "sar_ok ref" using assms(1) by (auto simp: released_as_def skill_text_def)
  then have f: "sar_lineage_id ref \<noteq> []" "sar_artifact_digest ref \<noteq> []" "VersionInt ref \<noteq> None"
    using version_int_digits by (auto simp: sar_ok_def digestPattern_def)
  have "VersionInt (xq_ReleasedRef req) \<noteq> None" using f(3) assms(3) by (simp add: VersionInt_def)
  with f n Some assms(2,3) show ?thesis
    by (cases "parseDecision ev svc (Some given)"; cases "xq_ReleasedRef req = ref"; cases "sar_artifact_digest (xq_ReleasedRef req) = []")
      (auto simp: reactivate_guards_def Let_def check_def reactivation_of_def)
qed (simp add: reactivate_guards_def check_def)

lemma reactivation_of_newest:
  assumes "store_ok s" "released_as s ref cand decision" "sar_lineage_id (xq_ReleasedRef req) = sar_lineage_id ref"
    "sar_version (xq_ReleasedRef req) = sar_version ref" "\<forall>r. xq_ExpectedHead req = Some r \<longrightarrow> skill_text r"
  shows "Reactivate ev svc c c' req s =
    (case xq_Decision req of
       None \<Rightarrow> (Inl (aerr ReasonReactivationAuthorizationRequired), s)
     | Some given \<Rightarrow> (case parseDecision ev svc (Some given) of
         Inl e \<Rightarrow> (Inl e, s)
       | Inr dv \<Rightarrow>
           if dv_outcome dv \<noteq> ReleaseAccepted then (Inl (aerr ReasonReleaseNotAccepted), s)
           else if xq_ReleasedRef req \<noteq> ref \<or> dv_candidate dv \<noteq> cand then (Inl (aerr ReasonRefMismatch), s)
           else (case verifyBodyEquality s cand None of
               Inl e \<Rightarrow> (Inl e, s)
             | Inr _ \<Rightarrow> commitReactivate ev svc c c' (reactivation_of dv ref cand (xq_ExpectedHead req)) s)))"
    "\<lbrakk>xq_Decision req = Some given; parseDecision ev svc (Some given) = Inr dv; decision_text dv; dv_outcome dv = ReleaseAccepted; xq_ReleasedRef req = ref;
      dv_candidate dv = cand; verifyBodyEquality s cand None = Inr (); reactivation_ready ev svc (reactivation_of dv ref cand (xq_ExpectedHead req)) s a\<rbrakk> \<Longrightarrow>
      \<exists>s'. Reactivate ev svc False False req s = (Inr (reactivation_result (reactivation_of dv ref cand (xq_ExpectedHead req)) a), s') \<and>
        event_committed s s' (sar_lineage_id ref) (sar_artifact_digest ref) (ea_sequence a) (ea_eventID a) (ea_eventDigest a)"
proof -
  note guards = newest_guards [OF assms(2-4), of ev svc]
  show "Reactivate ev svc c c' req s =
    (case xq_Decision req of
       None \<Rightarrow> (Inl (aerr ReasonReactivationAuthorizationRequired), s)
     | Some given \<Rightarrow> (case parseDecision ev svc (Some given) of
         Inl e \<Rightarrow> (Inl e, s)
       | Inr dv \<Rightarrow>
           if dv_outcome dv \<noteq> ReleaseAccepted then (Inl (aerr ReasonReleaseNotAccepted), s)
           else if xq_ReleasedRef req \<noteq> ref \<or> dv_candidate dv \<noteq> cand then (Inl (aerr ReasonRefMismatch), s)
           else (case verifyBodyEquality s cand None of
               Inl e \<Rightarrow> (Inl e, s)
             | Inr _ \<Rightarrow> commitReactivate ev svc c c' (reactivation_of dv ref cand (xq_ExpectedHead req)) s)))"
    unfolding Reactivate_def guards by (auto simp: check_def split: option.split sum.split)
  let ?inp = "reactivation_of dv ref cand (xq_ExpectedHead req)"
  assume g: "xq_Decision req = Some given" "parseDecision ev svc (Some given) = Inr dv" "decision_text dv" "dv_outcome dv = ReleaseAccepted" "xq_ReleasedRef req = ref"
    "dv_candidate dv = cand" "verifyBodyEquality s cand None = Inr ()" "reactivation_ready ev svc ?inp s a"
  have go: "Reactivate ev svc False False req s = commitReactivate ev svc False False ?inp s" using g unfolding Reactivate_def guards by (simp add: check_def)
  have i: "xi_decision ?inp = dv" "xi_released ?inp = ref" "xi_expected ?inp = xq_ExpectedHead req" by (simp_all add: reactivation_of_def)
  have "skill_text ref" using assms(2) by (auto simp: released_as_def)
  from reactivation_succeeds [OF assms(1) _ _ _ g(8)] this g(3) assms(5)
  obtain s' where run: "commitReactivate ev svc False False ?inp s = (Inr (reactivation_result ?inp a), s')" unfolding i by blast
  have r: "LookupIdem s (''reactivation:'' @ dv_id (xi_decision ?inp)) = None" "reactivate_artifacts ev svc ?inp (\<lambda>_. s) new_tx = Inr a"
    using g(8) by (simp_all add: reactivation_ready_def)
  have "event_committed s s' (sar_lineage_id ref) (sar_artifact_digest ref) (ea_sequence a) (ea_eventID a) (ea_eventDigest a)"
    by (rule reactivate_effect [OF assms(1) r(1) run]) (use r(2) i in simp)
  with run go show "\<exists>s'. Reactivate ev svc False False req s = (Inr (reactivation_result ?inp a), s') \<and>
        event_committed s s' (sar_lineage_id ref) (sar_artifact_digest ref) (ea_sequence a) (ea_eventID a) (ea_eventDigest a)" by auto
qed

text \<open>
  C33: the newest revision of a lineage is reactivated by any accepted decision about its candidate, the decision that released it included. On a store that keeps its
  numbering and its digests, let the
  version head of a lineage point at the mapping record that a release wrote, for a revision, its candidate and the reference of the decision it was
  released under. A request to reactivate that version goes on to its commit exactly when it has a decision that parses, that is accepted and is about that candidate,
  names the revision itself and the candidate's body is still stored; in every other case it is refused with the error of the guard, and nothing is written. The
  reference of the decision in the record takes no part in this: it may be the one of the decision that is given. And the commit succeeds when decision and expected head are text, the expected head is the active one, the
  heads agree with the history, the artifacts build and their schemas pass, and neither the outbox key nor the reactivation key of that decision has been used: the event
  is appended and the revision marks the active head.
\<close>

theorem old_decision_reactivates:
  assumes "store_ok s" "released_as s ref cand decision" "sar_lineage_id (xq_ReleasedRef req) = sar_lineage_id ref"
    "sar_version (xq_ReleasedRef req) = sar_version ref" "\<forall>r. xq_ExpectedHead req = Some r \<longrightarrow> skill_text r"
  shows "Reactivate ev svc c c' req s =
    (case xq_Decision req of
       None \<Rightarrow> (Inl (aerr ReasonReactivationAuthorizationRequired), s)
     | Some given \<Rightarrow> (case parseDecision ev svc (Some given) of
         Inl e \<Rightarrow> (Inl e, s)
       | Inr dv \<Rightarrow>
           if dv_outcome dv \<noteq> ReleaseAccepted then (Inl (aerr ReasonReleaseNotAccepted), s)
           else if xq_ReleasedRef req \<noteq> ref \<or> dv_candidate dv \<noteq> cand then (Inl (aerr ReasonRefMismatch), s)
           else (case verifyBodyEquality s cand None of
               Inl e \<Rightarrow> (Inl e, s)
             | Inr _ \<Rightarrow> commitReactivate ev svc c c' (reactivation_of dv ref cand (xq_ExpectedHead req)) s))) \<and>
    (\<forall>given dv a. xq_Decision req = Some given \<and> parseDecision ev svc (Some given) = Inr dv \<and> decision_text dv \<and> dv_outcome dv = ReleaseAccepted \<and>
       xq_ReleasedRef req = ref \<and> dv_candidate dv = cand \<and> verifyBodyEquality s cand None = Inr () \<and>
       reactivation_ready ev svc (reactivation_of dv ref cand (xq_ExpectedHead req)) s a \<longrightarrow>
       (\<exists>s'. Reactivate ev svc False False req s = (Inr (reactivation_result (reactivation_of dv ref cand (xq_ExpectedHead req)) a), s') \<and>
          event_committed s s' (sar_lineage_id ref) (sar_artifact_digest ref) (ea_sequence a) (ea_eventID a) (ea_eventDigest a)))"
  using reactivation_of_newest [OF assms] by blast

theorem old_decision_reactivates_witness:
  "\<exists>a s'. released_as released_store old_revision old_candidate (decision_ref old_view) \<and>
     parseDecision sample_env release_service (Some old_decision) = Inr old_view \<and>
     Reactivate sample_env release_service False False \<lparr>xq_Decision = Some old_decision, xq_ReleasedRef = old_revision, xq_ExpectedHead = None\<rparr> released_store =
       (Inr (reactivation_result (reactivation_of old_view old_revision old_candidate None) a), s') \<and>
     event_committed released_store s' ''l'' (sar_artifact_digest old_revision) (ea_sequence a) (ea_eventID a) (ea_eventDigest a)"
proof -
  let ?req = "\<lparr>xq_Decision = Some old_decision, xq_ReleasedRef = old_revision, xq_ExpectedHead = None\<rparr>"
  obtain a where a: "reactivation_ready sample_env release_service (reactivation_of old_view old_revision old_candidate None) released_store a"
    using old_reactivation_ready by blast
  have v: "dv_outcome old_view = ReleaseAccepted" "dv_candidate old_view = old_candidate" "sar_lineage_id old_revision = ''l''"
    by (simp_all add: old_view_def old_revision_def)
  from old_decision_reactivates [OF released_store_reads(1) released_store_as, of ?req sample_env release_service False False, THEN conjunct2]
  have "\<exists>s'. Reactivate sample_env release_service False False ?req released_store =
      (Inr (reactivation_result (reactivation_of old_view old_revision old_candidate None) a), s') \<and>
      event_committed released_store s' ''l'' (sar_artifact_digest old_revision) (ea_sequence a) (ea_eventID a) (ea_eventDigest a)"
    using old_decision_parses [of sample_env] old_decision_text released_body a v by simp
  with released_store_as old_decision_parses [of sample_env] show ?thesis by blast
qed

text \<open>
  C34: a first release is refused when its decision is already in the evaluation ledger. Let a request have no recorded outcome, let its artifacts build, its proposal
  be pending for the caller and its expected head be the active one, and let the evaluation stream of its decision start with the identical decision document. The ledger keeps the digest of the whole document;
  the check compares it with the digest that the document carries, which is computed without that field. So, as long as those two differ, the call ends with a reference
  mismatch and the store is as it was. A retry after the release itself has its outcome recorded: it is answered from the record (C9).
\<close>

theorem committed_decision_refused:
  assumes "LookupIdem s (''activation:'' @ dv_id (ai_decision inp)) = None" "activate_artifacts ev svc inp (\<lambda>_. s) new_tx = Inr a"
    "ai_proposalState inp = StateActivationPending" "ActiveRevision s (ai_lineageID inp) = Inr (ai_expected inp)"
    "entries_at s (ledgerKey LedgerEvaluation (dv_id (ai_decision inp))) = e # es" "en_digest e = DigestBytes (out (GObject (dv_doc (ai_decision inp))))"
    "dv_digest (ai_decision inp) \<noteq> DigestBytes (out (GObject (dv_doc (ai_decision inp))))"
  shows "commitActivate ev svc False False inp s = (Inl (aerr ReasonRefMismatch), s)"
proof -
  let ?key = "activation_record inp"
  obtain d where f: "replayLineage s (ai_lineageID inp) = Inr (ea_state a)" "DigestOf (GObject (activate_request inp)) = Inr (ea_requestDigest a)"
    by (rule activate_artifacts_Inr [OF assms(2)])
  obtain tx1 where rec: "RecordIdempotency (as_registry svc) s ?key (ea_requestDigest a) (ea_recorded a) new_tx = (Inr None, tx1)"
    using record_step [OF _ DigestOf_valid [OF f(2)] assms(1)] by blast
  have head: "expectActiveHead (ea_state a) (ai_expected inp) = Inr ()" using f(1) assms(4) expect_active by (simp add: ActiveRevision_def)
  have "map_of ledgerKinds LedgerEvaluation \<noteq> None" by (simp add: ledgerKinds_def)
  then have snap: "ledger_Snapshot s LedgerEvaluation (dv_id (ai_decision inp)) = Inr (e # es)" using assms(5) by (simp add: ledger_Snapshot_def)
  have "stageDecision (as_registry svc) s s (ai_decision inp) tx1 = (Inl (aerr ReasonRefMismatch), tx1)"
    using snap assms(6,7) by (simp add: stageDecision_def tx_pure_def tx_then_def check_def)
  then have "activate_callback ev svc inp (\<lambda>_. s) new_tx = (Inl (aerr ReasonRefMismatch), tx1)"
    using assms(2,3) head rec by (simp add: activate_callback_def tx_pure_def tx_then_def check_def write_activation_def Let_def)
  then show ?thesis by (simp add: commitActivate_def within_tx_def WithinTx_def)
qed

theorem committed_decision_refused_witness:
  "commitActivate sample_env release_service False False (sample_input_of []) decided_store = (Inl (aerr ReasonRefMismatch), decided_store)"
proof -
  obtain a where a: "activate_artifacts sample_env release_service (sample_input_of []) (\<lambda>_. decided_store) new_tx = Inr a"
    using sample_artifacts [OF _ decided_reads(1-4), of "[]"] by (auto simp: valid_text_ascii)
  have "ActiveRevision decided_store ''l'' = Inr None" by (simp add: ActiveRevision_def decided_reads no_lineage_def)
  moreover have "LookupIdem decided_store k = None" for k by (simp add: decided_store_def pending_store_def empty_store_def LookupIdem_def)
  moreover have "entries_at decided_store (ledgerKey LedgerEvaluation ''d'') = [decision_entry (sample_decision_of [])]" by (rule decided_reads(5))
  moreover have "[] \<noteq> DigestBytes t" for t by (simp add: DigestBytes_def)
  ultimately show ?thesis using committed_decision_refused [OF _ a] by (simp add: sample_fields decision_entry_def)
qed

end
