(* ===== verification/Spec2Isabelle.thy ===== *)
theory Spec2Isabelle
  imports Refs Reason_Policy Gates State_Bundle Checked_Arith Canonicalizer_Facts Pareto Replay_Decision
    Delivery Room_Service Room_Lifecycle Ledger_Promises Directed_Offer_Promises Skill_Fence_Facts Effects_Interrupt Freeze_Cut
    Proposal_Promises Release_Promises
begin

text \<open>
  A verification library for the graph memory service and the group chat host.

  \<^bold>\<open>The program.\<close> \<open>src/graph-memory-service\<close> stores and evolves the skills of agents: documents are exchanged in a
  canonical JSON form whose SHA-256 digests identify them (\<open>internal/contract\<close>), checked by a closed JSON-schema
  interpreter and static gates (\<open>internal/skillevolution/validation\<close>), proposed along a state machine
  (\<open>internal/skillevolution/proposal\<close>), replayed against frozen plans
  (\<open>internal/skillevolution/replay\<close>) and accepted or rejected by hard gates and a Pareto comparison
  (\<open>internal/skillevolution/evaluator\<close>), and an accepted candidate is released, deactivated and reactivated
  (\<open>internal/skillevolution/activation\<close>). Proposals and releases are streams of an event ledger with transactions
  (\<open>internal/skillevolution/ledger\<close>). \<open>src/pi-group-chat-host\<close> runs the rooms in which the agents talk: messages,
  deliveries and the closing protocol of a room (\<open>internal/room\<close>, \<open>internal/delivery\<close>, \<open>internal/dag\<close>), mentions directed
  at one agent (\<open>internal/directedoffer\<close>), the fence around skills (\<open>internal/skillfence\<close>), interrupted executions
  (\<open>internal/effectsinterrupt\<close>) and the freeze of a room for consolidation (\<open>internal/consolidationcut\<close>).

  \<^bold>\<open>Conventions.\<close> A Go value of the JSON decoder is a \<open>gv\<close> (numbers keep their text, as \<open>json.Number\<close> does), a Go map is
  an association list with distinct keys (\<open>gmap\<close>, written by \<open>gput\<close>) so that code which must not depend on
  the iteration order is proved not to, a Go string is a list of bytes, \<open>int64\<close> is a 64-bit word with signed comparison
  written out, a call that may fail returns \<open>go_error + 'a\<close> with one constructor per error type and the reason code
  as its argument (message texts are left out), and a method that mutates its receiver returns the new one. A mutex
  around a method makes the call one step; a call with several locked regions has a program counter between them, and what a
  store, a session or a resolver answers is an argument of the step. The file system, the regexp engine and the clock are
  arguments. Proposal and release calls read the store without a lock before they commit: in the machines of
  \<open>Proposal_Facts\<close> and \<open>Release_System\<close> every read may see an older committed store, in \<open>AppendTransition\<close> and
  \<open>commitActivate\<close> as functions the call runs alone. Their invariants take a set \<open>T\<close> of the texts that are ever hashed and
  assume that the digest is injective on it. The theorems on one call do not need it; where one of them speaks of the replay after
  the call, it excludes that the store already held another text with the digest of the new event.

  \<^bold>\<open>Theories, in the order of the code.\<close>
  \<^item> \<open>Go_Prelude\<close>, \<open>Go_Text\<close>, \<open>Go_Path\<close>, \<open>Decimal\<close>: maps, results, checked traversals, UTF-8 and UTF-16, \<open>path\<close>, \<open>strconv\<close>.
  \<^item> \<open>Canonical\<close>, \<open>Json_Decode\<close>, \<open>Canonical_Facts\<close>: \<open>contract/canonical.go\<close> with SHA-256 itself and the strict decoder of
    \<open>contract/dto.go\<close>. Canonical bytes decode back and are a fixed point; equal keys mean equal documents.
  \<^item> \<open>Refs\<close>: the exact references of \<open>contract/dto.go\<close>. A parser accepts exactly the renderings of well-formed references.
  \<^item> \<open>Reason_Policy\<close>: \<open>contract/reason.go\<close>. A registry that loads is total, closed and digest-verified.
  \<^item> \<open>Schema\<close>: \<open>validation/schema.go\<close>, the schema set with its lazy cache as a state. The stateful interpreter refines a
    cache-free one. The recursion is bounded by the code's own depth limit of 64, no fuel is added.
  \<^item> \<open>Gates\<close>: \<open>validation/gates.go\<close>, digest preimages, extensions and the permission cap; exactly which instances the pipeline accepts.
  \<^item> \<open>State_Bundle\<close>: \<open>validation/states.go\<close>, machines loaded from tables and the replay of event logs along them.
  \<^item> \<open>Checked_Arith\<close>, \<open>Pareto\<close>: \<open>evaluator/arithmetic.go\<close> and \<open>evaluator/pareto.go\<close> on words, compared with exact rationals.
  \<^item> \<open>Replay_Model\<close>, \<open>Canonicalizer\<close>, \<open>Accumulator\<close>, \<open>Canonicalizer_Facts\<close>: the \<open>replay\<close> package. \<open>Accumulator\<close> is the
    interface of a saturating counter (locale \<open>accumulator\<close>); the aggregator of the code interprets it, and exactness
    and order independence of the whole canonicaliser rest on it.
  \<^item> \<open>Plain_Json\<close>, \<open>Evaluator\<close>, \<open>Evaluator_Facts\<close>: \<open>evaluator/evaluator.go\<close>, \<open>gates.go\<close>, \<open>decide.go\<close>, \<open>writer.go\<close>. The locale
    \<open>hard_gate\<close> is the contract of one gate, interpreted by the nine gates of the code; \<open>Decide\<close> accepts exactly when all
    of them, the result status and the comparison agree.
  \<^item> \<open>Ledger\<close>, \<open>Ledger_Tx\<close>, \<open>Ledger_Facts\<close>, \<open>Ledger_Promises\<close>: \<open>ledger/ports.go\<close>, \<open>memory.go\<close> and \<open>transaction.go\<close>, the five maps of
    the store, staged write sets and their commit with compensation. The locale \<open>compensated\<close> is the contract of one phase of
    the commit, interpreted by its five phases; commits are atomic, history is append-only, heads lose no update.
  \<^item> \<open>Go_Marshal\<close>, \<open>Event_Stream\<close>: \<open>json.Marshal\<close> and what the strict decoder reads back from it; the locale \<open>event_stream\<close> is the
    contract of a state replayed from a ledger stream, interpreted by the proposal engine and by the release service.
  \<^item> \<open>Proposal_Engine\<close>, \<open>Proposal_Facts\<close>, \<open>Proposal_Promises\<close>: \<open>proposal/engine.go\<close>. Every committed proposal stream is a numbered run
    of the authority machine from one genesis event, a terminal proposal stays as it is, and what one \<open>AppendTransition\<close> does.
  \<^item> \<open>Activation\<close>: \<open>activation/service.go\<close> and \<open>transaction.go\<close>, function by function; the read model and the documents of
    a transaction are collected in a record (\<open>releaseArtifacts\<close>) before anything is staged, as the code does.
    \<open>Activation_Facts\<close>, \<open>Release_Stages\<close>: the documents are readable and the write set has one event with its head swaps.
    \<open>Release_Log\<close>, \<open>Release_Invariant\<close>, \<open>Release_System\<close>: the invariant that ties the replay, the heads and the mapping chain together, kept under
    interleaving. \<open>Release_Effects\<close>, \<open>Release_Progress\<close>: what one call does on any store, and when an activation, a deactivation and a reactivation go through.
    \<open>Release_Sample\<close>, \<open>Release_Promises\<close>: concrete stores and requests, and the properties.
  \<^item> \<open>Replay_Decision\<close> and this theory: the canonicaliser feeding the evaluator.
  \<^item> \<open>Host_Prelude\<close>: reachability and the locales \<open>component\<close> (an invariant kept by every step) and \<open>stable\<close> (a property that
    holds forever once it holds), interpreted by every machine of the host and by the ledger. \<open>Host_Progress\<close>: step counts and
    the locale \<open>quiescing\<close>, a decreasing amount of work under which a component comes to rest by itself.
  \<^item> \<open>Delivery\<close>, \<open>Room_Service\<close>, \<open>Room_Lifecycle\<close>: the delivery state machine and the dag authority, the idempotent message
    service, and the epoch compare-and-swap with its fences.
  \<^item> \<open>Directed_Offer\<close>, \<open>Directed_Offer_Facts\<close>, \<open>Directed_Offer_Promises\<close>: \<open>directedoffer/coordinator.go\<close>, one interrupt cycle
    per agent as a transition system of calls and goroutines; it terminates, keeps every mention once and in room order, and
    strands a mention that comes too late for its cycle.
  \<^item> \<open>Go_Strings\<close>, \<open>Skill_Fence\<close>, \<open>Skill_Fence_Facts\<close>: \<open>skillfence/fence.go\<close> and \<open>digest.go\<close>; a skill is served exactly when
    its exact body arrived, the decision of a call id is final, and what overlapping calls and ids used again can do.
  \<^item> \<open>Effects_Interrupt\<close>: \<open>effectsinterrupt/coordinator.go\<close> and \<open>runner.go\<close>; the attempt budget and the quarantine.
  \<^item> \<open>Freeze_Cut\<close>: \<open>consolidationcut/coordinator.go\<close>; freezes of one key agree; a snapshot that permits submission has receipts that cover the
    sealed segments (\<open>covering\<close>), as the code checks it: with a segment named twice, a foreign receipt passes.

  \<^bold>\<open>Bounds.\<close> Counters of the code are 64-bit and wrap; where a theorem needs fewer than $2^{63}$ runs, packets or identifiers, or a version that
  does not wrap, it says so. The walk along the mapping records takes at most $2^{20}$ steps, as in the code (\<open>max_hops\<close>), and theorems that rely on finding a
  record assume no more versions than that. Nothing else is bounded.

  \<^bold>\<open>Not modelled.\<close> Message texts of errors; HTTP routing, process start-up, drivers, benchmark runners and the remote embedding
  client (I/O around the services); floating-point scoring; goroutine scheduling inside the host runtime; port calls of other
  goroutines inside a commit, panics of callbacks, grace periods in real time and the scripted sessions of the tests. Of the graph
  memory service the projector, the merge service, retrieval, probation, promotion and the bookkeeping services around them, and of the host the
  segment, tool proxy, exploration and replay scheduling components, are outside this development. The merge service has an activation
  of its own that writes the activation stream: the release invariants speak of systems without it.
\<close>

subsection \<open>Canonicaliser and evaluator together\<close>

lemma accepted_cases:
  assumes "Decide ev e cmp inp = Inr d" "in_result_doc inp = Some doc" "dn_outcome d = OutcomeAccepted"
  shows "doc_status doc = StatusSucceeded" "in_candidate_cases inp = rc_cand (recount_all (in_records inp))"
    "in_enveloped_cases inp = rc_env (recount_all (in_records inp))"
  using Decide_Inr [OF assms(1,2)] assms(3) by (auto simp: all_ok_def infra_ok_def split: if_splits)

text \<open>
  C38: a replay in which, on some side, the number of observed runs differs from the number of planned packets is never accepted: for instance when every planned packet of
  the side was run and one of them twice, even if the rerun reproduced the same output. The canonicaliser counts every observed run as a case, the evaluator recounts one
  case per planned packet; when its input carries the records and the two case counts of the honest result, as they are, it does not accept, whatever the rest of its input. Nothing is
  claimed for a replay in which a rerun of one packet makes up for another packet that was never run. Costs are not negative and there are fewer than 2^63 runs and packets.
\<close>

theorem reruns_never_accepted:
  assumes "Canonicalize ev s (Some req) (Some plan) runs = Inr res" "\<forall>run \<in> set runs. 0 \<le> sint (ro_cost run)"
    "length runs < 2 ^ 63" "length (plan_packets plan) < 2 ^ 63"
    "length (filter (\<lambda>run. is_cand (ro_side run) = b) runs) \<noteq> length (filter (\<lambda>fp. is_cand (pk_side (snd fp)) = b) (plan_packets plan))"
    "Decide ev' e cmp inp = Inr d" "in_result_doc inp = Some (Result_Doc res)" "in_records inp = rs_records res"
    "in_candidate_cases inp = rs_candidate_cases res" "in_enveloped_cases inp = rs_envelope_cases res"
  shows "dn_outcome d \<noteq> OutcomeAccepted"
proof
  assume accepted: "dn_outcome d = OutcomeAccepted"
  note ok = accepted_cases [OF assms(6,7) accepted]
  have "rs_status res = StatusSucceeded"
    using ok(1) by (simp add: doc_status_def Result_Doc_def Let_def gidx_def str_or_empty_def AsString_def split: if_splits)
  then have "rs_failure res \<noteq> ReasonUtilityArithmeticOverflow"
    using assms(1) finish_fields(1,2) unfolding Canonicalize_Inr by blast
  from cases_are_runs [OF assms(1) this assms(2,3)]
  have runs: "sint (cases_of b res) = int (length (filter (\<lambda>run. is_cand (ro_side run) = b) runs))" .
  have "length (filter P (plan_packets plan)) < 2 ^ 63" for P by (rule le_less_trans [OF length_filter_le assms(4)])
  then have packets: "sint (word_of_nat (length (filter (\<lambda>r. is_cand (rr_side r) = b) (rs_records res))) :: int64) =
      int (length (filter (\<lambda>fp. is_cand (pk_side (snd fp)) = b) (plan_packets plan)))"
    unfolding recount_of_result [OF assms(1)] by (rule word_of_nat_length)
  have "cases_of b res = word_of_nat (length (filter (\<lambda>r. is_cand (rr_side r) = b) (rs_records res)))"
    using ok(2,3) assms(8-10) by (cases b) (simp_all add: cases_of_def recount_cases)
  with runs packets assms(5) show False by simp
qed

definition rerun_input :: "Result \<Rightarrow> Input" where
  "rerun_input res = sample_input\<lparr>in_result_doc := Some (Result_Doc res), in_records := rs_records res,
     in_candidate_cases := rs_candidate_cases res, in_enveloped_cases := rs_envelope_cases res\<rparr>"

theorem reruns_never_accepted_witness:
  "\<exists>res d. Canonicalize sample_env sample_service (Some sample_request) (Some sample_plan) [sample_run 1, sample_run 2] = Inr res \<and>
     Decide sample_env sample_gates sample_comparator (rerun_input res) = Inr d \<and> dn_outcome d \<noteq> OutcomeAccepted"
proof -
  obtain res where res: "Canonicalize sample_env sample_service (Some sample_request) (Some sample_plan) [sample_run 1, sample_run 2] = Inr res"
    using sample_replay [OF _ sample_runs(1)] by blast
  have one: "integerForm ''1''" by code_simp
  have "\<exists>d. Decide sample_env sample_gates sample_comparator (rerun_input res) = Inr d"
  proof (rule Decide_total)
    show "plain_input (rerun_input res) sample_comparator"
      using one by (simp add: plain_input_def rerun_input_def sample_input_def sample_comparator_def sample_request_def sample_ref_def)
    show "validateComparator sample_comparator = Inr ()" by (simp add: validateComparator_def sample_comparator_def)
    show "in_result_doc (rerun_input res) = Some (Result_Doc res)" by (simp add: rerun_input_def)
    show "car_candidate_id (in_candidate (rerun_input res)) \<noteq> []" "car_body_digest (in_candidate (rerun_input res)) \<noteq> []"
      by (simp_all add: rerun_input_def sample_input_def sample_request_def sample_digest_def)
  qed (simp_all add: rerun_input_def sample_input_def sample_gates_def)
  then obtain d where d: "Decide sample_env sample_gates sample_comparator (rerun_input res) = Inr d" ..
  have neq: "length (filter (\<lambda>run. is_cand (ro_side run) = False) [sample_run 1, sample_run 2]) \<noteq>
      length (filter (\<lambda>fp. is_cand (pk_side (snd fp)) = False) (plan_packets sample_plan))"
    by (simp add: sample_run_def is_cand_def plan_packets_def sample_plan_def sample_packet_def)
  have len: "length (plan_packets sample_plan) < 2 ^ 63" by (simp add: plan_packets_def sample_plan_def)
  have "dn_outcome d \<noteq> OutcomeAccepted"
    by (rule reruns_never_accepted [OF res sample_runs(3,2) len neq d]) (simp_all add: rerun_input_def)
  with res d show ?thesis by blast
qed

end
